(* ===== verification/Prelude.thy ===== *)
theory Prelude
  imports Main "HOL-Library.Word" "HOL-Library.Char_ord"
begin

text \<open>
  Shared vocabulary of the development: byte buffers and the C string and memory
  routines the test code calls on them (memset, memcpy, the kernel's own notions of a
  positional write, a truncation and a hole), and the decimal and hexadecimal
  conversions of snprintf that build file and attribute names.  The lemmas are about
  lists and strings only; the collections \<open>wp_simps\<close>, \<open>buf_simps\<close> and
  \<open>fs_simps\<close> are filled by the component theories.
\<close>

named_theorems wp_simps "weakest precondition equations of the test monad"
named_theorems buf_simps "equations of the byte buffer operations"
named_theorems fs_simps "equations of the file system view"

type_synonym byte = "8 word"
type_synonym u32 = "32 word"
type_synonym u64 = "64 word"

section \<open>Byte buffers\<close>

definition blit :: "nat \<Rightarrow> 'a list \<Rightarrow> 'a list \<Rightarrow> 'a list" where
  \<comment> \<open>memcpy of \<open>d\<close> into the array \<open>xs\<close> at offset \<open>off\<close>\<close>
  "blit off d xs = take off xs @ d @ drop (off + length d) xs"

definition fill0 :: "nat \<Rightarrow> nat \<Rightarrow> byte list \<Rightarrow> byte list" where
  \<comment> \<open>memset of \<open>n\<close> bytes to 0 at offset \<open>off\<close>\<close>
  "fill0 off n xs = blit off (replicate n 0) xs"

definition resize :: "nat \<Rightarrow> byte list \<Rightarrow> byte list" where
  \<comment> \<open>contents of a file after a truncate to \<open>n\<close> bytes: cut off or extended by zeros\<close>
  "resize n xs = take n xs @ replicate (n - length xs) 0"

definition write_at :: "nat \<Rightarrow> byte list \<Rightarrow> byte list \<Rightarrow> byte list" where
  \<comment> \<open>contents of a file after writing \<open>d\<close> at \<open>pos\<close>, a hole before it reading as zeros\<close>
  "write_at pos d xs =
     (if d = [] then xs
      else take pos xs @ replicate (pos - length xs) 0 @ d @ drop (pos + length d) xs)"

definition read_at :: "nat \<Rightarrow> nat \<Rightarrow> byte list \<Rightarrow> byte list" where
  \<comment> \<open>the bytes a read of at most \<open>n\<close> bytes at \<open>pos\<close> returns\<close>
  "read_at pos n xs = take n (drop pos xs)"

definition punch :: "nat \<Rightarrow> nat \<Rightarrow> byte list \<Rightarrow> byte list" where
  \<comment> \<open>contents after punching a hole that keeps the size\<close>
  "punch off n xs = take off xs @ replicate (min n (length xs - off)) 0 @ drop (off + n) xs"

lemma length_blit [simp]: "off + length d \<le> length xs \<Longrightarrow> length (blit off d xs) = length xs"
  by (simp add: blit_def)

lemma length_fill0 [simp]: "off + n \<le> length xs \<Longrightarrow> length (fill0 off n xs) = length xs"
  by (simp add: fill0_def)

lemma length_resize [simp]: "length (resize n xs) = n"
  by (simp add: resize_def)

lemma length_write_at [simp]:
  "length (write_at pos d xs) = (if d = [] then length xs else max (length xs) (pos + length d))"
  by (auto simp: write_at_def)

lemma length_read_at [simp]: "length (read_at pos n xs) = min n (length xs - pos)"
  by (simp add: read_at_def)

lemma length_punch [simp]: "length (punch off n xs) = length xs"
  by (simp add: punch_def)

lemma write_at_Nil [simp]: "write_at pos [] xs = xs"
  by (simp add: write_at_def)

lemma nth_blit [buf_simps]:
  "off + length d \<le> length xs \<Longrightarrow> i < length xs \<Longrightarrow>
   blit off d xs ! i = (if off \<le> i \<and> i < off + length d then d ! (i - off) else xs ! i)"
  by (auto simp: blit_def nth_append min_def)

lemma nth_fill0 [buf_simps]:
  "off + n \<le> length xs \<Longrightarrow> i < length xs \<Longrightarrow>
   fill0 off n xs ! i = (if off \<le> i \<and> i < off + n then 0 else xs ! i)"
  by (auto simp: fill0_def nth_blit)

lemma nth_resize [buf_simps]:
  "i < n \<Longrightarrow> resize n xs ! i = (if i < length xs then xs ! i else 0)"
  by (auto simp: resize_def nth_append)

lemma nth_write_at [buf_simps]:
  "i < length (write_at pos d xs) \<Longrightarrow>
   write_at pos d xs ! i =
     (if pos \<le> i \<and> i < pos + length d then d ! (i - pos)
      else if i < length xs then xs ! i else 0)"
  by (auto simp: write_at_def nth_append min_def split: if_splits)

lemma nth_punch [buf_simps]:
  "i < length xs \<Longrightarrow>
   punch off n xs ! i = (if off \<le> i \<and> i < off + n then 0 else xs ! i)"
  by (auto simp: punch_def nth_append min_def)

lemma nth_read_at [buf_simps]:
  "i < length (read_at pos n xs) \<Longrightarrow> read_at pos n xs ! i = xs ! (pos + i)"
  by (auto simp: read_at_def)

lemma read_at_write_at [simp]: "read_at pos (length d) (write_at pos d xs) = d"
proof (cases "d = []")
  case False
  then have "length (read_at pos (length d) (write_at pos d xs)) = length d" by simp
  then show ?thesis by (rule nth_equalityI) (use False in \<open>simp add: buf_simps\<close>)
qed (simp add: read_at_def)

lemma write_at_end: "write_at (length xs) d xs = xs @ d"
  by (simp add: write_at_def)

lemma write_at_append: "write_at (length xs) d (xs @ ys) = xs @ d @ drop (length d) ys"
  by (cases "d = []") (simp_all add: write_at_def)

lemma write_at_then: "write_at (p + length a) b (write_at p a xs) = write_at p (a @ b) xs"
proof (cases "a = [] \<or> b = []")
  case False
  then have "length (write_at (p + length a) b (write_at p a xs)) = length (write_at p (a @ b) xs)" by simp
  then show ?thesis
    by (rule nth_equalityI) (use False in \<open>auto simp: nth_write_at nth_append\<close>)
qed auto

lemma read_at_append: "read_at (length xs) (length ys) (xs @ ys @ zs) = ys"
  by (simp add: read_at_def)

lemma read_at_take: "pos + n \<le> m \<Longrightarrow> read_at pos n (take m xs) = read_at pos n xs"
  by (simp add: read_at_def drop_take min_absorb1)

lemma resize_0 [simp]: "resize 0 xs = []"
  by (simp add: resize_def)

lemma write_at_blit:
  "pos + length d \<le> length xs \<Longrightarrow> write_at pos d xs = blit pos d xs"
  by (cases "d = []") (simp_all add: write_at_def blit_def)

lemma take_write_at: "pos \<le> length xs \<Longrightarrow> take (pos + length d) (write_at pos d xs) = take pos xs @ d"
  by (cases "d = []") (simp_all add: write_at_def)

lemma read_at_0: "length xs \<le> n \<Longrightarrow> read_at 0 n xs = xs"
  by (simp add: read_at_def)

lemma read_at_resize_hole: "\<lbrakk>length xs \<le> pos; pos + n \<le> m\<rbrakk> \<Longrightarrow> read_at pos n (resize m xs) = replicate n 0"
  by (simp add: read_at_def resize_def)

lemma read_at_concat:
  "\<lbrakk>\<forall>x \<in> set xs. length x = k; i < length xs\<rbrakk> \<Longrightarrow> read_at (i * k) k (concat xs) = xs ! i"
proof (induction xs arbitrary: i)
  case (Cons x xs)
  then show ?case by (cases i) (simp_all add: read_at_def)
qed simp

lemma length_concat_same: "\<forall>x \<in> set xs. length x = k \<Longrightarrow> length (concat xs) = length xs * k"
  by (induction xs) simp_all

text \<open>Integers in memory: the machine is little-endian.\<close>

primrec le_bytes :: "nat \<Rightarrow> nat \<Rightarrow> byte list" where
  "le_bytes 0 v = []"
| "le_bytes (Suc k) v = of_nat v # le_bytes k (v div 256)"

primrec le_val :: "byte list \<Rightarrow> nat" where
  "le_val [] = 0"
| "le_val (b # bs) = unat b + 256 * le_val bs"

lemma length_le_bytes [simp]: "length (le_bytes k v) = k"
  by (induction k arbitrary: v) simp_all

lemma le_val_bytes: "le_val (le_bytes k v) = v mod 256 ^ k"
proof (induction k arbitrary: v)
  case (Suc k)
  have "v mod (256 * 256 ^ k) = 256 * (v div 256 mod 256 ^ k) + v mod 256" by (rule mod_mult2_eq)
  then show ?case by (simp add: Suc unat_of_nat)
qed simp

lemma le_val_bytes_small: "v < 256 ^ k \<Longrightarrow> le_val (le_bytes k v) = v"
  by (simp add: le_val_bytes)

definition to_bytes :: "string \<Rightarrow> byte list" where
  \<comment> \<open>the bytes of a C string, without the final zero\<close>
  "to_bytes cs = map of_char cs"

lemma length_to_bytes [simp]: "length (to_bytes cs) = length cs"
  by (simp add: to_bytes_def)

lemma to_bytes_append: "to_bytes (cs @ ds) = to_bytes cs @ to_bytes ds"
  by (simp add: to_bytes_def)

text \<open>The first byte where two buffers differ, as the checking loops report it.\<close>

fun first_diff :: "'a list \<Rightarrow> 'a list \<Rightarrow> nat option" where
  "first_diff (x # xs) (y # ys) =
     (if x \<noteq> y then Some 0 else map_option Suc (first_diff xs ys))"
| "first_diff _ _ = None"

lemma first_diff_same [simp]: "first_diff xs xs = None"
  by (induction xs) auto

lemma first_diff_None: "length xs = length ys \<Longrightarrow> first_diff xs ys = None \<longleftrightarrow> xs = ys"
  by (induction xs ys rule: list_induct2) auto

lemma first_diff_Some:
  "first_diff xs ys = Some i \<Longrightarrow> i < length xs \<and> i < length ys \<and> xs ! i \<noteq> ys ! i \<and> take i xs = take i ys"
  by (induction xs ys arbitrary: i rule: first_diff.induct) (auto split: if_splits)

section \<open>snprintf conversions\<close>

definition digit :: "nat \<Rightarrow> char" where
  "digit d = char_of (if d < 10 then 48 + d else 87 + d)"

fun dec :: "nat \<Rightarrow> string" where
  \<comment> \<open>\<open>%d\<close>, \<open>%u\<close> of a non-negative value\<close>
  "dec n = (if n < 10 then [digit n] else dec (n div 10) @ [digit (n mod 10)])"

declare dec.simps [simp del]

definition dec_int :: "int \<Rightarrow> string" where
  \<comment> \<open>\<open>%d\<close>, \<open>%lld\<close>\<close>
  "dec_int i = (if i < 0 then CHR ''-'' # dec (nat (- i)) else dec (nat i))"

definition dec02 :: "nat \<Rightarrow> string" where
  \<comment> \<open>\<open>%02d\<close>\<close>
  "dec02 n = (if n < 10 then CHR ''0'' # dec n else dec n)"

definition undigit :: "char \<Rightarrow> nat" where
  "undigit c = of_char c - 48"

lemma undigit_digit [simp]: "d < 10 \<Longrightarrow> undigit (digit d) = d"
  by (simp add: undigit_def digit_def)

definition undec :: "string \<Rightarrow> nat" where
  "undec cs = foldl (\<lambda>a c. 10 * a + undigit c) 0 cs"

lemma undec_dec [simp]: "undec (dec n) = n"
proof (induction n rule: dec.induct)
  case (1 n)
  show ?case
    by (cases "n < 10") (use "1" in \<open>simp_all add: dec.simps [of n] undec_def\<close>)
qed

lemma dec_inject [simp]: "dec m = dec n \<longleftrightarrow> m = n"
  by (metis undec_dec)

lemma undec_dec02 [simp]: "undec (dec02 n) = n"
proof -
  have "undigit (CHR ''0'') = 0" by (simp add: undigit_def)
  then have "undec (CHR ''0'' # cs) = undec cs" for cs by (simp add: undec_def)
  then show ?thesis by (simp add: dec02_def)
qed

lemma dec02_inject [simp]: "dec02 m = dec02 n \<longleftrightarrow> m = n"
  by (metis undec_dec02)

lemma of_char_digit: "d < 10 \<Longrightarrow> (of_char (digit d) :: nat) = 48 + d"
  by (simp add: digit_def)

lemma digit_not_slash [simp]: "d < 10 \<Longrightarrow> digit d \<noteq> CHR ''/''"
proof
  assume "d < 10" "digit d = CHR ''/''"
  then have "48 + d = (of_char (CHR ''/'') :: nat)" using of_char_digit [of d] by simp
  then show False by simp
qed

lemma dec_no_slash [simp]: "CHR ''/'' \<notin> set (dec n)"
proof (induction n rule: dec.induct)
  case (1 n)
  have "CHR ''/'' \<noteq> digit (n mod 10)"
    by (rule not_sym, rule digit_not_slash) simp
  moreover have "n < 10 \<Longrightarrow> CHR ''/'' \<noteq> digit n"
    by (rule not_sym) (rule digit_not_slash)
  ultimately show ?case
    using 1 by (cases "n < 10") (simp_all add: dec.simps [of n])
qed

lemma dec02_no_slash [simp]: "CHR ''/'' \<notin> set (dec02 n)"
  by (simp add: dec02_def)

lemma dec_not_Nil [simp]: "dec n \<noteq> []"
  by (simp add: dec.simps [of n])

text \<open>The part of a path before its last component.\<close>

definition dirname :: "string \<Rightarrow> string" where
  "dirname p = rev (tl (dropWhile (\<lambda>c. c \<noteq> CHR ''/'') (rev p)))"

lemma dirname_comp:
  assumes "CHR ''/'' \<notin> set b"
  shows "dirname (d @ CHR ''/'' # b) = d"
proof -
  have "dropWhile (\<lambda>c. c \<noteq> CHR ''/'') (rev b @ [CHR ''/''] @ rev d) = CHR ''/'' # rev d"
    by (subst dropWhile_append2) (use assms in auto)
  then show ?thesis by (simp add: dirname_def)
qed

lemma dirname_prefix: "\<exists>r. p = dirname p @ r"
proof -
  let ?P = "\<lambda>c. c \<noteq> CHR ''/''"
  have "p = rev (takeWhile ?P (rev p) @ dropWhile ?P (rev p))" by simp
  then have p: "p = rev (dropWhile ?P (rev p)) @ rev (takeWhile ?P (rev p))" by (simp only: rev_append)
  show ?thesis
  proof (cases "dropWhile ?P (rev p)")
    case Nil
    then show ?thesis by (intro exI [of _ p]) (simp only: dirname_def list.sel rev.simps append_Nil)
  next
    case (Cons c cs)
    then show ?thesis using p by (intro exI [of _ "c # rev (takeWhile ?P (rev p))"]) (simp add: dirname_def)
  qed
qed

lemma dirname_take: "take (length m) (dirname p) = m \<Longrightarrow> take (length m) p = m"
proof -
  assume m: "take (length m) (dirname p) = m"
  obtain r where "p = dirname p @ r" using dirname_prefix by blast
  moreover have "length m \<le> length (dirname p)" using m by (metis length_take min.cobounded1)
  ultimately show ?thesis using m by (metis append_take_drop_id take_append diff_is_0_eq take0 append_Nil2)
qed

end
