(* ===== verification/Kernel.thy ===== *)
theory Kernel
  imports Prelude
begin

text \<open>
  The interface of the program to the kernel it is linked into.  None of the functions
  the test code calls (\<open>fs/namei.c\<close>, \<open>fs/open.c\<close>, the VFS, knfsd, the cred and
  mount code, \<open>lib/random32.c\<close>, KUnit's allocator) is in the repository, so each is a
  field of the record \<open>kernel\<close>, a function on an unspecified world \<open>'w\<close>; every
  definition of the development that calls one takes the record as an argument.
  Nothing is assumed of a field here.  Files and paths are numbers (the pointers the
  kernel hands out), an \<open>ERR_PTR\<close> is \<open>Inl\<close> of the negative errno, and reads and
  writes return the new file position the C code receives through its pointer argument.
  What the code relies on is stated as the laws of the locales of the theories
  Resources, Posix, Server and Sparse.
\<close>

section \<open>Constants of the kernel's ABI\<close>

definition EPERM :: int where "EPERM = 1"
definition ENOENT :: int where "ENOENT = 2"
definition EIO :: int where "EIO = 5"
definition ENXIO :: int where "ENXIO = 6"
definition ENOMEM :: int where "ENOMEM = 12"
definition EACCES :: int where "EACCES = 13"
definition EBUSY :: int where "EBUSY = 16"
definition EEXIST :: int where "EEXIST = 17"
definition ENOTDIR :: int where "ENOTDIR = 20"
definition EISDIR :: int where "EISDIR = 21"
definition EINVAL :: int where "EINVAL = 22"
definition EFBIG :: int where "EFBIG = 27"
definition EMLINK :: int where "EMLINK = 31"
definition ERANGE :: int where "ERANGE = 34"
definition ENOTEMPTY :: int where "ENOTEMPTY = 39"
definition ELOOP :: int where "ELOOP = 40"
definition ENODATA :: int where "ENODATA = 61"
definition EOPNOTSUPP :: int where "EOPNOTSUPP = 95"
definition ETIMEDOUT :: int where "ETIMEDOUT = 110"

lemmas errno_defs = EPERM_def ENOENT_def EIO_def ENXIO_def ENOMEM_def EACCES_def EBUSY_def EEXIST_def
  ENOTDIR_def EISDIR_def EINVAL_def EFBIG_def EMLINK_def ERANGE_def ENOTEMPTY_def ELOOP_def ENODATA_def
  EOPNOTSUPP_def ETIMEDOUT_def

text \<open>The flags of setxattr(2); 0 is neither.\<close>

definition XATTR_CREATE :: nat where "XATTR_CREATE = 1"
definition XATTR_REPLACE :: nat where "XATTR_REPLACE = 2"

definition PAGE_SIZE :: nat where "PAGE_SIZE = 4096"

text \<open>A file mode, by its three octal digits.\<close>

definition mode3 :: "nat \<Rightarrow> nat \<Rightarrow> nat \<Rightarrow> nat" where
  "mode3 u g oth = 64 * u + 8 * g + oth"

text \<open>Open flags, as the set of those given.\<close>

datatype oflag =
  O_RDONLY | O_WRONLY | O_RDWR | O_CREAT | O_EXCL | O_TRUNC | O_APPEND | O_LARGEFILE | O_DIRECTORY |
  O_DIRECT | O_SYNC

section \<open>Values passed across the interface\<close>

type_synonym fileptr = "int + nat"
type_synonym pathref = "int + nat"

abbreviation IS_ERR :: "int + nat \<Rightarrow> bool" where "IS_ERR \<equiv> isl"
abbreviation PTR_ERR :: "int + nat \<Rightarrow> int" where "PTR_ERR \<equiv> projl"

datatype ftype = S_REG | S_DIR | S_LNK | S_CHR | S_BLK | S_FIFO

abbreviation S_ISREG :: "ftype \<Rightarrow> bool" where "S_ISREG t \<equiv> t = S_REG"
abbreviation S_ISDIR :: "ftype \<Rightarrow> bool" where "S_ISDIR t \<equiv> t = S_DIR"
abbreviation S_ISLNK :: "ftype \<Rightarrow> bool" where "S_ISLNK t \<equiv> t = S_LNK"

record kstat =
  st_ino :: nat
  st_type :: ftype
  st_perm :: nat
  st_size :: int
  st_nlink :: nat
  st_uid :: nat
  st_gid :: nat
  st_blksize :: nat

text \<open>The type bits of a mode, and the type of a directory entry.\<close>

definition S_IFIFO :: nat where "S_IFIFO = 4096"
definition S_IFCHR :: nat where "S_IFCHR = 8192"
definition S_IFBLK :: nat where "S_IFBLK = 24576"

definition DT_UNKNOWN :: nat where "DT_UNKNOWN = 0"
definition DT_FIFO :: nat where "DT_FIFO = 1"
definition DT_CHR :: nat where "DT_CHR = 2"
definition DT_DIR :: nat where "DT_DIR = 4"
definition DT_BLK :: nat where "DT_BLK = 6"
definition DT_REG :: nat where "DT_REG = 8"
definition DT_LNK :: nat where "DT_LNK = 10"

lemmas mode_defs = S_IFIFO_def S_IFCHR_def S_IFBLK_def
lemmas dt_defs = DT_UNKNOWN_def DT_FIFO_def DT_CHR_def DT_DIR_def DT_BLK_def DT_REG_def DT_LNK_def

text \<open>The type mknod(2) gives a special file.\<close>

definition special_type :: "nat \<Rightarrow> ftype option" where
  "special_type mode = (let t = mode div 4096 * 4096 in
     if t = S_IFIFO then Some S_FIFO else if t = S_IFCHR then Some S_CHR else if t = S_IFBLK then Some S_BLK else None)"

fun dt_of :: "ftype \<Rightarrow> nat" where
  "dt_of S_REG = DT_REG" | "dt_of S_DIR = DT_DIR" | "dt_of S_LNK = DT_LNK"
| "dt_of S_CHR = DT_CHR" | "dt_of S_BLK = DT_BLK" | "dt_of S_FIFO = DT_FIFO"

text \<open>What an actor of \<open>iterate_dir\<close> is told of an entry, as far as the program looks: its name and its type.\<close>

type_synonym dirent = "string \<times> nat"

record kstatfs =
  f_bavail :: u64
  f_bsize :: u64

record timespec =
  tv_sec :: int
  tv_nsec :: int

record cred =
  c_uid :: nat
  c_euid :: nat
  c_suid :: nat
  c_fsuid :: nat
  c_gid :: nat
  c_egid :: nat
  c_sgid :: nat
  c_fsgid :: nat
  cap_inheritable :: "nat set"
  cap_permitted :: "nat set"
  cap_effective :: "nat set"

datatype lock_type = F_RDLCK | F_WRLCK | F_UNLCK
datatype lock_cmd = F_SETLK | F_SETLKW

record file_lock =
  flc_type :: lock_type
  flc_posix :: bool
  flc_sleep :: bool
  flc_owner :: nat
  flc_pid :: nat
  flc_file :: nat
  fl_start :: int
  fl_end :: int

datatype mount_flag = MS_REMOUNT | MS_RDONLY
datatype umount_flag = MNT_DETACH
datatype lookup_flag = LOOKUP_FOLLOW
datatype whence = SEEK_SET | SEEK_DATA | SEEK_HOLE
datatype falloc_flag = FALLOC_FL_KEEP_SIZE | FALLOC_FL_PUNCH_HOLE
datatype sunrpc_cache = Ip_map | Svc_export | Svc_expkey
datatype transport = Udp | Tcp

type_synonym rnd_state = nat

section \<open>The interface record\<close>

text \<open>Names: the bodies of the path based system calls and \<open>struct path\<close> lookup.\<close>

record 'w kernel_names =
  do_mkdirat :: "string \<Rightarrow> nat \<Rightarrow> 'w \<Rightarrow> int \<times> 'w"
  do_rmdir :: "string \<Rightarrow> 'w \<Rightarrow> int \<times> 'w"
  do_unlinkat :: "string \<Rightarrow> 'w \<Rightarrow> int \<times> 'w"
  do_renameat2 :: "string \<Rightarrow> string \<Rightarrow> 'w \<Rightarrow> int \<times> 'w"
  do_linkat :: "string \<Rightarrow> string \<Rightarrow> 'w \<Rightarrow> int \<times> 'w"
  do_symlinkat :: "string \<Rightarrow> string \<Rightarrow> 'w \<Rightarrow> int \<times> 'w"
  do_mknodat :: "string \<Rightarrow> nat \<Rightarrow> nat \<Rightarrow> nat \<Rightarrow> 'w \<Rightarrow> int \<times> 'w"
  kern_path :: "string \<Rightarrow> lookup_flag set \<Rightarrow> 'w \<Rightarrow> pathref \<times> 'w"
  path_put :: "nat \<Rightarrow> 'w \<Rightarrow> 'w"

text \<open>Operations on a path reference.\<close>

record 'w kernel_attrs = "'w kernel_names" +
  vfs_getattr :: "nat \<Rightarrow> 'w \<Rightarrow> (int + kstat) \<times> 'w"
  vfs_get_link :: "nat \<Rightarrow> 'w \<Rightarrow> (int + string) \<times> 'w"
  vfs_truncate :: "nat \<Rightarrow> int \<Rightarrow> 'w \<Rightarrow> int \<times> 'w"
  vfs_statfs :: "nat \<Rightarrow> 'w \<Rightarrow> (int + kstatfs) \<times> 'w"
  chmod_common :: "nat \<Rightarrow> nat \<Rightarrow> 'w \<Rightarrow> int \<times> 'w"
  chown_common :: "nat \<Rightarrow> nat \<Rightarrow> nat \<Rightarrow> 'w \<Rightarrow> int \<times> 'w"
  vfs_utimes :: "nat \<Rightarrow> timespec \<times> timespec \<Rightarrow> 'w \<Rightarrow> int \<times> 'w"
  inode_permission :: "nat \<Rightarrow> nat \<Rightarrow> 'w \<Rightarrow> int \<times> 'w"
  mnt_want_write :: "nat \<Rightarrow> 'w \<Rightarrow> int \<times> 'w"
  mnt_drop_write :: "nat \<Rightarrow> 'w \<Rightarrow> 'w"
  vfs_setxattr :: "nat \<Rightarrow> string \<Rightarrow> string \<Rightarrow> nat \<Rightarrow> 'w \<Rightarrow> int \<times> 'w"
  vfs_getxattr :: "nat \<Rightarrow> string \<Rightarrow> nat \<Rightarrow> 'w \<Rightarrow> (int \<times> string) \<times> 'w"
  vfs_listxattr :: "nat \<Rightarrow> nat \<Rightarrow> 'w \<Rightarrow> (int \<times> string) \<times> 'w"
  vfs_removexattr :: "nat \<Rightarrow> string \<Rightarrow> 'w \<Rightarrow> int \<times> 'w"

text \<open>
  Open files.  A read returns the count, the bytes it stored at the start of the
  caller's buffer, and the new position; the last argument of the iocb operations says
  whether \<open>IOCB_DIRECT\<close> is set.
\<close>

record 'w kernel_files = "'w kernel_attrs" +
  filp_open :: "string \<Rightarrow> oflag set \<Rightarrow> nat \<Rightarrow> 'w \<Rightarrow> fileptr \<times> 'w"
  filp_close :: "nat \<Rightarrow> 'w \<Rightarrow> 'w"
  fput :: "nat \<Rightarrow> 'w \<Rightarrow> 'w"
  kernel_write :: "nat \<Rightarrow> byte list \<Rightarrow> int \<Rightarrow> 'w \<Rightarrow> (int \<times> int) \<times> 'w"
  kernel_read :: "nat \<Rightarrow> nat \<Rightarrow> int \<Rightarrow> 'w \<Rightarrow> (int \<times> byte list \<times> int) \<times> 'w"
  vfs_iocb_iter_write :: "nat \<Rightarrow> byte list \<Rightarrow> int \<Rightarrow> bool \<Rightarrow> 'w \<Rightarrow> (int \<times> int) \<times> 'w"
  vfs_iocb_iter_read :: "nat \<Rightarrow> nat \<Rightarrow> int \<Rightarrow> bool \<Rightarrow> 'w \<Rightarrow> (int \<times> byte list \<times> int) \<times> 'w"
  do_ftruncate :: "nat \<Rightarrow> int \<Rightarrow> 'w \<Rightarrow> int \<times> 'w"
  vfs_fsync :: "nat \<Rightarrow> 'w \<Rightarrow> int \<times> 'w"
  vfs_fallocate :: "nat \<Rightarrow> falloc_flag set \<Rightarrow> int \<Rightarrow> int \<Rightarrow> 'w \<Rightarrow> int \<times> 'w"
  vfs_llseek_end :: "nat \<Rightarrow> 'w \<Rightarrow> int \<times> 'w"
  locks_alloc_lock :: "'w \<Rightarrow> bool \<times> 'w"
  locks_free_lock :: "'w \<Rightarrow> 'w"
  vfs_lock_file :: "nat \<Rightarrow> lock_cmd \<Rightarrow> file_lock \<Rightarrow> 'w \<Rightarrow> int \<times> 'w"
  flush_delayed_fput :: "'w \<Rightarrow> 'w"
  msleep :: "nat \<Rightarrow> 'w \<Rightarrow> 'w"

text \<open>
  Credentials, memory and KUnit.  \<open>kmalloc\<close> stands for every allocator and says
  whether the allocation succeeded; \<open>kunit_add_action\<close> is the bookkeeping of
  \<open>kunit_add_action_or_reset\<close>, 0 or a negative errno.
\<close>

record 'w kernel_tasks = "'w kernel_files" +
  current_cred :: "'w \<Rightarrow> cred"
  prepare_creds :: "'w \<Rightarrow> cred option \<times> 'w"
  override_creds :: "cred \<Rightarrow> 'w \<Rightarrow> cred \<times> 'w"
  revert_creds :: "cred \<Rightarrow> 'w \<Rightarrow> 'w"
  put_cred :: "cred \<Rightarrow> 'w \<Rightarrow> 'w"
  abort_creds :: "cred \<Rightarrow> 'w \<Rightarrow> 'w"
  security_task_fix_setuid :: "cred \<Rightarrow> cred \<Rightarrow> 'w \<Rightarrow> (int \<times> cred) \<times> 'w"
  current_tgid :: "'w \<Rightarrow> nat"
  current_fs_root :: "'w \<Rightarrow> nat"
  path_get :: "nat \<Rightarrow> 'w \<Rightarrow> 'w"
  set_fs_root :: "nat \<Rightarrow> 'w \<Rightarrow> 'w"
  set_fs_pwd :: "nat \<Rightarrow> 'w \<Rightarrow> 'w"
  kmalloc :: "nat \<Rightarrow> 'w \<Rightarrow> bool \<times> 'w"
  kunit_add_action :: "'w \<Rightarrow> int \<times> 'w"
  prandom_seed_state :: "nat \<Rightarrow> rnd_state"
  prandom_u32_state :: "rnd_state \<Rightarrow> u32 \<times> rnd_state"

text \<open>Mounts, the loopback interface, knfsd and user mode helpers.\<close>

record 'w kernel = "'w kernel_tasks" +
  path_mount :: "string \<Rightarrow> nat \<Rightarrow> string \<Rightarrow> mount_flag set \<Rightarrow> string option \<Rightarrow> 'w \<Rightarrow> int \<times> 'w"
  path_umount :: "nat \<Rightarrow> umount_flag set \<Rightarrow> 'w \<Rightarrow> int \<times> 'w"
  lo_is_up :: "'w \<Rightarrow> bool"
  dev_change_flags_up :: "'w \<Rightarrow> int \<times> 'w"
  ktime_get_real_seconds :: "'w \<Rightarrow> int"
  cache_parse :: "sunrpc_cache \<Rightarrow> string \<Rightarrow> 'w \<Rightarrow> int \<times> 'w"
  nfsd_vers_clear :: "nat \<Rightarrow> 'w \<Rightarrow> 'w"
  nfsd_create_serv :: "'w \<Rightarrow> int \<times> 'w"
  svc_xprt_create :: "transport \<Rightarrow> nat \<Rightarrow> 'w \<Rightarrow> int \<times> 'w"
  nfsd_svc :: "nat \<Rightarrow> 'w \<Rightarrow> int \<times> 'w"
  nfsd4_end_grace :: "'w \<Rightarrow> 'w"
  call_usermodehelper_setup :: "string \<Rightarrow> string list \<Rightarrow> string list \<Rightarrow> string \<Rightarrow> 'w \<Rightarrow> bool \<times> 'w"
  call_usermodehelper_exec :: "'w \<Rightarrow> int \<times> 'w"
  replace_fd :: "nat \<Rightarrow> nat \<Rightarrow> 'w \<Rightarrow> int \<times> 'w"

end
