(* ===== verification/Harness.thy ===== *)
theory Harness
  imports Kernel
begin

text \<open>
  The language the test code is written in: C statements over the kernel's world and the
  file's static variables, with KUnit's macros.  A failed \<open>KUNIT_ASSERT_*\<close> ends the
  test thread (\<open>Abort\<close>), \<open>kunit_skip\<close> ends it with a skip, a failed
  \<open>KUNIT_EXPECT_*\<close> or \<open>KUNIT_FAIL\<close> is counted and the test goes on; \<open>Stuck\<close> is
  a loop that used up the iterations a definition grants it, where the source has no
  bound of its own.  Deferred actions are kept by the name of the function
  registered, most recent first, the order KUnit runs them in when the case ends.

  The second half is the calculus the proofs use: \<open>wp m Q s\<close> says that \<open>m\<close> runs to
  its end from \<open>s\<close> and establishes \<open>Q\<close>, with one equation per construct, rules for
  loops, and \<open>passes\<close>: the run neither aborts nor skips nor fails an expectation.
\<close>

section \<open>State and outcomes\<close>

record 'w kst =
  kw :: 'w                    \<comment> \<open>the kernel's world\<close>
  kfails :: nat               \<comment> \<open>failed expectations so far\<close>
  kactions :: "string list"   \<comment> \<open>deferred actions, most recent first\<close>

datatype ('a, 's) outcome = Ok 'a 's | Abort 's | Skip 's | Stuck 's

type_synonym ('s, 'a) prog = "'s \<Rightarrow> ('a, 's) outcome"

definition ret :: "'a \<Rightarrow> ('s, 'a) prog" where
  "ret a s = Ok a s"

definition bnd :: "('s, 'a) prog \<Rightarrow> ('a \<Rightarrow> ('s, 'b) prog) \<Rightarrow> ('s, 'b) prog" where
  "bnd m f s = (case m s of Ok a s' \<Rightarrow> f a s' | Abort s' \<Rightarrow> Abort s' | Skip s' \<Rightarrow> Skip s'
                 | Stuck s' \<Rightarrow> Stuck s')"

primrec seq :: "('s, unit) prog list \<Rightarrow> ('s, unit) prog" where
  "seq [] = ret ()"
| "seq (m # ms) = bnd m (\<lambda>_. seq ms)"

definition get :: "('s \<Rightarrow> 'a) \<Rightarrow> ('s, 'a) prog" where
  "get f s = Ok (f s) s"

definition modify :: "('s \<Rightarrow> 's) \<Rightarrow> ('s, unit) prog" where
  "modify f s = Ok () (f s)"

text \<open>The call's result is dropped, as in a C expression statement.\<close>

definition ignore :: "('s, 'a) prog \<Rightarrow> ('s, unit) prog" where
  "ignore m = bnd m (\<lambda>_. ret ())"

definition do_if :: "bool \<Rightarrow> ('s, unit) prog \<Rightarrow> ('s, unit) prog" where
  "do_if b m = (if b then m else ret ())"

text \<open>A call of a kernel function; \<open>kdo\<close> for one that returns void, \<open>kask\<close> for one that only reads.\<close>

definition kcall :: "('w \<Rightarrow> 'a \<times> 'w) \<Rightarrow> (('w, 'z) kst_scheme, 'a) prog" where
  "kcall op s = (case op (kw s) of (a, w) \<Rightarrow> Ok a (s\<lparr>kw := w\<rparr>))"

definition kdo :: "('w \<Rightarrow> 'w) \<Rightarrow> (('w, 'z) kst_scheme, unit) prog" where
  "kdo op s = Ok () (s\<lparr>kw := op (kw s)\<rparr>)"

definition kask :: "('w \<Rightarrow> 'a) \<Rightarrow> (('w, 'z) kst_scheme, 'a) prog" where
  "kask f s = Ok (f (kw s)) s"

section \<open>KUnit\<close>

definition kunit_fail :: "(('w, 'z) kst_scheme, unit) prog" where
  "kunit_fail s = Ok () (s\<lparr>kfails := Suc (kfails s)\<rparr>)"

definition kunit_expect :: "bool \<Rightarrow> (('w, 'z) kst_scheme, unit) prog" where
  "kunit_expect b = (if b then ret () else kunit_fail)"

definition kunit_assert :: "bool \<Rightarrow> (('w, 'z) kst_scheme, unit) prog" where
  "kunit_assert b s = (if b then Ok () s else Abort (s\<lparr>kfails := Suc (kfails s)\<rparr>))"

definition kunit_skip :: "('s, unit) prog" where
  "kunit_skip s = Skip s"

definition kunit_add_action_or_reset ::
  "'w kernel \<Rightarrow> string \<Rightarrow> (('w, 'z) kst_scheme, unit) prog \<Rightarrow> (('w, 'z) kst_scheme, int) prog" where
  "kunit_add_action_or_reset K nm action =
     bnd (kcall (kunit_add_action K)) (\<lambda>err.
       if err = 0 then bnd (modify (\<lambda>s. s\<lparr>kactions := nm # kactions s\<rparr>)) (\<lambda>_. ret 0)
       else bnd action (\<lambda>_. ret err))"

section \<open>Loops\<close>

definition for_each :: "'i list \<Rightarrow> ('i \<Rightarrow> ('s, unit) prog) \<Rightarrow> ('s, unit) prog" where
  "for_each is body = seq (map body is)"

text \<open>A loop whose body may leave it: the body says whether to go on.\<close>

primrec for_while :: "'i list \<Rightarrow> ('i \<Rightarrow> ('s, bool) prog) \<Rightarrow> ('s, bool) prog" where
  "for_while [] body = ret True"
| "for_while (i # is) body = bnd (body i) (\<lambda>go. if go then for_while is body else ret False)"

text \<open>A loop carrying local variables from one iteration to the next.\<close>

primrec for_fold :: "'i list \<Rightarrow> ('i \<Rightarrow> 'l \<Rightarrow> ('s, 'l) prog) \<Rightarrow> 'l \<Rightarrow> ('s, 'l) prog" where
  "for_fold [] body l = ret l"
| "for_fold (i # is) body l = bnd (body i l) (for_fold is body)"

text \<open>
  A loop without a bound in the source: the body returns \<open>Inl\<close> of the locals to go round
  again and \<open>Inr\<close> of the result to leave.
\<close>

primrec loop_fuel :: "nat \<Rightarrow> ('l \<Rightarrow> ('s, 'l + 'r) prog) \<Rightarrow> 'l \<Rightarrow> ('s, 'r) prog" where
  "loop_fuel 0 body l = (\<lambda>s. Stuck s)"
| "loop_fuel (Suc n) body l =
     bnd (body l) (\<lambda>r. case r of Inl l' \<Rightarrow> loop_fuel n body l' | Inr a \<Rightarrow> ret a)"

section \<open>Weakest preconditions\<close>

definition wp :: "('s, 'a) prog \<Rightarrow> ('a \<Rightarrow> 's \<Rightarrow> bool) \<Rightarrow> 's \<Rightarrow> bool" where
  "wp m Q s = (case m s of Ok a s' \<Rightarrow> Q a s' | Abort _ \<Rightarrow> False | Skip _ \<Rightarrow> False | Stuck _ \<Rightarrow> False)"

lemma wp_ret [simp, wp_simps]: "wp (ret a) Q = Q a"
  by (simp add: fun_eq_iff wp_def ret_def)

lemma wp_bnd [simp, wp_simps]: "wp (bnd m f) Q = wp m (\<lambda>a. wp (f a) Q)"
  by (simp add: fun_eq_iff wp_def bnd_def split: outcome.splits)

lemma wp_seq_Nil [simp, wp_simps]: "wp (seq []) Q = Q ()"
  by simp

lemma wp_seq_Cons [simp, wp_simps]: "wp (seq (m # ms)) Q = wp m (\<lambda>_. wp (seq ms) Q)"
  by simp

lemma wp_get [simp, wp_simps]: "wp (get f) Q = (\<lambda>s. Q (f s) s)"
  by (simp add: fun_eq_iff wp_def get_def)

lemma wp_modify [simp, wp_simps]: "wp (modify f) Q = (\<lambda>s. Q () (f s))"
  by (simp add: fun_eq_iff wp_def modify_def)

lemma wp_ignore [simp, wp_simps]: "wp (ignore m) Q = wp m (\<lambda>_. Q ())"
  by (simp add: ignore_def)

lemma wp_do_if [simp, wp_simps]: "wp (do_if b m) Q = (\<lambda>s. if b then wp m Q s else Q () s)"
  by (simp add: fun_eq_iff do_if_def)

lemma wp_kcall [wp_simps]: "wp (kcall op) Q s = (case op (kw s) of (a, w) \<Rightarrow> Q a (s\<lparr>kw := w\<rparr>))"
  by (simp add: wp_def kcall_def split: prod.splits)

lemma wp_kdo [wp_simps]: "wp (kdo op) Q s = Q () (s\<lparr>kw := op (kw s)\<rparr>)"
  by (simp add: wp_def kdo_def)

lemma wp_kask [simp, wp_simps]: "wp (kask f) Q = (\<lambda>s. Q (f (kw s)) s)"
  by (simp add: fun_eq_iff wp_def kask_def)

lemma wp_kunit_fail [simp, wp_simps]: "wp kunit_fail Q = (\<lambda>s. Q () (s\<lparr>kfails := Suc (kfails s)\<rparr>))"
  by (simp add: fun_eq_iff wp_def kunit_fail_def)

lemma wp_kunit_expect [simp, wp_simps]:
  "wp (kunit_expect b) Q = (\<lambda>s. if b then Q () s else Q () (s\<lparr>kfails := Suc (kfails s)\<rparr>))"
  by (simp add: fun_eq_iff kunit_expect_def)

lemma wp_kunit_assert [simp, wp_simps]: "wp (kunit_assert b) Q = (\<lambda>s. b \<and> Q () s)"
  by (simp add: fun_eq_iff wp_def kunit_assert_def)

lemma wp_kunit_skip [simp, wp_simps]: "wp kunit_skip Q = (\<lambda>s. False)"
  by (simp add: fun_eq_iff wp_def kunit_skip_def)

lemma wp_if [simp, wp_simps]: "wp (if b then m else n) Q = (\<lambda>s. if b then wp m Q s else wp n Q s)"
  by (simp add: fun_eq_iff)

lemma wp_mono: "wp m Q s \<Longrightarrow> (\<And>a s'. Q a s' \<Longrightarrow> R a s') \<Longrightarrow> wp m R s"
  by (auto simp: wp_def split: outcome.splits)

lemma wp_conj: "wp m Q s \<Longrightarrow> wp m R s \<Longrightarrow> wp m (\<lambda>a s'. Q a s' \<and> R a s') s"
  by (auto simp: wp_def split: outcome.splits)

lemma wp_Ok: "wp m Q s \<longleftrightarrow> (\<exists>a s'. m s = Ok a s' \<and> Q a s')"
  by (auto simp: wp_def split: outcome.splits)

lemma wp_for_each:
  assumes "I 0 s"
    and "\<And>k s. k < length is \<Longrightarrow> I k s \<Longrightarrow> wp (body (is ! k)) (\<lambda>_. I (Suc k)) s"
    and "\<And>s. I (length is) s \<Longrightarrow> Q () s"
  shows "wp (for_each is body) Q s"
  using assms
proof (induction "is" arbitrary: I s)
  case Nil
  then show ?case by (simp add: for_each_def)
next
  case (Cons i "is")
  have step: "wp (body i) (\<lambda>_. I (Suc 0)) s"
    using Cons.prems(2) [of 0 s] Cons.prems(1) by simp
  have rest: "wp (for_each is body) Q s'" if "I (Suc 0) s'" for s'
  proof (rule Cons.IH [where I = "\<lambda>k. I (Suc k)"])
    show "I (Suc 0) s'" by (rule that)
    show "wp (body (is ! k)) (\<lambda>_. I (Suc (Suc k))) t" if "k < length is" "I (Suc k) t" for k t
      using Cons.prems(2) [of "Suc k" t] that by simp
    show "Q () t" if "I (Suc (length is)) t" for t using Cons.prems(3) that by simp
  qed
  from wp_mono [OF step rest] show ?case by (simp add: for_each_def)
qed

lemma wp_for_while:
  assumes "I 0 s"
    and "\<And>k s. k < length is \<Longrightarrow> I k s \<Longrightarrow>
           wp (body (is ! k)) (\<lambda>go s'. if go then I (Suc k) s' else Q False s') s"
    and "\<And>s. I (length is) s \<Longrightarrow> Q True s"
  shows "wp (for_while is body) Q s"
  using assms
proof (induction "is" arbitrary: I s)
  case Nil
  then show ?case by simp
next
  case (Cons i "is")
  have step: "wp (body i) (\<lambda>go s'. if go then I (Suc 0) s' else Q False s') s"
    using Cons.prems(2) [of 0 s] Cons.prems(1) by simp
  have rest: "wp (for_while is body) Q s'" if "I (Suc 0) s'" for s'
  proof (rule Cons.IH [where I = "\<lambda>k. I (Suc k)"])
    show "I (Suc 0) s'" by (rule that)
    show "wp (body (is ! k)) (\<lambda>go s'. if go then I (Suc (Suc k)) s' else Q False s') t"
      if "k < length is" "I (Suc k) t" for k t
      using Cons.prems(2) [of "Suc k" t] that by simp
    show "Q True t" if "I (Suc (length is)) t" for t using Cons.prems(3) that by simp
  qed
  from step show ?case
    by (auto elim!: wp_mono intro: rest split: if_splits)
qed

lemma wp_for_fold:
  assumes "I 0 l s"
    and "\<And>k l s. k < length is \<Longrightarrow> I k l s \<Longrightarrow> wp (body (is ! k) l) (I (Suc k)) s"
    and "\<And>l s. I (length is) l s \<Longrightarrow> Q l s"
  shows "wp (for_fold is body l) Q s"
  using assms
proof (induction "is" arbitrary: I l s)
  case Nil
  then show ?case by simp
next
  case (Cons i "is")
  have step: "wp (body i l) (I (Suc 0)) s"
    using Cons.prems(2) [of 0 l s] Cons.prems(1) by simp
  have rest: "wp (for_fold is body l') Q s'" if "I (Suc 0) l' s'" for l' s'
  proof (rule Cons.IH [where I = "\<lambda>k. I (Suc k)"])
    show "I (Suc 0) l' s'" by (rule that)
    show "wp (body (is ! k) m) (I (Suc (Suc k))) t" if "k < length is" "I (Suc k) m t" for k m t
      using Cons.prems(2) [of "Suc k" m t] that by simp
    show "Q m t" if "I (Suc (length is)) m t" for m t using Cons.prems(3) that by simp
  qed
  from wp_mono [OF step rest] show ?case by simp
qed

text \<open>The same for counting loops, up and down, with the invariant indexed by the counter.\<close>

lemma wp_for_range:
  assumes "I a s" "a \<le> b"
    and "\<And>l s. \<lbrakk>a \<le> l; l < b; I l s\<rbrakk> \<Longrightarrow> wp (body l) (\<lambda>_. I (Suc l)) s"
    and "\<And>s. I b s \<Longrightarrow> Q () s"
  shows "wp (for_each [a..<b] body) Q s"
  by (rule wp_for_each [where I = "\<lambda>k. I (a + k)"]) (use assms in auto)

lemma wp_for_down:
  assumes "I b s" "a \<le> b"
    and "\<And>l s. \<lbrakk>a \<le> l; l < b; I (Suc l) s\<rbrakk> \<Longrightarrow> wp (body l) (\<lambda>_. I l) s"
    and "\<And>s. I a s \<Longrightarrow> Q () s"
  shows "wp (for_each (rev [a..<b]) body) Q s"
proof (rule wp_for_each [where I = "\<lambda>k. I (b - k)"], goal_cases)
  case (2 k t)
  then have "rev [a..<b] ! k = b - Suc k" "Suc (b - Suc k) = b - k" by (auto simp: rev_nth)
  then show ?case using 2 assms(3) [of "b - Suc k" t] by simp
qed (use assms in simp_all)

lemma wp_for_while_range:
  assumes "I a s" "a \<le> b"
    and "\<And>l s. \<lbrakk>a \<le> l; l < b; I l s\<rbrakk> \<Longrightarrow> wp (body l) (\<lambda>go s'. if go then I (Suc l) s' else Q False s') s"
    and "\<And>s. I b s \<Longrightarrow> Q True s"
  shows "wp (for_while [a..<b] body) Q s"
proof (rule wp_for_while [where I = "\<lambda>k. I (a + k)"], goal_cases)
  case (2 k t)
  then have "wp (body (a + k)) (\<lambda>go s'. if go then I (Suc (a + k)) s' else Q False s') t"
    using assms(3) [of "a + k" t] by simp
  then show ?case using 2 by (simp only: length_upt nth_upt add_Suc_right)
qed (use assms in simp_all)

lemma wp_for_fold_range:
  assumes "I a l s" "a \<le> b"
    and "\<And>k l s. \<lbrakk>a \<le> k; k < b; I k l s\<rbrakk> \<Longrightarrow> wp (body k l) (I (Suc k)) s"
    and "\<And>l s. I b l s \<Longrightarrow> Q l s"
  shows "wp (for_fold [a..<b] body l) Q s"
  by (rule wp_for_fold [where I = "\<lambda>k. I (a + k)"]) (use assms in auto)

text \<open>Enough fuel: an invariant and a measure the body decreases whenever it goes round again.\<close>

lemma wp_loop_fuel:
  assumes "I l s" and "mu l s < n"
    and "\<And>l s. I l s \<Longrightarrow>
           wp (body l) (\<lambda>r s'. case r of Inl l' \<Rightarrow> I l' s' \<and> mu l' s' < mu l s | Inr a \<Rightarrow> Q a s') s"
  shows "wp (loop_fuel n body l) Q s"
  using assms(1,2)
proof (induction n arbitrary: l s)
  case (Suc n)
  have "wp (body l) (\<lambda>r s'. wp (case r of Inl l' \<Rightarrow> loop_fuel n body l' | Inr a \<Rightarrow> ret a) Q s') s"
  proof (rule wp_mono [OF assms(3) [OF Suc.prems(1)]])
    fix r s'
    assume "case r of Inl l' \<Rightarrow> I l' s' \<and> mu l' s' < mu l s | Inr a \<Rightarrow> Q a s'"
    then show "wp (case r of Inl l' \<Rightarrow> loop_fuel n body l' | Inr a \<Rightarrow> ret a) Q s'"
      using Suc.IH Suc.prems(2) by (cases r) auto
  qed
  then show ?case by simp
qed simp

section \<open>Verdicts\<close>

text \<open>The case passes: its body ends normally and no expectation failed.\<close>

definition passes :: "(('w, 'z) kst_scheme, 'a) prog \<Rightarrow> ('w, 'z) kst_scheme \<Rightarrow> bool" where
  "passes m s = wp m (\<lambda>_ s'. kfails s' = kfails s) s"

text \<open>
  The end of a case: the deferred actions run, most recent first, whether the body ended,
  aborted or skipped; \<open>resolve\<close> gives the function registered under a name.
\<close>

definition outcome_state :: "('a, 's) outcome \<Rightarrow> 's" where
  "outcome_state r = (case r of Ok _ s \<Rightarrow> s | Abort s \<Rightarrow> s | Skip s \<Rightarrow> s | Stuck s \<Rightarrow> s)"

primrec run_actions ::
  "(string \<Rightarrow> (('w, 'z) kst_scheme, unit) prog) \<Rightarrow> string list \<Rightarrow> ('w, 'z) kst_scheme \<Rightarrow> ('w, 'z) kst_scheme" where
  "run_actions resolve [] s = s"
| "run_actions resolve (a # as) s = run_actions resolve as (outcome_state (resolve a s))"

definition run_case ::
  "(string \<Rightarrow> (('w, 'z) kst_scheme, unit) prog) \<Rightarrow> (('w, 'z) kst_scheme, unit) prog \<Rightarrow>
   ('w, 'z) kst_scheme \<Rightarrow> ('w, 'z) kst_scheme" where
  "run_case resolve body s =
     (let s' = outcome_state (body s)
      in (run_actions resolve (kactions s') s')\<lparr>kactions := []\<rparr>)"

end
