(* ===== verification/Fixture.thy ===== *)
theory Fixture
  imports Harness
begin

text \<open>
  \<open>kunit/xfstests/nfs_fixture.c\<close>, the path helpers and credential helpers every port
  is written with.  Each definition is the C function of the same name: the lookup of the
  path, the operation on the reference it yields, the release of the reference, the
  early returns.  Buffers a function fills are part of its result; a function that returns
  0 or a negative errno and fills a struct is modelled as \<open>Inl\<close> of the errno or
  \<open>Inr\<close> of the struct, and \<open>err_of\<close> reads the integer back.
\<close>

section \<open>The fixture's static variables\<close>

record 'w fxs = "'w kst" +
  xfs_saved_creds :: "cred option"
  xfs_override :: "cred option"
  xfs_fixture_refs :: int
  xfs_export_mount_opts :: string
  xfs_bringup_root :: "nat option"
  tmpfs_mounted :: bool
  nfsdfs_mounted :: bool
  nfsd_up :: bool
  client_mounted :: bool
  xfs_hostbin :: string
  xfs_hostbin_mounted :: bool
  xfs_prog_seq :: nat
  kunit_log :: "string list"

definition XFS_MNT :: string where "XFS_MNT = ''/mnt/nfs''"
definition XFS_EXPORT :: string where "XFS_EXPORT = ''/export''"
definition XFS_SCRATCH_MNT :: string where "XFS_SCRATCH_MNT = ''/mnt/scratch''"
definition XFS_HOSTBIN :: string where "XFS_HOSTBIN = ''/hostbin''"
definition XFS_NFSDFS :: string where "XFS_NFSDFS = ''/nfsdfs''"
definition XFS_DOMAIN :: string where "XFS_DOMAIN = ''localhost''"
definition XFS_EXPFLAGS :: int where "XFS_EXPFLAGS = 0x2402"
definition XFS_CLIENT_OPTS :: string where
  "XFS_CLIENT_OPTS = ''addr=127.0.0.1,clientaddr=127.0.0.1,vers=4.2,sec=sys''"
definition XFS_EXPORT_OPTS_DEFAULT :: string where
  "XFS_EXPORT_OPTS_DEFAULT = ''size=67108864,nr_inodes=32768''"

definition err_of :: "int + 'a \<Rightarrow> int" where
  "err_of r = (case r of Inl e \<Rightarrow> e | Inr _ \<Rightarrow> 0)"

lemma err_of_simps [simp]: "err_of (Inl e) = e" "err_of (Inr a) = 0"
  by (simp_all add: err_of_def)

section \<open>Path helpers\<close>

definition xfs_mkdir :: "'w kernel \<Rightarrow> string \<Rightarrow> (('w, 'z) kst_scheme, int) prog" where
  "xfs_mkdir K path = kcall (do_mkdirat K path (mode3 7 5 5))"

definition xfs_rmdir :: "'w kernel \<Rightarrow> string \<Rightarrow> (('w, 'z) kst_scheme, int) prog" where
  "xfs_rmdir K path = kcall (do_rmdir K path)"

definition xfs_unlink :: "'w kernel \<Rightarrow> string \<Rightarrow> (('w, 'z) kst_scheme, int) prog" where
  "xfs_unlink K path = kcall (do_unlinkat K path)"

definition xfs_rename :: "'w kernel \<Rightarrow> string \<Rightarrow> string \<Rightarrow> (('w, 'z) kst_scheme, int) prog" where
  "xfs_rename K from to = kcall (do_renameat2 K from to)"

definition xfs_link :: "'w kernel \<Rightarrow> string \<Rightarrow> string \<Rightarrow> (('w, 'z) kst_scheme, int) prog" where
  "xfs_link K oldpath newpath = kcall (do_linkat K oldpath newpath)"

definition xfs_symlink :: "'w kernel \<Rightarrow> string \<Rightarrow> string \<Rightarrow> (('w, 'z) kst_scheme, int) prog" where
  "xfs_symlink K target linkpath = kcall (do_symlinkat K target linkpath)"

definition xfs_exists :: "'w kernel \<Rightarrow> string \<Rightarrow> (('w, 'z) kst_scheme, bool) prog" where
  "xfs_exists K path =
     bnd (kcall (kern_path K path {})) (\<lambda>p.
       case p of Inl err \<Rightarrow> ret False
       | Inr h \<Rightarrow> bnd (kdo (path_put K h)) (\<lambda>_. ret True))"

text \<open>
  The shape the helpers below share, written out in the source each time: look the path
  up, return the error of the lookup, else run the operation, drop the reference, return
  the operation's result.
\<close>

definition with_path ::
  "'w kernel \<Rightarrow> string \<Rightarrow> (int \<Rightarrow> 'a) \<Rightarrow> (nat \<Rightarrow> (('w, 'z) kst_scheme, 'a) prog) \<Rightarrow>
   (('w, 'z) kst_scheme, 'a) prog" where
  "with_path K path fail act =
     bnd (kcall (kern_path K path {})) (\<lambda>p.
       case p of Inl err \<Rightarrow> ret (fail err)
       | Inr h \<Rightarrow> bnd (act h) (\<lambda>r. bnd (kdo (path_put K h)) (\<lambda>_. ret r)))"

definition xfs_kstat :: "'w kernel \<Rightarrow> string \<Rightarrow> (('w, 'z) kst_scheme, int + kstat) prog" where
  "xfs_kstat K path = with_path K path Inl (\<lambda>p. kcall (vfs_getattr K p))"

definition xfs_ftruncate :: "'w kernel \<Rightarrow> nat \<Rightarrow> int \<Rightarrow> (('w, 'z) kst_scheme, int) prog" where
  "xfs_ftruncate K f len = kcall (do_ftruncate K f len)"

definition xfs_readlink ::
  "'w kernel \<Rightarrow> string \<Rightarrow> nat \<Rightarrow> (('w, 'z) kst_scheme, int \<times> string option) prog" where
  "xfs_readlink K path bufsz =
     with_path K path (\<lambda>err. (err, None)) (\<lambda>p.
       bnd (kcall (vfs_get_link K p)) (\<lambda>target.
         case target of Inl err \<Rightarrow> ret (err, None)
         | Inr t \<Rightarrow> if length t \<ge> bufsz then ret (- ERANGE, None)
                    else ret (int (length t), Some t)))"

definition xfs_truncate :: "'w kernel \<Rightarrow> string \<Rightarrow> int \<Rightarrow> (('w, 'z) kst_scheme, int) prog" where
  "xfs_truncate K path len = with_path K path id (\<lambda>p. kcall (vfs_truncate K p len))"

text \<open>
  The write loop: a positive count moves on by as many bytes, a count of 0 is \<open>EIO\<close>, a
  negative one is the error.
\<close>

function write_loop ::
  "'w kernel \<Rightarrow> nat \<Rightarrow> byte list \<Rightarrow> int \<Rightarrow> (('w, 'z) kst_scheme, int) prog" where
  "write_loop K f data pos s =
     (if data = [] then Ok 0 s
      else case kernel_write K f data pos (kw s) of ((written, pos'), w) \<Rightarrow>
        (let s' = s\<lparr>kw := w\<rparr>
         in if written \<le> 0 then Ok (if written \<noteq> 0 then written else - EIO) s'
            else write_loop K f (drop (nat written) data) pos' s'))"
  by pat_completeness auto
termination
  by (relation "measure (\<lambda>(K, f, data, pos, s). length data)") auto

declare write_loop.simps [simp del]

definition xfs_write_new_file ::
  "'w kernel \<Rightarrow> string \<Rightarrow> byte list \<Rightarrow> (('w, 'z) kst_scheme, int) prog" where
  "xfs_write_new_file K path data =
     bnd (kcall (filp_open K path {O_WRONLY, O_CREAT, O_TRUNC, O_LARGEFILE} (mode3 6 4 4))) (\<lambda>f.
       case f of Inl err \<Rightarrow> ret err
       | Inr h \<Rightarrow> bnd (write_loop K h data 0) (\<lambda>err.
                   bnd (kdo (filp_close K h)) (\<lambda>_. ret err)))"

definition xfs_read_range ::
  "'w kernel \<Rightarrow> string \<Rightarrow> nat \<Rightarrow> int \<Rightarrow> (('w, 'z) kst_scheme, int \<times> byte list) prog" where
  "xfs_read_range K path len off =
     bnd (kcall (filp_open K path {O_RDONLY, O_LARGEFILE} 0)) (\<lambda>f.
       case f of Inl err \<Rightarrow> ret (err, [])
       | Inr h \<Rightarrow> bnd (kcall (kernel_read K h len off)) (\<lambda>(got, buf, pos).
                   bnd (kdo (filp_close K h)) (\<lambda>_. ret (got, buf))))"

text \<open>
  Direct and user buffer I/O.  The buffer is the byte list \<open>buf\<close>; a read returns it with
  the bytes read stored at its start.  The position moves only when the count is positive.
\<close>

definition iocb_rw ::
  "'w kernel \<Rightarrow> nat \<Rightarrow> byte list \<Rightarrow> nat \<Rightarrow> int \<Rightarrow> bool \<Rightarrow> bool \<Rightarrow>
   (('w, 'z) kst_scheme, int \<times> byte list \<times> int) prog" where
  "iocb_rw K f buf len pos wr direct =
     (if wr then
        bnd (kcall (vfs_iocb_iter_write K f (take len buf) pos direct)) (\<lambda>(r, ki_pos).
          ret (r, buf, if r > 0 then ki_pos else pos))
      else
        bnd (kcall (vfs_iocb_iter_read K f len pos direct)) (\<lambda>(r, data, ki_pos).
          ret (r, blit 0 data buf, if r > 0 then ki_pos else pos)))"

definition xfs_direct_rw ::
  "'w kernel \<Rightarrow> nat \<Rightarrow> byte list \<Rightarrow> nat \<Rightarrow> int \<Rightarrow> bool \<Rightarrow>
   (('w, 'z) kst_scheme, int \<times> byte list \<times> int) prog" where
  "xfs_direct_rw K f buf len pos wr = iocb_rw K f buf len pos wr True"

definition xfs_direct_write ::
  "'w kernel \<Rightarrow> nat \<Rightarrow> byte list \<Rightarrow> nat \<Rightarrow> int \<Rightarrow> (('w, 'z) kst_scheme, int \<times> byte list \<times> int) prog" where
  "xfs_direct_write K f buf len pos = xfs_direct_rw K f buf len pos True"

definition xfs_direct_read ::
  "'w kernel \<Rightarrow> nat \<Rightarrow> byte list \<Rightarrow> nat \<Rightarrow> int \<Rightarrow> (('w, 'z) kst_scheme, int \<times> byte list \<times> int) prog" where
  "xfs_direct_read K f buf len pos = xfs_direct_rw K f buf len pos False"

definition xfs_user_rw_iter ::
  "'w kernel \<Rightarrow> nat \<Rightarrow> byte list \<Rightarrow> nat \<Rightarrow> int \<Rightarrow> bool \<Rightarrow> bool \<Rightarrow>
   (('w, 'z) kst_scheme, int \<times> byte list \<times> int) prog" where
  "xfs_user_rw_iter K f buf len pos wr direct = iocb_rw K f buf len pos wr direct"

definition xfs_user_rw ::
  "'w kernel \<Rightarrow> nat \<Rightarrow> byte list \<Rightarrow> nat \<Rightarrow> int \<Rightarrow> bool \<Rightarrow> bool \<Rightarrow>
   (('w, 'z) kst_scheme, int \<times> byte list \<times> int) prog" where
  "xfs_user_rw K f buf len pos wr direct = xfs_user_rw_iter K f buf len pos wr direct"

definition xfs_user_write ::
  "'w kernel \<Rightarrow> nat \<Rightarrow> byte list \<Rightarrow> nat \<Rightarrow> int \<Rightarrow> (('w, 'z) kst_scheme, int \<times> byte list \<times> int) prog" where
  "xfs_user_write K f buf len pos = xfs_user_rw K f buf len pos True False"

definition xfs_user_writev ::
  "'w kernel \<Rightarrow> nat \<Rightarrow> byte list list \<Rightarrow> nat \<Rightarrow> int \<Rightarrow> (('w, 'z) kst_scheme, int \<times> byte list \<times> int) prog" where
  "xfs_user_writev K f iov nr_segs pos =
     (let count = sum_list (map length (take nr_segs iov))
      in xfs_user_rw_iter K f (concat (take nr_segs iov)) count pos True False)"

definition xfs_mknod ::
  "'w kernel \<Rightarrow> string \<Rightarrow> nat \<Rightarrow> nat \<Rightarrow> nat \<Rightarrow> (('w, 'z) kst_scheme, int) prog" where
  "xfs_mknod K path mode major minor = kcall (do_mknodat K path mode major minor)"

definition xfs_statfs :: "'w kernel \<Rightarrow> string \<Rightarrow> (('w, 'z) kst_scheme, int + kstatfs) prog" where
  "xfs_statfs K path = with_path K path Inl (\<lambda>p. kcall (vfs_statfs K p))"

definition xfs_fsync_path :: "'w kernel \<Rightarrow> string \<Rightarrow> (('w, 'z) kst_scheme, int) prog" where
  "xfs_fsync_path K path =
     bnd (kcall (filp_open K path {O_RDONLY, O_LARGEFILE} 0)) (\<lambda>f.
       case f of Inl err \<Rightarrow> ret err
       | Inr h \<Rightarrow> bnd (kcall (vfs_fsync K h)) (\<lambda>err. bnd (kdo (filp_close K h)) (\<lambda>_. ret err)))"

definition xfs_chmod :: "'w kernel \<Rightarrow> string \<Rightarrow> nat \<Rightarrow> (('w, 'z) kst_scheme, int) prog" where
  "xfs_chmod K path mode = with_path K path id (\<lambda>p. kcall (chmod_common K p mode))"

definition xfs_chown :: "'w kernel \<Rightarrow> string \<Rightarrow> nat \<Rightarrow> nat \<Rightarrow> (('w, 'z) kst_scheme, int) prog" where
  "xfs_chown K path uid gid = with_path K path id (\<lambda>p. kcall (chown_common K p uid gid))"

definition xfs_utimes_raw ::
  "'w kernel \<Rightarrow> string \<Rightarrow> timespec \<times> timespec \<Rightarrow> (('w, 'z) kst_scheme, int) prog" where
  "xfs_utimes_raw K path ts = with_path K path id (\<lambda>p. kcall (vfs_utimes K p ts))"

definition xfs_utimes :: "'w kernel \<Rightarrow> string \<Rightarrow> int \<Rightarrow> int \<Rightarrow> (('w, 'z) kst_scheme, int) prog" where
  "xfs_utimes K path atime mtime =
     xfs_utimes_raw K path (\<lparr>tv_sec = atime, tv_nsec = 0\<rparr>, \<lparr>tv_sec = mtime, tv_nsec = 0\<rparr>)"

section \<open>Extended attributes and locks\<close>

definition xfs_setxattr ::
  "'w kernel \<Rightarrow> string \<Rightarrow> string \<Rightarrow> string \<Rightarrow> nat \<Rightarrow> (('w, 'z) kst_scheme, int) prog" where
  "xfs_setxattr K path name value flags =
     with_path K path id (\<lambda>p.
       bnd (kcall (mnt_want_write K p)) (\<lambda>err.
         if err = 0 then
           bnd (kcall (vfs_setxattr K p name value flags)) (\<lambda>err.
             bnd (kdo (mnt_drop_write K p)) (\<lambda>_. ret err))
         else ret err))"

definition xfs_getxattr ::
  "'w kernel \<Rightarrow> string \<Rightarrow> string \<Rightarrow> nat \<Rightarrow> (('w, 'z) kst_scheme, int \<times> string) prog" where
  "xfs_getxattr K path name bufsz =
     with_path K path (\<lambda>err. (err, [])) (\<lambda>p. kcall (vfs_getxattr K p name bufsz))"

definition xfs_listxattr ::
  "'w kernel \<Rightarrow> string \<Rightarrow> nat \<Rightarrow> (('w, 'z) kst_scheme, int \<times> string) prog" where
  "xfs_listxattr K path bufsz =
     with_path K path (\<lambda>err. (err, [])) (\<lambda>p. kcall (vfs_listxattr K p bufsz))"

definition xfs_removexattr :: "'w kernel \<Rightarrow> string \<Rightarrow> string \<Rightarrow> (('w, 'z) kst_scheme, int) prog" where
  "xfs_removexattr K path name =
     with_path K path id (\<lambda>p.
       bnd (kcall (mnt_want_write K p)) (\<lambda>err.
         if err = 0 then
           bnd (kcall (vfs_removexattr K p name)) (\<lambda>err.
             bnd (kdo (mnt_drop_write K p)) (\<lambda>_. ret err))
         else ret err))"

definition xfs_posix_lock ::
  "'w kernel \<Rightarrow> nat \<Rightarrow> lock_type \<Rightarrow> int \<Rightarrow> int \<Rightarrow> nat \<Rightarrow> bool \<Rightarrow> (('w, 'z) kst_scheme, int) prog" where
  "xfs_posix_lock K f type lstart lend owner wait =
     bnd (kcall (locks_alloc_lock K)) (\<lambda>fl.
       if \<not> fl then ret (- ENOMEM)
       else
         bnd (kask (current_tgid K)) (\<lambda>tgid.
         bnd (kcall (vfs_lock_file K f (if wait then F_SETLKW else F_SETLK)
                \<lparr>flc_type = type, flc_posix = True, flc_sleep = wait, flc_owner = owner,
                 flc_pid = tgid, flc_file = f, fl_start = lstart, fl_end = lend\<rparr>)) (\<lambda>err.
         bnd (kdo (locks_free_lock K)) (\<lambda>_. ret err))))"

section \<open>Credentials\<close>

definition xfs_switch_creds :: "'w kernel \<Rightarrow> nat \<Rightarrow> nat \<Rightarrow> (('w, 'z) fxs_scheme, int) prog" where
  "xfs_switch_creds K uid gid =
     bnd (get xfs_saved_creds) (\<lambda>saved.
       if saved \<noteq> None then ret (- EBUSY)
       else bnd (kcall (prepare_creds K)) (\<lambda>c.
         case c of None \<Rightarrow> ret (- ENOMEM)
         | Some c0 \<Rightarrow>
             let c = c0\<lparr>c_uid := uid, c_euid := uid, c_suid := uid, c_fsuid := uid,
                        c_gid := gid, c_egid := gid, c_sgid := gid, c_fsgid := gid,
                        cap_inheritable := {}, cap_permitted := {}, cap_effective := {}\<rparr>
             in bnd (modify (\<lambda>s. s\<lparr>xfs_override := Some c\<rparr>)) (\<lambda>_.
                bnd (kcall (override_creds K c)) (\<lambda>old.
                bnd (modify (\<lambda>s. s\<lparr>xfs_saved_creds := Some old\<rparr>)) (\<lambda>_. ret 0)))))"

definition xfs_restore_creds :: "'w kernel \<Rightarrow> (('w, 'z) fxs_scheme, unit) prog" where
  "xfs_restore_creds K =
     bnd (get (\<lambda>s. (xfs_saved_creds s, xfs_override s))) (\<lambda>(saved, ovr).
       case saved of None \<Rightarrow> ret ()
       | Some old \<Rightarrow>
           seq [kdo (revert_creds K old),
                (case ovr of None \<Rightarrow> ret () | Some c \<Rightarrow> kdo (put_cred K c)),
                modify (\<lambda>s. s\<lparr>xfs_saved_creds := None, xfs_override := None\<rparr>)])"

definition xfs_seteuid :: "'w kernel \<Rightarrow> nat \<Rightarrow> (('w, 'z) fxs_scheme, int) prog" where
  "xfs_seteuid K uid =
     bnd (get xfs_saved_creds) (\<lambda>saved.
       if saved \<noteq> None then ret (- EBUSY)
       else bnd (kask (current_cred K)) (\<lambda>old.
         bnd (kcall (prepare_creds K)) (\<lambda>c.
         case c of None \<Rightarrow> ret (- ENOMEM)
         | Some c0 \<Rightarrow>
             bnd (kcall (security_task_fix_setuid K (c0\<lparr>c_euid := uid, c_fsuid := uid\<rparr>) old)) (\<lambda>(err, c).
               if err \<noteq> 0 then bnd (kdo (abort_creds K c)) (\<lambda>_. ret err)
               else bnd (modify (\<lambda>s. s\<lparr>xfs_override := Some c\<rparr>)) (\<lambda>_.
                    bnd (kcall (override_creds K c)) (\<lambda>old.
                    bnd (modify (\<lambda>s. s\<lparr>xfs_saved_creds := Some old\<rparr>)) (\<lambda>_. ret 0)))))))"

definition MAY_ACCESS :: nat where "MAY_ACCESS = 0x10"

definition xfs_access :: "'w kernel \<Rightarrow> string \<Rightarrow> nat \<Rightarrow> (('w, 'z) kst_scheme, int) prog" where
  "xfs_access K path mode =
     bnd (kcall (prepare_creds K)) (\<lambda>c.
       case c of None \<Rightarrow> ret (- ENOMEM)
       | Some c0 \<Rightarrow>
           let c1 = c0\<lparr>c_fsuid := c_uid c0, c_fsgid := c_gid c0\<rparr>;
               override = (if c_uid c1 = 0 then c1\<lparr>cap_effective := cap_permitted c1\<rparr>
                           else c1\<lparr>cap_effective := {}\<rparr>)
           in bnd (kcall (override_creds K override)) (\<lambda>old_cred.
              bnd (kcall (kern_path K path {LOOKUP_FOLLOW})) (\<lambda>p.
              bnd (case p of Inl err \<Rightarrow> ret err
                   | Inr h \<Rightarrow> bnd (kcall (inode_permission K h (or mode MAY_ACCESS))) (\<lambda>err.
                               bnd (kdo (path_put K h)) (\<lambda>_. ret err))) (\<lambda>err.
              bnd (kdo (revert_creds K old_cred)) (\<lambda>_.
              bnd (kdo (put_cred K override)) (\<lambda>_. ret err))))))"

end
