(* ===== verification/FixtureEnv.thy ===== *)
theory FixtureEnv
  imports Fixture
begin

text \<open>
  \<open>kunit/xfstests/nfs_fixture.c\<close>, the second half: mounts and the loops that settle
  delayed fputs, the export tables fed to sunrpc, knfsd, bring-up, teardown, the reference
  count, and the user space programs.  The two mutexes are not part of the model: a
  definition is one critical section, run from start to end.
\<close>

section \<open>Mounts and settling loops\<close>

definition xfstests_nfs_export_opts :: "string \<Rightarrow> (('w, 'z) fxs_scheme, unit) prog" where
  \<comment> \<open>strscpy into the 64-byte array: at most 63 characters and a NUL\<close>
  "xfstests_nfs_export_opts opts = modify (\<lambda>s. s\<lparr>xfs_export_mount_opts := take 63 opts\<rparr>)"

definition xfstests_nfs_mounted :: "(('w, 'z) fxs_scheme, bool) prog" where
  "xfstests_nfs_mounted = get client_mounted"

definition xfs_loopback_up :: "'w kernel \<Rightarrow> (('w, 'z) fxs_scheme, int) prog" where
  "xfs_loopback_up K =
     bnd (kask (lo_is_up K)) (\<lambda>up. if \<not> up then kcall (dev_change_flags_up K) else ret 0)"

definition xfs_mount_at ::
  "'w kernel \<Rightarrow> string \<Rightarrow> string \<Rightarrow> string \<Rightarrow> string option \<Rightarrow> (('w, 'z) kst_scheme, int) prog" where
  "xfs_mount_at K dev mountpoint type opts =
     bnd (case opts of None \<Rightarrow> ret True | Some opt \<Rightarrow> kcall (kmalloc K (length opt + 1))) (\<lambda>ok.
       if \<not> ok then ret (- ENOMEM)
       else with_path K mountpoint id (\<lambda>p. kcall (path_mount K dev p type {} opts)))"

definition xfs_umount :: "'w kernel \<Rightarrow> string \<Rightarrow> (('w, 'z) kst_scheme, int) prog" where
  \<comment> \<open>\<open>path_umount\<close> consumes the reference\<close>
  "xfs_umount K mountpoint =
     bnd (kcall (kern_path K mountpoint {})) (\<lambda>p.
       case p of Inl err \<Rightarrow> ret err | Inr h \<Rightarrow> kcall (path_umount K h {}))"

definition xfs_settle_fput :: "'w kernel \<Rightarrow> (('w, 'z) kst_scheme, unit) prog" where
  "xfs_settle_fput K = kdo (flush_delayed_fput K)"

text \<open>
  The loops \<open>for (tries = 0; tries < n && err == code; tries++)\<close>: flush, attempt, and
  sleep where the attempt still says \<open>code\<close>.  An attempt may also leave the function
  (\<open>Inr\<close>), as the failed lookup in \<open>xfs_remount_client\<close> does.
\<close>

primrec retry ::
  "nat \<Rightarrow> int \<Rightarrow> (('w, 'z) kst_scheme, unit) prog \<Rightarrow> (('w, 'z) kst_scheme, int + int) prog \<Rightarrow>
   (('w, 'z) kst_scheme, unit) prog \<Rightarrow> int \<Rightarrow> (('w, 'z) kst_scheme, int) prog" where
  "retry 0 code before attempt pause err = ret err"
| "retry (Suc n) code before attempt pause err =
     (if err \<noteq> code then ret err
      else bnd before (\<lambda>_. bnd attempt (\<lambda>r.
        case r of Inr e \<Rightarrow> ret e
        | Inl e \<Rightarrow> if e = code then bnd pause (\<lambda>_. retry n code before attempt pause e)
                   else retry n code before attempt pause e)))"

definition xfs_rmdir_settled :: "'w kernel \<Rightarrow> string \<Rightarrow> (('w, 'z) kst_scheme, int) prog" where
  "xfs_rmdir_settled K path =
     retry 20 (- ENOTEMPTY) (kdo (flush_delayed_fput K))
       (bnd (xfs_rmdir K path) (\<lambda>e. ret (Inl e))) (kdo (msleep K 100)) (- ENOTEMPTY)"

definition xfs_umount_settled :: "'w kernel \<Rightarrow> string \<Rightarrow> (('w, 'z) kst_scheme, int) prog" where
  "xfs_umount_settled K mountpoint =
     bnd (retry 20 (- EBUSY) (kdo (flush_delayed_fput K))
            (bnd (xfs_umount K mountpoint) (\<lambda>e. ret (Inl e))) (kdo (msleep K 100)) (- EBUSY)) (\<lambda>err.
     if err = - EBUSY then
       bnd (kcall (kern_path K mountpoint {})) (\<lambda>p.
         case p of Inl _ \<Rightarrow> ret err | Inr h \<Rightarrow> kcall (path_umount K h {MNT_DETACH}))
     else ret err)"

primrec poll :: "nat \<Rightarrow> ('s, int option) prog \<Rightarrow> int \<Rightarrow> ('s, int) prog" where
  "poll 0 body timeout = ret timeout"
| "poll (Suc n) body timeout =
     bnd body (\<lambda>r. case r of Some e \<Rightarrow> ret e | None \<Rightarrow> poll n body timeout)"

definition xfs_wait_for_free_bytes :: "'w kernel \<Rightarrow> u64 \<Rightarrow> (('w, 'z) kst_scheme, int) prog" where
  "xfs_wait_for_free_bytes K bytes =
     poll 100
       (bnd (kdo (flush_delayed_fput K)) (\<lambda>_.
        bnd (xfs_statfs K XFS_MNT) (\<lambda>r.
        case r of Inl err \<Rightarrow> ret (Some err)
        | Inr st \<Rightarrow> if f_bavail st * f_bsize st \<ge> bytes then ret (Some 0)
                    else bnd (kdo (msleep K 100)) (\<lambda>_. ret None))))
       (- ETIMEDOUT)"

section \<open>Exports and knfsd\<close>

definition nl :: char where "nl = char_of (10 :: nat)"
definition backslash :: char where "backslash = char_of (92 :: nat)"

definition xfs_cache_line ::
  "'w kernel \<Rightarrow> sunrpc_cache \<Rightarrow> string \<Rightarrow> (('w, 'z) kst_scheme, int) prog" where
  \<comment> \<open>the formatted line is the argument; \<open>kvasprintf\<close> allocates it\<close>
  "xfs_cache_line K cd line =
     bnd (kcall (kmalloc K (length line + 1))) (\<lambda>ok.
       if \<not> ok then ret (- ENOMEM) else kcall (cache_parse K cd line))"

definition ip_map_line :: "int \<Rightarrow> string" where
  "ip_map_line expiry = ''nfsd 127.0.0.1 '' @ dec_int expiry @ '' '' @ XFS_DOMAIN @ [nl]"

definition export_line :: "int \<Rightarrow> string" where
  "export_line expiry =
     XFS_DOMAIN @ '' '' @ XFS_EXPORT @ '' '' @ dec_int expiry @ '' '' @ dec_int XFS_EXPFLAGS @
     '' 65534 65534 0'' @ [nl]"

definition expkey_line :: "int \<Rightarrow> string" where
  "expkey_line expiry =
     XFS_DOMAIN @ '' 1 '' @ [backslash] @ ''x00000000 '' @ dec_int expiry @ '' '' @ XFS_EXPORT @ [nl]"

definition xfs_configure_exports :: "'w kernel \<Rightarrow> (('w, 'z) kst_scheme, int) prog" where
  "xfs_configure_exports K =
     bnd (kask (ktime_get_real_seconds K)) (\<lambda>now.
     let expiry = now + 3600 in
     bnd (xfs_cache_line K Ip_map (ip_map_line expiry)) (\<lambda>err.
     if err \<noteq> 0 then ret err
     else bnd (xfs_cache_line K Svc_export (export_line expiry)) (\<lambda>err.
     if err \<noteq> 0 then ret err
     else xfs_cache_line K Svc_expkey (expkey_line expiry))))"

text \<open>Each step runs only where the one before returned no error (0 or a port number).\<close>

definition gated :: "int \<Rightarrow> ('s, int) prog \<Rightarrow> ('s, int) prog" where
  "gated err m = (if err \<ge> 0 then m else ret err)"

definition xfs_start_nfsd :: "'w kernel \<Rightarrow> (('w, 'z) kst_scheme, int) prog" where
  "xfs_start_nfsd K =
     bnd (kdo (nfsd_vers_clear K 2)) (\<lambda>_.
     bnd (kdo (nfsd_vers_clear K 3)) (\<lambda>_.
     bnd (kcall (nfsd_create_serv K)) (\<lambda>err.
     bnd (gated err (kcall (svc_xprt_create K Udp 2049))) (\<lambda>err.
     bnd (gated err (kcall (svc_xprt_create K Tcp 2049))) (\<lambda>err.
     bnd (gated err (kcall (nfsd_svc K 1))) (\<lambda>err.
     if err < 0 then ret err
     else bnd (kdo (nfsd4_end_grace K)) (\<lambda>_. ret 0)))))))"

definition xfs_stop_nfsd :: "'w kernel \<Rightarrow> (('w, 'z) kst_scheme, unit) prog" where
  "xfs_stop_nfsd K = ignore (kcall (nfsd_svc K 0))"

section \<open>Bring-up\<close>

definition xfs_mkdir_tolerant :: "'w kernel \<Rightarrow> string \<Rightarrow> (('w, 'z) kst_scheme, int) prog" where
  "xfs_mkdir_tolerant K path =
     bnd (xfs_mkdir K path) (\<lambda>err. ret (if err = - EEXIST then 0 else err))"

text \<open>\<open>if (err) return err;\<close> after a step, with what follows a success.\<close>

definition on_ok :: "('s, int) prog \<Rightarrow> ('s, int) prog \<Rightarrow> ('s, int) prog" where
  "on_ok m k = bnd m (\<lambda>err. if err \<noteq> 0 then ret err else k)"

definition then_set :: "('s \<Rightarrow> 's) \<Rightarrow> ('s, int) prog \<Rightarrow> ('s, int) prog" where
  "then_set f k = bnd (modify f) (\<lambda>_. k)"

definition xfs_save_root :: "'w kernel \<Rightarrow> (('w, 'z) fxs_scheme, int) prog" where
  "xfs_save_root K =
     bnd (get xfs_bringup_root) (\<lambda>old.
     bnd (case old of None \<Rightarrow> ret () | Some r \<Rightarrow> kdo (path_put K r)) (\<lambda>_.
     bnd (kask (current_fs_root K)) (\<lambda>root.
     bnd (modify (\<lambda>s. s\<lparr>xfs_bringup_root := Some root\<rparr>)) (\<lambda>_.
     bnd (kdo (path_get K root)) (\<lambda>_. ret 0)))))"

definition xfs_bringup :: "'w kernel \<Rightarrow> (('w, 'z) fxs_scheme, int) prog" where
  "xfs_bringup K =
     on_ok (xfs_loopback_up K) (
     on_ok (xfs_mkdir_tolerant K XFS_EXPORT) (
     on_ok (xfs_mkdir_tolerant K ''/mnt'') (
     on_ok (xfs_mkdir_tolerant K XFS_MNT) (
     on_ok (xfs_mkdir_tolerant K XFS_NFSDFS) (
     on_ok (bnd (get xfs_export_mount_opts) (\<lambda>opt.
              xfs_mount_at K ''none'' XFS_EXPORT ''tmpfs'' (Some opt))) (
     then_set (\<lambda>s. s\<lparr>tmpfs_mounted := True\<rparr>) (
     on_ok (xfs_mount_at K ''nfsd'' XFS_NFSDFS ''nfsd'' None) (
     then_set (\<lambda>s. s\<lparr>nfsdfs_mounted := True\<rparr>) (
     on_ok (xfs_configure_exports K) (
     on_ok (xfs_start_nfsd K) (
     then_set (\<lambda>s. s\<lparr>nfsd_up := True\<rparr>) (
     on_ok (xfs_mount_at K ''127.0.0.1:/'' XFS_MNT ''nfs4'' (Some XFS_CLIENT_OPTS)) (
     then_set (\<lambda>s. s\<lparr>client_mounted := True\<rparr>) (
     xfs_save_root K))))))))))))))"

definition xfstests_nfs_case_init :: "'w kernel \<Rightarrow> (('w, 'z) fxs_scheme, int) prog" where
  "xfstests_nfs_case_init K =
     bnd (get xfs_bringup_root) (\<lambda>root.
     bnd (case root of None \<Rightarrow> ret ()
          | Some r \<Rightarrow> seq [kdo (set_fs_root K r), kdo (set_fs_pwd K r)]) (\<lambda>_. ret 0))"

section \<open>User space programs\<close>

definition XFS_PROG_TAIL :: nat where "XFS_PROG_TAIL = 4096"

definition xfs_hostbin_mount :: "'w kernel \<Rightarrow> (('w, 'z) fxs_scheme, int) prog" where
  "xfs_hostbin_mount K =
     bnd (get xfs_hostbin_mounted) (\<lambda>mounted.
     if mounted then ret 0
     else
       bnd (xfs_mkdir_tolerant K XFS_HOSTBIN) (\<lambda>err.
       bnd (get xfs_hostbin) (\<lambda>dir.
       bnd (if err = 0 then xfs_mount_at K ''none'' XFS_HOSTBIN ''hostfs'' (Some dir) else ret err) (\<lambda>err.
       bnd (modify (\<lambda>s. s\<lparr>xfs_hostbin_mounted := (err = 0)\<rparr>)) (\<lambda>_. ret err)))))"

definition xfs_hostbin_umount :: "'w kernel \<Rightarrow> (('w, 'z) fxs_scheme, unit) prog" where
  "xfs_hostbin_umount K =
     bnd (get xfs_hostbin_mounted) (\<lambda>mounted.
     do_if mounted (seq [
       ignore (xfs_umount_settled K XFS_HOSTBIN),
       modify (\<lambda>s. s\<lparr>xfs_hostbin_mounted := False\<rparr>),
       ignore (xfs_rmdir K XFS_HOSTBIN)]))"

definition kunit_info :: "string \<Rightarrow> (('w, 'z) fxs_scheme, unit) prog" where
  "kunit_info msg = modify (\<lambda>s. s\<lparr>kunit_log := kunit_log s @ [msg]\<rparr>)"

primrec replace_fds :: "'w kernel \<Rightarrow> nat \<Rightarrow> nat list \<Rightarrow> int \<Rightarrow> (('w, 'z) kst_scheme, int) prog" where
  "replace_fds K f [] err = ret err"
| "replace_fds K f (fd # fds) err =
     (if err \<ge> 0 then bnd (kcall (replace_fd K fd f)) (replace_fds K f fds) else ret err)"

definition xfs_prog_init :: "'w kernel \<Rightarrow> string \<Rightarrow> (('w, 'z) kst_scheme, int) prog" where
  "xfs_prog_init K data =
     bnd (kcall (filp_open K data {O_RDWR, O_CREAT, O_TRUNC} (mode3 6 4 4))) (\<lambda>f.
       case f of Inl err \<Rightarrow> ret err
       | Inr h \<Rightarrow> bnd (replace_fds K h [0, 1, 2] 0) (\<lambda>err.
                   bnd (kdo (fput K h)) (\<lambda>_. ret (if err < 0 then err else 0))))"

text \<open>The lines of a NUL-terminated log, as the strchrnul loop cuts them.\<close>

function log_lines :: "string \<Rightarrow> string list" where
  "log_lines cs =
     (if cs = [] then []
      else let line = takeWhile (\<lambda>c. c \<noteq> nl) cs; rest = dropWhile (\<lambda>c. c \<noteq> nl) cs
           in line # (if rest = [] then [] else log_lines (tl rest)))"
  by pat_completeness auto
termination
proof (relation "measure length")
  fix cs :: string and x xa
  assume "cs \<noteq> []" and rest: "xa = dropWhile (\<lambda>c. c \<noteq> nl) cs" "xa \<noteq> []"
  have "length xa \<le> length cs" by (simp add: rest(1) length_dropWhile_le)
  then show "(tl xa, cs) \<in> measure length" using \<open>xa \<noteq> []\<close> by (cases xa) auto
qed simp

declare log_lines.simps [simp del]

definition to_chars :: "byte list \<Rightarrow> string" where
  "to_chars bs = map (\<lambda>b. char_of (unat b)) bs"

definition xfs_prog_dump_log ::
  "'w kernel \<Rightarrow> string \<Rightarrow> int \<Rightarrow> string \<Rightarrow> (('w, 'z) fxs_scheme, unit) prog" where
  "xfs_prog_dump_log K prog retv path =
     bnd (kunit_info (prog @ '' exited with '' @ dec_int retv @ ''; last output:'')) (\<lambda>_.
     bnd (kcall (filp_open K path {O_RDONLY} 0)) (\<lambda>f.
       case f of Inl _ \<Rightarrow> ret ()
       | Inr h \<Rightarrow>
           bnd (kcall (kmalloc K (XFS_PROG_TAIL + 1))) (\<lambda>buf.
           bnd (kcall (vfs_llseek_end K h)) (\<lambda>sz.
           let pos = (if sz > int XFS_PROG_TAIL then sz - int XFS_PROG_TAIL else 0) in
           bnd (if buf then kcall (kernel_read K h XFS_PROG_TAIL pos) else ret (- ENOMEM, [], pos)) (\<lambda>(n, data, pos).
           bnd (kdo (filp_close K h)) (\<lambda>_.
           do_if (n > 0)
             (for_each (log_lines (takeWhile (\<lambda>c. c \<noteq> char_of (0 :: nat)) (to_chars (take (nat n) data))))
                (\<lambda>line. kunit_info (''  '' @ line))))))))) "

text \<open>The wait status of \<open>kernel_wait\<close>: killed by a signal, or the exit code in bits 8-15.\<close>

definition decode_status :: "int \<Rightarrow> int" where
  "decode_status st =
     (if st > 0 then (if and st 0x7f \<noteq> 0 then 128 + and st 0x7f else and (drop_bit 8 st) 0xff) else st)"

definition xfs_run_prog ::
  "'w kernel \<Rightarrow> string \<Rightarrow> string list \<Rightarrow> (('w, 'z) fxs_scheme, int) prog" where
  "xfs_run_prog K prog args =
     bnd (get xfs_hostbin) (\<lambda>dir.
     if dir = [] then
       bnd (kunit_info (''xfstests_nfs_fixture.hostbin is not set: run through run-nfs-kunit.sh, which builds '' @ prog))
         (\<lambda>_. ret (- ENOENT))
     else bnd (xfs_hostbin_mount K) (\<lambda>r.
     if r \<noteq> 0 then
       bnd (kunit_info (''hostfs mount of '' @ dir @ '': '' @ dec_int r)) (\<lambda>_. ret r)
     else
       bnd (kcall (kmalloc K (8 * (length args + 2)))) (\<lambda>argv.
       bnd (modify (\<lambda>s. s\<lparr>xfs_prog_seq := Suc (xfs_prog_seq s)\<rparr>)) (\<lambda>_.
       bnd (get (\<lambda>s. ''/xfstests-prog-'' @ dec (xfs_prog_seq s) @ ''.log'')) (\<lambda>log.
       bnd (kcall (kmalloc K (length log + 1))) (\<lambda>log_ok.
       if \<not> argv \<or> \<not> log_ok then ret (- ENOMEM)
       else
         let argv0 = XFS_HOSTBIN @ ''/'' @ prog in
         bnd (kcall (kmalloc K (length argv0 + 1))) (\<lambda>ok.
         if \<not> ok then ret (- ENOMEM)
         else
           bnd (kcall (call_usermodehelper_setup K argv0 (argv0 # args)
                  [''HOME=/'', ''PATH=/sbin:/bin:/usr/sbin:/usr/bin''] log)) (\<lambda>info.
           if \<not> info then ret (- ENOMEM)
           else
             bnd (kcall (call_usermodehelper_exec K)) (\<lambda>st.
             let r = decode_status st in
             bnd (do_if (r \<noteq> 0) (xfs_prog_dump_log K prog r log)) (\<lambda>_.
             bnd (xfs_unlink K log) (\<lambda>_. ret r)))))))))))"

section \<open>Teardown and the reference count\<close>

definition xfs_scratch_umount :: "'w kernel \<Rightarrow> (('w, 'z) kst_scheme, int) prog" where
  "xfs_scratch_umount K =
     bnd (retry 8 0 (ret ()) (bnd (xfs_umount_settled K XFS_SCRATCH_MNT) (\<lambda>e. ret (Inl e))) (ret ()) 0)
       (\<lambda>err. ret (if err = - EINVAL \<or> err = - ENOENT then 0 else err))"

definition xfs_scratch_mount :: "'w kernel \<Rightarrow> (('w, 'z) kst_scheme, int) prog" where
  "xfs_scratch_mount K =
     on_ok (xfs_mkdir_tolerant K XFS_SCRATCH_MNT)
       (xfs_mount_at K ''127.0.0.1:/'' XFS_SCRATCH_MNT ''nfs4'' (Some (XFS_CLIENT_OPTS @ '',nosharecache'')))"

definition xfs_remount_client :: "'w kernel \<Rightarrow> bool \<Rightarrow> (('w, 'z) kst_scheme, int) prog" where
  "xfs_remount_client K ro =
     retry 20 (- EBUSY) (kdo (flush_delayed_fput K))
       (bnd (kcall (kern_path K XFS_MNT {})) (\<lambda>p.
          case p of Inl err \<Rightarrow> ret (Inr err)
          | Inr h \<Rightarrow>
              bnd (kcall (path_mount K ''127.0.0.1:/'' h ''nfs4''
                     ({MS_REMOUNT} \<union> (if ro then {MS_RDONLY} else {})) None)) (\<lambda>err.
              bnd (kdo (path_put K h)) (\<lambda>_. ret (Inl err)))))
       (kdo (msleep K 100)) (- EBUSY)"

definition xfs_teardown :: "'w kernel \<Rightarrow> (('w, 'z) fxs_scheme, unit) prog" where
  "xfs_teardown K = seq [
     xfs_hostbin_umount K,
     ignore (xfs_scratch_umount K),
     ignore (xfs_rmdir K XFS_SCRATCH_MNT),
     bnd (get client_mounted) (\<lambda>b. do_if b (seq [
       ignore (xfs_umount_settled K XFS_MNT), modify (\<lambda>s. s\<lparr>client_mounted := False\<rparr>)])),
     bnd (get nfsd_up) (\<lambda>b. do_if b (seq [
       xfs_stop_nfsd K, modify (\<lambda>s. s\<lparr>nfsd_up := False\<rparr>)])),
     bnd (get nfsdfs_mounted) (\<lambda>b. do_if b (seq [
       ignore (xfs_umount K XFS_NFSDFS), modify (\<lambda>s. s\<lparr>nfsdfs_mounted := False\<rparr>)])),
     bnd (get tmpfs_mounted) (\<lambda>b. do_if b (seq [
       ignore (xfs_umount K XFS_EXPORT), modify (\<lambda>s. s\<lparr>tmpfs_mounted := False\<rparr>)])),
     ignore (xfs_rmdir K XFS_MNT),
     ignore (xfs_rmdir K XFS_NFSDFS),
     ignore (xfs_rmdir K XFS_EXPORT),
     xfstests_nfs_export_opts XFS_EXPORT_OPTS_DEFAULT,
     bnd (get xfs_bringup_root) (\<lambda>root.
       case root of None \<Rightarrow> ret ()
       | Some r \<Rightarrow> seq [kdo (path_put K r), modify (\<lambda>s. s\<lparr>xfs_bringup_root := None\<rparr>)])]"

definition xfstests_nfs_get :: "'w kernel \<Rightarrow> (('w, 'z) fxs_scheme, int) prog" where
  "xfstests_nfs_get K =
     bnd (get xfs_fixture_refs) (\<lambda>refs.
     bnd (if refs = 0 then xfs_bringup K else ret 0) (\<lambda>err.
     bnd (if err = 0 then modify (\<lambda>s. s\<lparr>xfs_fixture_refs := xfs_fixture_refs s + 1\<rparr>)
          else xfs_teardown K) (\<lambda>_. ret err)))"

definition xfstests_nfs_put :: "'w kernel \<Rightarrow> (('w, 'z) fxs_scheme, unit) prog" where
  "xfstests_nfs_put K =
     bnd (get xfs_fixture_refs) (\<lambda>refs.
     if refs \<le> 0 then ret ()
     else bnd (modify (\<lambda>s. s\<lparr>xfs_fixture_refs := refs - 1\<rparr>)) (\<lambda>_.
       do_if (refs - 1 = 0) (xfs_teardown K)))"

end
