(* ===== verification/Frames.thy ===== *)
theory Frames
  imports FixtureEnv
begin

text \<open>
  Which code touches which variables, and which code always returns.  \<open>stays P m\<close> says
  that \<open>m\<close>, however it ends, never leaves \<open>P\<close>; \<open>keeps F m\<close> that it leaves the projection
  \<open>F\<close> of the state as it found it; \<open>returns m\<close> that it ends normally from every state.
  The locale \<open>steady\<close> is the contract of a predicate that neither the kernel nor KUnit's
  bookkeeping can break: every helper of the fixture that has no static variable of its own
  stays in it.  \<open>statics\<close> is that of a projection that does not look at them at all.  The theory also holds the model of a KUnit suite.
\<close>

section \<open>Frames\<close>

definition stays :: "('s \<Rightarrow> bool) \<Rightarrow> ('s, 'a) prog \<Rightarrow> bool" where
  "stays P m = (\<forall>s. P s \<longrightarrow> P (outcome_state (m s)))"

definition keeps :: "('s \<Rightarrow> 'v) \<Rightarrow> ('s, 'a) prog \<Rightarrow> bool" where
  "keeps F m = (\<forall>s. F (outcome_state (m s)) = F s)"

definition returns :: "('s, 'a) prog \<Rightarrow> bool" where
  "returns m = (\<forall>s. \<exists>a s'. m s = Ok a s')"

named_theorems frame_intros
named_theorems stay_intros

lemma outcome_state_simps [simp]:
  "outcome_state (Ok a s) = s" "outcome_state (Abort s) = s" "outcome_state (Skip s) = s"
  "outcome_state (Stuck s) = s"
  by (simp_all add: outcome_state_def)

lemma stays_Ok: "stays P m \<Longrightarrow> m s = Ok a s' \<Longrightarrow> P s \<Longrightarrow> P s'"
  by (metis stays_def outcome_state_simps(1))

lemma keeps_Ok: "keeps F m \<Longrightarrow> m s = Ok a s' \<Longrightarrow> F s' = F s"
  by (metis keeps_def outcome_state_simps(1))

lemma keeps_stays: "keeps F m \<longleftrightarrow> (\<forall>v. stays (\<lambda>s. F s = v) m)"
  by (auto simp: keeps_def stays_def)

lemma bnd_ret [simp]: "bnd (ret a) f = f a"
  by (simp add: fun_eq_iff bnd_def ret_def)

lemma bnd_assoc: "bnd (bnd m f) g = bnd m (\<lambda>a. bnd (f a) g)"
  by (simp add: fun_eq_iff bnd_def split: outcome.splits)

lemma bnd_case_sum:
  "bnd (case r of Inl e \<Rightarrow> f e | Inr h \<Rightarrow> g h) k = (case r of Inl e \<Rightarrow> bnd (f e) k | Inr h \<Rightarrow> bnd (g h) k)"
  by (simp split: sum.split)

lemma wp_frame:
  "returns m \<Longrightarrow> keeps F m \<Longrightarrow> (\<And>a s'. F s' = F s \<Longrightarrow> Q a s') \<Longrightarrow> wp m Q s"
  unfolding returns_def wp_Ok using keeps_Ok [of F m s] by blast

lemma wp_frame_with:
  "wp m Q s \<Longrightarrow> keeps F m \<Longrightarrow> wp m (\<lambda>a s'. Q a s' \<and> F s' = F s) s"
  unfolding wp_Ok using keeps_Ok [of F m s] by blast

lemma wp_stay_with:
  "wp m Q s \<Longrightarrow> stays P m \<Longrightarrow> P s \<Longrightarrow> wp m (\<lambda>a s'. Q a s' \<and> P s') s"
  unfolding wp_Ok using stays_Ok [of P m s] by blast

text \<open>A run that gets past \<open>m\<close> into states where what follows stays in \<open>P\<close> ends in \<open>P\<close>.\<close>

lemma stay_after: "wp m (\<lambda>a t. P (outcome_state (f a t))) s \<Longrightarrow> P (outcome_state (bnd m f s))"
  by (auto simp: wp_def bnd_def split: outcome.splits)

subsection \<open>One rule per construct\<close>

lemma stays_ret [stay_intros]: "stays P (ret a)" by (simp add: stays_def ret_def)
lemma stays_get [stay_intros]: "stays P (get f)" by (simp add: stays_def get_def)
lemma stays_modify [stay_intros]: "(\<And>s. P s \<Longrightarrow> P (f s)) \<Longrightarrow> stays P (modify f)"
  by (simp add: stays_def modify_def)
lemma stays_kask [stay_intros]: "stays P (kask f)" by (simp add: stays_def kask_def)
lemma stays_skip [stay_intros]: "stays P kunit_skip" by (simp add: stays_def kunit_skip_def)

lemma stays_bnd [stay_intros]: "stays P m \<Longrightarrow> (\<And>a. stays P (f a)) \<Longrightarrow> stays P (bnd m f)"
proof (unfold stays_def, intro allI impI)
  fix s
  assume m: "\<forall>s. P s \<longrightarrow> P (outcome_state (m s))" and f: "\<And>a. \<forall>s. P s \<longrightarrow> P (outcome_state (f a s))" and "P s"
  then show "P (outcome_state (bnd m f s))"
    using spec [OF m, of s] by (cases "m s") (simp_all add: bnd_def f)
qed

lemma stays_if [stay_intros]: "(b \<Longrightarrow> stays P m) \<Longrightarrow> (\<not> b \<Longrightarrow> stays P n) \<Longrightarrow> stays P (if b then m else n)"
  by simp
lemma stays_sum [stay_intros]:
  "(\<And>e. stays P (f e)) \<Longrightarrow> (\<And>h. stays P (g h)) \<Longrightarrow> stays P (case r of Inl e \<Rightarrow> f e | Inr h \<Rightarrow> g h)"
  by (cases r) auto
lemma stays_option [stay_intros]:
  "stays P f \<Longrightarrow> (\<And>h. stays P (g h)) \<Longrightarrow> stays P (case r of None \<Rightarrow> f | Some h \<Rightarrow> g h)"
  by (cases r) auto
lemma stays_prod [stay_intros]: "(\<And>a b. stays P (f a b)) \<Longrightarrow> stays P (case r of (a, b) \<Rightarrow> f a b)"
  by (cases r) auto
lemma stays_seq_list [stay_intros]: "stays P (seq [])" "stays P m \<Longrightarrow> stays P (seq ms) \<Longrightarrow> stays P (seq (m # ms))"
  by (auto intro!: stay_intros)
lemma stays_seq: "(\<And>m. m \<in> set ms \<Longrightarrow> stays P m) \<Longrightarrow> stays P (seq ms)"
  by (induction ms) (auto intro!: stay_intros)
lemma stays_ignore [stay_intros]: "stays P m \<Longrightarrow> stays P (ignore m)"
  by (simp add: ignore_def stays_bnd stays_ret)
lemma stays_do_if [stay_intros]: "(b \<Longrightarrow> stays P m) \<Longrightarrow> stays P (do_if b m)"
  by (simp add: do_if_def stays_ret)
lemma stays_for_each [stay_intros]: "(\<And>i. stays P (body i)) \<Longrightarrow> stays P (for_each is body)"
  by (auto simp: for_each_def intro!: stays_seq)
lemma stays_for_while [stay_intros]: "(\<And>i. stays P (body i)) \<Longrightarrow> stays P (for_while is body)"
  by (induction "is") (auto intro!: stay_intros)
lemma stays_for_fold [stay_intros]: "(\<And>i l. stays P (body i l)) \<Longrightarrow> stays P (for_fold is body l)"
  by (induction "is" arbitrary: l) (auto intro!: stay_intros)
lemma stays_loop_fuel [stay_intros]: "(\<And>l. stays P (body l)) \<Longrightarrow> stays P (loop_fuel n body l)"
proof (induction n arbitrary: l)
  case 0
  then show ?case by (simp add: stays_def)
next
  case (Suc n)
  then show ?case by (simp, intro stay_intros)
qed
lemma stays_retry [stay_intros]:
  assumes "stays P before" "stays P attempt" "stays P pause"
  shows "stays P (retry n code before attempt pause err)"
  by (induction n arbitrary: err) (auto intro!: stay_intros assms)
lemma stays_poll [stay_intros]: "stays P body \<Longrightarrow> stays P (poll n body e)"
  by (induction n) (auto intro!: stay_intros)
lemma stays_on_ok [stay_intros]: "stays P m \<Longrightarrow> stays P k \<Longrightarrow> stays P (on_ok m k)"
  by (auto simp: on_ok_def intro!: stay_intros)
lemma stays_gated [stay_intros]: "stays P m \<Longrightarrow> stays P (gated e m)"
  by (auto simp: gated_def intro!: stay_intros)

lemma keeps_modify [frame_intros]: "(\<And>s. F (f s) = F s) \<Longrightarrow> keeps F (modify f)"
  by (simp add: keeps_def modify_def)

lemma keeps_ret [frame_intros]: "keeps F (ret a)" "keeps F (get f)" "keeps F kunit_skip" "keeps F (seq [])"
  by (simp_all add: keeps_stays stay_intros)
lemma keeps_kask [frame_intros]: "keeps F (kask g)"
  by (simp add: keeps_stays stay_intros)

lemma keeps_bnd [frame_intros]: "keeps F m \<Longrightarrow> (\<And>a. keeps F (f a)) \<Longrightarrow> keeps F (bnd m f)"
  by (simp add: keeps_stays stays_bnd)
lemma keeps_if [frame_intros]: "(b \<Longrightarrow> keeps F m) \<Longrightarrow> (\<not> b \<Longrightarrow> keeps F n) \<Longrightarrow> keeps F (if b then m else n)"
  by simp
lemma keeps_sum [frame_intros]:
  "(\<And>e. keeps F (f e)) \<Longrightarrow> (\<And>h. keeps F (g h)) \<Longrightarrow> keeps F (case r of Inl e \<Rightarrow> f e | Inr h \<Rightarrow> g h)"
  by (cases r) auto
lemma keeps_option [frame_intros]:
  "keeps F f \<Longrightarrow> (\<And>h. keeps F (g h)) \<Longrightarrow> keeps F (case r of None \<Rightarrow> f | Some h \<Rightarrow> g h)"
  by (cases r) auto
lemma keeps_prod [frame_intros]: "(\<And>a b. keeps F (f a b)) \<Longrightarrow> keeps F (case r of (a, b) \<Rightarrow> f a b)"
  by (cases r) auto

lemma keeps_lists [frame_intros]:
  "keeps F m \<Longrightarrow> keeps F (seq ms) \<Longrightarrow> keeps F (seq (m # ms))"
  "keeps F call \<Longrightarrow> keeps F (ignore call)" "(b \<Longrightarrow> keeps F m) \<Longrightarrow> keeps F (do_if b m)"
  "keeps F i \<Longrightarrow> keeps F k \<Longrightarrow> keeps F (on_ok i k)" "keeps F i \<Longrightarrow> keeps F (gated e i)"
  by (simp_all add: keeps_stays stays_bnd stays_ignore stays_do_if stays_on_ok stays_gated)

lemma keeps_loops [frame_intros]:
  "(\<And>i. keeps F (body i)) \<Longrightarrow> keeps F (for_each is body)"
  "(\<And>i. keeps F (body' i)) \<Longrightarrow> keeps F (for_while is body')"
  "(\<And>i l. keeps F (body'' i l)) \<Longrightarrow> keeps F (for_fold is body'' l0)"
  "(\<And>l. keeps F (step l)) \<Longrightarrow> keeps F (loop_fuel n step l1)"
  "keeps F try \<Longrightarrow> keeps F (poll n try e)"
  by (simp_all add: keeps_stays stays_for_each stays_for_while stays_for_fold stays_loop_fuel stays_poll)

lemma keeps_retry [frame_intros]:
  "\<lbrakk>keeps F before; keeps F attempt; keeps F pause\<rbrakk> \<Longrightarrow> keeps F (retry n code before attempt pause err)"
  by (simp add: keeps_stays stays_retry)

lemma keeps_seq: "(\<And>m. m \<in> set ms \<Longrightarrow> keeps F m) \<Longrightarrow> keeps F (seq ms)"
  by (simp add: keeps_stays stays_seq)

lemma returns_ret [frame_intros]: "returns (ret a)" "returns (get f)" "returns (modify h)" "returns (seq [])"
  by (simp_all add: returns_def ret_def get_def modify_def)

lemma returns_kdo [frame_intros]: "returns (kask g)" "returns (kdo v)"
  by (simp_all add: returns_def kask_def kdo_def)

lemma returns_kcall [frame_intros]: "returns (kcall op)"
  by (simp add: returns_def kcall_def split: prod.splits)

lemma returns_bnd [frame_intros]: "returns m \<Longrightarrow> (\<And>a. returns (f a)) \<Longrightarrow> returns (bnd m f)"
proof (unfold returns_def, rule allI)
  fix s
  assume m: "\<forall>s. \<exists>a s'. m s = Ok a s'" and f: "\<And>a. \<forall>s. \<exists>b s'. f a s = Ok b s'"
  obtain a s' where "m s = Ok a s'" using m by blast
  then show "\<exists>b s'. bnd m f s = Ok b s'" using f [of a] by (simp add: bnd_def)
qed

lemma returns_seq_list [frame_intros]: "returns m \<Longrightarrow> returns (seq ms) \<Longrightarrow> returns (seq (m # ms))"
  by (auto intro!: frame_intros)
lemma returns_seq: "(\<And>m. m \<in> set ms \<Longrightarrow> returns m) \<Longrightarrow> returns (seq ms)"
  by (induction ms) (auto intro!: frame_intros)
lemma returns_ignore [frame_intros]: "returns m \<Longrightarrow> returns (ignore m)"
  by (simp add: ignore_def returns_bnd returns_ret)
lemma returns_do_if [frame_intros]: "(b \<Longrightarrow> returns m) \<Longrightarrow> returns (do_if b m)"
  by (simp add: do_if_def returns_ret)
lemma returns_if [frame_intros]: "(b \<Longrightarrow> returns m) \<Longrightarrow> (\<not> b \<Longrightarrow> returns n) \<Longrightarrow> returns (if b then m else n)"
  by simp
lemma returns_for_each [frame_intros]: "(\<And>i. returns (body i)) \<Longrightarrow> returns (for_each is body)"
  by (auto simp: for_each_def intro!: returns_seq)
lemma returns_sum [frame_intros]:
  "(\<And>e. returns (f e)) \<Longrightarrow> (\<And>h. returns (g h)) \<Longrightarrow> returns (case r of Inl e \<Rightarrow> f e | Inr h \<Rightarrow> g h)"
  by (cases r) auto
lemma returns_option [frame_intros]:
  "returns f \<Longrightarrow> (\<And>h. returns (g h)) \<Longrightarrow> returns (case r of None \<Rightarrow> f | Some h \<Rightarrow> g h)"
  by (cases r) auto
lemma returns_prod [frame_intros]: "(\<And>a b. returns (f a b)) \<Longrightarrow> returns (case r of (a, b) \<Rightarrow> f a b)"
  by (cases r) auto
lemma returns_retry [frame_intros]:
  assumes "returns before" "returns attempt" "returns pause"
  shows "returns (retry n code before attempt pause err)"
  by (induction n arbitrary: err) (auto intro!: frame_intros assms)
lemma returns_poll [frame_intros]: "returns body \<Longrightarrow> returns (poll n body e)"
  by (induction n) (auto intro!: frame_intros)
lemma returns_on_ok [frame_intros]: "returns m \<Longrightarrow> returns k \<Longrightarrow> returns (on_ok m k)"
  by (auto simp: on_ok_def intro!: frame_intros)
lemma returns_then_set [frame_intros]: "returns k \<Longrightarrow> returns (then_set f k)"
  by (auto simp: then_set_def intro!: frame_intros)
lemma returns_gated [frame_intros]: "returns m \<Longrightarrow> returns (gated e m)"
  by (auto simp: gated_def intro!: frame_intros)

section \<open>The helpers always return\<close>

lemma returns_write_loop: "\<exists>e s'. write_loop K f d pos s = Ok e s'"
  by (induction K f d pos s rule: write_loop.induct)
    (subst write_loop.simps, auto split: prod.splits simp: Let_def)

lemma returns_replace_fds [frame_intros]: "returns (replace_fds K f fds err)"
  by (induction fds arbitrary: err) (auto intro!: frame_intros)

lemmas env_defs = with_path_def xfs_mkdir_def xfs_rmdir_def xfs_unlink_def xfs_kstat_def xfs_statfs_def
  xfs_mount_at_def xfs_umount_def xfs_rmdir_settled_def xfs_umount_settled_def xfs_wait_for_free_bytes_def
  xfs_cache_line_def xfs_configure_exports_def xfs_start_nfsd_def xfs_stop_nfsd_def xfs_mkdir_tolerant_def
  xfs_scratch_umount_def xfs_scratch_mount_def xfs_remount_client_def

lemma returns_env [frame_intros]:
  "returns (xfs_mkdir K p)" "returns (xfs_rmdir K p)" "returns (xfs_unlink K p)"
  "returns (xfs_mount_at K d p t opt)" "returns (xfs_umount K p)" "returns (xfs_rmdir_settled K p)"
  "returns (xfs_umount_settled K p)" "returns (xfs_wait_for_free_bytes K b)"
  "returns (xfs_configure_exports K)" "returns (xfs_start_nfsd K)" "returns (xfs_stop_nfsd K)"
  "returns (xfs_mkdir_tolerant K p)" "returns (xfs_scratch_umount K)" "returns (xfs_scratch_mount K)"
  "returns (xfs_remount_client K ro)" "returns (xfs_loopback_up K)"
  by (auto simp: env_defs xfs_loopback_up_def Let_def intro!: frame_intros)

section \<open>Predicates the kernel and KUnit leave alone\<close>

locale steady =
  fixes P :: "('w, 'z) kst_scheme \<Rightarrow> bool"
  assumes P_kw: "P s \<Longrightarrow> P (s\<lparr>kw := w\<rparr>)"
    and P_kfails: "P s \<Longrightarrow> P (s\<lparr>kfails := Suc (kfails s)\<rparr>)"
    and P_kactions: "P s \<Longrightarrow> P (s\<lparr>kactions := as\<rparr>)"
begin

lemma stays_kcall: "stays P (kcall op)" by (auto simp: stays_def kcall_def P_kw split: prod.splits)
lemma stays_kdo: "stays P (kdo op)" by (simp add: stays_def kdo_def P_kw)
lemma stays_fail: "stays P kunit_fail" by (simp add: stays_def kunit_fail_def P_kfails)
lemma stays_expect: "stays P (kunit_expect b)" by (simp add: kunit_expect_def stays_ret stays_fail)
lemma stays_assert: "stays P (kunit_assert b)" by (simp add: stays_def kunit_assert_def P_kfails)

lemmas stays_basic = stays_kcall stays_kdo stays_fail stays_expect stays_assert

lemma stays_add_action: "stays P act \<Longrightarrow> stays P (kunit_add_action_or_reset K nm act)"
  by (auto simp: kunit_add_action_or_reset_def P_kactions intro!: stay_intros stays_basic)

lemma stays_write_loop: "stays P (write_loop K f d pos)"
proof (unfold stays_def, rule allI)
  fix s show "P s \<longrightarrow> P (outcome_state (write_loop K f d pos s))"
    by (induction K f d pos s rule: write_loop.induct)
      (subst write_loop.simps, auto split: prod.splits simp: Let_def P_kw)
qed

lemma stays_paths:
  "stays P (xfs_mkdir K p)" "stays P (xfs_rmdir K p)" "stays P (xfs_unlink K p)" "stays P (xfs_rename K p q)"
  "stays P (xfs_link K p q)" "stays P (xfs_symlink K p q)" "stays P (xfs_exists K p)" "stays P (xfs_kstat K p)"
  "stays P (xfs_ftruncate K f n)" "stays P (xfs_readlink K p m)" "stays P (xfs_truncate K p n)"
  "stays P (xfs_write_new_file K p d)" "stays P (xfs_read_range K p m n)" "stays P (xfs_statfs K p)"
  "stays P (xfs_fsync_path K p)" "stays P (xfs_chmod K p m)" "stays P (xfs_chown K p u g)"
  "stays P (xfs_utimes K p ta tm)" "stays P (xfs_setxattr K p q v m)" "stays P (xfs_getxattr K p q m)"
  "stays P (xfs_listxattr K p m)" "stays P (xfs_removexattr K p q)" "stays P (xfs_access K p m)"
  by (auto simp: xfs_mkdir_def xfs_rmdir_def xfs_unlink_def xfs_rename_def xfs_link_def xfs_symlink_def
      xfs_exists_def xfs_kstat_def xfs_ftruncate_def xfs_readlink_def xfs_truncate_def xfs_write_new_file_def
      xfs_read_range_def xfs_statfs_def xfs_fsync_path_def xfs_chmod_def xfs_chown_def xfs_utimes_def
      xfs_utimes_raw_def xfs_setxattr_def xfs_getxattr_def xfs_listxattr_def xfs_removexattr_def
      xfs_access_def with_path_def Let_def intro!: stay_intros stays_basic stays_write_loop)

lemma stays_files:
  "stays P (iocb_rw K f b n pos wr dr)" "stays P (xfs_direct_rw K f b n pos wr)" "stays P (xfs_direct_write K f b n pos)"
  "stays P (xfs_direct_read K f b n pos)" "stays P (xfs_user_rw_iter K f b n pos wr dr)"
  "stays P (xfs_user_rw K f b n pos wr dr)" "stays P (xfs_user_write K f b n pos)"
  "stays P (xfs_user_writev K f iov k pos)" "stays P (xfs_mknod K p m x y)" "stays P (xfs_posix_lock K f c l r st wr)"
  by (auto simp: iocb_rw_def xfs_direct_rw_def xfs_direct_write_def xfs_direct_read_def xfs_user_rw_iter_def
      xfs_user_rw_def xfs_user_write_def xfs_user_writev_def xfs_mknod_def xfs_posix_lock_def Let_def
      intro!: stay_intros stays_basic)

lemma stays_env:
  "stays P (xfs_mount_at K d p t opt)" "stays P (xfs_umount K p)" "stays P (xfs_settle_fput K)"
  "stays P (xfs_rmdir_settled K p)" "stays P (xfs_umount_settled K p)" "stays P (xfs_wait_for_free_bytes K b)"
  "stays P (xfs_configure_exports K)" "stays P (xfs_start_nfsd K)" "stays P (xfs_stop_nfsd K)"
  "stays P (xfs_mkdir_tolerant K p)" "stays P (xfs_scratch_umount K)" "stays P (xfs_scratch_mount K)"
  "stays P (xfs_remount_client K ro)"
  by (auto simp: env_defs xfs_settle_fput_def Let_def intro!: stay_intros stays_basic)

lemmas stays_helpers = stays_basic stays_add_action stays_write_loop stays_paths stays_files stays_env

end

text \<open>One such predicate for each value of a projection that looks at neither.\<close>

locale statics =
  fixes F :: "('w, 'z) kst_scheme \<Rightarrow> 'v"
  assumes F_kw [simp]: "F (s\<lparr>kw := w\<rparr>) = F s"
    and F_kfails [simp]: "F (s\<lparr>kfails := n\<rparr>) = F s"
    and F_kactions [simp]: "F (s\<lparr>kactions := as\<rparr>) = F s"

sublocale statics \<subseteq> at: steady "\<lambda>s. F s = v" for v
  by unfold_locales simp_all

context statics
begin

lemma keeps_basic:
  "keeps F (kcall op)" "keeps F (kdo act)" "keeps F kunit_fail" "keeps F (kunit_expect b)" "keeps F (kunit_assert b)"
  by (simp_all add: keeps_stays at.stays_basic)

lemma keeps_add_action: "keeps F act \<Longrightarrow> keeps F (kunit_add_action_or_reset K nm act)"
  by (simp add: keeps_stays at.stays_add_action)

lemma keeps_write_loop: "keeps F (write_loop K f d pos)"
  by (simp add: keeps_stays at.stays_write_loop)

lemma keeps_paths:
  "keeps F (xfs_mkdir K p)" "keeps F (xfs_rmdir K p)" "keeps F (xfs_unlink K p)" "keeps F (xfs_rename K p q)"
  "keeps F (xfs_link K p q)" "keeps F (xfs_symlink K p q)" "keeps F (xfs_exists K p)" "keeps F (xfs_kstat K p)"
  "keeps F (xfs_ftruncate K f n)" "keeps F (xfs_readlink K p m)" "keeps F (xfs_truncate K p n)"
  "keeps F (xfs_write_new_file K p d)" "keeps F (xfs_read_range K p m n)" "keeps F (xfs_statfs K p)"
  "keeps F (xfs_fsync_path K p)" "keeps F (xfs_chmod K p m)" "keeps F (xfs_chown K p u g)"
  "keeps F (xfs_utimes K p ta tm)" "keeps F (xfs_setxattr K p q v m)" "keeps F (xfs_getxattr K p q m)"
  "keeps F (xfs_listxattr K p m)" "keeps F (xfs_removexattr K p q)" "keeps F (xfs_access K p m)"
  by (simp_all add: keeps_stays at.stays_paths)

lemma keeps_files:
  "keeps F (iocb_rw K f b n pos wr dr)" "keeps F (xfs_direct_rw K f b n pos wr)" "keeps F (xfs_direct_write K f b n pos)"
  "keeps F (xfs_direct_read K f b n pos)" "keeps F (xfs_user_rw_iter K f b n pos wr dr)"
  "keeps F (xfs_user_rw K f b n pos wr dr)" "keeps F (xfs_user_write K f b n pos)"
  "keeps F (xfs_user_writev K f iov k pos)" "keeps F (xfs_mknod K p m x y)" "keeps F (xfs_posix_lock K f c l r st wr)"
  by (simp_all add: keeps_stays at.stays_files)

lemma keeps_env:
  "keeps F (xfs_mount_at K d p t opt)" "keeps F (xfs_umount K p)" "keeps F (xfs_settle_fput K)"
  "keeps F (xfs_rmdir_settled K p)" "keeps F (xfs_umount_settled K p)" "keeps F (xfs_wait_for_free_bytes K b)"
  "keeps F (xfs_configure_exports K)" "keeps F (xfs_start_nfsd K)" "keeps F (xfs_stop_nfsd K)"
  "keeps F (xfs_mkdir_tolerant K p)" "keeps F (xfs_scratch_umount K)" "keeps F (xfs_scratch_mount K)"
  "keeps F (xfs_remount_client K ro)"
  by (simp_all add: keeps_stays at.stays_env)

end

text \<open>The failures counted so far.\<close>

interpretation failed: steady "\<lambda>s. n \<le> kfails s" for n
  by unfold_locales simp_all

section \<open>Suites\<close>

text \<open>
  A \<open>struct kunit_suite\<close> of the ports: its name, what runs before the first and after the
  last case, and the cases by name.  KUnit's runner is not part of the model.
\<close>

record 's suite =
  suite_name :: string
  suite_init :: "('s, int) prog"
  suite_exit :: "('s, unit) prog"
  test_cases :: "(string \<times> ('s, unit) prog) list"

definition nfs_suite ::
  "'w kernel \<Rightarrow> string \<Rightarrow> (string \<times> (('w, 'z) fxs_scheme, unit) prog) list \<Rightarrow> ('w, 'z) fxs_scheme suite" where
  \<comment> \<open>what every port's suite has in common\<close>
  "nfs_suite K nm cs =
     \<lparr>suite_name = nm, suite_init = xfstests_nfs_get K, suite_exit = xfstests_nfs_put K, test_cases = cs\<rparr>"

end
