(* ===== verification/Lifecycle.thy ===== *)
theory Lifecycle
  imports Frames
begin

text \<open>
  The life of the fixture: \<open>xfstests_nfs_get\<close>, \<open>xfstests_nfs_put\<close> and the calls
  a suite makes between them, as a step relation over the fixture's statics, with no
  assumption about the kernel at all: every return value of every kernel function is
  possible.  The invariant ties the reference count to the four deployment flags.
\<close>

section \<open>The variables that describe the deployment\<close>

text \<open>\<open>deployment\<close> is what bring-up and teardown own; everything else leaves it alone.\<close>

definition deployment :: "('w, 'z) fxs_scheme \<Rightarrow> int \<times> bool \<times> bool \<times> bool \<times> bool \<times> nat option \<times> string" where
  "deployment s = (xfs_fixture_refs s, tmpfs_mounted s, nfsdfs_mounted s, nfsd_up s, client_mounted s,
     xfs_bringup_root s, xfs_export_mount_opts s)"

interpretation dep: statics "deployment :: ('w, 'z) fxs_scheme \<Rightarrow> _"
  by unfold_locales (simp_all add: deployment_def)

definition identity :: "('w, 'z) fxs_scheme \<Rightarrow> cred option \<times> cred option" where
  "identity s = (xfs_saved_creds s, xfs_override s)"

interpretation idn: statics "identity :: ('w, 'z) fxs_scheme \<Rightarrow> _"
  by unfold_locales (simp_all add: identity_def)

lemmas dep_intros = frame_intros dep.keeps_basic dep.keeps_paths dep.keeps_env dep.keeps_add_action dep.keeps_write_loop
lemmas idn_intros = frame_intros idn.keeps_basic idn.keeps_paths idn.keeps_env idn.keeps_add_action

lemma deployment_eqD:
  "deployment s' = deployment s \<Longrightarrow> xfs_fixture_refs s' = xfs_fixture_refs s \<and>
     tmpfs_mounted s' = tmpfs_mounted s \<and> nfsdfs_mounted s' = nfsdfs_mounted s \<and> nfsd_up s' = nfsd_up s \<and>
     client_mounted s' = client_mounted s \<and> xfs_bringup_root s' = xfs_bringup_root s \<and>
     xfs_export_mount_opts s' = xfs_export_mount_opts s"
  by (simp add: deployment_def)

lemma keeps_hostbin [frame_intros]:
  "keeps deployment (xfs_hostbin_mount K)" "keeps deployment (xfs_hostbin_umount K)" "keeps deployment (kunit_info m)"
  "keeps identity (xfs_hostbin_mount K)" "keeps identity (xfs_hostbin_umount K)" "keeps identity (kunit_info m)"
  by (auto simp: xfs_hostbin_mount_def xfs_hostbin_umount_def kunit_info_def deployment_def identity_def
      intro!: dep_intros idn_intros)

lemmas fixture_intros = dep_intros idn_intros keeps_hostbin

lemma returns_hostbin [frame_intros]:
  "returns (xfs_hostbin_mount K)" "returns (xfs_hostbin_umount K)" "returns (kunit_info m)"
  by (auto simp: xfs_hostbin_mount_def xfs_hostbin_umount_def kunit_info_def intro!: frame_intros)

lemma keeps_run_prog:
  "keeps deployment (xfs_run_prog K prog args)" "keeps identity (xfs_run_prog K prog args)"
  by (auto simp: xfs_run_prog_def xfs_prog_dump_log_def Let_def deployment_def identity_def
      intro!: frame_intros keeps_hostbin dep.keeps_basic idn.keeps_basic dep.keeps_paths idn.keeps_paths)

lemma returns_run_prog: "returns (xfs_run_prog K prog args)"
  by (auto simp: xfs_run_prog_def xfs_prog_dump_log_def Let_def intro!: frame_intros)

lemma keeps_case_init: "keeps deployment (xfstests_nfs_case_init K)" "keeps identity (xfstests_nfs_case_init K)"
  by (auto simp: xfstests_nfs_case_init_def intro!: dep_intros idn_intros)

lemma keeps_bringup: "keeps identity (xfs_bringup K)" "keeps identity (xfs_teardown K)"
  by (auto simp: xfs_bringup_def xfs_teardown_def xfs_save_root_def xfs_loopback_up_def then_set_def
      xfstests_nfs_export_opts_def identity_def intro!: idn_intros keeps_hostbin)

section \<open>States of the deployment\<close>

definition deployed :: "('w, 'z) fxs_scheme \<Rightarrow> bool" where
  "deployed s = (tmpfs_mounted s \<and> nfsdfs_mounted s \<and> nfsd_up s \<and> client_mounted s \<and> xfs_bringup_root s \<noteq> None)"

definition torn_down :: "('w, 'z) fxs_scheme \<Rightarrow> bool" where
  "torn_down s = (\<not> tmpfs_mounted s \<and> \<not> nfsdfs_mounted s \<and> \<not> nfsd_up s \<and> \<not> client_mounted s \<and>
     xfs_bringup_root s = None)"

definition fixture_inv :: "('w, 'z) fxs_scheme \<Rightarrow> bool" where
  "fixture_inv s = (0 \<le> xfs_fixture_refs s \<and> (if xfs_fixture_refs s > 0 then deployed s else torn_down s) \<and>
     length (xfs_export_mount_opts s) \<le> 63)"

lemma wp_dep:
  "returns m \<Longrightarrow> keeps deployment m \<Longrightarrow>
     (\<And>a s'. deployment s' = deployment s \<Longrightarrow> Q a s') \<Longrightarrow> wp m Q s"
  by (rule wp_frame)

text \<open>One step of bring-up: any return value; what follows only where it was 0.\<close>

lemma wp_on_ok_dep:
  assumes "returns m" "keeps deployment m"
    and "\<And>e s'. \<lbrakk>e \<noteq> 0; deployment s' = deployment s\<rbrakk> \<Longrightarrow> Q e s'"
    and "\<And>s'. deployment s' = deployment s \<Longrightarrow> wp k Q s'"
  shows "wp (on_ok m k) Q s"
  unfolding on_ok_def wp_bnd by (rule wp_dep [OF assms(1,2)]) (use assms(3,4) in auto)

lemma wp_on_ok_opt:
  assumes "\<And>e s'. \<lbrakk>e \<noteq> 0; deployment s' = deployment s\<rbrakk> \<Longrightarrow> Q e s'"
    and "\<And>s'. deployment s' = deployment s \<Longrightarrow> wp k Q s'"
  shows "wp (on_ok (bnd (get xfs_export_mount_opts) (\<lambda>opt. xfs_mount_at K d p t (Some opt))) k) Q s"
  by (rule wp_on_ok_dep) (use assms in \<open>auto intro!: dep_intros\<close>)

text \<open>Bring-up touches neither the count nor the options; where it returns 0 everything is up.\<close>

definition brought_up :: "('w, 'z) fxs_scheme \<Rightarrow> int \<Rightarrow> ('w, 'z) fxs_scheme \<Rightarrow> bool" where
  "brought_up s e s' = (xfs_fixture_refs s' = xfs_fixture_refs s \<and>
     xfs_export_mount_opts s' = xfs_export_mount_opts s \<and> (e = 0 \<longrightarrow> deployed s'))"

lemma wp_then_set [simp]: "wp (then_set f k) Q s = wp k Q (f s)"
  by (simp add: then_set_def)

lemma wp_save_root:
  assumes "tmpfs_mounted s" "nfsdfs_mounted s" "nfsd_up s" "client_mounted s"
  shows "wp (xfs_save_root K) (brought_up s) s"
  using assms by (auto simp: xfs_save_root_def wp_kdo brought_up_def deployed_def split: option.splits)

lemma bringup_outcome: "wp (xfs_bringup K) (brought_up s) s"
  unfolding xfs_bringup_def
  by (rule wp_on_ok_dep wp_on_ok_opt |
      (intro dep_intros; fail) |
      (simp add: xfs_loopback_up_def; intro dep_intros; fail) |
      (simp add: brought_up_def deployment_def; fail) |
      simp only: wp_then_set |
      (rule wp_mono, rule wp_save_root; simp add: brought_up_def deployment_def; fail))+

text \<open>One stage of teardown: undo what the flag says is there, then clear the flag.\<close>

lemma wp_stage:
  assumes "returns m" "keeps deployment m"
    and "\<And>t. deployment t = deployment s \<Longrightarrow> deployment (c t) = deployment (c s)"
    and "\<not> g s \<Longrightarrow> deployment (c s) = deployment s"
    and "\<And>s'. deployment s' = deployment (c s) \<Longrightarrow> wp (seq ms) Q s'"
  shows "wp (seq (bnd (get g) (\<lambda>b. do_if b (seq [m, modify c])) # ms)) Q s"
proof (cases "g s")
  case True
  have "wp m (\<lambda>_ s'. wp (seq ms) Q (c s')) s"
    by (rule wp_dep [OF assms(1,2)]) (rule assms(5), rule assms(3))
  with True show ?thesis by simp
qed (use assms(4,5) in simp)

lemma wp_dep_seq:
  assumes "returns m" "keeps deployment m" "\<And>s'. deployment s' = deployment s \<Longrightarrow> wp (seq ms) Q s'"
  shows "wp (seq (m # ms)) Q s"
  unfolding wp_seq_Cons by (rule wp_dep [OF assms(1,2)]) (rule assms(3))

lemma teardown_outcome:
  "wp (xfs_teardown K) (\<lambda>_ s'. xfs_fixture_refs s' = xfs_fixture_refs s \<and> torn_down s' \<and>
     xfs_export_mount_opts s' = XFS_EXPORT_OPTS_DEFAULT) s"
  unfolding xfs_teardown_def
  apply (rule wp_dep_seq, (intro fixture_intros returns_hostbin)+)
  apply (rule wp_dep_seq, (intro fixture_intros)+)
  apply (rule wp_dep_seq, (intro fixture_intros)+)
  apply (rule wp_stage, (intro fixture_intros)+, simp add: deployment_def, simp add: deployment_def)
  apply (rule wp_stage, (intro fixture_intros)+, simp add: deployment_def, simp add: deployment_def)
  apply (rule wp_stage, (intro fixture_intros)+, simp add: deployment_def, simp add: deployment_def)
  apply (rule wp_stage, (intro fixture_intros)+, simp add: deployment_def, simp add: deployment_def)
  apply (rule wp_dep_seq, (intro fixture_intros)+)
  apply (rule wp_dep_seq, (intro fixture_intros)+)
  apply (rule wp_dep_seq, (intro fixture_intros)+)
  apply (simp add: xfstests_nfs_export_opts_def wp_kdo deployment_def torn_down_def
      XFS_EXPORT_OPTS_DEFAULT_def split: option.splits)
  done

section \<open>The life cycle\<close>

text \<open>
  What a get does: the first one deploys; one that fails to deploy leaves nothing up and
  the count where it was; one that finds the fixture up only counts.
\<close>

lemma get_outcome:
  assumes "fixture_inv s"
  shows "wp (xfstests_nfs_get K) (\<lambda>e s'. fixture_inv s' \<and>
     (if e = 0 then xfs_fixture_refs s' = xfs_fixture_refs s + 1 else
        xfs_fixture_refs s = 0 \<and> xfs_fixture_refs s' = 0 \<and> xfs_export_mount_opts s' = XFS_EXPORT_OPTS_DEFAULT)) s"
proof (cases "xfs_fixture_refs s = 0")
  case True
  show ?thesis
    unfolding xfstests_nfs_get_def wp_bnd wp_get wp_if if_P [OF True]
    by (rule wp_mono [OF bringup_outcome])
      (use assms True in \<open>auto intro!: wp_mono [OF teardown_outcome] simp: brought_up_def fixture_inv_def
        deployed_def XFS_EXPORT_OPTS_DEFAULT_def\<close>)
next
  case False
  with assms show ?thesis
    by (auto simp: xfstests_nfs_get_def fixture_inv_def deployed_def)
qed

lemma put_outcome:
  assumes "fixture_inv s"
  shows "wp (xfstests_nfs_put K) (\<lambda>_ s'. fixture_inv s' \<and>
     xfs_fixture_refs s' = (if xfs_fixture_refs s = 0 then 0 else xfs_fixture_refs s - 1)) s"
proof (cases "xfs_fixture_refs s = 1")
  case True
  then show ?thesis
    by (auto simp: xfstests_nfs_put_def fixture_inv_def XFS_EXPORT_OPTS_DEFAULT_def intro!: wp_mono [OF teardown_outcome])
next
  case False
  with assms show ?thesis by (auto simp: xfstests_nfs_put_def fixture_inv_def deployed_def torn_down_def)
qed

text \<open>
  The steps: the calls of the fixture a suite makes, and anything else the kernel and the
  tests do, which leaves the deployment variables alone.
\<close>

inductive fx_step :: "'w kernel \<Rightarrow> ('w, 'z) fxs_scheme \<Rightarrow> ('w, 'z) fxs_scheme \<Rightarrow> bool" for K where
  get: "xfstests_nfs_get K s = Ok e s' \<Longrightarrow> fx_step K s s'"
| put: "xfstests_nfs_put K s = Ok u s' \<Longrightarrow> fx_step K s s'"
| opts: "xfstests_nfs_export_opts opt s = Ok u s' \<Longrightarrow> fx_step K s s'"
| fixup: "xfstests_nfs_case_init K s = Ok e s' \<Longrightarrow> fx_step K s s'"
| prog: "xfs_run_prog K p args s = Ok e s' \<Longrightarrow> fx_step K s s'"
| other: "deployment s' = deployment s \<Longrightarrow> fx_step K s s'"

abbreviation fx_reach :: "'w kernel \<Rightarrow> ('w, 'z) fxs_scheme \<Rightarrow> ('w, 'z) fxs_scheme \<Rightarrow> bool" where
  "fx_reach K \<equiv> (fx_step K)\<^sup>*\<^sup>*"

definition fixture_boot :: "('w, 'z) fxs_scheme \<Rightarrow> bool" where
  \<comment> \<open>the initial values of the statics\<close>
  "fixture_boot s = (xfs_fixture_refs s = 0 \<and> torn_down s \<and> xfs_export_mount_opts s = XFS_EXPORT_OPTS_DEFAULT)"

lemma fixture_inv_cong: "deployment s' = deployment s \<Longrightarrow> fixture_inv s' = fixture_inv s"
  by (simp add: deployment_def fixture_inv_def deployed_def torn_down_def)

lemma fixture_inv_step:
  assumes "fx_step K s s'" "fixture_inv s"
  shows "fixture_inv s'"
  using assms
proof (cases rule: fx_step.cases)
  case (get e)
  then show ?thesis using get_outcome [OF assms(2), of K] by (auto simp: wp_def)
next
  case (put u)
  then show ?thesis using put_outcome [OF assms(2), of K] by (auto simp: wp_def)
next
  case (opts opt u)
  then show ?thesis using assms(2)
    by (auto simp: xfstests_nfs_export_opts_def modify_def fixture_inv_def deployed_def torn_down_def)
next
  case (fixup e)
  then show ?thesis using keeps_Ok [OF keeps_case_init(1)] assms(2) fixture_inv_cong by metis
next
  case (prog p args e)
  then show ?thesis using keeps_Ok [OF keeps_run_prog(1)] assms(2) fixture_inv_cong by metis
next
  case other
  then show ?thesis using assms(2) fixture_inv_cong by metis
qed

lemma fixture_inv_reach: "fx_reach K s s' \<Longrightarrow> fixture_inv s \<Longrightarrow> fixture_inv s'"
  by (induction rule: rtranclp_induct) (auto intro: fixture_inv_step)

lemma fixture_boot_inv: "fixture_boot s \<Longrightarrow> fixture_inv s"
  by (simp add: fixture_boot_def fixture_inv_def XFS_EXPORT_OPTS_DEFAULT_def)

end
