(* ===== verification/Posix.thy ===== *)
theory Posix
  imports FixtureEnv
begin

text \<open>
  What the ports expect of a file system, as the contract \<open>posix_kernel\<close> between the
  kernel's functions and the test code.  The contract is stated over a view \<open>V\<close> of the
  kernel's world (the names below the client's mount point and the inodes they lead to,
  open files, path references) and a
  predicate \<open>ok\<close> that every operation keeps: the task runs as root, no allocation fails,
  no medium error or shortage of space occurs, and the release of a closed file is not
  pending.  The laws are the documented behaviour of mkdir(2), open(2), unlink(2), link(2),
  rename(2), stat(2), truncate(2), read(2), write(2), fallocate(2) and the xattr calls,
  each for the cases the ports reach and with the file size limits of a file opened
  without O_LARGEFILE; about any other call nothing is assumed.

  Inside the locale are the contracts of the fixture's helpers, one rule per helper and
  case in the form the proofs of the ports apply: to establish \<open>wp\<close> of a call, show the
  law's conditions and continue in the world the law describes.
\<close>

section \<open>The view\<close>

record inode =
  i_type :: ftype
  i_data :: "byte list"
  i_target :: string
  i_nlink :: nat
  i_perm :: nat
  i_xattrs :: "string \<rightharpoonup> string"

record fsv =
  names :: "string \<rightharpoonup> nat"
  inodes :: "nat \<Rightarrow> inode"
  fds :: "nat \<rightharpoonup> nat \<times> oflag set"
  refs :: "nat \<rightharpoonup> nat"

definition new_inode :: "ftype \<Rightarrow> string \<Rightarrow> nat \<Rightarrow> inode" where
  "new_inode t target perm =
     \<lparr>i_type = t, i_data = [], i_target = target, i_nlink = 1, i_perm = perm, i_xattrs = Map.empty\<rparr>"

lemma new_inode_simps [simp]:
  "i_type (new_inode t g p) = t" "i_data (new_inode t g p) = []" "i_target (new_inode t g p) = g"
  "i_nlink (new_inode t g p) = 1" "i_perm (new_inode t g p) = p" "i_xattrs (new_inode t g p) = Map.empty"
  by (simp_all add: new_inode_def)

definition is_dir :: "fsv \<Rightarrow> string \<Rightarrow> bool" where
  "is_dir v p = (case names v p of None \<Rightarrow> False | Some i \<Rightarrow> i_type (inodes v i) = S_DIR)"

definition absent :: "fsv \<Rightarrow> string \<Rightarrow> bool" where
  \<comment> \<open>the name is free and its directory exists\<close>
  "absent v p = (names v p = None \<and> is_dir v (dirname p))"

definition has_inode :: "fsv \<Rightarrow> string \<Rightarrow> nat \<Rightarrow> ftype \<Rightarrow> bool" where
  "has_inode v p i t = (names v p = Some i \<and> i_type (inodes v i) = t)"

definition fresh :: "fsv \<Rightarrow> nat \<Rightarrow> bool" where
  "fresh v i = ((\<forall>p. names v p \<noteq> Some i) \<and> (\<forall>h fl. fds v h \<noteq> Some (i, fl)) \<and> (\<forall>h. refs v h \<noteq> Some i))"

definition closed :: "fsv \<Rightarrow> nat \<Rightarrow> bool" where
  "closed v i = (\<forall>h fl. fds v h \<noteq> Some (i, fl))"

definition empty_dir :: "fsv \<Rightarrow> string \<Rightarrow> bool" where
  "empty_dir v p = (\<forall>q. dirname q = p \<longrightarrow> names v q = None)"

definition readable :: "oflag set \<Rightarrow> bool" where "readable fl = (O_WRONLY \<notin> fl)"
definition writable :: "oflag set \<Rightarrow> bool" where "writable fl = (O_WRONLY \<in> fl \<or> O_RDWR \<in> fl)"

lemma access_mode_simps [simp]:
  "readable (insert O_RDWR {}) = True" "writable (insert O_RDWR fl)" "writable (insert O_WRONLY fl)"
  by (simp_all add: readable_def writable_def)

definition add_name :: "string \<Rightarrow> nat \<Rightarrow> inode \<Rightarrow> fsv \<Rightarrow> fsv" where
  "add_name p i n v = v\<lparr>names := (names v)(p \<mapsto> i), inodes := (inodes v)(i := n)\<rparr>"

definition set_data :: "nat \<Rightarrow> byte list \<Rightarrow> fsv \<Rightarrow> fsv" where
  "set_data i d v = v\<lparr>inodes := (inodes v)(i := (inodes v i)\<lparr>i_data := d\<rparr>)\<rparr>"

definition set_nlink :: "nat \<Rightarrow> nat \<Rightarrow> fsv \<Rightarrow> fsv" where
  "set_nlink i n v = v\<lparr>inodes := (inodes v)(i := (inodes v i)\<lparr>i_nlink := n\<rparr>)\<rparr>"

definition set_xattrs :: "nat \<Rightarrow> (string \<rightharpoonup> string) \<Rightarrow> fsv \<Rightarrow> fsv" where
  "set_xattrs i m v = v\<lparr>inodes := (inodes v)(i := (inodes v i)\<lparr>i_xattrs := m\<rparr>)\<rparr>"

definition data_of :: "fsv \<Rightarrow> nat \<Rightarrow> byte list" where
  "data_of v i = i_data (inodes v i)"

lemma view_simps [simp]:
  "names (add_name p i n v) = (names v)(p \<mapsto> i)"
  "inodes (add_name p i n v) = (inodes v)(i := n)"
  "fds (add_name p i n v) = fds v" "refs (add_name p i n v) = refs v"
  "names (set_data i d v) = names v" "fds (set_data i d v) = fds v" "refs (set_data i d v) = refs v"
  "names (set_nlink i k v) = names v" "fds (set_nlink i k v) = fds v" "refs (set_nlink i k v) = refs v"
  "names (set_xattrs i m v) = names v" "fds (set_xattrs i m v) = fds v" "refs (set_xattrs i m v) = refs v"
  by (simp_all add: add_name_def set_data_def set_nlink_def set_xattrs_def)

lemma inode_update_simps [simp]:
  "i_type (inodes (set_data i d v) j) = i_type (inodes v j)"
  "i_nlink (inodes (set_data i d v) j) = i_nlink (inodes v j)"
  "i_xattrs (inodes (set_data i d v) j) = i_xattrs (inodes v j)"
  "i_type (inodes (set_nlink i k v) j) = i_type (inodes v j)"
  "i_nlink (inodes (set_nlink i k v) j) = (if i = j then k else i_nlink (inodes v j))"
  "i_xattrs (inodes (set_nlink i k v) j) = i_xattrs (inodes v j)"
  "i_type (inodes (set_xattrs i m v) j) = i_type (inodes v j)"
  "i_nlink (inodes (set_xattrs i m v) j) = i_nlink (inodes v j)"
  "i_xattrs (inodes (set_xattrs i m v) j) = (if i = j then m else i_xattrs (inodes v j))"
  by (simp_all add: set_data_def set_nlink_def set_xattrs_def)

lemma data_of_simps [simp]:
  "data_of (set_data i d v) j = (if i = j then d else data_of v j)"
  "data_of (set_nlink i k v) j = data_of v j"
  "data_of (set_xattrs i m v) j = data_of v j"
  "data_of (add_name p i n v) j = (if i = j then i_data n else data_of v j)"
  "data_of (v\<lparr>names := nm\<rparr>) j = data_of v j"
  "data_of (v\<lparr>fds := fd\<rparr>) j = data_of v j"
  "data_of (v\<lparr>refs := rf\<rparr>) j = data_of v j"
  by (simp_all add: data_of_def set_data_def set_nlink_def set_xattrs_def add_name_def)

lemma is_dir_simps [simp]:
  "is_dir (set_data i d v) p = is_dir v p" "is_dir (set_nlink i k v) p = is_dir v p"
  "is_dir (set_xattrs i m v) p = is_dir v p" "is_dir (v\<lparr>fds := fd\<rparr>) p = is_dir v p"
  "is_dir (v\<lparr>refs := rf\<rparr>) p = is_dir v p"
  by (simp_all add: is_dir_def split: option.splits)

lemma is_dir_add_name:
  "fresh v i \<Longrightarrow> p \<noteq> q \<Longrightarrow> is_dir (add_name q i n v) p = is_dir v p"
  by (auto simp: is_dir_def fresh_def split: option.splits)

definition stat_matches :: "fsv \<Rightarrow> nat \<Rightarrow> kstat \<Rightarrow> bool" where
  "stat_matches v i st =
     (st_ino st = i \<and> st_type st = i_type (inodes v i) \<and> st_perm st = i_perm (inodes v i) \<and>
      (i_type (inodes v i) = S_REG \<longrightarrow> st_size st = int (length (data_of v i))) \<and>
      (i_type (inodes v i) = S_LNK \<longrightarrow> st_size st = int (length (i_target (inodes v i)))) \<and>
      (i_type (inodes v i) \<noteq> S_DIR \<longrightarrow> st_nlink st = i_nlink (inodes v i)))"

definition size_limit :: nat where "size_limit = 2 ^ 31"

section \<open>The contract\<close>

locale posix_kernel =
  fixes K :: "'w kernel" and V :: "'w \<Rightarrow> fsv" and ok :: "'w \<Rightarrow> bool"
  assumes root: "ok w \<Longrightarrow> is_dir (V w) XFS_MNT"
    and inside: "\<lbrakk>ok w; names (V w) p = Some i\<rbrakk> \<Longrightarrow> take (length XFS_MNT) p = XFS_MNT"
    and tree: "\<lbrakk>ok w; names (V w) p = Some i\<rbrakk> \<Longrightarrow> p = XFS_MNT \<or> is_dir (V w) (dirname p)"
    and mkdir_new: "\<lbrakk>ok w; absent (V w) p; do_mkdirat K p m w = (r, w')\<rbrakk> \<Longrightarrow>
      r = 0 \<and> ok w' \<and> (\<exists>i. fresh (V w) i \<and> V w' = add_name p i (new_inode S_DIR [] m) (V w))"
    and mkdir_exists: "\<lbrakk>ok w; names (V w) p \<noteq> None; do_mkdirat K p m w = (r, w')\<rbrakk> \<Longrightarrow>
      r = - EEXIST \<and> ok w' \<and> V w' = V w"
    and rmdir_empty: "\<lbrakk>ok w; is_dir (V w) p; p \<noteq> XFS_MNT; empty_dir (V w) p; do_rmdir K p w = (r, w')\<rbrakk> \<Longrightarrow>
      r = 0 \<and> ok w' \<and> V w' = (V w)\<lparr>names := (names (V w))(p := None)\<rparr>"
    and rmdir_nonempty: "\<lbrakk>ok w; is_dir (V w) p; p \<noteq> XFS_MNT; \<not> empty_dir (V w) p; do_rmdir K p w = (r, w')\<rbrakk> \<Longrightarrow>
      r = - ENOTEMPTY \<and> ok w' \<and> V w' = V w"
    and unlink_file: "\<lbrakk>ok w; names (V w) p = Some i; i_type (inodes (V w) i) \<noteq> S_DIR; closed (V w) i;
        do_unlinkat K p w = (r, w')\<rbrakk> \<Longrightarrow>
      r = 0 \<and> ok w' \<and>
      V w' = set_nlink i (i_nlink (inodes (V w) i) - 1) ((V w)\<lparr>names := (names (V w))(p := None)\<rparr>)"
    and unlink_absent: "\<lbrakk>ok w; absent (V w) p; do_unlinkat K p w = (r, w')\<rbrakk> \<Longrightarrow>
      r = - ENOENT \<and> ok w' \<and> V w' = V w"
    and link_file: "\<lbrakk>ok w; names (V w) p = Some i; i_type (inodes (V w) i) \<noteq> S_DIR; absent (V w) q;
        do_linkat K p q w = (r, w')\<rbrakk> \<Longrightarrow>
      r = 0 \<and> ok w' \<and>
      V w' = set_nlink i (i_nlink (inodes (V w) i) + 1) ((V w)\<lparr>names := (names (V w))(q \<mapsto> i)\<rparr>)"
    and rename_same: "\<lbrakk>ok w; names (V w) p = Some i; names (V w) q = Some i;
        do_renameat2 K p q w = (r, w')\<rbrakk> \<Longrightarrow>
      r = 0 \<and> ok w' \<and> V w' = V w"
    and rename_new: "\<lbrakk>ok w; names (V w) p = Some i; i_type (inodes (V w) i) \<noteq> S_DIR; absent (V w) q;
        do_renameat2 K p q w = (r, w')\<rbrakk> \<Longrightarrow>
      r = 0 \<and> ok w' \<and> V w' = (V w)\<lparr>names := (names (V w))(p := None, q \<mapsto> i)\<rparr>"
    and rename_over: "\<lbrakk>ok w; names (V w) p = Some i; i_type (inodes (V w) i) \<noteq> S_DIR;
        names (V w) q = Some j; i_type (inodes (V w) j) \<noteq> S_DIR; i \<noteq> j; closed (V w) j;
        do_renameat2 K p q w = (r, w')\<rbrakk> \<Longrightarrow>
      r = 0 \<and> ok w' \<and>
      V w' = set_nlink j (i_nlink (inodes (V w) j) - 1)
               ((V w)\<lparr>names := (names (V w))(p := None, q \<mapsto> i)\<rparr>)"
    and symlink_new: "\<lbrakk>ok w; absent (V w) p; do_symlinkat K t p w = (r, w')\<rbrakk> \<Longrightarrow>
      r = 0 \<and> ok w' \<and> (\<exists>i m. fresh (V w) i \<and> V w' = add_name p i (new_inode S_LNK t m) (V w))"
    and kern_path_found: "\<lbrakk>ok w; names (V w) p = Some i; kern_path K p {} w = (rp, w')\<rbrakk> \<Longrightarrow>
      \<exists>h. rp = Inr h \<and> refs (V w) h = None \<and> ok w' \<and> V w' = (V w)\<lparr>refs := (refs (V w))(h \<mapsto> i)\<rparr>"
    and kern_path_absent: "\<lbrakk>ok w; absent (V w) p; kern_path K p {} w = (rp, w')\<rbrakk> \<Longrightarrow>
      rp = Inl (- ENOENT) \<and> ok w' \<and> V w' = V w"
    and path_put: "\<lbrakk>ok w; refs (V w) h = Some i\<rbrakk> \<Longrightarrow>
      ok (path_put K h w) \<and> V (path_put K h w) = (V w)\<lparr>refs := (refs (V w))(h := None)\<rparr>"
    and getattr: "\<lbrakk>ok w; refs (V w) h = Some i; vfs_getattr K h w = (ra, w')\<rbrakk> \<Longrightarrow>
      ok w' \<and> V w' = V w \<and> (\<exists>st. ra = Inr st \<and> stat_matches (V w) i st)"
    and truncate: "\<lbrakk>ok w; refs (V w) h = Some i; i_type (inodes (V w) i) = S_REG; n < size_limit;
        vfs_truncate K h (int n) w = (r, w')\<rbrakk> \<Longrightarrow>
      r = 0 \<and> ok w' \<and> V w' = set_data i (resize n (data_of (V w) i)) (V w)"
    and ftruncate: "\<lbrakk>ok w; fds (V w) h = Some (i, fl); i_type (inodes (V w) i) = S_REG; writable fl;
        n < size_limit; do_ftruncate K h (int n) w = (r, w')\<rbrakk> \<Longrightarrow>
      r = 0 \<and> ok w' \<and> V w' = set_data i (resize n (data_of (V w) i)) (V w)"
    and open_new: "\<lbrakk>ok w; absent (V w) p; O_CREAT \<in> fl; filp_open K p fl m w = (rf, w')\<rbrakk> \<Longrightarrow>
      \<exists>h i. rf = Inr h \<and> fds (V w) h = None \<and> fresh (V w) i \<and> ok w' \<and>
        V w' = (add_name p i (new_inode S_REG [] m) (V w))\<lparr>fds := (fds (V w))(h \<mapsto> (i, fl))\<rparr>"
    and open_exists: "\<lbrakk>ok w; names (V w) p = Some i; O_CREAT \<in> fl; O_EXCL \<in> fl;
        filp_open K p fl m w = (rf, w')\<rbrakk> \<Longrightarrow>
      rf = Inl (- EEXIST) \<and> ok w' \<and> V w' = V w"
    and open_absent: "\<lbrakk>ok w; absent (V w) p; O_CREAT \<notin> fl; filp_open K p fl m w = (rf, w')\<rbrakk> \<Longrightarrow>
      rf = Inl (- ENOENT) \<and> ok w' \<and> V w' = V w"
    and open_file: "\<lbrakk>ok w; has_inode (V w) p i S_REG; O_EXCL \<notin> fl; O_DIRECTORY \<notin> fl;
        filp_open K p fl m w = (rf, w')\<rbrakk> \<Longrightarrow>
      \<exists>h. rf = Inr h \<and> fds (V w) h = None \<and> ok w' \<and>
        V w' = (if O_TRUNC \<in> fl then set_data i [] (V w) else V w)\<lparr>fds := (fds (V w))(h \<mapsto> (i, fl))\<rparr>"
    and close: "\<lbrakk>ok w; fds (V w) h = Some (i, fl)\<rbrakk> \<Longrightarrow>
      ok (filp_close K h w) \<and> V (filp_close K h w) = (V w)\<lparr>fds := (fds (V w))(h := None)\<rparr>"
    and write_file: "\<lbrakk>ok w; fds (V w) h = Some (i, fl); i_type (inodes (V w) i) = S_REG; writable fl;
        start = (if O_APPEND \<in> fl then length (data_of (V w) i) else pos); start + length d < size_limit;
        kernel_write K h d (int pos) w = ((r, pos'), w')\<rbrakk> \<Longrightarrow>
      r = int (length d) \<and> pos' = int (start + length d) \<and> ok w' \<and>
      V w' = set_data i (write_at start d (data_of (V w) i)) (V w)"
    and read_file: "\<lbrakk>ok w; fds (V w) h = Some (i, fl); i_type (inodes (V w) i) = S_REG; readable fl;
        pos + n < size_limit; kernel_read K h n (int pos) w = ((r, d, pos'), w')\<rbrakk> \<Longrightarrow>
      d = read_at pos n (data_of (V w) i) \<and> r = int (length d) \<and> pos' = int (pos + length d) \<and>
      ok w' \<and> V w' = V w"
    and fsync: "\<lbrakk>ok w; fds (V w) h = Some (i, fl); vfs_fsync K h w = (r, w')\<rbrakk> \<Longrightarrow>
      r = 0 \<and> ok w' \<and> V w' = V w"
    and punch_hole: "\<lbrakk>ok w; fds (V w) h = Some (i, fl); i_type (inodes (V w) i) = S_REG; writable fl;
        0 < n; off + n < size_limit;
        vfs_fallocate K h {FALLOC_FL_PUNCH_HOLE, FALLOC_FL_KEEP_SIZE} (int off) (int n) w = (r, w')\<rbrakk> \<Longrightarrow>
      ok w' \<and> (if r = 0 then V w' = set_data i (punch off n (data_of (V w) i)) (V w)
               else r = - EOPNOTSUPP \<and> V w' = V w)"
    and allocate: "\<lbrakk>ok w; fds (V w) h = Some (i, fl); i_type (inodes (V w) i) = S_REG; writable fl;
        0 < n; off + n < size_limit; vfs_fallocate K h {} (int off) (int n) w = (r, w')\<rbrakk> \<Longrightarrow>
      ok w' \<and> (if r = 0
                then V w' = set_data i (resize (max (length (data_of (V w) i)) (off + n)) (data_of (V w) i)) (V w)
                else r = - EOPNOTSUPP \<and> V w' = V w)"
    and want_write: "\<lbrakk>ok w; refs (V w) h = Some i; mnt_want_write K h w = (r, w')\<rbrakk> \<Longrightarrow>
      r = 0 \<and> ok w' \<and> V w' = V w"
    and drop_write: "ok w \<Longrightarrow> ok (mnt_drop_write K h w) \<and> V (mnt_drop_write K h w) = V w"
    and setxattr: "\<lbrakk>ok w; refs (V w) h = Some i; length val \<le> 65536; sf \<in> {0, XATTR_CREATE, XATTR_REPLACE};
        vfs_setxattr K h nm val sf w = (r, w')\<rbrakk> \<Longrightarrow>
      ok w' \<and>
      (if sf = XATTR_CREATE \<and> i_xattrs (inodes (V w) i) nm \<noteq> None then r = - EEXIST \<and> V w' = V w
       else if sf = XATTR_REPLACE \<and> i_xattrs (inodes (V w) i) nm = None then r = - ENODATA \<and> V w' = V w
       else r = 0 \<and> V w' = set_xattrs i ((i_xattrs (inodes (V w) i))(nm \<mapsto> val)) (V w))"
    and getxattr: "\<lbrakk>ok w; refs (V w) h = Some i; vfs_getxattr K h nm sz w = ((r, dx), w')\<rbrakk> \<Longrightarrow>
      ok w' \<and> V w' = V w \<and>
      (case i_xattrs (inodes (V w) i) nm of
         None \<Rightarrow> r = - ENODATA
       | Some val \<Rightarrow> if sz = 0 then r = int (length val) \<and> dx = []
           else if length val \<le> sz then r = int (length val) \<and> dx = val else r = - ERANGE)"
    and listxattr: "\<lbrakk>ok w; refs (V w) h = Some i; vfs_listxattr K h sz w = ((r, dx), w')\<rbrakk> \<Longrightarrow>
      ok w' \<and> V w' = V w \<and>
      (\<exists>ns. distinct ns \<and> set ns = dom (i_xattrs (inodes (V w) i)) \<and>
        (let l = concat (map (\<lambda>n. n @ [CHR 0x00]) ns)
         in if sz = 0 then r = int (length l) \<and> dx = []
            else if length l \<le> sz then r = int (length l) \<and> dx = l else r = - ERANGE))"
    and removexattr: "\<lbrakk>ok w; refs (V w) h = Some i; vfs_removexattr K h nm w = (r, w')\<rbrakk> \<Longrightarrow>
      ok w' \<and>
      (if i_xattrs (inodes (V w) i) nm = None then r = - ENODATA \<and> V w' = V w
       else r = 0 \<and> V w' = set_xattrs i ((i_xattrs (inodes (V w) i))(nm := None)) (V w))"
    and settle: "ok w \<Longrightarrow> ok (flush_delayed_fput K w) \<and> V (flush_delayed_fput K w) = V w"
    and alloc: "\<lbrakk>ok w; kmalloc K n w = (rb, w')\<rbrakk> \<Longrightarrow> rb \<and> ok w' \<and> V w' = V w"
    and add_action: "\<lbrakk>ok w; kunit_add_action K w = (r, w')\<rbrakk> \<Longrightarrow> r = 0 \<and> ok w' \<and> V w' = V w"

end
