(* ===== verification/PosixRules.thy ===== *)
theory PosixRules
  imports Posix
begin

text \<open>
  The client side of the contract \<open>posix_kernel\<close>: one rule per kernel call and per
  helper of the fixture, in the form in which the proofs of the ports consume the code
  from its first statement to its last.  The world after a call is a fresh variable that
  the rule describes by its view; a helper that looks up a path and drops the reference
  again leaves the view it found, up to the change it was called for.
\<close>

lemma wp_kcallI:
  "(\<And>a w'. op (kw s) = (a, w') \<Longrightarrow> Q a (s\<lparr>kw := w'\<rparr>)) \<Longrightarrow> wp (kcall op) Q s"
  by (simp add: wp_kcall split: prod.splits)

lemma drop_ref [simp]:
  "refs v h = None \<Longrightarrow> v\<lparr>refs := (refs v)(h := None)\<rparr> = v"
  "refs v h = None \<Longrightarrow> (v\<lparr>refs := (refs v)(h \<mapsto> i)\<rparr>)\<lparr>refs := (refs v)(h := None)\<rparr> = v"
  by (cases v; simp add: fun_upd_idem)+

lemma set_refs [simp]:
  "(set_data i d v)\<lparr>refs := rf\<rparr> = set_data i d (v\<lparr>refs := rf\<rparr>)"
  "(set_xattrs i m v)\<lparr>refs := rf\<rparr> = set_xattrs i m (v\<lparr>refs := rf\<rparr>)"
  by (simp_all add: set_data_def set_xattrs_def)

lemma drop_fd [simp]:
  "fds v h = None \<Longrightarrow> v\<lparr>fds := (fds v)(h := None)\<rparr> = v"
  "fds v h = None \<Longrightarrow> (v\<lparr>fds := (fds v)(h \<mapsto> x)\<rparr>)\<lparr>fds := (fds v)(h := None)\<rparr> = v"
  by (cases v; simp add: fun_upd_idem)+

lemma set_fds [simp]:
  "(set_data i d v)\<lparr>fds := f\<rparr> = set_data i d (v\<lparr>fds := f\<rparr>)"
  "(add_name p i n v)\<lparr>fds := f\<rparr> = add_name p i n (v\<lparr>fds := f\<rparr>)"
  by (simp_all add: set_data_def add_name_def)

lemma set_data_twice [simp]:
  "set_data i d (set_data i e v) = set_data i d v"
  by (simp add: set_data_def)

lemma set_data_id: "data_of v i = d \<Longrightarrow> set_data i d v = v"
  by (cases v) (auto simp: set_data_def data_of_def fun_eq_iff)

lemma set_data_new [simp]:
  "set_data i d (add_name p i (new_inode t g m) v) = add_name p i ((new_inode t g m)\<lparr>i_data := d\<rparr>) v"
  by (simp add: set_data_def add_name_def)

context posix_kernel
begin

section \<open>Calls on names\<close>

text \<open>What is named or could be named lies below the mount point.\<close>

lemma below:
  assumes "ok w" "names (V w) p = Some i \<or> absent (V w) p"
  shows "take (length XFS_MNT) p = XFS_MNT"
proof -
  have "take (length XFS_MNT) p = XFS_MNT" if "absent (V w) p"
  proof -
    have "take (length XFS_MNT) (dirname p) = XFS_MNT"
      using inside [OF assms(1), of "dirname p"] that by (auto simp: absent_def is_dir_def split: option.splits)
    then show ?thesis by (rule dirname_take)
  qed
  then show ?thesis using assms inside by blast
qed

lemma parent:
  assumes "ok w" "names (V w) p = Some i" "p \<noteq> XFS_MNT"
  shows "is_dir (V w) (dirname p)"
  using tree [OF assms(1,2)] assms(3) by blast

lemma root_not_file: "ok w \<Longrightarrow> names (V w) p = Some i \<Longrightarrow> i_type (inodes (V w) i) \<noteq> S_DIR \<Longrightarrow> p \<noteq> XFS_MNT"
  using root [of w] by (auto simp: is_dir_def split: option.splits)

lemma xfs_mkdir_new:
  assumes "ok (kw s)" "absent (V (kw s)) p"
    and "\<And>w' i. \<lbrakk>ok w'; fresh (V (kw s)) i; V w' = add_name p i (new_inode S_DIR [] (mode3 7 5 5)) (V (kw s))\<rbrakk> \<Longrightarrow>
           Q 0 (s\<lparr>kw := w'\<rparr>)"
  shows "wp (xfs_mkdir K p) Q s"
  unfolding xfs_mkdir_def
  by (rule wp_kcallI) (use assms mkdir_new in blast)

lemma xfs_rmdir_empty:
  assumes "ok (kw s)" "is_dir (V (kw s)) p" "p \<noteq> XFS_MNT" "empty_dir (V (kw s)) p"
    and "\<And>w'. \<lbrakk>ok w'; V w' = (V (kw s))\<lparr>names := (names (V (kw s)))(p := None)\<rparr>\<rbrakk> \<Longrightarrow> Q 0 (s\<lparr>kw := w'\<rparr>)"
  shows "wp (xfs_rmdir K p) Q s"
  unfolding xfs_rmdir_def by (rule wp_kcallI) (use assms rmdir_empty in blast)

lemma xfs_unlink_file:
  assumes "ok (kw s)" "names (V (kw s)) p = Some i" "i_type (inodes (V (kw s)) i) \<noteq> S_DIR" "closed (V (kw s)) i"
    and "\<And>w'. \<lbrakk>ok w'; V w' = set_nlink i (i_nlink (inodes (V (kw s)) i) - 1)
                 ((V (kw s))\<lparr>names := (names (V (kw s)))(p := None)\<rparr>)\<rbrakk> \<Longrightarrow> Q 0 (s\<lparr>kw := w'\<rparr>)"
  shows "wp (xfs_unlink K p) Q s"
  unfolding xfs_unlink_def by (rule wp_kcallI) (use assms unlink_file in blast)

lemma xfs_unlink_absent:
  assumes "ok (kw s)" "absent (V (kw s)) p"
    and "\<And>w'. \<lbrakk>ok w'; V w' = V (kw s)\<rbrakk> \<Longrightarrow> Q (- ENOENT) (s\<lparr>kw := w'\<rparr>)"
  shows "wp (xfs_unlink K p) Q s"
  unfolding xfs_unlink_def by (rule wp_kcallI) (use assms unlink_absent in blast)

lemma xfs_link_file:
  assumes "ok (kw s)" "names (V (kw s)) p = Some i" "i_type (inodes (V (kw s)) i) \<noteq> S_DIR" "absent (V (kw s)) q"
    and "\<And>w'. \<lbrakk>ok w'; V w' = set_nlink i (i_nlink (inodes (V (kw s)) i) + 1)
                 ((V (kw s))\<lparr>names := (names (V (kw s)))(q \<mapsto> i)\<rparr>)\<rbrakk> \<Longrightarrow> Q 0 (s\<lparr>kw := w'\<rparr>)"
  shows "wp (xfs_link K p q) Q s"
  unfolding xfs_link_def by (rule wp_kcallI) (use assms link_file in blast)

lemma xfs_rename_same:
  assumes "ok (kw s)" "names (V (kw s)) p = Some i" "names (V (kw s)) q = Some i"
    and "\<And>w'. \<lbrakk>ok w'; V w' = V (kw s)\<rbrakk> \<Longrightarrow> Q 0 (s\<lparr>kw := w'\<rparr>)"
  shows "wp (xfs_rename K p q) Q s"
  unfolding xfs_rename_def by (rule wp_kcallI) (use assms rename_same in blast)

lemma xfs_rename_new:
  assumes "ok (kw s)" "names (V (kw s)) p = Some i" "i_type (inodes (V (kw s)) i) \<noteq> S_DIR" "absent (V (kw s)) q"
    and "\<And>w'. \<lbrakk>ok w'; V w' = (V (kw s))\<lparr>names := (names (V (kw s)))(p := None, q \<mapsto> i)\<rparr>\<rbrakk> \<Longrightarrow> Q 0 (s\<lparr>kw := w'\<rparr>)"
  shows "wp (xfs_rename K p q) Q s"
  unfolding xfs_rename_def by (rule wp_kcallI) (use assms rename_new in blast)

lemma xfs_rename_over:
  assumes "ok (kw s)" "names (V (kw s)) p = Some i" "i_type (inodes (V (kw s)) i) \<noteq> S_DIR"
    "names (V (kw s)) q = Some j" "i_type (inodes (V (kw s)) j) \<noteq> S_DIR" "i \<noteq> j" "closed (V (kw s)) j"
    and "\<And>w'. \<lbrakk>ok w'; V w' = set_nlink j (i_nlink (inodes (V (kw s)) j) - 1)
                 ((V (kw s))\<lparr>names := (names (V (kw s)))(p := None, q \<mapsto> i)\<rparr>)\<rbrakk> \<Longrightarrow> Q 0 (s\<lparr>kw := w'\<rparr>)"
  shows "wp (xfs_rename K p q) Q s"
  unfolding xfs_rename_def by (rule wp_kcallI) (use assms rename_over in blast)

lemma xfs_symlink_new:
  assumes "ok (kw s)" "absent (V (kw s)) p"
    and "\<And>w' i m. \<lbrakk>ok w'; fresh (V (kw s)) i; V w' = add_name p i (new_inode S_LNK t m) (V (kw s))\<rbrakk> \<Longrightarrow>
           Q 0 (s\<lparr>kw := w'\<rparr>)"
  shows "wp (xfs_symlink K t p) Q s"
  unfolding xfs_symlink_def by (rule wp_kcallI) (use assms symlink_new in blast)

section \<open>Calls through a path reference\<close>

lemma wp_kern_path:
  assumes "ok (kw s)" "names (V (kw s)) p = Some i"
    and "\<And>w' h. \<lbrakk>ok w'; refs (V (kw s)) h = None; V w' = (V (kw s))\<lparr>refs := (refs (V (kw s)))(h \<mapsto> i)\<rparr>\<rbrakk> \<Longrightarrow>
           Q (Inr h) (s\<lparr>kw := w'\<rparr>)"
  shows "wp (kcall (kern_path K p {})) Q s"
proof (rule wp_kcallI)
  fix a w'
  assume "kern_path K p {} (kw s) = (a, w')"
  from kern_path_found [OF assms(1,2) this] show "Q a (s\<lparr>kw := w'\<rparr>)"
    using assms(3) by auto
qed

lemma wp_path_put:
  assumes "ok (kw s)" "refs (V (kw s)) h = Some i"
    and "\<And>w'. \<lbrakk>ok w'; V w' = (V (kw s))\<lparr>refs := (refs (V (kw s)))(h := None)\<rparr>\<rbrakk> \<Longrightarrow> Q () (s\<lparr>kw := w'\<rparr>)"
  shows "wp (kdo (path_put K h)) Q s"
  using path_put [OF assms(1,2)] assms(3) by (simp add: wp_kdo)

text \<open>
  A helper that looks a path up: the operation runs with a reference to the inode and must
  leave that reference; the rule releases it.
\<close>

lemma wp_with_path:
  assumes "ok (kw s)" "names (V (kw s)) p = Some i"
    and "\<And>w' h. \<lbrakk>ok w'; refs (V (kw s)) h = None; V w' = (V (kw s))\<lparr>refs := (refs (V (kw s)))(h \<mapsto> i)\<rparr>\<rbrakk> \<Longrightarrow>
           wp (act h) (\<lambda>r s'. ok (kw s') \<and> refs (V (kw s')) h = Some i \<and>
             (\<forall>w''. ok w'' \<longrightarrow> V w'' = (V (kw s'))\<lparr>refs := (refs (V (kw s')))(h := None)\<rparr> \<longrightarrow> Q r (s'\<lparr>kw := w''\<rparr>)))
           (s\<lparr>kw := w'\<rparr>)"
  shows "wp (with_path K p f act) Q s"
  unfolding with_path_def wp_bnd
proof (rule wp_kern_path [OF assms(1,2)], unfold sum.case wp_bnd)
  fix w' h
  assume a: "ok w'" "refs (V (kw s)) h = None" "V w' = (V (kw s))\<lparr>refs := (refs (V (kw s)))(h \<mapsto> i)\<rparr>"
  show "wp (act h) (\<lambda>r. wp (kdo (path_put K h)) (\<lambda>_. wp (ret r) Q)) (s\<lparr>kw := w'\<rparr>)"
  proof (rule wp_mono [OF assms(3) [OF a]])
    fix r s'
    assume *: "ok (kw s') \<and> refs (V (kw s')) h = Some i \<and>
      (\<forall>w''. ok w'' \<longrightarrow> V w'' = (V (kw s'))\<lparr>refs := (refs (V (kw s')))(h := None)\<rparr> \<longrightarrow> Q r (s'\<lparr>kw := w''\<rparr>))"
    show "wp (kdo (path_put K h)) (\<lambda>_. wp (ret r) Q) s'"
      by (rule wp_path_put) (use * in auto)
  qed
qed

lemma wp_with_path_absent:
  assumes "ok (kw s)" "absent (V (kw s)) p"
    and "\<And>w'. \<lbrakk>ok w'; V w' = V (kw s)\<rbrakk> \<Longrightarrow> Q (f (- ENOENT)) (s\<lparr>kw := w'\<rparr>)"
  shows "wp (with_path K p f act) Q s"
  unfolding with_path_def wp_bnd
proof (rule wp_kcallI)
  fix a w'
  assume "kern_path K p {} (kw s) = (a, w')"
  from kern_path_absent [OF assms(1,2) this] assms(3)
  show "wp (case a of Inl err \<Rightarrow> ret (f err)
      | Inr h \<Rightarrow> bnd (act h) (\<lambda>r. bnd (kdo (path_put K h)) (\<lambda>_. ret r))) Q (s\<lparr>kw := w'\<rparr>)"
    by simp
qed

lemma xfs_kstat_found:
  assumes "ok (kw s)" "names (V (kw s)) p = Some i"
    and "\<And>w' st. \<lbrakk>ok w'; V w' = V (kw s); stat_matches (V (kw s)) i st\<rbrakk> \<Longrightarrow> Q (Inr st) (s\<lparr>kw := w'\<rparr>)"
  shows "wp (xfs_kstat K p) Q s"
  unfolding xfs_kstat_def
proof (rule wp_with_path [OF assms(1,2)], rule wp_kcallI)
  fix w1 h a w2
  assume a: "ok w1" "refs (V (kw s)) h = None" "V w1 = (V (kw s))\<lparr>refs := (refs (V (kw s)))(h \<mapsto> i)\<rparr>"
    and b: "vfs_getattr K h (kw (s\<lparr>kw := w1\<rparr>)) = (a, w2)"
  have "ok w2 \<and> V w2 = V w1 \<and> (\<exists>st. a = Inr st \<and> stat_matches (V w1) i st)"
    by (rule getattr [of w1 h i]) (use a b in simp_all)
  moreover have "stat_matches (V w1) i st = stat_matches (V (kw s)) i st" for st
    by (simp add: a(3) stat_matches_def)
  ultimately show "ok (kw (s\<lparr>kw := w1, kw := w2\<rparr>)) \<and> refs (V (kw (s\<lparr>kw := w1, kw := w2\<rparr>))) h = Some i \<and>
    (\<forall>w''. ok w'' \<longrightarrow> V w'' = (V (kw (s\<lparr>kw := w1, kw := w2\<rparr>)))\<lparr>refs := (refs (V (kw (s\<lparr>kw := w1, kw := w2\<rparr>))))(h := None)\<rparr> \<longrightarrow>
      Q a (s\<lparr>kw := w1, kw := w2, kw := w''\<rparr>))"
    using a assms(3) by auto
qed

lemma xfs_kstat_absent:
  assumes "ok (kw s)" "absent (V (kw s)) p"
    and "\<And>w'. \<lbrakk>ok w'; V w' = V (kw s)\<rbrakk> \<Longrightarrow> Q (Inl (- ENOENT)) (s\<lparr>kw := w'\<rparr>)"
  shows "wp (xfs_kstat K p) Q s"
  unfolding xfs_kstat_def by (rule wp_with_path_absent) (use assms in auto)

lemma xfs_exists_found:
  assumes "ok (kw s)" "names (V (kw s)) p = Some i"
    and "\<And>w'. \<lbrakk>ok w'; V w' = V (kw s)\<rbrakk> \<Longrightarrow> Q True (s\<lparr>kw := w'\<rparr>)"
  shows "wp (xfs_exists K p) Q s"
  unfolding xfs_exists_def wp_bnd
  by (rule wp_kern_path [OF assms(1,2)], unfold sum.case wp_bnd, rule wp_path_put)
    (auto intro: assms(3))

lemma xfs_exists_absent:
  assumes "ok (kw s)" "absent (V (kw s)) p"
    and "\<And>w'. \<lbrakk>ok w'; V w' = V (kw s)\<rbrakk> \<Longrightarrow> Q False (s\<lparr>kw := w'\<rparr>)"
  shows "wp (xfs_exists K p) Q s"
  unfolding xfs_exists_def wp_bnd
  by (rule wp_kcallI, drule kern_path_absent [OF assms(1,2)]) (auto intro: assms(3))

lemma xfs_truncate_file:
  assumes "ok (kw s)" "has_inode (V (kw s)) p i S_REG" "n < size_limit"
    and "\<And>w'. \<lbrakk>ok w'; V w' = set_data i (resize n (data_of (V (kw s)) i)) (V (kw s))\<rbrakk> \<Longrightarrow> Q 0 (s\<lparr>kw := w'\<rparr>)"
  shows "wp (xfs_truncate K p (int n)) Q s"
  unfolding xfs_truncate_def
proof (rule wp_with_path [where i = i, OF assms(1)], goal_cases)
  case 1
  then show ?case using assms(2) by (simp add: has_inode_def)
next
  case (2 w1 h)
  show ?case
  proof (rule wp_kcallI, goal_cases)
    case (1 a w2)
    have "a = 0 \<and> ok w2 \<and> V w2 = set_data i (resize n (data_of (V w1) i)) (V w1)"
      by (rule truncate [of w1 h i n]) (use 1 2 assms in \<open>auto simp: has_inode_def\<close>)
    with 2 assms(4) show ?case by auto
  qed
qed

section \<open>Calls on open files\<close>

lemma wp_open_new:
  assumes "ok (kw s)" "absent (V (kw s)) p" "O_CREAT \<in> fl"
    and "\<And>w' h i. \<lbrakk>ok w'; fds (V (kw s)) h = None; fresh (V (kw s)) i;
           V w' = (add_name p i (new_inode S_REG [] m) (V (kw s)))\<lparr>fds := (fds (V (kw s)))(h \<mapsto> (i, fl))\<rparr>\<rbrakk> \<Longrightarrow>
           Q (Inr h) (s\<lparr>kw := w'\<rparr>)"
  shows "wp (kcall (filp_open K p fl m)) Q s"
proof (rule wp_kcallI)
  fix a w'
  assume "filp_open K p fl m (kw s) = (a, w')"
  from open_new [OF assms(1-3) this] assms(4) show "Q a (s\<lparr>kw := w'\<rparr>)" by blast
qed

lemma wp_open_exists:
  assumes "ok (kw s)" "names (V (kw s)) p = Some i" "O_CREAT \<in> fl" "O_EXCL \<in> fl"
    and "\<And>w'. \<lbrakk>ok w'; V w' = V (kw s)\<rbrakk> \<Longrightarrow> Q (Inl (- EEXIST)) (s\<lparr>kw := w'\<rparr>)"
  shows "wp (kcall (filp_open K p fl m)) Q s"
proof (rule wp_kcallI)
  fix a w'
  assume "filp_open K p fl m (kw s) = (a, w')"
  from open_exists [OF assms(1-4) this] assms(5) show "Q a (s\<lparr>kw := w'\<rparr>)" by blast
qed

lemma wp_open_file:
  assumes "ok (kw s)" "has_inode (V (kw s)) p i S_REG" "O_EXCL \<notin> fl" "O_DIRECTORY \<notin> fl"
    and "\<And>w' h. \<lbrakk>ok w'; fds (V (kw s)) h = None;
           V w' = (if O_TRUNC \<in> fl then set_data i [] (V (kw s)) else V (kw s))
                    \<lparr>fds := (fds (V (kw s)))(h \<mapsto> (i, fl))\<rparr>\<rbrakk> \<Longrightarrow> Q (Inr h) (s\<lparr>kw := w'\<rparr>)"
  shows "wp (kcall (filp_open K p fl m)) Q s"
proof (rule wp_kcallI)
  fix a w'
  assume "filp_open K p fl m (kw s) = (a, w')"
  from open_file [OF assms(1-4) this] assms(5) show "Q a (s\<lparr>kw := w'\<rparr>)" by blast
qed

lemma wp_close:
  assumes "ok (kw s)" "fds (V (kw s)) h = Some (i, fl)"
    and "\<And>w'. \<lbrakk>ok w'; V w' = (V (kw s))\<lparr>fds := (fds (V (kw s)))(h := None)\<rparr>\<rbrakk> \<Longrightarrow> Q () (s\<lparr>kw := w'\<rparr>)"
  shows "wp (kdo (filp_close K h)) Q s"
  using close [OF assms(1,2)] assms(3) by (simp add: wp_kdo)

lemma wp_write:
  assumes "ok (kw s)" "fds (V (kw s)) h = Some (i, fl)" "i_type (inodes (V (kw s)) i) = S_REG" "writable fl"
    and "O_APPEND \<notin> fl" "pos + length d < size_limit"
    and "\<And>w'. \<lbrakk>ok w'; V w' = set_data i (write_at pos d (data_of (V (kw s)) i)) (V (kw s))\<rbrakk> \<Longrightarrow>
           Q (int (length d), int (pos + length d)) (s\<lparr>kw := w'\<rparr>)"
  shows "wp (kcall (kernel_write K h d (int pos))) Q s"
proof (rule wp_kcallI)
  fix a w'
  assume w: "kernel_write K h d (int pos) (kw s) = (a, w')"
  obtain n pos' where a: "a = (n, pos')" by (cases a)
  have "n = int (length d) \<and> pos' = int (pos + length d) \<and> ok w' \<and>
      V w' = set_data i (write_at pos d (data_of (V (kw s)) i)) (V (kw s))"
    by (rule write_file [OF assms(1-4)]) (use assms(5,6) w a in simp_all)
  then show "Q a (s\<lparr>kw := w'\<rparr>)" using assms(7) a by blast
qed

lemma wp_append:
  assumes "ok (kw s)" "fds (V (kw s)) h = Some (i, fl)" "i_type (inodes (V (kw s)) i) = S_REG" "writable fl"
    and "O_APPEND \<in> fl" "length (data_of (V (kw s)) i) + length d < size_limit"
    and "\<And>w' p. \<lbrakk>ok w'; V w' = set_data i (data_of (V (kw s)) i @ d) (V (kw s))\<rbrakk> \<Longrightarrow>
           Q (int (length d), p) (s\<lparr>kw := w'\<rparr>)"
  shows "wp (kcall (kernel_write K h d (int pos))) Q s"
proof (rule wp_kcallI)
  fix a w'
  assume w: "kernel_write K h d (int pos) (kw s) = (a, w')"
  obtain n pos' where a: "a = (n, pos')" by (cases a)
  let ?b = "data_of (V (kw s)) i"
  have "n = int (length d) \<and> pos' = int (length ?b + length d) \<and> ok w' \<and>
      V w' = set_data i (write_at (length ?b) d ?b) (V (kw s))"
    by (rule write_file [OF assms(1-4)]) (use assms(5,6) w a in simp_all)
  then show "Q a (s\<lparr>kw := w'\<rparr>)" using assms(7) a by (simp add: write_at_end)
qed

lemma wp_read:
  assumes "ok (kw s)" "fds (V (kw s)) h = Some (i, fl)" "i_type (inodes (V (kw s)) i) = S_REG" "readable fl"
    and "pos + n < size_limit"
    and "\<And>w' d. \<lbrakk>ok w'; V w' = V (kw s); d = read_at pos n (data_of (V (kw s)) i)\<rbrakk> \<Longrightarrow>
           Q (int (length d), d, int (pos + length d)) (s\<lparr>kw := w'\<rparr>)"
  shows "wp (kcall (kernel_read K h n (int pos))) Q s"
proof (rule wp_kcallI)
  fix a w'
  assume w: "kernel_read K h n (int pos) (kw s) = (a, w')"
  obtain r d pos' where a: "a = (r, d, pos')" by (cases a)
  have "d = read_at pos n (data_of (V (kw s)) i) \<and> r = int (length d) \<and> pos' = int (pos + length d) \<and>
      ok w' \<and> V w' = V (kw s)"
    by (rule read_file [OF assms(1-5)]) (use w a in simp)
  then show "Q a (s\<lparr>kw := w'\<rparr>)" using assms(6) a by blast
qed

lemma wp_fsync:
  assumes "ok (kw s)" "fds (V (kw s)) h = Some (i, fl)"
    and "\<And>w'. \<lbrakk>ok w'; V w' = V (kw s)\<rbrakk> \<Longrightarrow> Q 0 (s\<lparr>kw := w'\<rparr>)"
  shows "wp (kcall (vfs_fsync K h)) Q s"
  by (rule wp_kcallI) (use assms fsync in blast)

lemma xfs_ftruncate_file:
  assumes "ok (kw s)" "fds (V (kw s)) h = Some (i, fl)" "i_type (inodes (V (kw s)) i) = S_REG" "writable fl"
    and "n < size_limit"
    and "\<And>w'. \<lbrakk>ok w'; V w' = set_data i (resize n (data_of (V (kw s)) i)) (V (kw s))\<rbrakk> \<Longrightarrow> Q 0 (s\<lparr>kw := w'\<rparr>)"
  shows "wp (xfs_ftruncate K h (int n)) Q s"
  unfolding xfs_ftruncate_def by (rule wp_kcallI) (use assms ftruncate in blast)

lemma wp_punch:
  assumes "ok (kw s)" "fds (V (kw s)) h = Some (i, fl)" "i_type (inodes (V (kw s)) i) = S_REG" "writable fl"
    and "0 < n" "off + n < size_limit"
    and "\<And>w'. \<lbrakk>ok w'; V w' = set_data i (punch off n (data_of (V (kw s)) i)) (V (kw s))\<rbrakk> \<Longrightarrow> Q 0 (s\<lparr>kw := w'\<rparr>)"
    and "\<And>w'. \<lbrakk>ok w'; V w' = V (kw s)\<rbrakk> \<Longrightarrow> Q (- EOPNOTSUPP) (s\<lparr>kw := w'\<rparr>)"
  shows "wp (kcall (vfs_fallocate K h {FALLOC_FL_PUNCH_HOLE, FALLOC_FL_KEEP_SIZE} (int off) (int n))) Q s"
proof (rule wp_kcallI)
  fix a w'
  assume "vfs_fallocate K h {FALLOC_FL_PUNCH_HOLE, FALLOC_FL_KEEP_SIZE} (int off) (int n) (kw s) = (a, w')"
  from punch_hole [OF assms(1-6) this] assms(7,8) show "Q a (s\<lparr>kw := w'\<rparr>)"
    by (auto split: if_splits)
qed

lemma wp_allocate:
  assumes "ok (kw s)" "fds (V (kw s)) h = Some (i, fl)" "i_type (inodes (V (kw s)) i) = S_REG" "writable fl"
    and "0 < n" "off + n < size_limit"
    and "\<And>w'. \<lbrakk>ok w'; V w' = set_data i (resize (max (length (data_of (V (kw s)) i)) (off + n)) (data_of (V (kw s)) i)) (V (kw s))\<rbrakk> \<Longrightarrow>
           Q 0 (s\<lparr>kw := w'\<rparr>)"
    and "\<And>w'. \<lbrakk>ok w'; V w' = V (kw s)\<rbrakk> \<Longrightarrow> Q (- EOPNOTSUPP) (s\<lparr>kw := w'\<rparr>)"
  shows "wp (kcall (vfs_fallocate K h {} (int off) (int n))) Q s"
proof (rule wp_kcallI)
  fix a w'
  assume "vfs_fallocate K h {} (int off) (int n) (kw s) = (a, w')"
  from allocate [OF assms(1-6) this] assms(7,8) show "Q a (s\<lparr>kw := w'\<rparr>)"
    by (auto split: if_splits)
qed

section \<open>Whole-file helpers\<close>

lemma wp_write_loop:
  assumes "ok (kw s)" "fds (V (kw s)) h = Some (i, fl)" "i_type (inodes (V (kw s)) i) = S_REG" "writable fl"
    and "O_APPEND \<notin> fl" "length d < size_limit" "data_of (V (kw s)) i = []"
    and "\<And>w'. \<lbrakk>ok w'; V w' = set_data i d (V (kw s))\<rbrakk> \<Longrightarrow> Q 0 (s\<lparr>kw := w'\<rparr>)"
  shows "wp (write_loop K h d 0) Q s"
proof (cases "d = []")
  case True
  then have "Q 0 (s\<lparr>kw := kw s\<rparr>)" using assms by (intro assms(8)) (simp_all add: set_data_id)
  then show ?thesis using True by (simp add: wp_def write_loop.simps [of K h "[]" 0 s])
next
  case False
  have "wp (kcall (kernel_write K h d (int 0)))
      (\<lambda>r s'. r = (int (length d), int (length d)) \<and> Q 0 s') s"
    by (rule wp_write [OF assms(1-5)])
      (use assms(6-8) write_at_end [of "[]" d] in simp_all)
  then obtain w' where
    "kernel_write K h d 0 (kw s) = ((int (length d), int (length d)), w')" "Q 0 (s\<lparr>kw := w'\<rparr>)"
    by (auto simp: wp_kcall split: prod.splits)
  with False show ?thesis
    by (simp add: wp_def write_loop.simps [of K h d 0 s] write_loop.simps [of K h "[]"])
qed

lemma xfs_write_new_file_new:
  assumes "ok (kw s)" "absent (V (kw s)) p" "length d < size_limit"
    and "\<And>w' i. \<lbrakk>ok w'; fresh (V (kw s)) i;
           V w' = add_name p i ((new_inode S_REG [] (mode3 6 4 4))\<lparr>i_data := d\<rparr>) (V (kw s))\<rbrakk> \<Longrightarrow>
           Q 0 (s\<lparr>kw := w'\<rparr>)"
  shows "wp (xfs_write_new_file K p d) Q s"
  unfolding xfs_write_new_file_def wp_bnd
proof (rule wp_open_new [OF assms(1,2)], simp)
  fix w' h i
  let ?fl = "{O_WRONLY, O_CREAT, O_TRUNC, O_LARGEFILE}"
  assume a: "ok w'" "fds (V (kw s)) h = None" "fresh (V (kw s)) i"
    "V w' = (add_name p i (new_inode S_REG [] (mode3 6 4 4)) (V (kw s)))\<lparr>fds := (fds (V (kw s)))(h \<mapsto> (i, ?fl))\<rparr>"
  have "wp (write_loop K h d 0) (\<lambda>e s'. e = 0 \<and> ok (kw s') \<and> s' = s\<lparr>kw := kw s'\<rparr> \<and>
      V (kw s') = set_data i d (V w')) (s\<lparr>kw := w'\<rparr>)"
    by (rule wp_write_loop [where i = i and fl = ?fl]) (use a assms(3) in \<open>simp_all add: data_of_def\<close>)
  then show "wp (case Inr h of Inl err \<Rightarrow> ret err
      | Inr h \<Rightarrow> bnd (write_loop K h d 0) (\<lambda>err. bnd (kdo (filp_close K h)) (\<lambda>_. ret err))) Q (s\<lparr>kw := w'\<rparr>)"
    unfolding sum.case wp_bnd
  proof (rule wp_mono)
    fix e :: int and s'
    assume b: "e = 0 \<and> ok (kw s') \<and> s' = s\<lparr>kw := kw s'\<rparr> \<and> V (kw s') = set_data i d (V w')"
    show "wp (kdo (filp_close K h)) (\<lambda>_. wp (ret e) Q) s'"
    proof (rule wp_close [where i = i and fl = ?fl], unfold wp_ret)
      fix w''
      assume "ok w''" "V w'' = (V (kw s'))\<lparr>fds := (fds (V (kw s')))(h := None)\<rparr>"
      then have "Q 0 (s\<lparr>kw := w''\<rparr>)"
        using a b by (intro assms(4) [of w'' i]) simp_all
      moreover have "s'\<lparr>kw := w''\<rparr> = s\<lparr>kw := w''\<rparr>" using b by (metis kst.update_convs(1) kst.surjective)
      ultimately show "Q e (s'\<lparr>kw := w''\<rparr>)" using b by simp
    qed (use a b in simp_all)
  qed
qed

lemma xfs_read_range_file:
  assumes "ok (kw s)" "has_inode (V (kw s)) p i S_REG" "pos + n < size_limit"
    and "\<And>w' d. \<lbrakk>ok w'; V w' = V (kw s); d = read_at pos n (data_of (V (kw s)) i)\<rbrakk> \<Longrightarrow>
           Q (int (length d), d) (s\<lparr>kw := w'\<rparr>)"
  shows "wp (xfs_read_range K p n (int pos)) Q s"
  unfolding xfs_read_range_def wp_bnd
proof (rule wp_open_file [OF assms(1,2)], simp, simp, unfold sum.case wp_bnd)
  fix w1 h
  assume a: "ok w1" "fds (V (kw s)) h = None"
    "V w1 = (if O_TRUNC \<in> {O_RDONLY, O_LARGEFILE} then set_data i [] (V (kw s)) else V (kw s))
       \<lparr>fds := (fds (V (kw s)))(h \<mapsto> (i, {O_RDONLY, O_LARGEFILE}))\<rparr>"
  show "wp (kcall (kernel_read K h n (int pos)))
     (\<lambda>r. wp (case r of (got, buf, pos) \<Rightarrow> bnd (kdo (filp_close K h)) (\<lambda>_. ret (got, buf))) Q) (s\<lparr>kw := w1\<rparr>)"
  proof (rule wp_read [where i = i and fl = "{O_RDONLY, O_LARGEFILE}"], goal_cases)
    case (6 w2 d)
    show ?case
      unfolding prod.case wp_bnd
      by (rule wp_close [where i = i and fl = "{O_RDONLY, O_LARGEFILE}"])
        (use 6 a assms(4) in \<open>simp_all\<close>)
  qed (use a assms(2,3) in \<open>simp_all add: has_inode_def readable_def\<close>)
qed

section \<open>Memory and bookkeeping\<close>

lemma wp_kmalloc:
  assumes "ok (kw s)" and "\<And>w'. \<lbrakk>ok w'; V w' = V (kw s)\<rbrakk> \<Longrightarrow> Q True (s\<lparr>kw := w'\<rparr>)"
  shows "wp (kcall (kmalloc K n)) Q s"
proof (rule wp_kcallI)
  fix a w'
  assume "kmalloc K n (kw s) = (a, w')"
  from alloc [OF assms(1) this] assms(2) show "Q a (s\<lparr>kw := w'\<rparr>)" by simp
qed

lemma wp_add_action:
  assumes "ok (kw s)"
    and "\<And>w'. \<lbrakk>ok w'; V w' = V (kw s)\<rbrakk> \<Longrightarrow> Q 0 (s\<lparr>kw := w', kactions := nm # kactions s\<rparr>)"
  shows "wp (kunit_add_action_or_reset K nm act) Q s"
  unfolding kunit_add_action_or_reset_def wp_bnd
proof (rule wp_kcallI)
  fix a w'
  assume "kunit_add_action K (kw s) = (a, w')"
  from add_action [OF assms(1) this] assms(2)
  show "wp (if a = 0 then bnd (modify (\<lambda>s. s\<lparr>kactions := nm # kactions s\<rparr>)) (\<lambda>_. ret 0)
        else bnd act (\<lambda>_. ret a)) Q (s\<lparr>kw := w'\<rparr>)"
    by simp
qed

lemma wp_settle:
  assumes "ok (kw s)" and "\<And>w'. \<lbrakk>ok w'; V w' = V (kw s)\<rbrakk> \<Longrightarrow> Q () (s\<lparr>kw := w'\<rparr>)"
  shows "wp (kdo (flush_delayed_fput K)) Q s"
  using settle [OF assms(1)] assms(2) by (simp add: wp_kdo)

end

end
