(* ===== verification/Paths.thy ===== *)
theory Paths
  imports Prelude "HOL-Library.Sublist"
begin

text \<open>
  Directory trees as maps from path names.  \<open>beneath p r\<close> says that \<open>r\<close> lies below the
  directory \<open>p\<close>; \<open>move_names p q m\<close> is the map \<open>m\<close> with the name \<open>p\<close> and everything below it
  carried over to \<open>q\<close>, which is what the rename of a directory does to the names of a file
  system, and to any table kept over them.
\<close>

section \<open>Below a directory\<close>

definition beneath :: "string \<Rightarrow> string \<Rightarrow> bool" where
  "beneath p r = prefix (p @ ''/'') r"

lemma beneath_comp [simp]: "beneath p (p @ CHR ''/'' # b)"
  by (simp add: beneath_def)

lemma beneathE: "beneath p r \<Longrightarrow> \<exists>b. r = p @ CHR ''/'' # b"
  by (auto simp: beneath_def prefix_def)

lemma beneath_length: "beneath p r \<Longrightarrow> length p < length r"
  by (auto dest!: beneathE)

lemma beneath_irrefl [simp]: "\<not> beneath p p"
  using beneath_length by blast

lemma beneath_trans: "beneath p q \<Longrightarrow> beneath q r \<Longrightarrow> beneath p r"
  by (auto simp: beneath_def prefix_def)

lemma beneath_asym: "beneath p q \<Longrightarrow> \<not> beneath q p"
  using beneath_length less_asym by blast

lemma dirname_append:
  "dirname (p @ CHR ''/'' # b) = (if CHR ''/'' \<in> set b then p @ CHR ''/'' # dirname b else p)"
proof (cases "CHR ''/'' \<in> set b")
  case True
  then obtain x y where b: "b = x @ CHR ''/'' # y" "CHR ''/'' \<notin> set y"
    by (metis split_list_last)
  have "dirname b = x" unfolding b(1) by (rule dirname_comp [OF b(2)])
  moreover have "dirname (p @ CHR ''/'' # b) = p @ CHR ''/'' # x"
    using dirname_comp [OF b(2), of "p @ CHR ''/'' # x"] by (simp add: b(1))
  ultimately show ?thesis using True by simp
qed (simp add: dirname_comp)

lemma dirname_beneath: "beneath p r \<Longrightarrow> dirname r = p \<or> beneath p (dirname r)"
  by (auto simp: dirname_append dest!: beneathE)

lemma beneath_dirname:
  assumes "CHR ''/'' \<in> set r"
  shows "beneath (dirname r) r"
proof -
  obtain x y where "r = x @ CHR ''/'' # y" "CHR ''/'' \<notin> set y" using assms by (metis split_list_last)
  then show ?thesis by (simp add: dirname_comp)
qed

lemma beneath_slash: "beneath p r \<Longrightarrow> CHR ''/'' \<in> set r"
  by (auto dest!: beneathE)

lemma dirname_shorter: "beneath p r \<Longrightarrow> length (dirname r) < length r"
  by (rule beneath_length [OF beneath_dirname [OF beneath_slash]])

lemma dirname_step: "\<lbrakk>CHR ''/'' \<in> set r; dirname r = p \<or> beneath p (dirname r)\<rbrakk> \<Longrightarrow> beneath p r"
  using beneath_dirname beneath_trans by blast

section \<open>Moving a subtree\<close>

definition move_names :: "string \<Rightarrow> string \<Rightarrow> (string \<rightharpoonup> 'a) \<Rightarrow> string \<rightharpoonup> 'a" where
  "move_names p q m r =
     (if r = q then m p
      else if beneath q r then m (p @ drop (length q) r)
      else if r = p \<or> beneath p r then None
      else m r)"

lemma move_to [simp]: "move_names p q m q = m p"
  by (simp add: move_names_def)

lemma move_below [simp]: "move_names p q m (q @ CHR ''/'' # b) = m (p @ CHR ''/'' # b)"
  by (simp add: move_names_def)

lemma move_away: "\<lbrakk>r = p \<or> beneath p r; r \<noteq> q; \<not> beneath q r\<rbrakk> \<Longrightarrow> move_names p q m r = None"
  by (auto simp: move_names_def)

lemma move_other: "\<lbrakk>r \<noteq> p; \<not> beneath p r; r \<noteq> q; \<not> beneath q r\<rbrakk> \<Longrightarrow> move_names p q m r = m r"
  by (simp add: move_names_def)

lemma move_empty [simp]: "move_names p q Map.empty = Map.empty"
  by (simp add: move_names_def fun_eq_iff)

lemma move_upd:
  assumes "p \<noteq> q" "\<not> beneath q p"
  shows "move_names p q (m(p := x)) = (move_names p q m)(q := x)"
    and "move_names p q (m(p @ CHR ''/'' # b := x)) = (move_names p q m)(q @ CHR ''/'' # b := x)"
proof -
  have ne: "p \<noteq> q @ CHR ''/'' # b" using assms(2) beneath_comp by blast
  show "move_names p q (m(p := x)) = (move_names p q m)(q := x)"
    using assms by (auto simp: move_names_def fun_eq_iff dest!: beneathE)
  show "move_names p q (m(p @ CHR ''/'' # b := x)) = (move_names p q m)(q @ CHR ''/'' # b := x)"
  proof
    fix r
    consider "r = q" | c where "r = q @ CHR ''/'' # c" | "r \<noteq> q" "\<not> beneath q r" using beneathE by blast
    then show "move_names p q (m(p @ CHR ''/'' # b := x)) r = ((move_names p q m)(q @ CHR ''/'' # b := x)) r"
      by cases (use assms ne in \<open>auto simp: move_names_def\<close>)
  qed
qed

text \<open>A map with nothing below the two names moves one entry.\<close>

lemma move_flat:
  assumes "\<And>r. beneath p r \<or> beneath q r \<Longrightarrow> m r = None" "p \<noteq> q" "\<not> beneath q p"
  shows "move_names p q m = m(p := None, q := m p)"
proof
  fix r
  consider "r = q" | b where "r = q @ CHR ''/'' # b" | "r \<noteq> q" "\<not> beneath q r" using beneathE by blast
  then show "move_names p q m r = (m(p := None, q := m p)) r"
  proof cases
    case (2 b)
    then have "m r = None" "m (p @ CHR ''/'' # b) = None" by (auto intro!: assms(1))
    moreover have "r \<noteq> p" "r \<noteq> q" using 2 assms(3) by auto
    ultimately show ?thesis using 2 by simp
  qed (use assms in \<open>auto simp: move_names_def\<close>)
qed

text \<open>Where a name of the map after the move comes from.\<close>

lemma move_source:
  assumes "move_names p q m r = Some x"
  obtains (root) "r = q" "m p = Some x"
    | (inner) b where "r = q @ CHR ''/'' # b" "m (p @ CHR ''/'' # b) = Some x"
    | (other) "r \<noteq> p" "\<not> beneath p r" "r \<noteq> q" "\<not> beneath q r" "m r = Some x"
proof -
  consider "r = q" | b where "r = q @ CHR ''/'' # b" | "r \<noteq> q" "\<not> beneath q r"
    using beneathE by blast
  then show ?thesis
  proof cases
    case 3
    then have "r \<noteq> p" "\<not> beneath p r" "m r = Some x" using assms by (auto simp: move_names_def split: if_splits)
    with 3 that(3) show ?thesis by blast
  qed (use assms that in auto)
qed

text \<open>Two names after the move have one value only if two names before had it.\<close>

lemma move_inj:
  assumes "\<And>r r'. P (m r) \<Longrightarrow> m r = m r' \<Longrightarrow> r = r'"
    and "P (move_names p q m r)" "move_names p q m r = move_names p q m r'" "\<not> P None"
  shows "r = r'"
proof -
  obtain x where x: "move_names p q m r = Some x" using assms(2,4) by (cases "move_names p q m r") auto
  have x': "move_names p q m r' = Some x" using assms(3) x by simp
  have P: "P (Some x)" using assms(2) x by simp
  have same: "a = b" if "m a = Some x" "m b = Some x" for a b using assms(1) [of a b] that P by simp
  show ?thesis
    using x
  proof (cases rule: move_source)
    case root
    have only: "a = p" if "m a = Some x" for a using same [OF that root(2)] .
    show ?thesis
      using x' by (cases rule: move_source) (use root in \<open>auto dest: only\<close>)
  next
    case (inner b)
    have only: "a = p @ CHR ''/'' # b" if "m a = Some x" for a using same [OF that inner(2)] .
    show ?thesis
      using x' by (cases rule: move_source) (use inner in \<open>auto dest: only\<close>)
  next
    case other
    have only: "a = r" if "m a = Some x" for a using same [OF that other(5)] .
    show ?thesis
      using x' by (cases rule: move_source) (use other in \<open>auto dest: only\<close>)
  qed
qed

end
