(* ===== verification/Pages.thy ===== *)
theory Pages
  imports Kernel
begin

text \<open>
  Sparse files by pages: \<open>pages off n\<close> are the pages a write of \<open>n\<close> bytes at \<open>off\<close> gives data
  to, \<open>inner_pages off n\<close> those a hole of \<open>n\<close> bytes at \<open>off\<close> takes away, and \<open>seek_in D sz off wh\<close>
  is the answer of lseek(2) with \<open>SEEK_DATA\<close> or \<open>SEEK_HOLE\<close> on a file of \<open>sz\<close> bytes whose pages
  with data are \<open>D\<close>: the first byte not before \<open>off\<close> that lies in such a page, or in none, with
  a hole at the end of the file.
\<close>

definition pages :: "nat \<Rightarrow> nat \<Rightarrow> nat set" where
  "pages off n = (if n = 0 then {} else {off div PAGE_SIZE..(off + n - 1) div PAGE_SIZE})"

definition inner_pages :: "nat \<Rightarrow> nat \<Rightarrow> nat set" where
  "inner_pages off n = {(off + PAGE_SIZE - 1) div PAGE_SIZE..<(off + n) div PAGE_SIZE}"

definition pages_below :: "nat \<Rightarrow> nat set" where
  "pages_below sz = {..<(sz + PAGE_SIZE - 1) div PAGE_SIZE}"

definition seek_in :: "nat set \<Rightarrow> nat \<Rightarrow> int \<Rightarrow> whence \<Rightarrow> int" where
  "seek_in D sz off wh =
     (if off < 0 \<or> int sz \<le> off then - ENXIO
      else if wh = SEEK_DATA then
        (case find (\<lambda>i. i div PAGE_SIZE \<in> D) [nat off..<sz] of None \<Rightarrow> - ENXIO | Some i \<Rightarrow> int i)
      else (case find (\<lambda>i. i div PAGE_SIZE \<notin> D) [nat off..<sz] of None \<Rightarrow> int sz | Some i \<Rightarrow> int i))"

lemma find_upt:
  assumes "a \<le> r" "r < b" "P r" "\<And>i. a \<le> i \<Longrightarrow> i < r \<Longrightarrow> \<not> P i"
  shows "find P [a..<b] = Some r"
proof -
  have "[a..<b] = [a..<r] @ r # [Suc r..<b]"
    using assms(1,2) by (metis le_add_diff_inverse less_imp_le upt_add_eq_append upt_conv_Cons)
  moreover have "find P (ys @ r # xs) = Some r" if "\<forall>y\<in>set ys. \<not> P y" for ys xs
    using that assms(3) by (induction ys) auto
  ultimately show ?thesis using assms(4) by (metis atLeastLessThan_iff set_upt)
qed

lemma seek_out: "off < 0 \<or> int sz \<le> off \<Longrightarrow> seek_in D sz off wh = - ENXIO"
  by (simp add: seek_in_def)

lemma seek_data:
  assumes "0 \<le> off" "nat off \<le> r" "r < sz" "r div PAGE_SIZE \<in> D"
    and "\<And>i. nat off \<le> i \<Longrightarrow> i < r \<Longrightarrow> i div PAGE_SIZE \<notin> D"
  shows "seek_in D sz off SEEK_DATA = int r"
proof -
  have "find (\<lambda>i. i div PAGE_SIZE \<in> D) [nat off..<sz] = Some r" by (rule find_upt) (use assms in auto)
  then show ?thesis using assms(1-3) by (auto simp: seek_in_def)
qed

lemma seek_no_data:
  assumes "\<And>i. nat off \<le> i \<Longrightarrow> i < sz \<Longrightarrow> i div PAGE_SIZE \<notin> D"
  shows "seek_in D sz off SEEK_DATA = - ENXIO"
proof -
  have "find (\<lambda>i. i div PAGE_SIZE \<in> D) [nat off..<sz] = None" using assms by (auto simp: find_None_iff)
  then show ?thesis by (simp add: seek_in_def)
qed

text \<open>A hole, or the end of the file.\<close>

lemma seek_hole:
  assumes "0 \<le> off" "off < int sz" "nat off \<le> r" "r \<le> sz" "r = sz \<or> r div PAGE_SIZE \<notin> D"
    and "\<And>i. nat off \<le> i \<Longrightarrow> i < r \<Longrightarrow> i div PAGE_SIZE \<in> D"
  shows "seek_in D sz off SEEK_HOLE = int r"
proof (cases "r = sz")
  case True
  then have "find (\<lambda>i. i div PAGE_SIZE \<notin> D) [nat off..<sz] = None" using assms(6) by (auto simp: find_None_iff)
  then show ?thesis using assms(1,2) True by (simp add: seek_in_def)
next
  case False
  then have "find (\<lambda>i. i div PAGE_SIZE \<notin> D) [nat off..<sz] = Some r"
    by (intro find_upt) (use assms in auto)
  then show ?thesis using assms(1,2) by (simp add: seek_in_def)
qed

text \<open>The page of a byte lies in an interval of pages if the byte lies between its ends.\<close>

lemma page_bounds [simp]:
  "i div PAGE_SIZE < b \<longleftrightarrow> i < b * PAGE_SIZE" "a \<le> i div PAGE_SIZE \<longleftrightarrow> a * PAGE_SIZE \<le> i"
  "i div PAGE_SIZE \<le> b \<longleftrightarrow> i < Suc b * PAGE_SIZE"
proof -
  have p: "0 < PAGE_SIZE" by (simp add: PAGE_SIZE_def)
  show b: "i div PAGE_SIZE < b \<longleftrightarrow> i < b * PAGE_SIZE" for b by (rule div_less_iff_less_mult [OF p])
  show "a \<le> i div PAGE_SIZE \<longleftrightarrow> a * PAGE_SIZE \<le> i" by (rule less_eq_div_iff_mult_less_eq [OF p])
  show "i div PAGE_SIZE \<le> b \<longleftrightarrow> i < Suc b * PAGE_SIZE" using b [of "Suc b"] by (simp add: less_Suc_eq_le)
qed

lemma seek_empty: "seek_in D 0 off wh = - ENXIO"
  by (simp add: seek_in_def)

end
