(* ===== verification/MemKernel.thy ===== *)
theory MemKernel
  imports PosixRules Paths Pages
begin

text \<open>
  An in-memory kernel that meets the contracts of the development: one flat table of path
  names, inodes, open files and path references, a stack of mounts per mount point, the
  current credentials.  It stands for no code of the repository; it shows that the
  contracts can be met, and every property that assumes one of them has a witness at this
  instance.
\<close>

record memw =
  mv :: fsv
  m_names :: "string list"            \<comment> \<open>every name in use, and possibly others\<close>
  m_xnames :: "nat \<Rightarrow> string list"    \<comment> \<open>attribute names of an inode, in order of creation\<close>
  m_next :: nat                       \<comment> \<open>first number never handed out\<close>
  m_cred :: cred
  m_held :: int                       \<comment> \<open>path references handed out and not yet dropped\<close>
  m_refpath :: "nat \<Rightarrow> string"
  m_pages :: "nat \<Rightarrow> nat set"          \<comment> \<open>the pages of an inode that hold data\<close>
  m_dirs :: "nat \<Rightarrow> dirent list"      \<comment> \<open>the entries an open directory has still to show\<close>
  m_mounts :: "string \<Rightarrow> nat"         \<comment> \<open>mounts stacked on a path, which can then be looked up\<close>
  m_exported :: bool                  \<comment> \<open>the export tables hold a reference to the export\<close>
  m_serving :: bool                   \<comment> \<open>knfsd has threads\<close>

definition mem_new :: "string \<Rightarrow> inode \<Rightarrow> memw \<Rightarrow> memw" where
  "mem_new p n w = w\<lparr>mv := add_name p (m_next w) n (mv w), m_names := p # m_names w,
     m_xnames := (m_xnames w)(m_next w := []), m_pages := (m_pages w)(m_next w := {}), m_next := Suc (m_next w)\<rparr>"

definition mem_view :: "(fsv \<Rightarrow> fsv) \<Rightarrow> memw \<Rightarrow> memw" where
  "mem_view f w = w\<lparr>mv := f (mv w)\<rparr>"

definition mem_mkdirat :: "string \<Rightarrow> nat \<Rightarrow> memw \<Rightarrow> int \<times> memw" where
  "mem_mkdirat p m w =
     (if names (mv w) p \<noteq> None then (- EEXIST, w)
      else if \<not> is_dir (mv w) (dirname p) then (- ENOENT, w)
      else (0, mem_new p (new_inode S_DIR [] m) w))"

definition mem_no_child :: "string \<Rightarrow> memw \<Rightarrow> bool" where
  "mem_no_child p w = list_all (\<lambda>q. dirname q = p \<longrightarrow> names (mv w) q = None) (m_names w)"

definition mem_rmdir :: "string \<Rightarrow> memw \<Rightarrow> int \<times> memw" where
  "mem_rmdir p w =
     (if names (mv w) p = None then (- ENOENT, w)
      else if p = XFS_MNT then (- EBUSY, w)
      else if \<not> is_dir (mv w) p then (- ENOTDIR, w)
      else if \<not> mem_no_child p w then (- ENOTEMPTY, w)
      else (0, mem_view (\<lambda>v. v\<lparr>names := (names v)(p := None)\<rparr>) w))"

definition mem_unlinkat :: "string \<Rightarrow> memw \<Rightarrow> int \<times> memw" where
  "mem_unlinkat p w =
     (case names (mv w) p of None \<Rightarrow> (- ENOENT, w)
      | Some i \<Rightarrow>
          if i_type (inodes (mv w) i) = S_DIR then (- EISDIR, w)
          else (0, mem_view (\<lambda>v. set_nlink i (i_nlink (inodes v i) - 1) (v\<lparr>names := (names v)(p := None)\<rparr>)) w))"

definition mem_linkat :: "string \<Rightarrow> string \<Rightarrow> memw \<Rightarrow> int \<times> memw" where
  "mem_linkat p q w =
     (case names (mv w) p of None \<Rightarrow> (- ENOENT, w)
      | Some i \<Rightarrow>
          if i_type (inodes (mv w) i) = S_DIR then (- EPERM, w)
          else if names (mv w) q \<noteq> None then (- EEXIST, w)
          else if \<not> is_dir (mv w) (dirname q) then (- ENOENT, w)
          else (0, (mem_view (\<lambda>v. set_nlink i (i_nlink (inodes v i) + 1) (v\<lparr>names := (names v)(q \<mapsto> i)\<rparr>)) w)
                 \<lparr>m_names := q # m_names w\<rparr>))"

definition mem_move_tree :: "string \<Rightarrow> string \<Rightarrow> memw \<Rightarrow> memw" where
  "mem_move_tree p q w =
     w\<lparr>mv := (mv w)\<lparr>names := move_names p q (names (mv w))\<rparr>,
       m_names := map (\<lambda>r. if beneath p r then q @ drop (length p) r else q) (m_names w) @ m_names w\<rparr>"

definition mem_rename_dir :: "string \<Rightarrow> string \<Rightarrow> memw \<Rightarrow> int \<times> memw" where
  "mem_rename_dir p q w =
     (if p = XFS_MNT then (- EBUSY, w)
      else if beneath p q then (- EINVAL, w)
      else case names (mv w) q of
          None \<Rightarrow> if is_dir (mv w) (dirname q) then (0, mem_move_tree p q w) else (- ENOENT, w)
        | Some j \<Rightarrow>
            if i_type (inodes (mv w) j) \<noteq> S_DIR then (- ENOTDIR, w)
            else if mem_no_child q w then (0, mem_move_tree p q w) else (- ENOTEMPTY, w))"

definition mem_renameat2 :: "string \<Rightarrow> string \<Rightarrow> memw \<Rightarrow> int \<times> memw" where
  "mem_renameat2 p q w =
     (let v = mv w in
      case names v p of None \<Rightarrow> (- ENOENT, w)
      | Some i \<Rightarrow>
          if i_type (inodes v i) = S_DIR then (if names v q = Some i then (0, w) else mem_rename_dir p q w)
          else (case names v q of
              None \<Rightarrow>
                if \<not> is_dir v (dirname q) then (- ENOENT, w)
                else (0, (mem_view (\<lambda>v. v\<lparr>names := (names v)(p := None, q \<mapsto> i)\<rparr>) w)\<lparr>m_names := q # m_names w\<rparr>)
            | Some j \<Rightarrow>
                if i = j then (0, w)
                else if i_type (inodes v j) = S_DIR then (- EISDIR, w)
                else (0, mem_view (\<lambda>v. set_nlink j (i_nlink (inodes v j) - 1)
                            (v\<lparr>names := (names v)(p := None, q \<mapsto> i)\<rparr>)) w)))"

definition mem_symlinkat :: "string \<Rightarrow> string \<Rightarrow> memw \<Rightarrow> int \<times> memw" where
  "mem_symlinkat t p w =
     (if names (mv w) p \<noteq> None then (- EEXIST, w)
      else if \<not> is_dir (mv w) (dirname p) then (- ENOENT, w)
      else (0, mem_new p (new_inode S_LNK t 511) w))"

definition mem_mknodat :: "string \<Rightarrow> nat \<Rightarrow> nat \<Rightarrow> nat \<Rightarrow> memw \<Rightarrow> int \<times> memw" where
  "mem_mknodat p m a b w =
     (if names (mv w) p \<noteq> None then (- EEXIST, w)
      else if \<not> is_dir (mv w) (dirname p) then (- ENOENT, w)
      else case special_type m of None \<Rightarrow> (- EINVAL, w)
      | Some t \<Rightarrow> (0, mem_new p (new_inode t [] (m mod 4096)) w))"

definition mem_kern_path :: "string \<Rightarrow> lookup_flag set \<Rightarrow> memw \<Rightarrow> pathref \<times> memw" where
  "mem_kern_path p fl w =
     (case names (mv w) p of
        None \<Rightarrow>
          if m_mounts w p = 0 then (Inl (- ENOENT), w)
          else (Inr (m_next w), w\<lparr>m_next := Suc (m_next w), m_held := m_held w + 1, m_refpath := (m_refpath w)(m_next w := p)\<rparr>)
      | Some i \<Rightarrow> (Inr (m_next w),
          (mem_view (\<lambda>v. v\<lparr>refs := (refs v)(m_next w \<mapsto> i)\<rparr>) w)
             \<lparr>m_next := Suc (m_next w), m_held := m_held w + 1, m_refpath := (m_refpath w)(m_next w := p)\<rparr>))"

definition mem_path_put :: "nat \<Rightarrow> memw \<Rightarrow> memw" where
  "mem_path_put h w = (mem_view (\<lambda>v. v\<lparr>refs := (refs v)(h := None)\<rparr>) w)\<lparr>m_held := m_held w - 1\<rparr>"

definition mem_stat :: "fsv \<Rightarrow> nat \<Rightarrow> kstat" where
  "mem_stat v i = \<lparr>st_ino = i, st_type = i_type (inodes v i), st_perm = i_perm (inodes v i),
     st_size = int (if i_type (inodes v i) = S_LNK then length (i_target (inodes v i)) else length (data_of v i)), st_nlink = i_nlink (inodes v i), st_uid = 0, st_gid = 0, st_blksize = PAGE_SIZE\<rparr>"

definition on_ref :: "nat \<Rightarrow> memw \<Rightarrow> 'a \<Rightarrow> (nat \<Rightarrow> 'a) \<Rightarrow> 'a" where
  "on_ref h w dflt f = (case refs (mv w) h of None \<Rightarrow> dflt | Some i \<Rightarrow> f i)"

definition on_fd :: "nat \<Rightarrow> memw \<Rightarrow> 'a \<Rightarrow> (nat \<Rightarrow> oflag set \<Rightarrow> 'a) \<Rightarrow> 'a" where
  "on_fd h w dflt f = (case fds (mv w) h of None \<Rightarrow> dflt | Some (i, fl) \<Rightarrow> f i fl)"

definition mem_set_data :: "nat \<Rightarrow> (byte list \<Rightarrow> byte list) \<Rightarrow> memw \<Rightarrow> memw" where
  "mem_set_data i f w = mem_view (\<lambda>v. set_data i (f (data_of v i)) v) w"

definition mem_on_pages :: "nat \<Rightarrow> (nat set \<Rightarrow> nat set) \<Rightarrow> memw \<Rightarrow> memw" where
  "mem_on_pages i f w = w\<lparr>m_pages := (m_pages w)(i := f (m_pages w i))\<rparr>"

definition mem_resize :: "nat \<Rightarrow> nat \<Rightarrow> memw \<Rightarrow> memw" where
  "mem_resize i n w = mem_on_pages i (\<lambda>D. D \<inter> pages_below n) (mem_set_data i (resize n) w)"

definition mem_listing :: "string \<Rightarrow> memw \<Rightarrow> dirent list" where
  "mem_listing p w = (''.'', DT_DIR) # (''..'', DT_DIR) #
     map (\<lambda>q. (drop (Suc (length p)) q, dt_of (i_type (inodes (mv w) (the (names (mv w) q))))))
       (remdups (filter (\<lambda>q. dirname q = p \<and> q = p @ CHR ''/'' # drop (Suc (length p)) q \<and>
         drop (Suc (length p)) q \<notin> {[], ''.'', ''..''} \<and> names (mv w) q \<noteq> None) (m_names w)))"

definition mem_open :: "string \<Rightarrow> oflag set \<Rightarrow> nat \<Rightarrow> memw \<Rightarrow> fileptr \<times> memw" where
  "mem_open p fl m w =
     (case names (mv w) p of
        None \<Rightarrow>
          if O_CREAT \<in> fl \<and> is_dir (mv w) (dirname p) then
            let w' = mem_new p (new_inode S_REG [] m) w
            in (Inr (m_next w'), (mem_view (\<lambda>v. v\<lparr>fds := (fds v)(m_next w' \<mapsto> (m_next w, fl))\<rparr>) w')\<lparr>m_next := Suc (m_next w')\<rparr>)
          else (Inl (- ENOENT), w)
      | Some i \<Rightarrow>
          if O_CREAT \<in> fl \<and> O_EXCL \<in> fl then (Inl (- EEXIST), w)
          else
            let w' = (if O_TRUNC \<in> fl \<and> i_type (inodes (mv w) i) = S_REG then mem_resize i 0 w else w)
            in (Inr (m_next w), (mem_view (\<lambda>v. v\<lparr>fds := (fds v)(m_next w \<mapsto> (i, fl))\<rparr>) w')
                 \<lparr>m_next := Suc (m_next w), m_dirs := (m_dirs w)(m_next w := mem_listing p w)\<rparr>))"

definition mem_close :: "nat \<Rightarrow> memw \<Rightarrow> memw" where
  "mem_close h = mem_view (\<lambda>v. v\<lparr>fds := (fds v)(h := None)\<rparr>)"

definition mem_write :: "nat \<Rightarrow> byte list \<Rightarrow> int \<Rightarrow> memw \<Rightarrow> (int \<times> int) \<times> memw" where
  "mem_write h d pos w = on_fd h w ((- EINVAL, pos), w) (\<lambda>i fl.
     let start = (if O_APPEND \<in> fl then length (data_of (mv w) i) else nat pos)
     in ((int (length d), int (start + length d)), mem_on_pages i (\<lambda>D. D \<union> pages start (length d)) (mem_set_data i (write_at start d) w)))"

definition mem_read :: "nat \<Rightarrow> nat \<Rightarrow> int \<Rightarrow> memw \<Rightarrow> (int \<times> byte list \<times> int) \<times> memw" where
  "mem_read h n pos w = on_fd h w ((- EINVAL, [], pos), w) (\<lambda>i fl.
     let d = read_at (nat pos) n (data_of (mv w) i) in ((int (length d), d, pos + int (length d)), w))"

definition mem_fallocate :: "nat \<Rightarrow> falloc_flag set \<Rightarrow> int \<Rightarrow> int \<Rightarrow> memw \<Rightarrow> int \<times> memw" where
  "mem_fallocate h fl off n w = on_fd h w (- EINVAL, w) (\<lambda>i _.
     if FALLOC_FL_PUNCH_HOLE \<in> fl then (0, mem_on_pages i (\<lambda>D. D - inner_pages (nat off) (nat n)) (mem_set_data i (punch (nat off) (nat n)) w))
     else (0, mem_set_data i (\<lambda>d. resize (max (length d) (nat off + nat n)) d) w))"

definition mem_setxattr :: "nat \<Rightarrow> string \<Rightarrow> string \<Rightarrow> nat \<Rightarrow> memw \<Rightarrow> int \<times> memw" where
  "mem_setxattr h nm val fl w = on_ref h w (- EINVAL, w) (\<lambda>i.
     if fl = XATTR_CREATE \<and> i_xattrs (inodes (mv w) i) nm \<noteq> None then (- EEXIST, w)
     else if fl = XATTR_REPLACE \<and> i_xattrs (inodes (mv w) i) nm = None then (- ENODATA, w)
     else (0, (mem_view (\<lambda>v. set_xattrs i ((i_xattrs (inodes v i))(nm \<mapsto> val)) v) w)
           \<lparr>m_xnames := (m_xnames w)(i := (if nm \<in> set (m_xnames w i) then m_xnames w i else m_xnames w i @ [nm]))\<rparr>))"

definition mem_getxattr :: "nat \<Rightarrow> string \<Rightarrow> nat \<Rightarrow> memw \<Rightarrow> (int \<times> string) \<times> memw" where
  "mem_getxattr h nm sz w = on_ref h w ((- EINVAL, []), w) (\<lambda>i.
     case i_xattrs (inodes (mv w) i) nm of None \<Rightarrow> ((- ENODATA, []), w)
     | Some val \<Rightarrow>
         if sz = 0 then ((int (length val), []), w)
         else if length val \<le> sz then ((int (length val), val), w) else ((- ERANGE, []), w))"

definition mem_listxattr :: "nat \<Rightarrow> nat \<Rightarrow> memw \<Rightarrow> (int \<times> string) \<times> memw" where
  "mem_listxattr h sz w = on_ref h w ((- EINVAL, []), w) (\<lambda>i.
     let l = concat (map (\<lambda>n. n @ [CHR 0x00]) (m_xnames w i))
     in if sz = 0 then ((int (length l), []), w)
        else if length l \<le> sz then ((int (length l), l), w) else ((- ERANGE, []), w))"

definition mem_removexattr :: "nat \<Rightarrow> string \<Rightarrow> memw \<Rightarrow> int \<times> memw" where
  "mem_removexattr h nm w = on_ref h w (- EINVAL, w) (\<lambda>i.
     if i_xattrs (inodes (mv w) i) nm = None then (- ENODATA, w)
     else (0, (mem_view (\<lambda>v. set_xattrs i ((i_xattrs (inodes v i))(nm := None)) v) w)
                \<lparr>m_xnames := (m_xnames w)(i := filter (\<lambda>x. x \<noteq> nm) (m_xnames w i))\<rparr>))"

definition mem_truncate :: "nat \<Rightarrow> int \<Rightarrow> memw \<Rightarrow> int \<times> memw" where
  "mem_truncate h n w = on_ref h w (- EINVAL, w) (\<lambda>i. (0, mem_resize i (nat n) w))"

definition mem_ftruncate :: "nat \<Rightarrow> int \<Rightarrow> memw \<Rightarrow> int \<times> memw" where
  "mem_ftruncate h n w = on_fd h w (- EINVAL, w) (\<lambda>i _. (0, mem_resize i (nat n) w))"

definition mem_getattr :: "nat \<Rightarrow> memw \<Rightarrow> (int + kstat) \<times> memw" where
  "mem_getattr h w = on_ref h w (Inl (- EINVAL), w) (\<lambda>i. (Inr (mem_stat (mv w) i), w))"

definition mem_get_link :: "nat \<Rightarrow> memw \<Rightarrow> (int + string) \<times> memw" where
  "mem_get_link h w = on_ref h w (Inl (- EINVAL), w) (\<lambda>i. (Inr (i_target (inodes (mv w) i)), w))"

definition mem_mount :: "string \<Rightarrow> nat \<Rightarrow> string \<Rightarrow> mount_flag set \<Rightarrow> string option \<Rightarrow> memw \<Rightarrow> int \<times> memw" where
  "mem_mount dev h type fl opts w =
     (let p = m_refpath w h in
      (0, if MS_REMOUNT \<in> fl then w else w\<lparr>m_mounts := (m_mounts w)(p := Suc (m_mounts w p))\<rparr>))"

definition mem_umount :: "nat \<Rightarrow> umount_flag set \<Rightarrow> memw \<Rightarrow> int \<times> memw" where
  "mem_umount h fl w =
     (let p = m_refpath w h; w' = mem_path_put h w in
      if m_mounts w p = 0 then (- EINVAL, w')
      else if p = XFS_EXPORT \<and> m_exported w \<and> MNT_DETACH \<notin> fl then (- EBUSY, w')
      else (0, w'\<lparr>m_mounts := (m_mounts w)(p := m_mounts w p - 1)\<rparr>))"

definition mem_cache_parse :: "sunrpc_cache \<Rightarrow> string \<Rightarrow> memw \<Rightarrow> int \<times> memw" where
  \<comment> \<open>an entry of the export table holds the exported directory\<close>
  "mem_cache_parse c line w = (0, if c = Svc_export then w\<lparr>m_exported := True\<rparr> else w)"

definition mem_nfsd_svc :: "nat \<Rightarrow> memw \<Rightarrow> int \<times> memw" where
  \<comment> \<open>the last thread that stops empties the export tables\<close>
  "mem_nfsd_svc n w =
     (0, if 0 < n then w\<lparr>m_serving := True\<rparr>
         else if m_serving w then w\<lparr>m_serving := False, m_exported := False\<rparr> else w)"

definition memk :: "memw kernel" where
  "memk = \<lparr>
     do_mkdirat = mem_mkdirat, do_rmdir = mem_rmdir, do_unlinkat = mem_unlinkat,
     do_renameat2 = mem_renameat2, do_linkat = mem_linkat, do_symlinkat = mem_symlinkat,
     do_mknodat = mem_mknodat, kern_path = mem_kern_path, path_put = mem_path_put,
     vfs_getattr = mem_getattr, vfs_get_link = mem_get_link, vfs_truncate = mem_truncate,
     vfs_statfs = (\<lambda>h w. (Inr \<lparr>f_bavail = 512, f_bsize = 131072\<rparr>, w)),
     chmod_common = (\<lambda>h m w. (0, w)), chown_common = (\<lambda>h u g w. (0, w)),
     vfs_utimes = (\<lambda>h t w. (0, w)), inode_permission = (\<lambda>h m w. (0, w)),
     mnt_want_write = (\<lambda>h w. (0, w)), mnt_drop_write = (\<lambda>h w. w),
     vfs_setxattr = mem_setxattr, vfs_getxattr = mem_getxattr, vfs_listxattr = mem_listxattr,
     vfs_removexattr = mem_removexattr,
     filp_open = mem_open, filp_close = mem_close, fput = mem_close,
     kernel_write = mem_write, kernel_read = mem_read,
     vfs_iocb_iter_write = (\<lambda>h d pos _. mem_write h d pos),
     vfs_iocb_iter_read = (\<lambda>h n pos _. mem_read h n pos),
     do_ftruncate = mem_ftruncate, vfs_fsync = (\<lambda>h w. (0, w)), vfs_fallocate = mem_fallocate,
     vfs_llseek_end = (\<lambda>h w. (on_fd h w (- EINVAL) (\<lambda>i _. int (length (data_of (mv w) i))), w)),
     locks_alloc_lock = (\<lambda>w. (True, w)), locks_free_lock = (\<lambda>w. w),
     vfs_lock_file = (\<lambda>h c l w. (0, w)), flush_delayed_fput = (\<lambda>w. w), msleep = (\<lambda>n w. w),
     current_cred = m_cred, prepare_creds = (\<lambda>w. (Some (m_cred w), w)),
     override_creds = (\<lambda>c w. (m_cred w, w\<lparr>m_cred := c\<rparr>)), revert_creds = (\<lambda>c w. w\<lparr>m_cred := c\<rparr>),
     put_cred = (\<lambda>c w. w), abort_creds = (\<lambda>c w. w),
     security_task_fix_setuid = (\<lambda>c oldc w. ((0, c), w)),
     current_tgid = (\<lambda>w. 1), current_fs_root = (\<lambda>w. 0), path_get = (\<lambda>h w. w\<lparr>m_held := m_held w + 1\<rparr>),
     set_fs_root = (\<lambda>h w. w), set_fs_pwd = (\<lambda>h w. w),
     kmalloc = (\<lambda>n w. (True, w)), kunit_add_action = (\<lambda>w. (0, w)),
     prandom_seed_state = (\<lambda>seed. seed),
     prandom_u32_state = (\<lambda>st. (of_nat (st div 65536), (1103515245 * st + 12345) mod 2 ^ 48)),
     path_mount = mem_mount, path_umount = mem_umount, lo_is_up = (\<lambda>w. True),
     dev_change_flags_up = (\<lambda>w. (0, w)), ktime_get_real_seconds = (\<lambda>w. 1700000000),
     cache_parse = mem_cache_parse, nfsd_vers_clear = (\<lambda>n w. w), nfsd_create_serv = (\<lambda>w. (0, w)),
     svc_xprt_create = (\<lambda>t port w. (int port, w)), nfsd_svc = mem_nfsd_svc, nfsd4_end_grace = (\<lambda>w. w),
     call_usermodehelper_setup = (\<lambda>p argv envp log w. (True, w)), call_usermodehelper_exec = (\<lambda>w. (0, w)),
     replace_fd = (\<lambda>fd f w. (int fd, w)) \<rparr>"

section \<open>It meets the file system contract\<close>

definition one_name :: "fsv \<Rightarrow> bool" where
  \<comment> \<open>a directory has no second name\<close>
  "one_name v = (\<forall>p q i. names v p = Some i \<longrightarrow> names v q = Some i \<longrightarrow> i_type (inodes v i) = S_DIR \<longrightarrow> p = q)"

definition tree_ok :: "fsv \<Rightarrow> bool" where
  "tree_ok v \<longleftrightarrow> is_dir v XFS_MNT \<and> one_name v \<and>
     (\<forall>p. names v p \<noteq> None \<longrightarrow> take (length XFS_MNT) p = XFS_MNT \<and> (p = XFS_MNT \<or> is_dir v (dirname p)))"

text \<open>A world in which only files have been touched: the tables are consistent, no mount was recorded.\<close>

definition mem_ok :: "memw \<Rightarrow> bool" where
  "mem_ok w \<longleftrightarrow> tree_ok (mv w) \<and> m_mounts w = (\<lambda>_. 0) \<and>
     (\<forall>p i. names (mv w) p = Some i \<longrightarrow> i < m_next w \<and> p \<in> set (m_names w)) \<and>
     (\<forall>h i fl. fds (mv w) h = Some (i, fl) \<longrightarrow> h < m_next w \<and> i < m_next w) \<and>
     (\<forall>h i. refs (mv w) h = Some i \<longrightarrow> h < m_next w \<and> i < m_next w) \<and>
     (\<forall>i. distinct (m_xnames w i) \<and> set (m_xnames w i) = dom (i_xattrs (inodes (mv w) i)))"

lemma is_dir_upd:
  "is_dir (v\<lparr>names := nm\<rparr>) d = (case nm d of None \<Rightarrow> False | Some i \<Rightarrow> i_type (inodes v i) = S_DIR)"
  by (simp add: is_dir_def split: option.splits)

lemma tree_simps [simp]:
  "tree_ok (set_data i d v) = tree_ok v" "tree_ok (set_nlink i k v) = tree_ok v"
  "tree_ok (set_xattrs i m v) = tree_ok v" "tree_ok (v\<lparr>fds := fd\<rparr>) = tree_ok v"
  "tree_ok (v\<lparr>refs := rf\<rparr>) = tree_ok v"
  by (simp_all add: tree_ok_def one_name_def)

lemma one_name_drop: "one_name v \<Longrightarrow> one_name (v\<lparr>names := (names v)(p := None)\<rparr>)"
  by (auto simp: one_name_def split: if_splits)

lemma one_name_add:
  "\<lbrakk>one_name v; \<And>r. names v r = Some i \<Longrightarrow> i_type (inodes v i) \<noteq> S_DIR\<rbrakk> \<Longrightarrow> one_name (v\<lparr>names := (names v)(p \<mapsto> i)\<rparr>)"
  by (auto simp: one_name_def split: if_splits)

lemma one_name_move: "one_name v \<Longrightarrow> one_name (v\<lparr>names := move_names p q (names v)\<rparr>)"
  unfolding one_name_def
proof (intro allI impI)
  fix r r' i
  assume inj: "\<forall>p q i. names v p = Some i \<longrightarrow> names v q = Some i \<longrightarrow> i_type (inodes v i) = S_DIR \<longrightarrow> p = q"
    and r: "names (v\<lparr>names := move_names p q (names v)\<rparr>) r = Some i" "names (v\<lparr>names := move_names p q (names v)\<rparr>) r' = Some i"
      "i_type (inodes (v\<lparr>names := move_names p q (names v)\<rparr>) i) = S_DIR"
  show "r = r'"
    by (rule move_inj [where P = "\<lambda>x. x = Some i" and m = "names v" and p = p and q = q]) (use inj r in auto)
qed

lemma tree_drop:
  assumes "tree_ok v" "\<not> is_dir v p \<or> empty_dir v p \<and> p \<noteq> XFS_MNT"
  shows "tree_ok (v\<lparr>names := (names v)(p := None)\<rparr>)"
  unfolding tree_ok_def
proof (intro allI impI conjI)
  have "p \<noteq> XFS_MNT" using assms by (auto simp: tree_ok_def)
  then show "is_dir (v\<lparr>names := (names v)(p := None)\<rparr>) XFS_MNT"
    using assms(1) by (simp add: is_dir_upd tree_ok_def) (simp add: is_dir_def)
  show "one_name (v\<lparr>names := (names v)(p := None)\<rparr>)" using assms(1) one_name_drop by (simp add: tree_ok_def)
  fix q
  assume q: "names (v\<lparr>names := (names v)(p := None)\<rparr>) q \<noteq> None"
  then have n: "names v q \<noteq> None" by (simp split: if_splits)
  then show "take (length XFS_MNT) q = XFS_MNT" using assms(1) by (simp add: tree_ok_def)
  show "q = XFS_MNT \<or> is_dir (v\<lparr>names := (names v)(p := None)\<rparr>) (dirname q)"
  proof (cases "q = XFS_MNT")
    case False
    then have d: "is_dir v (dirname q)" using assms(1) n by (auto simp: tree_ok_def)
    then have "dirname q \<noteq> p" using assms(2) n by (auto simp: empty_dir_def)
    then show ?thesis using d by (simp add: is_dir_upd) (simp add: is_dir_def)
  qed simp
qed

lemma is_dir_below: "tree_ok v \<Longrightarrow> is_dir v (dirname p) \<Longrightarrow> take (length XFS_MNT) p = XFS_MNT"
  by (rule dirname_take) (auto simp: tree_ok_def is_dir_def split: option.splits)

lemma tree_add:
  assumes "tree_ok v" "\<not> is_dir v p" "is_dir v (dirname p)" "\<And>r. names v r = Some i \<Longrightarrow> i_type (inodes v i) \<noteq> S_DIR"
  shows "tree_ok (v\<lparr>names := (names v)(p \<mapsto> i)\<rparr>)"
  unfolding tree_ok_def
proof (intro allI impI conjI)
  have "p \<noteq> XFS_MNT" using assms by (auto simp: tree_ok_def)
  then show "is_dir (v\<lparr>names := (names v)(p \<mapsto> i)\<rparr>) XFS_MNT"
    using assms(1) by (simp add: is_dir_upd tree_ok_def) (simp add: is_dir_def)
  show "one_name (v\<lparr>names := (names v)(p \<mapsto> i)\<rparr>)" using assms(1,4) one_name_add by (simp add: tree_ok_def)
  fix q
  assume q: "names (v\<lparr>names := (names v)(p \<mapsto> i)\<rparr>) q \<noteq> None"
  show "take (length XFS_MNT) q = XFS_MNT"
    using q assms(1) is_dir_below [OF assms(1,3)] by (cases "q = p") (auto simp: tree_ok_def)
  show "q = XFS_MNT \<or> is_dir (v\<lparr>names := (names v)(p \<mapsto> i)\<rparr>) (dirname q)"
  proof (cases "q = XFS_MNT")
    case False
    then have d: "is_dir v (dirname q)" using q assms by (cases "q = p") (auto simp: tree_ok_def)
    then have "dirname q \<noteq> p" using assms(2) by auto
    then show ?thesis using d by (simp add: is_dir_upd) (simp add: is_dir_def)
  qed simp
qed

lemma tree_move:
  assumes "tree_ok v" "\<not> is_dir v p" "\<not> is_dir v q" "is_dir v (dirname q)" "names v p = Some i"
  shows "tree_ok (v\<lparr>names := (names v)(p := None, q \<mapsto> i)\<rparr>)"
proof -
  let ?v = "v\<lparr>names := (names v)(p := None)\<rparr>"
  have "tree_ok ?v" using assms by (intro tree_drop) auto
  moreover have "\<not> is_dir ?v q" "is_dir ?v (dirname q)"
    using assms(2-4) by (auto simp: is_dir_upd) (auto simp: is_dir_def split: option.splits)
  moreover have "i_type (inodes ?v i) \<noteq> S_DIR" using assms(2,5) by (simp add: is_dir_def)
  ultimately have "tree_ok (?v\<lparr>names := (names ?v)(q \<mapsto> i)\<rparr>)" by (rule tree_add)
  then show ?thesis by simp
qed

text \<open>The rename of a directory carries a subtree to a free name or over an empty directory.\<close>

lemma tree_move_dir:
  assumes "tree_ok v" "is_dir v p" "p \<noteq> XFS_MNT" "\<not> beneath p q" "q \<noteq> p"
    and "names v q = None \<and> is_dir v (dirname q) \<or> is_dir v q \<and> empty_dir v q \<and> q \<noteq> XFS_MNT"
  shows "tree_ok (v\<lparr>names := move_names p q (names v)\<rparr>)"
proof -
  let ?v = "v\<lparr>names := move_names p q (names v)\<rparr>" and ?m = "length XFS_MNT"
  have t: "take ?m r = XFS_MNT \<and> (r = XFS_MNT \<or> is_dir v (dirname r))" if "names v r \<noteq> None" for r
    using assms(1) that by (simp add: tree_ok_def)
  have named: "names v r \<noteq> None" if "is_dir v r" for r using that by (auto simp: is_dir_def split: option.splits)
  have long: "?m \<le> length r" if "take ?m r = XFS_MNT" for r using that by (metis length_take min.cobounded1)
  have dq: "is_dir v (dirname q)" using assms(6) t [of q] named [of q] by blast
  have mq: "take ?m q = XFS_MNT" using dirname_take t [OF named [OF dq]] by blast
  have slash: "CHR ''/'' \<in> set r" if "take ?m r = XFS_MNT" for r
  proof -
    have "CHR ''/'' \<in> set (take ?m r)" unfolding that by (simp add: XFS_MNT_def)
    then show ?thesis by (rule in_set_takeD)
  qed
  have up: "dirname r = a \<or> beneath a (dirname r) \<Longrightarrow> beneath a r" if "take ?m r = XFS_MNT" for a r
    by (rule dirname_step [OF slash [OF that]])
  have keep: "is_dir ?v r = is_dir v r" if "r \<noteq> p" "\<not> beneath p r" "r \<noteq> q" "\<not> beneath q r" for r
    using that by (simp add: is_dir_upd move_other) (simp add: is_dir_def)
  have top: "is_dir ?v XFS_MNT"
  proof (subst keep)
    have "\<not> beneath r XFS_MNT" if "take ?m r = XFS_MNT" for r
    proof
      assume "beneath r XFS_MNT"
      then have "length r < ?m" by (rule beneath_length)
      then show False using long [OF that] by simp
    qed
    then show "\<not> beneath p XFS_MNT" "\<not> beneath q XFS_MNT" using t [OF named [OF assms(2)]] mq by blast+
    show "XFS_MNT \<noteq> q" using assms(1,6) by (auto simp: tree_ok_def is_dir_def)
  qed (use assms(1,3) in \<open>auto simp: tree_ok_def\<close>)
  have "take ?m r = XFS_MNT \<and> (r = XFS_MNT \<or> is_dir ?v (dirname r))" if r: "names ?v r \<noteq> None" for r
  proof -
    obtain x where "move_names p q (names v) r = Some x" using r by auto
    then show ?thesis
    proof (cases rule: move_source)
      case root
      have "dirname q \<noteq> q" "\<not> beneath q (dirname q)"
        using up [OF mq, of q] beneath_irrefl by blast+
      moreover have "dirname q \<noteq> p" "\<not> beneath p (dirname q)" using up [OF mq, of p] assms(4) by blast+
      ultimately show ?thesis using keep dq mq root(1) by simp
    next
      case (inner b)
      let ?s = "p @ CHR ''/'' # b"
      have "?m \<le> length p" using long t [OF named [OF assms(2)]] by blast
      then have "?s \<noteq> XFS_MNT" using beneath_length [OF beneath_comp, of p b] by (metis not_less)
      then have "is_dir v (dirname ?s)" using t [of ?s] inner(2) by auto
      then have "is_dir ?v (dirname r)"
        by (auto simp: inner(1) dirname_append is_dir_upd split: if_splits) (auto simp: is_dir_def)
      moreover have "take ?m r = XFS_MNT" using mq long [OF mq] by (simp add: inner(1))
      ultimately show ?thesis by simp
    next
      case other
      have tr: "take ?m r = XFS_MNT" "r = XFS_MNT \<or> is_dir v (dirname r)" using t [of r] other(5) by auto
      have "is_dir ?v (dirname r)" if "is_dir v (dirname r)"
      proof (subst keep)
        show "dirname r \<noteq> p" "\<not> beneath p (dirname r)" "\<not> beneath q (dirname r)"
          using up [OF tr(1)] other(2,4) by blast+
        show "dirname r \<noteq> q" using assms(6) that other(5) by (auto simp: empty_dir_def is_dir_def)
      qed (rule that)
      then show ?thesis using tr by blast
    qed
  qed
  with top one_name_move [of v p q] assms(1) show ?thesis by (simp add: tree_ok_def)
qed

lemma mem_fresh: "mem_ok w \<Longrightarrow> fresh (mv w) (m_next w)"
  by (fastforce simp: mem_ok_def fresh_def)

lemma mem_fd_None: "mem_ok w \<Longrightarrow> m_next w \<le> h \<Longrightarrow> fds (mv w) h = None"
  by (cases "fds (mv w) h") (fastforce simp: mem_ok_def)+

lemma mem_ref_None: "mem_ok w \<Longrightarrow> m_next w \<le> h \<Longrightarrow> refs (mv w) h = None"
  by (cases "refs (mv w) h") (fastforce simp: mem_ok_def)+

lemma mem_new_ok:
  assumes "mem_ok w" "names (mv w) p = None" "is_dir (mv w) (dirname p)" "i_xattrs n = Map.empty"
  shows "mem_ok (mem_new p n w)"
proof -
  have fr: "fresh (mv w) (m_next w)" by (rule mem_fresh [OF assms(1)])
  have "is_dir (add_name p (m_next w) n (mv w)) (dirname q)" if "is_dir (mv w) (dirname q)" for q
  proof -
    have "dirname q \<noteq> p" using that assms(2) by (auto simp: is_dir_def)
    then show ?thesis using is_dir_add_name [OF fr] that by blast
  qed
  moreover have "is_dir (add_name p (m_next w) n (mv w)) XFS_MNT"
    using is_dir_add_name [OF fr, of XFS_MNT p] assms(1,2) by (auto simp: tree_ok_def mem_ok_def is_dir_def)
  moreover have "one_name (add_name p (m_next w) n (mv w))"
    using assms(1,2) fr by (auto simp: mem_ok_def tree_ok_def one_name_def fresh_def)
  ultimately have "tree_ok (add_name p (m_next w) n (mv w))"
    using assms(1,3) is_dir_below [of "mv w" p] by (auto simp: tree_ok_def mem_ok_def split: if_splits)
  then show ?thesis
    using assms by (auto simp: mem_ok_def mem_new_def less_Suc_eq split: if_splits)
qed

lemma mem_set_data_ok: "mem_ok w \<Longrightarrow> mem_ok (mem_set_data i f w)"
  by (simp add: mem_ok_def mem_set_data_def mem_view_def)

lemma mem_on_pages_ok [simp]: "mem_ok (mem_on_pages i f w) = mem_ok w"
  by (simp add: mem_ok_def mem_on_pages_def)

lemma mem_resize_ok: "mem_ok w \<Longrightarrow> mem_ok (mem_resize i n w)"
  by (simp add: mem_resize_def mem_set_data_ok)

lemma mem_on_pages_simps [simp]:
  "mv (mem_on_pages i f w) = mv w" "m_next (mem_on_pages i f w) = m_next w"
  "m_pages (mem_on_pages i f w) = (m_pages w)(i := f (m_pages w i))" "m_held (mem_on_pages i f w) = m_held w"
  by (simp_all add: mem_on_pages_def)

lemma mem_resize_simps [simp]:
  "mv (mem_resize i n w) = set_data i (resize n (data_of (mv w) i)) (mv w)" "m_next (mem_resize i n w) = m_next w"
  "m_pages (mem_resize i n w) = (m_pages w)(i := m_pages w i \<inter> pages_below n)" "m_held (mem_resize i n w) = m_held w"
  by (simp_all add: mem_resize_def mem_set_data_def mem_view_def)

lemma mem_fd_ok:
  "\<lbrakk>mem_ok w; h < n; m_next w \<le> n; i < m_next w\<rbrakk> \<Longrightarrow>
   mem_ok ((mem_view (\<lambda>v. v\<lparr>fds := (fds v)(h \<mapsto> (i, fl))\<rparr>) w)\<lparr>m_next := n\<rparr>)"
  by (fastforce simp: mem_ok_def mem_view_def)

lemma mem_dirs_ok [simp]: "mem_ok (w\<lparr>m_dirs := x\<rparr>) = mem_ok w"
  by (simp add: mem_ok_def)

lemma mem_close_ok: "mem_ok w \<Longrightarrow> mem_ok (mem_close h w)"
  by (fastforce simp: mem_ok_def mem_close_def mem_view_def split: if_splits)

lemma mem_put_ok: "mem_ok w \<Longrightarrow> mem_ok (mem_path_put h w)"
  by (fastforce simp: mem_ok_def mem_path_put_def mem_view_def split: if_splits)

lemma mem_kern_path_ok: "mem_ok w \<Longrightarrow> mem_kern_path p fl w = (r, w') \<Longrightarrow> mem_ok w'"
  by (fastforce simp: mem_ok_def mem_kern_path_def mem_view_def less_Suc_eq split: option.splits if_splits)

lemma mem_no_child: "mem_ok w \<Longrightarrow> mem_no_child p w = empty_dir (mv w) p"
  by (fastforce simp: mem_ok_def mem_no_child_def empty_dir_def list_all_iff)

text \<open>An operation that changes names only.\<close>

lemma mem_names_ok:
  assumes "mem_ok w" "tree_ok (v\<lparr>names := nm\<rparr>)" "v = mv w"
    and "\<And>p i. nm p = Some i \<Longrightarrow> i < m_next w \<and> p \<in> set ns"
  shows "mem_ok (w\<lparr>mv := v\<lparr>names := nm\<rparr>, m_names := ns\<rparr>)"
    and "mem_ok (w\<lparr>mv := set_nlink j k (v\<lparr>names := nm\<rparr>), m_names := ns\<rparr>)"
  using assms by (auto simp: mem_ok_def)

lemma mem_ok_namesD: "mem_ok w \<Longrightarrow> names (mv w) p = Some i \<Longrightarrow> i < m_next w \<and> p \<in> set (m_names w)"
  by (simp add: mem_ok_def)

lemma mem_ok_mounts: "mem_ok w \<Longrightarrow> m_mounts w p = 0"
  by (simp add: mem_ok_def)

lemma mem_ok_tree: "mem_ok w \<Longrightarrow> tree_ok (mv w)"
  by (simp add: mem_ok_def)

lemma mem_drop_ok:
  assumes "mem_ok w" "\<not> is_dir (mv w) p \<or> empty_dir (mv w) p \<and> p \<noteq> XFS_MNT"
  shows "mem_ok (w\<lparr>mv := (mv w)\<lparr>names := (names (mv w))(p := None)\<rparr>\<rparr>)"
    and "mem_ok (w\<lparr>mv := set_nlink j k ((mv w)\<lparr>names := (names (mv w))(p := None)\<rparr>)\<rparr>)"
proof -
  have b: "i < m_next w \<and> q \<in> set (m_names w)" if "((names (mv w))(p := None)) q = Some i" for q i
    using that mem_ok_namesD [OF assms(1)] by (auto split: if_splits)
  note r = mem_names_ok [OF assms(1) tree_drop [OF mem_ok_tree [OF assms(1)] assms(2)] refl b]
  show "mem_ok (w\<lparr>mv := (mv w)\<lparr>names := (names (mv w))(p := None)\<rparr>\<rparr>)" using r(1) by simp
  show "mem_ok (w\<lparr>mv := set_nlink j k ((mv w)\<lparr>names := (names (mv w))(p := None)\<rparr>)\<rparr>)" using r(2) by simp
qed

lemma mem_move_ok:
  assumes "mem_ok w" "names (mv w) p = Some i" "\<not> is_dir (mv w) p" "\<not> is_dir (mv w) q"
    "is_dir (mv w) (dirname q)"
  shows "mem_ok (w\<lparr>mv := (mv w)\<lparr>names := (names (mv w))(p := None, q \<mapsto> i)\<rparr>, m_names := q # m_names w\<rparr>)"
    and "q \<in> set (m_names w) \<Longrightarrow>
      mem_ok (w\<lparr>mv := set_nlink j k ((mv w)\<lparr>names := (names (mv w))(p := None, q \<mapsto> i)\<rparr>)\<rparr>)"
proof -
  have b: "i' < m_next w \<and> r \<in> set (q # m_names w)"
    if "((names (mv w))(p := None, q \<mapsto> i)) r = Some i'" for r i'
    using that mem_ok_namesD [OF assms(1)] assms(2) by (auto split: if_splits)
  note r = tree_move [OF mem_ok_tree [OF assms(1)] assms(3-5,2)]
  show "mem_ok (w\<lparr>mv := (mv w)\<lparr>names := (names (mv w))(p := None, q \<mapsto> i)\<rparr>, m_names := q # m_names w\<rparr>)"
    by (rule mem_names_ok(1) [OF assms(1) r refl b])
  assume "q \<in> set (m_names w)"
  then have "i' < m_next w \<and> r \<in> set (m_names w)"
    if "((names (mv w))(p := None, q \<mapsto> i)) r = Some i'" for r i'
    using b [OF that] by auto
  from mem_names_ok(2) [OF assms(1) r refl this]
  show "mem_ok (w\<lparr>mv := set_nlink j k ((mv w)\<lparr>names := (names (mv w))(p := None, q \<mapsto> i)\<rparr>)\<rparr>)" by simp
qed

lemma mem_move_tree_ok:
  assumes "mem_ok w" "is_dir (mv w) p" "p \<noteq> XFS_MNT" "\<not> beneath p q" "q \<noteq> p"
    and "names (mv w) q = None \<and> is_dir (mv w) (dirname q) \<or> is_dir (mv w) q \<and> empty_dir (mv w) q \<and> q \<noteq> XFS_MNT"
  shows "mem_ok (mem_move_tree p q w)"
  unfolding mem_move_tree_def
proof (rule mem_names_ok(1) [OF assms(1) tree_move_dir [OF mem_ok_tree [OF assms(1)] assms(2-6)] refl])
  let ?f = "\<lambda>r. if beneath p r then q @ drop (length p) r else q"
  fix r i
  assume "move_names p q (names (mv w)) r = Some i"
  then show "i < m_next w \<and> r \<in> set (map (\<lambda>r. if beneath p r then q @ drop (length p) r else q) (m_names w) @ m_names w)"
  proof (cases rule: move_source)
    case (inner b)
    then have "p @ CHR ''/'' # b \<in> set (m_names w)" "i < m_next w" using mem_ok_namesD [OF assms(1)] by blast+
    moreover from this(1) have "r \<in> ?f ` set (m_names w)"
      by (intro image_eqI [of _ _ "p @ CHR ''/'' # b"]) (simp_all add: inner(1))
    ultimately show ?thesis by simp
  next
    case root
    then have "p \<in> set (m_names w)" "i < m_next w" using mem_ok_namesD [OF assms(1)] by blast+
    moreover from this(1) have "r \<in> ?f ` set (m_names w)" by (intro image_eqI [of _ _ p]) (simp_all add: root(1))
    ultimately show ?thesis by simp
  next
    case other
    then show ?thesis using mem_ok_namesD [OF assms(1)] by simp
  qed
qed

lemma mem_link_ok:
  assumes "mem_ok w" "names (mv w) p = Some i" "names (mv w) q = None" "is_dir (mv w) (dirname q)" "\<not> is_dir (mv w) p"
  shows "mem_ok (w\<lparr>mv := set_nlink j k ((mv w)\<lparr>names := (names (mv w))(q \<mapsto> i)\<rparr>), m_names := q # m_names w\<rparr>)"
proof (rule mem_names_ok(2) [OF assms(1) _ refl])
  show "tree_ok ((mv w)\<lparr>names := (names (mv w))(q \<mapsto> i)\<rparr>)"
    by (rule tree_add) (use assms mem_ok_tree in \<open>auto simp: is_dir_def\<close>)
  show "i' < m_next w \<and> r \<in> set (q # m_names w)" if "((names (mv w))(q \<mapsto> i)) r = Some i'" for r i'
    using that mem_ok_namesD [OF assms(1)] assms(2) by (auto split: if_splits)
qed

lemma mem_xattrs_ok:
  assumes "mem_ok w" "distinct ns" "set ns = dom m"
  shows "mem_ok ((mem_view (\<lambda>v. set_xattrs i m v) w)\<lparr>m_xnames := (m_xnames w)(i := ns)\<rparr>)"
  using assms by (auto simp: mem_ok_def mem_view_def)

interpretation mem: posix_kernel memk mv mem_ok
proof (unfold_locales, goal_cases)
  case (1 w)
  then show ?case by (simp add: mem_ok_def tree_ok_def)
next
  case (2 w p i)
  then show ?case by (simp add: mem_ok_def tree_ok_def)
next
  case (3 w p i)
  then show ?case by (auto simp: mem_ok_def tree_ok_def)
next
  case (4 w p m r w')
  then show ?case
    using mem_new_ok [of w p "new_inode S_DIR [] m"] mem_fresh [of w]
    by (auto simp: memk_def absent_def mem_mkdirat_def mem_new_def)
next
  case (5 w p m r w')
  then show ?case by (auto simp: memk_def mem_mkdirat_def)
next
  case (6 w p r w')
  then show ?case
    using mem_drop_ok(1) [of w p] mem_no_child [of w p]
    by (auto simp: memk_def mem_rmdir_def mem_view_def is_dir_def split: option.splits)
next
  case (7 w p r w')
  then show ?case
    using mem_no_child [of w p] by (auto simp: memk_def mem_rmdir_def is_dir_def split: option.splits)
next
  case (8 w p i r w')
  then show ?case
    using mem_drop_ok(2) [of w p] by (auto simp: memk_def mem_unlinkat_def mem_view_def is_dir_def)
next
  case (9 w p r w')
  then show ?case by (auto simp: memk_def mem_unlinkat_def absent_def)
next
  case (10 w p i q r w')
  then show ?case
    using mem_link_ok [of w p i q] by (auto simp: memk_def mem_linkat_def mem_view_def absent_def is_dir_def)
next
  case (11 w p i q r w')
  then show ?case by (auto simp: memk_def mem_renameat2_def Let_def split: if_splits)
next
  case (12 w p i q r w')
  then show ?case
    using mem_move_ok(1) [of w p i q]
    by (auto simp: memk_def mem_renameat2_def Let_def mem_view_def absent_def is_dir_def)
next
  case (13 w p i q j r w')
  then show ?case
    using mem_move_ok(2) [of w p i q] mem_ok_namesD [of w q] mem_ok_tree [of w]
    by (auto simp: memk_def mem_renameat2_def Let_def mem_view_def tree_ok_def is_dir_def)
next
  case (14 w p t r w')
  then show ?case
    using mem_new_ok [of w p "new_inode S_LNK t 511"] mem_fresh [of w]
    by (fastforce simp: memk_def absent_def mem_symlinkat_def mem_new_def)
next
  case (15 w p i r w')
  then show ?case
    using mem_kern_path_ok [of w p "{}"] mem_ref_None [of w "m_next w"]
    by (auto simp: memk_def mem_kern_path_def mem_view_def)
next
  case (16 w p r w')
  then show ?case by (auto simp: memk_def mem_kern_path_def absent_def mem_ok_mounts)
next
  case (17 w h i)
  then show ?case using mem_put_ok [of w h] by (auto simp: memk_def mem_path_put_def mem_view_def)
next
  case (18 w h i r w')
  then show ?case by (auto simp: memk_def mem_getattr_def on_ref_def stat_matches_def mem_stat_def)
next
  case (19 w h i n r w')
  then show ?case
    using mem_resize_ok [of w i] by (auto simp: memk_def mem_truncate_def on_ref_def)
next
  case (20 w h i fl n r w')
  then show ?case
    using mem_resize_ok [of w i] by (auto simp: memk_def mem_ftruncate_def on_fd_def)
next
  case (21 w p fl m r w')
  let ?w = "mem_new p (new_inode S_REG [] m) w"
  have "mem_ok ?w" using 21 by (intro mem_new_ok) (auto simp: absent_def)
  moreover have "fds (mv w) (m_next ?w) = None" "m_next ?w = Suc (m_next w)"
    using mem_fd_None [of w "m_next ?w"] 21 by (auto simp: mem_new_def)
  ultimately show ?case
    using 21 mem_fresh [of w] mem_fd_ok [of ?w "m_next ?w" "Suc (m_next ?w)" "m_next w" fl]
    by (auto simp: memk_def mem_open_def absent_def mem_view_def mem_new_def Let_def)
next
  case (22 w p i fl m r w')
  then show ?case by (auto simp: memk_def mem_open_def)
next
  case (23 w p fl m r w')
  then show ?case by (auto simp: memk_def mem_open_def absent_def)
next
  case (24 w p i fl m r w')
  let ?w = "if O_TRUNC \<in> fl then mem_resize i 0 w else w"
  have "mem_ok ?w" "m_next ?w = m_next w" using 24 mem_resize_ok by auto
  moreover have "i < m_next w" using 24 by (auto simp: has_inode_def mem_ok_def)
  ultimately show ?case
    using 24 mem_fd_None [of w "m_next w"] mem_fd_ok [of ?w "m_next w" "Suc (m_next w)" i fl]
    by (auto simp: memk_def mem_open_def has_inode_def mem_view_def Let_def split: if_splits)
next
  case (25 w h i fl)
  then show ?case using mem_close_ok [of w h] by (auto simp: memk_def mem_close_def mem_view_def)
next
  case (26 w h i fl start pos d r pos' w')
  then show ?case
    using mem_set_data_ok [of w i] by (auto simp: memk_def mem_write_def on_fd_def mem_set_data_def mem_view_def Let_def)
next
  case (27 w h i fl pos n r d pos' w')
  then show ?case by (auto simp: memk_def mem_read_def on_fd_def Let_def)
next
  case (28 w h i fl r w')
  then show ?case by (auto simp: memk_def)
next
  case (29 w h i fl n off r w')
  then show ?case
    using mem_set_data_ok [of w i]
    by (auto simp: memk_def mem_fallocate_def on_fd_def mem_set_data_def mem_view_def)
next
  case (30 w h i fl n off r w')
  then show ?case
    using mem_set_data_ok [of w i]
    by (auto simp: memk_def mem_fallocate_def on_fd_def mem_set_data_def mem_view_def)
next
  case (33 w h i val sf nm r w')
  then have x: "distinct (m_xnames w i)" "set (m_xnames w i) = dom (i_xattrs (inodes (mv w) i))"
    by (auto simp: mem_ok_def)
  obtain ns where ns: "ns = (if nm \<in> set (m_xnames w i) then m_xnames w i else m_xnames w i @ [nm])" by simp
  have "distinct ns" "set ns = dom ((i_xattrs (inodes (mv w) i))(nm \<mapsto> val))" using x by (auto simp: ns)
  from mem_xattrs_ok [OF 33(1) this, of i] show ?case
    using 33 by (auto simp: memk_def mem_setxattr_def on_ref_def mem_view_def ns [symmetric] split: if_splits)
next
  case (34 w h i nm sz r d w')
  then show ?case by (auto simp: memk_def mem_getxattr_def on_ref_def split: option.splits if_splits)
next
  case (35 w h i sz r d w')
  then have x: "distinct (m_xnames w i) \<and> set (m_xnames w i) = dom (i_xattrs (inodes (mv w) i))"
    by (auto simp: mem_ok_def)
  show ?case
    by (rule conjI, use 35 in \<open>simp add: memk_def mem_listxattr_def on_ref_def Let_def split: if_splits\<close>,
        rule conjI, use 35 in \<open>simp add: memk_def mem_listxattr_def on_ref_def Let_def split: if_splits\<close>,
        rule exI [of _ "m_xnames w i"], use x 35 in \<open>auto simp: memk_def mem_listxattr_def on_ref_def Let_def split: if_splits\<close>)
next
  case (36 w h i nm r w')
  then have x: "distinct (m_xnames w i)" "set (m_xnames w i) = dom (i_xattrs (inodes (mv w) i))"
    by (auto simp: mem_ok_def)
  show ?case
    using 36 x mem_xattrs_ok [OF 36(1), of "filter (\<lambda>x. x \<noteq> nm) (m_xnames w i)"
        "(i_xattrs (inodes (mv w) i))(nm := None)" i]
    by (auto simp: memk_def mem_removexattr_def on_ref_def mem_view_def split: if_splits)
qed (auto simp: memk_def)

section \<open>A world to start from\<close>

text \<open>The mount point, nothing else.\<close>

definition root_cred :: cred where
  "root_cred = \<lparr>c_uid = 0, c_euid = 0, c_suid = 0, c_fsuid = 0, c_gid = 0, c_egid = 0, c_sgid = 0,
     c_fsgid = 0, cap_inheritable = {}, cap_permitted = {1}, cap_effective = {1}\<rparr>"

definition mem0 :: memw where
  "mem0 = \<lparr>mv = \<lparr>names = [XFS_MNT \<mapsto> 0],
     inodes = (\<lambda>_. new_inode S_DIR [] 493), fds = Map.empty, refs = Map.empty\<rparr>,
     m_names = [XFS_MNT], m_xnames = (\<lambda>_. []), m_next = 1, m_cred = root_cred,
     m_held = 0, m_refpath = (\<lambda>_. []), m_pages = (\<lambda>_. {}), m_dirs = (\<lambda>_. []), m_mounts = (\<lambda>_. 0),
     m_exported = False, m_serving = False\<rparr>"

lemma mem0_ok: "mem_ok mem0"
  by (auto simp: mem_ok_def tree_ok_def one_name_def mem0_def is_dir_def dirname_def split: if_splits)

lemma mem0_absent: "CHR ''/'' \<notin> set b \<Longrightarrow> absent (mv mem0) (XFS_MNT @ CHR ''/'' # b)"
  by (simp add: absent_def dirname_comp) (auto simp: mem0_def XFS_MNT_def is_dir_def)

text \<open>A fixture that is up, at the start of a case; \<open>z\<close> holds the port's own variables.\<close>

definition fx0 :: "'z \<Rightarrow> (memw, 'z) fxs_scheme" where
  "fx0 z = \<lparr>kw = mem0, kfails = 0, kactions = [], xfs_saved_creds = None, xfs_override = None,
     xfs_fixture_refs = 1, xfs_export_mount_opts = XFS_EXPORT_OPTS_DEFAULT, xfs_bringup_root = Some 0,
     tmpfs_mounted = True, nfsdfs_mounted = True, nfsd_up = True, client_mounted = True,
     xfs_hostbin = ''/bin'', xfs_hostbin_mounted = False, xfs_prog_seq = 0, kunit_log = [], \<dots> = z\<rparr>"

lemma fx0_simps [simp]:
  "kw (fx0 z) = mem0" "client_mounted (fx0 z)" "kfails (fx0 z) = 0"
  by (simp_all add: fx0_def)

text \<open>What every port is started from: a fixture that is up, and no trace of the case's directory.\<close>

definition ready :: "('w \<Rightarrow> fsv) \<Rightarrow> ('w \<Rightarrow> bool) \<Rightarrow> string \<Rightarrow> ('w, 'z) fxs_scheme \<Rightarrow> bool" where
  "ready V ok root s = (client_mounted s \<and> ok (kw s) \<and> absent (V (kw s)) root)"

lemma fx0_ready: "CHR ''/'' \<notin> set b \<Longrightarrow> ready mv mem_ok (XFS_MNT @ CHR ''/'' # b) (fx0 z)"
  by (simp add: ready_def mem0_ok mem0_absent)

text \<open>
  The same kernel with another way to open files and to look up paths keeps the contract,
  if both agree with it on names that are free or lead to a regular file, and on an
  exclusive creation or a lookup of any name.
\<close>

lemma mem_posix_with:
  assumes "\<And>w p i fl m. \<lbrakk>mem_ok w; names (mv w) p = Some i; i_type (inodes (mv w) i) = S_REG \<or> O_CREAT \<in> fl\<rbrakk> \<Longrightarrow>
      f p fl m w = mem_open p fl m w"
    and "\<And>w p fl m. \<lbrakk>mem_ok w; absent (mv w) p\<rbrakk> \<Longrightarrow> f p fl m w = mem_open p fl m w"
    and "\<And>w p i. \<lbrakk>mem_ok w; names (mv w) p = Some i \<or> absent (mv w) p\<rbrakk> \<Longrightarrow> g p {} w = mem_kern_path p {} w"
  shows "posix_kernel (memk\<lparr>filp_open := f, kern_path := g\<rparr>) mv mem_ok" (is "posix_kernel ?K _ _")
proof -
  have sel: "do_mkdirat ?K = do_mkdirat memk" "do_rmdir ?K = do_rmdir memk" "do_unlinkat ?K = do_unlinkat memk"
    "do_renameat2 ?K = do_renameat2 memk" "do_linkat ?K = do_linkat memk" "do_symlinkat ?K = do_symlinkat memk"
    "path_put ?K = path_put memk" "vfs_getattr ?K = vfs_getattr memk" "vfs_truncate ?K = vfs_truncate memk"
    "mnt_want_write ?K = mnt_want_write memk" "mnt_drop_write ?K = mnt_drop_write memk"
    "vfs_setxattr ?K = vfs_setxattr memk" "vfs_getxattr ?K = vfs_getxattr memk"
    "vfs_listxattr ?K = vfs_listxattr memk" "vfs_removexattr ?K = vfs_removexattr memk"
    "filp_close ?K = filp_close memk" "kernel_write ?K = kernel_write memk" "kernel_read ?K = kernel_read memk"
    "do_ftruncate ?K = do_ftruncate memk" "vfs_fsync ?K = vfs_fsync memk" "vfs_fallocate ?K = vfs_fallocate memk"
    "flush_delayed_fput ?K = flush_delayed_fput memk" "kmalloc ?K = kmalloc memk"
    "kunit_add_action ?K = kunit_add_action memk"
    by simp_all
  have new: "filp_open ?K = f" "kern_path ?K = g" "filp_open memk = mem_open" "kern_path memk = mem_kern_path"
    by (simp_all add: memk_def)
  note laws = mem.root mem.inside mem.tree mem.mkdir_new mem.mkdir_exists mem.rmdir_empty mem.rmdir_nonempty
    mem.unlink_file mem.unlink_absent mem.link_file mem.rename_same mem.rename_new mem.rename_over mem.symlink_new
    mem.path_put mem.getattr mem.truncate mem.ftruncate mem.close mem.write_file mem.read_file mem.fsync
    mem.punch_hole mem.allocate mem.want_write mem.drop_write mem.setxattr mem.getxattr mem.listxattr
    mem.removexattr mem.settle mem.alloc mem.add_action
  show ?thesis
  proof (unfold_locales, unfold sel new, goal_cases)
    case (15 w p i rp w')
    then show ?case using mem.kern_path_found assms(3) unfolding new by metis
  next
    case (16 w p rp w')
    then show ?case using mem.kern_path_absent assms(3) unfolding new by metis
  next
    case (21 w p fl m rf w')
    then show ?case using mem.open_new assms(2) unfolding new by metis
  next
    case (22 w p i fl m rf w')
    then show ?case using mem.open_exists assms(1) unfolding new by metis
  next
    case (23 w p fl m rf w')
    then show ?case using mem.open_absent assms(2) unfolding new by metis
  next
    case (24 w p i fl m rf w')
    then show ?case using mem.open_file assms(1) unfolding new has_inode_def by metis
  qed (fact laws)+
qed

end
