(* ===== verification/Resources.thy ===== *)
theory Resources
  imports Lifecycle MemKernel
begin

text \<open>
  The resources the fixture takes from the kernel and must give back: path references and
  open files, the task's credentials, mounts.  Each is a locale with the few laws of the kernel that
  the accounting needs and the lemmas about the fixture's functions; all are
  interpreted on the in-memory kernel.
\<close>

definition neutral :: "('w \<Rightarrow> 'c) \<Rightarrow> ('w \<Rightarrow> 'a \<times> 'w) \<Rightarrow> bool" where
  "neutral g op = (\<forall>w. g (snd (op w)) = g w)"

lemma neutralD: "neutral g op \<Longrightarrow> op w = (r, w') \<Longrightarrow> g w' = g w"
  by (metis neutral_def snd_conv)

section \<open>References\<close>

text \<open>
  What the code holds: the \<open>struct path\<close> references and the open files it was handed and
  has not dropped, the saved root of the bring-up not counted.
\<close>

definition loose_refs :: "('w \<Rightarrow> int) \<Rightarrow> ('w, 'z) fxs_scheme \<Rightarrow> int" where
  "loose_refs held s = held (kw s) - (case xfs_bringup_root s of None \<Rightarrow> 0 | Some _ \<Rightarrow> 1)"

locale ref_counts =
  fixes K :: "'w kernel" and held :: "'w \<Rightarrow> int"
  assumes held_kern_path: "kern_path K p fl w = (r, w') \<Longrightarrow> held w' = (if isl r then held w else held w + 1)"
    and held_open: "filp_open K p ofl m w = (r, w') \<Longrightarrow> held w' = (if isl r then held w else held w + 1)"
    and held_put: "held (path_put K h w) = held w - 1"
    and held_close: "held (filp_close K h w) = held w - 1" "held (fput K h w) = held w - 1"
    and held_umount: "path_umount K h uf w = (e, w') \<Longrightarrow> held w' = held w - 1"
    and held_get: "held (path_get K h w) = held w + 1"
    and held_names: "neutral held (do_mkdirat K p m)" "neutral held (do_rmdir K p)" "neutral held (do_unlinkat K p)"
      "neutral held (do_renameat2 K p q)" "neutral held (do_linkat K p q)" "neutral held (do_symlinkat K p q)"
      "neutral held (do_mknodat K p m x y)"
    and held_attrs: "neutral held (vfs_getattr K h)" "neutral held (vfs_get_link K h)"
      "neutral held (vfs_truncate K h n)" "neutral held (vfs_statfs K h)" "neutral held (chmod_common K h m)"
      "neutral held (chown_common K h u g)" "neutral held (vfs_utimes K h ts)" "neutral held (inode_permission K h m)"
    and held_xattrs: "neutral held (mnt_want_write K h)" "held (mnt_drop_write K h w) = held w"
      "neutral held (vfs_setxattr K h nm val m)" "neutral held (vfs_getxattr K h nm m)"
      "neutral held (vfs_listxattr K h m)" "neutral held (vfs_removexattr K h nm)"
    and held_files: "neutral held (kernel_write K h d n)" "neutral held (kernel_read K h m n)"
      "neutral held (vfs_iocb_iter_write K h d n b)" "neutral held (vfs_iocb_iter_read K h m n b)"
      "neutral held (do_ftruncate K h n)" "neutral held (vfs_fsync K h)" "neutral held (vfs_llseek_end K h)"
      "neutral held (locks_alloc_lock K)" "held (locks_free_lock K w) = held w" "neutral held (vfs_lock_file K h lc l)"
    and held_creds: "neutral held (prepare_creds K)" "neutral held (override_creds K c)"
      "held (revert_creds K c w) = held w" "held (put_cred K c w) = held w" "held (abort_creds K c w) = held w"
      "neutral held (security_task_fix_setuid K c c')"
    and held_mount: "neutral held (path_mount K d0 h ty mf opt)" "neutral held (dev_change_flags_up K)"
      "neutral held (cache_parse K cd ln)" "held (nfsd_vers_clear K m w) = held w"
      "neutral held (nfsd_create_serv K)" "neutral held (svc_xprt_create K tr m)" "neutral held (nfsd_svc K m)"
      "held (nfsd4_end_grace K w) = held w" "held (set_fs_root K h w) = held w" "held (set_fs_pwd K h w) = held w"
    and held_misc: "neutral held (kmalloc K m)" "held (flush_delayed_fput K w) = held w" "held (msleep K m w) = held w"
      "neutral held (call_usermodehelper_setup K p argv envp ln)" "neutral held (call_usermodehelper_exec K)"
      "neutral held (replace_fd K m h)"
begin

abbreviation loose :: "('w, 'z) fxs_scheme \<Rightarrow> int" where
  "loose \<equiv> loose_refs held"

lemmas loose_def = loose_refs_def

lemma loose_upd [simp]:
  "loose (s\<lparr>kfails := n\<rparr>) = loose s" "loose (s\<lparr>xfs_fixture_refs := c\<rparr>) = loose s"
  "loose (s\<lparr>tmpfs_mounted := b\<rparr>) = loose s" "loose (s\<lparr>nfsdfs_mounted := b\<rparr>) = loose s"
  "loose (s\<lparr>nfsd_up := b\<rparr>) = loose s" "loose (s\<lparr>client_mounted := b\<rparr>) = loose s"
  "loose (s\<lparr>xfs_hostbin_mounted := b\<rparr>) = loose s" "loose (s\<lparr>xfs_export_mount_opts := opt\<rparr>) = loose s"
  "loose (s\<lparr>xfs_saved_creds := sc\<rparr>) = loose s" "loose (s\<lparr>xfs_override := so\<rparr>) = loose s"
  "loose (s\<lparr>xfs_prog_seq := n\<rparr>) = loose s" "loose (s\<lparr>kunit_log := lg\<rparr>) = loose s"
  by (simp_all add: loose_def)

lemma keeps_neutral: "neutral held op \<Longrightarrow> keeps loose (kcall op)"
  by (auto simp: keeps_def kcall_def loose_def dest: neutralD split: prod.splits)

lemma keeps_void: "(\<And>w. held (op w) = held w) \<Longrightarrow> keeps loose (kdo op)"
  by (simp add: keeps_def kdo_def loose_def)

lemmas ref_intros = frame_intros keeps_neutral keeps_void held_names held_attrs held_xattrs held_files held_creds
  held_mount held_misc

text \<open>A piece of code that always ends and has dropped one reference by then.\<close>

definition drops :: "(('w, 'z) fxs_scheme, 'a) prog \<Rightarrow> bool" where
  "drops m = (\<forall>s. \<exists>a t. m s = Ok a t \<and> loose t = loose s - 1)"

lemma drops_umount: "drops (kcall (path_umount K h uf))"
  by (auto simp: drops_def kcall_def loose_def dest: held_umount split: prod.splits)

lemma drops_then:
  assumes "\<And>w. held (dr w) = held w - 1" "keeps loose k" "returns k"
  shows "drops (bnd (kdo dr) (\<lambda>_. k))"
  unfolding drops_def
proof (rule allI)
  fix s :: "('w, 'a) fxs_scheme"
  obtain a t where k: "k (s\<lparr>kw := dr (kw s)\<rparr>) = Ok a t" using assms(3) unfolding returns_def by blast
  from keeps_Ok [OF assms(2) k] show "\<exists>a t. bnd (kdo dr) (\<lambda>_. k) s = Ok a t \<and> loose t = loose s - 1"
    by (auto simp: bnd_def kdo_def k loose_def assms(1))
qed

lemma drops_after:
  assumes "keeps loose m" "returns m" "\<And>a. drops (f a)"
  shows "drops (bnd m f)"
  unfolding drops_def
proof (rule allI)
  fix s :: "('w, 'a) fxs_scheme"
  obtain a t where m: "m s = Ok a t" using assms(2) unfolding returns_def by blast
  then show "\<exists>b u. bnd m f s = Ok b u \<and> loose u = loose s - 1"
    using assms(3) [of a, unfolded drops_def, THEN spec, of t] keeps_Ok [OF assms(1) m] by (simp add: bnd_def)
qed

lemma drops_prod: "(\<And>a b. drops (f a b)) \<Longrightarrow> drops (case r of (a, b) \<Rightarrow> f a b)"
  by (cases r) auto

lemmas drop_intros = drops_umount drops_then [OF held_put] drops_then [OF held_close(1)] drops_then [OF held_close(2)]
  drops_prod drops_after

text \<open>The bracket of every helper: take a reference, use it, drop it.\<close>

lemma keeps_take:
  assumes "\<And>w r w'. op w = (r, w') \<Longrightarrow> held w' = (if isl r then held w else held w + 1)"
    and "\<And>e. keeps loose (fail e)" "\<And>h. drops (use h)"
  shows "keeps loose (bnd (kcall op) (\<lambda>r. case r of Inl e \<Rightarrow> fail e | Inr h \<Rightarrow> use h))"
proof (unfold keeps_def, rule allI)
  fix s :: "('w, 'c) fxs_scheme"
  obtain r w where r: "op (kw s) = (r, w)" by fastforce
  have l: "loose (s\<lparr>kw := w\<rparr>) = (if isl r then loose s else loose s + 1)"
    using assms(1) [OF r] by (auto simp: loose_def)
  show "loose (outcome_state (bnd (kcall op) (\<lambda>r. case r of Inl e \<Rightarrow> fail e | Inr h \<Rightarrow> use h) s)) = loose s"
  proof (cases r)
    case (Inl e)
    then show ?thesis using assms(2) [of e] r l by (simp add: bnd_def kcall_def keeps_def)
  next
    case (Inr h)
    obtain a t where "use h (s\<lparr>kw := w\<rparr>) = Ok a t" "loose t = loose (s\<lparr>kw := w\<rparr>) - 1"
      using assms(3) unfolding drops_def by blast
    then show ?thesis using l r Inr by (simp add: bnd_def kcall_def)
  qed
qed

lemma take_intros:
  assumes "\<And>e. keeps loose (fail e)" "\<And>h. drops (use h)"
  shows "keeps loose (bnd (kcall (kern_path K p fl)) (\<lambda>r. case r of Inl e \<Rightarrow> fail e | Inr h \<Rightarrow> use h))"
    and "keeps loose (bnd (kcall (filp_open K p ofl m)) (\<lambda>r. case r of Inl e \<Rightarrow> fail e | Inr h \<Rightarrow> use h))"
  by (rule keeps_take, erule held_kern_path held_open, rule assms, rule assms)+

lemma keeps_with_path:
  assumes "\<And>h. keeps loose (act h)" "\<And>h. returns (act h)"
  shows "keeps loose (with_path K p fail act)"
  unfolding with_path_def by (intro take_intros drop_intros assms frame_intros)

lemma keeps_name_calls:
  "keeps loose (xfs_mkdir K p)" "keeps loose (xfs_rmdir K p)" "keeps loose (xfs_unlink K p)"
  "keeps loose (xfs_rename K p q)" "keeps loose (xfs_link K p q)" "keeps loose (xfs_symlink K p q)"
  "keeps loose (xfs_mknod K p m x y)"
  by (simp_all add: xfs_mkdir_def xfs_rmdir_def xfs_unlink_def xfs_rename_def xfs_link_def xfs_symlink_def
      xfs_mknod_def keeps_neutral held_names)

lemma keeps_exists: "keeps loose (xfs_exists K p)"
  unfolding xfs_exists_def by (intro take_intros drop_intros frame_intros)

lemma keeps_path_helpers:
  "keeps loose (xfs_kstat K p)" "keeps loose (xfs_truncate K p n)"
  "keeps loose (xfs_readlink K p m)" "keeps loose (xfs_statfs K p)" "keeps loose (xfs_chmod K p m)"
  "keeps loose (xfs_chown K p u g)" "keeps loose (xfs_utimes K p ta tm)"
  "keeps loose (xfs_setxattr K p nm val m)" "keeps loose (xfs_getxattr K p nm m)"
  "keeps loose (xfs_listxattr K p m)" "keeps loose (xfs_removexattr K p nm)"
  by (auto simp: xfs_kstat_def xfs_truncate_def xfs_statfs_def xfs_chmod_def xfs_chown_def xfs_utimes_def
      xfs_utimes_raw_def xfs_readlink_def xfs_setxattr_def xfs_getxattr_def xfs_listxattr_def xfs_removexattr_def
      intro!: ref_intros keeps_with_path)

lemma keeps_access: "keeps loose (xfs_access K p m)"
  unfolding xfs_access_def Let_def bnd_case_sum bnd_assoc bnd_ret
  by (rule take_intros | rule drop_intros | rule ref_intros)+

lemma keeps_write_loop: "keeps loose (write_loop K h d pos)"
proof (unfold keeps_def, rule allI)
  fix s :: "('w, 'a) fxs_scheme"
  show "loose (outcome_state (write_loop K h d pos s)) = loose s"
  proof (induction "length d" arbitrary: d pos s rule: less_induct)
    case less
    obtain n p' w where w: "kernel_write K h d pos (kw s) = ((n, p'), w)" by (metis prod.exhaust)
    have l: "loose (s\<lparr>kw := w\<rparr>) = loose s" using neutralD [OF held_files(1) w] by (simp add: loose_def)
    show ?case
    proof (cases "d = [] \<or> n \<le> 0")
      case True
      then show ?thesis using w l by (auto simp: write_loop.simps [of K h d pos s])
    next
      case False
      then show ?thesis using w l less [of "drop (nat n) d" p' "s\<lparr>kw := w\<rparr>"]
        by (simp add: write_loop.simps [of K h d pos s])
    qed
  qed
qed

lemma returns_write_loop_prog: "returns (write_loop K h d pos)"
  by (simp add: returns_def returns_write_loop)

lemma keeps_file_helpers:
  "keeps loose (xfs_write_new_file K p d)" "keeps loose (xfs_read_range K p m n)" "keeps loose (xfs_fsync_path K p)"
  "keeps loose (xfs_ftruncate K h n)" "keeps loose (xfs_direct_write K h d m n)" "keeps loose (xfs_direct_read K h d m n)"
  "keeps loose (xfs_user_write K h d m n)" "keeps loose (xfs_user_writev K h ds m n)"
  "keeps loose (xfs_posix_lock K h lt n n' m b)" "keeps loose (xfs_settle_fput K)"
  unfolding xfs_write_new_file_def xfs_read_range_def xfs_fsync_path_def xfs_ftruncate_def xfs_direct_write_def
    xfs_direct_read_def xfs_direct_rw_def xfs_user_write_def xfs_user_writev_def xfs_user_rw_def xfs_user_rw_iter_def
    iocb_rw_def xfs_posix_lock_def xfs_settle_fput_def Let_def
  by (rule take_intros | rule drop_intros | rule ref_intros keeps_write_loop returns_write_loop_prog)+

lemma keeps_cred_helpers:
  "keeps loose (xfs_switch_creds K u g)" "keeps loose (xfs_restore_creds K)" "keeps loose (xfs_seteuid K u)"
  by (auto simp: xfs_switch_creds_def xfs_restore_creds_def xfs_seteuid_def Let_def intro!: ref_intros)

lemma keeps_mounts:
  "keeps loose (xfs_mount_at K d0 p ty opt)" "keeps loose (xfs_umount K p)" "keeps loose (xfs_umount_settled K p)"
  "keeps loose (xfs_remount_client K ro)"
  unfolding xfs_mount_at_def xfs_umount_def xfs_umount_settled_def xfs_remount_client_def
  by (rule take_intros | rule drop_intros | rule keeps_with_path ref_intros)+

lemma keeps_settled:
  "keeps loose (xfs_rmdir_settled K p)" "keeps loose (xfs_mkdir_tolerant K p)" "keeps loose (xfs_scratch_umount K)"
  "keeps loose (xfs_scratch_mount K)" "keeps loose (xfs_wait_for_free_bytes K b)"
  "keeps loose (xfs_hostbin_mount K)" "keeps loose (xfs_hostbin_umount K)"
  by (auto simp: xfs_rmdir_settled_def xfs_mkdir_tolerant_def xfs_scratch_umount_def xfs_scratch_mount_def
      xfs_wait_for_free_bytes_def xfs_hostbin_mount_def xfs_hostbin_umount_def
      intro!: ref_intros keeps_name_calls keeps_mounts keeps_path_helpers)

lemma keeps_replace_fds: "keeps loose (replace_fds K h ns err)"
  by (induction ns arbitrary: err) (auto intro!: ref_intros)

lemma keeps_programs:
  "keeps loose (xfs_prog_init K nm)" "keeps loose (xfs_prog_dump_log K prog st nm)" "keeps loose (xfs_run_prog K prog args)"
proof -
  have info: "keeps loose (kunit_info m)" for m by (simp add: kunit_info_def keeps_modify)
  show "keeps loose (xfs_prog_init K nm)"
    unfolding xfs_prog_init_def by (rule take_intros | rule drop_intros | rule ref_intros keeps_replace_fds)+
  show dump: "keeps loose (xfs_prog_dump_log K prog st nm)" for prog st nm
    unfolding xfs_prog_dump_log_def Let_def
    by (intro keeps_bnd info take_intros drop_intros ref_intros returns_hostbin)
  show "keeps loose (xfs_run_prog K prog args)"
    by (auto simp: xfs_run_prog_def Let_def intro!: ref_intros info dump keeps_settled keeps_name_calls)
qed

lemma keeps_save_root: "keeps loose (xfs_save_root K)"
  by (auto simp: keeps_def xfs_save_root_def bnd_def get_def kdo_def kask_def modify_def ret_def loose_def
      held_put held_get split: option.splits)

lemma keeps_drop_root:
  "keeps loose (bnd (get xfs_bringup_root) (\<lambda>root. case root of None \<Rightarrow> ret ()
     | Some r \<Rightarrow> seq [kdo (path_put K r), modify (\<lambda>s. s\<lparr>xfs_bringup_root := None\<rparr>)]))"
  by (auto simp: keeps_def bnd_def get_def kdo_def modify_def ret_def loose_def held_put split: option.splits)

lemma keeps_bringup_refs: "keeps loose (xfs_bringup K)"
  unfolding xfs_bringup_def xfs_loopback_up_def xfs_configure_exports_def xfs_start_nfsd_def xfs_cache_line_def
    then_set_def Let_def
  by (intro ref_intros keeps_settled keeps_mounts keeps_save_root) simp_all

lemma keeps_teardown: "keeps loose (xfs_teardown K)"
  unfolding xfs_teardown_def
  by (rule keeps_drop_root ref_intros keeps_settled keeps_name_calls keeps_mounts |
      simp add: xfs_stop_nfsd_def xfstests_nfs_export_opts_def)+

lemma keeps_get_put: "keeps loose (xfstests_nfs_get K)" "keeps loose (xfstests_nfs_put K)"
  "keeps loose (xfstests_nfs_case_init K)"
  by (auto simp: xfstests_nfs_get_def xfstests_nfs_put_def xfstests_nfs_case_init_def
      intro!: ref_intros keeps_bringup_refs keeps_teardown)

end

section \<open>Credentials\<close>

text \<open>The calls a test makes, in any order, as far as the task's identity goes.\<close>

inductive cred_step :: "'w kernel \<Rightarrow> ('w, 'z) fxs_scheme \<Rightarrow> ('w, 'z) fxs_scheme \<Rightarrow> bool" for K where
  switch: "xfs_switch_creds K uid gid s = Ok e s' \<Longrightarrow> cred_step K s s'"
| seteuid: "xfs_seteuid K uid s = Ok e s' \<Longrightarrow> cred_step K s s'"
| restore: "xfs_restore_creds K s = Ok u s' \<Longrightarrow> cred_step K s s'"
| access: "xfs_access K p m s = Ok e s' \<Longrightarrow> cred_step K s s'"
| other: "identity s' = identity s \<Longrightarrow> current_cred K (kw s') = current_cred K (kw s) \<Longrightarrow> cred_step K s s'"

text \<open>
  Either nothing is overridden and the task runs as \<open>base\<close>, or the credentials in force
  are the ones stored in \<open>xfs_override\<close> and \<open>base\<close> is saved.
\<close>

definition cred_inv :: "'w kernel \<Rightarrow> cred \<Rightarrow> ('w, 'z) fxs_scheme \<Rightarrow> bool" where
  "cred_inv K base s = (case xfs_saved_creds s of
     None \<Rightarrow> current_cred K (kw s) = base \<and> xfs_override s = None
   | Some c \<Rightarrow> c = base \<and> xfs_override s = Some (current_cred K (kw s)))"

locale cred_kernel =
  fixes K :: "'w kernel"
  assumes prepare: "prepare_creds K w = (co, w') \<Longrightarrow>
      current_cred K w' = current_cred K w \<and> (\<forall>c0. co = Some c0 \<longrightarrow> c0 = current_cred K w)"
    and override: "override_creds K c w = (c', w') \<Longrightarrow> c' = current_cred K w \<and> current_cred K w' = c"
    and revert: "current_cred K (revert_creds K c w) = c"
    and dropped: "current_cred K (put_cred K c w) = current_cred K w"
      "current_cred K (abort_creds K c w) = current_cred K w"
    and fixup: "neutral (current_cred K) (security_task_fix_setuid K c c')"
    and lookup: "neutral (current_cred K) (kern_path K p fl)"
      "neutral (current_cred K) (inode_permission K h m)" "current_cred K (path_put K h w) = current_cred K w"
begin

lemma switch_busy: "xfs_saved_creds s \<noteq> None \<Longrightarrow> xfs_switch_creds K uid gid s = Ok (- EBUSY) s"
  by (simp add: xfs_switch_creds_def bnd_def get_def ret_def)

lemma seteuid_busy: "xfs_saved_creds s \<noteq> None \<Longrightarrow> xfs_seteuid K uid s = Ok (- EBUSY) s"
  by (simp add: xfs_seteuid_def bnd_def get_def ret_def)

lemma switch_outcome:
  assumes "cred_inv K base s" "xfs_saved_creds s = None"
  shows "wp (xfs_switch_creds K uid gid) (\<lambda>e s'. cred_inv K base s' \<and>
     (if e = 0 then xfs_saved_creds s' = Some base \<and>
        current_cred K (kw s') = base\<lparr>c_uid := uid, c_euid := uid, c_suid := uid, c_fsuid := uid,
          c_gid := gid, c_egid := gid, c_sgid := gid, c_fsgid := gid,
          cap_inheritable := {}, cap_permitted := {}, cap_effective := {}\<rparr>
      else e = - ENOMEM \<and> xfs_saved_creds s' = None \<and> current_cred K (kw s') = base)) s"
proof -
  obtain c w where c: "prepare_creds K (kw s) = (c, w)" by fastforce
  show ?thesis
    using prepare [OF c] assms
    by (auto simp: xfs_switch_creds_def wp_kcall c cred_inv_def ENOMEM_def Let_def
        split: option.splits prod.splits dest!: override)
qed

lemma seteuid_outcome:
  assumes "cred_inv K base s" "xfs_saved_creds s = None"
  shows "wp (xfs_seteuid K uid) (\<lambda>e s'. cred_inv K base s' \<and>
     (e \<noteq> 0 \<longrightarrow> xfs_saved_creds s' = None)) s"
proof -
  obtain c w where c: "prepare_creds K (kw s) = (c, w)" by fastforce
  show ?thesis
    using prepare [OF c] assms
    by (auto simp: xfs_seteuid_def wp_kcall wp_kdo c cred_inv_def ENOMEM_def Let_def dropped
        split: option.splits prod.splits dest!: override neutralD [OF fixup])
qed

lemma restore_outcome:
  assumes "cred_inv K base s"
  shows "wp (xfs_restore_creds K) (\<lambda>_ s'. cred_inv K base s' \<and> current_cred K (kw s') = base \<and>
     xfs_saved_creds s' = None) s"
  using assms
  by (auto simp: xfs_restore_creds_def cred_inv_def wp_kdo revert dropped split: option.splits)

lemma access_outcome:
  "wp (xfs_access K p m) (\<lambda>_ s'. current_cred K (kw s') = current_cred K (kw s) \<and> identity s' = identity s) s"
  by (auto simp: xfs_access_def wp_kcall wp_kdo identity_def Let_def revert dropped lookup
      split: option.splits prod.splits sum.splits
      dest!: prepare override neutralD [OF lookup(1)] neutralD [OF lookup(2)])

lemma cred_inv_step: "cred_step K s s' \<Longrightarrow> cred_inv K base s \<Longrightarrow> cred_inv K base s'"
proof (induction rule: cred_step.induct)
  case (switch uid gid s e s')
  then show ?case
    using switch_outcome [of base s uid gid] switch_busy [of s uid gid]
    by (cases "xfs_saved_creds s") (auto simp: wp_def)
next
  case (seteuid uid s e s')
  then show ?case
    using seteuid_outcome [of base s uid] seteuid_busy [of s uid]
    by (cases "xfs_saved_creds s") (auto simp: wp_def)
next
  case (restore s u s')
  then show ?case using restore_outcome [of base s] by (auto simp: wp_def)
next
  case (access p m s e s')
  then show ?case using access_outcome [of p m s] 
    by (auto simp: wp_def cred_inv_def identity_def split: option.splits)
next
  case (other s' s)
  then show ?case by (auto simp: cred_inv_def identity_def split: option.splits)
qed

lemma cred_inv_reach: "(cred_step K)\<^sup>*\<^sup>* s s' \<Longrightarrow> cred_inv K base s \<Longrightarrow> cred_inv K base s'"
  by (induction rule: rtranclp_induct) (auto intro: cred_inv_step)

end

section \<open>Mounts\<close>

lemma retry_done: "e \<noteq> code \<Longrightarrow> retry n code before attempt pause e = ret e"
  by (cases n) simp_all

lemma wp_retry:
  assumes "I s" "0 < n" and "\<And>s. J s \<Longrightarrow> I s \<and> Q code s"
    and "\<And>s. I s \<Longrightarrow> wp before (\<lambda>_. wp attempt (\<lambda>r s'. case r of Inr e \<Rightarrow> Q e s'
           | Inl e \<Rightarrow> if e = code then wp pause (\<lambda>_. J) s' else Q e s')) s"
  shows "wp (retry n code before attempt pause code) Q s"
  using assms(1,2)
proof (induction n arbitrary: s)
  case (Suc n)
  have again: "wp (retry n code before attempt pause code) Q t" if "J t" for t
    using assms(3) [OF that] Suc.IH by (cases n) auto
  show ?case
    unfolding retry.simps wp_bnd wp_if if_not_P [OF not_not [THEN iffD2, OF refl]]
    by (rule wp_mono [OF assms(4) [OF Suc.prems(1)]], rule wp_mono, assumption)
      (auto simp: retry_done split: sum.splits if_splits elim!: wp_mono intro: again)
qed simp

locale mount_kernel =
  fixes K :: "'w kernel" and depth :: "'w \<Rightarrow> string \<Rightarrow> nat" and target :: "'w \<Rightarrow> nat \<Rightarrow> string"
  assumes lookup: "kern_path K p fl w = (r, w') \<Longrightarrow> depth w' = depth w \<and>
      (case r of Inl e \<Rightarrow> e = - ENOENT \<and> depth w p = 0 | Inr h \<Rightarrow> target w' h = p)"
    and mounted: "path_mount K d h ty mf opt w = (e, w') \<Longrightarrow>
      depth w' = (if e = 0 \<and> MS_REMOUNT \<notin> mf then (depth w)(target w h := Suc (depth w (target w h))) else depth w)"
    and unmounted: "path_umount K h uf w = (e, w') \<Longrightarrow>
      (if depth w (target w h) = 0 then e = - EINVAL \<and> depth w' = depth w
       else if e = 0 then depth w' = (depth w)(target w h := depth w (target w h) - 1)
       else e = - EBUSY \<and> MNT_DETACH \<notin> uf \<and> depth w' = depth w)"
    and depth_void: "depth (path_put K h w) = depth w" "depth (path_get K h w) = depth w"
      "depth (flush_delayed_fput K w) = depth w" "depth (msleep K m w) = depth w"
      "depth (nfsd_vers_clear K m w) = depth w" "depth (nfsd4_end_grace K w) = depth w"
    and depth_neutral: "neutral depth (do_mkdirat K p m)" "neutral depth (do_rmdir K p)" "neutral depth (kmalloc K m)"
      "neutral depth (dev_change_flags_up K)" "neutral depth (cache_parse K cd ln)" "neutral depth (nfsd_create_serv K)"
      "neutral depth (svc_xprt_create K tr m)" "neutral depth (nfsd_svc K m)"
begin

lemma keeps_depth:
  "neutral depth op \<Longrightarrow> keeps (\<lambda>s. depth (kw s)) (kcall op)"
  "(\<And>w. depth (v w) = depth w) \<Longrightarrow> keeps (\<lambda>s. depth (kw s)) (kdo v)"
  by (auto simp: keeps_def kcall_def kdo_def dest: neutralD split: prod.splits)

lemma umount_outcome:
  "wp (xfs_umount K p) (\<lambda>e s'. if depth (kw s) p = 0 then e \<in> {- EINVAL, - ENOENT} \<and> depth (kw s') = depth (kw s)
     else if e = 0 then depth (kw s') = (depth (kw s))(p := depth (kw s) p - 1)
     else e = - EBUSY \<and> depth (kw s') = depth (kw s)) s"
proof -
  obtain r w where r: "kern_path K p {} (kw s) = (r, w)" by fastforce
  note l = lookup [OF r]
  show ?thesis
  proof (cases r)
    case (Inl e)
    then show ?thesis using l by (simp add: xfs_umount_def wp_kcall r)
  next
    case (Inr h)
    obtain e w' where u: "path_umount K h {} w = (e, w')" by fastforce
    show ?thesis using l unmounted [OF u] Inr by (simp add: xfs_umount_def wp_kcall r u split: if_splits)
  qed
qed

lemma errno_distinct: "- EBUSY \<noteq> (0::int)" "- EBUSY \<noteq> - EINVAL" "- EBUSY \<noteq> - ENOENT"
  by (simp_all add: EBUSY_def EINVAL_def ENOENT_def)

lemma umount_settled_outcome:
  "wp (xfs_umount_settled K p) (\<lambda>e s'. if depth (kw s) p = 0 then e \<in> {- EINVAL, - ENOENT} \<and> depth (kw s') = depth (kw s)
     else e = 0 \<and> depth (kw s') = (depth (kw s))(p := depth (kw s) p - 1)) s"
proof -
  let ?d = "depth (kw s)"
  let ?Q = "\<lambda>e s'. if ?d p = 0 then e \<in> {- EINVAL, - ENOENT} \<and> depth (kw s') = ?d
     else e = 0 \<and> depth (kw s') = ?d(p := ?d p - 1)"
  have loop: "wp (retry 20 (- EBUSY) (kdo (flush_delayed_fput K)) (bnd (xfs_umount K p) (\<lambda>e. ret (Inl e)))
      (kdo (msleep K 100)) (- EBUSY)) (\<lambda>e s'. if e = - EBUSY then depth (kw s') = ?d \<and> ?d p \<noteq> 0 else ?Q e s') s"
  proof (rule wp_retry [where I = "\<lambda>s'. depth (kw s') = ?d" and J = "\<lambda>s'. depth (kw s') = ?d \<and> ?d p \<noteq> 0"],
      simp, simp, simp)
    fix t :: "('w, 'a) kst_scheme"
    assume t: "depth (kw t) = ?d"
    show "wp (kdo (flush_delayed_fput K)) (\<lambda>_. wp (bnd (xfs_umount K p) (\<lambda>e. ret (Inl e)))
        (\<lambda>r s'. case r of Inr e \<Rightarrow> if e = - EBUSY then depth (kw s') = ?d \<and> ?d p \<noteq> 0 else ?Q e s'
           | Inl e \<Rightarrow> if e = - EBUSY then wp (kdo (msleep K 100)) (\<lambda>_ s'. depth (kw s') = ?d \<and> ?d p \<noteq> 0) s'
                     else if e = - EBUSY then depth (kw s') = ?d \<and> ?d p \<noteq> 0 else ?Q e s')) t"
      unfolding wp_kdo wp_bnd wp_ret
    proof (rule wp_mono [OF umount_outcome], goal_cases)
      case (1 e t')
      have d: "depth (kw (t\<lparr>kw := flush_delayed_fput K (kw t)\<rparr>)) = ?d" using t by (simp add: depth_void)
      note o = 1 [unfolded d]
      show ?case
      proof (cases "?d p = 0")
        case True
        then have "e \<noteq> - EBUSY" "depth (kw t') = ?d" "e \<in> {- EINVAL, - ENOENT}" using o errno_distinct by auto
        then show ?thesis using True by simp
      next
        case False
        then consider (ok) "e = 0" "depth (kw t') = ?d(p := ?d p - 1)" | (busy) "e = - EBUSY" "depth (kw t') = ?d"
          using o by (simp split: if_splits)
        then show ?thesis using False errno_distinct(1) by cases (simp_all add: wp_kdo depth_void)
      qed
    qed
  qed
  show ?thesis
    unfolding xfs_umount_settled_def wp_bnd
  proof (rule wp_mono [OF loop])
    fix e t
    assume e: "if e = - EBUSY then depth (kw t) = ?d \<and> ?d p \<noteq> 0 else ?Q e t"
    obtain r w where r: "kern_path K p {} (kw t) = (r, w)" by fastforce
    have "wp (kcall (kern_path K p {})) (\<lambda>r. wp (case r of Inl _ \<Rightarrow> ret e
        | Inr h \<Rightarrow> kcall (path_umount K h {MNT_DETACH})) ?Q) t" if b: "e = - EBUSY"
    proof (cases r)
      case (Inl x)
      then show ?thesis using lookup [OF r] e b by simp
    next
      case (Inr h)
      obtain x w' where u: "path_umount K h {MNT_DETACH} w = (x, w')" by fastforce
      show ?thesis using lookup [OF r] unmounted [OF u] Inr e b by (simp add: wp_kcall r u split: if_splits)
    qed
    then show "wp (if e = - EBUSY then bnd (kcall (kern_path K p {})) (\<lambda>p. case p of Inl _ \<Rightarrow> ret e
        | Inr h \<Rightarrow> kcall (path_umount K h {MNT_DETACH})) else ret e) ?Q t"
      using e by (cases "e = - EBUSY") (simp_all only: if_P if_not_P if_True if_False wp_bnd wp_ret)
  qed
qed

lemma scratch_loop:
  "wp (retry n 0 (ret ()) (bnd (xfs_umount_settled K p) (\<lambda>e. ret (Inl e))) (ret ()) 0)
     (\<lambda>e s'. depth (kw s') = (depth (kw s))(p := depth (kw s) p - n) \<and>
        (e = 0 \<or> e = - EINVAL \<or> e = - ENOENT)) s"
proof (induction n arbitrary: s)
  case (Suc n)
  have e: "EINVAL \<noteq> 0" "ENOENT \<noteq> 0" by (simp_all add: EINVAL_def ENOENT_def)
  show ?case
    by (simp, rule wp_mono [OF umount_settled_outcome])
      (auto simp: retry_done e fun_upd_idem split: if_splits intro!: wp_mono [OF Suc.IH])
qed simp

lemma scratch_umount_outcome:
  "wp (xfs_scratch_umount K) (\<lambda>e s'. e = 0 \<and>
     depth (kw s') = (depth (kw s))(XFS_SCRATCH_MNT := depth (kw s) XFS_SCRATCH_MNT - 8)) s"
  unfolding xfs_scratch_umount_def wp_bnd
  by (rule wp_mono [OF scratch_loop]) auto

lemma mount_at_outcome:
  "wp (xfs_mount_at K d p ty opt) (\<lambda>e s'.
     depth (kw s') = (if e = 0 then (depth (kw s))(p := Suc (depth (kw s) p)) else depth (kw s))) s"
proof -
  obtain b w where alloc: "(case opt of None \<Rightarrow> ret True | Some d \<Rightarrow> kcall (kmalloc K (length d + 1))) s = Ok b (s\<lparr>kw := w\<rparr>)"
    "depth w = depth (kw s)"
  proof (cases opt)
    case None
    then show thesis using that [of True "kw s"] by (simp add: ret_def)
  next
    case (Some d)
    obtain b w where m: "kmalloc K (length d + 1) (kw s) = (b, w)" by fastforce
    then have "depth w = depth (kw s)" using neutralD [OF depth_neutral(3)] by metis
    then show thesis using that [of b w] Some m by (simp add: kcall_def)
  qed
  obtain r w1 where r: "kern_path K p {} w = (r, w1)" by fastforce
  note l = lookup [OF r]
  show ?thesis
  proof (cases r)
    case (Inl e)
    then show ?thesis using l alloc
      by (simp add: xfs_mount_at_def with_path_def wp_def bnd_def kcall_def r ret_def ENOMEM_def ENOENT_def)
  next
    case (Inr h)
    obtain e w' where u: "path_mount K d h ty {} opt w1 = (e, w')" by fastforce
    show ?thesis using l mounted [OF u] Inr alloc
      by (simp add: xfs_mount_at_def with_path_def wp_def bnd_def kcall_def kdo_def r u ret_def ENOMEM_def
          depth_void split: if_splits)
  qed
qed

end

end
