(* ===== verification/Deploy.thy ===== *)
theory Deploy
  imports Resources
begin

text \<open>
  Bring-up and teardown against the mount table and the server.  The two server-side mounts
  are unmounted with a plain \<open>path_umount\<close>, which fails while somebody uses the mount: the
  locale \<open>server_mounts\<close> adds to the laws of \<open>mount_kernel\<close> who that can be.  Under it the
  flags of the fixture and the mount table are compared: \<open>bal\<close> is the number of mounts on
  each mount point less the one the flag stands for, and only a teardown that reaches the
  export while the server's tables hold it can change that.
\<close>

text \<open>
  \<open>holds w\<close>: the export tables of sunrpc or the threads of knfsd hold a reference to the
  exported directory; an entry fed to \<open>svc_export_parse\<close> does until the tables are emptied,
  which is what stopping the threads of a knfsd that runs does.  \<open>runs w\<close>: knfsd has
  threads.  \<open>calm w\<close>: nothing else (an open file a case leaked, a working directory) is on
  the two server-side mounts.  An unmount of one of them succeeds exactly when nobody is
  on it.
\<close>

definition peaceful :: "('w \<Rightarrow> bool) \<Rightarrow> ('w \<Rightarrow> bool) \<Rightarrow> ('w \<Rightarrow> bool) \<Rightarrow> ('w \<Rightarrow> 'a \<times> 'w) \<Rightarrow> bool" where
  \<comment> \<open>a call that has nothing to do with the server\<close>
  "peaceful calm holds runs op = (\<forall>w. calm w \<longrightarrow> calm (snd (op w)) \<and>
     holds (snd (op w)) = holds w \<and> runs (snd (op w)) = runs w)"

lemma peacefulD:
  "\<lbrakk>op w = (a, w'); peaceful calm holds runs op; calm w\<rbrakk> \<Longrightarrow> calm w' \<and> holds w' = holds w \<and> runs w' = runs w"
  unfolding peaceful_def by (drule spec [of _ w]) simp

definition server_flags :: "('w, 'z) fxs_scheme \<Rightarrow> bool \<times> bool" where
  "server_flags s = (tmpfs_mounted s, nfsd_up s)"

interpretation flg: statics "server_flags :: ('w, 'z) fxs_scheme \<Rightarrow> _"
  by unfold_locales (simp_all add: server_flags_def)

lemma keeps_server_flags:
  "keeps server_flags (xfs_hostbin_umount K)" "keeps server_flags (xfstests_nfs_export_opts opt)"
  "keeps server_flags (bnd (get client_mounted) (\<lambda>b. do_if b (seq [ignore (xfs_umount_settled K XFS_MNT),
     modify (\<lambda>s. s\<lparr>client_mounted := False\<rparr>)])))"
  "keeps server_flags (bnd (get nfsdfs_mounted) (\<lambda>b. do_if b (seq [ignore (xfs_umount K XFS_NFSDFS),
     modify (\<lambda>s. s\<lparr>nfsdfs_mounted := False\<rparr>)])))"
  "keeps server_flags (bnd (get xfs_bringup_root) (\<lambda>root. case root of None \<Rightarrow> ret ()
     | Some r \<Rightarrow> seq [kdo (path_put K r), modify (\<lambda>s. s\<lparr>xfs_bringup_root := None\<rparr>)]))"
  by (auto simp: xfs_hostbin_umount_def xfstests_nfs_export_opts_def server_flags_def
      intro!: frame_intros flg.keeps_basic flg.keeps_paths flg.keeps_env)

locale server_mounts = mount_kernel K depth target
  for K :: "'w kernel" and depth :: "'w \<Rightarrow> string \<Rightarrow> nat" and target :: "'w \<Rightarrow> nat \<Rightarrow> string" +
  fixes calm :: "'w \<Rightarrow> bool" and holds :: "'w \<Rightarrow> bool" and runs :: "'w \<Rightarrow> bool"
  assumes busy: "\<lbrakk>calm w; target w h \<in> {XFS_EXPORT, XFS_NFSDFS}; 0 < depth w (target w h);
        path_umount K h {} w = (e, w')\<rbrakk> \<Longrightarrow> e = 0 \<longleftrightarrow> \<not> (target w h = XFS_EXPORT \<and> holds w)"
    and started: "nfsd_svc K 1 w = (e, w') \<Longrightarrow> 0 \<le> e \<Longrightarrow> runs w'"
    and stopped: "\<lbrakk>nfsd_svc K 0 w = (e, w'); runs w\<rbrakk> \<Longrightarrow> \<not> holds w'"
    and server_calm: "calm w \<Longrightarrow> calm (snd (nfsd_svc K n w))" "calm w \<Longrightarrow> calm (snd (cache_parse K cd ln w))"
      "calm w \<Longrightarrow> calm (snd (nfsd_create_serv K w))" "calm w \<Longrightarrow> calm (snd (svc_xprt_create K tr m w))"
      "calm w \<Longrightarrow> calm (nfsd_vers_clear K m w)" "calm w \<Longrightarrow> calm (nfsd4_end_grace K w)"
      "runs (nfsd4_end_grace K w) = runs w"
    and peace: "peaceful calm holds runs (kern_path K p fl)" "peaceful calm holds runs (path_mount K d h ty mf opt)"
      "peaceful calm holds runs (path_umount K h uf)" "peaceful calm holds runs (do_mkdirat K p m)"
      "peaceful calm holds runs (do_rmdir K p)" "peaceful calm holds runs (kmalloc K m)"
      "peaceful calm holds runs (dev_change_flags_up K)"
    and peace_void: "peaceful calm holds runs (\<lambda>w. ((), path_put K h w))"
      "peaceful calm holds runs (\<lambda>w. ((), path_get K h w))" "peaceful calm holds runs (\<lambda>w. ((), flush_delayed_fput K w))"
      "peaceful calm holds runs (\<lambda>w. ((), msleep K m w))"
begin

text \<open>The server's part of the world, as the steps that are not about it leave it.\<close>

definition still :: "bool \<times> bool \<Rightarrow> ('w, 'z) fxs_scheme \<Rightarrow> bool" where
  "still v s = (calm (kw s) \<and> (holds (kw s), runs (kw s)) = v)"

lemma still_upd [simp]:
  "still v (s\<lparr>xfs_hostbin_mounted := b\<rparr>) = still v s" "still v (s\<lparr>client_mounted := b\<rparr>) = still v s"
  "still v (s\<lparr>nfsdfs_mounted := b\<rparr>) = still v s" "still v (s\<lparr>tmpfs_mounted := b\<rparr>) = still v s"
  "still v (s\<lparr>nfsd_up := b\<rparr>) = still v s" "still v (s\<lparr>xfs_export_mount_opts := opt\<rparr>) = still v s"
  "still v (s\<lparr>xfs_bringup_root := r\<rparr>) = still v s" "still v (s\<lparr>xfs_fixture_refs := c\<rparr>) = still v s"
  by (simp_all add: still_def)

lemma stays_still_call:
  assumes "peaceful calm holds runs op"
  shows "stays (still v :: ('w, 'z) fxs_scheme \<Rightarrow> bool) (kcall op)"
  unfolding stays_def
proof (intro allI impI)
  fix s :: "('w, 'z) fxs_scheme"
  assume s: "still v s"
  obtain a w where w: "op (kw s) = (a, w)" by fastforce
  from peacefulD [OF w assms] s show "still v (outcome_state (kcall op s))" by (simp add: still_def kcall_def w)
qed

lemma stays_still_do: "peaceful calm holds runs (\<lambda>w. ((), vo w)) \<Longrightarrow> stays (still v) (kdo vo)"
  unfolding stays_def by (auto simp: still_def kdo_def dest!: peacefulD [OF refl])

lemmas still_intros = stay_intros stays_still_call stays_still_do peace peace_void

lemma stays_still_env:
  "stays (still v) (xfs_mount_at K d p ty opt)" "stays (still v) (xfs_umount K p)" "stays (still v) (xfs_umount_settled K p)"
  "stays (still v) (xfs_rmdir K p)" "stays (still v) (xfs_mkdir_tolerant K p)" "stays (still v) (xfs_scratch_umount K)"
  "stays (still v) (xfs_loopback_up K)" "stays (still v) (xfs_save_root K)" "stays (still v) (xfs_hostbin_umount K)"
  by (auto simp: env_defs xfs_loopback_up_def xfs_save_root_def xfs_hostbin_umount_def intro!: still_intros)

definition three :: "(string \<Rightarrow> nat) \<Rightarrow> nat \<times> nat \<times> nat" where
  "three d = (d XFS_EXPORT, d XFS_NFSDFS, d XFS_MNT)"

definition bal :: "('w, 'z) fxs_scheme \<Rightarrow> int \<times> int \<times> int" where
  "bal s = (int (depth (kw s) XFS_EXPORT) - of_bool (tmpfs_mounted s),
            int (depth (kw s) XFS_NFSDFS) - of_bool (nfsdfs_mounted s),
            int (depth (kw s) XFS_MNT) - of_bool (client_mounted s))"

definition bal_ok :: "int \<times> int \<times> int \<Rightarrow> bool" where
  "bal_ok b = (case b of (x, y, z) \<Rightarrow> 0 \<le> x \<and> 0 \<le> y \<and> 0 \<le> z)"

definition plus_export :: "bool \<Rightarrow> int \<times> int \<times> int \<Rightarrow> int \<times> int \<times> int" where
  "plus_export b x = (case x of (e, n, c) \<Rightarrow> (e + of_bool b, n, c))"

definition shape where
  "shape s = (deployment s, three (depth (kw s)))"

lemma shape_bal: "shape s' = shape s \<Longrightarrow> bal s' = bal s"
  by (simp add: shape_def bal_def three_def deployment_def)

lemma mount_points [simp]:
  "XFS_EXPORT \<noteq> XFS_MNT" "XFS_EXPORT \<noteq> XFS_NFSDFS" "XFS_MNT \<noteq> XFS_NFSDFS" "XFS_MNT \<noteq> XFS_EXPORT"
  "XFS_NFSDFS \<noteq> XFS_MNT" "XFS_NFSDFS \<noteq> XFS_EXPORT" "XFS_HOSTBIN \<noteq> XFS_MNT" "XFS_HOSTBIN \<noteq> XFS_EXPORT"
  "XFS_HOSTBIN \<noteq> XFS_NFSDFS" "XFS_SCRATCH_MNT \<noteq> XFS_MNT" "XFS_SCRATCH_MNT \<noteq> XFS_EXPORT"
  "XFS_SCRATCH_MNT \<noteq> XFS_NFSDFS" "XFS_MNT \<noteq> XFS_SCRATCH_MNT" "XFS_EXPORT \<noteq> XFS_SCRATCH_MNT"
  "XFS_NFSDFS \<noteq> XFS_SCRATCH_MNT"
  by (simp_all add: XFS_MNT_def XFS_EXPORT_def XFS_NFSDFS_def XFS_HOSTBIN_def XFS_SCRATCH_MNT_def)

lemma keeps_shape: "keeps deployment m \<Longrightarrow> keeps (\<lambda>s. depth (kw s)) m \<Longrightarrow> keeps shape m"
  by (simp add: keeps_def shape_def)

lemmas depth_intros = frame_intros keeps_depth depth_void depth_neutral

lemma keeps_depth_env:
  "keeps (\<lambda>s. depth (kw s)) (xfs_mkdir_tolerant K p)" "keeps (\<lambda>s. depth (kw s)) (xfs_rmdir K p)"
  "keeps (\<lambda>s. depth (kw s)) (xfs_configure_exports K)" "keeps (\<lambda>s. depth (kw s)) (xfs_start_nfsd K)"
  "keeps (\<lambda>s. depth (kw s)) (xfs_stop_nfsd K)" "keeps (\<lambda>s. depth (kw s)) (xfs_loopback_up K)"
  "keeps (\<lambda>s. depth (kw s)) (xfs_save_root K)"
  by (auto simp: xfs_mkdir_tolerant_def xfs_mkdir_def xfs_rmdir_def xfs_configure_exports_def xfs_cache_line_def
      xfs_start_nfsd_def xfs_stop_nfsd_def xfs_loopback_up_def xfs_save_root_def Let_def intro!: depth_intros)

lemma keeps_dep_loopback: "keeps deployment (xfs_loopback_up K)"
  by (auto simp: xfs_loopback_up_def intro!: dep_intros)

lemma wp_on_ok_neutral:
  assumes "returns m" "keeps deployment m" "keeps (\<lambda>s. depth (kw s)) m"
    and "\<And>e s'. \<lbrakk>e \<noteq> 0; shape s' = shape s\<rbrakk> \<Longrightarrow> Q e s'"
    and "\<And>s'. shape s' = shape s \<Longrightarrow> wp k Q s'"
  shows "wp (on_ok m k) Q s"
  unfolding on_ok_def wp_bnd
  by (rule wp_frame [OF assms(1) keeps_shape [OF assms(2,3)]]) (use assms(4,5) in auto)

lemma wp_on_ok_mount:
  assumes "\<And>e s'. \<lbrakk>e \<noteq> 0; shape s' = shape s\<rbrakk> \<Longrightarrow> Q e s'"
    and "\<And>s'. shape s' = (deployment s, three ((depth (kw s))(p := Suc (depth (kw s) p)))) \<Longrightarrow> wp k Q s'"
  shows "wp (on_ok (xfs_mount_at K d p ty opt) k) Q s"
  unfolding on_ok_def wp_bnd
  by (rule wp_mono [OF wp_frame_with [OF mount_at_outcome, where F = deployment]])
    (use assms in \<open>auto simp: shape_def intro: dep_intros\<close>)

lemma wp_on_ok_mount_opt:
  assumes "\<And>e s'. \<lbrakk>e \<noteq> 0; shape s' = shape s\<rbrakk> \<Longrightarrow> Q e s'"
    and "\<And>s'. shape s' = (deployment s, three ((depth (kw s))(p := Suc (depth (kw s) p)))) \<Longrightarrow> wp k Q s'"
  shows "wp (on_ok (bnd (get xfs_export_mount_opts) (\<lambda>opt. xfs_mount_at K d p ty (Some opt))) k) Q s"
  using wp_on_ok_mount [OF assms, where d = d and opt = "Some (xfs_export_mount_opts s)" and ty = ty]
  by (simp add: on_ok_def)

lemma save_root_bal: "wp (xfs_save_root K) (\<lambda>_ s'. bal s' = bal s) s"
  by (auto simp: xfs_save_root_def bal_def wp_kdo depth_void split: option.splits)

lemma bringup_bal:
  assumes "torn_down s"
  shows "wp (xfs_bringup K) (\<lambda>_ s'. bal s' = bal s) s"
  using assms
  unfolding xfs_bringup_def
  by - (rule wp_on_ok_mount wp_on_ok_mount_opt wp_on_ok_neutral |
      (intro dep_intros keeps_depth_env keeps_dep_loopback; fail) |
      (simp add: bal_def shape_def three_def torn_down_def deployment_def; fail) |
      simp only: wp_then_set |
      rule wp_mono [OF save_root_bal])+

text \<open>Teardown, step by step: none moves the balance as long as it is not negative.\<close>

lemma wp_seq_bal:
  assumes "bal s = b" "\<And>m t. m \<in> set ms \<Longrightarrow> bal t = b \<Longrightarrow> wp m (\<lambda>_ t'. bal t' = b) t"
  shows "wp (seq ms) (\<lambda>_ s'. bal s' = b) s"
  using assms
proof (induction ms arbitrary: s)
  case (Cons m ms)
  have "wp m (\<lambda>_ t. bal t = b) s" using Cons.prems by simp
  then show ?case
    unfolding wp_seq_Cons by (rule wp_mono) (use Cons in auto)
qed simp

lemma neutral_bal:
  assumes "returns m" "keeps deployment m" "keeps (\<lambda>s. depth (kw s)) m"
  shows "wp m (\<lambda>_ s'. bal s' = bal s) s"
  by (rule wp_frame [OF assms(1) keeps_shape [OF assms(2,3)]]) (rule shape_bal)

lemma other_umount_bal:
  assumes "p \<notin> {XFS_EXPORT, XFS_NFSDFS, XFS_MNT}"
  shows "wp (xfs_umount_settled K p) (\<lambda>_ s'. bal s' = bal s) s"
  by (rule wp_mono [OF wp_frame_with [OF umount_settled_outcome, where F = deployment]])
    (use assms in \<open>auto simp: bal_def deployment_def intro: dep_intros split: if_splits\<close>)

lemma hostbin_bal: "wp (xfs_hostbin_umount K) (\<lambda>_ s'. bal s' = bal s) s"
proof -
  have rm: "wp (xfs_rmdir K XFS_HOSTBIN) (\<lambda>_ t'. bal t' = bal t) t" for t :: "('w, 'a) fxs_scheme"
    by (rule neutral_bal) (intro dep_intros keeps_depth_env)+
  have up: "bal (t\<lparr>xfs_hostbin_mounted := b\<rparr>) = bal t" for t :: "('w, 'a) fxs_scheme" and b
    by (simp add: bal_def)
  have "wp (xfs_umount_settled K XFS_HOSTBIN) (\<lambda>_ t. wp (xfs_rmdir K XFS_HOSTBIN) (\<lambda>_ s'. bal s' = bal s)
      (t\<lparr>xfs_hostbin_mounted := False\<rparr>)) s"
    by (rule wp_mono [OF other_umount_bal], simp, rule wp_mono [OF rm]) (simp add: up)
  then show ?thesis by (simp add: xfs_hostbin_umount_def)
qed

lemma scratch_bal: "wp (xfs_scratch_umount K) (\<lambda>_ s'. bal s' = bal s) s"
  by (rule wp_mono [OF wp_frame_with [OF scratch_umount_outcome, where F = deployment]])
    (auto simp: bal_def deployment_def intro: dep_intros)

lemma client_stage_bal:
  assumes "bal_ok (bal s)"
  shows "wp (bnd (get client_mounted) (\<lambda>b. do_if b (seq [ignore (xfs_umount_settled K XFS_MNT),
     modify (\<lambda>s. s\<lparr>client_mounted := False\<rparr>)]))) (\<lambda>_ s'. bal s' = bal s) s"
proof (cases "client_mounted s")
  case True
  then have "depth (kw s) XFS_MNT \<noteq> 0" using assms by (auto simp: bal_ok_def bal_def)
  then have "wp (xfs_umount_settled K XFS_MNT) (\<lambda>_ s'. bal (s'\<lparr>client_mounted := False\<rparr>) = bal s) s"
    by (intro wp_mono [OF wp_frame_with [OF umount_settled_outcome, where F = deployment]])
      (use True in \<open>auto simp: bal_def deployment_def intro: dep_intros\<close>)
  with True show ?thesis by simp
qed simp

lemma busy_umount:
  assumes "p \<in> {XFS_EXPORT, XFS_NFSDFS}" "depth (kw s) p \<noteq> 0" "calm (kw s)"
  shows "wp (xfs_umount K p) (\<lambda>_ s'. depth (kw s') = (if p = XFS_EXPORT \<and> holds (kw s) then depth (kw s)
     else (depth (kw s))(p := depth (kw s) p - 1))) s"
proof -
  obtain r w where r: "kern_path K p {} (kw s) = (r, w)" by fastforce
  note l = lookup [OF r]
  then obtain h where h: "r = Inr h" "target w h = p" "depth w = depth (kw s)"
    using assms(2) by (cases r) auto
  have c: "calm w" "holds w = holds (kw s)" using peacefulD [OF r peace(1) assms(3)] by simp_all
  obtain e w' where u: "path_umount K h {} w = (e, w')" by fastforce
  have "e = 0 \<longleftrightarrow> \<not> (p = XFS_EXPORT \<and> holds (kw s))" using busy [OF c(1) _ _ u] h c(2) assms(1,2) by simp
  then show ?thesis using unmounted [OF u] h assms by (simp add: xfs_umount_def wp_kcall r u split: if_splits)
qed

lemma server_stage_bal:
  assumes "bal_ok (bal s)" "calm (kw s)"
  shows "wp (bnd (get nfsdfs_mounted) (\<lambda>b. do_if b (seq [ignore (xfs_umount K XFS_NFSDFS),
       modify (\<lambda>s. s\<lparr>nfsdfs_mounted := False\<rparr>)]))) (\<lambda>_ s'. bal s' = bal s) s" (is ?nfsd)
    and "wp (bnd (get tmpfs_mounted) (\<lambda>b. do_if b (seq [ignore (xfs_umount K XFS_EXPORT),
       modify (\<lambda>s. s\<lparr>tmpfs_mounted := False\<rparr>)])))
       (\<lambda>_ s'. bal s' = plus_export (tmpfs_mounted s \<and> holds (kw s)) (bal s)) s" (is ?tmpfs)
proof -
  have n: "depth (kw s) XFS_NFSDFS \<noteq> 0" if "nfsdfs_mounted s" using assms that by (auto simp: bal_ok_def bal_def)
  have t: "depth (kw s) XFS_EXPORT \<noteq> 0" if "tmpfs_mounted s" using assms that by (auto simp: bal_ok_def bal_def)
  have "wp (xfs_umount K XFS_NFSDFS) (\<lambda>_ s'. bal (s'\<lparr>nfsdfs_mounted := False\<rparr>) = bal s) s" if "nfsdfs_mounted s"
    by (rule wp_mono [OF wp_frame_with [OF busy_umount, where F = deployment]])
      (use n that assms(2) in \<open>auto simp: bal_def deployment_def intro: dep_intros\<close>)
  then show ?nfsd by simp
  have "wp (xfs_umount K XFS_EXPORT) (\<lambda>_ s'. bal (s'\<lparr>tmpfs_mounted := False\<rparr>) = plus_export (holds (kw s)) (bal s)) s"
    if "tmpfs_mounted s"
    by (rule wp_mono [OF wp_frame_with [OF busy_umount, where F = deployment]])
      (use t that assms(2) in \<open>auto simp: bal_def plus_export_def deployment_def intro: dep_intros\<close>)
  then show ?tmpfs by (simp add: plus_export_def split: prod.split)
qed

lemma nfsd_stage_bal:
  "wp (bnd (get nfsd_up) (\<lambda>b. do_if b (seq [xfs_stop_nfsd K, modify (\<lambda>s. s\<lparr>nfsd_up := False\<rparr>)])))
     (\<lambda>_ s'. bal s' = bal s) s"
proof -
  have "wp (xfs_stop_nfsd K) (\<lambda>_ s'. bal (s'\<lparr>nfsd_up := False\<rparr>) = bal s) s"
    by (rule wp_mono [OF neutral_bal]) (auto simp: bal_def intro: dep_intros keeps_depth_env)
  then show ?thesis by simp
qed

lemma root_stage_bal:
  "wp (bnd (get xfs_bringup_root) (\<lambda>root. case root of None \<Rightarrow> ret ()
     | Some r \<Rightarrow> seq [kdo (path_put K r), modify (\<lambda>s. s\<lparr>xfs_bringup_root := None\<rparr>)])) (\<lambda>_ s'. bal s' = bal s) s"
  by (auto simp: bal_def wp_kdo depth_void split: option.splits)


text \<open>
  The state of a teardown between two stages: the balance, the server's part of the world
  and the two flags the later stages look at.
\<close>

definition at_stage :: "int \<times> int \<times> int \<Rightarrow> bool \<times> bool \<Rightarrow> bool \<times> bool \<Rightarrow> ('w, 'z) fxs_scheme \<Rightarrow> bool" where
  "at_stage b v f t = (bal t = b \<and> still v t \<and> server_flags t = f)"

lemma wp_at_stage:
  assumes "at_stage b v f t" "wp m (\<lambda>_ t'. bal t' = bal t) t" "stays (still v) m" "keeps server_flags m"
    and "\<And>t'. at_stage b v f t' \<Longrightarrow> wp (seq ms) Q t'"
  shows "wp (seq (m # ms)) Q t"
  unfolding wp_seq_Cons
  by (rule wp_mono [OF wp_stay_with [OF wp_frame_with [OF assms(2,4)] assms(3)]])
    (use assms(1,5) in \<open>auto simp: at_stage_def\<close>)

lemma wp_stop_stage:
  assumes "at_stage b (h, r) (tm, nu) t"
    and "\<And>t' h' r'. \<lbrakk>at_stage b (h', r') (tm, False) t'; nu \<Longrightarrow> r \<Longrightarrow> \<not> h'; \<not> nu \<Longrightarrow> h' = h\<rbrakk> \<Longrightarrow> wp (seq ms) Q t'"
  shows "wp (seq (bnd (get nfsd_up) (\<lambda>b. do_if b (seq [xfs_stop_nfsd K, modify (\<lambda>s. s\<lparr>nfsd_up := False\<rparr>)])) # ms)) Q t"
proof (cases nu)
  case False
  then show ?thesis using assms(1) assms(2) [of h r t] by (simp add: at_stage_def server_flags_def)
next
  case True
  obtain e w where w: "nfsd_svc K 0 (kw t) = (e, w)" by fastforce
  have c: "calm w" "r \<Longrightarrow> \<not> holds w" "depth w = depth (kw t)"
    using server_calm(1) [of "kw t" 0] stopped [OF w] neutralD [OF depth_neutral(8) w] w assms(1)
    by (auto simp: at_stage_def still_def)
  then have "at_stage b (holds w, runs w) (tm, False) (t\<lparr>kw := w, nfsd_up := False\<rparr>)"
    using assms(1) by (auto simp: at_stage_def still_def bal_def server_flags_def)
  from assms(2) [OF this] c True assms(1) show ?thesis
    by (simp add: xfs_stop_nfsd_def wp_kcall w at_stage_def server_flags_def)
qed

lemma wp_export_stage:
  assumes "at_stage b (h, r) (tm, nu) t" "bal_ok b"
    and "\<And>t'. at_stage (plus_export (tm \<and> h) b) (h, r) (False, nu) t' \<Longrightarrow> wp (seq ms) Q t'"
  shows "wp (seq (bnd (get tmpfs_mounted) (\<lambda>b. do_if b (seq [ignore (xfs_umount K XFS_EXPORT),
       modify (\<lambda>s. s\<lparr>tmpfs_mounted := False\<rparr>)])) # ms)) Q t" (is "wp (seq (?m # ms)) Q t")
proof -
  have st: "stays (still (h, r)) ?m" by (intro stay_intros stays_still_env) simp
  have fl: "keeps nfsd_up ?m"
  proof -
    have "keeps server_flags (xfs_umount K XFS_EXPORT :: (('w, 'a) fxs_scheme, int) prog)" by (rule flg.keeps_env)
    then have "keeps nfsd_up (xfs_umount K XFS_EXPORT :: (('w, 'a) fxs_scheme, int) prog)"
      by (simp add: keeps_def server_flags_def)
    then show ?thesis by (intro frame_intros) simp_all
  qed
  have up: "wp ?m (\<lambda>_ t'. bal t' = plus_export (tmpfs_mounted t \<and> holds (kw t)) (bal t) \<and> \<not> tmpfs_mounted t') t"
    by (rule wp_conj [OF server_stage_bal(2)])
      (use assms(1,2) in \<open>auto simp: at_stage_def still_def intro!: wp_frame [OF returns_env(5), where F = "\<lambda>_. ()"] simp: keeps_def\<close>)
  show ?thesis
    unfolding wp_seq_Cons
    by (rule wp_mono [OF wp_stay_with [OF wp_frame_with [OF up fl] st]])
      (use assms(1,3) in \<open>auto simp: at_stage_def still_def server_flags_def\<close>)
qed

lemma teardown_mounts:
  assumes "bal_ok (bal s)" "calm (kw s)"
  shows "wp (xfs_teardown K) (\<lambda>_ s'. calm (kw s') \<and> (nfsd_up s \<longrightarrow> runs (kw s) \<longrightarrow> \<not> holds (kw s')) \<and>
     (\<not> nfsd_up s \<longrightarrow> holds (kw s') = holds (kw s)) \<and>
     bal s' = plus_export (tmpfs_mounted s \<and> holds (kw s')) (bal s)) s"
proof -
  have rm: "wp (ignore (xfs_rmdir K p)) (\<lambda>_ t'. bal t' = bal t) t" "stays (still v) (ignore (xfs_rmdir K p))"
    "keeps server_flags (ignore (xfs_rmdir K p))" for p v and t :: "('w, 'a) fxs_scheme"
    unfolding wp_ignore by (rule neutral_bal) (intro dep_intros keeps_depth_env stay_intros stays_still_env flg.keeps_paths)+
  have op: "wp (xfstests_nfs_export_opts opt) (\<lambda>_ t'. bal t' = bal t) t" "stays (still v) (xfstests_nfs_export_opts opt)"
    for opt v and t :: "('w, 'a) fxs_scheme"
    by (simp_all add: xfstests_nfs_export_opts_def bal_def stays_modify)
  have sc: "wp (ignore (xfs_scratch_umount K)) (\<lambda>_ t'. bal t' = bal t) t" for t :: "('w, 'a) fxs_scheme"
    unfolding wp_ignore by (rule scratch_bal)
  have at: "at_stage (bal s) (holds (kw s), runs (kw s)) (tmpfs_mounted s, nfsd_up s) s"
    using assms(2) by (simp add: at_stage_def still_def server_flags_def)
  have ok: "bal_ok (bal t)" "calm (kw t)" if "at_stage (bal s) v f t" for v f and t :: "('w, 'a) fxs_scheme"
    using that assms(1) by (auto simp: at_stage_def still_def)
  show ?thesis
    unfolding xfs_teardown_def
    apply (rule wp_at_stage [OF at hostbin_bal stays_still_env(9) keeps_server_flags(1)])
    apply (erule wp_at_stage, rule sc, intro stay_intros stays_still_env, intro frame_intros flg.keeps_env)
    apply (erule wp_at_stage, rule rm, rule rm, rule rm)
    apply (frule ok, erule wp_at_stage, erule client_stage_bal, intro stay_intros stays_still_env, simp,
        rule keeps_server_flags)
    apply (erule wp_stop_stage)
    apply (frule ok, frule ok(2), erule wp_at_stage, erule server_stage_bal, assumption,
        intro stay_intros stays_still_env, simp, rule keeps_server_flags)
    apply (erule wp_export_stage, rule assms)
    apply (erule wp_at_stage, rule rm, rule rm, rule rm)
    apply (erule wp_at_stage, rule rm, rule rm, rule rm)
    apply (erule wp_at_stage, rule rm, rule rm, rule rm)
    apply (erule wp_at_stage, rule op, rule op, rule keeps_server_flags)
    apply (erule wp_at_stage, rule root_stage_bal, intro still_intros, simp, rule keeps_server_flags)
    apply (auto simp: at_stage_def still_def)
    done
qed

text \<open>
  What a bring-up, finished or not, leaves of the server: the tables hold the export only
  once the tmpfs is mounted, and knfsd runs where the flag says so.
\<close>

definition server_ok :: "('w, 'z) fxs_scheme \<Rightarrow> bool" where
  "server_ok s = (calm (kw s) \<and> (holds (kw s) \<longrightarrow> tmpfs_mounted s) \<and> (nfsd_up s \<longrightarrow> runs (kw s)))"

lemma wp_on_ok_stays:
  assumes "stays P m" "returns m" "P s" "\<And>e t. P t \<Longrightarrow> Q e t" "\<And>t. P t \<Longrightarrow> wp k Q t"
  shows "wp (on_ok m k) Q s"
proof -
  obtain e t where m: "m s = Ok e t" using assms(2) unfolding returns_def by blast
  have "P t" using stays_Ok [OF assms(1) m assms(3)] .
  with assms(4,5) show ?thesis by (auto simp: on_ok_def wp_def bnd_def m ret_def)
qed

lemma stays_calm:
  assumes "\<And>w. calm w \<Longrightarrow> calm (snd (op w))"
  shows "stays (\<lambda>s. calm (kw s) \<and> server_flags s = f) (kcall op)"
  using assms by (auto simp: stays_def kcall_def server_flags_def split: prod.splits) (metis snd_conv)

lemma stays_calm_do:
  "(\<And>w. calm w \<Longrightarrow> calm (vo w)) \<Longrightarrow> stays (\<lambda>s. calm (kw s) \<and> server_flags s = f) (kdo vo)"
  by (simp add: stays_def kdo_def server_flags_def)

lemma peaceful_calm: "peaceful calm holds runs op \<Longrightarrow> calm w \<Longrightarrow> calm (snd (op w))"
  by (simp add: peaceful_def)

lemma stays_tables:
  "stays (\<lambda>s. calm (kw s) \<and> server_flags s = f) (xfs_configure_exports K)"
  by (auto simp: xfs_configure_exports_def xfs_cache_line_def Let_def
      intro!: stay_intros stays_calm stays_calm_do server_calm peaceful_calm [OF peace(6)])

lemma start_nfsd_outcome:
  assumes "calm (kw s)"
  shows "wp (xfs_start_nfsd K) (\<lambda>e t. calm (kw t) \<and> server_flags t = server_flags s \<and> (e = 0 \<longrightarrow> runs (kw t))) s"
proof -
  let ?P = "\<lambda>t. calm (kw t) \<and> server_flags t = server_flags s"
  have step: "wp m (\<lambda>_. ?P) t" if "stays ?P m" "returns m" "?P t" for m :: "(('w, 'a) fxs_scheme, 'b) prog" and t
    using that stays_Ok [OF that(1) _ that(3)] by (auto simp: wp_Ok returns_def) metis
  note c = stays_calm stays_calm_do stay_intros server_calm
  have svc: "wp (gated e (kcall (nfsd_svc K 1))) (\<lambda>e t. ?P t \<and> (0 \<le> e \<longrightarrow> runs (kw t))) t" if "?P t" for e t
    using that server_calm(1) [of "kw t" 1]
    by (auto simp: gated_def wp_kcall server_flags_def split: prod.splits dest: started [unfolded One_nat_def])
  show ?thesis
    unfolding xfs_start_nfsd_def wp_bnd
    apply (rule wp_mono [OF step], intro c, assumption, intro frame_intros, use assms in simp)
    apply (rule wp_mono [OF step], intro c, assumption, intro frame_intros, assumption)
    apply (rule wp_mono [OF step], intro c, assumption, intro frame_intros, assumption)
    apply (rule wp_mono [OF step], intro c, assumption, intro frame_intros, assumption)
    apply (rule wp_mono [OF step], intro c, assumption, intro frame_intros, assumption)
    apply (erule wp_mono [OF svc])
    apply (auto simp: wp_kdo server_calm server_flags_def)
    done
qed

lemma stays_quiet:
  "stays (still v) m \<Longrightarrow> keeps server_flags m \<Longrightarrow> stays (\<lambda>t. still v t \<and> server_flags t = f) m"
  by (simp add: stays_def keeps_def)

lemma keeps_flags_bringup:
  "keeps server_flags (xfs_loopback_up K)" "keeps server_flags (xfs_save_root K)"
  by (auto simp: xfs_loopback_up_def xfs_save_root_def server_flags_def intro!: frame_intros flg.keeps_basic)

lemma returns_save_root: "returns (xfs_save_root K)"
  by (auto simp: xfs_save_root_def intro!: frame_intros)

lemma bringup_server:
  assumes "torn_down s" "calm (kw s)" "\<not> holds (kw s)"
  shows "wp (xfs_bringup K) (\<lambda>_. server_ok) s"
proof -
  let ?P = "\<lambda>v f t. still v t \<and> server_flags t = f"
  note q = stays_quiet [OF stays_still_env(1) flg.keeps_env(1)] stays_quiet [OF stays_still_env(5) flg.keeps_env(10)]
    stays_quiet [OF stays_still_env(7) keeps_flags_bringup(1)]
  have opt: "stays (?P v f) (bnd (get xfs_export_mount_opts) (\<lambda>opt. xfs_mount_at K d p ty (Some opt)))" for v f d p ty
    by (intro stay_intros q(1))
  have s: "?P (False, runs (kw s)) (False, False) s"
    using assms by (simp add: still_def server_flags_def torn_down_def)
  have fin: "server_ok t" if "?P (h, r) (tm, nu) t" "h \<longrightarrow> tm" "nu \<longrightarrow> r" for h r tm nu and t :: "('w, 'a) fxs_scheme"
    using that by (auto simp: server_ok_def still_def server_flags_def)
  have last: "wp (on_ok (xfs_mount_at K d p ty opt) (then_set (\<lambda>s. s\<lparr>client_mounted := True\<rparr>) (xfs_save_root K)))
      (\<lambda>_. server_ok) t" if "?P (h, True) (True, True) t" for h d p ty opt and t :: "('w, 'a) fxs_scheme"
  proof (rule wp_on_ok_stays [OF q(1) returns_env(4) that], use fin in blast, goal_cases)
    case (1 u)
    then have u: "?P (h, True) (True, True) (u\<lparr>client_mounted := True\<rparr>)" by (simp add: server_flags_def)
    obtain a u' where r: "xfs_save_root K (u\<lparr>client_mounted := True\<rparr>) = Ok a u'"
      using returns_save_root [unfolded returns_def, THEN spec, of "u\<lparr>client_mounted := True\<rparr>"] by blast
    have "?P (h, True) (True, True) u'"
      using stays_Ok [OF stays_quiet [OF stays_still_env(8) keeps_flags_bringup(2)] r] u by blast
    then have "server_ok u'" by (rule fin) simp_all
    then show ?case unfolding wp_then_set by (simp add: wp_def r)
  qed
  have start: "wp (on_ok (xfs_start_nfsd K) (then_set (\<lambda>s. s\<lparr>nfsd_up := True\<rparr>)
      (on_ok (xfs_mount_at K d p ty opt) (then_set (\<lambda>s. s\<lparr>client_mounted := True\<rparr>) (xfs_save_root K)))))
      (\<lambda>_. server_ok) t" if "calm (kw t) \<and> server_flags t = (True, False)" for d p ty opt and t :: "('w, 'a) fxs_scheme"
    unfolding on_ok_def [of "xfs_start_nfsd K"] wp_bnd
  proof (rule wp_mono [OF start_nfsd_outcome], use that in simp, goal_cases)
    case (1 e u)
    then show ?case using that last [of "holds (kw u)" "u\<lparr>nfsd_up := True\<rparr>" d p ty opt]
      by (auto simp: server_flags_def still_def server_ok_def)
  qed
  have ex: "server_ok t" if "calm (kw t) \<and> server_flags t = (True, False)" for t :: "('w, 'a) fxs_scheme"
    using that by (simp add: server_ok_def server_flags_def)
  note mk = wp_on_ok_stays [OF q(2) returns_env(12) _ fin]
  show ?thesis
    unfolding xfs_bringup_def
    apply (rule wp_on_ok_stays [OF q(3) returns_env(16) s], erule fin, simp, simp)
    apply (rule mk, assumption, assumption, simp, simp)
    apply (rule mk, assumption, assumption, simp, simp)
    apply (rule mk, assumption, assumption, simp, simp)
    apply (rule mk, assumption, assumption, simp, simp)
    apply (rule wp_on_ok_stays [OF opt], intro frame_intros, assumption, erule fin, simp, simp)
    apply (simp only: wp_then_set)
    apply (rule wp_on_ok_stays [OF stays_quiet [OF stays_still_env(1) flg.keeps_env(1),
        where v = "(False, runs (kw s))" and f = "(True, False)"] returns_env(4)], simp add: server_flags_def, erule fin, simp, simp)
    apply (simp only: wp_then_set)
    apply (rule wp_on_ok_stays [OF stays_tables [where f = "(True, False)"] returns_env(9)],
        simp add: server_flags_def still_def, erule ex)
    apply (erule start)
    done
qed

text \<open>Get and put, from the states of the life cycle.\<close>

definition mounts_ok where
  \<comment> \<open>every flag that is up stands for a mount that is there\<close>
  "mounts_ok s = bal_ok (bal s)"

lemma mounts_ok_down: "torn_down s \<Longrightarrow> mounts_ok s"
  by (simp add: mounts_ok_def bal_ok_def bal_def torn_down_def)

lemma get_mounts:
  assumes "torn_down s" "xfs_fixture_refs s = 0" "calm (kw s)" "\<not> holds (kw s)"
  shows "wp (xfstests_nfs_get K) (\<lambda>e t. calm (kw t) \<and>
     (if e = 0 then bal t = bal s \<and> (nfsd_up t \<longrightarrow> runs (kw t)) else bal t = plus_export (holds (kw t)) (bal s))) s"
  unfolding xfstests_nfs_get_def wp_bnd wp_get wp_if if_P [OF assms(2)]
proof (rule wp_mono [OF wp_conj [OF bringup_bal [OF assms(1)] bringup_server [OF assms(1,3,4)]]], goal_cases)
  case (1 e t)
  then have t: "bal t = bal s" "server_ok t" by auto
  have ok: "bal_ok (bal t)" using mounts_ok_down [OF assms(1)] t(1) by (simp add: mounts_ok_def)
  show ?case
  proof (cases "e = 0")
    case True
    then show ?thesis using t by (auto simp: server_ok_def bal_def)
  next
    case False
    have "wp (xfs_teardown K) (\<lambda>_ u. calm (kw u) \<and> bal u = plus_export (holds (kw u)) (bal s)) t"
      by (rule wp_mono [OF teardown_mounts [OF ok]]) (use t in \<open>auto simp: server_ok_def plus_export_def\<close>)
    then show ?thesis using False by simp
  qed
qed

lemma put_mounts:
  assumes "mounts_ok s" "calm (kw s)" "nfsd_up s" "runs (kw s)" "xfs_fixture_refs s = 1"
  shows "wp (xfstests_nfs_put K) (\<lambda>_ t. calm (kw t) \<and> \<not> holds (kw t) \<and> bal t = bal s) s"
proof -
  have "wp (xfs_teardown K) (\<lambda>_ t. calm (kw t) \<and> \<not> holds (kw t) \<and> bal t = bal s) (s\<lparr>xfs_fixture_refs := 0\<rparr>)"
    by (rule wp_mono [OF teardown_mounts])
      (use assms in \<open>auto simp: mounts_ok_def bal_def plus_export_def split: prod.splits\<close>)
  then show ?thesis using assms(5) by (simp add: xfstests_nfs_put_def)
qed

end

section \<open>The in-memory kernel meets the contracts\<close>

lemmas mem_resource_defs = memk_def neutral_def mem_kern_path_def mem_path_put_def mem_umount_def mem_mount_def
  mem_view_def mem_mkdirat_def mem_rmdir_def mem_unlinkat_def mem_new_def mem_getattr_def mem_get_link_def
  mem_truncate_def mem_set_data_def on_ref_def mem_setxattr_def mem_getxattr_def mem_listxattr_def
  mem_removexattr_def mem_cache_parse_def mem_nfsd_svc_def EBUSY_def Let_def

interpretation mcred: cred_kernel memk
  by unfold_locales (auto simp: mem_resource_defs split: option.splits if_splits)

interpretation mmnt: mount_kernel memk m_mounts m_refpath
  by unfold_locales (auto simp: mem_resource_defs split: option.splits if_splits)

interpretation msrv: server_mounts memk m_mounts m_refpath "\<lambda>_. True" m_exported m_serving
  by unfold_locales (auto simp: mem_resource_defs peaceful_def split: option.splits if_splits)

end
