(* ===== verification/FixtureProps.thy ===== *)
theory FixtureProps
  imports Deploy
begin

text \<open>
  What the fixture promises, stated over its C functions: the reference count and the
  deployment, what a bring-up that fails leaves behind, path references, credentials,
  mounts, the write loop under short writes, the wait status of a program and the lines
  of its log.
\<close>

section \<open>Short writes\<close>

text \<open>
  A file that accepts a prefix of what it is given: a positive count says how much was
  stored at the position, which moves on by as much; any other count stores nothing.
\<close>

locale short_writes =
  fixes K :: "'w kernel" and content :: "'w \<Rightarrow> nat \<Rightarrow> byte list"
  assumes short_write: "kernel_write K h d (int p) w = ((n, p'), w') \<Longrightarrow>
      n \<le> int (length d) \<and>
      (if n > 0 then content w' h = write_at p (take (nat n) d) (content w h) \<and> p' = int (p + nat n)
       else content w' h = content w h)"
begin

text \<open>The loop stores everything, or a proper prefix and says which error stopped it.\<close>

lemma write_loop_outcome:
  "\<exists>e s' k. write_loop K h d (int p) s = Ok e s' \<and> e \<le> 0 \<and> k \<le> length d \<and> (e = 0 \<longleftrightarrow> k = length d) \<and>
     content (kw s') h = write_at p (take k d) (content (kw s) h)"
proof (induction "length d" arbitrary: d p s rule: less_induct)
  case less
  show ?case
  proof (cases "d = []")
    case True
    then show ?thesis by (simp add: write_loop.simps [of K h "[]" _ s])
  next
    case False
    obtain n p' w where w: "kernel_write K h d (int p) (kw s) = ((n, p'), w)" by (metis prod.exhaust)
    note sw = short_write [OF w]
    show ?thesis
    proof (cases "n \<le> 0")
      case True
      let ?e = "if n \<noteq> 0 then n else - EIO"
      have "write_loop K h d (int p) s = Ok ?e (s\<lparr>kw := w\<rparr>)"
        using w False True by (simp add: write_loop.simps [of K h d _ s])
      moreover have "?e < 0" using True by (simp add: EIO_def)
      ultimately show ?thesis using sw True False by (intro exI [of _ ?e] exI [of _ "s\<lparr>kw := w\<rparr>"] exI [of _ 0]) auto
    next
      case n: False
      let ?d = "drop (nat n) d" and ?s = "s\<lparr>kw := w\<rparr>"
      have p': "p' = int (p + nat n)" using sw n by simp
      have "length ?d < length d" using n False by simp
      from less.hyps [OF this, of "p + nat n" ?s]
      obtain e s' k where ih: "write_loop K h ?d (int (p + nat n)) ?s = Ok e s'" "e \<le> 0" "k \<le> length ?d"
        "e = 0 \<longleftrightarrow> k = length ?d"
        "content (kw s') h = write_at (p + nat n) (take k ?d) (content (kw ?s) h)" by blast
      have step: "write_loop K h d (int p) s = Ok e s'"
        using w False n ih(1) p' by (simp add: write_loop.simps [of K h d _ s])
      have "nat n \<le> length d" using sw n by auto
      then have len: "length (take (nat n) d) = nat n" by simp
      have "content (kw s') h = write_at p (take (nat n) d @ take k ?d) (content (kw s) h)"
        using write_at_then [of p "take (nat n) d" "take k ?d" "content (kw s) h"] ih(5) sw n len by simp
      also have "take (nat n) d @ take k ?d = take (nat n + k) d" by (simp add: take_add)
      finally show ?thesis
        using step ih sw n by (intro exI [of _ e] exI [of _ s'] exI [of _ "nat n + k"]) auto
    qed
  qed
qed

end

text \<open>The in-memory file, and one that takes at most two bytes at a time.\<close>

definition mem_content :: "memw \<Rightarrow> nat \<Rightarrow> byte list" where
  "mem_content w h = on_fd h w [] (\<lambda>i _. data_of (mv w) i)"

definition drip_write :: "nat \<Rightarrow> byte list \<Rightarrow> int \<Rightarrow> memw \<Rightarrow> (int \<times> int) \<times> memw" where
  "drip_write h d pos w = on_fd h w ((- EINVAL, pos), w) (\<lambda>i _.
     ((int (length (take 2 d)), pos + int (length (take 2 d))), mem_set_data i (write_at (nat pos) (take 2 d)) w))"

definition dripk :: "memw kernel" where
  "dripk = memk\<lparr>kernel_write := drip_write\<rparr>"

interpretation drip: short_writes dripk mem_content
  by unfold_locales
    (auto simp: dripk_def drip_write_def mem_content_def on_fd_def mem_set_data_def mem_view_def EINVAL_def min_def
      split: option.splits if_splits)

section \<open>The log of a program\<close>

lemma log_lines_no_nl: "line \<in> set (log_lines cs) \<Longrightarrow> nl \<notin> set line"
proof (induction cs rule: log_lines.induct)
  case (1 cs)
  then show ?case
    by (auto simp: log_lines.simps [of cs] Let_def split: if_splits dest: set_takeWhileD)
qed

lemma log_lines_join:
  "concat (map (\<lambda>l. l @ [nl]) (log_lines cs)) = (if cs = [] \<or> last cs = nl then cs else cs @ [nl])"
proof (induction cs rule: log_lines.induct)
  case (1 cs)
  let ?l = "takeWhile (\<lambda>c. c \<noteq> nl) cs" and ?r = "dropWhile (\<lambda>c. c \<noteq> nl) cs"
  have cs: "cs = ?l @ ?r" by simp
  show ?case
  proof (cases "?r = []")
    case True
    then have "nl \<notin> set cs" by (simp add: dropWhile_eq_Nil_conv) blast
    then have "?l = cs" and "cs \<noteq> [] \<Longrightarrow> last cs \<noteq> nl"
      by (auto simp: takeWhile_eq_all_conv) (metis last_in_set)
    with True show ?thesis by (auto simp: log_lines.simps [of cs])
  next
    case False
    then obtain r where r: "?r = nl # r" using hd_dropWhile [OF False] by (cases ?r) auto
    have ne: "cs \<noteq> []" using False by auto
    have c: "cs = ?l @ nl # r" using cs r by simp
    have "log_lines cs = ?l # log_lines r" using ne r by (simp add: log_lines.simps [of cs])
    moreover have "concat (map (\<lambda>l. l @ [nl]) (log_lines r)) = (if r = [] \<or> last r = nl then r else r @ [nl])"
      using 1 [OF ne refl refl False] r by simp
    moreover have "last cs = (if r = [] then nl else last r)" by (subst c) simp
    ultimately show ?thesis using ne by (subst (2 3) c) simp
  qed
qed

section \<open>Wait statuses\<close>

lemma and_masks:
  "and (int a) 0x7f = int (a mod 128)" "and (drop_bit 8 (int a)) 0xff = int (a div 256 mod 256)"
  using take_bit_eq_mask [of 7 "int a"] take_bit_eq_mask [of 8 "drop_bit 8 (int a)"]
  by (simp_all add: mask_eq_exp_minus_1 take_bit_eq_mod drop_bit_eq_div of_nat_mod of_nat_div)

lemma wait_status_fields:
  assumes "core \<le> 1" "g < 128" and "c < 256"
  shows "and (int (256 * c + 128 * core + g)) 0x7f = int g"
    and "and (drop_bit 8 (int (256 * c + 128 * core + g))) 0xff = int c"
proof -
  let ?st = "256 * c + 128 * core + g"
  have "?st = g + (2 * c + core) * 128" by simp
  also have "\<dots> mod 128 = g" using assms(2) by (subst mod_mult_self1) simp
  finally have "?st mod 128 = g" .
  then show "and (int ?st) 0x7f = int g" by (simp only: and_masks)
  have "?st = (128 * core + g) + c * 256" by simp
  also have "\<dots> div 256 = c + (128 * core + g) div 256" by (rule div_mult_self1) simp
  also have "(128 * core + g) div 256 = 0" using assms by (simp add: div_eq_0_iff)
  finally have "?st div 256 mod 256 = c" using assms(3) by simp
  then show "and (drop_bit 8 (int ?st)) 0xff = int c" by (simp only: and_masks)
qed

section \<open>Properties\<close>

text \<open>A fixture as the module is loaded: nothing up, nobody holding it.\<close>

definition boot :: "(memw, unit) fxs_scheme" where
  "boot = (fx0 ())\<lparr>kw := mem0\<lparr>mv := (mv mem0)\<lparr>names := [[] \<mapsto> 0, ''/mnt'' \<mapsto> 0]\<rparr>\<rparr>, xfs_fixture_refs := 0, tmpfs_mounted := False, nfsdfs_mounted := False, nfsd_up := False,
     client_mounted := False, xfs_bringup_root := None\<rparr>"

lemma boot_ok: "fixture_boot boot" "fixture_inv boot"
  by (simp_all add: boot_def fx0_def fixture_boot_def fixture_inv_def torn_down_def XFS_EXPORT_OPTS_DEFAULT_def)

text \<open>A kernel on which every step of a bring-up succeeds.\<close>

definition easyk :: "memw kernel" where
  "easyk = memk\<lparr>kern_path := \<lambda>p fl w. (Inr 0, w), path_put := \<lambda>h w. w, do_mkdirat := \<lambda>p m w. (0, w),
     do_rmdir := \<lambda>p w. (0, w), path_mount := \<lambda>d h ty mf opt w. (0, w), path_umount := \<lambda>h uf w. (0, w),
     cache_parse := \<lambda>c l w. (0, w), nfsd_svc := \<lambda>n w. (0, w)\<rparr>"

lemma boot_get: "wp (xfstests_nfs_get easyk) (\<lambda>e s. e = 0 \<and> xfs_fixture_refs s = 1) boot"
  by (simp add: xfstests_nfs_get_def xfs_bringup_def env_defs xfs_loopback_up_def xfs_save_root_def on_ok_def gated_def
      wp_kcall wp_kdo easyk_def memk_def boot_def fx0_def)

text \<open>
  C1: the reference count and the deployment agree in every state the life cycle reaches,
  whatever the kernel returns to any call: a positive count means that the tmpfs, the
  nfsd file system, knfsd and the client mount are all up and the root of the bring-up is
  saved; a count of 0 means that none of them is.
\<close>

theorem deployment_matches_count:
  assumes "fixture_boot s" and "fx_reach K s s'"
  shows "0 \<le> xfs_fixture_refs s' \<and>
    (if xfs_fixture_refs s' > 0
     then tmpfs_mounted s' \<and> nfsdfs_mounted s' \<and> nfsd_up s' \<and> client_mounted s' \<and> xfs_bringup_root s' \<noteq> None
     else \<not> tmpfs_mounted s' \<and> \<not> nfsdfs_mounted s' \<and> \<not> nfsd_up s' \<and> \<not> client_mounted s' \<and>
       xfs_bringup_root s' = None)"
  using fixture_inv_reach [OF assms(2) fixture_boot_inv [OF assms(1)]]
  by (auto simp: fixture_inv_def deployed_def torn_down_def split: if_splits)

theorem deployment_matches_count_witness:
  "\<exists>s. fx_reach easyk boot s \<and> xfs_fixture_refs s = 1 \<and> nfsd_up s \<and> client_mounted s"
proof -
  obtain s where g: "xfstests_nfs_get easyk boot = Ok 0 s" "xfs_fixture_refs s = 1"
    using boot_get by (auto simp: wp_Ok)
  then have "fx_reach easyk boot s" by (intro r_into_rtranclp fx_step.get)
  with deployment_matches_count [OF boot_ok(1) this] g(2) show ?thesis by auto
qed

text \<open>
  C2: a get is all or nothing.  From every state of the life cycle and on every kernel it
  returns; where it returns 0 the caller holds one more reference and everything is up;
  where it returns an error nobody held the fixture, nothing stays up and the export
  options are the default again.
\<close>

theorem get_all_or_nothing:
  assumes "fixture_inv s"
  shows "\<exists>e s'. xfstests_nfs_get K s = Ok e s' \<and> fixture_inv s' \<and>
    (if e = 0 then xfs_fixture_refs s' = xfs_fixture_refs s + 1 \<and> deployed s'
     else xfs_fixture_refs s = 0 \<and> xfs_fixture_refs s' = 0 \<and> torn_down s' \<and>
       xfs_export_mount_opts s' = XFS_EXPORT_OPTS_DEFAULT)"
proof -
  obtain e s' where g: "xfstests_nfs_get K s = Ok e s'" "fixture_inv s'"
    "if e = 0 then xfs_fixture_refs s' = xfs_fixture_refs s + 1 else
        xfs_fixture_refs s = 0 \<and> xfs_fixture_refs s' = 0 \<and> xfs_export_mount_opts s' = XFS_EXPORT_OPTS_DEFAULT"
    using get_outcome [OF assms, of K] unfolding wp_Ok by blast
  have "0 \<le> xfs_fixture_refs s" using assms by (simp add: fixture_inv_def)
  then have "deployed s'" if "e = 0" using g(2,3) that by (simp add: fixture_inv_def split: if_splits)
  moreover have "torn_down s'" if "e \<noteq> 0" using g(2,3) that by (simp add: fixture_inv_def)
  ultimately show ?thesis using g by auto
qed

theorem get_all_or_nothing_witness:
  "\<exists>e s'. xfstests_nfs_get (memk\<lparr>kmalloc := \<lambda>n w. (False, w)\<rparr>) boot = Ok e s' \<and> fixture_inv s' \<and>
    (if e = 0 then xfs_fixture_refs s' = xfs_fixture_refs boot + 1 \<and> deployed s'
     else xfs_fixture_refs boot = 0 \<and> xfs_fixture_refs s' = 0 \<and> torn_down s' \<and>
       xfs_export_mount_opts s' = XFS_EXPORT_OPTS_DEFAULT)"
  by (rule get_all_or_nothing [OF boot_ok(2)])

text \<open>
  C11: no function of the fixture leaks a reference.  On a kernel whose lookups and opens
  hand out one reference where they succeed and whose puts, closes and unmounts consume one,
  all 52 functions of \<open>nfs_fixture.c\<close> in the model, for all arguments and on every path
  through them, errors included, leave the number of path references and open files in the
  hands of the code as they found it; the reference the saved root holds is released by the
  teardown that clears it.
\<close>

theorem no_reference_leaks:
  assumes "ref_counts K held"
  shows "keeps (loose_refs held) (xfs_mkdir K p) \<and> keeps (loose_refs held) (xfs_rmdir K p) \<and>
    keeps (loose_refs held) (xfs_unlink K p) \<and> keeps (loose_refs held) (xfs_rename K p q) \<and>
    keeps (loose_refs held) (xfs_link K p q) \<and> keeps (loose_refs held) (xfs_symlink K p q) \<and>
    keeps (loose_refs held) (xfs_mknod K p m x y) \<and>
    keeps (loose_refs held) (xfs_exists K p) \<and> keeps (loose_refs held) (xfs_kstat K p) \<and>
    keeps (loose_refs held) (xfs_truncate K p n) \<and> keeps (loose_refs held) (xfs_readlink K p m) \<and>
    keeps (loose_refs held) (xfs_statfs K p) \<and> keeps (loose_refs held) (xfs_chmod K p m) \<and>
    keeps (loose_refs held) (xfs_chown K p u g) \<and> keeps (loose_refs held) (xfs_utimes K p n n') \<and>
    keeps (loose_refs held) (xfs_setxattr K p nm val m) \<and> keeps (loose_refs held) (xfs_getxattr K p nm m) \<and>
    keeps (loose_refs held) (xfs_listxattr K p m) \<and> keeps (loose_refs held) (xfs_removexattr K p nm) \<and>
    keeps (loose_refs held) (xfs_access K p m) \<and>
    keeps (loose_refs held) (xfs_write_new_file K p d) \<and> keeps (loose_refs held) (xfs_read_range K p m n) \<and>
    keeps (loose_refs held) (xfs_fsync_path K p) \<and> keeps (loose_refs held) (xfs_ftruncate K h n) \<and>
    keeps (loose_refs held) (xfs_direct_write K h d m n) \<and> keeps (loose_refs held) (xfs_direct_read K h d m n) \<and>
    keeps (loose_refs held) (xfs_user_write K h d m n) \<and> keeps (loose_refs held) (xfs_user_writev K h ds m n) \<and>
    keeps (loose_refs held) (xfs_posix_lock K h lt n n' m b) \<and> keeps (loose_refs held) (xfs_settle_fput K) \<and>
    keeps (loose_refs held) (xfs_switch_creds K u g) \<and> keeps (loose_refs held) (xfs_restore_creds K) \<and>
    keeps (loose_refs held) (xfs_seteuid K u) \<and>
    keeps (loose_refs held) (xfs_mount_at K dv p ty opt) \<and> keeps (loose_refs held) (xfs_umount K p) \<and>
    keeps (loose_refs held) (xfs_umount_settled K p) \<and> keeps (loose_refs held) (xfs_remount_client K b) \<and>
    keeps (loose_refs held) (xfs_rmdir_settled K p) \<and> keeps (loose_refs held) (xfs_mkdir_tolerant K p) \<and>
    keeps (loose_refs held) (xfs_scratch_mount K) \<and> keeps (loose_refs held) (xfs_scratch_umount K) \<and>
    keeps (loose_refs held) (xfs_wait_for_free_bytes K w) \<and> keeps (loose_refs held) (xfs_hostbin_mount K) \<and>
    keeps (loose_refs held) (xfs_hostbin_umount K) \<and>
    keeps (loose_refs held) (xfs_prog_init K nm) \<and> keeps (loose_refs held) (xfs_prog_dump_log K p n nm) \<and>
    keeps (loose_refs held) (xfs_run_prog K p args) \<and>
    keeps (loose_refs held) (xfs_bringup K) \<and> keeps (loose_refs held) (xfs_teardown K) \<and>
    keeps (loose_refs held) (xfstests_nfs_get K) \<and> keeps (loose_refs held) (xfstests_nfs_put K) \<and>
    keeps (loose_refs held) (xfstests_nfs_case_init K)"
  by (intro conjI ref_counts.keeps_name_calls [OF assms] ref_counts.keeps_exists [OF assms]
      ref_counts.keeps_path_helpers [OF assms] ref_counts.keeps_access [OF assms]
      ref_counts.keeps_file_helpers [OF assms] ref_counts.keeps_cred_helpers [OF assms]
      ref_counts.keeps_mounts [OF assms] ref_counts.keeps_settled [OF assms] ref_counts.keeps_programs [OF assms]
      ref_counts.keeps_bringup_refs [OF assms] ref_counts.keeps_teardown [OF assms] ref_counts.keeps_get_put [OF assms])

text \<open>
  The in-memory kernel with its open files counted too.  In the state of a loaded module the
  lookup of \<open>/mnt\<close> succeeds and takes a reference, and the stat, the query of an attribute
  and the fsync that follow end with none in hand.
\<close>

definition countk :: "memw kernel" where
  "countk = memk\<lparr>
     filp_open := \<lambda>p fl m w. case mem_open p fl m w of (r, w') \<Rightarrow>
       (r, w'\<lparr>m_held := (if isl r then m_held w else m_held w + 1)\<rparr>),
     filp_close := \<lambda>h w. (mem_close h w)\<lparr>m_held := m_held w - 1\<rparr>,
     fput := \<lambda>h w. (mem_close h w)\<lparr>m_held := m_held w - 1\<rparr>\<rparr>"

interpretation counts: ref_counts countk m_held
  by unfold_locales
    (auto simp: countk_def mem_resource_defs mem_linkat_def mem_symlinkat_def mem_mknodat_def mem_write_def mem_read_def
      mem_ftruncate_def on_fd_def mem_on_pages_def mem_resize_def mem_renameat2_def mem_rename_dir_def
      mem_move_tree_def split: option.splits if_splits prod.splits)

theorem no_reference_leaks_witness:
  "(case kern_path countk ''/mnt'' {} (kw boot) of (r, w) \<Rightarrow> \<not> isl r \<and> m_held w = 1) \<and>
   (case filp_open countk ''/mnt'' {O_RDONLY} 0 (kw boot) of (r, w) \<Rightarrow> \<not> isl r \<and> m_held w = 1) \<and>
   m_held (kw (outcome_state (xfs_kstat countk ''/mnt'' boot))) = 0 \<and>
   m_held (kw (outcome_state (xfs_getxattr countk ''/mnt'' ''user.a'' 8 boot))) = 0 \<and>
   m_held (kw (outcome_state (xfs_fsync_path countk ''/mnt'' boot))) = 0"
proof -
  note l8 = no_reference_leaks [OF counts.ref_counts_axioms, THEN conjunct2, THEN conjunct2, THEN conjunct2, THEN conjunct2, THEN conjunct2, THEN conjunct2, THEN conjunct2, THEN conjunct2]
  note l16 = l8 [THEN conjunct2, THEN conjunct2, THEN conjunct2, THEN conjunct2, THEN conjunct2, THEN conjunct2, THEN conjunct2, THEN conjunct2]
  note l22 = l16 [THEN conjunct2, THEN conjunct2, THEN conjunct2, THEN conjunct2, THEN conjunct2, THEN conjunct2]
  have root: "keeps xfs_bringup_root m" if "keeps deployment m" for m :: "((memw, unit) fxs_scheme, 'a) prog"
    using that by (simp add: keeps_def deployment_def)
  have end_at: "m_held (kw (outcome_state (m boot))) = 0" if "keeps (loose_refs m_held) m" "keeps deployment m"
    for m :: "((memw, unit) fxs_scheme, 'a) prog"
    using that(1) root [OF that(2)] by (simp add: keeps_def loose_refs_def boot_def fx0_def mem0_def)
  have "keeps (loose_refs m_held) (xfs_kstat countk ''/mnt'' :: ((memw, unit) fxs_scheme, _) prog)"
    "keeps (loose_refs m_held) (xfs_getxattr countk ''/mnt'' ''user.a'' 8 :: ((memw, unit) fxs_scheme, _) prog)"
    "keeps (loose_refs m_held) (xfs_fsync_path countk ''/mnt'' :: ((memw, unit) fxs_scheme, _) prog)"
    by (rule l8 [THEN conjunct1] l16 [THEN conjunct1] l22 [THEN conjunct1])+
  then have "m_held (kw (outcome_state (xfs_kstat countk ''/mnt'' boot))) = 0"
    "m_held (kw (outcome_state (xfs_getxattr countk ''/mnt'' ''user.a'' 8 boot))) = 0"
    "m_held (kw (outcome_state (xfs_fsync_path countk ''/mnt'' boot))) = 0"
    by (auto intro: end_at dep.keeps_paths)
  then show ?thesis
    by (simp add: countk_def memk_def mem_kern_path_def mem_open_def mem_view_def boot_def fx0_def mem0_def)
qed

text \<open>
  C12: impersonation is bracketed.  Whatever sequence of switches, seteuids, restores,
  access checks and other work a test runs, a restore leaves the task with the credentials
  it started with and nothing saved.
\<close>

theorem restore_returns_to_base:
  assumes "cred_kernel K" and "xfs_saved_creds s = None" and "xfs_override s = None"
    and "(cred_step K)\<^sup>*\<^sup>* s t" and "xfs_restore_creds K t = Ok u t'"
  shows "current_cred K (kw t') = current_cred K (kw s) \<and> xfs_saved_creds t' = None"
proof -
  have "cred_inv K (current_cred K (kw s)) s" using assms(2,3) by (simp add: cred_inv_def)
  then have "cred_inv K (current_cred K (kw s)) t" by (rule cred_kernel.cred_inv_reach [OF assms(1,4)])
  from cred_kernel.restore_outcome [OF assms(1) this] assms(5) show ?thesis by (simp add: wp_def)
qed

theorem restore_returns_to_base_witness:
  "\<exists>t t'. xfs_switch_creds memk 99 100 (fx0 ()) = Ok 0 t \<and> c_uid (current_cred memk (kw t)) = 99 \<and>
     xfs_restore_creds memk t = Ok () t' \<and> current_cred memk (kw t') = root_cred"
proof -
  have i: "xfs_saved_creds (fx0 ()) = None" "xfs_override (fx0 ()) = None" by (simp_all add: fx0_def)
  have "wp (xfs_switch_creds memk 99 100) (\<lambda>e t. e = 0 \<and> c_uid (current_cred memk (kw t)) = 99) (fx0 ())"
    by (simp add: xfs_switch_creds_def wp_kcall memk_def fx0_def Let_def)
  then obtain t where t: "xfs_switch_creds memk 99 100 (fx0 ()) = Ok 0 t" "c_uid (current_cred memk (kw t)) = 99"
    by (auto simp: wp_Ok)
  obtain t' where t': "xfs_restore_creds memk t = Ok () t'"
    using mcred.restore_outcome [of "current_cred memk (kw (fx0 ()))" t]
      mcred.cred_inv_step [OF cred_step.switch [OF t(1)]] i by (auto simp: wp_Ok cred_inv_def)
  have "(cred_step memk)\<^sup>*\<^sup>* (fx0 ()) t"
    by (rule r_into_rtranclp) (rule cred_step.switch [OF t(1)])
  then have "current_cred memk (kw t') = current_cred memk (kw (fx0 ()))"
    using restore_returns_to_base [OF mcred.cred_kernel_axioms i _ t'] by simp
  with t t' show ?thesis by (auto simp: memk_def mem0_def)
qed

text \<open>
  C13: a switch of user on every branch.  While another switch is in force it is refused and
  nothing changes; when the credentials cannot be copied nothing changes either; else the
  task runs with the given ids in all eight fields and no capability, and the credentials
  it had are saved.
\<close>

theorem switch_drops_privilege:
  assumes "cred_kernel K"
  shows "if xfs_saved_creds s \<noteq> None then xfs_switch_creds K uid gid s = Ok (- EBUSY) s
    else \<exists>e s'. xfs_switch_creds K uid gid s = Ok e s' \<and> deployment s' = deployment s \<and>
      (if e = 0 then xfs_saved_creds s' = Some (current_cred K (kw s)) \<and>
         xfs_override s' = Some (current_cred K (kw s')) \<and>
         current_cred K (kw s') = (current_cred K (kw s))\<lparr>c_uid := uid, c_euid := uid, c_suid := uid, c_fsuid := uid,
           c_gid := gid, c_egid := gid, c_sgid := gid, c_fsgid := gid,
           cap_inheritable := {}, cap_permitted := {}, cap_effective := {}\<rparr>
       else e = - ENOMEM \<and> xfs_saved_creds s' = None \<and> xfs_override s' = xfs_override s \<and>
         current_cred K (kw s') = current_cred K (kw s))"
proof (cases "xfs_saved_creds s")
  case (Some c)
  then show ?thesis using cred_kernel.switch_busy [OF assms, of s] by simp
next
  case None
  obtain c w where c: "prepare_creds K (kw s) = (c, w)" by fastforce
  note p = cred_kernel.prepare [OF assms c]
  show ?thesis
  proof (cases c)
    case None
    then show ?thesis using p c \<open>xfs_saved_creds s = None\<close>
      by (auto simp: xfs_switch_creds_def bnd_def get_def kcall_def ret_def ENOMEM_def deployment_def)
  next
    case (Some c0)
    let ?c = "c0\<lparr>c_uid := uid, c_euid := uid, c_suid := uid, c_fsuid := uid,
        c_gid := gid, c_egid := gid, c_sgid := gid, c_fsgid := gid,
        cap_inheritable := {}, cap_permitted := {}, cap_effective := {}\<rparr>"
    obtain old w' where o: "override_creds K ?c w = (old, w')" by fastforce
    show ?thesis using p c o cred_kernel.override [OF assms o] Some \<open>xfs_saved_creds s = None\<close>
      by (simp add: xfs_switch_creds_def bnd_def get_def kcall_def ret_def modify_def Let_def deployment_def)
  qed
qed

theorem switch_drops_privilege_witness:
  "\<exists>e s'. xfs_switch_creds memk 99 100 (fx0 ()) = Ok e s' \<and>
     (e = 0 \<longrightarrow> xfs_saved_creds s' = Some root_cred \<and> cap_effective (current_cred memk (kw s')) = {})"
  using switch_drops_privilege [OF mcred.cred_kernel_axioms, of "fx0 ()" 99 100]
  by (auto simp: fx0_def memk_def mem0_def)


text \<open>
  A kernel whose lookups always succeed and whose mount table and server answer as the laws
  say, and one on which, besides, knfsd cannot start.
\<close>

definition servek :: "memw kernel" where
  "servek = memk\<lparr>kern_path := \<lambda>p fl w. (Inr (m_next w), w\<lparr>m_next := Suc (m_next w), m_refpath := (m_refpath w)(m_next w := p)\<rparr>),
     path_put := \<lambda>h w. w, do_mkdirat := \<lambda>p m w. (0, w), do_rmdir := \<lambda>p w. (0, w)\<rparr>"

definition deadk :: "memw kernel" where
  "deadk = servek\<lparr>nfsd_svc := \<lambda>n w. if 0 < n then (- ENOMEM, w) else mem_nfsd_svc n w\<rparr>"

interpretation serve: server_mounts servek m_mounts m_refpath "\<lambda>_. True" m_exported m_serving
  by unfold_locales (auto simp: servek_def mem_resource_defs peaceful_def split: option.splits if_splits)


lemmas eval_defs = xfs_bringup_def env_defs xfs_loopback_up_def xfs_save_root_def on_ok_def gated_def wp_kcall wp_kdo
  deadk_def servek_def memk_def mem_mount_def mem_cache_parse_def mem_nfsd_svc_def boot_def fx0_def mem0_def Let_def

lemma serve_get: "wp (xfstests_nfs_get servek) (\<lambda>e t. e = 0) boot"
  by (simp add: xfstests_nfs_get_def eval_defs)




text \<open>
  C36: the last put takes the deployment down, and only the last.  With nobody but the
  server on the server-side mounts, and knfsd still running where somebody holds the
  fixture, a put that drops the count to 0 takes exactly one mount off the export, the nfsd
  file system and the client mount point and leaves the export tables empty, so that the
  next get starts where the first one did; a put before that only counts, and one
  while nobody holds the fixture changes nothing.
\<close>

theorem last_put_unmounts:
  assumes "server_mounts K depth target calm holds runs" and "fixture_inv s" and "calm (kw s)"
    and "xfs_fixture_refs s > 0 \<Longrightarrow> runs (kw s)"
    and "\<And>p. \<lbrakk>xfs_fixture_refs s > 0; p \<in> {XFS_EXPORT, XFS_NFSDFS, XFS_MNT}\<rbrakk> \<Longrightarrow> 0 < depth (kw s) p"
  shows "\<exists>s'. xfstests_nfs_put K s = Ok () s' \<and> calm (kw s') \<and>
    (if xfs_fixture_refs s = 1
     then torn_down s' \<and> \<not> holds (kw s') \<and>
       (\<forall>p \<in> {XFS_EXPORT, XFS_NFSDFS, XFS_MNT}. depth (kw s') p = depth (kw s) p - 1)
     else s' = s\<lparr>xfs_fixture_refs := max 0 (xfs_fixture_refs s - 1)\<rparr>)"
proof (cases "xfs_fixture_refs s = 1")
  case True
  note q = server_mounts.bal_def [OF assms(1)] server_mounts.mounts_ok_def [OF assms(1)] server_mounts.bal_ok_def [OF assms(1)]
  have up: "deployed s" using assms(2) True by (simp add: fixture_inv_def)
  have pos: "0 < depth (kw s) XFS_EXPORT" "0 < depth (kw s) XFS_NFSDFS" "0 < depth (kw s) XFS_MNT"
    using assms(5) True by simp_all
  have ok: "server_mounts.mounts_ok depth s" using pos up by (auto simp: q deployed_def)
  obtain u s' where p: "xfstests_nfs_put K s = Ok u s'" "calm (kw s')" "\<not> holds (kw s')"
    "server_mounts.bal depth s' = server_mounts.bal depth s" "fixture_inv s'" "xfs_fixture_refs s' = 0"
    using wp_conj [OF server_mounts.put_mounts [OF assms(1) ok assms(3)] put_outcome [OF assms(2), of K]]
      up assms(4) True unfolding wp_Ok deployed_def by auto
  have "torn_down s'" using p(5,6) by (simp add: fixture_inv_def)
  then show ?thesis using p(1-4) True up pos by (cases u) (auto simp: q deployed_def torn_down_def)
next
  case False
  then show ?thesis using assms(2,3)
    by (auto simp: xfstests_nfs_put_def bnd_def get_def ret_def modify_def do_if_def fixture_inv_def max_def)
qed

theorem last_put_unmounts_witness:
  "\<exists>s s'. xfstests_nfs_get servek boot = Ok 0 s \<and> m_mounts (kw s) XFS_EXPORT = 1 \<and>
     xfstests_nfs_put servek s = Ok () s' \<and> torn_down s' \<and> m_mounts (kw s') XFS_EXPORT = 0 \<and> \<not> m_exported (kw s')"
proof -
  have b: "xfs_fixture_refs boot = 0" "m_mounts (kw boot) = (\<lambda>_. 0)" "\<not> m_exported (kw boot)" "torn_down boot"
    using boot_ok(1) by (simp_all add: boot_def fx0_def mem0_def fixture_boot_def)
  obtain s where s: "xfstests_nfs_get servek boot = Ok 0 s" "fixture_inv s" "xfs_fixture_refs s = 1"
    using wp_conj [OF serve_get get_outcome [OF boot_ok(2)]] b(1) by (auto simp: wp_Ok)
  have m: "m_serving (kw s)" "serve.bal s = serve.bal boot"
    using serve.get_mounts [OF b(4,1) _ b(3)] s(1,2,3) by (auto simp: wp_def fixture_inv_def deployed_def)
  have up: "deployed s" using s(2,3) by (simp add: fixture_inv_def)
  have d: "m_mounts (kw s) p = 1" if "p \<in> {XFS_EXPORT, XFS_NFSDFS, XFS_MNT}" for p
    using that m(2) up b(2,4) by (auto simp: serve.bal_def deployed_def torn_down_def)
  from last_put_unmounts [OF serve.server_mounts_axioms s(2)] m(1) d s(1,3) show ?thesis by auto
qed

text \<open>
  C14: an unmount that settles always gets there.  From every state with a mount on the
  path it returns 0 and takes exactly one mount away, even if the mount stays busy in all
  twenty tries; with nothing mounted there it reports that and changes no mount.
\<close>

theorem umount_settled_detaches:
  assumes "mount_kernel K depth target"
  shows "\<exists>e s'. xfs_umount_settled K p s = Ok e s' \<and>
    (if depth (kw s) p = 0 then (e = - EINVAL \<or> e = - ENOENT) \<and> depth (kw s') = depth (kw s)
     else e = 0 \<and> depth (kw s') = (depth (kw s))(p := depth (kw s) p - 1))"
  using mount_kernel.umount_settled_outcome [OF assms, of p s]
  by (simp only: insert_iff empty_iff simp_thms wp_Ok)

theorem umount_settled_detaches_witness:
  "\<exists>e s'. xfs_umount_settled memk ''/mnt'' ((fx0 ())\<lparr>kw := mem0\<lparr>m_mounts := (\<lambda>_. 2)\<rparr>\<rparr>) = Ok e s' \<and>
     e = 0 \<and> m_mounts (kw s') ''/mnt'' = 1"
  using umount_settled_detaches [OF mmnt.mount_kernel_axioms, of "''/mnt''" "(fx0 ())\<lparr>kw := mem0\<lparr>m_mounts := (\<lambda>_. 2)\<rparr>\<rparr>"]
  by auto

text \<open>
  C21: \<open>xfs_scratch_umount\<close> takes at most eight mounts away, and returns 0 either way.  With
  up to eight mounts stacked on the scratch mount point none is left; with more, the
  function reports success and the rest stays mounted.
\<close>

theorem scratch_umount_takes_eight:
  assumes "mount_kernel K depth target"
  shows "\<exists>s'. xfs_scratch_umount K s = Ok 0 s' \<and>
    depth (kw s') = (depth (kw s))(XFS_SCRATCH_MNT := depth (kw s) XFS_SCRATCH_MNT - 8)"
  using mount_kernel.scratch_umount_outcome [OF assms, of s] by (auto simp: wp_Ok)

theorem scratch_umount_takes_eight_witness:
  "\<exists>s'. xfs_scratch_umount memk ((fx0 ())\<lparr>kw := mem0\<lparr>m_mounts := (\<lambda>_. 9)\<rparr>\<rparr>) = Ok 0 s' \<and>
     m_mounts (kw s') XFS_SCRATCH_MNT = 1"
  using scratch_umount_takes_eight [OF mmnt.mount_kernel_axioms, of "(fx0 ())\<lparr>kw := mem0\<lparr>m_mounts := (\<lambda>_. 9)\<rparr>\<rparr>"]
  by auto

text \<open>
  C22: a whole-file write tolerates short writes.  On a file that stores any prefix of what
  it is handed, the loop of \<open>xfs_write_new_file\<close> always ends; it returns 0 exactly when all
  the data is stored, in order; otherwise it returns a negative errno and the file holds a
  proper prefix of the data.
\<close>

theorem write_loop_stores_prefix:
  assumes "short_writes K content" and "content (kw s) h = []"
  shows "\<exists>e s' k. write_loop K h d 0 s = Ok e s' \<and> e \<le> 0 \<and> k \<le> length d \<and> (e = 0 \<longleftrightarrow> k = length d) \<and>
    content (kw s') h = take k d"
proof -
  have "write_at 0 xs [] = xs" for xs using write_at_end [of "[]" xs] by simp
  with short_writes.write_loop_outcome [OF assms(1), of h d 0 s] assms(2) show ?thesis by simp
qed

theorem write_loop_stores_prefix_witness:
  "\<exists>e s' k. write_loop dripk 3 [7, 8, 9] 0 (fx0 ()) = Ok e s' \<and> e \<le> 0 \<and> k \<le> length [7 :: byte, 8, 9] \<and>
     (e = 0 \<longleftrightarrow> k = length [7 :: byte, 8, 9]) \<and> mem_content (kw s') 3 = take k [7, 8, 9]"
  by (rule write_loop_stores_prefix [OF drip.short_writes_axioms])
    (simp add: mem_content_def on_fd_def mem0_def)

text \<open>
  C23: the wait status of a program decodes to what the header promises.  An exit with code
  \<open>c\<close> is \<open>c\<close>, a death by signal \<open>g\<close> is 128 plus \<open>g\<close> with or without the core flag and
  whatever the upper byte says, and an error of the helper call is passed through.
\<close>

theorem decode_status_sound:
  assumes "c < 256" and "core \<le> 1" and "g < 128" and "e \<le> 0"
  shows "decode_status (int (256 * c + 128 * core + g)) = (if g = 0 then int c else 128 + int g) \<and>
    decode_status e = e"
proof -
  let ?st = "int (256 * c + 128 * core + g)"
  note f = wait_status_fields [OF assms(2,3,1)]
  have "decode_status ?st = (if g = 0 then int c else 128 + int g)"
  proof (cases "?st > 0")
    case True
    then show ?thesis unfolding decode_status_def f by (simp only: if_True of_nat_eq_0_iff if_not_P split: if_split) simp
  next
    case False
    then have "c = 0" "core = 0" "g = 0" by simp_all
    then show ?thesis by (simp add: decode_status_def)
  qed
  then show ?thesis using assms(4) by (simp add: decode_status_def)
qed

theorem decode_status_sound_witness:
  "decode_status (int (256 * 3 + 128 * 1 + 11)) = (if (11::nat) = 0 then int 3 else 128 + int 11) \<and>
   decode_status (- 2) = - 2"
  by (rule decode_status_sound) simp_all

text \<open>
  C24: the lines of the log.  No line printed holds a newline, and the lines put back
  together, each with its newline, are the text, with the last newline added where the
  text has none.
\<close>

theorem log_lines_cut:
  "nl \<notin> \<Union> (set ` set (log_lines cs)) \<and>
   concat (map (\<lambda>l. l @ [nl]) (log_lines cs)) = (if cs = [] \<or> last cs = nl then cs else cs @ [nl])"
  using log_lines_no_nl [of _ cs] by (auto simp: log_lines_join)

end
