(* ===== verification/Ports.thy ===== *)
theory Ports
  imports MemKernel Frames
begin

text \<open>
  What all the ports under \<open>kunit/xfstests/generic/\<close> have in common: the assertion
  macros around a call, the first statements of every test case (the mount is there, the
  case's directory is made, its removal is registered), and the naming schemes.  A port
  numbers its files, and its loops are right only because the numbering is injective and
  stays inside the case's directory: the locale \<open>name_table\<close> is that contract, each
  port interprets it on its own naming function.
\<close>

section \<open>Assertion macros around a call\<close>

definition must :: "(('w, 'z) kst_scheme, int) prog \<Rightarrow> (('w, 'z) kst_scheme, unit) prog" where
  \<comment> \<open>\<open>KUNIT_ASSERT_EQ(test, m, 0)\<close>\<close>
  "must m = bnd m (\<lambda>e. kunit_assert (e = 0))"

definition must_ret ::
  "(('w, 'z) kst_scheme, 'a) prog \<Rightarrow> ('a \<Rightarrow> bool) \<Rightarrow> (('w, 'z) kst_scheme, unit) prog" where
  \<comment> \<open>an assertion on the result of a call\<close>
  "must_ret m P = bnd m (\<lambda>a. kunit_assert (P a))"

definition expect_ret ::
  "(('w, 'z) kst_scheme, 'a) prog \<Rightarrow> ('a \<Rightarrow> bool) \<Rightarrow> (('w, 'z) kst_scheme, unit) prog" where
  \<comment> \<open>an expectation on the result of a call\<close>
  "expect_ret m P = bnd m (\<lambda>a. kunit_expect (P a))"

definition must_open ::
  "(('w, 'z) kst_scheme, fileptr) prog \<Rightarrow> (nat \<Rightarrow> (('w, 'z) kst_scheme, 'a) prog) \<Rightarrow>
   (('w, 'z) kst_scheme, 'a) prog" where
  \<comment> \<open>\<open>f = filp_open(...); KUNIT_ASSERT_FALSE(test, IS_ERR(f))\<close> and what follows\<close>
  "must_open m k = bnd m (\<lambda>f. case f of
       Inl e \<Rightarrow> (\<lambda>s. Abort (s\<lparr>kfails := Suc (kfails s)\<rparr>)) | Inr h \<Rightarrow> k h)"

definition must_alloc :: "'w kernel \<Rightarrow> nat \<Rightarrow> (('w, 'z) kst_scheme, unit) prog" where
  \<comment> \<open>\<open>kunit_kmalloc\<close> or \<open>kunit_kzalloc\<close> and the assertion on its result\<close>
  "must_alloc K n = bnd (kcall (kmalloc K n)) kunit_assert"

definition must_alloc2 :: "'w kernel \<Rightarrow> nat \<Rightarrow> nat \<Rightarrow> (('w, 'z) kst_scheme, unit) prog" where
  \<comment> \<open>two allocations, then the assertions on both\<close>
  "must_alloc2 K m n = bnd (kcall (kmalloc K m)) (\<lambda>a. bnd (kcall (kmalloc K n)) (\<lambda>b.
     seq [kunit_assert a, kunit_assert b]))"

definition must_stat :: "'w kernel \<Rightarrow> string \<Rightarrow> (kstat \<Rightarrow> bool) \<Rightarrow> (('w, 'z) kst_scheme, unit) prog" where
  \<comment> \<open>\<open>KUNIT_ASSERT_EQ(test, xfs_kstat(p, &st), 0)\<close> and an assertion on \<open>st\<close>\<close>
  "must_stat K p P = bnd (xfs_kstat K p) (\<lambda>r. case r of
     Inl e \<Rightarrow> kunit_assert False | Inr st \<Rightarrow> kunit_assert (P st))"

definition expect_stat :: "'w kernel \<Rightarrow> string \<Rightarrow> (kstat \<Rightarrow> bool) \<Rightarrow> (('w, 'z) kst_scheme, unit) prog" where
  \<comment> \<open>the same with an expectation on \<open>st\<close>\<close>
  "expect_stat K p P = bnd (xfs_kstat K p) (\<lambda>r. case r of
     Inl e \<Rightarrow> kunit_assert False | Inr st \<Rightarrow> kunit_expect (P st))"

definition test_prologue ::
  "'w kernel \<Rightarrow> string \<Rightarrow> string \<Rightarrow> (('w, 'z) fxs_scheme, unit) prog \<Rightarrow> (('w, 'z) fxs_scheme, unit) prog" where
  "test_prologue K root nm act = seq [
     bnd xfstests_nfs_mounted kunit_assert,
     must (xfs_mkdir K root),
     must (kunit_add_action_or_reset K nm act)]"

context steady
begin

lemma stays_macros:
  "stays P m \<Longrightarrow> stays P (must m)" "stays P n \<Longrightarrow> stays P (must_ret n c)" "stays P n \<Longrightarrow> stays P (expect_ret n c)"
  "stays P (must_alloc K sz)" "stays P (must_alloc2 K sz sz')" "stays P (must_stat K p d)" "stays P (expect_stat K p d)"
  by (auto simp: must_def must_ret_def expect_ret_def must_alloc_def must_alloc2_def must_stat_def expect_stat_def
      intro!: stay_intros stays_helpers)

lemma stays_must_open: "stays P m \<Longrightarrow> (\<And>h. stays P (k h)) \<Longrightarrow> stays P (must_open m k)"
  unfolding must_open_def by (intro stay_intros) (auto simp: stays_def P_kfails)

lemmas stays_ports = stay_intros stays_helpers stays_macros stays_must_open

end

context statics
begin

lemma keeps_macros:
  "keeps F m \<Longrightarrow> keeps F (must m)" "keeps F n \<Longrightarrow> keeps F (must_ret n c)" "keeps F n \<Longrightarrow> keeps F (expect_ret n c)"
  "keeps F (must_alloc K sz)" "keeps F (must_alloc2 K sz sz')" "keeps F (must_stat K p d)" "keeps F (expect_stat K p d)"
  "keeps F u \<Longrightarrow> (\<And>h. keeps F (k h)) \<Longrightarrow> keeps F (must_open u k)"
  by (simp_all add: keeps_stays at.stays_macros at.stays_must_open)

lemmas keeps_ports = keeps_macros keeps_files keeps_paths keeps_env keeps_basic keeps_add_action keeps_write_loop

end

lemma stays_prologue:
  assumes "steady P" "stays P act"
  shows "stays P (test_prologue K root nm act)"
  using assms unfolding test_prologue_def xfstests_nfs_mounted_def
  by (intro stay_intros steady.stays_macros steady.stays_helpers)

text \<open>What KUnit and the fixture know about a running case.\<close>

definition case_state :: "('w, 'z) fxs_scheme \<Rightarrow> nat \<times> string list \<times> bool" where
  "case_state s = (kfails s, kactions s, client_mounted s)"

lemma case_state_upd [simp]: "case_state (s\<lparr>kw := w\<rparr>) = case_state s"
  by (simp add: case_state_def)

lemma wp_must [simp, wp_simps]: "wp (must m) Q = wp m (\<lambda>e s. e = 0 \<and> Q () s)"
  by (simp add: must_def)

lemma wp_must_ret [simp, wp_simps]: "wp (must_ret m P) Q = wp m (\<lambda>a s. P a \<and> Q () s)"
  by (simp add: must_ret_def)

lemma wp_must_open [simp, wp_simps]:
  "wp (must_open m k) Q = wp m (\<lambda>f s. case f of Inl e \<Rightarrow> False | Inr h \<Rightarrow> wp (k h) Q s)"
  by (simp add: fun_eq_iff must_open_def wp_def bnd_def split: outcome.splits sum.splits)

lemma wp_expect_ret [simp, wp_simps]:
  "wp (expect_ret m P) Q =
     wp m (\<lambda>a s. if P a then Q () s else Q () (s\<lparr>kfails := Suc (kfails s)\<rparr>))"
  by (simp add: expect_ret_def)

lemma wp_must_alloc [simp, wp_simps]:
  "wp (must_alloc K n) Q = wp (kcall (kmalloc K n)) (\<lambda>a s. a \<and> Q () s)"
  by (simp add: must_alloc_def)

lemma wp_must_alloc2 [simp, wp_simps]:
  "wp (must_alloc2 K m n) Q =
     wp (kcall (kmalloc K m)) (\<lambda>a. wp (kcall (kmalloc K n)) (\<lambda>b s. a \<and> b \<and> Q () s))"
  by (simp add: must_alloc2_def)

lemma wp_must_stat:
  "wp (xfs_kstat K p) (\<lambda>r s. case r of Inl e \<Rightarrow> False | Inr st \<Rightarrow> P st \<and> Q () s) s \<Longrightarrow> wp (must_stat K p P) Q s"
  unfolding must_stat_def wp_bnd by (erule wp_mono) (auto split: sum.splits)

lemma wp_expect_stat:
  "wp (xfs_kstat K p) (\<lambda>r s. case r of Inl e \<Rightarrow> False | Inr st \<Rightarrow> P st \<and> Q () s) s \<Longrightarrow> wp (expect_stat K p P) Q s"
  unfolding expect_stat_def wp_bnd by (erule wp_mono) (auto split: sum.splits)

lemma wp_mounted [simp, wp_simps]: "wp xfstests_nfs_mounted Q = (\<lambda>s. Q (client_mounted s) s)"
  by (simp add: xfstests_nfs_mounted_def)

lemmas wp_unfold = wp_seq_Cons wp_seq_Nil wp_bnd wp_ret wp_must wp_must_ret wp_expect_ret wp_must_open wp_do_if
  wp_ignore wp_kunit_assert wp_kunit_expect prod.case sum.case option.case simp_thms if_True if_False


lemma for_each_map: "for_each (map f is) body = for_each is (\<lambda>i. body (f i))"
  by (simp add: for_each_def comp_def)

text \<open>
  Expectations one at a time: unfolding \<open>wp_expect_ret\<close> doubles the rest of a case with each
  expectation, so the long cases keep them folded until they are reached.
\<close>

lemma wp_expect_retI: "wp m (\<lambda>a s. P a \<and> Q () s) s \<Longrightarrow> wp (expect_ret m P) Q s"
  unfolding wp_expect_ret by (erule wp_mono) simp

lemma wp_kunit_expectI: "P \<Longrightarrow> Q () s \<Longrightarrow> wp (kunit_expect P) Q s"
  by simp

lemmas wp_steps = wp_seq_Cons wp_seq_Nil wp_bnd wp_ret wp_must wp_must_ret wp_must_open wp_do_if wp_ignore
  wp_kunit_assert prod.case sum.case option.case simp_thms if_True if_False

context posix_kernel
begin

text \<open>After the first statements the case owns a new, empty directory.\<close>

lemma wp_alloc_ok:
  assumes "ok (kw s)" "\<And>w'. \<lbrakk>ok w'; V w' = V (kw s)\<rbrakk> \<Longrightarrow> Q () (s\<lparr>kw := w'\<rparr>)"
  shows "wp (must_alloc K n) Q s"
  unfolding wp_must_alloc by (rule wp_kmalloc) (use assms in auto)

lemma wp_alloc2_ok:
  assumes "ok (kw s)" "\<And>w'. \<lbrakk>ok w'; V w' = V (kw s)\<rbrakk> \<Longrightarrow> Q () (s\<lparr>kw := w'\<rparr>)"
  shows "wp (must_alloc2 K m n) Q s"
  unfolding wp_must_alloc2 by (rule wp_kmalloc [OF assms(1)], rule wp_kmalloc) (use assms(2) in auto)

lemma wp_new_dir:
  assumes "ok (kw s)" "absent (V (kw s)) root"
    and "\<And>w' i. \<lbrakk>ok w'; fresh (V (kw s)) i;
           V w' = add_name root i (new_inode S_DIR [] (mode3 7 5 5)) (V (kw s));
           is_dir (V w') root; \<And>q. dirname q = root \<Longrightarrow> names (V w') q = None\<rbrakk> \<Longrightarrow> Q 0 (s\<lparr>kw := w'\<rparr>)"
  shows "wp (xfs_mkdir K root) Q s"
proof (rule xfs_mkdir_new [OF assms(1,2)], goal_cases)
  case (1 w i)
  let ?v = "V (kw s)"
  have "is_dir (V w) root" using 1 by (simp add: is_dir_def)
  moreover have "names (V w) q = None" if "dirname q = root" for q
  proof -
    have no: "\<not> is_dir ?v root" using assms(2) by (simp add: absent_def is_dir_def)
    have "q \<noteq> root" using that assms(2) no by (auto simp: absent_def)
    moreover have "q \<noteq> XFS_MNT"
    proof
      assume "q = XFS_MNT"
      then have "root = ''/mnt''" using that by (simp add: XFS_MNT_def dirname_def)
      then show False using below [OF assms(1), of root] assms(2) by (simp add: XFS_MNT_def)
    qed
    then have "names ?v q = None"
      using parent [OF assms(1), of q] no that by (cases "names ?v q") auto
    ultimately show ?thesis using 1 by simp
  qed
  ultimately show ?case using 1 by (intro assms(3))
qed

lemma wp_test_prologue:
  assumes "ready V ok root s"
    and "\<And>w' i. \<lbrakk>ok w'; fresh (V (kw s)) i;
           V w' = add_name root i (new_inode S_DIR [] (mode3 7 5 5)) (V (kw s));
           is_dir (V w') root; \<And>q. dirname q = root \<Longrightarrow> names (V w') q = None\<rbrakk> \<Longrightarrow>
           Q () (s\<lparr>kw := w', kactions := nm # kactions s\<rparr>)"
  shows "wp (test_prologue K root nm act) Q s"
proof -
  have r: "client_mounted s" "ok (kw s)" "absent (V (kw s)) root" using assms(1) by (simp_all add: ready_def)
  show ?thesis
    unfolding test_prologue_def
  proof (simp only: wp_seq_Cons wp_bnd wp_kunit_assert wp_mounted wp_must wp_seq_Nil, intro conjI r(1),
      rule wp_new_dir [OF r(2,3)], intro conjI refl, rule wp_add_action, goal_cases)
    case (1 w1 i)
    then show ?case by simp
  next
    case (2 w1 i w2)
    then have "V w2 = V w1" by simp
    with 2 assms(2) [of w2 i] show ?case by simp
  qed
qed

end

section \<open>Naming schemes\<close>

lemma is_dir_other_name:
  "p \<noteq> q \<Longrightarrow> is_dir (v\<lparr>names := (names v)(p := x)\<rparr>) q = is_dir v q"
  by (auto simp: is_dir_def split: option.splits)

lemma closed_simps [simp]:
  "closed (set_nlink i k v) j = closed v j" "closed (v\<lparr>names := nm\<rparr>) j = closed v j"
  "closed (set_data i d v) j = closed v j" "closed (add_name p i n v) j = closed v j"
  "closed (v\<lparr>refs := rf\<rparr>) j = closed v j"
  by (simp_all add: closed_def)

lemma fresh_closed: "fresh v i \<Longrightarrow> closed v i"
  by (auto simp: fresh_def closed_def)

lemma fresh_not_named: "fresh v j \<Longrightarrow> names v p = Some i \<Longrightarrow> i \<noteq> j"
  by (auto simp: fresh_def)

locale name_table =
  fixes name :: "nat \<Rightarrow> string" and root :: string and n :: nat
  assumes name_dir: "i < n \<Longrightarrow> dirname (name i) = root"
    and name_inj: "\<lbrakk>i < n; j < n; name i = name j\<rbrakk> \<Longrightarrow> i = j"
    and root_dir: "dirname root = XFS_MNT" "root \<noteq> XFS_MNT"
begin

lemma name_eq_iff [simp]: "\<lbrakk>i < n; j < n\<rbrakk> \<Longrightarrow> name i = name j \<longleftrightarrow> i = j"
  using name_inj by blast

lemma name_not_root [simp]: "i < n \<Longrightarrow> name i \<noteq> root" "i < n \<Longrightarrow> root \<noteq> name i"
  using name_dir root_dir by metis+

lemma names_distinct: "distinct (map name [0..<n])"
  using name_inj by (auto simp: distinct_conv_nth)

text \<open>
  The directory \<open>root\<close> with the regular files that the table \<open>m\<close> says: slot \<open>i\<close> holds
  inode \<open>m i\<close>, closed, or its name is free; nothing else is in the directory.
\<close>

definition slots :: "fsv \<Rightarrow> (nat \<Rightarrow> nat option) \<Rightarrow> bool" where
  "slots v m = (is_dir v root \<and> (\<forall>i<n. names v (name i) = m i \<and>
     (\<forall>j. m i = Some j \<longrightarrow> i_type (inodes v j) = S_REG \<and> closed v j)) \<and>
     (\<forall>q. dirname q = root \<longrightarrow> names v q \<noteq> None \<longrightarrow> q \<in> name ` {..<n}))"

lemma slotsD:
  assumes "slots v m" "i < n"
  shows "is_dir v root" "m i = None \<Longrightarrow> absent v (name i)" "m i = Some j \<Longrightarrow> names v (name i) = Some j"
    "m i = Some j \<Longrightarrow> i_type (inodes v j) = S_REG" "m i = Some j \<Longrightarrow> closed v j"
    "m i = Some j \<Longrightarrow> has_inode v (name i) j S_REG"
  using assms name_dir [OF assms(2)] by (auto simp: slots_def absent_def has_inode_def)

lemma slots_empty:
  "\<lbrakk>is_dir v root; \<And>q. dirname q = root \<Longrightarrow> names v q = None\<rbrakk> \<Longrightarrow> slots v (\<lambda>_. None)"
  by (simp add: slots_def name_dir)

lemma slots_cong:
  "slots v m \<Longrightarrow> names v' = names v \<Longrightarrow> (\<And>j. i_type (inodes v' j) = i_type (inodes v j)) \<Longrightarrow> fds v' = fds v \<Longrightarrow> slots v' m"
  by (auto simp: slots_def is_dir_def closed_def split: option.splits)

lemma slots_create:
  assumes "slots v m" "i < n" "m i = None" "fresh v j" "i_type x = S_REG"
  shows "slots (add_name (name i) j x v) (m(i := Some j))"
  using assms fresh_not_named [OF assms(4)] fresh_closed [OF assms(4)]
  by (auto simp: slots_def is_dir_add_name)

lemma slots_remove:
  assumes "slots v m" "i < n"
  shows "slots (set_nlink j k (v\<lparr>names := (names v)(name i := None)\<rparr>)) (m(i := None))"
  using assms by (auto simp: slots_def is_dir_other_name)

end

text \<open>A numbered table of files on a kernel that meets the file system contract.\<close>

locale slot_dir = posix_kernel K V ok + name_table name root n
  for K :: "'w kernel" and V :: "'w \<Rightarrow> fsv" and ok :: "'w \<Rightarrow> bool"
    and name :: "nat \<Rightarrow> string" and root :: string and n :: nat
begin

definition dirw :: "(nat \<Rightarrow> nat option) \<Rightarrow> 'w \<Rightarrow> bool" where
  "dirw m w = (ok w \<and> slots (V w) m)"

lemma dirw_cong: "dirw m w \<Longrightarrow> (\<And>i. i < n \<Longrightarrow> m' i = m i) \<Longrightarrow> dirw m' w"
  by (simp add: dirw_def slots_def)

lemma slot_create_close:
  assumes "dirw m (kw s)" "i < n" "m i = None" "O_CREAT \<in> fl"
    and "\<And>w j. dirw (m(i := Some j)) w \<Longrightarrow> Q () (s\<lparr>kw := w\<rparr>)"
  shows "wp (must_open (kcall (filp_open K (name i) fl md)) (\<lambda>h. kdo (filp_close K h))) Q s"
  unfolding wp_must_open
proof (rule wp_open_new, goal_cases)
  case (4 w h j)
  have sl: "slots (V (kw s)) m" using assms(1) by (simp add: dirw_def)
  show ?case
    unfolding sum.case
  proof (rule wp_close [where i = j and fl = fl], goal_cases)
    case (3 w2)
    have "dirw (m(i := Some j)) w2"
      using 3 4 slots_create [OF sl assms(2,3) 4(3), of "new_inode S_REG [] md"] by (simp add: dirw_def)
    then show ?case using assms(5) by simp
  qed (use 4 in simp_all)
qed (use assms slotsD(2) in \<open>auto simp: dirw_def\<close>)

lemma slot_collide:
  assumes "dirw m (kw s)" "i < n" "m i = Some j" "O_CREAT \<in> fl" "O_EXCL \<in> fl"
    and "\<And>w. dirw m w \<Longrightarrow> Q (Inl (- EEXIST)) (s\<lparr>kw := w\<rparr>)"
  shows "wp (kcall (filp_open K (name i) fl md)) Q s"
  by (rule wp_open_exists [where i = j]) (use assms slotsD(3) in \<open>auto simp: dirw_def\<close>)

lemma slot_unlink:
  assumes "dirw m (kw s)" "i < n" "m i = Some j"
    and "\<And>w. dirw (m(i := None)) w \<Longrightarrow> Q 0 (s\<lparr>kw := w\<rparr>)"
  shows "wp (xfs_unlink K (name i)) Q s"
proof (rule xfs_unlink_file [where i = j], goal_cases)
  case (5 w)
  then show ?case using assms slots_remove [of "V (kw s)" m i] by (simp add: dirw_def)
qed (use assms slotsD [of "V (kw s)" m i] in \<open>auto simp: dirw_def\<close>)

lemma slot_unlink_free:
  assumes "dirw m (kw s)" "i < n" "m i = None"
    and "\<And>w. dirw m w \<Longrightarrow> Q (- ENOENT) (s\<lparr>kw := w\<rparr>)"
  shows "wp (xfs_unlink K (name i)) Q s"
  by (rule xfs_unlink_absent) (use assms slotsD(2) in \<open>auto simp: dirw_def\<close>)

lemma slot_kstat:
  assumes "dirw m (kw s)" "i < n" "m i = Some j"
    and "\<And>w st. \<lbrakk>dirw m w; st_ino st = j\<rbrakk> \<Longrightarrow> Q (Inr st) (s\<lparr>kw := w\<rparr>)"
  shows "wp (xfs_kstat K (name i)) Q s"
  by (rule xfs_kstat_found [where i = j]) (use assms slotsD(3) in \<open>auto simp: dirw_def stat_matches_def\<close>)

lemma slot_kstat_free:
  assumes "dirw m (kw s)" "i < n" "m i = None"
    and "\<And>w. dirw m w \<Longrightarrow> Q (Inl (- ENOENT)) (s\<lparr>kw := w\<rparr>)"
  shows "wp (xfs_kstat K (name i)) Q s"
  by (rule xfs_kstat_absent) (use assms slotsD(2) in \<open>auto simp: dirw_def\<close>)

lemma slot_exists:
  assumes "dirw m (kw s)" "i < n"
    and "\<And>w. dirw m w \<Longrightarrow> Q (m i \<noteq> None) (s\<lparr>kw := w\<rparr>)"
  shows "wp (xfs_exists K (name i)) Q s"
proof (cases "m i")
  case None
  show ?thesis
    by (rule xfs_exists_absent) (use assms None slotsD(2) in \<open>auto simp: dirw_def\<close>)
next
  case (Some j)
  show ?thesis
    by (rule xfs_exists_found [where i = j]) (use assms Some slotsD(3) in \<open>auto simp: dirw_def\<close>)
qed

text \<open>The removal of a tree: every slot unlinked, whether it is there or not, then the directory.\<close>

lemma slot_sweep:
  assumes "dirw m (kw s)" and "\<And>w. dirw (\<lambda>_. None) w \<Longrightarrow> Q () (s\<lparr>kw := w\<rparr>)"
  shows "wp (for_each [0..<n] (\<lambda>i. ignore (xfs_unlink K (name i)))) Q s"
proof (rule wp_for_each [where I = "\<lambda>k t. t = s\<lparr>kw := kw t\<rparr> \<and> (\<exists>m. dirw m (kw t) \<and> (\<forall>i<k. m i = None))"], goal_cases)
  case (2 k t)
  then obtain m where m: "t = s\<lparr>kw := kw t\<rparr>" "dirw m (kw t)" "\<forall>i<k. m i = None" "k < n" by auto
  have up: "(t\<lparr>kw := w\<rparr>) = s\<lparr>kw := w\<rparr>" for w by (subst m(1)) simp
  have k: "[0..<n] ! k = k" using m(4) by simp
  show ?case
    unfolding wp_ignore k
  proof (cases "m k")
    case None
    show "wp (xfs_unlink K (name k)) (\<lambda>_ t. t = s\<lparr>kw := kw t\<rparr> \<and> (\<exists>m. dirw m (kw t) \<and> (\<forall>i<Suc k. m i = None))) t"
      by (rule slot_unlink_free [OF m(2,4) None]) (use m None in \<open>auto simp: up less_Suc_eq\<close>)
  next
    case (Some j)
    show "wp (xfs_unlink K (name k)) (\<lambda>_ t. t = s\<lparr>kw := kw t\<rparr> \<and> (\<exists>m. dirw m (kw t) \<and> (\<forall>i<Suc k. m i = None))) t"
      by (rule slot_unlink [OF m(2,4) Some])
        (use m in \<open>auto simp: up less_Suc_eq intro!: exI [of _ "m(k := None)"]\<close>)
  qed
next
  case (3 t)
  then obtain m where m: "t = s\<lparr>kw := kw t\<rparr>" "dirw m (kw t)" "\<forall>i<n. m i = None" by auto
  have "dirw (\<lambda>_. None) (kw t)" using m(2,3) by (simp add: dirw_def slots_def)
  then show ?case using assms(2) m(1) by metis
qed (use assms(1) in auto)

lemma slot_rmdir:
  assumes "dirw (\<lambda>_. None) (kw s)"
    and "\<And>w. \<lbrakk>ok w; absent (V w) root\<rbrakk> \<Longrightarrow> Q 0 (s\<lparr>kw := w\<rparr>)"
  shows "wp (xfs_rmdir K root) Q s"
proof (rule xfs_rmdir_empty, goal_cases)
  case (5 w)
  have "names (V (kw s)) root \<noteq> None" using assms(1) by (auto simp: dirw_def slots_def is_dir_def split: option.splits)
  then have "is_dir (V (kw s)) (dirname root)" using parent root_dir(2) assms(1) by (auto simp: dirw_def)
  then show ?case using 5 root_dir by (intro assms(2)) (simp_all add: absent_def is_dir_other_name)
next
  case 4
  show ?case using assms(1) by (fastforce simp: dirw_def slots_def empty_dir_def)
qed (use assms(1) root_dir in \<open>simp_all add: dirw_def slots_def\<close>)

lemma slot_remove_tree:
  assumes "dirw m (kw s)" and "\<And>w. \<lbrakk>ok w; absent (V w) root\<rbrakk> \<Longrightarrow> Q () (s\<lparr>kw := w\<rparr>)"
  shows "wp (seq [for_each [0..<n] (\<lambda>i. ignore (xfs_unlink K (name i))), ignore (xfs_rmdir K root)]) Q s"
  unfolding wp_seq_Cons wp_ignore
  by (rule slot_sweep [OF assms(1)], rule slot_rmdir) (use assms(2) in simp_all)

lemma slot_mkdir:
  assumes "ok (kw s)" "absent (V (kw s)) root" and "\<And>w. dirw (\<lambda>_. None) w \<Longrightarrow> Q 0 (s\<lparr>kw := w\<rparr>)"
  shows "wp (xfs_mkdir K root) Q s"
  by (rule wp_new_dir [OF assms(1,2)]) (use assms(3) slots_empty in \<open>auto simp: dirw_def\<close>)

text \<open>After the first statements of a test the table is empty.\<close>

lemma slot_prologue:
  assumes "ready V ok root s"
    and "\<And>w. dirw (\<lambda>_. None) w \<Longrightarrow> Q () (s\<lparr>kw := w, kactions := nm # kactions s\<rparr>)"
  shows "wp (test_prologue K root nm act) Q s"
  by (rule wp_test_prologue [OF assms(1)]) (use assms(2) slots_empty in \<open>auto simp: dirw_def\<close>)

text \<open>
  A whole case: a body that keeps the table and fails nothing is followed by the removal it
  registered, and the mount is as it was before the case.
\<close>

lemma slot_case:
  assumes "kactions s = []"
    and "wp body (\<lambda>_ s'. case_state s' = (kfails s, [nm], True) \<and> (\<exists>m. dirw m (kw s'))) s"
    and "tree = seq [for_each [0..<n] (\<lambda>i. ignore (xfs_unlink K (name i))), ignore (xfs_rmdir K root)]"
  shows "kfails (run_case (\<lambda>_. tree) body s) = kfails s \<and> ready V ok root (run_case (\<lambda>_. tree) body s)"
proof -
  obtain a s' m where b: "body s = Ok a s'" "case_state s' = (kfails s, [nm], True)" "dirw m (kw s')"
    using assms(2) by (auto simp: wp_Ok)
  have "wp tree (\<lambda>_ t. kfails t = kfails s \<and> ready V ok root t) s'"
    unfolding assms(3) by (rule slot_remove_tree [OF b(3)]) (use b(2) in \<open>simp add: case_state_def ready_def\<close>)
  then obtain u t where "tree s' = Ok u t" "kfails t = kfails s" "ready V ok root t"
    by (auto simp: wp_Ok)
  with b show ?thesis by (simp add: run_case_def case_state_def ready_def Let_def)
qed

end

end
