(* ===== verification/Files.thy ===== *)
theory Files
  imports Ports
begin

text \<open>
  One regular file at a time.  \<open>file_on w p i d H\<close> says that in the world \<open>w\<close> the name
  \<open>p\<close> is the regular file \<open>i\<close> with the contents \<open>d\<close>, open exactly under the handles of
  \<open>H\<close> with their flags; \<open>others p i w w'\<close> that a step on the file \<open>i\<close> leaves every other
  file, every directory and every other name as it was.  The rules are the contract of the file system in this vocabulary; the
  ports that work on one or a few files are proved with them alone.
\<close>

context posix_kernel
begin

definition file_on :: "'w \<Rightarrow> string \<Rightarrow> nat \<Rightarrow> byte list \<Rightarrow> (nat \<rightharpoonup> oflag set) \<Rightarrow> bool" where
  "file_on w p i d H = (ok w \<and> has_inode (V w) p i S_REG \<and> data_of (V w) i = d \<and>
     (\<forall>h fl. fds (V w) h = Some (i, fl) \<longleftrightarrow> H h = Some fl))"

definition others :: "string \<Rightarrow> nat \<Rightarrow> 'w \<Rightarrow> 'w \<Rightarrow> bool" where
  "others p i w w' = ((\<forall>q j e G. j \<noteq> i \<longrightarrow> file_on w q j e G \<longrightarrow> file_on w' q j e G) \<and>
     (\<forall>q. q \<noteq> p \<longrightarrow> names (V w') q = names (V w) q) \<and>
     (\<forall>q. is_dir (V w) q \<longrightarrow> is_dir (V w') q))"

lemma othersD: "others p i w w' \<Longrightarrow> file_on w q j e G \<Longrightarrow> j \<noteq> i \<Longrightarrow> file_on w' q j e G"
  by (simp add: others_def)

lemma others_names:
  "others p i w w' \<Longrightarrow> q \<noteq> p \<Longrightarrow> names (V w') q = names (V w) q"
  "others p i w w' \<Longrightarrow> is_dir (V w) q \<Longrightarrow> is_dir (V w') q"
  by (simp_all add: others_def)

lemma others_refl: "V w' = V w \<Longrightarrow> ok w' \<Longrightarrow> others p i w w'"
  by (simp add: others_def file_on_def)

lemma file_on_ok: "file_on w p i d H \<Longrightarrow> ok w"
  by (simp add: file_on_def)

lemma file_on_cong: "file_on w p i d H \<Longrightarrow> ok w' \<Longrightarrow> V w' = V w \<Longrightarrow> file_on w' p i d H"
  by (simp add: file_on_def)

lemma file_on_has: "file_on w p i d H \<Longrightarrow> has_inode (V w) p i S_REG"
  "file_on w p i d H \<Longrightarrow> names (V w) p = Some i" "file_on w p i d H \<Longrightarrow> i_type (inodes (V w) i) = S_REG"
  "file_on w p i d H \<Longrightarrow> data_of (V w) i = d"
  by (simp_all add: file_on_def has_inode_def)

lemma file_on_fd: "file_on w p i d [h \<mapsto> fl] \<Longrightarrow> fds (V w) h = Some (i, fl)"
  by (simp add: file_on_def)

lemma set_data_step:
  assumes "file_on w p i d H" "ok w'" "V w' = set_data i e (V w)"
  shows "file_on w' p i e H" "others p i w w'"
  using assms by (auto simp: file_on_def others_def has_inode_def)

lemma othersI:
  assumes "ok w'" and "\<And>q. is_dir (V w) q \<Longrightarrow> names (V w) q \<noteq> Some i"
    and "\<And>q. q \<noteq> p \<Longrightarrow> names (V w') q = names (V w) q" and "names (V w) p = None \<or> names (V w) p = Some i"
    and "\<And>j. j \<noteq> i \<Longrightarrow> i_type (inodes (V w') j) = i_type (inodes (V w) j) \<and> data_of (V w') j = data_of (V w) j"
    and "\<And>h j fl. j \<noteq> i \<Longrightarrow> fds (V w') h = Some (j, fl) \<longleftrightarrow> fds (V w) h = Some (j, fl)"
  shows "others p i w w'"
proof -
  have q: "q \<noteq> p" if "names (V w) q = Some j" "j \<noteq> i" for q j using assms(4) that by auto
  have "is_dir (V w') q" if dq: "is_dir (V w) q" for q
  proof -
    obtain j where j: "names (V w) q = Some j" "i_type (inodes (V w) j) = S_DIR"
      using dq by (auto simp: is_dir_def split: option.splits)
    have "j \<noteq> i" using assms(2) [OF dq] j(1) by simp
    then show ?thesis using j assms(3) [OF q [OF j(1)]] assms(5) [of j] by (simp add: is_dir_def)
  qed
  then show ?thesis using assms q by (auto simp: others_def file_on_def has_inode_def)
qed

lemma not_dir: "has_inode v p i S_REG \<Longrightarrow> is_dir v q \<Longrightarrow> names v q \<noteq> Some i" "fresh v i \<Longrightarrow> names v q \<noteq> Some i"
  by (auto simp: has_inode_def is_dir_def fresh_def)

lemma f_create:
  assumes "ok (kw s)" "absent (V (kw s)) p" "O_CREAT \<in> fl"
    and "\<And>w h i. \<lbrakk>file_on w p i [] [h \<mapsto> fl]; others p i (kw s) w; fresh (V (kw s)) i\<rbrakk> \<Longrightarrow> Q (Inr h) (s\<lparr>kw := w\<rparr>)"
  shows "wp (kcall (filp_open K p fl m)) Q s"
proof (rule wp_open_new [OF assms(1-3)], goal_cases)
  case (1 w h i)
  have f: "file_on w p i [] [h \<mapsto> fl]"
    using 1 by (auto simp: file_on_def has_inode_def data_of_def fresh_def)
  have o: "others p i (kw s) w"
    by (rule othersI) (use 1 assms(2) not_dir(2) in \<open>auto simp: absent_def split: if_splits\<close>)
  show ?case by (rule assms(4) [OF f o 1(3)])
qed

lemma f_must_create:
  assumes "ok (kw s)" "absent (V (kw s)) p" "O_CREAT \<in> fl"
    and "\<And>w h i. \<lbrakk>file_on w p i [] [h \<mapsto> fl]; others p i (kw s) w; fresh (V (kw s)) i\<rbrakk> \<Longrightarrow> wp (k h) Q (s\<lparr>kw := w\<rparr>)"
  shows "wp (must_open (kcall (filp_open K p fl m)) k) Q s"
  unfolding wp_must_open by (rule f_create [OF assms(1-3)]) (simp add: assms(4))

lemma f_open:
  assumes "file_on (kw s) p i d Map.empty" "O_EXCL \<notin> fl" "O_DIRECTORY \<notin> fl"
    and "\<And>w h. \<lbrakk>file_on w p i (if O_TRUNC \<in> fl then [] else d) [h \<mapsto> fl]; others p i (kw s) w\<rbrakk> \<Longrightarrow> Q (Inr h) (s\<lparr>kw := w\<rparr>)"
  shows "wp (kcall (filp_open K p fl m)) Q s"
proof (rule wp_open_file [OF file_on_ok [OF assms(1)] file_on_has(1) [OF assms(1)] assms(2,3)], goal_cases)
  case (1 w h)
  have f: "file_on w p i (if O_TRUNC \<in> fl then [] else d) [h \<mapsto> fl]"
    using 1 assms(1) by (auto simp: file_on_def has_inode_def)
  have o: "others p i (kw s) w"
    by (rule othersI) (use 1 file_on_has(2) [OF assms(1)] not_dir(1) [OF file_on_has(1) [OF assms(1)]] in auto)
  show ?case by (rule assms(4) [OF f o])
qed

lemma f_must_open:
  assumes "file_on (kw s) p i d Map.empty" "O_EXCL \<notin> fl" "O_DIRECTORY \<notin> fl"
    and "\<And>w h. \<lbrakk>file_on w p i (if O_TRUNC \<in> fl then [] else d) [h \<mapsto> fl]; others p i (kw s) w\<rbrakk> \<Longrightarrow> wp (k h) Q (s\<lparr>kw := w\<rparr>)"
  shows "wp (must_open (kcall (filp_open K p fl m)) k) Q s"
  unfolding wp_must_open by (rule f_open [OF assms(1-3)]) (simp add: assms(4))

lemma f_close:
  assumes "file_on (kw s) p i d [h \<mapsto> fl]"
    and "\<And>w. \<lbrakk>file_on w p i d Map.empty; others p i (kw s) w\<rbrakk> \<Longrightarrow> Q () (s\<lparr>kw := w\<rparr>)"
  shows "wp (kdo (filp_close K h)) Q s"
proof (rule wp_close [OF file_on_ok [OF assms(1)] file_on_fd [OF assms(1)]], goal_cases)
  case (1 w)
  have f: "file_on w p i d Map.empty" using 1 assms(1) by (auto simp: file_on_def has_inode_def split: if_splits)
  have fd: "fds (V (kw s)) h = Some (i, fl)" by (rule file_on_fd [OF assms(1)])
  have o: "others p i (kw s) w"
    by (rule othersI) (use 1 fd file_on_has(2) [OF assms(1)] not_dir(1) [OF file_on_has(1) [OF assms(1)]] in auto)
  show ?case by (rule assms(2) [OF f o])
qed

lemma f_write:
  assumes "file_on (kw s) p i d [h \<mapsto> fl]" "writable fl" "O_APPEND \<notin> fl" "pos + length b < size_limit"
    and "\<And>w. \<lbrakk>file_on w p i (write_at pos b d) [h \<mapsto> fl]; others p i (kw s) w\<rbrakk> \<Longrightarrow>
           Q (int (length b), int (pos + length b)) (s\<lparr>kw := w\<rparr>)"
  shows "wp (kcall (kernel_write K h b (int pos))) Q s"
  by (rule wp_write [OF file_on_ok [OF assms(1)] file_on_fd [OF assms(1)] file_on_has(3) [OF assms(1)] assms(2-4)])
    (rule assms(5); use set_data_step [OF assms(1)] file_on_has(4) [OF assms(1)] in simp)

lemma f_append:
  assumes "file_on (kw s) p i d [h \<mapsto> fl]" "writable fl" "O_APPEND \<in> fl" "length d + length b < size_limit"
    and "\<And>w pos'. \<lbrakk>file_on w p i (d @ b) [h \<mapsto> fl]; others p i (kw s) w\<rbrakk> \<Longrightarrow> Q (int (length b), pos') (s\<lparr>kw := w\<rparr>)"
  shows "wp (kcall (kernel_write K h b (int pos))) Q s"
  by (rule wp_append [OF file_on_ok [OF assms(1)] file_on_fd [OF assms(1)] file_on_has(3) [OF assms(1)] assms(2-3)])
    (use assms(4,5) set_data_step [OF assms(1)] file_on_has(4) [OF assms(1)] in simp_all)

lemma f_read:
  assumes "file_on (kw s) p i d [h \<mapsto> fl]" "readable fl" "pos + n < size_limit"
    and "\<And>w b. \<lbrakk>file_on w p i d [h \<mapsto> fl]; others p i (kw s) w; b = read_at pos n d\<rbrakk> \<Longrightarrow>
           Q (int (length b), b, int (pos + length b)) (s\<lparr>kw := w\<rparr>)"
  shows "wp (kcall (kernel_read K h n (int pos))) Q s"
  by (rule wp_read [OF file_on_ok [OF assms(1)] file_on_fd [OF assms(1)] file_on_has(3) [OF assms(1)] assms(2-3)])
    (use assms(4) file_on_cong [OF assms(1)] others_refl file_on_has(4) [OF assms(1)] in simp)

lemma f_fsync:
  assumes "file_on (kw s) p i d [h \<mapsto> fl]"
    and "\<And>w. \<lbrakk>file_on w p i d [h \<mapsto> fl]; others p i (kw s) w\<rbrakk> \<Longrightarrow> Q 0 (s\<lparr>kw := w\<rparr>)"
  shows "wp (kcall (vfs_fsync K h)) Q s"
  by (rule wp_fsync [OF file_on_ok [OF assms(1)] file_on_fd [OF assms(1)]])
    (use assms(2) file_on_cong [OF assms(1)] others_refl in simp)

lemma f_ftruncate:
  assumes "file_on (kw s) p i d [h \<mapsto> fl]" "writable fl" "n < size_limit"
    and "\<And>w. \<lbrakk>file_on w p i (resize n d) [h \<mapsto> fl]; others p i (kw s) w\<rbrakk> \<Longrightarrow> Q 0 (s\<lparr>kw := w\<rparr>)"
  shows "wp (xfs_ftruncate K h (int n)) Q s"
  by (rule xfs_ftruncate_file [OF file_on_ok [OF assms(1)] file_on_fd [OF assms(1)] file_on_has(3) [OF assms(1)] assms(2-3)])
    (use assms(4) set_data_step [OF assms(1)] file_on_has(4) [OF assms(1)] in simp)

lemma f_truncate:
  assumes "file_on (kw s) p i d H" "n < size_limit"
    and "\<And>w. \<lbrakk>file_on w p i (resize n d) H; others p i (kw s) w\<rbrakk> \<Longrightarrow> Q 0 (s\<lparr>kw := w\<rparr>)"
  shows "wp (xfs_truncate K p (int n)) Q s"
  by (rule xfs_truncate_file [OF file_on_ok [OF assms(1)] file_on_has(1) [OF assms(1)] assms(2)])
    (use assms(3) set_data_step [OF assms(1)] file_on_has(4) [OF assms(1)] in simp)

lemma f_allocate:
  assumes "file_on (kw s) p i d [h \<mapsto> fl]" "writable fl" "0 < n" "off + n < size_limit"
    and "\<And>w. \<lbrakk>file_on w p i (resize (max (length d) (off + n)) d) [h \<mapsto> fl]; others p i (kw s) w\<rbrakk> \<Longrightarrow> Q 0 (s\<lparr>kw := w\<rparr>)"
    and "\<And>w. \<lbrakk>file_on w p i d [h \<mapsto> fl]; others p i (kw s) w\<rbrakk> \<Longrightarrow> Q (- EOPNOTSUPP) (s\<lparr>kw := w\<rparr>)"
  shows "wp (kcall (vfs_fallocate K h {} (int off) (int n))) Q s"
  by (rule wp_allocate [OF file_on_ok [OF assms(1)] file_on_fd [OF assms(1)] file_on_has(3) [OF assms(1)] assms(2-4)])
    (use assms(5,6) set_data_step [OF assms(1)] file_on_cong [OF assms(1)] others_refl file_on_has(4) [OF assms(1)] in simp_all)

lemma f_kstat:
  assumes "file_on (kw s) p i d H"
    and "\<And>w st. \<lbrakk>file_on w p i d H; others p i (kw s) w; st_size st = int (length d);
           st_nlink st = i_nlink (inodes (V (kw s)) i); V w = V (kw s)\<rbrakk> \<Longrightarrow> Q (Inr st) (s\<lparr>kw := w\<rparr>)"
  shows "wp (xfs_kstat K p) Q s"
  by (rule xfs_kstat_found [OF file_on_ok [OF assms(1)] file_on_has(2) [OF assms(1)]])
    (use assms(2) file_on_cong [OF assms(1)] others_refl file_on_has(3,4) [OF assms(1)] in \<open>simp add: stat_matches_def\<close>)

lemma f_read_range:
  assumes "file_on (kw s) p i d H" "pos + n < size_limit"
    and "\<And>w b. \<lbrakk>file_on w p i d H; others p i (kw s) w; b = read_at pos n d\<rbrakk> \<Longrightarrow> Q (int (length b), b) (s\<lparr>kw := w\<rparr>)"
  shows "wp (xfs_read_range K p n (int pos)) Q s"
  by (rule xfs_read_range_file [OF file_on_ok [OF assms(1)] file_on_has(1) [OF assms(1)] assms(2)])
    (use assms(3) file_on_cong [OF assms(1)] others_refl file_on_has(4) [OF assms(1)] in simp)

text \<open>The same with the offset as the code has it, a signed 64-bit value that is not negative.\<close>

lemma f_write_at:
  assumes "file_on (kw s) p i d [h \<mapsto> fl]" "writable fl" "O_APPEND \<notin> fl" "0 \<le> x" "nat x + length b < size_limit"
    and "\<And>w. \<lbrakk>file_on w p i (write_at (nat x) b d) [h \<mapsto> fl]; others p i (kw s) w\<rbrakk> \<Longrightarrow>
           Q (int (length b), x + int (length b)) (s\<lparr>kw := w\<rparr>)"
  shows "wp (kcall (kernel_write K h b x)) Q s"
  using f_write [OF assms(1-3,5), of Q] assms(4,6) by simp

lemma f_append_at:
  assumes "file_on (kw s) p i d [h \<mapsto> fl]" "writable fl" "O_APPEND \<in> fl" "0 \<le> x" "length d + length b < size_limit"
    and "\<And>w pos'. \<lbrakk>file_on w p i (d @ b) [h \<mapsto> fl]; others p i (kw s) w\<rbrakk> \<Longrightarrow> Q (int (length b), pos') (s\<lparr>kw := w\<rparr>)"
  shows "wp (kcall (kernel_write K h b x)) Q s"
  using f_append [OF assms(1-3,5), of Q "nat x"] assms(4,6) by simp

lemmas f_append0 = f_append_at [where x = 0, OF _ _ _ order_refl]

lemma f_read_at:
  assumes "file_on (kw s) p i d [h \<mapsto> fl]" "readable fl" "0 \<le> x" "nat x + n < size_limit"
    and "\<And>w b. \<lbrakk>file_on w p i d [h \<mapsto> fl]; others p i (kw s) w; b = read_at (nat x) n d\<rbrakk> \<Longrightarrow>
           Q (int (length b), b, x + int (length b)) (s\<lparr>kw := w\<rparr>)"
  shows "wp (kcall (kernel_read K h n x)) Q s"
  using f_read [OF assms(1,2,4), of Q] assms(3,5) by simp

lemma f_truncate_at:
  assumes "file_on (kw s) p i d H" "0 \<le> x" "nat x < size_limit"
    and "\<And>w. \<lbrakk>file_on w p i (resize (nat x) d) H; others p i (kw s) w\<rbrakk> \<Longrightarrow> Q 0 (s\<lparr>kw := w\<rparr>)"
  shows "wp (xfs_truncate K p x) Q s"
  using f_truncate [OF assms(1,3), of Q] assms(2,4) by simp

lemma f_ftruncate_at:
  assumes "file_on (kw s) p i d [h \<mapsto> fl]" "writable fl" "0 \<le> x" "nat x < size_limit"
    and "\<And>w. \<lbrakk>file_on w p i (resize (nat x) d) [h \<mapsto> fl]; others p i (kw s) w\<rbrakk> \<Longrightarrow> Q 0 (s\<lparr>kw := w\<rparr>)"
  shows "wp (xfs_ftruncate K h x) Q s"
  using f_ftruncate [OF assms(1,2,4), of Q] assms(3,5) by simp

lemma f_allocate_at:
  assumes "file_on (kw s) p i d [h \<mapsto> fl]" "writable fl" "0 \<le> off" "0 < n" "nat off + n < size_limit"
    and "\<And>w. \<lbrakk>file_on w p i (resize (max (length d) (nat off + n)) d) [h \<mapsto> fl]; others p i (kw s) w\<rbrakk> \<Longrightarrow> Q 0 (s\<lparr>kw := w\<rparr>)"
    and "\<And>w. \<lbrakk>file_on w p i d [h \<mapsto> fl]; others p i (kw s) w\<rbrakk> \<Longrightarrow> Q (- EOPNOTSUPP) (s\<lparr>kw := w\<rparr>)"
  shows "wp (kcall (vfs_fallocate K h {} off (int n))) Q s"
  using f_allocate [OF assms(1,2,4,5), of Q] assms(3,6,7) by simp

lemma f_read_range_at:
  assumes "file_on (kw s) p i d H" "0 \<le> x" "nat x + n < size_limit"
    and "\<And>w b. \<lbrakk>file_on w p i d H; others p i (kw s) w; b = read_at (nat x) n d\<rbrakk> \<Longrightarrow> Q (int (length b), b) (s\<lparr>kw := w\<rparr>)"
  shows "wp (xfs_read_range K p n x) Q s"
  using f_read_range [OF assms(1,3), of Q] assms(2,4) by simp

lemma f_write_new:
  assumes "ok (kw s)" "absent (V (kw s)) p" "length d < size_limit"
    and "\<And>w i. \<lbrakk>file_on w p i d Map.empty; others p i (kw s) w; fresh (V (kw s)) i; i_nlink (inodes (V w) i) = 1;
           \<And>q. q \<noteq> p \<Longrightarrow> absent (V (kw s)) q \<Longrightarrow> absent (V w) q\<rbrakk> \<Longrightarrow> Q 0 (s\<lparr>kw := w\<rparr>)"
  shows "wp (xfs_write_new_file K p d) Q s"
proof (rule xfs_write_new_file_new [OF assms(1-3)], goal_cases)
  case (1 w i)
  have f: "file_on w p i d Map.empty"
    using 1 by (auto simp: file_on_def has_inode_def data_of_def fresh_def)
  have o: "others p i (kw s) w"
    by (rule othersI) (use 1 assms(2) not_dir(2) in \<open>auto simp: absent_def split: if_splits\<close>)
  have a: "absent (V w) q" if "q \<noteq> p" "absent (V (kw s)) q" for q
  proof -
    have "dirname q \<noteq> p" using that assms(2) by (auto simp: absent_def is_dir_def)
    then show ?thesis using that 1 is_dir_add_name [OF 1(2), of "dirname q" p] by (simp add: absent_def)
  qed
  show ?case by (rule assms(4) [OF f o 1(2) _ a]) (use 1 in simp)
qed

lemma f_unlink:
  assumes "file_on (kw s) p i d Map.empty"
    and "\<And>w. \<lbrakk>ok w; absent (V w) p; others p i (kw s) w\<rbrakk> \<Longrightarrow> Q 0 (s\<lparr>kw := w\<rparr>)"
  shows "wp (xfs_unlink K p) Q s"
proof (rule xfs_unlink_file [OF file_on_ok [OF assms(1)] file_on_has(2) [OF assms(1)]], goal_cases)
  case (3 w)
  let ?v = "V (kw s)"
  have "p \<noteq> XFS_MNT"
    using root_not_file [OF file_on_ok file_on_has(2)] file_on_has(3) [OF assms(1)] assms(1) by (metis ftype.distinct(1))
  then have dir: "is_dir ?v (dirname p)" using parent [OF file_on_ok file_on_has(2)] assms(1) by blast
  have "dirname p \<noteq> p" using dir file_on_has(2,3) [OF assms(1)] by (auto simp: is_dir_def)
  then have "absent (V w) p" using 3 dir by (simp add: absent_def is_dir_other_name)
  moreover have "others p i (kw s) w"
    by (rule othersI)
      (use 3 file_on_has(2) [OF assms(1)] not_dir(1) [OF file_on_has(1) [OF assms(1)]] in \<open>auto split: if_splits\<close>)
  ultimately show ?case using 3 by (intro assms(2))
qed (use assms(1) in \<open>auto simp: file_on_def has_inode_def closed_def\<close>)

text \<open>The state of a case that works on one file: no new failure, and \<open>P\<close> of the contents.\<close>

definition file_inv ::
  "nat \<Rightarrow> string \<Rightarrow> nat \<Rightarrow> (nat \<rightharpoonup> oflag set) \<Rightarrow> (byte list \<Rightarrow> bool) \<Rightarrow> ('w, 'z) kst_scheme \<Rightarrow> bool" where
  "file_inv nf p i H P s = (kfails s = nf \<and> (\<exists>d. file_on (kw s) p i d H \<and> P d))"

lemma file_invI: "file_on (kw s) p i d H \<Longrightarrow> P d \<Longrightarrow> kfails s = nf \<Longrightarrow> file_inv nf p i H P s"
  by (auto simp: file_inv_def)

lemma file_invE:
  assumes "file_inv nf p i H P s"
  obtains d where "file_on (kw s) p i d H" "P d" "kfails s = nf"
  using assms by (auto simp: file_inv_def)

lemma file_inv_mono: "file_inv nf p i H P s \<Longrightarrow> (\<And>d. P d \<Longrightarrow> R d) \<Longrightarrow> file_inv nf p i H R s"
  by (auto simp: file_inv_def)

text \<open>A new directory: every name in it is free.\<close>

lemma wp_dir_prologue:
  assumes "ready V ok root s"
    and "\<And>w. \<lbrakk>ok w; \<And>b. CHR ''/'' \<notin> set b \<Longrightarrow> absent (V w) (root @ CHR ''/'' # b)\<rbrakk> \<Longrightarrow>
           Q () (s\<lparr>kw := w, kactions := nm # kactions s\<rparr>)"
  shows "wp (test_prologue K root nm act) Q s"
proof (rule wp_test_prologue [OF assms(1)], goal_cases)
  case (1 w i)
  show ?case
  proof (rule assms(2) [OF 1(1)])
    fix b :: string
    assume "CHR ''/'' \<notin> set b"
    then have "dirname (root @ CHR ''/'' # b) = root" by (rule dirname_comp)
    then show "absent (V w) (root @ CHR ''/'' # b)" unfolding absent_def using 1(4,5) by metis
  qed
qed

end

end
