(* ===== verification/Stores.thy ===== *)
theory Stores
  imports Files
begin

text \<open>
  The abstract file store.  \<open>store U M H w\<close> reads the kernel's world as a map \<open>M\<close> from the
  names of a fixed set \<open>U\<close> to file contents: the names of the map are distinct regular
  files, all other names of \<open>U\<close> are free, and \<open>H\<close> says which of the files is open, under
  which handle and with which flags.  Each rule is one step of the simulation: a call of
  the fixture or of the kernel changes the map as the abstract operation does.  The ports
  on several files are proved on the map alone.
\<close>

definition handle :: "(nat \<times> oflag set) option \<Rightarrow> nat \<rightharpoonup> oflag set" where
  "handle x = (case x of None \<Rightarrow> Map.empty | Some (h, fl) \<Rightarrow> [h \<mapsto> fl])"

lemma handle_simps [simp]: "handle None = Map.empty" "handle (Some (h, fl)) = [h \<mapsto> fl]"
  by (simp_all add: handle_def)

context posix_kernel
begin

definition store ::
  "string set \<Rightarrow> (string \<rightharpoonup> byte list) \<Rightarrow> (string \<rightharpoonup> nat \<times> oflag set) \<Rightarrow> 'w \<Rightarrow> bool" where
  "store U M H w = (ok w \<and> (\<forall>p\<in>U. is_dir (V w) (dirname p)) \<and> dom M \<subseteq> U \<and> dom H \<subseteq> dom M \<and>
     (\<forall>p\<in>U. M p = None \<longrightarrow> names (V w) p = None) \<and>
     (\<forall>p d. M p = Some d \<longrightarrow> file_on w p (the (names (V w) p)) d (handle (H p))) \<and>
     inj_on (names (V w)) (dom M))"

lemma store_ok: "store U M H w \<Longrightarrow> ok w"
  by (simp add: store_def)

lemma store_file: "store U M H w \<Longrightarrow> M p = Some d \<Longrightarrow> file_on w p (the (names (V w) p)) d (handle (H p))"
  by (simp add: store_def)

lemma store_absent: "store U M H w \<Longrightarrow> p \<in> U \<Longrightarrow> M p = None \<Longrightarrow> absent (V w) p"
  by (simp add: store_def absent_def)

lemma store_in: "store U M H w \<Longrightarrow> M p = Some d \<Longrightarrow> p \<in> U"
  by (auto simp: store_def)

lemma store_start:
  "\<lbrakk>ok w; \<And>p. p \<in> U \<Longrightarrow> absent (V w) p\<rbrakk> \<Longrightarrow> store U Map.empty Map.empty w"
  by (simp add: store_def absent_def)

lemma store_cong: "store U M H w \<Longrightarrow> ok w' \<Longrightarrow> V w' = V w \<Longrightarrow> store U M H w'"
  by (simp add: store_def file_on_def)

text \<open>The other files of the map are other inodes.\<close>

lemma store_other:
  assumes "store U M H w" "M q = Some e" "q \<noteq> p" and "M p = Some d \<and> i = the (names (V w) p) \<or> fresh (V w) i"
  shows "the (names (V w) q) \<noteq> i"
proof -
  have q: "names (V w) q = Some (the (names (V w) q))" using file_on_has(2) [OF store_file [OF assms(1,2)]] .
  from assms(4) show ?thesis
  proof
    assume "fresh (V w) i"
    then show ?thesis using q by (auto simp: fresh_def)
  next
    assume p: "M p = Some d \<and> i = the (names (V w) p)"
    then have "names (V w) p = Some i" using file_on_has(2) [OF store_file [OF assms(1)]] by blast
    moreover have "names (V w) q \<noteq> names (V w) p"
      using assms(1-3) p unfolding store_def inj_on_def by blast
    ultimately show ?thesis using q by metis
  qed
qed

lemma store_others:
  assumes "store U M H w" "others p i w w'" "M q = Some e" "q \<noteq> p"
    and "M p = Some d \<and> i = the (names (V w) p) \<or> fresh (V w) i"
  shows "file_on w' q (the (names (V w') q)) e (handle (H q))" "names (V w') q = names (V w) q"
proof -
  show n: "names (V w') q = names (V w) q" by (rule others_names(1) [OF assms(2,4)])
  show "file_on w' q (the (names (V w') q)) e (handle (H q))"
    unfolding n by (rule othersD [OF assms(2) store_file [OF assms(1,3)] store_other [OF assms(1,3-5)]])
qed

lemma store_step:
  assumes "store U M H w" "p \<in> U" "file_on w' p i d (handle x)" "others p i w w'"
    and "(\<exists>e. M p = Some e) \<and> i = the (names (V w) p) \<or> fresh (V w) i"
  shows "store U (M(p \<mapsto> d)) (H(p := x)) w'"
proof -
  obtain e where e: "M p = Some e \<and> i = the (names (V w) p) \<or> fresh (V w) i" using assms(5) by blast
  note o = store_others [OF assms(1,4) _ _ e] and n = file_on_has(2) [OF assms(3)]
  have inj: "inj_on (names (V w')) (insert p (dom M))"
  proof (rule inj_onI)
    fix q r
    assume qr: "q \<in> insert p (dom M)" "r \<in> insert p (dom M)" "names (V w') q = names (V w') r"
    have np: "names (V w') x \<noteq> Some i" if x: "x \<in> dom M" "x \<noteq> p" for x
    proof -
      obtain f where f: "M x = Some f" using x(1) by blast
      have "names (V w) x = Some (the (names (V w) x))" using file_on_has(2) [OF store_file [OF assms(1) f]] .
      then show ?thesis using o(2) [OF f x(2)] store_other [OF assms(1) f x(2) e] by (metis option.sel)
    qed
    show "q = r"
    proof (cases "q = p \<or> r = p")
      case True
      then show ?thesis using qr np n by (metis insertE)
    next
      case False
      then have "names (V w) q = names (V w) r" "q \<in> dom M" "r \<in> dom M" using qr o(2) by auto
      then show ?thesis using assms(1) by (auto simp: store_def inj_on_def)
    qed
  qed
  moreover have "file_on w' q (the (names (V w') q)) f (handle ((H(p := x)) q))" if "(M(p \<mapsto> d)) q = Some f" for q f
    using that assms(3) n o(1) by (cases "q = p") auto
  ultimately show ?thesis
    using assms(1-4) others_names [OF assms(4)] unfolding store_def
    by (auto simp: file_on_ok)
qed

text \<open>
  The state of a case on the store.  \<open>ctx\<close> is all of the state but the kernel's world:
  the failures so far, the deferred actions and the static variables.
\<close>

definition ctx :: "('w, 'z) kst_scheme \<Rightarrow> nat \<times> string list \<times> 'z" where
  "ctx s = (kfails s, kactions s, kst.more s)"

lemma ctx_kw [simp]: "ctx (s\<lparr>kw := w\<rparr>) = ctx s"
  by (simp add: ctx_def)

lemma ctx_kfails: "ctx t = ctx s \<Longrightarrow> kfails t = kfails s"
  by (simp add: ctx_def)

definition holds ::
  "nat \<times> string list \<times> 'z \<Rightarrow> string set \<Rightarrow> (string \<rightharpoonup> byte list) \<Rightarrow> (string \<rightharpoonup> nat \<times> oflag set) \<Rightarrow>
   ('w, 'z) kst_scheme \<Rightarrow> bool" where
  "holds c U M H s = (ctx s = c \<and> store U M H (kw s))"

lemma holdsD: "holds c U M H s \<Longrightarrow> store U M H (kw s)" "holds c U M H s \<Longrightarrow> ctx s = c"
  by (simp_all add: holds_def)

lemma holds_fails: "holds c U M H s \<Longrightarrow> kfails s = fst c"
  by (auto simp: holds_def ctx_def)

lemma s_prologue:
  assumes "ready V ok root s" and "\<And>p. p \<in> U \<Longrightarrow> \<exists>b. p = root @ CHR ''/'' # b \<and> CHR ''/'' \<notin> set b"
    and "\<And>w. store U Map.empty Map.empty w \<Longrightarrow> Q () (s\<lparr>kw := w, kactions := nm # kactions s\<rparr>)"
  shows "wp (test_prologue K root nm act) Q s"
  by (rule wp_dir_prologue [OF assms(1)], rule assms(3), rule store_start) (use assms(2) in blast)+

lemma s_alloc:
  assumes "store U M H (kw s)" "\<And>w. store U M H w \<Longrightarrow> Q () (s\<lparr>kw := w\<rparr>)"
  shows "wp (must_alloc K n) Q s"
  by (rule wp_alloc_ok [OF store_ok [OF assms(1)]], rule assms(2), rule store_cong [OF assms(1)])

lemma s_alloc2:
  assumes "store U M H (kw s)" "\<And>w. store U M H w \<Longrightarrow> Q () (s\<lparr>kw := w\<rparr>)"
  shows "wp (must_alloc2 K m n) Q s"
  by (rule wp_alloc2_ok [OF store_ok [OF assms(1)]], rule assms(2), rule store_cong [OF assms(1)])

section \<open>Whole-file operations\<close>

lemma s_write_new:
  assumes "store U M H (kw s)" "p \<in> U" "M p = None" "length d < size_limit"
    and "\<And>w. store U (M(p \<mapsto> d)) (H(p := None)) w \<Longrightarrow> Q 0 (s\<lparr>kw := w\<rparr>)"
  shows "wp (xfs_write_new_file K p d) Q s"
  by (rule f_write_new [OF store_ok [OF assms(1)] store_absent [OF assms(1-3)] assms(4)], rule assms(5),
      rule store_step [OF assms(1,2)]) auto

lemma s_kstat:
  assumes "store U M H (kw s)" "M p = Some d"
    and "\<And>w st. \<lbrakk>store U M H w; st_size st = int (length d)\<rbrakk> \<Longrightarrow> Q (Inr st) (s\<lparr>kw := w\<rparr>)"
  shows "wp (xfs_kstat K p) Q s"
  by (rule f_kstat [OF store_file [OF assms(1,2)]], rule assms(3))
    (use store_cong [OF assms(1)] file_on_ok in auto)

lemma s_kstat_free:
  assumes "store U M H (kw s)" "p \<in> U" "M p = None"
    and "\<And>w. store U M H w \<Longrightarrow> Q (Inl (- ENOENT)) (s\<lparr>kw := w\<rparr>)"
  shows "wp (xfs_kstat K p) Q s"
  by (rule xfs_kstat_absent [OF store_ok [OF assms(1)] store_absent [OF assms(1-3)]], rule assms(4))
    (rule store_cong [OF assms(1)])

lemma s_exists:
  assumes "store U M H (kw s)" "p \<in> U"
    and "\<And>w. store U M H w \<Longrightarrow> Q (M p \<noteq> None) (s\<lparr>kw := w\<rparr>)"
  shows "wp (xfs_exists K p) Q s"
proof (cases "M p")
  case None
  show ?thesis
    by (rule xfs_exists_absent [OF store_ok [OF assms(1)] store_absent [OF assms(1,2) None]])
      (use assms(3) None store_cong [OF assms(1)] in auto)
next
  case (Some d)
  show ?thesis
    by (rule xfs_exists_found [OF store_ok [OF assms(1)] file_on_has(2) [OF store_file [OF assms(1) Some]]])
      (use assms(3) Some store_cong [OF assms(1)] in auto)
qed

lemma s_truncate:
  assumes "store U M H (kw s)" "M p = Some d" "0 \<le> x" "nat x < size_limit"
    and "\<And>w. store U (M(p \<mapsto> resize (nat x) d)) H w \<Longrightarrow> Q 0 (s\<lparr>kw := w\<rparr>)"
  shows "wp (xfs_truncate K p x) Q s"
  by (rule f_truncate_at [OF store_file [OF assms(1,2)] assms(3,4)], rule assms(5))
    (use store_step [OF assms(1) store_in [OF assms(1,2)], where x = "H p"] assms(2) in auto)

lemma s_read_range:
  assumes "store U M H (kw s)" "M p = Some d" "0 \<le> x" "nat x + n < size_limit"
    and "\<And>w b. \<lbrakk>store U M H w; b = read_at (nat x) n d\<rbrakk> \<Longrightarrow> Q (int (length b), b) (s\<lparr>kw := w\<rparr>)"
  shows "wp (xfs_read_range K p n x) Q s"
proof (rule f_read_range_at [OF store_file [OF assms(1,2)] assms(3,4)], rule assms(5), goal_cases)
  case (1 w b)
  have "store U (M(p \<mapsto> d)) (H(p := H p)) w"
    by (rule store_step [OF assms(1) store_in [OF assms(1,2)] 1(1,2)]) (use assms(2) in auto)
  then show ?case using assms(2) by (simp add: fun_upd_idem)
qed

lemma s_unlink:
  assumes "store U M H (kw s)" "M p = Some d" "H p = None"
    and "\<And>w. store U (M(p := None)) H w \<Longrightarrow> Q 0 (s\<lparr>kw := w\<rparr>)"
  shows "wp (xfs_unlink K p) Q s"
proof (rule f_unlink [where i = "the (names (V (kw s)) p)" and d = d], goal_cases)
  case 1
  show ?case using store_file [OF assms(1,2)] by (simp add: assms(3))
next
  case (2 w)
  note o = store_others [OF assms(1) 2(3), where d = d]
  have "store U (M(p := None)) H w"
    using assms 2 o others_names [OF 2(3)] unfolding store_def inj_on_def
    by (auto simp: absent_def split: if_splits)
  then show ?case by (rule assms(4))
qed

lemma s_unlink_free:
  assumes "store U M H (kw s)" "p \<in> U" "M p = None"
    and "\<And>w. store U M H w \<Longrightarrow> Q (- ENOENT) (s\<lparr>kw := w\<rparr>)"
  shows "wp (xfs_unlink K p) Q s"
  by (rule xfs_unlink_absent [OF store_ok [OF assms(1)] store_absent [OF assms(1-3)]], rule assms(4))
    (rule store_cong [OF assms(1)])

section \<open>Open files\<close>

lemma s_create:
  assumes "store U M H (kw s)" "p \<in> U" "M p = None" "O_CREAT \<in> fl"
    and "\<And>w h. store U (M(p \<mapsto> [])) (H(p \<mapsto> (h, fl))) w \<Longrightarrow> Q (Inr h) (s\<lparr>kw := w\<rparr>)"
  shows "wp (kcall (filp_open K p fl m)) Q s"
  by (rule f_create [OF store_ok [OF assms(1)] store_absent [OF assms(1-3)] assms(4)], rule assms(5),
      rule store_step [OF assms(1,2)]) auto

lemma s_open:
  assumes "store U M H (kw s)" "M p = Some d" "H p = None" "O_EXCL \<notin> fl" "O_DIRECTORY \<notin> fl"
    and "\<And>w h. store U (M(p \<mapsto> if O_TRUNC \<in> fl then [] else d)) (H(p \<mapsto> (h, fl))) w \<Longrightarrow> Q (Inr h) (s\<lparr>kw := w\<rparr>)"
  shows "wp (kcall (filp_open K p fl m)) Q s"
proof (rule f_open [where i = "the (names (V (kw s)) p)" and d = d, OF _ assms(4,5)], goal_cases)
  case 1
  show ?case using store_file [OF assms(1,2)] by (simp add: assms(3))
next
  case (2 w h)
  show ?case
    by (rule assms(6), rule store_step [OF assms(1) store_in [OF assms(1,2)] _ 2(2)]) (use 2 assms(2) in auto)
qed

lemma s_step_open:
  assumes "store U M H (kw s)" "M p = Some d" "H p = Some (h, fl)"
  shows "file_on (kw s) p (the (names (V (kw s)) p)) d [h \<mapsto> fl]"
    and "\<And>w e. \<lbrakk>file_on w p (the (names (V (kw s)) p)) e [h \<mapsto> fl]; others p (the (names (V (kw s)) p)) (kw s) w\<rbrakk> \<Longrightarrow>
      store U (M(p \<mapsto> e)) H w"
    and "\<And>w. \<lbrakk>file_on w p (the (names (V (kw s)) p)) d [h \<mapsto> fl]; others p (the (names (V (kw s)) p)) (kw s) w\<rbrakk> \<Longrightarrow>
      store U M H w"
    and "\<And>w. \<lbrakk>file_on w p (the (names (V (kw s)) p)) d Map.empty; others p (the (names (V (kw s)) p)) (kw s) w\<rbrakk> \<Longrightarrow>
      store U M (H(p := None)) w"
proof -
  note st = store_step [OF assms(1) store_in [OF assms(1,2)]]
  show "file_on (kw s) p (the (names (V (kw s)) p)) d [h \<mapsto> fl]"
    using store_file [OF assms(1,2)] by (simp add: assms(3))
  show a: "store U (M(p \<mapsto> e)) H w"
    if "file_on w p (the (names (V (kw s)) p)) e [h \<mapsto> fl]" "others p (the (names (V (kw s)) p)) (kw s) w" for w e
    using st [of w _ e "H p"] that assms(2,3) by (simp add: fun_upd_idem)
  show "store U M H w"
    if "file_on w p (the (names (V (kw s)) p)) d [h \<mapsto> fl]" "others p (the (names (V (kw s)) p)) (kw s) w" for w
    using a [OF that] assms(2) by (simp add: fun_upd_idem)
  show "store U M (H(p := None)) w"
    if "file_on w p (the (names (V (kw s)) p)) d Map.empty" "others p (the (names (V (kw s)) p)) (kw s) w" for w
    using st [of w _ d None] that assms(2) by (simp add: fun_upd_idem)
qed

lemma s_close:
  assumes "store U M H (kw s)" "M p = Some d" "H p = Some (h, fl)"
    and "\<And>w. store U M (H(p := None)) w \<Longrightarrow> Q () (s\<lparr>kw := w\<rparr>)"
  shows "wp (kdo (filp_close K h)) Q s"
  by (rule f_close [OF s_step_open(1) [OF assms(1-3)]], rule assms(4), rule s_step_open(4) [OF assms(1-3)])

lemma s_write:
  assumes "store U M H (kw s)" "M p = Some d" "H p = Some (h, fl)" "writable fl" "O_APPEND \<notin> fl" "0 \<le> x"
    and "nat x + length b < size_limit"
    and "\<And>w. store U (M(p \<mapsto> write_at (nat x) b d)) H w \<Longrightarrow> Q (int (length b), x + int (length b)) (s\<lparr>kw := w\<rparr>)"
  shows "wp (kcall (kernel_write K h b x)) Q s"
  by (rule f_write_at [OF s_step_open(1) [OF assms(1-3)] assms(4-7)], rule assms(8), rule s_step_open(2) [OF assms(1-3)])

lemma s_append:
  assumes "store U M H (kw s)" "M p = Some d" "H p = Some (h, fl)" "writable fl" "O_APPEND \<in> fl" "0 \<le> x"
    and "length d + length b < size_limit"
    and "\<And>w pos'. store U (M(p \<mapsto> d @ b)) H w \<Longrightarrow> Q (int (length b), pos') (s\<lparr>kw := w\<rparr>)"
  shows "wp (kcall (kernel_write K h b x)) Q s"
  by (rule f_append_at [OF s_step_open(1) [OF assms(1-3)] assms(4-7)], rule assms(8), rule s_step_open(2) [OF assms(1-3)])

lemma s_read:
  assumes "store U M H (kw s)" "M p = Some d" "H p = Some (h, fl)" "readable fl" "0 \<le> x" "nat x + n < size_limit"
    and "\<And>w b. \<lbrakk>store U M H w; b = read_at (nat x) n d\<rbrakk> \<Longrightarrow> Q (int (length b), b, x + int (length b)) (s\<lparr>kw := w\<rparr>)"
  shows "wp (kcall (kernel_read K h n x)) Q s"
  by (rule f_read_at [OF s_step_open(1) [OF assms(1-3)] assms(4-6)], rule assms(7), rule s_step_open(3) [OF assms(1-3)])

lemma s_fsync:
  assumes "store U M H (kw s)" "M p = Some d" "H p = Some (h, fl)" and "\<And>w. store U M H w \<Longrightarrow> Q 0 (s\<lparr>kw := w\<rparr>)"
  shows "wp (kcall (vfs_fsync K h)) Q s"
  by (rule f_fsync [OF s_step_open(1) [OF assms(1-3)]], rule assms(4), rule s_step_open(3) [OF assms(1-3)])

lemma s_ftruncate:
  assumes "store U M H (kw s)" "M p = Some d" "H p = Some (h, fl)" "writable fl" "0 \<le> x" "nat x < size_limit"
    and "\<And>w. store U (M(p \<mapsto> resize (nat x) d)) H w \<Longrightarrow> Q 0 (s\<lparr>kw := w\<rparr>)"
  shows "wp (xfs_ftruncate K h x) Q s"
  by (rule f_ftruncate_at [OF s_step_open(1) [OF assms(1-3)] assms(4-6)], rule assms(7), rule s_step_open(2) [OF assms(1-3)])

section \<open>Rename\<close>

lemma store_no_dir: "store U M H w \<Longrightarrow> p \<in> U \<Longrightarrow> \<not> is_dir (V w) p"
proof (cases "M p")
  case (Some d)
  assume "store U M H w"
  from file_on_has(2,3) [OF store_file [OF this Some]] show ?thesis by (auto simp: is_dir_def split: option.splits)
qed (simp add: store_def is_dir_def)

lemma store_move:
  assumes "store U M H w" "M p = Some d" "q \<in> U" "p \<noteq> q" "H p = None" "H q = None" and "ok w'"
    and n: "names (V w') = (names (V w))(p := None, q \<mapsto> the (names (V w) p))"
    and t: "\<And>j. i_type (inodes (V w') j) = i_type (inodes (V w) j)" "\<And>j. data_of (V w') j = data_of (V w) j"
      "fds (V w') = fds (V w)"
  shows "store U (M(p := None, q \<mapsto> d)) H w'"
  unfolding store_def
proof (intro conjI allI impI ballI)
  let ?N = "names (V w)"
  have nm: "?N r = Some (the (?N r))" if "M r = Some e" for r e
    using file_on_has(2) [OF store_file [OF assms(1) that]] .
  have same: "file_on w' r (the (names (V w') r)) e (handle (H x))"
    if "file_on w x (the (?N x)) e (handle (H x))" "names (V w') r = ?N x" for r x e
    using that assms(7) t by (simp add: file_on_def has_inode_def)
  show "file_on w' r (the (names (V w') r)) e (handle (H r))" if r: "(M(p := None, q \<mapsto> d)) r = Some e" for r e
  proof (cases "r = q")
    case True
    then show ?thesis
      using same [OF store_file [OF assms(1,2)], of q] r assms(4-6) nm [OF assms(2)] by (simp add: n)
  next
    case False
    then have "r \<noteq> p" "M r = Some e" using r by (auto split: if_splits)
    then show ?thesis using same [OF store_file [OF assms(1)], of r e r] False by (simp add: n)
  qed
  have dir: "dirname r \<noteq> p" "dirname r \<noteq> q" if "r \<in> U" for r
    using store_no_dir [OF assms(1)] store_in [OF assms(1,2)] assms(1,3) that by (auto simp: store_def)
  show "is_dir (V w') (dirname r)" if "r \<in> U" for r
    using dir [OF that] assms(1) that t(1) by (simp add: store_def is_dir_def n split: option.splits)
  show "names (V w') r = None" if "r \<in> U" "(M(p := None, q \<mapsto> d)) r = None" for r
    using that assms(1) by (auto simp: n store_def split: if_splits)
  have inj: "inj_on ?N (dom M)" using assms(1) by (simp add: store_def)
  show "inj_on (names (V w')) (dom (M(p := None, q \<mapsto> d)))"
  proof (rule inj_onI)
    fix a b
    assume ab: "a \<in> dom (M(p := None, q \<mapsto> d))" "b \<in> dom (M(p := None, q \<mapsto> d))" "names (V w') a = names (V w') b"
    let ?src = "\<lambda>x. if x = q then p else x"
    have "?src x \<in> dom M \<and> names (V w') x = ?N (?src x)" if "x \<in> dom (M(p := None, q \<mapsto> d))" for x
      using that assms(2,4) nm [OF assms(2)] by (auto simp: n split: if_splits)
    with ab have "?src a = ?src b" using inj by (metis inj_onD)
    then show "a = b" using ab(1,2) assms(4) by (auto split: if_splits)
  qed
qed (use assms in \<open>auto simp: store_def\<close>)

lemma s_rename:
  assumes "store U M H (kw s)" "M p = Some d" "q \<in> U" "p \<noteq> q" "H p = None" "H q = None"
    and "\<And>w. store U (M(p := None, q \<mapsto> d)) H w \<Longrightarrow> Q 0 (s\<lparr>kw := w\<rparr>)"
  shows "wp (xfs_rename K p q) Q s"
proof -
  let ?i = "the (names (V (kw s)) p)"
  note f = file_on_has [OF store_file [OF assms(1,2)]] and mv = store_move [OF assms(1-6)]
  have nd: "i_type (inodes (V (kw s)) ?i) \<noteq> S_DIR" using f(3) by simp
  show ?thesis
  proof (cases "M q")
    case None
    show ?thesis
      by (rule xfs_rename_new [OF store_ok [OF assms(1)] f(2) nd store_absent [OF assms(1,3) None]], rule assms(7), rule mv)
        (use f in simp_all)
  next
    case (Some e)
    let ?j = "the (names (V (kw s)) q)"
    note g = file_on_has [OF store_file [OF assms(1) Some]]
    have "?i \<noteq> ?j" by (rule store_other [OF assms(1,2) assms(4), where d = e]) (use Some in simp)
    moreover have "closed (V (kw s)) ?j"
      using store_file [OF assms(1) Some] by (simp add: file_on_def closed_def assms(6))
    ultimately show ?thesis
      by (intro xfs_rename_over [OF store_ok [OF assms(1)] f(2) nd g(2)] assms(7) mv) (use f g in simp_all)
  qed
qed

section \<open>The rules on states\<close>

text \<open>
  The same rules over \<open>holds\<close>, with the state after a call a new variable: a case is then
  consumed call by call, each next state described by its store alone.
\<close>

lemma h_write_new:
  assumes "holds c U M H s" "p \<in> U" "M p = None" "length d < size_limit"
    and "\<And>t. holds c U (M(p \<mapsto> d)) (H(p := None)) t \<Longrightarrow> Q 0 t"
  shows "wp (xfs_write_new_file K p d) Q s"
  by (rule s_write_new [OF holdsD(1) [OF assms(1)] assms(2-4)], rule assms(5)) (use holdsD(2) [OF assms(1)] in \<open>simp_all add: holds_def\<close>)

lemma h_write_fresh:
  assumes "holds c U M H s" "p \<in> U" "M p = None" "length d < size_limit"
    and "\<And>t. holds c U (M(p \<mapsto> d)) H t \<Longrightarrow> Q 0 t"
  shows "wp (xfs_write_new_file K p d) Q s"
proof -
  have "dom H \<subseteq> dom M" using holdsD(1) [OF assms(1)] by (simp add: store_def)
  then have "H(p := None) = H" using assms(3) by (intro fun_upd_idem) (metis domIff subsetD)
  then show ?thesis using assms(5) by (intro h_write_new [OF assms(1-4)]) simp
qed

lemma h_exists:
  assumes "holds c U M H s" "p \<in> U"
    and "\<And>t. holds c U M H t \<Longrightarrow> Q (M p \<noteq> None) t"
  shows "wp (xfs_exists K p) Q s"
  by (rule s_exists [OF holdsD(1) [OF assms(1)] assms(2)], rule assms(3)) (use holdsD(2) [OF assms(1)] in \<open>simp_all add: holds_def\<close>)

lemma h_truncate:
  assumes "holds c U M H s" "M p = Some d" "0 \<le> x" "nat x < size_limit"
    and "\<And>t. holds c U (M(p \<mapsto> resize (nat x) d)) H t \<Longrightarrow> Q 0 t"
  shows "wp (xfs_truncate K p x) Q s"
  by (rule s_truncate [OF holdsD(1) [OF assms(1)] assms(2-4)], rule assms(5)) (use holdsD(2) [OF assms(1)] in \<open>simp_all add: holds_def\<close>)

lemma h_read_range:
  assumes "holds c U M H s" "M p = Some d" "0 \<le> x" "nat x + n < size_limit"
    and "\<And>t b. \<lbrakk>holds c U M H t; b = read_at (nat x) n d\<rbrakk> \<Longrightarrow> Q (int (length b), b) t"
  shows "wp (xfs_read_range K p n x) Q s"
  by (rule s_read_range [OF holdsD(1) [OF assms(1)] assms(2-4)], rule assms(5)) (use holdsD(2) [OF assms(1)] in \<open>simp_all add: holds_def\<close>)

lemma h_unlink:
  assumes "holds c U M H s" "M p = Some d" "H p = None"
    and "\<And>t. holds c U (M(p := None)) H t \<Longrightarrow> Q 0 t"
  shows "wp (xfs_unlink K p) Q s"
  by (rule s_unlink [OF holdsD(1) [OF assms(1)] assms(2-3)], rule assms(4)) (use holdsD(2) [OF assms(1)] in \<open>simp_all add: holds_def\<close>)

lemma h_unlink_free:
  assumes "holds c U M H s" "p \<in> U" "M p = None"
    and "\<And>t. holds c U M H t \<Longrightarrow> Q (- ENOENT) t"
  shows "wp (xfs_unlink K p) Q s"
  by (rule s_unlink_free [OF holdsD(1) [OF assms(1)] assms(2-3)], rule assms(4)) (use holdsD(2) [OF assms(1)] in \<open>simp_all add: holds_def\<close>)

lemma h_unlink_any:
  assumes "holds c U M H s" "p \<in> U" "H p = None" and "\<And>t e. holds c U (M(p := None)) H t \<Longrightarrow> Q e t"
  shows "wp (xfs_unlink K p) Q s"
proof (cases "M p")
  case None
  then have "M(p := None) = M" by (simp add: fun_upd_idem)
  then show ?thesis using assms(4) by (intro h_unlink_free [OF assms(1,2) None]) simp
next
  case (Some d)
  then show ?thesis using assms(4) by (intro h_unlink [OF assms(1) Some assms(3)])
qed

lemma h_create:
  assumes "holds c U M H s" "p \<in> U" "M p = None" "O_CREAT \<in> fl"
    and "\<And>t h. holds c U (M(p \<mapsto> [])) (H(p \<mapsto> (h, fl))) t \<Longrightarrow> Q (Inr h) t"
  shows "wp (kcall (filp_open K p fl m)) Q s"
  by (rule s_create [OF holdsD(1) [OF assms(1)] assms(2-4)], rule assms(5)) (use holdsD(2) [OF assms(1)] in \<open>simp_all add: holds_def\<close>)

lemma h_open:
  assumes "holds c U M H s" "M p = Some d" "H p = None" "O_EXCL \<notin> fl" "O_DIRECTORY \<notin> fl"
    and "\<And>t h. holds c U (M(p \<mapsto> if O_TRUNC \<in> fl then [] else d)) (H(p \<mapsto> (h, fl))) t \<Longrightarrow> Q (Inr h) t"
  shows "wp (kcall (filp_open K p fl m)) Q s"
  by (rule s_open [OF holdsD(1) [OF assms(1)] assms(2-5)], rule assms(6)) (use holdsD(2) [OF assms(1)] in \<open>simp_all add: holds_def\<close>)

lemma h_open_keep:
  assumes "holds c U M H s" "M p = Some d" "H p = None" "O_EXCL \<notin> fl" "O_DIRECTORY \<notin> fl" "O_TRUNC \<notin> fl"
    and "\<And>t h. holds c U M (H(p \<mapsto> (h, fl))) t \<Longrightarrow> Q (Inr h) t"
  shows "wp (kcall (filp_open K p fl m)) Q s"
  by (rule h_open [OF assms(1-5)], rule assms(7)) (use assms(2,6) in \<open>simp add: fun_upd_idem\<close>)

lemma h_open_create:
  assumes "holds c U M H s" "p \<in> U" "H p = None" "O_CREAT \<in> fl" "O_EXCL \<notin> fl" "O_DIRECTORY \<notin> fl"
    and "\<And>t h. holds c U (M(p \<mapsto> if O_TRUNC \<in> fl then [] else case M p of None \<Rightarrow> [] | Some d \<Rightarrow> d)) (H(p \<mapsto> (h, fl))) t \<Longrightarrow>
           Q (Inr h) t"
  shows "wp (kcall (filp_open K p fl m)) Q s"
proof (cases "M p")
  case None
  show ?thesis by (rule h_create [OF assms(1,2) None assms(4)]) (use assms(7) None in \<open>simp split: if_splits\<close>)
next
  case (Some d)
  show ?thesis by (rule h_open [OF assms(1) Some assms(3,5,6)], rule assms(7), simp add: Some split: if_splits)
qed

lemma h_close:
  assumes "holds c U M H s" "M p = Some d" "H p = Some (h, fl)"
    and "\<And>t. holds c U M (H(p := None)) t \<Longrightarrow> Q () t"
  shows "wp (kdo (filp_close K h)) Q s"
  by (rule s_close [OF holdsD(1) [OF assms(1)] assms(2-3)], rule assms(4)) (use holdsD(2) [OF assms(1)] in \<open>simp_all add: holds_def\<close>)

lemma h_close_last:
  assumes "holds c U M (H(p \<mapsto> (h, fl))) s" "M p = Some d" "H p = None" and "\<And>t. holds c U M H t \<Longrightarrow> Q () t"
  shows "wp (kdo (filp_close K h)) Q s"
proof (rule h_close [where p = p and fl = fl, OF assms(1,2)])
  show "Q () t" if "holds c U M (H(p \<mapsto> (h, fl), p := None)) t" for t
    using that assms(3,4) by (simp add: fun_upd_idem)
qed simp

lemma h_close_same:
  assumes "holds c U (M(p \<mapsto> d)) (H(p \<mapsto> (h, fl))) s" "H p = None" and "\<And>t. holds c U (M(p \<mapsto> d)) H t \<Longrightarrow> Q () t"
  shows "wp (kdo (filp_close K h)) Q s"
  by (rule h_close_last [where M = "M(p \<mapsto> d)" and d = d, OF assms(1)]) (simp_all only: assms(2,3) fun_upd_same)

lemma h_write:
  assumes "holds c U M H s" "M p = Some d" "H p = Some (h, fl)" "writable fl" "O_APPEND \<notin> fl" "0 \<le> x" "nat x + length b < size_limit"
    and "\<And>t. holds c U (M(p \<mapsto> write_at (nat x) b d)) H t \<Longrightarrow> Q (int (length b), x + int (length b)) t"
  shows "wp (kcall (kernel_write K h b x)) Q s"
  by (rule s_write [OF holdsD(1) [OF assms(1)] assms(2-7)], rule assms(8)) (use holdsD(2) [OF assms(1)] in \<open>simp_all add: holds_def\<close>)

lemma h_write_same:
  assumes "holds c U (M(p \<mapsto> d)) (H(p \<mapsto> (h, fl))) s" "writable fl" "O_APPEND \<notin> fl" "0 \<le> x" "nat x + length b < size_limit"
    and "\<And>t. holds c U (M(p \<mapsto> write_at (nat x) b d)) (H(p \<mapsto> (h, fl))) t \<Longrightarrow> Q (int (length b), x + int (length b)) t"
  shows "wp (kcall (kernel_write K h b x)) Q s"
  by (rule h_write [where M = "M(p \<mapsto> d)" and H = "H(p \<mapsto> (h, fl))" and p = p and d = d and fl = fl, OF assms(1)])
    (simp_all only: assms fun_upd_same fun_upd_upd simp_thms)

lemma h_append:
  assumes "holds c U M H s" "M p = Some d" "H p = Some (h, fl)" "writable fl" "O_APPEND \<in> fl" "0 \<le> x" "length d + length b < size_limit"
    and "\<And>t x'. holds c U (M(p \<mapsto> d @ b)) H t \<Longrightarrow> Q (int (length b), x') t"
  shows "wp (kcall (kernel_write K h b x)) Q s"
  by (rule s_append [OF holdsD(1) [OF assms(1)] assms(2-7)], rule assms(8)) (use holdsD(2) [OF assms(1)] in \<open>simp_all add: holds_def\<close>)

lemma h_read:
  assumes "holds c U M H s" "M p = Some d" "H p = Some (h, fl)" "readable fl" "0 \<le> x" "nat x + n < size_limit"
    and "\<And>t b. \<lbrakk>holds c U M H t; b = read_at (nat x) n d\<rbrakk> \<Longrightarrow> Q (int (length b), b, x + int (length b)) t"
  shows "wp (kcall (kernel_read K h n x)) Q s"
  by (rule s_read [OF holdsD(1) [OF assms(1)] assms(2-6)], rule assms(7)) (use holdsD(2) [OF assms(1)] in \<open>simp_all add: holds_def\<close>)

lemma h_fsync:
  assumes "holds c U M H s" "M p = Some d" "H p = Some (h, fl)"
    and "\<And>t. holds c U M H t \<Longrightarrow> Q 0 t"
  shows "wp (kcall (vfs_fsync K h)) Q s"
  by (rule s_fsync [OF holdsD(1) [OF assms(1)] assms(2-3)], rule assms(4)) (use holdsD(2) [OF assms(1)] in \<open>simp_all add: holds_def\<close>)

lemma h_ftruncate:
  assumes "holds c U M H s" "M p = Some d" "H p = Some (h, fl)" "writable fl" "0 \<le> x" "nat x < size_limit"
    and "\<And>t. holds c U (M(p \<mapsto> resize (nat x) d)) H t \<Longrightarrow> Q 0 t"
  shows "wp (xfs_ftruncate K h x) Q s"
  by (rule s_ftruncate [OF holdsD(1) [OF assms(1)] assms(2-6)], rule assms(7)) (use holdsD(2) [OF assms(1)] in \<open>simp_all add: holds_def\<close>)

lemma h_fsync_same:
  assumes "holds c U (M(p \<mapsto> d)) (H(p \<mapsto> (h, fl))) s"
    and "\<And>t. holds c U (M(p \<mapsto> d)) (H(p \<mapsto> (h, fl))) t \<Longrightarrow> Q 0 t"
  shows "wp (kcall (vfs_fsync K h)) Q s"
  by (rule h_fsync [OF assms(1), of p d]) (simp_all add: assms(2))

lemma h_ftruncate_same:
  assumes "holds c U (M(p \<mapsto> d)) (H(p \<mapsto> (h, fl))) s" "writable fl" "0 \<le> x" "nat x < size_limit"
    and "\<And>t. holds c U (M(p \<mapsto> resize (nat x) d)) (H(p \<mapsto> (h, fl))) t \<Longrightarrow> Q 0 t"
  shows "wp (xfs_ftruncate K h x) Q s"
  by (rule h_ftruncate [where M = "M(p \<mapsto> d)" and H = "H(p \<mapsto> (h, fl))" and p = p and d = d and fl = fl, OF assms(1)])
    (simp_all only: assms fun_upd_same fun_upd_upd simp_thms)

lemma h_rename:
  assumes "holds c U M H s" "M p = Some d" "q \<in> U" "p \<noteq> q" "H p = None" "H q = None"
    and "\<And>t. holds c U (M(p := None, q \<mapsto> d)) H t \<Longrightarrow> Q 0 t"
  shows "wp (xfs_rename K p q) Q s"
  by (rule s_rename [OF holdsD(1) [OF assms(1)] assms(2-6)], rule assms(7)) (use holdsD(2) [OF assms(1)] in \<open>simp_all add: holds_def\<close>)

lemma h_alloc:
  assumes "holds c U M H s"
    and "\<And>t. holds c U M H t \<Longrightarrow> Q () t"
  shows "wp (must_alloc K n) Q s"
  by (rule s_alloc [OF holdsD(1) [OF assms(1)]], rule assms(2)) (use holdsD(2) [OF assms(1)] in \<open>simp_all add: holds_def\<close>)

lemma h_alloc2:
  assumes "holds c U M H s"
    and "\<And>t. holds c U M H t \<Longrightarrow> Q () t"
  shows "wp (must_alloc2 K m n) Q s"
  by (rule s_alloc2 [OF holdsD(1) [OF assms(1)]], rule assms(2)) (use holdsD(2) [OF assms(1)] in \<open>simp_all add: holds_def\<close>)

lemma h_must_stat:
  assumes "holds c U M H s" "M p = Some d" "\<And>st. st_size st = int (length d) \<Longrightarrow> P st"
    and "\<And>t. holds c U M H t \<Longrightarrow> Q () t"
  shows "wp (must_stat K p P) Q s"
  by (rule wp_must_stat, rule s_kstat [OF holdsD(1) [OF assms(1)] assms(2)])
    (use assms(3,4) holdsD(2) [OF assms(1)] in \<open>simp add: holds_def\<close>)

lemma h_expect_stat:
  assumes "holds c U M H s" "M p = Some d" "\<And>st. st_size st = int (length d) \<Longrightarrow> P st"
    and "\<And>t. holds c U M H t \<Longrightarrow> Q () t"
  shows "wp (expect_stat K p P) Q s"
  by (rule wp_expect_stat, rule s_kstat [OF holdsD(1) [OF assms(1)] assms(2)])
    (use assms(3,4) holdsD(2) [OF assms(1)] in \<open>simp add: holds_def\<close>)

lemma h_prologue:
  assumes "ready V ok root s" and "\<And>p. p \<in> U \<Longrightarrow> \<exists>b. p = root @ CHR ''/'' # b \<and> CHR ''/'' \<notin> set b"
    and "\<And>t. holds (kfails s, nm # kactions s, kst.more s) U Map.empty Map.empty t \<Longrightarrow> Q () t"
  shows "wp (test_prologue K root nm act) Q s"
  by (rule s_prologue [OF assms(1,2)]) (auto intro: assms(3) simp: holds_def ctx_def)

lemmas h_steps = h_write_new h_exists h_truncate h_read_range h_unlink h_rename h_alloc h_alloc2 h_must_stat h_expect_stat

end

end
