(* ===== verification/Server.thy ===== *)
theory Server
  imports Stores
begin

text \<open>
  The server's own copy.  The directory the client mounts is \<open>XFS_EXPORT\<close> on the same
  machine, and some ports look at a file there after the client has closed it.  The locale
  \<open>exported\<close> adds to the file system contract what NFS promises of that (close-to-open
  consistency): a name below the mount point leads, below the export, to the file with the
  same contents when no handle is open on it.  The laws are about lookups and read-only
  opens, the only calls the ports make there, and the ports make them with no client
  handle on the file.
\<close>

locale exported = posix_kernel K V ok
  for K :: "'w kernel" and V :: "'w \<Rightarrow> fsv" and ok :: "'w \<Rightarrow> bool" +
  assumes server_path: "\<lbrakk>ok w; names (V w) (XFS_MNT @ p) = Some i; closed (V w) i;
        kern_path K (XFS_EXPORT @ p) {} w = (rp, w')\<rbrakk> \<Longrightarrow>
      \<exists>h. rp = Inr h \<and> refs (V w) h = None \<and> ok w' \<and> V w' = (V w)\<lparr>refs := (refs (V w))(h \<mapsto> i)\<rparr>"
    and server_absent: "\<lbrakk>ok w; absent (V w) (XFS_MNT @ p); kern_path K (XFS_EXPORT @ p) {} w = (rp, w')\<rbrakk> \<Longrightarrow>
      rp = Inl (- ENOENT) \<and> ok w' \<and> V w' = V w"
    and server_open: "\<lbrakk>ok w; has_inode (V w) (XFS_MNT @ p) i S_REG; closed (V w) i; fl \<subseteq> {O_RDONLY, O_LARGEFILE};
        filp_open K (XFS_EXPORT @ p) fl m w = (rf, w')\<rbrakk> \<Longrightarrow>
      \<exists>h. rf = Inr h \<and> fds (V w) h = None \<and> ok w' \<and> V w' = (V w)\<lparr>fds := (fds (V w))(h \<mapsto> (i, fl))\<rparr>"
begin

lemma f_closed: "file_on w p i d Map.empty \<Longrightarrow> closed (V w) i"
  by (simp add: file_on_def closed_def)

lemma f_open_server:
  assumes "file_on (kw s) (XFS_MNT @ p) i d Map.empty" "fl \<subseteq> {O_RDONLY, O_LARGEFILE}"
    and "\<And>w h. \<lbrakk>file_on w (XFS_MNT @ p) i d [h \<mapsto> fl]; others (XFS_MNT @ p) i (kw s) w\<rbrakk> \<Longrightarrow> Q (Inr h) (s\<lparr>kw := w\<rparr>)"
  shows "wp (kcall (filp_open K (XFS_EXPORT @ p) fl m)) Q s"
proof (rule wp_kcallI)
  fix a w
  assume "filp_open K (XFS_EXPORT @ p) fl m (kw s) = (a, w)"
  from server_open [OF file_on_ok [OF assms(1)] file_on_has(1) [OF assms(1)] f_closed [OF assms(1)] assms(2) this]
  obtain h where h: "a = Inr h" "fds (V (kw s)) h = None" "ok w"
    "V w = (V (kw s))\<lparr>fds := (fds (V (kw s)))(h \<mapsto> (i, fl))\<rparr>" by blast
  have "file_on w (XFS_MNT @ p) i d [h \<mapsto> fl]"
    using h assms(1) by (auto simp: file_on_def has_inode_def)
  moreover have "others (XFS_MNT @ p) i (kw s) w"
    by (rule othersI) (use h file_on_has(2) [OF assms(1)] not_dir(1) [OF file_on_has(1) [OF assms(1)]] in auto)
  ultimately show "Q a (s\<lparr>kw := w\<rparr>)" using assms(3) h(1) by simp
qed

lemma f_kstat_server:
  assumes "file_on (kw s) (XFS_MNT @ p) i d Map.empty"
    and "\<And>w st. \<lbrakk>file_on w (XFS_MNT @ p) i d Map.empty; st_size st = int (length d); V w = V (kw s)\<rbrakk> \<Longrightarrow>
           Q (Inr st) (s\<lparr>kw := w\<rparr>)"
  shows "wp (xfs_kstat K (XFS_EXPORT @ p)) Q s"
  unfolding xfs_kstat_def with_path_def wp_bnd
proof (rule wp_kcallI)
  let ?v = "V (kw s)"
  fix a w1
  assume "kern_path K (XFS_EXPORT @ p) {} (kw s) = (a, w1)"
  from server_path [OF file_on_ok [OF assms(1)] file_on_has(2) [OF assms(1)] f_closed [OF assms(1)] this]
  obtain h where h: "a = Inr h" "refs ?v h = None" "ok w1" "V w1 = ?v\<lparr>refs := (refs ?v)(h \<mapsto> i)\<rparr>" by blast
  obtain ra w2 where ga: "vfs_getattr K h w1 = (ra, w2)" by fastforce
  obtain st where st: "ok w2" "V w2 = V w1" "ra = Inr st" "stat_matches (V w1) i st"
    using getattr [OF h(3) _ ga, of i] h(4) by auto
  have put: "ok (path_put K h w2)" "V (path_put K h w2) = ?v"
    using path_put [OF st(1), of h i] st(2) h by simp_all
  have "st_size st = int (length d)"
    using st(4) h(4) file_on_has(3,4) [OF assms(1)] by (simp add: stat_matches_def)
  with assms(2) [OF file_on_cong [OF assms(1) put]] put st(3) h(1) ga
  show "wp (case a of Inl err \<Rightarrow> ret (Inl err)
      | Inr h \<Rightarrow> bnd (kcall (vfs_getattr K h)) (\<lambda>r. bnd (kdo (path_put K h)) (\<lambda>_. ret r))) Q (s\<lparr>kw := w1\<rparr>)"
    by (simp add: wp_kcall wp_kdo)
qed

lemma f_read_range_server:
  assumes "file_on (kw s) (XFS_MNT @ p) i d Map.empty" "0 \<le> x" "nat x + n < size_limit"
    and "\<And>w b. \<lbrakk>file_on w (XFS_MNT @ p) i d Map.empty; b = read_at (nat x) n d\<rbrakk> \<Longrightarrow> Q (int (length b), b) (s\<lparr>kw := w\<rparr>)"
  shows "wp (xfs_read_range K (XFS_EXPORT @ p) n x) Q s"
  unfolding xfs_read_range_def wp_bnd
proof (rule f_open_server [OF assms(1)], simp, unfold sum.case wp_bnd, goal_cases)
  case (1 w h)
  show ?case
  proof (rule f_read_at [where i = i and p = "XFS_MNT @ p" and d = d and fl = "{O_RDONLY, O_LARGEFILE}"], goal_cases)
    case (5 w2 b)
    show ?case
      unfolding prod.case wp_bnd
      by (rule f_close [where i = i and p = "XFS_MNT @ p" and d = d and fl = "{O_RDONLY, O_LARGEFILE}"])
        (use 5 assms(4) in simp_all)
  qed (use 1 assms(2,3) in \<open>simp_all add: readable_def\<close>)
qed

text \<open>The same on the store: a closed file of the store can be read below the export.\<close>

lemma h_open_server:
  assumes "holds c U M H s" "M (XFS_MNT @ p) = Some d" "H (XFS_MNT @ p) = None" "fl \<subseteq> {O_RDONLY, O_LARGEFILE}"
    and "\<And>t h. holds c U M (H(XFS_MNT @ p \<mapsto> (h, fl))) t \<Longrightarrow> Q (Inr h) t"
  shows "wp (kcall (filp_open K (XFS_EXPORT @ p) fl m)) Q s"
proof -
  note st = holdsD(1) [OF assms(1)]
  have f: "file_on (kw s) (XFS_MNT @ p) (the (names (V (kw s)) (XFS_MNT @ p))) d Map.empty"
    using store_file [OF st assms(2)] by (simp add: assms(3))
  show ?thesis
  proof (rule f_open_server [OF f assms(4)], goal_cases)
    case (1 w h)
    have "store U (M(XFS_MNT @ p \<mapsto> d)) (H(XFS_MNT @ p \<mapsto> (h, fl))) w"
      by (rule store_step [OF st store_in [OF st assms(2)] _ 1(2)]) (use 1(1) assms(2) in auto)
    then have "store U M (H(XFS_MNT @ p \<mapsto> (h, fl))) w" using assms(2) by (simp add: fun_upd_idem)
    then show ?case using assms(5) holdsD(2) [OF assms(1)] by (simp add: holds_def)
  qed
qed

lemma h_expect_stat_server:
  assumes "holds c U M H s" "M (XFS_MNT @ p) = Some d" "H (XFS_MNT @ p) = None"
    and "\<And>st. st_size st = int (length d) \<Longrightarrow> P st" and "\<And>t. holds c U M H t \<Longrightarrow> Q () t"
  shows "wp (expect_stat K (XFS_EXPORT @ p) P) Q s"
proof -
  note st = holdsD(1) [OF assms(1)]
  have f: "file_on (kw s) (XFS_MNT @ p) (the (names (V (kw s)) (XFS_MNT @ p))) d Map.empty"
    using store_file [OF st assms(2)] by (simp add: assms(3))
  show ?thesis
    by (rule wp_expect_stat, rule f_kstat_server [OF f])
      (use assms(4,5) holdsD(2) [OF assms(1)] store_cong [OF st] file_on_ok in \<open>auto simp: holds_def\<close>)
qed

lemma h_read_range_server:
  assumes "holds c U M H s" "M (XFS_MNT @ p) = Some d" "H (XFS_MNT @ p) = None" "0 \<le> x" "nat x + n < size_limit"
    and "\<And>t b. \<lbrakk>holds c U M H t; b = read_at (nat x) n d\<rbrakk> \<Longrightarrow> Q (int (length b), b) t"
  shows "wp (xfs_read_range K (XFS_EXPORT @ p) n x) Q s"
  unfolding xfs_read_range_def wp_bnd
proof (rule h_open_server [OF assms(1-3)], simp, unfold sum.case wp_bnd, goal_cases)
  case (1 t h)
  show ?case
  proof (rule h_read [where p = "XFS_MNT @ p" and h = h and fl = "{O_RDONLY, O_LARGEFILE}", OF 1 assms(2) _ _ assms(4,5)], goal_cases)
    case (3 t' b)
    show ?case
      unfolding prod.case wp_bnd
      by (rule h_close_last [OF 3(1) assms(2,3)]) (use assms(6) 3(2) in simp)
  qed (simp_all add: readable_def)
qed

lemma xfs_exists_server_absent:
  assumes "ok (kw s)" "absent (V (kw s)) (XFS_MNT @ p)"
    and "\<And>w'. \<lbrakk>ok w'; V w' = V (kw s)\<rbrakk> \<Longrightarrow> Q False (s\<lparr>kw := w'\<rparr>)"
  shows "wp (xfs_exists K (XFS_EXPORT @ p)) Q s"
  unfolding xfs_exists_def wp_bnd
  by (rule wp_kcallI, drule server_absent [OF assms(1,2)]) (auto intro: assms(3))

end

section \<open>An instance\<close>

text \<open>The in-memory kernel with the export as a second name of the mount.\<close>

definition exp_path :: "string \<Rightarrow> string" where
  "exp_path p = (if take (length XFS_EXPORT) p = XFS_EXPORT then XFS_MNT @ drop (length XFS_EXPORT) p else p)"

definition expk :: "memw kernel" where
  "expk = memk\<lparr>filp_open := (\<lambda>p. mem_open (exp_path p)), kern_path := (\<lambda>p. mem_kern_path (exp_path p))\<rparr>"

lemma exp_path_simps:
  "exp_path (XFS_EXPORT @ p) = XFS_MNT @ p"
  "take (length XFS_MNT) p = XFS_MNT \<Longrightarrow> exp_path p = p"
proof -
  show "exp_path (XFS_EXPORT @ p) = XFS_MNT @ p" by (simp add: exp_path_def)
  assume "take (length XFS_MNT) p = XFS_MNT"
  then have "p = XFS_MNT @ drop (length XFS_MNT) p" by (metis append_take_drop_id)
  then have "take (length XFS_EXPORT) p = take (length XFS_EXPORT) (XFS_MNT @ drop (length XFS_MNT) p)" by simp
  also have "\<dots> \<noteq> XFS_EXPORT" by (simp add: XFS_MNT_def XFS_EXPORT_def)
  finally show "exp_path p = p" by (simp add: exp_path_def)
qed

lemma exp_same:
  assumes "mem_ok w" "names (mv w) p = Some i \<or> absent (mv w) p"
  shows "filp_open expk p = filp_open memk p" "kern_path expk p = kern_path memk p"
  using exp_path_simps(2) [OF mem.below [OF assms]] by (simp_all add: expk_def memk_def)

lemma expk_posix: "posix_kernel expk mv mem_ok"
  unfolding expk_def by (rule mem_posix_with) (simp_all add: exp_path_simps(2) mem.below [OF _ disjI1] mem.below [OF _ disjI2], auto simp: exp_path_simps(2) mem.below)

text \<open>Through the export a lookup or an open is the client's.\<close>

lemma exp_export:
  "filp_open expk (XFS_EXPORT @ p) = filp_open memk (XFS_MNT @ p)"
  "kern_path expk (XFS_EXPORT @ p) = kern_path memk (XFS_MNT @ p)"
  by (simp_all add: expk_def exp_path_simps(1)) (simp_all add: memk_def)

interpretation exp: exported expk mv mem_ok
proof (rule exported.intro [OF expk_posix], unfold_locales, unfold exp_export, goal_cases)
  case (1 w p i rp w')
  show ?case by (rule mem.kern_path_found [OF 1(1,2,4)])
next
  case (2 w p rp w')
  show ?case by (rule mem.kern_path_absent [OF 2])
next
  case (3 w p i fl m rf w')
  then have "O_EXCL \<notin> fl" "O_DIRECTORY \<notin> fl" "O_TRUNC \<notin> fl" by auto
  with mem.open_file [OF 3(1,2) this(1,2) 3(5)] show ?case by simp
qed

end
