(* ===== verification/Gen001.thy ===== *)
theory Gen001
  imports Server
begin

text \<open>
  \<open>kunit/xfstests/generic/001.c\<close>, the chain copier: files of many sizes, each with the
  byte stream its name seeds, are copied along chains, the chains collapsed to their last
  copy, and originals and copies compared with the regenerated streams.  The static table's
  \<open>link\<close> counters are the state extension; the two static path buffers are dropped, every
  path is used where it is built.  \<open>full_name_hash\<close>, code outside the repository, is the
  argument \<open>nh\<close>.
\<close>

definition GEN001_ROOT :: string where "GEN001_ROOT = XFS_MNT @ ''/kunit-generic001''"
definition GEN001_CHUNK :: nat where "GEN001_CHUNK = 4096"
definition GEN001_PAGE :: nat where "GEN001_PAGE = 4096"

definition gen001_config :: "(string \<times> nat) list" where
  \<comment> \<open>the columns \<open>rel\<close> and \<open>bytes\<close> of the table\<close>
  "gen001_config = [
     (''small'', 10),       (''big'', 102400),
     (''sub/small'', 10),   (''sub/big'', 102400),
     (''sub/a'', 1),        (''sub/b'', 2),
     (''sub/c'', 4),        (''sub/d'', 8),
     (''sub/e'', 16),       (''sub/f'', 32),
     (''sub/g'', 64),       (''sub/h'', 128),
     (''sub/i'', 256),      (''sub/j'', 512),
     (''sub/k'', 1024),     (''sub/l'', 2048),
     (''sub/m'', 4096),     (''sub/n'', 8192),
     (''sub/a00'', 100),    (''sub/b00'', 200),
     (''sub/c00'', 400),    (''sub/d00'', 800),
     (''sub/e00'', 1600),   (''sub/f00'', 3200),
     (''sub/g00'', 6400),   (''sub/h00'', 12800),
     (''sub/i00'', 25600),  (''sub/j00'', 51200),
     (''sub/k00'', 102400), (''sub/l00'', 204800),
     (''sub/m00'', 409600), (''sub/n00'', 819200),
     (''sub/a000'', 1000),  (''sub/e000'', 16000),
     (''sub/h000'', 128000), (''sub/k000'', 1024000)]"

record 'w gen001 = "'w fxs" +
  gen001_link :: "nat \<Rightarrow> nat"   \<comment> \<open>the column \<open>link\<close>\<close>

definition GEN001_NFILES :: nat where "GEN001_NFILES = length gen001_config"
definition GEN001_NCOPY :: nat where "GEN001_NCOPY = 200"
definition GEN001_ITERS :: nat where "GEN001_ITERS = 5"

definition gen001_rel :: "nat \<Rightarrow> string" where "gen001_rel i = fst (gen001_config ! i)"
definition gen001_bytes :: "nat \<Rightarrow> nat" where "gen001_bytes i = snd (gen001_config ! i)"

definition gen001_path :: "string \<Rightarrow> int \<Rightarrow> string" where
  "gen001_path rel link =
     (if link = -1 then GEN001_ROOT @ ''/'' @ rel
      else if link = -2 then GEN001_ROOT @ ''/'' @ rel @ ''.last''
      else GEN001_ROOT @ ''/'' @ rel @ ''.'' @ dec_int link)"

definition gen001_seed_for :: "'w kernel \<Rightarrow> (string \<Rightarrow> nat) \<Rightarrow> string \<Rightarrow> rnd_state" where
  "gen001_seed_for K nh rel = prandom_seed_state K (nh rel)"

primrec gen001_fill_from :: "'w kernel \<Rightarrow> nat \<Rightarrow> nat \<Rightarrow> rnd_state \<Rightarrow> u32 \<Rightarrow> byte list \<times> rnd_state" where
  \<comment> \<open>the loop from index \<open>i\<close> on, \<open>n\<close> bytes to go\<close>
  "gen001_fill_from K 0 i st r = ([], st)"
| "gen001_fill_from K (Suc n) i st r =
     (let (r, st) = (if i mod 4 = 0 then prandom_u32_state K st else (r, st));
          (bs, st') = gen001_fill_from K n (Suc i) st r
      in (ucast (drop_bit (i mod 4 * 8) r) # bs, st'))"

definition gen001_fill_chunk :: "'w kernel \<Rightarrow> rnd_state \<Rightarrow> nat \<Rightarrow> byte list \<times> rnd_state" where
  "gen001_fill_chunk K st len = gen001_fill_from K len 0 st 0"

function gen001_write_chunks ::
  "'w kernel \<Rightarrow> nat \<Rightarrow> rnd_state \<Rightarrow> nat \<Rightarrow> int \<Rightarrow> (('w, 'z) kst_scheme, unit) prog" where
  \<comment> \<open>\<open>while (left)\<close>\<close>
  "gen001_write_chunks K f st left pos =
     (if left = 0 then ret ()
      else let n = min left GEN001_CHUNK; (buf, st) = gen001_fill_chunk K st n
        in bnd (kcall (kernel_write K f buf pos)) (\<lambda>(written, pos).
           bnd (kunit_assert (written = int n)) (\<lambda>_. gen001_write_chunks K f st (left - n) pos)))"
  by pat_completeness auto
termination by (relation "measure (\<lambda>(K, f, st, left, pos). left)") (auto simp: GEN001_CHUNK_def)

declare gen001_write_chunks.simps [simp del]

definition gen001_write_file ::
  "'w kernel \<Rightarrow> (string \<Rightarrow> nat) \<Rightarrow> string \<Rightarrow> nat \<Rightarrow> (('w, 'z) kst_scheme, unit) prog" where
  "gen001_write_file K nh rel bytes = bnd (must_alloc K GEN001_CHUNK) (\<lambda>_.
     must_open (kcall (filp_open K (gen001_path rel (-1)) {O_WRONLY, O_CREAT, O_TRUNC} (mode3 6 4 4))) (\<lambda>f.
     seq [gen001_write_chunks K f (gen001_seed_for K nh rel) bytes 0, kdo (filp_close K f)]))"

definition gen001_copy_step ::
  "'w kernel \<Rightarrow> nat \<Rightarrow> nat \<Rightarrow> int \<times> int \<Rightarrow> (('w, 'z) kst_scheme, (int \<times> int) + int) prog" where
  \<comment> \<open>the loop condition and body over \<open>rpos\<close> and \<open>wpos\<close>; the loop's result is \<open>got\<close>\<close>
  "gen001_copy_step K inp outp = (\<lambda>(rpos, wpos).
     bnd (kcall (kernel_read K inp GEN001_CHUNK rpos)) (\<lambda>(got, buf, rpos).
     if got > 0 then
       bnd (kcall (kernel_write K outp buf wpos)) (\<lambda>(written, wpos).
       bnd (kunit_assert (written = got)) (\<lambda>_. ret (Inl (rpos, wpos))))
     else ret (Inr got)))"

definition GEN001_FUEL :: nat where
  \<comment> \<open>more rounds than a file below 2G has bytes\<close>
  "GEN001_FUEL = 2 ^ 31"

definition gen001_copy :: "'w kernel \<Rightarrow> string \<Rightarrow> string \<Rightarrow> (('w, 'z) kst_scheme, unit) prog" where
  "gen001_copy K src dst = bnd (must_alloc K GEN001_CHUNK) (\<lambda>_.
     must_open (kcall (filp_open K src {O_RDONLY} 0)) (\<lambda>inp.
     must_open (kcall (filp_open K dst {O_WRONLY, O_CREAT, O_EXCL} (mode3 6 4 4))) (\<lambda>outp.
     bnd (loop_fuel GEN001_FUEL (gen001_copy_step K inp outp) (0, 0)) (\<lambda>got. seq [
       kunit_assert (got \<ge> 0),
       kdo (filp_close K inp),
       kdo (filp_close K outp)]))))"

function gen001_verify_chunks ::
  "'w kernel \<Rightarrow> nat \<Rightarrow> rnd_state \<Rightarrow> nat \<Rightarrow> nat \<Rightarrow> int \<Rightarrow> (('w, 'z) kst_scheme, int option) prog" where
  \<comment> \<open>\<open>while (off < bytes)\<close>; the result is the position, or \<open>None\<close> after a corruption was reported\<close>
  "gen001_verify_chunks K f st off bytes pos =
     (if off < bytes then
        let n = min (bytes - off) GEN001_CHUNK in
        bnd (kcall (kernel_read K f n pos)) (\<lambda>(r, got, pos).
        bnd (kunit_assert (r = int n)) (\<lambda>_.
        let (want, st) = gen001_fill_chunk K st n in
        if want \<noteq> got then bnd (seq [kdo (filp_close K f), kunit_fail]) (\<lambda>_. ret None)
        else gen001_verify_chunks K f st (off + n) bytes pos))
      else ret (Some pos))"
  by pat_completeness auto

termination by (relation "measure (\<lambda>(K, f, st, off, bytes, pos). bytes - off)") (auto simp: GEN001_CHUNK_def)

declare gen001_verify_chunks.simps [simp del]

definition gen001_verify_content ::
  "'w kernel \<Rightarrow> (string \<Rightarrow> nat) \<Rightarrow> string \<Rightarrow> string \<Rightarrow> nat \<Rightarrow> (('w, 'z) kst_scheme, unit) prog" where
  "gen001_verify_content K nh rel path bytes = bnd (must_alloc2 K GEN001_CHUNK GEN001_CHUNK) (\<lambda>_.
     must_open (kcall (filp_open K path {O_RDONLY} 0)) (\<lambda>f.
     bnd (gen001_verify_chunks K f (gen001_seed_for K nh rel) 0 bytes 0) (\<lambda>l. case l of
       None \<Rightarrow> ret ()
     | Some pos \<Rightarrow> seq [
         expect_ret (kcall (kernel_read K f 1 pos)) (\<lambda>(r, _). r = 0),
         kdo (filp_close K f)])))"

definition gen001_chain_copy :: "'w kernel \<Rightarrow> nat \<Rightarrow> rnd_state \<Rightarrow> ('w gen001, rnd_state) prog" where
  \<comment> \<open>one copy of the first loop; the local is the generator\<close>
  "gen001_chain_copy K k pick =
     (let (r, pick) = prandom_u32_state K pick; e = unat r mod GEN001_NFILES in
      bnd (get (\<lambda>s. gen001_link s e)) (\<lambda>link.
      bnd (gen001_copy K (gen001_path (gen001_rel e) (if link \<noteq> 0 then int link - 1 else -1))
                         (gen001_path (gen001_rel e) (int link))) (\<lambda>_.
      bnd (modify (\<lambda>s. s\<lparr>gen001_link := (gen001_link s)(e := link + 1)\<rparr>)) (\<lambda>_. ret pick))))"

definition gen001_close :: "'w kernel \<Rightarrow> nat \<Rightarrow> ('w gen001, unit) prog" where
  \<comment> \<open>one chain of the second loop\<close>
  "gen001_close K i = bnd (get (\<lambda>s. gen001_link s i)) (\<lambda>link. do_if (link \<noteq> 0) (seq [
     must (xfs_rename K (gen001_path (gen001_rel i) (int link - 1)) (gen001_path (gen001_rel i) (-2))),
     for_each [0..<link - 1] (\<lambda>j. must (xfs_unlink K (gen001_path (gen001_rel i) (int j)))),
     modify (\<lambda>s. s\<lparr>gen001_link := (gen001_link s)(i := 0)\<rparr>)]))"

definition gen001_chain :: "'w kernel \<Rightarrow> nat \<Rightarrow> ('w gen001, unit) prog" where
  "gen001_chain K iter = seq [
     ignore (for_fold [0..<GEN001_NCOPY] (gen001_chain_copy K) (prandom_seed_state K iter)),
     for_each [0..<GEN001_NFILES] (gen001_close K)]"

definition gen001_check :: "'w kernel \<Rightarrow> (string \<Rightarrow> nat) \<Rightarrow> (('w, 'z) kst_scheme, unit) prog" where
  "gen001_check K nh = for_each [0..<GEN001_NFILES] (\<lambda>i.
     bnd (gen001_verify_content K nh (gen001_rel i) (gen001_path (gen001_rel i) (-1)) (gen001_bytes i)) (\<lambda>_.
     bnd (xfs_exists K (gen001_path (gen001_rel i) (-2))) (\<lambda>b.
     do_if b (gen001_verify_content K nh (gen001_rel i) (gen001_path (gen001_rel i) (-2)) (gen001_bytes i)))))"

definition gen001_remove_tree :: "'w kernel \<Rightarrow> ('w gen001, unit) prog" where
  "gen001_remove_tree K = seq [
     for_each [0..<GEN001_NFILES] (\<lambda>i. seq [
       ignore (xfs_unlink K (gen001_path (gen001_rel i) (-1))),
       ignore (xfs_unlink K (gen001_path (gen001_rel i) (-2))),
       ignore (for_while [0..<GEN001_NCOPY] (\<lambda>j.
         bnd (xfs_unlink K (gen001_path (gen001_rel i) (int j))) (\<lambda>e. ret (e = 0)))),
       modify (\<lambda>s. s\<lparr>gen001_link := (gen001_link s)(i := 0)\<rparr>)]),
     ignore (xfs_rmdir K (GEN001_ROOT @ ''/sub'')),
     ignore (xfs_rmdir K GEN001_ROOT)]"

definition gen001_mkdirs :: "'w kernel \<Rightarrow> ('w gen001, unit) prog" where
  "gen001_mkdirs K = seq [
     must_ret (xfs_mkdir K GEN001_ROOT) (\<lambda>err. err = 0 \<or> err = - EEXIST),
     must_ret (xfs_mkdir K (GEN001_ROOT @ ''/sub'')) (\<lambda>err. err = 0 \<or> err = - EEXIST),
     must (kunit_add_action_or_reset K ''gen001_remove_tree_action'' (gen001_remove_tree K))]"

definition GEN001_PROBE :: string where "GEN001_PROBE = XFS_MNT @ ''/probe''"

definition loopback_nfs_mounts :: "'w kernel \<Rightarrow> byte list \<Rightarrow> (('w, 'z) fxs_scheme, unit) prog" where
  \<comment> \<open>\<open>wr\<close> is what \<open>get_random_bytes\<close> put into the buffer\<close>
  "loopback_nfs_mounts K wr = seq [
     bnd xfstests_nfs_mounted kunit_assert,
     must_alloc2 K GEN001_PAGE GEN001_PAGE,
     must_open (kcall (filp_open K GEN001_PROBE {O_WRONLY, O_CREAT, O_TRUNC} (mode3 6 4 4))) (\<lambda>f.
       bnd (kcall (kernel_write K f wr 0)) (\<lambda>(n, pos). seq [
       kdo (filp_close K f),
       kunit_assert (n = int GEN001_PAGE)])),
     must_open (kcall (filp_open K GEN001_PROBE {O_RDONLY} 0)) (\<lambda>f.
       bnd (kcall (kernel_read K f GEN001_PAGE 0)) (\<lambda>(n, rd, pos). seq [
       kdo (filp_close K f),
       kunit_assert (n = int GEN001_PAGE),
       kunit_expect (wr = rd)])),
     expect_ret (xfs_unlink K GEN001_PROBE) (\<lambda>e. e = 0),
     expect_ret (xfs_exists K (XFS_EXPORT @ ''/probe'')) (\<lambda>b. \<not> b)]"

definition fill_is_deterministic_per_name :: "'w kernel \<Rightarrow> (string \<Rightarrow> nat) \<Rightarrow> (('w, 'z) kst_scheme, unit) prog" where
  "fill_is_deterministic_per_name K nh = seq [
     must_alloc2 K 512 512,
     let (a, st) = gen001_fill_chunk K (gen001_seed_for K nh ''sub/a00'') 512;
         (b, st) = gen001_fill_chunk K (gen001_seed_for K nh ''sub/a00'') 512;
         (b', st) = gen001_fill_chunk K (gen001_seed_for K nh ''sub/b00'') 512
     in seq [kunit_expect (a = b), kunit_expect (a \<noteq> b')]]"

definition one_chain_survives_copy_rename_unlink :: "'w kernel \<Rightarrow> (string \<Rightarrow> nat) \<Rightarrow> ('w gen001, unit) prog" where
  "one_chain_survives_copy_rename_unlink K nh = (let rel = ''sub/m'' in seq [
     bnd xfstests_nfs_mounted kunit_assert,
     gen001_mkdirs K,
     gen001_write_file K nh rel (GEN001_PAGE + 1),
     for_each [0..<3] (\<lambda>j. gen001_copy K (gen001_path rel (int j - 1)) (gen001_path rel (int j))),
     must (xfs_rename K (gen001_path rel 2) (gen001_path rel (-2))),
     for_each [0..<2] (\<lambda>j. must (xfs_unlink K (gen001_path rel (int j)))),
     gen001_verify_content K nh rel (gen001_path rel (-1)) (GEN001_PAGE + 1),
     gen001_verify_content K nh rel (gen001_path rel (-2)) (GEN001_PAGE + 1)])"

definition chains_preserve_data_across_five_iterations :: "'w kernel \<Rightarrow> (string \<Rightarrow> nat) \<Rightarrow> ('w gen001, unit) prog" where
  "chains_preserve_data_across_five_iterations K nh = seq [
     bnd xfstests_nfs_mounted kunit_assert,
     gen001_mkdirs K,
     kunit_info (''setup: '' @ dec GEN001_NFILES @ '' files over NFS''),
     for_each [0..<GEN001_NFILES] (\<lambda>i. gen001_write_file K nh (gen001_rel i) (gen001_bytes i)),
     for_each [1..<GEN001_ITERS + 1] (\<lambda>iter. seq [
       kunit_info (''iter '' @ dec iter @ '' chain ('' @ dec GEN001_NCOPY @ '' copies)''),
       gen001_chain K iter,
       gen001_check K nh])]"

definition gen001_suite :: "'w kernel \<Rightarrow> (string \<Rightarrow> nat) \<Rightarrow> byte list \<Rightarrow> 'w gen001 suite" where
  "gen001_suite K nh wr = nfs_suite K ''xfstests/generic/001''
     [(''loopback_nfs_mounts'', loopback_nfs_mounts K wr),
      (''fill_is_deterministic_per_name'', fill_is_deterministic_per_name K nh),
      (''one_chain_survives_copy_rename_unlink'', one_chain_survives_copy_rename_unlink K nh),
      (''chains_preserve_data_across_five_iterations'', chains_preserve_data_across_five_iterations K nh)]"

section \<open>The table and its names\<close>

lemma dec_chars: "c \<in> set (dec n) \<Longrightarrow> \<exists>d<10. c = digit d"
proof (induction n rule: dec.induct)
  case (1 n)
  show ?case
  proof (cases "n < 10")
    case False
    then have "c \<in> set (dec (n div 10)) \<or> c = digit (n mod 10)" using "1.prems" by (auto simp: dec.simps [of n])
    then show ?thesis using "1.IH" [OF False] by (metis mod_less_divisor zero_less_numeral)
  qed (use "1.prems" in \<open>auto simp: dec.simps [of n]\<close>)
qed

lemma gen001_table:
  "length gen001_config = 36" "distinct (map fst gen001_config)"
  "\<forall>e\<in>set gen001_config. CHR ''.'' \<notin> set (fst e) \<and> snd e < 2 ^ 20 \<and> fst e \<noteq> ''sub'' \<and>
     (CHR ''/'' \<notin> set (fst e) \<or> take 4 (fst e) = ''sub/'' \<and> CHR ''/'' \<notin> set (drop 4 (fst e)))"
  by (simp_all add: gen001_config_def)


definition gen001_suffix :: "int \<Rightarrow> string" where
  "gen001_suffix link = (if link = -1 then [] else CHR ''.'' # (if link = -2 then ''last'' else dec_int link))"

lemma gen001_path_suffix: "gen001_path rel link = GEN001_ROOT @ ''/'' @ rel @ gen001_suffix link"
  by (simp add: gen001_path_def gen001_suffix_def)

lemma digit_not: "d < 10 \<Longrightarrow> digit d \<noteq> CHR ''.''" "d < 10 \<Longrightarrow> digit d \<noteq> CHR ''l''"
  by (auto dest!: arg_cong [where f = "of_char :: char \<Rightarrow> nat"] simp: of_char_digit)

lemma gen001_suffix_inj:
  assumes "-2 \<le> l" "-2 \<le> m" "gen001_suffix l = gen001_suffix m"
  shows "l = m"
proof -
  have "dec n \<noteq> ''last''" for n using dec_chars [of "CHR ''l''" n] digit_not(2) by fastforce
  then show ?thesis
    using assms by (auto simp: gen001_suffix_def dec_int_def split: if_splits)
qed

lemma gen001_path_eq:
  assumes "CHR ''.'' \<notin> set r" "CHR ''.'' \<notin> set q" "-2 \<le> l" "-2 \<le> m"
  shows "gen001_path r l = gen001_path q m \<longleftrightarrow> r = q \<and> l = m"
proof -
  have split: "takeWhile (\<lambda>c. c \<noteq> CHR ''.'') (x @ gen001_suffix k) = x" if "CHR ''.'' \<notin> set x" for x k
  proof -
    have "\<forall>c\<in>set x. c \<noteq> CHR ''.''" using that by blast
    then show ?thesis by (simp add: takeWhile_append2 gen001_suffix_def)
  qed
  show ?thesis
  proof
    assume "gen001_path r l = gen001_path q m"
    then have e: "r @ gen001_suffix l = q @ gen001_suffix m" by (simp add: gen001_path_suffix)
    then have "r = q" using split [OF assms(1), of l] split [OF assms(2), of m] by metis
    with e show "r = q \<and> l = m" using gen001_suffix_inj assms(3,4) by simp
  qed simp
qed

lemma gen001_rel:
  assumes "i < GEN001_NFILES"
  shows "CHR ''.'' \<notin> set (gen001_rel i)" "gen001_bytes i < 2 ^ 20" "gen001_rel i \<noteq> ''sub''"
    "CHR ''/'' \<notin> set (gen001_rel i) \<or> (\<exists>b. gen001_rel i = ''sub/'' @ b \<and> CHR ''/'' \<notin> set b)"
proof -
  have e: "gen001_config ! i \<in> set gen001_config" using assms by (simp add: GEN001_NFILES_def)
  note t = bspec [OF gen001_table(3) e]
  show "CHR ''.'' \<notin> set (gen001_rel i)" "gen001_bytes i < 2 ^ 20" "gen001_rel i \<noteq> ''sub''"
    using t by (simp_all add: gen001_rel_def gen001_bytes_def)
  have "gen001_rel i = take 4 (gen001_rel i) @ drop 4 (gen001_rel i)" by simp
  then show "CHR ''/'' \<notin> set (gen001_rel i) \<or> (\<exists>b. gen001_rel i = ''sub/'' @ b \<and> CHR ''/'' \<notin> set b)"
    using t unfolding gen001_rel_def by metis
qed

lemma gen001_names [simp]:
  assumes "i < GEN001_NFILES" "j < GEN001_NFILES" "-2 \<le> l" "-2 \<le> m"
  shows "gen001_path (gen001_rel i) l = gen001_path (gen001_rel j) m \<longleftrightarrow> i = j \<and> l = m"
proof -
  have "gen001_rel i = gen001_rel j \<longleftrightarrow> i = j"
    using assms(1,2) gen001_table(2) unfolding GEN001_NFILES_def gen001_rel_def
    by (metis length_map nth_eq_iff_index_eq nth_map)
  then show ?thesis by (simp add: gen001_path_eq gen001_rel(1) assms)
qed

text \<open>Every name is in one of the two directories and is not the second one.\<close>

lemma gen001_dirs:
  assumes "i < GEN001_NFILES" "-2 \<le> l"
  shows "dirname (gen001_path (gen001_rel i) l) = GEN001_ROOT \<or>
      dirname (gen001_path (gen001_rel i) l) = GEN001_ROOT @ ''/sub''"
    and "gen001_path (gen001_rel i) l \<noteq> GEN001_ROOT @ ''/sub''"
proof -
  have suf: "CHR ''/'' \<notin> set (gen001_suffix l)"
    using assms(2) by (auto simp: gen001_suffix_def dec_int_def)
  consider "CHR ''/'' \<notin> set (gen001_rel i)" | b where "gen001_rel i = ''sub/'' @ b" "CHR ''/'' \<notin> set b"
    using gen001_rel(4) [OF assms(1)] by blast
  then show "dirname (gen001_path (gen001_rel i) l) = GEN001_ROOT \<or>
      dirname (gen001_path (gen001_rel i) l) = GEN001_ROOT @ ''/sub''"
  proof cases
    case 1
    then show ?thesis
      using dirname_comp [of "gen001_rel i @ gen001_suffix l" GEN001_ROOT] suf by (simp add: gen001_path_suffix)
  next
    case 2
    then show ?thesis
      using dirname_comp [of "b @ gen001_suffix l" "GEN001_ROOT @ ''/sub''"] suf by (simp add: gen001_path_suffix)
  qed
  show "gen001_path (gen001_rel i) l \<noteq> GEN001_ROOT @ ''/sub''"
  proof
    assume "gen001_path (gen001_rel i) l = GEN001_ROOT @ ''/sub''"
    then have e: "gen001_rel i @ gen001_suffix l = ''sub''" by (simp add: gen001_path_suffix)
    then have "set (gen001_suffix l) \<subseteq> set ''sub''" by (metis set_append Un_upper2)
    then have "gen001_suffix l = []" by (auto simp: gen001_suffix_def split: if_splits)
    then show False using e gen001_rel(3) [OF assms(1)] by simp
  qed
qed

section \<open>The byte streams\<close>

lemma length_gen001_fill_from: "length (fst (gen001_fill_from K n i st r)) = n"
  by (induction n arbitrary: i st r) (simp_all add: Let_def split: prod.splits, metis fst_conv)

lemma length_gen001_fill_chunk: "gen001_fill_chunk K st n = (buf, st') \<Longrightarrow> length buf = n"
  using length_gen001_fill_from [of K n 0 st 0] by (simp add: gen001_fill_chunk_def)

text \<open>The whole content a seed stands for.\<close>

function gen001_stream :: "'w kernel \<Rightarrow> rnd_state \<Rightarrow> nat \<Rightarrow> byte list" where
  "gen001_stream K st left =
     (if left = 0 then []
      else let n = min left GEN001_CHUNK; (buf, st) = gen001_fill_chunk K st n
        in buf @ gen001_stream K st (left - n))"
  by pat_completeness auto
termination by (relation "measure (\<lambda>(K, st, left). left)") (auto simp: GEN001_CHUNK_def)

declare gen001_stream.simps [simp del]

lemma length_gen001_stream [simp]: "length (gen001_stream K st left) = left"
proof (induction left arbitrary: st rule: less_induct)
  case (less left)
  show ?case
  proof (cases "left = 0")
    case False
    obtain buf st' where f: "gen001_fill_chunk K st (min left GEN001_CHUNK) = (buf, st')" by fastforce
    have "left - min left GEN001_CHUNK < left" using False by (simp add: GEN001_CHUNK_def)
    with less.IH [OF this] show ?thesis
      using False f length_gen001_fill_chunk [OF f] by (simp add: gen001_stream.simps [of K st left])
  qed (simp add: gen001_stream.simps)
qed

definition gen001_content :: "'w kernel \<Rightarrow> (string \<Rightarrow> nat) \<Rightarrow> nat \<Rightarrow> byte list" where
  "gen001_content K nh i = gen001_stream K (gen001_seed_for K nh (gen001_rel i)) (gen001_bytes i)"

section \<open>One file: write, verify, copy\<close>

context posix_kernel
begin

lemma gen001_write_chunks_ok:
  assumes "holds c U (M(p \<mapsto> d)) (H(p \<mapsto> (f, fl))) s" "writable fl" "O_APPEND \<notin> fl" "pos = int (length d)"
    and "length d + left < size_limit"
    and "\<And>t. holds c U (M(p \<mapsto> d @ gen001_stream K st left)) (H(p \<mapsto> (f, fl))) t \<Longrightarrow> Q () t"
  shows "wp (gen001_write_chunks K f st left pos) Q s"
  using assms
proof (induction left arbitrary: st pos d s rule: less_induct)
  case (less left)
  show ?case
  proof (cases "left = 0")
    case True
    then show ?thesis using less.prems(6) [of s] less.prems(1) by (simp add: gen001_write_chunks.simps gen001_stream.simps)
  next
    case False
    let ?n = "min left GEN001_CHUNK"
    obtain buf st' where f: "gen001_fill_chunk K st ?n = (buf, st')" by fastforce
    have l: "length buf = ?n" by (rule length_gen001_fill_chunk [OF f])
    have lt: "left - ?n < left" using False by (simp add: GEN001_CHUNK_def)
    have str: "gen001_stream K st left = buf @ gen001_stream K st' (left - ?n)"
      using False f by (simp add: gen001_stream.simps [of K st left])
    show ?thesis
      unfolding gen001_write_chunks.simps [of K f st left pos] if_not_P [OF False] Let_def f prod.case wp_bnd
    proof (rule h_write_same [OF less.prems(1-3)], goal_cases)
      case (3 t)
      then have t: "holds c U (M(p \<mapsto> d @ buf)) (H(p \<mapsto> (f, fl))) t" using less.prems(4) by (simp add: write_at_end)
      show ?case
        unfolding prod.case wp_bnd wp_kunit_assert l
        by (intro conjI refl less.IH [OF lt t less.prems(2,3)]) (use less.prems(4,5,6) l str in auto)
    qed (use less.prems l in auto)
  qed
qed

lemma gen001_write_file_ok:
  assumes "holds c U M Map.empty s" "gen001_path rel (-1) \<in> U" "M (gen001_path rel (-1)) = None" "bytes < size_limit"
    and "\<And>t. holds c U (M(gen001_path rel (-1) \<mapsto> gen001_stream K (gen001_seed_for K nh rel) bytes)) Map.empty t \<Longrightarrow> Q () t"
  shows "wp (gen001_write_file K nh rel bytes) Q s"
  unfolding gen001_write_file_def wp_bnd wp_must_open
proof (rule h_alloc [OF assms(1)], rule h_create, assumption, goal_cases)
  case (4 t u f)
  show ?case
    unfolding sum.case wp_seq_Cons wp_seq_Nil
  proof (rule gen001_write_chunks_ok [OF 4(2)], goal_cases)
    case (5 v)
    then show ?case
      by (rule h_close_same) (use assms(5) in simp_all)
  qed (use assms(4) in simp_all)
qed (use assms in simp_all)

lemma gen001_verify_chunks_ok:
  assumes "holds c U M H s" "M p = Some d" "H p = Some (f, fl)" "readable fl" "length d = bytes" "bytes < size_limit"
    and "off \<le> bytes" "drop off d = gen001_stream K st (bytes - off)"
    and "\<And>t. holds c U M H t \<Longrightarrow> Q (Some (int bytes)) t"
  shows "wp (gen001_verify_chunks K f st off bytes (int off)) Q s"
  using assms(1,7,8)
proof (induction "bytes - off" arbitrary: st off s rule: less_induct)
  case less
  show ?case
  proof (cases "off < bytes")
    case False
    then show ?thesis using less.prems(1,2) assms(9) [of s] by (simp add: gen001_verify_chunks.simps)
  next
    case True
    let ?n = "min (bytes - off) GEN001_CHUNK"
    obtain buf st' where f: "gen001_fill_chunk K st ?n = (buf, st')" by fastforce
    have l: "length buf = ?n" by (rule length_gen001_fill_chunk [OF f])
    have lt: "bytes - (off + ?n) < bytes - off" using True by (simp add: GEN001_CHUNK_def)
    have str: "drop off d = buf @ gen001_stream K st' (bytes - off - ?n)"
      using True f less.prems(3) by (simp add: gen001_stream.simps [of K st "bytes - off"])
    then have rd: "read_at off ?n d = buf" by (simp add: read_at_def l)
    have rest: "drop (off + ?n) d = gen001_stream K st' (bytes - (off + ?n))"
    proof -
      have "drop (off + ?n) d = drop ?n (drop off d)" by (simp add: add.commute)
      then show ?thesis unfolding str using l by simp
    qed
    show ?thesis
      unfolding gen001_verify_chunks.simps [of K f st off] if_P [OF True] Let_def f wp_bnd
    proof (rule h_read [where p = p and h = f, OF less.prems(1) assms(2,3,4)], goal_cases)
      case (3 t b)
      have b: "b = buf" using 3(2) rd by simp
      show ?case
        unfolding prod.case wp_bnd wp_kunit_assert b l
        using less.hyps [OF lt 3(1) _ rest] True by simp
    qed (use True assms(6) in auto)
  qed
qed

lemma gen001_verify_ok:
  assumes "holds c U M Map.empty s" "M p = Some (gen001_stream K (gen001_seed_for K nh rel) bytes)" "bytes + 1 < size_limit"
    and "\<And>t. holds c U M Map.empty t \<Longrightarrow> Q () t"
  shows "wp (gen001_verify_content K nh rel p bytes) Q s"
  unfolding gen001_verify_content_def wp_bnd wp_must_open
proof (rule h_alloc2 [OF assms(1)], rule h_open_keep [where p = p], assumption, goal_cases)
  case (6 t u f)
  have zero: "(0 :: int) = int 0" by simp
  have end_ok: "wp (seq [expect_ret (kcall (kernel_read K f 1 (int bytes))) (\<lambda>(r, _). r = 0), kdo (filp_close K f)]) Q v"
    if "holds c U M [p \<mapsto> (f, {O_RDONLY})] v" for v
    unfolding wp_seq_Cons wp_seq_Nil wp_expect_ret
  proof (rule h_read [where p = p and h = f and fl = "{O_RDONLY}", OF that assms(2)], goal_cases)
    case (5 w b)
    then have "b = []" by (simp add: read_at_def)
    then show ?case
      using h_close_last [OF 5(1) assms(2), of Q] assms(4) by simp
  qed (use assms(3) in \<open>simp_all add: readable_def\<close>)
  show ?case
    unfolding sum.case wp_bnd zero
    by (rule gen001_verify_chunks_ok [where p = p, OF 6(2) assms(2)])
      (use assms(3) end_ok in \<open>auto simp: readable_def simp del: wp_seq_Cons\<close>)
qed (use assms in simp_all)

lemma gen001_copy_ok:
  assumes "holds c U M Map.empty s" "M src = Some d" "dst \<in> U" "M dst = None" "length d + GEN001_CHUNK < size_limit"
    and "\<And>t. holds c U (M(dst \<mapsto> d)) Map.empty t \<Longrightarrow> Q () t"
  shows "wp (gen001_copy K src dst) Q s"
  unfolding gen001_copy_def wp_bnd wp_must_open
proof (rule h_alloc [OF assms(1)], rule h_open_keep [where p = src], assumption, goal_cases)
  case (6 t u i)
  have ne: "src \<noteq> dst" using assms(2,4) by auto
  show ?case
    unfolding sum.case wp_must_open
  proof (rule h_create [OF 6(2) assms(3,4)], simp, unfold sum.case wp_bnd, goal_cases)
    case (1 v j)
    note created = this
    let ?H = "[src \<mapsto> (i, {O_RDONLY}), dst \<mapsto> (j, {O_WRONLY, O_CREAT, O_EXCL})]"
    let ?I = "\<lambda>(r, w) t. w = r \<and> 0 \<le> r \<and> nat r \<le> length d \<and> holds c U (M(dst \<mapsto> take (nat r) d)) ?H t"
    show ?case
    proof (rule wp_loop_fuel [where I = ?I and mu = "\<lambda>(r, w) _. length d - nat r"], goal_cases)
      case (3 l t)
      obtain r w where l: "l = (r, w)" by (cases l)
      have I: "w = r" "0 \<le> r" "nat r \<le> length d" "holds c U (M(dst \<mapsto> take (nat r) d)) ?H t"
        using 3 l by auto
      show ?case
        unfolding l prod.case gen001_copy_step_def wp_bnd
      proof (rule h_read [where p = src and h = i and fl = "{O_RDONLY}" and d = d, OF I(4)], goal_cases)
        case (6 t2 b)
        note t2 = 6
        show ?case
        proof (cases "b = []")
          case True
          then have "length d \<le> nat r" using t2(2) by (simp add: read_at_def GEN001_CHUNK_def)
          then have "take (nat r) d = d" by simp
          then have fin: "holds c U (M(dst \<mapsto> d)) ?H t2" using t2(1) by simp
          have done1: "wp (kdo (filp_close K i)) (\<lambda>_. wp (kdo (filp_close K j)) (\<lambda>_. Q ())) t2"
          proof (rule h_close [where p = src and d = d, OF fin], goal_cases)
            case (3 t3)
            then have "holds c U (M(dst \<mapsto> d)) (Map.empty(dst \<mapsto> (j, {O_WRONLY, O_CREAT, O_EXCL}))) t3"
              using ne by (simp add: fun_upd_twist)
            then show ?case by (rule h_close_same) (use assms(6) in simp_all)
          qed (use ne assms(2) in simp_all)
          then show ?thesis by (simp add: True)
        next
          case False
          have len: "length b \<le> length d - nat r" using t2(2) by simp
          have "0 < length b" using False by simp
          then have b0: "length d - (nat r + length b) < length d - nat r" using len by arith
          have bl: "take (nat r) d @ b = take (nat r + length b) d"
            using t2(2) I(3) by (simp add: read_at_def take_add min_def)
          have "wp (kcall (kernel_write K j b w)) (\<lambda>a t. case a of (n, w') \<Rightarrow>
              n = int (length b) \<and> ?I (r + int (length b), w') t) t2"
          proof (rule h_write [where p = dst and h = j and d = "take (nat r) d" and
                fl = "{O_WRONLY, O_CREAT, O_EXCL}", OF t2(1)], goal_cases)
            case (7 t3)
            have "write_at (nat w) b (take (nat r) d) = take (nat r + length b) d"
              using I(1,3) bl write_at_end [of "take (nat r) d" b] by (simp add: min_absorb2)
            with 7 have "holds c U (M(dst \<mapsto> take (nat r + length b) d)) ?H t3" by simp
            then show ?case using I(1,2,3) len by (simp add: nat_add_distrib)
          qed (use ne I assms(5) len in \<open>auto simp: GEN001_CHUNK_def\<close>)
          then show ?thesis
            using False I len b0
            by (simp, elim wp_mono) (auto simp: nat_add_distrib split: prod.splits)
        qed
      qed (use ne I assms(2,5) in \<open>auto simp: readable_def\<close>)
    next
      case 1
      have "M(dst \<mapsto> []) = M(dst \<mapsto> take 0 d)" by simp
      then show ?case using created ne by (simp add: fun_upd_twist)
    next
      case 2
      show ?case using assms(5) by (simp add: GEN001_FUEL_def size_limit_def)
    qed
  qed
qed (use assms in simp_all)

end

section \<open>The chains\<close>

text \<open>
  The map a state of the chains stands for: of the first \<open>n\<close> entries, the original, the
  copies from \<open>lo\<close> up to but not \<open>hi\<close>, and the last copy where \<open>la\<close> has the entry, all
  with the same content.
\<close>

definition gen001_in ::
  "nat \<Rightarrow> (nat \<Rightarrow> nat) \<Rightarrow> (nat \<Rightarrow> nat) \<Rightarrow> (nat \<Rightarrow> bool) \<Rightarrow> nat \<Rightarrow> int \<Rightarrow> bool" where
  "gen001_in n lo hi la i l = (i < n \<and> (l = -1 \<or> l = -2 \<and> la i \<or> 0 \<le> l \<and> int (lo i) \<le> l \<and> l < int (hi i)))"

definition gen001_map ::
  "(nat \<Rightarrow> byte list) \<Rightarrow> nat \<Rightarrow> (nat \<Rightarrow> nat) \<Rightarrow> (nat \<Rightarrow> nat) \<Rightarrow> (nat \<Rightarrow> bool) \<Rightarrow> (string \<rightharpoonup> byte list) \<Rightarrow> bool" where
  "gen001_map C n lo hi la M = (\<forall>i<GEN001_NFILES. \<forall>l\<ge>-2. M (gen001_path (gen001_rel i) l) =
     (if gen001_in n lo hi la i l then Some (C i) else None))"

lemma gen001_mapD:
  "\<lbrakk>gen001_map C n lo hi la M; i < GEN001_NFILES; -2 \<le> l\<rbrakk> \<Longrightarrow>
   M (gen001_path (gen001_rel i) l) = (if gen001_in n lo hi la i l then Some (C i) else None)"
  by (simp add: gen001_map_def)

lemma gen001_map_cong:
  assumes "gen001_map C n lo hi la M" and "\<And>i l. -2 \<le> l \<Longrightarrow> gen001_in n' lo' hi' la' i l = gen001_in n lo hi la i l"
  shows "gen001_map C n' lo' hi' la' M"
  using assms by (simp add: gen001_map_def)

lemma gen001_map_add:
  assumes "gen001_map C n lo hi la M" "e < GEN001_NFILES" "-2 \<le> m"
    and "\<And>i l. gen001_in n' lo' hi' la' i l \<longleftrightarrow> gen001_in n lo hi la i l \<or> i = e \<and> l = m"
  shows "gen001_map C n' lo' hi' la' (M(gen001_path (gen001_rel e) m \<mapsto> C e))"
  using assms(1-3) unfolding gen001_map_def assms(4) by simp

lemma gen001_map_del:
  assumes "gen001_map C n lo hi la M" "e < GEN001_NFILES" "-2 \<le> m"
    and "\<And>i l. gen001_in n' lo' hi' la' i l \<longleftrightarrow> gen001_in n lo hi la i l \<and> (i, l) \<noteq> (e, m)"
  shows "gen001_map C n' lo' hi' la' (M(gen001_path (gen001_rel e) m := None))"
  using assms(1-3) unfolding gen001_map_def assms(4) by simp

abbreviation gen001_all :: "string set" where
  "gen001_all \<equiv> {gen001_path (gen001_rel i) l |i l. i < GEN001_NFILES \<and> -2 \<le> l}"

lemma gen001_all: "i < GEN001_NFILES \<Longrightarrow> -2 \<le> l \<Longrightarrow> gen001_path (gen001_rel i) l \<in> gen001_all"
  by blast

context posix_kernel
begin

text \<open>The state between the steps; \<open>C\<close> is what the originals hold.\<close>

definition gen001_inv ::
  "(nat \<Rightarrow> byte list) \<Rightarrow> nat \<Rightarrow> nat \<Rightarrow> (nat \<Rightarrow> nat) \<Rightarrow> (nat \<Rightarrow> nat) \<Rightarrow> (nat \<Rightarrow> bool) \<Rightarrow> 'w gen001 \<Rightarrow> bool" where
  "gen001_inv C nf n lo hi la s = (kfails s = nf \<and>
     (\<exists>M. gen001_map C n lo hi la M \<and> store gen001_all M Map.empty (kw s)))"

lemma gen001_invE:
  assumes "gen001_inv C nf n lo hi la s"
  obtains M where "holds (ctx s) gen001_all M Map.empty s" "gen001_map C n lo hi la M" "kfails s = nf"
  using assms by (auto simp: gen001_inv_def holds_def)

lemma gen001_invI:
  assumes "holds (ctx s) gen001_all M Map.empty t" "gen001_map C n lo hi la M" "kfails s = nf"
  shows "gen001_inv C nf n lo hi la t" "gen001_link t = gen001_link s"
proof -
  have c: "ctx t = ctx s" "store gen001_all M Map.empty (kw t)" using assms(1) by (simp_all add: holds_def)
  then show "gen001_inv C nf n lo hi la t" using assms(2,3) ctx_kfails [OF c(1)] by (auto simp: gen001_inv_def)
  show "gen001_link t = gen001_link s" using c(1) by (cases s; cases t) (simp add: ctx_def)
qed

lemma gen001_chain_copy_ok:
  assumes "gen001_inv C nf GEN001_NFILES (\<lambda>_. 0) (gen001_link s) la s"
    and "\<And>i. length (C i) + GEN001_CHUNK < size_limit"
  shows "wp (gen001_chain_copy K k pick) (\<lambda>_ t. gen001_inv C nf GEN001_NFILES (\<lambda>_. 0) (gen001_link t) la t) s"
proof -
  obtain r p2 where r: "prandom_u32_state K pick = (r, p2)" by fastforce
  let ?e = "unat r mod GEN001_NFILES" and ?ln = "gen001_link s"
  have e: "?e < GEN001_NFILES" by (rule mod_less_divisor) (simp add: GEN001_NFILES_def gen001_table(1))
  obtain M where M: "holds (ctx s) gen001_all M Map.empty s" "gen001_map C GEN001_NFILES (\<lambda>_. 0) ?ln la M" "kfails s = nf"
    using assms(1) by (rule gen001_invE)
  let ?src = "if ?ln ?e \<noteq> 0 then int (?ln ?e) - 1 else - 1"
  have src: "M (gen001_path (gen001_rel ?e) ?src) = Some (C ?e)" "-2 \<le> ?src"
    using gen001_mapD [OF M(2) e, of ?src] e by (auto simp: gen001_in_def)
  have dst: "M (gen001_path (gen001_rel ?e) (int (?ln ?e))) = None"
    using gen001_mapD [OF M(2) e, of "int (?ln ?e)"] by (simp add: gen001_in_def)
  show ?thesis
    unfolding gen001_chain_copy_def r Let_def prod.case wp_bnd wp_get wp_modify wp_ret
  proof (rule gen001_copy_ok [OF M(1) src(1) gen001_all [OF e] dst assms(2)], simp, goal_cases)
    case (1 t)
    have "gen001_map C GEN001_NFILES (\<lambda>_. 0) (?ln(?e := Suc (?ln ?e))) la (M(gen001_path (gen001_rel ?e) (int (?ln ?e)) \<mapsto> C ?e))"
      by (rule gen001_map_add [OF M(2) e]) (use e in \<open>auto simp: gen001_in_def\<close>)
    from gen001_invI [OF 1 this M(3)] show ?case by (simp add: gen001_inv_def)
  qed
qed

lemma gen001_close_ok:
  assumes "gen001_inv C nf GEN001_NFILES (\<lambda>_. 0) (gen001_link s) la s" "i < GEN001_NFILES"
  shows "wp (gen001_close K i) (\<lambda>_ t. gen001_link t = (gen001_link s)(i := 0) \<and>
    (\<exists>la. gen001_inv C nf GEN001_NFILES (\<lambda>_. 0) (gen001_link t) la t)) s"
proof (cases "gen001_link s i")
  case 0
  have "(gen001_link s)(i := 0) = gen001_link s" using 0 by (simp add: fun_upd_idem)
  then show ?thesis using assms(1) 0 by (auto simp: gen001_close_def)
next
  case (Suc m)
  let ?ln = "gen001_link s" and ?p = "gen001_path (gen001_rel i)"
  obtain M where M: "holds (ctx s) gen001_all M Map.empty s" "gen001_map C GEN001_NFILES (\<lambda>_. 0) ?ln la M" "kfails s = nf"
    using assms(1) by (rule gen001_invE)
  let ?I = "\<lambda>j t. gen001_link t = ?ln \<and> gen001_inv C nf GEN001_NFILES ((\<lambda>_. 0)(i := j)) (?ln(i := m)) (la(i := True)) t"
  have src: "M (?p (int m)) = Some (C i)" using gen001_mapD [OF M(2) assms(2), of "int m"] Suc assms(2) by (simp add: gen001_in_def)
  have last: "wp (for_each [0..<m] (\<lambda>j. must (xfs_unlink K (?p (int j))))) (\<lambda>_. ?I m) t" if "?I 0 t" for t
  proof (rule wp_for_range [where I = ?I, OF that], simp, goal_cases)
    case (1 j t)
    then obtain N where N: "holds (ctx t) gen001_all N Map.empty t"
      "gen001_map C GEN001_NFILES ((\<lambda>_. 0)(i := j)) (?ln(i := m)) (la(i := True)) N" "kfails t = nf"
      by (auto elim: gen001_invE)
    have "N (?p (int j)) = Some (C i)"
      using gen001_mapD [OF N(2) assms(2), of "int j"] 1 assms(2) by (simp add: gen001_in_def)
    then show ?case
      unfolding wp_must
    proof (rule h_unlink [OF N(1)], goal_cases)
      case (2 u)
      have "gen001_map C GEN001_NFILES ((\<lambda>_. 0)(i := Suc j)) (?ln(i := m)) (la(i := True)) (N(?p (int j) := None))"
        by (rule gen001_map_del [OF N(2) assms(2)]) (auto simp: gen001_in_def)
      from gen001_invI [OF 2 this N(3)] show ?case using 1 by simp
    qed simp
  qed simp
  have l: "int (?ln i) - 1 = int m" "?ln i - 1 = m" "?ln i \<noteq> 0" using Suc by simp_all
  show ?thesis
    unfolding gen001_close_def wp_bnd wp_get wp_do_if if_P [OF l(3)] wp_seq_Cons wp_seq_Nil l(1,2) wp_must wp_modify
  proof (rule h_rename [OF M(1) src gen001_all [OF assms(2)]], goal_cases)
    case (5 t)
    have d: "gen001_map C GEN001_NFILES (\<lambda>_. 0) (?ln(i := m)) la (M(?p (int m) := None))"
      by (rule gen001_map_del [OF M(2) assms(2)]) (use Suc in \<open>auto simp: gen001_in_def\<close>)
    have "gen001_map C GEN001_NFILES (\<lambda>_. 0) (?ln(i := m)) (la(i := True)) (M(?p (int m) := None, ?p (-2) \<mapsto> C i))"
      by (rule gen001_map_add [OF d assms(2)]) (use assms(2) in \<open>auto simp: gen001_in_def\<close>)
    from gen001_invI [OF 5 this M(3)] have "?I 0 t" by (simp add: fun_upd_idem)
    then show ?case
    proof (intro conjI refl, intro wp_mono [OF last], goal_cases)
      case (2 u t')
      then obtain N where N: "holds (ctx t') gen001_all N Map.empty t'"
        "gen001_map C GEN001_NFILES ((\<lambda>_. 0)(i := m)) (?ln(i := m)) (la(i := True)) N" "kfails t' = nf"
        by (auto elim: gen001_invE)
      have "gen001_map C GEN001_NFILES (\<lambda>_. 0) (?ln(i := 0)) (la(i := True)) N"
        by (rule gen001_map_cong [OF N(2)]) (auto simp: gen001_in_def)
      then have "gen001_inv C nf GEN001_NFILES (\<lambda>_. 0) (?ln(i := 0)) (la(i := True))
          (t'\<lparr>gen001_link := (gen001_link t')(i := 0)\<rparr>)"
        using N by (auto simp: gen001_inv_def holds_def)
      then show ?case using 2 by auto
    qed
  qed (use assms(2) in simp_all)
qed

text \<open>A chain phase starts and ends with no numbered copies.\<close>

definition gen001_idle :: "(nat \<Rightarrow> byte list) \<Rightarrow> nat \<Rightarrow> 'w gen001 \<Rightarrow> bool" where
  "gen001_idle C nf s = ((\<forall>i<GEN001_NFILES. gen001_link s i = 0) \<and>
     (\<exists>la. gen001_inv C nf GEN001_NFILES (\<lambda>_. 0) (\<lambda>_. 0) la s))"

lemma gen001_inv_links:
  assumes "gen001_inv C nf GEN001_NFILES lo hi la s" "\<And>i. i < GEN001_NFILES \<Longrightarrow> hi' i = hi i"
  shows "gen001_inv C nf GEN001_NFILES lo hi' la s"
proof -
  obtain M where "gen001_map C GEN001_NFILES lo hi la M" "store gen001_all M Map.empty (kw s)" "kfails s = nf"
    using assms(1) by (auto simp: gen001_inv_def)
  moreover from this(1) have "gen001_map C GEN001_NFILES lo hi' la M"
    by (rule gen001_map_cong) (auto simp: gen001_in_def assms(2))
  ultimately show ?thesis by (auto simp: gen001_inv_def)
qed

lemma gen001_chain_ok:
  assumes "gen001_idle C nf s" "\<And>i. length (C i) + GEN001_CHUNK < size_limit"
  shows "wp (gen001_chain K iter) (\<lambda>_. gen001_idle C nf) s"
proof -
  obtain la where la: "gen001_inv C nf GEN001_NFILES (\<lambda>_. 0) (\<lambda>_. 0) la s" using assms(1) by (auto simp: gen001_idle_def)
  have start: "gen001_inv C nf GEN001_NFILES (\<lambda>_. 0) (gen001_link s) la s"
    by (rule gen001_inv_links [OF la]) (use assms(1) in \<open>simp add: gen001_idle_def\<close>)
  show ?thesis
    unfolding gen001_chain_def wp_seq_Cons wp_seq_Nil wp_ignore
  proof (rule wp_for_fold_range [where I = "\<lambda>_ _ t. gen001_inv C nf GEN001_NFILES (\<lambda>_. 0) (gen001_link t) la t"], goal_cases)
    case (4 l t)
    show ?case
    proof (rule wp_for_range [where I = "\<lambda>i t. (\<forall>j<i. gen001_link t j = 0) \<and>
        (\<exists>la. gen001_inv C nf GEN001_NFILES (\<lambda>_. 0) (gen001_link t) la t)"], goal_cases)
      case (3 i u)
      then obtain la2 where "gen001_inv C nf GEN001_NFILES (\<lambda>_. 0) (gen001_link u) la2 u" by blast
      from gen001_close_ok [OF this 3(2)] show ?case
        by (rule wp_mono) (use 3 in \<open>auto simp: less_Suc_eq\<close>)
    next
      case (4 u)
      then show ?case using gen001_inv_links [where hi' = "\<lambda>_. 0"] by (fastforce simp: gen001_idle_def)
    qed (use 4 in auto)
  qed (use start gen001_chain_copy_ok [OF _ assms(2)] in auto)
qed

lemma gen001_content_limit: "i < GEN001_NFILES \<Longrightarrow> length (gen001_content K nh i) + GEN001_CHUNK < size_limit"
  using gen001_rel(2) [of i] by (simp add: gen001_content_def GEN001_CHUNK_def size_limit_def)

lemma gen001_check_ok:
  assumes "holds c gen001_all M Map.empty s" "gen001_map (gen001_content K nh) GEN001_NFILES (\<lambda>_. 0) (\<lambda>_. 0) la M"
  shows "wp (gen001_check K nh) (\<lambda>_. holds c gen001_all M Map.empty) s"
  unfolding gen001_check_def
proof (rule wp_for_range [where I = "\<lambda>_. holds c gen001_all M Map.empty", OF assms(1)], simp, goal_cases)
  case (1 i t)
  let ?p = "gen001_path (gen001_rel i)"
  have lim: "gen001_bytes i + 1 < size_limit" using gen001_rel(2) [OF 1(2)] by (simp add: size_limit_def)
  have same: "M (?p l) = Some (gen001_stream K (gen001_seed_for K nh (gen001_rel i)) (gen001_bytes i))"
    if "-2 \<le> l" "M (?p l) \<noteq> None" for l
    using gen001_mapD [OF assms(2) 1(2) that(1)] that(2) by (simp add: gen001_content_def split: if_splits)
  have orig: "M (?p (-1)) \<noteq> None" using gen001_mapD [OF assms(2) 1(2), of "-1"] 1(2) by (simp add: gen001_in_def)
  show ?case
    unfolding wp_bnd
  proof (rule gen001_verify_ok [OF 1(3) same [OF _ orig] lim], simp, rule h_exists [where p = "?p (-2)"], assumption, goal_cases)
    case (2 u v)
    show ?case
    proof (cases "M (?p (-2)) = None")
      case False
      then show ?thesis by (simp, intro gen001_verify_ok [OF 2(2) same lim]) simp_all
    qed (use 2 in simp)
  qed (use gen001_all [OF 1(2)] in simp_all)
qed simp

lemma gen001_mkdirs_ok:
  assumes "ready V ok GEN001_ROOT s"
    and "\<And>w. store gen001_all Map.empty Map.empty w \<Longrightarrow>
           Q () (s\<lparr>kw := w, kactions := ''gen001_remove_tree_action'' # kactions s\<rparr>)"
  shows "wp (gen001_mkdirs K) Q s"
proof -
  have r: "ok (kw s)" "absent (V (kw s)) GEN001_ROOT" using assms(1) by (simp_all add: ready_def)
  have sub: "dirname (GEN001_ROOT @ ''/sub'') = GEN001_ROOT" using dirname_comp [of "''sub''" GEN001_ROOT] by simp
  show ?thesis
    unfolding gen001_mkdirs_def wp_seq_Cons wp_seq_Nil wp_must_ret wp_must
  proof (rule wp_new_dir [OF r], goal_cases)
    case (1 w i)
    have a: "absent (V w) (GEN001_ROOT @ ''/sub'')" unfolding absent_def sub using 1(4) 1(5) [OF sub] by blast
    have "wp (xfs_mkdir K (GEN001_ROOT @ ''/sub'')) (\<lambda>a. (\<lambda>t. a = 0 \<and> wp (kunit_add_action_or_reset K
        ''gen001_remove_tree_action'' (gen001_remove_tree K)) (\<lambda>e s. e = 0 \<and> Q () s) t)) (s\<lparr>kw := w\<rparr>)"
    proof (rule wp_new_dir, goal_cases)
      case (3 w2 i2)
      have none: "absent (V w2) p" if pm: "p \<in> gen001_all" for p
      proof -
        obtain j l where p: "p = gen001_path (gen001_rel j) l" "j < GEN001_NFILES" "-2 \<le> l" using pm by blast
        have ne: "p \<noteq> GEN001_ROOT @ ''/sub''" using gen001_dirs(2) [OF p(2,3)] p(1) by simp
        have "is_dir (V w2) GEN001_ROOT" using 1(4) is_dir_add_name [OF 3(2), of GEN001_ROOT "GEN001_ROOT @ ''/sub''"] 3(3) by simp
        moreover have "names (V w2) p = None"
          using gen001_dirs(1) [OF p(2,3), folded p(1)]
        proof
          assume "dirname p = GEN001_ROOT"
          then show ?thesis using 1(5) [of p] 3(3) ne by simp
        qed (rule 3(5))
        ultimately show ?thesis using gen001_dirs(1) [OF p(2,3)] 3 p(1) by (auto simp: absent_def)
      qed
      show ?case
      proof (intro conjI refl, rule wp_add_action, goal_cases)
        case (2 w3)
        then have "store gen001_all Map.empty Map.empty w3"
          using none store_cong [OF store_start [OF 3(1)], of gen001_all w3] by simp
        then show ?case using assms(2) by simp
      qed (use 3(1) in simp)
    qed (use 1 a in simp_all)
    then show ?case by (intro conjI disjI1 refl) (erule wp_mono, simp)
  qed
qed

lemma gen001_chains_ok:
  assumes "ready V ok GEN001_ROOT s" "\<And>i. i < GEN001_NFILES \<Longrightarrow> gen001_link s i = 0"
  shows "passes (chains_preserve_data_across_five_iterations K nh) s"
proof -
  let ?C = "\<lambda>i. if i < GEN001_NFILES then gen001_content K nh i else []"
  let ?idle = "gen001_idle ?C (kfails s)"
  have lim: "length (?C i) + GEN001_CHUNK < size_limit" for i
    using gen001_content_limit [of i nh] by (simp add: GEN001_CHUNK_def size_limit_def)
  have info: "?idle (t\<lparr>kunit_log := x\<rparr>) = ?idle t" for t x
    by (simp add: gen001_idle_def gen001_inv_def)
  let ?W = "\<lambda>n t. (\<forall>i<GEN001_NFILES. gen001_link t i = 0) \<and>
    gen001_inv ?C (kfails s) n (\<lambda>_. 0) (\<lambda>_. 0) (\<lambda>_. False) t"
  have init_ok: "wp (for_each [0..<GEN001_NFILES] (\<lambda>i. gen001_write_file K nh (gen001_rel i) (gen001_bytes i))) (\<lambda>_. ?idle) t"
    if "?W 0 t" for t
  proof (rule wp_for_range [where I = ?W, OF that], simp, goal_cases)
    case (1 i u)
    then obtain M where M: "holds (ctx u) gen001_all M Map.empty u"
      "gen001_map ?C i (\<lambda>_. 0) (\<lambda>_. 0) (\<lambda>_. False) M" "kfails u = kfails s"
      by (auto elim: gen001_invE)
    show ?case
    proof (rule gen001_write_file_ok [OF M(1) gen001_all [OF 1(2)]], goal_cases)
      case (4 v)
      have "gen001_map ?C (Suc i) (\<lambda>_. 0) (\<lambda>_. 0) (\<lambda>_. False) (M(gen001_path (gen001_rel i) (-1) \<mapsto> ?C i))"
        by (rule gen001_map_add [OF M(2) 1(2)]) (auto simp: gen001_in_def)
      then have "gen001_map ?C (Suc i) (\<lambda>_. 0) (\<lambda>_. 0) (\<lambda>_. False) (M(gen001_path (gen001_rel i) (-1) \<mapsto>
          gen001_stream K (gen001_seed_for K nh (gen001_rel i)) (gen001_bytes i)))"
        using 1(2) by (simp add: gen001_content_def)
      from gen001_invI [OF 4 this M(3)] show ?case using 1(3) by simp
    qed (use gen001_mapD [OF M(2) 1(2), of "-1"] gen001_rel(2) [OF 1(2)] in \<open>simp_all add: gen001_in_def size_limit_def\<close>)
  next
    case (2 u)
    then show ?case by (auto simp: gen001_idle_def)
  qed
  have round: "wp (seq [kunit_info m, gen001_chain K iter, gen001_check K nh]) (\<lambda>_. ?idle) t" if "?idle t" for m iter t
    unfolding kunit_info_def wp_seq_Cons wp_seq_Nil wp_modify
  proof (rule wp_mono [OF gen001_chain_ok [where C = ?C and nf = "kfails s", OF _ lim]], unfold info, rule that, goal_cases)
    case (1 a u)
    then obtain la M where M: "\<forall>i<GEN001_NFILES. gen001_link u i = 0" "holds (ctx u) gen001_all M Map.empty u"
      "gen001_map ?C GEN001_NFILES (\<lambda>_. 0) (\<lambda>_. 0) la M" "kfails u = kfails s"
      unfolding gen001_idle_def by (auto elim: gen001_invE)
    have "gen001_map (gen001_content K nh) GEN001_NFILES (\<lambda>_. 0) (\<lambda>_. 0) la M"
      using M(3) by (simp add: gen001_map_def)
    from gen001_check_ok [OF M(2) this] show ?case
    proof (rule wp_mono)
      fix v
      assume "holds (ctx u) gen001_all M Map.empty v"
      from gen001_invI [OF this M(3,4)] M(1) show "?idle v"
        unfolding gen001_idle_def by (intro conjI exI) (simp_all only: simp_thms)
    qed
  qed
  show ?thesis
    unfolding passes_def chains_preserve_data_across_five_iterations_def wp_seq_Cons wp_bnd wp_mounted wp_kunit_assert
  proof (intro conjI, goal_cases)
    case 2
    show ?case
    proof (rule gen001_mkdirs_ok [OF assms(1)], goal_cases)
      case (1 w)
      let ?s = "s\<lparr>kw := w, kactions := ''gen001_remove_tree_action'' # kactions s,
        kunit_log := kunit_log s @ [''setup: '' @ dec GEN001_NFILES @ '' files over NFS'']\<rparr>"
      have "gen001_map ?C 0 (\<lambda>_. 0) (\<lambda>_. 0) (\<lambda>_. False) Map.empty" by (simp add: gen001_map_def gen001_in_def)
      then have "?W 0 ?s" using 1 assms(2) by (auto simp: gen001_inv_def)
      from init_ok [OF this]
      have "wp (for_each [0..<GEN001_NFILES] (\<lambda>i. gen001_write_file K nh (gen001_rel i) (gen001_bytes i)))
        (\<lambda>_. wp (for_each [1..<GEN001_ITERS + 1] (\<lambda>iter. seq [
          kunit_info (''iter '' @ dec iter @ '' chain ('' @ dec GEN001_NCOPY @ '' copies)''),
          gen001_chain K iter, gen001_check K nh])) (\<lambda>_ t. kfails t = kfails s)) ?s"
        by (rule wp_mono, intro wp_for_range [where I = "\<lambda>_. ?idle"] round)
          (auto simp: gen001_idle_def gen001_inv_def GEN001_ITERS_def)
      then show ?case unfolding kunit_info_def wp_modify wp_seq_Nil by simp
    qed
  qed (use assms(1) in \<open>simp add: ready_def\<close>)
qed

lemma gen001_one_chain_ok:
  assumes "ready V ok GEN001_ROOT s"
  shows "passes (one_chain_survives_copy_rename_unlink K nh) s"
proof -
  let ?P = "gen001_path (gen001_rel 16)"
  have i: "16 < GEN001_NFILES" "''sub/m'' = gen001_rel 16"
    by (simp_all add: GEN001_NFILES_def gen001_table(1) gen001_rel_def gen001_config_def)
  have U: "?P l \<in> gen001_all" if "-2 \<le> l" for l by (rule gen001_all [OF i(1) that])
  have loops: "[0..<3] = [0, 1, 2 :: nat]" "[0..<2] = [0, 1 :: nat]" by (simp_all add: upt_rec)
  have m: "client_mounted s" using assms by (simp add: ready_def)
  note simps = i(1) GEN001_PAGE_def GEN001_CHUNK_def size_limit_def
  have run: "wp (seq [
     gen001_write_file K nh (gen001_rel 16) (GEN001_PAGE + 1),
     for_each [0..<3] (\<lambda>j. gen001_copy K (?P (int j - 1)) (?P (int j))),
     must (xfs_rename K (?P 2) (?P (-2))),
     for_each [0..<2] (\<lambda>j. must (xfs_unlink K (?P (int j)))),
     gen001_verify_content K nh (gen001_rel 16) (?P (-1)) (GEN001_PAGE + 1),
     gen001_verify_content K nh (gen001_rel 16) (?P (-2)) (GEN001_PAGE + 1)]) (\<lambda>_ t. kfails t = fst c) t"
    if "holds c gen001_all Map.empty Map.empty t" for c and t :: "'w gen001"
    using that
    apply (simp only: wp_unfold loops for_each_def list.map)
    apply (erule gen001_write_file_ok, ((rule U, simp; fail) | (simp add: simps; fail))+)
    apply (erule gen001_copy_ok, ((rule U, simp; fail) | (simp add: simps; fail))+)+
    apply (erule h_rename, ((rule U, simp; fail) | (simp add: simps; fail))+)
    apply (intro conjI refl)
    apply (erule h_unlink, (simp add: simps; fail)+)
    apply (intro conjI refl)
    apply (erule h_unlink, (simp add: simps; fail)+)
    apply (intro conjI refl)
    apply (erule gen001_verify_ok, (simp add: simps; fail)+)
    apply (erule gen001_verify_ok, (simp add: simps; fail)+)
    apply (erule holds_fails)
    done
  show ?thesis
    unfolding passes_def one_chain_survives_copy_rename_unlink_def Let_def i(2)
      wp_seq_Cons [of "bnd xfstests_nfs_mounted kunit_assert"] wp_seq_Cons [of "gen001_mkdirs K"] wp_bnd wp_mounted wp_kunit_assert
  proof (intro conjI m, rule gen001_mkdirs_ok [OF assms], goal_cases)
    case (1 w)
    let ?t = "s\<lparr>kw := w, kactions := ''gen001_remove_tree_action'' # kactions s\<rparr>"
    have "holds (ctx ?t) gen001_all Map.empty Map.empty ?t" using 1 by (simp add: holds_def)
    from run [OF this] show ?case by (simp add: ctx_def)
  qed
qed

text \<open>The vacuity guard says exactly that the two seeds give different streams.\<close>

lemma gen001_fill_ok:
  assumes "ok (kw s)"
  shows "passes (fill_is_deterministic_per_name K nh) s \<longleftrightarrow>
    fst (gen001_fill_chunk K (gen001_seed_for K nh ''sub/a00'') 512) \<noteq>
    fst (gen001_fill_chunk K (gen001_seed_for K nh ''sub/b00'') 512)"
proof -
  let ?a = "gen001_fill_chunk K (gen001_seed_for K nh ''sub/a00'') 512"
  let ?b = "gen001_fill_chunk K (gen001_seed_for K nh ''sub/b00'') 512"
  have "wp (must_alloc2 K 512 512) (\<lambda>_ t. kfails t = kfails s) s"
    by (rule wp_alloc2_ok [OF assms]) simp
  from this [unfolded wp_Ok] obtain t where t: "must_alloc2 K 512 512 s = Ok () t" "kfails t = kfails s" by auto
  have "passes (fill_is_deterministic_per_name K nh) s =
    wp (seq [kunit_expect (fst ?a = fst ?a), kunit_expect (fst ?a \<noteq> fst ?b)]) (\<lambda>_ t. kfails t = kfails s) t"
    unfolding passes_def fill_is_deterministic_per_name_def wp_seq_Cons
    by (subst wp_Ok) (simp add: t case_prod_unfold Let_def)
  also have "\<dots> = (fst ?a \<noteq> fst ?b)" using t(2) by simp
  finally show ?thesis .
qed

end

context exported
begin

lemma gen001_probe_ok:
  assumes "ready V ok GEN001_PROBE s" "length wr = GEN001_PAGE"
  shows "passes (loopback_nfs_mounts K wr) s"
proof -
  note simps = assms(2) GEN001_PAGE_def size_limit_def
  have m: "client_mounted s" using assms(1) by (simp add: ready_def)
  have t: "holds (ctx s) {GEN001_PROBE} Map.empty Map.empty s"
    using assms(1) store_start [of "kw s" "{GEN001_PROBE}"] by (simp add: ready_def holds_def)
  have eq: "read_at (nat 0) GEN001_PAGE (write_at 0 wr []) = wr"
    using assms(2) by (simp add: write_at_def read_at_def)
  have length_wr: "int (length wr) = int GEN001_PAGE" using assms(2) by simp
  have absent_ok: "wp (xfs_exists K (XFS_EXPORT @ ''/probe''))
      (\<lambda>b t. if \<not> b then kfails t = kfails s else kfails (t\<lparr>kfails := Suc (kfails t)\<rparr>) = kfails s) t"
    if "holds (ctx s) {GEN001_PROBE} Map.empty Map.empty t" for t
    by (rule xfs_exists_server_absent)
      (use holdsD [OF that] store_ok store_absent [of "{GEN001_PROBE}" Map.empty Map.empty _ GEN001_PROBE] in
        \<open>auto simp: GEN001_PROBE_def ctx_def\<close>)
  show ?thesis
    unfolding passes_def loopback_nfs_mounts_def
    using t
    apply (simp only: wp_unfold wp_mounted m)
    apply (erule h_alloc2)
    apply (erule h_create, (simp; fail)+)
    apply (simp only: wp_unfold)
    apply (erule h_write [where p = GEN001_PROBE], (simp add: simps; fail)+)
    apply (simp only: wp_unfold)
    apply (erule h_close [where p = GEN001_PROBE], (simp; fail)+)
    apply (intro conjI, simp add: simps)
    apply (erule h_open_keep [where p = GEN001_PROBE], (simp; fail)+)
    apply (simp only: wp_unfold)
    apply (erule h_read [where p = GEN001_PROBE], (simp add: simps readable_def; fail)+)
    apply (simp only: wp_unfold)
    apply (erule h_close [where p = GEN001_PROBE], (simp; fail)+)
    apply (simp only: eq length_wr simp_thms if_True)
    apply (erule h_unlink, (simp; fail)+)
    apply (simp only: simp_thms if_True)
    apply (rule absent_ok, simp)
    done
qed

end

section \<open>Properties\<close>

text \<open>
  C4: the full chain copier keeps its data on every kernel that meets the contract, whatever
  the random schedule and whatever streams the names seed: through five iterations of two
  hundred copies, renames and removals every copy finds its source and a free destination,
  and every original and every last copy reads back as the regenerated stream.
\<close>

theorem chains_preserve_data:
  assumes "posix_kernel K V ok" and "ready V ok GEN001_ROOT s" and "\<And>i. i < GEN001_NFILES \<Longrightarrow> gen001_link s i = 0"
  shows "passes (chains_preserve_data_across_five_iterations K nh) s"
  by (rule posix_kernel.gen001_chains_ok [OF assms])

theorem chains_preserve_data_witness:
  "passes (chains_preserve_data_across_five_iterations memk length) (fx0 \<lparr>gen001_link = \<lambda>_. 0\<rparr>)"
  by (rule chains_preserve_data [OF mem.posix_kernel_axioms], simp add: GEN001_ROOT_def fx0_ready) (simp add: fx0_def)

text \<open>
  C39: the chain in miniature and the probe: three copies, the rename of the last and the
  removal of the others leave the original and the renamed copy with the stream of the
  name; whatever page the probe writes reads back, and after its removal the server has no
  such file.
\<close>

theorem one_chain_and_probe_pass:
  assumes "exported K V ok" and "ready V ok GEN001_ROOT s" and "ready V ok GEN001_PROBE s" and "length wr = GEN001_PAGE"
  shows "passes (one_chain_survives_copy_rename_unlink K nh) s \<and> passes (loopback_nfs_mounts K wr) s"
  using posix_kernel.gen001_one_chain_ok [OF exported.axioms(1) [OF assms(1)] assms(2)]
    exported.gen001_probe_ok [OF assms(1,3,4)] by blast

theorem one_chain_and_probe_pass_witness:
  "passes (one_chain_survives_copy_rename_unlink expk length) (fx0 \<lparr>gen001_link = \<lambda>_. 0\<rparr>) \<and>
   passes (loopback_nfs_mounts expk (replicate GEN001_PAGE 7)) (fx0 \<lparr>gen001_link = \<lambda>_. 0\<rparr>)"
  by (rule one_chain_and_probe_pass [OF exp.exported_axioms]) (simp_all add: GEN001_ROOT_def GEN001_PROBE_def fx0_ready)

text \<open>
  The names the copier uses never collide: for two entries of the table and two link
  numbers, the last copy's and the original's included, the paths are equal only when both
  are.
\<close>

lemma gen001_paths_distinct:
  assumes "i < GEN001_NFILES" and "j < GEN001_NFILES" and "-2 \<le> l" and "-2 \<le> m"
  shows "gen001_path (fst (gen001_config ! i)) l = gen001_path (fst (gen001_config ! j)) m \<longleftrightarrow> i = j \<and> l = m"
  using gen001_names [OF assms] by (simp add: gen001_rel_def)

end
