(* ===== verification/Links.thy ===== *)
theory Links
  imports Files
begin

text \<open>
  Hard links.  \<open>linked w root i L F\<close> says that in the directory \<open>root\<close> exactly the
  names of \<open>L\<close> among \<open>L \<union> F\<close> are the closed regular file \<open>i\<close> and the others are free,
  and that the link count of the file is the number of its names.  Each operation on the
  names moves one name between the two sets; this is all the ports on link counts use.
\<close>

context posix_kernel
begin

definition linked :: "'w \<Rightarrow> string \<Rightarrow> nat \<Rightarrow> string set \<Rightarrow> string set \<Rightarrow> bool" where
  "linked w root i L F = (ok w \<and> is_dir (V w) root \<and> finite L \<and> (\<forall>p\<in>L \<union> F. dirname p = root \<and> p \<noteq> root) \<and>
     (\<forall>p\<in>L. names (V w) p = Some i) \<and> (\<forall>p\<in>F. names (V w) p = None) \<and>
     i_type (inodes (V w) i) = S_REG \<and> closed (V w) i \<and> i_nlink (inodes (V w) i) = card L)"

lemma linkedD:
  assumes "linked w root i L F"
  shows "ok w" "p \<in> L \<Longrightarrow> names (V w) p = Some i" "q \<in> F \<Longrightarrow> absent (V w) q"
    "i_type (inodes (V w) i) = S_REG" "closed (V w) i" "i_nlink (inodes (V w) i) = card L" "finite L"
  using assms by (auto simp: linked_def absent_def)

lemma linked_disjoint: "linked w root i L F \<Longrightarrow> L \<inter> F = {}"
  by (auto simp: linked_def)

lemma linked_cong: "linked w root i L F \<Longrightarrow> ok w' \<Longrightarrow> V w' = V w \<Longrightarrow> linked w' root i L F"
  by (simp add: linked_def)

lemma l_create:
  assumes "ok (kw s)" "is_dir (V (kw s)) root" "O_CREAT \<in> fl"
    and names: "\<And>q. q \<in> insert p F \<Longrightarrow> dirname q = root \<and> q \<noteq> root \<and> names (V (kw s)) q = None" and "p \<notin> F"
    and "\<And>w i. linked w root i {p} F \<Longrightarrow> Q () (s\<lparr>kw := w\<rparr>)"
  shows "wp (must_open (kcall (filp_open K p fl m)) (\<lambda>h. kdo (filp_close K h))) Q s"
  unfolding wp_must_open
proof (rule wp_open_new [OF assms(1)], goal_cases)
  case (3 w h i)
  show ?case
    unfolding sum.case
  proof (rule wp_close [where i = i and fl = fl], goal_cases)
    case (3 w2)
    have "is_dir (add_name p i (new_inode S_REG [] m) (V (kw s))) root"
      using is_dir_add_name [OF \<open>fresh _ _\<close>, of root p] names [of p] assms(2) by auto
    then have "linked w2 root i {p} F"
      using 3 \<open>V w = _\<close> \<open>fresh _ _\<close> \<open>fds _ h = None\<close> assms(2,5) names fresh_closed [of "V (kw s)" i]
      by (auto simp: linked_def is_dir_add_name)
    then show ?case using assms(6) by simp
  qed (use 3 in simp_all)
qed (use assms(2,3) names in \<open>auto simp: absent_def\<close>)

lemma l_link:
  assumes "linked (kw s) root i L F" "p \<in> L" "q \<in> F"
    and "\<And>w. linked w root i (insert q L) (F - {q}) \<Longrightarrow> Q 0 (s\<lparr>kw := w\<rparr>)"
  shows "wp (xfs_link K p q) Q s"
proof (rule xfs_link_file [where i = i], goal_cases)
  case (5 w)
  have "q \<notin> L" using linked_disjoint [OF assms(1)] assms(3) by blast
  moreover have "q \<noteq> root" using assms(1,3) by (auto simp: linked_def)
  ultimately have "linked w root i (insert q L) (F - {q})"
    using 5 assms(1,3) by (auto simp: linked_def is_dir_other_name)
  then show ?case by (rule assms(4))
qed (use linkedD [OF assms(1)] assms(2,3) in simp_all)

lemma l_unlink:
  assumes "linked (kw s) root i L F" "p \<in> L"
    and "\<And>w. linked w root i (L - {p}) (insert p F) \<Longrightarrow> Q 0 (s\<lparr>kw := w\<rparr>)"
  shows "wp (xfs_unlink K p) Q s"
proof (rule xfs_unlink_file [where i = i], goal_cases)
  case (5 w)
  have "p \<noteq> root" "dirname p = root" using assms(1,2) by (auto simp: linked_def)
  then have "linked w root i (L - {p}) (insert p F)"
    using 5 assms(1,2) by (auto simp: linked_def is_dir_other_name)
  then show ?case by (rule assms(3))
qed (use linkedD [OF assms(1)] assms(2) in simp_all)

lemma l_kstat:
  assumes "linked (kw s) root i L F" "p \<in> L"
    and "\<And>w st. \<lbrakk>linked w root i L F; st_nlink st = card L; st_ino st = i\<rbrakk> \<Longrightarrow> Q (Inr st) (s\<lparr>kw := w\<rparr>)"
  shows "wp (xfs_kstat K p) Q s"
  by (rule xfs_kstat_found [where i = i])
    (use linkedD [OF assms(1)] assms linked_cong [OF assms(1)] in \<open>simp_all add: stat_matches_def\<close>)

lemma l_rename_same:
  assumes "linked (kw s) root i L F" "p \<in> L" "q \<in> L"
    and "\<And>w. linked w root i L F \<Longrightarrow> Q 0 (s\<lparr>kw := w\<rparr>)"
  shows "wp (xfs_rename K p q) Q s"
  by (rule xfs_rename_same [where i = i])
    (use linkedD [OF assms(1)] assms linked_cong [OF assms(1)] in simp_all)

lemma l_exists:
  assumes "linked (kw s) root i L F" "p \<in> L \<union> F"
    and "\<And>w. linked w root i L F \<Longrightarrow> Q (p \<in> L) (s\<lparr>kw := w\<rparr>)"
  shows "wp (xfs_exists K p) Q s"
proof (cases "p \<in> L")
  case True
  show ?thesis
    by (rule xfs_exists_found [where i = i]) (use linkedD [OF assms(1)] assms linked_cong [OF assms(1)] True in simp_all)
next
  case False
  show ?thesis
    by (rule xfs_exists_absent) (use linkedD [OF assms(1)] assms linked_cong [OF assms(1)] False in simp_all)
qed

end

end
