(* ===== verification/Gen002.thy ===== *)
theory Gen002
  imports Links
begin

text \<open>
  \<open>kunit/xfstests/generic/002.c\<close>: the link count of a file linked up to twenty names and
  taken down again.
\<close>

definition G002_ROOT :: string where "G002_ROOT = XFS_MNT @ ''/g002''"
definition G002_LINKS :: nat where "G002_LINKS = 20"

definition g002_name :: "nat \<Rightarrow> string" where
  "g002_name i = G002_ROOT @ ''/tmp.'' @ dec i"

definition g002_remove_tree :: "'w kernel \<Rightarrow> (('w, 'z) kst_scheme, unit) prog" where
  "g002_remove_tree K =
     seq [for_each [1..<Suc G002_LINKS] (\<lambda>i. ignore (xfs_unlink K (g002_name i))), ignore (xfs_rmdir K G002_ROOT)]"

definition link_count_follows_every_link_and_unlink :: "'w kernel \<Rightarrow> (('w, 'z) fxs_scheme, unit) prog" where
  "link_count_follows_every_link_and_unlink K = (let first = g002_name 1 in seq [
     test_prologue K G002_ROOT ''g002_remove_tree'' (g002_remove_tree K),
     must_open (kcall (filp_open K first {O_WRONLY, O_CREAT, O_EXCL} (mode3 6 4 4))) (\<lambda>f. kdo (filp_close K f)),
     expect_stat K first (\<lambda>st. st_nlink st = 1),
     for_each [2..<Suc G002_LINKS] (\<lambda>l. seq [
       must (xfs_link K first (g002_name l)),
       expect_stat K first (\<lambda>st. st_nlink st = l)]),
     for_each (rev [1..<Suc G002_LINKS]) (\<lambda>l. seq [
       expect_stat K first (\<lambda>st. st_nlink st = l),
       must (xfs_unlink K (g002_name l))]),
     expect_ret (xfs_exists K first) (\<lambda>b. \<not> b)])"

definition g002_suite :: "'w kernel \<Rightarrow> ('w, 'z) fxs_scheme suite" where
  "g002_suite K = nfs_suite K ''xfstests/generic/002''
     [(''link_count_follows_every_link_and_unlink'', link_count_follows_every_link_and_unlink K)]"

section \<open>The names 1 to l are the file\<close>

lemma g002_name_dir: "dirname (g002_name i) = G002_ROOT" "g002_name i \<noteq> G002_ROOT"
  using dirname_comp [of "''tmp.'' @ dec i" G002_ROOT] by (simp_all add: g002_name_def)

lemma g002_name_eq [simp]: "g002_name i = g002_name j \<longleftrightarrow> i = j"
  by (simp add: g002_name_def)

abbreviation g002_names :: "nat \<Rightarrow> nat \<Rightarrow> string set" where
  "g002_names a b \<equiv> g002_name ` {a..<b}"

lemma g002_names_card: "card (g002_names a b) = b - a"
  by (subst card_image) (auto simp: inj_on_def)

context posix_kernel
begin

definition g002_at :: "nat \<Rightarrow> nat \<Rightarrow> nat \<Rightarrow> ('w, 'z) fxs_scheme \<Rightarrow> bool" where
  "g002_at nf i l s = (kfails s = nf \<and> linked (kw s) G002_ROOT i (g002_names 1 l) (g002_names l (Suc G002_LINKS)))"

lemma g002_at_stat:
  assumes "g002_at nf i (Suc l) s" "0 < l" and "\<And>t. g002_at nf i (Suc l) t \<Longrightarrow> Q () t"
  shows "wp (expect_stat K (g002_name 1) (\<lambda>st. st_nlink st = l)) Q s"
  by (rule wp_expect_stat, rule l_kstat [where L = "g002_names 1 (Suc l)"])
    (use assms g002_names_card [of 1 "Suc l"] in \<open>auto simp: g002_at_def\<close>)

lemma g002_up:
  assumes "g002_at nf i l s" "2 \<le> l" "l \<le> G002_LINKS"
  shows "wp (seq [must (xfs_link K (g002_name 1) (g002_name l)), expect_stat K (g002_name 1) (\<lambda>st. st_nlink st = l)])
    (\<lambda>_. g002_at nf i (Suc l)) s"
  unfolding wp_seq_Cons wp_must
proof (rule l_link [where root = G002_ROOT and i = i and L = "g002_names 1 l" and F = "g002_names l (Suc G002_LINKS)"], goal_cases)
  case (4 w)
  have "insert (g002_name l) (g002_names 1 l) = g002_names 1 (Suc l)" using assms(2) by (auto simp: less_Suc_eq)
  moreover have "g002_names l (Suc G002_LINKS) - {g002_name l} = g002_names (Suc l) (Suc G002_LINKS)"
    by (auto simp: image_iff intro: Suc_leI le_neq_implies_less)
  ultimately have "g002_at nf i (Suc l) (s\<lparr>kw := w\<rparr>)" using 4 assms(1) by (simp add: g002_at_def)
  then show ?case using assms(2) by (intro conjI refl g002_at_stat) simp_all
qed (use assms in \<open>auto simp: g002_at_def\<close>)

lemma g002_down:
  assumes "g002_at nf i (Suc l) s" "1 \<le> l" "l \<le> G002_LINKS"
  shows "wp (seq [expect_stat K (g002_name 1) (\<lambda>st. st_nlink st = l), must (xfs_unlink K (g002_name l))])
    (\<lambda>_. g002_at nf i l) s"
  unfolding wp_seq_Cons wp_must
proof (rule g002_at_stat [OF assms(1)], goal_cases)
  case (2 t)
  show ?case
  proof (rule l_unlink [where root = G002_ROOT and i = i and L = "g002_names 1 (Suc l)" and F = "g002_names (Suc l) (Suc G002_LINKS)"], goal_cases)
    case (3 w)
    have "g002_names 1 (Suc l) - {g002_name l} = g002_names 1 l" by (auto simp: image_iff less_Suc_eq)
    moreover have "insert (g002_name l) (g002_names (Suc l) (Suc G002_LINKS)) = g002_names l (Suc G002_LINKS)"
      using assms(3) by (auto simp: image_iff)
    ultimately show ?case using 3 2 by (simp add: g002_at_def)
  qed (use 2 assms in \<open>auto simp: g002_at_def\<close>)
qed (use assms in simp)

lemma g002_run_ok:
  assumes "ready V ok G002_ROOT s"
  shows "passes (link_count_follows_every_link_and_unlink K) s"
  unfolding passes_def link_count_follows_every_link_and_unlink_def Let_def wp_seq_Cons
proof (rule wp_test_prologue [OF assms], goal_cases)
  case (1 w1 d)
  show ?case
  proof (rule l_create [where root = G002_ROOT and F = "g002_names 2 (Suc G002_LINKS)"], goal_cases)
    case (6 w2 i)
    let ?at = "\<lambda>l. g002_at (kfails s) i l"
    have one: "g002_names 1 2 = {g002_name 1}" by (auto simp: image_iff)
    have up: "wp (for_each [2..<Suc G002_LINKS] (\<lambda>l. seq [
        must (xfs_link K (g002_name 1) (g002_name l)), expect_stat K (g002_name 1) (\<lambda>st. st_nlink st = l)]))
        (\<lambda>_. ?at (Suc G002_LINKS)) t" if "?at 2 t" for t :: "('w, 'a) fxs_scheme"
      by (rule wp_for_range [where I = ?at, OF that _ g002_up]) (simp_all add: G002_LINKS_def)
    have down: "wp (for_each (rev [1..<Suc G002_LINKS]) (\<lambda>l. seq [
        expect_stat K (g002_name 1) (\<lambda>st. st_nlink st = l), must (xfs_unlink K (g002_name l))]))
        (\<lambda>_. ?at 1) t" if "?at (Suc G002_LINKS) t" for t :: "('w, 'a) fxs_scheme"
      by (rule wp_for_down [where I = ?at, OF that _ g002_down]) simp_all
    have last: "wp (expect_ret (xfs_exists K (g002_name 1)) (\<lambda>b. \<not> b)) (\<lambda>_ t. kfails t = kfails s) t"
      if "?at 1 t" for t :: "('w, 'a) fxs_scheme"
      unfolding wp_expect_ret
      by (rule l_exists [where L = "{}" and F = "g002_names 1 (Suc G002_LINKS)"])
        (use that in \<open>auto simp: g002_at_def G002_LINKS_def\<close>)
    show ?case
    proof (rule g002_at_stat [where l = 1 and nf = "kfails s" and i = i], goal_cases)
      case (3 t)
      then show ?case
        unfolding wp_seq_Nil by (intro wp_mono [OF up] wp_mono [OF down] last) (simp_all add: numeral_2_eq_2)
    qed (use 6 one in \<open>simp_all add: g002_at_def numeral_2_eq_2\<close>)
  qed (use 1(1,4,5) g002_name_dir in auto)
qed

end

end
