(* ===== verification/Trees.thy ===== *)
theory Trees
  imports Stores Paths
begin

text \<open>
  Directory trees.  \<open>tree root T w\<close> reads the part of the kernel's world at and below the
  directory \<open>root\<close> as a map \<open>T\<close> from names to nodes: directories, closed regular files
  with their contents, symbolic links with their targets, devices and fifos, each with its
  inode number.  The
  rules are the steps of the simulation, errors included; \<open>t_rename\<close> is the rename of POSIX
  on such a map.  The contract of the other ports says nothing of a rename that meets a
  directory, nor of a removal by the wrong call; the locale \<open>tree_kernel\<close> adds what
  rename(2), rmdir(2) and unlink(2) promise there.
\<close>

locale tree_kernel = posix_kernel K V ok
  for K :: "'w kernel" and V :: "'w \<Rightarrow> fsv" and ok :: "'w \<Rightarrow> bool" +
  assumes rename_absent: "\<lbrakk>ok w; absent (V w) p; is_dir (V w) (dirname q); do_renameat2 K p q w = (r, w')\<rbrakk> \<Longrightarrow>
      r = - ENOENT \<and> ok w' \<and> V w' = V w"
    and rename_over_dir: "\<lbrakk>ok w; names (V w) p = Some i; i_type (inodes (V w) i) \<noteq> S_DIR; is_dir (V w) q; \<not> beneath q p;
        do_renameat2 K p q w = (r, w')\<rbrakk> \<Longrightarrow>
      r = - EISDIR \<and> ok w' \<and> V w' = V w"
    and rename_dir_over: "\<lbrakk>ok w; is_dir (V w) p; p \<noteq> XFS_MNT; names (V w) q = Some j; i_type (inodes (V w) j) \<noteq> S_DIR;
        \<not> beneath p q; do_renameat2 K p q w = (r, w')\<rbrakk> \<Longrightarrow>
      r = - ENOTDIR \<and> ok w' \<and> V w' = V w"
    and rename_inside: "\<lbrakk>ok w; is_dir (V w) p; p \<noteq> XFS_MNT; beneath p q; is_dir (V w) (dirname q); names (V w) q \<noteq> names (V w) p;
        do_renameat2 K p q w = (r, w')\<rbrakk> \<Longrightarrow>
      r = - EINVAL \<and> ok w' \<and> V w' = V w"
    and rename_nonempty: "\<lbrakk>ok w; is_dir (V w) p; p \<noteq> XFS_MNT; is_dir (V w) q; names (V w) q \<noteq> names (V w) p; \<not> beneath p q;
        \<not> empty_dir (V w) q; do_renameat2 K p q w = (r, w')\<rbrakk> \<Longrightarrow>
      r = - ENOTEMPTY \<and> ok w' \<and> V w' = V w"
    and rename_dir: "\<lbrakk>ok w; is_dir (V w) p; p \<noteq> XFS_MNT; names (V w) q \<noteq> names (V w) p; \<not> beneath p q;
        absent (V w) q \<or> is_dir (V w) q \<and> empty_dir (V w) q \<and> q \<noteq> XFS_MNT; do_renameat2 K p q w = (r, w')\<rbrakk> \<Longrightarrow>
      r = 0 \<and> ok w' \<and> V w' = (V w)\<lparr>names := move_names p q (names (V w))\<rparr>"
    and unlink_dir: "\<lbrakk>ok w; is_dir (V w) p; p \<noteq> XFS_MNT; do_unlinkat K p w = (r, w')\<rbrakk> \<Longrightarrow>
      r = - EISDIR \<and> ok w' \<and> V w' = V w"
    and rmdir_absent: "\<lbrakk>ok w; absent (V w) p; do_rmdir K p w = (r, w')\<rbrakk> \<Longrightarrow>
      r = - ENOENT \<and> ok w' \<and> V w' = V w"
    and rmdir_file: "\<lbrakk>ok w; names (V w) p = Some i; i_type (inodes (V w) i) \<noteq> S_DIR; do_rmdir K p w = (r, w')\<rbrakk> \<Longrightarrow>
      r = - ENOTDIR \<and> ok w' \<and> V w' = V w"

section \<open>Trees of nodes\<close>

datatype node = Dir nat | Reg nat "byte list" | Lnk nat string | Chr nat | Blk nat | Fifo nat

fun ino :: "node \<Rightarrow> nat" where
  "ino (Dir i) = i" | "ino (Reg i d) = i" | "ino (Lnk i t) = i" | "ino (Chr i) = i" | "ino (Blk i) = i" | "ino (Fifo i) = i"

fun ntype :: "node \<Rightarrow> ftype" where
  "ntype (Dir i) = S_DIR" | "ntype (Reg i d) = S_REG" | "ntype (Lnk i t) = S_LNK"
| "ntype (Chr i) = S_CHR" | "ntype (Blk i) = S_BLK" | "ntype (Fifo i) = S_FIFO"

fun nsize :: "node \<Rightarrow> nat" where
  "nsize (Dir i) = 0" | "nsize (Reg i d) = length d" | "nsize (Lnk i t) = length t"
| "nsize (Chr i) = 0" | "nsize (Blk i) = 0" | "nsize (Fifo i) = 0"

type_synonym dtree = "string \<rightharpoonup> node"

definition t_dir :: "dtree \<Rightarrow> string \<Rightarrow> bool" where
  "t_dir T p = (\<exists>i. T p = Some (Dir i))"

definition t_empty :: "dtree \<Rightarrow> string \<Rightarrow> bool" where
  "t_empty T p = (\<forall>q\<in>dom T. dirname q \<noteq> p)"

text \<open>rename(2) on a tree: the result and the tree it leaves.\<close>

definition t_rename :: "string \<Rightarrow> string \<Rightarrow> dtree \<Rightarrow> int \<times> dtree" where
  "t_rename p q T = (case T p of
       None \<Rightarrow> (- ENOENT, T)
     | Some (Dir i) \<Rightarrow>
         if q = p then (0, T)
         else if beneath p q then (- EINVAL, T)
         else (case T q of
             None \<Rightarrow> (0, move_names p q T)
           | Some (Dir j) \<Rightarrow> if t_empty T q then (0, move_names p q T) else (- ENOTEMPTY, T)
           | Some _ \<Rightarrow> (- ENOTDIR, T))
     | Some n \<Rightarrow> (case T q of
             Some (Dir j) \<Rightarrow> (- EISDIR, T)
           | Some m \<Rightarrow> if ino m = ino n then (0, T) else (0, T(p := None, q \<mapsto> n))
           | None \<Rightarrow> (0, T(p := None, q \<mapsto> n))))"

lemma t_rename_leaf:
  "\<lbrakk>T p = Some n; ntype n \<noteq> S_DIR\<rbrakk> \<Longrightarrow> t_rename p q T = (case T q of
     None \<Rightarrow> (0, T(p := None, q \<mapsto> n))
   | Some m \<Rightarrow> if ntype m = S_DIR then (- EISDIR, T) else if ino m = ino n then (0, T) else (0, T(p := None, q \<mapsto> n)))"
  by (cases n) (auto simp: t_rename_def split: option.splits node.splits)

definition shows_as :: "fsv \<Rightarrow> string \<Rightarrow> node option \<Rightarrow> bool" where
  "shows_as v p x = (case x of
       None \<Rightarrow> names v p = None
     | Some n \<Rightarrow> names v p = Some (ino n) \<and> i_type (inodes v (ino n)) = ntype n \<and>
         (case n of Dir i \<Rightarrow> True
          | Reg i d \<Rightarrow> data_of v i = d \<and> closed v i
          | Lnk i t \<Rightarrow> i_target (inodes v i) = t \<and> closed v i
          | _ \<Rightarrow> closed v (ino n)))"

lemma shows_simps [simp]:
  "shows_as v p None \<longleftrightarrow> names v p = None"
  "shows_as v p (Some (Dir i)) \<longleftrightarrow> names v p = Some i \<and> i_type (inodes v i) = S_DIR"
  "shows_as v p (Some (Reg i d)) \<longleftrightarrow> names v p = Some i \<and> i_type (inodes v i) = S_REG \<and> data_of v i = d \<and> closed v i"
  "shows_as v p (Some (Lnk i t)) \<longleftrightarrow> names v p = Some i \<and> i_type (inodes v i) = S_LNK \<and> i_target (inodes v i) = t \<and> closed v i"
  "shows_as v p (Some (Chr i)) \<longleftrightarrow> names v p = Some i \<and> i_type (inodes v i) = S_CHR \<and> closed v i"
  "shows_as v p (Some (Blk i)) \<longleftrightarrow> names v p = Some i \<and> i_type (inodes v i) = S_BLK \<and> closed v i"
  "shows_as v p (Some (Fifo i)) \<longleftrightarrow> names v p = Some i \<and> i_type (inodes v i) = S_FIFO \<and> closed v i"
  by (auto simp: shows_as_def)

lemma shows_names: "shows_as v p x \<Longrightarrow> names v p = map_option ino x"
  by (auto simp: shows_as_def split: option.splits)

lemma shows_type: "shows_as v p (Some n) \<Longrightarrow> i_type (inodes v (ino n)) = ntype n"
  by (simp add: shows_as_def)

lemma dir_node: "is_dir v p \<Longrightarrow> shows_as v p (T p) \<Longrightarrow> t_dir T p"
  by (cases "T p"; cases "the (T p)") (auto simp: t_dir_def is_dir_def)

text \<open>A step on other inodes keeps a node.\<close>

definition same_inode :: "fsv \<Rightarrow> fsv \<Rightarrow> nat \<Rightarrow> bool" where
  "same_inode v v' i = (i_type (inodes v' i) = i_type (inodes v i) \<and> data_of v' i = data_of v i \<and>
     i_target (inodes v' i) = i_target (inodes v i) \<and> (closed v i \<longrightarrow> closed v' i))"

lemma shows_keep:
  "\<lbrakk>shows_as v p x; names v' q = names v p; \<And>i. names v p = Some i \<Longrightarrow> same_inode v v' i\<rbrakk> \<Longrightarrow> shows_as v' q x"
  by (cases x) (auto simp: shows_as_def same_inode_def split: node.splits)

definition dirs_inj :: "dtree \<Rightarrow> bool" where
  "dirs_inj T = (\<forall>p q i. T p = Some (Dir i) \<longrightarrow> T q = Some (Dir i) \<longrightarrow> p = q)"

lemma dirs_inj_upd: "\<lbrakk>dirs_inj T; \<And>i. x = Some (Dir i) \<Longrightarrow> \<forall>q. T q \<noteq> Some (Dir i)\<rbrakk> \<Longrightarrow> dirs_inj (T(p := x))"
  unfolding dirs_inj_def by (metis fun_upd_apply)

lemma dirs_inj_move: "dirs_inj T \<Longrightarrow> dirs_inj (move_names p q T)"
  unfolding dirs_inj_def
proof (intro allI impI)
  fix r r' i
  assume inj: "\<forall>p q i. T p = Some (Dir i) \<longrightarrow> T q = Some (Dir i) \<longrightarrow> p = q"
    and r: "move_names p q T r = Some (Dir i)" "move_names p q T r' = Some (Dir i)"
  show "r = r'"
    by (rule move_inj [where P = "\<lambda>x. x = Some (Dir i)" and m = T and p = p and q = q]) (use inj r in auto)
qed

text \<open>Nothing of a tree lies outside it.\<close>

definition rooted :: "string \<Rightarrow> dtree \<Rightarrow> bool" where
  "rooted root T = (t_dir T root \<and> (\<forall>p. T p \<noteq> None \<longrightarrow> p = root \<or> beneath root p))"

lemma rooted_upd: "\<lbrakk>rooted root T; beneath root p\<rbrakk> \<Longrightarrow> rooted root (T(p := x))"
  by (auto simp: rooted_def t_dir_def)

lemma rooted_move:
  assumes "rooted root T" "beneath root p" "beneath root q"
  shows "rooted root (move_names p q T)"
proof -
  have "move_names p q T root = T root"
    by (rule move_other) (use assms beneath_asym in \<open>auto dest: beneath_asym\<close>)
  moreover have "r = root \<or> beneath root r" if r: "move_names p q T r \<noteq> None" for r
  proof -
    obtain x where "move_names p q T r = Some x" using r by blast
    then show ?thesis
      by (cases rule: move_source)
        (use assms beneath_trans [OF assms(3) beneath_comp] in \<open>auto simp: rooted_def\<close>)
  qed
  ultimately show ?thesis using assms(1) by (simp add: rooted_def t_dir_def)
qed

definition new_ino :: "dtree \<Rightarrow> nat \<Rightarrow> bool" where
  "new_ino T i = (\<forall>n\<in>ran T. ino n \<noteq> i)"

lemma new_inoD: "new_ino T i \<Longrightarrow> T p = Some n \<Longrightarrow> ino n \<noteq> i"
  by (auto simp: new_ino_def ran_def)

lemma new_ino_upd: "T p = None \<Longrightarrow> new_ino (T(p \<mapsto> n)) i \<longleftrightarrow> ino n \<noteq> i \<and> new_ino T i"
  by (auto simp: new_ino_def ran_map_upd)

section \<open>The tree in the kernel's world\<close>

context posix_kernel
begin

definition tree :: "string \<Rightarrow> dtree \<Rightarrow> 'w \<Rightarrow> bool" where
  "tree root T w = (ok w \<and> CHR ''/'' \<in> set root \<and> root \<noteq> XFS_MNT \<and> rooted root T \<and> dirs_inj T \<and>
     (\<forall>p. p = root \<or> beneath root p \<longrightarrow> shows_as (V w) p (T p)))"

lemma treeD:
  assumes "tree root T w"
  shows "ok w" "rooted root T" "dirs_inj T" "p = root \<or> beneath root p \<Longrightarrow> shows_as (V w) p (T p)"
  using assms by (auto simp: tree_def)

lemma tree_in: "tree root T w \<Longrightarrow> T p = Some n \<Longrightarrow> shows_as (V w) p (Some n)"
  using treeD(2) [of root T w] treeD(4) [of root T w p] by (auto simp: rooted_def)

lemma tree_beneath:
  assumes "tree root T w" "t_dir T (dirname p)"
  shows "beneath root p"
proof -
  have p: "dirname p = root \<or> beneath root (dirname p)"
    using assms treeD(2) [OF assms(1)] unfolding rooted_def t_dir_def by blast
  then have "CHR ''/'' \<in> set (dirname p)" using assms(1) by (auto simp: tree_def beneath_slash)
  then have "CHR ''/'' \<in> set p" using dirname_prefix [of p] by (metis in_set_conv_decomp append_assoc append_Cons)
  then show ?thesis using p by (rule dirname_step)
qed

lemma tree_dir: "tree root T w \<Longrightarrow> t_dir T p \<Longrightarrow> is_dir (V w) p"
  using tree_in by (fastforce simp: t_dir_def is_dir_def)

lemma tree_absent: "\<lbrakk>tree root T w; T p = None; t_dir T (dirname p)\<rbrakk> \<Longrightarrow> absent (V w) p"
  using treeD(4) [of root T w p] tree_beneath [of root T w p] tree_dir [of root T w "dirname p"]
  by (simp add: absent_def)

lemma tree_mnt: "tree root T w \<Longrightarrow> p = root \<or> beneath root p \<Longrightarrow> p \<noteq> XFS_MNT"
proof
  assume t: "tree root T w" "p = root \<or> beneath root p" "p = XFS_MNT"
  obtain i where "names (V w) root = Some i"
    using tree_dir [OF t(1), of root] treeD(2) [OF t(1)] by (auto simp: rooted_def is_dir_def split: option.splits)
  from inside [OF treeD(1) [OF t(1)] this] have "length XFS_MNT \<le> length root" by (metis length_take min.cobounded1)
  then show False using t beneath_length [of root p] by (auto simp: tree_def)
qed

lemma tree_parent:
  assumes "tree root T w" "beneath root p" "T p = Some n"
  shows "t_dir T (dirname p)"
proof -
  note sh = tree_in [OF assms(1,3)]
  have "is_dir (V w) (dirname p)"
    by (rule parent [OF treeD(1) [OF assms(1)], of p "ino n"])
      (use sh shows_names [OF sh] tree_mnt [OF assms(1), of p] assms(2) in auto)
  moreover have "dirname p = root \<or> beneath root (dirname p)" using dirname_beneath [OF assms(2)] .
  ultimately show ?thesis
    using treeD(4) [OF assms(1), of "dirname p"] dir_node by blast
qed

lemma tree_empty: "tree root T w \<Longrightarrow> t_dir T p \<Longrightarrow> empty_dir (V w) p = t_empty T p"
proof
  assume t: "tree root T w" "t_dir T p"
  have u: "beneath root q" if "dirname q = p" for q using tree_beneath [OF t(1), of q] t(2) that by simp
  show "t_empty T p" if "empty_dir (V w) p"
    unfolding t_empty_def
  proof
    fix q assume "q \<in> dom T"
    then obtain n where "T q = Some n" by blast
    then have "names (V w) q \<noteq> None" using tree_in [OF t(1)] shows_names by fastforce
    then show "dirname q \<noteq> p" using that by (auto simp: empty_dir_def)
  qed
  show "empty_dir (V w) p" if "t_empty T p"
    unfolding empty_dir_def
  proof (intro allI impI)
    fix q assume q: "dirname q = p"
    then have "T q = None" using that by (auto simp: t_empty_def)
    then show "names (V w) q = None" using treeD(4) [OF t(1), of q] u [OF q] by simp
  qed
qed

lemma tree_cong: "tree root T w \<Longrightarrow> ok w' \<Longrightarrow> V w' = V w \<Longrightarrow> tree root T w'"
  by (simp add: tree_def)

text \<open>One name changes.\<close>

lemma tree_step:
  assumes "tree root T w" "ok w'" "beneath root p" "shows_as (V w') p x"
    and "\<And>q. q \<noteq> p \<Longrightarrow> names (V w') q = names (V w) q"
    and "\<And>q n. \<lbrakk>T q = Some n; q \<noteq> p\<rbrakk> \<Longrightarrow> same_inode (V w) (V w') (ino n)"
    and "\<And>i. x = Some (Dir i) \<Longrightarrow> \<forall>q. T q \<noteq> Some (Dir i)"
  shows "tree root (T(p := x)) w'"
proof -
  have "shows_as (V w') q ((T(p := x)) q)" if q: "q = root \<or> beneath root q" for q
  proof (cases "q = p")
    case False
    have "shows_as (V w') q (T q)"
    proof (rule shows_keep [OF treeD(4) [OF assms(1) q] assms(5) [OF False]])
      fix i assume "names (V w) q = Some i"
      then obtain n where "T q = Some n" "ino n = i"
        using shows_names [OF treeD(4) [OF assms(1) q]] by auto
      then show "same_inode (V w) (V w') i" using assms(6) False by blast
    qed
    then show ?thesis using False by simp
  qed (simp add: assms(4))
  then show ?thesis
    using assms(1,2,3) rooted_upd [of root T p x] dirs_inj_upd [of T x p] assms(7)
    by (auto simp: tree_def)
qed

lemma same_fresh:
  "\<lbrakk>tree root T w; fresh (V w) i; T q = Some n\<rbrakk> \<Longrightarrow> ino n \<noteq> i"
  using tree_in [of root T w q n] shows_names by (fastforce simp: fresh_def)

lemma fresh_new: "tree root T w \<Longrightarrow> fresh (V w) i \<Longrightarrow> new_ino T i"
  unfolding new_ino_def ran_def using same_fresh by blast

text \<open>A new node under a free name.\<close>

lemma tree_insert:
  assumes "tree root T w" "t_dir T (dirname p)" "ok w'" "fresh (V w) i" "V w' = add_name p i m (V w)"
    and "shows_as (V w') p (Some n)" "ino n = i"
  shows "tree root (T(p \<mapsto> n)) w'"
proof (rule tree_step [OF assms(1,3) tree_beneath [OF assms(1,2)] assms(6)])
  fix q n' assume "T q = Some n'" "q \<noteq> p"
  then have "ino n' \<noteq> i" using same_fresh [OF assms(1,4)] by blast
  then show "same_inode (V w) (V w') (ino n')"
    using assms(5) by (auto simp: same_inode_def closed_def data_of_def)
next
  fix j assume "Some n = Some (Dir j)"
  then show "\<forall>q. T q \<noteq> Some (Dir j)" using same_fresh [OF assms(1,4)] assms(7) by force
qed (use assms(5) in simp)

text \<open>A name goes away.\<close>

lemma tree_remove:
  assumes "tree root T w" "beneath root p" "ok w'" "V w' = f ((V w)\<lparr>names := (names (V w))(p := None)\<rparr>)"
    and "f = id \<or> (\<exists>i k. f = set_nlink i k)"
  shows "tree root (T(p := None)) w'"
proof (rule tree_step [OF assms(1,3,2)])
  show "shows_as (V w') p None" using assms(4,5) by auto
  show "names (V w') q = names (V w) q" if "q \<noteq> p" for q using assms(4,5) that by auto
  show "same_inode (V w) (V w') (ino n)" for n
    using assms(4,5) by (auto simp: same_inode_def closed_def data_of_def set_nlink_def)
qed simp

lemma tree_move_leaf:
  assumes "tree root T w" "T p = Some n" "ntype n \<noteq> S_DIR" "beneath root p" "beneath root q" "p \<noteq> q" "ok w'"
    and "V w' = f ((V w)\<lparr>names := (names (V w))(p := None, q \<mapsto> ino n)\<rparr>)"
    and "f = id \<or> (\<exists>i k. f = set_nlink i k)"
  shows "tree root (T(p := None, q \<mapsto> n)) w'"
proof -
  have same: "same_inode (V w) (V w') i" for i
    using assms(8,9) by (auto simp: same_inode_def closed_def data_of_def set_nlink_def)
  have nm: "names (V w') = (names (V w))(p := None, q \<mapsto> ino n)" using assms(8,9) by auto
  have n: "names (V w) p = Some (ino n)" using shows_names [OF tree_in [OF assms(1,2)]] by simp
  have "shows_as (V w') r ((T(p := None, q \<mapsto> n)) r)" if r: "r = root \<or> beneath root r" for r
  proof -
    consider "r = q" | "r = p" | "r \<noteq> q" "r \<noteq> p" by blast
    then show ?thesis
    proof cases
      case 1
      have "shows_as (V w') q (Some n)"
        by (rule shows_keep [OF tree_in [OF assms(1,2)]]) (use nm n same in simp_all)
      then show ?thesis using 1 by simp
    next
      case 2
      then show ?thesis using nm assms(6) by simp
    next
      case 3
      have "shows_as (V w') r (T r)"
        by (rule shows_keep [OF treeD(4) [OF assms(1) r]]) (use nm 3 same in simp_all)
      then show ?thesis using 3 by simp
    qed
  qed
  moreover have "dirs_inj (T(p := None, q \<mapsto> n))"
    by (intro dirs_inj_upd) (use treeD(3) [OF assms(1)] assms(3) in auto)
  moreover have "rooted root (T(p := None, q \<mapsto> n))"
    by (intro rooted_upd treeD(2) [OF assms(1)] assms(4,5))
  ultimately show ?thesis using assms(1,7) by (simp add: tree_def)
qed

lemma tree_carry:
  assumes "tree root T w" "beneath root p" "beneath root q" "ok w'"
    and "V w' = (V w)\<lparr>names := move_names p q (names (V w))\<rparr>"
  shows "tree root (move_names p q T) w'"
proof -
  have same: "same_inode (V w) (V w') i" for i using assms(5) by (auto simp: same_inode_def closed_def data_of_def)
  have "shows_as (V w') r (move_names p q T r)" if r: "r = root \<or> beneath root r" for r
  proof -
    have keep: "shows_as (V w') r (T a)" if "names (V w') r = names (V w) a" "a = root \<or> beneath root a" for a
      by (rule shows_keep [OF treeD(4) [OF assms(1) that(2)] that(1) same])
    have nm: "names (V w') r = move_names p q (names (V w)) r" using assms(5) by simp
    have "beneath root (p @ CHR ''/'' # b)" for b using beneath_trans [OF assms(2) beneath_comp] .
    then show ?thesis
      using keep nm r assms(2) beneathE [of q r] by (auto simp: move_names_def)
  qed
  then show ?thesis
    using assms(1,4) dirs_inj_move [of T p q] rooted_move [OF _ assms(2,3), of T] by (auto simp: tree_def)
qed

section \<open>One rule per call\<close>

definition tholds :: "nat \<times> string list \<times> 'z \<Rightarrow> string \<Rightarrow> dtree \<Rightarrow> ('w, 'z) kst_scheme \<Rightarrow> bool" where
  "tholds c root T s = (ctx s = c \<and> tree root T (kw s))"

lemma tholdsD: "tholds c root T s \<Longrightarrow> tree root T (kw s)" "tholds c root T s \<Longrightarrow> ctx s = c"
  by (simp_all add: tholds_def)

lemma tholds_kw: "tholds c root T s \<Longrightarrow> tree root T' w \<Longrightarrow> tholds c root T' (s\<lparr>kw := w\<rparr>)"
  by (simp add: tholds_def)

lemma tholds_fails: "tholds c root T s \<Longrightarrow> kfails s = fst c"
  by (auto simp: tholds_def ctx_def)

lemma tholds_same: "tholds c root T s \<Longrightarrow> ok w \<Longrightarrow> V w = V (kw s) \<Longrightarrow> tholds c root T (s\<lparr>kw := w\<rparr>)"
  by (auto simp: tholds_def intro: tree_cong)

lemma t_prologue:
  assumes "ready V ok root s" "CHR ''/'' \<in> set root"
    and "\<And>t i. tholds (kfails s, nm # kactions s, kst.more s) root [root \<mapsto> Dir i] t \<Longrightarrow> Q () t"
  shows "wp (test_prologue K root nm act) Q s"
proof (rule wp_test_prologue [OF assms(1)], goal_cases)
  case (1 w i)
  have r: "absent (V (kw s)) root" "ok (kw s)" using assms(1) by (simp_all add: ready_def)
  have "root \<noteq> XFS_MNT" using r root [OF r(2)] by (auto simp: absent_def is_dir_def)
  have free: "beneath root p \<Longrightarrow> names (V w) p = None" for p
  proof (induction p rule: measure_induct_rule [where f = length])
    case (less p)
    have "p \<noteq> XFS_MNT"
    proof
      assume "p = XFS_MNT"
      then have "length root < length XFS_MNT" using less.prems beneath_length by blast
      moreover have "length XFS_MNT \<le> length root" using below [OF r(2)] r(1) by (metis length_take min.cobounded1)
      ultimately show False by simp
    qed
    then have d: "is_dir (V w) (dirname p)" if "names (V w) p = Some j" for j using parent [OF 1(1) that] by blast
    from dirname_beneath [OF less.prems] show ?case
    proof
      assume "beneath root (dirname p)"
      from less.IH [OF dirname_shorter [OF less.prems] this] d show ?thesis by (cases "names (V w) p") (auto simp: is_dir_def)
    qed (rule 1(5))
  qed
  have "shows_as (V w) p ([root \<mapsto> Dir i] p)" if "p = root \<or> beneath root p" for p
  proof (cases "p = root")
    case True
    then show ?thesis by (simp add: 1(3) add_name_def)
  next
    case False
    then show ?thesis using free that by simp
  qed
  moreover have "rooted root [root \<mapsto> Dir i]" "dirs_inj [root \<mapsto> Dir i]"
    by (auto simp: rooted_def t_dir_def dirs_inj_def split: if_splits)
  ultimately have "tree root [root \<mapsto> Dir i] w"
    using 1(1) assms(2) \<open>root \<noteq> XFS_MNT\<close> by (simp add: tree_def)
  then show ?case by (intro assms(3)) (simp add: tholds_def ctx_def)
qed

lemma t_mkdir:
  assumes "tholds c root T s" "T p = None" "t_dir T (dirname p)"
    and "\<And>t i. \<lbrakk>tholds c root (T(p \<mapsto> Dir i)) t; new_ino T i\<rbrakk> \<Longrightarrow> Q 0 t"
  shows "wp (xfs_mkdir K p) Q s"
proof (rule xfs_mkdir_new, goal_cases)
  case (3 w i)
  then have "tree root (T(p \<mapsto> Dir i)) w"
    by (intro tree_insert [OF tholdsD(1) [OF assms(1)] assms(3)]) auto
  then show ?case using 3(2) by (intro assms(4) tholds_kw [OF assms(1)] fresh_new [OF tholdsD(1) [OF assms(1)]])
qed (use tholdsD(1) [OF assms(1)] treeD(1) tree_absent assms(2,3) in blast)+

lemma t_mkdir_exists:
  assumes "tholds c root T s" "T p = Some n" and "\<And>t. tholds c root T t \<Longrightarrow> Q (- EEXIST) t"
  shows "wp (xfs_mkdir K p) Q s"
  unfolding xfs_mkdir_def
proof (rule wp_kcallI)
  fix a w' assume call: "do_mkdirat K p (mode3 7 5 5) (kw s) = (a, w')"
  have "names (V (kw s)) p \<noteq> None" using shows_names [OF tree_in [OF tholdsD(1) [OF assms(1)] assms(2)]] by simp
  from mkdir_exists [OF treeD(1) [OF tholdsD(1) [OF assms(1)]] this call]
  show "Q a (s\<lparr>kw := w'\<rparr>)" using assms(3) tholds_same [OF assms(1)] by simp
qed

lemma t_symlink:
  assumes "tholds c root T s" "T p = None" "t_dir T (dirname p)"
    and "\<And>t i. \<lbrakk>tholds c root (T(p \<mapsto> Lnk i g)) t; new_ino T i\<rbrakk> \<Longrightarrow> Q 0 t"
  shows "wp (xfs_symlink K g p) Q s"
proof (rule xfs_symlink_new, goal_cases)
  case (3 w i m)
  then have "tree root (T(p \<mapsto> Lnk i g)) w"
    by (intro tree_insert [OF tholdsD(1) [OF assms(1)] assms(3)])
      (auto simp: closed_def, auto simp: fresh_def)
  then show ?case using 3(2) by (intro assms(4) tholds_kw [OF assms(1)] fresh_new [OF tholdsD(1) [OF assms(1)]])
qed (use tholdsD(1) [OF assms(1)] treeD(1) tree_absent assms(2,3) in blast)+

lemma t_write_new:
  assumes "tholds c root T s" "T p = None" "t_dir T (dirname p)" "length d < size_limit"
    and "\<And>t i. \<lbrakk>tholds c root (T(p \<mapsto> Reg i d)) t; new_ino T i\<rbrakk> \<Longrightarrow> Q 0 t"
  shows "wp (xfs_write_new_file K p d) Q s"
proof (rule xfs_write_new_file_new, goal_cases)
  case (4 w i)
  then have "tree root (T(p \<mapsto> Reg i d)) w"
    by (intro tree_insert [OF tholdsD(1) [OF assms(1)] assms(3)])
      (auto simp: closed_def data_of_def, auto simp: fresh_def)
  then show ?case using 4(2) by (intro assms(5) tholds_kw [OF assms(1)] fresh_new [OF tholdsD(1) [OF assms(1)]])
qed (use tholdsD(1) [OF assms(1)] treeD(1) tree_absent assms(2-4) in blast)+

lemma t_stat:
  assumes "tholds c root T s" "T p = Some n"
    and "\<And>t st. \<lbrakk>tholds c root T t; st_type st = ntype n; st_ino st = ino n; ntype n \<in> {S_REG, S_LNK} \<longrightarrow> st_size st = int (nsize n)\<rbrakk> \<Longrightarrow>
           Q (Inr st) t"
  shows "wp (xfs_kstat K p) Q s"
proof (rule xfs_kstat_found [where i = "ino n"], goal_cases)
  case (3 w st)
  note sh = tree_in [OF tholdsD(1) [OF assms(1)] assms(2)]
  have "ntype n \<in> {S_REG, S_LNK} \<longrightarrow> st_size st = int (nsize n)"
    using 3(3) sh by (cases n) (auto simp: stat_matches_def)
  then show ?case
    using 3 shows_type [OF sh] by (intro assms(3) tholds_same [OF assms(1)]) (auto simp: stat_matches_def)
qed (use treeD(1) tholdsD(1) [OF assms(1)] shows_names [OF tree_in [OF tholdsD(1) [OF assms(1)] assms(2)]] in auto)

lemma t_stat_absent:
  assumes "tholds c root T s" "T p = None" "t_dir T (dirname p)" and "\<And>t. tholds c root T t \<Longrightarrow> Q (Inl (- ENOENT)) t"
  shows "wp (xfs_kstat K p) Q s"
  by (rule xfs_kstat_absent)
    (use tholdsD(1) [OF assms(1)] treeD(1) tree_absent assms(2-4) tholds_same [OF assms(1)] in blast)+

lemma t_exists:
  assumes "tholds c root T s" "T p \<noteq> None \<or> t_dir T (dirname p)" and "\<And>t. tholds c root T t \<Longrightarrow> Q (T p \<noteq> None) t"
  shows "wp (xfs_exists K p) Q s"
proof (cases "T p")
  case None
  show ?thesis
    by (rule xfs_exists_absent)
      (use tholdsD(1) [OF assms(1)] treeD(1) tree_absent assms(2,3) tholds_same [OF assms(1)] None in auto)
next
  case (Some n)
  show ?thesis
    by (rule xfs_exists_found [where i = "ino n"])
      (use treeD(1) tholdsD(1) [OF assms(1)] shows_names [OF tree_in [OF tholdsD(1) [OF assms(1)] Some]]
        assms(3) tholds_same [OF assms(1)] Some in auto)
qed

lemma t_there:
  assumes "tholds c root T s" "T p = Some n" and "\<And>t. tholds c root T t \<Longrightarrow> Q True t"
  shows "wp (xfs_exists K p) Q s"
  by (rule t_exists [OF assms(1)]) (use assms(2,3) in simp_all)

lemma t_gone:
  assumes "tholds c root T s" "T p = None" "t_dir T (dirname p)" and "\<And>t. tholds c root T t \<Longrightarrow> Q False t"
  shows "wp (xfs_exists K p) Q s"
  by (rule t_exists [OF assms(1)]) (use assms(2-4) in simp_all)

lemma t_unlink:
  assumes "tholds c root T s" "T p = Some n" "ntype n \<noteq> S_DIR" and "\<And>t. tholds c root (T(p := None)) t \<Longrightarrow> Q 0 t"
  shows "wp (xfs_unlink K p) Q s"
proof (rule xfs_unlink_file [where i = "ino n"], goal_cases)
  note t = tholdsD(1) [OF assms(1)] and sh = tree_in [OF tholdsD(1) [OF assms(1)] assms(2)]
  { case 1 show ?case by (rule treeD(1) [OF t]) }
  { case 2 show ?case using shows_names [OF sh] by simp }
  { case 3 show ?case using shows_type [OF sh] assms(3) by simp }
  { case 4 show ?case using sh assms(3) by (cases n) auto }
  { case (5 w)
    have "p \<noteq> root" using treeD(2) [OF t] assms(2,3) by (auto simp: rooted_def t_dir_def)
    then have "beneath root p" using treeD(2) [OF t] assms(2) by (auto simp: rooted_def)
    then have "tree root (T(p := None)) w"
      by (rule tree_remove [where f = "set_nlink (ino n) (i_nlink (inodes (V (kw s)) (ino n)) - 1)", OF t _ 5]) blast
    then show ?case by (intro assms(4) tholds_kw [OF assms(1)]) }
qed

lemma t_unlink_absent:
  assumes "tholds c root T s" "T p = None" "t_dir T (dirname p)" and "\<And>t. tholds c root T t \<Longrightarrow> Q (- ENOENT) t"
  shows "wp (xfs_unlink K p) Q s"
  by (rule xfs_unlink_absent)
    (use tholdsD(1) [OF assms(1)] treeD(1) tree_absent assms(2-4) tholds_same [OF assms(1)] in blast)+

lemma t_rmdir:
  assumes "tholds c root T s" "t_dir T p" "p \<noteq> root" "t_empty T p" and "\<And>t. tholds c root (T(p := None)) t \<Longrightarrow> Q 0 t"
  shows "wp (xfs_rmdir K p) Q s"
proof (rule xfs_rmdir_empty, goal_cases)
  note t = tholdsD(1) [OF assms(1)]
  have b: "beneath root p" using treeD(2) [OF t] assms(2,3) by (auto simp: rooted_def t_dir_def)
  { case 1 show ?case by (rule treeD(1) [OF t]) }
  { case 2 show ?case by (rule tree_dir [OF t assms(2)]) }
  { case 3 show ?case using tree_mnt [OF t] b by blast }
  { case 4 show ?case using tree_empty [OF t assms(2)] assms(4) by simp }
  { case (5 w)
    then have "tree root (T(p := None)) w" by (intro tree_remove [OF t b, where f = id]) auto
    then show ?case by (intro assms(5) tholds_kw [OF assms(1)]) }
qed

text \<open>A file created and closed again at once.\<close>

lemma t_create:
  assumes "tholds c root T s" "T p = None" "t_dir T (dirname p)" "O_CREAT \<in> fl"
    and "\<And>h t. (\<And>R. (\<And>u i. \<lbrakk>tholds c root (T(p \<mapsto> Reg i [])) u; new_ino T i\<rbrakk> \<Longrightarrow> R () u) \<Longrightarrow> wp (kdo (filp_close K h)) R t) \<Longrightarrow>
           Q (Inr h) t"
  shows "wp (kcall (filp_open K p fl md)) Q s"
proof (rule wp_open_new, goal_cases)
  case (4 w h i)
  show ?case
  proof (rule assms(5))
    fix R
    assume R: "\<And>u i. \<lbrakk>tholds c root (T(p \<mapsto> Reg i [])) u; new_ino T i\<rbrakk> \<Longrightarrow> R () u"
    show "wp (kdo (filp_close K h)) R (s\<lparr>kw := w\<rparr>)"
    proof (rule wp_close [where i = i and fl = fl], goal_cases)
      case (3 w2)
      have "tree root (T(p \<mapsto> Reg i [])) w2"
        by (rule tree_insert [OF tholdsD(1) [OF assms(1)] assms(3) 3(1) 4(3)])
          (use 3 4 fresh_closed [OF 4(3)] in \<open>auto simp: data_of_def\<close>)
      from R [OF tholds_kw [OF assms(1) this] fresh_new [OF tholdsD(1) [OF assms(1)] 4(3)]] show ?case by simp
    qed (use 4 in simp_all)
  qed
qed (use tholdsD(1) [OF assms(1)] treeD(1) tree_absent assms(2-4) in blast)+

lemma t_create_exists:
  assumes "tholds c root T s" "T p = Some n" "O_CREAT \<in> fl" "O_EXCL \<in> fl" and "\<And>t. tholds c root T t \<Longrightarrow> Q (Inl (- EEXIST)) t"
  shows "wp (kcall (filp_open K p fl md)) Q s"
  by (rule wp_open_exists [where i = "ino n"])
    (use treeD(1) tholdsD(1) [OF assms(1)] shows_names [OF tree_in [OF tholdsD(1) [OF assms(1)] assms(2)]]
      assms(3-5) tholds_same [OF assms(1)] in auto)

lemma retry_stop: "err \<noteq> code \<Longrightarrow> retry n code before attempt pause err = ret err"
  by (cases n) simp_all

lemma wp_rmdir_settled:
  assumes "ok (kw s)" and "\<And>w. \<lbrakk>ok w; V w = V (kw s)\<rbrakk> \<Longrightarrow> wp (xfs_rmdir K p) (\<lambda>e t. e = 0 \<and> Q 0 t) (s\<lparr>kw := w\<rparr>)"
  shows "wp (xfs_rmdir_settled K p) Q s"
proof -
  have e: "(20::nat) = Suc 19" by simp
  have ne: "(0::int) \<noteq> - ENOTEMPTY" by (simp add: ENOTEMPTY_def)
  show ?thesis
    unfolding xfs_rmdir_settled_def e retry.simps simp_thms if_False wp_bnd
    by (rule wp_settle [OF assms(1)], rule wp_mono [OF assms(2)]) (use ne in \<open>auto simp: retry_stop [OF ne]\<close>)
qed

text \<open>The removal of the whole tree, when nothing is left in it.\<close>

lemma t_rmdir_root:
  assumes "tholds c root T s" "dom T = {root}"
    and "\<And>t. \<lbrakk>ctx t = c; ok (kw t); absent (V (kw t)) root\<rbrakk> \<Longrightarrow> Q 0 t"
  shows "wp (xfs_rmdir_settled K root) Q s"
proof (rule wp_rmdir_settled [OF treeD(1) [OF tholdsD(1) [OF assms(1)]]], goal_cases)
  case (1 w)
  have t: "tree root T w" by (rule tree_cong [OF tholdsD(1) [OF assms(1)] 1])
  have d: "t_dir T root" using treeD(2) [OF t] by (simp add: rooted_def)
  obtain i where i: "names (V w) root = Some i" using tree_dir [OF t d] by (auto simp: is_dir_def split: option.splits)
  have up: "is_dir (V w) (dirname root)" by (rule parent [OF 1(1) i]) (use tree_mnt [OF t] in blast)
  have ne: "dirname root \<noteq> root"
  proof
    assume "dirname root = root"
    moreover have "CHR ''/'' \<in> set root" using t by (simp add: tree_def)
    ultimately show False using beneath_dirname [of root] by simp
  qed
  show ?case
  proof (rule xfs_rmdir_empty, goal_cases)
    case 2
    then show ?case using tree_dir [OF t d] by simp
  next
    case 3
    then show ?case using tree_mnt [OF t] by blast
  next
    case 4
    then show ?case using tree_empty [OF t d] assms(2) ne by (simp add: t_empty_def)
  next
    case (5 w')
    then show ?case
      using up ne tholdsD(2) [OF assms(1)]
      by (intro conjI refl assms(3)) (simp_all add: absent_def is_dir_other_name)
  qed (use 1 in simp)
qed

lemma t_settle:
  assumes "tholds c root T s" and "\<And>t. tholds c root T t \<Longrightarrow> Q () t"
  shows "wp (kdo (flush_delayed_fput K)) Q s"
  by (rule wp_settle [OF treeD(1) [OF tholdsD(1) [OF assms(1)]]]) (intro assms(2) tholds_same [OF assms(1)])

lemma t_alloc2:
  assumes "tholds c root T s" and "\<And>t. tholds c root T t \<Longrightarrow> Q () t"
  shows "wp (must_alloc2 K m n) Q s"
  by (rule wp_alloc2_ok [OF treeD(1) [OF tholdsD(1) [OF assms(1)]]]) (intro assms(2) tholds_same [OF assms(1)])

lemma t_read_range:
  assumes "tholds c root T s" "T p = Some (Reg i d)" "0 \<le> x" "nat x + n < size_limit"
    and "\<And>t b. \<lbrakk>tholds c root T t; b = read_at (nat x) n d\<rbrakk> \<Longrightarrow> Q (int (length b), b) t"
  shows "wp (xfs_read_range K p n x) Q s"
proof -
  have sh: "shows_as (V (kw s)) p (Some (Reg i d))" by (rule tree_in [OF tholdsD(1) [OF assms(1)] assms(2)])
  have "wp (xfs_read_range K p n (int (nat x))) Q s"
    by (rule xfs_read_range_file [where i = i])
      (use sh treeD(1) [OF tholdsD(1) [OF assms(1)]] assms(4,5) tholds_same [OF assms(1)] in \<open>auto simp: has_inode_def\<close>)
  then show ?thesis using assms(3) by simp
qed

lemma t_link:
  assumes "tholds c root T s" "T p = Some n" "ntype n \<noteq> S_DIR" "T q = None" "t_dir T (dirname q)"
    and "\<And>t. tholds c root (T(q \<mapsto> n)) t \<Longrightarrow> Q 0 t"
  shows "wp (xfs_link K p q) Q s"
proof (rule xfs_link_file [where i = "ino n"], goal_cases)
  note t = tholdsD(1) [OF assms(1)] and sh = tree_in [OF tholdsD(1) [OF assms(1)] assms(2)]
  { case 1 show ?case by (rule treeD(1) [OF t]) }
  { case 2 show ?case using shows_names [OF sh] by simp }
  { case 3 show ?case using shows_type [OF sh] assms(3) by simp }
  { case 4 show ?case by (rule tree_absent [OF t assms(4,5)]) }
  { case (5 w)
    have same: "same_inode (V (kw s)) (V w) i" for i using 5 by (auto simp: same_inode_def closed_def data_of_def set_nlink_def)
    have "tree root (T(q \<mapsto> n)) w"
    proof (rule tree_step [OF t 5(1) tree_beneath [OF t assms(5)]])
      show "shows_as (V w) q (Some n)"
        by (rule shows_keep [OF sh]) (use 5 shows_names [OF sh] same in auto)
    qed (use 5 same assms(3) in auto)
    then show ?case by (intro assms(6) tholds_kw [OF assms(1)]) }
qed

end

context tree_kernel
begin

lemma t_unlink_dir:
  assumes "tholds c root T s" "T p = Some n" "ntype n = S_DIR" and "\<And>t. tholds c root T t \<Longrightarrow> Q (- EISDIR) t"
  shows "wp (xfs_unlink K p) Q s"
  unfolding xfs_unlink_def
proof (rule wp_kcallI)
  note t = tholdsD(1) [OF assms(1)]
  fix a w' assume call: "do_unlinkat K p (kw s) = (a, w')"
  have d: "t_dir T p" using assms(2,3) by (cases n) (auto simp: t_dir_def)
  have "p \<noteq> XFS_MNT" using tree_mnt [OF t] treeD(2) [OF t] assms(2) by (auto simp: rooted_def)
  from unlink_dir [OF treeD(1) [OF t] tree_dir [OF t d] this call]
  show "Q a (s\<lparr>kw := w'\<rparr>)" using assms(4) tholds_same [OF assms(1)] by simp
qed

lemma t_rmdir_absent:
  assumes "tholds c root T s" "T p = None" "t_dir T (dirname p)" and "\<And>t. tholds c root T t \<Longrightarrow> Q (- ENOENT) t"
  shows "wp (xfs_rmdir K p) Q s"
  unfolding xfs_rmdir_def
proof (rule wp_kcallI)
  note t = tholdsD(1) [OF assms(1)]
  fix a w' assume call: "do_rmdir K p (kw s) = (a, w')"
  from rmdir_absent [OF treeD(1) [OF t] tree_absent [OF t assms(2,3)] call]
  show "Q a (s\<lparr>kw := w'\<rparr>)" using assms(4) tholds_same [OF assms(1)] by simp
qed

lemma t_rmdir_file:
  assumes "tholds c root T s" "T p = Some n" "ntype n \<noteq> S_DIR" and "\<And>t. tholds c root T t \<Longrightarrow> Q (- ENOTDIR) t"
  shows "wp (xfs_rmdir K p) Q s"
  unfolding xfs_rmdir_def
proof (rule wp_kcallI)
  note t = tholdsD(1) [OF assms(1)] and sh = tree_in [OF tholdsD(1) [OF assms(1)] assms(2)]
  fix a w' assume call: "do_rmdir K p (kw s) = (a, w')"
  from rmdir_file [OF treeD(1) [OF t] _ _ call, of "ino n"] shows_names [OF sh] shows_type [OF sh] assms(3)
  show "Q a (s\<lparr>kw := w'\<rparr>)" using assms(4) tholds_same [OF assms(1)] by simp
qed

text \<open>The rename of the kernel refines the rename of trees, on every branch.\<close>

lemma rename_leaf:
  assumes "tree root T w" "T p = Some n" "ntype n \<noteq> S_DIR" "t_dir T (dirname p)" "t_dir T (dirname q)" "\<not> beneath q p"
    and call: "do_renameat2 K p q w = (r, w')"
  shows "r = fst (t_rename p q T) \<and> tree root (snd (t_rename p q T)) w'"
proof -
  note t = assms(1) and w = treeD(1) [OF assms(1)] and n = tree_in [OF assms(1,2)]
  have b: "beneath root p" "beneath root q" using tree_beneath [OF t] assms(4,5) by blast+
  have np: "names (V w) p = Some (ino n)" "i_type (inodes (V w) (ino n)) \<noteq> S_DIR"
    using shows_names [OF n] shows_type [OF n] assms(3) by simp_all
  have same: "tree root T w'" if "ok w' \<and> V w' = V w" using tree_cong [OF t] that by blast
  show ?thesis
  proof (cases "T q")
    case None
    have ne: "p \<noteq> q" using None assms(2) by auto
    from rename_new [OF w np tree_absent [OF t None assms(5)] call]
    have "r = 0" "ok w'" "V w' = id ((V w)\<lparr>names := (names (V w))(p := None, q \<mapsto> ino n)\<rparr>)" by simp_all
    with tree_move_leaf [OF t assms(2,3) b ne, of w' id] show ?thesis
      by (simp add: t_rename_leaf [of T, OF assms(2,3)] None)
  next
    case (Some m)
    note m = tree_in [OF t Some]
    have nq: "names (V w) q = Some (ino m)" "i_type (inodes (V w) (ino m)) = ntype m"
      using shows_names [OF m] shows_type [OF m] by simp_all
    consider (dir) "ntype m = S_DIR" | (same) "ntype m \<noteq> S_DIR" "ino m = ino n" | (over) "ntype m \<noteq> S_DIR" "ino m \<noteq> ino n"
      by blast
    then show ?thesis
    proof cases
      case dir
      then have "is_dir (V w) q" using nq by (simp add: is_dir_def)
      from rename_over_dir [OF w np this assms(6) call] same dir
      show ?thesis by (simp add: t_rename_leaf [of T, OF assms(2,3)] Some)
    next
      case same
      from rename_same [OF w np(1) _ call] nq(1) same \<open>_ \<Longrightarrow> tree root T w'\<close>
      show ?thesis by (simp add: t_rename_leaf [of T, OF assms(2,3)] Some)
    next
      case over
      have cl: "closed (V w) (ino m)" using m over(1) by (cases m) auto
      have ne: "p \<noteq> q" using over(2) np(1) nq(1) by auto
      from rename_over [OF w np nq(1) _ _ cl call] over nq(2)
      have *: "r = 0" "ok w'" "V w' = set_nlink (ino m) (i_nlink (inodes (V w) (ino m)) - 1)
          ((V w)\<lparr>names := (names (V w))(p := None, q \<mapsto> ino n)\<rparr>)" by auto
      have "tree root (T(p := None, q \<mapsto> n)) w'"
        by (rule tree_move_leaf [where f = "set_nlink (ino m) (i_nlink (inodes (V w) (ino m)) - 1)", OF t assms(2,3) b ne *(2,3)]) blast
      then show ?thesis using *(1) over by (simp add: t_rename_leaf [of T, OF assms(2,3)] Some)
    qed
  qed
qed

lemma rename_tree:
  assumes "tree root T w" "t_dir T (dirname p)" "t_dir T (dirname q)" "\<not> beneath q p"
    and call: "do_renameat2 K p q w = (r, w')"
  shows "r = fst (t_rename p q T) \<and> tree root (snd (t_rename p q T)) w'"
proof -
  note t = assms(1) and w = treeD(1) [OF assms(1)]
  have b: "beneath root p" "beneath root q" using tree_beneath [OF t] assms(2,3) by blast+
  have mnt: "p \<noteq> XFS_MNT" "q \<noteq> XFS_MNT" using tree_mnt [OF t] b by blast+
  have same: "tree root T w'" if "ok w' \<and> V w' = V w" using tree_cong [OF t] that by blast
  show ?thesis
  proof (cases "T p")
    case None
    from rename_absent [OF w tree_absent [OF t None assms(2)] tree_dir [OF t assms(3)] call] same
    show ?thesis by (simp add: t_rename_def None)
  next
    case (Some n)
    note n = tree_in [OF t Some]
    show ?thesis
    proof (cases n)
      case (Dir i)
      have d: "t_dir T p" using Some Dir by (simp add: t_dir_def)
      note dir = tree_dir [OF t d]
      have ne: "names (V w) q \<noteq> names (V w) p" if "q \<noteq> p"
      proof
        assume e: "names (V w) q = names (V w) p"
        then have "shows_as (V w) q (Some (Dir i))" using n Dir by simp
        moreover have "shows_as (V w) q (T q)" using treeD(4) [OF t] b by blast
        ultimately have "T q = Some (Dir i)" by (cases "T q"; cases "the (T q)") auto
        then show False using treeD(3) [OF t] Some Dir that by (auto simp: dirs_inj_def)
      qed
      show ?thesis
      proof (cases "q = p")
        case True
        from rename_same [OF w _ _ call] shows_names [OF n] same show ?thesis by (simp add: True t_rename_def Some Dir)
      next
        case False
        note ne = ne [OF False]
        show ?thesis
        proof (cases "beneath p q")
          case True
          from rename_inside [OF w dir mnt(1) True tree_dir [OF t assms(3)] ne call] same
          show ?thesis by (simp add: t_rename_def Some Dir False True)
        next
          case outside: False
          have move: ?thesis if "t_rename p q T = (0, move_names p q T)" "absent (V w) q \<or> is_dir (V w) q \<and> empty_dir (V w) q"
            using rename_dir [OF w dir mnt(1) ne outside _ call] tree_carry [OF t b, of w'] that mnt(2) by auto
          show ?thesis
          proof (cases "T q")
            case None
            then show ?thesis
              using move tree_absent [OF t None assms(3)] by (simp add: t_rename_def Some Dir False outside)
          next
            case to: (Some m)
            note m = tree_in [OF t to]
            show ?thesis
            proof (cases m)
              case to': (Dir j)
              have e: "t_dir T q" using to to' by (simp add: t_dir_def)
              show ?thesis
              proof (cases "t_empty T q")
                case True
                then show ?thesis
                  using move tree_dir [OF t e] tree_empty [OF t e] by (simp add: t_rename_def Some Dir False outside to to')
              next
                case full: False
                then have "\<not> empty_dir (V w) q" using tree_empty [OF t e] by simp
                from rename_nonempty [OF w dir mnt(1) tree_dir [OF t e] ne outside this call] same full
                show ?thesis by (simp add: t_rename_def Some Dir False outside to to')
              qed
            qed (use rename_dir_over [OF w dir mnt(1) _ _ outside call, of "ino m"] m same to in
                \<open>simp_all add: t_rename_def Some Dir False outside\<close>)
          qed
        qed
      qed
    qed (use rename_leaf [OF t Some _ assms(2-4) call] in simp_all)
  qed
qed

lemma t_rename_ok:
  assumes "tholds c root T s" "t_dir T (dirname p)" "t_dir T (dirname q)" "\<not> beneath q p" "t_rename p q T = (e, T')"
    and "\<And>t. tholds c root T' t \<Longrightarrow> Q e t"
  shows "wp (xfs_rename K p q) Q s"
  unfolding xfs_rename_def
proof (rule wp_kcallI)
  fix a w' assume "do_renameat2 K p q (kw s) = (a, w')"
  from rename_tree [OF tholdsD(1) [OF assms(1)] assms(2-4) this] assms(5)
  show "Q a (s\<lparr>kw := w'\<rparr>)" using assms(6) tholds_kw [OF assms(1)] by simp
qed

end

section \<open>The in-memory kernel\<close>

interpretation trees: tree_kernel memk mv mem_ok
proof (rule tree_kernel.intro [OF mem.posix_kernel_axioms], unfold_locales, goal_cases)
  case (1 w p q r w')
  then show ?case by (auto simp: memk_def mem_renameat2_def absent_def Let_def)
next
  case (2 w p i q r w')
  then show ?case by (auto simp: memk_def mem_renameat2_def is_dir_def Let_def split: option.splits if_splits)
next
  case (3 w p q j r w')
  then show ?case by (auto simp: memk_def mem_renameat2_def mem_rename_dir_def is_dir_def Let_def split: option.splits if_splits)
next
  case (4 w p q r w')
  then show ?case by (auto simp: memk_def mem_renameat2_def mem_rename_dir_def is_dir_def Let_def split: option.splits if_splits)
next
  case (5 w p q r w')
  then show ?case
    using mem_no_child [of w q]
    by (auto simp: memk_def mem_renameat2_def mem_rename_dir_def is_dir_def Let_def split: option.splits if_splits)
next
  case (6 w p q r w')
  have "q \<noteq> p" using 6(4) by blast
  with 6 mem_move_tree_ok [of w p q] mem_no_child [of w q]
  have "mem_ok (mem_move_tree p q w)" by (auto simp: absent_def)
  with 6 mem_no_child [of w q] show ?case
    by (auto simp: memk_def mem_renameat2_def mem_rename_dir_def is_dir_def absent_def mem_move_tree_def Let_def
        split: option.splits if_splits)
next
  case (7 w p r w')
  then show ?case by (auto simp: memk_def mem_unlinkat_def is_dir_def split: option.splits)
next
  case (8 w p r w')
  then show ?case by (auto simp: memk_def mem_rmdir_def absent_def)
next
  case (9 w p i r w')
  then show ?case
    using mem_ok_tree [of w] by (auto simp: memk_def mem_rmdir_def is_dir_def tree_ok_def split: option.splits if_splits)
qed

end
