(* ===== verification/Symlinks.thy ===== *)
theory Symlinks
  imports Trees
begin

text \<open>
  Symbolic links.  \<open>walk\<close> follows the links of the last component of a path, at most a given
  number of them, for targets that name a file next to the link.  The locale \<open>symlinks\<close> adds
  what readlink(2), symlink(7) and open(2) promise: the target comes back as it was stored,
  an open reaches the file at the end of a chain of at most \<open>MAXSYMLINKS\<close> links and fails with
  \<open>ELOOP\<close> beyond it.
\<close>

definition MAXSYMLINKS :: nat where "MAXSYMLINKS = 40"

definition sibling :: "string \<Rightarrow> string \<Rightarrow> string" where
  "sibling p g = dirname p @ ''/'' @ g"

definition plain :: "string \<Rightarrow> bool" where
  "plain g = (g \<noteq> [] \<and> CHR ''/'' \<notin> set g)"

definition link_target :: "fsv \<Rightarrow> string \<Rightarrow> string option" where
  "link_target v p = (case names v p of None \<Rightarrow> None
     | Some i \<Rightarrow> if i_type (inodes v i) = S_LNK then Some (i_target (inodes v i)) else None)"

text \<open>The name a path leads to, the error \<open>ELOOP\<close>, or \<open>None\<close> where a target is not plain.\<close>

fun walk :: "fsv \<Rightarrow> nat \<Rightarrow> string \<Rightarrow> (int + string) option" where
  "walk v n p = (case link_target v p of
       None \<Rightarrow> Some (Inr p)
     | Some g \<Rightarrow> (case n of
           0 \<Rightarrow> Some (Inl (- ELOOP))
         | Suc m \<Rightarrow> if plain g then walk v m (sibling p g) else None))"

declare walk.simps [simp del]

lemma walk_no_link: "link_target v p = None \<Longrightarrow> walk v n p = Some (Inr p)"
  by (simp add: walk.simps)

lemma no_link: "names v p = None \<Longrightarrow> link_target v p = None" "has_inode v p i S_REG \<Longrightarrow> link_target v p = None"
  by (simp_all add: link_target_def has_inode_def)

locale symlinks = tree_kernel K V ok
  for K :: "'w kernel" and V :: "'w \<Rightarrow> fsv" and ok :: "'w \<Rightarrow> bool" +
  assumes get_link: "\<lbrakk>ok w; refs (V w) h = Some i; i_type (inodes (V w) i) = S_LNK; vfs_get_link K h w = (r, w')\<rbrakk> \<Longrightarrow>
      r = Inr (i_target (inodes (V w) i)) \<and> ok w' \<and> V w' = V w"
    and open_follow: "\<lbrakk>ok w; walk (V w) MAXSYMLINKS p = Some (Inr q); has_inode (V w) q i S_REG; fl = {O_RDONLY};
        filp_open K p fl m w = (rf, w')\<rbrakk> \<Longrightarrow>
      \<exists>h. rf = Inr h \<and> fds (V w) h = None \<and> ok w' \<and> V w' = (V w)\<lparr>fds := (fds (V w))(h \<mapsto> (i, fl))\<rparr>"
    and open_loop: "\<lbrakk>ok w; walk (V w) MAXSYMLINKS p = Some (Inl e); fl = {O_RDONLY}; filp_open K p fl m w = (rf, w')\<rbrakk> \<Longrightarrow>
      rf = Inl e \<and> ok w' \<and> V w' = V w"

section \<open>Links in a tree\<close>

fun t_walk :: "dtree \<Rightarrow> nat \<Rightarrow> string \<Rightarrow> (int + string) option" where
  "t_walk T n p = (case T p of
       Some (Lnk i g) \<Rightarrow> (case n of
           0 \<Rightarrow> Some (Inl (- ELOOP))
         | Suc m \<Rightarrow> if plain g then t_walk T m (sibling p g) else None)
     | _ \<Rightarrow> Some (Inr p))"

declare t_walk.simps [simp del]

context posix_kernel
begin

lemma tree_link_target:
  assumes "tree root T w" "p = root \<or> beneath root p"
  shows "link_target (V w) p = (case T p of Some (Lnk i g) \<Rightarrow> Some g | _ \<Rightarrow> None)"
  using treeD(4) [OF assms] by (cases "T p"; cases "the (T p)") (auto simp: link_target_def)

lemma tree_walk:
  assumes "tree root T w" "p = root \<or> beneath root p"
  shows "walk (V w) n p = t_walk T n p"
  using assms(2)
proof (induction n arbitrary: p)
  case 0
  then show ?case
    using tree_link_target [OF assms(1) 0] by (simp add: walk.simps [of _ 0] t_walk.simps [of _ 0] split: option.split node.split)
next
  case (Suc n)
  show ?case
  proof (cases "link_target (V w) p")
    case None
    then have "\<And>i g. T p \<noteq> Some (Lnk i g)" using tree_link_target [OF assms(1) Suc.prems] by auto
    then show ?thesis using None by (auto simp: walk.simps t_walk.simps split: option.split node.split)
  next
    case (Some g)
    then obtain i where i: "T p = Some (Lnk i g)"
      using tree_link_target [OF assms(1) Suc.prems] by (auto split: option.splits node.splits)
    then have "p \<noteq> root" using treeD(2) [OF assms(1)] by (auto simp: rooted_def t_dir_def)
    then have "dirname p = root \<or> beneath root (dirname p)" using Suc.prems dirname_beneath by blast
    then have "beneath root (sibling p g)"
      using beneath_comp [of "dirname p" g] beneath_trans by (auto simp: sibling_def)
    then show ?thesis using Suc.IH Some i by (simp add: walk.simps [of _ "Suc n"] t_walk.simps [of _ "Suc n"])
  qed
qed

end

context symlinks
begin

lemma t_open_follow:
  assumes "tholds c root T s" "p = root \<or> beneath root p" "t_walk T MAXSYMLINKS p = Some (Inr q)" "T q = Some (Reg i d)"
    and "\<And>h t. (\<And>R. (\<And>u. tholds c root T u \<Longrightarrow> R () u) \<Longrightarrow> wp (kdo (filp_close K h)) R t) \<Longrightarrow> Q (Inr h) t"
  shows "wp (kcall (filp_open K p {O_RDONLY} md)) Q s"
proof (rule wp_kcallI)
  note t = tholdsD(1) [OF assms(1)]
  fix a w' assume call: "filp_open K p {O_RDONLY} md (kw s) = (a, w')"
  have "walk (V (kw s)) MAXSYMLINKS p = Some (Inr q)" using tree_walk [OF t assms(2)] assms(3) by simp
  moreover have "has_inode (V (kw s)) q i S_REG" using tree_in [OF t assms(4)] by (simp add: has_inode_def)
  ultimately obtain h where h: "a = Inr h" "fds (V (kw s)) h = None" "ok w'"
      "V w' = (V (kw s))\<lparr>fds := (fds (V (kw s)))(h \<mapsto> (i, {O_RDONLY}))\<rparr>"
    using open_follow [OF treeD(1) [OF t] _ _ refl call] by blast
  show "Q a (s\<lparr>kw := w'\<rparr>)"
    unfolding h(1)
  proof (rule assms(5))
    fix R assume R: "\<And>u. tholds c root T u \<Longrightarrow> R () u"
    show "wp (kdo (filp_close K h)) R (s\<lparr>kw := w'\<rparr>)"
    proof (rule wp_close [where i = i and fl = "{O_RDONLY}"], goal_cases)
      case (3 w2)
      then have "V w2 = V (kw s)" using h(2,4) by simp
      then show ?case using R [OF tholds_same [OF assms(1) 3(1)]] by simp
    qed (use h in simp_all)
  qed
qed

lemma t_open_loop:
  assumes "tholds c root T s" "p = root \<or> beneath root p" "t_walk T MAXSYMLINKS p = Some (Inl e)"
    and "\<And>t. tholds c root T t \<Longrightarrow> Q (Inl e) t"
  shows "wp (kcall (filp_open K p {O_RDONLY} md)) Q s"
proof (rule wp_kcallI)
  note t = tholdsD(1) [OF assms(1)]
  fix a w' assume "filp_open K p {O_RDONLY} md (kw s) = (a, w')"
  moreover have "walk (V (kw s)) MAXSYMLINKS p = Some (Inl e)" using tree_walk [OF t assms(2)] assms(3) by simp
  ultimately have "a = Inl e \<and> ok w' \<and> V w' = V (kw s)" using open_loop [OF treeD(1) [OF t] _ refl] by blast
  then show "Q a (s\<lparr>kw := w'\<rparr>)" using assms(4) tholds_same [OF assms(1)] by simp
qed

lemma t_readlink:
  assumes "tholds c root T s" "T p = Some (Lnk i g)" "length g < n" and "\<And>t. tholds c root T t \<Longrightarrow> Q (int (length g), Some g) t"
  shows "wp (xfs_readlink K p n) Q s"
  unfolding xfs_readlink_def
proof (rule wp_with_path [where i = i], goal_cases)
  note t = tholdsD(1) [OF assms(1)] and sh = tree_in [OF tholdsD(1) [OF assms(1)] assms(2)]
  { case 1 show ?case by (rule treeD(1) [OF t]) }
  { case 2 show ?case using sh by simp }
  { case (3 w1 h)
    show ?case
      unfolding wp_bnd
    proof (rule wp_kcallI)
      fix a w2 assume "vfs_get_link K h (kw (s\<lparr>kw := w1\<rparr>)) = (a, w2)"
      with get_link [of w1 h i] 3 sh have a: "a = Inr g" "ok w2" "V w2 = V w1" by auto
      show "wp (case a of Inl err \<Rightarrow> ret (err, None)
            | Inr t \<Rightarrow> if n \<le> length t then ret (- ERANGE, None) else ret (int (length t), Some t))
          (\<lambda>a s'. ok (kw s') \<and> refs (V (kw s')) h = Some i \<and>
            (\<forall>w''. ok w'' \<longrightarrow> V w'' = (V (kw s'))\<lparr>refs := (refs (V (kw s')))(h := None)\<rparr> \<longrightarrow> Q a (s'\<lparr>kw := w''\<rparr>)))
          (s\<lparr>kw := w1, kw := w2\<rparr>)"
        using a 3 assms(3,4) tholds_same [OF assms(1)] by auto
    qed }
qed

end

section \<open>The in-memory kernel that follows links\<close>

definition sym_open :: "string \<Rightarrow> oflag set \<Rightarrow> nat \<Rightarrow> memw \<Rightarrow> fileptr \<times> memw" where
  "sym_open p fl m w = (if O_CREAT \<in> fl then mem_open p fl m w
     else case walk (mv w) MAXSYMLINKS p of
       Some (Inl e) \<Rightarrow> (Inl e, w)
     | Some (Inr q) \<Rightarrow> mem_open q fl m w
     | None \<Rightarrow> mem_open p fl m w)"

definition symk :: "memw kernel" where
  "symk = memk\<lparr>filp_open := sym_open\<rparr>"

lemma symk_posix: "posix_kernel symk mv mem_ok"
proof -
  have same: "sym_open p fl m w = mem_open p fl m w" if "O_CREAT \<in> fl \<or> link_target (mv w) p = None" for p fl m w
    using that by (auto simp: sym_open_def walk_no_link)
  have "symk = memk\<lparr>filp_open := sym_open, kern_path := mem_kern_path\<rparr>" by (simp add: symk_def memk_def)
  also have "posix_kernel \<dots> mv mem_ok"
    by (rule mem_posix_with) (auto simp: same link_target_def absent_def)
  finally show ?thesis .
qed

interpretation links: symlinks symk mv mem_ok
proof (rule symlinks.intro)
  have sel: "do_renameat2 symk = do_renameat2 memk" "do_unlinkat symk = do_unlinkat memk" "do_rmdir symk = do_rmdir memk"
    by (simp_all add: symk_def)
  show "tree_kernel symk mv mem_ok"
    unfolding tree_kernel_def tree_kernel_axioms_def sel
    by (rule conjI [OF symk_posix trees.tree_kernel_axioms [unfolded tree_kernel_def tree_kernel_axioms_def, THEN conjunct2]])
next
  show "symlinks_axioms symk mv mem_ok"
  proof (unfold_locales, goal_cases)
    case (1 w h i r w')
    then show ?case by (auto simp: symk_def memk_def mem_get_link_def on_ref_def)
  next
    case (2 w p q i fl m rf w')
    then have "filp_open memk q fl m w = (rf, w')" by (auto simp: symk_def memk_def sym_open_def)
    from mem.open_file [OF 2(1,3) _ _ this] show ?case using 2(4) by simp
  next
    case (3 w p e fl m rf w')
    then show ?case by (auto simp: symk_def sym_open_def)
  qed
qed

end
