(* ===== verification/Gen005.thy ===== *)
theory Gen005
  imports Symlinks
begin

text \<open>
  \<open>kunit/xfstests/generic/005.c\<close>: a chain of fifty symbolic links, each to the one before it
  and the first to a file.  Opening link \<open>i\<close> takes \<open>i + 1\<close> traversals: up to
  \<open>MAXSYMLINKS\<close> reach the file, one more is \<open>ELOOP\<close>, and so is a link to itself.
\<close>

definition G005_ROOT :: string where "G005_ROOT = XFS_MNT @ ''/g005''"
definition G005_CHAIN :: nat where "G005_CHAIN = 50"

definition g005_base :: "nat \<Rightarrow> string" where
  \<comment> \<open>the next target: \<open>snprintf(target, "symlink_%02d", i)\<close>\<close>
  "g005_base i = ''symlink_'' @ dec02 i"

definition g005_name :: "nat \<Rightarrow> string" where
  "g005_name i = G005_ROOT @ ''/symlink_'' @ dec02 i"

definition g005_remove_tree :: "'w kernel \<Rightarrow> (('w, 'z) kst_scheme, unit) prog" where
  "g005_remove_tree K = seq [
     for_each [0..<G005_CHAIN] (\<lambda>i. ignore (xfs_unlink K (g005_name i))),
     ignore (xfs_unlink K (G005_ROOT @ ''/symlink_self'')),
     ignore (xfs_unlink K (G005_ROOT @ ''/empty_file'')),
     ignore (xfs_rmdir K G005_ROOT)]"

definition g005_open_errno :: "'w kernel \<Rightarrow> string \<Rightarrow> (('w, 'z) kst_scheme, int) prog" where
  "g005_open_errno K path = bnd (kcall (filp_open K path {O_RDONLY} 0)) (\<lambda>f. case f of
     Inl e \<Rightarrow> ret e
   | Inr h \<Rightarrow> bnd (kdo (filp_close K h)) (\<lambda>_. ret 0))"

definition g005_make_chain :: "'w kernel \<Rightarrow> (('w, 'z) kst_scheme, unit) prog" where
  "g005_make_chain K = ignore (for_fold [0..<G005_CHAIN] (\<lambda>i target.
     bnd (must (xfs_symlink K target (g005_name i))) (\<lambda>_. ret (g005_base i))) ''empty_file'')"

definition deep_symlink_chains_hit_eloop_at_maxsymlinks :: "'w kernel \<Rightarrow> (('w, 'z) fxs_scheme, unit) prog" where
  "deep_symlink_chains_hit_eloop_at_maxsymlinks K = seq [
     test_prologue K G005_ROOT ''g005_remove_tree'' (g005_remove_tree K),
     must (xfs_write_new_file K (G005_ROOT @ ''/empty_file'') []),
     g005_make_chain K,
     must (xfs_symlink K ''symlink_self'' (G005_ROOT @ ''/symlink_self'')),
     expect_ret (g005_open_errno K (g005_name (MAXSYMLINKS - 1))) (\<lambda>e. e = 0),
     expect_ret (g005_open_errno K (g005_name MAXSYMLINKS)) (\<lambda>e. e = - ELOOP),
     expect_ret (g005_open_errno K (g005_name (G005_CHAIN - 1))) (\<lambda>e. e = - ELOOP),
     expect_ret (g005_open_errno K (G005_ROOT @ ''/symlink_self'')) (\<lambda>e. e = - ELOOP),
     expect_ret (g005_open_errno K (g005_name 0)) (\<lambda>e. e = 0)]"

definition g005_suite :: "'w kernel \<Rightarrow> ('w, 'z) fxs_scheme suite" where
  "g005_suite K = nfs_suite K ''xfstests/generic/005''
     [(''deep_symlink_chains_hit_eloop_at_maxsymlinks'', deep_symlink_chains_hit_eloop_at_maxsymlinks K)]"

section \<open>The chain\<close>

abbreviation g005_file :: string where "g005_file \<equiv> G005_ROOT @ ''/empty_file''"
abbreviation g005_self :: string where "g005_self \<equiv> G005_ROOT @ ''/symlink_self''"

lemma g005_paths [simp]:
  "dirname (g005_name i) = G005_ROOT" "dirname g005_file = G005_ROOT" "dirname g005_self = G005_ROOT"
  "beneath G005_ROOT (g005_name i)" "g005_name i = g005_name j \<longleftrightarrow> i = j"
  "g005_name i \<noteq> G005_ROOT" "g005_name i \<noteq> g005_file" "g005_file \<noteq> g005_name i"
  "sibling (g005_name i) g = G005_ROOT @ ''/'' @ g" "sibling g005_self g = G005_ROOT @ ''/'' @ g"
proof -
  show d: "dirname (g005_name i) = G005_ROOT" "dirname g005_file = G005_ROOT" "dirname g005_self = G005_ROOT"
    using dirname_comp [of "''symlink_'' @ dec02 i" G005_ROOT] dirname_comp [of "''empty_file''" G005_ROOT]
      dirname_comp [of "''symlink_self''" G005_ROOT] by (simp_all add: g005_name_def)
  show "sibling (g005_name i) g = G005_ROOT @ ''/'' @ g" "sibling g005_self g = G005_ROOT @ ''/'' @ g"
    by (simp_all only: sibling_def d)
qed (simp_all add: g005_name_def)

lemma g005_not_self [simp]: "g005_name i \<noteq> g005_self" "g005_self \<noteq> g005_name i"
proof -
  have "dec02 i \<noteq> ''self''"
  proof
    assume "dec02 i = ''self''"
    moreover from this have "i = undec ''self''" by (metis undec_dec02)
    ultimately show False by (simp add: undec_def dec02_def undigit_def dec.simps of_char_def)
  qed
  then show "g005_name i \<noteq> g005_self" "g005_self \<noteq> g005_name i" by (auto simp: g005_name_def)
qed

text \<open>The tree with the first \<open>k\<close> links of the chain.\<close>

definition g005_chain :: "nat \<Rightarrow> dtree \<Rightarrow> bool" where
  "g005_chain k T = (t_dir T G005_ROOT \<and> (\<exists>j. T g005_file = Some (Reg j [])) \<and> T g005_self = None \<and>
     (\<forall>i<k. \<exists>n. T (g005_name i) = Some (Lnk n (if i = 0 then ''empty_file'' else g005_base (i - 1)))) \<and>
     (\<forall>i\<ge>k. T (g005_name i) = None))"

lemma g005_chain_add:
  "\<lbrakk>g005_chain k T; g = (if k = 0 then ''empty_file'' else g005_base (k - 1))\<rbrakk> \<Longrightarrow> g005_chain (Suc k) (T(g005_name k \<mapsto> Lnk n g))"
  by (auto simp: g005_chain_def t_dir_def less_Suc_eq)

lemma g005_plain: "plain (g005_base i)" "plain ''empty_file''" "plain ''symlink_self''"
  by (simp_all add: plain_def g005_base_def)

lemma g005_base_name: "G005_ROOT @ CHR ''/'' # g005_base i = g005_name i"
  by (simp add: g005_base_def g005_name_def)

text \<open>\<open>n\<close> traversals reach the file from the links below \<open>n\<close>, and from no other.\<close>

lemma g005_walk:
  assumes "\<And>i. i < k \<Longrightarrow> \<exists>n. T (g005_name i) = Some (Lnk n (if i = 0 then ''empty_file'' else g005_base (i - 1)))"
    and "T g005_file = Some (Reg j [])" "i < k"
  shows "t_walk T n (g005_name i) = Some (if i < n then Inr g005_file else Inl (- ELOOP))"
  using assms(3)
proof (induction n arbitrary: i)
  case 0
  then show ?case using assms(1) [of i] by (auto simp: t_walk.simps)
next
  case (Suc n)
  obtain m where m: "T (g005_name i) = Some (Lnk m (if i = 0 then ''empty_file'' else g005_base (i - 1)))"
    using assms(1) Suc.prems by blast
  show ?case
  proof (cases i)
    case 0
    have "t_walk T n g005_file = Some (Inr g005_file)" using assms(2) by (simp add: t_walk.simps)
    then show ?thesis using m 0 g005_plain(2) by (simp add: t_walk.simps [of _ "Suc n"])
  next
    case (Suc i')
    then have "t_walk T (Suc n) (g005_name i) = t_walk T n (g005_name i')"
      using m g005_plain(1) by (simp add: t_walk.simps [of _ "Suc n"] g005_base_name)
    then show ?thesis using Suc.IH [of i'] Suc.prems Suc by simp
  qed
qed

lemma g005_walk_self: "T g005_self = Some (Lnk n ''symlink_self'') \<Longrightarrow> t_walk T m g005_self = Some (Inl (- ELOOP))"
  by (induction m) (simp_all add: t_walk.simps [of _ _ g005_self] g005_plain)

lemma g005_all_walks:
  assumes "g005_chain G005_CHAIN T" "i < G005_CHAIN"
  shows "t_walk (T(g005_self \<mapsto> Lnk n g)) MAXSYMLINKS (g005_name i) = Some (if i < MAXSYMLINKS then Inr g005_file else Inl (- ELOOP))"
proof -
  obtain j where "T g005_file = Some (Reg j [])" using assms(1) by (auto simp: g005_chain_def)
  with assms show ?thesis by (intro g005_walk [where k = G005_CHAIN and j = j]) (auto simp: g005_chain_def)
qed

section \<open>The case\<close>

context symlinks
begin

lemma g005_make_chain_ok:
  assumes "tholds c G005_ROOT T s" "g005_chain 0 T" and "\<And>t T. \<lbrakk>tholds c G005_ROOT T t; g005_chain G005_CHAIN T\<rbrakk> \<Longrightarrow> Q () t"
  shows "wp (g005_make_chain K) Q s"
  unfolding g005_make_chain_def wp_ignore
proof (rule wp_for_fold_range [where I = "\<lambda>k g t. g = (if k = 0 then ''empty_file'' else g005_base (k - 1)) \<and>
    (\<exists>T. tholds c G005_ROOT T t \<and> g005_chain k T)"], goal_cases)
  case (3 k g t)
  then obtain T where T: "tholds c G005_ROOT T t" "g005_chain k T" by blast
  have "T (g005_name k) = None" "t_dir T (dirname (g005_name k))" using T(2) by (simp_all add: g005_chain_def)
  then have "wp (xfs_symlink K g (g005_name k)) (\<lambda>e u. e = 0 \<and> (\<exists>T. tholds c G005_ROOT T u \<and> g005_chain (Suc k) T)) t"
    by (rule t_symlink [OF T(1)]) (use g005_chain_add [OF T(2)] 3(3) in blast)
  then show ?case by (simp add: case_prod_beta) 
qed (use assms in auto)

lemma g005_open_ok:
  assumes "tholds c G005_ROOT T s" "p = G005_ROOT \<or> beneath G005_ROOT p"
    and "t_walk T MAXSYMLINKS p = Some (if b then Inr g005_file else Inl (- ELOOP))" "T g005_file = Some (Reg j d)"
    and "\<And>t. tholds c G005_ROOT T t \<Longrightarrow> Q (if b then 0 else - ELOOP) t"
  shows "wp (g005_open_errno K p) Q s"
proof (cases b)
  case True
  then have w: "t_walk T MAXSYMLINKS p = Some (Inr g005_file)" using assms(3) by simp
  show ?thesis
    unfolding g005_open_errno_def wp_bnd
    by (rule t_open_follow [OF assms(1,2) w assms(4)]) (use assms(5) True in simp)
next
  case False
  then have w: "t_walk T MAXSYMLINKS p = Some (Inl (- ELOOP))" using assms(3) by simp
  show ?thesis
    unfolding g005_open_errno_def wp_bnd
    by (rule t_open_loop [OF assms(1,2) w]) (use assms(5) False in simp)
qed

lemma g005_opens_ok:
  assumes "tholds c G005_ROOT T s" "T = T0(g005_self \<mapsto> Lnk n ''symlink_self'')" "g005_chain G005_CHAIN T0"
  shows "wp (seq [
     expect_ret (g005_open_errno K (g005_name (MAXSYMLINKS - 1))) (\<lambda>e. e = 0),
     expect_ret (g005_open_errno K (g005_name MAXSYMLINKS)) (\<lambda>e. e = - ELOOP),
     expect_ret (g005_open_errno K (g005_name (G005_CHAIN - 1))) (\<lambda>e. e = - ELOOP),
     expect_ret (g005_open_errno K g005_self) (\<lambda>e. e = - ELOOP),
     expect_ret (g005_open_errno K (g005_name 0)) (\<lambda>e. e = 0)]) (\<lambda>_ t. kfails t = fst c) s"
proof -
  obtain j where reg: "T g005_file = Some (Reg j [])" using assms(2,3) by (auto simp: g005_chain_def)
  note walk = g005_all_walks [OF assms(3), of _ n "''symlink_self''", folded assms(2)]
  have self: "t_walk T MAXSYMLINKS g005_self = Some (Inl (- ELOOP))" using assms(2) by (simp add: g005_walk_self)
  have open_link: "wp (g005_open_errno K (g005_name i)) Q t"
    if "tholds c G005_ROOT T t" "i < G005_CHAIN"
      "\<And>u. tholds c G005_ROOT T u \<Longrightarrow> Q (if i < MAXSYMLINKS then 0 else - ELOOP) u" for i Q t
    by (rule g005_open_ok [where b = "i < MAXSYMLINKS", OF that(1) _ _ reg]) (use walk that(2,3) in simp_all)
  show ?thesis
    apply (simp only: wp_steps)
    apply (rule wp_expect_retI, rule open_link [OF assms(1)], simp add: G005_CHAIN_def MAXSYMLINKS_def)
    apply (intro conjI, simp add: MAXSYMLINKS_def)
    apply (rule wp_expect_retI, erule open_link, simp add: G005_CHAIN_def MAXSYMLINKS_def, intro conjI, simp)
    apply (rule wp_expect_retI, erule open_link, simp add: G005_CHAIN_def, intro conjI, simp add: G005_CHAIN_def MAXSYMLINKS_def)
    apply (rule wp_expect_retI, erule g005_open_ok [where b = False], simp, simp add: self, simp add: reg, intro conjI, simp)
    apply (rule wp_expect_retI, erule open_link, simp add: G005_CHAIN_def, intro conjI, simp add: MAXSYMLINKS_def)
    apply (erule tholds_fails)
    done
qed

lemma g005_run_ok:
  assumes "ready V ok G005_ROOT s"
  shows "passes (deep_symlink_chains_hit_eloop_at_maxsymlinks K) s"
proof -
  note opens = g005_opens_ok [unfolded wp_seq_Cons wp_seq_Nil]
  show ?thesis
    unfolding passes_def deep_symlink_chains_hit_eloop_at_maxsymlinks_def
    apply (simp only: wp_steps)
    apply (rule t_prologue [OF assms], simp add: G005_ROOT_def)
    apply (erule t_write_new, simp, simp add: t_dir_def, simp add: size_limit_def, intro conjI refl)
    apply (erule g005_make_chain_ok, simp add: g005_chain_def t_dir_def)
    apply (erule t_symlink, simp add: g005_chain_def, simp add: g005_chain_def, intro conjI refl)
    apply (drule opens [OF _ refl], assumption, simp)
    done
qed

end

end
