(* ===== verification/Gen006.thy ===== *)
theory Gen006
  imports Ports
begin

text \<open>
  \<open>kunit/xfstests/generic/006.c\<close>, permname: all 4096 names of six letters out of four in
  one directory.  What makes the loops right is that the names are pairwise distinct: the
  six letters are the base-4 digits of the index.
\<close>

definition G006_ROOT :: string where "G006_ROOT = XFS_MNT @ ''/g006''"
definition G006_ASIZE :: nat where "G006_ASIZE = 4"
definition G006_LEN :: nat where "G006_LEN = 6"
definition G006_TOTAL :: nat where "G006_TOTAL = 4096"

definition g006_name :: "nat \<Rightarrow> string" where
  "g006_name idx = G006_ROOT @ ''/'' @
     map (\<lambda>i. char_of (97 + and (drop_bit (2 * i) idx) (G006_ASIZE - 1))) [0..<G006_LEN]"

definition g006_remove_tree :: "'w kernel \<Rightarrow> (('w, 'z) kst_scheme, unit) prog" where
  "g006_remove_tree K =
     seq [for_each [0..<G006_TOTAL] (\<lambda>idx. ignore (xfs_unlink K (g006_name idx))), ignore (xfs_rmdir K G006_ROOT)]"

definition all_4096_permuted_names_coexist_in_one_directory :: "'w kernel \<Rightarrow> (('w, 'z) fxs_scheme, unit) prog" where
  "all_4096_permuted_names_coexist_in_one_directory K = seq [
     test_prologue K G006_ROOT ''g006_remove_tree'' (g006_remove_tree K),
     for_each [0..<G006_TOTAL] (\<lambda>idx.
       must_open (kcall (filp_open K (g006_name idx) {O_WRONLY, O_CREAT, O_EXCL} (mode3 6 6 6)))
         (\<lambda>f. kdo (filp_close K f))),
     for_each [0..<G006_TOTAL] (\<lambda>idx. must_ret (xfs_exists K (g006_name idx)) (\<lambda>b. b)),
     bnd (kcall (filp_open K (g006_name (G006_TOTAL div 2)) {O_WRONLY, O_CREAT, O_EXCL} (mode3 6 6 6))) (\<lambda>f.
       case f of Inr h \<Rightarrow> kunit_assert False | Inl e \<Rightarrow> kunit_expect (e = - EEXIST)),
     for_each [0..<G006_TOTAL] (\<lambda>idx. must (xfs_unlink K (g006_name idx))),
     expect_ret (xfs_rmdir K G006_ROOT) (\<lambda>e. e = 0),
     expect_ret (xfs_mkdir K G006_ROOT) (\<lambda>e. e = 0)]"

definition g006_suite :: "'w kernel \<Rightarrow> ('w, 'z) fxs_scheme suite" where
  "g006_suite K = nfs_suite K ''xfstests/generic/006''
     [(''all_4096_permuted_names_coexist_in_one_directory'', all_4096_permuted_names_coexist_in_one_directory K)]"

section \<open>The names are the base-4 numerals\<close>

lemma g006_digit: "and (drop_bit (2 * i) idx) (G006_ASIZE - 1) = idx div 4 ^ i mod (4 :: nat)"
  using take_bit_eq_mask [of 2 "drop_bit (2 * i) idx"]
  by (simp add: G006_ASIZE_def take_bit_eq_mod drop_bit_eq_div mask_eq_exp_minus_1 power_mult)

lemma base4_inj:
  fixes x y :: nat
  assumes "x < 4 ^ k" "y < 4 ^ k" "\<And>i. i < k \<Longrightarrow> x div 4 ^ i mod 4 = y div 4 ^ i mod 4"
  shows "x = y"
  using assms
proof (induction k arbitrary: x y)
  case (Suc k)
  have "x div 4 = y div 4"
  proof (rule Suc.IH)
    show "x div 4 < 4 ^ k" "y div 4 < 4 ^ k" using Suc.prems by (auto simp: less_mult_imp_div_less mult.commute)
    show "x div 4 div 4 ^ i mod 4 = y div 4 div 4 ^ i mod 4" if "i < k" for i
      using Suc.prems(3) [of "Suc i"] that by (simp add: div_mult2_eq)
  qed
  moreover have "x mod 4 = y mod 4" using Suc.prems(3) [of 0] by simp
  ultimately show ?case by (metis div_mult_mod_eq)
qed simp

lemma g006_letter_inj:
  "a < 4 \<Longrightarrow> b < 4 \<Longrightarrow> (char_of (97 + a) :: char) = char_of (97 + b) \<longleftrightarrow> a = (b :: nat)"
  by (auto dest: arg_cong [where f = "of_char :: char \<Rightarrow> nat"])

lemma g006_letter_no_slash: "a < 4 \<Longrightarrow> (char_of (97 + a :: nat) :: char) \<noteq> CHR ''/''"
  by (auto dest: arg_cong [where f = "of_char :: char \<Rightarrow> nat"])

lemma g006_name_digits:
  "g006_name idx = G006_ROOT @ CHR ''/'' # map (\<lambda>k. char_of (97 + idx div 4 ^ k mod 4)) [0..<6]"
  by (simp only: g006_name_def g006_digit G006_LEN_def) simp

interpretation g006: name_table g006_name G006_ROOT G006_TOTAL
proof unfold_locales
  fix i j :: nat
  have "CHR ''/'' \<notin> set (map (\<lambda>k. char_of (97 + i div 4 ^ k mod 4)) [0..<6])"
    using g006_letter_no_slash by (auto dest: sym)
  then show "dirname (g006_name i) = G006_ROOT"
    unfolding g006_name_digits by (rule dirname_comp)
  show "dirname G006_ROOT = XFS_MNT" "G006_ROOT \<noteq> XFS_MNT"
    using dirname_comp [of "''g006''" XFS_MNT] by (simp_all add: G006_ROOT_def)
  assume ij: "i < G006_TOTAL" "j < G006_TOTAL" "g006_name i = g006_name j"
  show "i = j"
  proof (rule base4_inj [where k = 6])
    show "i < 4 ^ 6" "j < 4 ^ 6" using ij(1,2) by (simp_all add: G006_TOTAL_def)
    show "i div 4 ^ k mod 4 = j div 4 ^ k mod 4" if "k < 6" for k
    proof -
      have "map (\<lambda>k. char_of (97 + i div 4 ^ k mod 4)) [0..<6] = (map (\<lambda>k. char_of (97 + j div 4 ^ k mod 4)) [0..<6] :: string)"
        using ij(3) by (simp add: g006_name_digits)
      then have "(char_of (97 + i div 4 ^ k mod 4) :: char) = char_of (97 + j div 4 ^ k mod 4)"
        using that by (simp add: list_eq_iff_nth_eq)
      then show ?thesis by (simp add: g006_letter_inj)
    qed
  qed
qed

locale g006_dir = slot_dir K V ok g006_name G006_ROOT G006_TOTAL
  for K :: "'w kernel" and V :: "'w \<Rightarrow> fsv" and ok :: "'w \<Rightarrow> bool"
begin

text \<open>The first loop fills the slots from the left, the last one empties them.\<close>

definition upto :: "nat \<Rightarrow> nat \<Rightarrow> nat \<times> string list \<times> bool \<Rightarrow> ('w, 'z) fxs_scheme \<Rightarrow> bool" where
  "upto a b c s = (case_state s = c \<and> (\<exists>m. dirw m (kw s) \<and> (\<forall>i<G006_TOTAL. m i \<noteq> None \<longleftrightarrow> a \<le> i \<and> i < b)))"

lemma fill_ok:
  assumes "upto 0 0 c s"
  shows "wp (for_each [0..<G006_TOTAL] (\<lambda>idx.
       must_open (kcall (filp_open K (g006_name idx) {O_WRONLY, O_CREAT, O_EXCL} md)) (\<lambda>f. kdo (filp_close K f))))
     (\<lambda>_. upto 0 G006_TOTAL c) s"
proof (rule wp_for_each [where I = "\<lambda>k. upto 0 k c"], goal_cases)
  case (2 k t)
  then obtain m where m: "case_state t = c" "dirw m (kw t)" "\<forall>i<G006_TOTAL. m i \<noteq> None \<longleftrightarrow> i < k" "k < G006_TOTAL"
    by (auto simp: upto_def)
  show ?case
    by (rule slot_create_close [where m = m])
      (use m in \<open>auto simp: upto_def less_Suc_eq intro!: exI [of _ "m(k := Some j)" for j]\<close>)
qed (use assms in auto)

lemma look_ok:
  assumes "upto 0 G006_TOTAL c s"
  shows "wp (for_each [0..<G006_TOTAL] (\<lambda>idx. must_ret (xfs_exists K (g006_name idx)) (\<lambda>b. b))) (\<lambda>_. upto 0 G006_TOTAL c) s"
proof (rule wp_for_each [where I = "\<lambda>_. upto 0 G006_TOTAL c"], goal_cases)
  case (2 k t)
  then obtain m where m: "case_state t = c" "dirw m (kw t)" "\<forall>i<G006_TOTAL. m i \<noteq> None" "k < G006_TOTAL"
    by (auto simp: upto_def)
  show ?case
    unfolding wp_must_ret
    by (rule slot_exists [where m = m]) (use m in \<open>auto simp: upto_def\<close>)
qed (use assms in auto)

lemma clear_ok:
  assumes "upto 0 G006_TOTAL c s"
  shows "wp (for_each [0..<G006_TOTAL] (\<lambda>idx. must (xfs_unlink K (g006_name idx)))) (\<lambda>_. upto G006_TOTAL G006_TOTAL c) s"
proof (rule wp_for_each [where I = "\<lambda>k. upto k G006_TOTAL c"], goal_cases)
  case (2 k t)
  then obtain m where m: "case_state t = c" "dirw m (kw t)" "\<forall>i<G006_TOTAL. m i \<noteq> None \<longleftrightarrow> k \<le> i" "k < G006_TOTAL"
    by (auto simp: upto_def)
  then obtain j where "m k = Some j" by (cases "m k") auto
  moreover have "\<forall>i<G006_TOTAL. (m(k := None)) i \<noteq> None \<longleftrightarrow> Suc k \<le> i" using m(3) by (auto simp: Suc_le_eq le_less)
  ultimately show ?case
    unfolding wp_must
    by (intro slot_unlink [where m = m and j = j])
      (use m in \<open>auto simp: upto_def simp del: fun_upd_apply intro!: exI [of _ "m(k := None)"]\<close>)
qed (use assms in auto)

lemma end_ok:
  assumes "dirw m (kw s)" "\<forall>i<G006_TOTAL. m i = None"
    and "\<And>w. dirw (\<lambda>_. None) w \<Longrightarrow> Q () (s\<lparr>kw := w\<rparr>)"
  shows "wp (expect_ret (xfs_rmdir K G006_ROOT) (\<lambda>e. e = 0))
    (\<lambda>_. wp (expect_ret (xfs_mkdir K G006_ROOT) (\<lambda>e. e = 0)) (\<lambda>_. wp (seq []) Q)) s"
  unfolding wp_expect_ret wp_seq_Nil
  by (rule slot_rmdir [OF dirw_cong [OF assms(1)]], use assms(2) in simp, simp, rule slot_mkdir)
    (use assms(3) in simp_all)

lemma run_ok:
  assumes "ready V ok G006_ROOT s"
  shows "wp (all_4096_permuted_names_coexist_in_one_directory K) (\<lambda>_ s'.
     case_state s' = (kfails s, ''g006_remove_tree'' # kactions s, True) \<and> (\<exists>m. dirw m (kw s'))) s"
  unfolding all_4096_permuted_names_coexist_in_one_directory_def wp_seq_Cons
proof (rule slot_prologue [OF assms], 
    rule wp_mono [OF fill_ok [where c = "(kfails s, ''g006_remove_tree'' # kactions s, True)"]], goal_cases)
  case (1 w)
  then show ?case
    using assms by (auto simp: upto_def case_state_def ready_def intro!: exI [of _ "\<lambda>_. None"])
next
  case (2 w u t)
  show ?case
  proof (rule wp_mono [OF look_ok [OF 2(2)]], goal_cases)
    case (1 u t1)
    then obtain m where m: "case_state t1 = (kfails s, ''g006_remove_tree'' # kactions s, True)" "dirw m (kw t1)"
      "\<forall>i<G006_TOTAL. m i \<noteq> None" by (auto simp: upto_def)
    then obtain j where j: "m (G006_TOTAL div 2) = Some j" by (fastforce simp: G006_TOTAL_def)
    show ?case
      unfolding wp_bnd
    proof (rule slot_collide [OF m(2) _ j], simp add: G006_TOTAL_def, simp, simp, goal_cases)
      case (1 w1)
      have "upto 0 G006_TOTAL (kfails s, ''g006_remove_tree'' # kactions s, True) (t1\<lparr>kw := w1\<rparr>)"
        using m(1,3) 1 by (auto simp: upto_def)
      then show ?case
        unfolding sum.case wp_kunit_expect if_True simp_thms
      proof (rule wp_mono [OF clear_ok], goal_cases)
        case (1 u t2)
        then obtain m2 where "dirw m2 (kw t2)" "\<forall>i<G006_TOTAL. m2 i = None"
          "case_state t2 = (kfails s, ''g006_remove_tree'' # kactions s, True)" by (auto simp: upto_def)
        then show ?case by (intro end_ok) auto
      qed
    qed
  qed
qed

end

section \<open>Properties\<close>

lemma g006_dirI: "posix_kernel K V ok \<Longrightarrow> g006_dir K V ok"
  by (simp add: g006_dir_def slot_dir_def g006.name_table_axioms)

interpretation mem006: g006_dir memk mv mem_ok
  by (rule g006_dirI) (rule mem.posix_kernel_axioms)

text \<open>
  C35: permname against a POSIX file system.  Each of the 4096 names can be created once,
  is found afterwards, collides when created again and can be removed, and the directory
  is empty at the end; the case passes and its cleanup leaves the mount as it was.
\<close>

theorem permname_passes:
  assumes "posix_kernel K V ok" and "ready V ok G006_ROOT s" and "kactions s = []"
  shows "passes (all_4096_permuted_names_coexist_in_one_directory K) s \<and>
    ready V ok G006_ROOT (run_case (\<lambda>_. g006_remove_tree K) (all_4096_permuted_names_coexist_in_one_directory K) s)"
proof -
  have p: "g006_dir K V ok" by (rule g006_dirI [OF assms(1)])
  note r = g006_dir.run_ok [OF p assms(2)]
  have "passes (all_4096_permuted_names_coexist_in_one_directory K) s"
    unfolding passes_def by (rule wp_mono [OF r]) (simp add: case_state_def)
  then show ?thesis
    using slot_dir.slot_case [OF g006_dir.axioms [OF p] assms(3) _ g006_remove_tree_def] r assms(3) by simp
qed

theorem permname_passes_witness:
  "passes (all_4096_permuted_names_coexist_in_one_directory memk) (fx0 ()) \<and>
   ready mv mem_ok G006_ROOT (run_case (\<lambda>_. g006_remove_tree memk) (all_4096_permuted_names_coexist_in_one_directory memk) (fx0 ()))"
  by (rule permname_passes [OF mem.posix_kernel_axioms]) (simp_all add: G006_ROOT_def fx0_ready, simp add: fx0_def)

text \<open>
  The permuted names are pairwise distinct and all lie in the case's directory.
\<close>

lemma g006_names_distinct:
  "distinct (map g006_name [0..<G006_TOTAL]) \<and>
   map dirname (map g006_name [0..<G006_TOTAL]) = replicate G006_TOTAL G006_ROOT"
  using g006.names_distinct g006.name_dir by (simp add: list_eq_iff_nth_eq)

end
