(* ===== verification/Gen007.thy ===== *)
theory Gen007
  imports Ports
begin

text \<open>
  \<open>kunit/xfstests/generic/007.c\<close>, nametest: a table of 100 names, each with the inode
  number the model remembers, against 20000 random creates, removes and lookups.  The
  lemmas show that the table is an abstraction of the directory.
\<close>

record 'w g007 = "'w fxs" +
  g007_tab :: "(bool \<times> nat) list"      \<comment> \<open>exists, ino\<close>

definition G007_ROOT :: string where "G007_ROOT = XFS_MNT @ ''/g007''"
definition G007_NAMES :: nat where "G007_NAMES = 100"
definition G007_ITERS :: nat where "G007_ITERS = 20000"
definition G007_SEED :: nat where "G007_SEED = 1"

definition g007_name :: "nat \<Rightarrow> string" where
  "g007_name i = G007_ROOT @ ''/nametest.'' @ dec (i + 1)"

definition g007_remove_tree :: "'w kernel \<Rightarrow> (('w, 'z) kst_scheme, unit) prog" where
  "g007_remove_tree K =
     seq [for_each [0..<G007_NAMES] (\<lambda>i. ignore (xfs_unlink K (g007_name i))), ignore (xfs_rmdir K G007_ROOT)]"

abbreviation g007_exists :: "nat \<Rightarrow> ('w g007, bool) prog" where
  "g007_exists i \<equiv> get (\<lambda>s. fst (g007_tab s ! i))"

definition g007_create :: "'w kernel \<Rightarrow> nat \<Rightarrow> ('w g007, unit) prog" where
  "g007_create K i =
     bnd (kcall (filp_open K (g007_name i) {O_RDWR, O_CREAT, O_EXCL} (mode3 6 6 6))) (\<lambda>f. case f of
       Inr h \<Rightarrow> seq [
         kdo (filp_close K h),
         bnd (g007_exists i) (\<lambda>ex. kunit_assert (\<not> ex)),
         bnd (xfs_kstat K (g007_name i)) (\<lambda>r. case r of
           Inl e \<Rightarrow> kunit_assert False
         | Inr st \<Rightarrow> modify (\<lambda>s. s\<lparr>g007_tab := (g007_tab s)[i := (True, st_ino st)]\<rparr>))]
     | Inl e \<Rightarrow> seq [kunit_assert (e = - EEXIST), bnd (g007_exists i) kunit_assert])"

definition g007_remove :: "'w kernel \<Rightarrow> nat \<Rightarrow> ('w g007, unit) prog" where
  "g007_remove K i =
     bnd (xfs_unlink K (g007_name i)) (\<lambda>err.
       if err = 0 then seq [
         bnd (g007_exists i) kunit_assert,
         modify (\<lambda>s. s\<lparr>g007_tab := (g007_tab s)[i := (False, snd (g007_tab s ! i))]\<rparr>)]
       else seq [kunit_assert (err = - ENOENT), bnd (g007_exists i) (\<lambda>ex. kunit_assert (\<not> ex))])"

definition g007_lookup :: "'w kernel \<Rightarrow> nat \<Rightarrow> ('w g007, unit) prog" where
  "g007_lookup K i =
     bnd (xfs_kstat K (g007_name i)) (\<lambda>r. case r of
       Inr st \<Rightarrow> seq [
         bnd (g007_exists i) kunit_assert,
         bnd (get (\<lambda>s. snd (g007_tab s ! i))) (\<lambda>ino. kunit_assert (st_ino st = ino))]
     | Inl err \<Rightarrow> seq [kunit_assert (err = - ENOENT), bnd (g007_exists i) (\<lambda>ex. kunit_assert (\<not> ex))])"

definition g007_create_pct :: "nat \<Rightarrow> nat" where
  "g007_create_pct iter =
     (if iter < G007_ITERS div 3 then 50 else if iter < (2 * G007_ITERS) div 3 then 75 else 25)"

definition g007_iter :: "'w kernel \<Rightarrow> nat \<Rightarrow> rnd_state \<Rightarrow> ('w g007, rnd_state) prog" where
  "g007_iter K iter st =
     (let (r, st) = prandom_u32_state K st;
          i = unat (drop_bit 8 r) mod G007_NAMES;
          oper = unat r mod 100;
          create_pct = g007_create_pct iter
      in bnd (if oper < 40 then g007_lookup K i
              else if (oper - 40) mod 60 < (create_pct * 60) div 100 then g007_create K i
              else g007_remove K i) (\<lambda>_. ret st))"

definition random_names_stay_consistent_with_the_model :: "'w kernel \<Rightarrow> ('w g007, unit) prog" where
  "random_names_stay_consistent_with_the_model K = seq [
     test_prologue K G007_ROOT ''g007_remove_tree'' (g007_remove_tree K),
     modify (\<lambda>s. s\<lparr>g007_tab := replicate G007_NAMES (False, 0)\<rparr>),
     ignore (for_fold [0..<G007_ITERS] (g007_iter K) (prandom_seed_state K G007_SEED))]"

definition g007_suite :: "'w kernel \<Rightarrow> 'w g007 suite" where
  "g007_suite K = nfs_suite K ''xfstests/generic/007''
     [(''random_names_stay_consistent_with_the_model'', random_names_stay_consistent_with_the_model K)]"

section \<open>The table as an abstraction of the directory\<close>

interpretation g007: name_table g007_name G007_ROOT G007_NAMES
proof unfold_locales
  fix i j
  show "dirname (g007_name i) = G007_ROOT"
    using dirname_comp [of "''nametest.'' @ dec (i + 1)" G007_ROOT] by (simp add: g007_name_def)
  show "i = j" if "g007_name i = g007_name j" using that by (simp add: g007_name_def)
  show "dirname G007_ROOT = XFS_MNT" "G007_ROOT \<noteq> XFS_MNT"
    using dirname_comp [of "''g007''" XFS_MNT] by (simp_all add: G007_ROOT_def)
qed

definition g007_slot :: "(bool \<times> nat) list \<Rightarrow> nat \<Rightarrow> nat option" where
  "g007_slot tab i = (if fst (tab ! i) then Some (snd (tab ! i)) else None)"

locale g007_dir = slot_dir K V ok g007_name G007_ROOT G007_NAMES
  for K :: "'w kernel" and V :: "'w \<Rightarrow> fsv" and ok :: "'w \<Rightarrow> bool"
begin

definition inv :: "nat \<times> string list \<times> bool \<Rightarrow> 'w g007 \<Rightarrow> bool" where
  "inv c s = (length (g007_tab s) = G007_NAMES \<and> case_state s = c \<and>
     (\<exists>m. dirw m (kw s) \<and> (\<forall>i<G007_NAMES. m i = g007_slot (g007_tab s) i)))"

lemma lookup_ok:
  assumes "inv c s" "i < G007_NAMES"
  shows "wp (g007_lookup K i) (\<lambda>_. inv c) s"
proof -
  obtain m where m: "dirw m (kw s)" "\<forall>i<G007_NAMES. m i = g007_slot (g007_tab s) i"
    using assms(1) by (auto simp: inv_def)
  note I = assms m
  show ?thesis
  proof (cases "m i")
    case None
    show ?thesis unfolding g007_lookup_def wp_bnd
      by (rule slot_kstat_free [OF m(1) assms(2) None]) (use I None in \<open>auto simp: inv_def case_state_def g007_slot_def split: if_splits\<close>)
  next
    case (Some j)
    show ?thesis unfolding g007_lookup_def wp_bnd
      by (rule slot_kstat [OF m(1) assms(2) Some]) (use I Some in \<open>auto simp: inv_def case_state_def g007_slot_def split: if_splits\<close>)
  qed
qed

lemma remove_ok:
  assumes "inv c s" "i < G007_NAMES"
  shows "wp (g007_remove K i) (\<lambda>_. inv c) s"
proof -
  obtain m where m: "dirw m (kw s)" "\<forall>i<G007_NAMES. m i = g007_slot (g007_tab s) i"
    using assms(1) by (auto simp: inv_def)
  note I = assms m
  show ?thesis
  proof (cases "m i")
    case None
    show ?thesis unfolding g007_remove_def wp_bnd
      by (rule slot_unlink_free [OF m(1) assms(2) None])
        (use I None in \<open>auto simp: inv_def case_state_def g007_slot_def ENOENT_def split: if_splits\<close>)
  next
    case (Some j)
    show ?thesis unfolding g007_remove_def wp_bnd
    proof (rule slot_unlink [OF m(1) assms(2) Some], goal_cases)
      case (1 w)
      have "fst (g007_tab s ! i)" using m(2) Some assms(2) by (auto simp: g007_slot_def split: if_splits)
      then show ?case using I 1
        by (auto simp: inv_def case_state_def g007_slot_def nth_list_update intro!: exI [of _ "m(i := None)"])
    qed
  qed
qed

lemma create_ok:
  assumes "inv c s" "i < G007_NAMES"
  shows "wp (g007_create K i) (\<lambda>_. inv c) s"
proof -
  obtain m where m: "dirw m (kw s)" "\<forall>i<G007_NAMES. m i = g007_slot (g007_tab s) i"
    using assms(1) by (auto simp: inv_def)
  note I = assms m
  show ?thesis
  proof (cases "m i")
    case None
    then have ex: "\<not> fst (g007_tab s ! i)" using I by (auto simp: g007_slot_def split: if_splits)
    let ?fl = "{O_RDWR, O_CREAT, O_EXCL}"
    have sl: "slots (V (kw s)) m" using m by (simp add: dirw_def)
    show ?thesis unfolding g007_create_def wp_bnd
    proof (rule wp_open_new, goal_cases)
      case (4 w h j)
      show ?case
        unfolding sum.case wp_seq_Cons
      proof (rule wp_close [where i = j and fl = ?fl], goal_cases)
        case (3 w2)
        have d: "dirw (m(i := Some j)) w2"
          using 3 4 slots_create [OF sl assms(2) None 4(3), of "new_inode S_REG [] (mode3 6 6 6)"] by (simp add: dirw_def)
        show ?case
          unfolding wp_bnd wp_get wp_kunit_assert
          by (intro conjI, use ex in simp, rule slot_kstat [where m = "m(i := Some j)" and j = j])
            (use d I in \<open>auto simp: inv_def case_state_def g007_slot_def nth_list_update intro!: exI [of _ "m(i := Some j)"]\<close>)
      qed (use 4 in simp_all)
    qed (use m slotsD(2) [OF sl assms(2) None] in \<open>auto simp: dirw_def\<close>)
  next
    case (Some j)
    show ?thesis unfolding g007_create_def wp_bnd
      by (rule slot_collide [OF m(1) assms(2) Some])
        (use I Some in \<open>auto simp: inv_def case_state_def g007_slot_def split: if_splits\<close>)
  qed
qed

lemma iter_ok:
  assumes "inv c s"
  shows "wp (g007_iter K iter st) (\<lambda>_. inv c) s"
proof -
  obtain r st' where r: "prandom_u32_state K st = (r, st')" by fastforce
  have i: "unat (drop_bit 8 r) mod G007_NAMES < G007_NAMES" by (simp add: G007_NAMES_def)
  show ?thesis
    using lookup_ok [OF assms i] create_ok [OF assms i] remove_ok [OF assms i]
    by (simp add: g007_iter_def r Let_def)
qed

lemma run_ok:
  assumes "ready V ok G007_ROOT s"
  shows "wp (random_names_stay_consistent_with_the_model K) (\<lambda>_ s'.
     case_state s' = (kfails s, ''g007_remove_tree'' # kactions s, True) \<and> (\<exists>m. dirw m (kw s'))) s"
  unfolding random_names_stay_consistent_with_the_model_def wp_seq_Cons
proof (rule slot_prologue [OF assms], unfold wp_modify wp_ignore,
    rule wp_for_fold [where I = "\<lambda>_ _. inv (kfails s, ''g007_remove_tree'' # kactions s, True)"], goal_cases)
  case (1 w)
  then show ?case
    using assms by (auto simp: inv_def case_state_def ready_def g007_slot_def intro!: exI [of _ "\<lambda>_. None"])
next
  case (2 w k l t)
  then show ?case by (intro iter_ok)
next
  case (3 w l t)
  then show ?case by (auto simp: inv_def)
qed

end

section \<open>Properties\<close>

lemma g007_dirI: "posix_kernel K V ok \<Longrightarrow> g007_dir K V ok"
  by (simp add: g007_dir_def slot_dir_def g007.name_table_axioms)

interpretation mem007: g007_dir memk mv mem_ok
  by (rule g007_dirI) (rule mem.posix_kernel_axioms)

text \<open>
  C5: nametest against a POSIX file system.  On every kernel that meets the contract and
  for every stream of random numbers, the 20000 transactions never disagree with the
  table: a create fails exactly when the table has the name, an unlink and a lookup exactly
  when it does not, and each lookup reports the inode number recorded at the creation.
\<close>

theorem nametest_passes:
  assumes "posix_kernel K V ok" and "ready V ok G007_ROOT s"
  shows "passes (random_names_stay_consistent_with_the_model K) s"
  unfolding passes_def
  by (rule wp_mono [OF g007_dir.run_ok [OF g007_dirI [OF assms(1)] assms(2)]]) (simp add: case_state_def)

theorem nametest_passes_witness:
  "passes (random_names_stay_consistent_with_the_model memk) (fx0 \<lparr>g007_tab = []\<rparr>)"
  by (rule nametest_passes [OF mem.posix_kernel_axioms]) (simp add: G007_ROOT_def fx0_ready)

text \<open>
  C25: nametest leaves no trace.  The whole case, its body and the removal registered before
  it, counts no failure and ends with the client mount as it was: the case's directory is
  gone, so the case can be run again.
\<close>

theorem nametest_cleans_up:
  assumes "posix_kernel K V ok" and "ready V ok G007_ROOT s" and "kactions s = []"
  shows "kfails (run_case (\<lambda>_. g007_remove_tree K) (random_names_stay_consistent_with_the_model K) s) = kfails s \<and>
    ready V ok G007_ROOT (run_case (\<lambda>_. g007_remove_tree K) (random_names_stay_consistent_with_the_model K) s)"
proof -
  have p: "g007_dir K V ok" by (rule g007_dirI [OF assms(1)])
  show ?thesis
    using slot_dir.slot_case [OF g007_dir.axioms [OF p] assms(3) _ g007_remove_tree_def]
      g007_dir.run_ok [OF p assms(2)] assms(3) by simp
qed

theorem nametest_cleans_up_witness:
  "let s = run_case (\<lambda>_. g007_remove_tree memk) (random_names_stay_consistent_with_the_model memk)
     (fx0 \<lparr>g007_tab = []\<rparr>) in kfails s = 0 \<and> ready mv mem_ok G007_ROOT s"
  using nametest_cleans_up [OF mem.posix_kernel_axioms, of "fx0 \<lparr>g007_tab = []\<rparr>"]
  by (simp add: G007_ROOT_def fx0_ready) (simp add: fx0_def)

end
