(* ===== verification/Gen011.thy ===== *)
theory Gen011
  imports Trees
begin

text \<open>
  \<open>kunit/xfstests/generic/011.c\<close>, dirstress: a directory of files, subdirectories and
  symbolic links is scrambled by random renames, removals and creations that may fail, then
  everything is removed.  Whether an operation fails depends only on the kinds of the
  entries: a table of kinds is a model of the directory, and the number of operations that
  succeed, which the test counts, is a function of the random numbers.
\<close>

definition G011_ROOT :: string where "G011_ROOT = XFS_MNT @ ''/g011''"
definition G011_NFILES :: nat where "G011_NFILES = 64"
definition G011_SEED :: nat where "G011_SEED = 1"

definition g011_name :: "nat \<Rightarrow> string" where
  "g011_name i = G011_ROOT @ ''/XXXXXXXXXXXX.'' @ dec i"

definition g011_remove_entry :: "'w kernel \<Rightarrow> string \<Rightarrow> (('w, 'z) kst_scheme, int) prog" where
  "g011_remove_entry K path = bnd (xfs_unlink K path) (\<lambda>err. if err = - EISDIR then xfs_rmdir K path else ret err)"

definition g011_remove_tree :: "'w kernel \<Rightarrow> (('w, 'z) kst_scheme, unit) prog" where
  "g011_remove_tree K = seq [
     for_each [0..<G011_NFILES] (\<lambda>i. ignore (g011_remove_entry K (g011_name i))),
     ignore (xfs_rmdir_settled K G011_ROOT)]"

definition g011_create_entries :: "'w kernel \<Rightarrow> (('w, 'z) kst_scheme, unit) prog" where
  "g011_create_entries K = for_each [0..<G011_NFILES] (\<lambda>i.
     if i mod 3 = 0 then must_open (kcall (filp_open K (g011_name i) {O_WRONLY, O_CREAT, O_EXCL} (mode3 6 6 6)))
       (\<lambda>f. kdo (filp_close K f))
     else if i mod 3 = 1 then must (xfs_mkdir K (g011_name i))
     else must (xfs_symlink K (g011_name i) (g011_name i)))"

definition g011_try :: "(('w, 'z) kst_scheme, int) prog \<Rightarrow> (('w, 'z) kst_scheme, bool) prog" where
  \<comment> \<open>\<open>if (!op) ok++\<close>\<close>
  "g011_try m = bnd m (\<lambda>err. ret (err = 0))"

definition g011_op :: "'w kernel \<Rightarrow> nat \<Rightarrow> nat \<Rightarrow> nat \<Rightarrow> (('w, 'z) kst_scheme, bool) prog" where
  "g011_op K i x y =
     (if i mod 5 = 0 then g011_try (xfs_rename K (g011_name x) (g011_name y))
      else if i mod 5 = 1 then g011_try (xfs_unlink K (g011_name x))
      else if i mod 5 = 2 then g011_try (xfs_rmdir K (g011_name x))
      else if i mod 5 = 3 then
        bnd (kcall (filp_open K (g011_name x) {O_WRONLY, O_CREAT, O_EXCL} (mode3 6 6 6))) (\<lambda>f. case f of
          Inl e \<Rightarrow> ret False
        | Inr h \<Rightarrow> bnd (kdo (filp_close K h)) (\<lambda>_. ret True))
      else g011_try (xfs_mkdir K (g011_name x)))"

definition g011_draw :: "'w kernel \<Rightarrow> rnd_state \<Rightarrow> (nat \<times> nat) \<times> rnd_state" where
  "g011_draw K st =
     (let (r, st) = prandom_u32_state K st
      in ((unat (drop_bit 8 r) mod G011_NFILES, unat (drop_bit 16 r) mod G011_NFILES), st))"

definition g011_scramble_entries :: "'w kernel \<Rightarrow> (('w, 'z) kst_scheme, unit) prog" where
  "g011_scramble_entries K =
     bnd (for_fold [0..<2 * G011_NFILES] (\<lambda>i (st, succ).
       let ((x, y), st) = g011_draw K st in
       bnd (g011_op K i x y) (\<lambda>b. ret (st, if b then succ + 1 else succ)))
       (prandom_seed_state K G011_SEED, 0)) (\<lambda>(st, succ).
     kunit_expect (succ > G011_NFILES div 4))"

definition g011_remove_entries :: "'w kernel \<Rightarrow> (('w, 'z) kst_scheme, unit) prog" where
  "g011_remove_entries K = for_each [0..<G011_NFILES] (\<lambda>i.
     must_ret (g011_remove_entry K (g011_name i)) (\<lambda>err. err = 0 \<or> err = - ENOENT))"

definition dirstress_create_scramble_remove :: "'w kernel \<Rightarrow> (('w, 'z) fxs_scheme, unit) prog" where
  "dirstress_create_scramble_remove K = seq [
     test_prologue K G011_ROOT ''g011_remove_tree'' (g011_remove_tree K),
     g011_create_entries K,
     g011_scramble_entries K,
     g011_remove_entries K,
     expect_ret (xfs_rmdir_settled K G011_ROOT) (\<lambda>e. e = 0),
     expect_ret (xfs_mkdir K G011_ROOT) (\<lambda>e. e = 0)]"

definition g011_suite :: "'w kernel \<Rightarrow> ('w, 'z) fxs_scheme suite" where
  "g011_suite K = nfs_suite K ''xfstests/generic/011''
     [(''dirstress_create_scramble_remove'', dirstress_create_scramble_remove K)]"

section \<open>The table of kinds\<close>

type_synonym kinds = "ftype option list"

definition g011_kinds0 :: kinds where
  "g011_kinds0 = map (\<lambda>i. Some (if i mod 3 = 0 then S_REG else if i mod 3 = 1 then S_DIR else S_LNK)) [0..<G011_NFILES]"

definition g011_rename :: "nat \<Rightarrow> nat \<Rightarrow> kinds \<Rightarrow> bool \<times> kinds" where
  "g011_rename x y ks = (case ks ! x of
       None \<Rightarrow> (False, ks)
     | Some k \<Rightarrow> if x = y then (True, ks)
         else (case ks ! y of
             None \<Rightarrow> (True, ks[x := None, y := Some k])
           | Some l \<Rightarrow> if (k = S_DIR) = (l = S_DIR) then (True, ks[x := None, y := Some k]) else (False, ks)))"

definition g011_step :: "nat \<Rightarrow> nat \<Rightarrow> nat \<Rightarrow> kinds \<Rightarrow> bool \<times> kinds" where
  "g011_step i x y ks =
     (if i mod 5 = 0 then g011_rename x y ks
      else if i mod 5 = 1 then (if ks ! x = None \<or> ks ! x = Some S_DIR then (False, ks) else (True, ks[x := None]))
      else if i mod 5 = 2 then (if ks ! x = Some S_DIR then (True, ks[x := None]) else (False, ks))
      else if ks ! x \<noteq> None then (False, ks)
      else (True, ks[x := Some (if i mod 5 = 3 then S_REG else S_DIR)]))"

fun g011_storm :: "'w kernel \<Rightarrow> nat \<Rightarrow> rnd_state \<times> kinds \<times> nat" where
  "g011_storm K 0 = (prandom_seed_state K G011_SEED, g011_kinds0, 0)"
| "g011_storm K (Suc i) =
     (let (st, ks, n) = g011_storm K i; ((x, y), st) = g011_draw K st; (b, ks) = g011_step i x y ks
      in (st, ks, if b then n + 1 else n))"

definition g011_successes :: "'w kernel \<Rightarrow> nat" where
  "g011_successes K = snd (snd (g011_storm K (2 * G011_NFILES)))"

interpretation g011: name_table g011_name G011_ROOT G011_NFILES
proof unfold_locales
  fix i j
  show "dirname (g011_name i) = G011_ROOT"
    using dirname_comp [of "''XXXXXXXXXXXX.'' @ dec i" G011_ROOT] by (simp add: g011_name_def)
  show "i = j" if "g011_name i = g011_name j" using that by (simp add: g011_name_def)
  show "dirname G011_ROOT = XFS_MNT" "G011_ROOT \<noteq> XFS_MNT"
    using dirname_comp [of "''g011''" XFS_MNT] by (simp_all add: G011_ROOT_def)
qed

text \<open>The tree the table stands for.\<close>

definition g011_flat :: "kinds \<Rightarrow> dtree \<Rightarrow> bool" where
  "g011_flat ks T = (length ks = G011_NFILES \<and> t_dir T G011_ROOT \<and> dom T \<subseteq> insert G011_ROOT (g011_name ` {..<G011_NFILES}) \<and>
     (\<forall>i<G011_NFILES. map_option ntype (T (g011_name i)) = ks ! i) \<and>
     (\<forall>i<G011_NFILES. \<forall>j<G011_NFILES. \<forall>n m. T (g011_name i) = Some n \<longrightarrow> T (g011_name j) = Some m \<longrightarrow> ino n = ino m \<longrightarrow> i = j))"

lemma g011_flatD:
  assumes "g011_flat ks T"
  shows "length ks = G011_NFILES" "t_dir T G011_ROOT" "i < G011_NFILES \<Longrightarrow> map_option ntype (T (g011_name i)) = ks ! i"
    "i < G011_NFILES \<Longrightarrow> t_dir T (dirname (g011_name i))"
  using assms g011.name_dir by (auto simp: g011_flat_def)

lemma g011_apart:
  assumes "i < G011_NFILES" "j < G011_NFILES"
  shows "\<not> beneath (g011_name i) (g011_name j)" "\<not> beneath (g011_name i) G011_ROOT" "dirname G011_ROOT \<noteq> g011_name i"
proof -
  have b: "beneath G011_ROOT (g011_name i)" by (simp add: g011_name_def)
  show up: "\<not> beneath (g011_name i) G011_ROOT" using beneath_asym [OF b] .
  show "\<not> beneath (g011_name i) (g011_name j)"
    using dirname_beneath [of "g011_name i" "g011_name j"] up g011.name_dir [OF assms(2)] g011.name_not_root [OF assms(1)] by auto
  have "length (dirname G011_ROOT) < length G011_ROOT" by (simp add: g011.root_dir, simp add: G011_ROOT_def)
  then show "dirname G011_ROOT \<noteq> g011_name i" using beneath_length [OF b] by auto
qed

lemma g011_flat_dom:
  assumes "g011_flat ks T" "T r \<noteq> None"
  shows "r = G011_ROOT \<or> (\<exists>j<G011_NFILES. r = g011_name j)"
  using assms by (auto simp: g011_flat_def)

lemma g011_not_beneath: "\<lbrakk>i < G011_NFILES; g011_flat ks T; beneath (g011_name i) r\<rbrakk> \<Longrightarrow> T r = None"
  using g011_flat_dom [of ks T r] g011_apart by blast

lemma g011_leaves: "\<lbrakk>i < G011_NFILES; g011_flat ks T\<rbrakk> \<Longrightarrow> t_empty T (g011_name i)"
  unfolding t_empty_def
proof
  fix r assume "i < G011_NFILES" "g011_flat ks T" "r \<in> dom T"
  then show "dirname r \<noteq> g011_name i"
    using g011_flat_dom [of ks T r] g011_apart(3) [of i] g011.name_dir g011.name_not_root(2) [of i] by auto
qed

lemma g011_flat_set:
  assumes "g011_flat ks T" "i < G011_NFILES"
    and "\<And>n j m. \<lbrakk>x = Some n; j < G011_NFILES; j \<noteq> i; T (g011_name j) = Some m\<rbrakk> \<Longrightarrow> ino m \<noteq> ino n"
  shows "g011_flat (ks[i := map_option ntype x]) (T(g011_name i := x))"
proof -
  let ?T = "T(g011_name i := x)"
  have at: "?T (g011_name j) = (if j = i then x else T (g011_name j))" if "j < G011_NFILES" for j
    using that assms(2) by simp
  have old: "a = b" if "a < G011_NFILES" "b < G011_NFILES" "T (g011_name a) = Some n" "T (g011_name b) = Some m" "ino n = ino m" for a b n m
    using assms(1) that unfolding g011_flat_def by blast
  have "a = b" if a: "a < G011_NFILES" "b < G011_NFILES" and n: "?T (g011_name a) = Some n" "?T (g011_name b) = Some m" "ino n = ino m" for a b n m
  proof (cases "a = i \<or> b = i")
    case True
    show ?thesis
    proof (rule ccontr)
      assume "a \<noteq> b"
      with True consider "a = i" "b \<noteq> i" | "b = i" "a \<noteq> i" by blast
      then show False
      proof cases
        case 1
        then show False using assms(3) [of n b m] a(2) n(1) [unfolded at [OF a(1)]] n(2) [unfolded at [OF a(2)]] n(3) by simp
      next
        case 2
        then show False using assms(3) [of m a n] a(1) n(1) [unfolded at [OF a(1)]] n(2) [unfolded at [OF a(2)]] n(3) by simp
      qed
    qed
  next
    case False
    then show ?thesis using old [OF a _ _ n(3)] n(1) [unfolded at [OF a(1)]] n(2) [unfolded at [OF a(2)]] by simp
  qed
  moreover have "map_option ntype (?T (g011_name j)) = ks[i := map_option ntype x] ! j" if "j < G011_NFILES" for j
    using that g011_flatD(1,3) [OF assms(1)] assms(2) by (simp add: at nth_list_update)
  moreover have "t_dir ?T G011_ROOT" "dom ?T \<subseteq> insert G011_ROOT (g011_name ` {..<G011_NFILES})"
    using assms(1,2) by (auto simp: g011_flat_def t_dir_def)
  ultimately show ?thesis using g011_flatD(1) [OF assms(1)] unfolding g011_flat_def by (simp only: length_list_update) blast
qed

lemma g011_flat_remove:
  "\<lbrakk>g011_flat ks T; i < G011_NFILES\<rbrakk> \<Longrightarrow> g011_flat (ks[i := None]) (T(g011_name i := None))"
  using g011_flat_set [where x = None] by simp

lemma g011_flat_add:
  "\<lbrakk>g011_flat ks T; i < G011_NFILES; new_ino T (ino n)\<rbrakk> \<Longrightarrow> g011_flat (ks[i := Some (ntype n)]) (T(g011_name i \<mapsto> n))"
  using g011_flat_set [where x = "Some n"] new_inoD by fastforce

lemma g011_flat_move:
  assumes "g011_flat ks T" "i < G011_NFILES" "j < G011_NFILES" "i \<noteq> j" "T (g011_name i) = Some n"
  shows "g011_flat (ks[i := None, j := Some (ntype n)]) (T(g011_name i := None, g011_name j \<mapsto> n))"
proof -
  have "a = i" if "a < G011_NFILES" "T (g011_name a) = Some m" "ino m = ino n" for a m
    using assms(1,2,5) that unfolding g011_flat_def by blast
  then show ?thesis
    using g011_flat_set [OF g011_flat_remove [OF assms(1,2)] assms(3), where x = "Some n"] assms(2,4)
    by (force split: if_splits)
qed

text \<open>A rename in the table is the rename of the tree.\<close>

lemma g011_rename_flat:
  assumes "g011_flat ks T" "x < G011_NFILES" "y < G011_NFILES" "g011_rename x y ks = (b, ks')"
  obtains e T' where "t_rename (g011_name x) (g011_name y) T = (e, T')" "b = (e = 0)" "g011_flat ks' T'"
proof -
  have kx: "ks ! x = map_option ntype (T (g011_name x))" and ky: "ks ! y = map_option ntype (T (g011_name y))"
    using g011_flatD(3) [OF assms(1)] assms(2,3) by simp_all
  note apart = g011_apart(1) [OF assms(2,3)] g011_apart(1) [OF assms(3,2)]
  have "\<exists>e T'. t_rename (g011_name x) (g011_name y) T = (e, T') \<and> b = (e = 0) \<and> g011_flat ks' T'"
  proof (cases "T (g011_name x)")
    case None
    then show ?thesis using assms(1,4) kx by (simp add: t_rename_def g011_rename_def errno_defs)
  next
    case (Some n)
    show ?thesis
    proof (cases "x = y")
      case True
      then have "t_rename (g011_name x) (g011_name y) T = (0, T)" using Some by (cases n) (auto simp: t_rename_def)
      then show ?thesis using assms(1,4) kx Some True by (simp add: g011_rename_def)
    next
      case False
      then have ne: "g011_name y \<noteq> g011_name x" using assms(2,3) by simp
      have move: "g011_flat (ks[x := None, y := Some (ntype n)]) (T(g011_name x := None, g011_name y \<mapsto> n))"
        by (rule g011_flat_move [OF assms(1-3) False Some])
      have names: "move_names (g011_name x) (g011_name y) T = T(g011_name x := None, g011_name y \<mapsto> n)"
        using move_flat [of "g011_name x" "g011_name y" T] g011_not_beneath [OF _ assms(1)] assms(2,3) ne apart Some by auto
      have other: "ino m \<noteq> ino n" if "T (g011_name y) = Some m" for m
        using assms(1-3) Some that False unfolding g011_flat_def by metis
      have table: "g011_rename x y ks = (if T (g011_name y) = None \<or> (ntype n = S_DIR) = (ntype (the (T (g011_name y))) = S_DIR)
          then (True, ks[x := None, y := Some (ntype n)]) else (False, ks))"
        using kx ky Some False by (cases "T (g011_name y)") (simp_all add: g011_rename_def)
      have tree: "t_rename (g011_name x) (g011_name y) T =
          (if T (g011_name y) = None \<or> (ntype n = S_DIR) = (ntype (the (T (g011_name y))) = S_DIR)
           then (0, T(g011_name x := None, g011_name y \<mapsto> n)) else (if ntype n = S_DIR then - ENOTDIR else - EISDIR, T))"
      proof (cases n)
        case (Dir i)
        then show ?thesis
          using Some ne apart(1) names g011_leaves [OF assms(3,1)] by (auto simp: t_rename_def split: option.splits node.splits)
      qed (use Some other in \<open>auto simp: t_rename_def split: option.splits node.splits\<close>)
      show ?thesis using table tree move assms(1,4) by (auto simp: errno_defs split: if_splits)
    qed
  qed
  with that show ?thesis by blast
qed

section \<open>One operation\<close>

context tree_kernel
begin

definition g011_holds :: "nat \<times> string list \<times> 'z \<Rightarrow> kinds \<Rightarrow> ('w, 'z) kst_scheme \<Rightarrow> bool" where
  "g011_holds c ks s = (\<exists>T. tholds c G011_ROOT T s \<and> g011_flat ks T)"

lemma g011_holdsE:
  assumes "g011_holds c ks s" "x < G011_NFILES"
  obtains T where "tholds c G011_ROOT T s" "g011_flat ks T" "t_dir T (dirname (g011_name x))"
    "ks ! x = map_option ntype (T (g011_name x))"
  using assms g011_flatD(3,4) unfolding g011_holds_def by metis

lemma g011_holdsI: "\<lbrakk>tholds c G011_ROOT T s; g011_flat ks T\<rbrakk> \<Longrightarrow> g011_holds c ks s"
  by (auto simp: g011_holds_def)

lemma g011_unlink_ok:
  assumes "g011_holds c ks s" "x < G011_NFILES"
    and "\<And>t. \<lbrakk>ks ! x = None; g011_holds c ks t\<rbrakk> \<Longrightarrow> Q (- ENOENT) t"
    and "\<And>t. \<lbrakk>ks ! x = Some S_DIR; g011_holds c ks t\<rbrakk> \<Longrightarrow> Q (- EISDIR) t"
    and "\<And>t. \<lbrakk>ks ! x \<noteq> None; ks ! x \<noteq> Some S_DIR; g011_holds c (ks[x := None]) t\<rbrakk> \<Longrightarrow> Q 0 t"
  shows "wp (xfs_unlink K (g011_name x)) Q s"
proof -
  obtain T where t: "tholds c G011_ROOT T s" and f: "g011_flat ks T" "t_dir T (dirname (g011_name x))"
    and kx: "ks ! x = map_option ntype (T (g011_name x))" by (rule g011_holdsE [OF assms(1,2)])
  consider "T (g011_name x) = None" | n where "T (g011_name x) = Some n" "ntype n = S_DIR"
    | n where "T (g011_name x) = Some n" "ntype n \<noteq> S_DIR" by blast
  then show ?thesis
  proof cases
    case 1
    then show ?thesis using assms(3) kx 1 by (intro t_unlink_absent [OF t 1 f(2)]) (simp add: g011_holdsI [OF _ f(1)])
  next
    case 2
    then show ?thesis using assms(4) kx 2 by (intro t_unlink_dir [OF t 2]) (simp add: g011_holdsI [OF _ f(1)])
  next
    case 3
    then show ?thesis
      using assms(5) kx 3 by (intro t_unlink [OF t 3]) (simp add: g011_holdsI [OF _ g011_flat_remove [OF f(1) assms(2)]])
  qed
qed

lemma g011_rmdir_ok:
  assumes "g011_holds c ks s" "x < G011_NFILES"
    and "\<And>t e. \<lbrakk>ks ! x \<noteq> Some S_DIR; e \<noteq> 0; g011_holds c ks t\<rbrakk> \<Longrightarrow> Q e t"
    and "\<And>t. \<lbrakk>ks ! x = Some S_DIR; g011_holds c (ks[x := None]) t\<rbrakk> \<Longrightarrow> Q 0 t"
  shows "wp (xfs_rmdir K (g011_name x)) Q s"
proof -
  obtain T where t: "tholds c G011_ROOT T s" and f: "g011_flat ks T" "t_dir T (dirname (g011_name x))"
    and kx: "ks ! x = map_option ntype (T (g011_name x))" by (rule g011_holdsE [OF assms(1,2)])
  consider "T (g011_name x) = None" | n where "T (g011_name x) = Some n" "ntype n = S_DIR"
    | n where "T (g011_name x) = Some n" "ntype n \<noteq> S_DIR" by blast
  then show ?thesis
  proof cases
    case 1
    then show ?thesis
      using assms(3) kx 1 by (intro t_rmdir_absent [OF t 1 f(2)]) (simp add: errno_defs g011_holdsI [OF _ f(1)])
  next
    case 2
    have "t_dir T (g011_name x)" using 2 by (cases n) (simp_all add: t_dir_def)
    from t_rmdir [OF t this _ g011_leaves [OF assms(2) f(1)]] 2 show ?thesis
      using assms(2,4) kx by (simp add: g011_holdsI [OF _ g011_flat_remove [OF f(1) assms(2)]])
  next
    case 3
    then show ?thesis
      using assms(3) kx 3 by (intro t_rmdir_file [OF t 3]) (simp add: errno_defs g011_holdsI [OF _ f(1)])
  qed
qed

lemma g011_mkdir_ok:
  assumes "g011_holds c ks s" "x < G011_NFILES"
    and "\<And>t e. \<lbrakk>ks ! x \<noteq> None; e \<noteq> 0; g011_holds c ks t\<rbrakk> \<Longrightarrow> Q e t"
    and "\<And>t. \<lbrakk>ks ! x = None; g011_holds c (ks[x := Some S_DIR]) t\<rbrakk> \<Longrightarrow> Q 0 t"
  shows "wp (xfs_mkdir K (g011_name x)) Q s"
proof -
  obtain T where t: "tholds c G011_ROOT T s" and f: "g011_flat ks T" "t_dir T (dirname (g011_name x))"
    and kx: "ks ! x = map_option ntype (T (g011_name x))" by (rule g011_holdsE [OF assms(1,2)])
  show ?thesis
  proof (cases "T (g011_name x)")
    case None
    show ?thesis
      by (rule t_mkdir [OF t None f(2)], rule assms(4))
        (use kx None g011_flat_add [OF f(1) assms(2), of "Dir i" for i] in \<open>auto intro: g011_holdsI\<close>)
  next
    case (Some n)
    then show ?thesis
      using assms(3) kx by (intro t_mkdir_exists [OF t Some]) (simp add: errno_defs g011_holdsI [OF _ f(1)])
  qed
qed

lemma g011_create_ok:
  assumes "g011_holds c ks s" "x < G011_NFILES"
    and "\<And>t e. \<lbrakk>ks ! x \<noteq> None; g011_holds c ks t\<rbrakk> \<Longrightarrow> Q (Inl e) t"
    and "\<And>h t. \<lbrakk>ks ! x = None; \<And>R. (\<And>u. g011_holds c (ks[x := Some S_REG]) u \<Longrightarrow> R () u) \<Longrightarrow> wp (kdo (filp_close K h)) R t\<rbrakk> \<Longrightarrow>
      Q (Inr h) t"
  shows "wp (kcall (filp_open K (g011_name x) {O_WRONLY, O_CREAT, O_EXCL} md)) Q s"
proof -
  obtain T where t: "tholds c G011_ROOT T s" and f: "g011_flat ks T" "t_dir T (dirname (g011_name x))"
    and kx: "ks ! x = map_option ntype (T (g011_name x))" by (rule g011_holdsE [OF assms(1,2)])
  show ?thesis
  proof (cases "T (g011_name x)")
    case None
    show ?thesis
    proof (rule t_create [OF t None f(2)], simp, goal_cases)
      case (1 h u)
      show ?case
      proof (rule assms(4), use kx None in simp, rule 1, goal_cases)
        case (1 R v i)
        then show ?case using g011_flat_add [OF f(1) assms(2), of "Reg i []"] by (simp add: g011_holdsI)
      qed
    qed
  next
    case (Some n)
    then show ?thesis
      using assms(3) kx by (intro t_create_exists [OF t Some]) (simp_all add: g011_holdsI [OF _ f(1)])
  qed
qed

lemma g011_rename_ok:
  assumes "g011_holds c ks s" "x < G011_NFILES" "y < G011_NFILES" "g011_rename x y ks = (b, ks')"
    and "\<And>t e. \<lbrakk>b = (e = 0); g011_holds c ks' t\<rbrakk> \<Longrightarrow> Q e t"
  shows "wp (xfs_rename K (g011_name x) (g011_name y)) Q s"
proof -
  obtain T where t: "tholds c G011_ROOT T s" and f: "g011_flat ks T" "t_dir T (dirname (g011_name x))"
    by (rule g011_holdsE [OF assms(1,2)])
  obtain e T' where r: "t_rename (g011_name x) (g011_name y) T = (e, T')" "b = (e = 0)" "g011_flat ks' T'"
    by (rule g011_rename_flat [OF f(1) assms(2-4)])
  show ?thesis
    by (rule t_rename_ok [OF t f(2) g011_flatD(4) [OF f(1) assms(3)] g011_apart(1) [OF assms(3,2)] r(1)])
      (use assms(5) r(2,3) g011_holdsI in blast)
qed

lemma g011_op_ok:
  assumes "g011_holds c ks s" "x < G011_NFILES" "y < G011_NFILES" "g011_step i x y ks = (b, ks')"
    and "\<And>t. g011_holds c ks' t \<Longrightarrow> Q b t"
  shows "wp (g011_op K i x y) Q s"
proof -
  have "i mod 5 < 5" by simp
  then consider "i mod 5 = 0" | "i mod 5 = 1" | "i mod 5 = 2" | "i mod 5 = 3" | "i mod 5 = 4" by linarith
  then show ?thesis
  proof cases
    case 1
    then have "g011_rename x y ks = (b, ks')" using assms(4) by (simp add: g011_step_def)
    then have "wp (xfs_rename K (g011_name x) (g011_name y)) (\<lambda>e. Q (e = 0)) s"
      by (rule g011_rename_ok [OF assms(1-3)]) (use assms(5) in simp)
    then show ?thesis using 1 by (simp add: g011_op_def g011_try_def)
  next
    case 2
    then have "wp (xfs_unlink K (g011_name x)) (\<lambda>e. Q (e = 0)) s"
      using assms(4,5) by (intro g011_unlink_ok [OF assms(1,2)]) (auto simp: g011_step_def errno_defs)
    then show ?thesis using 2 by (simp add: g011_op_def g011_try_def)
  next
    case 3
    then have "wp (xfs_rmdir K (g011_name x)) (\<lambda>e. Q (e = 0)) s"
      using assms(4,5) by (intro g011_rmdir_ok [OF assms(1,2)]) (auto simp: g011_step_def)
    then show ?thesis using 3 by (simp add: g011_op_def g011_try_def)
  next
    case 4
    then have step: "ks ! x \<noteq> None \<Longrightarrow> (b, ks') = (False, ks)" "ks ! x = None \<Longrightarrow> (b, ks') = (True, ks[x := Some S_REG])"
      using assms(4) by (simp_all add: g011_step_def)
    have "wp (kcall (filp_open K (g011_name x) {O_WRONLY, O_CREAT, O_EXCL} (mode3 6 6 6)))
        (\<lambda>f. wp (case f of Inl e \<Rightarrow> ret False | Inr h \<Rightarrow> bnd (kdo (filp_close K h)) (\<lambda>_. ret True)) Q) s"
      by (rule g011_create_ok [OF assms(1,2)]) (use step assms(5) in auto)
    then show ?thesis using 4 by (simp add: g011_op_def)
  next
    case 5
    then have "wp (xfs_mkdir K (g011_name x)) (\<lambda>e. Q (e = 0)) s"
      using assms(4,5) by (intro g011_mkdir_ok [OF assms(1,2)]) (auto simp: g011_step_def split: if_splits)
    then show ?thesis using 5 by (simp add: g011_op_def g011_try_def)
  qed
qed

lemma g011_scramble_ok:
  assumes "g011_holds c g011_kinds0 s" and "\<And>st ks n t. \<lbrakk>g011_storm K (2 * G011_NFILES) = (st, ks, n); g011_holds c ks t\<rbrakk> \<Longrightarrow>
      Q () (if 16 < n then t else t\<lparr>kfails := Suc (kfails t)\<rparr>)"
  shows "wp (g011_scramble_entries K) Q s"
  unfolding g011_scramble_entries_def wp_bnd
proof (rule wp_for_fold_range [where I = "\<lambda>k (st, n) t. \<exists>ks. g011_storm K k = (st, ks, n) \<and> g011_holds c ks t"], goal_cases)
  case 1
  then show ?case using assms(1) by simp
next
  case 2
  then show ?case by simp
next
  case (3 k l t)
  then obtain st n ks where l: "l = (st, n)" "g011_storm K k = (st, ks, n)" "g011_holds c ks t" by auto
  obtain x y st' where d: "g011_draw K st = ((x, y), st')" by (metis prod.collapse)
  obtain b ks' where st: "g011_step k x y ks = (b, ks')" by (metis prod.collapse)
  have xy: "x < G011_NFILES" "y < G011_NFILES" using d by (auto simp: g011_draw_def G011_NFILES_def Let_def split: prod.splits)
  show ?case
    unfolding l(1) prod.case d Let_def wp_bnd wp_ret
    by (rule g011_op_ok [OF l(3) xy st]) (simp add: l(2) d st)
next
  case (4 l t)
  then obtain st n ks where "l = (st, n)" "g011_storm K (2 * G011_NFILES) = (st, ks, n)" "g011_holds c ks t" by auto
  then show ?case using assms(2) [of st ks n t] by (simp add: G011_NFILES_def split: if_splits)
qed

lemma g011_symlink_ok:
  assumes "g011_holds c ks s" "x < G011_NFILES" "ks ! x = None" and "\<And>t. g011_holds c (ks[x := Some S_LNK]) t \<Longrightarrow> Q 0 t"
  shows "wp (xfs_symlink K g (g011_name x)) Q s"
proof -
  obtain T where t: "tholds c G011_ROOT T s" and f: "g011_flat ks T" "t_dir T (dirname (g011_name x))"
    and kx: "ks ! x = map_option ntype (T (g011_name x))" by (rule g011_holdsE [OF assms(1,2)])
  show ?thesis
    by (rule t_symlink [OF t _ f(2)], use kx assms(3) in simp, rule assms(4))
      (use g011_flat_add [OF f(1) assms(2), of "Lnk i g" for i] in \<open>auto intro: g011_holdsI\<close>)
qed

text \<open>The three passes over the table.\<close>

definition g011_first :: "nat \<Rightarrow> kinds" where
  "g011_first k = map (\<lambda>i. if i < k then g011_kinds0 ! i else None) [0..<G011_NFILES]"

lemma g011_first_Suc: "k < G011_NFILES \<Longrightarrow> (g011_first k)[k := g011_kinds0 ! k] = g011_first (Suc k)"
  by (rule nth_equalityI) (auto simp: g011_first_def nth_list_update less_Suc_eq)

lemma g011_create_entries_ok:
  assumes "g011_holds c (g011_first 0) s" and "\<And>t. g011_holds c g011_kinds0 t \<Longrightarrow> Q () t"
  shows "wp (g011_create_entries K) Q s"
  unfolding g011_create_entries_def
proof (rule wp_for_each [where I = "\<lambda>k. g011_holds c (g011_first k)"], goal_cases)
  case (2 k t)
  then have k: "k < G011_NFILES" and none: "g011_first k ! k = None" by (auto simp: g011_first_def)
  have kind: "g011_kinds0 ! k = Some (if k mod 3 = 0 then S_REG else if k mod 3 = 1 then S_DIR else S_LNK)"
    using k by (simp add: g011_kinds0_def)
  have next_table: "g011_holds c (g011_first (Suc k)) u" if "g011_holds c ((g011_first k)[k := g011_kinds0 ! k]) u" for u
    using that g011_first_Suc [OF k] by simp
  have nth: "[0..<G011_NFILES] ! k = k" using k by simp
  consider "k mod 3 = 0" | "k mod 3 = 1" | "k mod 3 = 2" by linarith
  then show ?case
  proof cases
    case 1
    then show ?thesis
      unfolding nth if_P [OF 1] wp_must_open
      by (intro g011_create_ok [OF 2(2) k]) (use none next_table kind in simp_all)
  next
    case 2
    have "wp (xfs_mkdir K (g011_name k)) (\<lambda>e t. e = 0 \<and> g011_holds c (g011_first (Suc k)) t) t"
      by (rule g011_mkdir_ok [OF \<open>g011_holds c (g011_first k) t\<close> k]) (use none next_table kind 2 in simp_all)
    then show ?thesis using 2 by (simp add: nth)
  next
    case 3
    have "wp (xfs_symlink K (g011_name k) (g011_name k)) (\<lambda>e t. e = 0 \<and> g011_holds c (g011_first (Suc k)) t) t"
      by (rule g011_symlink_ok [OF \<open>g011_holds c (g011_first k) t\<close> k none]) (use next_table kind 3 in simp_all)
    then show ?thesis using 3 by (simp add: nth)
  qed
next
  case (3 t)
  have "g011_first G011_NFILES = g011_kinds0" by (rule nth_equalityI) (simp_all add: g011_first_def g011_kinds0_def)
  then show ?case using 3 assms(2) by simp
qed (use assms in simp)

lemma g011_remove_entry_ok:
  assumes "g011_holds c ks s" "x < G011_NFILES"
    and "\<And>t. g011_holds c (ks[x := None]) t \<Longrightarrow> Q (if ks ! x = None then - ENOENT else 0) t"
  shows "wp (g011_remove_entry K (g011_name x)) Q s"
  unfolding g011_remove_entry_def wp_bnd
proof (rule g011_unlink_ok [OF assms(1,2)], goal_cases)
  case (1 t)
  then have "ks[x := None] = ks" by (metis list_update_id)
  then show ?case using 1 assms(3) [of t] by (simp add: errno_defs)
next
  case (2 t)
  then have "wp (xfs_rmdir K (g011_name x)) Q t"
    using assms(3) by (intro g011_rmdir_ok [OF 2(2) assms(2)]) simp_all
  then show ?case by simp
next
  case (3 t)
  note q = assms(3) [OF 3(3), unfolded if_not_P [OF 3(1)]]
  have "(0::int) \<noteq> - EISDIR" by (simp add: errno_defs)
  with q show ?case by simp
qed

lemma g011_remove_entries_ok:
  assumes "g011_holds c ks s" and "\<And>t T. \<lbrakk>tholds c G011_ROOT T t; dom T = {G011_ROOT}\<rbrakk> \<Longrightarrow> Q () t"
  shows "wp (g011_remove_entries K) Q s"
  unfolding g011_remove_entries_def
proof (rule wp_for_each [where I = "\<lambda>k t. \<exists>ks. g011_holds c ks t \<and> (\<forall>i<k. ks ! i = None)"], goal_cases)
  case (2 k t)
  then obtain ks where ks: "g011_holds c ks t" "\<forall>i<k. ks ! i = None" by blast
  have k: "k < G011_NFILES" using 2 by simp
  then have n: "k < length ks" using ks(1) g011_flatD(1) by (auto simp: g011_holds_def)
  have "wp (g011_remove_entry K (g011_name k))
      (\<lambda>e t. (e = 0 \<or> e = - ENOENT) \<and> (\<exists>ks. g011_holds c ks t \<and> (\<forall>i<Suc k. ks ! i = None))) t"
    by (rule g011_remove_entry_ok [OF ks(1) k])
      (use ks(2) n in \<open>auto simp: nth_list_update less_Suc_eq intro!: exI [of _ "ks[k := None]"]\<close>)
  then show ?case using k by simp
next
  case (3 t)
  then obtain ks T where t: "tholds c G011_ROOT T t" "g011_flat ks T" "\<forall>i<G011_NFILES. ks ! i = None"
    by (auto simp: g011_holds_def)
  have "T (g011_name i) = None" if "i < G011_NFILES" for i using g011_flatD(3) [OF t(2) that] t(3) that by simp
  then have "dom T = {G011_ROOT}" using t(2) by (auto simp: g011_flat_def t_dir_def)
  then show ?case by (rule assms(2) [OF t(1)])
qed (use assms(1) in auto)

lemma g011_run_ok:
  assumes "ready V ok G011_ROOT s"
  shows "wp (dirstress_create_scramble_remove K)
    (\<lambda>_ t. kfails t = (if 16 < g011_successes K then kfails s else Suc (kfails s))) s"
proof -
  let ?c = "(kfails s, ''g011_remove_tree'' # kactions s, kst.more s)"
  let ?Q = "\<lambda>_ t. kfails t = (if 16 < g011_successes K then kfails s else Suc (kfails s))"
  have last: "wp (seq [g011_remove_entries K, expect_ret (xfs_rmdir_settled K G011_ROOT) (\<lambda>e. e = 0),
      expect_ret (xfs_mkdir K G011_ROOT) (\<lambda>e. e = 0)]) (\<lambda>_ t. kfails t = fst d) t"
    if "g011_holds d ks t" for d ks t
    apply (simp only: wp_steps)
    apply (rule g011_remove_entries_ok [OF that])
    apply (rule wp_expect_retI)
    apply (erule t_rmdir_root, assumption, intro conjI refl)
    apply (rule wp_expect_retI)
    apply (rule xfs_mkdir_new, assumption, assumption)
    apply (auto simp: ctx_def)
    done
  note last = last [unfolded wp_seq_Cons wp_seq_Nil]
  show ?thesis
    unfolding dirstress_create_scramble_remove_def wp_seq_Cons wp_seq_Nil
  proof (rule t_prologue [OF assms], goal_cases)
    case (2 t i)
    have "g011_flat (g011_first 0) [G011_ROOT \<mapsto> Dir i]" by (auto simp: g011_flat_def g011_first_def t_dir_def)
    then have "g011_holds ?c (g011_first 0) t" using 2 by (rule_tac g011_holdsI)
    then show ?case
    proof (rule g011_create_entries_ok, goal_cases)
      case (1 u)
      then show ?case
      proof (rule g011_scramble_ok, goal_cases)
        case (1 st ks n v)
        then have n: "g011_successes K = n" by (simp add: g011_successes_def)
        have "g011_holds (Suc (kfails s), snd ?c) ks (v\<lparr>kfails := Suc (kfails v)\<rparr>)"
          using 1(2) by (auto simp: g011_holds_def tholds_def ctx_def)
        note fail = last [OF this, unfolded fst_conv] and pass = last [OF 1(2), unfolded fst_conv]
        show ?case
          by (cases "16 < n") (simp_all only: n if_True if_False fail pass)
      qed
    qed
  qed (simp add: G011_ROOT_def)
qed

end

text \<open>The numbers the in-memory kernel draws: 17 of the first 46 operations succeed.\<close>

lemma g011_storm_mono: "i \<le> j \<Longrightarrow> snd (snd (g011_storm K i)) \<le> snd (snd (g011_storm K j))"
proof (induction j rule: dec_induct)
  case (step j)
  moreover have "snd (snd (g011_storm K j)) \<le> snd (snd (g011_storm K (Suc j)))"
    by (auto simp: Let_def split: prod.split)
  ultimately show ?case by simp
qed simp

lemma g011_memk_draw:
  "g011_draw memk st = ((st div 16777216 mod 64, st div 4294967296 mod 64), (1103515245 * st + 12345) mod 281474976710656)"
proof -
  have bits: "unat (drop_bit k (of_nat n :: u32)) mod 64 = n div 2 ^ k mod 64" if "k + 6 \<le> 32" for k n
  proof -
    have n: "unat (of_nat n :: u32) = take_bit 32 n" by (simp add: unat_of_nat take_bit_eq_mod)
    have "unat (drop_bit k (of_nat n :: u32)) mod 64 = take_bit 6 (drop_bit k (take_bit 32 n))"
      unfolding unat_drop_bit_eq n by (simp add: take_bit_eq_mod [of 6])
    also have "\<dots> = take_bit 6 (drop_bit k n)"
      using that by (simp add: drop_bit_take_bit take_bit_take_bit min_absorb1)
    also have "\<dots> = n div 2 ^ k mod 64" by (simp add: take_bit_eq_mod drop_bit_eq_div)
    finally show ?thesis .
  qed
  show ?thesis
    using bits [of 8 "st div 65536"] bits [of 16 "st div 65536"]
    by (simp add: g011_draw_def memk_def G011_NFILES_def div_mult2_eq [symmetric])
qed

definition g011_next :: "'w kernel \<Rightarrow> nat \<Rightarrow> rnd_state \<times> kinds \<times> nat \<Rightarrow> rnd_state \<times> kinds \<times> nat" where
  "g011_next K i = (\<lambda>(st, ks, n). let ((x, y), st) = g011_draw K st; (b, ks) = g011_step i x y ks in (st, ks, if b then n + 1 else n))"

lemma g011_storm_fold: "g011_storm K n = fold (g011_next K) [0..<n] (g011_storm K 0)"
  by (induction n) (simp_all add: g011_next_def)

lemma g011_memk_successes: "16 < g011_successes memk"
proof -
  have init: "g011_storm memk 0 = (1, g011_kinds0, 0)" by (simp add: memk_def G011_SEED_def)
  have "snd (snd (g011_storm memk 46)) = 17"
    unfolding g011_storm_fold [of memk 46] init g011_kinds0_def G011_NFILES_def
    by (simp add: upt_rec g011_memk_draw g011_next_def g011_step_def g011_rename_def)
  then show ?thesis
    using g011_storm_mono [of 46 "2 * G011_NFILES" memk] by (simp add: g011_successes_def G011_NFILES_def)
qed

section \<open>Properties\<close>

text \<open>
  C7: dirstress.  On every kernel whose directory operations behave as POSIX says, whatever
  the pseudo-random numbers are, every name is created, the storm of renames, unlinks,
  rmdirs, creations and mkdirs succeeds exactly where the table of kinds says, everything
  that is left is removed and the directory with it: the case passes exactly when the
  numbers drawn make more than a quarter of the names' worth of operations succeed.
\<close>

theorem dirstress_counts_table:
  assumes "tree_kernel K V ok" and "ready V ok G011_ROOT s"
  shows "passes (dirstress_create_scramble_remove K) s \<longleftrightarrow> 16 < g011_successes K"
proof -
  from tree_kernel.g011_run_ok [OF assms] show ?thesis
    by (auto simp: passes_def wp_def split: outcome.splits if_splits)
qed

theorem dirstress_counts_table_witness: "passes (dirstress_create_scramble_remove memk) (fx0 ())"
proof -
  have "ready mv mem_ok G011_ROOT (fx0 ())" by (simp add: G011_ROOT_def fx0_ready)
  from dirstress_counts_table [OF trees.tree_kernel_axioms this] g011_memk_successes show ?thesis by simp
qed

end
