(* ===== verification/Gen014.thy ===== *)
theory Gen014
  imports Server
begin

text \<open>
  \<open>kunit/xfstests/generic/014.c\<close>, truncfile: two thousand rounds of a stamped block at a
  random offset and a truncation to a random size; then the size is the last truncation's,
  and a range cut off and grown back reads as zeros.
\<close>

definition G014_ROOT :: string where "G014_ROOT = XFS_MNT @ ''/g014''"
definition G014_FILE :: string where "G014_FILE = G014_ROOT @ ''/truncfile''"
definition G014_BS :: nat where "G014_BS = 512"
definition G014_FILESIZE :: nat where "G014_FILESIZE = 1024 * 1024"
definition G014_COUNT :: nat where "G014_COUNT = 2000"
definition G014_SEED :: nat where "G014_SEED = 1"

definition g014_remove_tree :: "'w kernel \<Rightarrow> (('w, 'z) kst_scheme, unit) prog" where
  "g014_remove_tree K = seq [ignore (xfs_unlink K G014_FILE), ignore (xfs_rmdir K G014_ROOT)]"

definition g014_block :: "nat \<Rightarrow> byte list" where
  \<comment> \<open>a zeroed block with \<open>off\<close> stored as u64 at bytes 0 and 256\<close>
  "g014_block off = blit 0 (le_bytes 8 off) (blit 256 (le_bytes 8 off) (replicate G014_BS 0))"

definition g014_round ::
  "'w kernel \<Rightarrow> nat \<Rightarrow> nat \<Rightarrow> rnd_state \<times> nat \<Rightarrow> (('w, 'z) kst_scheme, rnd_state \<times> nat) prog" where
  \<comment> \<open>the locals are the generator and \<open>last_trunc\<close>\<close>
  "g014_round K f i = (\<lambda>(st, last_trunc).
     let (r, st) = prandom_u32_state K st;
         off = unat r mod G014_FILESIZE
     in bnd (kcall (kernel_write K f (g014_block off) (int off))) (\<lambda>(w, off').
        bnd (kunit_assert (w = int G014_BS)) (\<lambda>_.
        let (r, st) = prandom_u32_state K st;
            last_trunc = unat r mod G014_FILESIZE
        in bnd (must (xfs_truncate K G014_FILE (int last_trunc))) (\<lambda>_. ret (st, last_trunc)))))"

definition g014_epilogue :: "'w kernel \<Rightarrow> (('w, 'z) kst_scheme, unit) prog" where
  "g014_epilogue K = seq [
     must (xfs_truncate K G014_FILE 4096),
     must (xfs_truncate K G014_FILE 131072),
     must_alloc K G014_BS,
     bnd (xfs_read_range K G014_FILE G014_BS 65536) (\<lambda>(n, rd).
       bnd (kunit_assert (n = int G014_BS)) (\<lambda>_.
       case first_diff (take G014_BS rd) (replicate G014_BS 0) of None \<Rightarrow> ret () | Some j \<Rightarrow> kunit_fail))]"

definition write_truncate_churn_ends_consistent :: "'w kernel \<Rightarrow> (('w, 'z) fxs_scheme, unit) prog" where
  "write_truncate_churn_ends_consistent K = seq [
     test_prologue K G014_ROOT ''g014_remove_tree'' (g014_remove_tree K),
     must_alloc K G014_BS,
     must_open (kcall (filp_open K G014_FILE {O_RDWR, O_CREAT, O_TRUNC} (mode3 6 6 6))) (\<lambda>f.
       bnd (for_fold [0..<G014_COUNT] (g014_round K f) (prandom_seed_state K G014_SEED, 0)) (\<lambda>(st, last_trunc).
       seq [
         kdo (filp_close K f),
         expect_stat K G014_FILE (\<lambda>kst. st_size kst = int last_trunc)])),
     g014_epilogue K]"

definition g014_suite :: "'w kernel \<Rightarrow> ('w, 'z) fxs_scheme suite" where
  "g014_suite K = nfs_suite K ''xfstests/generic/014''
     [(''write_truncate_churn_ends_consistent'', write_truncate_churn_ends_consistent K)]"

section \<open>The size is the last truncation's\<close>

lemma length_g014_block [simp]: "length (g014_block off) = G014_BS"
  by (simp add: g014_block_def G014_BS_def)

lemma g014_limit: "n mod G014_FILESIZE + G014_BS < size_limit" "n mod G014_FILESIZE < size_limit"
proof -
  have "n mod G014_FILESIZE < G014_FILESIZE" by (rule mod_less_divisor) (simp add: G014_FILESIZE_def)
  then show "n mod G014_FILESIZE + G014_BS < size_limit" "n mod G014_FILESIZE < size_limit"
    by (simp_all add: G014_FILESIZE_def G014_BS_def size_limit_def)
qed

context posix_kernel
begin

abbreviation g014_at where
  "g014_at c x n s \<equiv> \<exists>d. holds c {G014_FILE} [G014_FILE \<mapsto> d] (Map.empty(G014_FILE := x)) s \<and> length d = n"

lemma g014_round_ok:
  assumes "g014_at c (Some (f, {O_RDWR, O_CREAT, O_TRUNC})) n s"
  shows "wp (g014_round K f i (st, n)) (\<lambda>(st, n). g014_at c (Some (f, {O_RDWR, O_CREAT, O_TRUNC})) n) s"
proof -
  obtain r st1 where r: "prandom_u32_state K st = (r, st1)" by fastforce
  obtain r2 st2 where r2: "prandom_u32_state K st1 = (r2, st2)" by fastforce
  obtain d where d: "holds c {G014_FILE} [G014_FILE \<mapsto> d] [G014_FILE \<mapsto> (f, {O_RDWR, O_CREAT, O_TRUNC})] s"
    using assms by auto
  show ?thesis
    unfolding g014_round_def prod.case r Let_def wp_bnd
  proof (rule h_write [where p = G014_FILE, OF d, OF fun_upd_same, OF fun_upd_same], goal_cases)
    case (5 t)
    then show ?case
      unfolding prod.case wp_bnd wp_kunit_assert r2 wp_must
      by (intro conjI h_truncate [OF 5, OF fun_upd_same]) (auto simp: g014_limit)
  qed (simp_all add: g014_limit)
qed

lemma g014_epilogue_ok:
  assumes "g014_at c None n s"
  shows "wp (g014_epilogue K) (\<lambda>_ s'. kfails s' = fst c) s"
proof -
  obtain d where d: "holds c {G014_FILE} [G014_FILE \<mapsto> d] Map.empty s" using assms by auto
  show ?thesis
    unfolding g014_epilogue_def wp_seq_Cons wp_seq_Nil wp_must wp_bnd
  proof (rule h_truncate [OF d, OF fun_upd_same], goal_cases)
    case (3 t1)
    show ?case
    proof (intro conjI refl, rule h_truncate [OF 3, OF fun_upd_same], goal_cases)
      case (3 t2)
      show ?case
      proof (intro conjI refl, rule h_alloc [OF 3], goal_cases)
        case (1 t3)
        show ?case
          by (rule h_read_range [OF 1, OF fun_upd_same])
            (auto simp: read_at_resize_hole G014_BS_def size_limit_def dest: holds_fails)
      qed
    qed (simp_all add: size_limit_def)
  qed (simp_all add: size_limit_def)
qed

lemma g014_run_ok:
  assumes "ready V ok G014_ROOT s"
  shows "passes (write_truncate_churn_ends_consistent K) s"
  unfolding passes_def write_truncate_churn_ends_consistent_def wp_seq_Cons wp_must_open
proof (rule h_prologue [where U = "{G014_FILE}", OF assms], goal_cases)
  case (2 t1)
  then show ?case
  proof (rule h_alloc, goal_cases)
    case (1 t2)
    then show ?case
    proof (rule h_create, goal_cases)
      case (4 t3 f)
      let ?c = "(kfails s, ''g014_remove_tree'' # kactions s, kst.more s)"
      let ?o = "Some (f, {O_RDWR, O_CREAT, O_TRUNC})"
      have loop: "wp (for_fold [0..<G014_COUNT] (g014_round K f) (prandom_seed_state K G014_SEED, 0))
          (\<lambda>(st, n). g014_at ?c ?o n) t3"
        by (rule wp_for_fold [where I = "\<lambda>_ (st, n). g014_at ?c ?o n"])
          (use 4 in \<open>auto intro!: g014_round_ok\<close>)
      show ?case
        unfolding sum.case wp_bnd
      proof (rule wp_mono [OF loop], goal_cases)
        case (1 l t)
        then obtain st n d where l: "l = (st, n)" "length d = n"
          and d: "holds ?c {G014_FILE} [G014_FILE \<mapsto> d] [G014_FILE \<mapsto> (f, {O_RDWR, O_CREAT, O_TRUNC})] t"
          by (cases l) auto
        show ?case
          unfolding l(1) prod.case wp_seq_Cons wp_seq_Nil
        proof (rule h_close [where p = G014_FILE, OF d, OF fun_upd_same, OF fun_upd_same], rule h_expect_stat, assumption, rule fun_upd_same, goal_cases)
          case (2 t4 t5)
          then show ?case using g014_epilogue_ok [where c = ?c and n = n and s = t5] l(2) by auto
        qed (simp add: l(2))
      qed
    qed simp_all
  qed
qed (simp add: G014_FILE_def)

end

end
