(* ===== verification/Xattrs.thy ===== *)
theory Xattrs
  imports Server
begin

text \<open>
  Extended attributes.  \<open>xholds c U X s\<close> reads the kernel's world as a map \<open>X\<close> from the
  names of the files of \<open>U\<close>, all closed, to their attribute tables; each rule is one step
  of the simulation, a call of one of the fixture's attribute helpers changing the map as
  the operation on tables does.  A path reaches a file through the client or, where the
  export is a second name of the mount, through the server: \<open>looks q p\<close> says that \<open>q\<close>
  leads to the file \<open>p\<close>.  The first section is the walk over the buffer that
  \<open>xfs_listxattr\<close> fills, names separated by zero bytes, which every port has.
\<close>

section \<open>The list of names\<close>

abbreviation NUL :: char where "NUL \<equiv> CHR 0x00"

function nul_names :: "string \<Rightarrow> string list" where
  \<comment> \<open>\<open>for (off = 0; off < len; off += strlen(list + off) + 1)\<close>: the strings it stops at\<close>
  "nul_names cs =
     (if cs = [] then []
      else takeWhile (\<lambda>c. c \<noteq> NUL) cs # nul_names (tl (dropWhile (\<lambda>c. c \<noteq> NUL) cs)))"
  by pat_completeness auto

termination
proof (relation "measure length", simp)
  fix cs :: string
  let ?d = "dropWhile (\<lambda>c. c \<noteq> NUL) cs"
  assume "cs \<noteq> []"
  then have "0 < length cs" by (rule length_greater_0_conv [THEN iffD2])
  moreover have "length ?d \<le> length cs" by (rule length_dropWhile_le)
  ultimately have "length (tl ?d) < length cs" unfolding length_tl by linarith
  then show "(tl ?d, cs) \<in> measure length" by simp
qed

declare nul_names.simps [simp del]

lemma nul_not_dec: "NUL \<notin> set (dec n)"
proof (induction n rule: dec.induct)
  case (1 n)
  have d: "NUL \<noteq> digit d" if "d < 10" for d
    using that by (auto dest!: arg_cong [where f = "of_char :: char \<Rightarrow> nat"] simp: of_char_digit)
  show ?case using 1 d [of n] d [of "n mod 10"] by (auto simp: dec.simps [of n])
qed

definition list_bytes :: "string list \<Rightarrow> string" where
  "list_bytes ns = concat (map (\<lambda>n. n @ [NUL]) ns)"

lemma nul_names_list_bytes:
  "\<forall>n\<in>set ns. NUL \<notin> set n \<Longrightarrow> nul_names (list_bytes ns) = ns"
proof (induction ns)
  case (Cons n ns)
  have n: "\<And>c. c \<in> set n \<Longrightarrow> c \<noteq> NUL" using Cons.prems by auto
  have "takeWhile (\<lambda>c. c \<noteq> NUL) (n @ NUL # r) = n" "dropWhile (\<lambda>c. c \<noteq> NUL) (n @ NUL # r) = NUL # r" for r
    using n by (simp_all add: takeWhile_append2 dropWhile_append2)
  then show ?case using Cons by (simp add: list_bytes_def nul_names.simps [of "n @ NUL # _"])
qed (simp add: list_bytes_def nul_names.simps [of "[]"])

definition list_size :: "(string \<rightharpoonup> string) \<Rightarrow> nat" where
  \<comment> \<open>the bytes the names of a table take in a list\<close>
  "list_size m = (\<Sum>n\<in>dom m. length n + 1)"

lemma length_list_bytes: "distinct ns \<Longrightarrow> set ns = dom m \<Longrightarrow> length (list_bytes ns) = list_size m"
  using sum_list_distinct_conv_sum_set [of ns "\<lambda>n. length n + 1"]
  by (simp add: list_bytes_def list_size_def length_concat comp_def)

lemma list_size_upd:
  "finite (dom m) \<Longrightarrow> list_size (m(n \<mapsto> v)) = (if m n = None then list_size m + length n + 1 else list_size m)"
  by (auto simp: list_size_def insert_absorb domIff)

lemma list_size_empty [simp]: "list_size Map.empty = 0"
  by (simp add: list_size_def)

section \<open>Paths that lead to a file\<close>

context posix_kernel
begin

definition looks :: "string \<Rightarrow> string \<Rightarrow> bool" where
  "looks q p = (\<forall>w i rp w'. ok w \<longrightarrow> names (V w) p = Some i \<longrightarrow> closed (V w) i \<longrightarrow> kern_path K q {} w = (rp, w') \<longrightarrow>
     (\<exists>h. rp = Inr h \<and> refs (V w) h = None \<and> ok w' \<and> V w' = (V w)\<lparr>refs := (refs (V w))(h \<mapsto> i)\<rparr>))"

lemma looks_self: "looks p p"
  using kern_path_found by (auto simp: looks_def)

lemma wp_with_looks:
  assumes "ok (kw s)" "names (V (kw s)) p = Some i" "closed (V (kw s)) i" "looks q p"
    and "\<And>w h. \<lbrakk>ok w; refs (V (kw s)) h = None; V w = (V (kw s))\<lparr>refs := (refs (V (kw s)))(h \<mapsto> i)\<rparr>\<rbrakk> \<Longrightarrow>
           wp (act h) (\<lambda>r t. ok (kw t) \<and> refs (V (kw t)) h = Some i \<and>
             (\<forall>w'. ok w' \<longrightarrow> V w' = (V (kw t))\<lparr>refs := (refs (V (kw t)))(h := None)\<rparr> \<longrightarrow> Q r (t\<lparr>kw := w'\<rparr>)))
           (s\<lparr>kw := w\<rparr>)"
  shows "wp (with_path K q f act) Q s"
  unfolding with_path_def wp_bnd
proof (rule wp_kcallI)
  fix a w
  assume "kern_path K q {} (kw s) = (a, w)"
  then obtain h where h: "a = Inr h" "refs (V (kw s)) h = None" "ok w" "V w = (V (kw s))\<lparr>refs := (refs (V (kw s)))(h \<mapsto> i)\<rparr>"
    using assms(1-4) unfolding looks_def by blast
  show "wp (case a of Inl e \<Rightarrow> ret (f e) | Inr h \<Rightarrow> bnd (act h) (\<lambda>r. bnd (kdo (path_put K h)) (\<lambda>_. ret r))) Q (s\<lparr>kw := w\<rparr>)"
    unfolding h(1) sum.case wp_bnd
  proof (rule wp_mono [OF assms(5) [OF h(3,2,4)]])
    fix r t
    assume *: "ok (kw t) \<and> refs (V (kw t)) h = Some i \<and>
      (\<forall>w'. ok w' \<longrightarrow> V w' = (V (kw t))\<lparr>refs := (refs (V (kw t)))(h := None)\<rparr> \<longrightarrow> Q r (t\<lparr>kw := w'\<rparr>))"
    show "wp (kdo (path_put K h)) (\<lambda>_. wp (ret r) Q) t"
      by (rule wp_path_put) (use * in auto)
  qed
qed

section \<open>The map of attribute tables\<close>

definition xat :: "'w \<Rightarrow> string \<Rightarrow> string \<rightharpoonup> string" where
  "xat w p = i_xattrs (inodes (V w) (the (names (V w) p)))"

definition xholds ::
  "nat \<times> string list \<times> 'z \<Rightarrow> string set \<Rightarrow> (string \<rightharpoonup> (string \<rightharpoonup> string)) \<Rightarrow> ('w, 'z) kst_scheme \<Rightarrow> bool" where
  "xholds c U X s = (ctx s = c \<and> (\<exists>M. store U M Map.empty (kw s) \<and> dom M = dom X) \<and>
     (\<forall>p m. X p = Some m \<longrightarrow> xat (kw s) p = m))"

lemma xholds_ok: "xholds c U X s \<Longrightarrow> ok (kw s)"
  by (auto simp: xholds_def store_ok)

lemma xholds_fails: "xholds c U X s \<Longrightarrow> kfails s = fst c"
  by (auto simp: xholds_def ctx_def)

lemma xholdsE:
  assumes "xholds c U X s" "X p = Some m"
  obtains i where "names (V (kw s)) p = Some i" "closed (V (kw s)) i" "i_xattrs (inodes (V (kw s)) i) = m"
proof -
  obtain M where M: "store U M Map.empty (kw s)" "dom M = dom X" using assms(1) by (auto simp: xholds_def)
  then obtain d where d: "M p = Some d" using assms(2) by blast
  note f = store_file [OF M(1) d]
  show ?thesis
  proof (rule that [OF file_on_has(2) [OF f]])
    show "closed (V (kw s)) (the (names (V (kw s)) p))" using f by (simp add: file_on_def closed_def)
    show "i_xattrs (inodes (V (kw s)) (the (names (V (kw s)) p))) = m" using assms by (simp add: xholds_def xat_def)
  qed
qed

lemma xholds_cong: "xholds c U X s \<Longrightarrow> ok w \<Longrightarrow> V w = V (kw s) \<Longrightarrow> xholds c U X (s\<lparr>kw := w\<rparr>)"
  unfolding xholds_def xat_def by (auto intro: store_cong)

lemma store_set_xattrs:
  "store U M H w \<Longrightarrow> ok w' \<Longrightarrow> V w' = set_xattrs i m (V w) \<Longrightarrow> store U M H w'"
  by (simp add: store_def file_on_def has_inode_def)

lemma xholds_set:
  assumes "xholds c U X s" "X p = Some m" "names (V (kw s)) p = Some i" "ok w" "V w = set_xattrs i m' (V (kw s))"
  shows "xholds c U (X(p \<mapsto> m')) (s\<lparr>kw := w\<rparr>)"
proof -
  obtain M where M: "store U M Map.empty (kw s)" "dom M = dom X" using assms(1) by (auto simp: xholds_def)
  have "store U M Map.empty w" by (rule store_set_xattrs [OF M(1) assms(4,5)])
  moreover have "dom M = dom (X(p \<mapsto> m'))" using M(2) assms(2) by (simp add: domI insert_absorb)
  moreover have "xat w q = e" if q: "(X(p \<mapsto> m')) q = Some e" for q e
  proof (cases "q = p")
    case True
    then show ?thesis using q assms(3,5) by (simp add: xat_def)
  next
    case False
    have n: "names (V (kw s)) q \<noteq> names (V (kw s)) p"
      using M assms(2) q False unfolding store_def inj_on_def by (metis domI fun_upd_other)
    obtain j where j: "names (V (kw s)) q = Some j" using xholdsE [OF assms(1)] q False by (metis fun_upd_other)
    have "xat (kw s) q = e" using assms(1) q False by (simp add: xholds_def)
    then show ?thesis using j n assms(3,5) by (auto simp: xat_def)
  qed
  ultimately show ?thesis using assms(1) by (auto simp: xholds_def)
qed

lemma x_prologue:
  assumes "ready V ok root s" and "\<And>p. p \<in> U \<Longrightarrow> \<exists>b. p = root @ CHR ''/'' # b \<and> CHR ''/'' \<notin> set b"
    and "\<And>t. xholds (kfails s, nm # kactions s, kst.more s) U Map.empty t \<Longrightarrow> Q () t"
  shows "wp (test_prologue K root nm act) Q s"
  by (rule h_prologue [OF assms(1,2)]) (auto intro!: assms(3) simp: holds_def xholds_def)

lemma x_write_new:
  assumes "xholds c U X s" "p \<in> U" "X p = None" "length d < size_limit"
    and "\<And>t. xholds c U (X(p \<mapsto> Map.empty)) t \<Longrightarrow> Q 0 t"
  shows "wp (xfs_write_new_file K p d) Q s"
proof -
  obtain M where M: "store U M Map.empty (kw s)" "dom M = dom X" using assms(1) by (auto simp: xholds_def)
  have Mp: "M p = None" using M(2) assms(3) by (metis domIff)
  note ab = store_absent [OF M(1) assms(2) Mp]
  show ?thesis
  proof (rule xfs_write_new_file_new [OF store_ok [OF M(1)] ab assms(4)], goal_cases)
    case (1 w i)
    have "file_on w p i d Map.empty" using 1 by (auto simp: file_on_def has_inode_def data_of_def fresh_def)
    moreover have "others p i (kw s) w"
      by (rule othersI) (use 1 ab not_dir(2) in \<open>auto simp: absent_def split: if_splits\<close>)
    ultimately have st: "store U (M(p \<mapsto> d)) (Map.empty(p := None)) w"
      using 1 by (intro store_step [where x = None and i = i, OF M(1) assms(2)]) (simp, assumption, simp)
    have "xat w q = m" if q: "(X(p \<mapsto> Map.empty)) q = Some m" for q m
    proof (cases "q = p")
      case True
      then show ?thesis using q 1(3) by (simp add: xat_def add_name_def)
    next
      case False
      then obtain j where j: "names (V (kw s)) q = Some j" using xholdsE [OF assms(1)] q by (metis fun_upd_other)
      then have "j \<noteq> i" using 1(2) by (auto simp: fresh_def)
      have "xat (kw s) q = m" using assms(1) q False by (simp add: xholds_def)
      then show ?thesis using \<open>j \<noteq> i\<close> False j 1(3) by (auto simp: xat_def add_name_def)
    qed
    then have "xholds c U (X(p \<mapsto> Map.empty)) (s\<lparr>kw := w\<rparr>)"
      using st M(2) assms(1) unfolding xholds_def by (intro conjI exI [of _ "M(p \<mapsto> d)"]) simp_all
    then show ?case by (rule assms(5))
  qed
qed

lemma x_alloc:
  assumes "xholds c U X s" and "\<And>t. xholds c U X t \<Longrightarrow> Q () t"
  shows "wp (must_alloc K n) Q s"
  by (rule wp_alloc_ok [OF xholds_ok [OF assms(1)]]) (use assms xholds_cong in blast)

lemma x_alloc2:
  assumes "xholds c U X s" and "\<And>t. xholds c U X t \<Longrightarrow> Q () t"
  shows "wp (must_alloc2 K m n) Q s"
  by (rule wp_alloc2_ok [OF xholds_ok [OF assms(1)]]) (use assms xholds_cong in blast)

section \<open>One rule per helper and case\<close>

lemma x_get:
  assumes "xholds c U X s" "X p = Some m" "looks q p"
    and "\<And>t r dx. \<lbrakk>xholds c U X t;
           case m nm of None \<Rightarrow> r = - ENODATA
           | Some v \<Rightarrow> if sz = 0 then r = int (length v) \<and> dx = []
               else if length v \<le> sz then r = int (length v) \<and> dx = v else r = - ERANGE\<rbrakk> \<Longrightarrow> Q (r, dx) t"
  shows "wp (xfs_getxattr K q nm sz) Q s"
proof -
  obtain i where i: "names (V (kw s)) p = Some i" "closed (V (kw s)) i" "i_xattrs (inodes (V (kw s)) i) = m"
    by (rule xholdsE [OF assms(1,2)])
  show ?thesis
    unfolding xfs_getxattr_def
  proof (rule wp_with_looks [OF xholds_ok [OF assms(1)] i(1,2) assms(3)], rule wp_kcallI, goal_cases)
    case (1 w h a w')
    obtain r dx where a: "a = (r, dx)" by fastforce
    have "vfs_getxattr K h nm sz w = ((r, dx), w')" using 1(4) a by simp
    from getxattr [OF 1(1) _ this, of i] 1(3) i(3)
    have g: "ok w' \<and> V w' = V w" "case m nm of None \<Rightarrow> r = - ENODATA
        | Some v \<Rightarrow> if sz = 0 then r = int (length v) \<and> dx = []
            else if length v \<le> sz then r = int (length v) \<and> dx = v else r = - ERANGE" by simp_all
    have "Q a (s\<lparr>kw := w''\<rparr>)" if "ok w''" "V w'' = V (kw s)" for w''
      unfolding a by (rule assms(4) [OF xholds_cong [OF assms(1) that] g(2)])
    then show ?case using g(1) 1 by auto
  qed
qed

lemma x_get_some:
  assumes "xholds c U X s" "X p = Some m" "looks q p" "m nm = Some v" "length v \<le> sz"
    and "\<And>t dx. \<lbrakk>xholds c U X t; dx = v\<rbrakk> \<Longrightarrow> Q (int (length v), dx) t"
  shows "wp (xfs_getxattr K q nm sz) Q s"
  by (rule x_get [OF assms(1-3)]) (use assms(4-6) in \<open>auto split: if_splits\<close>)

lemma x_get_none:
  assumes "xholds c U X s" "X p = Some m" "looks q p" "m nm = None"
    and "\<And>t dx. xholds c U X t \<Longrightarrow> Q (- ENODATA, dx) t"
  shows "wp (xfs_getxattr K q nm sz) Q s"
  by (rule x_get [OF assms(1-3)]) (use assms(4,5) in auto)

lemma x_list:
  assumes "xholds c U X s" "X p = Some m" "looks q p"
    and "\<And>t r dx ns. \<lbrakk>xholds c U X t; distinct ns; set ns = dom m;
           if sz = 0 then r = int (list_size m) \<and> dx = []
           else if list_size m \<le> sz then r = int (list_size m) \<and> dx = list_bytes ns else r = - ERANGE\<rbrakk> \<Longrightarrow> Q (r, dx) t"
  shows "wp (xfs_listxattr K q sz) Q s"
proof -
  obtain i where i: "names (V (kw s)) p = Some i" "closed (V (kw s)) i" "i_xattrs (inodes (V (kw s)) i) = m"
    by (rule xholdsE [OF assms(1,2)])
  show ?thesis
    unfolding xfs_listxattr_def
  proof (rule wp_with_looks [OF xholds_ok [OF assms(1)] i(1,2) assms(3)], rule wp_kcallI, goal_cases)
    case (1 w h a w')
    obtain r dx where a: "a = (r, dx)" by fastforce
    have "vfs_listxattr K h sz w = ((r, dx), w')" using 1(4) a by simp
    from listxattr [OF 1(1) _ this, of i] 1(3) i(3)
    obtain ns where g: "ok w'" "V w' = V w" "distinct ns" "set ns = dom m"
      "if sz = 0 then r = int (length (list_bytes ns)) \<and> dx = []
       else if length (list_bytes ns) \<le> sz then r = int (length (list_bytes ns)) \<and> dx = list_bytes ns else r = - ERANGE"
      unfolding list_bytes_def by (auto simp: Let_def)
    note g(5) [unfolded length_list_bytes [OF g(3,4)]]
    then have "Q a (s\<lparr>kw := w''\<rparr>)" if "ok w''" "V w'' = V (kw s)" for w''
      unfolding a using assms(4) [OF xholds_cong [OF assms(1) that] g(3,4)] by blast
    then show ?case using g(1,2) 1 by auto
  qed
qed

lemma x_list_names:
  assumes "xholds c U X s" "X p = Some m" "looks q p" "list_size m \<le> sz" "\<forall>n\<in>dom m. NUL \<notin> set n"
    and "\<And>t dx ns. \<lbrakk>xholds c U X t; distinct ns; set ns = dom m; nul_names dx = ns; length dx = list_size m\<rbrakk> \<Longrightarrow>
           Q (int (list_size m), dx) t"
  shows "wp (xfs_listxattr K q sz) Q s"
proof (rule x_list [OF assms(1-3)], goal_cases)
  case (1 t r dx ns)
  have "r = int (list_size m) \<and> dx = list_bytes ns"
  proof (cases "sz = 0")
    case True
    then have "length (list_bytes ns) = 0" using assms(4) length_list_bytes [OF 1(2,3)] by simp
    then show ?thesis using 1(4) True by simp
  qed (use 1(4) assms(4) in simp)
  then show ?case
    using assms(6) [OF 1(1-3), of dx] nul_names_list_bytes [of ns] length_list_bytes [OF 1(2,3)] assms(5) 1(3) by simp
qed

lemma x_list_absent:
  assumes "xholds c U X s" "p \<in> U" "X p = None" and "\<And>t. xholds c U X t \<Longrightarrow> Q (- ENOENT, []) t"
  shows "wp (xfs_listxattr K p sz) Q s"
proof -
  obtain M where M: "store U M Map.empty (kw s)" "dom M = dom X" using assms(1) by (auto simp: xholds_def)
  have "M p = None" using M(2) assms(3) by (metis domIff)
  then show ?thesis
    unfolding xfs_listxattr_def
    by (intro wp_with_path_absent [OF store_ok [OF M(1)] store_absent [OF M(1) assms(2)]] assms(4) xholds_cong [OF assms(1)])
qed

text \<open>The two helpers that change a table get write access to the mount first.\<close>

lemma wp_write_access:
  assumes "ok (kw s)" "refs (V (kw s)) h = Some i"
    and "\<And>w. \<lbrakk>ok w; V w = V (kw s)\<rbrakk> \<Longrightarrow>
      wp m (\<lambda>r t. ok (kw t) \<and> (\<forall>w'. ok w' \<longrightarrow> V w' = V (kw t) \<longrightarrow> Q r (t\<lparr>kw := w'\<rparr>))) (s\<lparr>kw := w\<rparr>)"
  shows "wp (bnd (kcall (mnt_want_write K h)) (\<lambda>err. if err = 0 then bnd m (\<lambda>r. bnd (kdo (mnt_drop_write K h)) (\<lambda>_. ret r))
     else ret err)) Q s"
  unfolding wp_bnd
proof (rule wp_kcallI)
  fix a w
  assume "mnt_want_write K h (kw s) = (a, w)"
  from want_write [OF assms(1,2) this] have a: "a = 0" "ok w" "V w = V (kw s)" by simp_all
  show "wp (if a = 0 then bnd m (\<lambda>r. bnd (kdo (mnt_drop_write K h)) (\<lambda>_. ret r)) else ret a) Q (s\<lparr>kw := w\<rparr>)"
    unfolding a(1) simp_thms if_True wp_bnd
  proof (rule wp_mono [OF assms(3) [OF a(2,3)]])
    fix r t
    assume *: "ok (kw t) \<and> (\<forall>w'. ok w' \<longrightarrow> V w' = V (kw t) \<longrightarrow> Q r (t\<lparr>kw := w'\<rparr>))"
    show "wp (kdo (mnt_drop_write K h)) (\<lambda>_. wp (ret r) Q) t"
      using * drop_write [of "kw t" h] by (simp add: wp_kdo)
  qed
qed

lemma x_setxattr:
  assumes "xholds c U X s" "X p = Some m" "looks q p" "length v \<le> 65536" "sf \<in> {0, XATTR_CREATE, XATTR_REPLACE}"
    and "\<And>t. xholds c U (X(p \<mapsto> m(nm \<mapsto> v))) t \<Longrightarrow> \<not> (sf = XATTR_CREATE \<and> m nm \<noteq> None) \<Longrightarrow>
      \<not> (sf = XATTR_REPLACE \<and> m nm = None) \<Longrightarrow> Q 0 t"
    and "\<And>t. xholds c U X t \<Longrightarrow> sf = XATTR_CREATE \<Longrightarrow> m nm \<noteq> None \<Longrightarrow> Q (- EEXIST) t"
    and "\<And>t. xholds c U X t \<Longrightarrow> sf = XATTR_REPLACE \<Longrightarrow> m nm = None \<Longrightarrow> Q (- ENODATA) t"
  shows "wp (xfs_setxattr K q nm v sf) Q s"
proof -
  obtain i where i: "names (V (kw s)) p = Some i" "closed (V (kw s)) i" "i_xattrs (inodes (V (kw s)) i) = m"
    by (rule xholdsE [OF assms(1,2)])
  let ?v = "V (kw s)"
  show ?thesis
    unfolding xfs_setxattr_def
  proof (rule wp_with_looks [OF xholds_ok [OF assms(1)] i(1,2) assms(3)], rule wp_write_access [where i = i], goal_cases)
    case (3 w h w1)
    show ?case
    proof (rule wp_kcallI, goal_cases)
      case (1 r w2)
      have h: "refs (V w1) h = Some i" "i_xattrs (inodes (V w1) i) = m" using 3 i(3) by simp_all
      from setxattr [OF 3(4) h(1) assms(4,5), of nm r w2] 1 h(2)
      have g: "ok w2" "if sf = XATTR_CREATE \<and> m nm \<noteq> None then r = - EEXIST \<and> V w2 = V w1
         else if sf = XATTR_REPLACE \<and> m nm = None then r = - ENODATA \<and> V w2 = V w1
         else r = 0 \<and> V w2 = set_xattrs i (m(nm \<mapsto> v)) (V w1)" by simp_all
      have Q: "Q r (s\<lparr>kw := w''\<rparr>)" if w: "ok w''" "V w'' = (V w2)\<lparr>refs := (refs (V w2))(h := None)\<rparr>" for w''
      proof (cases "r = 0")
        case True
        then have n: "\<not> (sf = XATTR_CREATE \<and> m nm \<noteq> None)" "\<not> (sf = XATTR_REPLACE \<and> m nm = None)"
          using g(2) by (auto simp: EEXIST_def ENODATA_def split: if_splits)
        then have "V w2 = set_xattrs i (m(nm \<mapsto> v)) (V w1)" using g(2) by metis
        then have "V w'' = set_xattrs i (m(nm \<mapsto> v)) ?v" using w(2) 3 by simp
        from assms(6) [OF xholds_set [OF assms(1,2) i(1) w(1) this] n] show ?thesis using True by simp
      next
        case False
        then have "V w2 = V w1" using g(2) by (auto split: if_splits)
        then have x: "xholds c U X (s\<lparr>kw := w''\<rparr>)" using w 3 by (intro xholds_cong [OF assms(1)]) simp_all
        then show ?thesis using g(2) False assms(7,8) by (auto split: if_splits)
      qed
      have "refs (V w2) h = Some i" using g(2) h(1) by (auto split: if_splits)
      then show ?case using g(1) Q by auto
    qed
  qed simp_all
qed

lemma x_set:
  assumes "xholds c U X s" "X p = Some m" "looks q p" "length v \<le> 65536"
    and "\<And>t. xholds c U (X(p \<mapsto> m(nm \<mapsto> v))) t \<Longrightarrow> Q 0 t"
  shows "wp (xfs_setxattr K q nm v 0) Q s"
  by (rule x_setxattr [OF assms(1-4)]) (use assms(5) in \<open>auto simp: XATTR_CREATE_def XATTR_REPLACE_def\<close>)

lemma x_remove:
  assumes "xholds c U X s" "X p = Some m" "looks q p"
    and "\<And>t v. m nm = Some v \<Longrightarrow> xholds c U (X(p \<mapsto> m(nm := None))) t \<Longrightarrow> Q 0 t"
    and "\<And>t. m nm = None \<Longrightarrow> xholds c U X t \<Longrightarrow> Q (- ENODATA) t"
  shows "wp (xfs_removexattr K q nm) Q s"
proof -
  obtain i where i: "names (V (kw s)) p = Some i" "closed (V (kw s)) i" "i_xattrs (inodes (V (kw s)) i) = m"
    by (rule xholdsE [OF assms(1,2)])
  show ?thesis
    unfolding xfs_removexattr_def
  proof (rule wp_with_looks [OF xholds_ok [OF assms(1)] i(1,2) assms(3)], rule wp_write_access [where i = i], goal_cases)
    case (3 w h w1)
    show ?case
    proof (rule wp_kcallI, goal_cases)
      case (1 r w2)
      have h: "refs (V w1) h = Some i" "i_xattrs (inodes (V w1) i) = m" using 3 i(3) by simp_all
      from removexattr [OF 3(4) h(1), of nm r w2] 1 h(2)
      have g: "ok w2" "if m nm = None then r = - ENODATA \<and> V w2 = V w1
         else r = 0 \<and> V w2 = set_xattrs i (m(nm := None)) (V w1)" by simp_all
      have Q: "Q r (s\<lparr>kw := w''\<rparr>)" if w: "ok w''" "V w'' = (V w2)\<lparr>refs := (refs (V w2))(h := None)\<rparr>" for w''
      proof (cases "m nm")
        case None
        then have "xholds c U X (s\<lparr>kw := w''\<rparr>)" using w 3 g(2) by (intro xholds_cong [OF assms(1)]) simp_all
        then show ?thesis using g(2) None assms(5) by simp
      next
        case (Some v)
        then have "V w'' = set_xattrs i (m(nm := None)) (V (kw s))" using w(2) 3 g(2) by simp
        from assms(4) [OF Some xholds_set [OF assms(1,2) i(1) w(1) this]] show ?thesis using g(2) Some by simp
      qed
      have "refs (V w2) h = Some i" using g(2) h(1) by (auto split: if_splits)
      then show ?case using g(1) Q by auto
    qed
  qed simp_all
qed

text \<open>The same with the table of the file in sight, and tables set and read back in a loop.\<close>

lemma x_set_at:
  assumes "xholds c U (X(p \<mapsto> m)) s" "looks q p" "length v \<le> 65536"
    and "\<And>t. xholds c U (X(p \<mapsto> m(nm \<mapsto> v))) t \<Longrightarrow> Q 0 t"
  shows "wp (xfs_setxattr K q nm v 0) Q s"
  by (rule x_set [where X = "X(p \<mapsto> m)" and p = p and m = m, OF assms(1)]) (simp_all only: assms fun_upd_same fun_upd_upd simp_thms)

lemma x_create_at:
  assumes "xholds c U (X(p \<mapsto> m)) s" "looks q p" "length v \<le> 65536"
    and "m nm = None \<Longrightarrow> (\<And>t. xholds c U (X(p \<mapsto> m(nm \<mapsto> v))) t \<Longrightarrow> Q 0 t)"
    and "m nm \<noteq> None \<Longrightarrow> (\<And>t. xholds c U (X(p \<mapsto> m)) t \<Longrightarrow> Q (- EEXIST) t)"
  shows "wp (xfs_setxattr K q nm v XATTR_CREATE) Q s"
  by (rule x_setxattr [where X = "X(p \<mapsto> m)" and p = p and m = m, OF assms(1)])
    (use assms in \<open>auto simp: XATTR_CREATE_def XATTR_REPLACE_def\<close>)

lemma x_replace_at:
  assumes "xholds c U (X(p \<mapsto> m)) s" "looks q p" "length v \<le> 65536"
    and "m nm \<noteq> None \<Longrightarrow> (\<And>t. xholds c U (X(p \<mapsto> m(nm \<mapsto> v))) t \<Longrightarrow> Q 0 t)"
    and "m nm = None \<Longrightarrow> (\<And>t. xholds c U (X(p \<mapsto> m)) t \<Longrightarrow> Q (- ENODATA) t)"
  shows "wp (xfs_setxattr K q nm v XATTR_REPLACE) Q s"
  by (rule x_setxattr [where X = "X(p \<mapsto> m)" and p = p and m = m, OF assms(1)])
    (use assms in \<open>auto simp: XATTR_CREATE_def XATTR_REPLACE_def\<close>)

lemma x_get_at:
  assumes "xholds c U (X(p \<mapsto> m)) s" "looks q p" "m nm = Some v" "length v \<le> sz"
    and "\<And>t dx. \<lbrakk>xholds c U (X(p \<mapsto> m)) t; dx = v\<rbrakk> \<Longrightarrow> Q (int (length v), dx) t"
  shows "wp (xfs_getxattr K q nm sz) Q s"
  by (rule x_get_some [where X = "X(p \<mapsto> m)" and p = p and m = m and v = v, OF assms(1)]) (simp_all only: assms fun_upd_same fun_upd_upd simp_thms)

lemma x_get_none_at:
  assumes "xholds c U (X(p \<mapsto> m)) s" "looks q p" "m nm = None"
    and "\<And>t dx. xholds c U (X(p \<mapsto> m)) t \<Longrightarrow> Q (- ENODATA, dx) t"
  shows "wp (xfs_getxattr K q nm sz) Q s"
  by (rule x_get_none [where X = "X(p \<mapsto> m)" and p = p and m = m, OF assms(1)]) (simp_all only: assms fun_upd_same fun_upd_upd simp_thms)

lemma x_remove_at:
  assumes "xholds c U (X(p \<mapsto> m)) s" "looks q p" "m nm = Some v"
    and "\<And>t. xholds c U (X(p \<mapsto> m(nm := None))) t \<Longrightarrow> Q 0 t"
  shows "wp (xfs_removexattr K q nm) Q s"
  by (rule x_remove [where X = "X(p \<mapsto> m)" and p = p and m = m, OF assms(1)]) (simp_all only: assms fun_upd_same fun_upd_upd simp_thms option.distinct)

lemma x_list_at:
  assumes "xholds c U (X(p \<mapsto> m)) s" "looks q p" "list_size m \<le> sz" "\<forall>n\<in>dom m. NUL \<notin> set n"
    and "\<And>t dx. \<lbrakk>xholds c U (X(p \<mapsto> m)) t; set (nul_names dx) = dom m; length (nul_names dx) = card (dom m)\<rbrakk> \<Longrightarrow>
           Q (int (list_size m), dx) t"
  shows "wp (xfs_listxattr K q sz) Q s"
proof (rule x_list_names [where X = "X(p \<mapsto> m)" and p = p and m = m, OF assms(1)], goal_cases)
  case (5 t dx ns)
  then show ?case using assms(5) [of t dx] distinct_card [of ns] by metis
qed (rule fun_upd_same assms(2-4))+

lemma x_set_table:
  assumes "xholds c U (X(p \<mapsto> Map.empty)) s" "looks q p" "distinct (map fst kvs)" "\<forall>e\<in>set kvs. length (snd e) \<le> 65536"
    and "\<And>t. xholds c U (X(p \<mapsto> map_of kvs)) t \<Longrightarrow> Q () t"
  shows "wp (for_each kvs (\<lambda>e. must (xfs_setxattr K q (fst e) (snd e) 0))) Q s"
proof (rule wp_for_each [where I = "\<lambda>k. xholds c U (X(p \<mapsto> map_of (take k kvs)))"], goal_cases)
  case (2 k t)
  have n: "map_of (take k kvs) (fst (kvs ! k)) = None"
  proof -
    have "distinct (map fst (take (Suc k) kvs))" using assms(3) by (simp add: distinct_take flip: take_map)
    then show ?thesis using 2(1) by (auto simp: take_Suc_conv_app_nth map_of_eq_None_iff)
  qed
  have e: "map_of (take (Suc k) kvs) = (map_of (take k kvs))(fst (kvs ! k) \<mapsto> snd (kvs ! k))"
    using n by (cases "kvs ! k") (auto simp: take_Suc_conv_app_nth [OF 2(1)] map_add_def fun_eq_iff split: option.splits)
  show ?case
    unfolding wp_must e by (rule x_set_at [OF 2(2) assms(2)]) (use assms(4) 2(1) in auto)
qed (use assms(1,5) in simp_all)

lemma x_get_table:
  assumes "xholds c U (X(p \<mapsto> map_of kvs)) s" "looks q p" "distinct (map fst kvs)" "e \<in> set kvs" "length (snd e) \<le> sz"
    and "\<And>t dx. \<lbrakk>xholds c U (X(p \<mapsto> map_of kvs)) t; dx = snd e\<rbrakk> \<Longrightarrow> Q (int (length (snd e)), dx) t"
  shows "wp (xfs_getxattr K q (fst e) sz) Q s"
  by (rule x_get_at [OF assms(1,2) map_of_is_SomeI [OF assms(3)] assms(5)]) (simp_all add: assms(4,6))

lemma x_for_each:
  assumes "xholds c U X s"
    and "\<And>e t. \<lbrakk>e \<in> set kvs; xholds c U X t\<rbrakk> \<Longrightarrow> wp (body e) (\<lambda>_. xholds c U X) t"
    and "\<And>t. xholds c U X t \<Longrightarrow> Q () t"
  shows "wp (for_each kvs body) Q s"
  by (rule wp_for_each [where I = "\<lambda>_. xholds c U X"]) (use assms in auto)

end

context exported
begin

lemma looks_server: "looks (XFS_EXPORT @ r) (XFS_MNT @ r)"
  using server_path by (auto simp: looks_def)

end

end
