(* ===== verification/Gen020.thy ===== *)
theory Gen020
  imports Xattrs
begin

text \<open>
  \<open>kunit/xfstests/generic/020.c\<close>: fifty attributes with distinct values and one of nearly
  4K; all are read back, listed and removed again, after which the list is empty.
\<close>

definition G020_ROOT :: string where "G020_ROOT = XFS_MNT @ ''/g020''"
definition G020_FILE :: string where "G020_FILE = G020_ROOT @ ''/many''"
definition G020_COUNT :: nat where "G020_COUNT = 50"

definition g020_remove_tree :: "'w kernel \<Rightarrow> (('w, 'z) kst_scheme, unit) prog" where
  "g020_remove_tree K = seq [ignore (xfs_unlink K G020_FILE), ignore (xfs_rmdir K G020_ROOT)]"

definition g020_name :: "nat \<Rightarrow> string" where "g020_name i = ''user.attr'' @ dec02 i"

definition hex08 :: "u32 \<Rightarrow> string" where
  \<comment> \<open>\<open>%08x\<close>\<close>
  "hex08 w = map (\<lambda>k. digit (unat (and (drop_bit (28 - 4 * k) w) 15))) [0..<8]"

definition g020_value :: "nat \<Rightarrow> string" where
  \<comment> \<open>\<open>"value-%02d-%08x", i, i * 2654435761u\<close>; the product is a 32-bit one\<close>
  "g020_value i = ''value-'' @ dec02 i @ ''-'' @ hex08 (of_nat i * 2654435761)"

definition g020_big :: string where
  "g020_big = map (\<lambda>i. char_of (i * 13 + 7)) [0..<3900 :: nat]"

definition fifty_attributes_and_a_big_one :: "'w kernel \<Rightarrow> (('w, 'z) fxs_scheme, unit) prog" where
  "fifty_attributes_and_a_big_one K = seq [
     test_prologue K G020_ROOT ''g020_remove_tree'' (g020_remove_tree K),
     must (xfs_write_new_file K G020_FILE (to_bytes ''m'')),
     bnd (xfs_setxattr K G020_FILE ''user.probe'' ''p'' 0) (\<lambda>err. seq [
       do_if (err = - EOPNOTSUPP) kunit_skip,
       kunit_assert (err = 0)]),
     must (xfs_removexattr K G020_FILE ''user.probe''),
     for_each [0..<G020_COUNT] (\<lambda>i. must (xfs_setxattr K G020_FILE (g020_name i) (g020_value i) 0)),
     for_each [0..<G020_COUNT] (\<lambda>i. bnd (xfs_getxattr K G020_FILE (g020_name i) 64) (\<lambda>(n, val). seq [
       kunit_assert (n = int (length (g020_value i))),
       kunit_assert (take (nat n) val = g020_value i)])),
     must_alloc K 4096,
     must_ret (xfs_listxattr K G020_FILE 4096) (\<lambda>(n, _). n \<ge> int (G020_COUNT * 12)),
     must_alloc2 K 3900 3900,
     must (xfs_setxattr K G020_FILE ''user.big'' g020_big 0),
     bnd (xfs_getxattr K G020_FILE ''user.big'' 3900) (\<lambda>(n, rd). seq [
       kunit_assert (n = 3900),
       kunit_expect (rd = g020_big)]),
     must (xfs_removexattr K G020_FILE ''user.big''),
     for_each [0..<G020_COUNT] (\<lambda>i. must (xfs_removexattr K G020_FILE (g020_name i))),
     expect_ret (xfs_listxattr K G020_FILE 4096) (\<lambda>(n, _). n = 0)]"

definition g020_suite :: "'w kernel \<Rightarrow> ('w, 'z) fxs_scheme suite" where
  "g020_suite K = nfs_suite K ''xfstests/generic/020''
     [(''fifty_attributes_and_a_big_one'', fifty_attributes_and_a_big_one K)]"

section \<open>The table\<close>

definition g020_table :: "(string \<times> string) list" where
  "g020_table = map (\<lambda>i. (g020_name i, g020_value i)) [0..<G020_COUNT]"

lemma length_dec02: "n < 100 \<Longrightarrow> length (dec02 n) = 2"
  by (auto simp: dec02_def dec.simps [of n] dec.simps [of "n div 10"])

lemma g020_lengths: "i < G020_COUNT \<Longrightarrow> length (g020_name i) = 11" "i < G020_COUNT \<Longrightarrow> length (g020_value i) = 17"
  by (simp_all add: g020_name_def g020_value_def hex08_def G020_COUNT_def length_dec02)

lemma g020_distinct: "distinct (map fst g020_table)"
  by (simp add: g020_table_def comp_def distinct_map inj_on_def g020_name_def)

lemma g020_names_dom: "dom (map_of g020_table) = g020_name ` {..<G020_COUNT}"
  by (simp add: g020_table_def dom_map_of_conv_image_fst image_image atLeast0LessThan)

lemma g020_size: "list_size (map_of g020_table) = 600"
proof -
  have "inj_on g020_name {..<G020_COUNT}" by (simp add: inj_on_def g020_name_def)
  then have "list_size (map_of g020_table) = (\<Sum>i<G020_COUNT. length (g020_name i) + 1)"
    unfolding list_size_def g020_names_dom by (simp add: sum.reindex)
  also have "\<dots> = (\<Sum>i<G020_COUNT. 12)" by (intro sum.cong) (simp_all add: g020_lengths)
  finally show ?thesis by (simp add: G020_COUNT_def)
qed

lemma g020_not_big: "g020_name i \<noteq> ''user.big''" "g020_name i \<noteq> ''user.probe''"
  by (simp_all add: g020_name_def)

lemma length_g020_big [simp]: "length g020_big = 3900"
  by (simp add: g020_big_def)

text \<open>What is left when the first \<open>k\<close> names are gone.\<close>

definition g020_left :: "nat \<Rightarrow> string \<rightharpoonup> string" where
  "g020_left k = map_of g020_table |` (- g020_name ` {..<k})"

lemma g020_left_simps:
  "g020_left 0 = map_of g020_table" "g020_left G020_COUNT = Map.empty"
  "k < G020_COUNT \<Longrightarrow> g020_left k (g020_name k) = Some (g020_value k)"
  "(g020_left k)(g020_name k := None) = g020_left (Suc k)"
proof -
  show "g020_left 0 = map_of g020_table" by (simp add: g020_left_def restrict_map_def)
  show "g020_left G020_COUNT = Map.empty"
    using g020_names_dom by (auto simp: g020_left_def restrict_map_def fun_eq_iff domIff)
  show "g020_left k (g020_name k) = Some (g020_value k)" if "k < G020_COUNT"
  proof -
    have "g020_name k \<notin> g020_name ` {..<k}" by (auto simp: g020_name_def)
    moreover have "map_of g020_table (g020_name k) = Some (g020_value k)"
      using that by (intro map_of_is_SomeI [OF g020_distinct]) (auto simp: g020_table_def)
    ultimately show ?thesis by (simp add: g020_left_def)
  qed
  show "(g020_left k)(g020_name k := None) = g020_left (Suc k)"
    by (auto simp: g020_left_def restrict_map_def fun_eq_iff lessThan_Suc)
qed

section \<open>Fifty-one attributes come and go\<close>

context posix_kernel
begin

lemma g020_run_ok:
  assumes "ready V ok G020_ROOT s"
  shows "passes (fifty_attributes_and_a_big_one K) s"
proof -
  let ?T = "map_of g020_table" and ?F = G020_FILE
  have sets: "for_each [0..<G020_COUNT] (\<lambda>i. must (xfs_setxattr K ?F (g020_name i) (g020_value i) 0)) =
    for_each g020_table (\<lambda>e. must (xfs_setxattr K ?F (fst e) (snd e) 0))"
    by (simp add: g020_table_def for_each_map)
  have gets: "for_each [0..<G020_COUNT] (\<lambda>i. bnd (xfs_getxattr K ?F (g020_name i) 64) (\<lambda>(n, val). seq [
       kunit_assert (n = int (length (g020_value i))), kunit_assert (take (nat n) val = g020_value i)])) =
    for_each g020_table (\<lambda>e. bnd (xfs_getxattr K ?F (fst e) 64) (\<lambda>(n, val). seq [
       kunit_assert (n = int (length (snd e))), kunit_assert (take (nat n) val = snd e)]))"
    by (simp add: g020_table_def for_each_map)
  have len: "\<forall>e\<in>set g020_table. length (snd e) \<le> 65536" "\<forall>e\<in>set g020_table. length (snd e) \<le> 64"
    by (auto simp: g020_table_def g020_lengths)
  have nul: "\<forall>n\<in>dom ?T. NUL \<notin> set n"
    by (auto simp: g020_names_dom g020_name_def dec02_def nul_not_dec)
  have big: "?T ''user.big'' = None" using g020_names_dom g020_not_big(1) by (metis domIff imageE)
  have undo: "?T(''user.big'' \<mapsto> g020_big, ''user.big'' := None) = ?T" using big by (simp add: fun_upd_idem)
  have drop: "wp (for_each [0..<G020_COUNT] (\<lambda>i. must (xfs_removexattr K ?F (g020_name i)))) Q t"
    if "xholds c U [?F \<mapsto> ?T] t" "\<And>t. xholds c U [?F \<mapsto> Map.empty] t \<Longrightarrow> Q () t" for c :: "nat \<times> string list \<times> 'b" and U Q t
  proof (rule wp_for_range [where I = "\<lambda>k. xholds c U [?F \<mapsto> g020_left k]"], goal_cases)
    case (3 k u)
    show ?case
      unfolding wp_must
      by (rule x_remove_at [OF 3(3) looks_self g020_left_simps(3) [OF 3(2)]]) (simp add: g020_left_simps(4))
  qed (use that in \<open>simp_all add: g020_left_simps\<close>)
  show ?thesis
    unfolding passes_def fifty_attributes_and_a_big_one_def sets gets
    apply (simp only: wp_steps)
    apply (rule x_prologue [where U = "{?F}", OF assms], simp add: G020_FILE_def)
    apply (erule x_write_new, simp, simp, simp add: size_limit_def)
    apply (intro conjI refl)
    apply (erule x_set_at, rule looks_self, simp, simp only: wp_steps EOPNOTSUPP_def)
    apply (simp only: zero_neq_neg_numeral if_False simp_thms)
    apply (erule x_remove_at, rule looks_self, simp, intro conjI refl, simp only: fun_upd_upd empty_upd_none)
    apply (erule x_set_table [OF _ looks_self g020_distinct len(1)])
    apply (erule x_for_each, simp only: wp_steps)
     apply (erule x_get_table, rule looks_self, rule g020_distinct, assumption, simp add: len(2))
     apply simp
    apply (erule x_alloc)
    apply (erule x_list_at, rule looks_self, simp add: g020_size, rule nul)
    apply (simp only: wp_steps, rule conjI, simp add: g020_size G020_COUNT_def)
    apply (erule x_alloc2)
    apply (erule x_set_at, rule looks_self, simp, intro conjI refl)
    apply (erule x_get_at, rule looks_self, simp, simp)
    apply (simp only: wp_steps length_g020_big, rule conjI, simp, rule wp_kunit_expectI, simp)
    apply (erule x_remove_at, rule looks_self, simp, intro conjI refl, simp only: undo)
    apply (erule drop)
    apply (rule wp_expect_retI, erule x_list_at, rule looks_self, simp, simp, simp only: wp_steps, rule conjI, simp)
    apply (drule xholds_fails, simp)
    done
qed

end

end
