(* ===== verification/Gen023.thy ===== *)
theory Gen023
  imports Trees
begin

text \<open>
  \<open>kunit/xfstests/generic/023.c\<close>: the rename matrix.  Every combination of five kinds of
  source and five kinds of destination, in one directory and across two, against the errno
  the test computes with its own rule; then a directory into its own subtree, and the
  rename between two names of one file.
\<close>

definition G023_ROOT :: string where "G023_ROOT = XFS_MNT @ ''/g023''"

datatype g023_type = G023_NONE | G023_REGU | G023_SYMB | G023_DIRE | G023_TREE

definition g023_types :: "g023_type list" where
  "g023_types = [G023_NONE, G023_REGU, G023_SYMB, G023_DIRE, G023_TREE]"

definition g023_bar_path :: "string \<Rightarrow> string" where "g023_bar_path dir = dir @ ''/bar''"

definition g023_foo :: "byte list" where "g023_foo = to_bytes (''foo'' @ [nl])"

definition g023_setup_one :: "'w kernel \<Rightarrow> string \<Rightarrow> g023_type \<Rightarrow> (('w, 'z) kst_scheme, unit) prog" where
  "g023_setup_one K path t = (case t of
       G023_NONE \<Rightarrow> ret ()
     | G023_REGU \<Rightarrow> must (xfs_write_new_file K path g023_foo)
     | G023_SYMB \<Rightarrow> must (xfs_symlink K ''foo'' path)
     | G023_DIRE \<Rightarrow> must (xfs_mkdir K path)
     | G023_TREE \<Rightarrow> seq [must (xfs_mkdir K path), must (xfs_write_new_file K (g023_bar_path path) g023_foo)])"

definition g023_showtype :: "'w kernel \<Rightarrow> string \<Rightarrow> (('w, 'z) kst_scheme, g023_type) prog" where
  "g023_showtype K path = bnd (xfs_kstat K path) (\<lambda>r. case r of
       Inl e \<Rightarrow> ret G023_NONE
     | Inr st \<Rightarrow>
         if S_ISDIR (st_type st) then bnd (xfs_exists K (g023_bar_path path)) (\<lambda>b. ret (if b then G023_TREE else G023_DIRE))
         else if S_ISLNK (st_type st) then ret G023_SYMB
         else ret G023_REGU)"

definition g023_cleanup_one :: "'w kernel \<Rightarrow> string \<Rightarrow> (('w, 'z) kst_scheme, unit) prog" where
  "g023_cleanup_one K path = bnd (xfs_kstat K path) (\<lambda>r. case r of
       Inl e \<Rightarrow> ret ()
     | Inr st \<Rightarrow>
         if S_ISDIR (st_type st) then seq [
           xfs_settle_fput K,
           expect_ret (xfs_unlink K (g023_bar_path path)) (\<lambda>err. err = 0 \<or> err = - ENOENT),
           expect_ret (xfs_rmdir K path) (\<lambda>err. err = 0)]
         else expect_ret (xfs_unlink K path) (\<lambda>err. err = 0))"

definition g023_expected :: "g023_type \<Rightarrow> g023_type \<Rightarrow> int" where
  "g023_expected stype dtype =
     (let sdir = (stype = G023_DIRE \<or> stype = G023_TREE); ddir = (dtype = G023_DIRE \<or> dtype = G023_TREE) in
      if stype = G023_NONE then - ENOENT
      else if \<not> sdir then (if ddir then - EISDIR else 0)
      else if \<not> ddir \<and> dtype \<noteq> G023_NONE then - ENOTDIR
      else if dtype = G023_TREE then - ENOTEMPTY
      else 0)"

definition g023_moved ::
  "'w kernel \<Rightarrow> string \<Rightarrow> string \<Rightarrow> g023_type \<Rightarrow> (('w, 'z) kst_scheme, unit) prog" where
  \<comment> \<open>after a rename that returned 0; a failed second expectation looks once more for its message\<close>
  "g023_moved K src dst stype = seq [
     expect_ret (g023_showtype K src) (\<lambda>t. t = G023_NONE),
     bnd (g023_showtype K dst) (\<lambda>t.
       if t = stype then ret () else bnd (ignore (g023_showtype K dst)) (\<lambda>_. kunit_fail))]"

definition g023_cell ::
  "'w kernel \<Rightarrow> string \<Rightarrow> string \<Rightarrow> g023_type \<Rightarrow> g023_type \<Rightarrow> (('w, 'z) kst_scheme, unit) prog" where
  "g023_cell K src dst stype dtype = seq [
     g023_setup_one K src stype,
     g023_setup_one K dst dtype,
     bnd (xfs_rename K src dst) (\<lambda>err. seq [
       kunit_expect (err = g023_expected stype dtype),
       do_if (err = 0) (g023_moved K src dst stype)]),
     g023_cleanup_one K src,
     g023_cleanup_one K dst]"

definition g023_run_matrix :: "'w kernel \<Rightarrow> string \<Rightarrow> string \<Rightarrow> (('w, 'z) kst_scheme, unit) prog" where
  "g023_run_matrix K src dst =
     for_each g023_types (\<lambda>stype. for_each g023_types (\<lambda>dtype. g023_cell K src dst stype dtype))"

definition g023_remove_tree :: "'w kernel \<Rightarrow> (('w, 'z) kst_scheme, unit) prog" where
  "g023_remove_tree K = seq [
     ignore (xfs_unlink K (G023_ROOT @ ''/src'')),
     ignore (xfs_unlink K (G023_ROOT @ ''/dst'')),
     ignore (xfs_unlink K (G023_ROOT @ ''/x/src'')),
     ignore (xfs_unlink K (G023_ROOT @ ''/y/dst'')),
     ignore (xfs_rmdir K (G023_ROOT @ ''/x'')),
     ignore (xfs_rmdir K (G023_ROOT @ ''/y'')),
     ignore (xfs_unlink K (G023_ROOT @ ''/d1/sub'')),
     ignore (xfs_rmdir K (G023_ROOT @ ''/d1/sub'')),
     ignore (xfs_rmdir K (G023_ROOT @ ''/d1'')),
     ignore (xfs_unlink K (G023_ROOT @ ''/h1'')),
     ignore (xfs_unlink K (G023_ROOT @ ''/h2'')),
     ignore (xfs_rmdir K G023_ROOT)]"

definition rename_covers_the_posix_errno_matrix :: "'w kernel \<Rightarrow> (('w, 'z) fxs_scheme, unit) prog" where
  "rename_covers_the_posix_errno_matrix K = seq [
     test_prologue K G023_ROOT ''g023_remove_tree'' (g023_remove_tree K),
     g023_run_matrix K (G023_ROOT @ ''/src'') (G023_ROOT @ ''/dst''),
     must (xfs_mkdir K (G023_ROOT @ ''/x'')),
     must (xfs_mkdir K (G023_ROOT @ ''/y'')),
     g023_run_matrix K (G023_ROOT @ ''/x/src'') (G023_ROOT @ ''/y/dst''),
     must (xfs_mkdir K (G023_ROOT @ ''/d1'')),
     must (xfs_mkdir K (G023_ROOT @ ''/d1/sub'')),
     expect_ret (xfs_rename K (G023_ROOT @ ''/d1'') (G023_ROOT @ ''/d1/sub/d1'')) (\<lambda>err. err = - EINVAL),
     must (xfs_rmdir K (G023_ROOT @ ''/d1/sub'')),
     must (xfs_rmdir K (G023_ROOT @ ''/d1'')),
     must (xfs_write_new_file K (G023_ROOT @ ''/h1'') (to_bytes ''h'')),
     must (xfs_link K (G023_ROOT @ ''/h1'') (G023_ROOT @ ''/h2'')),
     expect_ret (xfs_rename K (G023_ROOT @ ''/h1'') (G023_ROOT @ ''/h2'')) (\<lambda>err. err = 0),
     bnd (xfs_exists K (G023_ROOT @ ''/h1'')) (\<lambda>a.
       bnd (if a then xfs_exists K (G023_ROOT @ ''/h2'') else ret False) kunit_expect),
     bnd (xfs_read_range K (G023_ROOT @ ''/h1'') 1 0) (\<lambda>(n, c). seq [
       kunit_assert (n = 1),
       kunit_expect (c = to_bytes ''h'')])]"

definition g023_suite :: "'w kernel \<Rightarrow> ('w, 'z) fxs_scheme suite" where
  "g023_suite K = nfs_suite K ''xfstests/generic/023''
     [(''rename_covers_the_posix_errno_matrix'', rename_covers_the_posix_errno_matrix K)]"

section \<open>The places of a cell\<close>

text \<open>The nodes a set-up adds to a tree, and a tree in which a place is free.\<close>

fun g023_part :: "string \<Rightarrow> g023_type \<Rightarrow> dtree \<Rightarrow> bool" where
  "g023_part p G023_NONE m = (m = Map.empty)"
| "g023_part p G023_REGU m = (\<exists>i d. m = [p \<mapsto> Reg i d])"
| "g023_part p G023_SYMB m = (\<exists>i g. m = [p \<mapsto> Lnk i g])"
| "g023_part p G023_DIRE m = (\<exists>i. m = [p \<mapsto> Dir i])"
| "g023_part p G023_TREE m = (\<exists>i j d. m = [p \<mapsto> Dir i, g023_bar_path p \<mapsto> Reg j d])"

definition g023_free :: "dtree \<Rightarrow> string \<Rightarrow> bool" where
  "g023_free T p = (t_dir T (dirname p) \<and> (\<forall>r\<in>dom T. r \<noteq> p \<and> \<not> beneath p r \<and> dirname r \<noteq> p))"

lemma g023_bar [simp]:
  "dirname (g023_bar_path p) = p" "g023_bar_path p \<noteq> p" "beneath p (g023_bar_path p)"
  "g023_bar_path p = g023_bar_path q \<longleftrightarrow> p = q" "p \<noteq> g023_bar_path p"
  using dirname_comp [of "''bar''" p] beneath_comp [of p "''bar''"] by (simp_all add: g023_bar_path_def)

lemma g023_freeD:
  "g023_free T p \<Longrightarrow> T p = None" "g023_free T p \<Longrightarrow> beneath p r \<Longrightarrow> T r = None"
  "g023_free T p \<Longrightarrow> T (g023_bar_path p) = None"
  "g023_free T p \<Longrightarrow> t_dir T (dirname p)"
  using g023_bar(3) [of p] by (auto simp: g023_free_def dom_def)

lemma g023_part_None: "\<lbrakk>g023_part p t m; q \<noteq> p; q \<noteq> g023_bar_path p\<rbrakk> \<Longrightarrow> m q = None"
  by (cases t) auto

lemma g023_part_in: "g023_part p t m \<Longrightarrow> m q \<noteq> None \<Longrightarrow> q = p \<or> q = g023_bar_path p"
  by (metis g023_part_None)

lemma g023_part_top: "g023_part p t m \<Longrightarrow> m p = None \<longleftrightarrow> t = G023_NONE"
  by (cases t) auto

text \<open>Parts of different places do not meet.\<close>

definition g023_pair :: "dtree \<Rightarrow> string \<Rightarrow> string \<Rightarrow> bool" where
  "g023_pair B src dst = (g023_free B src \<and> g023_free B dst \<and> src \<noteq> dst \<and> \<not> beneath src dst \<and> \<not> beneath dst src)"

lemma g023_pairD:
  assumes "g023_pair B src dst"
  shows "dirname src \<noteq> src" "dirname src \<noteq> dst" "dirname dst \<noteq> src" "dirname dst \<noteq> dst"
    "g023_bar_path src \<noteq> dst" "g023_bar_path dst \<noteq> src" "src \<noteq> dst"
proof -
  have "t_dir B (dirname src)" "t_dir B (dirname dst)" "B src = None" "B dst = None"
    using assms g023_freeD(1,4) by (auto simp: g023_pair_def)
  then show "dirname src \<noteq> src" "dirname src \<noteq> dst" "dirname dst \<noteq> src" "dirname dst \<noteq> dst"
    by (auto simp: t_dir_def)
  show "g023_bar_path src \<noteq> dst" "g023_bar_path dst \<noteq> src" "src \<noteq> dst"
    using assms g023_bar(3) by (auto simp: g023_pair_def)
qed

lemma g023_free_add:
  assumes "g023_pair B src dst" "g023_part src s m"
  shows "g023_free (B ++ m) dst"
proof -
  note d = g023_pairD [OF assms(1)]
  have f: "g023_free B src" "g023_free B dst" "\<not> beneath src dst" "\<not> beneath dst src" using assms(1) by (auto simp: g023_pair_def)
  have no: "\<not> beneath dst (g023_bar_path src)"
  proof
    assume "beneath dst (g023_bar_path src)"
    then have "dst = src \<or> beneath dst src" using dirname_beneath by force
    then show False using d f by blast
  qed
  have "m (dirname dst) = None"
  proof (rule g023_part_None [OF assms(2) d(3)])
    obtain i where "B (dirname dst) = Some (Dir i)" using g023_freeD(4) [OF f(2)] by (auto simp: t_dir_def)
    then show "dirname dst \<noteq> g023_bar_path src" using g023_freeD(3) [OF f(1)] by auto
  qed
  then have "t_dir (B ++ m) (dirname dst)" using g023_freeD(4) [OF f(2)] by (auto simp: t_dir_def map_add_def)
  moreover have "r \<noteq> dst \<and> \<not> beneath dst r \<and> dirname r \<noteq> dst" if r: "r \<in> dom (B ++ m)" for r
  proof (cases "m r")
    case None
    then show ?thesis using r f(2) by (auto simp: g023_free_def)
  next
    case (Some n)
    then have "r = src \<or> r = g023_bar_path src" using g023_part_in [OF assms(2)] by blast
    then show ?thesis using no d f by auto
  qed
  ultimately show ?thesis by (simp add: g023_free_def)
qed

lemma g023_free_self:
  assumes "g023_free B p" "g023_part p t m"
  shows "t_dir (B ++ m) (dirname p)"
proof -
  obtain i where B: "B (dirname p) = Some (Dir i)" using g023_freeD(4) [OF assms(1)] by (auto simp: t_dir_def)
  then have "dirname p \<noteq> p" "dirname p \<noteq> g023_bar_path p"
    using g023_freeD(1,3) [OF assms(1)] by auto
  then have "m (dirname p) = None" by (rule g023_part_None [OF assms(2)])
  with B show ?thesis by (simp add: t_dir_def map_add_def)
qed

lemma g023_pair_sym: "g023_pair B src dst \<Longrightarrow> g023_pair B dst src"
  by (auto simp: g023_pair_def)

lemma g023_parts_swap:
  assumes "g023_pair B src dst" "g023_part src s ms" "g023_part dst d md"
  shows "B ++ ms ++ md = B ++ md ++ ms"
proof -
  have "dom ms \<inter> dom md = {}"
    using g023_part_in [OF assms(2)] g023_part_in [OF assms(3)] g023_pairD [OF assms(1)] g023_bar(4) by (fastforce simp: dom_def)
  then show ?thesis by (metis map_add_assoc map_add_comm)
qed

lemma g023_move:
  assumes "g023_pair B src dst" "g023_part src s ms" "dom md \<subseteq> {dst}" "s = G023_DIRE \<or> s = G023_TREE"
  shows "\<exists>m'. g023_part dst s m' \<and> move_names src dst (B ++ ms ++ md) = B ++ m'"
proof -
  note d = g023_pairD [OF assms(1)]
  have f: "g023_free B src" "g023_free B dst" "\<not> beneath src dst" "\<not> beneath dst src" using assms(1) by (auto simp: g023_pair_def)
  have "move_names src dst (B ++ ms ++ md) = B ++ move_names src dst ms"
  proof
    fix r
    have md: "md r' = None" if "r' \<noteq> dst" for r' using assms(3) that by auto
    have ms: "ms r' = None" if "r' \<noteq> src" "\<not> beneath src r'" for r'
      using g023_part_None [OF assms(2) that(1)] that(2) by (cases "r' = g023_bar_path src") auto
    consider "r = dst" | b where "r = dst @ CHR ''/'' # b" | "r \<noteq> dst" "\<not> beneath dst r" "r = src \<or> beneath src r"
      | "r \<noteq> dst" "\<not> beneath dst r" "r \<noteq> src" "\<not> beneath src r"
      using beneathE by blast
    then show "move_names src dst (B ++ ms ++ md) r = (B ++ move_names src dst ms) r"
    proof cases
      case 1
      then show ?thesis
        using md [OF d(7)] f(1,2) [THEN g023_freeD(1)] by (simp add: map_add_def split: option.splits)
    next
      case (2 b)
      have "B (src @ CHR ''/'' # b) = None" "B (dst @ CHR ''/'' # b) = None"
        by (rule g023_freeD(2) [OF f(1) beneath_comp], rule g023_freeD(2) [OF f(2) beneath_comp])
      moreover have "md (src @ CHR ''/'' # b) = None" by (rule md) (use f(3) in auto)
      ultimately show ?thesis by (simp add: 2 map_add_def split: option.splits)
    next
      case 3
      then have "B r = None" using g023_freeD(1,2) [OF f(1)] by blast
      then show ?thesis using 3 by (simp add: move_away map_add_def)
    next
      case 4
      then show ?thesis using md ms by (simp add: move_other map_add_def)
    qed
  qed
  moreover have "g023_part dst s (move_names src dst ms)"
    using assms(2,4) by (auto simp: g023_bar_path_def move_upd [OF d(7) f(4)]; blast)
  ultimately show ?thesis by blast
qed

text \<open>The rename of the matrix: the errno of the test's own rule, and the source's part in the new place.\<close>

lemma g023_rename:
  assumes "g023_pair B src dst" "g023_part src s ms" "g023_part dst d md" "\<And>n m. n \<in> ran md \<Longrightarrow> m \<in> ran ms \<Longrightarrow> ino n \<noteq> ino m"
    and "T = B ++ ms ++ md"
  shows "\<exists>T'. t_rename src dst T = (g023_expected s d, T') \<and>
    (if g023_expected s d = 0 then \<exists>m. g023_part dst s m \<and> T' = B ++ m else T' = T)"
proof -
  note p = g023_pairD [OF assms(1)]
  have f: "g023_free B src" "g023_free B dst" "\<not> beneath src dst" "\<not> beneath dst src" using assms(1) by (auto simp: g023_pair_def)
  have md: "md src = None" using g023_part_None [OF assms(3) p(7)] p(6) by metis
  have ms: "ms dst = None" using g023_part_None [OF assms(2), of dst] p(5,7) by metis
  have Ts: "T src = ms src" and Td: "T dst = md dst"
    using md ms f(1,2) [THEN g023_freeD(1)] by (auto simp: assms(5) map_add_def split: option.splits)
  consider (none) "s = G023_NONE" | (leaf) "s = G023_REGU \<or> s = G023_SYMB" | (dir) "s = G023_DIRE \<or> s = G023_TREE"
    by (cases s) auto
  then show ?thesis
  proof cases
    case none
    then show ?thesis using assms(2) Ts by (simp add: t_rename_def g023_expected_def errno_defs)
  next
    case leaf
    then have "\<exists>n. ms = [src \<mapsto> n] \<and> ntype n \<noteq> S_DIR \<and> (\<forall>r. g023_part r s [r \<mapsto> n])"
    proof
      assume s: "s = G023_REGU"
      then obtain i d where "ms = [src \<mapsto> Reg i d]" using assms(2) by auto
      then show ?thesis using s by (intro exI [of _ "Reg i d"]) auto
    next
      assume s: "s = G023_SYMB"
      then obtain i g where "ms = [src \<mapsto> Lnk i g]" using assms(2) by auto
      then show ?thesis using s by (intro exI [of _ "Lnk i g"]) auto
    qed
    then obtain n where n: "ms = [src \<mapsto> n]" "ntype n \<noteq> S_DIR" "\<And>r. g023_part r s [r \<mapsto> n]" by blast
    have Tn: "T src = Some n" using Ts n(1) by simp
    show ?thesis
    proof (cases "md dst")
      case None
      then have "d = G023_NONE" "md = Map.empty" using g023_part_top [OF assms(3)] assms(3) by auto
      moreover have "T(src := None, dst \<mapsto> n) = B ++ [dst \<mapsto> n]"
        using f(1) [THEN g023_freeD(1)] by (auto simp: assms(5) n(1) calculation fun_eq_iff)
      ultimately show ?thesis
        using n(3) [of dst] leaf Td None by (auto simp: t_rename_leaf [of T, OF Tn n(2)] g023_expected_def errno_defs)
    next
      case (Some m)
      show ?thesis
      proof (cases "ntype m = S_DIR")
        case True
        then have "d = G023_DIRE \<or> d = G023_TREE" using assms(3) Some by (cases d) auto
        then show ?thesis
          using leaf Td Some True by (auto simp: t_rename_leaf [of T, OF Tn n(2)] g023_expected_def errno_defs)
      next
        case False
        then have d1: "d = G023_REGU \<or> d = G023_SYMB" using assms(3) Some by (cases d) auto
        then obtain m' where "md = [dst \<mapsto> m']" using assms(3) by auto
        then have d2: "md = [dst \<mapsto> m]" using Some by simp
        have "ino m \<noteq> ino n" using assms(4) [of m n] n(1) d2 by simp
        moreover have "T(src := None, dst \<mapsto> n) = B ++ [dst \<mapsto> n]"
          using f(1) [THEN g023_freeD(1)] by (auto simp: assms(5) n(1) d2 fun_eq_iff)
        ultimately show ?thesis
          using n(3) [of dst] leaf Td Some False d1 by (auto simp: t_rename_leaf [of T, OF Tn n(2)] g023_expected_def errno_defs)
      qed
    qed
  next
    case dir
    then obtain i where i: "T src = Some (Dir i)" using assms(2) Ts by auto
    show ?thesis
    proof (cases "d = G023_NONE \<or> d = G023_DIRE")
      case True
      then have m: "dom md \<subseteq> {dst}" using assms(3) by (auto split: if_splits)
      have "t_empty T dst"
        unfolding t_empty_def
      proof
        fix r assume "r \<in> dom T"
        then consider "B r \<noteq> None" | "r = src \<or> r = g023_bar_path src" | "r = dst"
          using m g023_part_in [OF assms(2), of r] by (auto simp: assms(5))
        then show "dirname r \<noteq> dst" by cases (use f(2) p in \<open>auto simp: g023_free_def dom_def\<close>)
      qed
      moreover have "T dst = None \<or> (\<exists>j. T dst = Some (Dir j))" using Td True assms(3) by auto
      ultimately show ?thesis
        using g023_move [OF assms(1,2) m dir] i dir True p(7) f(3)
        by (auto simp: t_rename_def g023_expected_def assms(5) [symmetric])
    next
      case False
      then show ?thesis
      proof (cases "d = G023_TREE")
        case True
        then obtain j x where "md dst = Some (Dir j)" "md (g023_bar_path dst) = Some x" using assms(3) by auto
        then have "T dst = Some (Dir j)" "\<not> t_empty T dst"
          using Td by (auto simp: t_empty_def assms(5) intro!: bexI [of _ "g023_bar_path dst"])
        then show ?thesis using True i dir p(7) f(3) by (auto simp: t_rename_def g023_expected_def errno_defs)
      next
        case leaf: False
        then obtain m where "T dst = Some m" "ntype m \<noteq> S_DIR" "d = G023_REGU \<or> d = G023_SYMB"
          using assms(3) Td False by (cases d) auto
        then show ?thesis using i dir p(7) f(3) by (cases m) (auto simp: t_rename_def g023_expected_def errno_defs)
      qed
    qed
  qed
qed

section \<open>The cell in the kernel\<close>

context tree_kernel
begin

lemma g023_setup_ok:
  assumes "tholds c root B s" "g023_free B p"
    and "\<And>t m. \<lbrakk>tholds c root (B ++ m) t; g023_part p ty m; \<And>n. n \<in> ran m \<Longrightarrow> new_ino B (ino n)\<rbrakk> \<Longrightarrow> Q () t"
  shows "wp (g023_setup_one K p ty) Q s"
proof (cases ty)
  case G023_NONE
  show ?thesis using assms(3) [of Map.empty s] assms(1) by (simp add: g023_setup_one_def G023_NONE)
next
  case G023_REGU
  show ?thesis
    unfolding g023_setup_one_def G023_REGU g023_type.case wp_must
  proof (rule t_write_new [OF assms(1) g023_freeD(1,4) [OF assms(2)]], simp add: g023_foo_def size_limit_def, goal_cases)
    case (1 t i)
    with assms(3) [of "[p \<mapsto> Reg i g023_foo]" t] show ?case by (simp add: G023_REGU) blast
  qed
next
  case G023_SYMB
  show ?thesis
    unfolding g023_setup_one_def G023_SYMB g023_type.case wp_must
  proof (rule t_symlink [OF assms(1) g023_freeD(1,4) [OF assms(2)]], goal_cases)
    case (1 t i)
    with assms(3) [of "[p \<mapsto> Lnk i ''foo'']" t] show ?case by (simp add: G023_SYMB) blast
  qed
next
  case G023_DIRE
  show ?thesis
    unfolding g023_setup_one_def G023_DIRE g023_type.case wp_must
  proof (rule t_mkdir [OF assms(1) g023_freeD(1,4) [OF assms(2)]], goal_cases)
    case (1 t i)
    with assms(3) [of "[p \<mapsto> Dir i]" t] show ?case by (simp add: G023_DIRE) blast
  qed
next
  case G023_TREE
  show ?thesis
    unfolding g023_setup_one_def G023_TREE g023_type.case wp_must wp_seq_Cons wp_seq_Nil
  proof (rule t_mkdir [OF assms(1) g023_freeD(1,4) [OF assms(2)]], intro conjI refl, goal_cases)
    case (1 t i)
    show ?case
    proof (rule t_write_new [OF 1(1)], goal_cases)
      case (4 u j)
      have "new_ino B j" using 4(2) g023_freeD(1) [OF assms(2)] by (simp add: new_ino_upd)
      with 1(2) have "new_ino B (ino n)" if "n \<in> ran [p \<mapsto> Dir i, g023_bar_path p \<mapsto> Reg j g023_foo]" for n
        using that by (auto simp: ran_def split: if_splits)
      then show ?case using assms(3) [of "[p \<mapsto> Dir i, g023_bar_path p \<mapsto> Reg j g023_foo]" u] 4(1) by (auto simp: G023_TREE)
    qed (use g023_freeD(3) [OF assms(2)] in \<open>auto simp: t_dir_def g023_foo_def size_limit_def\<close>)
  qed
qed

lemma g023_showtype_ok:
  assumes "tholds c root (B ++ m) s" "g023_free B p" "g023_part p ty m" and "\<And>t. tholds c root (B ++ m) t \<Longrightarrow> Q ty t"
  shows "wp (g023_showtype K p) Q s"
proof (cases "m p")
  case None
  then have "ty = G023_NONE" "m = Map.empty" using g023_part_top [OF assms(3)] assms(3) by auto
  then show ?thesis
    unfolding g023_showtype_def wp_bnd
    by (intro t_stat_absent [OF assms(1)]) (use g023_freeD [OF assms(2)] assms(4) in auto)
next
  case (Some n)
  then have T: "(B ++ m) p = Some n" by simp
  show ?thesis
    unfolding g023_showtype_def wp_bnd
  proof (rule t_stat [OF assms(1) T], goal_cases)
    case (1 t st)
    show ?case
    proof (cases "ntype n = S_DIR")
      case True
      then have ty: "ty = G023_DIRE \<or> ty = G023_TREE" using assms(3) Some by (cases ty) auto
      have "t_dir (B ++ m) p" using T True by (cases n) (auto simp: t_dir_def)
      moreover have "(B ++ m) (g023_bar_path p) \<noteq> None \<longleftrightarrow> ty = G023_TREE"
        using ty assms(3) g023_freeD(3) [OF assms(2)] by (auto simp: map_add_def)
      ultimately have "wp (xfs_exists K (g023_bar_path p)) (\<lambda>b. Q (if b then G023_TREE else G023_DIRE)) t"
        using ty assms(4) by (intro t_exists [OF 1(1)]) (simp, auto simp del: map_add_eq_empty_iff)
      then show ?thesis using 1(2) True by simp
    next
      case False
      then show ?thesis
        using 1 assms(3,4) Some by (cases ty) auto
    qed
  qed
qed

lemma g023_cleanup_ok:
  assumes "tholds c root (B ++ m) s" "g023_free B p" "g023_part p ty m" and "\<And>t. tholds c root B t \<Longrightarrow> Q () t"
  shows "wp (g023_cleanup_one K p) Q s"
proof (cases "m p")
  case None
  then have "ty = G023_NONE" "m = Map.empty" using g023_part_top [OF assms(3)] assms(3) by auto
  then show ?thesis
    unfolding g023_cleanup_one_def wp_bnd
    by (intro t_stat_absent [OF assms(1)]) (use g023_freeD [OF assms(2)] assms(4) in auto)
next
  case (Some n)
  then have T: "(B ++ m) p = Some n" by simp
  have B: "B p = None" "B (g023_bar_path p) = None" using g023_freeD(1,3) [OF assms(2)] .
  show ?thesis
    unfolding g023_cleanup_one_def wp_bnd
  proof (rule t_stat [OF assms(1) T], goal_cases)
    case (1 t st)
    show ?case
    proof (cases "ntype n = S_DIR")
      case True
      then obtain i where i: "n = Dir i" by (cases n) auto
      have rm: "wp (expect_ret (xfs_rmdir K p) (\<lambda>err. err = 0)) (\<lambda>_. Q ()) u" if "tholds c root (B(p \<mapsto> Dir i)) u" for u
      proof (rule wp_expect_retI, rule t_rmdir [OF that], goal_cases)
        case 2
        have "t_dir (B(p \<mapsto> Dir i)) (dirname p)" using g023_freeD(4) [OF assms(2)] B(1) by (auto simp: t_dir_def)
        from tree_beneath [OF tholdsD(1) [OF that] this] show ?case by auto
      next
        case 3
        have "dirname p \<noteq> p" using g023_freeD(4) [OF assms(2)] B(1) by (auto simp: t_dir_def)
        then show ?case using assms(2) by (auto simp: t_empty_def g023_free_def)
      next
        case (4 v)
        then show ?case using assms(4) [of v] B(1) by (simp add: fun_upd_idem)
      qed (simp add: t_dir_def)
      note rm = rm [unfolded unit_abs_eta_conv]
      have "wp (expect_ret (xfs_unlink K (g023_bar_path p)) (\<lambda>err. err = 0 \<or> err = - ENOENT))
          (\<lambda>_. wp (expect_ret (xfs_rmdir K p) (\<lambda>err. err = 0)) (\<lambda>_. Q ())) u" if u: "tholds c root (B ++ m) u" for u
      proof (cases "ty = G023_TREE")
        case True
        then obtain j d where m: "m = [p \<mapsto> Dir i, g023_bar_path p \<mapsto> Reg j d]" using assms(3) Some i by auto
        show ?thesis
          by (rule wp_expect_retI, rule t_unlink [OF u, where n = "Reg j d"])
            (use B(2) in \<open>simp_all add: m fun_upd_twist fun_upd_idem rm del: wp_expect_ret\<close>)
      next
        case False
        then have m: "m = [p \<mapsto> Dir i]" using assms(3) Some i by (cases ty) auto
        show ?thesis
          by (rule wp_expect_retI, rule t_unlink_absent [OF u]) (use B(2) in \<open>simp_all add: m t_dir_def rm del: wp_expect_ret\<close>)
      qed
      then show ?thesis
        unfolding sum.case 1(2) True simp_thms if_True wp_seq_Cons wp_seq_Nil xfs_settle_fput_def
        by (intro t_settle [OF 1(1)])
    next
      case False
      then have m: "m = [p \<mapsto> n]" using assms(3) Some by (cases ty) auto
      have "(B ++ m)(p := None) = B" using B(1) by (auto simp: m fun_eq_iff)
      then have "wp (expect_ret (xfs_unlink K p) (\<lambda>err. err = 0)) Q t"
        by (intro wp_expect_retI t_unlink [OF 1(1) T False]) (use assms(4) in simp)
      then show ?thesis using 1(2) False by (cases n) auto
    qed
  qed
qed

lemma g023_cell_ok:
  assumes "tholds c root B s" "g023_pair B src dst" and "\<And>t. tholds c root B t \<Longrightarrow> Q () t"
  shows "wp (g023_cell K src dst st dt) Q s"
proof -
  have f: "g023_free B src" "g023_free B dst" "\<not> beneath dst src" using assms(2) by (auto simp: g023_pair_def)
  have free: "g023_free (B ++ m) dst" if "g023_part src t m" for t m by (rule g023_free_add [OF assms(2) that])
  have free': "g023_free (B ++ m) src" if "g023_part dst t m" for t m
    by (rule g023_free_add [OF g023_pair_sym [OF assms(2)] that])
  show ?thesis
    unfolding g023_cell_def wp_seq_Cons wp_seq_Nil
  proof (rule g023_setup_ok [OF assms(1) f(1)], rule g023_setup_ok, assumption, erule free, goal_cases)
    case (1 t ms u md)
    let ?T = "B ++ ms ++ md"
    have swap: "?T = B ++ md ++ ms" by (rule g023_parts_swap [OF assms(2) 1(2,5)])
    have ne: "ino n \<noteq> ino m" if "n \<in> ran md" "m \<in> ran ms" for n m
    proof -
      have "new_ino (B ++ ms) (ino n)" using 1(6) that(1) .
      moreover have "m \<in> ran (B ++ ms)" using that(2) by (auto simp: ran_def map_add_Some_iff)
      ultimately show ?thesis by (auto simp: new_ino_def)
    qed
    obtain T' where T': "t_rename src dst ?T = (g023_expected st dt, T')"
      "if g023_expected st dt = 0 then \<exists>m. g023_part dst st m \<and> T' = B ++ m else T' = ?T"
      using g023_rename [OF assms(2) 1(2,5) ne refl] by blast
    have dirs: "t_dir ?T (dirname src)" "t_dir ?T (dirname dst)"
      using g023_free_self [OF free' [OF 1(5)] 1(2)] g023_free_self [OF free [OF 1(2)] 1(5)] swap by simp_all
    have clean: "wp (g023_cleanup_one K src) (\<lambda>_. wp (g023_cleanup_one K dst) (\<lambda>_. Q ())) v"
      if "tholds c root (B ++ d ++ m) v" "g023_part src a m" "g023_part dst b d" for v a b m d
      by (rule g023_cleanup_ok [OF that(1) free' [OF that(3)] that(2)],
          rule g023_cleanup_ok [OF _ f(2) that(3)], assumption, rule assms(3))
    show ?case
      unfolding wp_bnd
    proof (rule t_rename_ok [OF 1(4) dirs f(3) T'(1)], unfold wp_seq_Cons wp_seq_Nil, rule wp_kunit_expectI, rule refl, goal_cases)
      case (1 v)
      show ?case
      proof (cases "g023_expected st dt = 0")
        case True
        then obtain m where m: "g023_part dst st m" "T' = B ++ m" using T'(2) by auto
        have none: "g023_part src G023_NONE Map.empty" by simp
        show ?thesis
          unfolding True wp_do_if simp_thms if_True g023_moved_def wp_seq_Cons wp_seq_Nil
        proof (rule wp_expect_retI, rule g023_showtype_ok [OF _ free' [OF m(1)] none], use 1 m(2) in simp, intro conjI refl, goal_cases)
          case (1 x)
          show ?case
            unfolding wp_bnd
            by (rule g023_showtype_ok [OF _ f(2) m(1)], use 1 in simp)
              (simp only: simp_thms if_True wp_ret, rule clean [OF _ none m(1)], simp)
        qed
      next
        case False
        then show ?thesis
          using 1 T'(2) clean [OF _ \<open>g023_part src st ms\<close> \<open>g023_part dst dt md\<close>] swap by (simp add: wp_do_if)
      qed
    qed
  qed
qed

lemma g023_matrix_ok:
  assumes "tholds c root B s" "g023_pair B src dst" and "\<And>t. tholds c root B t \<Longrightarrow> Q () t"
  shows "wp (g023_run_matrix K src dst) Q s"
  unfolding g023_run_matrix_def
proof (rule wp_for_each [where I = "\<lambda>_. tholds c root B"], goal_cases)
  case (2 i t)
  then show ?case
    by (intro wp_for_each [where I = "\<lambda>_. tholds c root B"] g023_cell_ok [OF _ assms(2)])
qed (use assms in auto)

lemma g023_run_ok:
  assumes "ready V ok G023_ROOT s"
  shows "passes (rename_covers_the_posix_errno_matrix K) s"
proof -
  note ev = G023_ROOT_def XFS_MNT_def beneath_def dirname_def t_dir_def
  show ?thesis
    unfolding passes_def rename_covers_the_posix_errno_matrix_def
    apply (simp only: wp_steps)
    apply (rule t_prologue [OF assms], simp add: ev)
    apply (erule g023_matrix_ok, simp add: g023_pair_def g023_free_def ev)
    apply (erule t_mkdir, simp add: ev, simp add: ev, intro conjI refl)
    apply (erule t_mkdir, simp add: ev, simp add: ev, intro conjI refl)
    apply (erule g023_matrix_ok, simp add: g023_pair_def g023_free_def ev)
    apply (erule t_mkdir, simp add: ev, simp add: ev, intro conjI refl)
    apply (erule t_mkdir, simp add: ev, simp add: ev, intro conjI refl)
    apply (rule wp_expect_retI)
    apply (erule t_rename_ok [where e = "- EINVAL"], simp add: ev, simp add: ev, simp add: ev, simp add: t_rename_def ev, intro conjI refl)
    apply (erule t_rmdir, simp add: ev, simp add: ev, simp add: t_empty_def ev, intro conjI refl)
    apply (erule t_rmdir, simp add: ev, simp add: ev, simp add: t_empty_def ev, intro conjI refl)
    apply (erule t_write_new, simp add: ev, simp add: ev, simp add: size_limit_def, intro conjI refl)
    apply (erule t_link, simp add: ev, simp, simp add: ev, simp add: ev, intro conjI refl)
    apply (rule wp_expect_retI)
    apply (erule t_rename_ok [where e = 0], simp add: ev, simp add: ev, simp add: ev, simp add: t_rename_def ev, intro conjI refl)
    apply (erule t_there, simp add: ev, simp only: if_True)
    apply (erule t_there, simp add: ev)
    apply (rule wp_kunit_expectI, rule TrueI)
    apply (erule t_read_range, simp add: ev, simp, simp add: size_limit_def, simp only: wp_steps)
    apply (intro conjI, simp, rule wp_kunit_expectI, simp add: read_at_def to_bytes_def, drule tholds_fails, simp)
    done
qed

end

section \<open>Properties\<close>

text \<open>
  C6: the rename matrix.  On every kernel whose rename, unlink and rmdir do with directories
  what POSIX says, all fifty cells return the errno of the test's own rule, a rename that
  succeeds carries the source's kind to the destination and leaves no source, every cell
  is cleaned up again, a directory cannot move below itself, and the rename between two
  names of one file keeps both.
\<close>

theorem rename_matrix_passes:
  assumes "tree_kernel K V ok" and "ready V ok G023_ROOT s"
  shows "passes (rename_covers_the_posix_errno_matrix K) s"
  by (rule tree_kernel.g023_run_ok [OF assms])

theorem rename_matrix_passes_witness: "passes (rename_covers_the_posix_errno_matrix memk) (fx0 ())"
  by (rule rename_matrix_passes [OF trees.tree_kernel_axioms]) (simp add: G023_ROOT_def fx0_ready)

end
