(* ===== verification/Gen069.thy ===== *)
theory Gen069
  imports Files
begin

text \<open>
  \<open>kunit/xfstests/generic/069.c\<close>: five hundred O_APPEND writes of varying length, each
  through an open of its own; the size is their sum and every chunk is where the sum of
  the lengths before it says.
\<close>

unbundle bit_operations_syntax

definition G069_ROOT :: string where "G069_ROOT = XFS_MNT @ ''/g069''"
definition G069_F :: string where "G069_F = G069_ROOT @ ''/f''"
definition G069_APPENDS :: nat where "G069_APPENDS = 500"

definition g069_len :: "nat \<Rightarrow> u32" where
  "g069_len i = (of_nat i * 2654435761) mod 2048 + 1"

definition g069_remove_tree :: "'w kernel \<Rightarrow> (('w, 'z) kst_scheme, unit) prog" where
  "g069_remove_tree K = seq [ignore (xfs_unlink K G069_F), ignore (xfs_rmdir K G069_ROOT)]"

definition g069_chunk :: "nat \<Rightarrow> byte list" where
  \<comment> \<open>\<open>(u8)(i ^ j)\<close> for \<open>j < len\<close>\<close>
  "g069_chunk i = map (\<lambda>j. of_nat i XOR of_nat j) [0..<unat (g069_len i)]"

definition g069_append :: "'w kernel \<Rightarrow> nat \<Rightarrow> nat \<Rightarrow> (('w, 'z) kst_scheme, nat) prog" where
  "g069_append K i expected =
     (let len = unat (g069_len i) in
      must_open (kcall (filp_open K G069_F {O_WRONLY, O_APPEND} 0)) (\<lambda>f.
      bnd (kcall (kernel_write K f (g069_chunk i) 0)) (\<lambda>(n, pos).
      bnd (kdo (filp_close K f)) (\<lambda>_.
      bnd (kunit_assert (n = int len)) (\<lambda>_.
      let expected = expected + len in
      bnd (do_if (i mod 50 = 49)
        (bnd (xfs_kstat K G069_F) (\<lambda>r. case r of
           Inl e \<Rightarrow> kunit_assert False | Inr st \<Rightarrow> kunit_assert (st_size st = int expected)))) (\<lambda>_.
      ret expected))))))"

definition g069_verify :: "'w kernel \<Rightarrow> nat \<Rightarrow> nat option \<Rightarrow> (('w, 'z) kst_scheme, nat option) prog" where
  \<comment> \<open>the position, or \<open>None\<close> after the return on a mismatch\<close>
  "g069_verify K i l = (case l of None \<Rightarrow> ret None | Some pos \<Rightarrow>
     let len = unat (g069_len i) in
     bnd (xfs_read_range K G069_F len (int pos)) (\<lambda>(n, buf).
     bnd (kunit_assert (n = int len)) (\<lambda>_.
     case first_diff (take len buf) (g069_chunk i) of
       None \<Rightarrow> ret (Some (pos + len)) | Some j \<Rightarrow> bnd kunit_fail (\<lambda>_. ret None))))"

definition appends_accumulate_exactly :: "'w kernel \<Rightarrow> (('w, 'z) fxs_scheme, unit) prog" where
  "appends_accumulate_exactly K = seq [
     test_prologue K G069_ROOT ''g069_remove_tree'' (g069_remove_tree K),
     must (xfs_write_new_file K G069_F []),
     must_alloc K 2048,
     bnd (for_fold [0..<G069_APPENDS] (g069_append K) 0) (\<lambda>expected.
     bnd (xfs_kstat K G069_F) (\<lambda>r. case r of
       Inl e \<Rightarrow> kunit_assert False | Inr st \<Rightarrow> kunit_expect (st_size st = int expected))),
     ignore (for_fold [0..<G069_APPENDS] (g069_verify K) (Some 0))]"

definition g069_suite :: "'w kernel \<Rightarrow> ('w, 'z) fxs_scheme suite" where
  "g069_suite K = nfs_suite K ''xfstests/generic/069''
     [(''appends_accumulate_exactly'', appends_accumulate_exactly K)]"

section \<open>The file is the chunks in order\<close>

lemma g069_len_bounds: "0 < unat (g069_len i) \<and> unat (g069_len i) \<le> 2048"
proof -
  let ?x = "(of_nat i * 2654435761 :: u32) mod 2048"
  have x: "unat ?x < 2048"
    by (simp add: unat_mod_distrib)
  have "unat (y + 1) = unat y + 1" if "unat y < 2048" for y :: u32
    using that by (simp add: unat_word_ariths(1))
  from this [OF x] have "unat (?x + 1) = unat ?x + 1" .
  then show ?thesis using x unfolding g069_len_def by simp
qed

definition g069_sum :: "nat \<Rightarrow> nat" where
  "g069_sum k = sum_list (map (\<lambda>i. unat (g069_len i)) [0..<k])"

definition g069_data :: "nat \<Rightarrow> byte list" where
  "g069_data k = concat (map g069_chunk [0..<k])"

lemma g069_sum_Suc [simp]: "g069_sum 0 = 0" "g069_sum (Suc k) = g069_sum k + unat (g069_len k)"
  by (simp_all add: g069_sum_def)

lemma g069_data_Suc [simp]: "g069_data 0 = []" "g069_data (Suc k) = g069_data k @ g069_chunk k"
  by (simp_all add: g069_data_def)

lemma length_g069_chunk [simp]: "length (g069_chunk i) = unat (g069_len i)"
  by (simp add: g069_chunk_def)

lemma length_g069_data [simp]: "length (g069_data k) = g069_sum k"
  by (induction k) simp_all

lemma g069_sum_limit: "k \<le> G069_APPENDS \<Longrightarrow> g069_sum k + 2048 < size_limit"
proof -
  have "g069_sum k \<le> 2048 * k"
  proof (induction k)
    case (Suc k)
    then show ?case using g069_len_bounds [of k] by simp
  qed simp
  moreover assume "k \<le> G069_APPENDS"
  ultimately show ?thesis by (simp add: G069_APPENDS_def size_limit_def)
qed

lemma g069_data_prefix: "k \<le> n \<Longrightarrow> \<exists>rest. g069_data n = g069_data k @ rest"
  by (induction n) (auto simp: le_Suc_eq)

lemma g069_read:
  assumes "k < n"
  shows "read_at (g069_sum k) (unat (g069_len k)) (g069_data n) = g069_chunk k"
proof -
  obtain rest where "g069_data n = g069_data (Suc k) @ rest" using g069_data_prefix [of "Suc k" n] assms by auto
  then show ?thesis using read_at_append [of "g069_data k" "g069_chunk k" rest] by simp
qed

context posix_kernel
begin

abbreviation g069_inv :: "nat \<Rightarrow> nat \<Rightarrow> nat \<Rightarrow> ('w, 'z) fxs_scheme \<Rightarrow> bool" where
  "g069_inv nf i k \<equiv> file_inv nf G069_F i Map.empty (\<lambda>d. d = g069_data k)"

lemma g069_append_ok:
  assumes "g069_inv nf i k s" "k < G069_APPENDS"
  shows "wp (g069_append K k (g069_sum k)) (\<lambda>e s'. e = g069_sum (Suc k) \<and> g069_inv nf i (Suc k) s') s"
  using assms(1)
proof (rule file_invE)
  fix d
  assume d: "file_on (kw s) G069_F i d Map.empty" "d = g069_data k" "kfails s = nf"
  let ?fl = "{O_WRONLY, O_APPEND}"
  have stat: "wp (xfs_kstat K G069_F) (\<lambda>r s'. case r of Inl e \<Rightarrow> False | Inr st \<Rightarrow>
      st_size st = int (g069_sum (Suc k)) \<and> g069_inv nf i (Suc k) s') t"
    if "file_on (kw t) G069_F i (g069_data (Suc k)) Map.empty" "kfails t = nf" for t :: "('w, 'a) fxs_scheme"
    by (rule f_kstat [OF that(1)]) (use that in \<open>auto intro: file_invI\<close>)
  have close: "wp (kdo (filp_close K h)) (\<lambda>_ t. file_on (kw t) G069_F i e Map.empty \<and> kfails t = nf) t"
    if "file_on (kw t) G069_F i e [h \<mapsto> ?fl]" "kfails t = nf" for h e and t :: "('w, 'a) fxs_scheme"
    by (rule f_close [OF that(1)]) (use that in simp)
  show ?thesis
    unfolding g069_append_def Let_def
  proof (rule f_must_open [OF d(1)], simp, simp, goal_cases)
    case (1 w h)
    have "wp (kcall (kernel_write K h (g069_chunk k) 0)) (\<lambda>(n, pos) s'. n = int (unat (g069_len k)) \<and>
        kfails s' = nf \<and> file_on (kw s') G069_F i (g069_data (Suc k)) [h \<mapsto> ?fl]) (s\<lparr>kw := w\<rparr>)"
      by (rule f_append0 [where d = "g069_data k" and fl = ?fl])
        (use 1 d g069_sum_limit [of k] g069_len_bounds [of k] assms(2) in simp_all)
    then have "wp (kcall (kernel_write K h (g069_chunk k) 0)) (\<lambda>r. wp (case r of (n, pos) \<Rightarrow>
        bnd (kdo (filp_close K h)) (\<lambda>_. ret n)) (\<lambda>n s'. n = int (unat (g069_len k)) \<and>
          file_on (kw s') G069_F i (g069_data (Suc k)) Map.empty \<and> kfails s' = nf)) (s\<lparr>kw := w\<rparr>)"
    proof (rule wp_mono, goal_cases)
      case (1 r t)
      obtain n pos where r: "r = (n, pos)" by (cases r)
      have p: "n = int (unat (g069_len k))" "file_on (kw t) G069_F i (g069_data (Suc k)) [h \<mapsto> ?fl]" "kfails t = nf"
        using 1 by (simp_all add: r)
      show ?case
        unfolding r prod.case wp_bnd wp_ret by (rule wp_mono [OF close [OF p(2,3)]]) (use p in simp)
    qed
    then show ?case
      unfolding wp_bnd
    proof (rule wp_mono, goal_cases)
      case (1 r t)
      obtain n pos where r: "r = (n, pos)" by (cases r)
      from 1 show ?case
        unfolding r prod.case wp_bnd wp_ret
        by (rule wp_mono)
          (auto intro!: wp_mono [OF stat] file_invI [OF _ refl] split: sum.splits)
    qed
  qed
qed

lemma g069_verify_ok:
  assumes "g069_inv nf i G069_APPENDS s" "k < G069_APPENDS"
  shows "wp (g069_verify K k (Some (g069_sum k))) (\<lambda>l s'. l = Some (g069_sum (Suc k)) \<and> g069_inv nf i G069_APPENDS s') s"
  using assms(1)
proof (rule file_invE)
  fix d
  assume d: "file_on (kw s) G069_F i d Map.empty" "d = g069_data G069_APPENDS" "kfails s = nf"
  show ?thesis
    unfolding g069_verify_def option.case Let_def wp_bnd
    by (rule f_read_range [OF d(1)])
      (use d g069_read [OF assms(2)] g069_sum_limit [of k] g069_len_bounds [of k] assms(2) in
        \<open>auto intro: file_invI\<close>)
qed

lemma g069_run_ok:
  assumes "ready V ok G069_ROOT s"
  shows "passes (appends_accumulate_exactly K) s"
  unfolding passes_def appends_accumulate_exactly_def wp_seq_Cons
proof (rule wp_dir_prologue [OF assms], goal_cases)
  case (1 w1)
  then have a: "absent (V w1) G069_F" by (simp add: G069_F_def)
  show ?case
    unfolding wp_must
  proof (rule f_write_new, goal_cases)
    case (4 w2 i)
    let ?I = "g069_inv (kfails s) i"
    have fill: "wp (for_fold [0..<G069_APPENDS] (g069_append K) 0) (\<lambda>e t. e = g069_sum G069_APPENDS \<and> ?I G069_APPENDS t) t"
      if "?I 0 t" for t :: "('w, 'a) fxs_scheme"
      by (rule wp_for_fold [where I = "\<lambda>k e t. e = g069_sum k \<and> ?I k t"]) (use that g069_append_ok in auto)
    have look: "wp (for_fold [0..<G069_APPENDS] (g069_verify K) (Some 0)) (\<lambda>_ t. ?I G069_APPENDS t) t"
      if "?I G069_APPENDS t" for t :: "('w, 'a) fxs_scheme"
      by (rule wp_for_fold [where I = "\<lambda>k l t. l = Some (g069_sum k) \<and> ?I G069_APPENDS t"]) (use that g069_verify_ok in auto)
    have size: "wp (xfs_kstat K G069_F) (\<lambda>r t. case r of Inl e \<Rightarrow> False | Inr st \<Rightarrow>
        st_size st = int (g069_sum G069_APPENDS) \<and> ?I G069_APPENDS t) t"
      if "?I G069_APPENDS t" for t :: "('w, 'a) fxs_scheme"
      using that by (rule file_invE) (rule f_kstat, auto intro: file_invI)
    have start: "?I 0 (s\<lparr>kw := w1, kactions := ''g069_remove_tree'' # kactions s, kw := w2, kw := w3\<rparr>)"
      if "ok w3" "V w3 = V w2" for w3
      using file_on_cong [OF 4(1) that] by (auto intro: file_invI)
    have rest: "wp (bnd (for_fold [0..<G069_APPENDS] (g069_append K) 0) (\<lambda>expected.
        bnd (xfs_kstat K G069_F) (\<lambda>r. case r of
          Inl e \<Rightarrow> kunit_assert False | Inr st \<Rightarrow> kunit_expect (st_size st = int expected))))
        (\<lambda>_. wp (ignore (for_fold [0..<G069_APPENDS] (g069_verify K) (Some 0))) (\<lambda>_ s'. kfails s' = kfails s)) t"
      if "?I 0 t" for t :: "('w, 'a) fxs_scheme"
      unfolding wp_bnd
      by (rule wp_mono [OF fill [OF that]])
        (auto intro!: wp_mono [OF size] wp_mono [OF look] elim: file_invE split: sum.splits)
    show ?case
      unfolding wp_seq_Nil
      by (intro conjI refl, rule wp_alloc_ok) (use file_on_ok [OF 4(1)] start in \<open>auto intro!: rest simp del: wp_bnd wp_ignore\<close>)
  qed (use 1 a in \<open>simp_all add: size_limit_def\<close>)
qed

end

end
