(* ===== verification/Gen070.thy ===== *)
theory Gen070
  imports Xattrs
begin

text \<open>
  \<open>kunit/xfstests/generic/070.c\<close>: 1500 random set, get, remove and list operations on
  thirty files with ten attribute names each, checked against a table of generations.  The
  table, a static array of \<open>u16\<close>, is the state extension.
\<close>

definition G070_ROOT :: string where "G070_ROOT = XFS_MNT @ ''/g070''"
definition G070_FILES :: nat where "G070_FILES = 30"
definition G070_NAMES :: nat where "G070_NAMES = 10"
definition G070_OPS :: nat where "G070_OPS = 1500"

record 'w g070 = "'w fxs" +
  g070_gen :: "nat \<Rightarrow> nat \<Rightarrow> 16 word"   \<comment> \<open>0 = absent\<close>

definition g070_file :: "nat \<Rightarrow> string" where "g070_file f = G070_ROOT @ ''/x'' @ dec02 f"
definition g070_name :: "nat \<Rightarrow> string" where "g070_name a = ''user.a'' @ dec02 a"

definition g070_val :: "16 word \<Rightarrow> string" where
  \<comment> \<open>\<open>"g%u"\<close>\<close>
  "g070_val g = ''g'' @ dec (unat g)"

definition g070_remove_tree :: "'w kernel \<Rightarrow> (('w, 'z) kst_scheme, unit) prog" where
  "g070_remove_tree K = seq [
     for_each [0..<G070_FILES] (\<lambda>f. ignore (xfs_unlink K (g070_file f))),
     ignore (xfs_rmdir K G070_ROOT)]"

definition g070_set :: "'w kernel \<Rightarrow> nat \<Rightarrow> nat \<Rightarrow> ('w g070, unit) prog" where
  "g070_set K f a = seq [
     modify (\<lambda>s. s\<lparr>g070_gen := (g070_gen s)(f := (g070_gen s f)(a := g070_gen s f a + 1))\<rparr>),
     bnd (get (\<lambda>s. g070_gen s f a)) (\<lambda>g. must (xfs_setxattr K (g070_file f) (g070_name a) (g070_val g) 0))]"

definition g070_get :: "'w kernel \<Rightarrow> nat \<Rightarrow> nat \<Rightarrow> ('w g070, unit) prog" where
  "g070_get K f a = bnd (xfs_getxattr K (g070_file f) (g070_name a) 32) (\<lambda>(n, val).
     bnd (get (\<lambda>s. g070_gen s f a)) (\<lambda>g.
     if g = 0 then kunit_assert (n = - ENODATA)
     else seq [
       kunit_assert (n = int (length (g070_val g))),
       kunit_assert (take (nat n) val = g070_val g)]))"

definition g070_remove :: "'w kernel \<Rightarrow> nat \<Rightarrow> nat \<Rightarrow> ('w g070, unit) prog" where
  "g070_remove K f a = bnd (xfs_removexattr K (g070_file f) (g070_name a)) (\<lambda>err.
     bnd (get (\<lambda>s. g070_gen s f a)) (\<lambda>g. seq [
       if g = 0 then kunit_assert (err = - ENODATA) else kunit_assert (err = 0),
       modify (\<lambda>s. s\<lparr>g070_gen := (g070_gen s)(f := (g070_gen s f)(a := 0))\<rparr>)]))"

definition g070_list :: "'w kernel \<Rightarrow> nat \<Rightarrow> ('w g070, unit) prog" where
  "g070_list K f = bnd (get (\<lambda>s. length (filter (\<lambda>i. g070_gen s f i \<noteq> 0) [0..<G070_NAMES]))) (\<lambda>cnt.
     bnd (xfs_listxattr K (g070_file f) 512) (\<lambda>(n, list). seq [
       kunit_assert (n \<ge> 0),
       kunit_assert (length (nul_names list) = cnt)]))"

definition g070_op :: "'w kernel \<Rightarrow> nat \<Rightarrow> rnd_state \<Rightarrow> ('w g070, rnd_state) prog" where
  "g070_op K op st =
     (let (r, st) = prandom_u32_state K st;
          f = unat (drop_bit 8 r) mod G070_FILES;
          a = unat (drop_bit 16 r) mod G070_NAMES
      in bnd (if unat r mod 4 < 2 then g070_set K f a
              else if unat r mod 4 = 2 then g070_get K f a
              else g070_remove K f a) (\<lambda>_.
         bnd (do_if (op mod 100 = 99) (g070_list K f)) (\<lambda>_. ret st)))"

definition xattr_storm_matches_the_model :: "'w kernel \<Rightarrow> ('w g070, unit) prog" where
  "xattr_storm_matches_the_model K = seq [
     test_prologue K G070_ROOT ''g070_remove_tree'' (g070_remove_tree K),
     modify (\<lambda>s. s\<lparr>g070_gen := (\<lambda>_ _. 0)\<rparr>),
     for_each [0..<G070_FILES] (\<lambda>f. must (xfs_write_new_file K (g070_file f) (to_bytes ''s''))),
     bnd (xfs_setxattr K (g070_file 0) (g070_name 0) ''p'' 0) (\<lambda>err. seq [
       do_if (err = - EOPNOTSUPP) kunit_skip,
       kunit_assert (err = 0)]),
     must (xfs_removexattr K (g070_file 0) (g070_name 0)),
     ignore (for_fold [0..<G070_OPS] (g070_op K) (prandom_seed_state K 70))]"

definition g070_suite :: "'w kernel \<Rightarrow> 'w g070 suite" where
  "g070_suite K = nfs_suite K ''xfstests/generic/070''
     [(''xattr_storm_matches_the_model'', xattr_storm_matches_the_model K)]"

section \<open>The abstraction of the table\<close>

definition g070_table :: "(nat \<Rightarrow> 16 word) \<Rightarrow> string \<rightharpoonup> string" where
  \<comment> \<open>the attributes a row of generations stands for\<close>
  "g070_table g nm = (let a = undec (drop 6 nm) in
     if a < G070_NAMES \<and> nm = g070_name a \<and> g a \<noteq> 0 then Some (g070_val (g a)) else None)"

definition g070_no :: "string \<Rightarrow> nat" where
  \<comment> \<open>the number of a file, from its name\<close>
  "g070_no p = undec (drop (length G070_ROOT + 2) p)"

definition g070_map :: "nat \<Rightarrow> (nat \<Rightarrow> nat \<Rightarrow> 16 word) \<Rightarrow> string \<rightharpoonup> (string \<rightharpoonup> string)" where
  \<comment> \<open>the first \<open>n\<close> files with their attributes\<close>
  "g070_map n G p = (let f = g070_no p in
     if f < n \<and> p = g070_file f then Some (g070_table (G f)) else None)"

lemma g070_undec: "undec (drop 6 (g070_name a)) = a" "g070_no (g070_file f) = f"
  by (simp_all add: g070_no_def g070_name_def g070_file_def)

lemma g070_table_name: "a < G070_NAMES \<Longrightarrow> g070_table g (g070_name a) = (if g a = 0 then None else Some (g070_val (g a)))"
  by (simp add: g070_table_def g070_undec Let_def)

lemma g070_map_file: "f < n \<Longrightarrow> g070_map n G (g070_file f) = Some (g070_table (G f))"
  by (simp add: g070_map_def g070_undec Let_def)

lemma g070_table_upd:
  "a < G070_NAMES \<Longrightarrow> v \<noteq> 0 \<Longrightarrow> g070_table (g(a := v)) = (g070_table g)(g070_name a \<mapsto> g070_val v)"
  "a < G070_NAMES \<Longrightarrow> g070_table (g(a := 0)) = (g070_table g)(g070_name a := None)"
  by (auto simp: fun_eq_iff g070_table_def g070_undec Let_def)

lemma g070_map_upd: "f < n \<Longrightarrow> g070_map n (G(f := g)) = (g070_map n G)(g070_file f \<mapsto> g070_table g)"
  by (auto simp: fun_eq_iff g070_map_def g070_undec Let_def)

lemma g070_map_grow:
  "g070_map 0 G = Map.empty" "G n = (\<lambda>_. 0) \<Longrightarrow> g070_map (Suc n) G = (g070_map n G)(g070_file n \<mapsto> Map.empty)"
  by (auto simp: fun_eq_iff g070_map_def g070_table_def g070_undec Let_def less_Suc_eq)

lemma g070_dom: "dom (g070_table g) = g070_name ` set (filter (\<lambda>a. g a \<noteq> 0) [0..<G070_NAMES])"
  by (auto simp: g070_table_def g070_undec Let_def dom_def split: if_splits)

lemma g070_card: "card (dom (g070_table g)) = length (filter (\<lambda>a. g a \<noteq> 0) [0..<G070_NAMES])"
proof -
  have "inj_on g070_name A" for A by (simp add: inj_on_def g070_name_def)
  then show ?thesis unfolding g070_dom by (simp only: card_image distinct_card distinct_filter distinct_upt)
qed

lemma g070_list_size: "list_size (g070_table g) \<le> 512"
proof -
  have fin: "finite (dom (g070_table g))" by (simp add: g070_dom)
  have "length n + 1 = 9" if "n \<in> dom (g070_table g)" for n
    using that by (auto simp: g070_dom g070_name_def G070_NAMES_def dec02_def dec.simps)
  then have "list_size (g070_table g) = card (dom (g070_table g)) * 9" by (simp add: list_size_def)
  also have "card (dom (g070_table g)) \<le> 10"
    unfolding g070_card using length_filter_le [of _ "[0..<G070_NAMES]"] by (simp add: G070_NAMES_def)
  finally show ?thesis by simp
qed

lemma g070_no_nul: "\<forall>n\<in>dom (g070_table g). NUL \<notin> set n"
  by (auto simp: g070_dom g070_name_def dec02_def nul_not_dec)

lemma length_dec_le: "n < 10 ^ Suc k \<Longrightarrow> length (dec n) \<le> Suc k"
proof (induction k arbitrary: n)
  case (Suc k)
  then have "n div 10 < 10 ^ Suc k" by (simp add: less_mult_imp_div_less)
  then show ?case using Suc.IH by (simp add: dec.simps [of n])
qed (simp add: dec.simps)

lemma g070_val_length: "length (g070_val g) \<le> 32"
proof -
  have "unat g < 10 ^ Suc 4" using unsigned_less [of g, where 'a = nat] by simp
  from length_dec_le [OF this] show ?thesis by (simp add: g070_val_def)
qed

section \<open>The storm\<close>

context posix_kernel
begin

definition g070_inv :: "nat \<Rightarrow> nat \<Rightarrow> nat \<Rightarrow> 'w g070 \<Rightarrow> bool" where
  "g070_inv nf n k s = (kfails s = nf \<and>
     xholds (ctx s) (g070_file ` {..<G070_FILES}) (g070_map n (g070_gen s)) s \<and> (\<forall>f a. unat (g070_gen s f a) \<le> k))"

lemma g070_ctx:
  assumes "xholds (ctx s) U X t"
  shows "ctx t = ctx s" "g070_gen t = g070_gen s" "kfails t = kfails s"
proof -
  show c: "ctx t = ctx s" using assms by (simp add: xholds_def)
  then show "g070_gen t = g070_gen s" by (cases s; cases t) (simp add: ctx_def)
  show "kfails t = kfails s" by (rule ctx_kfails [OF c])
qed

lemma g070_invI:
  assumes "xholds (ctx s) (g070_file ` {..<G070_FILES}) X t" "X = g070_map n (g070_gen s)" "kfails s = nf"
    "\<And>f a. unat (g070_gen s f a) \<le> k"
  shows "g070_inv nf n k t"
  using assms g070_ctx [OF assms(1)] by (simp add: g070_inv_def)

lemma g070_gen_upd:
  assumes "g070_inv nf n k s"
  shows "xholds (ctx (s\<lparr>g070_gen := G\<rparr>)) (g070_file ` {..<G070_FILES}) (g070_map n (g070_gen s)) (s\<lparr>g070_gen := G\<rparr>)"
  using assms by (simp add: g070_inv_def xholds_def)

lemma g070_set_ok:
  assumes "g070_inv nf G070_FILES k s" "f < G070_FILES" "a < G070_NAMES" "k < 65535"
  shows "wp (g070_set K f a) (\<lambda>_. g070_inv nf G070_FILES (Suc k)) s"
proof -
  let ?v = "g070_gen s f a + 1"
  let ?G = "(g070_gen s)(f := (g070_gen s f)(a := ?v))"
  let ?s = "s\<lparr>g070_gen := ?G\<rparr>"
  have b: "unat (g070_gen s f' a') \<le> k" for f' a' using assms(1) by (simp add: g070_inv_def)
  have v: "unat ?v = unat (g070_gen s f a) + 1"
    using b [of f a] assms(4) by (simp add: unat_word_ariths unsigned_1)
  then have nz: "?v \<noteq> 0" by (metis add_is_0 unat_0 zero_neq_one)
  show ?thesis
    unfolding g070_set_def wp_steps wp_modify wp_get
  proof (rule x_set [OF g070_gen_upd [OF assms(1)] g070_map_file [OF assms(2)] looks_self], goal_cases)
    case 1
    show ?case using g070_val_length [of "g070_gen ?s f a"] by simp
  next
    case (2 t)
    have "g070_map G070_FILES ?G = (g070_map G070_FILES (g070_gen s))(g070_file f \<mapsto>
        (g070_table (g070_gen s f))(g070_name a \<mapsto> g070_val ?v))"
      using assms(2,3) nz by (simp add: g070_map_upd g070_table_upd)
    then show ?case
      using 2 assms(1) b v by (intro conjI refl g070_invI [where s = ?s, OF 2]) (auto simp: g070_inv_def le_SucI)
  qed
qed

lemma g070_get_ok:
  assumes "g070_inv nf G070_FILES k s" "f < G070_FILES" "a < G070_NAMES"
  shows "wp (g070_get K f a) (\<lambda>_. g070_inv nf G070_FILES (Suc k)) s"
proof -
  have x: "xholds (ctx s) (g070_file ` {..<G070_FILES}) (g070_map G070_FILES (g070_gen s)) s"
    using assms(1) by (simp add: g070_inv_def)
  show ?thesis
    unfolding g070_get_def wp_steps
  proof (rule x_get [OF x g070_map_file [OF assms(2)] looks_self], unfold prod.case wp_bnd wp_get, goal_cases)
    case (1 t r dx)
    have "g070_inv nf G070_FILES (Suc k) t"
      by (rule g070_invI [OF 1(1)]) (use assms(1) in \<open>auto simp: g070_inv_def le_SucI\<close>)
    then show ?case
      using 1(2) g070_val_length [of "g070_gen s f a"] g070_ctx(2) [OF 1(1)]
      by (auto simp: g070_table_name [OF assms(3)])
  qed
qed

lemma g070_remove_ok:
  assumes "g070_inv nf G070_FILES k s" "f < G070_FILES" "a < G070_NAMES"
  shows "wp (g070_remove K f a) (\<lambda>_. g070_inv nf G070_FILES (Suc k)) s"
proof -
  let ?U = "g070_file ` {..<G070_FILES}" and ?t = "g070_table (g070_gen s f)"
  have x: "xholds (ctx s) ?U (g070_map G070_FILES (g070_gen s)) s"
    using assms(1) by (simp add: g070_inv_def)
  let ?G = "(g070_gen s)(f := (g070_gen s f)(a := 0))"
  have G: "g070_map G070_FILES ?G = (g070_map G070_FILES (g070_gen s))(g070_file f \<mapsto> ?t(g070_name a := None))"
    using assms(2,3) by (simp add: g070_map_upd g070_table_upd)
  have fin: "g070_inv nf G070_FILES (Suc k) (t\<lparr>g070_gen := ?G\<rparr>)"
    if "xholds (ctx s) ?U ((g070_map G070_FILES (g070_gen s))(g070_file f \<mapsto> ?t(g070_name a := None))) t" for t
    using that assms(1) G g070_ctx [OF that] by (auto simp: g070_inv_def xholds_def le_SucI)
  show ?thesis
    unfolding g070_remove_def wp_steps
  proof (rule x_remove [OF x g070_map_file [OF assms(2)] looks_self], unfold wp_get wp_if wp_kunit_assert wp_modify, goal_cases)
    case (1 t v)
    then show ?case using fin [OF 1(2)] g070_ctx(2) [OF 1(2)] by (auto simp: g070_table_name [OF assms(3)] split: if_splits)
  next
    case (2 t)
    then have "?t(g070_name a := None) = ?t" by (simp add: fun_upd_idem)
    then have "xholds (ctx s) ?U ((g070_map G070_FILES (g070_gen s))(g070_file f \<mapsto> ?t(g070_name a := None))) t"
      using 2(2) g070_map_file [OF assms(2), of "g070_gen s"] by (simp add: fun_upd_idem)
    from fin [OF this] show ?case
      using 2 g070_ctx(2) [OF 2(2)] by (auto simp: g070_table_name [OF assms(3)] split: if_splits)
  qed
qed

lemma g070_list_ok:
  assumes "g070_inv nf G070_FILES k s" "f < G070_FILES"
  shows "wp (g070_list K f) (\<lambda>_. g070_inv nf G070_FILES k) s"
proof -
  have x: "xholds (ctx s) (g070_file ` {..<G070_FILES}) (g070_map G070_FILES (g070_gen s)) s"
    using assms(1) by (simp add: g070_inv_def)
  show ?thesis
    unfolding g070_list_def wp_steps wp_get
  proof (rule x_list_names [OF x g070_map_file [OF assms(2)] looks_self g070_list_size g070_no_nul], unfold prod.case wp_steps, goal_cases)
    case (1 t dx ns)
    have "g070_inv nf G070_FILES k t"
      by (rule g070_invI [OF 1(1)]) (use assms(1) in \<open>auto simp: g070_inv_def\<close>)
    moreover have "length (nul_names dx) = card (dom (g070_table (g070_gen s f)))"
      using 1(2-4) distinct_card by metis
    ultimately show ?case by (simp add: g070_card)
  qed
qed

lemma g070_op_ok:
  assumes "g070_inv nf G070_FILES k s" "k < 65535"
  shows "wp (g070_op K op st) (\<lambda>_. g070_inv nf G070_FILES (Suc k)) s"
proof -
  obtain r st1 where r: "prandom_u32_state K st = (r, st1)" by fastforce
  have f: "unat (drop_bit 8 r) mod G070_FILES < G070_FILES" "unat (drop_bit 16 r) mod G070_NAMES < G070_NAMES"
    by (simp_all add: G070_FILES_def G070_NAMES_def)
  note step = g070_set_ok [OF assms(1) f assms(2)] g070_get_ok [OF assms(1) f] g070_remove_ok [OF assms(1) f]
  have rest: "wp m (\<lambda>_. wp (do_if (op mod 100 = 99) (g070_list K (unat (drop_bit 8 r) mod G070_FILES)))
      (\<lambda>_. wp (ret st1) (\<lambda>_. g070_inv nf G070_FILES (Suc k)))) s"
    if "wp m (\<lambda>_. g070_inv nf G070_FILES (Suc k)) s" for m :: "('w g070, unit) prog"
    using that by (rule wp_mono) (use g070_list_ok [OF _ f(1)] in simp)
  show ?thesis
    unfolding g070_op_def r Let_def prod.case wp_bnd wp_if
    using rest [OF step(1)] rest [OF step(2)] rest [OF step(3)]
    by (cases "unat r mod 4 < 2"; cases "unat r mod 4 = 2") (simp_all only: if_True if_False simp_thms)
qed

lemma g070_run_ok:
  assumes "ready V ok G070_ROOT s"
  shows "passes (xattr_storm_matches_the_model K) s"
  unfolding passes_def xattr_storm_matches_the_model_def wp_steps
proof (rule x_prologue [where U = "g070_file ` {..<G070_FILES}", OF assms], goal_cases)
  case (1 p)
  then show ?case by (auto simp: g070_file_def dec02_def)
next
  case (2 t)
  let ?t = "t\<lparr>g070_gen := (\<lambda>_ _. 0)\<rparr>"
  have start: "g070_inv (kfails s) 0 0 ?t"
    using 2 xholds_fails [OF 2] by (simp add: g070_inv_def xholds_def g070_map_grow)
  show ?case
    unfolding wp_modify
  proof (rule wp_for_range [where I = "\<lambda>n u. g070_inv (kfails s) n 0 u", OF start], goal_cases)
    case (2 n u)
    note i = 2(3) [unfolded g070_inv_def]
    have gen: "g070_gen u f = (\<lambda>_. 0)" for f using i by (simp add: fun_eq_iff unat_eq_0)
    show ?case
      unfolding wp_must
    proof (rule x_write_new [where X = "g070_map n (g070_gen u)" and U = "g070_file ` {..<G070_FILES}" and c = "ctx u"], goal_cases)
      case 3
      show ?case by (simp add: g070_map_def g070_undec)
    next
      case (5 v)
      have "g070_inv (kfails s) (Suc n) 0 v"
        by (rule g070_invI [OF 5]) (use i gen in \<open>simp_all add: g070_map_grow\<close>)
      then show ?case by simp
    qed (use i 2(2) in \<open>simp_all add: size_limit_def\<close>)
  next
    case (3 u)
    note i = 3 [unfolded g070_inv_def]
    have z: "0 < G070_FILES" "0 < G070_NAMES" by (simp_all add: G070_FILES_def G070_NAMES_def)
    have gen: "g070_gen u f = (\<lambda>_. 0)" for f using i by (simp add: fun_eq_iff unat_eq_0)
    have e: "g070_table (g070_gen u 0) = Map.empty" by (auto simp: gen g070_table_def Let_def fun_eq_iff)
    have same: "(g070_map G070_FILES (g070_gen u))(g070_file 0 \<mapsto> Map.empty) = g070_map G070_FILES (g070_gen u)"
      using g070_map_file [OF z(1), of "g070_gen u"] e by (simp add: fun_upd_idem)
    have run: "wp (for_fold [0..<G070_OPS] (g070_op K) (prandom_seed_state K 70)) (\<lambda>_ v. kfails v = kfails s) w"
      if "g070_inv (kfails s) G070_FILES 0 w" for w
      by (rule wp_for_fold_range [where I = "\<lambda>k _. g070_inv (kfails s) G070_FILES k", OF that])
        (auto intro!: g070_op_ok simp: G070_OPS_def, simp add: g070_inv_def)
    show ?case
    proof (rule x_set [OF i [THEN conjunct2, THEN conjunct1] g070_map_file [OF z(1)] looks_self], goal_cases)
      case (2 v)
      note v = 2
      show ?case
        unfolding wp_steps
      proof (simp only: EOPNOTSUPP_def zero_neq_neg_numeral if_False simp_thms,
          rule x_remove_at [OF v looks_self], goal_cases)
        case (2 w)
        then have "xholds (ctx u) (g070_file ` {..<G070_FILES}) (g070_map G070_FILES (g070_gen u)) w"
          by (simp add: e same)
        then have "g070_inv (kfails s) G070_FILES 0 w"
          by (rule g070_invI) (use i in simp_all)
        from run [OF this] show ?case by simp
      qed simp
    qed simp
  qed simp
qed

end

section \<open>Properties\<close>

text \<open>
  C8: the attribute storm matches its model on every kernel that meets the contract, for
  every random sequence: each of the 1500 operations has the result the table of
  generations predicts, present or absent, no 16-bit generation wraps, and every list has
  as many names as the table has entries.
\<close>

theorem xattr_storm_passes:
  assumes "posix_kernel K V ok" and "ready V ok G070_ROOT s"
  shows "passes (xattr_storm_matches_the_model K) s"
  by (rule posix_kernel.g070_run_ok [OF assms])

theorem xattr_storm_passes_witness:
  "passes (xattr_storm_matches_the_model memk) (fx0 \<lparr>g070_gen = \<lambda>_ _. 7\<rparr>)"
  by (rule xattr_storm_passes [OF mem.posix_kernel_axioms]) (simp add: G070_ROOT_def fx0_ready)

end
