(* ===== verification/Gen074.thy ===== *)
theory Gen074
  imports Stores
begin

text \<open>
  \<open>kunit/xfstests/generic/074.c\<close>, fstest: four files of 64K, two hundred rounds of a
  patterned block at a random place of a random file, each checked at once, with another
  block of the same file, against a shadow of the file in memory.
\<close>

unbundle bit_operations_syntax

record 'w g074 = "'w fxs" +
  g074_shadow :: "nat \<Rightarrow> byte list"

definition G074_ROOT :: string where "G074_ROOT = XFS_MNT @ ''/g074''"
definition G074_FILES :: nat where "G074_FILES = 4"
definition G074_FILESZ :: nat where "G074_FILESZ = 64 * 1024"
definition G074_ROUNDS :: nat where "G074_ROUNDS = 200"
definition G074_BS :: nat where "G074_BS = 1024"

definition g074_path :: "nat \<Rightarrow> string" where
  "g074_path i = G074_ROOT @ ''/t'' @ dec i"

definition g074_remove_tree :: "'w kernel \<Rightarrow> (('w, 'z) kst_scheme, unit) prog" where
  "g074_remove_tree K = seq [
     for_each [0..<G074_FILES] (\<lambda>i. ignore (xfs_unlink K (g074_path i))),
     ignore (xfs_rmdir K G074_ROOT)]"

definition g074_init :: "'w kernel \<Rightarrow> nat \<Rightarrow> ('w g074, unit) prog" where
  "g074_init K i = seq [
     must_alloc K G074_FILESZ,
     modify (\<lambda>s. s\<lparr>g074_shadow := (g074_shadow s)(i := replicate G074_FILESZ 0)\<rparr>),
     must (xfs_write_new_file K (g074_path i) []),
     must (xfs_truncate K (g074_path i) (int G074_FILESZ))]"

definition g074_block :: "nat \<Rightarrow> nat \<Rightarrow> byte list" where
  \<comment> \<open>\<open>buf[j] = (u8)(round ^ j ^ (f << 4))\<close>\<close>
  "g074_block round f = map (\<lambda>j. of_nat round XOR of_nat j XOR push_bit 4 (of_nat f)) [0..<G074_BS]"

definition g074_verify :: "'w kernel \<Rightarrow> nat \<Rightarrow> nat \<Rightarrow> ('w g074, unit) prog" where
  "g074_verify K f off =
     bnd (xfs_read_range K (g074_path f) G074_BS (int off)) (\<lambda>(n, buf).
     bnd (kunit_assert (n = int G074_BS)) (\<lambda>_.
     bnd (get g074_shadow) (\<lambda>shadow.
     kunit_assert (buf = read_at off G074_BS (shadow f)))))"

definition g074_round :: "'w kernel \<Rightarrow> nat \<Rightarrow> rnd_state \<Rightarrow> ('w g074, rnd_state) prog" where
  "g074_round K round st =
     (let (r, st) = prandom_u32_state K st;
          f = unat r mod G074_FILES;
          off = (unat (drop_bit 8 r) mod (G074_FILESZ div G074_BS)) * G074_BS;
          voff = (unat (drop_bit 20 r) mod (G074_FILESZ div G074_BS)) * G074_BS;
          buf = g074_block round f
      in bnd (must_open (kcall (filp_open K (g074_path f) {O_WRONLY} 0)) (\<lambda>fp.
           bnd (kcall (kernel_write K fp buf (int off))) (\<lambda>(n, pos).
           seq [kdo (filp_close K fp), kunit_assert (n = int G074_BS)]))) (\<lambda>_.
         bnd (modify (\<lambda>s. s\<lparr>g074_shadow := (g074_shadow s)(f := blit off buf (g074_shadow s f))\<rparr>)) (\<lambda>_.
         bnd (g074_verify K f off) (\<lambda>_.
         bnd (g074_verify K f voff) (\<lambda>_. ret st)))))"

definition patterned_rounds_verify_against_shadows :: "'w kernel \<Rightarrow> ('w g074, unit) prog" where
  "patterned_rounds_verify_against_shadows K = seq [
     test_prologue K G074_ROOT ''g074_remove_tree'' (g074_remove_tree K),
     must_alloc K G074_BS,
     for_each [0..<G074_FILES] (g074_init K),
     ignore (for_fold [0..<G074_ROUNDS] (g074_round K) (prandom_seed_state K 74))]"

definition g074_suite :: "'w kernel \<Rightarrow> 'w g074 suite" where
  "g074_suite K = nfs_suite K ''xfstests/generic/074''
     [(''patterned_rounds_verify_against_shadows'', patterned_rounds_verify_against_shadows K)]"

section \<open>Files and shadows\<close>

interpretation g074: name_table g074_path G074_ROOT G074_FILES
proof
  fix i j
  show "dirname (g074_path i) = G074_ROOT"
    using dirname_comp [of "CHR ''t'' # dec i" G074_ROOT] by (simp add: g074_path_def)
  assume "g074_path i = g074_path j"
  then show "i = j" by (simp add: g074_path_def)
qed (simp_all add: G074_ROOT_def dirname_comp [of "''g074''" XFS_MNT, simplified])

lemma g074_block_length [simp]: "length (g074_block round f) = G074_BS"
  by (simp add: g074_block_def)

lemma g074_offset: "x mod (G074_FILESZ div G074_BS) * G074_BS + G074_BS \<le> G074_FILESZ"
proof -
  have "x mod (G074_FILESZ div G074_BS) < G074_FILESZ div G074_BS"
    by (rule mod_less_divisor) (simp add: G074_FILESZ_def G074_BS_def)
  then show ?thesis by (simp add: G074_FILESZ_def G074_BS_def)
qed

lemma g074_limit: "x \<le> G074_FILESZ \<Longrightarrow> x < size_limit"
  by (simp add: G074_FILESZ_def size_limit_def)

abbreviation g074_paths :: "string set" where "g074_paths \<equiv> g074_path ` {..<G074_FILES}"

text \<open>The first \<open>k\<close> files hold what their shadows hold; the others are not there.\<close>

definition g074_map :: "nat \<Rightarrow> (nat \<Rightarrow> byte list) \<Rightarrow> (string \<rightharpoonup> byte list) \<Rightarrow> bool" where
  "g074_map k sh M = (\<forall>i<G074_FILES. M (g074_path i) = (if i < k then Some (sh i) else None))"

lemma g074_map_upd:
  "\<lbrakk>g074_map k sh M; i < G074_FILES; k' = (if i = k then Suc k else k); i \<le> k\<rbrakk> \<Longrightarrow>
   g074_map k' (sh(i := d)) (M(g074_path i \<mapsto> d))"
  by (auto simp: g074_map_def)

context posix_kernel
begin

definition g074_inv :: "nat \<Rightarrow> nat \<Rightarrow> 'w g074 \<Rightarrow> bool" where
  "g074_inv nf k s = (kfails s = nf \<and> (\<forall>i<k. length (g074_shadow s i) = G074_FILESZ) \<and>
     (\<exists>M. g074_map k (g074_shadow s) M \<and> store g074_paths M Map.empty (kw s)))"

lemma g074_invI:
  "\<lbrakk>kfails s = nf; \<And>i. i < k \<Longrightarrow> length (g074_shadow s i) = G074_FILESZ; g074_map k (g074_shadow s) M;
    store g074_paths M Map.empty (kw s)\<rbrakk> \<Longrightarrow> g074_inv nf k s"
  by (auto simp: g074_inv_def)

lemma g074_verify_ok:
  assumes "g074_inv nf k s" "f < k" "k \<le> G074_FILES" "off + G074_BS \<le> G074_FILESZ" and "\<And>t. g074_inv nf k t \<Longrightarrow> Q () t"
  shows "wp (g074_verify K f off) Q s"
proof -
  obtain M where M: "g074_map k (g074_shadow s) M" "store g074_paths M Map.empty (kw s)"
    using assms(1) by (auto simp: g074_inv_def)
  have d: "M (g074_path f) = Some (g074_shadow s f)" using M(1) assms(2,3) by (simp add: g074_map_def)
  have l: "length (g074_shadow s f) = G074_FILESZ" using assms(1,2) by (simp add: g074_inv_def)
  show ?thesis
    unfolding g074_verify_def wp_bnd
  proof (rule s_read_range [OF M(2) d], goal_cases)
    case (3 w b)
    have "g074_inv nf k (s\<lparr>kw := w\<rparr>)" using assms(1) M(1) 3(1) by (auto simp: g074_inv_def)
    then show ?case using 3(2) assms(4,5) l by simp
  qed (use g074_limit [OF assms(4)] in simp_all)
qed

lemma g074_init_ok:
  assumes "g074_inv nf k s" "k < G074_FILES"
  shows "wp (g074_init K k) (\<lambda>_. g074_inv nf (Suc k)) s"
proof -
  obtain M where M: "g074_map k (g074_shadow s) M" "store g074_paths M Map.empty (kw s)"
    using assms(1) by (auto simp: g074_inv_def)
  have p: "g074_path k \<in> g074_paths" "M (g074_path k) = None" using M(1) assms(2) by (auto simp: g074_map_def)
  let ?sh = "(g074_shadow s)(k := replicate G074_FILESZ 0)"
  show ?thesis
    unfolding g074_init_def wp_seq_Cons wp_seq_Nil wp_modify wp_must
  proof (rule s_alloc [OF M(2)], rule s_write_new [where U = g074_paths and M = M and H = Map.empty and p = "g074_path k"], goal_cases)
    case (5 w1 w2)
    then have "store g074_paths (M(g074_path k \<mapsto> [])) Map.empty w2" by (simp add: fun_upd_idem)
    then show ?case
    proof (intro conjI refl, rule_tac s_truncate [where U = g074_paths and M = "M(g074_path k \<mapsto> [])" and H = Map.empty and p = "g074_path k" and d = "[]"], goal_cases)
      case (5 w3)
      have "g074_map (Suc k) ?sh (M(g074_path k \<mapsto> replicate G074_FILESZ 0))"
        by (rule g074_map_upd [OF M(1) assms(2)]) simp_all
      moreover have "store g074_paths (M(g074_path k \<mapsto> replicate G074_FILESZ 0)) Map.empty w3"
        using 5 by (simp add: resize_def)
      ultimately show ?case
        using assms(1) by (intro conjI refl g074_invI) (auto simp: g074_inv_def less_Suc_eq)
    qed (simp_all add: g074_limit)
  qed (use p in \<open>simp_all add: size_limit_def\<close>)
qed

lemma g074_round_ok:
  assumes "g074_inv nf G074_FILES s"
  shows "wp (g074_round K round st) (\<lambda>_. g074_inv nf G074_FILES) s"
proof -
  obtain r st1 where r: "prandom_u32_state K st = (r, st1)" by fastforce
  let ?f = "unat r mod G074_FILES"
  let ?off = "unat (drop_bit 8 r) mod (G074_FILESZ div G074_BS) * G074_BS"
  let ?b = "g074_block round ?f"
  obtain M where M: "g074_map G074_FILES (g074_shadow s) M" "store g074_paths M Map.empty (kw s)"
    using assms by (auto simp: g074_inv_def)
  have f: "?f < G074_FILES" by (simp add: G074_FILES_def)
  have d: "M (g074_path ?f) = Some (g074_shadow s ?f)" using M(1) f by (simp add: g074_map_def)
  have l: "length (g074_shadow s ?f) = G074_FILESZ" using assms f by (simp add: g074_inv_def)
  have w: "write_at ?off ?b (g074_shadow s ?f) = blit ?off ?b (g074_shadow s ?f)"
    by (rule write_at_blit) (use g074_offset l in simp)
  let ?M = "M(g074_path ?f \<mapsto> blit ?off ?b (g074_shadow s ?f))"
  have inv: "g074_inv nf G074_FILES (s\<lparr>kw := w', g074_shadow := (g074_shadow s)(?f := blit ?off ?b (g074_shadow s ?f))\<rparr>)"
    if "store g074_paths ?M Map.empty w'" for w'
    using assms g074_map_upd [OF M(1) f, of G074_FILES] f that g074_offset l
    by (auto simp: g074_inv_def)
  show ?thesis
    unfolding g074_round_def r Let_def prod.case wp_bnd wp_must_open
  proof (rule s_open [OF M(2) d], goal_cases)
    case (4 w1 h)
    then have "store g074_paths M [g074_path ?f \<mapsto> (h, {O_WRONLY})] w1" using d by (simp add: fun_upd_idem)
    then show ?case
      unfolding sum.case wp_bnd
    proof (rule_tac s_write [where U = g074_paths and M = M and H = "[g074_path ?f \<mapsto> (h, {O_WRONLY})]" and p = "g074_path ?f" and h = h and fl = "{O_WRONLY}" and d = "g074_shadow s ?f"], goal_cases)
      case (8 w2)
      then have "store g074_paths ?M [g074_path ?f \<mapsto> (h, {O_WRONLY})] w2" by (simp only: nat_int w)
      then show ?case
        unfolding prod.case wp_seq_Cons
      proof (rule_tac s_close [where U = g074_paths and M = ?M and H = "[g074_path ?f \<mapsto> (h, {O_WRONLY})]" and p = "g074_path ?f" and h = h and fl = "{O_WRONLY}"], goal_cases)
        case (4 w3)
        then have "store g074_paths ?M Map.empty w3" by simp
        from inv [OF this] have i: "g074_inv nf G074_FILES
          (s\<lparr>kw := w3, g074_shadow := (g074_shadow s)(?f := blit ?off ?b (g074_shadow s ?f))\<rparr>)" .
        show ?case
          using i by (auto intro!: g074_verify_ok g074_offset f)
      qed simp_all
    qed (use d g074_offset in \<open>simp_all add: g074_limit del: of_nat_mult\<close>)
  qed simp_all
qed

lemma g074_run_ok:
  assumes "ready V ok G074_ROOT s"
  shows "passes (patterned_rounds_verify_against_shadows K) s"
  unfolding passes_def patterned_rounds_verify_against_shadows_def wp_seq_Cons wp_seq_Nil wp_ignore
proof (rule s_prologue [OF assms, where U = g074_paths], goal_cases)
  case (1 p)
  then show ?case by (force simp: g074_path_def)
next
  case (2 w)
  then show ?case
  proof (rule_tac s_alloc, simp, goal_cases)
    case (1 w2)
    have i: "g074_inv (kfails s) 0 (s\<lparr>kw := w2, kactions := ''g074_remove_tree'' # kactions s\<rparr>)"
      using 1(2) by (auto simp: g074_inv_def g074_map_def)
    then show ?case
      by (intro wp_for_range [where I = "g074_inv (kfails s)"] g074_init_ok
          wp_for_fold_range [where I = "\<lambda>_ _. g074_inv (kfails s) G074_FILES"] g074_round_ok)
        (auto simp: g074_inv_def)
  qed
qed

end

end
