(* ===== verification/Gen075.thy ===== *)
theory Gen075
  imports Ports
begin

text \<open>
  \<open>kunit/xfstests/generic/075.c\<close>, the reduced fsx: 5000 seeded operations on one file
  against a shadow copy in memory.  The file's static variables are the state extension;
  the buffer is local.  The lemmas show the simulation between the file and the first
  \<open>g075_size\<close> bytes of the shadow.
\<close>

unbundle bit_operations_syntax

record 'w g075 = "'w fxs" +
  g075_shadow :: "byte list"
  g075_size :: nat

definition G075_ROOT :: string where "G075_ROOT = XFS_MNT @ ''/g075''"
definition G075_FSX :: string where "G075_FSX = G075_ROOT @ ''/fsx''"
definition G075_MAXSZ :: nat where "G075_MAXSZ = 256 * 1024"
definition G075_OPS :: nat where "G075_OPS = 5000"
definition G075_SEED :: nat where "G075_SEED = 75"

definition g075_remove_tree :: "'w kernel \<Rightarrow> (('w, 'z) kst_scheme, unit) prog" where
  "g075_remove_tree K = seq [ignore (xfs_unlink K G075_FSX), ignore (xfs_rmdir K G075_ROOT)]"

definition g075_verify_range ::
  "'w kernel \<Rightarrow> nat \<Rightarrow> nat \<Rightarrow> nat \<Rightarrow> ('w g075, unit) prog" where
  "g075_verify_range K f off len =
     bnd (get (\<lambda>s. (g075_shadow s, g075_size s))) (\<lambda>(shadow, sz).
     if off \<ge> sz then ret ()
     else
       let len = (if off + len > sz then sz - off else len) in
       bnd (kcall (kernel_read K f len (int off))) (\<lambda>(n, buf, pos).
       bnd (kunit_assert (n = int len)) (\<lambda>_.
       case first_diff (take len buf) (read_at off len shadow) of
         None \<Rightarrow> ret () | Some i \<Rightarrow> kunit_fail)))"

definition g075_byte :: "nat \<Rightarrow> nat \<Rightarrow> byte" where
  \<comment> \<open>\<open>(u8)(op ^ (off + i))\<close>\<close>
  "g075_byte oper x = of_nat oper XOR of_nat x"

definition g075_extend :: "nat \<Rightarrow> ('w g075, unit) prog" where
  \<comment> \<open>zero the shadow from the old end up to \<open>off\<close>\<close>
  "g075_extend off = modify (\<lambda>s. if off > g075_size s
     then s\<lparr>g075_shadow := fill0 (g075_size s) (off - g075_size s) (g075_shadow s)\<rparr> else s)"

definition g075_step :: "'w kernel \<Rightarrow> nat \<Rightarrow> nat \<Rightarrow> u32 \<Rightarrow> nat \<Rightarrow> nat \<Rightarrow> ('w g075, unit) prog" where
  "g075_step K f oper r off len =
     (let kind = unat r mod 10 in
      if kind < 4 then
        let buf = map (\<lambda>i. g075_byte oper (off + i)) [0..<len] in seq [
          must_ret (kcall (kernel_write K f buf (int off))) (\<lambda>(n, _). n = int len),
          g075_extend off,
          modify (\<lambda>s. s\<lparr>g075_shadow := blit off buf (g075_shadow s),
                        g075_size := (if off + len > g075_size s then off + len else g075_size s)\<rparr>)]
      else if kind < 6 then seq [
          must (xfs_truncate K G075_FSX (int off)),
          g075_extend off,
          modify (\<lambda>s. s\<lparr>g075_size := off\<rparr>)]
      else if kind = 6 then
        bnd (kcall (vfs_fallocate K f {FALLOC_FL_PUNCH_HOLE, FALLOC_FL_KEEP_SIZE} (int off) (int len))) (\<lambda>e.
        do_if (e = 0) (modify (\<lambda>s. if off < g075_size s
          then s\<lparr>g075_shadow := fill0 off (min len (g075_size s - off)) (g075_shadow s)\<rparr> else s)))
      else g075_verify_range K f off len)"

definition g075_op :: "'w kernel \<Rightarrow> nat \<Rightarrow> nat \<Rightarrow> rnd_state \<Rightarrow> ('w g075, rnd_state) prog" where
  "g075_op K f oper st =
     (let (r, st) = prandom_u32_state K st;
          off = unat (drop_bit 8 r) mod G075_MAXSZ;
          (r2, st) = prandom_u32_state K st;
          len = 1 + unat r2 mod 32768;
          len = (if off + len > G075_MAXSZ then G075_MAXSZ - off else len)
      in bnd (g075_step K f oper r off len) (\<lambda>_. ret st))"

definition g075_run :: "'w kernel \<Rightarrow> nat \<Rightarrow> ('w g075, unit) prog" where
  \<comment> \<open>the storm and the final checks on the open file\<close>
  "g075_run K f = seq [
       ignore (for_fold [0..<G075_OPS] (g075_op K f) (prandom_seed_state K G075_SEED)),
       bnd (xfs_kstat K G075_FSX) (\<lambda>r. case r of
         Inl e \<Rightarrow> kunit_assert False
       | Inr kst \<Rightarrow> bnd (get g075_size) (\<lambda>sz. kunit_expect (st_size kst = int sz))),
       bnd (get g075_size) (\<lambda>sz. g075_verify_range K f 0 sz),
       kdo (filp_close K f)]"

definition fsx_shadow_model_stays_in_sync :: "'w kernel \<Rightarrow> ('w g075, unit) prog" where
  "fsx_shadow_model_stays_in_sync K = seq [
     test_prologue K G075_ROOT ''g075_remove_tree'' (g075_remove_tree K),
     must_alloc2 K G075_MAXSZ G075_MAXSZ,
     modify (\<lambda>s. s\<lparr>g075_shadow := replicate G075_MAXSZ 0, g075_size := 0\<rparr>),
     must_open (kcall (filp_open K G075_FSX {O_RDWR, O_CREAT, O_EXCL} (mode3 6 4 4))) (g075_run K)]"

definition g075_suite :: "'w kernel \<Rightarrow> 'w g075 suite" where
  "g075_suite K = nfs_suite K ''xfstests/generic/075''
     [(''fsx_shadow_model_stays_in_sync'', fsx_shadow_model_stays_in_sync K)]"

section \<open>The shadow as an abstraction of the file\<close>

text \<open>The file's contents are the first \<open>g075_size\<close> bytes of the shadow.\<close>

definition shadow_ok :: "byte list \<Rightarrow> nat \<Rightarrow> bool" where
  "shadow_ok sh sz = (length sh = G075_MAXSZ \<and> sz \<le> G075_MAXSZ)"

lemma shadow_write:
  assumes "shadow_ok sh sz" "off + length d \<le> G075_MAXSZ" "d \<noteq> []"
  shows "write_at off d (take sz sh) =
    take (max sz (off + length d)) (blit off d (if off > sz then fill0 sz (off - sz) sh else sh))"
  by (rule nth_equalityI) (use assms in \<open>auto simp: shadow_ok_def buf_simps\<close>)

lemma shadow_resize:
  assumes "shadow_ok sh sz" "off \<le> G075_MAXSZ"
  shows "resize off (take sz sh) = take off (if off > sz then fill0 sz (off - sz) sh else sh)"
  by (rule nth_equalityI) (use assms in \<open>auto simp: shadow_ok_def buf_simps\<close>)

lemma shadow_punch:
  assumes "shadow_ok sh sz"
  shows "punch off n (take sz sh) =
    take sz (if off < sz then fill0 off (min n (sz - off)) sh else sh)"
  by (rule nth_equalityI) (use assms in \<open>auto simp: shadow_ok_def buf_simps\<close>)

definition g075_inv :: "('w \<Rightarrow> fsv) \<Rightarrow> ('w \<Rightarrow> bool) \<Rightarrow> nat \<Rightarrow> nat \<Rightarrow> nat \<Rightarrow> 'w g075 \<Rightarrow> bool" where
  "g075_inv V ok f i nf s =
     (ok (kw s) \<and> has_inode (V (kw s)) G075_FSX i S_REG \<and>
      fds (V (kw s)) f = Some (i, {O_RDWR, O_CREAT, O_EXCL}) \<and>
      data_of (V (kw s)) i = take (g075_size s) (g075_shadow s) \<and>
      shadow_ok (g075_shadow s) (g075_size s) \<and> kfails s = nf)"

lemma G075_MAXSZ_limit: "G075_MAXSZ < size_limit" "0 < G075_MAXSZ"
  by (simp_all add: G075_MAXSZ_def size_limit_def)

context posix_kernel
begin

lemma g075_verify_ok:
  assumes "g075_inv V ok f i nf s"
  shows "wp (g075_verify_range K f off len) (\<lambda>_. g075_inv V ok f i nf) s"
proof (cases "off \<ge> g075_size s")
  case False
  obtain len' where len': "len' = (if off + len > g075_size s then g075_size s - off else len)" by simp
  have l: "off + len' \<le> g075_size s" using False by (auto simp: len')
  note inv = assms [unfolded g075_inv_def shadow_ok_def]
  have "wp (kcall (kernel_read K f len' (int off)))
      (\<lambda>(n, buf, pos) s'. n = int len' \<and> buf = read_at off len' (g075_shadow s) \<and> g075_inv V ok f i nf s') s"
  proof (rule wp_read [where i = i and fl = "{O_RDWR, O_CREAT, O_EXCL}"], goal_cases)
    case (6 w' d)
    then show ?case
      using inv l by (auto simp: g075_inv_def shadow_ok_def read_at_take)
  qed (use inv l G075_MAXSZ_limit in \<open>auto simp: has_inode_def readable_def\<close>)
  then show ?thesis
    using False inv l
    by (auto simp: g075_verify_range_def Let_def len' [symmetric] first_diff_None elim!: wp_mono
        split: option.splits prod.splits)
qed (use assms in \<open>simp add: g075_verify_range_def\<close>)

lemma g075_step_ok:
  assumes inv: "g075_inv V ok f i nf s" and off: "off < G075_MAXSZ"
    and len: "0 < len" "off + len \<le> G075_MAXSZ"
  shows "wp (g075_step K f oper r off len) (\<lambda>_. g075_inv V ok f i nf) s"
proof -
  let ?kind = "unat r mod 10"
  note I = inv [unfolded g075_inv_def]
  have lim: "off + len < size_limit" using len G075_MAXSZ_limit by simp
  have sh: "length (g075_shadow s) = G075_MAXSZ" "g075_size s \<le> G075_MAXSZ"
    using I by (auto simp: shadow_ok_def)
  consider (wr) "?kind < 4" | (trunc) "4 \<le> ?kind" "?kind < 6" | (punch) "?kind = 6" | (verify) "?kind > 6"
    by linarith
  then show ?thesis
  proof cases
    case wr
    obtain buf where buf: "buf = map (\<lambda>i. g075_byte oper (off + i)) [0..<len]" by simp
    have b: "length buf = len" "buf \<noteq> []" using len by (auto simp: buf)
    have "wp (kcall (kernel_write K f buf (int off)))
       (\<lambda>(n, _) s'. n = int len \<and> g075_inv V ok f i nf
          (s'\<lparr>g075_shadow := blit off buf (if off > g075_size s' then fill0 (g075_size s') (off - g075_size s') (g075_shadow s') else g075_shadow s'),
              g075_size := (if off + len > g075_size s' then off + len else g075_size s')\<rparr>)) s"
      by (rule wp_write [where i = i and fl = "{O_RDWR, O_CREAT, O_EXCL}"])
        (use I b lim len sh shadow_write [of "g075_shadow s" "g075_size s" off buf] in
          \<open>auto simp: g075_inv_def has_inode_def shadow_ok_def max_def\<close>)
    then show ?thesis using wr
      by (auto simp: g075_step_def Let_def buf [symmetric] g075_extend_def elim!: wp_mono split: if_splits)
  next
    case trunc
    have "wp (xfs_truncate K G075_FSX (int off))
       (\<lambda>e s'. e = 0 \<and> g075_inv V ok f i nf
          (s'\<lparr>g075_shadow := (if off > g075_size s' then fill0 (g075_size s') (off - g075_size s') (g075_shadow s') else g075_shadow s'),
              g075_size := off\<rparr>)) s"
      by (rule xfs_truncate_file [where i = i])
        (use I lim off sh shadow_resize [of "g075_shadow s" "g075_size s" off] in
          \<open>auto simp: g075_inv_def has_inode_def shadow_ok_def\<close>)
    then show ?thesis using trunc
      by (auto simp: g075_step_def Let_def g075_extend_def elim!: wp_mono split: if_splits)
  next
    case punch
    have "wp (kcall (vfs_fallocate K f {FALLOC_FL_PUNCH_HOLE, FALLOC_FL_KEEP_SIZE} (int off) (int len)))
       (\<lambda>e s'. if e = 0 then g075_inv V ok f i nf
            (if off < g075_size s' then s'\<lparr>g075_shadow := fill0 off (min len (g075_size s' - off)) (g075_shadow s')\<rparr> else s')
          else g075_inv V ok f i nf s') s"
      by (rule wp_punch [where i = i and fl = "{O_RDWR, O_CREAT, O_EXCL}"])
        (use I lim len sh shadow_punch [of "g075_shadow s" "g075_size s" off len] in
          \<open>auto simp: g075_inv_def has_inode_def shadow_ok_def EOPNOTSUPP_def\<close>)
    then show ?thesis using punch
      by (auto simp: g075_step_def Let_def elim!: wp_mono split: if_splits)
  next
    case verify
    then show ?thesis using g075_verify_ok [OF inv] by (simp add: g075_step_def Let_def)
  qed
qed

lemma g075_op_ok:
  assumes "g075_inv V ok f i nf s"
  shows "wp (g075_op K f oper st) (\<lambda>_. g075_inv V ok f i nf) s"
proof -
  have off: "m mod G075_MAXSZ < G075_MAXSZ" for m using G075_MAXSZ_limit by simp
  have step: "wp (g075_step K f oper r (m mod G075_MAXSZ) len) (\<lambda>_. g075_inv V ok f i nf) s"
    if "len = (if m mod G075_MAXSZ + (1 + k) > G075_MAXSZ then G075_MAXSZ - m mod G075_MAXSZ else 1 + k)"
    for r m k len
    by (rule g075_step_ok [OF assms off]) (use that off [of m] in \<open>auto split: if_splits\<close>)
  obtain r st1 where r: "prandom_u32_state K st = (r, st1)" by fastforce
  obtain r2 st2 where r2: "prandom_u32_state K st1 = (r2, st2)" by fastforce
  show ?thesis
    using step [OF refl] by (simp only: g075_op_def r r2 Let_def prod.case wp_bnd wp_ret)
qed

lemma g075_storm_ok:
  assumes inv: "g075_inv V ok f j nf t"
  shows "wp (g075_run K f) (\<lambda>_ s'. kfails s' = nf) t"
proof -
  have loop: "wp (for_fold [0..<G075_OPS] (g075_op K f) st) (\<lambda>_. g075_inv V ok f j nf) t" for st
    by (rule wp_for_fold [where I = "\<lambda>_ _. g075_inv V ok f j nf"]) (use inv g075_op_ok in auto)
  have fin: "wp (xfs_kstat K G075_FSX) (\<lambda>r t'. case r of Inl e \<Rightarrow> False
       | Inr st \<Rightarrow> st_size st = int (g075_size t') \<and> g075_inv V ok f j nf t') t"
    if "g075_inv V ok f j nf t" for t :: "'w g075"
    by (rule xfs_kstat_found [where i = j])
      (use that in \<open>auto simp: g075_inv_def has_inode_def stat_matches_def shadow_ok_def\<close>)
  show ?thesis
    unfolding g075_run_def wp_seq_Cons wp_ignore wp_bnd
  proof (rule wp_mono [OF loop], rule wp_mono [OF fin], assumption, goal_cases)
    case (1 _ _ r t1)
    then obtain kst where r: "r = Inr kst" "st_size kst = int (g075_size t1)"
      and t1: "g075_inv V ok f j nf t1" by (cases r) auto
    have "wp (g075_verify_range K f 0 (g075_size t1)) (\<lambda>_ s'. g075_inv V ok f j nf s') t1"
      by (rule g075_verify_ok [OF t1])
    with r show ?case
      by (auto elim!: wp_mono simp: wp_kdo g075_inv_def)
  qed
qed

lemma g075_passes:
  assumes "ready V ok G075_ROOT s"
  shows "passes (fsx_shadow_model_stays_in_sync K) s"
  unfolding passes_def fsx_shadow_model_stays_in_sync_def wp_seq_Cons
proof (rule wp_test_prologue [OF assms], goal_cases)
  case (1 w1 i)
  have fsx: "dirname G075_FSX = G075_ROOT"
    using dirname_comp [of "''fsx''" G075_ROOT] by (simp add: G075_FSX_def)
  have a: "absent (V w1) G075_FSX" using 1 fsx by (simp add: absent_def)
  show ?case
    unfolding wp_modify wp_must_open
  proof (rule wp_alloc2_ok, goal_cases)
    case (2 w3)
    show ?case
    proof (rule wp_open_new, goal_cases)
      case (4 w4 h j)
      then show ?case
        unfolding sum.case wp_seq_Nil
        by (intro g075_storm_ok [where j = j])
          (simp add: g075_inv_def has_inode_def shadow_ok_def data_of_def)
    qed (use 1 2 a in \<open>simp_all\<close>)
  qed (use 1 in simp)
qed

end

section \<open>Properties\<close>

text \<open>
  C3: fsx against a POSIX file system.  On every kernel that meets the contract, from every
  state in which the fixture is up and the case's directory does not exist, the storm of
  5000 operations runs to its end, whatever the random numbers, and no read, and neither
  the final size nor the final contents, differs from the shadow: the case passes.
\<close>

theorem fsx_passes:
  assumes "posix_kernel K V ok" and "ready V ok G075_ROOT s"
  shows "passes (fsx_shadow_model_stays_in_sync K) s"
  by (rule posix_kernel.g075_passes [OF assms])

theorem fsx_passes_witness:
  "passes (fsx_shadow_model_stays_in_sync memk) (fx0 \<lparr>g075_shadow = [], g075_size = 0\<rparr>)"
  by (rule fsx_passes [OF mem.posix_kernel_axioms])
    (simp add: G075_ROOT_def fx0_ready)

text \<open>
  C26: what a verification of a range does on any kernel at all.  Beyond the recorded size
  it does nothing; else the range is cut at the size, a count other than its length ends
  the test, equal contents leave no trace and different contents count exactly one failure.
\<close>

theorem verify_range_detects:
  assumes "len' = min len (g075_size s - off)" and "g075_size s \<le> length (g075_shadow s)"
    and "kernel_read K f len' (int off) (kw s) = ((n, buf, pos), w')" and "n \<ge> 0 \<Longrightarrow> length buf = nat n"
  shows "g075_verify_range K f off len s =
    (if off \<ge> g075_size s then Ok () s
     else if n \<noteq> int len' then Abort (s\<lparr>kw := w', kfails := Suc (kfails s)\<rparr>)
     else if buf = read_at off len' (g075_shadow s) then Ok () (s\<lparr>kw := w'\<rparr>)
     else Ok () (s\<lparr>kw := w', kfails := Suc (kfails s)\<rparr>))"
proof (cases "off \<ge> g075_size s")
  case False
  have l: "(if off + len > g075_size s then g075_size s - off else len) = len'"
    using assms(1) False by auto
  have r: "length (read_at off len' (g075_shadow s)) = len'"
    using assms(1,2) False by (auto simp: read_at_def)
  have d: "first_diff buf (read_at off len' (g075_shadow s)) = None
      \<longleftrightarrow> buf = read_at off len' (g075_shadow s)" if "length buf = len'"
    using that r by (simp add: first_diff_None)
  show ?thesis
    using False assms(3,4) d r
    by (auto simp: g075_verify_range_def bnd_def get_def ret_def kcall_def l kunit_assert_def kunit_fail_def
        split: option.splits)
qed (simp add: g075_verify_range_def bnd_def get_def ret_def)

theorem verify_range_detects_witness:
  "g075_verify_range (memk\<lparr>kernel_read := \<lambda>f n p w. ((2, [1, 3], p + 2), w)\<rparr>) 0 4 9
      (fx0\<lparr>g075_shadow = [0, 0, 0, 0, 1, 2], g075_size = 6\<rparr>)
    = Ok () ((fx0\<lparr>g075_shadow = [0, 0, 0, 0, 1, 2], g075_size = 6\<rparr>)\<lparr>kfails := 1\<rparr>)"
  by (subst verify_range_detects [where len' = 2 and n = 2 and buf = "[1, 3]" and pos = 6
        and w' = mem0])
    (simp_all add: fx0_def read_at_def)

end
