(* ===== verification/Sparse.thy ===== *)
theory Sparse
  imports Server
begin

text \<open>
  Allocation, hole punching and the dropping of cached pages.  The file system contract lets
  \<open>vfs_fallocate\<close> answer \<open>EOPNOTSUPP\<close>; some ports insist on it, as NFS 4.2 has ALLOCATE and
  DEALLOCATE, and some drop the client's pages with \<open>invalidate_inode_pages2\<close>, kernel code
  that is a parameter here: the locale \<open>nfs42\<close> adds both promises.
\<close>

locale nfs42 = exported K V ok
  for K :: "'w kernel" and V :: "'w \<Rightarrow> fsv" and ok :: "'w \<Rightarrow> bool" +
  fixes inval :: "nat \<Rightarrow> 'w \<Rightarrow> int \<times> 'w"
  assumes inval_ok: "\<lbrakk>ok w; fds (V w) h = Some (i, fl); inval h w = (r, w')\<rbrakk> \<Longrightarrow> r = 0 \<and> ok w' \<and> V w' = V w"
    and fallocate_supported: "\<lbrakk>ok w; fds (V w) h = Some (i, fl); writable fl; 0 < n; off + n < size_limit;
        md = {} \<or> md = {FALLOC_FL_PUNCH_HOLE, FALLOC_FL_KEEP_SIZE};
        vfs_fallocate K h md (int off) (int n) w = (r, w')\<rbrakk> \<Longrightarrow> r \<noteq> - EOPNOTSUPP"
begin

lemma h_inval:
  assumes "holds c U M H s" "M p = Some d" "H p = Some (h, fl)" and "\<And>t. holds c U M H t \<Longrightarrow> Q 0 t"
  shows "wp (kcall (inval h)) Q s"
proof (rule wp_kcallI)
  fix a w'
  assume "inval h (kw s) = (a, w')"
  note st = holdsD [OF assms(1)]
  note f = s_step_open(1) [OF st(1) assms(2,3)]
  from inval_ok [OF file_on_ok [OF f] file_on_fd [OF f] \<open>inval h (kw s) = (a, w')\<close>]
  show "Q a (s\<lparr>kw := w'\<rparr>)"
    using assms(4) st store_cong [OF st(1)] by (simp add: holds_def)
qed

lemma fallocate_step:
  assumes "holds c U M H s" "M p = Some d" "H p = Some (h, fl)" "writable fl" "0 \<le> off" "0 < n" "nat off + nat n < size_limit"
    and "md = {} \<and> e = resize (max (length d) (nat off + nat n)) d \<or>
         md = {FALLOC_FL_PUNCH_HOLE, FALLOC_FL_KEEP_SIZE} \<and> e = punch (nat off) (nat n) d"
    and "\<And>t. holds c U (M(p \<mapsto> e)) H t \<Longrightarrow> Q 0 t"
  shows "wp (kcall (vfs_fallocate K h md off n)) Q s"
proof (rule wp_kcallI)
  fix a w'
  assume call: "vfs_fallocate K h md off n (kw s) = (a, w')"
  note st = holdsD [OF assms(1)]
  let ?i = "the (names (V (kw s)) p)"
  note f = s_step_open(1) [OF st(1) assms(2,3)]
  note has = file_on_ok [OF f] file_on_fd [OF f]
  have md: "md = {} \<or> md = {FALLOC_FL_PUNCH_HOLE, FALLOC_FL_KEEP_SIZE}" using assms(8) by blast
  have i: "off = int (nat off)" "n = int (nat n)" "0 < nat n" using assms(5,6) by simp_all
  have call': "vfs_fallocate K h md (int (nat off)) (int (nat n)) (kw s) = (a, w')" using call i(1,2) by simp
  have sup: "a \<noteq> - EOPNOTSUPP" by (rule fallocate_supported [OF has assms(4) i(3) assms(7) md call'])
  have "ok w' \<and> a = 0 \<and> V w' = set_data ?i e (V (kw s))"
    using assms(8)
  proof (elim disjE conjE)
    assume m: "md = {}" and e: "e = resize (max (length d) (nat off + nat n)) d"
    from allocate [OF has file_on_has(3) [OF f] assms(4) i(3) assms(7) call' [unfolded m]]
    show ?thesis using sup by (auto simp: e file_on_has(4) [OF f] split: if_splits)
  next
    assume m: "md = {FALLOC_FL_PUNCH_HOLE, FALLOC_FL_KEEP_SIZE}" and e: "e = punch (nat off) (nat n) d"
    from punch_hole [OF has file_on_has(3) [OF f] assms(4) i(3) assms(7) call' [unfolded m]]
    show ?thesis using sup by (auto simp: e file_on_has(4) [OF f] split: if_splits)
  qed
  then have w: "ok w'" "a = 0" "V w' = set_data ?i e (V (kw s))" by simp_all
  from s_step_open(2) [OF st(1) assms(2,3) set_data_step [OF f w(1,3)]]
  show "Q a (s\<lparr>kw := w'\<rparr>)" using assms(9) st(2) w(2) by (simp add: holds_def)
qed

lemma h_allocate:
  assumes "holds c U M H s" "M p = Some d" "H p = Some (h, fl)" "writable fl" "0 \<le> off" "0 < n" "nat off + nat n < size_limit"
    and "\<And>t. holds c U (M(p \<mapsto> resize (max (length d) (nat off + nat n)) d)) H t \<Longrightarrow> Q 0 t"
  shows "wp (kcall (vfs_fallocate K h {} off n)) Q s"
  by (rule fallocate_step [where e = "resize (max (length d) (nat off + nat n)) d", OF assms(1-7)]) (auto intro: assms(8))

lemma h_allocate_same:
  assumes "holds c U (M(p \<mapsto> d)) (H(p \<mapsto> (h, fl))) s" "writable fl" "0 \<le> off" "0 < n" "nat off + nat n < size_limit"
    and "\<And>t. holds c U (M(p \<mapsto> resize (max (length d) (nat off + nat n)) d)) (H(p \<mapsto> (h, fl))) t \<Longrightarrow> Q 0 t"
  shows "wp (kcall (vfs_fallocate K h {} off n)) Q s"
  by (rule h_allocate [where M = "M(p \<mapsto> d)" and H = "H(p \<mapsto> (h, fl))" and p = p and d = d and fl = fl, OF assms(1)])
    (simp_all only: assms fun_upd_same fun_upd_upd simp_thms)

lemma h_punch:
  assumes "holds c U M H s" "M p = Some d" "H p = Some (h, fl)" "writable fl" "0 \<le> off" "0 < n" "nat off + nat n < size_limit"
    and "\<And>t. holds c U (M(p \<mapsto> punch (nat off) (nat n) d)) H t \<Longrightarrow> Q 0 t"
  shows "wp (kcall (vfs_fallocate K h {FALLOC_FL_PUNCH_HOLE, FALLOC_FL_KEEP_SIZE} off n)) Q s"
  by (rule fallocate_step [where e = "punch (nat off) (nat n) d", OF assms(1-7)]) (auto intro: assms(8))

end

definition mem_inval :: "nat \<Rightarrow> memw \<Rightarrow> int \<times> memw" where
  \<comment> \<open>the in-memory kernel caches nothing\<close>
  "mem_inval h w = (0, w)"

interpretation sparse: nfs42 expk mv mem_ok mem_inval
proof (rule nfs42.intro [OF exp.exported_axioms], unfold_locales, goal_cases)
  case (1 w h i fl r w')
  then show ?case by (simp add: mem_inval_def)
next
  case (2 w h i fl n off md r w')
  then show ?case by (auto simp: expk_def memk_def mem_fallocate_def on_fd_def EOPNOTSUPP_def split: if_splits)
qed

end
