(* ===== verification/Gen086.thy ===== *)
theory Gen086
  imports Sparse
begin

text \<open>
  \<open>kunit/xfstests/generic/086.c\<close>: a write, an allocation over it, a second write, the cached
  pages dropped, and a third write into the block of the second; the file is compared byte
  by byte with a model, on the client and from the server's copy.
\<close>

definition G086_ROOT :: string where "G086_ROOT = XFS_MNT @ ''/g086''"
definition G086_FILE :: string where "G086_FILE = G086_ROOT @ ''/testfile''"
definition G086_SERVER :: string where "G086_SERVER = XFS_EXPORT @ ''/g086/testfile''"
definition G086_SIZE :: nat where "G086_SIZE = 131072"
definition G086_CHUNK :: nat where "G086_CHUNK = 2048"
definition G086_PAGE :: nat where "G086_PAGE = 4096"   \<comment> \<open>\<open>PAGE_SIZE\<close>\<close>

definition g086_remove_tree :: "'w kernel \<Rightarrow> (('w, 'z) kst_scheme, unit) prog" where
  "g086_remove_tree K = seq [ignore (xfs_unlink K G086_FILE), ignore (xfs_rmdir_settled K G086_ROOT)]"

definition g086_expected :: "nat \<Rightarrow> byte" where
  "g086_expected off =
     (if 4096 \<le> off \<and> off < 4096 + G086_CHUNK then 0xaa
      else if 65536 \<le> off \<and> off < 65536 + G086_CHUNK then 0xbb
      else if 67584 \<le> off \<and> off < 67584 + G086_CHUNK then 0xdd
      else 0)"

definition g086_pwrite :: "'w kernel \<Rightarrow> nat \<Rightarrow> byte \<Rightarrow> int \<Rightarrow> (('w, 'z) kst_scheme, unit) prog" where
  "g086_pwrite K f val off = seq [
     must_alloc K G086_CHUNK,
     must_ret (kcall (kernel_write K f (replicate G086_CHUNK val) off)) (\<lambda>(n, _). n = int G086_CHUNK)]"

definition g086_verify :: "'w kernel \<Rightarrow> string \<Rightarrow> (('w, 'z) kst_scheme, unit) prog" where
  "g086_verify K path = seq [
     must_alloc K G086_PAGE,
     ignore (for_while [0..<G086_SIZE div G086_PAGE] (\<lambda>k.
       let off = k * G086_PAGE in
       bnd (xfs_read_range K path G086_PAGE (int off)) (\<lambda>(n, buf).
       bnd (kunit_assert (n = int G086_PAGE)) (\<lambda>_.
       case first_diff buf (map g086_expected [off..<off + G086_PAGE]) of
         None \<Rightarrow> ret True | Some i \<Rightarrow> bnd kunit_fail (\<lambda>_. ret False)))))]"

definition a_write_after_allocate_and_cache_drop_keeps_its_neighbour ::
  "'w kernel \<Rightarrow> (nat \<Rightarrow> 'w \<Rightarrow> int \<times> 'w) \<Rightarrow> (('w, 'z) fxs_scheme, unit) prog" where
  \<comment> \<open>\<open>inval\<close> is \<open>invalidate_inode_pages2\<close> on the file's mapping\<close>
  "a_write_after_allocate_and_cache_drop_keeps_its_neighbour K inval = seq [
     test_prologue K G086_ROOT ''g086_remove_tree'' (g086_remove_tree K),
     must_open (kcall (filp_open K G086_FILE {O_RDWR, O_CREAT, O_TRUNC} (mode3 6 4 4))) (\<lambda>f. seq [
       g086_pwrite K f 0xaa 4096,
       must (kcall (vfs_fallocate K f {} 0 (int G086_SIZE))),
       must_stat K G086_FILE (\<lambda>st. st_size st = int G086_SIZE),
       g086_pwrite K f 0xbb 65536,
       must (kcall (vfs_fsync K f)),
       must (kcall (inval f)),
       g086_pwrite K f 0xdd 67584,
       g086_verify K G086_FILE,
       kdo (filp_close K f)]),
     g086_verify K G086_SERVER]"

definition g086_suite :: "'w kernel \<Rightarrow> (nat \<Rightarrow> 'w \<Rightarrow> int \<times> 'w) \<Rightarrow> ('w, 'z) fxs_scheme suite" where
  "g086_suite K inval = nfs_suite K ''xfstests/generic/086''
     [(''a_write_after_allocate_and_cache_drop_keeps_its_neighbour'',
       a_write_after_allocate_and_cache_drop_keeps_its_neighbour K inval)]"

section \<open>The file and the model\<close>

definition g086_final :: "byte list" where
  \<comment> \<open>the contents after the four steps\<close>
  "g086_final = write_at 67584 (replicate G086_CHUNK 0xdd) (write_at 65536 (replicate G086_CHUNK 0xbb)
     (resize G086_SIZE (write_at 4096 (replicate G086_CHUNK 0xaa) [])))"

lemma length_g086_final [simp]: "length g086_final = G086_SIZE"
  by (simp add: g086_final_def G086_SIZE_def G086_CHUNK_def)

lemma g086_final_nth: "i < G086_SIZE \<Longrightarrow> g086_final ! i = g086_expected i"
  unfolding g086_final_def g086_expected_def
  by (auto simp: nth_write_at nth_resize G086_SIZE_def G086_CHUNK_def)

lemma g086_page:
  assumes "k < G086_SIZE div G086_PAGE"
  shows "read_at (k * G086_PAGE) G086_PAGE g086_final = map g086_expected [k * G086_PAGE..<k * G086_PAGE + G086_PAGE]"
proof -
  have k: "k * G086_PAGE + G086_PAGE \<le> G086_SIZE" using assms by (simp add: G086_SIZE_def G086_PAGE_def)
  show ?thesis by (rule nth_equalityI) (use k in \<open>simp_all add: nth_read_at g086_final_nth\<close>)
qed

context nfs42
begin

lemma g086_pwrite_ok:
  assumes "holds c U (M(p \<mapsto> d)) (H(p \<mapsto> (f, {O_RDWR, O_CREAT, O_TRUNC}))) s" "0 \<le> off" "nat off + G086_CHUNK < size_limit"
    and "\<And>t. holds c U (M(p \<mapsto> write_at (nat off) (replicate G086_CHUNK v) d)) (H(p \<mapsto> (f, {O_RDWR, O_CREAT, O_TRUNC}))) t \<Longrightarrow> Q () t"
  shows "wp (g086_pwrite K f v off) Q s"
  unfolding g086_pwrite_def wp_unfold
  using assms(1)
  apply (rule h_alloc)
  apply (erule h_write_same, (simp add: assms(2,3); fail)+)
  apply (simp add: assms(4))
  done

lemma g086_verify_ok:
  assumes "holds c U M H s" "M G086_FILE = Some g086_final" "\<And>t. holds c U M H t \<Longrightarrow> Q () t"
  shows "wp (g086_verify K G086_FILE) Q s"
  unfolding g086_verify_def wp_unfold
proof (rule h_alloc [OF assms(1)], rule wp_for_while_range [where I = "\<lambda>_. holds c U M H"], assumption, simp, goal_cases)
  case (1 t k u)
  have b: "k * G086_PAGE + G086_PAGE < size_limit" "min G086_PAGE (G086_SIZE - k * G086_PAGE) = G086_PAGE"
    using 1(3) by (simp_all add: G086_SIZE_def G086_PAGE_def size_limit_def)
  then show ?case
    unfolding Let_def wp_bnd
    by (intro h_read_range [OF 1(4) assms(2)]) (auto simp: g086_page [OF 1(3)] b simp del: of_nat_mult)
qed (simp add: assms(3))

lemma g086_verify_server_ok:
  assumes "holds c U M H s" "M G086_FILE = Some g086_final" "H G086_FILE = None" "\<And>t. holds c U M H t \<Longrightarrow> Q () t"
  shows "wp (g086_verify K G086_SERVER) Q s"
proof -
  have srv: "G086_SERVER = XFS_EXPORT @ ''/g086/testfile''" "G086_FILE = XFS_MNT @ ''/g086/testfile''"
    by (simp_all add: G086_SERVER_def G086_FILE_def G086_ROOT_def)
  show ?thesis
    unfolding g086_verify_def wp_unfold srv(1)
  proof (rule h_alloc [OF assms(1)], rule wp_for_while_range [where I = "\<lambda>_. holds c U M H"], assumption, simp, goal_cases)
    case (1 t k u)
    have b: "k * G086_PAGE + G086_PAGE < size_limit" "min G086_PAGE (G086_SIZE - k * G086_PAGE) = G086_PAGE"
    using 1(3) by (simp_all add: G086_SIZE_def G086_PAGE_def size_limit_def)
    then show ?case
      unfolding Let_def wp_bnd
      by (intro h_read_range_server [OF 1(4) assms(2,3) [unfolded srv(2)]]) (auto simp: g086_page [OF 1(3)] b simp del: of_nat_mult)
  qed (simp add: assms(4))
qed

lemma g086_run_ok:
  assumes "ready V ok G086_ROOT s"
  shows "passes (a_write_after_allocate_and_cache_drop_keeps_its_neighbour K inval) s"
proof -
  let ?fl = "{O_RDWR, O_CREAT, O_TRUNC}"
  note simps = G086_SIZE_def G086_CHUNK_def size_limit_def
  show ?thesis
    unfolding passes_def a_write_after_allocate_and_cache_drop_keeps_its_neighbour_def
    apply (simp only: wp_unfold)
    apply (rule h_prologue [where U = "{G086_FILE}", OF assms], simp add: G086_FILE_def)
    apply (erule h_create, (simp; fail)+)
    apply (simp only: wp_unfold)
    apply (erule g086_pwrite_ok, (simp add: simps; fail)+)
    apply (erule h_allocate [where p = G086_FILE and fl = ?fl], (simp add: simps; fail)+)
    apply (intro conjI refl)
    apply (erule h_must_stat, simp, (simp add: simps; fail))
    apply (simp only: fun_upd_upd)
    apply (erule g086_pwrite_ok, (simp add: simps; fail)+)
    apply (erule h_fsync [where p = G086_FILE and fl = ?fl], (simp; fail)+)
    apply (intro conjI refl)
    apply (erule h_inval [where p = G086_FILE and fl = ?fl], (simp; fail)+)
    apply (intro conjI refl)
    apply (erule g086_pwrite_ok, (simp add: simps; fail)+)
    apply (erule g086_verify_ok, (simp add: g086_final_def simps; fail))
    apply (erule h_close [where p = G086_FILE and fl = ?fl], (simp; fail)+)
    apply (erule g086_verify_server_ok, (simp add: g086_final_def simps; fail), (simp; fail))
    apply (drule holds_fails, simp)
    done
qed

end

section \<open>Properties\<close>

text \<open>
  C38: on every exported kernel with allocation that meets the contract, the file has after
  the allocation the allocated size, and after the last write every byte is the model's,
  through the client and from the server: the neighbour written before the pages were
  dropped is intact.
\<close>

theorem neighbour_survives:
  assumes "nfs42 K V ok inval" and "ready V ok G086_ROOT s"
  shows "passes (a_write_after_allocate_and_cache_drop_keeps_its_neighbour K inval) s"
  by (rule nfs42.g086_run_ok [OF assms])

theorem neighbour_survives_witness:
  "passes (a_write_after_allocate_and_cache_drop_keeps_its_neighbour expk mem_inval) (fx0 ())"
  by (rule neighbour_survives [OF sparse.nfs42_axioms]) (simp add: G086_ROOT_def fx0_ready)

end
