(* ===== verification/Gen089.thy ===== *)
theory Gen089
  imports Links
begin

text \<open>
  \<open>kunit/xfstests/generic/089.c\<close>: two hundred cycles of link, same-inode rename and
  unlink, as \<open>mount(8)\<close> kept \<open>/etc/mtab\<close>.
\<close>

definition G089_ROOT :: string where "G089_ROOT = XFS_MNT @ ''/g089''"
definition G089_CYCLES :: nat where "G089_CYCLES = 200"
definition G089_MTAB :: string where "G089_MTAB = G089_ROOT @ ''/mtab''"
definition G089_MTABT :: string where "G089_MTABT = G089_ROOT @ ''/mtab~''"

definition g089_remove_tree :: "'w kernel \<Rightarrow> (('w, 'z) kst_scheme, unit) prog" where
  "g089_remove_tree K =
     seq [ignore (xfs_unlink K G089_MTABT), ignore (xfs_unlink K G089_MTAB), ignore (xfs_rmdir K G089_ROOT)]"

definition g089_cycle :: "'w kernel \<Rightarrow> nat \<Rightarrow> (('w, 'z) kst_scheme, unit) prog" where
  "g089_cycle K i = seq [
     must (xfs_link K G089_MTAB G089_MTABT),
     must_stat K G089_MTAB (\<lambda>st. st_nlink st = 2),
     must (xfs_rename K G089_MTABT G089_MTAB),
     must_ret (xfs_exists K G089_MTABT) (\<lambda>b. b),
     must_stat K G089_MTAB (\<lambda>st. st_nlink st = 2),
     must (xfs_unlink K G089_MTABT),
     must_stat K G089_MTAB (\<lambda>st. st_nlink st = 1)]"

definition link_rename_cycles_keep_nlink_exact :: "'w kernel \<Rightarrow> (('w, 'z) fxs_scheme, unit) prog" where
  "link_rename_cycles_keep_nlink_exact K = seq [
     test_prologue K G089_ROOT ''g089_remove_tree'' (g089_remove_tree K),
     must (xfs_write_new_file K G089_MTAB (map (\<lambda>c. of_char c) ''mnt'')),
     for_each [0..<G089_CYCLES] (g089_cycle K)]"

definition g089_suite :: "'w kernel \<Rightarrow> ('w, 'z) fxs_scheme suite" where
  "g089_suite K = nfs_suite K ''xfstests/generic/089''
     [(''link_rename_cycles_keep_nlink_exact'', link_rename_cycles_keep_nlink_exact K)]"

section \<open>One cycle\<close>

lemma g089_names: "dirname G089_MTAB = G089_ROOT" "dirname G089_MTABT = G089_ROOT"
    "G089_MTAB \<noteq> G089_ROOT" "G089_MTABT \<noteq> G089_ROOT" "G089_MTAB \<noteq> G089_MTABT"
  using dirname_comp [of "''mtab''" G089_ROOT] dirname_comp [of "''mtab~''" G089_ROOT]
  by (simp_all add: G089_MTAB_def G089_MTABT_def)

context posix_kernel
begin

definition g089_at :: "nat \<Rightarrow> nat \<Rightarrow> string set \<Rightarrow> string set \<Rightarrow> ('w, 'z) fxs_scheme \<Rightarrow> bool" where
  "g089_at nf i L F s = (kfails s = nf \<and> linked (kw s) G089_ROOT i L F)"

lemma g089_stat:
  assumes "g089_at nf i L F s" "G089_MTAB \<in> L" "card L = n" and "\<And>t. g089_at nf i L F t \<Longrightarrow> Q () t"
  shows "wp (must_stat K G089_MTAB (\<lambda>st. st_nlink st = n)) Q s"
  by (rule wp_must_stat, rule l_kstat [where L = L]) (use assms in \<open>auto simp: g089_at_def\<close>)

lemma g089_cycle_ok:
  assumes "g089_at nf i {G089_MTAB} {G089_MTABT} s"
  shows "wp (g089_cycle K k) (\<lambda>_. g089_at nf i {G089_MTAB} {G089_MTABT}) s"
  unfolding g089_cycle_def wp_seq_Cons wp_must wp_must_ret
proof (rule l_link [where root = G089_ROOT and i = i and L = "{G089_MTAB}" and F = "{G089_MTABT}"], goal_cases)
  case (4 w)
  let ?two = "g089_at nf i {G089_MTABT, G089_MTAB} {}" and ?one = "g089_at nf i {G089_MTAB} {G089_MTABT}"
  have rename: "wp (xfs_rename K G089_MTABT G089_MTAB) (\<lambda>e t. e = 0 \<and> ?two t) t" if "?two t" for t :: "('w, 'a) fxs_scheme"
    by (rule l_rename_same [where root = G089_ROOT and i = i and L = "{G089_MTABT, G089_MTAB}"])
      (use that in \<open>simp_all add: g089_at_def\<close>)
  have there: "wp (xfs_exists K G089_MTABT) (\<lambda>b t. b \<and> ?two t) t" if "?two t" for t :: "('w, 'a) fxs_scheme"
    by (rule l_exists [where root = G089_ROOT and i = i and L = "{G089_MTABT, G089_MTAB}"])
      (use that in \<open>simp_all add: g089_at_def\<close>)
  have drop: "wp (xfs_unlink K G089_MTABT) (\<lambda>e t. e = 0 \<and> ?one t) t" if "?two t" for t :: "('w, 'a) fxs_scheme"
    by (rule l_unlink [where root = G089_ROOT and i = i and L = "{G089_MTABT, G089_MTAB}" and F = "{}"])
      (use that g089_names(5) in \<open>simp_all add: g089_at_def insert_Diff_if\<close>)
  have "?two (s\<lparr>kw := w\<rparr>)" using 4 assms by (simp add: g089_at_def)
  then have "wp (must_stat K G089_MTAB (\<lambda>st. st_nlink st = 2)) (\<lambda>_.
      wp (xfs_rename K G089_MTABT G089_MTAB) (\<lambda>e t. e = 0 \<and>
      wp (xfs_exists K G089_MTABT) (\<lambda>b t. b \<and>
      wp (must_stat K G089_MTAB (\<lambda>st. st_nlink st = 2)) (\<lambda>_.
      wp (xfs_unlink K G089_MTABT) (\<lambda>e t. e = 0 \<and>
      wp (must_stat K G089_MTAB (\<lambda>st. st_nlink st = 1)) (\<lambda>_. ?one) t)) t) t)) (s\<lparr>kw := w\<rparr>)"
    using g089_names(5)
    by (intro g089_stat [where nf = nf and i = i and L = "{G089_MTABT, G089_MTAB}" and F = "{}"] wp_mono [OF rename]
        wp_mono [OF there] wp_mono [OF drop] conjI g089_stat [where nf = nf and i = i and L = "{G089_MTAB}"]) simp_all
  then show ?case by simp
qed (use assms in \<open>simp_all add: g089_at_def\<close>)

lemma g089_run_ok:
  assumes "ready V ok G089_ROOT s"
  shows "passes (link_rename_cycles_keep_nlink_exact K) s"
  unfolding passes_def link_rename_cycles_keep_nlink_exact_def wp_seq_Cons wp_must
proof (rule wp_test_prologue [OF assms], goal_cases)
  case (1 w1 d)
  note free = 1(4,5)
  show ?case
  proof (rule f_write_new, goal_cases)
    case (4 w2 i)
    have "is_dir (V w2) G089_ROOT" "names (V w2) G089_MTABT = None"
      using 4(5) [of G089_MTABT] free g089_names by (auto simp: absent_def)
    then have "linked w2 G089_ROOT i {G089_MTAB} {G089_MTABT}"
      using 4 file_on_has [OF 4(1)] g089_names by (auto simp: linked_def file_on_def closed_def)
    then show ?case
      unfolding wp_seq_Nil
      by (intro conjI refl wp_for_range [where I = "\<lambda>_. g089_at (kfails s) i {G089_MTAB} {G089_MTABT}"])
        (auto simp: g089_at_def intro: wp_mono [OF g089_cycle_ok])
  qed (use 1(1) free g089_names in \<open>auto simp: absent_def size_limit_def\<close>)
qed

end

end
