(* ===== verification/Readdir.thy ===== *)
theory Readdir
  imports Symlinks
begin

text \<open>
  Reading directories.  \<open>iterate_dir\<close> is kernel code and a parameter: one call hands a batch
  of entries to the caller's actor, and every actor of the program takes all it is given, so
  that a call is a fold of the actor over the batch.  The locale \<open>readdir\<close> says what
  readdir(3) and rewinddir(3) promise: the stream of a directory just opened or rewound
  holds \<open>.\<close>, \<open>..\<close> and each entry once with its type, a call takes a batch off its front that
  is empty only at the end, and nothing is said of entries that change in between.  The
  locale \<open>readdir_batch\<close> adds a lower bound on the size of a batch.
\<close>

section \<open>The code\<close>

type_synonym 'w iterate = "nat \<Rightarrow> 'w \<Rightarrow> (int \<times> dirent list) \<times> 'w"

definition iterate_dir :: "'w iterate \<Rightarrow> ('c \<Rightarrow> dirent \<Rightarrow> 'c) \<Rightarrow> nat \<Rightarrow> 'c \<Rightarrow> (('w, 'z) kst_scheme, int \<times> 'c) prog" where
  "iterate_dir iterate actor d it = bnd (kcall (iterate d)) (\<lambda>(r, batch). ret (r, foldl actor it batch))"

text \<open>
  The loop of \<open>401.c\<close>, \<open>453.c\<close> and \<open>471.c\<close>: batches are read until one leaves the number of entries
  seen as it was.  Each batch but the last holds an entry, and no directory of theirs has more than 18.
\<close>

definition READDIR_FUEL :: nat where "READDIR_FUEL = 64"

definition readdir_all ::
  "'w iterate \<Rightarrow> ('c \<Rightarrow> dirent \<Rightarrow> 'c) \<Rightarrow> ('c \<Rightarrow> nat) \<Rightarrow> nat \<Rightarrow> 'c \<Rightarrow> (('w, 'z) kst_scheme, 'c) prog" where
  "readdir_all iterate actor tot d it = loop_fuel READDIR_FUEL (\<lambda>it.
     bnd (iterate_dir iterate actor d it) (\<lambda>(r, it').
     bnd (kunit_assert (r = 0)) (\<lambda>_.
     ret (if tot it < tot it' then Inl it' else Inr it')))) it"

abbreviation is_dot :: "string \<Rightarrow> bool" where
  \<comment> \<open>\<open>.\<close> or \<open>..\<close>, as the actors test it\<close>
  "is_dot n \<equiv> length n = 1 \<and> n ! 0 = CHR ''.'' \<or> length n = 2 \<and> n ! 0 = CHR ''.'' \<and> n ! 1 = CHR ''.''"

definition dots :: "string set" where "dots = {''.'', ''..''}"

lemma is_dot_iff: "is_dot n \<longleftrightarrow> n \<in> dots"
  unfolding dots_def by (cases n; cases "tl n"; cases "tl (tl n)") auto

section \<open>Listings\<close>

definition listing :: "fsv \<Rightarrow> string \<Rightarrow> dirent list \<Rightarrow> bool" where
  "listing v p es = (distinct (map fst es) \<and>
     fst ` set es = dots \<union> {n. plain n \<and> n \<notin> dots \<and> names v (p @ ''/'' @ n) \<noteq> None} \<and>
     (\<forall>(n, t) \<in> set es. n \<notin> dots \<longrightarrow> t = dt_of (i_type (inodes v (the (names v (p @ ''/'' @ n)))))))"

definition t_listing :: "dtree \<Rightarrow> string \<Rightarrow> dirent list \<Rightarrow> bool" where
  "t_listing T p es = (distinct (map fst es) \<and>
     fst ` set es = dots \<union> {n. plain n \<and> n \<notin> dots \<and> T (p @ ''/'' @ n) \<noteq> None} \<and>
     (\<forall>(n, t) \<in> set es. n \<notin> dots \<longrightarrow> t = dt_of (ntype (the (T (p @ ''/'' @ n))))))"

lemma t_listing_entry:
  "\<lbrakk>t_listing T p es; (n, t) \<in> set es\<rbrakk> \<Longrightarrow> n \<in> dots \<or> plain n \<and> (\<exists>x. T (p @ ''/'' @ n) = Some x \<and> t = dt_of (ntype x))"
proof -
  assume l: "t_listing T p es" and e: "(n, t) \<in> set es"
  have "n \<in> fst ` set es" using e by force
  moreover have "n \<notin> dots \<longrightarrow> t = dt_of (ntype (the (T (p @ ''/'' @ n))))" using l e unfolding t_listing_def by blast
  ultimately show ?thesis using l unfolding t_listing_def by auto
qed

lemma t_listing_has:
  "\<lbrakk>t_listing T p es; T (p @ ''/'' @ n) = Some x; plain n; n \<notin> dots\<rbrakk> \<Longrightarrow> (n, dt_of (ntype x)) \<in> set es"
proof -
  assume l: "t_listing T p es" and n: "T (p @ ''/'' @ n) = Some x" "plain n" "n \<notin> dots"
  then have "n \<in> fst ` set es" unfolding t_listing_def by auto
  then obtain t where t: "(n, t) \<in> set es" by force
  then show ?thesis using t_listing_entry [OF l t] n by auto
qed

text \<open>The entries of a directory, as a map from their names.\<close>

definition dir_tree :: "string \<Rightarrow> (string \<rightharpoonup> node) \<Rightarrow> dtree \<Rightarrow> bool" where
  "dir_tree dir M T = (t_dir T dir \<and> (\<forall>n. plain n \<longrightarrow> T (dir @ ''/'' @ n) = M n))"

lemma dir_treeD: "dir_tree dir M T \<Longrightarrow> plain n \<Longrightarrow> T (dir @ CHR ''/'' # n) = M n" "dir_tree dir M T \<Longrightarrow> t_dir T dir"
  by (simp_all add: dir_tree_def)

lemma plain_dirname [simp]: "plain n \<Longrightarrow> dirname (dir @ CHR ''/'' # n) = dir"
  by (simp add: plain_def dirname_comp)

lemma dir_tree_upd: "\<lbrakk>dir_tree dir M T; p = dir @ CHR ''/'' # n\<rbrakk> \<Longrightarrow> dir_tree dir (M(n := x)) (T(p := x))"
  by (simp add: dir_tree_def t_dir_def)

lemma dir_listing:
  assumes "t_listing T dir es" "dir_tree dir M T" "dom M \<subseteq> {n. plain n \<and> n \<notin> dots}"
  shows "fst ` set es = dots \<union> dom M"
    and "\<And>n t. \<lbrakk>(n, t) \<in> set es; n \<notin> dots\<rbrakk> \<Longrightarrow> \<exists>x. M n = Some x \<and> t = dt_of (ntype x)"
    and "\<And>n x. M n = Some x \<Longrightarrow> (n, dt_of (ntype x)) \<in> set es"
proof -
  have M: "{n. plain n \<and> n \<notin> dots \<and> T (dir @ ''/'' @ n) \<noteq> None} = dom M"
    using assms(2,3) by (auto simp: dir_tree_def)
  show "fst ` set es = dots \<union> dom M" using assms(1) unfolding t_listing_def M by blast
  show "\<exists>x. M n = Some x \<and> t = dt_of (ntype x)" if "(n, t) \<in> set es" "n \<notin> dots" for n t
    using t_listing_entry [OF assms(1) that(1)] that(2) dir_treeD(1) [OF assms(2), of n] by auto
  show "(n, dt_of (ntype x)) \<in> set es" if n: "M n = Some x" for n x
  proof -
    have "plain n" "n \<notin> dots" using n assms(3) by auto
    then show ?thesis using t_listing_has [OF assms(1)] dir_treeD(1) [OF assms(2), of n] n by simp
  qed
qed

lemma dir_tree_other: "\<lbrakk>dir_tree dir M T; dirname p \<noteq> dir; p \<noteq> dir\<rbrakk> \<Longrightarrow> dir_tree dir M (T(p := x))"
  by (auto simp: dir_tree_def t_dir_def)

text \<open>One component of what an actor collects, and the two ways the actors count.\<close>

lemma fold_count:
  assumes "\<And>it e. (g (actor it e) :: 'a :: semiring_1) = (if P e then g it + 1 else g it)"
  shows "g (foldl actor it es) = g it + of_nat (length (filter P es))"
  by (induction es arbitrary: it) (simp_all add: assms add_ac)

definition bump :: "('b \<Rightarrow> nat option) \<Rightarrow> byte list \<Rightarrow> 'b \<Rightarrow> byte list" where
  "bump f xs e = (case f e of None \<Rightarrow> xs | Some k \<Rightarrow> xs[k := xs ! k + 1])"

lemma fold_bump:
  assumes "\<And>it e. g (actor it e) = bump f (g it) e" "k < length (g it)"
  shows "g (foldl actor it es) ! k = g it ! k + of_nat (length (filter (\<lambda>e. f e = Some k) es))"
  using assms(2)
proof (induction es arbitrary: it)
  case (Cons e es)
  have "k < length (g (actor it e))" using Cons.prems by (simp add: assms(1) bump_def split: option.split)
  from Cons.IH [OF this] show ?case
    using Cons.prems by (auto simp: assms(1) bump_def nth_list_update split: option.split)
qed simp

lemma fold_length:
  assumes "\<And>it e. length (g (actor it e)) = length (g it)"
  shows "length (g (foldl actor it es)) = length (g it)"
  by (induction es arbitrary: it) (simp_all add: assms)

text \<open>A slot that each entry leading to it sets to the same value.\<close>

lemma fold_assign:
  assumes "\<And>it e. g (actor it e) = (case f e of None \<Rightarrow> g it | Some k \<Rightarrow> (g it)[k := h e])"
    and "\<forall>e\<in>set es. f e = Some k \<longrightarrow> h e = v" "\<exists>e\<in>set es. f e = Some k" "k < length (g it)"
  shows "g (foldl actor it es) ! k = v"
proof -
  have "length (g (actor it e)) = length (g it)" for it e by (simp add: assms(1) split: option.split)
  note len = fold_length [of g actor, OF this]
  have "g (foldl actor it es) ! k = (if \<exists>e\<in>set es. f e = Some k then v else g it ! k)"
    using assms(2)
  proof (induction es rule: rev_induct)
    case (snoc e es)
    then show ?case
      using assms(4) len [of it es] by (cases "f e = Some k") (auto simp: assms(1) split: option.split)
  qed simp
  then show ?thesis using assms(3) by simp
qed

text \<open>How many entries of a listing carry a name.\<close>

lemma count_name:
  "distinct (map fst es) \<Longrightarrow> length (filter (\<lambda>e. fst e = n) es) = (if n \<in> fst ` set es then 1 else 0)"
proof (induction es)
  case (Cons e es)
  then show ?case by (cases e) (auto simp: filter_empty_conv image_iff)
qed simp

lemma listing_length:
  assumes "t_listing T p es" "fst ` set es \<subseteq> set ns"
  shows "length es \<le> length ns"
proof -
  have "length es = card (set (map fst es))"
    using assms(1) distinct_card [of "map fst es"] by (simp add: t_listing_def)
  also have "\<dots> \<le> card (set ns)" using assms(2) by (intro card_mono) auto
  also have "\<dots> \<le> length ns" by (rule card_length)
  finally show ?thesis .
qed

context posix_kernel
begin

lemma tree_listing:
  assumes "tree root T w" "t_dir T p" "listing (V w) p es"
  shows "t_listing T p es"
proof -
  have b: "shows_as (V w) (p @ ''/'' @ n) (T (p @ ''/'' @ n))" if "plain n" for n
  proof -
    have "dirname (p @ ''/'' @ n) = p" using dirname_comp [of n p] that by (simp add: plain_def)
    then show ?thesis using treeD(4) [OF assms(1)] tree_beneath [OF assms(1), of "p @ ''/'' @ n"] assms(2) by simp
  qed
  have n: "names (V w) (p @ ''/'' @ n) = map_option ino (T (p @ ''/'' @ n))" if "plain n" for n
    using shows_names [OF b [OF that]] .
  have "{n. plain n \<and> n \<notin> dots \<and> names (V w) (p @ ''/'' @ n) \<noteq> None} =
      {n. plain n \<and> n \<notin> dots \<and> T (p @ ''/'' @ n) \<noteq> None}"
    using n by auto
  moreover have "t = dt_of (ntype (the (T (p @ ''/'' @ n))))" if "(n, t) \<in> set es" "n \<notin> dots" for n t
  proof -
    have "n \<in> fst ` set es" using that(1) by force
    then have e: "plain n" "names (V w) (p @ ''/'' @ n) \<noteq> None"
      using assms(3) that(2) unfolding listing_def by auto
    have d: "t = dt_of (i_type (inodes (V w) (the (names (V w) (p @ ''/'' @ n)))))"
      using assms(3) that unfolding listing_def by blast
    obtain x where x: "T (p @ ''/'' @ n) = Some x" using n [OF e(1)] e(2) by (cases "T (p @ ''/'' @ n)") auto
    then show ?thesis using b [OF e(1)] n [OF e(1)] d shows_type [of "V w" "p @ ''/'' @ n" x] by simp
  qed
  ultimately show ?thesis using assms(3) unfolding listing_def t_listing_def by auto
qed

end

section \<open>The contract\<close>

locale readdir = tree_kernel K V ok
  for K :: "'w kernel" and V :: "'w \<Rightarrow> fsv" and ok :: "'w \<Rightarrow> bool" +
  fixes iterate :: "'w iterate" and seek :: "nat \<Rightarrow> int \<Rightarrow> whence \<Rightarrow> 'w \<Rightarrow> int \<times> 'w" and todo :: "'w \<Rightarrow> nat \<Rightarrow> dirent list"
  assumes open_dir: "\<lbrakk>ok w; names (V w) p = Some i; i_type (inodes (V w) i) = S_DIR; fl = {O_RDONLY, O_DIRECTORY};
        filp_open K p fl m w = (rf, w')\<rbrakk> \<Longrightarrow>
      \<exists>h. rf = Inr h \<and> fds (V w) h = None \<and> ok w' \<and> V w' = (V w)\<lparr>fds := (fds (V w))(h \<mapsto> (i, fl))\<rparr> \<and> listing (V w) p (todo w' h)"
    and iterate: "\<lbrakk>ok w; fds (V w) h = Some (i, fl); i_type (inodes (V w) i) = S_DIR; iterate h w = ((r, batch), w')\<rbrakk> \<Longrightarrow>
      r = 0 \<and> ok w' \<and> V w' = V w \<and> todo w h = batch @ todo w' h \<and> (batch = [] \<longrightarrow> todo w h = [])"
    and rewind: "\<lbrakk>ok w; fds (V w) h = Some (i, fl); i_type (inodes (V w) i) = S_DIR; names (V w) p = Some i; seek h 0 SEEK_SET w = (r, w')\<rbrakk> \<Longrightarrow>
      r = 0 \<and> ok w' \<and> V w' = V w \<and> listing (V w) p (todo w' h)"
    and mknod: "\<lbrakk>ok w; absent (V w) p; special_type md = Some t; do_mknodat K p md a b w = (r, w')\<rbrakk> \<Longrightarrow>
      r = 0 \<and> ok w' \<and> (\<exists>i. fresh (V w) i \<and> V w' = add_name p i (new_inode t [] (md mod 4096)) (V w))"
begin

text \<open>A tree with a directory of it open.\<close>

definition dholds :: "nat \<times> string list \<times> 'z \<Rightarrow> string \<Rightarrow> dtree \<Rightarrow> nat \<Rightarrow> string \<Rightarrow> ('w, 'z) kst_scheme \<Rightarrow> bool" where
  "dholds c root T h p s = (tholds c root T s \<and>
     (\<exists>i. T p = Some (Dir i) \<and> fds (V (kw s)) h = Some (i, {O_RDONLY, O_DIRECTORY})))"

lemma dholdsD: "dholds c root T h p s \<Longrightarrow> tholds c root T s"
  by (simp add: dholds_def)

lemma dholds_open:
  assumes "dholds c root T h p s"
  obtains i where "fds (V (kw s)) h = Some (i, {O_RDONLY, O_DIRECTORY})" "names (V (kw s)) p = Some i"
    "i_type (inodes (V (kw s)) i) = S_DIR" "ok (kw s)" "tree root T (kw s)" "t_dir T p"
proof -
  obtain i where i: "T p = Some (Dir i)" "fds (V (kw s)) h = Some (i, {O_RDONLY, O_DIRECTORY})" and t: "tree root T (kw s)"
    using assms tholdsD(1) [OF dholdsD [OF assms]] unfolding dholds_def by blast
  show thesis
    by (rule that [of i]) (use i t treeD(1) [OF t] tree_in [OF t i(1)] in \<open>auto simp: t_dir_def\<close>)
qed

lemma dholds_same: "\<lbrakk>dholds c root T h p s; ok w; V w = V (kw s)\<rbrakk> \<Longrightarrow> dholds c root T h p (s\<lparr>kw := w\<rparr>)"
  by (simp add: dholds_def tholds_same)

lemma d_open:
  assumes "tholds c root T s" "t_dir T p"
    and "\<And>h t. \<lbrakk>dholds c root T h p t; t_listing T p (todo (kw t) h)\<rbrakk> \<Longrightarrow> Q (Inr h) t"
  shows "wp (kcall (filp_open K p {O_RDONLY, O_DIRECTORY} m)) Q s"
proof (rule wp_kcallI)
  note t = tholdsD(1) [OF assms(1)]
  fix a w' assume call: "filp_open K p {O_RDONLY, O_DIRECTORY} m (kw s) = (a, w')"
  obtain i where i: "T p = Some (Dir i)" using assms(2) by (auto simp: t_dir_def)
  note sh = tree_in [OF t i]
  obtain h where h: "a = Inr h" "fds (V (kw s)) h = None" "ok w'"
      "V w' = (V (kw s))\<lparr>fds := (fds (V (kw s)))(h \<mapsto> (i, {O_RDONLY, O_DIRECTORY}))\<rparr>" "listing (V (kw s)) p (todo w' h)"
    using open_dir [OF treeD(1) [OF t] _ _ refl call, of i] sh by auto
  have ni: "ino n \<noteq> i" if "T q = Some n" "ntype n \<noteq> S_DIR" for q n
    using shows_type [OF tree_in [OF t that(1)]] that(2) sh by auto
  have "tree root T w'"
  proof -
    have "shows_as (V w') q (T q)" if q: "q = root \<or> beneath root q" for q
    proof (cases "T q")
      case None
      then show ?thesis using treeD(4) [OF t q] h(4) by simp
    next
      case (Some n)
      show ?thesis
        using treeD(4) [OF t q] ni [OF Some] h(4) unfolding Some by (cases n) (auto simp: closed_def data_of_def)
    qed
    then show ?thesis using t h(3) by (simp add: tree_def)
  qed
  then have "dholds c root T h p (s\<lparr>kw := w'\<rparr>)" using assms(1) i h(4) by (auto simp: dholds_def tholds_def)
  then show "Q a (s\<lparr>kw := w'\<rparr>)"
    unfolding h(1) by (rule assms(3)) (use tree_listing [OF t assms(2) h(5)] in simp)
qed

lemma d_close:
  assumes "dholds c root T h p s" and "\<And>t. tholds c root T t \<Longrightarrow> Q () t"
  shows "wp (kdo (filp_close K h)) Q s"
proof -
  obtain i where i: "fds (V (kw s)) h = Some (i, {O_RDONLY, O_DIRECTORY})" "ok (kw s)" "tree root T (kw s)"
    using assms(1) by (rule dholds_open)
  show ?thesis
  proof (rule wp_close [OF i(2,1)], rule assms(2), rule tholds_kw [OF dholdsD [OF assms(1)]])
    fix w' assume w': "ok w'" "V w' = (V (kw s))\<lparr>fds := (fds (V (kw s)))(h := None)\<rparr>"
    have "shows_as (V w') q (T q)" if q: "q = root \<or> beneath root q" for q
      by (rule shows_keep [OF treeD(4) [OF i(3) q]]) (use w' in \<open>auto simp: same_inode_def closed_def data_of_def\<close>)
    then show "tree root T w'" using i(3) w'(1) by (simp add: tree_def)
  qed
qed

lemma d_iterate:
  assumes "dholds c root T h p s"
    and "\<And>t batch. \<lbrakk>dholds c root T h p t; todo (kw s) h = batch @ todo (kw t) h; batch = [] \<longrightarrow> todo (kw s) h = []\<rbrakk> \<Longrightarrow>
           Q (0, foldl actor it batch) t"
  shows "wp (iterate_dir iterate actor h it) Q s"
  unfolding iterate_dir_def wp_bnd
proof (rule wp_kcallI)
  fix a w' assume call: "iterate h (kw s) = (a, w')"
  obtain r batch where a: "a = (r, batch)" by (cases a)
  obtain i where i: "fds (V (kw s)) h = Some (i, {O_RDONLY, O_DIRECTORY})" "i_type (inodes (V (kw s)) i) = S_DIR" "ok (kw s)"
    using assms(1) by (rule dholds_open)
  have *: "r = 0" "ok w'" "V w' = V (kw s)" "todo (kw s) h = batch @ todo w' h" "batch = [] \<longrightarrow> todo (kw s) h = []"
    using local.iterate [OF i(3,1,2) call [unfolded a]] by blast+
  have "Q (0, foldl actor it batch) (s\<lparr>kw := w'\<rparr>)"
    by (rule assms(2) [OF dholds_same [OF assms(1) *(2,3)]]) (use *(4,5) in simp_all)
  then show "wp (case a of (r, batch) \<Rightarrow> ret (r, foldl actor it batch)) Q (s\<lparr>kw := w'\<rparr>)" by (simp add: a *(1))
qed

lemma foldl_total: "(\<And>it e. tot (actor it e) = Suc (tot it)) \<Longrightarrow> tot (foldl actor it es) = tot it + length es"
  by (induction es arbitrary: it) simp_all

lemma d_all:
  assumes "dholds c root T h p s" "\<And>it e. tot (actor it e) = Suc (tot it)" "length (todo (kw s) h) < READDIR_FUEL"
    and "\<And>t. dholds c root T h p t \<Longrightarrow> Q (foldl actor it (todo (kw s) h)) t"
  shows "wp (readdir_all iterate actor tot h it) Q s"
  unfolding readdir_all_def
proof (rule wp_loop_fuel [where mu = "\<lambda>_ t. length (todo (kw t) h)" and
      I = "\<lambda>l t. dholds c root T h p t \<and> foldl actor l (todo (kw t) h) = foldl actor it (todo (kw s) h)"], goal_cases)
  case (3 l t)
  show ?case
    unfolding wp_bnd
  proof (rule d_iterate [OF conjunct1 [OF 3]], unfold prod.case wp_bnd wp_kunit_assert wp_ret, intro conjI refl, goal_cases)
    case (1 u batch)
    show ?case
    proof (cases batch)
      case Nil
      then show ?thesis using 1 3 assms(4) [OF 1(1)] by simp
    next
      case Cons
      then show ?thesis using 1 3 by (simp add: foldl_total [where tot = tot, OF assms(2)] assms(2))
    qed
  qed
qed (use assms(1,3) in simp_all)

lemma d_rewind:
  assumes "dholds c root T h p s" and "\<And>t. \<lbrakk>dholds c root T h p t; t_listing T p (todo (kw t) h)\<rbrakk> \<Longrightarrow> Q 0 t"
  shows "wp (kcall (seek h 0 SEEK_SET)) Q s"
proof (rule wp_kcallI)
  fix a w' assume call: "seek h 0 SEEK_SET (kw s) = (a, w')"
  obtain i where i: "fds (V (kw s)) h = Some (i, {O_RDONLY, O_DIRECTORY})" "names (V (kw s)) p = Some i"
      "i_type (inodes (V (kw s)) i) = S_DIR" "ok (kw s)" "tree root T (kw s)" "t_dir T p"
    using assms(1) by (rule dholds_open)
  from rewind [OF i(4,1,3,2) call] assms(2) [OF dholds_same [OF assms(1)], of w'] tree_listing [OF i(5,6), of "todo w' h"]
  show "Q a (s\<lparr>kw := w'\<rparr>)" by simp
qed

lemma d_write_new:
  assumes "dholds c root T h p s" "T q = None" "t_dir T (dirname q)" "length d < size_limit"
    and "\<And>t i. \<lbrakk>dholds c root (T(q \<mapsto> Reg i d)) h p t; new_ino T i\<rbrakk> \<Longrightarrow> Q 0 t"
  shows "wp (xfs_write_new_file K q d) Q s"
proof (rule xfs_write_new_file_new, goal_cases)
  note t = tholdsD(1) [OF dholdsD [OF assms(1)]]
  { case 1 show ?case by (rule treeD(1) [OF t]) }
  { case 2 show ?case by (rule tree_absent [OF t assms(2,3)]) }
  { case 3 show ?case by (rule assms(4)) }
  { case (4 w i)
    then have "tree root (T(q \<mapsto> Reg i d)) w"
      by (intro tree_insert [OF t assms(3)]) (auto simp: closed_def data_of_def, auto simp: fresh_def)
    then have "dholds c root (T(q \<mapsto> Reg i d)) h p (s\<lparr>kw := w\<rparr>)"
      using assms(1,2) 4(3) tholds_kw [OF dholdsD [OF assms(1)], of _ w] by (auto simp: dholds_def)
    then show ?case by (rule assms(5)) (rule fresh_new [OF t 4(2)]) }
qed

lemma t_mknod:
  assumes "tholds c root T s" "T p = None" "t_dir T (dirname p)" "special_type md = Some ty"
    and "\<And>t n. \<lbrakk>tholds c root (T(p \<mapsto> n)) t; ntype n = ty\<rbrakk> \<Longrightarrow> Q 0 t"
  shows "wp (xfs_mknod K p md a b) Q s"
  unfolding xfs_mknod_def
proof (rule wp_kcallI)
  note t = tholdsD(1) [OF assms(1)]
  fix r w' assume call: "do_mknodat K p md a b (kw s) = (r, w')"
  from mknod [OF treeD(1) [OF t] tree_absent [OF t assms(2,3)] assms(4) call]
  obtain i where i: "r = 0" "ok w'" "fresh (V (kw s)) i" "V w' = add_name p i (new_inode ty [] (md mod 4096)) (V (kw s))" by blast
  have "ty = S_FIFO \<or> ty = S_CHR \<or> ty = S_BLK" using assms(4) by (auto simp: special_type_def Let_def split: if_splits)
  moreover define n where "n = (if ty = S_FIFO then Fifo i else if ty = S_CHR then Chr i else Blk i)"
  ultimately have n: "ntype n = ty" "ino n = i" "n = Fifo i \<or> n = Chr i \<or> n = Blk i" by auto
  have cl: "closed (V w') i" using fresh_closed [OF i(3)] i(4) by (simp add: closed_def)
  have sh: "shows_as (V w') p (Some n)"
    using n(3) by (elim disjE) (use i(4) n(1) cl in simp_all)
  have "tree root (T(p \<mapsto> n)) w'"
    by (rule tree_insert [OF t assms(3) i(2,3) _ sh n(2)]) (use i(4) in auto)
  then show "Q r (s\<lparr>kw := w'\<rparr>)" using assms(5) [OF tholds_kw [OF assms(1)]] n(1) i(1) by simp
qed

end

text \<open>
  A kernel that hands over at least \<open>least\<close> entries where that many are left.  With 0 the
  law says nothing; how much a call delivers is the kernel's choice.
\<close>

locale readdir_batch = readdir K V ok iterate seek todo
  for K :: "'w kernel" and V :: "'w \<Rightarrow> fsv" and ok :: "'w \<Rightarrow> bool" and iterate :: "'w iterate"
    and seek :: "nat \<Rightarrow> int \<Rightarrow> whence \<Rightarrow> 'w \<Rightarrow> int \<times> 'w" and todo :: "'w \<Rightarrow> nat \<Rightarrow> dirent list" +
  fixes least :: nat
  assumes least: "\<lbrakk>ok w; fds (V w) h = Some (i, fl); i_type (inodes (V w) i) = S_DIR; iterate h w = ((r, batch), w')\<rbrakk> \<Longrightarrow>
      least \<le> length batch \<or> todo w' h = []"
begin

text \<open>One call on a directory of at most \<open>least\<close> entries delivers them all.\<close>

lemma d_iterate_batch:
  assumes "dholds c root T h p s"
    and "\<And>t batch. \<lbrakk>dholds c root T h p t; todo (kw s) h = batch @ todo (kw t) h;
           length (todo (kw s) h) \<le> least \<longrightarrow> batch = todo (kw s) h\<rbrakk> \<Longrightarrow> Q (0, foldl actor it batch) t"
  shows "wp (iterate_dir iterate actor h it) Q s"
  unfolding iterate_dir_def wp_bnd
proof (rule wp_kcallI)
  fix a w' assume call: "iterate h (kw s) = (a, w')"
  obtain r batch where a: "a = (r, batch)" by (cases a)
  obtain i where i: "fds (V (kw s)) h = Some (i, {O_RDONLY, O_DIRECTORY})" "i_type (inodes (V (kw s)) i) = S_DIR" "ok (kw s)"
    using assms(1) by (rule dholds_open)
  note it = local.iterate [OF i(3,1,2) call [unfolded a]] and le = least [OF i(3,1,2) call [unfolded a]]
  have "batch = todo (kw s) h" if "length (todo (kw s) h) \<le> least"
  proof -
    have "length batch + length (todo w' h) \<le> least" using it that by simp
    then have "todo w' h = []" using le by (cases "todo w' h") auto
    then show ?thesis using it by simp
  qed
  then show "wp (case a of (r, batch) \<Rightarrow> ret (r, foldl actor it batch)) Q (s\<lparr>kw := w'\<rparr>)"
    using assms(2) [OF dholds_same [OF assms(1)], of w' batch] it by (simp add: a)
qed

end

section \<open>The in-memory kernel\<close>

text \<open>Batches of at most \<open>Suc b\<close> entries; a rewind finds the directory by its inode.\<close>

definition mem_iterate :: "nat option \<Rightarrow> memw iterate" where
  "mem_iterate b h w = (let es = m_dirs w h; k = (case b of None \<Rightarrow> length es | Some n \<Rightarrow> Suc n)
     in ((0, take k es), w\<lparr>m_dirs := (m_dirs w)(h := drop k es)\<rparr>))"

definition mem_rewind :: "nat \<Rightarrow> int \<Rightarrow> whence \<Rightarrow> memw \<Rightarrow> int \<times> memw" where
  "mem_rewind h off wh w = on_fd h w (- EINVAL, w) (\<lambda>i _.
     case List.find (\<lambda>p. names (mv w) p = Some i) (m_names w) of
       None \<Rightarrow> (- EINVAL, w)
     | Some p \<Rightarrow> (off, w\<lparr>m_dirs := (m_dirs w)(h := mem_listing p w)\<rparr>))"

lemma pair_image: "(n, t) \<in> (\<lambda>q. (c q, d q)) ` A \<Longrightarrow> \<exists>q\<in>A. n = c q \<and> t = d q"
  by auto

lemma mem_listing_ok:
  assumes "mem_ok w"
  shows "listing (mv w) p (mem_listing p w)"
proof -
  let ?c = "\<lambda>q. drop (Suc (length p)) q"
  let ?P = "\<lambda>q. dirname q = p \<and> q = p @ CHR ''/'' # ?c q \<and> ?c q \<notin> {[], ''.'', ''..''} \<and> names (mv w) q \<noteq> None"
  let ?qs = "remdups (filter ?P (m_names w))"
  have fst: "map fst (mem_listing p w) = ''.'' # ''..'' # map ?c ?qs"
    by (simp add: mem_listing_def comp_def)
  have inj: "inj_on ?c (set ?qs)"
  proof (rule inj_onI)
    fix a b assume "a \<in> set ?qs" "b \<in> set ?qs" and e: "?c a = ?c b"
    then have "a = p @ CHR ''/'' # ?c a" "b = p @ CHR ''/'' # ?c b" by simp_all
    then show "a = b" using e by simp
  qed
  have noslash: "CHR ''/'' \<notin> set n" if "dirname (p @ CHR ''/'' # n) = p" for n
  proof
    assume "CHR ''/'' \<in> set n"
    then obtain a b where n: "n = a @ CHR ''/'' # b" "CHR ''/'' \<notin> set b" by (meson split_list_last)
    then have "dirname (p @ CHR ''/'' # n) = p @ CHR ''/'' # a" using dirname_comp [of b "p @ CHR ''/'' # a"] by simp
    then show False using that by simp
  qed
  have q: "?P q \<and> q \<in> set (m_names w) \<longleftrightarrow> (\<exists>n. q = p @ ''/'' @ n \<and> plain n \<and> n \<notin> dots \<and> names (mv w) q \<noteq> None)" for q
  proof
    assume a: "?P q \<and> q \<in> set (m_names w)"
    then have "CHR ''/'' \<notin> set (?c q)" using noslash [of "?c q"] by simp
    then show "\<exists>n. q = p @ ''/'' @ n \<and> plain n \<and> n \<notin> dots \<and> names (mv w) q \<noteq> None"
      using a by (intro exI [of _ "?c q"]) (simp add: plain_def dots_def)
  next
    assume "\<exists>n. q = p @ ''/'' @ n \<and> plain n \<and> n \<notin> dots \<and> names (mv w) q \<noteq> None"
    then obtain n where n: "q = p @ ''/'' @ n" "plain n" "n \<notin> dots" "names (mv w) q \<noteq> None" by blast
    have "dirname q = p" using dirname_comp [of n p] n(1,2) by (simp add: plain_def)
    then show "?P q \<and> q \<in> set (m_names w)"
      using n mem_ok_namesD [OF assms, of q] by (auto simp: plain_def dots_def)
  qed
  have set: "?c ` set ?qs = {n. plain n \<and> n \<notin> dots \<and> names (mv w) (p @ ''/'' @ n) \<noteq> None}"
  proof -
    have "set ?qs = {q. \<exists>n. q = p @ ''/'' @ n \<and> plain n \<and> n \<notin> dots \<and> names (mv w) q \<noteq> None}"
      using q by auto
    also have "\<dots> = (\<lambda>n. p @ ''/'' @ n) ` {n. plain n \<and> n \<notin> dots \<and> names (mv w) (p @ ''/'' @ n) \<noteq> None}" by auto
    finally show ?thesis by (simp add: image_image)
  qed
  have nd: "?c ` set ?qs \<inter> dots = {}" unfolding set by blast
  have "distinct (map fst (mem_listing p w))"
  proof -
    have d: "distinct (a # b # map f xs)" if "a \<noteq> b" "a \<notin> f ` set xs" "b \<notin> f ` set xs" "distinct xs" "inj_on f (set xs)"
      for a b and f :: "string \<Rightarrow> string" and xs using that by (simp add: distinct_map)
    have "''.'' \<notin> ?c ` set ?qs" "''..'' \<notin> ?c ` set ?qs" using nd unfolding dots_def by blast+
    then show ?thesis unfolding fst by (intro d inj distinct_remdups) simp_all
  qed
  moreover have "fst ` set (mem_listing p w) = dots \<union> ?c ` set ?qs"
    using arg_cong [OF fst, of set] by (simp add: dots_def)
  moreover have "t = dt_of (i_type (inodes (mv w) (the (names (mv w) (p @ ''/'' @ n)))))"
    if e: "(n, t) \<in> set (mem_listing p w)" and n: "n \<notin> dots" for n t
  proof -
    define d where "d = (\<lambda>q. dt_of (i_type (inodes (mv w) (the (names (mv w) q)))))"
    have e': "(n, t) \<in> insert (''.'', DT_DIR) (insert (''..'', DT_DIR) ((\<lambda>q. (?c q, d q)) ` set ?qs))"
      using e unfolding mem_listing_def list.set set_map d_def .
    have "n \<noteq> ''.''" "n \<noteq> ''..''" using n unfolding dots_def by blast+
    with e' have "(n, t) \<in> (\<lambda>q. (?c q, d q)) ` set ?qs" unfolding insert_iff prod.inject by blast
    from pair_image [where c = "?c" and d = d, OF this] obtain q' where
      q': "q' \<in> set ?qs" "n = ?c q'" and t: "t = dt_of (i_type (inodes (mv w) (the (names (mv w) q'))))"
      unfolding d_def by blast
    have "?P q'" using q'(1) unfolding set_remdups set_filter by blast
    then have "q' = p @ ''/'' @ n" unfolding q'(2) append.simps by blast
    then show ?thesis using t by (simp only:)
  qed
  ultimately show ?thesis unfolding listing_def set by blast
qed

lemma mem_find_dir:
  assumes "mem_ok w" "names (mv w) p = Some i" "i_type (inodes (mv w) i) = S_DIR"
  shows "List.find (\<lambda>p. names (mv w) p = Some i) (m_names w) = Some p"
proof (cases "List.find (\<lambda>p. names (mv w) p = Some i) (m_names w)")
  case None
  then show ?thesis using mem_ok_namesD [OF assms(1,2)] assms(2) by (auto simp: find_None_iff)
next
  case (Some q)
  then have "names (mv w) q = Some i" by (auto simp: find_Some_iff)
  then have "q = p" using assms mem_ok_tree [OF assms(1)] unfolding tree_ok_def one_name_def by blast
  then show ?thesis using Some by simp
qed

lemma mem_readdir: "readdir memk mv mem_ok (mem_iterate b) mem_rewind m_dirs"
proof (rule readdir.intro [OF trees.tree_kernel_axioms], unfold_locales, goal_cases)
  case (1 w p i fl m rf w')
  then have i: "i < m_next w" using mem_ok_namesD by blast
  have "mem_ok ((mem_view (\<lambda>v. v\<lparr>fds := (fds v)(m_next w \<mapsto> (i, fl))\<rparr>) w)\<lparr>m_next := Suc (m_next w)\<rparr>)"
    by (rule mem_fd_ok) (use 1(1) i in simp_all)
  then show ?case
    using 1 mem_listing_ok [OF 1(1)] mem_fd_None [OF 1(1), of "m_next w"]
    by (auto simp: memk_def mem_open_def mem_view_def Let_def)
next
  case (2 w h i fl r batch w')
  then show ?case by (auto simp: mem_iterate_def Let_def split: option.splits)
next
  case (3 w h i fl p r w')
  then show ?case using mem_find_dir [OF 3(1,4,3)] mem_listing_ok [OF 3(1)] by (auto simp: mem_rewind_def on_fd_def)
next
  case (4 w p md t a b r w')
  then show ?case
    using mem_new_ok [OF 4(1), of p "new_inode t [] (md mod 4096)"] mem_fresh [OF 4(1)]
    by (auto simp: memk_def mem_mknodat_def absent_def mem_new_def)
qed

interpretation dirs: readdir memk mv mem_ok "mem_iterate (Some 2)" mem_rewind m_dirs
  by (rule mem_readdir)

interpretation batches: readdir_batch memk mv mem_ok "mem_iterate (Some b)" mem_rewind m_dirs "Suc b" for b
proof (rule readdir_batch.intro [OF mem_readdir], unfold_locales, goal_cases)
  case (1 w h i fl r batch w')
  then show ?case by (auto simp: mem_iterate_def Let_def)
qed

end
