(* ===== verification/Gen109.thy ===== *)
theory Gen109
  imports Readdir
begin

text \<open>
  \<open>kunit/xfstests/generic/109.c\<close>: six renames of files and links over files, links and free names,
  in directories of twenty sizes, and the type of each target after them, by a stat and by
  readdir; then the same with the directory renamed.  The test looks for a name in one batch
  of \<open>iterate_dir\<close>: where a directory does not come in one batch the first case reports
  names as missing that are there.
\<close>

definition G109_ROOT :: string where "G109_ROOT = XFS_MNT @ ''/g109''"
definition G109_DIR :: string where "G109_DIR = G109_ROOT @ ''/dir''"

definition g109_sizes :: "nat list" where
  "g109_sizes = [1, 2, 3, 4, 5, 8, 12, 18, 27, 40, 60, 90, 135, 202, 303, 454, 681, 1020, 1530, 2295]"

definition g109_targets :: "(string \<times> bool) list" where
  "g109_targets = [(''fd1'', False), (''sd1'', False), (''ed1'', False), (''fd2'', True), (''sd2'', True), (''ed2'', True)]"

definition g109_sources :: "string list" where
  "g109_sources = [''fs1'', ''fs2'', ''fs3'', ''ss1'', ''ss2'', ''ss3'']"

record g109_iter =
  i109_type :: nat
  i109_found :: bool

record 'w g109 = "'w fxs" +
  g109_cur_files :: nat

definition g109_actor :: "string \<Rightarrow> g109_iter \<Rightarrow> dirent \<Rightarrow> g109_iter" where
  "g109_actor want it e =
     (let (name, type) = e in if length name = length want \<and> name = want then it\<lparr>i109_type := type, i109_found := True\<rparr> else it)"

definition g109_readdir_type ::
  "'w kernel \<Rightarrow> 'w iterate \<Rightarrow> string \<Rightarrow> string \<Rightarrow> (('w, 'z) kst_scheme, int \<times> g109_iter) prog" where
  "g109_readdir_type K iterate dir name =
     (let it = \<lparr>i109_type = DT_UNKNOWN, i109_found = False\<rparr> in
      bnd (kcall (filp_open K dir {O_RDONLY, O_DIRECTORY} 0)) (\<lambda>d. case d of
        Inl e \<Rightarrow> ret (e, it)
      | Inr d \<Rightarrow>
          bnd (iterate_dir iterate (g109_actor name) d it) (\<lambda>r.
          bnd (kdo (filp_close K d)) (\<lambda>_. ret r))))"

definition g109_path :: "string \<Rightarrow> string" where "g109_path name = G109_DIR @ ''/'' @ name"

definition g109_empty_dir :: "'w kernel \<Rightarrow> string \<Rightarrow> nat \<Rightarrow> (('w, 'z) kst_scheme, unit) prog" where
  "g109_empty_dir K dir nfiles = seq [
     for_each [0..<nfiles] (\<lambda>i. ignore (xfs_unlink K (dir @ ''/fname'' @ dec i))),
     for_each g109_sources (\<lambda>n. ignore (xfs_unlink K (dir @ ''/'' @ n))),
     for_each g109_targets (\<lambda>(n, _). ignore (xfs_unlink K (dir @ ''/'' @ n))),
     ignore (xfs_rmdir_settled K dir)]"

definition g109_remove_dir :: "'w kernel \<Rightarrow> nat \<Rightarrow> ('w g109, unit) prog" where
  "g109_remove_dir K nfiles = seq [
     g109_empty_dir K G109_DIR nfiles,
     modify (\<lambda>s. s\<lparr>g109_cur_files := 0\<rparr>)]"

definition g109_remove_tree :: "'w kernel \<Rightarrow> ('w g109, unit) prog" where
  "g109_remove_tree K = seq [
     bnd (get g109_cur_files) (g109_empty_dir K G109_DIR),
     bnd (get g109_cur_files) (g109_empty_dir K (G109_ROOT @ ''/moved'')),
     modify (\<lambda>s. s\<lparr>g109_cur_files := 0\<rparr>),
     ignore (xfs_rmdir K G109_ROOT)]"

definition g109_filldir :: "'w kernel \<Rightarrow> nat \<Rightarrow> ('w g109, unit) prog" where
  "g109_filldir K nfiles = for_each [0..<nfiles] (\<lambda>i. seq [
     must (xfs_write_new_file K (G109_DIR @ ''/fname'' @ dec i) []),
     modify (\<lambda>s. s\<lparr>g109_cur_files := i + 1\<rparr>)])"

definition g109_renamedir :: "'w kernel \<Rightarrow> (('w, 'z) kst_scheme, unit) prog" where
  "g109_renamedir K = seq [
     for_each [''fs1'', ''fs2'', ''fs3'', ''fd1'', ''fd2''] (\<lambda>n. must (xfs_write_new_file K (g109_path n) [])),
     for_each [''ss1'', ''ss2'', ''ss3'', ''sd1'', ''sd2''] (\<lambda>n. must (xfs_symlink K ''foo'' (g109_path n))),
     for_each [(''fs1'', ''fd1''), (''fs2'', ''sd1''), (''fs3'', ''ed1''), (''ss1'', ''fd2''), (''ss2'', ''sd2''), (''ss3'', ''ed2'')]
       (\<lambda>(from_name, to_name). must (xfs_rename K (g109_path from_name) (g109_path to_name)))]"

definition g109_check_types :: "'w kernel \<Rightarrow> 'w iterate \<Rightarrow> (('w, 'z) kst_scheme, unit) prog" where
  "g109_check_types K iterate = seq [
     for_each g109_sources (\<lambda>n. expect_ret (xfs_exists K (g109_path n)) (\<lambda>b. \<not> b)),
     for_each g109_targets (\<lambda>(n, is_link). seq [
       expect_stat K (g109_path n) (\<lambda>st. if is_link then S_ISLNK (st_type st) else S_ISREG (st_type st)),
       bnd (g109_readdir_type K iterate G109_DIR n) (\<lambda>(err, it). seq [
         kunit_assert (err = 0),
         kunit_expect (i109_found it),
         do_if (i109_type it \<noteq> DT_UNKNOWN) (kunit_expect (i109_type it = (if is_link then DT_LNK else DT_REG)))])])]"

definition renames_keep_the_entry_type_at_every_directory_size :: "'w kernel \<Rightarrow> 'w iterate \<Rightarrow> ('w g109, unit) prog" where
  "renames_keep_the_entry_type_at_every_directory_size K iterate = seq [
     test_prologue K G109_ROOT ''g109_remove_tree'' (g109_remove_tree K),
     for_each g109_sizes (\<lambda>nfiles. seq [
       must (xfs_mkdir K G109_DIR),
       g109_filldir K nfiles,
       g109_renamedir K,
       g109_check_types K iterate,
       g109_remove_dir K nfiles])]"

definition renamed_directories_keep_their_entry_types :: "'w kernel \<Rightarrow> ('w g109, unit) prog" where
  "renamed_directories_keep_their_entry_types K = seq [
     test_prologue K G109_ROOT ''g109_remove_tree'' (g109_remove_tree K),
     must (xfs_mkdir K G109_DIR),
     g109_filldir K 8,
     g109_renamedir K,
     must (xfs_rename K G109_DIR (G109_ROOT @ ''/moved'')),
     for_each g109_targets (\<lambda>(n, is_link).
       expect_stat K (G109_ROOT @ ''/moved/'' @ n) (\<lambda>st. S_ISLNK (st_type st) = is_link)),
     must (xfs_rename K (G109_ROOT @ ''/moved'') G109_DIR),
     g109_remove_dir K 8]"

definition g109_suite :: "'w kernel \<Rightarrow> 'w iterate \<Rightarrow> 'w g109 suite" where
  "g109_suite K iterate = nfs_suite K ''xfstests/generic/109''
     [(''renames_keep_the_entry_type_at_every_directory_size'', renames_keep_the_entry_type_at_every_directory_size K iterate),
      (''renamed_directories_keep_their_entry_types'', renamed_directories_keep_their_entry_types K)]"

section \<open>A tree with one directory\<close>

definition one_dir :: "string \<Rightarrow> node \<Rightarrow> string \<Rightarrow> node \<Rightarrow> (string \<rightharpoonup> node) \<Rightarrow> dtree" where
  "one_dir root r dir d M p = (if p = root then Some r else if p = dir then Some d
     else if beneath dir p \<and> plain (drop (Suc (length dir)) p) then M (drop (Suc (length dir)) p) else None)"

abbreviation "G109_MOVED \<equiv> G109_ROOT @ ''/moved''"

abbreviation g109_tree where
  "g109_tree r D d M \<equiv> one_dir G109_ROOT (Dir r) D (Dir d) M"

lemma g109_dirs:
  assumes "D \<in> {G109_DIR, G109_MOVED}"
  shows "D \<noteq> G109_ROOT" "\<not> beneath D G109_ROOT" "dirname D = G109_ROOT" "beneath G109_ROOT D" "D @ CHR ''/'' # b \<noteq> G109_ROOT"
proof -
  have "plain ''dir''" "plain ''moved''" by (simp_all add: plain_def)
  then show d: "dirname D = G109_ROOT" "beneath G109_ROOT D" using assms plain_dirname by (auto simp: G109_DIR_def)
  then show "D \<noteq> G109_ROOT" "\<not> beneath D G109_ROOT" using beneath_asym beneath_irrefl by blast+
  then show "D @ CHR ''/'' # b \<noteq> G109_ROOT" using beneath_comp [of D b] by metis
qed

lemma one_dir_root: "one_dir root r dir d M root = Some r"
  by (simp add: one_dir_def)

lemma one_dir_at:
  assumes "D \<in> {G109_DIR, G109_MOVED}"
  shows "g109_tree r D d M D = Some (Dir d)" "plain n \<Longrightarrow> g109_tree r D d M (D @ CHR ''/'' # n) = M n"
  using g109_dirs [OF assms] by (simp_all add: one_dir_def)

lemma one_dir_upd:
  assumes "D \<in> {G109_DIR, G109_MOVED}" "plain n"
  shows "(g109_tree r D d M)(D @ CHR ''/'' # n := x) = g109_tree r D d (M(n := x))"
proof
  fix p
  show "((g109_tree r D d M)(D @ CHR ''/'' # n := x)) p = g109_tree r D d (M(n := x)) p"
  proof (cases "p = D @ CHR ''/'' # n")
    case True
    then show ?thesis using one_dir_at(2) [OF assms] by simp
  next
    case False
    then have "beneath D p \<longrightarrow> drop (Suc (length D)) p \<noteq> n" by (auto dest!: beneathE)
    then show ?thesis using False by (auto simp: one_dir_def)
  qed
qed

lemma one_dir_none: "D \<in> {G109_DIR, G109_MOVED} \<Longrightarrow> (g109_tree r D d Map.empty)(D := None) = [G109_ROOT \<mapsto> Dir r]"
  using g109_dirs(1) [of D] by (auto simp: one_dir_def fun_eq_iff)

lemma one_dir_new: "D \<in> {G109_DIR, G109_MOVED} \<Longrightarrow> [G109_ROOT \<mapsto> Dir r, D \<mapsto> Dir d] = g109_tree r D d Map.empty"
  using g109_dirs(1) [of D] by (auto simp: one_dir_def fun_eq_iff)

lemma one_dir_move:
  assumes "D \<in> {G109_DIR, G109_MOVED}" "E \<in> {G109_DIR, G109_MOVED}" "D \<noteq> E"
  shows "move_names D E (g109_tree r D d M) = g109_tree r E d M" "\<not> beneath D E" "g109_tree r D d M E = None"
proof -
  have nb: "\<not> beneath D E" "\<not> beneath E D"
    using assms by (auto simp: G109_DIR_def dest!: beneathE)
  note D = g109_dirs [OF assms(1)] and E = g109_dirs [OF assms(2)]
  show "\<not> beneath D E" by (rule nb(1))
  show "g109_tree r D d M E = None" using nb E(1) assms(3) by (simp add: one_dir_def)
  show "move_names D E (g109_tree r D d M) = g109_tree r E d M"
  proof
    fix p
    consider "p = E" | b where "p = E @ CHR ''/'' # b" | "p \<noteq> E" "\<not> beneath E p" using beneathE by blast
    then show "move_names D E (g109_tree r D d M) p = g109_tree r E d M p"
    proof cases
      case 1
      then show ?thesis using D(1) E(1) by (simp add: one_dir_def)
    next
      case (2 b)
      have "D @ CHR ''/'' # b \<noteq> G109_ROOT" "E @ CHR ''/'' # b \<noteq> G109_ROOT" using D(5) E(5) by blast+
      then show ?thesis unfolding 2 move_below by (simp add: one_dir_def)
    next
      case 3
      then show ?thesis using D(1,2) by (auto simp: move_names_def one_dir_def)
    qed
  qed
qed

text \<open>The types of the entries; no inode has two names.\<close>

definition ino_inj :: "(string \<rightharpoonup> node) \<Rightarrow> bool" where
  "ino_inj M = (\<forall>a b x y. M a = Some x \<longrightarrow> M b = Some y \<longrightarrow> ino x = ino y \<longrightarrow> a = b)"

lemma ino_inj_new: "\<lbrakk>ino_inj M; \<And>a x. M a = Some x \<Longrightarrow> ino x \<noteq> ino y\<rbrakk> \<Longrightarrow> ino_inj (M(n \<mapsto> y))"
  unfolding ino_inj_def by (metis fun_upd_apply option.inject)

lemma ino_inj_del: "ino_inj M \<Longrightarrow> ino_inj (M(n := None))"
  unfolding ino_inj_def by (metis fun_upd_apply option.distinct(1))

lemma ino_inj_move: "\<lbrakk>ino_inj M; M a = Some x\<rbrakk> \<Longrightarrow> ino_inj (M(a := None, b \<mapsto> x))"
  by (rule ino_inj_new [OF ino_inj_del]) (auto simp: ino_inj_def split: if_splits)

definition g109_types :: "(string \<rightharpoonup> node) \<Rightarrow> (string \<rightharpoonup> ftype) \<Rightarrow> bool" where
  "g109_types M k = (ino_inj M \<and> (\<forall>n. map_option ntype (M n) = k n) \<and> (\<forall>n\<in>dom k. plain n \<and> n \<notin> dots \<and> k n \<noteq> Some S_DIR))"

lemma g109_typesD:
  assumes "g109_types M k"
  shows "ino_inj M" "map_option ntype (M n) = k n" "k n = Some t \<Longrightarrow> plain n \<and> n \<notin> dots \<and> t \<noteq> S_DIR"
  using assms by (auto simp: g109_types_def)

lemma g109_types_dom: "g109_types M k \<Longrightarrow> dom M = dom k"
proof -
  assume "g109_types M k"
  then have "k = (\<lambda>n. map_option ntype (M n))" using g109_typesD(2) by (intro ext) simp
  then show ?thesis by (auto simp: dom_def)
qed

lemma g109_types_entry: "\<lbrakk>g109_types M k; M n = Some x\<rbrakk> \<Longrightarrow> k n = Some (ntype x) \<and> plain n \<and> n \<notin> dots \<and> ntype x \<noteq> S_DIR"
proof -
  assume a: "g109_types M k" "M n = Some x"
  then have "k n = Some (ntype x)" using g109_typesD(2) [of M k n] by simp
  then show ?thesis using g109_typesD(3) [OF a(1), of n "ntype x"] by blast
qed

lemma g109_types_upd:
  assumes "g109_types M k" "ino_inj (M(n := x))" "plain n" "n \<notin> dots" "map_option ntype x \<noteq> Some S_DIR"
  shows "g109_types (M(n := x)) (k(n := map_option ntype x))"
  using assms by (auto simp: g109_types_def)

section \<open>One rule per call\<close>

context tree_kernel
begin

definition g109_at :: "nat \<Rightarrow> string \<Rightarrow> (string \<rightharpoonup> ftype) \<Rightarrow> ('w, 'z) kst_scheme \<Rightarrow> bool" where
  "g109_at nf D k s = (\<exists>c r d M. tholds c G109_ROOT (g109_tree r D d M) s \<and> fst c = nf \<and> g109_types M k)"

definition g109_bare :: "nat \<Rightarrow> ('w, 'z) kst_scheme \<Rightarrow> bool" where
  "g109_bare nf s = (\<exists>c r. tholds c G109_ROOT [G109_ROOT \<mapsto> Dir r] s \<and> fst c = nf)"

lemma g109_atE:
  assumes "g109_at nf D k s"
  obtains c r d M where "tholds c G109_ROOT (g109_tree r D d M) s" "fst c = nf" "g109_types M k"
  using assms unfolding g109_at_def by blast

lemma g109_atI: "\<lbrakk>tholds c G109_ROOT (g109_tree r D d M) s; fst c = nf; g109_types M k\<rbrakk> \<Longrightarrow> g109_at nf D k s"
  unfolding g109_at_def by blast

lemma new_in_dir: "\<lbrakk>new_ino (g109_tree r D d M) i; D \<in> {G109_DIR, G109_MOVED}; g109_types M k; M a = Some x\<rbrakk> \<Longrightarrow> ino x \<noteq> i"
proof -
  assume a: "new_ino (g109_tree r D d M) i" "D \<in> {G109_DIR, G109_MOVED}" "g109_types M k" "M a = Some x"
  then have "plain a" using g109_types_entry by blast
  then show "ino x \<noteq> i" using new_inoD [OF a(1), of "D @ CHR ''/'' # a" x] one_dir_at(2) [OF a(2), of a] a(4) by simp
qed

lemma k_insert:
  assumes "D \<in> {G109_DIR, G109_MOVED}" "tholds c G109_ROOT ((g109_tree r D d M)(D @ CHR ''/'' # n \<mapsto> y)) t" "fst c = nf"
    and "g109_types M k" "new_ino (g109_tree r D d M) (ino y)" "plain n" "n \<notin> dots" "ntype y \<noteq> S_DIR"
  shows "g109_at nf D (k(n \<mapsto> ntype y)) t"
proof (rule g109_atI [OF _ assms(3)])
  show "tholds c G109_ROOT (g109_tree r D d (M(n \<mapsto> y))) t" using assms(2) one_dir_upd [OF assms(1,6)] by simp
  have "ino_inj (M(n \<mapsto> y))"
    by (rule ino_inj_new [OF g109_typesD(1) [OF assms(4)]]) (rule new_in_dir [OF assms(5,1,4)])
  from g109_types_upd [OF assms(4) this assms(6,7)] assms(8) show "g109_types (M(n \<mapsto> y)) (k(n \<mapsto> ntype y))" by simp
qed

lemma k_free:
  assumes "D \<in> {G109_DIR, G109_MOVED}" "g109_types M k" "plain n"
  shows "k n = None \<Longrightarrow> g109_tree r D d M (D @ CHR ''/'' # n) = None" "t_dir (g109_tree r D d M) (dirname (D @ CHR ''/'' # n))"
  using one_dir_at [where r = r and d = d and M = M, OF assms(1)] assms(3) g109_typesD(2) [OF assms(2), of n] by (auto simp: t_dir_def)

lemma k_entry:
  assumes "D \<in> {G109_DIR, G109_MOVED}" "g109_types M k" "k n = Some t"
  obtains x where "M n = Some x" "ntype x = t" "g109_tree r D d M (D @ CHR ''/'' # n) = Some x" "plain n" "t \<noteq> S_DIR"
  using one_dir_at(2) [where n = n and r = r and d = d and M = M, OF assms(1)] assms(3) g109_typesD(2,3) [OF assms(2), of n] by auto

lemma k_write:
  assumes "g109_at nf D k s" "D \<in> {G109_DIR, G109_MOVED}" "k n = None" "plain n" "n \<notin> dots"
    and "\<And>t. g109_at nf D (k(n \<mapsto> S_REG)) t \<Longrightarrow> Q 0 t"
  shows "wp (xfs_write_new_file K (D @ CHR ''/'' # n) []) Q s"
  using assms(1)
proof (rule g109_atE)
  fix c r d M assume h: "tholds c G109_ROOT (g109_tree r D d M) s" "fst c = nf" "g109_types M k"
  note free = k_free [OF assms(2) h(3) assms(4)]
  show ?thesis
    by (rule t_write_new [OF h(1) free(1) [OF assms(3)] free(2)], simp add: size_limit_def, rule assms(6))
      (use k_insert [OF assms(2) _ h(2,3) _ assms(4,5), of r d "Reg i []" for i] in simp)
qed

lemma k_symlink:
  assumes "g109_at nf D k s" "D \<in> {G109_DIR, G109_MOVED}" "k n = None" "plain n" "n \<notin> dots"
    and "\<And>t. g109_at nf D (k(n \<mapsto> S_LNK)) t \<Longrightarrow> Q 0 t"
  shows "wp (xfs_symlink K g (D @ CHR ''/'' # n)) Q s"
  using assms(1)
proof (rule g109_atE)
  fix c r d M assume h: "tholds c G109_ROOT (g109_tree r D d M) s" "fst c = nf" "g109_types M k"
  note free = k_free [OF assms(2) h(3) assms(4)]
  show ?thesis
    by (rule t_symlink [OF h(1) free(1) [OF assms(3)] free(2)], rule assms(6))
      (use k_insert [OF assms(2) _ h(2,3) _ assms(4,5), of r d "Lnk i g" for i] in simp)
qed

lemma k_unlink:
  assumes "g109_at nf D k s" "D \<in> {G109_DIR, G109_MOVED}" "plain n"
    and "\<And>t. g109_at nf D (k(n := None)) t \<Longrightarrow> Q () t"
  shows "wp (ignore (xfs_unlink K (D @ CHR ''/'' # n))) Q s"
  using assms(1)
proof (rule g109_atE)
  fix c r d M assume h: "tholds c G109_ROOT (g109_tree r D d M) s" "fst c = nf" "g109_types M k"
  note free = k_free [OF assms(2) h(3) assms(3)]
  show ?thesis
    unfolding wp_ignore
  proof (cases "k n")
    case None
    then have e: "k(n := None) = k" by (rule fun_upd_idem)
    show "wp (xfs_unlink K (D @ CHR ''/'' # n)) (\<lambda>_. Q ()) s"
      by (rule t_unlink_absent [OF h(1) free(1) [OF None] free(2)], rule assms(4) [unfolded e], rule g109_atI [OF _ h(2,3)])
  next
    case (Some t)
    then obtain x where x: "g109_tree r D d M (D @ CHR ''/'' # n) = Some x" "ntype x \<noteq> S_DIR" using k_entry [OF assms(2) h(3)] by metis
    have "g109_types (M(n := None)) (k(n := None))"
      using h(3) ino_inj_del [OF g109_typesD(1) [OF h(3)]] by (auto simp: g109_types_def)
    then show "wp (xfs_unlink K (D @ CHR ''/'' # n)) (\<lambda>_. Q ()) s"
      by (intro t_unlink [OF h(1) x] assms(4) g109_atI [OF _ h(2)]) (simp_all add: one_dir_upd [OF assms(2,3)])
  qed
qed

lemma k_rename:
  assumes "g109_at nf D k s" "D \<in> {G109_DIR, G109_MOVED}" "k a = Some ty" "plain b" "b \<notin> dots" "a \<noteq> b"
    and "\<And>t. g109_at nf D (k(a := None, b \<mapsto> ty)) t \<Longrightarrow> Q 0 t"
  shows "wp (xfs_rename K (D @ CHR ''/'' # a) (D @ CHR ''/'' # b)) Q s"
  using assms(1)
proof (rule g109_atE)
  fix c r d M assume h: "tholds c G109_ROOT (g109_tree r D d M) s" "fst c = nf" "g109_types M k"
  let ?T = "g109_tree r D d M" and ?a = "D @ CHR ''/'' # a" and ?b = "D @ CHR ''/'' # b"
  obtain x where x: "M a = Some x" "ntype x = ty" "?T ?a = Some x" "plain a" "ty \<noteq> S_DIR"
    using assms(2) h(3) assms(3) by (rule k_entry)
  have "(0, ?T(?a := None, ?b \<mapsto> x)) = t_rename ?a ?b ?T"
  proof (cases "M b")
    case None
    then show ?thesis using x one_dir_at(2) [OF assms(2,4)] by (simp add: t_rename_leaf [where T = ?T, OF x(3)])
  next
    case (Some y)
    have "ino y \<noteq> ino x" using g109_typesD(1) [OF h(3)] Some x(1) assms(6) by (auto simp: ino_inj_def)
    moreover have "ntype y \<noteq> S_DIR" using g109_types_entry [OF h(3) Some] by simp
    ultimately show ?thesis using Some x one_dir_at(2) [OF assms(2,4)] by (simp add: t_rename_leaf [where T = ?T, OF x(3)])
  qed
  note ren = this [symmetric]
  have tree: "?T(?a := None, ?b \<mapsto> x) = g109_tree r D d (M(a := None, b \<mapsto> x))"
    using one_dir_upd [OF assms(2) x(4)] one_dir_upd [OF assms(2,4)] by simp
  have types: "g109_types (M(a := None, b \<mapsto> x)) (k(a := None, b \<mapsto> ty))"
    using h(3) ino_inj_move [OF g109_typesD(1) [OF h(3)] x(1)] x(2,5) assms(4,5) by (auto simp: g109_types_def)
  have nb: "\<not> beneath ?b ?a" using x(4) by (auto simp: plain_def dest!: beneathE)
  show ?thesis
    by (rule t_rename_ok [OF h(1) k_free(2) [OF assms(2) h(3) x(4)] k_free(2) [OF assms(2) h(3) assms(4)] nb ren])
      (intro assms(7) g109_atI [OF _ h(2) types], simp only: tree)
qed

lemma k_gone:
  assumes "g109_at nf D k s" "D \<in> {G109_DIR, G109_MOVED}" "k n = None" "plain n" and "\<And>t. g109_at nf D k t \<Longrightarrow> Q False t"
  shows "wp (xfs_exists K (D @ CHR ''/'' # n)) Q s"
  using assms(1)
proof (rule g109_atE)
  fix c r d M assume h: "tholds c G109_ROOT (g109_tree r D d M) s" "fst c = nf" "g109_types M k"
  note free = k_free [OF assms(2) h(3) assms(4)]
  show ?thesis by (rule t_gone [OF h(1) free(1) [OF assms(3)] free(2)]) (intro assms(5) g109_atI [OF _ h(2,3)])
qed

lemma k_stat:
  assumes "g109_at nf D k s" "D \<in> {G109_DIR, G109_MOVED}" "k n = Some ty"
    and "\<And>t st. \<lbrakk>g109_at nf D k t; st_type st = ty\<rbrakk> \<Longrightarrow> Q (Inr st) t"
  shows "wp (xfs_kstat K (D @ CHR ''/'' # n)) Q s"
  using assms(1)
proof (rule g109_atE)
  fix c r d M assume h: "tholds c G109_ROOT (g109_tree r D d M) s" "fst c = nf" "g109_types M k"
  obtain x where x: "g109_tree r D d M (D @ CHR ''/'' # n) = Some x" "ntype x = ty"
    using assms(2) h(3) assms(3) by (rule k_entry)
  show ?thesis by (rule t_stat [OF h(1) x(1)]) (intro assms(4) g109_atI [OF _ h(2,3)], simp_all add: x(2))
qed

lemma k_mkdir:
  assumes "g109_bare nf s" and "\<And>t. g109_at nf G109_DIR Map.empty t \<Longrightarrow> Q 0 t"
  shows "wp (xfs_mkdir K G109_DIR) Q s"
proof -
  obtain c r where h: "tholds c G109_ROOT [G109_ROOT \<mapsto> Dir r] s" "fst c = nf" using assms(1) unfolding g109_bare_def by blast
  have ne: "G109_DIR \<noteq> G109_ROOT" "dirname G109_DIR = G109_ROOT" using g109_dirs [of G109_DIR] by simp_all
  have "g109_types Map.empty Map.empty" by (simp add: g109_types_def ino_inj_def)
  then have "wp (xfs_mkdir K G109_DIR) (\<lambda>e t. e = 0 \<and> g109_at nf G109_DIR Map.empty t) s"
    by (intro t_mkdir [OF h(1)]) (use ne g109_atI [OF _ h(2)] one_dir_new [of G109_DIR] in \<open>auto simp: t_dir_def\<close>)
  then show ?thesis by (rule wp_mono) (use assms(2) in auto)
qed

lemma k_rmdir:
  assumes "g109_at nf D Map.empty s" "D \<in> {G109_DIR, G109_MOVED}" and "\<And>t. g109_bare nf t \<Longrightarrow> Q () t"
  shows "wp (ignore (xfs_rmdir_settled K D)) Q s"
  using assms(1)
proof (rule g109_atE)
  fix c r d M assume h: "tholds c G109_ROOT (g109_tree r D d M) s" "fst c = nf" "g109_types M Map.empty"
  have M: "M = Map.empty" using g109_types_dom [OF h(3)] by simp
  note D = g109_dirs [OF assms(2)]
  have empty: "t_empty (g109_tree r D d Map.empty) D"
    unfolding t_empty_def
  proof
    fix q assume "q \<in> dom (g109_tree r D d Map.empty)"
    then have "q = G109_ROOT \<or> q = D" by (auto simp: one_dir_def split: if_splits)
    moreover have "dirname G109_ROOT \<noteq> D"
    proof
      assume e: "dirname G109_ROOT = D"
      obtain x where "G109_ROOT = D @ x" using dirname_prefix [of G109_ROOT] e by auto
      then have "length D \<le> length G109_ROOT" by (metis length_append le_add1)
      then show False using beneath_length [OF D(4)] by simp
    qed
    ultimately show "dirname q \<noteq> D" using D(1,3) by auto
  qed
  show ?thesis
    unfolding wp_ignore
  proof (rule wp_rmdir_settled [OF treeD(1) [OF tholdsD(1) [OF h(1)]]])
    fix w assume w: "ok w" "V w = V (kw s)"
    show "wp (xfs_rmdir K D) (\<lambda>e t. e = 0 \<and> Q () t) (s\<lparr>kw := w\<rparr>)"
    proof (rule t_rmdir [OF tholds_same [OF h(1) w] _ D(1)])
      show "t_dir (g109_tree r D d M) D" using one_dir_at(1) [OF assms(2)] by (simp add: t_dir_def)
      show "t_empty (g109_tree r D d M) D" using empty by (simp add: M)
      fix t assume "tholds c G109_ROOT ((g109_tree r D d M)(D := None)) t"
      then have "g109_bare nf t" unfolding M one_dir_none [OF assms(2)] g109_bare_def using h(2) by blast
      then show "0 = 0 \<and> Q () t" using assms(3) by simp
    qed
  qed
qed

lemma k_move:
  assumes "g109_at nf D k s" "D \<in> {G109_DIR, G109_MOVED}" "E \<in> {G109_DIR, G109_MOVED}" "D \<noteq> E"
    and "\<And>t. g109_at nf E k t \<Longrightarrow> Q 0 t"
  shows "wp (xfs_rename K D E) Q s"
  using assms(1)
proof (rule g109_atE)
  fix c r d M assume h: "tholds c G109_ROOT (g109_tree r D d M) s" "fst c = nf" "g109_types M k"
  note D = g109_dirs [OF assms(2)] and E = g109_dirs [OF assms(3)] and m = one_dir_move [OF assms(2,3,4)]
  have "t_rename D E (g109_tree r D d M) = (0, g109_tree r E d M)"
    using one_dir_at(1) [OF assms(2)] m assms(4) by (simp add: t_rename_def)
  moreover have "t_dir (g109_tree r D d M) G109_ROOT" by (simp add: t_dir_def one_dir_root)
  ultimately show ?thesis
    by (intro t_rename_ok [OF h(1)]) (use D E one_dir_move(2) [OF assms(3,2)] assms(4) g109_atI [OF _ h(2,3)] assms(5) in auto)
qed

end

section \<open>The stages\<close>

definition g109_files :: "nat \<Rightarrow> string \<rightharpoonup> ftype" where
  "g109_files n m = (if \<exists>i<n. m = ''fname'' @ dec i then Some S_REG else None)"

definition g109_final :: "nat \<Rightarrow> string \<rightharpoonup> ftype" where
  "g109_final n = (g109_files n)(''fd1'' \<mapsto> S_REG, ''sd1'' \<mapsto> S_REG, ''ed1'' \<mapsto> S_REG,
     ''fd2'' \<mapsto> S_LNK, ''sd2'' \<mapsto> S_LNK, ''ed2'' \<mapsto> S_LNK)"

definition g109_add :: "ftype \<Rightarrow> string list \<Rightarrow> (string \<rightharpoonup> ftype) \<Rightarrow> string \<rightharpoonup> ftype" where
  "g109_add ty ns k m = (if m \<in> set ns then Some ty else k m)"

lemma g109_add_Nil [simp]: "g109_add ty [] k = k"
  by (simp add: g109_add_def fun_eq_iff)

lemma g109_files_0 [simp]: "g109_files 0 = Map.empty"
  by (simp add: g109_files_def fun_eq_iff)

lemma g109_files_Suc: "g109_files (Suc n) = (g109_files n)(''fname'' @ dec n \<mapsto> S_REG)"
  by (auto simp: g109_files_def fun_eq_iff less_Suc_eq)

lemma g109_files_free: "g109_files n (''fname'' @ dec n) = None" "length m = 3 \<Longrightarrow> g109_files n m = None"
  by (auto simp: g109_files_def)

lemma g109_file_name [simp]: "plain (''fname'' @ dec i)" "''fname'' @ dec i \<notin> dots" "plain (CHR ''f'' # ''name'' @ dec i)"
  "CHR ''f'' # ''name'' @ dec i \<notin> dots"
  by (simp_all add: plain_def dots_def)

lemma g109_finds:
  assumes "distinct (map fst es)" "(n, t) \<in> set es"
  shows "foldl (g109_actor n) it es = it\<lparr>i109_type := t, i109_found := True\<rparr>"
proof -
  have one: "snd e = t" if "e \<in> set es" "fst e = n" for e
    using assms that eq_key_imp_eq_value [of es n "snd e" t] by (metis prod.collapse)
  have "foldl (g109_actor n) it es = (if \<exists>e\<in>set es. fst e = n then it\<lparr>i109_type := t, i109_found := True\<rparr> else it)"
    using one
  proof (induction es rule: rev_induct)
    case (snoc e es)
    then show ?case by (cases e) (auto simp: g109_actor_def)
  qed simp
  then show ?thesis using assms(2) by force
qed

context tree_kernel
begin

lemma tholds_other: "\<lbrakk>tholds c root T s; kw t = kw s; kfails t = kfails s\<rbrakk> \<Longrightarrow> \<exists>c'. tholds c' root T t \<and> fst c' = fst c"
  by (auto simp: tholds_def ctx_def)

lemma k_cur: "g109_at nf D k (s :: 'w g109) \<Longrightarrow> g109_at nf D k (s\<lparr>g109_cur_files := x\<rparr>)"
  by (elim g109_atE, drule tholds_other [where t = "s\<lparr>g109_cur_files := x\<rparr>"]) (auto intro: g109_atI)

lemma k_bare_cur: "g109_bare nf (s :: 'w g109) \<Longrightarrow> g109_bare nf (s\<lparr>g109_cur_files := x\<rparr>)"
  unfolding g109_bare_def by (elim exE conjE, drule tholds_other [where t = "s\<lparr>g109_cur_files := x\<rparr>"]) auto

lemma g109_filldir_ok:
  assumes "g109_at nf G109_DIR Map.empty s" and "\<And>t. g109_at nf G109_DIR (g109_files n) t \<Longrightarrow> Q () t"
  shows "wp (g109_filldir K n) Q s"
  unfolding g109_filldir_def
proof (rule wp_for_range [where I = "\<lambda>i. g109_at nf G109_DIR (g109_files i)"], goal_cases)
  case (3 i t)
  have "wp (xfs_write_new_file K (G109_DIR @ CHR ''/'' # (''fname'' @ dec i)) []) (\<lambda>e t. e = 0 \<and> g109_at nf G109_DIR (g109_files (Suc i)) t) t"
    by (rule k_write [OF 3(3)]) (simp_all add: g109_files_free(1) g109_files_Suc del: append_Cons)
  then show ?case by (simp add: wp_steps) (elim wp_mono, use k_cur in auto)
qed (use assms in simp_all)

lemma g109_adds_ok:
  assumes "g109_at nf G109_DIR k s" "distinct ns" "\<forall>n\<in>set ns. k n = None \<and> plain n \<and> n \<notin> dots"
    and make: "\<And>k n s Q. \<lbrakk>g109_at nf G109_DIR k s; k n = None; plain n; n \<notin> dots; \<And>t. g109_at nf G109_DIR (k(n \<mapsto> ty)) t \<Longrightarrow> Q 0 t\<rbrakk> \<Longrightarrow>
      wp (m (G109_DIR @ CHR ''/'' # n)) Q s"
    and "\<And>t. g109_at nf G109_DIR (g109_add ty ns k) t \<Longrightarrow> Q () t"
  shows "wp (for_each ns (\<lambda>n. must (m (g109_path n)))) Q s"
proof (rule wp_for_each [where I = "\<lambda>i. g109_at nf G109_DIR (g109_add ty (take i ns) k)"], goal_cases)
  case (2 i t)
  have nin: "ns ! i \<notin> set (take i ns)" using assms(2) 2(1) by (auto simp: in_set_conv_nth nth_eq_iff_index_eq)
  have "g109_add ty (take (Suc i) ns) k = (g109_add ty (take i ns) k)(ns ! i \<mapsto> ty)"
    by (auto simp: g109_add_def take_Suc_conv_app_nth [OF 2(1)] fun_eq_iff)
  moreover have "g109_add ty (take i ns) k (ns ! i) = None" using assms(3) nth_mem [OF 2(1)] nin by (simp add: g109_add_def)
  moreover have "g109_path (ns ! i) = G109_DIR @ CHR ''/'' # (ns ! i)" by (simp add: g109_path_def)
  ultimately show ?case
    unfolding wp_must using assms(3) nth_mem [OF 2(1)] by (simp only:) (rule make [OF 2(2)], simp_all)
qed (use assms(1,5) in \<open>simp_all add: g109_add_def\<close>)

lemma g109_renames_ok:
  assumes "g109_at nf G109_DIR (g109_add S_LNK [''ss1'', ''ss2'', ''ss3'', ''sd1'', ''sd2'']
      (g109_add S_REG [''fs1'', ''fs2'', ''fs3'', ''fd1'', ''fd2''] (g109_files n))) s"
    and "\<And>t. g109_at nf G109_DIR (g109_final n) t \<Longrightarrow> Q () t"
  shows "wp (for_each [(''fs1'', ''fd1''), (''fs2'', ''sd1''), (''fs3'', ''ed1''), (''ss1'', ''fd2''), (''ss2'', ''sd2''), (''ss3'', ''ed2'')]
       (\<lambda>(from_name, to_name). must (xfs_rename K (g109_path from_name) (g109_path to_name)))) Q s"
proof -
  have D: "G109_DIR \<in> {G109_DIR, G109_MOVED}" by simp
  have path: "g109_path m = G109_DIR @ CHR ''/'' # m" for m by (simp add: g109_path_def)
  show ?thesis
    unfolding for_each_def list.map prod.case path
    apply (simp only: wp_steps)
    apply (rule k_rename [OF assms(1) D], simp add: g109_add_def, simp add: plain_def, simp add: dots_def, simp, intro conjI refl)
    apply (erule k_rename [OF _ D], simp add: g109_add_def, simp add: plain_def, simp add: dots_def, simp, intro conjI refl)+
    apply (rule assms(2))
    apply (erule back_subst [where P = "\<lambda>k. g109_at nf G109_DIR k _"])
    apply (rule ext)
    apply (unfold g109_final_def g109_add_def fun_upd_apply)
    subgoal premises for x1 x2 x3 x4 x5 t m
    proof (cases "m \<in> {''fs1'', ''fs2'', ''fs3'', ''fd1'', ''fd2'', ''ss1'', ''ss2'', ''ss3'', ''sd1'', ''sd2'', ''ed1'', ''ed2''}")
      case True
      then show ?thesis by (elim insertE emptyE) (simp_all add: g109_files_free(2))
    next
      case False
      then show ?thesis by simp
    qed
    done
qed

lemma g109_renamedir_ok:
  assumes "g109_at nf G109_DIR (g109_files n) s" and "\<And>t. g109_at nf G109_DIR (g109_final n) t \<Longrightarrow> Q () t"
  shows "wp (g109_renamedir K) Q s"
proof -
  have D: "G109_DIR \<in> {G109_DIR, G109_MOVED}" by simp
  note free = g109_files_free(2)
  show ?thesis
    unfolding g109_renamedir_def wp_seq_Cons wp_seq_Nil
    apply (rule g109_adds_ok [where ty = S_REG, OF assms(1)], simp, simp add: free plain_def dots_def)
     apply (rule k_write [OF _ D]; assumption)
    apply (erule g109_adds_ok [where ty = S_LNK], simp, simp add: free plain_def dots_def g109_add_def)
     apply (rule k_symlink [OF _ D]; assumption)
    apply (erule g109_renames_ok, rule assms(2), assumption)
    done
qed

lemma g109_empty_dir_ok:
  assumes "g109_at nf G109_DIR (g109_final n) s" and "\<And>t. g109_bare nf t \<Longrightarrow> Q () t"
  shows "wp (g109_empty_dir K G109_DIR n) Q s"
proof -
  have D: "G109_DIR \<in> {G109_DIR, G109_MOVED}" by simp
  let ?k = "\<lambda>i m. if \<exists>j<i. m = ''fname'' @ dec j then None else g109_final n m"
  have step: "?k (Suc i) = (?k i)(''fname'' @ dec i := None)" for i by (auto simp: fun_eq_iff less_Suc_eq)
  let ?l = "?k n"
  have names: "list_all plain g109_sources" "list_all (\<lambda>(m, _). plain m) g109_targets" by code_simp+
  have del: "(\<lambda>m. if m \<in> A then None else k m)(a := None) = (\<lambda>m. if m \<in> insert a A then None else k m)"
    for A a and k :: "string \<rightharpoonup> ftype" by auto
  show ?thesis
    unfolding g109_empty_dir_def wp_seq_Cons wp_seq_Nil
  proof (rule wp_for_range [where I = "\<lambda>i. g109_at nf G109_DIR (?k i)"], goal_cases)
    case (3 i t)
    have "wp (ignore (xfs_unlink K (G109_DIR @ CHR ''/'' # (''fname'' @ dec i)))) (\<lambda>_. g109_at nf G109_DIR (?k (Suc i))) t"
      unfolding step by (rule k_unlink [OF 3(3) D g109_file_name(1)])
    then show ?case by simp
  next
    case (4 t)
    show ?case
    proof (rule wp_for_each [where I = "\<lambda>i. g109_at nf G109_DIR (\<lambda>m. if m \<in> set (take i g109_sources) then None else ?l m)"], goal_cases)
      case (2 i u)
      have "plain (g109_sources ! i)" using names(1) 2(1) by (simp add: list_all_length)
      from k_unlink [OF 2(2) D this] show ?case by (simp add: take_Suc_conv_app_nth [OF 2(1)] del)
    next
      case (3 u)
      show ?case
      proof (rule wp_for_each [where I = "\<lambda>i. g109_at nf G109_DIR (\<lambda>m. if m \<in> set (map fst (take i g109_targets)) then None
            else if m \<in> set g109_sources then None else ?l m)"], goal_cases)
        case (2 i v)
        have "plain (fst (g109_targets ! i))" using names(2) 2(1) by (auto simp: list_all_length)
        from k_unlink [OF 2(2) D this] show ?case
          by (cases "g109_targets ! i") (simp add: take_Suc_conv_app_nth [OF 2(1)] del)
      next
        case (3 v)
        have "(\<lambda>m. if m \<in> set (map fst (take (length g109_targets) g109_targets)) then None
            else if m \<in> set g109_sources then None else ?l m) = Map.empty"
        proof
          fix m
          have t: "set (map fst (take (length g109_targets) g109_targets)) = {''fd1'', ''sd1'', ''ed1'', ''fd2'', ''sd2'', ''ed2''}"
            by (simp add: g109_targets_def)
          show "(if m \<in> set (map fst (take (length g109_targets) g109_targets)) then None
            else if m \<in> set g109_sources then None else ?l m) = None"
          proof (cases "m \<in> {''fd1'', ''sd1'', ''ed1'', ''fd2'', ''sd2'', ''ed2''}")
            case False
            then have "g109_final n m = g109_files n m" by (simp add: g109_final_def)
            then have "?l m = None" by (auto simp: g109_files_def)
            then show ?thesis by presburger
          qed (simp only: t if_True)
        qed
        then show ?case using 3 by (intro k_rmdir [OF _ D] assms(2)) simp_all
      qed (use 3 in simp)
    qed (use 4 in simp)
  qed (use assms(1) in simp_all)
qed

lemma g109_remove_dir_ok:
  assumes "g109_at nf G109_DIR (g109_final n) s" and "\<And>t. g109_bare nf t \<Longrightarrow> Q () t"
  shows "wp (g109_remove_dir K n) Q s"
  unfolding g109_remove_dir_def wp_seq_Cons wp_seq_Nil
  by (rule g109_empty_dir_ok [OF assms(1)]) (simp add: assms(2) k_bare_cur)

lemma g109_bareD: "g109_bare nf s \<Longrightarrow> kfails s = nf"
  using tholds_fails by (auto simp: g109_bare_def)

lemma g109_sources_gone:
  assumes "g109_at nf G109_DIR (g109_final n) s" and "\<And>t. g109_at nf G109_DIR (g109_final n) t \<Longrightarrow> Q () t"
  shows "wp (for_each g109_sources (\<lambda>n. expect_ret (xfs_exists K (g109_path n)) (\<lambda>b. \<not> b))) Q s"
proof (rule wp_for_each [where I = "\<lambda>_. g109_at nf G109_DIR (g109_final n)"], goal_cases)
  case (2 k t)
  have "list_all (\<lambda>m. plain m \<and> m \<notin> {''fd1'', ''sd1'', ''ed1'', ''fd2'', ''sd2'', ''ed2''} \<and> length m = 3) g109_sources" by code_simp
  then have m: "plain (g109_sources ! k)" "g109_sources ! k \<notin> {''fd1'', ''sd1'', ''ed1'', ''fd2'', ''sd2'', ''ed2''}" "length (g109_sources ! k) = 3"
    using nth_mem [OF 2(1)] by (auto simp: list_all_iff)
  have "g109_files n (g109_sources ! k) = None" using m(3) by (auto simp: g109_files_def)
  then have "g109_final n (g109_sources ! k) = None" using m(2) by (simp add: g109_final_def)
  from k_gone [OF 2(2) _ this m(1)] show ?case by (simp add: wp_unfold g109_path_def)
qed (use assms in simp_all)

lemma g109_target:
  assumes "k < length g109_targets"
  shows "g109_final n (fst (g109_targets ! k)) = Some (if snd (g109_targets ! k) then S_LNK else S_REG)"
  using assms by (auto simp: g109_targets_def g109_final_def less_Suc_eq nth_Cons')

lemma g109_moved_run_ok:
  assumes "ready V ok G109_ROOT s"
  shows "passes (renamed_directories_keep_their_entry_types K) s"
proof -
  have D: "G109_DIR \<in> {G109_DIR, G109_MOVED}" "G109_MOVED \<in> {G109_DIR, G109_MOVED}" "G109_DIR \<noteq> G109_MOVED" "G109_MOVED \<noteq> G109_DIR"
    by (simp_all add: G109_DIR_def)
  have stats: "wp (for_each g109_targets (\<lambda>(n, is_link).
       expect_stat K (G109_ROOT @ ''/moved/'' @ n) (\<lambda>st. S_ISLNK (st_type st) = is_link))) Q t"
    if "g109_at nf G109_MOVED (g109_final 8) t" "\<And>u. g109_at nf G109_MOVED (g109_final 8) u \<Longrightarrow> Q () u" for nf t Q
  proof (rule wp_for_each [where I = "\<lambda>_. g109_at nf G109_MOVED (g109_final 8)"], goal_cases)
    case (2 k u)
    obtain m l where ml: "g109_targets ! k = (m, l)" by force
    have e: "g109_final 8 m = Some (if l then S_LNK else S_REG)" using g109_target [OF 2(1), of 8] by (simp add: ml)
    have path: "G109_ROOT @ ''/moved/'' @ m = G109_MOVED @ CHR ''/'' # m" by simp
    show ?case
      unfolding ml prod.case path
      by (rule wp_expect_stat, rule k_stat [OF 2(2) D(2) e]) simp
  qed (use that in simp_all)
  show ?thesis
    unfolding passes_def renamed_directories_keep_their_entry_types_def
    apply (simp only: wp_steps)
    apply (rule t_prologue [OF assms], simp add: G109_ROOT_def)
    apply (rule k_mkdir [where nf = "kfails s"], simp add: g109_bare_def, intro exI, assumption, intro conjI refl)
    apply (erule g109_filldir_ok, erule g109_renamedir_ok)
    apply (erule k_move [OF _ D(1,2,3)], intro conjI refl)
    apply (erule stats)
    apply (erule k_move [OF _ D(2,1,4)], intro conjI refl)
    apply (erule g109_remove_dir_ok)
    apply (erule g109_bareD)
    done
qed

lemma g109_at_fail: "g109_at nf D k s \<Longrightarrow> g109_at (Suc nf) D k (s\<lparr>kfails := Suc (kfails s)\<rparr>)"
proof (erule g109_atE)
  fix c r d M assume h: "tholds c G109_ROOT (g109_tree r D d M) s" "fst c = nf" "g109_types M k"
  then have "tholds (Suc nf, snd c) G109_ROOT (g109_tree r D d M) (s\<lparr>kfails := Suc (kfails s)\<rparr>)"
    by (auto simp: tholds_def ctx_def)
  then show ?thesis by (rule g109_atI) (use h(3) in simp_all)
qed

end

lemma g109_misses: "n \<notin> fst ` set es \<Longrightarrow> foldl (g109_actor n) it es = it"
  by (induction es arbitrary: it) (auto simp: g109_actor_def split: prod.splits)

lemma g109_final_names: "dom (g109_final n) \<subseteq> set (map (\<lambda>i. ''fname'' @ dec i) [0..<n] @ map fst g109_targets)"
  by (auto simp: g109_final_def g109_files_def g109_targets_def split: if_splits)

lemma g109_listing_length:
  assumes "t_listing T dir es" "dir_tree dir M T" "g109_types M (g109_final n)"
  shows "length es \<le> n + 8"
proof -
  let ?ns = "''.'' # ''..'' # map (\<lambda>i. ''fname'' @ dec i) [0..<n] @ map fst g109_targets"
  have "dom M \<subseteq> {n. plain n \<and> n \<notin> dots}" using g109_types_entry [OF assms(3)] by blast
  from dir_listing(1) [OF assms(1,2) this] have "fst ` set es \<subseteq> set ?ns"
    using g109_final_names [of n] g109_types_dom [OF assms(3)] unfolding dots_def by auto
  from listing_length [OF assms(1) this] show ?thesis by (simp add: g109_targets_def)
qed

context readdir_batch
begin

lemma k_type:
  assumes "g109_at nf G109_DIR (g109_final m) s" "g109_final m n = Some ty"
    and "\<And>t found. \<lbrakk>g109_at nf G109_DIR (g109_final m) t; m + 8 \<le> least \<Longrightarrow> found\<rbrakk> \<Longrightarrow>
           Q (0, \<lparr>i109_type = if found then dt_of ty else DT_UNKNOWN, i109_found = found\<rparr>) t"
  shows "wp (g109_readdir_type K iterate G109_DIR n) Q s"
  using assms(1)
proof (rule g109_atE)
  fix c r d M assume h: "tholds c G109_ROOT (g109_tree r G109_DIR d M) s" "fst c = nf" "g109_types M (g109_final m)"
  have D: "G109_DIR \<in> {G109_DIR, G109_MOVED}" by simp
  have dir: "t_dir (g109_tree r G109_DIR d M) G109_DIR" using one_dir_at(1) [OF D] by (simp add: t_dir_def)
  have tree: "dir_tree G109_DIR M (g109_tree r G109_DIR d M)" using dir one_dir_at(2) [OF D] by (simp add: dir_tree_def)
  have sub: "dom M \<subseteq> {n. plain n \<and> n \<notin> dots}" using g109_types_entry [OF h(3)] by blast
  obtain x where x: "M n = Some x" "ntype x = ty" using D h(3) assms(2) by (rule k_entry)
  show ?thesis
    unfolding g109_readdir_type_def Let_def wp_bnd
  proof (rule d_open [OF h(1) dir], simp only: sum.case wp_bnd, rule d_iterate_batch, assumption, erule d_close, goal_cases)
    case (1 h' t u batch v)
    let ?es = "todo (kw t) h'" and ?found = "n \<in> fst ` set batch"
    have e: "(n, dt_of ty) \<in> set ?es" using dir_listing(3) [OF 1(2) tree sub x(1)] x(2) by simp
    have dist: "distinct (map fst ?es)" using 1(2) by (simp add: t_listing_def)
    have all: "m + 8 \<le> least \<Longrightarrow> ?found"
      using g109_listing_length [OF 1(2) tree h(3)] 1(4) e by force
    have "foldl (g109_actor n) \<lparr>i109_type = DT_UNKNOWN, i109_found = False\<rparr> batch =
        \<lparr>i109_type = if ?found then dt_of ty else DT_UNKNOWN, i109_found = ?found\<rparr>"
    proof (cases ?found)
      case True
      then obtain ty' where ty': "(n, ty') \<in> set batch" by force
      then have "(n, ty') \<in> set ?es" using 1(3) by simp
      then have "ty' = dt_of ty" using e dist by (metis eq_key_imp_eq_value)
      then show ?thesis using ty' dist 1(3) True by (simp add: g109_finds)
    next
      case False
      then show ?thesis by (simp add: g109_misses)
    qed
    then show ?case using assms(3) [OF g109_atI [OF 1(5) h(2,3)] all] by simp
  qed
qed

text \<open>A check fails one expectation at most, and none where the directory comes in one batch.\<close>

definition misses :: "nat \<Rightarrow> nat" where "misses n = (if least < n + 8 then 1 else 0)"

lemma g109_check_types_ok:
  assumes "g109_at nf G109_DIR (g109_final n) s"
    and "\<And>t nf'. \<lbrakk>g109_at nf' G109_DIR (g109_final n) t; nf \<le> nf'; nf' \<le> nf + 6 * misses n\<rbrakk> \<Longrightarrow> Q () t"
  shows "wp (g109_check_types K iterate) Q s"
  unfolding g109_check_types_def wp_seq_Cons wp_seq_Nil
proof (rule g109_sources_gone [OF assms(1)], rule wp_for_each [where I = "\<lambda>k t. \<exists>nf'. g109_at nf' G109_DIR (g109_final n) t \<and>
    nf \<le> nf' \<and> nf' \<le> nf + k * misses n"], goal_cases)
  case (2 t k u)
  then obtain nf' where at: "g109_at nf' G109_DIR (g109_final n) u" "nf \<le> nf'" "nf' \<le> nf + k * misses n" by blast
  obtain m l where ml: "g109_targets ! k = (m, l)" by force
  have e: "g109_final n m = Some (if l then S_LNK else S_REG)" using g109_target [OF 2(2), of n] by (simp add: ml)
  have D: "G109_DIR \<in> {G109_DIR, G109_MOVED}" by simp
  have path: "g109_path m = G109_DIR @ CHR ''/'' # m" by (simp add: g109_path_def)
  have more: "\<exists>nf'. g109_at nf' G109_DIR (g109_final n) v \<and> nf \<le> nf' \<and> nf' \<le> nf + Suc k * misses n"
    if "g109_at (nf' + x) G109_DIR (g109_final n) v" "x \<le> misses n" for x and v :: "('w, 'a) kst_scheme"
    using that at by (intro exI [of _ "nf' + x"]) simp
  show ?case
    unfolding ml prod.case wp_seq_Cons wp_seq_Nil path
  proof (rule wp_expect_stat, rule k_stat [OF at(1) D e], simp only: sum.case, intro conjI, simp,
      simp only: wp_bnd, erule k_type [OF _ e], goal_cases)
    case (1 v st v' found)
    show ?case
    proof (cases found)
      case True
      then show ?thesis using more [of 0 v'] 1(2) by (simp add: wp_unfold dt_defs)
    next
      case False
      then have "1 \<le> misses n" using 1(3) by (cases "n + 8 \<le> least") (auto simp: misses_def)
      then show ?thesis using more [of 1 "v'\<lparr>kfails := Suc (kfails v')\<rparr>"] g109_at_fail [OF 1(2)] False
        by (simp add: wp_unfold)
    qed
  qed
next
  case (3 t u)
  then show ?case using assms(2) by (auto simp: g109_targets_def)
qed (use assms(1) in auto)

lemma g109_sizes_run:
  assumes "ready V ok G109_ROOT s"
  shows "wp (renames_keep_the_entry_type_at_every_directory_size K iterate)
     (\<lambda>_ t. kfails s \<le> kfails t \<and> kfails t \<le> kfails s + 6 * sum_list (map misses g109_sizes)) s"
  unfolding renames_keep_the_entry_type_at_every_directory_size_def
  apply (simp only: wp_seq_Cons wp_seq_Nil)
  apply (rule t_prologue [OF assms], simp add: G109_ROOT_def)
proof (rule wp_for_each [where I = "\<lambda>k t. \<exists>nf. g109_bare nf t \<and> kfails s \<le> nf \<and>
    nf \<le> kfails s + 6 * sum_list (map misses (take k g109_sizes))"], goal_cases)
  case (1 t i)
  then have "g109_bare (kfails s) t" unfolding g109_bare_def by (intro exI conjI, assumption) simp
  then show ?case by (intro exI [of _ "kfails s"]) simp
next
  case (2 t i k u)
  then obtain nf where at: "g109_bare nf u" "kfails s \<le> nf" "nf \<le> kfails s + 6 * sum_list (map misses (take k g109_sizes))" by blast
  show ?case
    apply (simp only: wp_steps)
    apply (rule k_mkdir [OF at(1)], intro conjI refl)
    apply (erule g109_filldir_ok, erule g109_renamedir_ok, erule g109_check_types_ok, erule g109_remove_dir_ok)
    apply (use at(2,3) 2(2) in \<open>auto simp: take_Suc_conv_app_nth\<close>)
    done
next
  case (3 t i u)
  then show ?case by (auto dest: g109_bareD)
qed

lemma sum_misses: "sum_list (map misses ns) = length (filter (\<lambda>n. least < n + 8) ns)"
  by (induction ns) (simp_all add: misses_def)

end

section \<open>One batch\<close>

lemma g109_actor_found: "i109_found (foldl (g109_actor name) it es) = (i109_found it \<or> name \<in> fst ` set es)"
  by (induction es arbitrary: it) (auto simp: g109_actor_def split: prod.splits)

lemma g109_one_batch:
  assumes "filp_open K dir {O_RDONLY, O_DIRECTORY} 0 (kw s) = (Inr d, w)" and "iterate d w = ((r, batch), w')"
  shows "\<exists>it t. g109_readdir_type K iterate dir name s = Ok (r, it) t \<and> i109_found it = (name \<in> fst ` set batch)"
  by (simp add: g109_readdir_type_def iterate_dir_def bnd_def kcall_def kdo_def ret_def Let_def assms g109_actor_found)

end
