(* ===== verification/Gen124.thy ===== *)
theory Gen124
  imports Server
begin

text \<open>
  \<open>kunit/xfstests/generic/124.c\<close>: a file of 131072 counters of 64 bits, preallocated,
  written in sixteen chunks and read back through a new open, twenty times; the last round
  also reads the server's copy.
\<close>

definition G124_ROOT :: string where "G124_ROOT = XFS_MNT @ ''/g124''"
definition G124_FILE :: string where "G124_FILE = G124_ROOT @ ''/rw_pattern.tmp''"
definition G124_SERVER :: string where "G124_SERVER = XFS_EXPORT @ ''/g124/rw_pattern.tmp''"
definition G124_VALUES :: nat where "G124_VALUES = 131072"
definition G124_SIZE :: nat where "G124_SIZE = G124_VALUES * 8"
definition G124_CHUNK :: nat where "G124_CHUNK = 65536"
definition G124_PER_CHUNK :: nat where "G124_PER_CHUNK = G124_CHUNK div 8"
definition G124_ROUNDS :: nat where "G124_ROUNDS = 20"

definition g124_remove_tree :: "'w kernel \<Rightarrow> (('w, 'z) kst_scheme, unit) prog" where
  "g124_remove_tree K = seq [ignore (xfs_unlink K G124_FILE), ignore (xfs_rmdir_settled K G124_ROOT)]"

definition g124_fill :: "nat \<Rightarrow> byte list" where
  \<comment> \<open>the buffer of \<open>s64\<close> as bytes in memory\<close>
  "g124_fill first = concat (map (\<lambda>i. le_bytes 8 (first + i)) [0..<G124_PER_CHUNK])"

definition g124_values :: "byte list \<Rightarrow> nat list" where
  \<comment> \<open>the same buffer read as numbers of 64 bits\<close>
  "g124_values buf = map (\<lambda>i. le_val (read_at (i * 8) 8 buf)) [0..<G124_PER_CHUNK]"

definition g124_dones :: "nat list" where
  \<comment> \<open>\<open>for (done = 0; done < G124_VALUES; done += G124_PER_CHUNK)\<close>\<close>
  "g124_dones = map (\<lambda>k. k * G124_PER_CHUNK) [0..<G124_VALUES div G124_PER_CHUNK]"

definition g124_write_pattern :: "'w kernel \<Rightarrow> (('w, 'z) kst_scheme, unit) prog" where
  "g124_write_pattern K =
     must_open (kcall (filp_open K G124_FILE {O_RDWR, O_CREAT, O_TRUNC} (mode3 6 4 4))) (\<lambda>f.
     bnd (kcall (vfs_fallocate K f {} 0 (int G124_SIZE))) (\<lambda>err.
     bnd (kunit_expect (err = 0 \<or> err = - EOPNOTSUPP)) (\<lambda>_.
     bnd (for_fold g124_dones (\<lambda>n pos.
            bnd (kcall (kernel_write K f (g124_fill n) pos)) (\<lambda>(w, pos).
            bnd (kunit_assert (w = int G124_CHUNK)) (\<lambda>_. ret pos))) 0) (\<lambda>_.
     kdo (filp_close K f)))))"

definition g124_check_chunk ::
  "'w kernel \<Rightarrow> nat \<Rightarrow> nat \<Rightarrow> int option \<Rightarrow> (('w, 'z) kst_scheme, int option) prog" where
  \<comment> \<open>the position, or \<open>None\<close> once a value was wrong and the file is closed\<close>
  "g124_check_chunk K f n l = (case l of None \<Rightarrow> ret None | Some pos \<Rightarrow>
     bnd (kcall (kernel_read K f G124_CHUNK pos)) (\<lambda>(r, buf, pos).
     bnd (kunit_assert (r = int G124_CHUNK)) (\<lambda>_.
     case first_diff (g124_values buf) [n..<n + G124_PER_CHUNK] of
       None \<Rightarrow> ret (Some pos)
     | Some i \<Rightarrow> bnd kunit_fail (\<lambda>_. bnd (kdo (filp_close K f)) (\<lambda>_. ret None)))))"

definition g124_check_pattern :: "'w kernel \<Rightarrow> string \<Rightarrow> (('w, 'z) kst_scheme, unit) prog" where
  "g124_check_pattern K path =
     must_open (kcall (filp_open K path {O_RDONLY} 0)) (\<lambda>f.
     bnd (for_fold g124_dones (g124_check_chunk K f) (Some 0)) (\<lambda>l.
     do_if (l \<noteq> None) (kdo (filp_close K f))))"

definition g124_round :: "'w kernel \<Rightarrow> nat \<Rightarrow> (('w, 'z) kst_scheme, unit) prog" where
  "g124_round K round = seq [
     g124_write_pattern K,
     g124_check_pattern K G124_FILE,
     do_if (round = G124_ROUNDS - 1) (g124_check_pattern K G124_SERVER),
     must (xfs_unlink K G124_FILE)]"

definition the_positional_pattern_survives_every_round :: "'w kernel \<Rightarrow> (('w, 'z) fxs_scheme, unit) prog" where
  "the_positional_pattern_survives_every_round K = seq [
     test_prologue K G124_ROOT ''g124_remove_tree'' (g124_remove_tree K),
     must_alloc K G124_CHUNK,
     for_each [0..<G124_ROUNDS] (g124_round K)]"

definition g124_suite :: "'w kernel \<Rightarrow> ('w, 'z) fxs_scheme suite" where
  "g124_suite K = nfs_suite K ''xfstests/generic/124''
     [(''the_positional_pattern_survives_every_round'', the_positional_pattern_survives_every_round K)]"

section \<open>The pattern\<close>

lemma g124_sizes:
  "length (g124_fill n) = G124_CHUNK" "0 < G124_CHUNK" "G124_VALUES div G124_PER_CHUNK = 16"
  "16 * G124_CHUNK = G124_SIZE" "G124_SIZE < size_limit" "16 * G124_PER_CHUNK = G124_VALUES"
proof -
  have "length (g124_fill n) = G124_PER_CHUNK * 8"
    unfolding g124_fill_def by (subst length_concat_same [where k = 8]) auto
  then show "length (g124_fill n) = G124_CHUNK" by (simp add: G124_PER_CHUNK_def G124_CHUNK_def)
qed (simp_all add: G124_CHUNK_def G124_VALUES_def G124_PER_CHUNK_def G124_SIZE_def size_limit_def)

text \<open>Encoding and decoding a chunk is the identity.\<close>

lemma g124_decode:
  assumes "n + G124_PER_CHUNK \<le> G124_VALUES"
  shows "g124_values (g124_fill n) = [n..<n + G124_PER_CHUNK]"
proof (rule nth_equalityI)
  fix i
  assume "i < length (g124_values (g124_fill n))"
  then have i: "i < G124_PER_CHUNK" by (simp add: g124_values_def)
  have "read_at (i * 8) 8 (g124_fill n) = le_bytes 8 (n + i)"
    unfolding g124_fill_def by (subst read_at_concat [where k = 8]) (use i in auto)
  moreover have "n + i < 256 ^ 8" using i assms by (simp add: G124_VALUES_def)
  ultimately show "g124_values (g124_fill n) ! i = [n..<n + G124_PER_CHUNK] ! i"
    using i le_val_bytes_small [of "n + i" 8] by (simp add: g124_values_def)
qed (simp add: g124_values_def)

definition g124_data :: "nat \<Rightarrow> byte list" where
  \<comment> \<open>the first \<open>k\<close> chunks\<close>
  "g124_data k = concat (map (\<lambda>j. g124_fill (j * G124_PER_CHUNK)) [0..<k])"

lemma g124_data_Suc [simp]: "g124_data 0 = []" "g124_data (Suc k) = g124_data k @ g124_fill (k * G124_PER_CHUNK)"
  by (simp_all add: g124_data_def)

lemma length_g124_data [simp]: "length (g124_data k) = k * G124_CHUNK"
  by (induction k) (simp_all add: g124_sizes(1))

lemma g124_read: "k < n \<Longrightarrow> read_at (k * G124_CHUNK) G124_CHUNK (g124_data n) = g124_fill (k * G124_PER_CHUNK)"
  unfolding g124_data_def by (subst read_at_concat) (auto simp: g124_sizes(1))

definition g124_upto :: "nat \<Rightarrow> byte list \<Rightarrow> bool" where
  \<comment> \<open>the first \<open>k\<close> chunks are in the file, which is not longer than the pattern\<close>
  "g124_upto k d = (k * G124_CHUNK \<le> length d \<and> length d \<le> G124_SIZE \<and> take (k * G124_CHUNK) d = g124_data k)"

lemma g124_upto_write:
  assumes "g124_upto k d" "k < 16"
  shows "g124_upto (Suc k) (write_at (k * G124_CHUNK) (g124_fill (k * G124_PER_CHUNK)) d)"
proof -
  have "Suc k * G124_CHUNK \<le> 16 * G124_CHUNK" using assms(2) by (simp only: mult_le_mono1 Suc_le_eq)
  then have s: "Suc k * G124_CHUNK \<le> G124_SIZE" by (simp add: g124_sizes(4))
  have ne: "g124_fill (k * G124_PER_CHUNK) \<noteq> []" using g124_sizes(1,2) by (metis length_0_conv less_irrefl)
  show ?thesis
    using take_write_at [of "k * G124_CHUNK" d "g124_fill (k * G124_PER_CHUNK)"] assms(1) s ne
    by (auto simp: g124_upto_def g124_sizes(1) add.commute)
qed

lemma g124_upto_all: "g124_upto 16 d \<Longrightarrow> d = g124_data 16"
  unfolding g124_upto_def g124_sizes(4) by (metis take_all)

lemma g124_k_limit: "k < 16 \<Longrightarrow> k * G124_CHUNK + G124_CHUNK < size_limit"
  by (simp add: G124_CHUNK_def size_limit_def)

context posix_kernel
begin

abbreviation g124_open where
  "g124_open c p f fl P s \<equiv> ctx s = c \<and> (\<exists>i d. file_on (kw s) p i d [f \<mapsto> fl] \<and> P d)"

lemma g124_fill_ok:
  assumes "file_on (kw s) G124_FILE i d [f \<mapsto> fl]" "writable fl" "O_APPEND \<notin> fl" "g124_upto k d" "k < 16"
  shows "wp (kcall (kernel_write K f (g124_fill (k * G124_PER_CHUNK)) (int (k * G124_CHUNK))))
    (\<lambda>(w, pos) t. w = int G124_CHUNK \<and> pos = int (Suc k * G124_CHUNK) \<and> g124_open (ctx s) G124_FILE f fl (g124_upto (Suc k)) t) s"
  by (rule f_write [OF assms(1-3)])
    (use g124_k_limit [OF assms(5)] g124_upto_write [OF assms(4,5)] in \<open>auto simp: g124_sizes(1)\<close>)

lemma g124_write_ok:
  assumes "ok (kw s)" "absent (V (kw s)) G124_FILE"
  shows "wp (g124_write_pattern K) (\<lambda>_ t. ctx t = ctx s \<and> (\<exists>i. file_on (kw t) G124_FILE i (g124_data 16) Map.empty)) s"
  unfolding g124_write_pattern_def
proof (rule f_must_create [OF assms], simp, goal_cases)
  case (1 w f i)
  let ?fl = "{O_RDWR, O_CREAT, O_TRUNC}"
  let ?op = "\<lambda>k. g124_open (ctx s) G124_FILE f ?fl (g124_upto k)"
  have alloc: "wp (kcall (vfs_fallocate K f {} 0 (int G124_SIZE)))
      (\<lambda>e t. (e = 0 \<or> e = - EOPNOTSUPP) \<and> ?op 0 t) (s\<lparr>kw := w\<rparr>)"
  proof (rule f_allocate_at [where p = G124_FILE and i = i and d = "[]" and fl = ?fl], goal_cases)
    case (6 w')
    have "G124_SIZE = length (resize G124_SIZE [])" by simp
    then show ?case using 6 g124_sizes(5) by (auto simp: g124_upto_def max_def intro!: exI [of _ i])
  next
    case (7 w')
    then show ?case by (auto simp: g124_upto_def intro!: exI [of _ i] exI [of _ "[]"])
  qed (use 1(1) g124_sizes(2,4,5) in simp_all)
  have loop: "wp (for_fold g124_dones (\<lambda>n pos.
        bnd (kcall (kernel_write K f (g124_fill n) pos)) (\<lambda>(w, pos).
        bnd (kunit_assert (w = int G124_CHUNK)) (\<lambda>_. ret pos))) 0) (\<lambda>_. ?op 16) t"
    if "?op 0 t" for t :: "('w, 'a) kst_scheme"
  proof (rule wp_for_fold [where I = "\<lambda>k pos t. pos = int (k * G124_CHUNK) \<and> ?op k t"], goal_cases)
    case (2 k pos t)
    then obtain i d where d: "file_on (kw t) G124_FILE i d [f \<mapsto> ?fl]" "g124_upto k d" "ctx t = ctx s"
      "pos = int (k * G124_CHUNK)" "k < 16" by (auto simp: g124_dones_def g124_sizes(3))
    then have n: "g124_dones ! k = k * G124_PER_CHUNK" by (simp add: g124_dones_def g124_sizes(3))
    show ?case
      unfolding n d(4) wp_bnd
    proof (rule wp_mono [OF g124_fill_ok [OF d(1) _ _ d(2,5)]], goal_cases)
      case (3 a t')
      then show ?case by (cases a) (simp add: d(3))
    qed simp_all
  qed (use that in \<open>simp_all add: g124_dones_def g124_sizes(3)\<close>)
  show ?case
    unfolding wp_bnd
  proof (rule wp_mono [OF alloc], goal_cases)
    case (1 e t)
    then have e: "e = 0 \<or> e = - EOPNOTSUPP" and t: "?op 0 t" by blast+
    show ?case
      unfolding wp_kunit_expect if_P [OF e]
      by (rule wp_mono [OF loop [OF t]]) (auto intro!: f_close dest!: g124_upto_all)
  qed
qed

lemma g124_check_ok:
  assumes "file_on (kw s) p i (g124_data 16) [f \<mapsto> {O_RDONLY}]"
  shows "wp (bnd (for_fold g124_dones (g124_check_chunk K f) (Some 0)) (\<lambda>l. do_if (l \<noteq> None) (kdo (filp_close K f))))
    (\<lambda>_ t. ctx t = ctx s \<and> file_on (kw t) p i (g124_data 16) Map.empty) s"
  unfolding wp_bnd
proof (rule wp_for_fold [where I = "\<lambda>k l t. l = Some (int (k * G124_CHUNK)) \<and> ctx t = ctx s \<and>
    file_on (kw t) p i (g124_data 16) [f \<mapsto> {O_RDONLY}]"], goal_cases)
  case (2 k l t)
  then have k: "k < 16" and l: "l = Some (int (k * G124_CHUNK))" and d: "file_on (kw t) p i (g124_data 16) [f \<mapsto> {O_RDONLY}]"
    and c: "ctx t = ctx s" by (simp_all add: g124_dones_def g124_sizes(3))
  have n: "g124_dones ! k = k * G124_PER_CHUNK" using k by (simp add: g124_dones_def g124_sizes(3))
  have "Suc k * G124_PER_CHUNK \<le> 16 * G124_PER_CHUNK" using k by (simp only: mult_le_mono1 Suc_le_eq)
  then have dec: "first_diff (g124_values (g124_fill (k * G124_PER_CHUNK))) [k * G124_PER_CHUNK..<k * G124_PER_CHUNK + G124_PER_CHUNK] = None"
    using g124_decode [of "k * G124_PER_CHUNK"] by (simp add: g124_sizes(6) add.commute)
  show ?case
    unfolding g124_check_chunk_def l option.case n wp_bnd
    by (rule f_read [OF d])
      (use g124_read [OF k] dec c g124_k_limit [OF k] in \<open>simp_all add: readable_def g124_sizes(1) add.commute\<close>)
next
  case (3 l t)
  then show ?case by (auto intro!: f_close)
qed (use assms in simp)

end

context exported
begin

lemma g124_round_ok:
  assumes "ok (kw s)" "absent (V (kw s)) G124_FILE"
  shows "wp (g124_round K r) (\<lambda>_ t. ctx t = ctx s \<and> ok (kw t) \<and> absent (V (kw t)) G124_FILE) s"
proof -
  let ?D = "\<lambda>i t. ctx t = ctx s \<and> file_on (kw t) G124_FILE i (g124_data 16) Map.empty"
  have sv: "G124_SERVER = XFS_EXPORT @ ''/g124/rw_pattern.tmp''" "G124_FILE = XFS_MNT @ ''/g124/rw_pattern.tmp''"
    by (simp_all add: G124_SERVER_def G124_FILE_def G124_ROOT_def)
  have client: "wp (g124_check_pattern K G124_FILE) (\<lambda>_. ?D i) t" if "?D i t" for i and t :: "('w, 'a) kst_scheme"
    unfolding g124_check_pattern_def
  proof (rule f_must_open [where i = i and d = "g124_data 16"], goal_cases)
    case (4 w h)
    show ?case by (rule wp_mono [OF g124_check_ok [where i = i and p = G124_FILE]]) (use 4 that in auto)
  qed (use that in auto)
  have server: "wp (g124_check_pattern K G124_SERVER) (\<lambda>_. ?D i) t" if "?D i t" for i and t :: "('w, 'a) kst_scheme"
    unfolding g124_check_pattern_def sv wp_must_open
  proof (rule f_open_server [where i = i and d = "g124_data 16"], goal_cases)
    case (3 w h)
    show ?case
      unfolding sum.case by (rule wp_mono [OF g124_check_ok [where i = i and p = G124_FILE]]) (use 3 that in \<open>auto simp: sv(2)\<close>)
  qed (use that in \<open>auto simp: sv(2)\<close>)
  have rm: "wp (xfs_unlink K G124_FILE) (\<lambda>e t. e = 0 \<and> ctx t = ctx s \<and> ok (kw t) \<and> absent (V (kw t)) G124_FILE) t"
    if "?D i t" for i and t :: "('w, 'a) kst_scheme"
    by (rule f_unlink [where i = i and d = "g124_data 16"]) (use that in auto)
  show ?thesis
    unfolding g124_round_def wp_seq_Cons wp_seq_Nil wp_do_if wp_must
  proof (rule wp_mono [OF g124_write_ok [OF assms]], goal_cases)
    case (1 u t)
    then obtain i where "?D i t" by blast
    then show ?case
      by (intro wp_mono [OF client]) (auto intro!: wp_mono [OF server] wp_mono [OF rm])
  qed
qed

lemma g124_run_ok:
  assumes "ready V ok G124_ROOT s"
  shows "passes (the_positional_pattern_survives_every_round K) s"
  unfolding passes_def the_positional_pattern_survives_every_round_def wp_seq_Cons wp_seq_Nil
proof (rule wp_dir_prologue [OF assms], rule wp_alloc_ok, goal_cases)
  case (2 w1 w2)
  let ?I = "\<lambda>t. kfails t = kfails s \<and> ok (kw t) \<and> absent (V (kw t)) G124_FILE"
  have "absent (V w2) G124_FILE" using 2 by (simp add: G124_FILE_def)
  then show ?case
    by (intro wp_for_range [where I = "\<lambda>_. ?I"])
      (use 2 in \<open>auto intro!: wp_mono [OF g124_round_ok] dest: ctx_kfails\<close>)
qed simp

end

end
