(* ===== verification/Gen129.thy ===== *)
theory Gen129
  imports Stores
begin

text \<open>
  \<open>kunit/xfstests/generic/129.c\<close>, looptest: four parameter sets of a write, a read of the
  block just written, an optional truncation and an optional close and open, over a
  position that is a local of the test and not of the file.
\<close>

definition G129_ROOT :: string where "G129_ROOT = XFS_MNT @ ''/g129''"
definition G129_FILE :: string where "G129_FILE = G129_ROOT @ ''/loop''"

definition g129_remove_tree :: "'w kernel \<Rightarrow> (('w, 'z) kst_scheme, unit) prog" where
  "g129_remove_tree K = seq [ignore (xfs_unlink K G129_FILE), ignore (xfs_rmdir K G129_ROOT)]"

definition g129_buf :: "nat \<Rightarrow> byte list" where
  \<comment> \<open>\<open>wr[j] = (u8)(j & 127)\<close>\<close>
  "g129_buf bs = map (\<lambda>j. of_nat (j mod 128)) [0..<bs]"

definition g129_deref :: "nat option \<Rightarrow> (nat \<Rightarrow> ('s, 'a) prog) \<Rightarrow> ('s, 'a) prog" where
  \<comment> \<open>a call on the file pointer; on NULL the test thread dies\<close>
  "g129_deref f k = (case f of None \<Rightarrow> (\<lambda>s. Abort s) | Some h \<Rightarrow> k h)"

definition g129_io ::
  "'w kernel \<Rightarrow> nat \<Rightarrow> bool \<Rightarrow> int \<Rightarrow> nat \<Rightarrow> int \<Rightarrow> (('w, 'z) kst_scheme, int) prog" where
  \<comment> \<open>the write at \<open>pos\<close>, the read at \<open>seek_to\<close>, the truncation; the result is \<open>pos\<close>\<close>
  "g129_io K bs trunc seek_to h pos =
     bnd (kcall (kernel_write K h (g129_buf bs) pos)) (\<lambda>(n, pos).
     bnd (kunit_assert (n = int bs)) (\<lambda>_.
     bnd (kcall (kernel_read K h bs seek_to)) (\<lambda>(n, rd, pos).
     bnd (seq [kunit_assert (n \<noteq> 0), kunit_assert (n = int bs), kunit_assert (g129_buf bs = rd)]) (\<lambda>_.
     if trunc then bnd (must (xfs_ftruncate K h 0)) (\<lambda>_. ret 0) else ret pos))))"

definition g129_iter ::
  "'w kernel \<Rightarrow> nat \<Rightarrow> bool \<Rightarrow> bool \<Rightarrow> bool \<Rightarrow> nat \<Rightarrow> nat option \<times> int \<times> int \<Rightarrow>
   (('w, 'z) kst_scheme, nat option \<times> int \<times> int) prog" where
  \<comment> \<open>one iteration over the locals \<open>f\<close>, \<open>pos\<close> and \<open>seek_to\<close>\<close>
  "g129_iter K bs seqn trunc openclose i = (\<lambda>(f, pos, seek_to).
     bnd (if openclose \<or> i = 0
          then must_open (kcall (filp_open K G129_FILE {O_RDWR, O_CREAT} (mode3 6 4 4))) (\<lambda>h. ret (Some h, 0))
          else ret (f, pos)) (\<lambda>(f, pos).
     let pos = (if openclose \<and> seqn then seek_to else pos);
         pos = (if \<not> seqn then seek_to else pos)
     in g129_deref f (\<lambda>h.
     bnd (g129_io K bs trunc seek_to h pos) (\<lambda>pos.
     let seek_to = (if seqn then seek_to + int bs else seek_to);
         pos = (if seqn \<and> trunc then seek_to else pos)
     in bnd (do_if openclose (kdo (filp_close K h))) (\<lambda>_.
        ret (if openclose then None else f, pos, seek_to))))))"

definition g129_loop ::
  "'w kernel \<Rightarrow> nat \<Rightarrow> nat \<Rightarrow> bool \<Rightarrow> bool \<Rightarrow> bool \<Rightarrow> (('w, 'z) kst_scheme, unit) prog" where
  "g129_loop K iters bs seqn trunc openclose = seq [
     must_alloc2 K bs bs,
     ignore (xfs_unlink K G129_FILE),
     bnd (for_fold [0..<iters] (g129_iter K bs seqn trunc openclose) (None, 0, 0)) (\<lambda>(f, pos, seek_to).
       case f of None \<Rightarrow> ret () | Some h \<Rightarrow> kdo (filp_close K h))]"

definition looptest_parameter_sets_read_back_what_they_wrote :: "'w kernel \<Rightarrow> (('w, 'z) fxs_scheme, unit) prog" where
  "looptest_parameter_sets_read_back_what_they_wrote K = seq [
     test_prologue K G129_ROOT ''g129_remove_tree'' (g129_remove_tree K),
     g129_loop K 2000 8192 True False False,
     g129_loop K 500 102400 True True False,
     g129_loop K 2000 256 True False False,
     g129_loop K 500 8192 True False True]"

definition g129_suite :: "'w kernel \<Rightarrow> ('w, 'z) fxs_scheme suite" where
  "g129_suite K = nfs_suite K ''xfstests/generic/129''
     [(''looptest_parameter_sets_read_back_what_they_wrote'', looptest_parameter_sets_read_back_what_they_wrote K)]"

section \<open>Every parameter set\<close>

lemma length_g129_buf [simp]: "length (g129_buf bs) = bs"
  by (simp add: g129_buf_def)

abbreviation g129_fl :: "oflag set" where "g129_fl \<equiv> {O_RDWR, O_CREAT}"

context posix_kernel
begin

text \<open>
  Between iterations: the block to write is at \<open>seek_to\<close>, the file is open exactly when the
  set keeps it open, and then a sequential set has its position at \<open>seek_to\<close>.
\<close>

definition g129_inv ::
  "nat \<times> string list \<times> 'z \<Rightarrow> nat \<Rightarrow> bool \<Rightarrow> bool \<Rightarrow> nat \<Rightarrow> nat option \<times> int \<times> int \<Rightarrow> ('w, 'z) kst_scheme \<Rightarrow> bool" where
  "g129_inv c bs seqn openclose k l s = (case l of (f, pos, seek_to) \<Rightarrow>
     seek_to = (if seqn then int (k * bs) else 0) \<and>
     (f = None \<longleftrightarrow> openclose \<or> k = 0) \<and>
     (f \<noteq> None \<longrightarrow> seqn \<longrightarrow> pos = seek_to) \<and>
     (\<exists>M. holds c {G129_FILE} M (case f of None \<Rightarrow> Map.empty | Some h \<Rightarrow> [G129_FILE \<mapsto> (h, g129_fl)]) s \<and>
          (f \<noteq> None \<longrightarrow> M G129_FILE \<noteq> None)))"

lemma g129_open_ok:
  assumes "holds c {G129_FILE} M Map.empty s"
    and "\<And>t h d. \<lbrakk>holds c {G129_FILE} (M(G129_FILE \<mapsto> d)) [G129_FILE \<mapsto> (h, g129_fl)] t\<rbrakk> \<Longrightarrow> Q (Inr h) t"
  shows "wp (kcall (filp_open K G129_FILE g129_fl m)) Q s"
proof (cases "M G129_FILE")
  case None
  show ?thesis by (rule h_create [OF assms(1) _ None]) (simp_all add: assms(2))
next
  case (Some d)
  have "M(G129_FILE \<mapsto> d) = M" using Some by (simp add: fun_upd_idem)
  then show ?thesis using assms(2) [of d] by (intro h_open_keep [OF assms(1) Some]) simp_all
qed

lemma g129_io_ok:
  assumes "holds c {G129_FILE} M [G129_FILE \<mapsto> (h, g129_fl)] s" "M G129_FILE = Some d"
    and "0 < bs" "0 \<le> x" "nat x + bs < size_limit"
    and "\<And>t e. holds c {G129_FILE} (M(G129_FILE \<mapsto> e)) [G129_FILE \<mapsto> (h, g129_fl)] t \<Longrightarrow>
           Q (if trunc then 0 else x + int bs) t"
  shows "wp (g129_io K bs trunc x h x) Q s"
  unfolding g129_io_def wp_bnd
proof (rule h_write [where p = G129_FILE and fl = g129_fl, OF assms(1,2)], goal_cases)
  case (6 t)
  let ?e = "write_at (nat x) (g129_buf bs) d"
  have rd: "read_at (nat x) bs ?e = g129_buf bs" using read_at_write_at [of "nat x" "g129_buf bs" d] by simp
  show ?case
    unfolding prod.case wp_bnd wp_kunit_assert
  proof (intro conjI, simp, rule h_read [where p = G129_FILE and d = ?e and fl = g129_fl, OF 6], goal_cases)
    case (6 t2 b)
    have trunc: "wp (xfs_ftruncate K h 0) (\<lambda>e t. e = 0 \<and> Q (if trunc then 0 else x + int bs) t) t2" if trunc
      by (rule h_ftruncate [where p = G129_FILE and d = ?e and fl = g129_fl, OF 6(1)])
        (use assms(6) in \<open>auto simp: size_limit_def that\<close>)
    show ?case
      using 6 trunc assms(3) assms(6) [OF 6(1)] by (auto simp: rd)
  qed (use assms in \<open>simp_all add: readable_def\<close>)
qed (use assms in simp_all)

lemma g129_iter_ok:
  assumes "g129_inv c bs seqn openclose k l s" "0 < bs" "k * bs + bs < size_limit"
  shows "wp (g129_iter K bs seqn trunc openclose k l) (g129_inv c bs seqn openclose (Suc k)) s"
proof -
  obtain f pos x where l: "l = (f, pos, x)" by (cases l)
  let ?H = "case f of None \<Rightarrow> Map.empty | Some h \<Rightarrow> [G129_FILE \<mapsto> (h, g129_fl)]"
  obtain M where x: "x = (if seqn then int (k * bs) else 0)" and f: "f = None \<longleftrightarrow> openclose \<or> k = 0"
    and pos: "f \<noteq> None \<longrightarrow> seqn \<longrightarrow> pos = x" and M: "holds c {G129_FILE} M ?H s" "f \<noteq> None \<longrightarrow> M G129_FILE \<noteq> None"
    using assms(1) unfolding g129_inv_def l prod.case by (elim conjE exE) (rule that)
  have lim: "0 \<le> x" "nat x + bs < size_limit" using assms(3) x by (auto simp del: of_nat_mult)
  let ?x' = "if seqn then x + int bs else x"
  have x': "?x' = (if seqn then int (Suc k * bs) else 0)" by (simp add: x)
  have io: "wp (g129_io K bs trunc x h x) (\<lambda>pos. wp (
      let seek_to = ?x'; pos = (if seqn \<and> trunc then seek_to else pos)
      in bnd (do_if openclose (kdo (filp_close K h))) (\<lambda>_. ret (if openclose then None else Some h, pos, seek_to)))
      (g129_inv c bs seqn openclose (Suc k))) t"
    if "holds c {G129_FILE} N [G129_FILE \<mapsto> (h, g129_fl)] t" "N G129_FILE = Some d" for h t N d
  proof (rule g129_io_ok [OF that assms(2) lim], goal_cases)
    case (1 t2 e)
    have "wp (kdo (filp_close K h)) (\<lambda>_. g129_inv c bs seqn openclose (Suc k) (None, p, ?x')) t2" if openclose for p
      by (rule h_close [where p = G129_FILE, OF 1]) (use that x' in \<open>auto simp: g129_inv_def\<close>)
    moreover have "g129_inv c bs seqn openclose (Suc k) (Some h, p, ?x') t2" if "\<not> openclose" "seqn \<longrightarrow> p = ?x'" for p
      using that x' 1 by (auto simp: g129_inv_def)
    ultimately show ?case by (simp add: Let_def)
  qed
  note steps = wp_bnd wp_ret wp_do_if sum.case prod.case option.case g129_deref_def Let_def
  show ?thesis
  proof (cases "openclose \<or> k = 0")
    case True
    then have "f = None" using f by simp
    then have M0: "holds c {G129_FILE} M Map.empty s" using M(1) by simp
    have p: "(if \<not> seqn then x else if openclose \<and> seqn then x else 0) = x" using True x by auto
    show ?thesis
      unfolding g129_iter_def l prod.case wp_bnd if_P [OF True] wp_must_open
      by (rule g129_open_ok [OF M0])
        (use io [of "M(G129_FILE \<mapsto> d)" h t d for h t d, OF _ fun_upd_same] p in \<open>simp only: steps\<close>)
  next
    case False
    then obtain h where h: "f = Some h" using f by auto
    have p: "(if \<not> seqn then x else if openclose \<and> seqn then x else pos) = x" using pos h by auto
    obtain d where d: "M G129_FILE = Some d" using M(2) h by auto
    with io [of M h s d] M(1) h p show ?thesis
      unfolding g129_iter_def l prod.case wp_bnd if_not_P [OF False]
      by (simp only: steps)
  qed
qed

lemma g129_loop_ok:
  assumes "holds c {G129_FILE} M Map.empty s" "0 < bs" "iters * bs < size_limit"
    and "\<And>N t. holds c {G129_FILE} N Map.empty t \<Longrightarrow> Q () t"
  shows "wp (g129_loop K iters bs seqn trunc openclose) Q s"
proof -
  have run: "wp (for_fold [0..<iters] (g129_iter K bs seqn trunc openclose) (None, 0, 0)) (\<lambda>a. wp (case a of (f, pos, seek_to) \<Rightarrow>
       case f of None \<Rightarrow> ret () | Some h \<Rightarrow> kdo (filp_close K h)) (\<lambda>_. Q ())) t"
    if t: "holds c {G129_FILE} Map.empty Map.empty t" for t
  proof (rule wp_for_fold_range [where I = "g129_inv c bs seqn openclose"], goal_cases)
    case (3 k l s)
    have "Suc k * bs \<le> iters * bs" using 3(2) by (simp only: mult_le_mono1 Suc_le_eq)
    then show ?case using 3(3) assms(2,3) by (intro g129_iter_ok) simp_all
  next
    case (4 l u)
    then show ?case
      by (auto simp: g129_inv_def split: prod.splits option.splits intro!: assms(4) h_close_last [where p = G129_FILE])
  qed (use t in \<open>auto simp: g129_inv_def\<close>)
  show ?thesis
    unfolding g129_loop_def wp_seq_Cons wp_seq_Nil wp_ignore wp_bnd
  proof (rule h_alloc2 [OF assms(1)], rule h_unlink_any [where p = G129_FILE], assumption, simp, simp, goal_cases)
    case (1 t1 t2 e)
    have "dom M \<subseteq> {G129_FILE}" using holdsD(1) [OF 1(1)] by (simp add: store_def)
    then have "M(G129_FILE := None) = Map.empty" by (auto simp: fun_eq_iff)
    with 1(2) have "holds c {G129_FILE} Map.empty Map.empty t2" by simp
    then show ?case by (rule run)
  qed
qed

lemma g129_run_ok:
  assumes "ready V ok G129_ROOT s"
  shows "passes (looptest_parameter_sets_read_back_what_they_wrote K) s"
  unfolding passes_def looptest_parameter_sets_read_back_what_they_wrote_def wp_seq_Cons wp_seq_Nil
  by (rule h_prologue [where U = "{G129_FILE}", OF assms])
    (auto simp: G129_FILE_def size_limit_def intro!: g129_loop_ok dest: holds_fails)

end

end
