(* ===== verification/Direct.thy ===== *)
theory Direct
  imports Sparse
begin

text \<open>
  Direct I/O.  The fixture's \<open>xfs_direct_write\<close> and \<open>xfs_direct_read\<close> hand a buffer of the
  kernel to \<open>vfs_iocb_iter_write\<close> and \<open>vfs_iocb_iter_read\<close> with \<open>IOCB_DIRECT\<close> set; the locale
  \<open>direct_io\<close> adds to the contract that such a request on a file opened with O_DIRECT moves the
  same bytes as the buffered one (NFS has no alignment rule) and is coherent with it.
\<close>

locale direct_io = nfs42 K V ok inval
  for K :: "'w kernel" and V :: "'w \<Rightarrow> fsv" and ok :: "'w \<Rightarrow> bool" and inval :: "nat \<Rightarrow> 'w \<Rightarrow> int \<times> 'w" +
  assumes direct_write: "\<lbrakk>ok w; fds (V w) h = Some (i, fl); i_type (inodes (V w) i) = S_REG; writable fl;
        O_DIRECT \<in> fl; O_APPEND \<notin> fl; pos + length d < size_limit;
        vfs_iocb_iter_write K h d (int pos) True w = ((r, pos'), w')\<rbrakk> \<Longrightarrow>
      r = int (length d) \<and> pos' = int (pos + length d) \<and> ok w' \<and>
      V w' = set_data i (write_at pos d (data_of (V w) i)) (V w)"
    and direct_read: "\<lbrakk>ok w; fds (V w) h = Some (i, fl); i_type (inodes (V w) i) = S_REG; readable fl;
        O_DIRECT \<in> fl; pos + n < size_limit;
        vfs_iocb_iter_read K h n (int pos) True w = ((r, d, pos'), w')\<rbrakk> \<Longrightarrow>
      d = read_at pos n (data_of (V w) i) \<and> r = int (length d) \<and> pos' = int (pos + length d) \<and>
      ok w' \<and> V w' = V w"
begin

lemma h_direct_write:
  assumes "holds c U M H s" "M p = Some d" "H p = Some (h, fl)" "writable fl" "O_DIRECT \<in> fl" "O_APPEND \<notin> fl"
    and "0 \<le> x" "n \<le> length b" "nat x + n < size_limit"
    and "\<And>t. holds c U (M(p \<mapsto> write_at (nat x) (take n b) d)) H t \<Longrightarrow> Q (int n, b, x + int n) t"
  shows "wp (xfs_direct_write K h b n x) Q s"
  unfolding xfs_direct_write_def xfs_direct_rw_def iocb_rw_def wp_bnd if_True
proof (rule wp_kcallI)
  fix a w'
  assume call: "vfs_iocb_iter_write K h (take n b) x True (kw s) = (a, w')"
  obtain r pos' where a: "a = (r, pos')" by fastforce
  note st = holdsD [OF assms(1)]
  note f = s_step_open(1) [OF st(1) assms(2,3)]
  have len: "length (take n b) = n" using assms(8) by simp
  have "vfs_iocb_iter_write K h (take n b) (int (nat x)) True (kw s) = ((r, pos'), w')"
    using call a assms(7) by simp
  from direct_write [OF file_on_ok [OF f] file_on_fd [OF f] file_on_has(3) [OF f] assms(4-6) _ this]
  have w: "r = int n" "pos' = x + int n" "ok w'"
    "V w' = set_data (the (names (V (kw s)) p)) (write_at (nat x) (take n b) d) (V (kw s))"
    using assms(7,9) len file_on_has(4) [OF f] by auto
  from s_step_open(2) [OF st(1) assms(2,3) set_data_step [OF f w(3,4)]]
  have "Q (int n, b, x + int n) (s\<lparr>kw := w'\<rparr>)" using assms(10) st(2) by (simp add: holds_def)
  then show "wp (case a of (r, ki_pos) \<Rightarrow> ret (r, b, if r > 0 then ki_pos else x)) Q (s\<lparr>kw := w'\<rparr>)"
    using a w(1,2) by (cases "n = 0") simp_all
qed

lemma h_direct_write_same:
  assumes "holds c U (M(p \<mapsto> d)) (H(p \<mapsto> (h, fl))) s" "writable fl" "O_DIRECT \<in> fl" "O_APPEND \<notin> fl"
    and "0 \<le> x" "n \<le> length b" "nat x + n < size_limit"
    and "\<And>t. holds c U (M(p \<mapsto> write_at (nat x) (take n b) d)) (H(p \<mapsto> (h, fl))) t \<Longrightarrow> Q (int n, b, x + int n) t"
  shows "wp (xfs_direct_write K h b n x) Q s"
  by (rule h_direct_write [where M = "M(p \<mapsto> d)" and H = "H(p \<mapsto> (h, fl))" and p = p and d = d and fl = fl, OF assms(1)])
    (simp_all only: assms fun_upd_same fun_upd_upd simp_thms)

lemma h_direct_read:
  assumes "holds c U M H s" "M p = Some d" "H p = Some (h, fl)" "readable fl" "O_DIRECT \<in> fl"
    and "0 \<le> x" "nat x + n < size_limit"
    and "\<And>t e. \<lbrakk>holds c U M H t; e = read_at (nat x) n d\<rbrakk> \<Longrightarrow> Q (int (length e), blit 0 e b, x + int (length e)) t"
  shows "wp (xfs_direct_read K h b n x) Q s"
  unfolding xfs_direct_read_def xfs_direct_rw_def iocb_rw_def wp_bnd if_False simp_thms
proof (rule wp_kcallI)
  fix a w'
  assume call: "vfs_iocb_iter_read K h n x True (kw s) = (a, w')"
  obtain r e pos' where a: "a = (r, e, pos')" by (cases a) auto
  note st = holdsD [OF assms(1)]
  note f = s_step_open(1) [OF st(1) assms(2,3)]
  have "vfs_iocb_iter_read K h n (int (nat x)) True (kw s) = ((r, e, pos'), w')"
    using call a assms(6) by simp
  from direct_read [OF file_on_ok [OF f] file_on_fd [OF f] file_on_has(3) [OF f] assms(4,5,7) this]
  have w: "e = read_at (nat x) n d" "r = int (length e)" "pos' = x + int (length e)" "ok w'" "V w' = V (kw s)"
    using assms(6) file_on_has(4) [OF f] by auto
  have "holds c U M H (s\<lparr>kw := w'\<rparr>)" using st store_cong [OF st(1) w(4,5)] by (simp add: holds_def)
  from assms(8) [OF this w(1)]
  show "wp (case a of (r, data, ki_pos) \<Rightarrow> ret (r, blit 0 data b, if r > 0 then ki_pos else x)) Q (s\<lparr>kw := w'\<rparr>)"
    using a w(2,3) by (cases "e = []") simp_all
qed

end

interpretation direct: direct_io expk mv mem_ok mem_inval
proof (rule direct_io.intro [OF sparse.nfs42_axioms], unfold_locales, goal_cases)
  case (1 w h i fl pos d r pos' w')
  from 1 have "kernel_write memk h d (int pos) w = ((r, pos'), w')" by (simp add: expk_def memk_def)
  from mem.write_file [OF 1(1-4) _ _ this] 1 show ?case by simp
next
  case (2 w h i fl pos n r d pos' w')
  from 2 have "kernel_read memk h n (int pos) w = ((r, d, pos'), w')" by (simp add: expk_def memk_def)
  from mem.read_file [OF 2(1-4,6) this] show ?case by simp
qed

end
