(* ===== verification/Gen130.thy ===== *)
theory Gen130
  imports Direct
begin

text \<open>
  \<open>kunit/xfstests/generic/130.c\<close>: a battery of buffered and direct I/O on single files:
  zeroing at the end of a file, holes, coherence of the two paths, a block boundary,
  O_TRUNC, O_APPEND and single bytes around a page boundary.  The scratch buffer is modelled
  by what each call is handed.
\<close>

definition G130_ROOT :: string where "G130_ROOT = XFS_MNT @ ''/g130''"
definition G130_MAX :: nat where "G130_MAX = 640 * 1024"

definition g130_files :: "string list" where
  "g130_files = [''eof-zeroing_direct'', ''blackhole'', ''buff_direct_coherency'', ''direct_io'', ''fsb_edge_test'',
     ''trunc0'', ''append'', ''small_vector'']"

definition g130_path :: "string \<Rightarrow> string" where "g130_path name = G130_ROOT @ ''/'' @ name"

definition g130_remove_tree :: "'w kernel \<Rightarrow> (('w, 'z) kst_scheme, unit) prog" where
  "g130_remove_tree K = seq [
     for_each g130_files (\<lambda>n. ignore (xfs_unlink K (g130_path n))),
     ignore (xfs_rmdir_settled K G130_ROOT)]"

definition g130_setup :: "'w kernel \<Rightarrow> (('w, 'z) fxs_scheme, unit) prog" where
  \<comment> \<open>with the assertion of its callers that it returns 0\<close>
  "g130_setup K = test_prologue K G130_ROOT ''g130_remove_tree'' (g130_remove_tree K)"

definition g130_chunks :: "nat \<Rightarrow> (nat \<times> nat) list" where
  \<comment> \<open>\<open>done\<close> and \<open>n\<close> in the turns of the loop over at most \<open>G130_MAX\<close> bytes\<close>
  "g130_chunks len = map (\<lambda>k. (k * G130_MAX, min (len - k * G130_MAX) G130_MAX)) [0..<(len + (G130_MAX - 1)) div G130_MAX]"

definition g130_fill :: "'w kernel \<Rightarrow> nat \<Rightarrow> bool \<Rightarrow> byte \<Rightarrow> int \<Rightarrow> nat \<Rightarrow> (('w, 'z) kst_scheme, unit) prog" where
  "g130_fill K f direct val off len = ignore (for_fold (g130_chunks len) (\<lambda>(dn, n) pos.
     bnd (if direct then bnd (xfs_direct_write K f (replicate n val) n pos) (\<lambda>(w, _, pos). ret (w, pos))
          else kcall (kernel_write K f (replicate n val) pos)) (\<lambda>(w, pos).
     bnd (kunit_assert (w = int n)) (\<lambda>_. ret pos))) off)"

definition g130_expect :: "'w kernel \<Rightarrow> string \<Rightarrow> int \<Rightarrow> nat \<Rightarrow> byte \<Rightarrow> (('w, 'z) kst_scheme, unit) prog" where
  "g130_expect K path off len val = ignore (for_while (g130_chunks len) (\<lambda>(dn, n).
     bnd (xfs_read_range K path n (off + int dn)) (\<lambda>(r, buf).
     bnd (kunit_assert (r = int n)) (\<lambda>_.
     case first_diff buf (replicate n val) of None \<Rightarrow> ret True | Some i \<Rightarrow> bnd kunit_fail (\<lambda>_. ret False)))))"

definition end_of_file_zeroing_with_direct_io :: "'w kernel \<Rightarrow> (('w, 'z) fxs_scheme, unit) prog" where
  "end_of_file_zeroing_with_direct_io K = (let path = g130_path ''eof-zeroing_direct'' in seq [
     g130_setup K,
     must_alloc K G130_MAX,
     must_open (kcall (filp_open K path {O_RDWR, O_CREAT, O_TRUNC, O_DIRECT} (mode3 6 4 4))) (\<lambda>f. seq [
       g130_fill K f True 0x63 0 65536,
       must (xfs_ftruncate K f 1),
       g130_fill K f True 0x41 65536 65536,
       kdo (filp_close K f)]),
     g130_expect K path 0 1 0x63,
     g130_expect K path 1 65535 0x00,
     g130_expect K path 65536 65536 0x41])"

definition reading_a_hole_made_by_truncate :: "'w kernel \<Rightarrow> (('w, 'z) fxs_scheme, unit) prog" where
  "reading_a_hole_made_by_truncate K = (let path = g130_path ''blackhole'' in seq [
     g130_setup K,
     must_alloc K G130_MAX,
     must (xfs_write_new_file K path []),
     must (xfs_truncate K path 8192),
     g130_expect K path 5000 3000 0x00])"

definition buffered_and_direct_writes_stay_coherent :: "'w kernel \<Rightarrow> (('w, 'z) fxs_scheme, unit) prog" where
  "buffered_and_direct_writes_stay_coherent K = (let path = g130_path ''buff_direct_coherency'' in seq [
     g130_setup K,
     must_alloc K G130_MAX,
     must_open (kcall (filp_open K path {O_RDWR, O_CREAT, O_TRUNC} (mode3 6 4 4))) (\<lambda>f. seq [
       g130_fill K f False 0x41 8000 1000,
       g130_fill K f False 0x57 4000 1000,
       kdo (filp_close K f)]),
     must_open (kcall (filp_open K path {O_RDWR, O_DIRECT} 0)) (\<lambda>f. seq [
       g130_fill K f True 0x78 20480 4096,
       g130_fill K f True 0x79 4096 4096,
       kdo (filp_close K f)]),
     g130_expect K path 0 4000 0x00,
     g130_expect K path 4000 96 0x57,
     g130_expect K path 4096 4096 0x79,
     g130_expect K path 8192 808 0x41,
     g130_expect K path 20480 4096 0x78])"

definition direct_reads_and_writes_over_a_larger_range :: "'w kernel \<Rightarrow> (('w, 'z) fxs_scheme, unit) prog" where
  "direct_reads_and_writes_over_a_larger_range K = (let path = g130_path ''direct_io'' in seq [
     g130_setup K,
     must_alloc K G130_MAX,
     must_open (kcall (filp_open K path {O_RDWR, O_CREAT, O_TRUNC, O_DIRECT} (mode3 6 4 4))) (\<lambda>f. seq [
       g130_fill K f True 0x78 0 65536,
       g130_fill K f True 0x46 65536 G130_MAX,
       kdo (filp_close K f)]),
     g130_expect K path 0 65536 0x78,
     g130_expect K path 65536 G130_MAX 0x46])"

definition the_block_edge_case :: "'w kernel \<Rightarrow> (('w, 'z) fxs_scheme, unit) prog" where
  "the_block_edge_case K = (let path = g130_path ''fsb_edge_test'' in seq [
     g130_setup K,
     must_alloc K G130_MAX,
     must_open (kcall (filp_open K path {O_RDWR, O_CREAT, O_TRUNC} (mode3 6 4 4))) (\<lambda>f. seq [
       must (xfs_ftruncate K f 131072),
       g130_fill K f False 0x5f 0 131072,
       must (xfs_ftruncate K f 0),
       must (xfs_ftruncate K f 131072),
       must_ret (kcall (kernel_write K f [0x61, 0x61] 65535)) (\<lambda>(n, _). n = 2),
       kdo (filp_close K f)]),
     g130_expect K path 0 65535 0x00,
     g130_expect K path 65535 2 0x61,
     g130_expect K path 65537 (131072 - 65537) 0x00])"

definition o_trunc_empties_an_existing_file :: "'w kernel \<Rightarrow> (('w, 'z) fxs_scheme, unit) prog" where
  "o_trunc_empties_an_existing_file K = (let path = g130_path ''trunc0''; msg = to_bytes (''Test'' @ [nl]) in seq [
     g130_setup K,
     for_each [0..<5 :: nat] (\<lambda>n. must_open (kcall (filp_open K path {O_RDWR, O_CREAT, O_TRUNC} (mode3 6 4 4))) (\<lambda>f. seq [
       expect_stat K path (\<lambda>st. st_size st = 0),
       must_ret (kcall (kernel_write K f msg 0)) (\<lambda>(n, _). n = int (length msg)),
       kdo (filp_close K f),
       bnd (xfs_read_range K path (length msg) 0) (\<lambda>(n, got). seq [
         kunit_assert (n = int (length msg)),
         kunit_expect (take (length msg) got = msg)])]))])"

definition o_append_ignores_the_offset :: "'w kernel \<Rightarrow> (('w, 'z) fxs_scheme, unit) prog" where
  "o_append_ignores_the_offset K = (let path = g130_path ''append''; msg = to_bytes (''append to me'' @ [nl]) in seq [
     g130_setup K,
     must_alloc K G130_MAX,
     must (xfs_write_new_file K path msg),
     must_open (kcall (filp_open K path {O_WRONLY, O_APPEND} 0)) (\<lambda>f. seq [
       must_ret (kcall (kernel_write K f (replicate 10 0x61) 0)) (\<lambda>(n, _). n = 10),
       kdo (filp_close K f)]),
     g130_expect K path 0 1 (msg ! 0),
     g130_expect K path (int (length msg)) 10 0x61])"

definition single_byte_reads_and_writes_around_a_page :: "'w kernel \<Rightarrow> (('w, 'z) fxs_scheme, unit) prog" where
  "single_byte_reads_and_writes_around_a_page K =
    (let path = g130_path ''small_vector''; msg = to_bytes (''abcdefghijklmnopqrstuvwxyz'' @ [nl]) in seq [
     g130_setup K,
     must_alloc K G130_MAX,
     must (xfs_write_new_file K path msg),
     for_each [0..<13] (\<lambda>i. bnd (xfs_read_range K path 1 (int i)) (\<lambda>(n, c). seq [
       kunit_assert (n = 1),
       kunit_expect (c ! 0 = msg ! i)])),
     must_open (kcall (filp_open K path {O_RDWR} 0)) (\<lambda>f. seq [
       for_each [0..<12] (\<lambda>i. must_ret (kcall (kernel_write K f [0x61 + of_nat i] (int (4090 + i)))) (\<lambda>(n, _). n = 1)),
       kdo (filp_close K f)]),
     for_each [0..<12] (\<lambda>i. bnd (xfs_read_range K path 1 (int (4090 + i))) (\<lambda>(n, c). seq [
       kunit_assert (n = 1),
       kunit_expect (c ! 0 = 0x61 + of_nat i)])),
     g130_expect K path (int (length msg)) (4090 - length msg) 0x00])"

definition g130_suite :: "'w kernel \<Rightarrow> ('w, 'z) fxs_scheme suite" where
  "g130_suite K = nfs_suite K ''xfstests/generic/130''
     [(''end_of_file_zeroing_with_direct_io'', end_of_file_zeroing_with_direct_io K),
      (''reading_a_hole_made_by_truncate'', reading_a_hole_made_by_truncate K),
      (''buffered_and_direct_writes_stay_coherent'', buffered_and_direct_writes_stay_coherent K),
      (''direct_reads_and_writes_over_a_larger_range'', direct_reads_and_writes_over_a_larger_range K),
      (''the_block_edge_case'', the_block_edge_case K),
      (''o_trunc_empties_an_existing_file'', o_trunc_empties_an_existing_file K),
      (''o_append_ignores_the_offset'', o_append_ignores_the_offset K),
      (''single_byte_reads_and_writes_around_a_page'', single_byte_reads_and_writes_around_a_page K)]"

section \<open>Ranges of one byte\<close>

lemma g130_chunk: "0 < len \<Longrightarrow> len \<le> G130_MAX \<Longrightarrow> g130_chunks len = [(0, len)]"
proof -
  assume "0 < len" "len \<le> G130_MAX"
  then have "(len + (G130_MAX - 1)) div G130_MAX = 1"
    by (intro div_nat_eqI) (simp_all add: G130_MAX_def)
  then show ?thesis using \<open>len \<le> G130_MAX\<close> by (simp add: g130_chunks_def)
qed

lemma read_at_const:
  "\<lbrakk>x + n \<le> length d; \<And>i. x \<le> i \<Longrightarrow> i < x + n \<Longrightarrow> d ! i = v\<rbrakk> \<Longrightarrow> read_at x n d = replicate n v"
  by (rule nth_equalityI) (auto simp: nth_read_at)

context direct_io
begin

abbreviation g130_U :: "string set" where "g130_U \<equiv> g130_path ` set g130_files"

lemma g130_start:
  assumes "ready V ok G130_ROOT s"
    and "\<And>t c. \<lbrakk>fst c = kfails s; holds c g130_U Map.empty Map.empty t\<rbrakk> \<Longrightarrow> Q () t"
  shows "wp (g130_setup K) Q s"
  unfolding g130_setup_def
  by (rule h_prologue [where U = g130_U, OF assms(1)])
    (auto simp: g130_files_def g130_path_def intro!: assms(2))

lemma g130_fill_ok:
  assumes "holds c U (M(p \<mapsto> d)) (H(p \<mapsto> (f, fl))) s" "writable fl" "O_APPEND \<notin> fl" "direct \<longrightarrow> O_DIRECT \<in> fl"
    and "0 < len" "len \<le> G130_MAX" "0 \<le> off" "nat off + len < size_limit"
    and "\<And>t. holds c U (M(p \<mapsto> write_at (nat off) (replicate len v) d)) (H(p \<mapsto> (f, fl))) t \<Longrightarrow> Q () t"
  shows "wp (g130_fill K f direct v off len) Q s"
proof (cases direct)
  case True
  show ?thesis
    unfolding g130_fill_def g130_chunk [OF assms(5,6)] wp_ignore for_fold.simps prod.case if_P [OF True] wp_unfold
    by (rule h_direct_write_same [OF assms(1,2)]) (use assms True in simp_all)
next
  case False
  show ?thesis
    unfolding g130_fill_def g130_chunk [OF assms(5,6)] wp_ignore for_fold.simps prod.case if_not_P [OF False] wp_unfold
    by (rule h_write_same [OF assms(1-3)]) (use assms in simp_all)
qed

lemma g130_expect_ok:
  assumes "holds c U M H s" "M p = Some d" "0 < len" "len \<le> G130_MAX" "0 \<le> off" "nat off + len < size_limit"
    and "nat off + len \<le> length d" "\<And>i. nat off \<le> i \<Longrightarrow> i < nat off + len \<Longrightarrow> d ! i = v"
    and "\<And>t. holds c U M H t \<Longrightarrow> Q () t"
  shows "wp (g130_expect K p off len v) Q s"
  unfolding g130_expect_def g130_chunk [OF assms(3,4)] wp_unfold for_while.simps int_ops(1) add_0_right
  by (rule h_read_range [OF assms(1,2,5,6)]) (simp add: read_at_const [OF assms(7,8)] assms(9))

lemma g130_path_in: "n \<in> set g130_files \<Longrightarrow> g130_path n \<in> g130_U"
  by simp

lemma g130_zeroing_ok:
  assumes "ready V ok G130_ROOT s"
  shows "passes (end_of_file_zeroing_with_direct_io K) s"
  unfolding passes_def end_of_file_zeroing_with_direct_io_def Let_def
  apply (simp only: wp_unfold)
  apply (rule g130_start [OF assms])
  apply (erule h_alloc)
  apply (erule h_create, simp add: g130_files_def, simp, simp)
  apply (simp only: wp_unfold)
  apply (erule g130_fill_ok, simp, simp, simp, simp, simp add: G130_MAX_def, simp, simp add: size_limit_def)
  apply (erule h_ftruncate [where p = "g130_path ''eof-zeroing_direct''"], simp, simp, simp, simp, simp add: size_limit_def)
  apply (intro conjI refl, simp only: fun_upd_upd)
  apply (erule g130_fill_ok, simp, simp, simp, simp, simp add: G130_MAX_def, simp, simp add: size_limit_def)
  apply (erule h_close_same, simp)
  apply (erule g130_expect_ok, simp, simp, simp add: G130_MAX_def, simp, simp add: size_limit_def, simp,
      simp add: nth_write_at nth_resize)
  apply (erule g130_expect_ok, simp, simp, simp add: G130_MAX_def, simp, simp add: size_limit_def, simp,
      simp add: nth_write_at nth_resize)
  apply (erule g130_expect_ok, simp, simp, simp add: G130_MAX_def, simp, simp add: size_limit_def, simp,
      simp add: nth_write_at nth_resize)
  apply (drule holds_fails, simp)
  done

lemma g130_hole_ok:
  assumes "ready V ok G130_ROOT s"
  shows "passes (reading_a_hole_made_by_truncate K) s"
  unfolding passes_def reading_a_hole_made_by_truncate_def Let_def
  apply (simp only: wp_steps)
  apply (rule g130_start [OF assms])
  apply (erule h_alloc)
  apply (erule h_write_fresh, simp add: g130_files_def, simp, simp add: size_limit_def, intro conjI refl)
  apply (erule h_truncate, simp, simp, simp add: size_limit_def, intro conjI refl)
  apply (erule g130_expect_ok, simp, simp, simp add: G130_MAX_def, simp, simp add: size_limit_def, simp add: G130_MAX_def,
      simp add: nth_write_at nth_resize G130_MAX_def)
  apply (drule holds_fails, simp)
  done

lemma g130_coherent_ok:
  assumes "ready V ok G130_ROOT s"
  shows "passes (buffered_and_direct_writes_stay_coherent K) s"
  unfolding passes_def buffered_and_direct_writes_stay_coherent_def Let_def
  apply (simp only: wp_steps)
  apply (rule g130_start [OF assms])
  apply (erule h_alloc)
  apply (erule h_create, simp add: g130_files_def, simp, simp)
  apply (simp only: wp_steps)
  apply (erule g130_fill_ok, simp, simp, simp, simp, simp add: G130_MAX_def, simp, simp add: size_limit_def G130_MAX_def)
  apply (erule g130_fill_ok, simp, simp, simp, simp, simp add: G130_MAX_def, simp, simp add: size_limit_def G130_MAX_def)
  apply (erule h_close_same, simp)
  apply (erule h_open_keep, simp, simp, simp, simp, simp)
  apply (simp only: wp_steps)
  apply (erule g130_fill_ok, simp, simp, simp, simp, simp add: G130_MAX_def, simp, simp add: size_limit_def G130_MAX_def)
  apply (erule g130_fill_ok, simp, simp, simp, simp, simp add: G130_MAX_def, simp, simp add: size_limit_def G130_MAX_def)
  apply (erule h_close_same, simp)
  apply (erule g130_expect_ok, simp, simp, simp add: G130_MAX_def, simp, simp add: size_limit_def, simp add: G130_MAX_def,
      simp add: nth_write_at nth_resize G130_MAX_def)
  apply (erule g130_expect_ok, simp, simp, simp add: G130_MAX_def, simp, simp add: size_limit_def, simp add: G130_MAX_def,
      simp add: nth_write_at nth_resize G130_MAX_def)
  apply (erule g130_expect_ok, simp, simp, simp add: G130_MAX_def, simp, simp add: size_limit_def, simp add: G130_MAX_def,
      simp add: nth_write_at nth_resize G130_MAX_def)
  apply (erule g130_expect_ok, simp, simp, simp add: G130_MAX_def, simp, simp add: size_limit_def, simp add: G130_MAX_def,
      simp add: nth_write_at nth_resize G130_MAX_def)
  apply (erule g130_expect_ok, simp, simp, simp add: G130_MAX_def, simp, simp add: size_limit_def, simp add: G130_MAX_def,
      simp add: nth_write_at nth_resize G130_MAX_def)
  apply (drule holds_fails, simp)
  done

lemma g130_larger_ok:
  assumes "ready V ok G130_ROOT s"
  shows "passes (direct_reads_and_writes_over_a_larger_range K) s"
  unfolding passes_def direct_reads_and_writes_over_a_larger_range_def Let_def
  apply (simp only: wp_steps)
  apply (rule g130_start [OF assms])
  apply (erule h_alloc)
  apply (erule h_create, simp add: g130_files_def, simp, simp)
  apply (simp only: wp_steps)
  apply (erule g130_fill_ok, simp, simp, simp, simp add: G130_MAX_def, simp add: G130_MAX_def, simp, simp add: size_limit_def G130_MAX_def)
  apply (erule g130_fill_ok, simp, simp, simp, simp add: G130_MAX_def, simp add: G130_MAX_def, simp, simp add: size_limit_def G130_MAX_def)
  apply (erule h_close_same, simp)
  apply (erule g130_expect_ok, simp, simp add: G130_MAX_def, simp add: G130_MAX_def, simp, simp add: size_limit_def G130_MAX_def, simp add: G130_MAX_def,
      simp add: nth_write_at nth_resize G130_MAX_def)
  apply (erule g130_expect_ok, simp, simp add: G130_MAX_def, simp add: G130_MAX_def, simp, simp add: size_limit_def G130_MAX_def, simp add: G130_MAX_def,
      simp add: nth_write_at nth_resize G130_MAX_def)
  apply (drule holds_fails, simp)
  done

lemma g130_edge_ok:
  assumes "ready V ok G130_ROOT s"
  shows "passes (the_block_edge_case K) s"
  unfolding passes_def the_block_edge_case_def Let_def
  apply (simp only: wp_steps)
  apply (rule g130_start [OF assms])
  apply (erule h_alloc)
  apply (erule h_create, simp add: g130_files_def, simp, simp)
  apply (simp only: wp_steps)
  apply (erule h_ftruncate [where p = "g130_path ''fsb_edge_test''"], simp, simp, simp, simp, simp add: size_limit_def)
  apply (intro conjI refl, simp only: fun_upd_upd)
  apply (erule g130_fill_ok, simp, simp, simp, simp, simp add: G130_MAX_def, simp, simp add: size_limit_def G130_MAX_def)
  apply (erule h_ftruncate [where p = "g130_path ''fsb_edge_test''"], simp, simp, simp, simp, simp add: size_limit_def)
  apply (intro conjI refl, simp only: fun_upd_upd)
  apply (erule h_ftruncate [where p = "g130_path ''fsb_edge_test''"], simp, simp, simp, simp, simp add: size_limit_def)
  apply (intro conjI refl, simp only: fun_upd_upd)
  apply (erule h_write_same, simp, simp, simp, simp add: size_limit_def, intro conjI, simp)
  apply (erule h_close_same, simp)
  apply (erule g130_expect_ok, simp, simp, simp add: G130_MAX_def, simp, simp add: size_limit_def, simp add: G130_MAX_def,
      simp add: nth_write_at nth_resize nth_Cons' G130_MAX_def)
  apply (erule g130_expect_ok, simp, simp, simp add: G130_MAX_def, simp, simp add: size_limit_def, simp add: G130_MAX_def,
      simp add: nth_write_at nth_resize nth_Cons' G130_MAX_def)
  apply (erule g130_expect_ok, simp, simp, simp add: G130_MAX_def, simp, simp add: size_limit_def, simp add: G130_MAX_def,
      simp add: nth_write_at nth_resize nth_Cons' G130_MAX_def)
  apply (drule holds_fails, simp)
  done

lemma g130_trunc_round:
  assumes "holds c g130_U M Map.empty s" "p = g130_path ''trunc0''" "d = to_bytes (''Test'' @ [nl])"
    and "\<And>M t. holds c g130_U M Map.empty t \<Longrightarrow> Q () t"
  shows "wp (must_open (kcall (filp_open K p {O_RDWR, O_CREAT, O_TRUNC} (mode3 6 4 4))) (\<lambda>f. seq [
       expect_stat K p (\<lambda>st. st_size st = 0),
       must_ret (kcall (kernel_write K f d 0)) (\<lambda>(n, _). n = int (length d)),
       kdo (filp_close K f),
       bnd (xfs_read_range K p (length d) 0) (\<lambda>(n, got). seq [
         kunit_assert (n = int (length d)),
         kunit_expect (take (length d) got = d)])])) Q s"
proof -
  have l: "length d = 5" by (simp add: assms(3))
  have c: "write_at 0 d [] = d" "read_at 0 5 d = d" using l by (simp_all add: write_at_def read_at_0)
  have op: "wp (kcall (filp_open K p {O_RDWR, O_CREAT, O_TRUNC} (mode3 6 4 4))) R s"
    if "\<And>t h. holds c g130_U (M(p \<mapsto> [])) [p \<mapsto> (h, {O_RDWR, O_CREAT, O_TRUNC})] t \<Longrightarrow> R (Inr h) t" for R
    by (rule h_open_create [OF assms(1)]) (use that in \<open>simp_all add: assms(2) g130_files_def\<close>)
  show ?thesis
    unfolding l
    apply (simp only: wp_steps)
    apply (rule op)
    apply (simp only: wp_steps)
    apply (erule h_expect_stat, simp, simp)
    apply (erule h_write_same, simp, simp, simp, simp add: size_limit_def l)
    apply (simp only: wp_steps l)
    apply (erule h_close_same, simp)
    apply (erule h_read_range, simp, simp, simp add: size_limit_def)
    apply (simp only: wp_steps nat_0 c l)
    apply (rule wp_kunit_expectI, simp add: l, erule assms(4))
    done
qed

lemma g130_trunc_ok:
  assumes "ready V ok G130_ROOT s"
  shows "passes (o_trunc_empties_an_existing_file K) s"
  unfolding passes_def o_trunc_empties_an_existing_file_def Let_def
  apply (simp only: wp_seq_Cons wp_seq_Nil)
  apply (rule g130_start [OF assms])
  apply (rule_tac I = "\<lambda>_ t. \<exists>M. holds c g130_U M Map.empty t" in wp_for_each)
    apply (rule exI, assumption)
   apply (elim exE)
   apply (erule g130_trunc_round, rule refl, rule refl, erule exI)
  apply (auto dest!: holds_fails)
  done

lemma g130_append_ok:
  assumes "ready V ok G130_ROOT s"
  shows "passes (o_append_ignores_the_offset K) s"
  unfolding passes_def o_append_ignores_the_offset_def Let_def
  apply (simp only: wp_steps)
  apply (rule g130_start [OF assms])
  apply (erule h_alloc)
  apply (erule h_write_fresh, simp add: g130_files_def, simp, simp add: size_limit_def, intro conjI refl)
  apply (erule h_open_keep, simp, simp, simp, simp, simp)
  apply (simp only: wp_steps)
  apply (erule h_append [where p = "g130_path ''append''"], simp, simp, simp, simp, simp, simp add: size_limit_def, intro conjI, simp)
  apply (simp only: fun_upd_upd)
  apply (erule h_close_same, simp)
  apply (erule g130_expect_ok, simp, simp, simp add: G130_MAX_def, simp, simp add: size_limit_def, simp add: G130_MAX_def,
      simp add: nth_append to_bytes_def)
  apply (erule g130_expect_ok, simp, simp, simp add: G130_MAX_def, simp, simp add: size_limit_def, simp add: G130_MAX_def,
      simp add: nth_append to_bytes_def)
  apply (drule holds_fails, simp)
  done

lemma g130_single_ok:
  assumes "ready V ok G130_ROOT s"
  shows "passes (single_byte_reads_and_writes_around_a_page K) s"
proof -
  let ?p = "g130_path ''small_vector''" and ?msg = "to_bytes (''abcdefghijklmnopqrstuvwxyz'' @ [nl])"
  let ?bs = "\<lambda>k. map (\<lambda>i. 0x61 + of_nat i :: byte) [0..<k]"
  let ?d = "\<lambda>k. write_at 4090 (?bs k) ?msg"
  have len: "length (?d k) = (if k = 0 then 27 else 4090 + k)" for k by simp
  have one: "read_at x 1 d = [d ! x]" if "x < length d" for x and d :: "byte list"
    using that by (simp add: read_at_def take_Suc_conv_app_nth hd_drop_conv_nth take_Suc)
  have rd: "wp (for_each [0..<m] (\<lambda>i. bnd (xfs_read_range K ?p 1 (int (x + i))) (\<lambda>(n, c). seq [
      kunit_assert (n = 1), kunit_expect (c ! 0 = v i)]))) Q t"
    if "holds c U M Map.empty t" "M ?p = Some d" "x + m \<le> length d" "x + m < 10000" "\<And>i. i < m \<Longrightarrow> d ! (x + i) = v i"
      "\<And>t. holds c U M Map.empty t \<Longrightarrow> Q () t" for m x v d c U M Q t
  proof (rule wp_for_range [where I = "\<lambda>_. holds c U M Map.empty"], rule that(1), simp, goal_cases)
    case (1 i u)
    have *: "read_at (x + i) 1 d = [v i]" using one [of "x + i" d] that(3,5) 1(2) by simp
    show ?case
      unfolding wp_steps
      by (rule h_read_range [OF 1(3) that(2)]) (use * 1(2) that(4) in \<open>simp_all add: size_limit_def del: of_nat_add\<close>)
  qed (rule that(6))
  have wr: "wp (for_each [0..<12] (\<lambda>i. must_ret (kcall (kernel_write K f [0x61 + of_nat i] (int (4090 + i)))) (\<lambda>(n, _). n = 1))) Q t"
    if "holds c U (M(?p \<mapsto> ?msg)) (H(?p \<mapsto> (f, {O_RDWR}))) t"
      "\<And>t. holds c U (M(?p \<mapsto> ?d 12)) (H(?p \<mapsto> (f, {O_RDWR}))) t \<Longrightarrow> Q () t" for c U M H f t Q
  proof (rule wp_for_range [where I = "\<lambda>i. holds c U (M(?p \<mapsto> ?d i)) (H(?p \<mapsto> (f, {O_RDWR})))"], goal_cases)
    case 1
    then show ?case using that(1) by simp
  next
    case (3 i u)
    have e: "write_at (4090 + i) [0x61 + of_nat i] (?d i) = ?d (Suc i)"
      using write_at_then [of 4090 "?bs i" "[0x61 + of_nat i]" ?msg] by simp
    show ?case
      unfolding wp_steps
      by (rule h_write_same [OF 3(3)]) (use 3(2) e in \<open>simp_all add: size_limit_def del: of_nat_add\<close>)
  qed (use that(2) in simp_all)
  note c = size_limit_def
  show ?thesis
    unfolding passes_def single_byte_reads_and_writes_around_a_page_def Let_def
    apply (simp only: wp_steps)
    apply (rule g130_start [OF assms])
    apply (erule h_alloc)
    apply (erule h_write_fresh, simp add: g130_files_def, simp, simp add: c, intro conjI refl)
    apply (erule rd [of _ _ _ _ _ 0, unfolded add_0], simp, simp, simp, simp)
    apply (erule h_open_keep, simp, simp, simp, simp, simp)
    apply (simp only: wp_steps)
    apply (erule wr)
    apply (erule h_close_same, simp)
    apply (erule rd, simp, simp, simp, simp add: nth_write_at)
    apply (erule g130_expect_ok, simp, simp, simp add: G130_MAX_def, simp, simp add: c, simp, simp add: nth_write_at)
    apply (drule holds_fails, simp)
    done
qed

end

section \<open>Properties\<close>

text \<open>
  C16: buffered and direct I/O see one file, on every kernel that meets the contract with
  direct reads and writes: the eight cases of the battery pass.  A truncation reads as
  zeros when the file grows again, a hole reads as zeros, each kind of access sees what
  the other wrote, a write over a block edge touches only its bytes, \<open>O_TRUNC\<close> empties,
  \<open>O_APPEND\<close> ignores the offset, and single bytes land one by one around a page boundary.
\<close>

theorem io_battery_passes:
  assumes "direct_io K V ok inval" and "ready V ok G130_ROOT s"
  shows "passes (end_of_file_zeroing_with_direct_io K) s \<and> passes (reading_a_hole_made_by_truncate K) s \<and>
    passes (buffered_and_direct_writes_stay_coherent K) s \<and> passes (direct_reads_and_writes_over_a_larger_range K) s \<and>
    passes (the_block_edge_case K) s \<and> passes (o_trunc_empties_an_existing_file K) s \<and>
    passes (o_append_ignores_the_offset K) s \<and> passes (single_byte_reads_and_writes_around_a_page K) s"
  by (intro conjI direct_io.g130_zeroing_ok [OF assms] direct_io.g130_hole_ok [OF assms] direct_io.g130_coherent_ok [OF assms]
      direct_io.g130_larger_ok [OF assms] direct_io.g130_edge_ok [OF assms] direct_io.g130_trunc_ok [OF assms]
      direct_io.g130_append_ok [OF assms] direct_io.g130_single_ok [OF assms])

theorem io_battery_passes_witness:
  "passes (buffered_and_direct_writes_stay_coherent expk) (fx0 ()) \<and> passes (o_append_ignores_the_offset expk) (fx0 ())"
  using io_battery_passes [OF direct.direct_io_axioms, of "fx0 ()"] by (simp add: G130_ROOT_def fx0_ready)

end
