(* ===== verification/Gen132.thy ===== *)
theory Gen132
  imports Files
begin

text \<open>
  \<open>kunit/xfstests/generic/132.c\<close>: eight 512-byte blocks of one page rewritten fifty times
  with a byte that changes with the block and the pass, all eight read back after each
  pass.
\<close>

definition G132_ROOT :: string where "G132_ROOT = XFS_MNT @ ''/g132''"
definition G132_PAT :: string where "G132_PAT = G132_ROOT @ ''/pat''"
definition G132_BLKS :: nat where "G132_BLKS = 8"
definition G132_BS :: nat where "G132_BS = 512"
definition G132_PASSES :: nat where "G132_PASSES = 50"

definition g132_remove_tree :: "'w kernel \<Rightarrow> (('w, 'z) kst_scheme, unit) prog" where
  "g132_remove_tree K = seq [ignore (xfs_unlink K G132_PAT), ignore (xfs_rmdir K G132_ROOT)]"

definition g132_byte :: "nat \<Rightarrow> nat \<Rightarrow> byte" where
  "g132_byte pass blk = of_nat (0x63 + blk + pass)"

definition g132_write :: "'w kernel \<Rightarrow> nat \<Rightarrow> nat \<Rightarrow> nat \<Rightarrow> (('w, 'z) kst_scheme, unit) prog" where
  "g132_write K f pass blk =
     must_ret (kcall (kernel_write K f (replicate G132_BS (g132_byte pass blk)) (int (blk * G132_BS))))
       (\<lambda>(n, pos). n = int G132_BS)"

definition g132_check :: "'w kernel \<Rightarrow> nat \<Rightarrow> nat \<Rightarrow> nat \<Rightarrow> (('w, 'z) kst_scheme, bool) prog" where
  \<comment> \<open>\<open>False\<close> is the return after a mismatch\<close>
  "g132_check K f pass blk =
     bnd (kcall (kernel_read K f G132_BS (int (blk * G132_BS)))) (\<lambda>(n, buf, pos).
     bnd (kunit_assert (n = int G132_BS)) (\<lambda>_.
     case first_diff (take G132_BS buf) (replicate G132_BS (g132_byte pass blk)) of
       None \<Rightarrow> ret True | Some i \<Rightarrow> bnd kunit_fail (\<lambda>_. ret False)))"

definition g132_pass :: "'w kernel \<Rightarrow> nat \<Rightarrow> nat \<Rightarrow> (('w, 'z) kst_scheme, bool) prog" where
  "g132_pass K f pass =
     bnd (for_each [0..<G132_BLKS] (g132_write K f pass)) (\<lambda>_.
     bnd (do_if (pass mod 10 = 9) (must (kcall (vfs_fsync K f)))) (\<lambda>_.
     for_while [0..<G132_BLKS] (g132_check K f pass)))"

definition subpage_patterns_survive_rewrite_cycles :: "'w kernel \<Rightarrow> (('w, 'z) fxs_scheme, unit) prog" where
  "subpage_patterns_survive_rewrite_cycles K = seq [
     test_prologue K G132_ROOT ''g132_remove_tree'' (g132_remove_tree K),
     must_alloc K G132_BS,
     must_open (kcall (filp_open K G132_PAT {O_RDWR, O_CREAT, O_EXCL} (mode3 6 4 4))) (\<lambda>f.
       bnd (for_while [0..<G132_PASSES] (g132_pass K f)) (\<lambda>go. do_if go (kdo (filp_close K f))))]"

definition g132_suite :: "'w kernel \<Rightarrow> ('w, 'z) fxs_scheme suite" where
  "g132_suite K = nfs_suite K ''xfstests/generic/132''
     [(''subpage_patterns_survive_rewrite_cycles'', subpage_patterns_survive_rewrite_cycles K)]"

section \<open>Blocks\<close>

lemma read_at_write_other:
  assumes "pos + n \<le> off \<or> off + length b \<le> pos" "pos + n \<le> length d"
  shows "read_at pos n (write_at off b d) = read_at pos n d"
proof (cases "b = []")
  case False
  then have "length (read_at pos n (write_at off b d)) = length (read_at pos n d)" using assms(2) by simp
  then show ?thesis
    by (rule nth_equalityI) (use assms False in \<open>auto simp: buf_simps\<close>)
qed simp

definition g132_blocks :: "nat \<Rightarrow> nat \<Rightarrow> byte list \<Rightarrow> bool" where
  \<comment> \<open>the first \<open>k\<close> blocks hold the byte of the pass\<close>
  "g132_blocks pass k d = (k * G132_BS \<le> length d \<and> length d \<le> G132_BLKS * G132_BS \<and>
     (\<forall>j<k. read_at (j * G132_BS) G132_BS d = replicate G132_BS (g132_byte pass j)))"

lemma g132_blocks_write:
  assumes "g132_blocks pass k d" "k < G132_BLKS"
  shows "g132_blocks pass (Suc k) (write_at (k * G132_BS) (replicate G132_BS (g132_byte pass k)) d)"
proof -
  let ?b = "replicate G132_BS (g132_byte pass k)" and ?o = "k * G132_BS"
  have len: "length ?b = G132_BS" "?b \<noteq> []" by (simp_all add: G132_BS_def)
  have "Suc k * G132_BS \<le> G132_BLKS * G132_BS" using assms(2) by (simp only: mult_le_mono1 Suc_le_eq)
  then have l: "Suc k * G132_BS \<le> length (write_at ?o ?b d)" "length (write_at ?o ?b d) \<le> G132_BLKS * G132_BS"
    using assms(1) len by (auto simp: g132_blocks_def)
  have old: "read_at (j * G132_BS) G132_BS (write_at ?o ?b d) = read_at (j * G132_BS) G132_BS d" if "j < k" for j
  proof (rule read_at_write_other)
    have "Suc j * G132_BS \<le> k * G132_BS" using that by (simp only: mult_le_mono1 Suc_le_eq)
    then show "j * G132_BS + G132_BS \<le> ?o \<or> ?o + length ?b \<le> j * G132_BS" "j * G132_BS + G132_BS \<le> length d"
      using assms(1) by (auto simp: g132_blocks_def)
  qed
  have new: "read_at ?o G132_BS (write_at ?o ?b d) = ?b" using read_at_write_at [of ?o ?b d] by simp
  show ?thesis using l old new assms(1) by (auto simp: g132_blocks_def less_Suc_eq)
qed

lemma g132_limit: "G132_BLKS * G132_BS < size_limit" "0 < G132_BS"
  by (simp_all add: G132_BLKS_def G132_BS_def size_limit_def)

lemma g132_pos: "blk < G132_BLKS \<Longrightarrow> blk * G132_BS + G132_BS < size_limit"
  by (simp add: G132_BLKS_def G132_BS_def size_limit_def)

context posix_kernel
begin

abbreviation g132_open :: "nat \<Rightarrow> nat \<Rightarrow> nat \<Rightarrow> (byte list \<Rightarrow> bool) \<Rightarrow> ('w, 'z) fxs_scheme \<Rightarrow> bool" where
  "g132_open h i nf \<equiv> file_inv nf G132_PAT i [h \<mapsto> {O_RDWR, O_CREAT, O_EXCL}]"

lemma g132_write_ok:
  assumes "g132_open h i nf (g132_blocks pass k) s" "k < G132_BLKS"
  shows "wp (g132_write K h pass k) (\<lambda>_. g132_open h i nf (g132_blocks pass (Suc k))) s"
  using assms(1)
proof (rule file_invE)
  fix d
  assume d: "file_on (kw s) G132_PAT i d [h \<mapsto> {O_RDWR, O_CREAT, O_EXCL}]" "g132_blocks pass k d" "kfails s = nf"
  show ?thesis
    unfolding g132_write_def wp_must_ret
    by (rule f_write [OF d(1)]) (use d(3) g132_blocks_write [OF d(2) assms(2)] g132_pos [OF assms(2)] in \<open>auto intro: file_invI\<close>)
qed

lemma g132_check_ok:
  assumes "g132_open h i nf (g132_blocks pass G132_BLKS) s" "k < G132_BLKS"
  shows "wp (g132_check K h pass k) (\<lambda>go s'. go \<and> g132_open h i nf (g132_blocks pass G132_BLKS) s') s"
  using assms(1)
proof (rule file_invE)
  fix d
  assume d: "file_on (kw s) G132_PAT i d [h \<mapsto> {O_RDWR, O_CREAT, O_EXCL}]" "g132_blocks pass G132_BLKS d" "kfails s = nf"
  have "read_at (k * G132_BS) G132_BS d = replicate G132_BS (g132_byte pass k)"
    using d(2) assms(2) by (simp add: g132_blocks_def)
  then show ?thesis
    unfolding g132_check_def wp_bnd
    by (intro f_read [OF d(1)]) (use d g132_pos [OF assms(2)] in \<open>auto simp: readable_def intro: file_invI\<close>)
qed

lemma g132_pass_ok:
  assumes "g132_open h i nf (\<lambda>d. length d \<le> G132_BLKS * G132_BS) s"
  shows "wp (g132_pass K h pass) (\<lambda>go s'. go \<and> g132_open h i nf (\<lambda>d. length d \<le> G132_BLKS * G132_BS) s') s"
proof -
  let ?I = "\<lambda>k. g132_open h i nf (g132_blocks pass k)"
  have w: "wp (for_each [0..<G132_BLKS] (g132_write K h pass)) (\<lambda>_. ?I G132_BLKS) s"
    by (rule wp_for_each [where I = ?I])
      (use file_inv_mono [OF assms, of "g132_blocks pass 0"] g132_write_ok in \<open>simp_all add: g132_blocks_def [of _ 0]\<close>)
  have sync: "wp (do_if (pass mod 10 = 9) (must (kcall (vfs_fsync K h)))) (\<lambda>_. ?I G132_BLKS) t"
    if t: "?I G132_BLKS t" for t :: "('w, 'a) fxs_scheme"
    using t
  proof (rule file_invE)
    fix d
    assume d: "file_on (kw t) G132_PAT i d [h \<mapsto> {O_RDWR, O_CREAT, O_EXCL}]" "g132_blocks pass G132_BLKS d" "kfails t = nf"
    have "wp (kcall (vfs_fsync K h)) (\<lambda>e s. e = 0 \<and> ?I G132_BLKS s) t"
      by (rule f_fsync [OF d(1)]) (use d in \<open>auto intro: file_invI\<close>)
    then show ?thesis using t by simp
  qed
  have r: "wp (for_while [0..<G132_BLKS] (g132_check K h pass)) (\<lambda>go s. go \<and> ?I G132_BLKS s) t"
    if "?I G132_BLKS t" for t :: "('w, 'a) fxs_scheme"
    by (rule wp_for_while [where I = "\<lambda>_. ?I G132_BLKS"])
      (use that in \<open>auto intro!: wp_mono [OF g132_check_ok]\<close>)
  show ?thesis
    unfolding g132_pass_def wp_bnd
    by (rule wp_mono [OF w], rule wp_mono [OF sync], assumption, rule wp_mono [OF r], assumption)
      (auto simp: g132_blocks_def elim!: file_inv_mono)
qed

lemma g132_body_ok:
  fixes s :: "('w, 'z) fxs_scheme"
  assumes "file_on (kw s) G132_PAT i [] [h \<mapsto> {O_RDWR, O_CREAT, O_EXCL}]" "kfails s = nf"
  shows "wp (bnd (for_while [0..<G132_PASSES] (g132_pass K h)) (\<lambda>go. do_if go (kdo (filp_close K h))))
    (\<lambda>_ s'. kfails s' = nf) s"
proof -
  let ?I = "g132_open h i nf (\<lambda>d. length d \<le> G132_BLKS * G132_BS)"
  have "wp (for_while [0..<G132_PASSES] (g132_pass K h)) (\<lambda>go s'. go \<and> ?I s') s"
    by (rule wp_for_while [where I = "\<lambda>_. ?I"])
      (use file_invI [OF assms(1)] assms(2) in \<open>auto intro!: wp_mono [OF g132_pass_ok]\<close>)
  then show ?thesis
    unfolding wp_bnd by (rule wp_mono) (auto intro: f_close elim!: file_invE)
qed

lemma g132_run_ok:
  assumes "ready V ok G132_ROOT s"
  shows "passes (subpage_patterns_survive_rewrite_cycles K) s"
  unfolding passes_def subpage_patterns_survive_rewrite_cycles_def wp_seq_Cons
proof (rule wp_dir_prologue [OF assms], rule wp_alloc_ok, goal_cases)
  case (2 w1 w2)
  then have a: "absent (V w2) G132_PAT" by (simp add: G132_PAT_def)
  show ?case
  proof (rule f_must_create, goal_cases)
    case (4 w h i)
    show ?case unfolding wp_seq_Nil by (rule g132_body_ok) (use 4 in simp_all)
  qed (use 2 a in simp_all)
qed simp

end

end
