(* ===== verification/Gen135.thy ===== *)
theory Gen135
  imports Direct
begin

text \<open>
  \<open>kunit/xfstests/generic/135.c\<close>: buffered, O_SYNC and O_DIRECT writes, and a buffered write
  followed by a truncate, land the same bytes, on the client after its pages were dropped
  and in the server's copy.  The zero fill of the read buffer is not modelled: the scan runs
  over the part a full read overwrote.
\<close>

definition G135_ROOT :: string where "G135_ROOT = XFS_MNT @ ''/g135''"
definition G135_SERVER :: string where "G135_SERVER = XFS_EXPORT @ ''/g135''"
definition G135_LEN :: nat where "G135_LEN = 4096"

record g135_file =
  g135_name :: string
  g135_flags :: "oflag set"   \<comment> \<open>extra open flags\<close>
  g135_direct :: bool         \<comment> \<open>write through the O_DIRECT path\<close>
  g135_val :: byte
  g135_truncate_to :: int     \<comment> \<open>0 = no truncate\<close>
  g135_expect :: nat

definition g135_files :: "g135_file list" where
  "g135_files = [
     \<lparr>g135_name = ''async_file'', g135_flags = {}, g135_direct = False, g135_val = 0x12, g135_truncate_to = 0, g135_expect = 4096\<rparr>,
     \<lparr>g135_name = ''sync_file'', g135_flags = {O_SYNC}, g135_direct = False, g135_val = 0x34, g135_truncate_to = 0, g135_expect = 4096\<rparr>,
     \<lparr>g135_name = ''direct_file'', g135_flags = {O_DIRECT}, g135_direct = True, g135_val = 0x56, g135_truncate_to = 0, g135_expect = 4096\<rparr>,
     \<lparr>g135_name = ''trunc_file'', g135_flags = {}, g135_direct = False, g135_val = 0x78, g135_truncate_to = 2048, g135_expect = 2048\<rparr>]"

definition g135_path :: "string \<Rightarrow> string" where "g135_path name = G135_ROOT @ ''/'' @ name"

definition g135_remove_tree :: "'w kernel \<Rightarrow> (('w, 'z) kst_scheme, unit) prog" where
  "g135_remove_tree K = seq [
     for_each g135_files (\<lambda>fi. ignore (xfs_unlink K (g135_path (g135_name fi)))),
     ignore (xfs_rmdir_settled K G135_ROOT)]"

definition g135_check :: "'w kernel \<Rightarrow> string \<Rightarrow> g135_file \<Rightarrow> string \<Rightarrow> (('w, 'z) kst_scheme, unit) prog" where
  "g135_check K path fi which = seq [
     do_if (which = ''client'') (expect_stat K path (\<lambda>st. st_size st = int (g135_expect fi))),
     must_alloc K G135_LEN,
     bnd (xfs_read_range K path (g135_expect fi + 1) 0) (\<lambda>(n, buf).
     bnd (kunit_assert (n = int (g135_expect fi))) (\<lambda>_.
     case first_diff (take (g135_expect fi) buf) (replicate (g135_expect fi) (g135_val fi)) of
       None \<Rightarrow> ret () | Some i \<Rightarrow> kunit_fail))]"

definition g135_write :: "'w kernel \<Rightarrow> g135_file \<Rightarrow> (('w, 'z) kst_scheme, unit) prog" where
  \<comment> \<open>one turn of the first loop\<close>
  "g135_write K fi = (let path = g135_path (g135_name fi); buf = replicate G135_LEN (g135_val fi) in seq [
     must_open (kcall (filp_open K path ({O_RDWR, O_CREAT, O_TRUNC} \<union> g135_flags fi) (mode3 6 4 4))) (\<lambda>f. seq [
       must_ret (if g135_direct fi then bnd (xfs_direct_write K f buf G135_LEN 0) (\<lambda>(n, _). ret n)
                 else bnd (kcall (kernel_write K f buf 0)) (\<lambda>(n, _). ret n)) (\<lambda>n. n = int G135_LEN),
       kdo (filp_close K f)]),
     do_if (g135_truncate_to fi \<noteq> 0) (must (xfs_truncate K path (g135_truncate_to fi)))])"

definition g135_verify :: "'w kernel \<Rightarrow> (nat \<Rightarrow> 'w \<Rightarrow> int \<times> 'w) \<Rightarrow> g135_file \<Rightarrow> (('w, 'z) kst_scheme, unit) prog" where
  \<comment> \<open>one turn of the second loop\<close>
  "g135_verify K inval fi = (let path = g135_path (g135_name fi); spath = G135_SERVER @ ''/'' @ g135_name fi in seq [
     must_open (kcall (filp_open K path {O_RDONLY} 0)) (\<lambda>f. seq [
       expect_ret (kcall (inval f)) (\<lambda>e. e = 0),
       kdo (filp_close K f)]),
     g135_check K path fi ''client'',
     g135_check K spath fi ''server''])"

definition every_write_path_lands_the_same_bytes ::
  "'w kernel \<Rightarrow> (nat \<Rightarrow> 'w \<Rightarrow> int \<times> 'w) \<Rightarrow> (('w, 'z) fxs_scheme, unit) prog" where
  \<comment> \<open>\<open>inval\<close> is \<open>invalidate_inode_pages2\<close> on the file's mapping\<close>
  "every_write_path_lands_the_same_bytes K inval = seq [
     test_prologue K G135_ROOT ''g135_remove_tree'' (g135_remove_tree K),
     must_alloc K G135_LEN,
     for_each g135_files (g135_write K),
     for_each g135_files (g135_verify K inval)]"

definition g135_suite :: "'w kernel \<Rightarrow> (nat \<Rightarrow> 'w \<Rightarrow> int \<times> 'w) \<Rightarrow> ('w, 'z) fxs_scheme suite" where
  "g135_suite K inval = nfs_suite K ''xfstests/generic/135''
     [(''every_write_path_lands_the_same_bytes'', every_write_path_lands_the_same_bytes K inval)]"

section \<open>What the table promises\<close>

definition g135_data :: "g135_file \<Rightarrow> byte list" where
  "g135_data fi = replicate (g135_expect fi) (g135_val fi)"

definition g135_map :: "nat \<Rightarrow> string \<rightharpoonup> byte list" where
  \<comment> \<open>the first \<open>k\<close> files of the table, written\<close>
  "g135_map k = map_of (map (\<lambda>fi. (g135_path (g135_name fi), g135_data fi)) (rev (take k g135_files)))"

lemma g135_map_Suc:
  "k < length g135_files \<Longrightarrow> g135_map (Suc k) = (g135_map k)(g135_path (g135_name (g135_files ! k)) \<mapsto> g135_data (g135_files ! k))"
  by (simp add: g135_map_def take_Suc_conv_app_nth)

lemma g135_distinct: "distinct (map g135_name g135_files)"
  by (simp add: g135_files_def)

lemma g135_path_inject: "g135_path a = g135_path b \<longleftrightarrow> a = b"
  by (simp add: g135_path_def)

lemma g135_map_fresh:
  assumes "k < length g135_files"
  shows "g135_map k (g135_path (g135_name (g135_files ! k))) = None"
proof -
  have "g135_name fi \<noteq> g135_name (g135_files ! k)" if fi: "fi \<in> set (take k g135_files)" for fi
  proof -
    obtain j where j: "j < k" "fi = g135_files ! j" using fi by (auto simp: in_set_conv_nth)
    show ?thesis using g135_distinct j assms nth_eq_iff_index_eq [OF g135_distinct, of j k] by simp
  qed
  then show ?thesis by (force simp: g135_map_def map_of_eq_None_iff g135_path_inject)
qed

lemma g135_map_all:
  assumes "fi \<in> set g135_files"
  shows "g135_map (length g135_files) (g135_path (g135_name fi)) = Some (g135_data fi)"
  using assms by (auto simp: g135_map_def g135_files_def g135_path_inject)

lemma g135_table_ok:
  assumes "fi \<in> set g135_files"
  shows "O_EXCL \<notin> g135_flags fi" "O_DIRECTORY \<notin> g135_flags fi" "O_APPEND \<notin> g135_flags fi" "O_TRUNC \<notin> g135_flags fi"
    "g135_direct fi \<Longrightarrow> O_DIRECT \<in> g135_flags fi" "g135_expect fi \<le> 4096" "0 \<le> g135_truncate_to fi" "g135_truncate_to fi \<le> 4096"
    "g135_expect fi = (if g135_truncate_to fi = 0 then 4096 else nat (g135_truncate_to fi))"
  using assms by (auto simp: g135_files_def)

context direct_io
begin

abbreviation g135_U :: "string set" where
  "g135_U \<equiv> (\<lambda>fi. g135_path (g135_name fi)) ` set g135_files"

lemma g135_write_ok:
  assumes "holds c g135_U M Map.empty s" "M (g135_path (g135_name fi)) = None" "fi \<in> set g135_files"
    and "\<And>t. holds c g135_U (M(g135_path (g135_name fi) \<mapsto> g135_data fi)) Map.empty t \<Longrightarrow> Q () t"
  shows "wp (g135_write K fi) Q s"
proof -
  let ?p = "g135_path (g135_name fi)" and ?fl = "{O_RDWR, O_CREAT, O_TRUNC} \<union> g135_flags fi"
    and ?buf = "replicate G135_LEN (g135_val fi)"
  note ok = g135_table_ok [OF assms(3)]
  have wr: "wp (if g135_direct fi then bnd (xfs_direct_write K f ?buf G135_LEN 0) (\<lambda>(n, _). ret n)
      else bnd (kcall (kernel_write K f ?buf 0)) (\<lambda>(n, _). ret n)) R t"
    if "holds c g135_U (M(?p \<mapsto> [])) [?p \<mapsto> (f, ?fl)] t"
      "\<And>t. holds c g135_U (M(?p \<mapsto> ?buf)) [?p \<mapsto> (f, ?fl)] t \<Longrightarrow> R (int G135_LEN) t" for f t R
  proof (cases "g135_direct fi")
    case True
    show ?thesis
      unfolding if_P [OF True] wp_bnd
      by (rule h_direct_write_same [OF that(1)])
        (use ok True that(2) in \<open>simp_all add: G135_LEN_def size_limit_def write_at_def\<close>)
  next
    case False
    show ?thesis
      unfolding if_not_P [OF False] wp_bnd
      by (rule h_write_same [OF that(1)])
        (use ok that(2) in \<open>simp_all add: G135_LEN_def size_limit_def write_at_def\<close>)
  qed
  have d: "resize (nat (g135_truncate_to fi)) ?buf = g135_data fi" if "g135_truncate_to fi \<noteq> 0"
    using ok that by (simp add: resize_def g135_data_def G135_LEN_def min_def)
  have d0: "?buf = g135_data fi" if "g135_truncate_to fi = 0"
    using ok that by (simp add: g135_data_def G135_LEN_def)
  show ?thesis
    unfolding g135_write_def Let_def wp_unfold
    apply (rule h_create [OF assms(1) _ assms(2)], use assms(3) in simp, simp)
    apply (simp only: wp_unfold)
    apply (erule wr)
    apply (simp only: wp_unfold)
    apply (erule h_close_same, simp)
    apply (cases "g135_truncate_to fi = 0"; simp only: wp_unfold)
     apply (rule assms(4), simp only: d0)
    apply (erule h_truncate, simp, rule ok(7), use ok(8) in \<open>simp add: size_limit_def\<close>)
    apply (intro conjI refl, rule assms(4), simp add: d)
    done
qed

lemma g135_check_ok:
  assumes "holds c U M Map.empty s" "M p = Some (g135_data fi)" "fi \<in> set g135_files"
    and "q = p \<or> which = ''server'' \<and> (\<exists>r. p = XFS_MNT @ r \<and> q = XFS_EXPORT @ r)"
    and "\<And>t. holds c U M Map.empty t \<Longrightarrow> Q () t"
  shows "wp (g135_check K q fi which) Q s"
proof -
  note ok = g135_table_ok [OF assms(3)]
  let ?e = "g135_expect fi"
  have len: "length (g135_data fi) = ?e" "read_at 0 (Suc ?e) (g135_data fi) = g135_data fi"
    by (simp_all add: g135_data_def read_at_0)
  have b: "nat 0 + (?e + 1) < size_limit" using ok(6) by (simp add: size_limit_def)
  have rd: "wp (xfs_read_range K q (?e + 1) 0) R t"
    if "holds c U M Map.empty t" "\<And>t. holds c U M Map.empty t \<Longrightarrow> R (int ?e, g135_data fi) t" for R t
    using assms(4)
  proof (elim disjE conjE exE)
    assume "q = p"
    then show ?thesis
      by (simp only:) (rule h_read_range [OF that(1) assms(2) _ b], use that(2) len in simp_all)
  next
    fix r assume r: "p = XFS_MNT @ r" "q = XFS_EXPORT @ r"
    show ?thesis
      unfolding r(2)
      by (rule h_read_range_server [OF that(1) assms(2) [unfolded r(1)] _ _ b]) (use that(2) len in simp_all)
  qed
  have st: "wp (do_if (which = ''client'') (expect_stat K q (\<lambda>st. st_size st = int ?e))) R t"
    if "holds c U M Map.empty t" "\<And>t. holds c U M Map.empty t \<Longrightarrow> R () t" for R t
  proof (cases "which = ''client''")
    case True
    then have "q = p" using assms(4) by auto
    then show ?thesis
      unfolding wp_do_if if_P [OF True]
      by (simp only:) (rule h_expect_stat [OF that(1) assms(2)], use that(2) len in simp_all)
  qed (use that in simp)
  show ?thesis
    unfolding g135_check_def wp_unfold
    apply (rule st [OF assms(1), unfolded wp_do_if])
    apply (erule h_alloc)
    apply (erule rd)
    apply (use assms(5) in \<open>simp add: g135_data_def\<close>)
    done
qed

lemma g135_verify_ok:
  assumes "holds c U M Map.empty s" "M (g135_path (g135_name fi)) = Some (g135_data fi)" "fi \<in> set g135_files"
    and "\<And>t. holds c U M Map.empty t \<Longrightarrow> Q () t"
  shows "wp (g135_verify K inval fi) Q s"
proof -
  have srv: "\<exists>r. g135_path (g135_name fi) = XFS_MNT @ r \<and> G135_SERVER @ ''/'' @ g135_name fi = XFS_EXPORT @ r"
    by (simp add: g135_path_def G135_ROOT_def G135_SERVER_def)
  show ?thesis
    unfolding g135_verify_def Let_def wp_steps
    apply (rule h_open_keep [OF assms(1,2)], simp, simp, simp, simp)
    apply (simp only: wp_steps)
    apply (rule wp_expect_retI, erule h_inval, rule assms(2), simp)
    apply (rule conjI, rule refl)
    apply (erule h_close_last, rule assms(2), simp)
    apply (erule g135_check_ok, rule assms(2), rule assms(3), simp)
    apply (erule g135_check_ok, rule assms(2), rule assms(3), use srv in simp)
    apply (erule assms(4))
    done
qed

lemma g135_run_ok:
  assumes "ready V ok G135_ROOT s"
  shows "passes (every_write_path_lands_the_same_bytes K inval) s"
  unfolding passes_def every_write_path_lands_the_same_bytes_def wp_unfold
proof (rule h_prologue [where U = g135_U, OF assms], goal_cases)
  case (1 p)
  then show ?case by (auto simp: g135_path_def g135_files_def)
next
  case (2 t)
  let ?c = "(kfails s, ''g135_remove_tree'' # kactions s, kst.more s)"
  show ?case
  proof (rule h_alloc [OF 2], rule wp_for_each [where I = "\<lambda>k. holds ?c g135_U (g135_map k) Map.empty"], goal_cases)
    case (1 t)
    then show ?case by (simp add: g135_map_def)
  next
    case (2 t k u)
    show ?case
      by (rule g135_write_ok [OF 2(3) g135_map_fresh [OF 2(2)]]) (use 2(2) in \<open>simp_all add: g135_map_Suc\<close>)
  next
    case (3 t u)
    show ?case
    proof (rule wp_for_each [where I = "\<lambda>k. holds ?c g135_U (g135_map (length g135_files)) Map.empty"], rule 3(2), goal_cases)
      case (1 k v)
      show ?case by (rule g135_verify_ok [OF 1(2) g135_map_all]) (use 1(1) in simp_all)
    qed (auto dest: holds_fails)
  qed
qed

end

end
