(* ===== verification/Gen169.thy ===== *)
theory Gen169
  imports Server
begin

text \<open>
  \<open>kunit/xfstests/generic/169.c\<close>: appends, with and without fsync; the size is right on
  the client after each and on the server's copy at the end, where the bytes are in the
  order they were appended.
\<close>

definition G169_ROOT :: string where "G169_ROOT = XFS_MNT @ ''/g169''"
definition G169_FILE :: string where "G169_FILE = G169_ROOT @ ''/testfile''"
definition G169_NEXT :: string where "G169_NEXT = G169_ROOT @ ''/nextfile''"
definition G169_SRV_FILE :: string where "G169_SRV_FILE = XFS_EXPORT @ ''/g169/testfile''"
definition G169_SRV_NEXT :: string where "G169_SRV_NEXT = XFS_EXPORT @ ''/g169/nextfile''"

definition g169_remove_tree :: "'w kernel \<Rightarrow> (('w, 'z) kst_scheme, unit) prog" where
  "g169_remove_tree K = seq [
     ignore (xfs_unlink K G169_FILE), ignore (xfs_unlink K G169_NEXT), ignore (xfs_rmdir K G169_ROOT)]"

definition g169_append :: "'w kernel \<Rightarrow> string \<Rightarrow> byte list \<Rightarrow> bool \<Rightarrow> (('w, 'z) kst_scheme, unit) prog" where
  "g169_append K path buf sync =
     must_open (kcall (filp_open K path {O_WRONLY, O_APPEND} 0)) (\<lambda>f.
     bnd (kcall (kernel_write K f buf 0)) (\<lambda>(n, pos). seq [
       do_if sync (expect_ret (kcall (vfs_fsync K f)) (\<lambda>e. e = 0)),
       kdo (filp_close K f),
       kunit_assert (n = int (length buf))]))"

definition g169_expect_size :: "'w kernel \<Rightarrow> string \<Rightarrow> int \<Rightarrow> (('w, 'z) kst_scheme, unit) prog" where
  "g169_expect_size K path want = expect_stat K path (\<lambda>st. st_size st = want)"

definition appended_sizes_survive_a_cold_read :: "'w kernel \<Rightarrow> (('w, 'z) fxs_scheme, unit) prog" where
  "appended_sizes_survive_a_cold_read K = (let buf = replicate 5120 0x69 in seq [
     test_prologue K G169_ROOT ''g169_remove_tree'' (g169_remove_tree K),
     must_alloc K 5120,
     must (xfs_write_new_file K G169_FILE []),
     for_each [1..<4] (\<lambda>step. seq [
       g169_append K G169_FILE buf True,
       g169_expect_size K G169_FILE (int step * 5120)]),
     g169_expect_size K G169_FILE 15360,
     g169_expect_size K G169_SRV_FILE 15360,
     must (xfs_write_new_file K G169_NEXT []),
     g169_append K G169_NEXT (to_bytes ''abcde'') True,
     g169_append K G169_NEXT (to_bytes ''fghij'') False,
     g169_expect_size K G169_NEXT 10,
     g169_expect_size K G169_SRV_NEXT 10,
     bnd (xfs_read_range K G169_SRV_NEXT 10 0) (\<lambda>(n, rd).
       bnd (kunit_assert (n = 10)) (\<lambda>_. kunit_expect (rd = to_bytes ''abcdefghij'')))])"

definition g169_suite :: "'w kernel \<Rightarrow> ('w, 'z) fxs_scheme suite" where
  "g169_suite K = nfs_suite K ''xfstests/generic/169''
     [(''appended_sizes_survive_a_cold_read'', appended_sizes_survive_a_cold_read K)]"

section \<open>Appends\<close>

context posix_kernel
begin

lemma g169_append_ok:
  assumes "holds c U M H s" "M p = Some d" "H p = None" "length d + length b < size_limit"
    and "\<And>t. holds c U (M(p \<mapsto> d @ b)) H t \<Longrightarrow> Q () t"
  shows "wp (g169_append K p b sync) Q s"
  unfolding g169_append_def wp_must_open
proof (rule h_open_keep [OF assms(1-3)], simp_all only: insert_iff empty_iff oflag.distinct simp_thms not_False_eq_True, unfold sum.case wp_bnd, goal_cases)
  case (1 t h)
  have close: "wp (kdo (filp_close K h)) Q u"
    if "holds c U (M(p \<mapsto> d @ b)) (H(p \<mapsto> (h, {O_WRONLY, O_APPEND}))) u" for u
    by (rule h_close_last [OF that, OF fun_upd_same, OF assms(3)]) (simp add: assms(5))
  show ?case
  proof (rule h_append [where p = p and h = h and d = d and fl = "{O_WRONLY, O_APPEND}", OF 1 assms(2)], goal_cases)
    case (6 t x)
    show ?case
      unfolding prod.case wp_seq_Cons wp_seq_Nil wp_do_if wp_expect_ret
      using close [OF 6]
      by (auto intro!: h_fsync [where p = p and h = h and d = "d @ b" and fl = "{O_WRONLY, O_APPEND}", OF 6] close)
  qed (use assms(4) in simp_all)
qed

lemma g169_size_ok:
  assumes "holds c U M H s" "M p = Some d" "want = int (length d)" and "\<And>t. holds c U M H t \<Longrightarrow> Q () t"
  shows "wp (g169_expect_size K p want) Q s"
  unfolding g169_expect_size_def by (rule h_expect_stat [OF assms(1,2)]) (simp_all add: assms(3,4))

end

context exported
begin

lemma g169_server_ok:
  assumes "holds c U M H s" "M (XFS_MNT @ p) = Some d" "H (XFS_MNT @ p) = None" "want = int (length d)"
    and "\<And>t. holds c U M H t \<Longrightarrow> Q () t"
  shows "wp (g169_expect_size K (XFS_EXPORT @ p) want) Q s"
  unfolding g169_expect_size_def by (rule h_expect_stat_server [OF assms(1-3)]) (simp_all add: assms(4,5))

lemma g169_run_ok:
  assumes "ready V ok G169_ROOT s"
  shows "passes (appended_sizes_survive_a_cold_read K) s"
proof -
  note simps = G169_FILE_def G169_NEXT_def G169_ROOT_def size_limit_def
  have srv: "G169_SRV_FILE = XFS_EXPORT @ ''/g169/testfile''" "G169_SRV_NEXT = XFS_EXPORT @ ''/g169/nextfile''"
    by (simp_all add: G169_SRV_FILE_def G169_SRV_NEXT_def)
  have rep: "replicate ((l - Suc 0) * 5120) (0x69 :: byte) @ replicate 5120 0x69 = replicate (l * 5120) 0x69" if "Suc 0 \<le> l" for l
    using that by (cases l) (simp_all add: replicate_add [symmetric] add.commute)
  show ?thesis
    unfolding passes_def appended_sizes_survive_a_cold_read_def Let_def srv
    apply (simp only: wp_unfold)
    apply (rule h_prologue [where U = "{G169_FILE, G169_NEXT}", OF assms], fastforce simp: G169_FILE_def G169_NEXT_def)
    apply (erule h_alloc)
    apply (erule h_write_new, (simp add: simps; fail)+)
    apply (intro conjI refl)
    apply (rule wp_for_range [where I = "\<lambda>l. holds (kfails s, ''g169_remove_tree'' # kactions s, kst.more s)
        {G169_FILE, G169_NEXT} [G169_FILE \<mapsto> replicate ((l - 1) * 5120) 0x69] Map.empty"])
       apply simp
      apply simp
     apply (simp only: wp_unfold)
     apply (erule g169_append_ok, (simp add: simps; fail)+)
     apply (erule g169_size_ok, (simp; fail)+)
     apply (simp add: rep)
    apply (erule g169_size_ok, (simp; fail)+)
    apply (erule g169_server_ok, (simp add: simps; fail)+)
    apply (erule h_write_new, (simp add: simps; fail)+)
    apply (intro conjI refl)
    apply (erule g169_append_ok, (simp add: simps; fail)+)
    apply (erule g169_append_ok, (simp add: simps; fail)+)
    apply (erule g169_size_ok, (simp; fail)+)
    apply (erule g169_server_ok, (simp add: simps; fail)+)
    apply (erule h_read_range_server, (simp add: simps; fail)+)
    apply (auto simp: read_at_0 to_bytes_append [symmetric] dest: holds_fails)
    done
qed

end

end
