(* ===== verification/Gen214.thy ===== *)
theory Gen214
  imports Direct
begin

text \<open>
  \<open>kunit/xfstests/generic/214.c\<close>: writes into ranges that \<open>vfs_fallocate\<close> allocated.  What was
  not written reads as zeros, what was written survives an allocation over it, and the size
  covers the range.  The argument of the truncation case is what \<open>kunit_kmalloc\<close> leaves in the
  buffer.
\<close>

definition G214_ROOT :: string where "G214_ROOT = XFS_MNT @ ''/g214''"
definition G214_MAX :: nat where "G214_MAX = 128 * 1024"

definition g214_path :: "nat \<Rightarrow> string" where "g214_path i = G214_ROOT @ ''/test214-'' @ dec i"

definition g214_remove_tree :: "'w kernel \<Rightarrow> (('w, 'z) kst_scheme, unit) prog" where
  "g214_remove_tree K = seq [
     for_each [1..<8] (\<lambda>i. ignore (xfs_unlink K (g214_path i))),
     ignore (xfs_rmdir_settled K G214_ROOT)]"

definition g214_setup :: "'w kernel \<Rightarrow> (('w, 'z) fxs_scheme, unit) prog" where
  \<comment> \<open>with the assertion of its callers that it returns 0\<close>
  "g214_setup K = test_prologue K G214_ROOT ''g214_remove_tree'' (g214_remove_tree K)"

definition g214_expect :: "'w kernel \<Rightarrow> string \<Rightarrow> nat \<Rightarrow> nat \<Rightarrow> byte \<Rightarrow> (('w, 'z) kst_scheme, unit) prog" where
  "g214_expect K path off len val = bnd (xfs_read_range K path len (int off)) (\<lambda>(n, buf). seq [
     kunit_assert (n = int len),
     (case first_diff buf (replicate len val) of None \<Rightarrow> ret () | Some i \<Rightarrow> kunit_fail)])"

definition allocated_space_reads_as_zeroes :: "'w kernel \<Rightarrow> (('w, 'z) fxs_scheme, unit) prog" where
  "allocated_space_reads_as_zeroes K = (let path = g214_path 1 in seq [
     g214_setup K,
     must_alloc K G214_MAX,
     must_open (kcall (filp_open K path {O_RDWR, O_CREAT, O_TRUNC} (mode3 6 4 4))) (\<lambda>f. seq [
       must (kcall (vfs_fallocate K f {} 0 4096)),
       kdo (filp_close K f)]),
     g214_expect K path 0 4096 0x00])"

definition g214_one_byte :: "'w kernel \<Rightarrow> string \<Rightarrow> nat \<Rightarrow> (('w, 'z) kst_scheme, unit) prog" where
  "g214_one_byte K path off = seq [
     must_open (kcall (filp_open K path {O_RDWR, O_CREAT, O_TRUNC} (mode3 6 4 4))) (\<lambda>f. seq [
       must (kcall (vfs_fallocate K f {} 0 512)),
       must_ret (kcall (kernel_write K f [0x41] (int off))) (\<lambda>(n, _). n = 1),
       kdo (filp_close K f)]),
     do_if (off \<noteq> 0) (g214_expect K path 0 off 0x00),
     g214_expect K path off 1 0x41,
     do_if (off + 1 < 512) (g214_expect K path (off + 1) (512 - off - 1) 0x00)]"

definition a_write_into_allocated_space_leaves_the_rest_alone :: "'w kernel \<Rightarrow> (('w, 'z) fxs_scheme, unit) prog" where
  "a_write_into_allocated_space_leaves_the_rest_alone K = seq [
     g214_setup K,
     must_alloc K G214_MAX,
     g214_one_byte K (g214_path 2) 0,
     g214_one_byte K (g214_path 3) 256,
     g214_one_byte K (g214_path 4) 511]"

definition g214_memset :: "byte list \<Rightarrow> nat \<Rightarrow> byte \<Rightarrow> byte list" where
  "g214_memset buf n val = replicate n val @ drop n buf"

definition a_truncate_after_allocate_and_write :: "'w kernel \<Rightarrow> byte list \<Rightarrow> (('w, 'z) fxs_scheme, unit) prog" where
  "a_truncate_after_allocate_and_write K junk = (let path = g214_path 5; buf = g214_memset junk 0x10000 0xaa in seq [
     g214_setup K,
     must_alloc K G214_MAX,
     must_open (kcall (filp_open K path {O_RDWR, O_CREAT, O_TRUNC} (mode3 6 4 4))) (\<lambda>f. seq [
       must (kcall (vfs_fallocate K f {} 0 0x65c00)),
       must_ret (kcall (kernel_write K f (take 0x10000 buf) 0x12000)) (\<lambda>(n, _). n = 0x10000),
       must (kcall (vfs_fsync K f)),
       must (xfs_ftruncate K f 0x16000),
       kdo (filp_close K f)]),
     must_open (kcall (filp_open K path {O_RDONLY, O_DIRECT} 0)) (\<lambda>f.
       bnd (xfs_direct_read K f buf 0x16000 0) (\<lambda>(n, buf, _). seq [
         kunit_assert (n = 0x16000),
         kdo (filp_close K f),
         (case first_diff (take 0x16000 buf) (replicate 0x12000 0x00 @ replicate 0x4000 0xaa) of
            None \<Rightarrow> ret () | Some i \<Rightarrow> kunit_fail)]))])"

definition allocating_over_a_written_range :: "'w kernel \<Rightarrow> (('w, 'z) fxs_scheme, unit) prog" where
  "allocating_over_a_written_range K = (let path = g214_path 6 in seq [
     g214_setup K,
     must_alloc K G214_MAX,
     must_open (kcall (filp_open K path {O_RDWR, O_CREAT, O_TRUNC} (mode3 6 4 4))) (\<lambda>f. seq [
       must_ret (kcall (kernel_write K f (replicate 16384 0x36) 0)) (\<lambda>(n, _). n = 16384),
       must (kcall (vfs_fallocate K f {} 0 16384)),
       must (kcall (vfs_fsync K f)),
       kdo (filp_close K f)]),
     expect_stat K path (\<lambda>st. st_size st = 16384),
     g214_expect K path 0 16384 0x36])"

definition a_scatter_of_writes_around_an_allocate :: "'w kernel \<Rightarrow> (('w, 'z) fxs_scheme, unit) prog" where
  "a_scatter_of_writes_around_an_allocate K = (let path = g214_path 7 in seq [
     g214_setup K,
     must_alloc K G214_MAX,
     must_open (kcall (filp_open K path {O_RDWR, O_CREAT, O_TRUNC} (mode3 6 4 4))) (\<lambda>f. seq [
       must (kcall (vfs_fsync K f)),
       must_ret (kcall (kernel_write K f (replicate 41182 0x37) 551917)) (\<lambda>(n, _). n = 41182),
       must (kcall (vfs_fallocate K f {} 917633 392230)),
       must_ret (kcall (kernel_write K f (replicate 77718 0x37) 285771)) (\<lambda>(n, _). n = 77718),
       must_ret (kcall (kernel_write K f (replicate 104115 0x37) 1136718)) (\<lambda>(n, _). n = 104115),
       must (kcall (vfs_fsync K f)),
       kdo (filp_close K f)]),
     g214_expect K path 285771 77718 0x37,
     g214_expect K path 551917 41182 0x37,
     g214_expect K path 1136718 104115 0x37,
     g214_expect K path 363489 1000 0x00,
     g214_expect K path 917633 1000 0x00])"

definition g214_suite :: "'w kernel \<Rightarrow> byte list \<Rightarrow> ('w, 'z) fxs_scheme suite" where
  "g214_suite K junk = nfs_suite K ''xfstests/generic/214''
     [(''allocated_space_reads_as_zeroes'', allocated_space_reads_as_zeroes K),
      (''a_write_into_allocated_space_leaves_the_rest_alone'', a_write_into_allocated_space_leaves_the_rest_alone K),
      (''a_truncate_after_allocate_and_write'', a_truncate_after_allocate_and_write K junk),
      (''allocating_over_a_written_range'', allocating_over_a_written_range K),
      (''a_scatter_of_writes_around_an_allocate'', a_scatter_of_writes_around_an_allocate K)]"

context direct_io
begin

abbreviation g214_U :: "string set" where "g214_U \<equiv> g214_path ` {1..<8}"

lemma g214_start:
  assumes "ready V ok G214_ROOT s"
    and "\<And>t c. \<lbrakk>fst c = kfails s; holds c g214_U Map.empty Map.empty t\<rbrakk> \<Longrightarrow> Q () t"
  shows "wp (g214_setup K) Q s"
  unfolding g214_setup_def
  by (rule h_prologue [where U = g214_U, OF assms(1)]) (auto simp: g214_path_def intro!: assms(2))

lemma g214_expect_ok:
  assumes "holds c U M H s" "M p = Some d" "off + len < size_limit" "off + len \<le> length d"
    and "\<And>i. off \<le> i \<Longrightarrow> i < off + len \<Longrightarrow> d ! i = v" and "\<And>t. holds c U M H t \<Longrightarrow> Q () t"
  shows "wp (g214_expect K p off len v) Q s"
proof -
  have "read_at off len d = replicate len v" by (rule nth_equalityI) (use assms(4,5) in \<open>auto simp: nth_read_at\<close>)
  then show ?thesis
    unfolding g214_expect_def wp_steps
    by (intro h_read_range [OF assms(1,2)]) (use assms(3,6) in simp_all)
qed

lemma g214_zeroes_ok:
  assumes "ready V ok G214_ROOT s"
  shows "passes (allocated_space_reads_as_zeroes K) s"
  unfolding passes_def allocated_space_reads_as_zeroes_def Let_def
  apply (simp only: wp_steps)
  apply (rule g214_start [OF assms])
  apply (erule h_alloc)
  apply (erule h_create, simp, simp, simp)
  apply (simp only: wp_steps)
  apply (erule h_allocate_same, simp, simp, simp, simp add: size_limit_def, intro conjI refl)
  apply (erule h_close_same, simp)
  apply (erule g214_expect_ok, simp, simp add: size_limit_def, simp, simp add: nth_resize)
  apply (drule holds_fails, simp)
  done

lemma g214_one_byte_ok:
  assumes "holds c g214_U M Map.empty s" "p \<in> g214_U" "M p = None" "off < 512"
    and "\<And>t d. holds c g214_U (M(p \<mapsto> d)) Map.empty t \<Longrightarrow> Q () t"
  shows "wp (g214_one_byte K p off) Q s"
proof -
  let ?d = "write_at off [0x41] (resize 512 [])"
  have d: "length ?d = 512" "?d ! off = 0x41" "\<And>i. i < 512 \<Longrightarrow> i \<noteq> off \<Longrightarrow> ?d ! i = 0"
    using assms(4) by (auto simp: nth_write_at nth_resize)
  have done_with: "wp (do_if (off + 1 < 512) (g214_expect K p (off + 1) (512 - off - 1) 0x00)) Q t"
    if "holds c g214_U (M(p \<mapsto> ?d)) Map.empty t" for t
    unfolding wp_do_if using assms(5) that
    by (auto intro!: g214_expect_ok [OF that, where d = ?d] simp: d size_limit_def)
  have byte: "wp (g214_expect K p off 1 0x41) (\<lambda>_. wp (do_if (off + 1 < 512) (g214_expect K p (off + 1) (512 - off - 1) 0x00)) Q) t"
    if "holds c g214_U (M(p \<mapsto> ?d)) Map.empty t" for t
    by (rule g214_expect_ok [OF that, where d = ?d]) (use assms(4) done_with in \<open>auto simp: d size_limit_def less_Suc_eq le_less\<close>)
  have tail: "wp (do_if (off \<noteq> 0) (g214_expect K p 0 off 0x00)) (\<lambda>_. wp (g214_expect K p off 1 0x41)
      (\<lambda>_. wp (do_if (off + 1 < 512) (g214_expect K p (off + 1) (512 - off - 1) 0x00)) (\<lambda>_. Q ()))) t"
    if t: "holds c g214_U (M(p \<mapsto> ?d)) Map.empty t" for t
  proof (cases "off = 0")
    case False
    then show ?thesis
      unfolding unit_abs_eta_conv wp_do_if [of "off \<noteq> 0"]
      by (simp only: simp_thms if_True)
        (rule g214_expect_ok [OF t, where d = ?d], use assms(4) byte in \<open>simp_all add: d size_limit_def\<close>)
  next
    case True
    then show ?thesis using byte [OF t] by (simp add: wp_do_if)
  qed
  show ?thesis
    unfolding g214_one_byte_def
    apply (simp only: wp_seq_Cons wp_seq_Nil wp_must_open)
    apply (rule h_create [OF assms(1-3)], simp)
    apply (simp only: wp_steps)
    apply (erule h_allocate_same, simp, simp, simp, simp add: size_limit_def, intro conjI refl)
    apply (erule h_write_same, simp, simp, simp, use assms(4) in \<open>simp add: size_limit_def\<close>, simp only: prod.case, intro conjI, simp)
    apply (erule h_close_same, simp)
    apply (simp only: nat_0 add_0 list.size max_0L nat_numeral nat_int)
    apply (erule tail [unfolded wp_do_if])
    done
qed

lemma g214_write_ok:
  assumes "ready V ok G214_ROOT s"
  shows "passes (a_write_into_allocated_space_leaves_the_rest_alone K) s"
  unfolding passes_def a_write_into_allocated_space_leaves_the_rest_alone_def
  apply (simp only: wp_steps)
  apply (rule g214_start [OF assms])
  apply (erule h_alloc)
  apply (erule g214_one_byte_ok, simp, simp, simp)
  apply (erule g214_one_byte_ok, simp, simp add: g214_path_def, simp)
  apply (erule g214_one_byte_ok, simp, simp add: g214_path_def, simp)
  apply (drule holds_fails, simp)
  done

lemma g214_truncate_ok:
  assumes "ready V ok G214_ROOT s" "length junk = G214_MAX"
  shows "passes (a_truncate_after_allocate_and_write K junk) s"
proof -
  let ?d = "resize 90112 (write_at 73728 (replicate 65536 0xaa) (resize 416768 []))" and ?buf = "g214_memset junk 65536 0xaa"
  have buf: "length ?buf = 131072" "take 65536 ?buf = replicate 65536 0xaa" using assms(2) by (simp_all add: g214_memset_def G214_MAX_def)
  have d: "?d = replicate 73728 0 @ replicate 16384 0xaa"
    by (rule nth_equalityI) (simp_all add: nth_resize nth_write_at nth_append)
  have got: "take 90112 (blit 0 ?d ?buf) = replicate 73728 0 @ replicate 16384 0xaa"
    using buf(1) by (simp add: blit_def d)
  have rd: "read_at 0 90112 ?d = ?d" unfolding d by (simp add: read_at_0)
  show ?thesis
    unfolding passes_def a_truncate_after_allocate_and_write_def Let_def buf(2)
    apply (simp only: wp_steps)
    apply (rule g214_start [OF assms(1)])
    apply (erule h_alloc)
    apply (erule h_create, simp, simp, simp)
    apply (simp only: wp_steps)
    apply (erule h_allocate_same, simp, simp, simp, simp add: size_limit_def, intro conjI refl)
    apply (erule h_write_same, simp, simp, simp, simp add: size_limit_def, simp only: prod.case, intro conjI, simp)
    apply (erule h_fsync_same, intro conjI refl)
    apply (erule h_ftruncate_same, simp, simp, simp add: size_limit_def, intro conjI refl)
    apply (erule h_close_same, simp)
    apply (erule h_open_keep, simp, simp, simp, simp, simp)
    apply (simp only: wp_steps)
    apply (erule h_direct_read [where p = "g214_path 5"], simp, simp, simp add: readable_def, simp, simp, simp add: size_limit_def)
    apply (simp only: wp_steps nat_0 nat_numeral add_0 list.size max_0L rd)
    apply (intro conjI, simp)
    apply (erule h_close_last [where p = "g214_path 5"], simp, simp)
    apply (simp only: got first_diff_same option.case wp_ret, drule holds_fails, simp)
    done
qed

lemma g214_over_ok:
  assumes "ready V ok G214_ROOT s"
  shows "passes (allocating_over_a_written_range K) s"
  unfolding passes_def allocating_over_a_written_range_def Let_def
  apply (simp only: wp_steps)
  apply (rule g214_start [OF assms])
  apply (erule h_alloc)
  apply (erule h_create, simp, simp, simp)
  apply (simp only: wp_steps)
  apply (erule h_write_same, simp, simp, simp, simp add: size_limit_def, simp only: prod.case, intro conjI, simp)
  apply (erule h_allocate_same, simp, simp, simp, simp add: size_limit_def, intro conjI refl)
  apply (erule h_fsync_same, intro conjI refl)
  apply (erule h_close_same, simp)
  apply (erule h_expect_stat, simp, simp)
  apply (erule g214_expect_ok, simp, simp add: size_limit_def, simp, simp add: nth_resize nth_write_at)
  apply (drule holds_fails, simp)
  done

lemma g214_scatter_ok:
  assumes "ready V ok G214_ROOT s"
  shows "passes (a_scatter_of_writes_around_an_allocate K) s"
proof -
  let ?d = "write_at 1136718 (replicate 104115 0x37) (write_at 285771 (replicate 77718 0x37)
    (resize 1309863 (write_at 551917 (replicate 41182 0x37) [])))"
  have d: "length ?d = 1309863" by simp
  have at: "?d ! i = (if 1136718 \<le> i \<and> i < 1240833 \<or> 285771 \<le> i \<and> i < 363489 \<or> 551917 \<le> i \<and> i < 593099 then 0x37 else 0)"
    if "i < 1309863" for i
    using that by (auto simp: nth_write_at nth_resize)
  show ?thesis
    unfolding passes_def a_scatter_of_writes_around_an_allocate_def Let_def
    apply (simp only: wp_steps)
    apply (rule g214_start [OF assms])
    apply (erule h_alloc)
    apply (erule h_create, simp, simp, simp)
    apply (simp only: wp_steps)
    apply (erule h_fsync_same, intro conjI refl)
    apply (erule h_write_same, simp, simp, simp, simp add: size_limit_def, simp only: prod.case, intro conjI, simp)
    apply (erule h_allocate_same, simp, simp, simp, simp add: size_limit_def, intro conjI refl)
    apply (erule h_write_same, simp, simp, simp, simp add: size_limit_def, simp only: prod.case, intro conjI, simp)
    apply (erule h_write_same, simp, simp, simp, simp add: size_limit_def, simp only: prod.case, intro conjI, simp)
    apply (erule h_fsync_same, intro conjI refl)
    apply (erule h_close_same, simp)
    apply (erule g214_expect_ok [where d = ?d], simp, simp add: size_limit_def, simp, simp add: at)
    apply (erule g214_expect_ok [where d = ?d], simp, simp add: size_limit_def, simp, simp add: at)
    apply (erule g214_expect_ok [where d = ?d], simp, simp add: size_limit_def, simp, simp add: at)
    apply (erule g214_expect_ok [where d = ?d], simp, simp add: size_limit_def, simp, simp add: at)
    apply (erule g214_expect_ok [where d = ?d], simp, simp add: size_limit_def, simp, simp add: at)
    apply (drule holds_fails, simp)
    done
qed

end

end
