(* ===== verification/Gen245.thy ===== *)
theory Gen245
  imports Trees
begin

text \<open>
  \<open>kunit/xfstests/generic/245.c\<close>: a directory is not renamed over one that is not empty,
  whether it is empty itself or not, and nothing moves; over an empty one it is.
\<close>

definition G245_ROOT :: string where "G245_ROOT = XFS_MNT @ ''/g245''"

definition g245_remove_tree :: "'w kernel \<Rightarrow> (('w, 'z) kst_scheme, unit) prog" where
  "g245_remove_tree K = seq [
     ignore (xfs_unlink K (G245_ROOT @ ''/dst/keep'')),
     ignore (xfs_unlink K (G245_ROOT @ ''/src/mine'')),
     ignore (xfs_rmdir K (G245_ROOT @ ''/src'')),
     ignore (xfs_rmdir K (G245_ROOT @ ''/dst'')),
     ignore (xfs_rmdir K (G245_ROOT @ ''/empty'')),
     ignore (xfs_rmdir K G245_ROOT)]"

definition nonempty_rename_targets_are_refused :: "'w kernel \<Rightarrow> (('w, 'z) fxs_scheme, unit) prog" where
  "nonempty_rename_targets_are_refused K = seq [
     test_prologue K G245_ROOT ''g245_remove_tree'' (g245_remove_tree K),
     must (xfs_mkdir K (G245_ROOT @ ''/src'')),
     must (xfs_mkdir K (G245_ROOT @ ''/dst'')),
     must (xfs_mkdir K (G245_ROOT @ ''/empty'')),
     must (xfs_write_new_file K (G245_ROOT @ ''/dst/keep'') (to_bytes ''k'')),
     expect_ret (xfs_rename K (G245_ROOT @ ''/src'') (G245_ROOT @ ''/dst'')) (\<lambda>e. e = - ENOTEMPTY),
     must (xfs_write_new_file K (G245_ROOT @ ''/src/mine'') (to_bytes ''m'')),
     expect_ret (xfs_rename K (G245_ROOT @ ''/src'') (G245_ROOT @ ''/dst'')) (\<lambda>e. e = - ENOTEMPTY),
     expect_ret (xfs_exists K (G245_ROOT @ ''/src/mine'')) (\<lambda>b. b),
     expect_ret (xfs_exists K (G245_ROOT @ ''/dst/keep'')) (\<lambda>b. b),
     expect_ret (xfs_rename K (G245_ROOT @ ''/src'') (G245_ROOT @ ''/empty'')) (\<lambda>e. e = 0),
     expect_ret (xfs_exists K (G245_ROOT @ ''/empty/mine'')) (\<lambda>b. b),
     must (xfs_rename K (G245_ROOT @ ''/empty'') (G245_ROOT @ ''/src'')),
     must (xfs_mkdir K (G245_ROOT @ ''/empty''))]"

definition g245_suite :: "'w kernel \<Rightarrow> ('w, 'z) fxs_scheme suite" where
  "g245_suite K = nfs_suite K ''xfstests/generic/245''
     [(''nonempty_rename_targets_are_refused'', nonempty_rename_targets_are_refused K)]"

context tree_kernel
begin

lemma g245_run_ok:
  assumes "ready V ok G245_ROOT s"
  shows "passes (nonempty_rename_targets_are_refused K) s"
proof -
  note ev = G245_ROOT_def XFS_MNT_def beneath_def dirname_def t_dir_def
  show ?thesis
    unfolding passes_def nonempty_rename_targets_are_refused_def
    apply (simp only: wp_steps)
    apply (rule t_prologue [OF assms], simp add: ev)
    apply (erule t_mkdir, simp add: ev, simp add: ev, intro conjI refl)
    apply (erule t_mkdir, simp add: ev, simp add: ev, intro conjI refl)
    apply (erule t_mkdir, simp add: ev, simp add: ev, intro conjI refl)
    apply (erule t_write_new, simp add: ev, simp add: ev, simp add: size_limit_def, intro conjI refl)
    apply (rule wp_expect_retI)
    apply (erule t_rename_ok [where e = "- ENOTEMPTY"], simp add: ev, simp add: ev, simp add: ev, simp add: t_rename_def t_empty_def ev, intro conjI refl)
    apply (erule t_write_new, simp add: ev, simp add: ev, simp add: size_limit_def, intro conjI refl)
    apply (rule wp_expect_retI)
    apply (erule t_rename_ok [where e = "- ENOTEMPTY"], simp add: ev, simp add: ev, simp add: ev, simp add: t_rename_def t_empty_def ev, intro conjI refl)
    apply (rule wp_expect_retI)
    apply (erule t_there, simp add: ev, intro conjI TrueI)
    apply (rule wp_expect_retI)
    apply (erule t_there, simp add: ev, intro conjI TrueI)
    apply (rule wp_expect_retI)
    apply (erule t_rename_ok [where e = 0], simp add: ev, simp add: ev, simp add: ev, simp add: t_rename_def t_empty_def ev, intro conjI refl)
    apply (rule wp_expect_retI)
    apply (erule t_there, simp add: ev move_names_def, intro conjI TrueI)
    apply (erule t_rename_ok [where e = 0], simp add: ev move_names_def, simp add: ev move_names_def, simp add: ev,
      simp add: t_rename_def t_empty_def ev move_names_def, intro conjI refl)
    apply (erule t_mkdir, simp add: ev move_names_def, simp add: ev move_names_def, intro conjI refl)
    apply (drule tholds_fails, simp)
    done
qed

end

end
