(* ===== verification/Seeks.thy ===== *)
theory Seeks
  imports Sparse
begin

text \<open>
  Looking for data and holes.  \<open>vfs_llseek\<close> is kernel code and a parameter; the locale
  \<open>seeking\<close> says what lseek(2) does with \<open>SEEK_DATA\<close> and \<open>SEEK_HOLE\<close> on a file system that tracks
  data by pages: \<open>P w i\<close> are the pages of the inode \<open>i\<close> that hold data, a write gives data to the
  pages it touches, a truncation or a punched hole takes it from those it removes, an
  allocation changes nothing, as allocated space that was not written is a hole.  The
  predicate \<open>sholds\<close> is the store of Stores with such a table of pages for each file.
\<close>

lemma page_aligned:
  assumes "PAGE_SIZE dvd off" "PAGE_SIZE dvd n"
  shows "i div PAGE_SIZE \<in> pages off n \<longleftrightarrow> off \<le> i \<and> i < off + n"
proof -
  obtain a b where ab: "off = PAGE_SIZE * a" "n = PAGE_SIZE * b" using assms by (auto elim!: dvdE)
  show ?thesis
  proof (cases "b = 0")
    case False
    have "(PAGE_SIZE * a + PAGE_SIZE * b - 1) div PAGE_SIZE = a + b - 1"
      by (rule div_nat_eqI) (use False in \<open>auto simp: PAGE_SIZE_def\<close>)
    moreover have "PAGE_SIZE * b \<noteq> 0" using False by (simp add: PAGE_SIZE_def)
    moreover have "PAGE_SIZE * a div PAGE_SIZE = a" by (simp add: PAGE_SIZE_def)
    ultimately have "pages off n = {a..a + b - 1}" by (simp only: pages_def ab if_False)
    moreover have "Suc (a + b - 1) = a + b" using False by simp
    ultimately show ?thesis
      unfolding ab by (simp only: atLeastAtMost_iff page_bounds) (simp add: algebra_simps)
  qed (simp add: ab pages_def)
qed

text \<open>The loop rule with a number of turns left instead of a measure of the locals.\<close>

lemma wp_loop_turns:
  assumes "I k l s" and "k < n"
    and "\<And>k l s. I k l s \<Longrightarrow> wp (body l) (\<lambda>r s'. case r of Inl l' \<Rightarrow> \<exists>k'<k. I k' l' s' | Inr a \<Rightarrow> Q a s') s"
  shows "wp (loop_fuel n body l) Q s"
  using assms(1,2)
proof (induction n arbitrary: k l s)
  case (Suc n)
  have "wp (body l) (\<lambda>r s'. wp (case r of Inl l' \<Rightarrow> loop_fuel n body l' | Inr a \<Rightarrow> ret a) Q s') s"
  proof (rule wp_mono [OF assms(3) [OF Suc.prems(1)]])
    fix r s'
    assume "case r of Inl l' \<Rightarrow> \<exists>k'<k. I k' l' s' | Inr a \<Rightarrow> Q a s'"
    then show "wp (case r of Inl l' \<Rightarrow> loop_fuel n body l' | Inr a \<Rightarrow> ret a) Q s'"
      using Suc.IH Suc.prems(2) by (cases r) auto
  qed
  then show ?case by simp
qed simp

locale seeking = nfs42 K V ok inval
  for K :: "'w kernel" and V :: "'w \<Rightarrow> fsv" and ok :: "'w \<Rightarrow> bool" and inval :: "nat \<Rightarrow> 'w \<Rightarrow> int \<times> 'w" +
  fixes seek :: "nat \<Rightarrow> int \<Rightarrow> whence \<Rightarrow> 'w \<Rightarrow> int \<times> 'w" and P :: "'w \<Rightarrow> nat \<Rightarrow> nat set"
  assumes seek: "\<lbrakk>ok w; fds (V w) h = Some (i, fl); i_type (inodes (V w) i) = S_REG; wh \<noteq> SEEK_SET; seek h off wh w = (r, w')\<rbrakk> \<Longrightarrow>
      r = seek_in (P w i) (length (data_of (V w) i)) off wh \<and> ok w' \<and> V w' = V w \<and> P w' = P w"
    and large_write: "\<lbrakk>ok w; fds (V w) h = Some (i, fl); i_type (inodes (V w) i) = S_REG; writable fl; O_LARGEFILE \<in> fl; O_APPEND \<notin> fl;
        pos + length d < 2 ^ 63; kernel_write K h d (int pos) w = ((r, pos'), w')\<rbrakk> \<Longrightarrow>
      ok w' \<and> (r = - EFBIG \<and> V w' = V w \<and> P w' = P w \<or>
        r = int (length d) \<and> V w' = set_data i (write_at pos d (data_of (V w) i)) (V w) \<and> P w' = (P w)(i := P w i \<union> pages pos (length d)))"
    and pages_new: "\<lbrakk>ok w; absent (V w) p; O_CREAT \<in> fl; filp_open K p fl m w = (rf, w')\<rbrakk> \<Longrightarrow>
      P w' = (P w)(the (names (V w') p) := {})"
    and pages_open: "\<lbrakk>ok w; has_inode (V w) p i S_REG; O_EXCL \<notin> fl; filp_open K p fl m w = (rf, w')\<rbrakk> \<Longrightarrow>
      P w' = (if O_TRUNC \<in> fl then (P w)(i := {}) else P w)"
    and pages_write: "\<lbrakk>ok w; fds (V w) h = Some (i, fl); i_type (inodes (V w) i) = S_REG; writable fl; O_APPEND \<notin> fl;
        pos + length d < size_limit; kernel_write K h d (int pos) w = (rx, w')\<rbrakk> \<Longrightarrow>
      P w' = (P w)(i := P w i \<union> pages pos (length d))"
    and pages_truncate: "\<lbrakk>ok w; refs (V w) h = Some i; n < size_limit; vfs_truncate K h (int n) w = (r, w')\<rbrakk> \<Longrightarrow>
      P w' = (P w)(i := P w i \<inter> pages_below n)"
    and pages_ftruncate: "\<lbrakk>ok w; fds (V w) h = Some (i, fl); writable fl; n < size_limit; do_ftruncate K h (int n) w = (r, w')\<rbrakk> \<Longrightarrow>
      P w' = (P w)(i := P w i \<inter> pages_below n)"
    and pages_allocate: "\<lbrakk>ok w; fds (V w) h = Some (i, fl); vfs_fallocate K h {} x y w = (r, w')\<rbrakk> \<Longrightarrow> P w' = P w"
    and pages_punch: "\<lbrakk>ok w; fds (V w) h = Some (i, fl); vfs_fallocate K h {FALLOC_FL_PUNCH_HOLE, FALLOC_FL_KEEP_SIZE} (int pos) (int n) w = (0, w')\<rbrakk> \<Longrightarrow>
      P w' = (P w)(i := P w i - inner_pages pos n)"
    and pages_close: "\<lbrakk>ok w; fds (V w) h = Some (i, fl)\<rbrakk> \<Longrightarrow> P (filp_close K h w) = P w"
    and pages_read: "\<lbrakk>ok w; fds (V w) h = Some (i, fl); kernel_read K h n x w = (rd, w')\<rbrakk> \<Longrightarrow> P w' = P w"
    and pages_fsync: "\<lbrakk>ok w; fds (V w) h = Some (i, fl); vfs_fsync K h w = (r, w')\<rbrakk> \<Longrightarrow> P w' = P w"
    and pages_lookup: "\<lbrakk>ok w; kern_path K p {} w = (rp, w')\<rbrakk> \<Longrightarrow> P w' = P w"
    and pages_put: "\<lbrakk>ok w; refs (V w) h = Some i\<rbrakk> \<Longrightarrow> P (path_put K h w) = P w"
    and pages_stat: "\<lbrakk>ok w; refs (V w) h = Some i; vfs_getattr K h w = (ra, w')\<rbrakk> \<Longrightarrow>
      P w' = P w \<and> (\<forall>st. ra = Inr st \<longrightarrow> PAGE_SIZE \<le> st_blksize st)"
    and pages_alloc: "\<lbrakk>ok w; kmalloc K n w = (rb, w')\<rbrakk> \<Longrightarrow> P w' = P w"
begin

definition paged :: "(string \<rightharpoonup> byte list) \<Rightarrow> (string \<Rightarrow> nat set) \<Rightarrow> 'w \<Rightarrow> bool" where
  "paged M D w = (\<forall>p\<in>dom M. P w (the (names (V w) p)) = D p)"

definition sholds ::
  "nat \<times> string list \<times> 'z \<Rightarrow> string set \<Rightarrow> (string \<rightharpoonup> byte list) \<Rightarrow> (string \<rightharpoonup> nat \<times> oflag set) \<Rightarrow> (string \<Rightarrow> nat set) \<Rightarrow>
   ('w, 'z) kst_scheme \<Rightarrow> bool" where
  "sholds c U M H D s = (holds c U M H s \<and> paged M D (kw s))"

lemma sholdsD: "sholds c U M H D s \<Longrightarrow> holds c U M H s" "sholds c U M H D s \<Longrightarrow> paged M D (kw s)"
  by (simp_all add: sholds_def)

lemma sholds_fails: "sholds c U M H D s \<Longrightarrow> kfails s = fst c"
  by (drule sholdsD(1), rule holds_fails)

lemma paged_keep: "\<lbrakk>paged M D w; names (V w') = names (V w); P w' = P w\<rbrakk> \<Longrightarrow> paged M D w'"
  by (simp add: paged_def)

lemma paged_upd:
  assumes "store U M H w" "M p = Some d" "paged M D w" "names (V w') = names (V w)"
    and "P w' = (P w)(the (names (V w) p) := X)"
  shows "paged (M(p \<mapsto> e)) (D(p := X)) w'"
  unfolding paged_def
proof
  fix q
  assume q: "q \<in> dom (M(p \<mapsto> e))"
  show "P w' (the (names (V w') q)) = (D(p := X)) q"
  proof (cases "q = p")
    case False
    then obtain f where "M q = Some f" using q by auto
    from store_other [OF assms(1) this False, of d] have "the (names (V w) q) \<noteq> the (names (V w) p)" using assms(2) by blast
    then show ?thesis using False q assms(3-5) by (simp add: paged_def)
  qed (simp add: assms(4,5))
qed

lemma paged_new:
  assumes "store U M H w" "M p = None" "paged M D w" "names (V w') = (names (V w))(p \<mapsto> i)" "fresh (V w) i" "P w' = (P w)(i := {})"
  shows "paged (M(p \<mapsto> e)) (D(p := {})) w'"
  unfolding paged_def
proof
  fix q
  assume q: "q \<in> dom (M(p \<mapsto> e))"
  show "P w' (the (names (V w') q)) = (D(p := {})) q"
  proof (cases "q = p")
    case False
    then obtain f where "M q = Some f" using q by auto
    from store_other [OF assms(1) this False] have "the (names (V w) q) \<noteq> i" using assms(5) by blast
    then show ?thesis using False q assms(3,4,6) by (simp add: paged_def)
  qed (simp add: assms(4,6))
qed

text \<open>A rule of the store and what the call does to the pages make a rule of both.\<close>

lemma sholds_rule:
  assumes "wp m (\<lambda>a t. R a \<and> holds c U M H t) s" "wp m (\<lambda>_ t. paged M D (kw t)) s"
    and "\<And>a t. \<lbrakk>R a; sholds c U M H D t\<rbrakk> \<Longrightarrow> Q a t"
  shows "wp m Q s"
  by (rule wp_mono [OF wp_conj [OF assms(1,2)]]) (use assms(3) in \<open>auto simp: sholds_def\<close>)

lemma sholds_file:
  assumes "sholds c U M H D s" "M p = Some d" "H p = Some (h, fl)"
  shows "ok (kw s)" "fds (V (kw s)) h = Some (the (names (V (kw s)) p), fl)"
    "i_type (inodes (V (kw s)) (the (names (V (kw s)) p))) = S_REG"
    "data_of (V (kw s)) (the (names (V (kw s)) p)) = d" "P (kw s) (the (names (V (kw s)) p)) = D p"
proof -
  note st = holdsD(1) [OF sholdsD(1) [OF assms(1)]]
  note f = s_step_open(1) [OF st assms(2,3)]
  show "ok (kw s)" "fds (V (kw s)) h = Some (the (names (V (kw s)) p), fl)"
    "i_type (inodes (V (kw s)) (the (names (V (kw s)) p))) = S_REG" "data_of (V (kw s)) (the (names (V (kw s)) p)) = d"
    using file_on_ok [OF f] file_on_fd [OF f] file_on_has(3,4) [OF f] by simp_all
  show "P (kw s) (the (names (V (kw s)) p)) = D p" using sholdsD(2) [OF assms(1)] assms(2) by (auto simp: paged_def)
qed

section \<open>The rules\<close>

lemma q_seek:
  assumes "sholds c U M H D s" "M p = Some d" "H p = Some (h, fl)" "wh \<noteq> SEEK_SET"
    and "\<And>t. sholds c U M H D t \<Longrightarrow> Q (seek_in (D p) (length d) off wh) t"
  shows "wp (kcall (seek h off wh)) Q s"
proof (rule wp_kcallI)
  fix a w'
  assume call: "seek h off wh (kw s) = (a, w')"
  note f = sholds_file [OF assms(1-3)]
  from seek [OF f(1-3) assms(4) call] have w: "a = seek_in (D p) (length d) off wh" "ok w'" "V w' = V (kw s)" "P w' = P (kw s)"
    by (simp_all add: f)
  have "sholds c U M H D (s\<lparr>kw := w'\<rparr>)"
    using assms(1) w store_cong [OF holdsD(1) [OF sholdsD(1) [OF assms(1)]] w(2,3)]
    by (auto simp: sholds_def holds_def paged_def)
  then show "Q a (s\<lparr>kw := w'\<rparr>)" using assms(5) w(1) by simp
qed

lemma q_create:
  assumes "sholds c U M H D s" "p \<in> U" "M p = None" "O_CREAT \<in> fl"
    and "\<And>t h. sholds c U (M(p \<mapsto> [])) (H(p \<mapsto> (h, fl))) (D(p := {})) t \<Longrightarrow> Q (Inr h) t"
  shows "wp (kcall (filp_open K p fl m)) Q s"
proof -
  note st = sholdsD(1) [OF assms(1)]
  have 1: "wp (kcall (filp_open K p fl m)) (\<lambda>a t. \<exists>h. a = Inr h \<and> holds c U (M(p \<mapsto> [])) (H(p \<mapsto> (h, fl))) t) s"
    by (rule h_create [OF st assms(2-4)]) blast
  have 2: "wp (kcall (filp_open K p fl m)) (\<lambda>_ t. paged (M(p \<mapsto> [])) (D(p := {})) (kw t)) s"
  proof (rule wp_kcallI)
    fix a w'
    assume call: "filp_open K p fl m (kw s) = (a, w')"
    note ab = store_ok [OF holdsD(1) [OF st]] store_absent [OF holdsD(1) [OF st] assms(2,3)]
    from open_new [OF ab assms(4) call] obtain i where i: "fresh (V (kw s)) i" "names (V w') = (names (V (kw s)))(p \<mapsto> i)" by auto
    have "P w' = (P (kw s))(i := {})" using pages_new [OF ab assms(4) call] by (simp add: i(2))
    then show "paged (M(p \<mapsto> [])) (D(p := {})) (kw (s\<lparr>kw := w'\<rparr>))"
      using paged_new [OF holdsD(1) [OF st] assms(3) sholdsD(2) [OF assms(1)] i(2,1)] by simp
  qed
  show ?thesis
    by (rule wp_mono [OF wp_conj [OF 1 2]]) (use assms(5) in \<open>auto simp: sholds_def\<close>)
qed

lemma q_open:
  assumes "sholds c U M H D s" "M p = Some d" "H p = None" "O_EXCL \<notin> fl" "O_DIRECTORY \<notin> fl" "O_TRUNC \<notin> fl"
    and "\<And>t h. sholds c U M (H(p \<mapsto> (h, fl))) D t \<Longrightarrow> Q (Inr h) t"
  shows "wp (kcall (filp_open K p fl m)) Q s"
proof -
  note st = sholdsD(1) [OF assms(1)]
  have 1: "wp (kcall (filp_open K p fl m)) (\<lambda>a t. \<exists>h. a = Inr h \<and> holds c U M (H(p \<mapsto> (h, fl))) t) s"
    by (rule h_open_keep [OF st assms(2-6)]) blast
  have 2: "wp (kcall (filp_open K p fl m)) (\<lambda>_ t. paged M D (kw t)) s"
  proof (rule wp_kcallI)
    fix a w'
    assume call: "filp_open K p fl m (kw s) = (a, w')"
    note f = store_file [OF holdsD(1) [OF st] assms(2)]
    from open_file [OF file_on_ok [OF f] file_on_has(1) [OF f] assms(4,5) call] have "names (V w') = names (V (kw s))"
      using assms(6) by auto
    then show "paged M D (kw (s\<lparr>kw := w'\<rparr>))"
      using paged_keep [OF sholdsD(2) [OF assms(1)]] pages_open [OF file_on_ok [OF f] file_on_has(1) [OF f] assms(4) call] assms(6)
      by simp
  qed
  show ?thesis
    by (rule wp_mono [OF wp_conj [OF 1 2]]) (use assms(7) in \<open>auto simp: sholds_def\<close>)
qed

text \<open>
  A call on an open file that keeps the names: the rule of the store, and what the call
  does to the pages of the file.
\<close>

lemma sholds_call:
  assumes "sholds c U M H D s" "M p = Some d"
    and "wp (kcall f) (\<lambda>a t. R a \<and> holds c U (M(p \<mapsto> e)) H' t) s"
    and "\<And>a w'. f (kw s) = (a, w') \<Longrightarrow> names (V w') = names (V (kw s)) \<and> P w' = (P (kw s))(the (names (V (kw s)) p) := X)"
    and "\<And>a t. \<lbrakk>R a; sholds c U (M(p \<mapsto> e)) H' (D(p := X)) t\<rbrakk> \<Longrightarrow> Q a t"
  shows "wp (kcall f) Q s"
proof (rule sholds_rule [OF assms(3) _ assms(5)])
  show "wp (kcall f) (\<lambda>_ t. paged (M(p \<mapsto> e)) (D(p := X)) (kw t)) s"
  proof (rule wp_kcallI)
    fix a w'
    assume "f (kw s) = (a, w')"
    from assms(4) [OF this] show "paged (M(p \<mapsto> e)) (D(p := X)) (kw (s\<lparr>kw := w'\<rparr>))"
      using paged_upd [OF holdsD(1) [OF sholdsD(1) [OF assms(1)]] assms(2) sholdsD(2) [OF assms(1)]] by simp
  qed
qed

lemma q_write:
  assumes "sholds c U M H D s" "M p = Some d" "H p = Some (h, fl)" "writable fl" "O_APPEND \<notin> fl" "0 \<le> x" "nat x + length b < size_limit"
    and "\<And>t. sholds c U (M(p \<mapsto> write_at (nat x) b d)) H (D(p := D p \<union> pages (nat x) (length b))) t \<Longrightarrow>
           Q (int (length b), x + int (length b)) t"
  shows "wp (kcall (kernel_write K h b x)) Q s"
proof (rule sholds_call [OF assms(1,2), where R = "\<lambda>a. a = (int (length b), x + int (length b))"])
  note f = sholds_file [OF assms(1-3)]
  show "wp (kcall (kernel_write K h b x)) (\<lambda>a t. a = (int (length b), x + int (length b)) \<and> holds c U (M(p \<mapsto> write_at (nat x) b d)) H t) s"
    by (rule h_write [OF sholdsD(1) [OF assms(1)] assms(2-7)]) simp
  fix a w'
  assume "kernel_write K h b x (kw s) = (a, w')"
  then have call: "kernel_write K h b (int (nat x)) (kw s) = ((fst a, snd a), w')" using assms(6) by simp
  show "names (V w') = names (V (kw s)) \<and> P w' = (P (kw s))(the (names (V (kw s)) p) := D p \<union> pages (nat x) (length b))"
    using write_file [OF f(1-3) assms(4), of "nat x" "nat x", OF _ assms(7) call] pages_write [OF f(1-3) assms(4,5,7) call]
    by (simp add: f(5) assms(5))
qed (use assms(8) in simp)

lemma q_large_write:
  assumes "sholds c U (M(p \<mapsto> d)) (H(p \<mapsto> (h, fl))) (D(p := X)) s" "writable fl" "O_LARGEFILE \<in> fl" "O_APPEND \<notin> fl" "0 \<le> x"
    and "nat x + length b < 2 ^ 63"
    and "\<And>t x'. sholds c U (M(p \<mapsto> d)) (H(p \<mapsto> (h, fl))) (D(p := X)) t \<Longrightarrow> Q (- EFBIG, x') t"
    and "\<And>t x'. sholds c U (M(p \<mapsto> write_at (nat x) b d)) (H(p \<mapsto> (h, fl))) (D(p := X \<union> pages (nat x) (length b))) t \<Longrightarrow>
           Q (int (length b), x') t"
  shows "wp (kcall (kernel_write K h b x)) Q s"
proof (rule wp_kcallI)
  fix a w'
  assume "kernel_write K h b x (kw s) = (a, w')"
  then have call: "kernel_write K h b (int (nat x)) (kw s) = ((fst a, snd a), w')" using assms(5) by simp
  let ?M = "M(p \<mapsto> d)" and ?H = "H(p \<mapsto> (h, fl))" and ?D = "D(p := X)" and ?i = "the (names (V (kw s)) p)"
  have at: "?M p = Some d" "?H p = Some (h, fl)" by simp_all
  note f = sholds_file [OF assms(1) at] and st = holdsD [OF sholdsD(1) [OF assms(1)]]
  note fo = s_step_open(1) [OF st(1) at]
  from large_write [OF f(1-3) assms(2-4,6) call] consider
      (full) "ok w'" "fst a = - EFBIG" "V w' = V (kw s)" "P w' = P (kw s)"
    | (stored) "ok w'" "fst a = int (length b)" "V w' = set_data ?i (write_at (nat x) b d) (V (kw s))"
        "P w' = (P (kw s))(?i := X \<union> pages (nat x) (length b))"
    by (auto simp: f(4,5))
  then show "Q a (s\<lparr>kw := w'\<rparr>)"
  proof cases
    case full
    then have "sholds c U ?M ?H ?D (s\<lparr>kw := w'\<rparr>)"
      using assms(1) store_cong [OF st(1)] st(2) by (auto simp: sholds_def holds_def paged_def)
    from assms(7) [OF this, of "snd a"] full(2) show ?thesis by (metis prod.collapse)
  next
    case stored
    have "store U (?M(p \<mapsto> write_at (nat x) b d)) ?H w'"
      by (rule s_step_open(2) [OF st(1) at set_data_step [OF fo stored(1,3)]])
    moreover have "paged (?M(p \<mapsto> write_at (nat x) b d)) (?D(p := X \<union> pages (nat x) (length b))) w'"
      by (rule paged_upd [OF st(1) at(1) sholdsD(2) [OF assms(1)] _ stored(4)]) (simp add: stored(3))
    ultimately have "sholds c U (M(p \<mapsto> write_at (nat x) b d)) ?H (D(p := X \<union> pages (nat x) (length b))) (s\<lparr>kw := w'\<rparr>)"
      using st(2) by (simp add: sholds_def holds_def)
    from assms(8) [OF this, of "snd a"] stored(2) show ?thesis by (metis prod.collapse)
  qed
qed

lemma q_ftruncate:
  assumes "sholds c U M H D s" "M p = Some d" "H p = Some (h, fl)" "writable fl" "0 \<le> x" "nat x < size_limit"
    and "\<And>t. sholds c U (M(p \<mapsto> resize (nat x) d)) H (D(p := D p \<inter> pages_below (nat x))) t \<Longrightarrow> Q 0 t"
  shows "wp (xfs_ftruncate K h x) Q s"
  unfolding xfs_ftruncate_def
proof (rule sholds_call [OF assms(1,2), where R = "\<lambda>a. a = 0"])
  note f = sholds_file [OF assms(1-3)]
  show "wp (kcall (do_ftruncate K h x)) (\<lambda>a t. a = 0 \<and> holds c U (M(p \<mapsto> resize (nat x) d)) H t) s"
    by (rule h_ftruncate [unfolded xfs_ftruncate_def, OF sholdsD(1) [OF assms(1)] assms(2-6)]) simp
  fix a w'
  assume "do_ftruncate K h x (kw s) = (a, w')"
  then have call: "do_ftruncate K h (int (nat x)) (kw s) = (a, w')" using assms(5) by simp
  show "names (V w') = names (V (kw s)) \<and> P w' = (P (kw s))(the (names (V (kw s)) p) := D p \<inter> pages_below (nat x))"
    using ftruncate [OF f(1-3) assms(4,6) call] pages_ftruncate [OF f(1,2) assms(4,6) call] by (simp add: f(5))
qed (use assms(7) in simp)

lemma q_allocate:
  assumes "sholds c U M H D s" "M p = Some d" "H p = Some (h, fl)" "writable fl" "0 \<le> off" "0 < n" "nat off + nat n < size_limit"
    and "\<And>t. sholds c U (M(p \<mapsto> resize (max (length d) (nat off + nat n)) d)) H D t \<Longrightarrow> Q 0 t"
  shows "wp (kcall (vfs_fallocate K h {} off n)) Q s"
proof (rule sholds_call [OF assms(1,2), where R = "\<lambda>a. a = 0" and X = "D p"])
  note f = sholds_file [OF assms(1-3)]
  show "wp (kcall (vfs_fallocate K h {} off n))
      (\<lambda>a t. a = 0 \<and> holds c U (M(p \<mapsto> resize (max (length d) (nat off + nat n)) d)) H t) s"
    by (rule h_allocate [OF sholdsD(1) [OF assms(1)] assms(2-7)]) simp
  fix a w'
  assume call: "vfs_fallocate K h {} off n (kw s) = (a, w')"
  then have call': "vfs_fallocate K h {} (int (nat off)) (int (nat n)) (kw s) = (a, w')" using assms(5,6) by simp
  show "names (V w') = names (V (kw s)) \<and> P w' = (P (kw s))(the (names (V (kw s)) p) := D p)"
    using allocate [OF f(1-3) assms(4) _ assms(7) call'] pages_allocate [OF f(1,2) call] assms(6)
    by (auto simp: f(5) [symmetric] fun_upd_idem split: if_splits)
qed (use assms(8) in simp)

lemma q_punch:
  assumes "sholds c U M H D s" "M p = Some d" "H p = Some (h, fl)" "writable fl" "0 \<le> off" "0 < n" "nat off + nat n < size_limit"
    and "\<And>t. sholds c U (M(p \<mapsto> punch (nat off) (nat n) d)) H (D(p := D p - inner_pages (nat off) (nat n))) t \<Longrightarrow> Q 0 t"
  shows "wp (kcall (vfs_fallocate K h {FALLOC_FL_PUNCH_HOLE, FALLOC_FL_KEEP_SIZE} off n)) Q s"
proof (rule sholds_call [OF assms(1,2), where R = "\<lambda>a. a = 0" and X = "D p - inner_pages (nat off) (nat n)"])
  let ?m = "{FALLOC_FL_PUNCH_HOLE, FALLOC_FL_KEEP_SIZE}"
  note f = sholds_file [OF assms(1-3)]
  show wp: "wp (kcall (vfs_fallocate K h ?m off n)) (\<lambda>a t. a = 0 \<and> holds c U (M(p \<mapsto> punch (nat off) (nat n) d)) H t) s"
    by (rule h_punch [OF sholdsD(1) [OF assms(1)] assms(2-7)]) simp
  fix a w'
  assume "vfs_fallocate K h ?m off n (kw s) = (a, w')"
  moreover from this have "a = 0" using wp by (simp add: wp_kcall)
  ultimately have call: "vfs_fallocate K h ?m (int (nat off)) (int (nat n)) (kw s) = (0, w')" using assms(5,6) by simp
  show "names (V w') = names (V (kw s)) \<and> P w' = (P (kw s))(the (names (V (kw s)) p) := D p - inner_pages (nat off) (nat n))"
    using punch_hole [OF f(1-3) assms(4) _ assms(7) call] pages_punch [OF f(1,2) call] assms(6) by (simp add: f(5))
qed (use assms(8) in simp)

lemma q_fsync:
  assumes "sholds c U M H D s" "M p = Some d" "H p = Some (h, fl)" and "\<And>t. sholds c U M H D t \<Longrightarrow> Q 0 t"
  shows "wp (kcall (vfs_fsync K h)) Q s"
proof (rule sholds_call [OF assms(1,2), where R = "\<lambda>a. a = 0" and X = "D p" and e = d and H' = H])
  note f = sholds_file [OF assms(1-3)]
  have idem: "M(p \<mapsto> d) = M" using assms(2) by (simp add: fun_upd_idem)
  show "wp (kcall (vfs_fsync K h)) (\<lambda>a t. a = 0 \<and> holds c U (M(p \<mapsto> d)) H t) s"
    by (rule h_fsync [OF sholdsD(1) [OF assms(1)] assms(2,3)]) (simp add: idem)
  show "names (V w') = names (V (kw s)) \<and> P w' = (P (kw s))(the (names (V (kw s)) p) := D p)"
    if "vfs_fsync K h (kw s) = (a, w')" for a w'
    using fsync [OF f(1,2) that] pages_fsync [OF f(1,2) that] by (simp add: f(5) [symmetric] fun_upd_idem)
  show "Q a t" if "a = 0" "sholds c U (M(p \<mapsto> d)) H (D(p := D p)) t" for a t
    using assms(4) that by (simp add: idem)
qed

lemma q_read:
  assumes "sholds c U M H D s" "M p = Some d" "H p = Some (h, fl)" "readable fl" "0 \<le> x" "nat x + n < size_limit"
    and "\<And>t b. \<lbrakk>sholds c U M H D t; b = read_at (nat x) n d\<rbrakk> \<Longrightarrow> Q (int (length b), b, x + int (length b)) t"
  shows "wp (kcall (kernel_read K h n x)) Q s"
proof (rule sholds_call [OF assms(1,2), where X = "D p" and e = d and H' = H])
  let ?b = "read_at (nat x) n d"
  let ?R = "\<lambda>a. a = (int (length ?b), ?b, x + int (length ?b))"
  note f = sholds_file [OF assms(1-3)]
  have idem: "M(p \<mapsto> d) = M" using assms(2) by (simp add: fun_upd_idem)
  show "wp (kcall (kernel_read K h n x)) (\<lambda>a t. ?R a \<and> holds c U (M(p \<mapsto> d)) H t) s"
    by (rule h_read [OF sholdsD(1) [OF assms(1)] assms(2-6)]) (simp add: idem)
  show "names (V w') = names (V (kw s)) \<and> P w' = (P (kw s))(the (names (V (kw s)) p) := D p)"
    if "kernel_read K h n x (kw s) = (a, w')" for a w'
  proof -
    obtain r b y where a: "a = (r, b, y)" by (cases a) auto
    have "kernel_read K h n (int (nat x)) (kw s) = ((r, b, y), w')" using that assms(5) a by simp
    from read_file [OF f(1-3) assms(4,6) this] pages_read [OF f(1,2) that]
    show ?thesis by (simp add: f(5) [symmetric] fun_upd_idem)
  qed
  show "Q a t" if "?R a" "sholds c U (M(p \<mapsto> d)) H (D(p := D p)) t" for a t
    using assms(7) that by (simp add: idem)
qed

lemma q_close:
  assumes "sholds c U M H D s" "M p = Some d" "H p = Some (h, fl)" and "\<And>t. sholds c U M (H(p := None)) D t \<Longrightarrow> Q () t"
  shows "wp (kdo (filp_close K h)) Q s"
proof (rule sholds_rule [where R = "\<lambda>_. True"])
  note f = sholds_file [OF assms(1-3)]
  show "wp (kdo (filp_close K h)) (\<lambda>a t. True \<and> holds c U M (H(p := None)) t) s"
    by (rule h_close [OF sholdsD(1) [OF assms(1)] assms(2,3)]) simp
  show "wp (kdo (filp_close K h)) (\<lambda>_ t. paged M D (kw t)) s"
    using paged_keep [OF sholdsD(2) [OF assms(1)]] close [OF f(1,2)] pages_close [OF f(1,2)] by (simp add: wp_kdo)
qed (use assms(4) in simp)

lemma q_alloc:
  assumes "sholds c U M H D s" and "\<And>t. sholds c U M H D t \<Longrightarrow> Q () t"
  shows "wp (must_alloc K n) Q s"
proof (rule sholds_rule [where R = "\<lambda>_. True"])
  show "wp (must_alloc K n) (\<lambda>a t. True \<and> holds c U M H t) s"
    by (rule h_alloc [OF sholdsD(1) [OF assms(1)]]) simp
  show "wp (must_alloc K n) (\<lambda>_ t. paged M D (kw t)) s"
    unfolding wp_must_alloc
  proof (rule wp_kcallI)
    fix a w'
    assume "kmalloc K n (kw s) = (a, w')"
    with alloc pages_alloc store_ok [OF holdsD(1) [OF sholdsD(1) [OF assms(1)]]] paged_keep [OF sholdsD(2) [OF assms(1)]]
    show "a \<and> paged M D (kw (s\<lparr>kw := w'\<rparr>))" by auto
  qed
qed (use assms(2) in simp)

lemma q_prologue:
  assumes "ready V ok root s" and "\<And>p. p \<in> U \<Longrightarrow> \<exists>b. p = root @ CHR ''/'' # b \<and> CHR ''/'' \<notin> set b"
    and "\<And>t. sholds (kfails s, nm # kactions s, kst.more s) U Map.empty Map.empty D t \<Longrightarrow> Q () t"
  shows "wp (test_prologue K root nm act) Q s"
  by (rule h_prologue [OF assms(1,2)]) (auto intro: assms(3) simp: sholds_def paged_def)

lemma q_info:
  assumes "sholds c U M H D s" and "\<And>c' t. \<lbrakk>fst c' = fst c; sholds c' U M H D t\<rbrakk> \<Longrightarrow> Q () t"
  shows "wp (kunit_info msg) Q s"
  unfolding kunit_info_def wp_modify
  by (rule assms(2) [of "ctx (s\<lparr>kunit_log := kunit_log s @ [msg]\<rparr>)"])
    (use assms(1) in \<open>auto simp: sholds_def holds_def ctx_def\<close>)

section \<open>Calls on a path\<close>

text \<open>A lookup, a call on the reference, and its release.\<close>

lemma on_path:
  assumes "sholds c U M H D s" "M p = Some d"
    and "\<And>h w. \<lbrakk>ok w; names (V w) = names (V (kw s)); inodes (V w) = inodes (V (kw s)); refs (V w) h = Some (the (names (V (kw s)) p));
        P w = P (kw s)\<rbrakk> \<Longrightarrow>
      wp (act h) (\<lambda>a t. ok (kw t) \<and> names (V (kw t)) = names (V (kw s)) \<and> refs (V (kw t)) h = Some (the (names (V (kw s)) p)) \<and>
          P (kw t) = (P (kw s))(the (names (V (kw s)) p) := X) \<and> R a) (s\<lparr>kw := w\<rparr>)"
  shows "wp (with_path K p fail act) (\<lambda>a t. R a \<and> paged (M(p \<mapsto> e)) (D(p := X)) (kw t)) s"
  unfolding with_path_def wp_bnd
proof (rule wp_kcallI)
  fix a w1
  assume call: "kern_path K p {} (kw s) = (a, w1)"
  note f = store_file [OF holdsD(1) [OF sholdsD(1) [OF assms(1)]] assms(2)]
  from kern_path_found [OF file_on_ok [OF f] file_on_has(2) [OF f] call] obtain h where h: "a = Inr h" "ok w1"
    "V w1 = (V (kw s))\<lparr>refs := (refs (V (kw s)))(h \<mapsto> the (names (V (kw s)) p))\<rparr>" by blast
  have "wp (act h) (\<lambda>a t. ok (kw t) \<and> names (V (kw t)) = names (V (kw s)) \<and> refs (V (kw t)) h = Some (the (names (V (kw s)) p)) \<and>
      P (kw t) = (P (kw s))(the (names (V (kw s)) p) := X) \<and> R a) (s\<lparr>kw := w1\<rparr>)"
    by (rule assms(3)) (simp_all add: h pages_lookup [OF file_on_ok [OF f] call])
  then have "wp (act h) (\<lambda>r. wp (kdo (path_put K h)) (\<lambda>_. wp (ret r) (\<lambda>a t. R a \<and> paged (M(p \<mapsto> e)) (D(p := X)) (kw t)))) (s\<lparr>kw := w1\<rparr>)"
  proof (rule wp_mono)
    fix r t
    assume t: "ok (kw t) \<and> names (V (kw t)) = names (V (kw s)) \<and> refs (V (kw t)) h = Some (the (names (V (kw s)) p)) \<and>
      P (kw t) = (P (kw s))(the (names (V (kw s)) p) := X) \<and> R r"
    then show "wp (kdo (path_put K h)) (\<lambda>_. wp (ret r) (\<lambda>a t. R a \<and> paged (M(p \<mapsto> e)) (D(p := X)) (kw t))) t"
      using path_put [of "kw t" h] pages_put [of "kw t" h]
        paged_upd [OF holdsD(1) [OF sholdsD(1) [OF assms(1)]] assms(2) sholdsD(2) [OF assms(1)]]
      by (simp add: wp_kdo)
  qed
  then show "wp (case a of Inl err \<Rightarrow> ret (fail err) | Inr h \<Rightarrow> bnd (act h) (\<lambda>r. bnd (kdo (path_put K h)) (\<lambda>_. ret r)))
      (\<lambda>a t. R a \<and> paged (M(p \<mapsto> e)) (D(p := X)) (kw t)) (s\<lparr>kw := w1\<rparr>)"
    by (simp only: h(1) sum.case wp_bnd)
qed

lemma q_truncate:
  assumes "sholds c U M H D s" "M p = Some d" "0 \<le> x" "nat x < size_limit"
    and "\<And>t. sholds c U (M(p \<mapsto> resize (nat x) d)) H (D(p := D p \<inter> pages_below (nat x))) t \<Longrightarrow> Q 0 t"
  shows "wp (xfs_truncate K p x) Q s"
proof (rule sholds_rule [where R = "\<lambda>a. a = 0"])
  let ?i = "the (names (V (kw s)) p)"
  note f = store_file [OF holdsD(1) [OF sholdsD(1) [OF assms(1)]] assms(2)]
  have i: "i_type (inodes (V (kw s)) ?i) = S_REG" "P (kw s) ?i = D p"
    using file_on_has(3) [OF f] sholdsD(2) [OF assms(1)] assms(2) by (auto simp: paged_def)
  show "wp (xfs_truncate K p x) (\<lambda>a t. a = 0 \<and> holds c U (M(p \<mapsto> resize (nat x) d)) H t) s"
    by (rule h_truncate [OF sholdsD(1) [OF assms(1)] assms(2-4)]) simp
  have "wp (xfs_truncate K p x) (\<lambda>a t. True \<and> paged (M(p \<mapsto> resize (nat x) d)) (D(p := D p \<inter> pages_below (nat x))) (kw t)) s"
    unfolding xfs_truncate_def
  proof (rule on_path [OF assms(1,2)], rule wp_kcallI, goal_cases)
    case (1 h w a w')
    then have call: "vfs_truncate K h (int (nat x)) w = (a, w')" using assms(3) by simp
    show ?case using truncate [OF 1(1,4) _ assms(4) call] pages_truncate [OF 1(1,4) assms(4) call] 1(2,3,4,5) i by simp
  qed
  then show "wp (xfs_truncate K p x) (\<lambda>_ t. paged (M(p \<mapsto> resize (nat x) d)) (D(p := D p \<inter> pages_below (nat x))) (kw t)) s"
    by simp
qed (use assms(5) in simp)

lemma q_kstat:
  assumes "sholds c U M H D s" "M p = Some d"
    and "\<And>t st. \<lbrakk>sholds c U M H D t; st_size st = int (length d); PAGE_SIZE \<le> st_blksize st\<rbrakk> \<Longrightarrow> Q (Inr st) t"
  shows "wp (xfs_kstat K p) Q s"
proof -
  let ?i = "the (names (V (kw s)) p)"
  note st = holdsD [OF sholdsD(1) [OF assms(1)]]
  have i: "P (kw s) ?i = D p" using sholdsD(2) [OF assms(1)] assms(2) by (auto simp: paged_def)
  have 1: "wp (xfs_kstat K p) (\<lambda>a t. \<exists>st. a = Inr st \<and> st_size st = int (length d) \<and> holds c U M H t) s"
    by (rule s_kstat [OF st(1) assms(2)]) (use st(2) in \<open>simp add: holds_def\<close>)
  have 2: "wp (xfs_kstat K p) (\<lambda>a t. (\<forall>st. a = Inr st \<longrightarrow> PAGE_SIZE \<le> st_blksize st) \<and> paged (M(p \<mapsto> d)) (D(p := D p)) (kw t)) s"
    unfolding xfs_kstat_def
  proof (rule on_path [OF assms(1,2)], rule wp_kcallI, goal_cases)
    case (1 h w a w')
    from this(6) have call: "vfs_getattr K h w = (a, w')" by simp
    show ?case using getattr [OF 1(1,4) call] pages_stat [OF 1(1,4) call] 1(2-5) i by (auto simp: fun_upd_idem)
  qed
  show ?thesis
    by (rule wp_mono [OF wp_conj [OF 1 2]]) (use assms(2,3) in \<open>auto simp: sholds_def fun_upd_idem\<close>)
qed

lemma q_touch:
  assumes "sholds c U M H D s" "p \<in> U" "M p = None"
    and "\<And>t. sholds c U (M(p \<mapsto> [])) H (D(p := {})) t \<Longrightarrow> Q 0 t"
  shows "wp (xfs_write_new_file K p []) Q s"
  unfolding xfs_write_new_file_def wp_bnd
proof (rule q_create [OF assms(1-3)], simp, goal_cases)
  case (1 t h)
  have H: "H(p := None) = H"
    using holdsD(1) [OF sholdsD(1) [OF assms(1)]] assms(3) by (intro fun_upd_idem) (auto simp: store_def)
  have "write_loop K h [] 0 t = Ok 0 t" by (simp add: write_loop.simps)
  moreover have "wp (kdo (filp_close K h)) (\<lambda>_. Q 0) t" by (rule q_close [where p = p, OF 1]) (simp_all add: H assms(4))
  ultimately show ?case by (simp add: wp_def)
qed

lemma q_read_range:
  assumes "sholds c U M H D s" "M p = Some d" "H p = None" "0 \<le> x" "nat x + n < size_limit"
    and "\<And>t b. \<lbrakk>sholds c U M H D t; b = read_at (nat x) n d\<rbrakk> \<Longrightarrow> Q (int (length b), b) t"
  shows "wp (xfs_read_range K p n x) Q s"
  unfolding xfs_read_range_def wp_bnd
proof (rule q_open [OF assms(1-3)], simp_all, goal_cases)
  case (1 t h)
  show ?case
  proof (rule q_read [OF 1 assms(2) _ _ assms(4,5)], simp, simp add: readable_def, simp, goal_cases)
    case (1 t' b)
    show ?case
      by (rule q_close [OF 1(1) assms(2)], simp) (use assms(3,6) 1 in \<open>simp add: fun_upd_idem\<close>)
  qed
qed

section \<open>The file that was written last\<close>

text \<open>The rules in the form a case with one file needs: the tables are updated in place.\<close>

lemma q_seek_same:
  assumes "sholds c U (M(p \<mapsto> d)) (H(p \<mapsto> (h, fl))) (D(p := X)) s" "wh \<noteq> SEEK_SET"
    and "\<And>t. sholds c U (M(p \<mapsto> d)) (H(p \<mapsto> (h, fl))) (D(p := X)) t \<Longrightarrow> Q (seek_in X (length d) off wh) t"
  shows "wp (kcall (seek h off wh)) Q s"
  by (rule q_seek [where p = p, OF assms(1) _ _ assms(2)]) (use assms(3) in simp_all)

lemma q_write_same:
  assumes "sholds c U (M(p \<mapsto> d)) (H(p \<mapsto> (h, fl))) (D(p := X)) s" "writable fl" "O_APPEND \<notin> fl" "0 \<le> x" "nat x + length b < size_limit"
    and "\<And>t. sholds c U (M(p \<mapsto> write_at (nat x) b d)) (H(p \<mapsto> (h, fl))) (D(p := X \<union> pages (nat x) (length b))) t \<Longrightarrow>
           Q (int (length b), x + int (length b)) t"
  shows "wp (kcall (kernel_write K h b x)) Q s"
  by (rule q_write [where p = p, OF assms(1) _ _ assms(2-5)]) (use assms(6) in simp_all)

lemma q_ftruncate_same:
  assumes "sholds c U (M(p \<mapsto> d)) (H(p \<mapsto> (h, fl))) (D(p := X)) s" "writable fl" "0 \<le> x" "nat x < size_limit"
    and "\<And>t. sholds c U (M(p \<mapsto> resize (nat x) d)) (H(p \<mapsto> (h, fl))) (D(p := X \<inter> pages_below (nat x))) t \<Longrightarrow> Q 0 t"
  shows "wp (xfs_ftruncate K h x) Q s"
  by (rule q_ftruncate [where p = p, OF assms(1) _ _ assms(2-4)]) (use assms(5) in simp_all)

lemma q_truncate_same:
  assumes "sholds c U (M(p \<mapsto> d)) H (D(p := X)) s" "0 \<le> x" "nat x < size_limit"
    and "\<And>t. sholds c U (M(p \<mapsto> resize (nat x) d)) H (D(p := X \<inter> pages_below (nat x))) t \<Longrightarrow> Q 0 t"
  shows "wp (xfs_truncate K p x) Q s"
  by (rule q_truncate [where p = p, OF assms(1) _ assms(2,3)]) (use assms(4) in simp_all)

lemma q_allocate_same:
  assumes "sholds c U (M(p \<mapsto> d)) (H(p \<mapsto> (h, fl))) D s" "writable fl" "0 \<le> off" "0 < n" "nat off + nat n < size_limit"
    and "\<And>t. sholds c U (M(p \<mapsto> resize (max (length d) (nat off + nat n)) d)) (H(p \<mapsto> (h, fl))) D t \<Longrightarrow> Q 0 t"
  shows "wp (kcall (vfs_fallocate K h {} off n)) Q s"
  by (rule q_allocate [where p = p, OF assms(1) _ _ assms(2-5)]) (use assms(6) in simp_all)

lemma q_punch_same:
  assumes "sholds c U (M(p \<mapsto> d)) (H(p \<mapsto> (h, fl))) (D(p := X)) s" "writable fl" "0 \<le> off" "0 < n" "nat off + nat n < size_limit"
    and "\<And>t. sholds c U (M(p \<mapsto> punch (nat off) (nat n) d)) (H(p \<mapsto> (h, fl))) (D(p := X - inner_pages (nat off) (nat n))) t \<Longrightarrow> Q 0 t"
  shows "wp (kcall (vfs_fallocate K h {FALLOC_FL_PUNCH_HOLE, FALLOC_FL_KEEP_SIZE} off n)) Q s"
  by (rule q_punch [where p = p, OF assms(1) _ _ assms(2-5)]) (use assms(6) in simp_all)

lemma q_fsync_same:
  assumes "sholds c U (M(p \<mapsto> d)) (H(p \<mapsto> (h, fl))) D s"
    and "\<And>t. sholds c U (M(p \<mapsto> d)) (H(p \<mapsto> (h, fl))) D t \<Longrightarrow> Q 0 t"
  shows "wp (kcall (vfs_fsync K h)) Q s"
  by (rule q_fsync [where p = p, OF assms(1)]) (use assms(2) in simp_all)

lemma q_close_same:
  assumes "sholds c U (M(p \<mapsto> d)) (H(p \<mapsto> (h, fl))) D s" "H p = None"
    and "\<And>t. sholds c U (M(p \<mapsto> d)) H D t \<Longrightarrow> Q () t"
  shows "wp (kdo (filp_close K h)) Q s"
  by (rule q_close [where p = p, OF assms(1)]) (use assms(2,3) in \<open>simp_all add: fun_upd_idem\<close>)

end

section \<open>An instance\<close>

definition mem_seek :: "nat \<Rightarrow> int \<Rightarrow> whence \<Rightarrow> memw \<Rightarrow> int \<times> memw" where
  "mem_seek h off wh w = (on_fd h w (- EINVAL) (\<lambda>i fl. seek_in (m_pages w i) (length (data_of (mv w) i)) off wh), w)"

interpretation seeks: seeking expk mv mem_ok mem_inval mem_seek m_pages
proof (rule seeking.intro [OF sparse.nfs42_axioms], unfold_locales, goal_cases)
  case (1 w h i fl wh off r w')
  then show ?case by (auto simp: mem_seek_def on_fd_def)
next
  case (2 w h i fl pos d r pos' w')
  then show ?case
    using mem_set_data_ok [of w i] by (auto simp: expk_def memk_def mem_write_def on_fd_def mem_set_data_def mem_view_def Let_def)
next
  case (3 w p fl m rf w')
  then have "mem_open p fl m w = (rf, w')" using exp_same(1) [of w p] by (simp add: memk_def)
  then show ?case using 3(2,3) by (auto simp: mem_open_def absent_def mem_new_def mem_view_def Let_def)
next
  case (4 w p i fl m rf w')
  then have "mem_open p fl m w = (rf, w')" using exp_same(1) [of w p i] by (simp add: memk_def has_inode_def)
  then show ?case using 4(2,3) by (auto simp: mem_open_def has_inode_def mem_view_def Let_def pages_below_def PAGE_SIZE_def split: if_splits)
next
  case (5 w h i fl pos d r w')
  then show ?case by (auto simp: expk_def memk_def mem_write_def on_fd_def mem_set_data_def mem_view_def Let_def)
next
  case (6 w h i n r w')
  then show ?case by (auto simp: expk_def memk_def mem_truncate_def on_ref_def)
next
  case (7 w h i fl n r w')
  then show ?case by (auto simp: expk_def memk_def mem_ftruncate_def on_fd_def)
next
  case (8 w h i fl x y r w')
  then show ?case by (auto simp: expk_def memk_def mem_fallocate_def on_fd_def mem_set_data_def mem_view_def)
next
  case (9 w h i fl pos n w')
  then show ?case by (auto simp: expk_def memk_def mem_fallocate_def on_fd_def mem_set_data_def mem_view_def)
next
  case (10 w h i fl)
  then show ?case by (auto simp: expk_def memk_def mem_close_def mem_view_def)
next
  case (11 w h i fl n x rd w')
  then show ?case by (auto simp: expk_def memk_def mem_read_def on_fd_def Let_def)
next
  case (12 w h i fl r w')
  then show ?case by (auto simp: expk_def memk_def)
next
  case (13 w p rp w')
  then show ?case by (auto simp: expk_def memk_def mem_kern_path_def mem_view_def split: option.splits if_splits)
next
  case (14 w h i)
  then show ?case by (auto simp: expk_def memk_def mem_path_put_def mem_view_def)
next
  case (15 w h i ra w')
  then show ?case by (auto simp: expk_def memk_def mem_getattr_def on_ref_def mem_stat_def)
next
  case (16 w n rb w')
  then show ?case by (auto simp: expk_def memk_def)
qed

section \<open>The allocation unit\<close>

text \<open>
  The search for the allocation unit that \<open>436.c\<close> and \<open>539.c\<close> both have, after
  \<open>get_io_sizes\<close> of seek_sanity_test: a byte is written further and further into an empty file
  until \<open>SEEK_DATA\<close> from the start no longer answers 0, and the offset where that changes is
  then bisected.  Each of the two loops doubles or halves an offset below the block size of
  a stat, a 32 bit number, so that 64 turns are more than they can take.
\<close>

definition alloc_probe ::
  "'w kernel \<Rightarrow> (nat \<Rightarrow> int \<Rightarrow> whence \<Rightarrow> 'w \<Rightarrow> int \<times> 'w) \<Rightarrow> nat \<Rightarrow> int \<Rightarrow> (('w, 'z) kst_scheme, int) prog" where
  "alloc_probe K seek f offset =
     bnd (must (xfs_ftruncate K f 0)) (\<lambda>_.
     bnd (must_ret (kcall (kernel_write K f (to_bytes ''a'') offset)) (\<lambda>(n, _). n = 1)) (\<lambda>_.
     bnd (kcall (seek f 0 SEEK_DATA)) (\<lambda>pos.
     bnd (kunit_assert (0 \<le> pos)) (\<lambda>_. ret pos))))"

definition ALLOC_FUEL :: nat where "ALLOC_FUEL = 64"

definition alloc_double ::
  "'w kernel \<Rightarrow> (nat \<Rightarrow> int \<Rightarrow> whence \<Rightarrow> 'w \<Rightarrow> int \<times> 'w) \<Rightarrow> nat \<Rightarrow> int \<Rightarrow> (('w, 'z) kst_scheme, int \<times> int) prog" where
  "alloc_double K seek f alloc = loop_fuel ALLOC_FUEL (\<lambda>(pos, offset).
     if pos = 0 \<and> offset < alloc
     then bnd (alloc_probe K seek f (2 * offset)) (\<lambda>pos. ret (Inl (pos, 2 * offset)))
     else ret (Inr (pos, offset))) (0, 1)"

definition alloc_bisect ::
  "'w kernel \<Rightarrow> (nat \<Rightarrow> int \<Rightarrow> whence \<Rightarrow> 'w \<Rightarrow> int \<times> 'w) \<Rightarrow> nat \<Rightarrow> int \<Rightarrow> int \<times> int \<Rightarrow>
   (('w, 'z) kst_scheme, int \<times> int \<times> int) prog" where
  "alloc_bisect K seek f alloc start = loop_fuel ALLOC_FUEL (\<lambda>(pos, offset, shift).
     if shift \<noteq> 0 \<and> offset < alloc
     then bnd (alloc_probe K seek f offset) (\<lambda>pos. ret (Inl (pos, offset + (if pos \<noteq> 0 then - shift else shift), shift div 2)))
     else ret (Inr (pos, offset, shift))) (fst start, snd start, snd start div 4)"

definition alloc_size ::
  "'w kernel \<Rightarrow> (nat \<Rightarrow> int \<Rightarrow> whence \<Rightarrow> 'w \<Rightarrow> int \<times> 'w) \<Rightarrow> string \<Rightarrow> nat \<Rightarrow> (('w, 'z) kst_scheme, int) prog" where
  "alloc_size K seek path f =
     bnd (xfs_kstat K path) (\<lambda>r. case r of Inl e \<Rightarrow> bnd (kunit_assert False) (\<lambda>_. ret e)
     | Inr st \<Rightarrow> (let alloc = int (st_blksize st) in
         bnd (alloc_double K seek f alloc) (\<lambda>start.
         bnd (alloc_bisect K seek f alloc start) (\<lambda>(pos, offset, shift).
           ret (if shift = 0 then offset + (if pos \<noteq> 0 then 0 else 1) else offset)))))"

text \<open>One byte in a file answers with the start of its page.\<close>

lemma seek_one_byte: "seek_in {x div PAGE_SIZE} (Suc x) 0 SEEK_DATA = int (x div PAGE_SIZE * PAGE_SIZE)"
proof (rule seek_data)
  have p: "0 < PAGE_SIZE" by (simp add: PAGE_SIZE_def)
  show "x div PAGE_SIZE * PAGE_SIZE < Suc x" by (simp add: less_Suc_eq_le)
  show "x div PAGE_SIZE * PAGE_SIZE div PAGE_SIZE \<in> {x div PAGE_SIZE}" using p by simp
  show "i div PAGE_SIZE \<notin> {x div PAGE_SIZE}" if "i < x div PAGE_SIZE * PAGE_SIZE" for i
  proof -
    have "i div PAGE_SIZE < x div PAGE_SIZE" using that by (simp only: page_bounds)
    then show ?thesis by (metis less_irrefl singletonD)
  qed
qed simp_all

lemma no_pages_below [simp]: "pages_below 0 = {}"
  by (simp add: pages_below_def PAGE_SIZE_def)

context seeking
begin

abbreviation q_file where
  "q_file c U M H D p h fl t \<equiv> \<exists>d X. sholds c U (M(p \<mapsto> d)) (H(p \<mapsto> (h, fl))) (D(p := X)) t"

lemma alloc_probe_ok:
  assumes "q_file c U M H D p h fl s" "writable fl" "O_APPEND \<notin> fl" "0 \<le> x" "x < 2 ^ 30"
    and "\<And>t. q_file c U M H D p h fl t \<Longrightarrow> Q (int (nat x div PAGE_SIZE * PAGE_SIZE)) t"
  shows "wp (alloc_probe K seek h x) Q s"
proof -
  obtain d X where s: "sholds c U (M(p \<mapsto> d)) (H(p \<mapsto> (h, fl))) (D(p := X)) s" using assms(1) by blast
  have a: "length (to_bytes ''a'') = 1" by (simp add: to_bytes_def)
  have sz: "nat x + length (to_bytes ''a'') < size_limit" "nat 0 < size_limit" using assms(4,5) by (simp_all add: size_limit_def a)
  have one: "X \<inter> pages_below (nat 0) \<union> pages (nat x) (length (to_bytes ''a'')) = {nat x div PAGE_SIZE}"
    by (simp add: pages_def a)
  have len: "length (write_at (nat x) (to_bytes ''a'') (resize (nat 0) d)) = Suc (nat x)"
    by (simp add: to_bytes_def)
  show ?thesis
    unfolding alloc_probe_def
    apply (simp only: wp_unfold)
    apply (rule q_ftruncate_same [OF s assms(2) _ sz(2)], simp, intro conjI refl)
    apply (erule q_write_same [OF _ assms(2,3,4) sz(1)], simp only: prod.case, intro conjI, simp only: a of_nat_1)
    apply (simp only: one)
    apply (erule q_seek_same, simp)
    apply (simp only: len seek_one_byte, intro conjI of_nat_0_le_iff)
    apply (rule assms(6), blast)
    done
qed

text \<open>
  With pages of 4096 bytes the doubling stops at 4096 after twelve turns, and the bisection,
  if there is one, comes back to it.
\<close>

lemma alloc_double_ok:
  assumes "q_file c U M H D p h fl s" "writable fl" "O_APPEND \<notin> fl" "4096 \<le> B"
    and "\<And>t. q_file c U M H D p h fl t \<Longrightarrow> Q (4096, 4096) t"
  shows "wp (alloc_double K seek h B) Q s"
  unfolding alloc_double_def
proof (rule wp_loop_turns [where k = 12 and I = "\<lambda>k l t. q_file c U M H D p h fl t \<and> k \<le> 12 \<and>
    l = (if k = 0 then 4096 else 0, 2 ^ (12 - k))"], goal_cases)
  case (3 k l t)
  then have t: "q_file c U M H D p h fl t" and k: "k \<le> 12" and l: "l = (if k = 0 then 4096 else 0, 2 ^ (12 - k))" by blast+
  show ?case
  proof (cases k)
    case 0
    then show ?thesis using assms(5) [OF t] by (simp add: l)
  next
    case (Suc k')
    have e: "2 * (2 :: int) ^ (12 - k) = 2 ^ (12 - k')" using k Suc by (simp flip: power_Suc add: Suc_diff_le)
    have e': "2 * (2 :: int) ^ (11 - k') = 2 ^ (12 - k')" using e Suc by simp
    have "(2 :: int) ^ (12 - k) \<le> 2 ^ 11" "(2 :: int) ^ (12 - k') \<le> 2 ^ 12"
      using Suc by (intro power_increasing; simp)+
    then have lt: "(2 :: int) ^ (12 - k) < B" "(2 :: int) ^ (12 - k') < 2 ^ 30" using assms(4) by simp_all
    have res: "int (nat (2 ^ (12 - k')) div PAGE_SIZE * PAGE_SIZE) = (if k' = 0 then 4096 else 0)"
    proof (cases "k' = 0")
      case False
      then have "(2 :: nat) ^ (12 - k') \<le> 2 ^ 11" by (intro power_increasing) auto
      then have "(2 :: nat) ^ (12 - k') < PAGE_SIZE" by (simp add: PAGE_SIZE_def)
      then show ?thesis using False by (simp add: nat_power_eq)
    qed (simp add: PAGE_SIZE_def)
    have "wp (alloc_probe K seek h (2 * 2 ^ (12 - k))) (\<lambda>pos t. q_file c U M H D p h fl t \<and> pos = (if k' = 0 then 4096 else 0)) t"
      unfolding e by (rule alloc_probe_ok [OF t assms(2,3) _ lt(2)], simp, simp only: res simp_thms)
    then show ?thesis
      unfolding l using Suc lt(1) k by (simp only: prod.case wp_if) (simp, elim wp_mono, auto simp: e' intro!: exI [of _ k'])
  qed
qed (use assms(1) in \<open>simp_all add: ALLOC_FUEL_def\<close>)

lemma alloc_bisect_ok:
  assumes "q_file c U M H D p h fl s" "writable fl" "O_APPEND \<notin> fl" "4096 \<le> B"
    and "\<And>t pos offset shift. \<lbrakk>q_file c U M H D p h fl t; (if shift = 0 then offset + (if pos \<noteq> 0 then 0 else 1) else offset) = 4096\<rbrakk> \<Longrightarrow>
      Q (pos, offset, shift) t"
  shows "wp (alloc_bisect K seek h B (4096, 4096)) Q s"
  unfolding alloc_bisect_def
proof (rule wp_loop_turns [where k = 11 and I = "\<lambda>k l t. q_file c U M H D p h fl t \<and>
    (k = 11 \<and> l = (4096, 4096, 1024) \<or>
     4096 < B \<and> 0 < k \<and> k < 11 \<and> (\<exists>pos. l = (pos, 4096 - 2 ^ k, 2 ^ (k - 1))) \<or>
     4096 < B \<and> k = 0 \<and> l = (0, 4095, 0))"], goal_cases)
  case (3 k l t)
  then have t: "q_file c U M H D p h fl t" by blast
  from 3 consider "k = 11" "l = (4096, 4096, 1024)" | (turn) pos where "4096 < B" "0 < k" "k < 11" "l = (pos, 4096 - 2 ^ k, 2 ^ (k - 1))"
    | "4096 < B" "k = 0" "l = (0, 4095, 0)" by blast
  then show ?case
  proof cases
    case 1
    show ?thesis
    proof (cases "4096 < B")
      case True
      have "wp (alloc_probe K seek h 4096) (\<lambda>pos t. q_file c U M H D p h fl t \<and> pos = 4096) t"
        by (rule alloc_probe_ok [OF t assms(2,3)]) (simp_all add: PAGE_SIZE_def)
      then show ?thesis
        unfolding 1 using True by simp (elim wp_mono, auto intro!: exI [of _ "10 :: nat"])
    next
      case False
      then show ?thesis using assms(5) [OF t] by (simp add: 1)
    qed
  next
    case turn
    have "(2 :: int) ^ k \<le> 2 ^ 10" "(2 :: nat) ^ k \<le> 2 ^ 10" using turn(3) by (intro power_increasing; simp)+
    then have pw: "(2 :: int) ^ k \<le> 1024" "(0 :: int) < 2 ^ k" "nat (2 ^ k) \<le> 1024" by (simp_all add: nat_power_eq)
    have "nat (4096 - 2 ^ k) < 4096" using pw by linarith
    then have res: "int (nat (4096 - 2 ^ k) div PAGE_SIZE * PAGE_SIZE) = 0" by (simp add: PAGE_SIZE_def)
    have probe: "wp (alloc_probe K seek h (4096 - 2 ^ k)) (\<lambda>pos t. q_file c U M H D p h fl t \<and> pos = 0) t"
      by (rule alloc_probe_ok [OF t assms(2,3)], use pw(1) in simp, rule le_less_trans [of _ 4096], simp, simp, simp only: res simp_thms)
    have go: "(2 :: int) ^ (k - 1) \<noteq> 0 \<and> 4096 - 2 ^ k < B" using le_less_trans [of "4096 - (2 :: int) ^ k" 4096 B] turn(1) by simp
    have half: "4096 - 2 ^ k + 2 ^ (k - 1) = 4096 - (2 :: int) ^ (k - 1)" using turn(2) by (cases k) simp_all
    show ?thesis
    proof (cases "k = 1")
      case True
      then show ?thesis
        unfolding turn(4) using go probe turn(1) by simp (elim wp_mono, auto)
    next
      case False
      then have "(2 :: int) ^ (k - 1) div 2 = 2 ^ (k - 1 - 1)" using turn(2) by (cases "k - 1") simp_all
      then show ?thesis
        unfolding turn(4) using go probe turn False half by simp (elim wp_mono, auto intro!: exI [of _ "k - 1"])
    qed
  next
    case 3
    then show ?thesis using assms(5) [OF t] by simp
  qed
qed (use assms(1) in \<open>simp_all add: ALLOC_FUEL_def\<close>)

lemma alloc_size_ok:
  assumes "sholds c U (M(p \<mapsto> d)) (H(p \<mapsto> (h, fl))) (D(p := X)) s" "writable fl" "O_APPEND \<notin> fl"
    and "\<And>t d X. sholds c U (M(p \<mapsto> d)) (H(p \<mapsto> (h, fl))) (D(p := X)) t \<Longrightarrow> Q 4096 t"
  shows "wp (alloc_size K seek p h) Q s"
  unfolding alloc_size_def wp_bnd
proof (rule q_kstat [OF assms(1)], simp, unfold sum.case Let_def wp_bnd, goal_cases)
  case (1 t st)
  then have B: "4096 \<le> int (st_blksize st)" by (simp add: PAGE_SIZE_def)
  have "q_file c U M H D p h fl t" using 1(1) by blast
  then show ?case
  proof (rule alloc_double_ok [OF _ assms(2,3) B])
    fix t'
    assume "q_file c U M H D p h fl t'"
    then show "wp (alloc_bisect K seek h (int (st_blksize st)) (4096, 4096))
        (\<lambda>a. wp (case a of (pos, offset, shift) \<Rightarrow> ret (if shift = 0 then offset + (if pos \<noteq> 0 then 0 else 1) else offset)) Q) t'"
      by (rule alloc_bisect_ok [OF _ assms(2,3) B]) (use assms(4) in auto)
  qed
qed

end

end
