(* ===== verification/Gen286.thy ===== *)
theory Gen286
  imports Seeks
begin

text \<open>
  \<open>kunit/xfstests/generic/286.c\<close>: a sparse file is copied extent by extent, as \<open>SEEK_DATA\<close> and
  \<open>SEEK_HOLE\<close> find them; the walk sees the three islands, and the copy is equal to the source.
  Neither loop has a bound in the source; a turn of either moves on by at least one byte of a
  file of \<open>G286_SZ\<close> bytes, so \<open>G286_FUEL\<close> turns are enough.
\<close>

definition G286_ROOT :: string where "G286_ROOT = XFS_MNT @ ''/g286''"
definition G286_SZ :: nat where "G286_SZ = 256 * 1024"
definition G286_ISLAND_SZ :: nat where "G286_ISLAND_SZ = 8192"
definition g286_islands :: "int list" where "g286_islands = [0, 100 * 1024, 200 * 1024]"
definition G286_FUEL :: nat where "G286_FUEL = G286_SZ + 1"

definition g286_remove_tree :: "'w kernel \<Rightarrow> (('w, 'z) kst_scheme, unit) prog" where
  "g286_remove_tree K = seq [
     ignore (xfs_unlink K (G286_ROOT @ ''/src'')),
     ignore (xfs_unlink K (G286_ROOT @ ''/dst'')),
     ignore (xfs_rmdir K G286_ROOT)]"

text \<open>The inner loop: an extent, a chunk at a time.\<close>

definition g286_copy_extent :: "'w kernel \<Rightarrow> nat \<Rightarrow> nat \<Rightarrow> int \<Rightarrow> int \<Rightarrow> (('w, 'z) kst_scheme, unit) prog" where
  "g286_copy_extent K fin fout data hole = loop_fuel G286_FUEL (\<lambda>data.
     if data < hole then
       (let chunk = nat (min (hole - data) (int G286_ISLAND_SZ)) in
        bnd (kcall (kernel_read K fin chunk data)) (\<lambda>(n, buf, _).
        bnd (kunit_assert (n = int chunk)) (\<lambda>_.
        bnd (must_ret (kcall (kernel_write K fout buf data)) (\<lambda>(n, _). n = int chunk)) (\<lambda>_.
        ret (Inl (data + int chunk))))))
     else ret (Inr ())) data"

text \<open>The walk; its result is the number of extents.\<close>

definition g286_walk ::
  "'w kernel \<Rightarrow> (nat \<Rightarrow> int \<Rightarrow> whence \<Rightarrow> 'w \<Rightarrow> int \<times> 'w) \<Rightarrow> nat \<Rightarrow> nat \<Rightarrow> (('w, 'z) kst_scheme, nat) prog" where
  "g286_walk K seek fin fout = loop_fuel G286_FUEL (\<lambda>(pos, islands).
     bnd (kcall (seek fin pos SEEK_DATA)) (\<lambda>data.
       if data = - ENXIO then ret (Inr islands)
       else bnd (kunit_assert (0 \<le> data)) (\<lambda>_.
         bnd (kcall (seek fin data SEEK_HOLE)) (\<lambda>hole.
         bnd (kunit_assert (data < hole)) (\<lambda>_.
         bnd (g286_copy_extent K fin fout data hole) (\<lambda>_.
         ret (Inl (hole, Suc islands)))))))) (0, 0)"

definition seek_walk_copies_sparse_files_faithfully ::
  "'w kernel \<Rightarrow> (nat \<Rightarrow> int \<Rightarrow> whence \<Rightarrow> 'w \<Rightarrow> int \<times> 'w) \<Rightarrow> (('w, 'z) fxs_scheme, unit) prog" where
  "seek_walk_copies_sparse_files_faithfully K seek = (let src = G286_ROOT @ ''/src''; dst = G286_ROOT @ ''/dst'' in seq [
     test_prologue K G286_ROOT ''g286_remove_tree'' (g286_remove_tree K),
     must_alloc K G286_ISLAND_SZ,
     must_open (kcall (filp_open K src {O_RDWR, O_CREAT, O_EXCL} (mode3 6 4 4))) (\<lambda>fin. seq [
       for_each [0..<length g286_islands] (\<lambda>i.
         must_ret (kcall (kernel_write K fin (replicate G286_ISLAND_SZ (0xB0 + of_nat i)) (g286_islands ! i)))
           (\<lambda>(n, _). n = int G286_ISLAND_SZ)),
       must (xfs_truncate K src (int G286_SZ)),
       must (kcall (vfs_fsync K fin)),
       must_open (kcall (filp_open K dst {O_RDWR, O_CREAT, O_EXCL} (mode3 6 4 4))) (\<lambda>fout.
         bnd (g286_walk K seek fin fout) (\<lambda>islands. seq [
           must (xfs_truncate K dst (int G286_SZ)),
           kdo (filp_close K fin),
           kdo (filp_close K fout),
           kunit_expect (islands = length g286_islands)]))]),
     must_alloc2 K G286_SZ G286_SZ,
     bnd (xfs_read_range K src G286_SZ 0) (\<lambda>(n, a). seq [
       kunit_assert (n = int G286_SZ),
       bnd (xfs_read_range K dst G286_SZ 0) (\<lambda>(n, b). seq [
         kunit_assert (n = int G286_SZ),
         kunit_expect (a = b)])])])"

definition g286_suite :: "'w kernel \<Rightarrow> (nat \<Rightarrow> int \<Rightarrow> whence \<Rightarrow> 'w \<Rightarrow> int \<times> 'w) \<Rightarrow> ('w, 'z) fxs_scheme suite" where
  "g286_suite K seek = nfs_suite K ''xfstests/generic/286''
     [(''seek_walk_copies_sparse_files_faithfully'', seek_walk_copies_sparse_files_faithfully K seek)]"

section \<open>The source\<close>

definition g286_src :: "byte list" where
  "g286_src = resize 262144 (write_at 204800 (replicate 8192 0xB2) (write_at 102400 (replicate 8192 0xB1)
     (write_at 0 (replicate 8192 0xB0) [])))"

definition g286_pages :: "nat set" where "g286_pages = {0..1} \<union> {25..26} \<union> {50..51}"

text \<open>Where the walk finds the three extents, and where it ends.\<close>

definition g286_data :: "nat \<Rightarrow> nat" where "g286_data k = [0, 102400, 204800] ! k"
definition g286_hole :: "nat \<Rightarrow> nat" where "g286_hole k = [0, 8192, 110592, 212992] ! k"

lemma length_g286_src [simp]: "length g286_src = 262144"
  by (simp add: g286_src_def)

lemma g286_three: "k < 3 \<longleftrightarrow> k = 0 \<or> k = 1 \<or> k = (2 :: nat)"
  by auto

lemma g286_at: "i < 262144 \<Longrightarrow> \<forall>k<3. \<not> (g286_data k \<le> i \<and> i < g286_hole (Suc k)) \<Longrightarrow> g286_src ! i = 0"
  by (auto simp: g286_src_def nth_resize nth_write_at g286_data_def g286_hole_def g286_three)

lemma g286_page: "i div PAGE_SIZE \<in> g286_pages \<longleftrightarrow> i < 8192 \<or> 102400 \<le> i \<and> i < 110592 \<or> 204800 \<le> i \<and> i < 212992"
  unfolding g286_pages_def Un_iff atLeastAtMost_iff page_bounds by (auto simp: PAGE_SIZE_def)

lemma g286_seek:
  "k < 3 \<Longrightarrow> seek_in g286_pages 262144 (int (g286_hole k)) SEEK_DATA = int (g286_data k)"
  "k < 3 \<Longrightarrow> seek_in g286_pages 262144 (int (g286_data k)) SEEK_HOLE = int (g286_hole (Suc k))"
  "seek_in g286_pages 262144 (int (g286_hole 3)) SEEK_DATA = - ENXIO"
proof -
  show "seek_in g286_pages 262144 (int (g286_hole k)) SEEK_DATA = int (g286_data k)" if "k < 3"
    by (rule seek_data) (use that in \<open>auto simp: g286_three g286_page g286_hole_def g286_data_def\<close>)
  show "seek_in g286_pages 262144 (int (g286_data k)) SEEK_HOLE = int (g286_hole (Suc k))" if "k < 3"
    by (rule seek_hole) (use that in \<open>auto simp: g286_three g286_page g286_hole_def g286_data_def\<close>)
  show "seek_in g286_pages 262144 (int (g286_hole 3)) SEEK_DATA = - ENXIO"
    by (rule seek_no_data) (auto simp: g286_page g286_hole_def numeral_3_eq_3)
qed

text \<open>Writing the next piece behind a gap of zeros extends a prefix.\<close>

lemma prefix_step:
  assumes "a \<le> x" "0 < n" "x + n \<le> length S" "\<And>i. a \<le> i \<Longrightarrow> i < x \<Longrightarrow> S ! i = 0"
  shows "write_at x (read_at x n S) (take a S) = take (x + n) S"
proof (rule nth_equalityI)
  have len: "length (read_at x n S) = n" using assms(3) by simp
  then have ne: "read_at x n S \<noteq> []" using assms(2) by (metis less_irrefl list.size(3))
  show l: "length (write_at x (read_at x n S) (take a S)) = length (take (x + n) S)"
    using assms(1,3) ne len by simp
  show "write_at x (read_at x n S) (take a S) ! i = take (x + n) S ! i"
    if i: "i < length (write_at x (read_at x n S) (take a S))" for i
  proof -
    have lt: "i < x + n" using i l assms(3) by simp
    show ?thesis
      using lt assms len by (subst nth_write_at [OF i]) (auto simp: nth_read_at)
  qed
qed

lemma g286_step:
  assumes "k < 3"
  shows "write_at (g286_data k) (read_at (g286_data k) 8192 g286_src) (take (g286_hole k) g286_src) = take (g286_hole (Suc k)) g286_src"
proof -
  have "g286_hole k \<le> g286_data k" "g286_data k + 8192 = g286_hole (Suc k)" "g286_hole (Suc k) \<le> 262144"
    using assms by (auto simp: g286_three g286_hole_def g286_data_def)
  moreover have "g286_src ! i = 0" if "g286_hole k \<le> i" "i < g286_data k" for i
    by (rule g286_at) (use that assms in \<open>auto simp: g286_three g286_hole_def g286_data_def\<close>)
  ultimately show ?thesis using prefix_step [of "g286_hole k" "g286_data k" 8192 g286_src] by simp
qed

lemma g286_end: "resize 262144 (take (g286_hole 3) g286_src) = g286_src"
proof (rule nth_equalityI)
  have h: "g286_hole 3 = 212992" by (simp add: g286_hole_def numeral_3_eq_3)
  show "resize 262144 (take (g286_hole 3) g286_src) ! i = g286_src ! i" if "i < length (resize 262144 (take (g286_hole 3) g286_src))" for i
    using that g286_at [of i] by (auto simp: nth_resize h g286_hole_def g286_three)
qed simp

section \<open>The case\<close>

context seeking
begin

abbreviation (input) g286_pair where
  "g286_pair c U D hi fi ho fo d t \<equiv> \<exists>Y. sholds c U [G286_ROOT @ ''/src'' \<mapsto> g286_src, G286_ROOT @ ''/dst'' \<mapsto> d]
     [G286_ROOT @ ''/src'' \<mapsto> (hi, fi), G286_ROOT @ ''/dst'' \<mapsto> (ho, fo)]
     (D(G286_ROOT @ ''/src'' := g286_pages, G286_ROOT @ ''/dst'' := Y)) t"

lemma g286_look:
  assumes "sholds c U [G286_ROOT @ ''/src'' \<mapsto> g286_src, G286_ROOT @ ''/dst'' \<mapsto> d]
     [G286_ROOT @ ''/src'' \<mapsto> (hi, fi), G286_ROOT @ ''/dst'' \<mapsto> (ho, fo)]
     (D(G286_ROOT @ ''/src'' := g286_pages, G286_ROOT @ ''/dst'' := Y)) s" "wh \<noteq> SEEK_SET"
    and "\<And>t. sholds c U [G286_ROOT @ ''/src'' \<mapsto> g286_src, G286_ROOT @ ''/dst'' \<mapsto> d]
     [G286_ROOT @ ''/src'' \<mapsto> (hi, fi), G286_ROOT @ ''/dst'' \<mapsto> (ho, fo)]
     (D(G286_ROOT @ ''/src'' := g286_pages, G286_ROOT @ ''/dst'' := Y)) t \<Longrightarrow> Q (seek_in g286_pages 262144 off wh) t"
  shows "wp (kcall (seek hi off wh)) Q s"
  by (rule q_seek [where p = "G286_ROOT @ ''/src''" and d = g286_src and fl = fi, OF assms(1) _ _ assms(2)])
    (use assms(3) in simp_all)

lemma g286_extent_ok:
  assumes "g286_pair c U D hi fi ho fo (take (g286_hole k) g286_src) s" "k < 3" "readable fi" "writable fo" "O_APPEND \<notin> fo"
    and "\<And>t. g286_pair c U D hi fi ho fo (take (g286_hole (Suc k)) g286_src) t \<Longrightarrow> Q () t"
  shows "wp (g286_copy_extent K hi ho (int (g286_data k)) (int (g286_hole (Suc k)))) Q s"
  unfolding g286_copy_extent_def
proof (rule wp_loop_turns [where k = 1 and I = "\<lambda>j x t. j \<le> 1 \<and> (if j = 1
    then x = int (g286_data k) \<and> g286_pair c U D hi fi ho fo (take (g286_hole k) g286_src) t
    else x = int (g286_hole (Suc k)) \<and> g286_pair c U D hi fi ho fo (take (g286_hole (Suc k)) g286_src) t)"], goal_cases)
  case (3 j x t)
  show ?case
  proof (cases "j = 1")
    case True
    have b: "int (g286_hole (Suc k)) - int (g286_data k) = 8192" "g286_data k + 8192 \<le> 262144"
      using assms(2) by (auto simp: g286_three g286_hole_def g286_data_def)
    then have b': "g286_data k < g286_hole (Suc k)" "int (g286_data k) + 8192 = int (g286_hole (Suc k))" by linarith+
    let ?b = "read_at (g286_data k) 8192 g286_src"
    have len: "length ?b = 8192" using b(2) by simp
    obtain Y where t: "x = int (g286_data k)"
      "sholds c U [G286_ROOT @ ''/src'' \<mapsto> g286_src, G286_ROOT @ ''/dst'' \<mapsto> take (g286_hole k) g286_src]
        [G286_ROOT @ ''/src'' \<mapsto> (hi, fi), G286_ROOT @ ''/dst'' \<mapsto> (ho, fo)]
        (D(G286_ROOT @ ''/src'' := g286_pages, G286_ROOT @ ''/dst'' := Y)) t"
      using 3 True by auto
    have rd: "wp (kcall (kernel_read K hi 8192 (int (g286_data k)))) (\<lambda>(n, buf, _) u. n = 8192 \<and>
        wp (kcall (kernel_write K ho buf (int (g286_data k)))) (\<lambda>(n, _) v. n = 8192 \<and>
          g286_pair c U D hi fi ho fo (take (g286_hole (Suc k)) g286_src) v) u) t"
    proof (rule q_read [where p = "G286_ROOT @ ''/src''" and d = g286_src and fl = fi, OF t(2)], goal_cases)
      case (6 u b)
      then have buf: "b = ?b" by simp
      have "wp (kcall (kernel_write K ho ?b (int (g286_data k)))) (\<lambda>(n, _) v. n = 8192 \<and>
          g286_pair c U D hi fi ho fo (take (g286_hole (Suc k)) g286_src) v) u"
        by (rule q_write [where p = "G286_ROOT @ ''/dst''" and d = "take (g286_hole k) g286_src" and fl = fo, OF 6(1)])
          (use assms(4,5) b(2) len g286_step [OF assms(2)] in \<open>auto simp: size_limit_def\<close>)
      then show ?case by (simp only: buf len prod.case simp_thms of_nat_numeral)
    qed (use assms(3) b(2) in \<open>simp_all add: size_limit_def\<close>)
    have m: "nat (min (int (g286_hole (Suc k)) - int (g286_data k)) (int G286_ISLAND_SZ)) = 8192"
      using b(1) by (simp add: G286_ISLAND_SZ_def)
    have go: "int (g286_data k) < int (g286_hole (Suc k))" using b'(1) by simp
    show ?thesis
      unfolding t(1) if_P [OF go] Let_def m wp_bnd
      by (rule wp_mono [OF rd], clarsimp, erule wp_mono, clarsimp, intro exI [of _ "0 :: nat"], use True b'(2) in auto)

  next
    case False
    then show ?thesis using 3 assms(6) by auto
  qed
qed (use assms(1) in \<open>simp_all add: G286_FUEL_def G286_SZ_def\<close>)

text \<open>The walk sees the three extents in order and then the end.\<close>

lemma g286_walk_ok:
  assumes "g286_pair c U D hi fi ho fo [] s" "readable fi" "writable fo" "O_APPEND \<notin> fo"
    and "\<And>t. g286_pair c U D hi fi ho fo (take (g286_hole 3) g286_src) t \<Longrightarrow> Q 3 t"
  shows "wp (g286_walk K seek hi ho) Q s"
  unfolding g286_walk_def
proof (rule wp_loop_turns [where k = 3 and I = "\<lambda>j l t. j \<le> 3 \<and> l = (int (g286_hole (3 - j)), 3 - j) \<and>
    g286_pair c U D hi fi ho fo (take (g286_hole (3 - j)) g286_src) t"], goal_cases)
  case 1
  show ?case using assms(1) by (simp add: g286_hole_def)
next
  case (3 j l t)
  define k where "k = 3 - j"
  obtain Y where t: "sholds c U [G286_ROOT @ ''/src'' \<mapsto> g286_src, G286_ROOT @ ''/dst'' \<mapsto> take (g286_hole k) g286_src]
        [G286_ROOT @ ''/src'' \<mapsto> (hi, fi), G286_ROOT @ ''/dst'' \<mapsto> (ho, fo)]
        (D(G286_ROOT @ ''/src'' := g286_pages, G286_ROOT @ ''/dst'' := Y)) t" and l: "l = (int (g286_hole k), k)" and j: "j \<le> 3"
    using 3 by (auto simp: k_def)
  note look = g286_look [where D = D and c = c and U = U and hi = hi and fi = fi and ho = ho and fo = fo]
  show ?case
  proof (cases "k < 3")
    case True
    then have d: "int (g286_data k) \<noteq> - ENXIO" "g286_data k < g286_hole (Suc k)" "3 - (j - Suc 0) = Suc k" "0 < j" "j - Suc 0 \<le> 3"
      using j by (auto simp: ENXIO_def k_def) (auto simp: g286_three g286_hole_def g286_data_def k_def)
    have "wp (kcall (seek hi (int (g286_hole k)) SEEK_DATA)) (\<lambda>data u. data = int (g286_data k) \<and>
        wp (kcall (seek hi data SEEK_HOLE)) (\<lambda>hole v. hole = int (g286_hole (Suc k)) \<and>
          wp (g286_copy_extent K hi ho data hole) (\<lambda>_. g286_pair c U D hi fi ho fo (take (g286_hole (Suc k)) g286_src)) v) u) t"
      apply (rule look [OF t], simp)
      apply (simp only: g286_seek(1) [OF True] simp_thms)
      apply (erule look, simp)
      apply (simp only: g286_seek(2) [OF True] simp_thms)
      apply (rule g286_extent_ok [OF _ True assms(2-4)], blast, assumption)
      done
    then show ?thesis
      by (simp add: l) (elim wp_mono, auto simp: d elim!: wp_mono intro!: exI [of _ "j - 1"])
  next
    case False
    then have k: "k = 3" by (simp add: k_def)
    show ?thesis
      unfolding l k prod.case wp_bnd
      by (rule look [OF t], simp) (simp only: g286_seek(3) simp_thms if_True wp_ret sum.case, rule assms(5), use k in blast)
  qed
qed (simp add: G286_FUEL_def G286_SZ_def)

lemma g286_fill_ok:
  assumes "sholds c U (Map.empty(G286_ROOT @ ''/src'' \<mapsto> [])) [G286_ROOT @ ''/src'' \<mapsto> (h, fl)] (D(G286_ROOT @ ''/src'' := {})) s"
    and "writable fl" "O_APPEND \<notin> fl"
    and "\<And>t. sholds c U [G286_ROOT @ ''/src'' \<mapsto> write_at 204800 (replicate 8192 0xB2) (write_at 102400 (replicate 8192 0xB1)
        (write_at 0 (replicate 8192 0xB0) []))] [G286_ROOT @ ''/src'' \<mapsto> (h, fl)] (D(G286_ROOT @ ''/src'' := g286_pages)) t \<Longrightarrow> Q () t"
  shows "wp (for_each [0..<length g286_islands] (\<lambda>i.
         must_ret (kcall (kernel_write K h (replicate G286_ISLAND_SZ (0xB0 + of_nat i)) (g286_islands ! i)))
           (\<lambda>(n, _). n = int G286_ISLAND_SZ))) Q s"
proof -
  have l: "[0..<length g286_islands] = [0, 1, 2]" by (simp add: g286_islands_def upt_rec)
  have at: "g286_islands ! 0 = 0" "g286_islands ! 1 = 102400" "g286_islands ! 2 = 204800"
    by (simp_all add: g286_islands_def)
  have v: "(0xB0 :: byte) + of_nat 0 = 0xB0" "(0xB0 :: byte) + of_nat 1 = 0xB1" "(0xB0 :: byte) + of_nat 2 = 0xB2" by simp_all
  have pg: "{} \<union> pages 0 8192 \<union> pages 102400 8192 \<union> pages 204800 8192 = g286_pages"
    by (simp add: pages_def g286_pages_def PAGE_SIZE_def)
  show ?thesis
    unfolding l for_each_def list.map at v G286_ISLAND_SZ_def
    apply (simp only: wp_steps)
    apply (rule q_write_same [OF assms(1-3)], simp, simp add: size_limit_def, simp only: prod.case length_replicate, intro conjI, simp)
    apply (erule q_write_same [OF _ assms(2,3)], simp, simp add: size_limit_def, simp only: prod.case length_replicate, intro conjI, simp)
    apply (erule q_write_same [OF _ assms(2,3)], simp, simp add: size_limit_def, simp only: prod.case length_replicate, intro conjI, simp)
    apply (simp only: nat_0 nat_numeral pg)
    apply (erule assms(4))
    done
qed

lemma g286_run_ok:
  assumes "ready V ok G286_ROOT s"
  shows "passes (seek_walk_copies_sparse_files_faithfully K seek) s"
proof -
  let ?U = "{G286_ROOT @ ''/src'', G286_ROOT @ ''/dst''}"
  let ?c = "(kfails s, ''g286_remove_tree'' # kactions s, kst.more s)"
  have U: "\<exists>b. p = G286_ROOT @ CHR ''/'' # b \<and> CHR ''/'' \<notin> set b" if "p \<in> ?U" for p using that by auto
  have sz: "int G286_SZ = 262144" "G286_SZ = 262144" "length g286_islands = 3" by (simp_all add: G286_SZ_def g286_islands_def)
  have pg: "g286_pages \<inter> pages_below 262144 = g286_pages"
    by (auto simp: g286_pages_def pages_below_def PAGE_SIZE_def)
  have rd: "read_at (nat 0) 262144 g286_src = g286_src" by (simp add: read_at_0)
  have after: "wp (seq [must_alloc2 K G286_SZ G286_SZ,
     bnd (xfs_read_range K (G286_ROOT @ ''/src'') G286_SZ 0) (\<lambda>(n, a). seq [
       kunit_assert (n = int G286_SZ),
       bnd (xfs_read_range K (G286_ROOT @ ''/dst'') G286_SZ 0) (\<lambda>(n, b). seq [
         kunit_assert (n = int G286_SZ),
         kunit_expect (a = b)])])]) (\<lambda>_ t. kfails t = kfails s) t"
    if t: "holds ?c ?U [G286_ROOT @ ''/src'' \<mapsto> g286_src, G286_ROOT @ ''/dst'' \<mapsto> g286_src] Map.empty t" for t
    unfolding sz
    apply (simp only: wp_steps)
    apply (rule h_alloc2 [OF t])
    apply (erule h_read_range [where p = "G286_ROOT @ ''/src''" and d = g286_src], simp, simp, simp add: size_limit_def)
    apply (hypsubst, simp only: wp_steps rd length_g286_src)
    apply (erule h_read_range [where p = "G286_ROOT @ ''/dst''" and d = g286_src], simp, simp, simp add: size_limit_def)
    apply (hypsubst, simp only: wp_steps rd length_g286_src)
    apply (drule holds_fails, simp)
    done
  show ?thesis
    unfolding passes_def seek_walk_copies_sparse_files_faithfully_def Let_def
    apply (simp only: wp_steps)
    apply (rule q_prologue [where D = "\<lambda>_. {}", OF assms U], assumption)
    apply (erule q_alloc)
    apply (erule q_create, simp, simp, simp)
    apply (simp only: wp_steps)
    apply (erule g286_fill_ok, simp, simp)
    apply (erule q_truncate_same, simp, simp add: sz size_limit_def, intro conjI refl)
    apply (erule q_fsync_same, intro conjI refl)
    apply (simp only: sz nat_int g286_src_def [symmetric] pg)
    apply (erule q_create, simp, simp, simp)
    apply (simp only: wp_steps)
    apply (rule g286_walk_ok [where D = "\<lambda>_. {}"], erule exI, simp add: readable_def, simp, simp)
    apply (thin_tac "sholds _ _ _ _ _ _", simp only: wp_steps, elim exE)
    apply (erule q_truncate [where p = "G286_ROOT @ ''/dst''"], simp, simp, simp add: size_limit_def, intro conjI refl)
    apply (simp only: nat_int g286_end)
    apply (erule q_close [where p = "G286_ROOT @ ''/src''"], simp, simp)
    apply (erule q_close [where p = "G286_ROOT @ ''/dst''"], simp, simp)
    apply (rule wp_kunit_expectI, simp)
    apply (rule after [unfolded wp_steps sz])
    apply (drule sholdsD(1), simp add: fun_upd_idem fun_upd_twist)
    done
qed

end

end
