(* ===== verification/Gen337.thy ===== *)
theory Gen337
  imports Xattrs
begin

text \<open>
  \<open>kunit/xfstests/generic/337.c\<close>: five attributes, three of them with names that collide
  under crc32c; the list has every one and nothing else, on the client and on the server,
  and each value belongs to its name.
\<close>

definition G337_ROOT :: string where "G337_ROOT = XFS_MNT @ ''/g337''"
definition G337_FILE :: string where "G337_FILE = G337_ROOT @ ''/testfile''"
definition G337_SERVER :: string where "G337_SERVER = XFS_EXPORT @ ''/g337/testfile''"

definition g337_xattrs :: "(string \<times> string) list" where
  \<comment> \<open>name and value\<close>
  "g337_xattrs = [
     (''user.foobar'', ''123''),
     (''user.WvG1c1Td'', ''qwerty''),
     (''user.J3__T_Km3dVsW_'', ''hello''),
     (''user.something'', ''pizza''),
     (''user.ping'', ''pong'')]"

definition g337_remove_tree :: "'w kernel \<Rightarrow> (('w, 'z) kst_scheme, unit) prog" where
  "g337_remove_tree K = seq [ignore (xfs_unlink K G337_FILE), ignore (xfs_rmdir_settled K G337_ROOT)]"

definition g337_listed :: "string \<Rightarrow> string \<Rightarrow> bool" where
  "g337_listed list name = (name \<in> set (nul_names list))"

definition g337_check_list :: "'w kernel \<Rightarrow> string \<Rightarrow> (('w, 'z) kst_scheme, unit) prog" where
  "g337_check_list K path = bnd (must_alloc K PAGE_SIZE) (\<lambda>_.
     bnd (xfs_listxattr K path PAGE_SIZE) (\<lambda>(len, list). seq [
       kunit_assert (len > 0),
       for_each g337_xattrs (\<lambda>x. kunit_expect (g337_listed list (fst x))),
       kunit_expect (length (nul_names list) = length g337_xattrs)]))"

definition listxattr_returns_every_name :: "'w kernel \<Rightarrow> (('w, 'z) fxs_scheme, unit) prog" where
  "listxattr_returns_every_name K = seq [
     test_prologue K G337_ROOT ''g337_remove_tree'' (g337_remove_tree K),
     must (xfs_write_new_file K G337_FILE []),
     for_each g337_xattrs (\<lambda>x. must (xfs_setxattr K G337_FILE (fst x) (snd x) 0)),
     g337_check_list K G337_FILE,
     g337_check_list K G337_SERVER,
     for_each g337_xattrs (\<lambda>x. bnd (xfs_getxattr K G337_FILE (fst x) 16) (\<lambda>(len, val). seq [
       kunit_assert (len = int (length (snd x))),
       kunit_expect (take (nat len) val = snd x)]))]"

definition g337_suite :: "'w kernel \<Rightarrow> ('w, 'z) fxs_scheme suite" where
  "g337_suite K = nfs_suite K ''xfstests/generic/337''
     [(''listxattr_returns_every_name'', listxattr_returns_every_name K)]"

section \<open>The list is the table\<close>

lemma g337_table:
  "distinct (map fst g337_xattrs)" "\<forall>e\<in>set g337_xattrs. length (snd e) \<le> 65536"
  "\<forall>e\<in>set g337_xattrs. length (snd e) \<le> 16" "\<forall>n\<in>dom (map_of g337_xattrs). NUL \<notin> set n"
  "list_size (map_of g337_xattrs) \<le> PAGE_SIZE" "0 < list_size (map_of g337_xattrs)"
  by (simp_all add: g337_xattrs_def list_size_def PAGE_SIZE_def)

context exported
begin

lemma g337_looks: "looks G337_FILE G337_FILE" "looks G337_SERVER G337_FILE"
  using looks_self looks_server [of "''/g337/testfile''"]
  by (simp_all add: G337_FILE_def G337_ROOT_def G337_SERVER_def)

lemma g337_check_ok:
  assumes "xholds c U (X(p \<mapsto> map_of g337_xattrs)) s" "looks q p"
    and "\<And>t. xholds c U (X(p \<mapsto> map_of g337_xattrs)) t \<Longrightarrow> Q () t"
  shows "wp (g337_check_list K q) Q s"
  unfolding g337_check_list_def wp_steps
proof (rule x_alloc [OF assms(1)], erule x_list_at [OF _ assms(2) g337_table(5,4)], unfold wp_steps, goal_cases)
  case (1 t t' dx)
  have "length (nul_names dx) = length g337_xattrs"
    using 1(3) g337_table(1) by (simp add: dom_map_of_conv_image_fst card_image distinct_map distinct_card)
  moreover have "g337_listed dx (fst e)" if "e \<in> set g337_xattrs" for e
    using 1(2) that by (simp add: g337_listed_def dom_map_of_conv_image_fst)
  ultimately show ?case
    using g337_table(6) 1(1) assms(3)
    by (intro conjI x_for_each [where kvs = g337_xattrs, OF 1(1)]) (auto simp: wp_kunit_expect)
qed

lemma g337_run_ok:
  assumes "ready V ok G337_ROOT s"
  shows "passes (listxattr_returns_every_name K) s"
  unfolding passes_def listxattr_returns_every_name_def
  apply (simp only: wp_steps)
  apply (rule x_prologue [where U = "{G337_FILE}", OF assms], simp add: G337_FILE_def)
  apply (erule x_write_new, simp, simp, simp add: size_limit_def)
  apply (intro conjI refl)
  apply (erule x_set_table [OF _ g337_looks(1) g337_table(1,2)])
  apply (erule g337_check_ok, rule g337_looks)+
  apply (erule x_for_each, simp only: wp_steps)
   apply (erule x_get_table, rule g337_looks, rule g337_table, assumption, simp add: g337_table(3))
   apply (simp only: wp_steps, rule wp_kunit_expectI, simp, assumption)
  apply (drule xholds_fails, simp)
  done

end

end
