(* ===== verification/Gen360.thy ===== *)
theory Gen360
  imports Symlinks
begin

text \<open>
  \<open>kunit/xfstests/generic/360.c\<close>: a symbolic link whose target has 1019 characters comes back
  unchanged, and the link has that size.  \<open>kzalloc\<close> of the two buffers is a \<open>kmalloc\<close>; the
  byte that differs first, which the C code looks for, is the first difference of the two
  strings.
\<close>

definition G360_ROOT :: string where "G360_ROOT = XFS_MNT @ ''/g360''"
definition G360_LINK :: string where "G360_LINK = G360_ROOT @ ''/360.symlink''"
definition G360_COMP :: nat where "G360_COMP = 254"
definition G360_COMPS :: nat where "G360_COMPS = 4"
definition G360_LEN :: nat where "G360_LEN = G360_COMPS * G360_COMP + (G360_COMPS - 1)"

definition g360_remove_tree :: "'w kernel \<Rightarrow> (('w, 'z) kst_scheme, unit) prog" where
  "g360_remove_tree K = seq [ignore (xfs_unlink K G360_LINK), ignore (xfs_rmdir K G360_ROOT)]"

text \<open>The target: the components one after the other, a slash before all but the first.\<close>

definition g360_target :: string where
  "g360_target = foldl (\<lambda>t c. t @ (if c = 0 then [] else ''/'') @ replicate G360_COMP (CHR ''a'')) [] [0..<G360_COMPS]"

definition long_symlink_targets_round_trip :: "'w kernel \<Rightarrow> (('w, 'z) fxs_scheme, unit) prog" where
  "long_symlink_targets_round_trip K = seq [
     test_prologue K G360_ROOT ''g360_remove_tree'' (g360_remove_tree K),
     must_alloc2 K (G360_LEN + 1) (G360_LEN + 2),
     kunit_assert (length g360_target = G360_LEN),
     must (xfs_symlink K g360_target G360_LINK),
     bnd (xfs_readlink K G360_LINK (G360_LEN + 2)) (\<lambda>(n, back). seq [
       kunit_assert (n = int G360_LEN),
       (if back \<noteq> Some g360_target then kunit_fail
        else expect_stat K G360_LINK (\<lambda>st. st_size st = int G360_LEN))])]"

definition g360_suite :: "'w kernel \<Rightarrow> ('w, 'z) fxs_scheme suite" where
  "g360_suite K = nfs_suite K ''xfstests/generic/360''
     [(''long_symlink_targets_round_trip'', long_symlink_targets_round_trip K)]"

lemma length_g360_target: "length g360_target = G360_LEN"
  by (simp add: g360_target_def G360_LEN_def G360_COMP_def G360_COMPS_def upt_rec)

context symlinks
begin

lemma g360_run_ok:
  assumes "ready V ok G360_ROOT s"
  shows "passes (long_symlink_targets_round_trip K) s"
proof -
  note ev = G360_LINK_def G360_ROOT_def XFS_MNT_def beneath_def dirname_def t_dir_def
  show ?thesis
    unfolding passes_def long_symlink_targets_round_trip_def
    apply (simp only: wp_steps length_g360_target)
    apply (rule t_prologue [OF assms], simp add: ev)
    apply (erule t_alloc2)
    apply (erule t_symlink, simp add: ev, simp add: ev, intro conjI refl)
    apply (erule t_readlink, simp, simp add: length_g360_target)
    apply (simp only: wp_steps length_g360_target)
    apply (rule wp_expect_stat, erule t_stat, simp)
    apply (simp add: length_g360_target, drule tholds_fails, simp)
    done
qed

end

end
