(* ===== verification/Gen377.thy ===== *)
theory Gen377
  imports Xattrs
begin

text \<open>
  \<open>kunit/xfstests/generic/377.c\<close>: listxattr with awkward buffer sizes.  The size probe gives
  the exact size of the list, every buffer too small for all of it is refused, and a missing
  file has no list.
\<close>

definition G377_ROOT :: string where "G377_ROOT = XFS_MNT @ ''/g377''"
definition G377_FILE :: string where "G377_FILE = G377_ROOT @ ''/testfile''"
definition G377_MISSING :: string where "G377_MISSING = G377_ROOT @ ''/no-such-file''"

definition g377_xattrs :: "(string \<times> string) list" where
  "g377_xattrs = [(''user.foo'', ''bar''), (''user.ping'', ''pong''), (''user.hello'', ''there'')]"

definition g377_remove_tree :: "'w kernel \<Rightarrow> (('w, 'z) kst_scheme, unit) prog" where
  "g377_remove_tree K = seq [ignore (xfs_unlink K G377_FILE), ignore (xfs_rmdir_settled K G377_ROOT)]"

definition g377_listed :: "string \<Rightarrow> string \<Rightarrow> bool" where
  "g377_listed list name = (name \<in> set (nul_names list))"

definition g377_set :: "'w kernel \<Rightarrow> nat \<Rightarrow> nat \<times> nat \<times> nat \<Rightarrow> (('w, 'z) kst_scheme, nat \<times> nat \<times> nat) prog" where
  \<comment> \<open>one turn of the loop; the locals are \<open>total\<close>, \<open>first_two\<close> and \<open>shortest\<close>\<close>
  "g377_set K i = (\<lambda>(total, first_two, shortest).
     let x = g377_xattrs ! i; n = length (fst x) + 1 in
     bnd (must (xfs_setxattr K G377_FILE (fst x) (snd x) 0)) (\<lambda>_.
     ret (total + n, if i < 2 then first_two + n else first_two, min shortest n)))"

definition listxattr_sizes_are_all_or_erange :: "'w kernel \<Rightarrow> (('w, 'z) fxs_scheme, unit) prog" where
  "listxattr_sizes_are_all_or_erange K = seq [
     test_prologue K G377_ROOT ''g377_remove_tree'' (g377_remove_tree K),
     must (xfs_write_new_file K G377_FILE []),
     bnd (for_fold [0..<length g377_xattrs] (g377_set K) (0, 0, 2 ^ 64 - 1)) (\<lambda>(total, first_two, shortest). seq [
       must_alloc K PAGE_SIZE,
       expect_ret (xfs_listxattr K G377_FILE 0) (\<lambda>(len, _). len = int total),
       expect_ret (xfs_listxattr K G377_MISSING PAGE_SIZE) (\<lambda>(len, _). len = - ENOENT),
       expect_ret (xfs_listxattr K G377_FILE 1) (\<lambda>(len, _). len = - ERANGE),
       expect_ret (xfs_listxattr K G377_FILE shortest) (\<lambda>(len, _). len = - ERANGE),
       expect_ret (xfs_listxattr K G377_FILE (first_two - 1)) (\<lambda>(len, _). len = - ERANGE),
       bnd (xfs_listxattr K G377_FILE PAGE_SIZE) (\<lambda>(len, list). seq [
         kunit_assert (len = int total),
         for_each g377_xattrs (\<lambda>x. kunit_expect (g377_listed list (fst x)))])])]"

definition g377_suite :: "'w kernel \<Rightarrow> ('w, 'z) fxs_scheme suite" where
  "g377_suite K = nfs_suite K ''xfstests/generic/377''
     [(''listxattr_sizes_are_all_or_erange'', listxattr_sizes_are_all_or_erange K)]"

section \<open>All or nothing\<close>

definition g377_table :: "string \<rightharpoonup> string" where
  "g377_table = [''user.foo'' \<mapsto> ''bar'', ''user.ping'' \<mapsto> ''pong'', ''user.hello'' \<mapsto> ''there'']"

lemma g377_sizes:
  "list_size g377_table = 30" "\<forall>n\<in>dom g377_table. NUL \<notin> set n" "fst ` set g377_xattrs = dom g377_table"
  by (auto simp: g377_table_def list_size_def g377_xattrs_def)

context posix_kernel
begin

lemma g377_sets_ok:
  assumes "xholds c U [G377_FILE \<mapsto> Map.empty] s"
    and "\<And>t. xholds c U [G377_FILE \<mapsto> g377_table] t \<Longrightarrow> Q (30, 19, 9) t"
  shows "wp (for_fold [0..<length g377_xattrs] (g377_set K) (0, 0, 2 ^ 64 - 1)) Q s"
proof -
  have u: "[0..<length g377_xattrs] = [0, 1, 2]" by (simp add: g377_xattrs_def upt_rec)
  have x: "g377_xattrs ! 0 = (''user.foo'', ''bar'')" "g377_xattrs ! 1 = (''user.ping'', ''pong'')"
    "g377_xattrs ! 2 = (''user.hello'', ''there'')" by (simp_all add: g377_xattrs_def)
  have final: "Q x t" if "xholds c U [G377_FILE \<mapsto> g377_table] t" "x = (30, 19, 9)" for x t
    using assms(2) that by simp
  show ?thesis
    unfolding u for_fold.simps g377_set_def Let_def x prod.case fst_conv snd_conv wp_steps
    apply (rule x_set_at [OF assms(1)], rule looks_self, simp, intro conjI refl)
    apply (erule x_set_at, rule looks_self, simp, intro conjI refl)
    apply (erule x_set_at, rule looks_self, simp, intro conjI refl)
    apply (erule final [unfolded g377_table_def], simp)
    done
qed

lemma g377_run_ok:
  assumes "ready V ok G377_ROOT s"
  shows "passes (listxattr_sizes_are_all_or_erange K) s"
proof -
  have miss: "G377_MISSING \<noteq> G377_FILE" by (simp add: G377_MISSING_def G377_FILE_def)
  have full: "wp (xfs_listxattr K G377_FILE sz) Q s" if "xholds c U [G377_FILE \<mapsto> g377_table] s"
    "\<And>t r dx. xholds c U [G377_FILE \<mapsto> g377_table] t \<Longrightarrow>
       r = (if sz = 0 \<or> 30 \<le> sz then 30 else - ERANGE) \<Longrightarrow> Q (r, dx) t" for c U sz Q s
    by (rule x_list [where p = G377_FILE and m = g377_table, OF that(1)])
      (use that(2) looks_self in \<open>auto simp: g377_sizes split: if_splits\<close>)
  show ?thesis
    unfolding passes_def listxattr_sizes_are_all_or_erange_def
    apply (simp only: wp_steps)
    apply (rule x_prologue [where U = "{G377_FILE, G377_MISSING}", OF assms],
        rule exI [of _ "if p = G377_FILE then ''testfile'' else ''no-such-file''" for p],
        simp add: G377_FILE_def G377_MISSING_def split: if_splits, blast)
    apply (erule x_write_new, simp, simp, simp add: size_limit_def)
    apply (intro conjI refl)
    apply (erule g377_sets_ok, simp only: wp_steps)
    apply (erule x_alloc)
    apply (rule wp_expect_retI, erule full, rule conjI, simp add: g377_sizes)
    apply (rule wp_expect_retI, erule x_list_absent, simp, simp add: miss, rule conjI, simp)
    apply (rule wp_expect_retI, erule full, rule conjI, simp add: g377_sizes)+
    apply (erule x_list_at, rule looks_self, simp add: g377_sizes PAGE_SIZE_def, rule g377_sizes)
    apply (simp only: wp_steps g377_sizes(1))
    apply (erule x_for_each, rule wp_kunit_expectI)
      apply (simp add: g377_listed_def flip: g377_sizes(3))
     apply assumption
    apply (drule xholds_fails, simp)
    done
qed

end

section \<open>Properties\<close>

end
