(* ===== verification/Gen393.thy ===== *)
theory Gen393
  imports Server
begin

text \<open>
  \<open>kunit/xfstests/generic/393.c\<close>: a file with old contents is truncated to zero and back up;
  everything reads as a hole, on the client and from the server's copy.  The read buffer's
  fill with \<open>0xff\<close> is not modelled: the scan runs only after a full read, which overwrites it.
\<close>

definition G393_ROOT :: string where "G393_ROOT = XFS_MNT @ ''/g393''"
definition G393_FILE :: string where "G393_FILE = G393_ROOT @ ''/testfile''"
definition G393_SERVER :: string where "G393_SERVER = XFS_EXPORT @ ''/g393/testfile''"
definition G393_WRITTEN :: nat where "G393_WRITTEN = 40"
definition G393_MAX :: nat where "G393_MAX = 4096"

definition g393_remove_tree :: "'w kernel \<Rightarrow> (('w, 'z) kst_scheme, unit) prog" where
  "g393_remove_tree K = seq [ignore (xfs_unlink K G393_FILE), ignore (xfs_rmdir_settled K G393_ROOT)]"

definition g393_all_zero :: "'w kernel \<Rightarrow> string \<Rightarrow> nat \<Rightarrow> (('w, 'z) kst_scheme, unit) prog" where
  "g393_all_zero K path sz = seq [
     expect_stat K path (\<lambda>st. st_size st = int sz),
     bnd (xfs_read_range K path sz 0) (\<lambda>(n, buf).
       bnd (kunit_assert (n = int sz)) (\<lambda>_.
       case first_diff (take sz buf) (replicate sz 0) of None \<Rightarrow> ret () | Some i \<Rightarrow> kunit_fail))]"

definition g393_one_round :: "'w kernel \<Rightarrow> nat \<Rightarrow> (('w, 'z) kst_scheme, unit) prog" where
  "g393_one_round K up = seq [
     ignore (xfs_unlink K G393_FILE),
     must_open (kcall (filp_open K G393_FILE {O_RDWR, O_CREAT, O_TRUNC} (mode3 6 4 4))) (\<lambda>f. seq [
       must_ret (kcall (kernel_write K f (replicate G393_WRITTEN 0x58) 0)) (\<lambda>(n, _). n = int G393_WRITTEN),
       must (kcall (vfs_fsync K f)),
       kdo (filp_close K f)]),
     must (xfs_truncate K G393_FILE 0),
     must (xfs_truncate K G393_FILE (int up)),
     g393_all_zero K G393_FILE up,
     g393_all_zero K G393_SERVER up]"

definition truncate_to_zero_then_up_reads_as_a_hole :: "'w kernel \<Rightarrow> (('w, 'z) fxs_scheme, unit) prog" where
  "truncate_to_zero_then_up_reads_as_a_hole K = seq [
     test_prologue K G393_ROOT ''g393_remove_tree'' (g393_remove_tree K),
     must_alloc K G393_MAX,
     g393_one_round K 50,
     g393_one_round K 4096]"

definition g393_suite :: "'w kernel \<Rightarrow> ('w, 'z) fxs_scheme suite" where
  "g393_suite K = nfs_suite K ''xfstests/generic/393''
     [(''truncate_to_zero_then_up_reads_as_a_hole'', truncate_to_zero_then_up_reads_as_a_hole K)]"

section \<open>Nothing of the old contents is left\<close>

context exported
begin

lemma g393_zero_ok:
  assumes "holds c U M H s" "M p = Some (replicate n 0)" "n < size_limit" "\<And>t. holds c U M H t \<Longrightarrow> Q () t"
  shows "wp (g393_all_zero K p n) Q s"
  unfolding g393_all_zero_def wp_unfold
  apply (rule h_expect_stat [OF assms(1), OF assms(2)], simp)
  apply (erule h_read_range, rule assms(2), (simp add: assms(3); fail)+)
  apply (simp add: read_at_def assms(4))
  done

lemma g393_zero_server_ok:
  assumes "holds c U M H s" "M (XFS_MNT @ p) = Some (replicate n 0)" "H (XFS_MNT @ p) = None" "n < size_limit"
    and "\<And>t. holds c U M H t \<Longrightarrow> Q () t"
  shows "wp (g393_all_zero K (XFS_EXPORT @ p) n) Q s"
  unfolding g393_all_zero_def wp_unfold
  apply (rule h_expect_stat_server [OF assms(1), OF assms(2,3)], simp)
  apply (erule h_read_range_server, rule assms(2), rule assms(3), (simp add: assms(4); fail)+)
  apply (simp add: read_at_def assms(5))
  done

lemma g393_round_ok:
  assumes "holds c {G393_FILE} M Map.empty s" "up < size_limit"
    and "\<And>N t. holds c {G393_FILE} N Map.empty t \<Longrightarrow> Q () t"
  shows "wp (g393_one_round K up) Q s"
proof -
  have srv: "G393_SERVER = XFS_EXPORT @ ''/g393/testfile''" "XFS_MNT @ ''/g393/testfile'' = G393_FILE"
    by (simp_all add: G393_SERVER_def G393_FILE_def G393_ROOT_def)
  note simps = srv(2) assms(2) G393_WRITTEN_def size_limit_def resize_def
  show ?thesis
    unfolding g393_one_round_def wp_unfold srv(1)
    apply (rule h_unlink_any [OF assms(1)], simp, simp)
    apply (erule h_create, (simp; fail)+)
    apply (simp only: wp_unfold)
    apply (erule h_write [where p = G393_FILE], (simp add: simps; fail)+)
    apply (simp only: wp_unfold, rule conjI, simp)
    apply (erule h_fsync [where p = G393_FILE], (simp; fail)+)
    apply (intro conjI refl)
    apply (erule h_close [where p = G393_FILE], (simp; fail)+)
    apply (erule h_truncate, (simp add: simps; fail)+)
    apply (intro conjI refl)
    apply (erule h_truncate, (simp add: assms(2); fail)+)
    apply (intro conjI refl)
    apply (erule g393_zero_ok, (simp add: simps; fail), rule assms(2))
    apply (erule g393_zero_server_ok, (simp add: simps; fail)+)
    apply (rule assms(2))
    apply (rule assms(3), simp)
    done
qed

lemma g393_run_ok:
  assumes "ready V ok G393_ROOT s"
  shows "passes (truncate_to_zero_then_up_reads_as_a_hole K) s"
  unfolding passes_def truncate_to_zero_then_up_reads_as_a_hole_def wp_unfold
  apply (rule h_prologue [where U = "{G393_FILE}", OF assms], simp add: G393_FILE_def)
  apply (erule h_alloc)
  apply (erule g393_round_ok, simp add: size_limit_def)
  apply (erule g393_round_ok, simp add: size_limit_def)
  apply (drule holds_fails, simp)
  done

end

end
