(* ===== verification/Gen412.thy ===== *)
theory Gen412
  imports Direct
begin

text \<open>
  \<open>kunit/xfstests/generic/412.c\<close>: a buffered write, a direct write beyond a hole, and a truncate
  back into the hole; size and contents are checked on the client and in the server's copy.
  Of the buffer only the part handed to a call is modelled; the fill with \<open>0xff\<close> before a read
  is not, as the scan runs only after a full read, which overwrites it.
\<close>

definition G412_ROOT :: string where "G412_ROOT = XFS_MNT @ ''/g412''"
definition G412_FILE :: string where "G412_FILE = G412_ROOT @ ''/foo''"
definition G412_SERVER :: string where "G412_SERVER = XFS_EXPORT @ ''/g412/foo''"
definition G412_CHUNK :: nat where "G412_CHUNK = 32 * 1024"
definition G412_DIO_OFF :: nat where "G412_DIO_OFF = 64 * 1024"
definition G412_TRUNC :: nat where "G412_TRUNC = 60 * 1024"

lemmas g412_sizes = G412_CHUNK_def G412_DIO_OFF_def G412_TRUNC_def

definition g412_remove_tree :: "'w kernel \<Rightarrow> (('w, 'z) kst_scheme, unit) prog" where
  "g412_remove_tree K = seq [ignore (xfs_unlink K G412_FILE), ignore (xfs_rmdir_settled K G412_ROOT)]"

definition g412_want :: "nat \<Rightarrow> byte" where
  "g412_want i = (if i < G412_CHUNK then 0x01 else 0x00)"

definition g412_verify :: "'w kernel \<Rightarrow> string \<Rightarrow> (('w, 'z) kst_scheme, unit) prog" where
  "g412_verify K path = seq [
     expect_stat K path (\<lambda>st. st_size st = int G412_TRUNC),
     bnd (xfs_read_range K path G412_TRUNC 0) (\<lambda>(n, buf).
     bnd (kunit_assert (n = int G412_TRUNC)) (\<lambda>_.
     case first_diff buf (map g412_want [0..<G412_TRUNC]) of None \<Rightarrow> ret () | Some i \<Rightarrow> kunit_fail))]"

definition a_truncate_into_a_hole_keeps_the_file_consistent :: "'w kernel \<Rightarrow> (('w, 'z) fxs_scheme, unit) prog" where
  "a_truncate_into_a_hole_keeps_the_file_consistent K = seq [
     test_prologue K G412_ROOT ''g412_remove_tree'' (g412_remove_tree K),
     must_alloc K G412_TRUNC,
     must_open (kcall (filp_open K G412_FILE {O_RDWR, O_CREAT, O_TRUNC} (mode3 6 4 4))) (\<lambda>f. seq [
       must_ret (kcall (kernel_write K f (replicate G412_CHUNK 0x01) 0)) (\<lambda>(n, _). n = int G412_CHUNK),
       kdo (filp_close K f)]),
     must_open (kcall (filp_open K G412_FILE {O_RDWR, O_DIRECT} 0)) (\<lambda>f. seq [
       must_ret (xfs_direct_write K f (replicate G412_CHUNK 0x02) G412_CHUNK (int G412_DIO_OFF))
         (\<lambda>(n, _). n = int G412_CHUNK),
       kdo (filp_close K f)]),
     must (xfs_truncate K G412_FILE (int G412_TRUNC)),
     g412_verify K G412_FILE,
     g412_verify K G412_SERVER]"

definition g412_suite :: "'w kernel \<Rightarrow> ('w, 'z) fxs_scheme suite" where
  "g412_suite K = nfs_suite K ''xfstests/generic/412''
     [(''a_truncate_into_a_hole_keeps_the_file_consistent'', a_truncate_into_a_hole_keeps_the_file_consistent K)]"

definition g412_final :: "byte list" where
  "g412_final = resize G412_TRUNC (write_at G412_DIO_OFF (replicate G412_CHUNK 0x02) (write_at 0 (replicate G412_CHUNK 0x01) []))"

lemma g412_final: "g412_final = map g412_want [0..<G412_TRUNC]"
  by (rule nth_equalityI) (auto simp: g412_final_def g412_want_def nth_resize nth_write_at g412_sizes)

context direct_io
begin

lemma g412_run_ok:
  assumes "ready V ok G412_ROOT s"
  shows "passes (a_truncate_into_a_hole_keeps_the_file_consistent K) s"
proof -
  have srv: "G412_SERVER = XFS_EXPORT @ ''/g412/foo''" "XFS_MNT @ ''/g412/foo'' = G412_FILE"
    by (simp_all add: G412_SERVER_def G412_FILE_def G412_ROOT_def)
  have whole: "read_at 0 G412_TRUNC g412_final = map g412_want [0..<G412_TRUNC]" "length g412_final = G412_TRUNC"
    by (simp_all add: read_at_0 g412_final)
  have client: "wp (g412_verify K G412_FILE) Q t"
    if "holds c U M H t" "M G412_FILE = Some g412_final" "\<And>t. holds c U M H t \<Longrightarrow> Q () t" for c U M H t Q
    unfolding g412_verify_def wp_unfold
    apply (rule h_expect_stat [OF that(1,2)], simp add: whole)
    apply (erule h_read_range, rule that(2), simp, simp add: g412_sizes size_limit_def)
    apply (simp add: whole that(3))
    done
  have server: "wp (g412_verify K (XFS_EXPORT @ ''/g412/foo'')) Q t"
    if "holds c U M H t" "M G412_FILE = Some g412_final" "H G412_FILE = None" "\<And>t. holds c U M H t \<Longrightarrow> Q () t" for c U M H t Q
    unfolding g412_verify_def wp_unfold
    apply (rule h_expect_stat_server [OF that(1) that(2,3) [folded srv(2)]], simp add: whole)
    apply (erule h_read_range_server, rule that(2) [folded srv(2)], rule that(3) [folded srv(2)], simp, simp add: g412_sizes size_limit_def)
    apply (simp add: whole that(4))
    done
  show ?thesis
    unfolding passes_def a_truncate_into_a_hole_keeps_the_file_consistent_def srv(1)
    apply (simp only: wp_unfold)
    apply (rule h_prologue [where U = "{G412_FILE}", OF assms], simp add: G412_FILE_def)
    apply (erule h_alloc)
    apply (erule h_create, simp, simp, simp)
    apply (simp only: wp_unfold)
    apply (erule h_write_same, simp, simp, simp, simp add: size_limit_def g412_sizes, intro conjI, simp)
    apply (erule h_close_same, simp)
    apply (erule h_open_keep [where p = G412_FILE], simp, simp, simp, simp, simp)
    apply (simp only: wp_unfold)
    apply (erule h_direct_write_same, simp, simp, simp, simp, simp, simp add: size_limit_def g412_sizes)
    apply (simp only: wp_unfold)
    apply (erule h_close_last, simp, simp)
    apply (erule h_truncate, simp, simp, simp add: size_limit_def g412_sizes, intro conjI refl)
    apply (erule client, simp add: g412_final_def)
    apply (erule server, simp add: g412_final_def, simp)
    apply (drule holds_fails, simp)
    done
qed

end

end
