(* ===== verification/Gen420.thy ===== *)
theory Gen420
  imports Direct
begin

text \<open>
  \<open>kunit/xfstests/generic/420.c\<close>: a hole punched just past the end of a file leaves its size,
  on the client and in the server's copy.
\<close>

definition G420_ROOT :: string where "G420_ROOT = XFS_MNT @ ''/g420''"
definition G420_FILE :: string where "G420_FILE = G420_ROOT @ ''/testfile.420''"
definition G420_SERVER :: string where "G420_SERVER = XFS_EXPORT @ ''/g420/testfile.420''"

definition g420_remove_tree :: "'w kernel \<Rightarrow> (('w, 'z) kst_scheme, unit) prog" where
  "g420_remove_tree K = seq [ignore (xfs_unlink K G420_FILE), ignore (xfs_rmdir_settled K G420_ROOT)]"

definition punch_past_eof_keeps_size :: "'w kernel \<Rightarrow> (('w, 'z) fxs_scheme, unit) prog" where
  "punch_past_eof_keeps_size K = seq [
     test_prologue K G420_ROOT ''g420_remove_tree'' (g420_remove_tree K),
     must_alloc K 2048,
     must_open (kcall (filp_open K G420_FILE {O_RDWR, O_CREAT, O_TRUNC} (mode3 6 4 4))) (\<lambda>f. seq [
       must_ret (kcall (kernel_write K f (replicate 2048 0xcd) 0)) (\<lambda>(n, _). n = 2048),
       kdo (filp_close K f)]),
     must_open (kcall (filp_open K G420_FILE {O_RDWR} 0)) (\<lambda>f. seq [
       expect_ret (kcall (vfs_fallocate K f {FALLOC_FL_PUNCH_HOLE, FALLOC_FL_KEEP_SIZE} 2048 2048)) (\<lambda>e. e = 0),
       kdo (filp_close K f)]),
     expect_stat K G420_FILE (\<lambda>st. st_size st = 2048),
     expect_stat K G420_SERVER (\<lambda>st. st_size st = 2048)]"

definition g420_suite :: "'w kernel \<Rightarrow> ('w, 'z) fxs_scheme suite" where
  "g420_suite K = nfs_suite K ''xfstests/generic/420''
     [(''punch_past_eof_keeps_size'', punch_past_eof_keeps_size K)]"

context nfs42
begin

lemma g420_run_ok:
  assumes "ready V ok G420_ROOT s"
  shows "passes (punch_past_eof_keeps_size K) s"
proof -
  have srv: "G420_SERVER = XFS_EXPORT @ ''/g420/testfile.420''" "XFS_MNT @ ''/g420/testfile.420'' = G420_FILE"
    by (simp_all add: G420_SERVER_def G420_FILE_def G420_ROOT_def)
  show ?thesis
    unfolding passes_def punch_past_eof_keeps_size_def srv(1)
    apply (simp only: wp_unfold)
    apply (rule h_prologue [where U = "{G420_FILE}", OF assms], simp add: G420_FILE_def)
    apply (erule h_alloc)
    apply (erule h_create, simp, simp, simp)
    apply (simp only: wp_unfold)
    apply (erule h_write_same, simp, simp, simp, simp add: size_limit_def, intro conjI, simp)
    apply (erule h_close_same, simp)
    apply (erule h_open_keep [where p = G420_FILE], simp, simp, simp, simp, simp)
    apply (simp only: wp_unfold)
    apply (erule h_punch [where p = G420_FILE and fl = "{O_RDWR}"], simp, simp, simp, simp, simp, simp add: size_limit_def)
    apply (simp only: wp_unfold)
    apply (erule h_close_last, simp, simp)
    apply (erule h_expect_stat, simp, simp)
    apply (erule h_expect_stat_server, simp add: srv(2), simp, simp)
    apply (drule holds_fails, simp)
    done
qed

end

end
