(* ===== verification/Copies.thy ===== *)
theory Copies
  imports Server
begin

text \<open>
  \<open>copy_file_range\<close>.  The kernel's \<open>vfs_copy_file_range\<close> is a parameter of the ports that call
  it; the locale \<open>copies\<close> says what copy_file_range(2) promises: between two different
  regular files the call copies bytes from the source offset on, not more than the given
  length or what the source has left, and returns how many it copied, which may be fewer.
  How few is the kernel's choice: it copies no less than \<open>lo\<close> bytes where that many are
  asked for and there, and never more than \<open>hi\<close> in one call.  The ports on the call share the
  open, copy, close sequence and the file of lettered runs, and one rule each; they take a
  short count for a failure, so that they need a kernel that copies their 5000 bytes in one
  call (\<open>whole_copies\<close>), and all fail on one that copies less than five.
\<close>

definition copy_between ::
  "'w kernel \<Rightarrow> (nat \<Rightarrow> int \<Rightarrow> nat \<Rightarrow> int \<Rightarrow> nat \<Rightarrow> nat \<Rightarrow> 'w \<Rightarrow> int \<times> 'w) \<Rightarrow> string \<Rightarrow> string \<Rightarrow> oflag set \<Rightarrow>
   int \<Rightarrow> int \<Rightarrow> nat \<Rightarrow> (('w, 'z) kst_scheme, int) prog" where
  \<comment> \<open>the destination is opened with \<open>fl\<close>; an error there is a failure, and -1 the result\<close>
  "copy_between K copy from to fl src_off dst_off len =
     must_open (kcall (filp_open K from {O_RDONLY} 0)) (\<lambda>src.
     bnd (kcall (filp_open K to fl (mode3 6 4 4))) (\<lambda>r. case r of
       Inl e \<Rightarrow> bnd (kdo (filp_close K src)) (\<lambda>_. bnd kunit_fail (\<lambda>_. ret (- 1)))
     | Inr dst \<Rightarrow>
         bnd (kcall (copy src src_off dst dst_off len 0)) (\<lambda>n.
         bnd (kdo (filp_close K dst)) (\<lambda>_.
         bnd (kdo (filp_close K src)) (\<lambda>_. ret n)))))"

definition write_runs :: "'w kernel \<Rightarrow> nat \<Rightarrow> nat \<Rightarrow> nat \<Rightarrow> (('w, 'z) kst_scheme, unit) prog" where
  \<comment> \<open>\<open>k\<close> runs of \<open>run\<close> letters each, one write after the other\<close>
  "write_runs K f run k = ignore (for_fold [0..<k] (\<lambda>i pos.
     bnd (kcall (kernel_write K f (replicate run (0x61 + of_nat i)) pos)) (\<lambda>(n, pos).
     bnd (kunit_assert (n = int run)) (\<lambda>_. ret pos))) 0)"

section \<open>The lettered runs\<close>

definition runs_of :: "nat \<Rightarrow> nat \<Rightarrow> byte list" where
  "runs_of run k = concat (map (\<lambda>i. replicate run (0x61 + of_nat i)) [0..<k])"

lemma length_runs_of [simp]: "length (runs_of run k) = k * run"
  by (induction k) (simp_all add: runs_of_def)

lemma runs_of_Suc: "runs_of run (Suc k) = runs_of run k @ replicate run (0x61 + of_nat k)"
  by (simp add: runs_of_def)

lemma nth_runs_of: "i < k * run \<Longrightarrow> runs_of run k ! i = 0x61 + of_nat (i div run)"
proof (induction k)
  case (Suc k)
  show ?case
  proof (cases "i < k * run")
    case True
    then show ?thesis using Suc.IH by (simp add: runs_of_Suc nth_append)
  next
    case False
    then have "i div run = k" using Suc.prems
      by (metis add.commute div_nat_eqI mult.commute mult_Suc not_less)
    then show ?thesis using False Suc.prems by (simp add: runs_of_Suc nth_append)
  qed
qed simp

lemma stays_copy_between: "stays (\<lambda>t. n \<le> kfails t) (copy_between K copy p q fl x y len)"
  unfolding copy_between_def by (intro failed.stays_ports)

section \<open>The contract\<close>

locale copies = exported K V ok
  for K :: "'w kernel" and V :: "'w \<Rightarrow> fsv" and ok :: "'w \<Rightarrow> bool" +
  fixes copy :: "nat \<Rightarrow> int \<Rightarrow> nat \<Rightarrow> int \<Rightarrow> nat \<Rightarrow> nat \<Rightarrow> 'w \<Rightarrow> int \<times> 'w" and lo hi :: nat
  assumes copy_file_range: "\<lbrakk>ok w; fds (V w) h = Some (i, fl); fds (V w) h' = Some (j, fl'); i \<noteq> j;
        i_type (inodes (V w) i) = S_REG; i_type (inodes (V w) j) = S_REG; readable fl; writable fl'; O_APPEND \<notin> fl';
        pos + n < size_limit; pos' + n < size_limit;
        copy h (int pos) h' (int pos') n 0 w = (r, w')\<rbrakk> \<Longrightarrow>
      \<exists>k. r = int k \<and> k \<le> length (read_at pos n (data_of (V w) i)) \<and> k \<le> hi \<and>
        min lo (length (read_at pos n (data_of (V w) i))) \<le> k \<and> ok w' \<and>
        V w' = set_data j (write_at pos' (take k (read_at pos n (data_of (V w) i))) (data_of (V w) j)) (V w)"
begin

lemma h_copy_range:
  assumes "holds c U M H s" "M p = Some d" "H p = Some (h, fl)" "M q = Some e" "H q = Some (h', fl')" "p \<noteq> q"
    and "readable fl" "writable fl'" "O_APPEND \<notin> fl'" "0 \<le> x" "0 \<le> y" "nat x + n < size_limit" "nat y + n < size_limit"
    and "\<And>t k. \<lbrakk>holds c U (M(q \<mapsto> write_at (nat y) (take k (read_at (nat x) n d)) e)) H t;
           min lo (length (read_at (nat x) n d)) \<le> k; k \<le> length (read_at (nat x) n d); k \<le> hi\<rbrakk> \<Longrightarrow> Q (int k) t"
  shows "wp (kcall (copy h x h' y n 0)) Q s"
proof (rule wp_kcallI)
  fix r w'
  assume "copy h x h' y n 0 (kw s) = (r, w')"
  then have call: "copy h (int (nat x)) h' (int (nat y)) n 0 (kw s) = (r, w')" using assms(10,11) by simp
  note st = holdsD [OF assms(1)]
  note f = s_step_open(1) [OF st(1) assms(2,3)] and g = s_step_open(1) [OF st(1) assms(4,5)]
  have "inj_on (names (V (kw s))) (dom M)" using st(1) by (simp add: store_def)
  then have "names (V (kw s)) p \<noteq> names (V (kw s)) q" using assms(2,4,6) unfolding inj_on_def by blast
  then have "the (names (V (kw s)) p) \<noteq> the (names (V (kw s)) q)"
    using file_on_has(2) [OF f] file_on_has(2) [OF g] by auto
  from copy_file_range [OF file_on_ok [OF f] file_on_fd [OF f] file_on_fd [OF g] this file_on_has(3) [OF f]
      file_on_has(3) [OF g] assms(7-9,12,13) call]
  obtain k where w: "r = int k" "k \<le> length (read_at (nat x) n d)" "k \<le> hi" "min lo (length (read_at (nat x) n d)) \<le> k"
    "ok w'" "V w' = set_data (the (names (V (kw s)) q)) (write_at (nat y) (take k (read_at (nat x) n d)) e) (V (kw s))"
    unfolding file_on_has(4) [OF f] file_on_has(4) [OF g] by blast
  from s_step_open(2) [OF st(1) assms(4,5) set_data_step [OF g w(5,6)]]
  show "Q r (s\<lparr>kw := w'\<rparr>)" unfolding w(1) by (intro assms(14) w(2-4)) (use st(2) in \<open>simp add: holds_def\<close>)
qed

lemma copy_between_any:
  assumes "holds c U M Map.empty s" "M p = Some d" "q \<in> U" "p \<noteq> q"
    and "O_CREAT \<in> fl" "O_RDWR \<in> fl" "O_EXCL \<notin> fl" "O_DIRECTORY \<notin> fl" "O_APPEND \<notin> fl"
    and "0 \<le> x" "0 \<le> y" "nat x + n < size_limit" "nat y + n < size_limit"
    and "e = (if O_TRUNC \<in> fl then [] else case M q of None \<Rightarrow> [] | Some e \<Rightarrow> e)"
    and "\<And>t k. \<lbrakk>holds c U (M(q \<mapsto> write_at (nat y) (take k (read_at (nat x) n d)) e)) Map.empty t;
           min lo (length (read_at (nat x) n d)) \<le> k; k \<le> length (read_at (nat x) n d); k \<le> hi\<rbrakk> \<Longrightarrow> Q (int k) t"
  shows "wp (copy_between K copy p q fl x y n) Q s"
  unfolding copy_between_def wp_unfold
proof (rule h_open_keep [OF assms(1,2)], simp, simp, simp, simp, simp only: wp_unfold, goal_cases)
  case (1 t h)
  show ?case
  proof (rule h_open_create [OF 1 assms(3)], use assms(4) in simp, rule assms(5), rule assms(7), rule assms(8),
      simp only: wp_unfold, goal_cases)
    case (1 u h')
    let ?H = "[p \<mapsto> (h, {O_RDONLY}), q \<mapsto> (h', fl)]" and ?b = "\<lambda>k. take k (read_at (nat x) n d)"
    show ?case
    proof (rule h_copy_range [OF 1, where p = p and q = q and fl = "{O_RDONLY}" and fl' = fl and d = d and e = e], goal_cases)
      case (13 v k)
      then have v: "holds c U (M(q \<mapsto> write_at (nat y) (?b k) e)) ?H v" by simp
      show ?case
      proof (rule h_close [OF v, where p = q and fl = fl], simp, simp, goal_cases)
        case (1 x1)
        then have "holds c U (M(q \<mapsto> write_at (nat y) (?b k) e)) [p \<mapsto> (h, {O_RDONLY})] x1"
          using assms(4) by (simp add: fun_upd_twist)
        then show ?case
          by (rule h_close_last [where H = Map.empty and d = d]) (use assms(1-14) assms(15) [OF _ 13(2-4)] in simp_all)
      qed
    qed (use assms in \<open>simp_all add: readable_def writable_def\<close>)
  qed
qed

text \<open>A copy that is cut short is a failed expectation, and nothing takes a failure back.\<close>

lemma fails_later:
  "wp m (\<lambda>_ t. n < kfails (outcome_state (seq ms t))) s \<Longrightarrow> n < kfails (outcome_state (seq (m # ms) s))"
  unfolding seq.simps by (rule stay_after [where P = "\<lambda>t. n < kfails t"])

lemma fails_now:
  assumes "wp m (\<lambda>_ t. Suc n \<le> kfails t) s" "stays (\<lambda>t. Suc n \<le> kfails t) (seq ms)"
  shows "n < kfails (outcome_state (seq (m # ms) s))"
  by (rule fails_later, rule wp_mono [OF assms(1)]) (use assms(2) in \<open>simp add: stays_def Suc_le_eq\<close>)

lemma short_copy_fails:
  assumes "holds c U M Map.empty s" "M p = Some d" "q \<in> U" "p \<noteq> q" "fl = {O_RDWR, O_CREAT, O_TRUNC}"
    and "n < size_limit" "hi < n" "r = int n"
  shows "wp (expect_ret (copy_between K copy p q fl 0 0 n) (\<lambda>a. a = r)) (\<lambda>_ t. Suc (fst c) \<le> kfails t) s"
  unfolding wp_expect_ret
  by (rule copy_between_any [OF assms(1-4), where e = "[]"]) (use assms(5-8) in \<open>auto dest!: holds_fails\<close>)

lemma write_runs_ok:
  assumes "holds c U (M(p \<mapsto> [])) (H(p \<mapsto> (h, fl))) s" "writable fl" "O_APPEND \<notin> fl" "k * run < size_limit"
    and "\<And>t. holds c U (M(p \<mapsto> runs_of run k)) (H(p \<mapsto> (h, fl))) t \<Longrightarrow> Q () t"
  shows "wp (write_runs K h run k) Q s"
  unfolding write_runs_def wp_ignore
proof (rule wp_for_fold_range [where I = "\<lambda>i pos t. pos = int (i * run) \<and>
    holds c U (M(p \<mapsto> runs_of run i)) (H(p \<mapsto> (h, fl))) t"], goal_cases)
  case (3 i pos t)
  have "Suc i * run \<le> k * run" using 3(2) by (intro mult_le_mono1) simp
  then have b: "i * run + run < size_limit" using assms(4) by simp
  have n: "nat pos = i * run" "0 \<le> pos" "pos + int run = int (Suc i * run)"
    using 3(3) by (auto simp: nat_mult_distrib algebra_simps)
  show ?case
    unfolding wp_unfold
    by (rule h_write_same [OF 3(3) [THEN conjunct2] assms(2,3) n(2)])
      (use b n(3) write_at_end [of "runs_of run i"] in \<open>simp_all add: n(1) runs_of_Suc del: of_nat_mult\<close>)
qed (use assms(1,5) in \<open>simp_all add: runs_of_def\<close>)

end

locale whole_copies = copies K V ok copy lo hi
  for K :: "'w kernel" and V :: "'w \<Rightarrow> fsv" and ok :: "'w \<Rightarrow> bool"
    and copy :: "nat \<Rightarrow> int \<Rightarrow> nat \<Rightarrow> int \<Rightarrow> nat \<Rightarrow> nat \<Rightarrow> 'w \<Rightarrow> int \<times> 'w" and lo hi :: nat +
  assumes enough: "5000 \<le> lo"
begin

lemma copy_between_ok:
  assumes "holds c U M Map.empty s" "M p = Some d" "q \<in> U" "p \<noteq> q"
    and "O_CREAT \<in> fl" "O_RDWR \<in> fl" "O_EXCL \<notin> fl" "O_DIRECTORY \<notin> fl" "O_APPEND \<notin> fl"
    and "0 \<le> x" "0 \<le> y" "nat x + n < size_limit" "nat y + n < size_limit"
    and "e = (if O_TRUNC \<in> fl then [] else case M q of None \<Rightarrow> [] | Some e \<Rightarrow> e)" "n \<le> 5000"
    and "\<And>t. holds c U (M(q \<mapsto> write_at (nat y) (read_at (nat x) n d) e)) Map.empty t \<Longrightarrow>
           Q (int (length (read_at (nat x) n d))) t"
  shows "wp (copy_between K copy p q fl x y n) Q s"
proof (rule copy_between_any [OF assms(1-14)], goal_cases)
  case (1 t k)
  have "length (read_at (nat x) n d) \<le> lo" using enough assms(15) by simp
  then have "k = length (read_at (nat x) n d)" using 1(2,3) by linarith
  then show ?case using assms(16) 1(1) by simp
qed

end

text \<open>In-memory calls that copy up to \<open>cap\<close> bytes.\<close>

definition mem_copy_range :: "nat \<Rightarrow> nat \<Rightarrow> int \<Rightarrow> nat \<Rightarrow> int \<Rightarrow> nat \<Rightarrow> nat \<Rightarrow> memw \<Rightarrow> int \<times> memw" where
  "mem_copy_range cap h x h' y n flags w = on_fd h w (- EINVAL, w) (\<lambda>i _. on_fd h' w (- EINVAL, w) (\<lambda>j _.
     let d = take cap (read_at (nat x) n (data_of (mv w) i)) in (int (length d), mem_set_data j (write_at (nat y) d) w)))"

interpretation copying: copies expk mv mem_ok "mem_copy_range cap" cap cap for cap
proof (rule copies.intro [OF exp.exported_axioms], unfold_locales, goal_cases)
  case (1 w h i fl h' j fl' pos n pos' r w')
  let ?d = "read_at pos n (data_of (mv w) i)"
  have "take (min (length ?d) cap) ?d = take cap ?d" by (simp add: min_def)
  then show ?case
    using 1 mem_set_data_ok [of w j]
    by (auto simp: mem_copy_range_def on_fd_def mem_set_data_def mem_view_def Let_def
        intro!: exI [of _ "min (length ?d) cap"] simp del: length_read_at)
qed

interpretation copying_all: whole_copies expk mv mem_ok "mem_copy_range 5000" 5000 5000
  by unfold_locales simp

end
