(* ===== verification/Gen430.thy ===== *)
theory Gen430
  imports Copies
begin

text \<open>
  \<open>kunit/xfstests/generic/430.c\<close>: parts of a file of five lettered runs are copied into new
  files: all of it, its beginning, middle and end, a part running past the end, and one
  that leaves a hole at the start of the copy.
\<close>

definition G430_ROOT :: string where "G430_ROOT = XFS_MNT @ ''/g430''"
definition G430_FILE :: string where "G430_FILE = G430_ROOT @ ''/file''"
definition G430_SIZE :: nat where "G430_SIZE = 5000"
definition G430_RUN :: nat where "G430_RUN = 1000"

lemmas g430_sizes = G430_SIZE_def G430_RUN_def

definition g430_copies :: "string list" where
  "g430_copies = [''copy'', ''beginning'', ''middle'', ''end'', ''beyond'', ''hole'']"

definition g430_path :: "string \<Rightarrow> string" where "g430_path name = G430_ROOT @ ''/'' @ name"

definition g430_remove_tree :: "'w kernel \<Rightarrow> (('w, 'z) kst_scheme, unit) prog" where
  "g430_remove_tree K = seq [
     for_each g430_copies (\<lambda>c. ignore (xfs_unlink K (g430_path c))),
     ignore (xfs_unlink K G430_FILE),
     ignore (xfs_rmdir_settled K G430_ROOT)]"

definition g430_byte :: "int \<Rightarrow> byte" where
  "g430_byte off = 0x61 + of_int (off div int G430_RUN)"

definition g430_copy ::
  "'w kernel \<Rightarrow> (nat \<Rightarrow> int \<Rightarrow> nat \<Rightarrow> int \<Rightarrow> nat \<Rightarrow> nat \<Rightarrow> 'w \<Rightarrow> int \<times> 'w) \<Rightarrow> string \<Rightarrow> int \<Rightarrow> int \<Rightarrow> nat \<Rightarrow>
   (('w, 'z) kst_scheme, int) prog" where
  "g430_copy K copy name src_off dst_off len =
     copy_between K copy G430_FILE (g430_path name) {O_RDWR, O_CREAT, O_TRUNC} src_off dst_off len"

definition g430_expect :: "'w kernel \<Rightarrow> string \<Rightarrow> int \<Rightarrow> nat \<Rightarrow> int \<Rightarrow> (('w, 'z) kst_scheme, unit) prog" where
  "g430_expect K name off len src_off = bnd (xfs_read_range K (g430_path name) len off) (\<lambda>(n, buf).
     bnd (kunit_assert (n = int len)) (\<lambda>_.
     case first_diff buf (map (\<lambda>i. if src_off < 0 then 0 else g430_byte (src_off + int i)) [0..<len]) of
       None \<Rightarrow> ret () | Some i \<Rightarrow> kunit_fail))"

definition copy_file_range_into_new_files ::
  "'w kernel \<Rightarrow> (nat \<Rightarrow> int \<Rightarrow> nat \<Rightarrow> int \<Rightarrow> nat \<Rightarrow> nat \<Rightarrow> 'w \<Rightarrow> int \<times> 'w) \<Rightarrow> (('w, 'z) fxs_scheme, unit) prog" where
  \<comment> \<open>\<open>copy\<close> is \<open>vfs_copy_file_range\<close>\<close>
  "copy_file_range_into_new_files K copy = seq [
     test_prologue K G430_ROOT ''g430_remove_tree'' (g430_remove_tree K),
     must_alloc K G430_SIZE,
     must_open (kcall (filp_open K G430_FILE {O_RDWR, O_CREAT, O_TRUNC} (mode3 6 4 4))) (\<lambda>f. seq [
       write_runs K f G430_RUN (G430_SIZE div G430_RUN),
       must (kcall (vfs_fsync K f)),
       kdo (filp_close K f)]),
     expect_ret (g430_copy K copy ''copy'' 0 0 G430_SIZE) (\<lambda>n. n = int G430_SIZE),
     g430_expect K ''copy'' 0 G430_SIZE 0,
     expect_ret (g430_copy K copy ''beginning'' 0 0 G430_RUN) (\<lambda>n. n = int G430_RUN),
     g430_expect K ''beginning'' 0 G430_RUN 0,
     expect_ret (g430_copy K copy ''middle'' 1000 0 3000) (\<lambda>n. n = 3000),
     g430_expect K ''middle'' 0 3000 1000,
     expect_ret (g430_copy K copy ''end'' 4000 0 1000) (\<lambda>n. n = 1000),
     g430_expect K ''end'' 0 1000 4000,
     expect_ret (g430_copy K copy ''beyond'' 4000 0 2000) (\<lambda>n. n = 1000),
     g430_expect K ''beyond'' 0 1000 4000,
     expect_stat K (g430_path ''beyond'') (\<lambda>st. st_size st = 1000),
     expect_ret (g430_copy K copy ''hole'' 1000 1000 3000) (\<lambda>n. n = 3000),
     g430_expect K ''hole'' 0 1000 (- 1),
     g430_expect K ''hole'' 1000 3000 1000]"

definition g430_suite ::
  "'w kernel \<Rightarrow> (nat \<Rightarrow> int \<Rightarrow> nat \<Rightarrow> int \<Rightarrow> nat \<Rightarrow> nat \<Rightarrow> 'w \<Rightarrow> int \<times> 'w) \<Rightarrow> ('w, 'z) fxs_scheme suite" where
  "g430_suite K copy = nfs_suite K ''xfstests/generic/430''
     [(''copy_file_range_into_new_files'', copy_file_range_into_new_files K copy)]"

section \<open>The copies\<close>

definition g430_part :: "nat \<Rightarrow> nat \<Rightarrow> nat \<Rightarrow> byte list" where
  \<comment> \<open>the copy of \<open>n\<close> bytes from \<open>x\<close> to \<open>y\<close>\<close>
  "g430_part x y n = write_at y (read_at x n (runs_of G430_RUN 5)) []"

lemma g430_nth: "i < 5000 \<Longrightarrow> runs_of G430_RUN 5 ! i = g430_byte (int i)"
proof -
  assume "i < 5000"
  then have "runs_of G430_RUN 5 ! i = 0x61 + of_nat (i div G430_RUN)" by (intro nth_runs_of) (simp add: G430_RUN_def)
  moreover have "int i div int G430_RUN = int (i div G430_RUN)" by (simp only: zdiv_int)
  ultimately show ?thesis by (simp only: g430_byte_def of_int_of_nat_eq)
qed

lemma length_g430_part: "x < 5000 \<Longrightarrow> 0 < n \<Longrightarrow> length (g430_part x y n) = y + min n (5000 - x)"
  by (auto simp: g430_part_def read_at_def G430_RUN_def)

lemma nth_g430_part:
  assumes "x < 5000" "0 < n" "i < y + min n (5000 - x)"
  shows "g430_part x y n ! i = (if i < y then 0 else g430_byte (int (x + (i - y))))"
proof -
  have len: "length (read_at x n (runs_of G430_RUN 5)) = min n (5000 - x)" by (simp add: G430_RUN_def)
  have r: "i - y < length (read_at x n (runs_of G430_RUN 5))" if "y \<le> i" using assms(3) that unfolding len by arith
  have "i < length (g430_part x y n)" using assms by (simp add: length_g430_part)
  from nth_write_at [OF this [unfolded g430_part_def]]
  have "g430_part x y n ! i = (if y \<le> i then read_at x n (runs_of G430_RUN 5) ! (i - y) else 0)"
    unfolding g430_part_def using assms(3) len by (simp del: length_read_at)
  also have "\<dots> = (if y \<le> i then runs_of G430_RUN 5 ! (x + (i - y)) else 0)"
    using r nth_read_at [of "i - y" x n "runs_of G430_RUN 5"] by auto
  finally show ?thesis using assms g430_nth [of "x + (i - y)"] by (auto simp: algebra_simps)
qed

lemma g430_paths:
  "g430_path a = g430_path b \<longleftrightarrow> a = b" "g430_path a = G430_FILE \<longleftrightarrow> a = ''file''"
  "G430_FILE = g430_path a \<longleftrightarrow> a = ''file''"
  by (auto simp: g430_path_def G430_FILE_def)

context whole_copies
begin

lemma g430_copy_ok:
  assumes "holds c U M Map.empty s" "M G430_FILE = Some (runs_of G430_RUN 5)" "g430_path nm \<in> U" "nm \<noteq> ''file''"
    and "0 \<le> x" "x < 5000" "0 \<le> y" "y \<le> 5000" "0 < n" "n \<le> 5000" "k = int (min n (5000 - nat x))"
    and "\<And>t. holds c U (M(g430_path nm \<mapsto> g430_part (nat x) (nat y) n)) Map.empty t \<Longrightarrow> Q () t"
  shows "wp (expect_ret (g430_copy K copy nm x y n) (\<lambda>r. r = k)) Q s"
  unfolding wp_expect_ret g430_copy_def
  by (rule copy_between_ok [OF assms(1,2,3), where e = "[]"])
    (use assms g430_paths(2) [of nm] in \<open>auto simp: size_limit_def g430_part_def G430_RUN_def\<close>)

lemma g430_expect_ok:
  assumes "holds c U M H s" "M (g430_path nm) = Some (g430_part x y n)" "x < 5000" "0 < n" "n \<le> 5000" "y \<le> 5000"
    and "0 \<le> off" "nat off + len \<le> y + min n (5000 - x)"
    and "\<And>i. i < len \<Longrightarrow> (if so < 0 then nat off + i < y else y \<le> nat off + i \<and> so + int i = int (x + (nat off + i - y)))"
    and "\<And>t. holds c U M H t \<Longrightarrow> Q () t"
  shows "wp (g430_expect K nm off len so) Q s"
proof -
  have *: "read_at (nat off) len (g430_part x y n) =
      map (\<lambda>i. if so < 0 then 0 else g430_byte (so + int i)) [0..<len]"
  proof (rule nth_equalityI, goal_cases)
    case (2 i)
    then have i: "i < len" "nat off + i < y + min n (5000 - x)" using assms(3,4,8) by (simp_all add: length_g430_part)
    show ?case using assms(9) [OF i(1)] 2 i
      by (auto simp: nth_read_at nth_g430_part [OF assms(3,4) i(2)] simp flip: of_nat_add split: if_splits)
  qed (use assms(3,4,8) in \<open>simp add: length_g430_part\<close>)
  show ?thesis
    unfolding g430_expect_def wp_unfold
    by (rule h_read_range [OF assms(1,2)])
      (use assms(5-8,10) in \<open>auto simp: * size_limit_def\<close>)
qed

end

lemma stays_g430:
  "stays (\<lambda>t. n \<le> kfails t) (g430_copy K cp nm x y len)" "stays (\<lambda>t. n \<le> kfails t) (g430_expect K nm off len x)"
  unfolding g430_copy_def g430_expect_def by (intro failed.stays_ports stays_copy_between)+

context copies
begin

lemma g430_short:
  assumes "ready V ok G430_ROOT s" "hi < 5000"
  shows "kfails s < kfails (outcome_state (copy_file_range_into_new_files K copy s))"
proof -
  let ?fl = "{O_RDWR, O_CREAT, O_TRUNC}"
  show ?thesis
    unfolding copy_file_range_into_new_files_def
    apply (rule fails_later, rule h_prologue [where U = "insert G430_FILE (g430_path ` set g430_copies)", OF assms(1)])
     apply (auto simp: G430_FILE_def g430_path_def g430_copies_def)[1]
    apply (rule fails_later, erule h_alloc)
    apply (rule fails_later, simp only: wp_steps)
    apply (erule h_create, simp, simp, simp)
    apply (simp only: wp_steps)
    apply (erule write_runs_ok, simp, simp, simp add: g430_sizes size_limit_def)
    apply (erule h_fsync [where p = G430_FILE and fl = ?fl], simp, simp, intro conjI refl)
    apply (erule h_close_same, simp)
    apply (rule fails_now, unfold g430_copy_def)
     apply (drule short_copy_fails [where p = G430_FILE and q = "g430_path ''copy''" and n = G430_SIZE])
            apply (use assms(2) in \<open>simp_all add: g430_paths g430_sizes g430_copies_def size_limit_def\<close>)
    apply (intro failed.stays_ports stays_g430 stays_copy_between)
    done
qed

end

context whole_copies
begin

lemma g430_run_ok:
  assumes "ready V ok G430_ROOT s"
  shows "passes (copy_file_range_into_new_files K copy) s"
proof -
  let ?fl = "{O_RDWR, O_CREAT, O_TRUNC}"
  show ?thesis
    unfolding passes_def copy_file_range_into_new_files_def
    apply (simp only: wp_steps)
    apply (rule h_prologue [where U = "insert G430_FILE (g430_path ` set g430_copies)", OF assms])
     apply (auto simp: G430_FILE_def g430_path_def g430_copies_def)[1]
    apply (erule h_alloc)
    apply (erule h_create, simp, simp, simp)
    apply (simp only: wp_steps)
    apply (erule write_runs_ok, simp, simp, simp add: g430_sizes size_limit_def)
    apply (erule h_fsync [where p = G430_FILE and fl = ?fl], simp, simp, intro conjI refl)
    apply (erule h_close_same, simp)
    apply (erule g430_copy_ok, simp add: g430_paths g430_sizes, simp add: g430_copies_def, simp, simp, simp, simp, simp,
        simp add: g430_sizes, simp add: g430_sizes, simp add: g430_sizes)
    apply (erule g430_expect_ok, simp, simp, simp add: g430_sizes, simp add: g430_sizes, simp, simp, simp add: g430_sizes, simp)
    apply (erule g430_copy_ok, simp add: g430_paths g430_sizes, simp add: g430_copies_def, simp, simp, simp, simp, simp,
        simp add: g430_sizes, simp add: g430_sizes, simp add: g430_sizes)
    apply (erule g430_expect_ok, simp, simp, simp add: g430_sizes, simp add: g430_sizes, simp, simp, simp add: g430_sizes, simp)
    apply (erule g430_copy_ok, simp add: g430_paths g430_sizes, simp add: g430_copies_def, simp, simp, simp, simp, simp,
        simp add: g430_sizes, simp add: g430_sizes, simp add: g430_sizes)
    apply (erule g430_expect_ok, simp, simp, simp add: g430_sizes, simp add: g430_sizes, simp, simp, simp add: g430_sizes, simp)
    apply (erule g430_copy_ok, simp add: g430_paths g430_sizes, simp add: g430_copies_def, simp, simp, simp, simp, simp,
        simp add: g430_sizes, simp add: g430_sizes, simp add: g430_sizes)
    apply (erule g430_expect_ok, simp, simp, simp add: g430_sizes, simp add: g430_sizes, simp, simp, simp add: g430_sizes, simp)
    apply (erule g430_copy_ok, simp add: g430_paths g430_sizes, simp add: g430_copies_def, simp, simp, simp, simp, simp,
        simp add: g430_sizes, simp add: g430_sizes, simp add: g430_sizes)
    apply (erule g430_expect_ok, simp, simp, simp add: g430_sizes, simp add: g430_sizes, simp, simp, simp add: g430_sizes, simp)
    apply (erule h_expect_stat, simp, simp add: length_g430_part)
    apply (erule g430_copy_ok, simp add: g430_paths g430_sizes, simp add: g430_copies_def, simp, simp, simp, simp, simp,
        simp add: g430_sizes, simp add: g430_sizes, simp add: g430_sizes)
    apply (erule g430_expect_ok, simp, simp, simp add: g430_sizes, simp add: g430_sizes, simp, simp, simp add: g430_sizes, simp)
    apply (erule g430_expect_ok, simp, simp, simp add: g430_sizes, simp add: g430_sizes, simp, simp, simp add: g430_sizes, simp)
    apply (drule holds_fails, simp)
    done
qed

end

end
