(* ===== verification/Gen431.thy ===== *)
theory Gen431
  imports Copies
begin

text \<open>
  \<open>kunit/xfstests/generic/431.c\<close>: a table of one-byte copies into new files, one of them after
  a hole and one starting at the end of the source, which copies nothing.
\<close>

definition G431_ROOT :: string where "G431_ROOT = XFS_MNT @ ''/g431''"
definition G431_FILE :: string where "G431_FILE = G431_ROOT @ ''/file''"

definition g431_data :: "byte list" where
  \<comment> \<open>without the final zero: the code always uses \<open>sizeof(g431_data) - 1\<close>\<close>
  "g431_data = to_bytes ''abcde''"

record g431_case =
  g431_name :: string
  g431_src_off :: int
  g431_dst_off :: int
  g431_len :: nat
  g431_want :: int             \<comment> \<open>bytes copy_file_range must report\<close>
  g431_content :: "byte list"  \<comment> \<open>the destination's whole content, \<open>expect\<close>\<close>
  g431_expect_len :: nat

definition g431_cases_table :: "g431_case list" where
  "g431_cases_table = [
     \<lparr>g431_name = ''a'', g431_src_off = 0, g431_dst_off = 0, g431_len = 1, g431_want = 1, g431_content = to_bytes ''a'', g431_expect_len = 1\<rparr>,
     \<lparr>g431_name = ''b'', g431_src_off = 1, g431_dst_off = 0, g431_len = 1, g431_want = 1, g431_content = to_bytes ''b'', g431_expect_len = 1\<rparr>,
     \<lparr>g431_name = ''c'', g431_src_off = 2, g431_dst_off = 0, g431_len = 1, g431_want = 1, g431_content = to_bytes ''c'', g431_expect_len = 1\<rparr>,
     \<lparr>g431_name = ''d'', g431_src_off = 3, g431_dst_off = 0, g431_len = 1, g431_want = 1, g431_content = to_bytes ''d'', g431_expect_len = 1\<rparr>,
     \<lparr>g431_name = ''e'', g431_src_off = 4, g431_dst_off = 0, g431_len = 1, g431_want = 1, g431_content = to_bytes ''e'', g431_expect_len = 1\<rparr>,
     \<lparr>g431_name = ''f'', g431_src_off = 4, g431_dst_off = 1, g431_len = 1, g431_want = 1, g431_content = 0 # to_bytes ''e'', g431_expect_len = 2\<rparr>,
     \<lparr>g431_name = ''g'', g431_src_off = 5, g431_dst_off = 0, g431_len = 1, g431_want = 0, g431_content = [], g431_expect_len = 0\<rparr>]"

definition g431_path :: "string \<Rightarrow> string" where "g431_path name = G431_ROOT @ ''/'' @ name"

definition g431_remove_tree :: "'w kernel \<Rightarrow> (('w, 'z) kst_scheme, unit) prog" where
  "g431_remove_tree K = seq [
     for_each g431_cases_table (\<lambda>c. ignore (xfs_unlink K (g431_path (g431_name c)))),
     ignore (xfs_unlink K (G431_ROOT @ ''/copy'')),
     ignore (xfs_unlink K G431_FILE),
     ignore (xfs_rmdir_settled K G431_ROOT)]"

definition g431_copy ::
  "'w kernel \<Rightarrow> (nat \<Rightarrow> int \<Rightarrow> nat \<Rightarrow> int \<Rightarrow> nat \<Rightarrow> nat \<Rightarrow> 'w \<Rightarrow> int \<times> 'w) \<Rightarrow> string \<Rightarrow> int \<Rightarrow> int \<Rightarrow> nat \<Rightarrow>
   (('w, 'z) kst_scheme, int) prog" where
  "g431_copy K copy name src_off dst_off len =
     copy_between K copy G431_FILE (g431_path name) {O_RDWR, O_CREAT, O_TRUNC} src_off dst_off len"

definition g431_check ::
  "'w kernel \<Rightarrow> (nat \<Rightarrow> int \<Rightarrow> nat \<Rightarrow> int \<Rightarrow> nat \<Rightarrow> nat \<Rightarrow> 'w \<Rightarrow> int \<times> 'w) \<Rightarrow> g431_case \<Rightarrow> (('w, 'z) kst_scheme, unit) prog" where
  \<comment> \<open>one turn of the loop\<close>
  "g431_check K copy c = seq [
     expect_ret (g431_copy K copy (g431_name c) (g431_src_off c) (g431_dst_off c) (g431_len c)) (\<lambda>n. n = g431_want c),
     expect_stat K (g431_path (g431_name c)) (\<lambda>st. st_size st = int (g431_expect_len c)),
     do_if (g431_expect_len c \<noteq> 0)
       (bnd (xfs_read_range K (g431_path (g431_name c)) (g431_expect_len c) 0) (\<lambda>(n, got). seq [
          kunit_assert (n = int (g431_expect_len c)),
          kunit_expect (take (g431_expect_len c) got = take (g431_expect_len c) (g431_content c))]))]"

definition one_byte_copies_land_exactly ::
  "'w kernel \<Rightarrow> (nat \<Rightarrow> int \<Rightarrow> nat \<Rightarrow> int \<Rightarrow> nat \<Rightarrow> nat \<Rightarrow> 'w \<Rightarrow> int \<times> 'w) \<Rightarrow> (('w, 'z) fxs_scheme, unit) prog" where
  \<comment> \<open>\<open>copy\<close> is \<open>vfs_copy_file_range\<close>\<close>
  "one_byte_copies_land_exactly K copy = (let sz = length g431_data in seq [
     test_prologue K G431_ROOT ''g431_remove_tree'' (g431_remove_tree K),
     must (xfs_write_new_file K G431_FILE g431_data),
     expect_ret (g431_copy K copy ''copy'' 0 0 sz) (\<lambda>n. n = int sz),
     bnd (xfs_read_range K (G431_ROOT @ ''/copy'') sz 0) (\<lambda>(n, got). seq [
       kunit_assert (n = int sz),
       kunit_expect (take sz got = g431_data)]),
     for_each g431_cases_table (g431_check K copy)])"

definition g431_suite ::
  "'w kernel \<Rightarrow> (nat \<Rightarrow> int \<Rightarrow> nat \<Rightarrow> int \<Rightarrow> nat \<Rightarrow> nat \<Rightarrow> 'w \<Rightarrow> int \<times> 'w) \<Rightarrow> ('w, 'z) fxs_scheme suite" where
  "g431_suite K copy = nfs_suite K ''xfstests/generic/431''
     [(''one_byte_copies_land_exactly'', one_byte_copies_land_exactly K copy)]"

section \<open>The table is right\<close>

definition g431_names :: "string set" where
  "g431_names = insert ''copy'' (g431_name ` set g431_cases_table)"

lemma g431_table_ok:
  assumes "c \<in> set g431_cases_table"
  shows "0 \<le> g431_src_off c" "0 \<le> g431_dst_off c" "nat (g431_src_off c) + g431_len c < size_limit"
    "nat (g431_dst_off c) + g431_len c < size_limit" "g431_name c \<noteq> ''file''" "g431_name c \<in> g431_names"
    "g431_want c = int (length (read_at (nat (g431_src_off c)) (g431_len c) g431_data))"
    "write_at (nat (g431_dst_off c)) (read_at (nat (g431_src_off c)) (g431_len c) g431_data) [] = g431_content c"
    "length (g431_content c) = g431_expect_len c" "g431_expect_len c < size_limit" "g431_len c \<le> 5000"
  using assms
  by (auto simp: g431_cases_table_def g431_data_def to_bytes_def read_at_def write_at_def size_limit_def g431_names_def)

lemma g431_paths:
  "g431_path a = g431_path b \<longleftrightarrow> a = b" "g431_path a = G431_FILE \<longleftrightarrow> a = ''file''"
  "G431_FILE = g431_path a \<longleftrightarrow> a = ''file''"
  by (auto simp: g431_path_def G431_FILE_def)

context whole_copies
begin

lemma g431_copy_ok:
  assumes "holds c (insert G431_FILE (g431_path ` g431_names)) M Map.empty s" "M G431_FILE = Some g431_data"
    and "nm \<in> g431_names" "nm \<noteq> ''file''" "0 \<le> x" "0 \<le> y" "nat x + n < size_limit" "nat y + n < size_limit" "n \<le> 5000"
    and "k = int (length (read_at (nat x) n g431_data))" "d = write_at (nat y) (read_at (nat x) n g431_data) []"
    and "\<And>t. holds c (insert G431_FILE (g431_path ` g431_names)) (M(g431_path nm \<mapsto> d)) Map.empty t \<Longrightarrow> Q () t"
  shows "wp (expect_ret (g431_copy K copy nm x y n) (\<lambda>r. r = k)) Q s"
  unfolding wp_expect_ret g431_copy_def
  by (rule copy_between_ok [OF assms(1,2), where e = "[]"])
    (use assms g431_paths(2) [of nm] in \<open>auto simp del: length_read_at\<close>)

lemma g431_check_ok:
  assumes "holds cx (insert G431_FILE (g431_path ` g431_names)) M Map.empty s" "M G431_FILE = Some g431_data"
    and "c \<in> set g431_cases_table"
    and "\<And>t. holds cx (insert G431_FILE (g431_path ` g431_names)) (M(g431_path (g431_name c) \<mapsto> g431_content c)) Map.empty t \<Longrightarrow> Q () t"
  shows "wp (g431_check K copy c) Q s"
proof -
  note ok = g431_table_ok [OF assms(3)]
  show ?thesis
    unfolding g431_check_def wp_steps
    apply (rule g431_copy_ok [OF assms(1,2) ok(6,5,1,2,3,4,11,7) ok(8) [symmetric]])
    apply (erule h_expect_stat, simp, simp add: ok(9))
    apply (simp only: wp_do_if wp_steps split: if_splits)
    apply (intro conjI impI)
     apply (erule h_read_range, simp, simp, simp add: ok(10))
     apply (simp add: ok(9) read_at_0 assms(4))
    apply (erule assms(4))
    done
qed

lemma g431_loop_ok:
  assumes "holds cx (insert G431_FILE (g431_path ` g431_names)) M Map.empty s" "M G431_FILE = Some g431_data"
  shows "wp (for_each g431_cases_table (g431_check K copy)) (\<lambda>_ t. kfails t = fst cx) s"
proof (rule wp_for_each [where I = "\<lambda>k t. \<exists>M. M G431_FILE = Some g431_data \<and>
    holds cx (insert G431_FILE (g431_path ` g431_names)) M Map.empty t"], goal_cases)
  case (2 k t)
  then obtain N where N: "N G431_FILE = Some g431_data"
    "holds cx (insert G431_FILE (g431_path ` g431_names)) N Map.empty t" by blast
  have c: "g431_cases_table ! k \<in> set g431_cases_table" using 2(1) by simp
  show ?case
    by (rule g431_check_ok [OF N(2,1) c], rule exI, rule conjI [rotated], assumption)
      (use N(1) g431_table_ok(5) [OF c] in \<open>simp add: g431_paths\<close>)
next
  case (3 t)
  then show ?case by (auto dest: holds_fails)
qed (use assms in auto)

end

lemma stays_g431:
  "stays (\<lambda>t. n \<le> kfails t) (g431_copy K cp nm x y len)" "stays (\<lambda>t. n \<le> kfails t) (g431_check K cp c)"
  unfolding g431_check_def g431_copy_def by (intro failed.stays_ports stays_copy_between)+

context copies
begin

lemma g431_short:
  assumes "ready V ok G431_ROOT s" "hi < 5"
  shows "kfails s < kfails (outcome_state (one_byte_copies_land_exactly K copy s))"
proof -
  have len: "length g431_data = 5" by (simp add: g431_data_def)
  show ?thesis
    unfolding one_byte_copies_land_exactly_def Let_def len
    apply (rule fails_later, rule h_prologue [where U = "insert G431_FILE (g431_path ` g431_names)", OF assms(1)])
     apply (auto simp: G431_FILE_def g431_path_def g431_names_def g431_cases_table_def)[1]
    apply (rule fails_later, simp only: wp_steps)
    apply (erule h_write_fresh, simp, simp, simp add: size_limit_def len, intro conjI refl)
    apply (rule fails_now, unfold g431_copy_def)
     apply (drule short_copy_fails [where p = G431_FILE and q = "g431_path ''copy''" and n = 5])
            apply (use assms(2) in \<open>auto simp: size_limit_def g431_paths g431_names_def\<close>)[8]
    apply (intro failed.stays_ports stays_g431)
    done
qed

end

context whole_copies
begin

lemma g431_run_ok:
  assumes "ready V ok G431_ROOT s"
  shows "passes (one_byte_copies_land_exactly K copy) s"
proof -
  have p: "G431_ROOT @ ''/copy'' = g431_path ''copy''" by (simp add: g431_path_def)
  have len: "length g431_data = 5" by (simp add: g431_data_def)
  have whole: "read_at 0 5 g431_data = g431_data" "write_at 0 g431_data [] = g431_data"
    using len by (simp_all add: read_at_0 write_at_def)
  show ?thesis
    unfolding passes_def one_byte_copies_land_exactly_def Let_def p len
    apply (simp only: wp_steps)
    apply (rule h_prologue [where U = "insert G431_FILE (g431_path ` g431_names)", OF assms])
     apply (auto simp: G431_FILE_def g431_path_def g431_names_def g431_cases_table_def)[1]
    apply (erule h_write_fresh, simp, simp, simp add: size_limit_def len, intro conjI refl)
    apply (erule g431_copy_ok [where d = g431_data], simp, simp add: g431_names_def, simp, simp, simp, simp add: size_limit_def,
        simp add: size_limit_def, simp, simp add: len, simp add: whole)
    apply (erule h_read_range, simp, simp, simp add: size_limit_def)
    apply (simp only: wp_steps nat_0 whole len)
    apply (rule wp_kunit_expectI, simp add: len)
    apply (drule g431_loop_ok, simp add: g431_paths, simp)
    done
qed

end

end
