(* ===== verification/Gen432.thy ===== *)
theory Gen432
  imports Copies
begin

text \<open>
  \<open>kunit/xfstests/generic/432.c\<close>: copies of thousand-byte runs rearrange an existing file, and
  a last one grows it.  The contents are read as a word with one letter per run.
\<close>

definition G432_ROOT :: string where "G432_ROOT = XFS_MNT @ ''/g432''"
definition G432_FILE :: string where "G432_FILE = G432_ROOT @ ''/file''"
definition G432_COPY :: string where "G432_COPY = G432_ROOT @ ''/copy''"
definition G432_RUN :: nat where "G432_RUN = 1000"
definition G432_SIZE :: nat where "G432_SIZE = 5000"

definition g432_remove_tree :: "'w kernel \<Rightarrow> (('w, 'z) kst_scheme, unit) prog" where
  "g432_remove_tree K = seq [ignore (xfs_unlink K G432_COPY), ignore (xfs_unlink K G432_FILE),
     ignore (xfs_rmdir_settled K G432_ROOT)]"

definition g432_copy ::
  "'w kernel \<Rightarrow> (nat \<Rightarrow> int \<Rightarrow> nat \<Rightarrow> int \<Rightarrow> nat \<Rightarrow> nat \<Rightarrow> 'w \<Rightarrow> int \<times> 'w) \<Rightarrow> int \<Rightarrow> int \<Rightarrow> nat \<Rightarrow> bool \<Rightarrow>
   (('w, 'z) kst_scheme, int) prog" where
  "g432_copy K copy src_off dst_off len create =
     copy_between K copy G432_FILE G432_COPY ({O_RDWR, O_CREAT} \<union> (if create then {O_TRUNC} else {})) src_off dst_off len"

definition g432_expect :: "'w kernel \<Rightarrow> string \<Rightarrow> (('w, 'z) kst_scheme, unit) prog" where
  "g432_expect K runs = seq [
     expect_stat K G432_COPY (\<lambda>st. st_size st = int (length runs * G432_RUN)),
     ignore (for_while [0..<length runs] (\<lambda>i.
       bnd (xfs_read_range K G432_COPY G432_RUN (int (i * G432_RUN))) (\<lambda>(n, buf).
       bnd (kunit_assert (n = int G432_RUN)) (\<lambda>_.
       case first_diff buf (replicate G432_RUN (of_char (runs ! i))) of
         None \<Rightarrow> ret True | Some j \<Rightarrow> bnd kunit_fail (\<lambda>_. ret False)))))]"

definition thousand_byte_copies_rearrange_an_existing_file ::
  "'w kernel \<Rightarrow> (nat \<Rightarrow> int \<Rightarrow> nat \<Rightarrow> int \<Rightarrow> nat \<Rightarrow> nat \<Rightarrow> 'w \<Rightarrow> int \<times> 'w) \<Rightarrow> (('w, 'z) fxs_scheme, unit) prog" where
  \<comment> \<open>\<open>copy\<close> is \<open>vfs_copy_file_range\<close>\<close>
  "thousand_byte_copies_rearrange_an_existing_file K copy = seq [
     test_prologue K G432_ROOT ''g432_remove_tree'' (g432_remove_tree K),
     must_alloc K G432_RUN,
     must_open (kcall (filp_open K G432_FILE {O_RDWR, O_CREAT, O_TRUNC} (mode3 6 4 4))) (\<lambda>f. seq [
       write_runs K f G432_RUN (G432_SIZE div G432_RUN),
       must (kcall (vfs_fsync K f)),
       kdo (filp_close K f)]),
     expect_ret (g432_copy K copy 0 0 G432_SIZE True) (\<lambda>n. n = int G432_SIZE),
     g432_expect K ''abcde'',
     expect_ret (g432_copy K copy 4000 0 1000 False) (\<lambda>n. n = 1000),
     expect_ret (g432_copy K copy 0 4000 1000 False) (\<lambda>n. n = 1000),
     g432_expect K ''ebcda'',
     expect_ret (g432_copy K copy 1000 3000 1000 False) (\<lambda>n. n = 1000),
     expect_ret (g432_copy K copy 3000 1000 1000 False) (\<lambda>n. n = 1000),
     g432_expect K ''edcba'',
     expect_ret (g432_copy K copy 1000 3000 4000 False) (\<lambda>n. n = 4000),
     g432_expect K ''edcbcde'']"

definition g432_suite ::
  "'w kernel \<Rightarrow> (nat \<Rightarrow> int \<Rightarrow> nat \<Rightarrow> int \<Rightarrow> nat \<Rightarrow> nat \<Rightarrow> 'w \<Rightarrow> int \<times> 'w) \<Rightarrow> ('w, 'z) fxs_scheme suite" where
  "g432_suite K copy = nfs_suite K ''xfstests/generic/432''
     [(''thousand_byte_copies_rearrange_an_existing_file'', thousand_byte_copies_rearrange_an_existing_file K copy)]"

section \<open>Files as words\<close>

definition blow :: "nat \<Rightarrow> byte list \<Rightarrow> byte list" where
  \<comment> \<open>every letter as a run\<close>
  "blow run v = concat (map (replicate run) v)"

lemma blow_simps [simp]:
  "blow run [] = []" "blow run (c # v) = replicate run c @ blow run v" "blow run (v @ u) = blow run v @ blow run u"
  "length (blow run v) = length v * run"
  by (simp_all add: blow_def length_concat comp_def sum_list_triv)

lemma blow_0 [simp]: "blow 0 v = []"
  by (simp add: blow_def)

lemma blow_take: "take (i * run) (blow run v) = blow run (take i v)"
proof (induction v arbitrary: i)
  case (Cons c v)
  show ?case
  proof (cases i)
    case (Suc j)
    then show ?thesis using Cons.IH [of j] by simp
  qed simp
qed simp

lemma blow_drop: "drop (i * run) (blow run v) = blow run (drop i v)"
proof (induction v arbitrary: i)
  case (Cons c v)
  show ?case
  proof (cases i)
    case (Suc j)
    then show ?thesis using Cons.IH [of j] by simp
  qed simp
qed simp

text \<open>A read or write of whole runs is the same read or write of letters.\<close>

lemma blow_read: "read_at (i * run) (k * run) (blow run v) = blow run (read_at i k v)"
  by (simp add: read_at_def blow_drop blow_take)

lemma blow_write:
  assumes "i \<le> length v" "0 < run"
  shows "write_at (i * run) (blow run u) (blow run v) = blow run (write_at i u v)"
proof (cases "u = []")
  case False
  then have "blow run u \<noteq> []" using assms(2) by (cases u) auto
  moreover have "i * run + length u * run = (i + length u) * run" by (simp add: add_mult_distrib)
  moreover have "i * run \<le> length v * run" using assms(1) by simp
  ultimately show ?thesis
    using False assms(1) by (simp add: write_at_def blow_take blow_drop)
qed simp

lemma runs_of_blow: "runs_of run 5 = blow run (to_bytes ''abcde'')"
  by (simp add: runs_of_def blow_def to_bytes_def upt_rec)

context whole_copies
begin

abbreviation (input) g432_files :: "string \<Rightarrow> string \<rightharpoonup> byte list" where
  "g432_files v \<equiv> [G432_FILE \<mapsto> blow G432_RUN (to_bytes ''abcde''), G432_COPY \<mapsto> blow G432_RUN (to_bytes v)]"

lemma g432_expect_ok:
  assumes "holds c U M H s" "M G432_COPY = Some (blow G432_RUN (to_bytes v))" "length v < 10" "\<And>t. holds c U M H t \<Longrightarrow> Q () t"
  shows "wp (g432_expect K v) Q s"
  unfolding g432_expect_def wp_steps
proof (rule h_expect_stat [OF assms(1,2)], simp, rule wp_for_while_range [where I = "\<lambda>_. holds c U M H"],
    assumption, simp, goal_cases)
  case (1 t i u)
  have r: "read_at (i * G432_RUN) (1 * G432_RUN) (blow G432_RUN (to_bytes v)) = replicate G432_RUN (of_char (v ! i))"
    unfolding blow_read using 1(3)
    by (simp add: read_at_def to_bytes_def Cons_nth_drop_Suc [symmetric, of i] drop_map)
  show ?case
    unfolding wp_steps
    by (rule h_read_range [OF 1(4) assms(2)])
      (use 1 assms(3) r in \<open>auto simp: G432_RUN_def size_limit_def nat_mult_distrib\<close>)
qed (simp add: assms(4))

lemma g432_step:
  assumes "holds c {G432_FILE, G432_COPY} (g432_files v) Map.empty t" "k = int (n * G432_RUN)"
    and "x = int (i * G432_RUN)" "y = int (j * G432_RUN)" "m = n * G432_RUN" "i + n \<le> 5" "j + n \<le> 7" "j \<le> length v"
    and "to_bytes v' = write_at j (read_at i n (to_bytes ''abcde'')) (to_bytes v)"
    and "\<And>t. holds c {G432_FILE, G432_COPY} (g432_files v') Map.empty t \<Longrightarrow> Q () t"
  shows "wp (expect_ret (g432_copy K copy x y m False) (\<lambda>r. r = k)) Q t"
proof -
  have ne: "G432_FILE \<noteq> G432_COPY" by (simp add: G432_FILE_def G432_COPY_def)
  have b: "i * G432_RUN + n * G432_RUN < size_limit" "j * G432_RUN + n * G432_RUN < size_limit" "n * G432_RUN \<le> 5000"
    using assms(6,7) by (simp_all add: G432_RUN_def size_limit_def)
  have e: "write_at (j * G432_RUN) (read_at (i * G432_RUN) (n * G432_RUN) (blow G432_RUN (to_bytes ''abcde'')))
      (blow G432_RUN (to_bytes v)) = blow G432_RUN (to_bytes v')"
    unfolding blow_read using assms(8,9) by (subst blow_write) (simp_all add: G432_RUN_def)
  have l: "length (read_at (i * G432_RUN) (n * G432_RUN) (blow G432_RUN (to_bytes ''abcde''))) = n * G432_RUN"
    unfolding blow_read using assms(6) by simp
  show ?thesis
    unfolding wp_expect_ret g432_copy_def assms(2-5)
    by (rule copy_between_ok [OF assms(1), where d = "blow G432_RUN (to_bytes ''abcde'')" and e = "blow G432_RUN (to_bytes v)"])
      (use ne b in \<open>simp_all add: e l assms(10) del: of_nat_mult length_read_at\<close>)
qed

end

lemma stays_g432:
  "stays (\<lambda>t. n \<le> kfails t) (g432_copy K cp x y len b)" "stays (\<lambda>t. n \<le> kfails t) (g432_expect K v)"
  unfolding g432_copy_def g432_expect_def by (intro failed.stays_ports stays_copy_between)+

context copies
begin

lemma g432_short:
  assumes "ready V ok G432_ROOT s" "hi < 5000"
  shows "kfails s < kfails (outcome_state (thousand_byte_copies_rearrange_an_existing_file K copy s))"
proof -
  let ?fl = "{O_RDWR, O_CREAT, O_TRUNC}"
  show ?thesis
    unfolding thousand_byte_copies_rearrange_an_existing_file_def
    apply (rule fails_later, rule h_prologue [where U = "{G432_FILE, G432_COPY}", OF assms(1)])
     apply (auto simp: G432_FILE_def G432_COPY_def)[1]
    apply (rule fails_later, erule h_alloc)
    apply (rule fails_later, simp only: wp_steps)
    apply (erule h_create, simp, simp, simp)
    apply (simp only: wp_steps)
    apply (erule write_runs_ok, simp, simp, simp add: G432_SIZE_def G432_RUN_def size_limit_def)
    apply (erule h_fsync [where p = G432_FILE and fl = ?fl], simp, simp, intro conjI refl)
    apply (erule h_close_same, simp)
    apply (rule fails_now, unfold g432_copy_def)
     apply (drule short_copy_fails [where p = G432_FILE and q = G432_COPY and n = G432_SIZE])
            apply (use assms(2) in \<open>auto simp: G432_SIZE_def size_limit_def G432_FILE_def G432_COPY_def\<close>)[8]
    apply (intro failed.stays_ports stays_g432 stays_copy_between)
    done
qed

end

context whole_copies
begin

lemma g432_run_ok:
  assumes "ready V ok G432_ROOT s"
  shows "passes (thousand_byte_copies_rearrange_an_existing_file K copy) s"
proof -
  let ?fl = "{O_RDWR, O_CREAT, O_TRUNC}"
  have ne: "G432_FILE \<noteq> G432_COPY" by (simp add: G432_FILE_def G432_COPY_def)
  have all: "runs_of G432_RUN (G432_SIZE div G432_RUN) = blow G432_RUN (to_bytes ''abcde'')"
    using runs_of_blow [of G432_RUN] by (simp add: G432_SIZE_def G432_RUN_def)
  have w0: "write_at 0 d [] = d" for d by (cases "d = []") (simp_all add: write_at_def)
  have first: "wp (expect_ret (g432_copy K copy 0 0 G432_SIZE True) (\<lambda>n. n = int G432_SIZE)) Q t"
    if "holds c {G432_FILE, G432_COPY} [G432_FILE \<mapsto> blow G432_RUN (to_bytes ''abcde'')] Map.empty t"
      "\<And>t. holds c {G432_FILE, G432_COPY} (g432_files ''abcde'') Map.empty t \<Longrightarrow> Q () t" for c t Q
    unfolding wp_expect_ret g432_copy_def
    by (rule copy_between_ok [OF that(1), where d = "blow G432_RUN (to_bytes ''abcde'')" and e = "[]"])
      (use that(2) ne in \<open>simp_all add: G432_SIZE_def G432_RUN_def size_limit_def read_at_0 w0\<close>)
  note c = write_at_def read_at_def to_bytes_def
  show ?thesis
    unfolding passes_def thousand_byte_copies_rearrange_an_existing_file_def
    apply (simp only: wp_steps)
    apply (rule h_prologue [where U = "{G432_FILE, G432_COPY}", OF assms])
     apply (auto simp: G432_FILE_def G432_COPY_def)[1]
    apply (erule h_alloc)
    apply (erule h_create, simp, simp, simp)
    apply (simp only: wp_steps)
    apply (erule write_runs_ok, simp, simp, simp add: G432_SIZE_def G432_RUN_def size_limit_def)
    apply (erule h_fsync [where p = G432_FILE and fl = ?fl], simp, simp, intro conjI refl)
    apply (erule h_close_same, simp)
    apply (simp only: all)
    apply (erule first)
    apply (erule g432_expect_ok, simp, simp)
    apply (erule g432_step [where v' = "''ebcde''" and i = 4 and j = 0 and n = 1]; (simp add: G432_RUN_def c; fail)?)
    apply (erule g432_step [where v' = "''ebcda''" and i = 0 and j = 4 and n = 1]; (simp add: G432_RUN_def c; fail)?)
    apply (erule g432_expect_ok, simp, simp)
    apply (erule g432_step [where v' = "''ebcba''" and i = 1 and j = 3 and n = 1]; (simp add: G432_RUN_def c; fail)?)
    apply (erule g432_step [where v' = "''edcba''" and i = 3 and j = 1 and n = 1]; (simp add: G432_RUN_def c; fail)?)
    apply (erule g432_expect_ok, simp, simp)
    apply (erule g432_step [where v' = "''edcbcde''" and i = 1 and j = 3 and n = 4]; (simp add: G432_RUN_def c; fail)?)
    apply (erule g432_expect_ok, simp, simp)
    apply (drule holds_fails, simp)
    done
qed

end

end
