(* ===== verification/Gen433.thy ===== *)
theory Gen433
  imports Copies
begin

text \<open>
  \<open>kunit/xfstests/generic/433.c\<close>: copies of single bytes rearrange an existing file, and a last
  one grows it.
\<close>

definition G433_ROOT :: string where "G433_ROOT = XFS_MNT @ ''/g433''"
definition G433_FILE :: string where "G433_FILE = G433_ROOT @ ''/file''"
definition G433_COPY :: string where "G433_COPY = G433_ROOT @ ''/copy''"

definition g433_remove_tree :: "'w kernel \<Rightarrow> (('w, 'z) kst_scheme, unit) prog" where
  "g433_remove_tree K = seq [ignore (xfs_unlink K G433_COPY), ignore (xfs_unlink K G433_FILE),
     ignore (xfs_rmdir_settled K G433_ROOT)]"

definition g433_copy ::
  "'w kernel \<Rightarrow> (nat \<Rightarrow> int \<Rightarrow> nat \<Rightarrow> int \<Rightarrow> nat \<Rightarrow> nat \<Rightarrow> 'w \<Rightarrow> int \<times> 'w) \<Rightarrow> int \<Rightarrow> int \<Rightarrow> nat \<Rightarrow> bool \<Rightarrow>
   (('w, 'z) kst_scheme, int) prog" where
  "g433_copy K copy src_off dst_off len create =
     copy_between K copy G433_FILE G433_COPY ({O_RDWR, O_CREAT} \<union> (if create then {O_TRUNC} else {})) src_off dst_off len"

definition g433_expect :: "'w kernel \<Rightarrow> string \<Rightarrow> (('w, 'z) kst_scheme, unit) prog" where
  "g433_expect K want = (let len = length want in seq [
     expect_stat K G433_COPY (\<lambda>st. st_size st = int len),
     bnd (xfs_read_range K G433_COPY len 0) (\<lambda>(n, got). seq [
       kunit_assert (n = int len),
       kunit_expect (take len got = to_bytes want)])])"

definition copies_rearrange_an_existing_file ::
  "'w kernel \<Rightarrow> (nat \<Rightarrow> int \<Rightarrow> nat \<Rightarrow> int \<Rightarrow> nat \<Rightarrow> nat \<Rightarrow> 'w \<Rightarrow> int \<times> 'w) \<Rightarrow> (('w, 'z) fxs_scheme, unit) prog" where
  \<comment> \<open>\<open>copy\<close> is \<open>vfs_copy_file_range\<close>\<close>
  "copies_rearrange_an_existing_file K copy = seq [
     test_prologue K G433_ROOT ''g433_remove_tree'' (g433_remove_tree K),
     must (xfs_write_new_file K G433_FILE (to_bytes ''abcde'')),
     expect_ret (g433_copy K copy 0 0 5 True) (\<lambda>n. n = 5),
     g433_expect K ''abcde'',
     expect_ret (g433_copy K copy 0 4 1 False) (\<lambda>n. n = 1),
     expect_ret (g433_copy K copy 4 0 1 False) (\<lambda>n. n = 1),
     g433_expect K ''ebcda'',
     expect_ret (g433_copy K copy 1 3 1 False) (\<lambda>n. n = 1),
     expect_ret (g433_copy K copy 3 1 1 False) (\<lambda>n. n = 1),
     g433_expect K ''edcba'',
     expect_ret (g433_copy K copy 1 3 4 False) (\<lambda>n. n = 4),
     g433_expect K ''edcbcde'']"

definition g433_suite ::
  "'w kernel \<Rightarrow> (nat \<Rightarrow> int \<Rightarrow> nat \<Rightarrow> int \<Rightarrow> nat \<Rightarrow> nat \<Rightarrow> 'w \<Rightarrow> int \<times> 'w) \<Rightarrow> ('w, 'z) fxs_scheme suite" where
  "g433_suite K copy = nfs_suite K ''xfstests/generic/433''
     [(''copies_rearrange_an_existing_file'', copies_rearrange_an_existing_file K copy)]"

context whole_copies
begin

lemma g433_copy_ok:
  assumes "holds c {G433_FILE, G433_COPY} M Map.empty s" "M G433_FILE = Some d" "length d \<le> 5"
    and "0 \<le> x" "0 \<le> y" "nat x + n < size_limit" "nat y + n < size_limit"
    and "e = (if create then [] else case M G433_COPY of None \<Rightarrow> [] | Some e \<Rightarrow> e)" "nat x + n \<le> length d"
    and "b = write_at (nat y) (read_at (nat x) n d) e"
    and "\<And>t. holds c {G433_FILE, G433_COPY} (M(G433_COPY \<mapsto> b)) Map.empty t \<Longrightarrow> Q (int n) t"
  shows "wp (g433_copy K copy x y n create) Q s"
  unfolding g433_copy_def
  by (rule copy_between_ok [OF assms(1,2) _ _ _ _ _ _ _ assms(4-7), where e = e])
    (use assms(3,8-11) in \<open>auto simp: G433_FILE_def G433_COPY_def min_def split: if_splits\<close>)

lemma g433_expect_ok:
  assumes "holds c U M H s" "M G433_COPY = Some (to_bytes v)" "length v < size_limit" "\<And>t. holds c U M H t \<Longrightarrow> Q () t"
  shows "wp (g433_expect K v) Q s"
  unfolding g433_expect_def Let_def wp_unfold
  apply (rule h_expect_stat [OF assms(1,2)], simp)
  apply (erule h_read_range, rule assms(2), simp, simp add: assms(3))
  apply (simp add: read_at_0 assms(4))
  done

abbreviation (input) g433_files :: "string \<Rightarrow> string \<rightharpoonup> byte list" where
  "g433_files v \<equiv> [G433_FILE \<mapsto> to_bytes ''abcde'', G433_COPY \<mapsto> to_bytes v]"

lemma g433_look:
  assumes "holds c {G433_FILE, G433_COPY} (g433_files v) Map.empty t" "length v < 10"
    and "\<And>t. holds c {G433_FILE, G433_COPY} (g433_files v) Map.empty t \<Longrightarrow> Q () t"
  shows "wp (g433_expect K v) Q t"
  by (rule g433_expect_ok [OF assms(1)]) (use assms in \<open>simp_all add: size_limit_def\<close>)

lemma g433_step:
  assumes "holds c {G433_FILE, G433_COPY} (g433_files v) Map.empty t" "k = int n" "0 \<le> x" "0 \<le> y"
    and "nat x + n \<le> 5" "nat y + n \<le> 7"
    and "to_bytes v' = write_at (nat y) (read_at (nat x) n (to_bytes ''abcde'')) (to_bytes v)"
    and "\<And>t. holds c {G433_FILE, G433_COPY} (g433_files v') Map.empty t \<Longrightarrow> Q () t"
  shows "wp (expect_ret (g433_copy K copy x y n False) (\<lambda>r. r = k)) Q t"
proof -
  have ne: "G433_FILE \<noteq> G433_COPY" by (simp add: G433_FILE_def G433_COPY_def)
  show ?thesis
    unfolding wp_expect_ret
    by (rule g433_copy_ok [OF assms(1) _ _ assms(3,4), where e = "to_bytes v" and b = "to_bytes v'"])
      (use assms ne in \<open>simp_all add: size_limit_def\<close>)
qed

end

lemma stays_g433:
  "stays (\<lambda>t. n \<le> kfails t) (g433_copy K cp x y len b)" "stays (\<lambda>t. n \<le> kfails t) (g433_expect K v)"
  unfolding g433_copy_def g433_expect_def Let_def by (intro failed.stays_ports stays_copy_between)+

context copies
begin

lemma g433_short:
  assumes "ready V ok G433_ROOT s" "hi < 5"
  shows "kfails s < kfails (outcome_state (copies_rearrange_an_existing_file K copy s))"
  unfolding copies_rearrange_an_existing_file_def
  apply (rule fails_later, rule h_prologue [where U = "{G433_FILE, G433_COPY}", OF assms(1)])
   apply (auto simp: G433_FILE_def G433_COPY_def)[1]
  apply (rule fails_later, simp only: wp_steps)
  apply (erule h_write_fresh, simp, simp, simp add: size_limit_def, intro conjI refl)
  apply (rule fails_now, unfold g433_copy_def)
   apply (drule short_copy_fails [where p = G433_FILE and q = G433_COPY and n = 5])
          apply (use assms(2) in \<open>auto simp: size_limit_def G433_FILE_def G433_COPY_def\<close>)[8]
  apply (intro failed.stays_ports stays_g433 stays_copy_between)
  done

end

context whole_copies
begin

lemma g433_run_ok:
  assumes "ready V ok G433_ROOT s"
  shows "passes (copies_rearrange_an_existing_file K copy) s"
proof -
  have ne: "G433_FILE \<noteq> G433_COPY" by (simp add: G433_FILE_def G433_COPY_def)
  note c = write_at_def read_at_def to_bytes_def
  show ?thesis
    unfolding passes_def copies_rearrange_an_existing_file_def
    apply (simp only: wp_steps)
    apply (rule h_prologue [where U = "{G433_FILE, G433_COPY}", OF assms])
     apply (auto simp: G433_FILE_def G433_COPY_def)[1]
    apply (erule h_write_fresh, simp, simp, simp add: size_limit_def, intro conjI refl)
    apply (rule wp_expect_retI, erule g433_copy_ok [where b = "to_bytes ''abcde''"], simp, simp, simp, simp,
        simp add: size_limit_def, simp add: size_limit_def, simp, simp, simp add: c, rule conjI, simp)
    apply (erule g433_look, simp)
    apply (erule g433_step [where v' = "''abcda''"], simp, simp, simp, simp, simp, simp add: c)
    apply (erule g433_step [where v' = "''ebcda''"], simp, simp, simp, simp, simp, simp add: c)
    apply (erule g433_look, simp)
    apply (erule g433_step [where v' = "''ebcba''"], simp, simp, simp, simp, simp, simp add: c)
    apply (erule g433_step [where v' = "''edcba''"], simp, simp, simp, simp, simp, simp add: c)
    apply (erule g433_look, simp)
    apply (erule g433_step [where v' = "''edcbcde''"], simp, simp, simp, simp, simp, simp add: c)
    apply (erule g433_look, simp)
    apply (drule holds_fails, simp)
    done
qed

end

end
