(* ===== verification/Gen436.thy ===== *)
theory Gen436
  imports Seeks
begin

text \<open>
  \<open>kunit/xfstests/generic/436.c\<close>: \<open>SEEK_HOLE\<close> and \<open>SEEK_DATA\<close> over preallocated space with dirty
  runs in it, cases 13 to 16 of seek_sanity_test.  The four cases are blocks of one C function;
  each is a definition here.
\<close>

definition G436_ROOT :: string where "G436_ROOT = XFS_MNT @ ''/g436''"
definition G436_BASE :: string where "G436_BASE = G436_ROOT @ ''/seek_sanity_testfile''"
definition G436_FILSZ :: int where "G436_FILSZ = 4194304"

definition g436_path :: "nat \<Rightarrow> string" where "g436_path i = G436_BASE @ dec02 i"

definition g436_remove_tree :: "'w kernel \<Rightarrow> (('w, 'z) kst_scheme, unit) prog" where
  "g436_remove_tree K = seq [
     ignore (xfs_unlink K G436_BASE),
     for_each [13..<17] (\<lambda>i. ignore (xfs_unlink K (g436_path i))),
     ignore (xfs_rmdir_settled K G436_ROOT)]"

definition g436_pwrite :: "'w kernel \<Rightarrow> nat \<Rightarrow> byte list \<Rightarrow> int \<Rightarrow> int \<Rightarrow> (('w, 'z) kst_scheme, unit) prog" where
  "g436_pwrite K f buf len pos = must_ret (kcall (kernel_write K f (take (nat len) buf) pos)) (\<lambda>(n, _). n = len)"

definition g436_alloc_size ::
  "'w kernel \<Rightarrow> (nat \<Rightarrow> int \<Rightarrow> whence \<Rightarrow> 'w \<Rightarrow> int \<times> 'w) \<Rightarrow> nat \<Rightarrow> (('w, 'z) kst_scheme, int) prog" where
  "g436_alloc_size K seek = alloc_size K seek G436_BASE"

definition g436_lseek ::
  "(nat \<Rightarrow> int \<Rightarrow> whence \<Rightarrow> 'w \<Rightarrow> int \<times> 'w) \<Rightarrow> nat \<Rightarrow> int \<Rightarrow> whence \<Rightarrow> int \<Rightarrow> int \<Rightarrow> (('w, 'z) kst_scheme, unit) prog" where
  "g436_lseek seek f filsz origin start exp = (let exp2 = (if origin = SEEK_HOLE \<and> exp \<noteq> - 1 then filsz else exp) in
     bnd (kcall (seek f start origin)) (\<lambda>pos.
       if exp = - 1 then kunit_expect (pos = - ENXIO) else kunit_expect (pos = exp \<or> pos = exp2)))"

definition g436_create :: "'w kernel \<Rightarrow> nat \<Rightarrow> (nat \<Rightarrow> (('w, 'z) kst_scheme, unit) prog) \<Rightarrow> (('w, 'z) kst_scheme, unit) prog" where
  "g436_create K testnum = must_open (kcall (filp_open K (g436_path testnum) {O_RDWR, O_CREAT, O_TRUNC} (mode3 6 4 4)))"

definition roundup :: "int \<Rightarrow> int \<Rightarrow> int" where
  "roundup x y = (x + (y - 1)) div y * y"

definition g436_13 ::
  "'w kernel \<Rightarrow> (nat \<Rightarrow> int \<Rightarrow> whence \<Rightarrow> 'w \<Rightarrow> int \<times> 'w) \<Rightarrow> byte list \<Rightarrow> int \<Rightarrow> int \<Rightarrow> (('w, 'z) kst_scheme, unit) prog" where
  "g436_13 K seek buf bufsz filsz = g436_create K 13 (\<lambda>f. seq [
     must (kcall (vfs_fallocate K f {} 0 filsz)),
     g436_pwrite K f buf bufsz 0,
     g436_lseek seek f filsz SEEK_HOLE 0 bufsz,
     g436_lseek seek f filsz SEEK_HOLE 1 bufsz,
     g436_lseek seek f filsz SEEK_DATA 0 0,
     g436_lseek seek f filsz SEEK_DATA 1 1,
     kdo (filp_close K f)])"

definition g436_14 ::
  "'w kernel \<Rightarrow> (nat \<Rightarrow> int \<Rightarrow> whence \<Rightarrow> 'w \<Rightarrow> int \<times> 'w) \<Rightarrow> byte list \<Rightarrow> int \<Rightarrow> int \<Rightarrow> (('w, 'z) kst_scheme, unit) prog" where
  "g436_14 K seek buf bufsz filsz = g436_create K 14 (\<lambda>f. seq [
     must (kcall (vfs_fallocate K f {} 0 filsz)),
     g436_pwrite K f buf bufsz 0,
     g436_pwrite K f buf bufsz (3 * bufsz),
     g436_lseek seek f filsz SEEK_HOLE 0 bufsz,
     g436_lseek seek f filsz SEEK_HOLE 1 bufsz,
     g436_lseek seek f filsz SEEK_HOLE (3 * bufsz) (4 * bufsz),
     g436_lseek seek f filsz SEEK_DATA 0 0,
     g436_lseek seek f filsz SEEK_DATA 1 1,
     g436_lseek seek f filsz SEEK_DATA bufsz (3 * bufsz),
     kdo (filp_close K f)])"

definition g436_15 ::
  "'w kernel \<Rightarrow> (nat \<Rightarrow> int \<Rightarrow> whence \<Rightarrow> 'w \<Rightarrow> int \<times> 'w) \<Rightarrow> byte list \<Rightarrow> int \<Rightarrow> int \<Rightarrow> (('w, 'z) kst_scheme, unit) prog" where
  "g436_15 K seek buf bufsz filsz = g436_create K 15 (\<lambda>f. seq [
     must (kcall (vfs_fallocate K f {} 0 filsz)),
     g436_pwrite K f buf bufsz 0,
     g436_pwrite K f buf bufsz filsz,
     g436_lseek seek f (filsz + bufsz) SEEK_HOLE 0 bufsz,
     g436_lseek seek f (filsz + bufsz) SEEK_HOLE 1 bufsz,
     g436_lseek seek f (filsz + bufsz) SEEK_DATA 0 0,
     g436_lseek seek f (filsz + bufsz) SEEK_DATA 1 1,
     g436_lseek seek f (filsz + bufsz) SEEK_DATA bufsz filsz,
     kdo (filp_close K f)])"

definition g436_16 ::
  "'w kernel \<Rightarrow> (nat \<Rightarrow> int \<Rightarrow> whence \<Rightarrow> 'w \<Rightarrow> int \<times> 'w) \<Rightarrow> byte list \<Rightarrow> int \<Rightarrow> int \<Rightarrow> (('w, 'z) kst_scheme, unit) prog" where
  "g436_16 K seek buf bufsz filsz = g436_create K 16 (\<lambda>f. seq [
     must (kcall (vfs_fallocate K f {} 0 filsz)),
     g436_pwrite K f buf bufsz 0,
     g436_pwrite K f buf bufsz (filsz div 2),
     g436_lseek seek f filsz SEEK_HOLE 0 bufsz,
     g436_lseek seek f filsz SEEK_HOLE 1 bufsz,
     g436_lseek seek f filsz SEEK_DATA 0 0,
     g436_lseek seek f filsz SEEK_DATA 1 1,
     g436_lseek seek f filsz SEEK_DATA bufsz (filsz div 2),
     g436_lseek seek f filsz SEEK_HOLE (filsz div 2) (filsz div 2 + bufsz),
     kdo (filp_close K f)])"

definition seek_over_unwritten_extents_with_dirty_data ::
  "'w kernel \<Rightarrow> (nat \<Rightarrow> int \<Rightarrow> whence \<Rightarrow> 'w \<Rightarrow> int \<times> 'w) \<Rightarrow> (('w, 'z) fxs_scheme, unit) prog" where
  "seek_over_unwritten_extents_with_dirty_data K seek = seq [
     test_prologue K G436_ROOT ''g436_remove_tree'' (g436_remove_tree K),
     must (xfs_write_new_file K G436_BASE []),
     must_open (kcall (filp_open K G436_BASE {O_RDWR} 0)) (\<lambda>f.
       bnd (g436_alloc_size K seek f) (\<lambda>alloc. seq [
         kunit_info (''Allocation size: '' @ dec_int alloc),
         must (xfs_ftruncate K f 0),
         must (kcall (vfs_fallocate K f {} 0 (alloc * 2))),
         bnd (kcall (seek f 0 SEEK_DATA)) (\<lambda>pos. seq [
           kdo (filp_close K f),
           do_if (pos = 0) kunit_skip]),
         (let bufsz = roundup (int PAGE_SIZE * 14) alloc;
              buf = replicate (nat bufsz) (of_char (CHR ''a''));
              filsz = G436_FILSZ;
              bufsz1 = roundup (int PAGE_SIZE) alloc in seq [
            must_alloc K (nat bufsz),
            g436_13 K seek buf bufsz filsz,
            g436_14 K seek buf bufsz filsz,
            g436_15 K seek buf bufsz1 filsz,
            g436_16 K seek buf bufsz1 filsz])]))]"

definition g436_suite :: "'w kernel \<Rightarrow> (nat \<Rightarrow> int \<Rightarrow> whence \<Rightarrow> 'w \<Rightarrow> int \<times> 'w) \<Rightarrow> ('w, 'z) fxs_scheme suite" where
  "g436_suite K seek = nfs_suite K ''xfstests/generic/436''
     [(''seek_over_unwritten_extents_with_dirty_data'', seek_over_unwritten_extents_with_dirty_data K seek)]"

section \<open>The four cases\<close>

lemma g436_sizes: "PAGE_SIZE dvd 0" "PAGE_SIZE dvd 57344" "PAGE_SIZE dvd 172032" "PAGE_SIZE dvd 4096" "PAGE_SIZE dvd 4194304"
  "PAGE_SIZE dvd 2097152"
  by (simp_all add: PAGE_SIZE_def)

text \<open>The file of a case, with a run of \<open>n\<close> bytes at the start and one at \<open>b\<close>.\<close>

lemma g436_runs: "PAGE_SIZE dvd b \<Longrightarrow> PAGE_SIZE dvd n \<Longrightarrow> X = pages 0 n \<union> pages b n \<Longrightarrow>
   i div PAGE_SIZE \<in> X \<longleftrightarrow> i < n \<or> b \<le> i \<and> i < b + n"
  by (simp add: page_aligned)

lemma g436_seek:
  assumes "X = pages 0 n \<union> pages b n" "PAGE_SIZE dvd b" "PAGE_SIZE dvd n" "1 < n" "n < b \<or> b = 0" "b + n \<le> sz"
  shows "seek_in X sz 0 SEEK_HOLE = int n" "seek_in X sz 1 SEEK_HOLE = int n"
    "seek_in X sz 0 SEEK_DATA = 0" "seek_in X sz 1 SEEK_DATA = 1"
    "n < b \<Longrightarrow> seek_in X sz (int n) SEEK_DATA = int b" "seek_in X sz (int b) SEEK_HOLE = int (b + n)"
proof -
  note m = g436_runs [OF assms(2,3,1)]
  show "seek_in X sz 0 SEEK_HOLE = int n" by (rule seek_hole) (use assms(4-6) in \<open>auto simp: m\<close>)
  show "seek_in X sz 1 SEEK_HOLE = int n" by (rule seek_hole) (use assms(4-6) in \<open>auto simp: m\<close>)
  show "seek_in X sz 0 SEEK_DATA = 0" using seek_data [of 0 0 sz X] assms(4-6) m [of 0] by simp
  show "seek_in X sz 1 SEEK_DATA = 1" using seek_data [of 1 1 sz X] assms(4-6) by (simp add: m)
  show "seek_in X sz (int n) SEEK_DATA = int b" if "n < b" by (rule seek_data) (use that assms(4-6) in \<open>auto simp: m\<close>)
  show "seek_in X sz (int b) SEEK_HOLE = int (b + n)" by (rule seek_hole) (use assms(4-6) in \<open>auto simp: m\<close>)
qed

context seeking
begin

lemma g436_lseek_ok:
  assumes "sholds c U (M(p \<mapsto> d)) (H(p \<mapsto> (h, fl))) (D(p := X)) s" "wh \<noteq> SEEK_SET" "seek_in X (length d) off wh = v" "v \<noteq> - 1"
    and "\<And>t. sholds c U (M(p \<mapsto> d)) (H(p \<mapsto> (h, fl))) (D(p := X)) t \<Longrightarrow> Q () t"
  shows "wp (g436_lseek seek h filsz wh off v) Q s"
  unfolding g436_lseek_def Let_def wp_bnd
  by (rule q_seek_same [OF assms(1,2)]) (use assms(3-5) in simp)

lemma g436_write_ok:
  assumes "sholds c U (M(p \<mapsto> d)) (H(p \<mapsto> (h, {O_RDWR, O_CREAT, O_TRUNC}))) (D(p := X)) s" "0 \<le> x" "nat x + n < size_limit" "n \<le> length buf"
    and "\<And>t e. \<lbrakk>sholds c U (M(p \<mapsto> e)) (H(p \<mapsto> (h, {O_RDWR, O_CREAT, O_TRUNC}))) (D(p := X \<union> pages (nat x) n)) t; 0 < n \<Longrightarrow> length e = max (length d) (nat x + n)\<rbrakk> \<Longrightarrow> Q () t"
  shows "wp (g436_pwrite K h buf (int n) x) Q s"
  unfolding g436_pwrite_def wp_must_ret
proof (rule q_write_same [OF assms(1)], goal_cases)
  case (5 t)
  then have "sholds c U (M(p \<mapsto> write_at (nat x) (take n buf) d)) (H(p \<mapsto> (h, {O_RDWR, O_CREAT, O_TRUNC}))) (D(p := X \<union> pages (nat x) n)) t"
    using assms(4) by simp
  moreover have "length (write_at (nat x) (take n buf) d) = max (length d) (nat x + n)" if "0 < n" using that assms(4) by auto
  ultimately have "Q () t" by (rule assms(5))
  then show ?case using assms(4) by simp
qed (use assms(2-4) in auto)

text \<open>The start of a case: the file of \<open>n\<close> bytes is allocated, the first run is written.\<close>

lemma g436_start_ok:
  assumes "sholds c U M Map.empty D s" "g436_path k \<in> U" "M (g436_path k) = None" "1 < n" "n \<le> length buf" "n \<le> 4194304"
    and "\<And>t h d. \<lbrakk>sholds c U (M(g436_path k \<mapsto> d)) [g436_path k \<mapsto> (h, {O_RDWR, O_CREAT, O_TRUNC})] (D(g436_path k := pages 0 n)) t;
        length d = 4194304\<rbrakk> \<Longrightarrow> wp (rest h) Q t"
  shows "wp (g436_create K k (\<lambda>f. bnd (must (kcall (vfs_fallocate K f {} 0 G436_FILSZ))) (\<lambda>_.
     bnd (g436_pwrite K f buf (int n) 0) (\<lambda>_. rest f)))) Q s"
  unfolding g436_create_def wp_must_open
proof (rule q_create [OF assms(1-3)], simp, unfold sum.case wp_bnd wp_must, goal_cases)
  case (1 t h)
  then show ?case
  proof (rule q_allocate_same, goal_cases)
    case (5 u)
    show ?case
      by (rule conjI [OF refl], rule g436_write_ok [OF 5], simp, use assms(6) in \<open>simp add: size_limit_def\<close>, rule assms(5), rule assms(7))
        (use assms(4,6) in \<open>simp_all add: G436_FILSZ_def\<close>)
  qed (simp_all add: G436_FILSZ_def size_limit_def)
qed

lemma g436_13_ok:
  assumes "sholds c U M Map.empty D s" "g436_path 13 \<in> U" "M (g436_path 13) = None" "57344 \<le> length buf"
    and "\<And>t d X. sholds c U (M(g436_path 13 \<mapsto> d)) Map.empty (D(g436_path 13 := X)) t \<Longrightarrow> Q () t"
  shows "wp (g436_13 K seek buf 57344 G436_FILSZ) Q s"
proof -
  have X: "seek_in (pages 0 57344) 4194304 0 SEEK_HOLE = 57344"
    "seek_in (pages 0 57344) 4194304 1 SEEK_HOLE = 57344"
    "seek_in (pages 0 57344) 4194304 0 SEEK_DATA = 0"
    "seek_in (pages 0 57344) 4194304 1 SEEK_DATA = 1"
    using g436_seek [of "pages 0 57344" 57344 0 4194304] g436_sizes by simp_all
  note start = g436_start_ok [OF assms(1-3), where n = 57344, simplified]
  show ?thesis
    unfolding g436_13_def seq.simps
    apply (rule start, rule assms(4))
    apply (simp only: wp_unfold)
    apply (erule g436_lseek_ok, simp, simp add: X, simp)
    apply (erule g436_lseek_ok, simp, simp add: X, simp)
    apply (erule g436_lseek_ok, simp, simp add: X, simp)
    apply (erule g436_lseek_ok, simp, simp add: X, simp)
    apply (erule q_close_same, simp, erule assms(5))
    done
qed

lemma g436_14_ok:
  assumes "sholds c U M Map.empty D s" "g436_path 14 \<in> U" "M (g436_path 14) = None" "57344 \<le> length buf"
    and "\<And>t d X. sholds c U (M(g436_path 14 \<mapsto> d)) Map.empty (D(g436_path 14 := X)) t \<Longrightarrow> Q () t"
  shows "wp (g436_14 K seek buf 57344 G436_FILSZ) Q s"
proof -
  have X: "seek_in (pages 0 57344 \<union> pages 172032 57344) 4194304 0 SEEK_HOLE = 57344"
    "seek_in (pages 0 57344 \<union> pages 172032 57344) 4194304 1 SEEK_HOLE = 57344"
    "seek_in (pages 0 57344 \<union> pages 172032 57344) 4194304 172032 SEEK_HOLE = 229376"
    "seek_in (pages 0 57344 \<union> pages 172032 57344) 4194304 0 SEEK_DATA = 0"
    "seek_in (pages 0 57344 \<union> pages 172032 57344) 4194304 1 SEEK_DATA = 1"
    "seek_in (pages 0 57344 \<union> pages 172032 57344) 4194304 57344 SEEK_DATA = 172032"
    using g436_seek [of "pages 0 57344 \<union> pages 172032 57344" 57344 172032 4194304] g436_sizes by simp_all
  have num: "G436_FILSZ = 4194304" "(3 :: int) * 57344 = 172032" "(4 :: int) * 57344 = 229376" "(4194304 :: int) div 2 = 2097152"
      "(4194304 :: int) + 4096 = 4198400" "(2097152 :: int) + 4096 = 2101248"
    by (simp_all add: G436_FILSZ_def)
  note start = g436_start_ok [OF assms(1-3), where n = 57344, simplified]
  note run = g436_write_ok [where n = 57344, simplified]
  show ?thesis
    unfolding g436_14_def seq.simps
    apply (rule start, rule assms(4))
    apply (simp only: wp_unfold num)
    apply (erule run, simp, simp add: size_limit_def, rule assms(4), simp)
    apply (erule g436_lseek_ok, simp, simp add: X, simp)
    apply (erule g436_lseek_ok, simp, simp add: X, simp)
    apply (erule g436_lseek_ok, simp, simp add: X, simp)
    apply (erule g436_lseek_ok, simp, simp add: X, simp)
    apply (erule g436_lseek_ok, simp, simp add: X, simp)
    apply (erule g436_lseek_ok, simp, simp add: X, simp)
    apply (erule q_close_same, simp, erule assms(5))
    done
qed

lemma g436_15_ok:
  assumes "sholds c U M Map.empty D s" "g436_path 15 \<in> U" "M (g436_path 15) = None" "4096 \<le> length buf"
    and "\<And>t d X. sholds c U (M(g436_path 15 \<mapsto> d)) Map.empty (D(g436_path 15 := X)) t \<Longrightarrow> Q () t"
  shows "wp (g436_15 K seek buf 4096 G436_FILSZ) Q s"
proof -
  have X: "seek_in (pages 0 4096 \<union> pages 4194304 4096) 4198400 0 SEEK_HOLE = 4096"
    "seek_in (pages 0 4096 \<union> pages 4194304 4096) 4198400 1 SEEK_HOLE = 4096"
    "seek_in (pages 0 4096 \<union> pages 4194304 4096) 4198400 0 SEEK_DATA = 0"
    "seek_in (pages 0 4096 \<union> pages 4194304 4096) 4198400 1 SEEK_DATA = 1"
    "seek_in (pages 0 4096 \<union> pages 4194304 4096) 4198400 4096 SEEK_DATA = 4194304"
    using g436_seek [of "pages 0 4096 \<union> pages 4194304 4096" 4096 4194304 4198400] g436_sizes by simp_all
  have num: "G436_FILSZ = 4194304" "(3 :: int) * 57344 = 172032" "(4 :: int) * 57344 = 229376" "(4194304 :: int) div 2 = 2097152"
      "(4194304 :: int) + 4096 = 4198400" "(2097152 :: int) + 4096 = 2101248"
    by (simp_all add: G436_FILSZ_def)
  note start = g436_start_ok [OF assms(1-3), where n = 4096, simplified]
  note run = g436_write_ok [where n = 4096, simplified]
  show ?thesis
    unfolding g436_15_def seq.simps
    apply (rule start, rule assms(4))
    apply (simp only: wp_unfold num)
    apply (erule run, simp, simp add: size_limit_def, rule assms(4), simp)
    apply (erule g436_lseek_ok, simp, simp add: X, simp)
    apply (erule g436_lseek_ok, simp, simp add: X, simp)
    apply (erule g436_lseek_ok, simp, simp add: X, simp)
    apply (erule g436_lseek_ok, simp, simp add: X, simp)
    apply (erule g436_lseek_ok, simp, simp add: X, simp)
    apply (erule q_close_same, simp, erule assms(5))
    done
qed

lemma g436_16_ok:
  assumes "sholds c U M Map.empty D s" "g436_path 16 \<in> U" "M (g436_path 16) = None" "4096 \<le> length buf"
    and "\<And>t d X. sholds c U (M(g436_path 16 \<mapsto> d)) Map.empty (D(g436_path 16 := X)) t \<Longrightarrow> Q () t"
  shows "wp (g436_16 K seek buf 4096 G436_FILSZ) Q s"
proof -
  have X: "seek_in (pages 0 4096 \<union> pages 2097152 4096) 4194304 0 SEEK_HOLE = 4096"
    "seek_in (pages 0 4096 \<union> pages 2097152 4096) 4194304 1 SEEK_HOLE = 4096"
    "seek_in (pages 0 4096 \<union> pages 2097152 4096) 4194304 0 SEEK_DATA = 0"
    "seek_in (pages 0 4096 \<union> pages 2097152 4096) 4194304 1 SEEK_DATA = 1"
    "seek_in (pages 0 4096 \<union> pages 2097152 4096) 4194304 4096 SEEK_DATA = 2097152"
    "seek_in (pages 0 4096 \<union> pages 2097152 4096) 4194304 2097152 SEEK_HOLE = 2101248"
    using g436_seek [of "pages 0 4096 \<union> pages 2097152 4096" 4096 2097152 4194304] g436_sizes by simp_all
  have num: "G436_FILSZ = 4194304" "(3 :: int) * 57344 = 172032" "(4 :: int) * 57344 = 229376" "(4194304 :: int) div 2 = 2097152"
      "(4194304 :: int) + 4096 = 4198400" "(2097152 :: int) + 4096 = 2101248"
    by (simp_all add: G436_FILSZ_def)
  note start = g436_start_ok [OF assms(1-3), where n = 4096, simplified]
  note run = g436_write_ok [where n = 4096, simplified]
  show ?thesis
    unfolding g436_16_def seq.simps
    apply (rule start, rule assms(4))
    apply (simp only: wp_unfold num)
    apply (erule run, simp, simp add: size_limit_def, rule assms(4), simp)
    apply (erule g436_lseek_ok, simp, simp add: X, simp)
    apply (erule g436_lseek_ok, simp, simp add: X, simp)
    apply (erule g436_lseek_ok, simp, simp add: X, simp)
    apply (erule g436_lseek_ok, simp, simp add: X, simp)
    apply (erule g436_lseek_ok, simp, simp add: X, simp)
    apply (erule g436_lseek_ok, simp, simp add: X, simp)
    apply (erule q_close_same, simp, erule assms(5))
    done
qed

lemma g436_paths: "g436_path i = g436_path j \<longleftrightarrow> i = j" "g436_path i \<noteq> G436_BASE"
  by (simp add: g436_path_def) (simp add: g436_path_def dec02_def)

lemma g436_run_ok:
  assumes "ready V ok G436_ROOT s"
  shows "passes (seek_over_unwritten_extents_with_dirty_data K seek) s"
proof -
  let ?U = "insert G436_BASE (g436_path ` {13..<17})"
  have U: "\<exists>b. p = G436_ROOT @ CHR ''/'' # b \<and> CHR ''/'' \<notin> set b" if "p \<in> ?U" for p
    using that by (auto simp: g436_path_def G436_BASE_def)
  have mem: "G436_BASE \<in> ?U" "g436_path 13 \<in> ?U" "g436_path 14 \<in> ?U" "g436_path 15 \<in> ?U" "g436_path 16 \<in> ?U" by simp_all
  have al: "(4096 :: int) * 2 = 8192" "nat (int 0 + 8192) = 8192" by simp_all
  have rnd: "roundup (int PAGE_SIZE * 14) 4096 = 57344" "roundup (int PAGE_SIZE) 4096 = 4096"
    by (simp_all add: roundup_def PAGE_SIZE_def)
  have probe: "seek_in {} n 0 SEEK_DATA \<noteq> 0" for n by (simp add: seek_no_data ENXIO_def)
  have none: "X \<inter> pages_below (nat 0) = {}" for X by simp
  note differ = g436_paths
  show ?thesis
    unfolding passes_def seek_over_unwritten_extents_with_dirty_data_def g436_alloc_size_def
    apply (simp only: wp_steps)
    apply (rule q_prologue [where D = "\<lambda>_. {}", OF assms U], assumption)
    apply (erule q_touch, simp, simp, intro conjI refl)
    apply (erule q_open, simp, simp, simp, simp, simp)
    apply (simp only: wp_steps)
    apply (erule alloc_size_ok, simp, simp)
    apply (erule q_info)
    apply (erule q_ftruncate_same, simp, simp, simp add: size_limit_def, intro conjI refl)
    apply (simp only: none al)
    apply (erule q_allocate_same, simp, simp, simp, simp add: size_limit_def, intro conjI refl)
    apply (erule q_seek_same, simp)
    apply (simp only: wp_steps probe)
    apply (erule q_close_same, simp)
    apply (simp only: Let_def rnd wp_steps)
    apply (erule q_alloc)
    apply (erule g436_13_ok, rule mem, simp add: differ, simp)
    apply (erule g436_14_ok, rule mem, simp add: differ, simp)
    apply (erule g436_15_ok, rule mem, simp add: differ, simp)
    apply (erule g436_16_ok, rule mem, simp add: differ, simp)
    apply (drule sholds_fails, simp)
    done
qed

end

end
