(* ===== verification/Gen439.thy ===== *)
theory Gen439
  imports Sparse
begin

text \<open>
  \<open>kunit/xfstests/generic/439.c\<close>: writes that overlap punched ranges, on a file with contents
  and on an empty one; the bytes are compared with a table of ranges, from the server's copy
  and on the client after its pages were dropped.  \<open>kvmalloc\<close> is an allocation like the
  others, its buffer freed before the test goes on.
\<close>

definition G439_ROOT :: string where "G439_ROOT = XFS_MNT @ ''/g439''"
definition G439_K :: nat where "G439_K = 1024"
definition G439_PAGE :: nat where "G439_PAGE = 4096"   \<comment> \<open>\<open>PAGE_SIZE\<close>\<close>

record g439_range =
  g439_start :: nat
  g439_end :: nat
  g439_val :: byte

definition g439_remove_tree :: "'w kernel \<Rightarrow> (('w, 'z) kst_scheme, unit) prog" where
  "g439_remove_tree K = seq [
     ignore (xfs_unlink K (G439_ROOT @ ''/f'')),
     ignore (xfs_unlink K (G439_ROOT @ ''/f2'')),
     ignore (xfs_rmdir_settled K G439_ROOT)]"

definition g439_pwrite :: "'w kernel \<Rightarrow> string \<Rightarrow> byte \<Rightarrow> nat \<Rightarrow> nat \<Rightarrow> (('w, 'z) kst_scheme, unit) prog" where
  "g439_pwrite K path val off len = bnd (must_alloc K len) (\<lambda>_.
     must_open (kcall (filp_open K path {O_RDWR} 0)) (\<lambda>f.
     bnd (kcall (kernel_write K f (replicate len val) (int off))) (\<lambda>(n, _). seq [
       kdo (filp_close K f),
       kunit_assert (n = int len)])))"

definition g439_fpunch :: "'w kernel \<Rightarrow> string \<Rightarrow> nat \<Rightarrow> nat \<Rightarrow> (('w, 'z) kst_scheme, unit) prog" where
  "g439_fpunch K path off len =
     must_open (kcall (filp_open K path {O_RDWR, O_CREAT} (mode3 6 4 4))) (\<lambda>f.
     bnd (kcall (vfs_fallocate K f {FALLOC_FL_PUNCH_HOLE, FALLOC_FL_KEEP_SIZE} (int off) (int len))) (\<lambda>err. seq [
       kdo (filp_close K f),
       kunit_assert (err = 0)]))"

definition g439_positions :: "g439_range \<Rightarrow> nat list" where
  \<comment> \<open>\<open>for (pos = r[i].start; pos < r[i].end; pos += PAGE_SIZE)\<close>\<close>
  "g439_positions r = map (\<lambda>k. g439_start r + k * G439_PAGE)
     [0..<(g439_end r - g439_start r + (G439_PAGE - 1)) div G439_PAGE]"

definition g439_verify :: "'w kernel \<Rightarrow> string \<Rightarrow> g439_range list \<Rightarrow> (('w, 'z) kst_scheme, unit) prog" where
  "g439_verify K path rs = seq [
     expect_stat K path (\<lambda>st. st_size st = int (g439_end (last rs))),
     must_alloc K G439_PAGE,
     ignore (for_while rs (\<lambda>r. for_while (g439_positions r) (\<lambda>pos.
       let n = min (g439_end r - pos) G439_PAGE in
       bnd (xfs_read_range K path n (int pos)) (\<lambda>(m, buf).
       bnd (kunit_assert (m = int n)) (\<lambda>_.
       case first_diff (take n buf) (replicate n (g439_val r)) of
         None \<Rightarrow> ret True | Some j \<Rightarrow> bnd kunit_fail (\<lambda>_. ret False))))))]"

definition g439_invalidate :: "'w kernel \<Rightarrow> (nat \<Rightarrow> 'w \<Rightarrow> int \<times> 'w) \<Rightarrow> string \<Rightarrow> (('w, 'z) kst_scheme, unit) prog" where
  "g439_invalidate K inval path = must_open (kcall (filp_open K path {O_RDONLY} 0)) (\<lambda>f. seq [
     expect_ret (kcall (inval f)) (\<lambda>e. e = 0),
     kdo (filp_close K f)])"

definition g439_f_want :: "g439_range list" where
  "g439_f_want = [
     \<lparr>g439_start = 0, g439_end = 50 * G439_K, g439_val = 0xaa\<rparr>,
     \<lparr>g439_start = 50 * G439_K, g439_end = 100 * G439_K, g439_val = 0xbb\<rparr>,
     \<lparr>g439_start = 100 * G439_K, g439_end = 150 * G439_K, g439_val = 0xcc\<rparr>]"

definition g439_f2_want :: "g439_range list" where
  "g439_f2_want = [
     \<lparr>g439_start = 0, g439_end = 1008 * G439_K, g439_val = 0\<rparr>,
     \<lparr>g439_start = 1008 * G439_K, g439_end = 1068 * G439_K, g439_val = 0xaa\<rparr>,
     \<lparr>g439_start = 1068 * G439_K, g439_end = 1527 * G439_K, g439_val = 0xcc\<rparr>,
     \<lparr>g439_start = 1527 * G439_K, g439_end = 1703 * G439_K, g439_val = 0xbb\<rparr>]"

definition writes_over_punched_ranges_survive ::
  "'w kernel \<Rightarrow> (nat \<Rightarrow> 'w \<Rightarrow> int \<times> 'w) \<Rightarrow> (('w, 'z) fxs_scheme, unit) prog" where
  "writes_over_punched_ranges_survive K inval = (let f = G439_ROOT @ ''/f''; f2 = G439_ROOT @ ''/f2'' in seq [
     test_prologue K G439_ROOT ''g439_remove_tree'' (g439_remove_tree K),
     must (xfs_write_new_file K f []),
     g439_pwrite K f 0xaa 0 (100 * G439_K),
     g439_fpunch K f (60 * G439_K) (90 * G439_K),
     g439_pwrite K f 0xbb (50 * G439_K) (100 * G439_K),
     g439_pwrite K f 0xcc (100 * G439_K) (50 * G439_K),
     g439_fpunch K f2 (695 * G439_K) (820 * G439_K),
     g439_pwrite K f2 0xaa (1008 * G439_K) (307 * G439_K),
     g439_pwrite K f2 0xbb (1073 * G439_K) (630 * G439_K),
     g439_pwrite K f2 0xcc (1068 * G439_K) (459 * G439_K),
     g439_verify K (XFS_EXPORT @ ''/g439/f'') g439_f_want,
     g439_verify K (XFS_EXPORT @ ''/g439/f2'') g439_f2_want,
     g439_invalidate K inval f,
     g439_invalidate K inval f2,
     g439_verify K f g439_f_want,
     g439_verify K f2 g439_f2_want])"

definition g439_suite :: "'w kernel \<Rightarrow> (nat \<Rightarrow> 'w \<Rightarrow> int \<times> 'w) \<Rightarrow> ('w, 'z) fxs_scheme suite" where
  "g439_suite K inval = nfs_suite K ''xfstests/generic/439''
     [(''writes_over_punched_ranges_survive'', writes_over_punched_ranges_survive K inval)]"

section \<open>Contents and tables\<close>

definition g439_matches :: "byte list \<Rightarrow> g439_range list \<Rightarrow> bool" where
  \<comment> \<open>the abstract reading of a table\<close>
  "g439_matches d rs = (length d = g439_end (last rs) \<and>
     (\<forall>r\<in>set rs. g439_end r \<le> length d \<and> (\<forall>i. g439_start r \<le> i \<and> i < g439_end r \<longrightarrow> d ! i = g439_val r)))"

definition g439_f :: "byte list" where
  "g439_f = write_at (100 * G439_K) (replicate (50 * G439_K) 0xcc)
     (write_at (50 * G439_K) (replicate (100 * G439_K) 0xbb)
     (punch (60 * G439_K) (90 * G439_K) (write_at 0 (replicate (100 * G439_K) 0xaa) [])))"

definition g439_f2 :: "byte list" where
  "g439_f2 = write_at (1068 * G439_K) (replicate (459 * G439_K) 0xcc)
     (write_at (1073 * G439_K) (replicate (630 * G439_K) 0xbb)
     (write_at (1008 * G439_K) (replicate (307 * G439_K) 0xaa) (punch (695 * G439_K) (820 * G439_K) [])))"

lemma g439_f_matches: "g439_matches g439_f g439_f_want"
  unfolding g439_matches_def g439_f_def g439_f_want_def
  by (auto simp: G439_K_def nth_write_at nth_punch)

lemma g439_f2_matches: "g439_matches g439_f2 g439_f2_want"
  unfolding g439_matches_def g439_f2_def g439_f2_want_def
  by (auto simp: G439_K_def nth_write_at nth_punch)

lemma g439_read:
  assumes "g439_matches d rs" "r \<in> set rs" "k < length (g439_positions r)"
  defines "pos \<equiv> g439_positions r ! k"
  shows "pos < g439_end r" "read_at pos (min (g439_end r - pos) G439_PAGE) d = replicate (min (g439_end r - pos) G439_PAGE) (g439_val r)"
proof -
  have k: "k < (g439_end r - g439_start r + (G439_PAGE - 1)) div G439_PAGE" using assms(3) by (simp add: g439_positions_def)
  then have pos: "pos = g439_start r + k * G439_PAGE" by (simp add: pos_def g439_positions_def)
  have "Suc k * G439_PAGE \<le> g439_end r - g439_start r + (G439_PAGE - 1)"
    using k by (metis Suc_leI div_times_less_eq_dividend le_trans mult_le_mono1)
  then show lt: "pos < g439_end r" unfolding pos by (simp add: G439_PAGE_def)
  have m: "g439_end r \<le> length d" "\<And>i. g439_start r \<le> i \<Longrightarrow> i < g439_end r \<Longrightarrow> d ! i = g439_val r"
    using assms(1,2) by (auto simp: g439_matches_def)
  show "read_at pos (min (g439_end r - pos) G439_PAGE) d = replicate (min (g439_end r - pos) G439_PAGE) (g439_val r)"
    by (rule nth_equalityI) (use m lt pos in \<open>auto simp: nth_read_at\<close>)
qed

context nfs42
begin

lemma g439_open_ok:
  assumes "holds c U M Map.empty s" "p \<in> U" "{O_EXCL, O_DIRECTORY, O_TRUNC} \<inter> fl = {}" "M p = None \<longrightarrow> O_CREAT \<in> fl"
    and "\<And>t h. holds c U (M(p \<mapsto> case M p of None \<Rightarrow> [] | Some d \<Rightarrow> d)) [p \<mapsto> (h, fl)] t \<Longrightarrow> Q (Inr h) t"
  shows "wp (kcall (filp_open K p fl m)) Q s"
proof (cases "M p")
  case None
  then show ?thesis using assms(4,5) by (intro h_create [OF assms(1,2) None]) auto
next
  case (Some d)
  have "M(p \<mapsto> d) = M" using Some by (simp add: fun_upd_idem)
  then show ?thesis using assms(3,5) Some by (intro h_open_keep [OF assms(1) Some]) auto
qed

lemma g439_pwrite_ok:
  assumes "holds c U M Map.empty s" "M p = Some d" "off + len < size_limit"
    and "\<And>t. holds c U (M(p \<mapsto> write_at off (replicate len v) d)) Map.empty t \<Longrightarrow> Q () t"
  shows "wp (g439_pwrite K p v off len) Q s"
  unfolding g439_pwrite_def
  apply (simp only: wp_unfold)
  apply (rule h_alloc [OF assms(1)])
  apply (erule h_open_keep, rule assms(2), (simp; fail)+)
  apply (simp only: wp_unfold)
  apply (erule h_write [where p = p], rule assms(2), (simp add: assms(3); fail)+)
  apply (simp only: wp_unfold)
  apply (erule h_close [where p = p], (simp; fail)+)
  apply (simp add: assms(4))
  done

lemma g439_fpunch_ok:
  assumes "holds c U M Map.empty s" "p \<in> U" "0 < len" "off + len < size_limit"
    and "\<And>t. holds c U (M(p \<mapsto> punch off len (case M p of None \<Rightarrow> [] | Some d \<Rightarrow> d))) Map.empty t \<Longrightarrow> Q () t"
  shows "wp (g439_fpunch K p off len) Q s"
  unfolding g439_fpunch_def
  apply (simp only: wp_unfold)
  apply (rule g439_open_ok [OF assms(1,2)], simp, simp)
  apply (simp only: wp_unfold)
  apply (erule h_punch [where p = p], (simp add: assms(3,4); fail)+)
  apply (erule h_close [where p = p], (simp; fail)+)
  apply (simp add: assms(5))
  done

lemma g439_invalidate_ok:
  assumes "holds c U M Map.empty s" "M p = Some d" "\<And>t. holds c U M Map.empty t \<Longrightarrow> Q () t"
  shows "wp (g439_invalidate K inval p) Q s"
  unfolding g439_invalidate_def
  apply (simp only: wp_unfold)
  apply (rule h_open_keep [OF assms(1), OF assms(2)], (simp; fail)+)
  apply (simp only: wp_unfold)
  apply (erule h_inval [where p = p], rule assms(2), simp)
  apply (simp only: wp_unfold)
  apply (erule h_close [where p = p], rule assms(2), simp)
  apply (simp add: assms(3))
  done

text \<open>A verification passes when the contents match, wherever they are read.\<close>

lemma g439_verify_gen:
  assumes "holds c U M H s" "g439_matches d rs" "length d < size_limit"
    and stat: "\<And>P Q t. \<lbrakk>holds c U M H t; \<And>st. st_size st = int (length d) \<Longrightarrow> P st; \<And>u. holds c U M H u \<Longrightarrow> Q () u\<rbrakk> \<Longrightarrow>
      wp (expect_stat K path P) Q t"
    and rd: "\<And>x n Q t. \<lbrakk>holds c U M H t; x + n < size_limit; \<And>u b. \<lbrakk>holds c U M H u; b = read_at x n d\<rbrakk> \<Longrightarrow> Q (int (length b), b) u\<rbrakk> \<Longrightarrow>
      wp (xfs_read_range K path n (int x)) Q t"
    and "\<And>t. holds c U M H t \<Longrightarrow> Q () t"
  shows "wp (g439_verify K path rs) Q s"
  unfolding g439_verify_def wp_seq_Cons wp_seq_Nil wp_ignore
proof (rule stat [OF assms(1)], goal_cases)
  case (1 st)
  then show ?case using assms(2) by (simp add: g439_matches_def)
next
  case (2 u)
  show ?case
  proof (rule h_alloc [OF 2], rule wp_for_while [where I = "\<lambda>_. holds c U M H"], assumption, goal_cases)
    case (1 t k v)
    let ?r = "rs ! k"
    have r: "?r \<in> set rs" using 1(2) by simp
    show ?case
    proof (rule wp_for_while [where I = "\<lambda>_. holds c U M H"], rule 1(3), goal_cases)
      case (1 j w)
      note g = g439_read [OF assms(2) r 1(1)]
      let ?pos = "g439_positions ?r ! j" and ?n = "min (g439_end ?r - g439_positions ?r ! j) G439_PAGE"
      have "?pos + ?n \<le> g439_end ?r" using g(1) by simp
      also have "\<dots> \<le> length d" using assms(2) r unfolding g439_matches_def by blast
      finally have lim: "?pos + ?n < size_limit" using assms(3) by simp
      show ?case
        unfolding Let_def wp_bnd
      proof (rule rd [OF 1(2) lim], goal_cases)
        case (1 x b)
        then have "b = replicate ?n (g439_val ?r)" using g(2) by simp
        then show ?case using 1(1) by simp
      qed
    qed simp
  qed (rule assms(6))
qed

lemma g439_verify_client:
  assumes "holds c U M H s" "M p = Some d" "g439_matches d rs" "length d < size_limit" "\<And>t. holds c U M H t \<Longrightarrow> Q () t"
  shows "wp (g439_verify K p rs) Q s"
proof (rule g439_verify_gen [OF assms(1,3,4)], goal_cases)
  case (1 P Q t)
  show ?case by (rule h_expect_stat [OF 1(1), OF assms(2)]) (use 1 in auto)
next
  case (2 x n Q t)
  show ?case by (rule h_read_range [OF 2(1), OF assms(2)]) (use 2 in auto)
qed (rule assms(5))

lemma g439_verify_server:
  assumes "holds c U M H s" "M (XFS_MNT @ p) = Some d" "H (XFS_MNT @ p) = None" "g439_matches d rs" "length d < size_limit"
    and "\<And>t. holds c U M H t \<Longrightarrow> Q () t"
  shows "wp (g439_verify K (XFS_EXPORT @ p) rs) Q s"
proof (rule g439_verify_gen [OF assms(1,4,5)], goal_cases)
  case (1 P Q t)
  show ?case by (rule h_expect_stat_server [OF 1(1), OF assms(2,3)]) (use 1 in auto)
next
  case (2 x n Q t)
  show ?case by (rule h_read_range_server [OF 2(1), OF assms(2,3)]) (use 2 in auto)
qed (rule assms(6))

lemma g439_run_ok:
  assumes "ready V ok G439_ROOT s"
  shows "passes (writes_over_punched_ranges_survive K inval) s"
proof -
  let ?f = "G439_ROOT @ ''/f''" and ?f2 = "G439_ROOT @ ''/f2''"
  have lim: "length g439_f < size_limit" "length g439_f2 < size_limit"
    by (simp_all add: g439_f_def g439_f2_def G439_K_def size_limit_def)
  have srv: "XFS_MNT @ ''/g439/f'' = ?f" "XFS_MNT @ ''/g439/f2'' = ?f2" by (simp_all add: G439_ROOT_def)
  note simps = G439_K_def size_limit_def
  show ?thesis
    unfolding passes_def writes_over_punched_ranges_survive_def Let_def
    apply (simp only: wp_unfold)
    apply (rule h_prologue [where U = "{?f, ?f2}", OF assms], fastforce)
    apply (erule h_write_new, (simp add: simps; fail)+)
    apply (intro conjI refl, simp only: empty_upd_none)
    apply (erule g439_pwrite_ok, simp, (simp add: simps; fail))
    apply (erule g439_fpunch_ok, (simp add: simps; fail)+)
    apply (erule g439_pwrite_ok, simp, (simp add: simps; fail))
    apply (erule g439_pwrite_ok, simp, (simp add: simps; fail))
    apply (erule g439_fpunch_ok, (simp add: simps; fail)+)
    apply (erule g439_pwrite_ok, simp, (simp add: simps; fail))
    apply (erule g439_pwrite_ok, simp, (simp add: simps; fail))
    apply (erule g439_pwrite_ok, simp, (simp add: simps; fail))
    apply (erule g439_verify_server [where d = g439_f], simp add: srv g439_f_def, simp, rule g439_f_matches, rule lim)
    apply (erule g439_verify_server [where d = g439_f2], simp add: srv g439_f2_def, simp, rule g439_f2_matches, rule lim)
    apply (erule g439_invalidate_ok, (simp; fail))
    apply (erule g439_invalidate_ok, (simp; fail))
    apply (erule g439_verify_client [where d = g439_f], simp add: g439_f_def, rule g439_f_matches, rule lim)
    apply (erule g439_verify_client [where d = g439_f2], simp add: g439_f2_def, rule g439_f2_matches, rule lim)
    apply (drule holds_fails, simp)
    done
qed

end

section \<open>Properties\<close>

text \<open>
  C37: writes over punched ranges on every exported kernel with hole punching that meets the
  contract: both files have the size and, byte by byte, the contents of their tables, on the
  server and, after the pages were dropped, on the client.
\<close>

theorem punched_ranges_pass:
  assumes "nfs42 K V ok inval" and "ready V ok G439_ROOT s"
  shows "passes (writes_over_punched_ranges_survive K inval) s"
  by (rule nfs42.g439_run_ok [OF assms])

theorem punched_ranges_pass_witness:
  "passes (writes_over_punched_ranges_survive expk mem_inval) (fx0 ())"
  by (rule punched_ranges_pass [OF sparse.nfs42_axioms]) (simp add: G439_ROOT_def fx0_ready)

end
