(* ===== verification/Gen450.thy ===== *)
theory Gen450
  imports Direct
begin

text \<open>
  \<open>kunit/xfstests/generic/450.c\<close>: reads that reach or start past the end of the file are short,
  not errors, buffered and direct.
\<close>

definition G450_ROOT :: string where "G450_ROOT = XFS_MNT @ ''/g450''"
definition G450_FILE :: string where "G450_FILE = G450_ROOT @ ''/testfile_450''"
definition G450_BSIZE :: nat where "G450_BSIZE = 4096"
definition G450_SSIZE :: nat where "G450_SSIZE = 512"
definition G450_ASIZE :: nat where "G450_ASIZE = G450_BSIZE * 2"
definition G450_TSIZE :: nat where "G450_TSIZE = G450_ASIZE - G450_SSIZE * 2"   \<comment> \<open>EOF inside block 2\<close>
definition G450_FAR :: nat where "G450_FAR = G450_ASIZE * 4"

lemmas g450_sizes = G450_BSIZE_def G450_SSIZE_def G450_ASIZE_def G450_TSIZE_def G450_FAR_def

definition g450_remove_tree :: "'w kernel \<Rightarrow> (('w, 'z) kst_scheme, unit) prog" where
  "g450_remove_tree K = seq [ignore (xfs_unlink K G450_FILE), ignore (xfs_rmdir_settled K G450_ROOT)]"

definition g450_read :: "'w kernel \<Rightarrow> nat \<Rightarrow> bool \<Rightarrow> nat \<Rightarrow> nat \<Rightarrow> nat \<Rightarrow> (('w, 'z) kst_scheme, unit) prog" where
  "g450_read K f direct off len want = seq [
     must_alloc K G450_BSIZE,
     bnd (if direct then bnd (xfs_direct_read K f (replicate G450_BSIZE 0) len (int off)) (\<lambda>(n, _). ret n)
          else bnd (kcall (kernel_read K f len (int off))) (\<lambda>(n, _). ret n)) (\<lambda>got.
     kunit_expect (got = int want))]"

definition g450_one_flavour :: "'w kernel \<Rightarrow> bool \<Rightarrow> (('w, 'z) kst_scheme, unit) prog" where
  "g450_one_flavour K direct =
     must_open (kcall (filp_open K G450_FILE ({O_RDONLY} \<union> (if direct then {O_DIRECT} else {})) 0)) (\<lambda>f. seq [
       g450_read K f direct 0 G450_SSIZE G450_SSIZE,
       g450_read K f direct G450_BSIZE G450_BSIZE (G450_TSIZE - G450_BSIZE),
       g450_read K f direct G450_TSIZE G450_SSIZE 0,
       g450_read K f direct (G450_TSIZE + G450_SSIZE) G450_SSIZE 0,
       g450_read K f direct G450_FAR G450_SSIZE 0,
       kdo (filp_close K f)])"

definition reads_at_and_past_eof_are_short_not_errors :: "'w kernel \<Rightarrow> (('w, 'z) fxs_scheme, unit) prog" where
  "reads_at_and_past_eof_are_short_not_errors K = seq [
     test_prologue K G450_ROOT ''g450_remove_tree'' (g450_remove_tree K),
     must_alloc K G450_TSIZE,
     must_open (kcall (filp_open K G450_FILE {O_RDWR, O_CREAT, O_TRUNC} (mode3 6 4 4))) (\<lambda>f. seq [
       must_ret (kcall (kernel_write K f (replicate G450_TSIZE 0x5a) 0)) (\<lambda>(n, _). n = int G450_TSIZE),
       must (kcall (vfs_fsync K f)),
       kdo (filp_close K f)]),
     g450_one_flavour K False,
     g450_one_flavour K True]"

definition g450_suite :: "'w kernel \<Rightarrow> ('w, 'z) fxs_scheme suite" where
  "g450_suite K = nfs_suite K ''xfstests/generic/450''
     [(''reads_at_and_past_eof_are_short_not_errors'', reads_at_and_past_eof_are_short_not_errors K)]"

context direct_io
begin

lemma g450_read_ok:
  assumes "holds c U M (H(p \<mapsto> (f, fl))) s" "M p = Some d" "readable fl" "direct \<Longrightarrow> O_DIRECT \<in> fl"
    and "off + len < size_limit" "want = min len (length d - off)" "\<And>t. holds c U M (H(p \<mapsto> (f, fl))) t \<Longrightarrow> Q () t"
  shows "wp (g450_read K f direct off len want) Q s"
proof (cases direct)
  case True
  show ?thesis
    apply (simp only: g450_read_def True wp_unfold)
    apply (rule h_alloc [OF assms(1)])
    apply (erule h_direct_read [where p = p and fl = fl], rule assms(2))
    apply (use assms True in auto)
    done
next
  case False
  show ?thesis
    apply (simp only: g450_read_def False wp_unfold)
    apply (rule h_alloc [OF assms(1)])
    apply (erule h_read [where p = p and fl = fl], rule assms(2))
    apply (use assms in auto)
    done
qed

lemma g450_flavour_ok:
  assumes "holds c U M H s" "M G450_FILE = Some (replicate G450_TSIZE 0x5a)" "H G450_FILE = None"
    and "\<And>t. holds c U M H t \<Longrightarrow> Q () t"
  shows "wp (g450_one_flavour K direct) Q s"
proof -
  let ?fl = "{O_RDONLY} \<union> (if direct then {O_DIRECT} else {})"
  show ?thesis
    unfolding g450_one_flavour_def wp_unfold
    apply (rule h_open_keep [OF assms(1-3)], simp, simp, simp)
    apply (simp only: wp_unfold)
    apply ((erule g450_read_ok [where p = G450_FILE and fl = ?fl], rule assms(2), simp add: readable_def, simp,
        simp add: g450_sizes size_limit_def, simp add: g450_sizes)+)
    apply (erule h_close_last, rule assms(2), rule assms(3), erule assms(4))
    done
qed

lemma g450_run_ok:
  assumes "ready V ok G450_ROOT s"
  shows "passes (reads_at_and_past_eof_are_short_not_errors K) s"
  unfolding passes_def reads_at_and_past_eof_are_short_not_errors_def
  apply (simp only: wp_unfold)
  apply (rule h_prologue [where U = "{G450_FILE}", OF assms], simp add: G450_FILE_def)
  apply (erule h_alloc)
  apply (erule h_create, simp, simp, simp)
  apply (simp only: wp_unfold)
  apply (erule h_write_same, simp, simp, simp, simp add: size_limit_def g450_sizes, intro conjI, simp)
  apply (erule h_fsync [where p = G450_FILE], simp, simp, intro conjI refl)
  apply (erule h_close_same, simp)
  apply (erule g450_flavour_ok, simp add: write_at_def G450_TSIZE_def, simp)
  apply (erule g450_flavour_ok, simp add: write_at_def G450_TSIZE_def, simp)
  apply (drule holds_fails, simp)
  done

end

end
