(* ===== verification/Gen454.thy ===== *)
theory Gen454
  imports Xattrs
begin

text \<open>
  \<open>kunit/xfstests/generic/454.c\<close>: attribute names are byte strings.  Ten keys that render
  alike in pairs but differ byte for byte keep ten values, through the client and in the
  server's copy, and ten names are listed.
\<close>

definition G454_ROOT :: string where "G454_ROOT = XFS_MNT @ ''/g454''"
definition G454_FILE :: string where "G454_FILE = G454_ROOT @ ''/attrfile''"
definition G454_SERVER :: string where "G454_SERVER = XFS_EXPORT @ ''/g454/attrfile''"

definition g454_keys :: "(string \<times> string) list" where
  \<comment> \<open>the name without its prefix, and the value\<close>
  "g454_keys = [
     (''french_caf'' @ [CHR 0xC3, CHR 0xA9], ''NFC''),
     (''french_cafe'' @ [CHR 0xCC, CHR 0x81], ''NFD''),
     (''greek_'' @ [CHR 0xCF, CHR 0x93], ''GREEK NFC''),
     (''greek_'' @ [CHR 0xCF, CHR 0x92, CHR 0xCC, CHR 0x81], ''GREEK NFD''),
     (''urk'' @ [CHR 0xC0, CHR 0xAF] @ ''moo'', ''FAKESLASH''),
     (''emoji_'' @ [CHR 0xF0, CHR 0x9F, CHR 0xA6, CHR 0x91], ''octopus''),
     (''hyphens_a'' @ [CHR 0xE2, CHR 0x80, CHR 0x90] @ ''b'', ''unicode hyphen''),
     (''hyphens_a-b'', ''ascii hyphen''),
     (''zerojoin_moo'' @ [CHR 0xE2, CHR 0x80, CHR 0x8D] @ ''cow'', ''with joiner''),
     (''zerojoin_moocow'', ''without joiner'')]"

definition g454_name :: "string \<Rightarrow> string" where
  \<comment> \<open>\<open>snprintf(name, sizeof(name), "user.%s", k->name)\<close>\<close>
  "g454_name key = take 127 (''user.'' @ key)"

definition g454_remove_tree :: "'w kernel \<Rightarrow> (('w, 'z) kst_scheme, unit) prog" where
  "g454_remove_tree K = seq [ignore (xfs_unlink K G454_FILE), ignore (xfs_rmdir_settled K G454_ROOT)]"

definition g454_check_values :: "'w kernel \<Rightarrow> string \<Rightarrow> (('w, 'z) kst_scheme, unit) prog" where
  "g454_check_values K path = for_each g454_keys (\<lambda>k.
     bnd (xfs_getxattr K path (g454_name (fst k)) 64) (\<lambda>(n, val). seq [
       kunit_assert (n = int (length (snd k))),
       kunit_expect (take (length (snd k)) val = snd k)]))"

definition keys_that_look_alike_stay_different_keys :: "'w kernel \<Rightarrow> (('w, 'z) fxs_scheme, unit) prog" where
  "keys_that_look_alike_stay_different_keys K = seq [
     test_prologue K G454_ROOT ''g454_remove_tree'' (g454_remove_tree K),
     must (xfs_write_new_file K G454_FILE []),
     for_each g454_keys (\<lambda>k. must (xfs_setxattr K G454_FILE (g454_name (fst k)) (snd k) 0)),
     g454_check_values K G454_FILE,
     g454_check_values K G454_SERVER,
     must_alloc K PAGE_SIZE,
     bnd (xfs_listxattr K G454_FILE PAGE_SIZE) (\<lambda>(len, list). seq [
       kunit_assert (len > 0),
       kunit_expect (length (nul_names list) = length g454_keys)])]"

definition g454_suite :: "'w kernel \<Rightarrow> ('w, 'z) fxs_scheme suite" where
  "g454_suite K = nfs_suite K ''xfstests/generic/454''
     [(''keys_that_look_alike_stay_different_keys'', keys_that_look_alike_stay_different_keys K)]"

section \<open>Ten different keys\<close>

definition g454_table :: "(string \<times> string) list" where
  "g454_table = map (\<lambda>k. (g454_name (fst k), snd k)) g454_keys"

lemma g454_table_simps:
  "distinct (map fst g454_table)" "\<forall>e\<in>set g454_table. length (snd e) \<le> 64"
  "\<forall>n\<in>fst ` set g454_table. NUL \<notin> set n" "length g454_table = 10" "length g454_keys = 10"
  by (simp_all add: g454_table_def g454_name_def g454_keys_def)

lemma g454_size:
  "list_size (map_of g454_table) \<le> PAGE_SIZE" "0 < list_size (map_of g454_table)"
  unfolding list_size_def dom_map_of_conv_image_fst PAGE_SIZE_def
  by (simp_all add: g454_table_def g454_name_def g454_keys_def)

context exported
begin

lemma g454_looks: "looks G454_FILE G454_FILE" "looks G454_SERVER G454_FILE"
  using looks_self looks_server [of "''/g454/attrfile''"]
  by (simp_all add: G454_FILE_def G454_ROOT_def G454_SERVER_def)

lemma g454_check_ok:
  assumes "xholds c U (X(p \<mapsto> map_of g454_table)) s" "looks q p"
    and "\<And>t. xholds c U (X(p \<mapsto> map_of g454_table)) t \<Longrightarrow> Q () t"
  shows "wp (g454_check_values K q) Q s"
proof -
  have "wp (for_each g454_table (\<lambda>e. bnd (xfs_getxattr K q (fst e) 64) (\<lambda>(n, val). seq [
       kunit_assert (n = int (length (snd e))), kunit_expect (take (length (snd e)) val = snd e)]))) Q s"
  proof (rule x_for_each [OF assms(1)], unfold wp_bnd, goal_cases)
    case (1 e t)
    show ?case
      by (rule x_get_table [OF 1(2) assms(2) g454_table_simps(1) 1(1)]) (use g454_table_simps(2) 1(1) in auto)
  qed (rule assms(3))
  then show ?thesis by (simp add: g454_check_values_def g454_table_def for_each_map)
qed

lemma g454_run_ok:
  assumes "ready V ok G454_ROOT s"
  shows "passes (keys_that_look_alike_stay_different_keys K) s"
proof -
  have sets: "for_each g454_keys (\<lambda>k. must (xfs_setxattr K G454_FILE (g454_name (fst k)) (snd k) 0)) =
    for_each g454_table (\<lambda>e. must (xfs_setxattr K G454_FILE (fst e) (snd e) 0))"
    by (simp add: g454_table_def for_each_map)
  have len: "\<forall>e\<in>set g454_table. length (snd e) \<le> 65536" using g454_table_simps(2) by fastforce
  have card: "card (dom (map_of g454_table)) = 10"
    using distinct_card [OF g454_table_simps(1)] g454_table_simps(4) by (simp add: dom_map_of_conv_image_fst)
  show ?thesis
    unfolding passes_def keys_that_look_alike_stay_different_keys_def sets
    apply (simp only: wp_steps)
    apply (rule x_prologue [where U = "{G454_FILE}", OF assms], simp add: G454_FILE_def)
    apply (erule x_write_new, simp, simp, simp add: size_limit_def)
    apply (intro conjI refl)
    apply (erule x_set_table [OF _ g454_looks(1) g454_table_simps(1) len])
    apply (erule g454_check_ok, rule g454_looks)+
    apply (erule x_alloc)
    apply (erule x_list_at, rule g454_looks, rule g454_size, simp only: dom_map_of_conv_image_fst, rule g454_table_simps)
    apply (simp only: wp_steps, rule conjI, simp add: g454_size, rule wp_kunit_expectI, simp only: card g454_table_simps)
    apply (drule xholds_fails, simp)
    done
qed

end

end
