(* ===== verification/Gen486.thy ===== *)
theory Gen486
  imports Xattrs
begin

text \<open>
  \<open>kunit/xfstests/generic/486.c\<close>: the flags of setxattr.  A tiny attribute is replaced by a
  large one; creating what exists and replacing what does not are refused.
\<close>

definition G486_ROOT :: string where "G486_ROOT = XFS_MNT @ ''/g486''"
definition G486_FILE :: string where "G486_FILE = G486_ROOT @ ''/hello''"
definition G486_SERVER :: string where "G486_SERVER = XFS_EXPORT @ ''/g486/hello''"
definition G486_NAME :: string where "G486_NAME = ''user.world''"
definition G486_BIG :: nat where "G486_BIG = 2048"

definition g486_remove_tree :: "'w kernel \<Rightarrow> (('w, 'z) kst_scheme, unit) prog" where
  "g486_remove_tree K = seq [ignore (xfs_unlink K G486_FILE), ignore (xfs_rmdir_settled K G486_ROOT)]"

definition replacing_a_tiny_attr_with_a_large_one_works :: "'w kernel \<Rightarrow> (('w, 'z) fxs_scheme, unit) prog" where
  "replacing_a_tiny_attr_with_a_large_one_works K = (let big = replicate G486_BIG CHR ''1'' in seq [
     test_prologue K G486_ROOT ''g486_remove_tree'' (g486_remove_tree K),
     must (xfs_write_new_file K G486_FILE []),
     must_alloc2 K G486_BIG G486_BIG,
     must (xfs_setxattr K G486_FILE G486_NAME ''0'' XATTR_CREATE),
     must (xfs_setxattr K G486_FILE G486_NAME big XATTR_REPLACE),
     bnd (xfs_getxattr K G486_FILE G486_NAME G486_BIG) (\<lambda>(n, got). seq [
       kunit_assert (n = int G486_BIG),
       case first_diff got (replicate G486_BIG CHR ''1'') of None \<Rightarrow> ret () | Some i \<Rightarrow> kunit_fail]),
     bnd (xfs_getxattr K G486_SERVER G486_NAME G486_BIG) (\<lambda>(n, got). seq [
       kunit_assert (n = int G486_BIG),
       kunit_expect (got = big)])])"

definition the_create_and_replace_flags_are_enforced :: "'w kernel \<Rightarrow> (('w, 'z) fxs_scheme, unit) prog" where
  "the_create_and_replace_flags_are_enforced K = seq [
     test_prologue K G486_ROOT ''g486_remove_tree'' (g486_remove_tree K),
     must (xfs_write_new_file K G486_FILE []),
     expect_ret (xfs_setxattr K G486_FILE G486_NAME ''x'' XATTR_REPLACE) (\<lambda>e. e = - ENODATA),
     must (xfs_setxattr K G486_FILE G486_NAME ''x'' XATTR_CREATE),
     expect_ret (xfs_setxattr K G486_FILE G486_NAME ''y'' XATTR_CREATE) (\<lambda>e. e = - EEXIST)]"

definition g486_suite :: "'w kernel \<Rightarrow> ('w, 'z) fxs_scheme suite" where
  "g486_suite K = nfs_suite K ''xfstests/generic/486''
     [(''replacing_a_tiny_attr_with_a_large_one_works'', replacing_a_tiny_attr_with_a_large_one_works K),
      (''the_create_and_replace_flags_are_enforced'', the_create_and_replace_flags_are_enforced K)]"

section \<open>Both flags are enforced\<close>

context exported
begin

lemma g486_looks: "looks G486_FILE G486_FILE" "looks G486_SERVER G486_FILE"
  using looks_self looks_server [of "''/g486/hello''"]
  by (simp_all add: G486_FILE_def G486_ROOT_def G486_SERVER_def)

lemma g486_replace_ok:
  assumes "ready V ok G486_ROOT s"
  shows "passes (replacing_a_tiny_attr_with_a_large_one_works K) s"
  unfolding passes_def replacing_a_tiny_attr_with_a_large_one_works_def Let_def
  apply (simp only: wp_steps)
  apply (rule x_prologue [where U = "{G486_FILE}", OF assms], simp add: G486_FILE_def)
  apply (erule x_write_new, simp, simp, simp add: size_limit_def)
  apply (intro conjI refl)
  apply (erule x_alloc2)
  apply (erule x_create_at, rule g486_looks, simp, intro conjI refl)
   prefer 2 apply simp
  apply (erule x_replace_at, rule g486_looks, simp add: G486_BIG_def, intro conjI refl)
   prefer 2 apply simp
  apply (erule x_get_at, rule g486_looks, simp, simp, simp only: wp_steps length_replicate first_diff_same)
  apply (erule x_get_at, rule g486_looks, simp, simp, simp only: wp_steps length_replicate, rule wp_kunit_expectI, simp)
  apply (drule xholds_fails, simp)
  done

lemma g486_flags_ok:
  assumes "ready V ok G486_ROOT s"
  shows "passes (the_create_and_replace_flags_are_enforced K) s"
  unfolding passes_def the_create_and_replace_flags_are_enforced_def
  apply (simp only: wp_steps)
  apply (rule x_prologue [where U = "{G486_FILE}", OF assms], simp add: G486_FILE_def)
  apply (erule x_write_new, simp, simp, simp add: size_limit_def)
  apply (intro conjI refl)
  apply (rule wp_expect_retI, erule x_replace_at, rule g486_looks, simp, simp)
  apply (intro conjI refl)
  apply (erule x_create_at, rule g486_looks, simp, intro conjI refl)
   prefer 2 apply simp
  apply (rule wp_expect_retI, erule x_create_at, rule g486_looks, simp, simp)
  apply (drule xholds_fails, simp)
  done

end

section \<open>Properties\<close>

end
