(* ===== verification/Gen490.thy ===== *)
theory Gen490
  imports Seeks
begin

text \<open>
  \<open>kunit/xfstests/generic/490.c\<close>: \<open>SEEK_DATA\<close> from inside a hole of four megabytes and one of
  thirty-two gigabytes lands on the block behind it.  A server may refuse the second size with
  EFBIG; the case then skips itself.
\<close>

definition G490_ROOT :: string where "G490_ROOT = XFS_MNT @ ''/g490''"
definition G490_FILE19 :: string where "G490_FILE19 = G490_ROOT @ ''/seek19''"
definition G490_FILE20 :: string where "G490_FILE20 = G490_ROOT @ ''/seek20''"
definition G490_BSZ :: int where "G490_BSZ = 4096"

definition g490_remove_tree :: "'w kernel \<Rightarrow> (('w, 'z) kst_scheme, unit) prog" where
  "g490_remove_tree K = seq [
     ignore (xfs_unlink K G490_FILE20),
     ignore (xfs_unlink K G490_FILE19),
     ignore (xfs_rmdir_settled K G490_ROOT)]"

text \<open>The open file and whether the server refused its size.\<close>

definition g490_sparse_file :: "'w kernel \<Rightarrow> string \<Rightarrow> int \<Rightarrow> byte list \<Rightarrow> (('w, 'z) kst_scheme, nat \<times> bool) prog" where
  "g490_sparse_file K path filsz buf =
     must_open (kcall (filp_open K path {O_RDWR, O_CREAT, O_TRUNC, O_LARGEFILE} (mode3 6 4 4))) (\<lambda>f.
       bnd (kcall (kernel_write K f buf (filsz - G490_BSZ))) (\<lambda>(n, _).
         if n = - EFBIG then ret (f, True)
         else bnd (kunit_assert (n = G490_BSZ)) (\<lambda>_. ret (f, False))))"

definition g490_seek_data ::
  "(nat \<Rightarrow> int \<Rightarrow> whence \<Rightarrow> 'w \<Rightarrow> int \<times> 'w) \<Rightarrow> nat \<Rightarrow> int \<Rightarrow> int \<Rightarrow> (('w, 'z) kst_scheme, unit) prog" where
  "g490_seek_data seek f start want = expect_ret (kcall (seek f start SEEK_DATA)) (\<lambda>got. got = want)"

definition seek_data_from_inside_a_large_hole ::
  "'w kernel \<Rightarrow> (nat \<Rightarrow> int \<Rightarrow> whence \<Rightarrow> 'w \<Rightarrow> int \<times> 'w) \<Rightarrow> (('w, 'z) fxs_scheme, unit) prog" where
  "seek_data_from_inside_a_large_hole K seek = (let
       buf = replicate (nat G490_BSZ) (of_char (CHR ''a''));
       filsz = (12 + G490_BSZ div 4 + 1) * G490_BSZ;
       data = filsz - G490_BSZ in seq [
     test_prologue K G490_ROOT ''g490_remove_tree'' (g490_remove_tree K),
     must_alloc K (nat G490_BSZ),
     bnd (g490_sparse_file K G490_FILE19 filsz buf) (\<lambda>(f, too_big). seq [
       kunit_assert (\<not> too_big),
       g490_seek_data seek f G490_BSZ data,
       g490_seek_data seek f (12 * G490_BSZ) data,
       g490_seek_data seek f ((12 + G490_BSZ div 4 - 8) * G490_BSZ) data,
       kdo (filp_close K f)])])"

definition seek_data_from_inside_a_huge_hole ::
  "'w kernel \<Rightarrow> (nat \<Rightarrow> int \<Rightarrow> whence \<Rightarrow> 'w \<Rightarrow> int \<times> 'w) \<Rightarrow> (('w, 'z) fxs_scheme, unit) prog" where
  "seek_data_from_inside_a_huge_hole K seek = (let
       buf = replicate (nat G490_BSZ) (of_char (CHR ''a''));
       q = G490_BSZ div 4;
       filsz = (12 + q + 8 * q * q + 2 * q + 5) * G490_BSZ;
       data = filsz - G490_BSZ in
     bnd (seq [
       test_prologue K G490_ROOT ''g490_remove_tree'' (g490_remove_tree K),
       must_alloc K (nat G490_BSZ)]) (\<lambda>_.
     bnd (g490_sparse_file K G490_FILE20 filsz buf) (\<lambda>(f, too_big).
       if too_big then kunit_skip
       else seq [
         g490_seek_data seek f (14 * G490_BSZ) data,
         g490_seek_data seek f ((12 + 2 * q) * G490_BSZ) data,
         g490_seek_data seek f ((12 + q + q * q + 3 * q + 5) * G490_BSZ) data,
         g490_seek_data seek f ((12 + q + 8 * q * q + q + 11) * G490_BSZ) data,
         kdo (filp_close K f)])))"

definition g490_suite :: "'w kernel \<Rightarrow> (nat \<Rightarrow> int \<Rightarrow> whence \<Rightarrow> 'w \<Rightarrow> int \<times> 'w) \<Rightarrow> ('w, 'z) fxs_scheme suite" where
  "g490_suite K seek = nfs_suite K ''xfstests/generic/490''
     [(''seek_data_from_inside_a_large_hole'', seek_data_from_inside_a_large_hole K seek),
      (''seek_data_from_inside_a_huge_hole'', seek_data_from_inside_a_huge_hole K seek)]"

section \<open>Skipping\<close>

text \<open>The case runs to its end or skips itself, and no assertion or expectation fails.\<close>

definition passes_or_skips :: "(('w, 'z) kst_scheme, unit) prog \<Rightarrow> ('w, 'z) kst_scheme \<Rightarrow> bool" where
  "passes_or_skips m s = (case m s of
     Ok _ t \<Rightarrow> kfails t = kfails s | Skip t \<Rightarrow> kfails t = kfails s | Abort _ \<Rightarrow> False | Stuck _ \<Rightarrow> False)"

lemma passes_or_skipsI:
  assumes "wp m (\<lambda>a t. kfails t = kfails s \<and> passes_or_skips (f a) t) s"
  shows "passes_or_skips (bnd m f) s"
  using assms by (auto simp: wp_def passes_or_skips_def bnd_def split: outcome.splits)

lemma passes_or_skips_skip: "passes_or_skips kunit_skip s"
  by (simp add: passes_or_skips_def kunit_skip_def)

lemma passes_or_skips_pass: "passes m s \<Longrightarrow> passes_or_skips m s"
  by (simp add: passes_or_skips_def passes_def wp_def split: outcome.splits)

section \<open>The two cases\<close>

lemma g490_last_block:
  assumes "PAGE_SIZE dvd b" "0 \<le> off" "nat off < b"
  shows "seek_in (pages b 4096) (b + 4096) off SEEK_DATA = int b"
  by (rule seek_data) (use assms page_aligned [OF assms(1), of 4096] in \<open>auto simp: PAGE_SIZE_def\<close>)

context seeking
begin

abbreviation g490_flags :: "oflag set" where "g490_flags \<equiv> {O_RDWR, O_CREAT, O_TRUNC, O_LARGEFILE}"

text \<open>The file, its last block in place.\<close>

definition g490_file where
  "g490_file c U D p h b t \<longleftrightarrow> (\<exists>d. length d = b + 4096 \<and>
     sholds c U (Map.empty(p \<mapsto> d)) [p \<mapsto> (h, g490_flags)] (D(p := pages b 4096)) t)"

lemma g490_seek_ok:
  assumes "g490_file c U D p h b s" "PAGE_SIZE dvd b" "0 \<le> off" "nat off < b" "v = int b"
    and "\<And>t. g490_file c U D p h b t \<Longrightarrow> Q () t"
  shows "wp (g490_seek_data seek h off v) Q s"
proof -
  obtain d where d: "length d = b + 4096" "sholds c U (Map.empty(p \<mapsto> d)) [p \<mapsto> (h, g490_flags)] (D(p := pages b 4096)) s"
    using assms(1) by (auto simp: g490_file_def)
  show ?thesis
    unfolding g490_seek_data_def
    by (rule wp_expect_retI, rule q_seek_same [OF d(2)], simp)
      (use assms(5,6) d(1) g490_last_block [OF assms(2-4)] in \<open>auto simp: g490_file_def\<close>)
qed

lemma g490_sparse_ok:
  assumes "sholds c U Map.empty Map.empty D s" "p \<in> U" "4096 \<le> filsz" "filsz < 2 ^ 63" "b = nat (filsz - 4096)"
    and "\<And>t h. g490_file c U D p h b t \<Longrightarrow> Q (h, False) t"
    and "\<And>t h. \<lbrakk>int size_limit \<le> filsz; kfails t = fst c\<rbrakk> \<Longrightarrow> Q (h, True) t"
  shows "wp (g490_sparse_file K p filsz (replicate 4096 v)) Q s"
  unfolding g490_sparse_file_def wp_must_open
proof (rule q_create [OF assms(1,2)], simp, simp, unfold sum.case wp_bnd G490_BSZ_def, goal_cases)
  case (1 t h)
  have len: "length (write_at b (replicate 4096 v) []) = b + 4096" by simp
  have pos: "0 \<le> filsz - 4096" "nat (filsz - 4096) = b" using assms(3,5) by simp_all
  have as_file: "g490_file c U D p h b u" if "sholds c U (Map.empty(p \<mapsto> write_at (nat (filsz - 4096)) (replicate 4096 v) []))
      [p \<mapsto> (h, g490_flags)] (D(p := {} \<union> pages (nat (filsz - 4096)) (length (replicate 4096 v)))) u" for u
    unfolding g490_file_def by (rule exI [of _ "write_at b (replicate 4096 v) []"]) (use that len pos in simp)
  have fb: "(4096 :: int) \<noteq> - EFBIG" by (simp add: EFBIG_def)
  show ?case
  proof (cases "filsz < int size_limit")
    case True
    then have lim: "nat (filsz - 4096) + length (replicate 4096 v) < size_limit" using assms(3) by simp
    show ?thesis
      by (rule q_write_same [OF 1 _ _ pos(1) lim]) (use fb assms(6) [OF as_file] in auto)
  next
    case False
    have lim: "nat (filsz - 4096) + length (replicate 4096 v) < 2 ^ 63" using assms(3,4) by simp
    show ?thesis
    proof (rule q_large_write [OF 1 _ _ _ pos(1) lim], simp, simp, simp, goal_cases)
      case (1 u x')
      then show ?case using assms(7) False sholds_fails [OF 1] by simp
    next
      case (2 u x')
      then show ?case using fb assms(6) [OF as_file] by auto
    qed
  qed
qed

lemma g490_large_ok:
  assumes "ready V ok G490_ROOT s"
  shows "passes (seek_data_from_inside_a_large_hole K seek) s"
proof -
  have nums: "nat G490_BSZ = 4096" "(12 + G490_BSZ div 4 + 1) * G490_BSZ = 4247552"
    "(12 + G490_BSZ div 4 + 1) * G490_BSZ - G490_BSZ = 4243456" by (simp_all add: G490_BSZ_def)
  have al: "PAGE_SIZE dvd 4243456" by (simp add: PAGE_SIZE_def)
  show ?thesis
    unfolding passes_def seek_data_from_inside_a_large_hole_def Let_def nums
    apply (simp only: wp_steps)
    apply (rule q_prologue [where U = "{G490_FILE19}" and D = "\<lambda>_. {}", OF assms], simp add: G490_FILE19_def)
    apply (erule q_alloc)
    apply (erule g490_sparse_ok [where b = 4243456], simp, simp, simp, simp)
     apply (simp only: wp_steps)
     apply (erule g490_seek_ok [OF _ al], simp add: G490_BSZ_def, simp add: G490_BSZ_def, simp add: G490_BSZ_def)
     apply (erule g490_seek_ok [OF _ al], simp add: G490_BSZ_def, simp add: G490_BSZ_def, simp add: G490_BSZ_def)
     apply (erule g490_seek_ok [OF _ al], simp add: G490_BSZ_def, simp add: G490_BSZ_def, simp add: G490_BSZ_def)
     apply (simp only: g490_file_def, elim exE conjE)
     apply (erule q_close_same, simp)
     apply (drule sholds_fails, simp)
    apply (simp add: size_limit_def)
    done
qed

lemma g490_huge_ok:
  assumes "ready V ok G490_ROOT s"
  shows "passes_or_skips (seek_data_from_inside_a_huge_hole K seek) s"
proof -
  let ?c = "(kfails s, ''g490_remove_tree'' # kactions s, kst.more s)"
  let ?run = "\<lambda>f. seq [
         g490_seek_data seek f 57344 34372386816,
         g490_seek_data seek f 8437760 34372386816,
         g490_seek_data seek f 4311814144 34372386816,
         g490_seek_data seek f 34368221184 34372386816,
         kdo (filp_close K f)]"
  have nums: "nat G490_BSZ = 4096" "G490_BSZ = 4096" "(4096 :: int) div 4 = 1024" by (simp_all add: G490_BSZ_def)
  have offs: "(12 + 1024 + 8 * 1024 * 1024 + 2 * 1024 + 5) * 4096 = (34372390912 :: int)" "(34372390912 :: int) - 4096 = 34372386816"
    "(14 :: int) * 4096 = 57344" "(12 + 2 * 1024) * 4096 = (8437760 :: int)"
    "(12 + 1024 + 1024 * 1024 + 3 * 1024 + 5) * 4096 = (4311814144 :: int)"
    "(12 + 1024 + 8 * 1024 * 1024 + 1024 + 11) * 4096 = (34368221184 :: int)" "nat 4096 = 4096" by simp_all
  have al: "PAGE_SIZE dvd 34372386816" by (simp add: PAGE_SIZE_def)
  have run: "passes (?run h) t" if "g490_file ?c {G490_FILE20} (\<lambda>_. {}) G490_FILE20 h 34372386816 t" "kfails t = kfails s" for h t
    unfolding passes_def
    apply (simp only: wp_steps)
    apply (rule g490_seek_ok [OF that(1) al], simp, simp, simp)
    apply (erule g490_seek_ok [OF _ al], simp, simp, simp)
    apply (erule g490_seek_ok [OF _ al], simp, simp, simp)
    apply (erule g490_seek_ok [OF _ al], simp, simp, simp)
    apply (simp only: g490_file_def, elim exE conjE)
    apply (erule q_close_same, simp)
    apply (drule sholds_fails, simp add: that(2))
    done
  have file_fails: "kfails t = kfails s" if "g490_file ?c {G490_FILE20} (\<lambda>_. {}) G490_FILE20 h 34372386816 t" for h t
    using that by (auto simp: g490_file_def dest: sholds_fails)
  have body: "passes_or_skips (bnd (g490_sparse_file K G490_FILE20 34372390912 (replicate 4096 v))
      (\<lambda>(f, too_big). if too_big then kunit_skip else ?run f)) t"
    if t: "sholds ?c {G490_FILE20} Map.empty Map.empty (\<lambda>_. {}) t" for t v
  proof (rule passes_or_skipsI, rule g490_sparse_ok [OF t, where b = 34372386816], simp, simp, simp, simp, goal_cases)
    case (1 u h)
    then show ?case using run [OF 1 file_fails [OF 1]] file_fails [OF 1] sholds_fails [OF t]
      by (simp add: passes_or_skips_pass)
  next
    case (2 u h)
    then show ?case using sholds_fails [OF t] by (simp add: passes_or_skips_skip)
  qed
  have start: "wp (seq [test_prologue K G490_ROOT ''g490_remove_tree'' (g490_remove_tree K), must_alloc K 4096])
      (\<lambda>_ t. sholds ?c {G490_FILE20} Map.empty Map.empty (\<lambda>_. {}) t) s"
    apply (simp only: wp_steps)
    apply (rule q_prologue [where U = "{G490_FILE20}" and D = "\<lambda>_. {}", OF assms], simp add: G490_FILE20_def)
    apply (erule q_alloc, assumption)
    done
  have file_start: "kfails t = kfails s" if "sholds ?c {G490_FILE20} Map.empty Map.empty (\<lambda>_. {}) t" for t
    using sholds_fails [OF that] by simp
  show ?thesis
    unfolding seek_data_from_inside_a_huge_hole_def Let_def nums offs
    by (rule passes_or_skipsI, rule wp_mono [OF start]) (use body file_start in blast)
qed

end

end
