(* ===== verification/Gen523.thy ===== *)
theory Gen523
  imports Xattrs
begin

text \<open>
  \<open>kunit/xfstests/generic/523.c\<close>: an attribute name with a slash in it is stored, read back
  and listed whole.
\<close>

definition G523_ROOT :: string where "G523_ROOT = XFS_MNT @ ''/g523''"
definition G523_FILE :: string where "G523_FILE = G523_ROOT @ ''/moofile''"
definition G523_SERVER :: string where "G523_SERVER = XFS_EXPORT @ ''/g523/moofile''"
definition G523_NAME :: string where "G523_NAME = ''user.boo/hoo''"
definition G523_VALUE :: string where "G523_VALUE = ''woof''"

definition g523_remove_tree :: "'w kernel \<Rightarrow> (('w, 'z) kst_scheme, unit) prog" where
  "g523_remove_tree K = seq [ignore (xfs_unlink K G523_FILE), ignore (xfs_rmdir_settled K G523_ROOT)]"

definition an_xattr_name_may_contain_a_slash :: "'w kernel \<Rightarrow> (('w, 'z) fxs_scheme, unit) prog" where
  "an_xattr_name_may_contain_a_slash K = seq [
     test_prologue K G523_ROOT ''g523_remove_tree'' (g523_remove_tree K),
     must (xfs_write_new_file K G523_FILE []),
     must (xfs_setxattr K G523_FILE G523_NAME G523_VALUE 0),
     bnd (xfs_getxattr K G523_FILE G523_NAME 16) (\<lambda>(n, value). seq [
       kunit_assert (n = int (length G523_VALUE)),
       kunit_expect (take (nat n) value = G523_VALUE)]),
     bnd (xfs_getxattr K G523_SERVER G523_NAME 16) (\<lambda>(n, value). seq [
       kunit_assert (n = int (length G523_VALUE)),
       kunit_expect (take (nat n) value = G523_VALUE)]),
     must_alloc K PAGE_SIZE,
     bnd (xfs_listxattr K G523_FILE PAGE_SIZE) (\<lambda>(n, list). seq [
       kunit_assert (n > 0),
       kunit_expect (G523_NAME \<in> set (nul_names list))])]"

definition g523_suite :: "'w kernel \<Rightarrow> ('w, 'z) fxs_scheme suite" where
  "g523_suite K = nfs_suite K ''xfstests/generic/523''
     [(''an_xattr_name_may_contain_a_slash'', an_xattr_name_may_contain_a_slash K)]"

section \<open>The name is an opaque string\<close>

context exported
begin

lemma g523_looks: "looks G523_FILE G523_FILE" "looks G523_SERVER G523_FILE"
  using looks_self looks_server [of "''/g523/moofile''"]
  by (simp_all add: G523_FILE_def G523_ROOT_def G523_SERVER_def)

lemma g523_run_ok:
  assumes "ready V ok G523_ROOT s"
  shows "passes (an_xattr_name_may_contain_a_slash K) s"
proof -
  note simps = list_size_def PAGE_SIZE_def G523_NAME_def G523_VALUE_def
  show ?thesis
    unfolding passes_def an_xattr_name_may_contain_a_slash_def
    apply (simp only: wp_steps)
    apply (rule x_prologue [where U = "{G523_FILE}", OF assms], simp add: G523_FILE_def)
    apply (erule x_write_new, simp, simp, simp add: size_limit_def)
    apply (intro conjI refl)
    apply (erule x_set_at, rule g523_looks, simp add: simps, intro conjI refl)
    apply (erule x_get_at, rule g523_looks, simp, simp add: simps, simp only: wp_steps, rule wp_kunit_expectI, simp)+
    apply (erule x_alloc)
    apply (erule x_list_at, rule g523_looks, simp add: simps, simp add: simps)
    apply (simp only: wp_steps, rule conjI, simp add: simps, rule wp_kunit_expectI, simp)
    apply (drule xholds_fails, simp)
    done
qed

end

end
