(* ===== verification/Gen533.thy ===== *)
theory Gen533
  imports Xattrs
begin

text \<open>
  \<open>kunit/xfstests/generic/533.c\<close>: three attributes are set, listed, read back, one is
  removed, and every answer is checked through the client and through the server's copy.
\<close>

definition G533_ROOT :: string where "G533_ROOT = XFS_MNT @ ''/g533''"
definition G533_FILE :: string where "G533_FILE = G533_ROOT @ ''/foo.533''"
definition G533_SERVER :: string where "G533_SERVER = XFS_EXPORT @ ''/g533/foo.533''"

definition g533_remove_tree :: "'w kernel \<Rightarrow> (('w, 'z) kst_scheme, unit) prog" where
  "g533_remove_tree K = seq [ignore (xfs_unlink K G533_FILE), ignore (xfs_rmdir_settled K G533_ROOT)]"

definition g533_count :: "'w kernel \<Rightarrow> string \<Rightarrow> (('w, 'z) kst_scheme, int) prog" where
  "g533_count K path = bnd (must_alloc K PAGE_SIZE) (\<lambda>_.
     bnd (xfs_listxattr K path PAGE_SIZE) (\<lambda>(len, list).
     if len < 0 then ret len else ret (int (length (nul_names list)))))"

definition g533_expect_value :: "'w kernel \<Rightarrow> string \<Rightarrow> string \<Rightarrow> string \<Rightarrow> (('w, 'z) kst_scheme, unit) prog" where
  "g533_expect_value K path name value = bnd (xfs_getxattr K path name 32) (\<lambda>(n, buf). seq [
     kunit_assert (n = int (length value)),
     kunit_expect (take (length value) buf = value)])"

definition user_xattrs_are_set_listed_and_removed :: "'w kernel \<Rightarrow> (('w, 'z) fxs_scheme, unit) prog" where
  "user_xattrs_are_set_listed_and_removed K = seq [
     test_prologue K G533_ROOT ''g533_remove_tree'' (g533_remove_tree K),
     must (xfs_write_new_file K G533_FILE []),
     expect_ret (g533_count K G533_FILE) (\<lambda>n. n = 0),
     must (xfs_setxattr K G533_FILE ''user.NOISE'' ''woof'' 0),
     must (xfs_setxattr K G533_FILE ''user.COLOUR'' ''blue'' 0),
     must (xfs_setxattr K G533_FILE ''user.SIZE'' ''small'' 0),
     expect_ret (g533_count K G533_FILE) (\<lambda>n. n = 3),
     expect_ret (g533_count K G533_SERVER) (\<lambda>n. n = 3),
     g533_expect_value K G533_FILE ''user.NOISE'' ''woof'',
     g533_expect_value K G533_SERVER ''user.NOISE'' ''woof'',
     g533_expect_value K G533_FILE ''user.COLOUR'' ''blue'',
     g533_expect_value K G533_SERVER ''user.COLOUR'' ''blue'',
     g533_expect_value K G533_FILE ''user.SIZE'' ''small'',
     g533_expect_value K G533_SERVER ''user.SIZE'' ''small'',
     must (xfs_removexattr K G533_FILE ''user.COLOUR''),
     expect_ret (g533_count K G533_FILE) (\<lambda>n. n = 2),
     expect_ret (g533_count K G533_SERVER) (\<lambda>n. n = 2),
     g533_expect_value K G533_FILE ''user.NOISE'' ''woof'',
     g533_expect_value K G533_FILE ''user.SIZE'' ''small'',
     expect_ret (xfs_getxattr K G533_FILE ''user.COLOUR'' 0) (\<lambda>(n, _). n = - ENODATA),
     expect_ret (xfs_getxattr K G533_SERVER ''user.COLOUR'' 0) (\<lambda>(n, _). n = - ENODATA)]"

definition g533_suite :: "'w kernel \<Rightarrow> ('w, 'z) fxs_scheme suite" where
  "g533_suite K = nfs_suite K ''xfstests/generic/533''
     [(''user_xattrs_are_set_listed_and_removed'', user_xattrs_are_set_listed_and_removed K)]"

section \<open>The file has the attributes of the model\<close>

context exported
begin

lemma g533_count_ok:
  assumes "xholds c U (X(p \<mapsto> m)) s" "looks q p" "list_size m \<le> PAGE_SIZE" "\<forall>n\<in>dom m. NUL \<notin> set n"
    and "card (dom m) = k" "\<And>t. xholds c U (X(p \<mapsto> m)) t \<Longrightarrow> Q (int k) t"
  shows "wp (g533_count K q) Q s"
  unfolding g533_count_def wp_unfold
  by (rule x_alloc [OF assms(1)], erule x_list_at [OF _ assms(2-4)]) (use assms(5,6) in simp)

lemma g533_value_ok:
  assumes "xholds c U (X(p \<mapsto> m)) s" "looks q p" "m nm = Some v" "length v \<le> 32"
    and "\<And>t. xholds c U (X(p \<mapsto> m)) t \<Longrightarrow> Q () t"
  shows "wp (g533_expect_value K q nm v) Q s"
  unfolding g533_expect_value_def wp_unfold
  by (rule x_get_at [OF assms(1-4)]) (simp add: assms(5))

lemma g533_looks: "looks G533_FILE G533_FILE" "looks G533_SERVER G533_FILE"
  using looks_self looks_server [of "''/g533/foo.533''"]
  by (simp_all add: G533_FILE_def G533_ROOT_def G533_SERVER_def)

lemma g533_run_ok:
  assumes "ready V ok G533_ROOT s"
  shows "passes (user_xattrs_are_set_listed_and_removed K) s"
proof -
  note list = list_size_def PAGE_SIZE_def
  show ?thesis
    unfolding passes_def user_xattrs_are_set_listed_and_removed_def
    apply (simp only: wp_steps)
    apply (rule x_prologue [where U = "{G533_FILE}", OF assms], simp add: G533_FILE_def)
    apply (erule x_write_new, simp, simp, simp add: size_limit_def)
    apply (intro conjI refl)
    apply (rule wp_expect_retI, erule g533_count_ok [where k = 0], rule g533_looks, simp add: list, simp, simp, rule conjI, simp)
    apply (erule x_set_at, rule g533_looks, simp, intro conjI refl)+
    apply (rule wp_expect_retI, erule g533_count_ok [where k = 3], rule g533_looks, simp add: list, simp, simp, rule conjI, simp)+
    apply (erule g533_value_ok, rule g533_looks, simp, simp)+
    apply (erule x_remove_at, rule g533_looks, simp, intro conjI refl)
    apply (rule wp_expect_retI, erule g533_count_ok [where k = 2], rule g533_looks, simp add: list, simp, simp, rule conjI, simp)+
    apply (erule g533_value_ok, rule g533_looks, simp, simp)+
    apply (rule wp_expect_retI, erule x_get_none_at, rule g533_looks, simp, simp only: prod.case, intro conjI refl)+
    apply (drule xholds_fails, simp)
    done
qed

end

end
