(* ===== verification/Gen539.thy ===== *)
theory Gen539
  imports Seeks
begin

text \<open>
  \<open>kunit/xfstests/generic/539.c\<close>: \<open>SEEK_HOLE\<close> finds the hole that punching the middle one of
  three allocation units makes, and \<open>SEEK_DATA\<close> the data behind it.
\<close>

definition G539_ROOT :: string where "G539_ROOT = XFS_MNT @ ''/g539''"
definition G539_FILE :: string where "G539_FILE = G539_ROOT @ ''/seek_sanity_testfile.539''"

definition g539_remove_tree :: "'w kernel \<Rightarrow> (('w, 'z) kst_scheme, unit) prog" where
  "g539_remove_tree K = seq [ignore (xfs_unlink K G539_FILE), ignore (xfs_rmdir_settled K G539_ROOT)]"

definition g539_alloc_size ::
  "'w kernel \<Rightarrow> (nat \<Rightarrow> int \<Rightarrow> whence \<Rightarrow> 'w \<Rightarrow> int \<times> 'w) \<Rightarrow> nat \<Rightarrow> (('w, 'z) kst_scheme, int) prog" where
  "g539_alloc_size K seek = alloc_size K seek G539_FILE"

definition seek_hole_finds_a_punched_hole ::
  "'w kernel \<Rightarrow> (nat \<Rightarrow> int \<Rightarrow> whence \<Rightarrow> 'w \<Rightarrow> int \<times> 'w) \<Rightarrow> (('w, 'z) fxs_scheme, unit) prog" where
  "seek_hole_finds_a_punched_hole K seek = seq [
     test_prologue K G539_ROOT ''g539_remove_tree'' (g539_remove_tree K),
     must_open (kcall (filp_open K G539_FILE {O_RDWR, O_CREAT, O_TRUNC} (mode3 6 4 4))) (\<lambda>f.
       bnd (g539_alloc_size K seek f) (\<lambda>alloc. seq [
         kunit_info (''Allocation size: '' @ dec_int alloc),
         kunit_assert (0 < alloc),
         must (xfs_ftruncate K f 0),
         must_alloc K (nat (alloc * 3)),
         must_ret (kcall (kernel_write K f (replicate (nat (alloc * 3)) (of_char (CHR ''a''))) 0)) (\<lambda>(n, _). n = alloc * 3),
         must (kcall (vfs_fallocate K f {FALLOC_FL_PUNCH_HOLE, FALLOC_FL_KEEP_SIZE} alloc alloc)),
         expect_ret (kcall (seek f 0 SEEK_DATA)) (\<lambda>r. r = 0),
         expect_ret (kcall (seek f 0 SEEK_HOLE)) (\<lambda>r. r = alloc),
         expect_ret (kcall (seek f alloc SEEK_DATA)) (\<lambda>r. r = alloc * 2),
         kdo (filp_close K f)]))]"

definition g539_suite :: "'w kernel \<Rightarrow> (nat \<Rightarrow> int \<Rightarrow> whence \<Rightarrow> 'w \<Rightarrow> int \<times> 'w) \<Rightarrow> ('w, 'z) fxs_scheme suite" where
  "g539_suite K seek = nfs_suite K ''xfstests/generic/539''
     [(''seek_hole_finds_a_punched_hole'', seek_hole_finds_a_punched_hole K seek)]"

lemma g539_punched:
  defines "X \<equiv> {0..2} - {1..<2}"
  shows "seek_in X 12288 0 SEEK_DATA = 0" "seek_in X 12288 0 SEEK_HOLE = 4096" "seek_in X 12288 4096 SEEK_DATA = 8192"
proof -
  have X: "i div PAGE_SIZE \<in> X \<longleftrightarrow> i < 4096 \<or> 8192 \<le> i \<and> i < 12288" for i
    unfolding X_def Diff_iff atLeastAtMost_iff atLeastLessThan_iff page_bounds by (auto simp: PAGE_SIZE_def)
  then have X0: "0 \<in> X" using X [of 0] by simp
  show "seek_in X 12288 0 SEEK_DATA = 0" using seek_data [of 0 0 12288 X] by (simp add: X0)
  show "seek_in X 12288 0 SEEK_HOLE = 4096" using seek_hole [of 0 12288 4096 X] by (simp add: X)
  show "seek_in X 12288 4096 SEEK_DATA = 8192" using seek_data [of 4096 8192 12288 X] by (simp add: X)
qed

context seeking
begin

lemma g539_run_ok:
  assumes "ready V ok G539_ROOT s"
  shows "passes (seek_hole_finds_a_punched_hole K seek) s"
proof -
  have three: "nat (4096 * 3) = 12288" "(4096 :: int) * 3 = 12288" "(4096 :: int) * 2 = 8192" by simp_all
  have X: "X \<inter> pages_below (nat 0) \<union> pages (nat 0) 12288 - inner_pages 4096 4096 = {0..2} - {1..<2}" for X
    by (simp add: pages_def inner_pages_def PAGE_SIZE_def)
  have len: "length (punch 4096 4096 (write_at (nat 0) (replicate 12288 v) (resize (nat 0) d))) = 12288" for v d
    by (simp add: punch_def)
  show ?thesis
    unfolding passes_def seek_hole_finds_a_punched_hole_def g539_alloc_size_def
    apply (simp only: wp_steps)
    apply (rule q_prologue [where U = "{G539_FILE}" and D = "\<lambda>_. {}", OF assms], simp add: G539_FILE_def)
    apply (erule q_create, simp, simp, simp)
    apply (simp only: wp_steps)
    apply (erule alloc_size_ok, simp, simp)
    apply (erule q_info, intro conjI, simp)
    apply (erule q_ftruncate_same, simp, simp, simp add: size_limit_def, intro conjI refl)
    apply (simp only: three)
    apply (erule q_alloc)
    apply (erule q_write_same, simp, simp, simp, simp add: size_limit_def, simp only: prod.case length_replicate, intro conjI, simp)
    apply (erule q_punch_same, simp, simp, simp, simp add: size_limit_def, intro conjI refl)
    apply (simp only: nat_numeral X)
    apply (rule wp_expect_retI, erule q_seek_same, simp, simp only: len g539_punched, intro conjI refl)
    apply (rule wp_expect_retI, erule q_seek_same, simp, simp only: len g539_punched, intro conjI refl)
    apply (rule wp_expect_retI, erule q_seek_same, simp, simp only: len g539_punched, intro conjI refl)
    apply (erule q_close_same, simp)
    apply (drule sholds_fails, simp)
    done
qed

end

end
