(* ===== verification/Gen611.thy ===== *)
theory Gen611
  imports Xattrs
begin

text \<open>
  \<open>kunit/xfstests/generic/611.c\<close>: an attribute with a name of one character and an empty
  value exists, on the client and in the server's copy.
\<close>

definition G611_ROOT :: string where "G611_ROOT = XFS_MNT @ ''/g611''"
definition G611_FILE :: string where "G611_FILE = G611_ROOT @ ''/testfile''"
definition G611_SERVER :: string where "G611_SERVER = XFS_EXPORT @ ''/g611/testfile''"
definition G611_NAME :: string where "G611_NAME = ''user.a''"

definition g611_remove_tree :: "'w kernel \<Rightarrow> (('w, 'z) kst_scheme, unit) prog" where
  "g611_remove_tree K = seq [ignore (xfs_unlink K G611_FILE), ignore (xfs_rmdir_settled K G611_ROOT)]"

definition g611_check :: "'w kernel \<Rightarrow> string \<Rightarrow> (('w, 'z) kst_scheme, unit) prog" where
  "g611_check K path = seq [
     expect_ret (xfs_getxattr K path G611_NAME 0) (\<lambda>(n, _). n = 0),
     must_alloc K PAGE_SIZE,
     bnd (xfs_listxattr K path PAGE_SIZE) (\<lambda>(n, list). seq [
       kunit_assert (n > 0),
       kunit_expect (G611_NAME \<in> set (nul_names list))])]"

definition a_one_character_name_with_an_empty_value_survives :: "'w kernel \<Rightarrow> (('w, 'z) fxs_scheme, unit) prog" where
  "a_one_character_name_with_an_empty_value_survives K = seq [
     test_prologue K G611_ROOT ''g611_remove_tree'' (g611_remove_tree K),
     must (xfs_write_new_file K G611_FILE []),
     must (xfs_setxattr K G611_FILE G611_NAME [] 0),
     g611_check K G611_FILE,
     g611_check K G611_SERVER]"

definition g611_suite :: "'w kernel \<Rightarrow> ('w, 'z) fxs_scheme suite" where
  "g611_suite K = nfs_suite K ''xfstests/generic/611''
     [(''a_one_character_name_with_an_empty_value_survives'', a_one_character_name_with_an_empty_value_survives K)]"

section \<open>An empty value is a value\<close>

context exported
begin

lemma g611_looks: "looks G611_FILE G611_FILE" "looks G611_SERVER G611_FILE"
  using looks_self looks_server [of "''/g611/testfile''"]
  by (simp_all add: G611_FILE_def G611_ROOT_def G611_SERVER_def)

lemma g611_check_ok:
  assumes "xholds c U (X(p \<mapsto> [G611_NAME \<mapsto> []])) s" "looks q p"
    and "\<And>t. xholds c U (X(p \<mapsto> [G611_NAME \<mapsto> []])) t \<Longrightarrow> Q () t"
  shows "wp (g611_check K q) Q s"
  unfolding g611_check_def wp_steps
  apply (rule wp_expect_retI, rule x_get_at [where v = "[]", OF assms(1,2)], simp, simp, simp only: prod.case list.size, rule conjI, simp)
  apply (erule x_alloc)
  apply (erule x_list_at [OF _ assms(2)], simp add: G611_NAME_def list_size_def PAGE_SIZE_def, simp add: G611_NAME_def)
  apply (simp only: wp_steps, rule conjI, simp add: G611_NAME_def list_size_def)
  apply (rule wp_kunit_expectI, simp, rule assms(3))
  apply assumption
  done

lemma g611_run_ok:
  assumes "ready V ok G611_ROOT s"
  shows "passes (a_one_character_name_with_an_empty_value_survives K) s"
  unfolding passes_def a_one_character_name_with_an_empty_value_survives_def
  apply (simp only: wp_unfold)
  apply (rule x_prologue [where U = "{G611_FILE}", OF assms], simp add: G611_FILE_def)
  apply (erule x_write_new, simp, simp, simp add: size_limit_def)
  apply (intro conjI refl)
  apply (erule x_set_at, rule g611_looks, simp, intro conjI refl)
  apply (erule g611_check_ok, rule g611_looks)+
  apply (drule xholds_fails, simp)
  done

end

end
