(* ===== verification/Gen618.thy ===== *)
theory Gen618
  imports Xattrs
begin

text \<open>
  \<open>kunit/xfstests/generic/618.c\<close>: two attributes with the same value of a few hundred bytes
  are both read back, through the client and from the server's copy.
\<close>

definition G618_ROOT :: string where "G618_ROOT = XFS_MNT @ ''/g618''"
definition G618_FILE :: string where "G618_FILE = G618_ROOT @ ''/testfile''"
definition G618_SERVER :: string where "G618_SERVER = XFS_EXPORT @ ''/g618/testfile''"
definition G618_VALSZ :: nat where "G618_VALSZ = 256"

definition g618_remove_tree :: "'w kernel \<Rightarrow> (('w, 'z) kst_scheme, unit) prog" where
  "g618_remove_tree K = seq [ignore (xfs_unlink K G618_FILE), ignore (xfs_rmdir_settled K G618_ROOT)]"

definition g618_build_value :: "nat \<Rightarrow> string" where
  \<comment> \<open>\<open>scnprintf\<close> stores at most one character less than it is given\<close>
  "g618_build_value sz = foldl (\<lambda>buf i.
     if length buf < sz then buf @ take (sz - length buf - 1) (dec i @ [nl]) else buf) [] [0..<81]"

definition g618_check :: "'w kernel \<Rightarrow> string \<Rightarrow> string \<Rightarrow> string \<Rightarrow> (('w, 'z) kst_scheme, unit) prog" where
  "g618_check K path name want = bnd (xfs_getxattr K path name G618_VALSZ) (\<lambda>(n, got). seq [
     kunit_assert (n = int (length want)),
     kunit_expect (take (length want) got = want)])"

definition two_mid_sized_xattrs_both_survive :: "'w kernel \<Rightarrow> (('w, 'z) fxs_scheme, unit) prog" where
  "two_mid_sized_xattrs_both_survive K = (let val = g618_build_value G618_VALSZ in seq [
     test_prologue K G618_ROOT ''g618_remove_tree'' (g618_remove_tree K),
     must (xfs_write_new_file K G618_FILE []),
     kunit_assert (length val > 200),
     must (xfs_setxattr K G618_FILE ''user.0'' val 0),
     must (xfs_setxattr K G618_FILE ''user.1'' val 0),
     g618_check K G618_FILE ''user.0'' val,
     g618_check K G618_FILE ''user.1'' val,
     g618_check K G618_SERVER ''user.0'' val,
     g618_check K G618_SERVER ''user.1'' val])"

definition g618_suite :: "'w kernel \<Rightarrow> ('w, 'z) fxs_scheme suite" where
  "g618_suite K = nfs_suite K ''xfstests/generic/618''
     [(''two_mid_sized_xattrs_both_survive'', two_mid_sized_xattrs_both_survive K)]"

section \<open>The value\<close>

lemma g618_value_length: "length (g618_build_value G618_VALSZ) = 233"
  by code_simp

context exported
begin

lemma g618_looks: "looks G618_FILE G618_FILE" "looks G618_SERVER G618_FILE"
  using looks_self looks_server [of "''/g618/testfile''"]
  by (simp_all add: G618_FILE_def G618_ROOT_def G618_SERVER_def)

lemma g618_check_ok:
  assumes "xholds c U (X(p \<mapsto> m)) s" "looks q p" "m nm = Some v" "length v \<le> G618_VALSZ"
    and "\<And>t. xholds c U (X(p \<mapsto> m)) t \<Longrightarrow> Q () t"
  shows "wp (g618_check K q nm v) Q s"
  unfolding g618_check_def wp_steps
  by (rule x_get_at [OF assms(1-4)]) (simp add: assms(5))

lemma g618_run_ok:
  assumes "ready V ok G618_ROOT s"
  shows "passes (two_mid_sized_xattrs_both_survive K) s"
  unfolding passes_def two_mid_sized_xattrs_both_survive_def Let_def
  apply (simp only: wp_steps)
  apply (rule x_prologue [where U = "{G618_FILE}", OF assms], simp add: G618_FILE_def)
  apply (erule x_write_new, simp, simp, simp add: size_limit_def)
  apply (intro conjI refl, simp add: g618_value_length)
  apply (erule x_set_at, rule g618_looks, simp add: g618_value_length, intro conjI refl)+
  apply (erule g618_check_ok, rule g618_looks, simp, simp add: g618_value_length, simp add: G618_VALSZ_def)+
  apply (drule xholds_fails, simp)
  done

end

end
