(* ===== verification/Gen639.thy ===== *)
theory Gen639
  imports Direct
begin

text \<open>
  \<open>kunit/xfstests/generic/639.c\<close>: a write beside data that the client no longer caches keeps
  that data: the first half of a block is written and its pages dropped, the second half is
  written, and all of it reads back.
\<close>

definition G639_ROOT :: string where "G639_ROOT = XFS_MNT @ ''/g639''"
definition G639_FILE :: string where "G639_FILE = G639_ROOT @ ''/test_write_begin''"
definition G639_SERVER :: string where "G639_SERVER = XFS_EXPORT @ ''/g639/test_write_begin''"
definition G639_HALF :: nat where "G639_HALF = 32"

definition g639_remove_tree :: "'w kernel \<Rightarrow> (('w, 'z) kst_scheme, unit) prog" where
  "g639_remove_tree K = seq [ignore (xfs_unlink K G639_FILE), ignore (xfs_rmdir_settled K G639_ROOT)]"

definition g639_verify :: "'w kernel \<Rightarrow> string \<Rightarrow> (('w, 'z) kst_scheme, unit) prog" where
  "g639_verify K path = bnd (xfs_read_range K path (2 * G639_HALF) 0) (\<lambda>(n, buf).
     bnd (kunit_assert (n = int (2 * G639_HALF))) (\<lambda>_.
     case first_diff buf (replicate (2 * G639_HALF) 0xcd) of None \<Rightarrow> ret () | Some i \<Rightarrow> kunit_fail))"

definition a_write_beside_uncached_data_keeps_it ::
  "'w kernel \<Rightarrow> (nat \<Rightarrow> 'w \<Rightarrow> int \<times> 'w) \<Rightarrow> (('w, 'z) fxs_scheme, unit) prog" where
  \<comment> \<open>\<open>inval\<close> is \<open>invalidate_inode_pages2\<close> on the file's mapping\<close>
  "a_write_beside_uncached_data_keeps_it K inval = seq [
     test_prologue K G639_ROOT ''g639_remove_tree'' (g639_remove_tree K),
     must_alloc K G639_HALF,
     must_open (kcall (filp_open K G639_FILE {O_RDWR, O_CREAT, O_TRUNC} (mode3 6 4 4))) (\<lambda>f. seq [
       must_ret (kcall (kernel_write K f (replicate G639_HALF 0xcd) 0)) (\<lambda>(n, _). n = int G639_HALF),
       must (kcall (vfs_fsync K f)),
       must (kcall (inval f)),
       must_ret (kcall (kernel_write K f (replicate G639_HALF 0xcd) (int G639_HALF))) (\<lambda>(n, _). n = int G639_HALF),
       must (kcall (vfs_fsync K f)),
       g639_verify K G639_FILE,
       kdo (filp_close K f)]),
     g639_verify K G639_SERVER]"

definition g639_suite :: "'w kernel \<Rightarrow> (nat \<Rightarrow> 'w \<Rightarrow> int \<times> 'w) \<Rightarrow> ('w, 'z) fxs_scheme suite" where
  "g639_suite K inval = nfs_suite K ''xfstests/generic/639''
     [(''a_write_beside_uncached_data_keeps_it'', a_write_beside_uncached_data_keeps_it K inval)]"

context nfs42
begin

lemma g639_run_ok:
  assumes "ready V ok G639_ROOT s"
  shows "passes (a_write_beside_uncached_data_keeps_it K inval) s"
proof -
  let ?fl = "{O_RDWR, O_CREAT, O_TRUNC}" and ?d = "replicate (2 * G639_HALF) 0xcd :: byte list"
  have srv: "G639_SERVER = XFS_EXPORT @ ''/g639/test_write_begin''" "XFS_MNT @ ''/g639/test_write_begin'' = G639_FILE"
    by (simp_all add: G639_SERVER_def G639_FILE_def G639_ROOT_def)
  have all: "write_at G639_HALF (replicate G639_HALF 0xcd) (replicate G639_HALF 0xcd) = ?d"
    "write_at 0 (replicate G639_HALF 0xcd) [] = (replicate G639_HALF 0xcd :: byte list)"
    using write_at_end [of "replicate G639_HALF 0xcd"] write_at_end [of "[]" "replicate G639_HALF 0xcd"]
    by (simp_all add: mult_2 replicate_add)
  have client: "wp (g639_verify K G639_FILE) Q t"
    if "holds c U M H t" "M G639_FILE = Some ?d" "\<And>t. holds c U M H t \<Longrightarrow> Q () t" for c U M H t Q
    unfolding g639_verify_def wp_unfold
    by (rule h_read_range [OF that(1,2)]) (auto simp: that(3) read_at_0 G639_HALF_def size_limit_def)
  have server: "wp (g639_verify K (XFS_EXPORT @ ''/g639/test_write_begin'')) Q t"
    if "holds c U M H t" "M G639_FILE = Some ?d" "H G639_FILE = None" "\<And>t. holds c U M H t \<Longrightarrow> Q () t" for c U M H t Q
    unfolding g639_verify_def wp_unfold
    by (rule h_read_range_server [OF that(1)]) (auto simp: srv(2) that read_at_0 G639_HALF_def size_limit_def)
  show ?thesis
    unfolding passes_def a_write_beside_uncached_data_keeps_it_def srv(1)
    apply (simp only: wp_unfold)
    apply (rule h_prologue [where U = "{G639_FILE}", OF assms], simp add: G639_FILE_def)
    apply (erule h_alloc)
    apply (erule h_create, simp, simp, simp)
    apply (simp only: wp_unfold)
    apply (erule h_write_same, simp, simp, simp, simp add: size_limit_def G639_HALF_def, intro conjI, simp)
    apply (erule h_fsync [where p = G639_FILE and fl = ?fl], simp, simp, intro conjI refl)
    apply (erule h_inval [where p = G639_FILE and fl = ?fl], simp, simp, intro conjI refl)
    apply (erule h_write_same, simp, simp, simp, simp add: size_limit_def G639_HALF_def, intro conjI, simp)
    apply (erule h_fsync [where p = G639_FILE and fl = ?fl], simp, simp, intro conjI refl)
    apply (erule client, simp add: all)
    apply (erule h_close_same, simp)
    apply (erule server, simp add: all, simp)
    apply (drule holds_fails, simp)
    done
qed

end

end
