(* ===== verification/Gen763.thy ===== *)
theory Gen763
  imports Direct
begin

text \<open>
  \<open>kunit/xfstests/generic/763.c\<close>: a write of no bytes, buffered or direct, returns 0 and
  changes neither the position nor the file.
\<close>

definition G763_ROOT :: string where "G763_ROOT = XFS_MNT @ ''/g763''"
definition G763_FILE :: string where "G763_FILE = G763_ROOT @ ''/testfile.763''"
definition G763_SERVER :: string where "G763_SERVER = XFS_EXPORT @ ''/g763/testfile.763''"

definition g763_remove_tree :: "'w kernel \<Rightarrow> (('w, 'z) kst_scheme, unit) prog" where
  "g763_remove_tree K = seq [ignore (xfs_unlink K G763_FILE), ignore (xfs_rmdir_settled K G763_ROOT)]"

definition a_zero_byte_write_succeeds_and_changes_nothing :: "'w kernel \<Rightarrow> (('w, 'z) fxs_scheme, unit) prog" where
  "a_zero_byte_write_succeeds_and_changes_nothing K = (let buf = replicate PAGE_SIZE 0 in seq [
     test_prologue K G763_ROOT ''g763_remove_tree'' (g763_remove_tree K),
     must_alloc K PAGE_SIZE,
     must_open (kcall (filp_open K G763_FILE {O_RDWR, O_CREAT, O_TRUNC} (mode3 6 4 4))) (\<lambda>f.
       bnd (kcall (kernel_write K f (take 0 buf) 0)) (\<lambda>(n, pos). seq [
         kunit_expect (n = 0),
         kunit_expect (pos = 0),
         kdo (filp_close K f)])),
     expect_stat K G763_FILE (\<lambda>st. st_size st = 0),
     must_open (kcall (filp_open K G763_FILE {O_RDWR, O_DIRECT} 0)) (\<lambda>f. seq [
       expect_ret (xfs_direct_write K f buf 0 0) (\<lambda>(n, _). n = 0),
       kdo (filp_close K f)]),
     expect_stat K G763_SERVER (\<lambda>st. st_size st = 0)])"

definition g763_suite :: "'w kernel \<Rightarrow> ('w, 'z) fxs_scheme suite" where
  "g763_suite K = nfs_suite K ''xfstests/generic/763''
     [(''a_zero_byte_write_succeeds_and_changes_nothing'', a_zero_byte_write_succeeds_and_changes_nothing K)]"

context direct_io
begin

lemma g763_run_ok:
  assumes "ready V ok G763_ROOT s"
  shows "passes (a_zero_byte_write_succeeds_and_changes_nothing K) s"
proof -
  have srv: "G763_SERVER = XFS_EXPORT @ ''/g763/testfile.763''" "XFS_MNT @ ''/g763/testfile.763'' = G763_FILE"
    by (simp_all add: G763_SERVER_def G763_FILE_def G763_ROOT_def)
  show ?thesis
    unfolding passes_def a_zero_byte_write_succeeds_and_changes_nothing_def Let_def srv(1) take_0
    apply (simp only: wp_unfold)
    apply (rule h_prologue [where U = "{G763_FILE}", OF assms], simp add: G763_FILE_def)
    apply (erule h_alloc)
    apply (erule h_create, simp, simp, simp)
    apply (simp only: wp_unfold)
    apply (erule h_write_same, simp, simp, simp, simp add: size_limit_def)
    apply (simp only: wp_unfold list.size of_nat_eq_0_iff of_nat_0 add_0 write_at_Nil)
    apply (erule h_close_same, simp)
    apply (erule h_expect_stat, simp, simp)
    apply (erule h_open_keep [where p = G763_FILE], simp, simp, simp, simp, simp)
    apply (simp only: wp_unfold)
    apply (erule h_direct_write_same, simp, simp, simp, simp, simp, simp add: size_limit_def)
    apply (simp only: wp_unfold of_nat_eq_0_iff)
    apply (erule h_close_last, simp, simp)
    apply (erule h_expect_stat_server, simp add: srv(2), simp, simp)
    apply (drule holds_fails, simp)
    done
qed

end

end
