(* ===== verification/ReaddirPorts.thy ===== *)
theory ReaddirPorts
  imports Readdir
begin

text \<open>
  Three ports that read a directory batch by batch to its end: generic/401 (the type of each
  entry), generic/453 (names that look alike) and generic/471 (a rewind).
\<close>

section \<open>generic/401\<close>

text \<open>
  \<open>kunit/xfstests/generic/401.c\<close>: one entry of each type in a directory, and each comes back from
  readdir with its type.
\<close>

definition G401_ROOT :: string where "G401_ROOT = XFS_MNT @ ''/g401''"
definition G401_DIR :: string where "G401_DIR = G401_ROOT @ ''/find-by-type''"

definition g401_entries :: "dirent list" where
  "g401_entries = [(''d'', DT_DIR), (''f'', DT_REG), (''l'', DT_LNK), (''c'', DT_CHR), (''b'', DT_BLK), (''p'', DT_FIFO)]"

record g401_iter =
  i401_seen :: "u32 list"
  i401_alien :: int
  i401_dots :: u32
  i401_total :: nat

definition g401_slot :: "string \<Rightarrow> nat option" where
  \<comment> \<open>the first entry of the table with this name\<close>
  "g401_slot name = List.find (\<lambda>i. length name = 1 \<and> name ! 0 = fst (g401_entries ! i) ! 0) [0..<length g401_entries]"

definition g401_actor :: "g401_iter \<Rightarrow> dirent \<Rightarrow> g401_iter" where
  "g401_actor it e =
     (let (name, type) = e; it = it\<lparr>i401_total := Suc (i401_total it)\<rparr> in
      if is_dot name then it\<lparr>i401_dots := i401_dots it + 1\<rparr>
      else case g401_slot name of
          Some i \<Rightarrow> it\<lparr>i401_seen := (i401_seen it)[i := of_nat type + 1]\<rparr>
        | None \<Rightarrow> it\<lparr>i401_alien := i401_alien it + 1\<rparr>)"

definition g401_start :: g401_iter where
  "g401_start = \<lparr>i401_seen = replicate (length g401_entries) 0, i401_alien = 0, i401_dots = 0, i401_total = 0\<rparr>"

definition g401_remove_tree :: "'w kernel \<Rightarrow> (('w, 'z) kst_scheme, unit) prog" where
  "g401_remove_tree K = seq [
     for_each g401_entries (\<lambda>(name, type).
       if type = DT_DIR then ignore (xfs_rmdir K (G401_DIR @ ''/'' @ name)) else ignore (xfs_unlink K (G401_DIR @ ''/'' @ name))),
     ignore (xfs_rmdir_settled K G401_DIR),
     ignore (xfs_rmdir_settled K G401_ROOT)]"

definition readdir_reports_every_entry_type :: "'w kernel \<Rightarrow> 'w iterate \<Rightarrow> (('w, 'z) fxs_scheme, unit) prog" where
  "readdir_reports_every_entry_type K iterate = seq [
     test_prologue K G401_ROOT ''g401_remove_tree'' (g401_remove_tree K),
     must (xfs_mkdir K G401_DIR),
     must (xfs_mkdir K (G401_DIR @ ''/d'')),
     must (xfs_write_new_file K (G401_DIR @ ''/f'') []),
     must (xfs_symlink K (G401_DIR @ ''/f'') (G401_DIR @ ''/l'')),
     must (xfs_mknod K (G401_DIR @ ''/c'') (S_IFCHR + mode3 6 4 4) 1 1),
     must (xfs_mknod K (G401_DIR @ ''/b'') (S_IFBLK + mode3 6 4 4) 1 1),
     must (xfs_mknod K (G401_DIR @ ''/p'') (S_IFIFO + mode3 6 4 4) 0 0),
     must_open (kcall (filp_open K G401_DIR {O_RDONLY, O_DIRECTORY} 0)) (\<lambda>d.
       bnd (readdir_all iterate g401_actor i401_total d g401_start) (\<lambda>it. seq [
         kdo (filp_close K d),
         kunit_expect (i401_alien it = 0),
         kunit_expect (i401_dots it = 2),
         for_each [0..<length g401_entries] (\<lambda>i. seq [
           kunit_expect (i401_seen it ! i \<noteq> 0),
           do_if (i401_seen it ! i \<noteq> 0) (kunit_expect (i401_seen it ! i - 1 = of_nat (snd (g401_entries ! i))))])]))]"

definition g401_suite :: "'w kernel \<Rightarrow> 'w iterate \<Rightarrow> ('w, 'z) fxs_scheme suite" where
  "g401_suite K iterate = nfs_suite K ''xfstests/generic/401''
     [(''readdir_reports_every_entry_type'', readdir_reports_every_entry_type K iterate)]"

subsection \<open>The actor\<close>

lemma g401_fields:
  "i401_total (g401_actor it e) = Suc (i401_total it)"
  "i401_seen (g401_actor it e) = (case if is_dot (fst e) then None else g401_slot (fst e) of
     None \<Rightarrow> i401_seen it | Some i \<Rightarrow> (i401_seen it)[i := of_nat (snd e) + 1])"
  "i401_alien (g401_actor it e) = (if \<not> is_dot (fst e) \<and> g401_slot (fst e) = None then i401_alien it + 1 else i401_alien it)"
  "i401_dots (g401_actor it e) = (if is_dot (fst e) then i401_dots it + 1 else i401_dots it)"
  by (cases e, simp add: g401_actor_def Let_def split: option.split)+

lemma g401_slot_entry: "list_all (\<lambda>i. g401_slot (fst (g401_entries ! i)) = Some i \<and> \<not> is_dot (fst (g401_entries ! i)) \<and>
    plain (fst (g401_entries ! i))) [0..<length g401_entries]"
  by code_simp

text \<open>The map of the directory has the entries of the table.\<close>

definition g401_map :: "(string \<rightharpoonup> node) \<Rightarrow> bool" where
  "g401_map M = (dom M = fst ` set g401_entries \<and> (\<forall>(n, t) \<in> set g401_entries. \<exists>x. M n = Some x \<and> dt_of (ntype x) = t))"

lemma g401_read:
  assumes "t_listing T G401_DIR es" "dir_tree G401_DIR M T" "g401_map M" and it: "it = foldl g401_actor g401_start es"
  shows "i401_alien it = 0" "i401_dots it = 2" "i < length g401_entries \<Longrightarrow> i401_seen it ! i = of_nat (snd (g401_entries ! i)) + 1"
    "length es < READDIR_FUEL"
proof -
  have tab: "g401_slot (fst (g401_entries ! i)) = Some i" "fst (g401_entries ! i) \<notin> dots" "plain (fst (g401_entries ! i))"
    if "i < length g401_entries" for i
    using g401_slot_entry that unfolding list_all_iff is_dot_iff by auto
  have idx: "\<exists>i<length g401_entries. n = fst (g401_entries ! i)" if "n \<in> fst ` set g401_entries" for n
    using that by (auto simp: in_set_conv_nth) (metis fst_conv)
  have sub: "dom M \<subseteq> {n. plain n \<and> n \<notin> dots}"
  proof
    fix n assume "n \<in> dom M"
    then have "n \<in> fst ` set g401_entries" using assms(3) by (simp add: g401_map_def)
    from idx [OF this] show "n \<in> {n. plain n \<and> n \<notin> dots}" using tab by auto
  qed
  have es: "fst ` set es = dots \<union> fst ` set g401_entries"
    using dir_listing(1) [OF assms(1,2) sub] assms(3) by (simp add: g401_map_def)
  have slot: "fst e \<in> dots \<or> (\<exists>i<length g401_entries. fst e = fst (g401_entries ! i) \<and> g401_slot (fst e) = Some i)"
    if e: "e \<in> set es" for e
  proof -
    have "fst e \<in> dots \<union> fst ` set g401_entries" using e es by blast
    then show ?thesis using idx [of "fst e"] tab(1) by (metis Un_iff)
  qed
  have "filter (\<lambda>e. \<not> is_dot (fst e) \<and> g401_slot (fst e) = None) es = []"
    unfolding is_dot_iff by (rule filter_False) (use slot in force)
  then show "i401_alien it = 0"
    unfolding it by (subst fold_count [where g = i401_alien, OF g401_fields(3)]) (simp add: g401_start_def)
  show "i401_dots it = 2"
  proof -
    have "filter (\<lambda>e. is_dot (fst e)) es = filter (\<lambda>e. fst e = ''.'' \<or> fst e = ''..'') es"
      unfolding is_dot_iff dots_def by simp
    moreover have "length (filter (\<lambda>e. fst e = ''.'' \<or> fst e = ''..'') es) =
        length (filter (\<lambda>e. fst e = ''.'') es) + length (filter (\<lambda>e. fst e = ''..'') es)"
      by (induction es) auto
    moreover have "''.'' \<in> fst ` set es" "''..'' \<in> fst ` set es" unfolding es by (simp_all add: dots_def)
    ultimately have "length (filter (\<lambda>e. is_dot (fst e)) es) = 2"
      using count_name [of es "''.''"] count_name [of es "''..''"] assms(1) by (simp add: t_listing_def)
    then show ?thesis
      unfolding it by (subst fold_count [where g = i401_dots, OF g401_fields(4)]) (simp add: g401_start_def)
  qed
  show "i401_seen it ! i = of_nat (snd (g401_entries ! i)) + 1" if i: "i < length g401_entries"
    unfolding it
  proof (rule fold_assign [where g = i401_seen, OF g401_fields(2)])
    show "i < length (i401_seen g401_start)" using i by (simp add: g401_start_def)
    obtain n t where nt: "g401_entries ! i = (n, t)" by force
    have "(n, t) \<in> set g401_entries" using nth_mem [OF i] nt by simp
    from bspec [OF conjunct2 [OF assms(3) [unfolded g401_map_def]] this]
    obtain x where x: "M n = Some x" "dt_of (ntype x) = t" by auto
    have n: "g401_slot n = Some i" "\<not> is_dot n" using tab [OF i] nt unfolding is_dot_iff by simp_all
    show "\<exists>e\<in>set es. (if is_dot (fst e) then None else g401_slot (fst e)) = Some i"
      by (rule bexI [of _ "(n, t)"]) (use n dir_listing(3) [OF assms(1,2) sub x(1)] x(2) in simp_all)
    show "\<forall>e\<in>set es. (if is_dot (fst e) then None else g401_slot (fst e)) = Some i \<longrightarrow> of_nat (snd e) + 1 = of_nat (snd (g401_entries ! i)) + (1 :: u32)"
    proof (intro ballI impI)
      fix e assume e: "e \<in> set es" "(if is_dot (fst e) then None else g401_slot (fst e)) = Some i"
      then have "fst e \<notin> dots" "g401_slot (fst e) = Some i" unfolding is_dot_iff by (auto split: if_splits)
      with slot [OF e(1)] have "fst e = n" using nt by auto
      then have "snd e = t"
        using dir_listing(2) [OF assms(1,2) sub, of n "snd e"] e(1) x \<open>fst e \<notin> dots\<close> by (metis option.inject prod.collapse)
      then show "of_nat (snd e) + 1 = of_nat (snd (g401_entries ! i)) + (1 :: u32)" using nt by simp
    qed
  qed
  have "length es \<le> length (''.'' # ''..'' # map fst g401_entries)"
    by (rule listing_length [OF assms(1)]) (unfold es, auto simp: dots_def)
  then show "length es < READDIR_FUEL" by (simp add: READDIR_FUEL_def g401_entries_def)
qed

lemma g401_made:
  assumes "ntype x1 = S_CHR" "ntype x2 = S_BLK" "ntype x3 = S_FIFO"
  shows "\<exists>M. dir_tree G401_DIR M ([G401_ROOT \<mapsto> Dir i, G401_DIR \<mapsto> Dir j, G401_DIR @ ''/d'' \<mapsto> Dir k, G401_DIR @ ''/f'' \<mapsto> Reg l [],
    G401_DIR @ ''/l'' \<mapsto> Lnk m g, G401_DIR @ ''/c'' \<mapsto> x1, G401_DIR @ ''/b'' \<mapsto> x2, G401_DIR @ ''/p'' \<mapsto> x3]) \<and> g401_map M"
proof (intro exI conjI)
  have "dir_tree G401_DIR Map.empty [G401_ROOT \<mapsto> Dir i, G401_DIR \<mapsto> Dir j]"
    by (auto simp: dir_tree_def t_dir_def G401_DIR_def)
  then show "dir_tree G401_DIR [''d'' \<mapsto> Dir k, ''f'' \<mapsto> Reg l [], ''l'' \<mapsto> Lnk m g, ''c'' \<mapsto> x1, ''b'' \<mapsto> x2, ''p'' \<mapsto> x3]
    ([G401_ROOT \<mapsto> Dir i, G401_DIR \<mapsto> Dir j, G401_DIR @ ''/d'' \<mapsto> Dir k, G401_DIR @ ''/f'' \<mapsto> Reg l [],
     G401_DIR @ ''/l'' \<mapsto> Lnk m g, G401_DIR @ ''/c'' \<mapsto> x1, G401_DIR @ ''/b'' \<mapsto> x2, G401_DIR @ ''/p'' \<mapsto> x3])"
    by (intro dir_tree_upd refl)
  show "g401_map [''d'' \<mapsto> Dir k, ''f'' \<mapsto> Reg l [], ''l'' \<mapsto> Lnk m g, ''c'' \<mapsto> x1, ''b'' \<mapsto> x2, ''p'' \<mapsto> x3]"
    using assms by (auto simp: g401_map_def g401_entries_def)
qed

subsection \<open>The case\<close>

context readdir
begin

lemma g401_run_ok:
  assumes "ready V ok G401_ROOT s"
  shows "passes (readdir_reports_every_entry_type K iterate) s"
proof -
  have dn: "dirname G401_DIR = G401_ROOT" using dirname_comp [of "''find-by-type''" G401_ROOT] by (simp add: G401_DIR_def)
  have dirs: "dirname (G401_DIR @ ''/'' @ [c]) = G401_DIR" if "c \<noteq> CHR ''/''" for c
    using dirname_comp [of "[c]" G401_DIR] that by simp
  have ne: "G401_DIR \<noteq> G401_ROOT" "G401_ROOT \<noteq> G401_DIR" "G401_DIR @ CHR ''/'' # x \<noteq> G401_ROOT" for x by (auto simp: G401_DIR_def)
  have modes: "special_type (S_IFCHR + mode3 6 4 4) = Some S_CHR" "special_type (S_IFBLK + mode3 6 4 4) = Some S_BLK"
    "special_type (S_IFIFO + mode3 6 4 4) = Some S_FIFO"
    by (simp_all add: special_type_def mode3_def mode_defs)
  note d = dirs [simplified]
  have fin: "wp (for_each [0..<length g401_entries] (\<lambda>i. seq [
       kunit_expect (i401_seen it ! i \<noteq> 0),
       do_if (i401_seen it ! i \<noteq> 0) (kunit_expect (i401_seen it ! i - 1 = of_nat (snd (g401_entries ! i))))]))
     (\<lambda>_ u. kfails u = n) t"
    if "kfails t = n" "\<And>i. i < length g401_entries \<Longrightarrow> i401_seen it ! i = of_nat (snd (g401_entries ! i)) + 1" for it n t
  proof (rule wp_for_range [where I = "\<lambda>_ u. kfails u = n"], goal_cases)
    case (3 i u)
    have "(of_nat (snd (g401_entries ! i)) + 1 :: u32) \<noteq> 0"
    proof -
      have "list_all (\<lambda>i. (of_nat (snd (g401_entries ! i)) + 1 :: u32) \<noteq> 0) [0..<length g401_entries]" by code_simp
      then show ?thesis using 3(2) by (simp add: list_all_iff)
    qed
    then show ?case using 3 that(2) [OF 3(2)] by (simp add: wp_unfold)
  qed (use that in simp_all)
  have body: "wp (readdir_all iterate g401_actor i401_total h g401_start) (\<lambda>it. wp (kdo (filp_close K h)) (\<lambda>_. wp (kunit_expect (i401_alien it = 0))
       (\<lambda>_. wp (kunit_expect (i401_dots it = 2)) (\<lambda>_. wp (for_each [0..<length g401_entries] (\<lambda>i. seq [
           kunit_expect (i401_seen it ! i \<noteq> 0),
           do_if (i401_seen it ! i \<noteq> 0) (kunit_expect (i401_seen it ! i - 1 = of_nat (snd (g401_entries ! i))))]))
         (\<lambda>_ u. kfails u = fst c))))) t"
    if a: "dholds c root T h G401_DIR t" "t_listing T G401_DIR (todo (kw t) h)"
      "\<exists>M. dir_tree G401_DIR M T \<and> g401_map M" for c root T h and t :: "('w, 'z) fxs_scheme"
  proof -
    obtain M where M: "dir_tree G401_DIR M T" "g401_map M" using a(3) by blast
    note read = g401_read [OF a(2) M refl]
    show ?thesis
    proof (rule d_all [where tot = i401_total and actor = g401_actor, OF a(1) g401_fields(1) read(4)], goal_cases)
      case (1 u)
      then show ?case
        by (rule d_close) (rule wp_kunit_expectI [OF read(1)], rule wp_kunit_expectI [OF read(2)],
          rule fin, erule tholds_fails, erule read(3))
    qed
  qed
  show ?thesis
    unfolding passes_def readdir_reports_every_entry_type_def
    apply (simp only: wp_steps)
    apply (rule t_prologue [OF assms], simp add: G401_ROOT_def)
    apply (erule t_mkdir, simp add: ne, simp add: dn t_dir_def, intro conjI refl)
    apply (erule t_mkdir, simp add: ne, simp add: d t_dir_def, intro conjI refl)
    apply (erule t_write_new, simp add: ne, simp add: d t_dir_def, simp add: size_limit_def, intro conjI refl)
    apply (erule t_symlink, simp add: ne, simp add: d t_dir_def, intro conjI refl)
    apply (erule t_mknod [OF _ _ _ modes(1)], simp add: ne, simp add: d t_dir_def, intro conjI refl)
    apply (erule t_mknod [OF _ _ _ modes(2)], simp add: ne, simp add: d t_dir_def, intro conjI refl)
    apply (erule t_mknod [OF _ _ _ modes(3)], simp add: ne, simp add: d t_dir_def, intro conjI refl)
    apply (erule d_open, simp add: t_dir_def)
    apply (simp only: wp_steps)
    apply (drule body, assumption, (rule g401_made; assumption))
    apply simp
    done
qed

end

section \<open>generic/453\<close>

text \<open>
  \<open>kunit/xfstests/generic/453.c\<close>: fourteen file names that look alike and differ in their bytes, each
  with a value of its own, and a directory whose name is a dot and a zero-width joiner.  The
  names are byte strings with the bytes of the C literals.
\<close>

definition G453_ROOT :: string where "G453_ROOT = XFS_MNT @ ''/g453''"

definition g453_names :: "(string \<times> string) list" where
  "g453_names = [
     (''french_caf'' @ [CHR 0xC3, CHR 0xA9] @ ''.txt'', ''NFC''),
     (''french_cafe'' @ [CHR 0xCC, CHR 0x81] @ ''.txt'', ''NFD''),
     (''chinese_'' @ [CHR 0xEF, CHR 0xBD, CHR 0xB6] @ ''.txt'', ''NFKC1''),
     (''chinese_'' @ [CHR 0xE3, CHR 0x82, CHR 0xAB] @ ''.txt'', ''NFKC2''),
     (''greek_'' @ [CHR 0xCF, CHR 0x93] @ ''.txt'', ''GREEK NFC''),
     (''greek_'' @ [CHR 0xCF, CHR 0x92, CHR 0xCC, CHR 0x81] @ ''.txt'', ''GREEK NFD''),
     (''urk'' @ [CHR 0xC0, CHR 0xAF] @ ''moo'', ''FAKESLASH''),
     (''emoji_'' @ [CHR 0xF0, CHR 0x9F, CHR 0xA6, CHR 0x91, CHR 0xF0, CHR 0x9F, CHR 0xA6, CHR 0x8B] @ ''.txt'', ''octopus butterfly''),
     (''moo'' @ [CHR 0xE2, CHR 0x80, CHR 0xAE] @ ''gnp.txt'', ''right-to-left override''),
     (''mootxt.png'', ''Harvey''),
     (''hyphens_a'' @ [CHR 0xE2, CHR 0x80, CHR 0x90] @ ''b.txt'', ''unicode hyphen''),
     (''hyphens_a-b.txt'', ''ascii hyphen''),
     (''zerojoin_moo'' @ [CHR 0xE2, CHR 0x80, CHR 0x8D] @ ''cow.txt'', ''with joiner''),
     (''zerojoin_moocow.txt'', ''without joiner'')]"

definition g453_dot :: string where "g453_dot = [CHR ''.'', CHR 0xE2, CHR 0x80, CHR 0x8D]"
definition G453_DOTDIR :: string where "G453_DOTDIR = G453_ROOT @ ''/'' @ g453_dot"
definition G453_DOTFILE :: string where "G453_DOTFILE = G453_DOTDIR @ ''/value''"
definition G453_DOTVALUE :: string where "G453_DOTVALUE = ''zero width joiners in dot entry''"

definition g453_path :: "nat \<Rightarrow> string" where "g453_path i = G453_ROOT @ ''/'' @ fst (g453_names ! i)"
definition g453_value :: "nat \<Rightarrow> byte list" where "g453_value i = to_bytes (snd (g453_names ! i))"

record g453_iter =
  i453_seen :: "byte list"
  i453_dirs :: int
  i453_alien :: int
  i453_total :: nat

definition g453_slot :: "string \<Rightarrow> nat option" where
  \<comment> \<open>the first entry of the table with this name\<close>
  "g453_slot name = List.find (\<lambda>i. name = fst (g453_names ! i)) [0..<length g453_names]"

definition g453_actor :: "g453_iter \<Rightarrow> dirent \<Rightarrow> g453_iter" where
  "g453_actor it e =
     (let (name, type) = e; it = it\<lparr>i453_total := Suc (i453_total it)\<rparr> in
      if is_dot name then it
      else if type = DT_DIR then it\<lparr>i453_dirs := i453_dirs it + 1\<rparr>
      else case g453_slot name of
          Some i \<Rightarrow> it\<lparr>i453_seen := (i453_seen it)[i := i453_seen it ! i + 1]\<rparr>
        | None \<Rightarrow> it\<lparr>i453_alien := i453_alien it + 1\<rparr>)"

definition g453_start :: g453_iter where
  "g453_start = \<lparr>i453_seen = replicate (length g453_names) 0, i453_dirs = 0, i453_alien = 0, i453_total = 0\<rparr>"

definition g453_remove_tree :: "'w kernel \<Rightarrow> (('w, 'z) kst_scheme, unit) prog" where
  "g453_remove_tree K = seq [
     for_each [0..<length g453_names] (\<lambda>i. ignore (xfs_unlink K (g453_path i))),
     ignore (xfs_unlink K G453_DOTFILE),
     ignore (xfs_rmdir_settled K G453_DOTDIR),
     ignore (xfs_rmdir_settled K G453_ROOT)]"

definition g453_check :: "'w kernel \<Rightarrow> nat \<Rightarrow> nat list \<Rightarrow> (('w, 'z) kst_scheme, nat list) prog" where
  \<comment> \<open>one turn of the loop that reads the values back and collects the inode numbers\<close>
  "g453_check K i inos =
     bnd (xfs_read_range K (g453_path i) 64 0) (\<lambda>(n, buf).
     bnd (kunit_assert (n = int (length (g453_value i)))) (\<lambda>_.
     bnd (kunit_expect (take (length (g453_value i)) buf = g453_value i)) (\<lambda>_.
     bnd (xfs_kstat K (g453_path i)) (\<lambda>r. case r of
       Inl e \<Rightarrow> bnd (kunit_assert False) (\<lambda>_. ret inos)
     | Inr st \<Rightarrow> ret (inos[i := st_ino st])))))"

definition names_that_look_alike_stay_different_files :: "'w kernel \<Rightarrow> 'w iterate \<Rightarrow> (('w, 'z) fxs_scheme, unit) prog" where
  "names_that_look_alike_stay_different_files K iterate = seq [
     test_prologue K G453_ROOT ''g453_remove_tree'' (g453_remove_tree K),
     for_each [0..<length g453_names] (\<lambda>i. must (xfs_write_new_file K (g453_path i) (g453_value i))),
     bnd (for_fold [0..<length g453_names] (g453_check K) (replicate (length g453_names) 0)) (\<lambda>inos.
       for_each [0..<length g453_names] (\<lambda>i. for_each [Suc i..<length g453_names] (\<lambda>j.
         kunit_expect (inos ! i \<noteq> inos ! j)))),
     must (xfs_mkdir K G453_DOTDIR),
     must (xfs_write_new_file K G453_DOTFILE (to_bytes G453_DOTVALUE)),
     expect_ret (xfs_read_range K G453_DOTFILE 64 0) (\<lambda>(n, _). n = int (length G453_DOTVALUE)),
     must_open (kcall (filp_open K G453_ROOT {O_RDONLY, O_DIRECTORY} 0)) (\<lambda>d.
       bnd (readdir_all iterate g453_actor i453_total d g453_start) (\<lambda>it. seq [
         kdo (filp_close K d),
         for_each [0..<length g453_names] (\<lambda>i. kunit_expect (i453_seen it ! i = 1)),
         kunit_expect (i453_alien it = 0),
         kunit_expect (i453_dirs it = 1)]))]"

definition g453_suite :: "'w kernel \<Rightarrow> 'w iterate \<Rightarrow> ('w, 'z) fxs_scheme suite" where
  "g453_suite K iterate = nfs_suite K ''xfstests/generic/453''
     [(''names_that_look_alike_stay_different_files'', names_that_look_alike_stay_different_files K iterate)]"

subsection \<open>The names\<close>

lemma g453_table:
  "distinct (map fst g453_names)"
  "list_all (\<lambda>i. g453_slot (fst (g453_names ! i)) = Some i) [0..<length g453_names]"
  "list_all (\<lambda>(n, v). plain n \<and> \<not> is_dot n \<and> n \<noteq> g453_dot \<and> length v < 64) g453_names"
  "plain g453_dot \<and> \<not> is_dot g453_dot"
  by code_simp+

abbreviation g453_name :: "nat \<Rightarrow> string" where "g453_name i \<equiv> fst (g453_names ! i)"

lemma g453_names_ok:
  assumes "i < length g453_names"
  shows "g453_slot (g453_name i) = Some i" "plain (g453_name i)" "g453_name i \<notin> dots" "g453_name i \<noteq> g453_dot"
    "length (g453_value i) < 64"
  using g453_table(2) assms bspec [OF g453_table(3) [unfolded list_all_iff] nth_mem [OF assms]]
  unfolding is_dot_iff by (auto simp: list_all_iff g453_value_def)

lemma g453_name_eq: "\<lbrakk>i < length g453_names; j < length g453_names\<rbrakk> \<Longrightarrow> g453_name i = g453_name j \<longleftrightarrow> i = j"
  using g453_table(1) by (metis distinct_map inj_on_eq_iff nth_eq_iff_index_eq nth_mem)

lemma g453_dot_ok: "plain g453_dot" "g453_dot \<notin> dots"
  using g453_table(4) unfolding is_dot_iff by simp_all

subsection \<open>The actor\<close>

lemma g453_fields:
  "i453_total (g453_actor it e) = Suc (i453_total it)"
  "i453_seen (g453_actor it e) = bump (\<lambda>e. if is_dot (fst e) \<or> snd e = DT_DIR then None else g453_slot (fst e)) (i453_seen it) e"
  "i453_dirs (g453_actor it e) = (if \<not> is_dot (fst e) \<and> snd e = DT_DIR then i453_dirs it + 1 else i453_dirs it)"
  "i453_alien (g453_actor it e) = (if \<not> is_dot (fst e) \<and> snd e \<noteq> DT_DIR \<and> g453_slot (fst e) = None
     then i453_alien it + 1 else i453_alien it)"
  by (cases e, simp add: g453_actor_def bump_def Let_def split: option.split)+

text \<open>The files of the table and the directory.\<close>

definition g453_map :: "(string \<rightharpoonup> node) \<Rightarrow> bool" where
  "g453_map M = (dom M = insert g453_dot (g453_name ` {..<length g453_names}) \<and> (\<exists>i. M g453_dot = Some (Dir i)) \<and>
     (\<forall>i<length g453_names. \<exists>j d. M (g453_name i) = Some (Reg j d)))"

lemma g453_read:
  assumes "t_listing T G453_ROOT es" "dir_tree G453_ROOT M T" "g453_map M" and it: "it = foldl g453_actor g453_start es"
  shows "i453_alien it = 0" "i453_dirs it = 1" "k < length g453_names \<Longrightarrow> i453_seen it ! k = 1" "length es < READDIR_FUEL"
proof -
  have dm: "dom M = insert g453_dot (g453_name ` {..<length g453_names})" using assms(3) by (simp add: g453_map_def)
  have sub: "dom M \<subseteq> {n. plain n \<and> n \<notin> dots}"
    unfolding dm using g453_names_ok(2,3) g453_dot_ok by auto
  have es: "fst ` set es = dots \<union> insert g453_dot (g453_name ` {..<length g453_names})"
    using dir_listing(1) [OF assms(1,2) sub] dm by simp
  have entry: "fst e \<in> dots \<or> fst e \<notin> dots \<and> fst e = g453_dot \<and> snd e = DT_DIR \<or>
      fst e \<notin> dots \<and> snd e \<noteq> DT_DIR \<and> (\<exists>i<length g453_names. fst e = g453_name i \<and> g453_slot (fst e) = Some i)" if e: "e \<in> set es" for e
  proof (cases "fst e \<in> dots")
    case False
    then obtain x where x: "M (fst e) = Some x" "snd e = dt_of (ntype x)"
      using dir_listing(2) [OF assms(1,2) sub, of "fst e" "snd e"] e by auto
    then have "fst e \<in> insert g453_dot (g453_name ` {..<length g453_names})" using dm by blast
    then consider "fst e = g453_dot" | i where "i < length g453_names" "fst e = g453_name i" by blast
    then show ?thesis
    proof cases
      case 1
      then show ?thesis using x assms(3) False by (auto simp: g453_map_def)
    next
      case 2
      then obtain j d where "M (fst e) = Some (Reg j d)" using assms(3) by (auto simp: g453_map_def)
      then have "snd e \<noteq> DT_DIR" using x by (simp add: dt_defs)
      then show ?thesis using 2 g453_names_ok(1) False by auto
    qed
  qed simp
  have "filter (\<lambda>e. \<not> is_dot (fst e) \<and> snd e \<noteq> DT_DIR \<and> g453_slot (fst e) = None) es = []"
    unfolding is_dot_iff by (rule filter_False) (use entry in force)
  then show "i453_alien it = 0"
    unfolding it by (subst fold_count [where g = i453_alien, OF g453_fields(4)]) (simp add: g453_start_def)
  show "i453_dirs it = 1"
  proof -
    have "filter (\<lambda>e. \<not> is_dot (fst e) \<and> snd e = DT_DIR) es = filter (\<lambda>e. fst e = g453_dot) es"
      unfolding is_dot_iff
    proof (rule filter_cong [OF refl])
      fix e assume "e \<in> set es"
      from entry [OF this] show "(fst e \<notin> dots \<and> snd e = DT_DIR) = (fst e = g453_dot)"
        using g453_dot_ok(2) g453_names_ok(4) by metis
    qed
    moreover have "length (filter (\<lambda>e. fst e = g453_dot) es) = 1"
      using count_name [of es g453_dot] assms(1) es by (simp add: t_listing_def)
    ultimately show ?thesis
      unfolding it by (subst fold_count [where g = i453_dirs, OF g453_fields(3)]) (simp add: g453_start_def)
  qed
  show "i453_seen it ! k = 1" if k: "k < length g453_names"
  proof -
    have "filter (\<lambda>e. (if is_dot (fst e) \<or> snd e = DT_DIR then None else g453_slot (fst e)) = Some k) es =
        filter (\<lambda>e. fst e = g453_name k) es"
      unfolding is_dot_iff
    proof (rule filter_cong [OF refl])
      fix e assume "e \<in> set es"
      from entry [OF this] show "((if fst e \<in> dots \<or> snd e = DT_DIR then None else g453_slot (fst e)) = Some k) = (fst e = g453_name k)"
        using g453_names_ok(1,3,4) [OF k] g453_name_eq [OF _ k] by (metis option.inject option.distinct(1))
    qed
    moreover have "length (filter (\<lambda>e. fst e = g453_name k) es) = 1"
      using count_name [of es "g453_name k"] assms(1) es k by (simp add: t_listing_def)
    ultimately show ?thesis
      unfolding it
      by (subst fold_bump [where g = i453_seen, OF g453_fields(2)]) (use k in \<open>simp_all add: g453_start_def\<close>)
  qed
  have "length es \<le> length (''.'' # ''..'' # g453_dot # map fst g453_names)"
    by (rule listing_length [OF assms(1)]) (unfold es, auto simp: dots_def)
  then show "length es < READDIR_FUEL" by (simp add: READDIR_FUEL_def g453_names_def)
qed

subsection \<open>The case\<close>

lemma g453_path_name: "g453_path i = G453_ROOT @ CHR ''/'' # g453_name i"
  by (simp add: g453_path_def)

text \<open>The first \<open>k\<close> files are there, with inode numbers of their own.\<close>

definition g453_at :: "nat \<Rightarrow> (nat \<Rightarrow> nat) \<Rightarrow> dtree \<Rightarrow> bool" where
  "g453_at k N T = (t_dir T G453_ROOT \<and> inj_on N {..<k} \<and>
     (\<forall>i<k. T (g453_path i) = Some (Reg (N i) (g453_value i))) \<and>
     (\<forall>n. plain n \<longrightarrow> n \<notin> g453_name ` {..<k} \<longrightarrow> T (G453_ROOT @ CHR ''/'' # n) = None))"

lemma g453_free:
  assumes "g453_at k N T" "k < length g453_names"
  shows "T (g453_path k) = None" "t_dir T (dirname (g453_path k))"
proof -
  have "g453_name k \<notin> g453_name ` {..<k}" 
  proof
    assume "g453_name k \<in> g453_name ` {..<k}"
    then obtain j where "j < k" "g453_name k = g453_name j" by auto
    then show False using g453_name_eq [of k j] assms(2) by simp
  qed
  then show "T (g453_path k) = None" using assms g453_names_ok(2) unfolding g453_at_def g453_path_name by blast
  show "t_dir T (dirname (g453_path k))" using assms g453_names_ok(2) by (simp add: g453_at_def g453_path_name)
qed

lemma g453_next:
  assumes "g453_at k N T" "k < length g453_names" "new_ino T i"
  shows "g453_at (Suc k) (N(k := i)) (T(g453_path k \<mapsto> Reg i (g453_value k)))"
proof -
  have ne: "g453_path j \<noteq> g453_path k" if "j < k" for j
    using g453_name_eq [of j k] that assms(2) by (simp add: g453_path_name)
  have new: "N j \<noteq> i" if "j < k" for j
    using new_inoD [OF assms(3), of "g453_path j"] assms(1) that by (auto simp: g453_at_def)
  have "inj_on (N(k := i)) {..<Suc k}"
  proof (rule inj_onI)
    fix a b assume "a \<in> {..<Suc k}" "b \<in> {..<Suc k}" "(N(k := i)) a = (N(k := i)) b"
    then show "a = b"
      using new inj_onD [of N "{..<k}" a b] assms(1) by (auto simp: g453_at_def less_Suc_eq split: if_splits)
  qed
  then show ?thesis
    using assms(1) ne by (auto simp: g453_at_def t_dir_def less_Suc_eq g453_path_name)
qed

context readdir
begin

lemma g453_write_ok:
  assumes "tholds c G453_ROOT T s" "g453_at 0 N T"
    and "\<And>T N t. \<lbrakk>tholds c G453_ROOT T t; g453_at (length g453_names) N T\<rbrakk> \<Longrightarrow> Q () t"
  shows "wp (for_each [0..<length g453_names] (\<lambda>i. must (xfs_write_new_file K (g453_path i) (g453_value i)))) Q s"
proof (rule wp_for_range [where I = "\<lambda>k t. \<exists>T N. tholds c G453_ROOT T t \<and> g453_at k N T"], goal_cases)
  case (3 k t)
  then obtain T N where T: "tholds c G453_ROOT T t" "g453_at k N T" by blast
  note free = g453_free [OF T(2) 3(2)] and step = g453_next [OF T(2) 3(2)]
  have "length (g453_value k) < size_limit" using g453_names_ok(5) [OF 3(2)] by (simp add: size_limit_def)
  then show ?case
    unfolding wp_must by (rule t_write_new [OF T(1) free]) (use step in blast)
qed (use assms in auto)

lemma g453_check_ok:
  assumes "tholds c G453_ROOT T s" "g453_at (length g453_names) N T"
    and "\<And>inos t. \<lbrakk>tholds c G453_ROOT T t; length inos = length g453_names; \<And>i. i < length g453_names \<Longrightarrow> inos ! i = N i\<rbrakk> \<Longrightarrow> Q inos t"
  shows "wp (for_fold [0..<length g453_names] (g453_check K) (replicate (length g453_names) 0)) Q s"
proof (rule wp_for_fold_range [where I = "\<lambda>k inos t. tholds c G453_ROOT T t \<and> length inos = length g453_names \<and> (\<forall>i<k. inos ! i = N i)"], goal_cases)
  case (3 k inos t)
  then have t: "tholds c G453_ROOT T t" and f: "T (g453_path k) = Some (Reg (N k) (g453_value k))"
    using assms(2) by (auto simp: g453_at_def)
  have len: "length (g453_value k) < 64" by (rule g453_names_ok(5) [OF 3(2)])
  show ?case
    unfolding g453_check_def wp_bnd
    apply (rule t_read_range [OF t f], simp, simp add: size_limit_def)
    apply (simp only: wp_steps)
    apply (intro conjI, use len in \<open>simp add: read_at_0\<close>)
    apply (rule wp_kunit_expectI, use len in \<open>simp add: read_at_0\<close>)
    apply (erule t_stat, rule f, simp only: wp_steps)
    apply (use 3 in \<open>auto simp: less_Suc_eq nth_list_update\<close>)
    done
qed (use assms in auto)

lemma g453_distinct_ok:
  assumes "Q () s" "inj_on N {..<n}" "\<And>i. i < n \<Longrightarrow> inos ! i = N i"
  shows "wp (for_each [0..<n] (\<lambda>i. for_each [Suc i..<n] (\<lambda>j. kunit_expect (inos ! i \<noteq> inos ! j)))) Q s"
proof (rule wp_for_range [where I = "\<lambda>_ t. t = s"], goal_cases)
  case (3 i t)
  show ?case
  proof (rule wp_for_range [where I = "\<lambda>_ t. t = s"], goal_cases)
    case (3 j u)
    then have "N i \<noteq> N j" using inj_onD [OF assms(2), of i j] by auto
    then show ?case using 3 assms(3) by simp
  qed (use 3 in auto)
qed (use assms(1) in auto)

text \<open>The directory with the fake dotdot in it.\<close>

lemma g453_made:
  assumes "g453_at (length g453_names) N T"
  shows "T G453_DOTDIR = None" "dirname G453_DOTDIR = G453_ROOT" "dirname G453_DOTFILE = G453_DOTDIR"
    "\<exists>M. dir_tree G453_ROOT M (T(G453_DOTDIR \<mapsto> Dir i, G453_DOTFILE \<mapsto> x)) \<and> g453_map M"
proof -
  have dd: "G453_DOTDIR = G453_ROOT @ CHR ''/'' # g453_dot" by (simp add: G453_DOTDIR_def)
  have df: "G453_DOTFILE = G453_DOTDIR @ CHR ''/'' # ''value''" by (simp add: G453_DOTFILE_def)
  have v: "plain ''value''" by (simp add: plain_def)
  have nd: "g453_dot \<notin> g453_name ` {..<length g453_names}" 
  proof
    assume "g453_dot \<in> g453_name ` {..<length g453_names}"
    then obtain j where "j < length g453_names" "g453_name j = g453_dot" by auto
    then show False using g453_names_ok(4) by blast
  qed
  show "T G453_DOTDIR = None" using assms nd g453_dot_ok(1) unfolding g453_at_def dd by blast
  show d: "dirname G453_DOTDIR = G453_ROOT" unfolding dd using g453_dot_ok(1) by simp
  show f: "dirname G453_DOTFILE = G453_DOTDIR" unfolding df using v by (rule plain_dirname)
  let ?M = "\<lambda>n. if plain n then T (G453_ROOT @ CHR ''/'' # n) else None"
  have M: "?M (g453_name i) = Some (Reg (N i) (g453_value i))" if "i < length g453_names" for i
    using assms that g453_names_ok(2) [OF that] by (simp add: g453_at_def g453_path_name)
  have dm: "dom ?M = g453_name ` {..<length g453_names}"
  proof (rule set_eqI)
    fix n
    show "n \<in> dom ?M \<longleftrightarrow> n \<in> g453_name ` {..<length g453_names}"
    proof
      assume "n \<in> dom ?M"
      then show "n \<in> g453_name ` {..<length g453_names}" using assms unfolding g453_at_def by (auto split: if_splits)
    next
      assume "n \<in> g453_name ` {..<length g453_names}"
      then show "n \<in> dom ?M" using M by fastforce
    qed
  qed
  have "dir_tree G453_ROOT ?M T" using assms by (simp add: dir_tree_def g453_at_def)
  then have "dir_tree G453_ROOT (?M(g453_dot \<mapsto> Dir i)) (T(G453_DOTDIR \<mapsto> Dir i))" by (rule dir_tree_upd [OF _ dd])
  then have "dir_tree G453_ROOT (?M(g453_dot \<mapsto> Dir i)) (T(G453_DOTDIR \<mapsto> Dir i, G453_DOTFILE \<mapsto> x))"
    by (rule dir_tree_other) (unfold f, simp_all add: df dd)
  moreover have "g453_map (?M(g453_dot \<mapsto> Dir i))"
    unfolding g453_map_def
  proof (intro conjI allI impI)
    show "dom (?M(g453_dot \<mapsto> Dir i)) = insert g453_dot (g453_name ` {..<length g453_names})" using dm by simp
    show "\<exists>j. (?M(g453_dot \<mapsto> Dir i)) g453_dot = Some (Dir j)" by simp
    show "\<exists>j d. (?M(g453_dot \<mapsto> Dir i)) (g453_name k) = Some (Reg j d)" if "k < length g453_names" for k
      using M [OF that] g453_names_ok(4) [OF that] by simp
  qed
  ultimately show "\<exists>M. dir_tree G453_ROOT M (T(G453_DOTDIR \<mapsto> Dir i, G453_DOTFILE \<mapsto> x)) \<and> g453_map M" by blast
qed

lemma g453_run_ok:
  assumes "ready V ok G453_ROOT s"
  shows "passes (names_that_look_alike_stay_different_files K iterate) s"
proof -
  have start: "g453_at 0 N [G453_ROOT \<mapsto> Dir i]" for N i by (simp add: g453_at_def t_dir_def)
  have sz: "length (to_bytes G453_DOTVALUE) < size_limit" "length G453_DOTVALUE = 31"
    by (simp_all add: G453_DOTVALUE_def size_limit_def)
  have free: "T G453_DOTFILE = None" if "tholds c G453_ROOT T t" "g453_at (length g453_names) N T" for c T N and t :: "('w, 'z) fxs_scheme"
  proof (rule ccontr)
    assume "T G453_DOTFILE \<noteq> None"
    then obtain n where n: "T G453_DOTFILE = Some n" by blast
    have "G453_DOTFILE = G453_ROOT @ CHR ''/'' # (g453_dot @ ''/value'')" by (simp add: G453_DOTFILE_def G453_DOTDIR_def)
    then have "beneath G453_ROOT G453_DOTFILE" using beneath_comp by metis
    from tree_parent [OF tholdsD(1) [OF that(1)] this n] show False
      using g453_made(1,3) [OF that(2)] by (simp add: t_dir_def)
  qed
  have reads: "wp (readdir_all iterate g453_actor i453_total h g453_start) (\<lambda>it. wp (kdo (filp_close K h)) (\<lambda>_.
      wp (for_each [0..<length g453_names] (\<lambda>i. kunit_expect (i453_seen it ! i = 1))) (\<lambda>_.
      wp (kunit_expect (i453_alien it = 0)) (\<lambda>_. wp (kunit_expect (i453_dirs it = 1)) (\<lambda>_ u. kfails u = fst c))))) t"
    if a: "dholds c root T h G453_ROOT t" "t_listing T G453_ROOT (todo (kw t) h)" "\<exists>M. dir_tree G453_ROOT M T \<and> g453_map M"
    for c root T h and t :: "('w, 'z) fxs_scheme"
  proof -
    obtain M where M: "dir_tree G453_ROOT M T" "g453_map M" using a(3) by blast
    note read = g453_read [OF a(2) M refl]
    show ?thesis
    proof (rule d_all [where tot = i453_total and actor = g453_actor, OF a(1) g453_fields(1) read(4)], goal_cases)
      case (1 u)
      then show ?case
      proof (rule d_close)
        fix v assume v: "tholds c root T v"
        show "wp (for_each [0..<length g453_names] (\<lambda>i. kunit_expect (i453_seen (foldl g453_actor g453_start (todo (kw t) h)) ! i = 1)))
            (\<lambda>_. wp (kunit_expect (i453_alien (foldl g453_actor g453_start (todo (kw t) h)) = 0)) (\<lambda>_.
               wp (kunit_expect (i453_dirs (foldl g453_actor g453_start (todo (kw t) h)) = 1)) (\<lambda>_ u. kfails u = fst c))) v"
          by (rule wp_for_range [where I = "\<lambda>_ u. u = v"]) (use read(1-3) tholds_fails [OF v] in auto)
      qed
    qed
  qed
  show ?thesis
    unfolding passes_def names_that_look_alike_stay_different_files_def
    apply (simp only: wp_steps)
    apply (rule t_prologue [OF assms], simp add: G453_ROOT_def)
    apply (erule g453_write_ok, rule start)
    subgoal premises p for t0 i T N t
    proof -
      note at = p(2) and made = g453_made [OF p(2)]
      have dist: "inj_on N {..<length g453_names}" using at by (simp add: g453_at_def)
      have ne: "G453_DOTFILE \<noteq> G453_DOTDIR" by (simp add: G453_DOTFILE_def)
      show ?thesis
        apply (rule g453_check_ok [OF p])
        apply (rule g453_distinct_ok [OF _ dist])
         apply (erule t_mkdir, rule made(1), use at in \<open>simp add: made(2) g453_at_def\<close>, intro conjI refl)
         apply (erule t_write_new, simp add: ne free [OF p], simp add: made(3) t_dir_def, rule sz(1), intro conjI refl)
         apply (rule wp_expect_retI, erule t_read_range, rule fun_upd_same, simp, simp add: size_limit_def)
         apply (simp only: prod.case, intro conjI, simp add: read_at_0 sz(2))
         apply (erule d_open, use at ne in \<open>simp add: g453_at_def t_dir_def G453_DOTFILE_def G453_DOTDIR_def\<close>)
         apply (simp only: wp_steps)
         apply (drule reads, assumption, rule made(4))
         apply simp
        apply assumption
        done
    qed
    done
qed

end

section \<open>generic/471\<close>

text \<open>
  \<open>kunit/xfstests/generic/471.c\<close>: a directory of eight files is read to its end, eight more are
  created, and after a rewind all sixteen are there, each once.  \<open>kstrtoint10\<close> is the kernel's
  \<open>kstrtoint\<close> with base 10, as the actor uses it on the rest of a name.
\<close>

definition G471_ROOT :: string where "G471_ROOT = XFS_MNT @ ''/g471''"
definition G471_DIR :: string where "G471_DIR = G471_ROOT @ ''/test-471''"
definition G471_FIRST :: nat where "G471_FIRST = 8"
definition G471_ADDED :: nat where "G471_ADDED = 8"
definition G471_TOTAL :: nat where "G471_TOTAL = G471_FIRST + G471_ADDED"

record g471_iter =
  i471_seen :: "byte list"
  i471_alien :: int
  i471_total :: nat

definition kstrtoint10 :: "string \<Rightarrow> int option" where
  "kstrtoint10 s =
     (let neg = (s \<noteq> [] \<and> hd s = CHR ''-''); signed = (s \<noteq> [] \<and> hd s \<in> {CHR ''-'', CHR ''+''});
          ds = (if signed then tl s else s); ds = (if ds \<noteq> [] \<and> last ds = nl then butlast ds else ds);
          v = (if neg then - int (undec ds) else int (undec ds))
      in if ds = [] \<or> (\<exists>c\<in>set ds. (of_char c :: nat) < 48 \<or> 57 < (of_char c :: nat)) \<or> v < - (2 ^ 31) \<or> 2 ^ 31 \<le> v
         then None else Some v)"

definition g471_actor :: "g471_iter \<Rightarrow> dirent \<Rightarrow> g471_iter" where
  "g471_actor it e =
     (let (name, type) = e; it = it\<lparr>i471_total := Suc (i471_total it)\<rparr>;
          alien = it\<lparr>i471_alien := i471_alien it + 1\<rparr> in
      if is_dot name then it
      else if length name < 2 \<or> 16 \<le> length name \<or> name ! 0 \<noteq> CHR ''e'' then alien
      else case kstrtoint10 (tl name) of None \<Rightarrow> alien
        | Some idx \<Rightarrow>
            if idx < 0 \<or> int G471_TOTAL \<le> idx then alien
            else it\<lparr>i471_seen := (i471_seen it)[nat idx := i471_seen it ! nat idx + 1]\<rparr>)"

definition g471_path :: "nat \<Rightarrow> string" where "g471_path i = G471_DIR @ ''/e'' @ dec i"

definition g471_remove_tree :: "'w kernel \<Rightarrow> (('w, 'z) kst_scheme, unit) prog" where
  "g471_remove_tree K = seq [
     for_each [0..<G471_TOTAL] (\<lambda>i. ignore (xfs_unlink K (g471_path i))),
     ignore (xfs_rmdir_settled K G471_DIR),
     ignore (xfs_rmdir_settled K G471_ROOT)]"

definition g471_enumerate :: "'w iterate \<Rightarrow> nat \<Rightarrow> (('w, 'z) kst_scheme, g471_iter) prog" where
  "g471_enumerate iterate d =
     bnd (readdir_all iterate g471_actor i471_total d \<lparr>i471_seen = replicate G471_TOTAL 0, i471_alien = 0, i471_total = 0\<rparr>) (\<lambda>it.
     bnd (kunit_expect (i471_alien it = 0)) (\<lambda>_. ret it))"

definition rewinddir_shows_names_created_after_opendir ::
  "'w kernel \<Rightarrow> 'w iterate \<Rightarrow> (nat \<Rightarrow> int \<Rightarrow> whence \<Rightarrow> 'w \<Rightarrow> int \<times> 'w) \<Rightarrow> (('w, 'z) fxs_scheme, unit) prog" where
  "rewinddir_shows_names_created_after_opendir K iterate seek = seq [
     test_prologue K G471_ROOT ''g471_remove_tree'' (g471_remove_tree K),
     must (xfs_mkdir K G471_DIR),
     for_each [0..<G471_FIRST] (\<lambda>i. must (xfs_write_new_file K (g471_path i) [])),
     must_open (kcall (filp_open K G471_DIR {O_RDONLY, O_DIRECTORY} 0)) (\<lambda>d. seq [
       bnd (g471_enumerate iterate d) (\<lambda>it. for_each [0..<G471_FIRST] (\<lambda>i. kunit_expect (i471_seen it ! i = 1))),
       for_each [G471_FIRST..<G471_TOTAL] (\<lambda>i. must (xfs_write_new_file K (g471_path i) [])),
       must (kcall (seek d 0 SEEK_SET)),
       bnd (g471_enumerate iterate d) (\<lambda>it. for_each [0..<G471_TOTAL] (\<lambda>i. kunit_expect (i471_seen it ! i = 1))),
       kdo (filp_close K d)])]"

definition g471_suite ::
  "'w kernel \<Rightarrow> 'w iterate \<Rightarrow> (nat \<Rightarrow> int \<Rightarrow> whence \<Rightarrow> 'w \<Rightarrow> int \<times> 'w) \<Rightarrow> ('w, 'z) fxs_scheme suite" where
  "g471_suite K iterate seek = nfs_suite K ''xfstests/generic/471''
     [(''rewinddir_shows_names_created_after_opendir'', rewinddir_shows_names_created_after_opendir K iterate seek)]"

subsection \<open>The actor\<close>

definition g471_slot :: "string \<Rightarrow> nat option" where
  "g471_slot n = (if is_dot n \<or> length n < 2 \<or> 16 \<le> length n \<or> n ! 0 \<noteq> CHR ''e'' then None
     else case kstrtoint10 (tl n) of None \<Rightarrow> None
       | Some idx \<Rightarrow> if idx < 0 \<or> int G471_TOTAL \<le> idx then None else Some (nat idx))"

lemma g471_fields:
  "i471_total (g471_actor it e) = Suc (i471_total it)"
  "i471_seen (g471_actor it e) = bump (g471_slot \<circ> fst) (i471_seen it) e"
  "i471_alien (g471_actor it e) = (if \<not> is_dot (fst e) \<and> g471_slot (fst e) = None then i471_alien it + 1 else i471_alien it)"
  by (cases e, simp add: g471_actor_def g471_slot_def bump_def Let_def split: option.split)+

abbreviation g471_name :: "nat \<Rightarrow> string" where "g471_name i \<equiv> CHR ''e'' # dec i"

lemma g471_slots: "list_all (\<lambda>i. g471_slot (g471_name i) = Some i) [0..<G471_TOTAL]"
  by code_simp

lemma g471_slot_name: "i < G471_TOTAL \<Longrightarrow> g471_slot (g471_name i) = Some i"
  using g471_slots by (simp add: list_all_iff)

lemma g471_name_ok [simp]: "plain (g471_name i)" "g471_name i \<notin> dots"
  by (simp_all add: plain_def dots_def)

text \<open>What a whole listing of the first \<open>n\<close> files leaves behind.\<close>

lemma g471_read:
  assumes "t_listing T G471_DIR es" "dir_tree G471_DIR M T" "dom M = g471_name ` {..<n}" "n \<le> G471_TOTAL"
    and "it = foldl g471_actor \<lparr>i471_seen = replicate G471_TOTAL 0, i471_alien = 0, i471_total = 0\<rparr> es"
  shows "i471_alien it = 0" "k < n \<Longrightarrow> i471_seen it ! k = 1" "length es < READDIR_FUEL"
proof -
  have es: "fst ` set es = dots \<union> g471_name ` {..<n}"
    using dir_listing(1) [OF assms(1,2)] unfolding assms(3) by (simp add: image_subset_iff)
  have slot: "is_dot (fst e) \<or> (\<exists>i<n. fst e = g471_name i \<and> g471_slot (fst e) = Some i)" if "e \<in> set es" for e
  proof -
    have "fst e \<in> dots \<union> g471_name ` {..<n}" using that es by blast
    then show ?thesis using g471_slot_name assms(4) unfolding is_dot_iff by force
  qed
  have "filter (\<lambda>e. \<not> is_dot (fst e) \<and> g471_slot (fst e) = None) es = []"
    by (rule filter_False) (use slot in force)
  then show "i471_alien it = 0"
    unfolding assms(5) by (subst fold_count [where g = i471_alien, OF g471_fields(3)]) simp
  show "i471_seen it ! k = 1" if k: "k < n"
  proof -
    have "filter (\<lambda>e. (g471_slot \<circ> fst) e = Some k) es = filter (\<lambda>e. fst e = g471_name k) es"
    proof (rule filter_cong [OF refl])
      fix e assume "e \<in> set es"
      from slot [OF this] show "((g471_slot \<circ> fst) e = Some k) = (fst e = g471_name k)"
      proof
        assume d: "is_dot (fst e)"
        then have "g471_slot (fst e) = None" "fst e \<noteq> g471_name k" by (auto simp: g471_slot_def)
        then show ?thesis by simp
      qed auto
    qed
    moreover have "length (filter (\<lambda>e. fst e = g471_name k) es) = 1"
      using count_name [of es "g471_name k"] assms(1) es k by (simp add: t_listing_def)
    ultimately show ?thesis
      unfolding assms(5)
      by (subst fold_bump [where g = i471_seen, OF g471_fields(2)]) (use k assms(4) in simp_all)
  qed
  have "length es \<le> length (''.'' # ''..'' # map g471_name [0..<n])"
    by (rule listing_length [OF assms(1)]) (unfold es, auto simp: dots_def)
  then show "length es < READDIR_FUEL"
    using assms(4) by (simp add: READDIR_FUEL_def G471_TOTAL_def G471_FIRST_def G471_ADDED_def)
qed

subsection \<open>The case\<close>

context readdir
begin

lemma g471_enumerate_ok:
  assumes "dholds c root T h G471_DIR s" "t_listing T G471_DIR (todo (kw s) h)" "dir_tree G471_DIR M T"
    and "dom M = g471_name ` {..<n}" "n \<le> G471_TOTAL"
    and "\<And>t it. \<lbrakk>dholds c root T h G471_DIR t; \<And>k. k < n \<Longrightarrow> i471_seen it ! k = 1\<rbrakk> \<Longrightarrow> Q it t"
  shows "wp (g471_enumerate iterate h) Q s"
  unfolding g471_enumerate_def wp_bnd
proof (rule d_all [where tot = i471_total and actor = g471_actor, OF assms(1) g471_fields(1)])
  note r = g471_read [OF assms(2-5) refl]
  show "length (todo (kw s) h) < READDIR_FUEL" by (rule r(3))
  fix t assume "dholds c root T h G471_DIR t"
  from assms(6) [OF this r(2)] r(1)
  show "wp (kunit_expect (i471_alien (foldl g471_actor \<lparr>i471_seen = replicate G471_TOTAL 0, i471_alien = 0, i471_total = 0\<rparr>
      (todo (kw s) h)) = 0)) (\<lambda>_. wp (ret (foldl g471_actor \<lparr>i471_seen = replicate G471_TOTAL 0, i471_alien = 0, i471_total = 0\<rparr>
      (todo (kw s) h))) Q) t"
    by simp
qed

lemma g471_path_name: "g471_path i = G471_DIR @ CHR ''/'' # g471_name i"
  by (simp add: g471_path_def)

abbreviation g471_at where
  "g471_at n T \<equiv> \<exists>M. dir_tree G471_DIR M T \<and> dom M = g471_name ` {..<n}"

lemma g471_free: "g471_at n T \<Longrightarrow> T (g471_path n) = None \<and> t_dir T (dirname (g471_path n))"
proof -
  assume "g471_at n T"
  then obtain M where M: "dir_tree G471_DIR M T" "dom M = g471_name ` {..<n}" by blast
  have "g471_name n \<notin> dom M" unfolding M(2) by auto
  then show ?thesis using dir_treeD [OF M(1)] by (auto simp: g471_path_name domIff)
qed

lemma g471_next: "g471_at n T \<Longrightarrow> g471_at (Suc n) (T(g471_path n \<mapsto> x))"
proof -
  assume "g471_at n T"
  then obtain M where M: "dir_tree G471_DIR M T" "dom M = g471_name ` {..<n}" by blast
  have "dir_tree G471_DIR (M(g471_name n \<mapsto> x)) (T(g471_path n \<mapsto> x))"
    by (rule dir_tree_upd [OF M(1) g471_path_name])
  moreover have "dom (M(g471_name n \<mapsto> x)) = g471_name ` {..<Suc n}" using M(2) by (simp add: lessThan_Suc)
  ultimately show ?thesis by blast
qed

lemma g471_first_ok:
  assumes "tholds c root T s" "g471_at 0 T" and "\<And>T t. \<lbrakk>tholds c root T t; g471_at G471_FIRST T\<rbrakk> \<Longrightarrow> Q () t"
  shows "wp (for_each [0..<G471_FIRST] (\<lambda>i. must (xfs_write_new_file K (g471_path i) []))) Q s"
proof (rule wp_for_range [where I = "\<lambda>n t. \<exists>T. tholds c root T t \<and> g471_at n T"], goal_cases)
  case (3 n t)
  then obtain T where T: "tholds c root T t" "g471_at n T" by blast
  note free = g471_free [OF T(2)] and step = g471_next [OF T(2)]
  show ?case
    unfolding wp_must
    by (rule t_write_new [OF T(1)], use free in simp, use free in simp, simp add: size_limit_def, use step in blast)
qed (use assms in auto)

lemma g471_added_ok:
  assumes "dholds c root T h p s" "g471_at G471_FIRST T"
    and "\<And>T t. \<lbrakk>dholds c root T h p t; g471_at G471_TOTAL T\<rbrakk> \<Longrightarrow> Q () t"
  shows "wp (for_each [G471_FIRST..<G471_TOTAL] (\<lambda>i. must (xfs_write_new_file K (g471_path i) []))) Q s"
proof (rule wp_for_range [where I = "\<lambda>n t. \<exists>T. dholds c root T h p t \<and> g471_at n T"], goal_cases)
  case (3 n t)
  then obtain T where T: "dholds c root T h p t" "g471_at n T" by blast
  note free = g471_free [OF T(2)] and step = g471_next [OF T(2)]
  show ?case
    unfolding wp_must
    by (rule d_write_new [OF T(1)], use free in simp, use free in simp, simp add: size_limit_def, use step in blast)
qed (use assms in \<open>auto simp: G471_TOTAL_def\<close>)

lemma g471_seen_ok:
  assumes "Q () t" "\<And>k. k < n \<Longrightarrow> i471_seen it ! k = 1"
  shows "wp (for_each [0..<n] (\<lambda>i. kunit_expect (i471_seen it ! i = 1))) Q t"
  by (rule wp_for_range [where I = "\<lambda>_ u. u = t"]) (use assms in auto)

lemma g471_run_ok:
  assumes "ready V ok G471_ROOT s"
  shows "passes (rewinddir_shows_names_created_after_opendir K iterate seek) s"
proof -
  have d: "dirname G471_DIR = G471_ROOT" using dirname_comp [of "''test-471''" G471_ROOT] by (simp add: G471_DIR_def)
  have ne: "G471_DIR \<noteq> G471_ROOT" by (simp add: G471_DIR_def)
  have start: "g471_at 0 ([G471_ROOT \<mapsto> Dir i] (G471_DIR \<mapsto> Dir j))" for i j
    by (rule exI [of _ Map.empty]) (auto simp: dir_tree_def t_dir_def G471_DIR_def)
  have le: "G471_FIRST \<le> G471_TOTAL" by (simp add: G471_TOTAL_def)
  show ?thesis
    unfolding passes_def rewinddir_shows_names_created_after_opendir_def
    apply (simp only: wp_steps)
    apply (rule t_prologue [OF assms], simp add: G471_ROOT_def)
    apply (erule t_mkdir, simp add: ne, simp add: d t_dir_def, intro conjI refl)
    apply (erule g471_first_ok, rule start)
    apply (elim exE conjE, erule d_open, erule dir_treeD(2))
    apply (simp only: wp_steps)
    apply (erule g471_enumerate_ok, assumption, assumption, assumption, rule le)
    apply (rule g471_seen_ok)
     apply (erule g471_added_ok, intro exI conjI, assumption, assumption)
     apply (erule d_rewind, intro conjI refl)
     apply (elim exE conjE, erule g471_enumerate_ok, assumption, assumption, assumption, rule order.refl)
     apply (rule g471_seen_ok)
      apply (erule d_close, drule tholds_fails, simp)
     apply simp
    apply simp
    done
qed

end

end
