(* ===== verification/SeekPorts.thy ===== *)
theory SeekPorts
  imports Seeks
begin

text \<open>
  Three short ports on \<open>SEEK_DATA\<close> and \<open>SEEK_HOLE\<close>: generic/285, generic/448 and generic/706.
\<close>

section \<open>generic/285\<close>

text \<open>
  \<open>kunit/xfstests/generic/285.c\<close>: \<open>SEEK_DATA\<close> and \<open>SEEK_HOLE\<close> around one island of data, on an
  empty file and past the end.
\<close>

definition G285_ROOT :: string where "G285_ROOT = XFS_MNT @ ''/g285''"

definition g285_remove_tree :: "'w kernel \<Rightarrow> (('w, 'z) kst_scheme, unit) prog" where
  "g285_remove_tree K = seq [
     ignore (xfs_unlink K (G285_ROOT @ ''/sparse'')),
     ignore (xfs_unlink K (G285_ROOT @ ''/empty'')),
     ignore (xfs_rmdir K G285_ROOT)]"

definition seek_hole_data_boundaries_are_exact ::
  "'w kernel \<Rightarrow> (nat \<Rightarrow> int \<Rightarrow> whence \<Rightarrow> 'w \<Rightarrow> int \<times> 'w) \<Rightarrow> (('w, 'z) fxs_scheme, unit) prog" where
  "seek_hole_data_boundaries_are_exact K seek = (let expect_seek = (\<lambda>f off wh v. expect_ret (kcall (seek f off wh)) (\<lambda>r. r = v)) in seq [
     test_prologue K G285_ROOT ''g285_remove_tree'' (g285_remove_tree K),
     must (xfs_write_new_file K (G285_ROOT @ ''/empty'') []),
     must_open (kcall (filp_open K (G285_ROOT @ ''/empty'') {O_RDONLY} 0)) (\<lambda>f. seq [
       expect_seek f 0 SEEK_DATA (- ENXIO),
       expect_seek f 0 SEEK_HOLE (- ENXIO),
       kdo (filp_close K f)]),
     must_alloc K 4096,
     must_open (kcall (filp_open K (G285_ROOT @ ''/sparse'') {O_RDWR, O_CREAT, O_EXCL} (mode3 6 4 4))) (\<lambda>f. seq [
       must_ret (kcall (kernel_write K f (replicate 4096 0xDA) 65536)) (\<lambda>(n, _). n = 4096),
       must (xfs_truncate K (G285_ROOT @ ''/sparse'') 131072),
       must (kcall (vfs_fsync K f)),
       expect_seek f 0 SEEK_DATA 65536,
       expect_seek f 0 SEEK_HOLE 0,
       expect_seek f 65536 SEEK_HOLE 69632,
       expect_seek f 69632 SEEK_DATA (- ENXIO),
       expect_seek f 131071 SEEK_HOLE 131071,
       expect_seek f 131072 SEEK_DATA (- ENXIO),
       expect_seek f 131072 SEEK_HOLE (- ENXIO),
       kdo (filp_close K f)])])"

definition g285_suite :: "'w kernel \<Rightarrow> (nat \<Rightarrow> int \<Rightarrow> whence \<Rightarrow> 'w \<Rightarrow> int \<times> 'w) \<Rightarrow> ('w, 'z) fxs_scheme suite" where
  "g285_suite K seek = nfs_suite K ''xfstests/generic/285''
     [(''seek_hole_data_boundaries_are_exact'', seek_hole_data_boundaries_are_exact K seek)]"

text \<open>The sixteenth page is the island.\<close>

lemma g285_island:
  assumes "X = {16}"
  shows "seek_in X 131072 0 SEEK_DATA = 65536" "seek_in X 131072 0 SEEK_HOLE = 0" "seek_in X 131072 65536 SEEK_HOLE = 69632"
    "seek_in X 131072 69632 SEEK_DATA = - ENXIO" "seek_in X 131072 131071 SEEK_HOLE = 131071"
    "seek_in X 131072 131072 wh = - ENXIO"
proof -
  have X: "i div PAGE_SIZE \<in> X \<longleftrightarrow> 65536 \<le> i \<and> i < 69632" for i
  proof -
    have "i div PAGE_SIZE \<in> {16..<17} \<longleftrightarrow> 65536 \<le> i \<and> i < 69632"
      unfolding atLeastLessThan_iff page_bounds by (simp add: PAGE_SIZE_def)
    moreover have "{16..<17} = {16 :: nat}" by auto
    ultimately show ?thesis by (simp only: assms)
  qed
  show "seek_in X 131072 0 SEEK_DATA = 65536" using seek_data [of 0 65536 131072 X] by (simp add: X)
  show "seek_in X 131072 0 SEEK_HOLE = 0" using seek_hole [of 0 131072 0 X] by (simp add: assms)
  show "seek_in X 131072 65536 SEEK_HOLE = 69632" using seek_hole [of 65536 131072 69632 X] by (simp add: X)
  show "seek_in X 131072 69632 SEEK_DATA = - ENXIO" by (rule seek_no_data) (simp add: X)
  show "seek_in X 131072 131071 SEEK_HOLE = 131071" using seek_hole [of 131071 131072 131071 X] by (simp add: X)
  show "seek_in X 131072 131072 wh = - ENXIO" by (rule seek_out) simp
qed

context seeking
begin

lemma g285_run_ok:
  assumes "ready V ok G285_ROOT s"
  shows "passes (seek_hole_data_boundaries_are_exact K seek) s"
proof -
  let ?U = "{G285_ROOT @ ''/empty'', G285_ROOT @ ''/sparse''}"
  have pages: "({} \<union> pages 65536 4096) \<inter> pages_below 131072 = {16}"
    by (auto simp: pages_def pages_below_def PAGE_SIZE_def)
  note isl = g285_island [OF refl]
  show ?thesis
    unfolding passes_def seek_hole_data_boundaries_are_exact_def Let_def
    apply (simp only: wp_steps)
    apply (rule q_prologue [where U = ?U and D = "\<lambda>_. {}", OF assms], auto)[1]
    apply (erule q_touch, simp, simp, intro conjI refl)
    apply (erule q_open, simp, simp, simp, simp, simp)
    apply (simp only: wp_steps)
    apply (rule wp_expect_retI, erule q_seek_same, simp, simp only: list.size seek_empty, intro conjI refl)
    apply (rule wp_expect_retI, erule q_seek_same, simp, simp only: list.size seek_empty, intro conjI refl)
    apply (erule q_close_same, simp)
    apply (erule q_alloc)
    apply (erule q_create, simp, simp, simp)
    apply (simp only: wp_steps)
    apply (erule q_write_same, simp, simp, simp, simp add: size_limit_def, simp only: prod.case, intro conjI, simp)
    apply (erule q_truncate_same, simp, simp add: size_limit_def, intro conjI refl)
    apply (erule q_fsync_same, intro conjI refl)
    apply (simp only: length_replicate length_resize nat_numeral pages)
    apply (rule wp_expect_retI, erule q_seek_same, simp, simp only: length_resize isl, intro conjI refl)
    apply (rule wp_expect_retI, erule q_seek_same, simp, simp only: length_resize isl, intro conjI refl)
    apply (rule wp_expect_retI, erule q_seek_same, simp, simp only: length_resize isl, intro conjI refl)
    apply (rule wp_expect_retI, erule q_seek_same, simp, simp only: length_resize isl, intro conjI refl)
    apply (rule wp_expect_retI, erule q_seek_same, simp, simp only: length_resize isl, intro conjI refl)
    apply (rule wp_expect_retI, erule q_seek_same, simp, simp only: length_resize isl, intro conjI refl)
    apply (rule wp_expect_retI, erule q_seek_same, simp, simp only: length_resize isl, intro conjI refl)
    apply (erule q_close_same, simp)
    apply (drule sholds_fails, simp)
    done
qed

end

section \<open>generic/448\<close>

text \<open>
  \<open>kunit/xfstests/generic/448.c\<close>: \<open>SEEK_HOLE\<close> and \<open>SEEK_DATA\<close> refuse negative offsets, the least one
  included, and find the data of a page that was just written.
\<close>

definition G448_ROOT :: string where "G448_ROOT = XFS_MNT @ ''/g448''"
definition G448_FILE :: string where "G448_FILE = G448_ROOT @ ''/seek_sanity_testfile_448''"
definition LLONG_MIN :: int where "LLONG_MIN = - (2 ^ 63)"

definition g448_remove_tree :: "'w kernel \<Rightarrow> (('w, 'z) kst_scheme, unit) prog" where
  "g448_remove_tree K = seq [ignore (xfs_unlink K G448_FILE), ignore (xfs_rmdir_settled K G448_ROOT)]"

definition g448_check ::
  "(nat \<Rightarrow> int \<Rightarrow> whence \<Rightarrow> 'w \<Rightarrow> int \<times> 'w) \<Rightarrow> nat \<Rightarrow> whence \<Rightarrow> int \<Rightarrow> (('w, 'z) kst_scheme, unit) prog" where
  "g448_check seek f wh off = expect_ret (kcall (seek f off wh)) (\<lambda>got. got = - ENXIO)"

definition negative_seek_offsets_are_rejected ::
  "'w kernel \<Rightarrow> (nat \<Rightarrow> int \<Rightarrow> whence \<Rightarrow> 'w \<Rightarrow> int \<times> 'w) \<Rightarrow> (('w, 'z) fxs_scheme, unit) prog" where
  "negative_seek_offsets_are_rejected K seek = seq [
     test_prologue K G448_ROOT ''g448_remove_tree'' (g448_remove_tree K),
     must_open (kcall (filp_open K G448_FILE {O_RDWR, O_CREAT, O_TRUNC} (mode3 6 4 4))) (\<lambda>f. seq [
       g448_check seek f SEEK_HOLE (- 1),
       g448_check seek f SEEK_DATA (- 1),
       g448_check seek f SEEK_HOLE LLONG_MIN,
       g448_check seek f SEEK_DATA LLONG_MIN,
       must_alloc K 4096,
       must_ret (kcall (kernel_write K f (replicate 4096 0) 0)) (\<lambda>(n, _). n = 4096),
       expect_ret (kcall (seek f 0 SEEK_DATA)) (\<lambda>got. got = 0),
       expect_ret (kcall (seek f 0 SEEK_HOLE)) (\<lambda>got. got = 4096),
       kdo (filp_close K f)])]"

definition g448_suite :: "'w kernel \<Rightarrow> (nat \<Rightarrow> int \<Rightarrow> whence \<Rightarrow> 'w \<Rightarrow> int \<times> 'w) \<Rightarrow> ('w, 'z) fxs_scheme suite" where
  "g448_suite K seek = nfs_suite K ''xfstests/generic/448''
     [(''negative_seek_offsets_are_rejected'', negative_seek_offsets_are_rejected K seek)]"

lemma g448_page:
  "seek_in {0} 4096 0 SEEK_DATA = 0" "seek_in {0} 4096 0 SEEK_HOLE = 4096"
proof -
  have "i div PAGE_SIZE \<in> {..<1} \<longleftrightarrow> i < 4096" for i
    unfolding lessThan_iff page_bounds by (simp add: PAGE_SIZE_def)
  then have X: "i div PAGE_SIZE = 0 \<longleftrightarrow> i < 4096" for i by simp
  show "seek_in {0} 4096 0 SEEK_DATA = 0" using seek_data [of 0 0 4096 "{0}"] by (simp add: X)
  show "seek_in {0} 4096 0 SEEK_HOLE = 4096" using seek_hole [of 0 4096 4096 "{0}"] by (simp add: X)
qed

context seeking
begin

lemma g448_run_ok:
  assumes "ready V ok G448_ROOT s"
  shows "passes (negative_seek_offsets_are_rejected K seek) s"
proof -
  have pages: "{} \<union> pages 0 4096 = {0}" by (simp add: pages_def PAGE_SIZE_def)
  have len: "length (write_at 0 (replicate 4096 0) []) = 4096" by simp
  show ?thesis
    unfolding passes_def negative_seek_offsets_are_rejected_def g448_check_def
    apply (simp only: wp_steps)
    apply (rule q_prologue [where U = "{G448_FILE}" and D = "\<lambda>_. {}", OF assms], simp add: G448_FILE_def)
    apply (erule q_create, simp, simp, simp)
    apply (simp only: wp_steps)
    apply (rule wp_expect_retI, erule q_seek_same, simp, simp only: list.size seek_empty, intro conjI refl)
    apply (rule wp_expect_retI, erule q_seek_same, simp, simp only: list.size seek_empty, intro conjI refl)
    apply (rule wp_expect_retI, erule q_seek_same, simp, simp only: list.size seek_empty, intro conjI refl)
    apply (rule wp_expect_retI, erule q_seek_same, simp, simp only: list.size seek_empty, intro conjI refl)
    apply (erule q_alloc)
    apply (erule q_write_same, simp, simp, simp, simp add: size_limit_def, simp only: prod.case, intro conjI, simp)
    apply (simp only: length_replicate nat_0 pages)
    apply (rule wp_expect_retI, erule q_seek_same, simp, simp only: len g448_page, intro conjI refl)
    apply (rule wp_expect_retI, erule q_seek_same, simp, simp only: len g448_page, intro conjI refl)
    apply (erule q_close_same, simp)
    apply (drule sholds_fails, simp)
    done
qed

end

section \<open>generic/706\<close>

text \<open>
  \<open>kunit/xfstests/generic/706.c\<close>: \<open>SEEK_DATA\<close> finds the only byte of a file, before and after it
  was written back, and \<open>SEEK_HOLE\<close> the end of the file behind it.
\<close>

definition G706_ROOT :: string where "G706_ROOT = XFS_MNT @ ''/g706''"
definition G706_FILE :: string where "G706_FILE = G706_ROOT @ ''/seek_sanity_testfile.706''"

definition g706_remove_tree :: "'w kernel \<Rightarrow> (('w, 'z) kst_scheme, unit) prog" where
  "g706_remove_tree K = seq [ignore (xfs_unlink K G706_FILE), ignore (xfs_rmdir_settled K G706_ROOT)]"

definition seek_data_on_a_one_byte_file ::
  "'w kernel \<Rightarrow> (nat \<Rightarrow> int \<Rightarrow> whence \<Rightarrow> 'w \<Rightarrow> int \<times> 'w) \<Rightarrow> (('w, 'z) fxs_scheme, unit) prog" where
  "seek_data_on_a_one_byte_file K seek = seq [
     test_prologue K G706_ROOT ''g706_remove_tree'' (g706_remove_tree K),
     must_open (kcall (filp_open K G706_FILE {O_RDWR, O_CREAT, O_TRUNC} (mode3 6 4 4))) (\<lambda>f. seq [
       must_ret (kcall (kernel_write K f (to_bytes ''X'') 0)) (\<lambda>(n, _). n = 1),
       expect_ret (kcall (seek f 0 SEEK_DATA)) (\<lambda>got. got = 0),
       must (kcall (vfs_fsync K f)),
       expect_ret (kcall (seek f 0 SEEK_DATA)) (\<lambda>got. got = 0),
       expect_ret (kcall (seek f 0 SEEK_HOLE)) (\<lambda>got. got = 1),
       kdo (filp_close K f)])]"

definition g706_suite :: "'w kernel \<Rightarrow> (nat \<Rightarrow> int \<Rightarrow> whence \<Rightarrow> 'w \<Rightarrow> int \<times> 'w) \<Rightarrow> ('w, 'z) fxs_scheme suite" where
  "g706_suite K seek = nfs_suite K ''xfstests/generic/706''
     [(''seek_data_on_a_one_byte_file'', seek_data_on_a_one_byte_file K seek)]"

lemma g706_byte:
  "seek_in {0} 1 0 SEEK_DATA = 0" "seek_in {0} 1 0 SEEK_HOLE = 1"
  by (simp_all add: seek_in_def)

context seeking
begin

lemma g706_run_ok:
  assumes "ready V ok G706_ROOT s"
  shows "passes (seek_data_on_a_one_byte_file K seek) s"
proof -
  have pages: "{} \<union> pages 0 1 = {0}" by (simp add: pages_def)
  have one: "length (to_bytes ''X'') = 1" "length (write_at 0 (to_bytes ''X'') []) = 1" by (simp_all add: to_bytes_def)
  show ?thesis
    unfolding passes_def seek_data_on_a_one_byte_file_def
    apply (simp only: wp_steps)
    apply (rule q_prologue [where U = "{G706_FILE}" and D = "\<lambda>_. {}", OF assms], simp add: G706_FILE_def)
    apply (erule q_create, simp, simp, simp)
    apply (simp only: wp_steps)
    apply (erule q_write_same, simp, simp, simp, simp add: size_limit_def, simp only: prod.case, intro conjI, simp)
    apply (simp only: one nat_0 pages)
    apply (rule wp_expect_retI, erule q_seek_same, simp, simp only: one g706_byte, intro conjI refl)
    apply (erule q_fsync_same, intro conjI refl)
    apply (rule wp_expect_retI, erule q_seek_same, simp, simp only: one g706_byte, intro conjI refl)
    apply (rule wp_expect_retI, erule q_seek_same, simp, simp only: one g706_byte, intro conjI refl)
    apply (erule q_close_same, simp)
    apply (drule sholds_fails, simp)
    done
qed

end

end
