(* ===== verification/Suites.thy ===== *)
theory Suites
  imports FixtureProps
    Gen001 Gen002 Gen005 Gen006 Gen007 Gen011 Gen014 Gen020 Gen023 Gen069 Gen070 Gen074 Gen075 Gen086 Gen089 Gen109
    Gen124 Gen129 Gen130 Gen132 Gen135 Gen169 Gen214 Gen245 Gen286 Gen337 Gen360 Gen377 Gen393 Gen412 Gen420 Gen430
    Gen431 Gen432 Gen433 Gen436 Gen439 Gen450 Gen454 Gen486 Gen490 Gen523 Gen533 Gen539 Gen611 Gen618 Gen639 Gen763
    ReaddirPorts SeekPorts
begin

text \<open>
  Every ported suite between its \<open>suite_init\<close> and its \<open>suite_exit\<close>.  \<open>in_suite\<close> is the
  relation from the state before a suite to those it can be in while it runs: after an
  \<open>xfstests_nfs_get\<close> that returned 0, any of its cases may run and end in any way, any
  registered removal may run, the fixture's per-case hook may run, and KUnit's bookkeeping and the
  kernel may change at any point.  A suite whose code is \<open>tame\<close>, which leaves the
  deployment alone, is \<open>balanced\<close>; the ported suites are tame, function by function.
\<close>

section \<open>Tame code\<close>

definition tame :: "('w, 'z) fxs_scheme suite \<Rightarrow> (('w, 'z) fxs_scheme, unit) prog list \<Rightarrow> bool" where
  "tame S removals = ((\<forall>c \<in> set (test_cases S). keeps deployment (snd c)) \<and> (\<forall>act \<in> set removals. keeps deployment act))"

lemmas tame_parts = tame_def suite.simps list.set ball_simps snd_conv

lemmas dep_ports = statics.keeps_ports [OF dep.statics_axioms]

lemma keeps_mounted: "keeps deployment xfstests_nfs_mounted"
  unfolding xfstests_nfs_mounted_def by (intro frame_intros)

lemma keeps_prologue: "keeps deployment act \<Longrightarrow> keeps deployment (test_prologue K root nm act)"
  unfolding test_prologue_def by (intro frame_intros dep_ports keeps_mounted)

lemma keeps_abort: "keeps F Abort"
  by (simp add: keeps_def)

lemma keeps_prod_at: "(\<And>a b. keeps F (f a b l)) \<Longrightarrow> keeps F ((case r of (a, b) \<Rightarrow> f a b) l)"
  by (cases r) auto

lemma keeps_cell:
  "\<lbrakk>keeps F n; keeps F r; keeps F l; keeps F d; keeps F e\<rbrakk> \<Longrightarrow>
   keeps F (case x of G023_NONE \<Rightarrow> n | G023_REGU \<Rightarrow> r | G023_SYMB \<Rightarrow> l | G023_DIRE \<Rightarrow> d | G023_TREE \<Rightarrow> e)"
  by (cases x) auto

lemmas tame_intros = keeps_prologue keeps_mounted keeps_abort keeps_prod_at keeps_cell dep_ports frame_intros conjI TrueI

text \<open>The loops of \<open>001.c\<close> over the chunks of a file.\<close>

lemma keeps_write_chunks: "keeps deployment (gen001_write_chunks K f st left pos)"
proof (induction left arbitrary: st pos rule: less_induct)
  case (less left)
  obtain buf st' where fill: "gen001_fill_chunk K st (min left GEN001_CHUNK) = (buf, st')" by force
  show ?case
    by (subst gen001_write_chunks.simps, unfold Let_def fill prod.case, intro tame_intros less.IH)
      (simp add: GEN001_CHUNK_def)
qed

lemma keeps_verify_chunks: "keeps deployment (gen001_verify_chunks K f st off bytes pos)"
proof (induction "bytes - off" arbitrary: st off pos rule: less_induct)
  case less
  obtain want st' where fill: "gen001_fill_chunk K st (min (bytes - off) GEN001_CHUNK) = (want, st')" by force
  show ?case
    by (subst gen001_verify_chunks.simps, unfold Let_def fill prod.case, intro tame_intros less.hyps)
      (simp add: GEN001_CHUNK_def)
qed

section \<open>The ports\<close>

lemmas suite_code = nfs_suite_def
  gen001_suite_def g002_suite_def g005_suite_def g006_suite_def g007_suite_def g011_suite_def g014_suite_def
  g020_suite_def g023_suite_def g069_suite_def g070_suite_def g074_suite_def g075_suite_def g086_suite_def
  g089_suite_def g109_suite_def g124_suite_def g129_suite_def g130_suite_def g132_suite_def g135_suite_def
  g169_suite_def g214_suite_def g245_suite_def g285_suite_def g286_suite_def g337_suite_def g360_suite_def
  g377_suite_def g393_suite_def g401_suite_def g412_suite_def g420_suite_def g430_suite_def g431_suite_def
  g432_suite_def g433_suite_def g436_suite_def g439_suite_def g448_suite_def g450_suite_def g453_suite_def
  g454_suite_def g471_suite_def g486_suite_def g490_suite_def g523_suite_def g533_suite_def g539_suite_def
  g611_suite_def g618_suite_def g639_suite_def g706_suite_def g763_suite_def

lemmas port_code = Let_def
  chains_preserve_data_across_five_iterations_def gen001_check_def gen001_verify_content_def gen001_chain_def
  gen001_close_def gen001_chain_copy_def gen001_copy_def gen001_copy_step_def gen001_write_file_def gen001_mkdirs_def
  gen001_remove_tree_def one_chain_survives_copy_rename_unlink_def fill_is_deterministic_per_name_def
  loopback_nfs_mounts_def
  link_count_follows_every_link_and_unlink_def g002_remove_tree_def
  deep_symlink_chains_hit_eloop_at_maxsymlinks_def g005_open_errno_def g005_make_chain_def g005_remove_tree_def
  all_4096_permuted_names_coexist_in_one_directory_def g006_remove_tree_def
  random_names_stay_consistent_with_the_model_def g007_iter_def g007_remove_def g007_create_def g007_lookup_def
  g007_remove_tree_def
  dirstress_create_scramble_remove_def g011_remove_entries_def g011_remove_entry_def g011_scramble_entries_def
  g011_op_def g011_try_def g011_create_entries_def g011_remove_tree_def
  write_truncate_churn_ends_consistent_def g014_epilogue_def g014_round_def g014_remove_tree_def
  fifty_attributes_and_a_big_one_def g020_remove_tree_def
  rename_covers_the_posix_errno_matrix_def g023_run_matrix_def g023_cell_def g023_cleanup_one_def g023_moved_def
  g023_showtype_def g023_setup_one_def g023_remove_tree_def
  appends_accumulate_exactly_def g069_verify_def g069_append_def g069_remove_tree_def
  xattr_storm_matches_the_model_def g070_op_def g070_list_def g070_remove_def g070_get_def g070_set_def
  g070_remove_tree_def
  patterned_rounds_verify_against_shadows_def g074_round_def g074_verify_def g074_init_def g074_remove_tree_def
  fsx_shadow_model_stays_in_sync_def g075_run_def g075_verify_range_def g075_op_def g075_step_def g075_extend_def
  g075_remove_tree_def
  a_write_after_allocate_and_cache_drop_keeps_its_neighbour_def g086_verify_def g086_pwrite_def g086_remove_tree_def
  link_rename_cycles_keep_nlink_exact_def g089_cycle_def g089_remove_tree_def
  renamed_directories_keep_their_entry_types_def g109_remove_dir_def g109_empty_dir_def g109_renamedir_def
  g109_filldir_def g109_remove_tree_def renames_keep_the_entry_type_at_every_directory_size_def g109_check_types_def
  g109_readdir_type_def iterate_dir_def
  the_positional_pattern_survives_every_round_def g124_round_def g124_check_pattern_def g124_check_chunk_def
  g124_write_pattern_def g124_remove_tree_def
  looptest_parameter_sets_read_back_what_they_wrote_def g129_loop_def g129_iter_def g129_io_def g129_deref_def
  g129_remove_tree_def
  single_byte_reads_and_writes_around_a_page_def g130_expect_def g130_setup_def g130_remove_tree_def
  o_append_ignores_the_offset_def o_trunc_empties_an_existing_file_def the_block_edge_case_def g130_fill_def
  direct_reads_and_writes_over_a_larger_range_def buffered_and_direct_writes_stay_coherent_def
  reading_a_hole_made_by_truncate_def end_of_file_zeroing_with_direct_io_def
  subpage_patterns_survive_rewrite_cycles_def g132_pass_def g132_check_def g132_write_def g132_remove_tree_def
  every_write_path_lands_the_same_bytes_def g135_verify_def g135_check_def g135_write_def g135_remove_tree_def
  appended_sizes_survive_a_cold_read_def g169_expect_size_def g169_append_def g169_remove_tree_def
  a_scatter_of_writes_around_an_allocate_def g214_expect_def g214_setup_def g214_remove_tree_def
  allocating_over_a_written_range_def a_truncate_after_allocate_and_write_def
  a_write_into_allocated_space_leaves_the_rest_alone_def g214_one_byte_def allocated_space_reads_as_zeroes_def
  nonempty_rename_targets_are_refused_def g245_remove_tree_def
  seek_hole_data_boundaries_are_exact_def g285_remove_tree_def
  seek_walk_copies_sparse_files_faithfully_def g286_walk_def g286_copy_extent_def g286_remove_tree_def
  listxattr_returns_every_name_def g337_check_list_def g337_remove_tree_def
  long_symlink_targets_round_trip_def g360_remove_tree_def
  listxattr_sizes_are_all_or_erange_def g377_set_def g377_remove_tree_def
  truncate_to_zero_then_up_reads_as_a_hole_def g393_one_round_def g393_all_zero_def g393_remove_tree_def
  readdir_reports_every_entry_type_def readdir_all_def g401_remove_tree_def
  a_truncate_into_a_hole_keeps_the_file_consistent_def g412_verify_def g412_remove_tree_def
  punch_past_eof_keeps_size_def g420_remove_tree_def
  copy_file_range_into_new_files_def g430_expect_def g430_copy_def copy_between_def write_runs_def
  g430_remove_tree_def
  one_byte_copies_land_exactly_def g431_check_def g431_copy_def g431_remove_tree_def
  thousand_byte_copies_rearrange_an_existing_file_def g432_expect_def g432_copy_def g432_remove_tree_def
  copies_rearrange_an_existing_file_def g433_expect_def g433_copy_def g433_remove_tree_def
  seek_over_unwritten_extents_with_dirty_data_def g436_16_def g436_lseek_def g436_pwrite_def g436_create_def
  g436_15_def g436_14_def g436_13_def g436_alloc_size_def alloc_size_def alloc_bisect_def alloc_probe_def
  alloc_double_def g436_remove_tree_def
  writes_over_punched_ranges_survive_def g439_invalidate_def g439_verify_def g439_fpunch_def g439_pwrite_def
  g439_remove_tree_def
  negative_seek_offsets_are_rejected_def g448_check_def g448_remove_tree_def
  reads_at_and_past_eof_are_short_not_errors_def g450_one_flavour_def g450_read_def g450_remove_tree_def
  names_that_look_alike_stay_different_files_def g453_check_def g453_remove_tree_def
  keys_that_look_alike_stay_different_keys_def g454_check_values_def g454_remove_tree_def
  rewinddir_shows_names_created_after_opendir_def g471_enumerate_def g471_remove_tree_def
  the_create_and_replace_flags_are_enforced_def g486_remove_tree_def replacing_a_tiny_attr_with_a_large_one_works_def
  seek_data_from_inside_a_huge_hole_def g490_seek_data_def g490_sparse_file_def g490_remove_tree_def
  seek_data_from_inside_a_large_hole_def
  an_xattr_name_may_contain_a_slash_def g523_remove_tree_def
  user_xattrs_are_set_listed_and_removed_def g533_expect_value_def g533_count_def g533_remove_tree_def
  seek_hole_finds_a_punched_hole_def g539_alloc_size_def g539_remove_tree_def
  a_one_character_name_with_an_empty_value_survives_def g611_check_def g611_remove_tree_def
  two_mid_sized_xattrs_both_survive_def g618_check_def g618_remove_tree_def
  a_write_beside_uncached_data_keeps_it_def g639_verify_def g639_remove_tree_def
  seek_data_on_a_one_byte_file_def g706_remove_tree_def
  a_zero_byte_write_succeeds_and_changes_nothing_def g763_remove_tree_def

lemma tame_suites:
  "tame (gen001_suite K nh wr) [gen001_remove_tree K]"
  "tame (g002_suite K) [g002_remove_tree K]"
  "tame (g005_suite K) [g005_remove_tree K]"
  "tame (g006_suite K) [g006_remove_tree K]"
  "tame (g007_suite K) [g007_remove_tree K]"
  "tame (g011_suite K) [g011_remove_tree K]"
  "tame (g014_suite K) [g014_remove_tree K]"
  "tame (g020_suite K) [g020_remove_tree K]"
  "tame (g023_suite K) [g023_remove_tree K]"
  "tame (g069_suite K) [g069_remove_tree K]"
  "tame (g070_suite K) [g070_remove_tree K]"
  "tame (g074_suite K) [g074_remove_tree K]"
  "tame (g075_suite K) [g075_remove_tree K]"
  "tame (g086_suite K inval) [g086_remove_tree K]"
  "tame (g089_suite K) [g089_remove_tree K]"
  "tame (g109_suite K iterate) [g109_remove_tree K]"
  "tame (g124_suite K) [g124_remove_tree K]"
  "tame (g129_suite K) [g129_remove_tree K]"
  "tame (g130_suite K) [g130_remove_tree K]"
  "tame (g132_suite K) [g132_remove_tree K]"
  "tame (g135_suite K inval) [g135_remove_tree K]"
  "tame (g169_suite K) [g169_remove_tree K]"
  "tame (g214_suite K junk) [g214_remove_tree K]"
  "tame (g245_suite K) [g245_remove_tree K]"
  "tame (g285_suite K seek) [g285_remove_tree K]"
  "tame (g286_suite K seek) [g286_remove_tree K]"
  "tame (g337_suite K) [g337_remove_tree K]"
  "tame (g360_suite K) [g360_remove_tree K]"
  "tame (g377_suite K) [g377_remove_tree K]"
  "tame (g393_suite K) [g393_remove_tree K]"
  "tame (g401_suite K iterate) [g401_remove_tree K]"
  "tame (g412_suite K) [g412_remove_tree K]"
  "tame (g420_suite K) [g420_remove_tree K]"
  "tame (g430_suite K copy) [g430_remove_tree K]"
  "tame (g431_suite K copy) [g431_remove_tree K]"
  "tame (g432_suite K copy) [g432_remove_tree K]"
  "tame (g433_suite K copy) [g433_remove_tree K]"
  "tame (g436_suite K seek) [g436_remove_tree K]"
  "tame (g439_suite K inval) [g439_remove_tree K]"
  "tame (g448_suite K seek) [g448_remove_tree K]"
  "tame (g450_suite K) [g450_remove_tree K]"
  "tame (g453_suite K iterate) [g453_remove_tree K]"
  "tame (g454_suite K) [g454_remove_tree K]"
  "tame (g471_suite K iterate seek) [g471_remove_tree K]"
  "tame (g486_suite K) [g486_remove_tree K]"
  "tame (g490_suite K seek) [g490_remove_tree K]"
  "tame (g523_suite K) [g523_remove_tree K]"
  "tame (g533_suite K) [g533_remove_tree K]"
  "tame (g539_suite K seek) [g539_remove_tree K]"
  "tame (g611_suite K) [g611_remove_tree K]"
  "tame (g618_suite K) [g618_remove_tree K]"
  "tame (g639_suite K inval) [g639_remove_tree K]"
  "tame (g706_suite K seek) [g706_remove_tree K]"
  "tame (g763_suite K) [g763_remove_tree K]"
  unfolding tame_parts suite_code port_code
  by (intro tame_intros keeps_write_chunks keeps_verify_chunks; simp add: deployment_def)+

section \<open>A suite's life\<close>

inductive in_suite ::
  "'w kernel \<Rightarrow> ('w, 'z) fxs_scheme suite \<Rightarrow> (('w, 'z) fxs_scheme, unit) prog list \<Rightarrow>
   ('w, 'z) fxs_scheme \<Rightarrow> ('w, 'z) fxs_scheme \<Rightarrow> bool"
  for K S removals s where
  begun: "suite_init S s = Ok 0 t \<Longrightarrow> in_suite K S removals s t"
| hook: "in_suite K S removals s t \<Longrightarrow> in_suite K S removals s (outcome_state (xfstests_nfs_case_init K t))"
| body: "in_suite K S removals s t \<Longrightarrow> (nm, b) \<in> set (test_cases S) \<Longrightarrow> in_suite K S removals s (outcome_state (b t))"
| removal: "in_suite K S removals s t \<Longrightarrow> act \<in> set removals \<Longrightarrow> in_suite K S removals s (outcome_state (act t))"
| outside: "in_suite K S removals s t \<Longrightarrow> in_suite K S removals s (t\<lparr>kw := w, kfails := n, kactions := as\<rparr>)"

definition balanced ::
  "'w kernel \<Rightarrow> ('w, 'z) fxs_scheme suite \<Rightarrow> (('w, 'z) fxs_scheme, unit) prog list \<Rightarrow> bool" where
  \<comment> \<open>from every state of the life cycle: while the suite runs it holds one reference more and everything
    is up; the exit gives the reference back; an init that fails leaves nothing held and nothing up\<close>
  "balanced K S removals = (\<forall>s. fixture_inv s \<longrightarrow>
     (\<forall>t. in_suite K S removals s t \<longrightarrow>
        xfs_fixture_refs t = xfs_fixture_refs s + 1 \<and> deployed t \<and>
        (\<exists>u. suite_exit S t = Ok () u \<and> xfs_fixture_refs u = xfs_fixture_refs s \<and> fixture_inv u)) \<and>
     (\<forall>e t. suite_init S s = Ok e t \<longrightarrow> e \<noteq> 0 \<longrightarrow>
        xfs_fixture_refs s = 0 \<and> xfs_fixture_refs t = 0 \<and> torn_down t))"

lemma in_suite_deployment:
  assumes "in_suite K S removals s t" "tame S removals"
  shows "\<exists>t0. suite_init S s = Ok 0 t0 \<and> deployment t = deployment t0"
  using assms(1)
proof induction
  case (hook t)
  then show ?case by (simp only: keeps_case_init(1) [unfolded keeps_def, rule_format])
next
  case (body t nm b)
  then show ?case using assms(2) by (fastforce simp: tame_def keeps_def)
next
  case (removal t act)
  then show ?case using assms(2) by (fastforce simp: tame_def keeps_def)
qed (auto simp: deployment_def)

lemma balanced_suite:
  assumes "tame S removals" "suite_init S = xfstests_nfs_get K" "suite_exit S = xfstests_nfs_put K"
  shows "balanced K S removals"
  unfolding balanced_def assms(2,3)
proof (intro allI impI conjI)
  fix s t
  assume inv: "fixture_inv s" and run: "in_suite K S removals s t"
  obtain t0 where t0: "xfstests_nfs_get K s = Ok 0 t0" "deployment t = deployment t0"
    using in_suite_deployment [OF run assms(1)] by (auto simp: assms(2))
  then have up: "fixture_inv t" "xfs_fixture_refs t = xfs_fixture_refs s + 1"
    using get_outcome [OF inv, of K] fixture_inv_cong [OF t0(2)] by (auto simp: wp_Ok dest!: deployment_eqD)
  show "xfs_fixture_refs t = xfs_fixture_refs s + 1" by (rule up(2))
  show "deployed t" using up inv by (auto simp: fixture_inv_def split: if_splits)
  show "\<exists>u. xfstests_nfs_put K t = Ok () u \<and> xfs_fixture_refs u = xfs_fixture_refs s \<and> fixture_inv u"
    using put_outcome [OF up(1), of K] up(2) inv by (auto simp: wp_Ok fixture_inv_def [of s])
next
  fix s e t
  assume "fixture_inv s" "xfstests_nfs_get K s = Ok e t" "e \<noteq> 0"
  then have "xfs_fixture_refs s = 0 \<and> xfs_fixture_refs t = 0 \<and> fixture_inv t"
    using get_outcome [of s K] by (auto simp: wp_Ok split: if_splits)
  then show "xfs_fixture_refs s = 0" "xfs_fixture_refs t = 0" "torn_down t" by (auto simp: fixture_inv_def)
qed

end
