(* ===== verification/Spec2Isabelle.thy ===== *)
theory Spec2Isabelle
  imports Suites
begin

text \<open>
  Verification of the NFS playground's KUnit fixture and of its ports of xfstests.

  \<^bold>\<open>The program.\<close>  The repository builds a kernel with KUnit tests in it.  The core of its
  own code is \<open>kunit/xfstests/\<close>: a fixture, \<open>nfs_fixture.c\<close> and \<open>nfs_fixture.h\<close>, that mounts
  a tmpfs, exports it with the in-kernel server and mounts the export again over the
  loopback, and one file per xfstest under \<open>generic/\<close> that runs its test against the
  mount.  A port is a KUnit suite: \<open>suite_init\<close> takes a reference on the fixture with
  \<open>xfstests_nfs_get\<close>, the first of which brings everything up; the cases call the fixture's
  helpers and some kernel functions directly and register the removal of their files as
  deferred actions; \<open>suite_exit\<close> drops the reference with \<open>xfstests_nfs_put\<close>, the last of
  which tears everything down.  The state is the fixture's static variables (reference
  count, deployment flags, cached mounts and options, the saved credentials), the statics
  of a port (\<open>gen001_link\<close>, the shadow of \<open>075.c\<close>, the generations of \<open>070.c\<close>, ...), KUnit's
  bookkeeping of a case, and the world of the kernel.

  \<^bold>\<open>The model.\<close>
  \<^item> Prelude: byte buffers (positional writes, truncation, holes), snprintf's conversions.
  \<^item> Kernel: the kernel's functions as the fields of the record \<open>kernel\<close>, over an
    unspecified world.  None of that code is in the repository; nothing is assumed of it
    here, and every definition that calls the kernel takes the record as an argument.
  \<^item> Harness: C statements with KUnit's macros as a monad of results \<open>Ok\<close>, \<open>Abort\<close>, \<open>Skip\<close>
    and \<open>Stuck\<close> over the state, the calculus \<open>wp\<close>, and \<open>passes\<close>: the case runs to its end
    and no assertion or expectation fails.
  \<^item> Fixture (first half of \<open>nfs_fixture.c\<close>: paths, I/O, attributes, xattrs, locks,
    credentials) and FixtureEnv (second half: mounts, exports, knfsd, bring-up, the scratch
    mount, user space programs, teardown, get and put), function by function.
  \<^item> Frames: which predicates of the state a helper stays in, which variables it can change and
    that it returns; the record of a suite.  Lifecycle: gets, puts and helper calls as an
    inductive step relation with its invariant, for every behaviour of the kernel.
  \<^item> Resources, Deploy, FixtureProps: path references and open files, credentials and mounts as
    resources with balanced use, bring-up and teardown against a mount table and a server that
    pins what it exports, and the fixture's properties.
  \<^item> Posix: the view \<open>fsv\<close> of a file system (names, inodes, open files, path references) and
    the contract \<open>posix_kernel\<close> the ports rely on.  PosixRules: one rule per helper and case.
    MemKernel: an executable in-memory kernel that meets the contract.
  \<^item> Ports: the shared prologue of a case and the naming schemes.  On it three reasoning
    layers, each an abstraction of the view with one rule per operation: Files (one file
    and its contents), Links (one inode and its names), Stores (a map from names to
    contents, with open handles); Server adds the server's copy to a store, Sparse
    allocation, punching and cache drops, Direct direct I/O, Copies \<open>copy_file_range\<close>, Pages and
    Seeks sparse files by pages and \<open>vfs_llseek\<close>, Xattrs
    maps from names to attribute tables.  Paths and Trees are the layer of the ports that
    rename and remove directories: a map from path names to nodes and POSIX's rename on it;
    Symlinks adds the following of symbolic links to it, Readdir device nodes and the reading of
    directories by batches of entries.
  \<^item> Gen\<open>NNN\<close>: the port \<open>generic/NNN.c\<close>, its constants, statics, helpers, cases and suite under
    the names of the source, and its proof.  SeekPorts holds the ports 285, 448 and 706,
    ReaddirPorts the ports 401, 453 and 471.
  \<^item> Suites: the 54 ported suites between their init and exit as an inductive relation over any
    order of their cases and removals, and that none of this code touches the deployment.

  \<^bold>\<open>How the code maps to definitions.\<close>  A C function is one definition of the same name; a
  loop is \<open>for_each\<close>, \<open>for_fold\<close> or \<open>for_while\<close> over its indices, or a recursion with a bound;
  a loop body or a table that has no name in C has a definition of its own next to the
  function.  A buffer is a byte list that is returned; a position passed by pointer is
  returned too.  \<open>loff_t\<close> and \<open>int\<close> are \<open>int\<close>, sizes are \<open>nat\<close>, bytes and hashes are words, an error pointer is
  \<open>Inl\<close> of the negative errno.  The statics of a port are the fields of an extension of the
  fixture's state record.

  \<^bold>\<open>The interfaces.\<close>  The kernel's promises are locales: \<open>ref_counts\<close> (which calls take and drop
  references), \<open>cred_kernel\<close>, \<open>mount_kernel\<close>, \<open>server_mounts\<close> (an unmount of a server-side mount is
  refused while the server is on it, and nobody else is), \<open>short_writes\<close> (a file that takes any
  prefix of a write), \<open>posix_kernel\<close>, extended by \<open>exported\<close> (the export shows closed files), \<open>nfs42\<close>
  (allocation, punching, invalidation), \<open>direct_io\<close> (direct reads and writes), \<open>seeking\<close>
  (\<open>SEEK_DATA\<close> and \<open>SEEK_HOLE\<close> over pages with data), \<open>copies\<close> (\<open>copy_file_range\<close> that copies at least
  \<open>lo\<close> bytes where they are there and at most \<open>hi\<close>) with the case \<open>whole_copies\<close> in which \<open>lo\<close> covers the
  ports' files, \<open>tree_kernel\<close> (rename, unlink and rmdir on directories) and its extensions
  \<open>symlinks\<close> (reading links and opening through at most \<open>MAXSYMLINKS\<close> of them) and \<open>readdir\<close> (a
  stream of entries that each call takes a batch from, and its rewind), the last with the
  extension \<open>readdir_batch\<close> by a least size of a batch that does not end the directory.  The laws are the manual
  pages' for the calls the ports make and say nothing of other calls; that a call does not
  fail for want of memory, space or rights is part of them, as the ports take such an error
  for a failure.  All are interpreted on the in-memory kernel (\<open>counts\<close>, \<open>mcred\<close>, \<open>mmnt\<close>, \<open>msrv\<close>,
  \<open>drip\<close>, \<open>mem\<close>, \<open>exp\<close>, \<open>sparse\<close>, \<open>direct\<close>, \<open>seeks\<close>, \<open>copying\<close> with copies up to any size and
  \<open>copying_all\<close>, \<open>trees\<close>, \<open>dirs\<close> in batches of three entries and \<open>batches\<close> of any size, and \<open>links\<close> on
  its variant \<open>symk\<close> that follows links), which is also the instance of the
  witnesses.  Inside the program, \<open>steady\<close> and \<open>statics\<close> are the contracts of a predicate and of a projection of the state the
  helpers frame (\<open>failed\<close>, \<open>dep\<close>, \<open>idn\<close>), \<open>name_table\<close> and \<open>slot_dir\<close> that of a port's numbered names,
  interpreted on each port's naming function.

  \<^bold>\<open>What is shown.\<close>  Of the fixture, with no assumption on the kernel: the reference count
  and the deployment agree in every reachable state, a get is all or nothing, every helper
  returns, each ported suite gives back what it takes; and under the resource laws that no helper
  leaks a path reference, an open file or an identity on any path, and when a bring-up and a
  teardown leave a mount behind.  Of the ports: each case
  passes on every kernel that meets the contract, from every state in which the mount is
  there and the case's directory is not.  That is a statement about the port: its
  expectations follow from documented behaviour, its model (the shadow of fsx, the table of
  nametest, the generations of the attribute storm, a store of lettered runs, dirstress's table of kinds) is a sound
  abstraction, its indices stay in range, its names do not collide and its loops end.  It
  does not say that the kernel is correct.

  \<^bold>\<open>Bounds and fuel.\<close>  Retry loops of the fixture run as often as the source says (the scratch
  unmount at most eight times).  The copy loop of \<open>001.c\<close> has no bound in the source: \<open>GEN001_FUEL\<close>
  = 2 ^ 31 turns are enough because each turn that goes on copies at least one byte of a
  file below \<open>size_limit\<close> = 2 ^ 31, the limit of a file opened without O_LARGEFILE to which the
  contract restricts offsets.  The walk of \<open>286.c\<close> has \<open>G286_FUEL\<close> turns, one more than the bytes of
  its file, each turn moving on by a byte at least; the search for the allocation unit has
  \<open>ALLOC_FUEL\<close> = 64, each turn doubling or halving an offset below 2 ^ 32.  A loop that reads a directory has
  \<open>READDIR_FUEL\<close> = 64 turns: each but the last takes an entry, and no directory read by such a loop
  has more than eighteen.  A run that used its fuel up would be \<open>Stuck\<close> and would not pass.

  \<^bold>\<open>Not modelled.\<close>  Ports whose subject is concurrency (threads of \<open>kthread_run\<close>, racing
  writers), user-space mappings and page faults (\<open>vm_mmap\<close>, \<open>xfs_user_write\<close> into mapped
  pages), full file systems, permissions of users other than root, time stamps and mount
  cycles: they need contracts of
  kernel code that the documented behaviour alone does not pin down, or a memory model.
  The unit suites outside \<open>xfstests/\<close> tabulate constants and results of kernel-internal
  functions, whose code is not in the repository.  Messages of the KUnit macros, the
  contents of log lines other than \<open>log_lines\<close>, and the
  fixture's mutexes are left out; get and put are atomic steps.
\<close>

section \<open>Properties that span ports\<close>

text \<open>
  C9: every ported suite gives back what it takes.  Whatever the kernel returns, and whatever
  runs between a suite's init and exit of its cases, of the removals they register and of
  the per-case hook, in any order, each ending in any way: while it runs the suite
  holds exactly one reference more than before and everything is up, its exit returns the
  count to what it was, and an init that fails leaves nothing held and nothing up.
\<close>

theorem suite_balanced:
  "balanced K (gen001_suite K nh wr) [gen001_remove_tree K] \<and>
    balanced K (g002_suite K) [g002_remove_tree K] \<and>
    balanced K (g005_suite K) [g005_remove_tree K] \<and>
    balanced K (g006_suite K) [g006_remove_tree K] \<and>
    balanced K (g007_suite K) [g007_remove_tree K] \<and>
    balanced K (g011_suite K) [g011_remove_tree K] \<and>
    balanced K (g014_suite K) [g014_remove_tree K] \<and>
    balanced K (g020_suite K) [g020_remove_tree K] \<and>
    balanced K (g023_suite K) [g023_remove_tree K] \<and>
    balanced K (g069_suite K) [g069_remove_tree K] \<and>
    balanced K (g070_suite K) [g070_remove_tree K] \<and>
    balanced K (g074_suite K) [g074_remove_tree K] \<and>
    balanced K (g075_suite K) [g075_remove_tree K] \<and>
    balanced K (g086_suite K inval) [g086_remove_tree K] \<and>
    balanced K (g089_suite K) [g089_remove_tree K] \<and>
    balanced K (g109_suite K iterate) [g109_remove_tree K] \<and>
    balanced K (g124_suite K) [g124_remove_tree K] \<and>
    balanced K (g129_suite K) [g129_remove_tree K] \<and>
    balanced K (g130_suite K) [g130_remove_tree K] \<and>
    balanced K (g132_suite K) [g132_remove_tree K] \<and>
    balanced K (g135_suite K inval) [g135_remove_tree K] \<and>
    balanced K (g169_suite K) [g169_remove_tree K] \<and>
    balanced K (g214_suite K junk) [g214_remove_tree K] \<and>
    balanced K (g245_suite K) [g245_remove_tree K] \<and>
    balanced K (g285_suite K seek) [g285_remove_tree K] \<and>
    balanced K (g286_suite K seek) [g286_remove_tree K] \<and>
    balanced K (g337_suite K) [g337_remove_tree K] \<and>
    balanced K (g360_suite K) [g360_remove_tree K] \<and>
    balanced K (g377_suite K) [g377_remove_tree K] \<and>
    balanced K (g393_suite K) [g393_remove_tree K] \<and>
    balanced K (g401_suite K iterate) [g401_remove_tree K] \<and>
    balanced K (g412_suite K) [g412_remove_tree K] \<and>
    balanced K (g420_suite K) [g420_remove_tree K] \<and>
    balanced K (g430_suite K copy) [g430_remove_tree K] \<and>
    balanced K (g431_suite K copy) [g431_remove_tree K] \<and>
    balanced K (g432_suite K copy) [g432_remove_tree K] \<and>
    balanced K (g433_suite K copy) [g433_remove_tree K] \<and>
    balanced K (g436_suite K seek) [g436_remove_tree K] \<and>
    balanced K (g439_suite K inval) [g439_remove_tree K] \<and>
    balanced K (g448_suite K seek) [g448_remove_tree K] \<and>
    balanced K (g450_suite K) [g450_remove_tree K] \<and>
    balanced K (g453_suite K iterate) [g453_remove_tree K] \<and>
    balanced K (g454_suite K) [g454_remove_tree K] \<and>
    balanced K (g471_suite K iterate seek) [g471_remove_tree K] \<and>
    balanced K (g486_suite K) [g486_remove_tree K] \<and>
    balanced K (g490_suite K seek) [g490_remove_tree K] \<and>
    balanced K (g523_suite K) [g523_remove_tree K] \<and>
    balanced K (g533_suite K) [g533_remove_tree K] \<and>
    balanced K (g539_suite K seek) [g539_remove_tree K] \<and>
    balanced K (g611_suite K) [g611_remove_tree K] \<and>
    balanced K (g618_suite K) [g618_remove_tree K] \<and>
    balanced K (g639_suite K inval) [g639_remove_tree K] \<and>
    balanced K (g706_suite K seek) [g706_remove_tree K] \<and>
    balanced K (g763_suite K) [g763_remove_tree K]"
  by (intro conjI balanced_suite tame_suites) (simp_all add: suite_code)

theorem suite_balanced_witness:
  "\<exists>t u. in_suite servek (g430_suite servek (mem_copy_range 9)) [g430_remove_tree servek] boot t \<and> client_mounted t \<and>
     suite_exit (g430_suite servek (mem_copy_range 9)) t = Ok () u \<and> xfs_fixture_refs u = 0"
proof -
  let ?S = "g430_suite servek (mem_copy_range 9) :: (memw, unit) fxs_scheme suite"
  obtain t0 where "xfstests_nfs_get servek boot = Ok 0 t0" using serve_get by (auto simp: wp_Ok)
  then have "suite_init ?S boot = Ok 0 t0" by (simp add: suite_code)
  then have "in_suite servek ?S [g430_remove_tree servek] boot t0" by (rule in_suite.begun)
  then have t: "in_suite servek ?S [g430_remove_tree servek] boot
      (outcome_state (copy_file_range_into_new_files servek (mem_copy_range 9) t0))"
    by (rule in_suite.body) (simp add: suite_code)
  have "balanced servek ?S [g430_remove_tree servek]" by (simp only: suite_balanced)
  from this [unfolded balanced_def, rule_format, OF boot_ok(2), THEN conjunct1, rule_format, OF t]
  show ?thesis using t by (auto simp: deployed_def boot_def)
qed

text \<open>
  C27: five ports on a plain mount pass on every kernel that meets the contract: the link
  count is the number of names after each of nineteen links and before each of twenty
  removals; in two hundred cycles of link, rename and unlink the rename between two names of
  one file changes nothing; five hundred appended chunks lie one after the other; eight
  blocks of less than a page read back the byte of each of fifty passes; and after a churn
  of random truncations the size is the last one and the grown range is zero.
\<close>

theorem posix_ports_pass:
  assumes "posix_kernel K V ok"
    and "ready V ok G002_ROOT s" "ready V ok G089_ROOT s" "ready V ok G069_ROOT s" "ready V ok G132_ROOT s" "ready V ok G014_ROOT s"
  shows "passes (link_count_follows_every_link_and_unlink K) s \<and> passes (link_rename_cycles_keep_nlink_exact K) s \<and>
    passes (appends_accumulate_exactly K) s \<and> passes (subpage_patterns_survive_rewrite_cycles K) s \<and>
    passes (write_truncate_churn_ends_consistent K) s"
  using assms
  by (intro conjI posix_kernel.g002_run_ok posix_kernel.g089_run_ok posix_kernel.g069_run_ok posix_kernel.g132_run_ok
      posix_kernel.g014_run_ok) assumption+

theorem posix_ports_pass_witness:
  "passes (link_count_follows_every_link_and_unlink memk) (fx0 ()) \<and> passes (link_rename_cycles_keep_nlink_exact memk) (fx0 ()) \<and>
   passes (appends_accumulate_exactly memk) (fx0 ()) \<and> passes (subpage_patterns_survive_rewrite_cycles memk) (fx0 ()) \<and>
   passes (write_truncate_churn_ends_consistent memk) (fx0 ())"
  by (rule posix_ports_pass [OF mem.posix_kernel_axioms])
    (simp_all add: G002_ROOT_def G089_ROOT_def G069_ROOT_def G132_ROOT_def G014_ROOT_def fx0_ready)

text \<open>
  C15: the attribute ports pass on every kernel that meets the contract and exports the
  mount: fifty values and one of nearly 4K read back and leave an empty list, names that
  collide under crc32c, that render alike or that hold a slash stay different names and
  are listed once each, an empty value exists, and what was set or removed through the
  client is what the server's copy has.
\<close>

theorem xattr_ports_pass:
  assumes "exported K V ok"
    and "ready V ok G020_ROOT s" "ready V ok G337_ROOT s" "ready V ok G454_ROOT s" "ready V ok G523_ROOT s"
      "ready V ok G533_ROOT s" "ready V ok G611_ROOT s" "ready V ok G618_ROOT s"
  shows "passes (fifty_attributes_and_a_big_one K) s \<and> passes (listxattr_returns_every_name K) s \<and>
    passes (keys_that_look_alike_stay_different_keys K) s \<and> passes (an_xattr_name_may_contain_a_slash K) s \<and>
    passes (user_xattrs_are_set_listed_and_removed K) s \<and> passes (a_one_character_name_with_an_empty_value_survives K) s \<and>
    passes (two_mid_sized_xattrs_both_survive K) s"
  using assms exported.axioms(1) [OF assms(1)]
  by (intro conjI posix_kernel.g020_run_ok exported.g337_run_ok exported.g454_run_ok exported.g523_run_ok
      exported.g533_run_ok exported.g611_run_ok exported.g618_run_ok) assumption+

theorem xattr_ports_pass_witness:
  "passes (fifty_attributes_and_a_big_one expk) (fx0 ()) \<and> passes (listxattr_returns_every_name expk) (fx0 ()) \<and>
    passes (keys_that_look_alike_stay_different_keys expk) (fx0 ()) \<and> passes (an_xattr_name_may_contain_a_slash expk) (fx0 ()) \<and>
    passes (user_xattrs_are_set_listed_and_removed expk) (fx0 ()) \<and>
    passes (a_one_character_name_with_an_empty_value_survives expk) (fx0 ()) \<and>
    passes (two_mid_sized_xattrs_both_survive expk) (fx0 ())"
  by (rule xattr_ports_pass [OF exp.exported_axioms])
    (simp_all add: G020_ROOT_def G337_ROOT_def G454_ROOT_def G523_ROOT_def G533_ROOT_def G611_ROOT_def G618_ROOT_def fx0_ready)

text \<open>
  C17: the ports about ways to write and sizes pass on every kernel that meets the contract
  with direct access: buffered, synchronous and direct writes store the same bytes and a
  truncation cuts them, a direct write behind a hole leaves the hole zero, reads at and
  past the end are short and not errors, a write of no bytes changes nothing, a hole
  punched past the end leaves the size alone, and a write beside bytes that are not in the
  cache keeps them.
\<close>

theorem direct_ports_pass:
  assumes "direct_io K V ok inval"
    and "ready V ok G135_ROOT s" "ready V ok G412_ROOT s" "ready V ok G450_ROOT s" "ready V ok G763_ROOT s"
      "ready V ok G420_ROOT s" "ready V ok G639_ROOT s"
  shows "passes (every_write_path_lands_the_same_bytes K inval) s \<and>
    passes (a_truncate_into_a_hole_keeps_the_file_consistent K) s \<and>
    passes (reads_at_and_past_eof_are_short_not_errors K) s \<and>
    passes (a_zero_byte_write_succeeds_and_changes_nothing K) s \<and>
    passes (punch_past_eof_keeps_size K) s \<and> passes (a_write_beside_uncached_data_keeps_it K inval) s"
  using assms direct_io.axioms(1) [OF assms(1)]
  by (intro conjI direct_io.g135_run_ok direct_io.g412_run_ok direct_io.g450_run_ok direct_io.g763_run_ok
      nfs42.g420_run_ok nfs42.g639_run_ok) assumption+

theorem direct_ports_pass_witness:
  "passes (every_write_path_lands_the_same_bytes expk mem_inval) (fx0 ()) \<and>
   passes (a_truncate_into_a_hole_keeps_the_file_consistent expk) (fx0 ()) \<and>
   passes (reads_at_and_past_eof_are_short_not_errors expk) (fx0 ()) \<and>
   passes (a_zero_byte_write_succeeds_and_changes_nothing expk) (fx0 ()) \<and>
   passes (punch_past_eof_keeps_size expk) (fx0 ()) \<and>
   passes (a_write_beside_uncached_data_keeps_it expk mem_inval) (fx0 ())"
  by (rule direct_ports_pass [OF direct.direct_io_axioms])
    (simp_all add: G135_ROOT_def G412_ROOT_def G450_ROOT_def G763_ROOT_def G420_ROOT_def G639_ROOT_def fx0_ready)

text \<open>
  C18: the ports on \<open>copy_file_range\<close> pass on every kernel whose call copies between two files
  without an error and at least 5000 bytes at once: into new files, past the end of the source,
  behind a hole, one byte at a time, and over an existing file, whose size follows the furthest
  byte written.  The call may also copy fewer bytes than asked for, and the ports do not go on
  after a short count: on a kernel that never copies 5000 bytes in one call, generic/430 and
  432 report a failure, and on one that never copies five, all four do.
\<close>

theorem copy_range_ports_pass:
  assumes "copies K V ok copy lo hi"
    and "ready V ok G430_ROOT s" "ready V ok G431_ROOT s" "ready V ok G432_ROOT s" "ready V ok G433_ROOT s"
  shows "(5000 \<le> lo \<longrightarrow>
      passes (copy_file_range_into_new_files K copy) s \<and> passes (one_byte_copies_land_exactly K copy) s \<and>
      passes (thousand_byte_copies_rearrange_an_existing_file K copy) s \<and> passes (copies_rearrange_an_existing_file K copy) s) \<and>
    (hi < 5000 \<longrightarrow>
      kfails s < kfails (outcome_state (copy_file_range_into_new_files K copy s)) \<and>
      kfails s < kfails (outcome_state (thousand_byte_copies_rearrange_an_existing_file K copy s))) \<and>
    (hi < 5 \<longrightarrow>
      kfails s < kfails (outcome_state (one_byte_copies_land_exactly K copy s)) \<and>
      kfails s < kfails (outcome_state (copies_rearrange_an_existing_file K copy s)))"
proof (intro conjI impI)
  assume "5000 \<le> lo"
  with assms(1) have w: "whole_copies K V ok copy lo hi"
    by (intro whole_copies.intro whole_copies_axioms.intro)
  show "passes (copy_file_range_into_new_files K copy) s" by (rule whole_copies.g430_run_ok [OF w assms(2)])
  show "passes (one_byte_copies_land_exactly K copy) s" by (rule whole_copies.g431_run_ok [OF w assms(3)])
  show "passes (thousand_byte_copies_rearrange_an_existing_file K copy) s" by (rule whole_copies.g432_run_ok [OF w assms(4)])
  show "passes (copies_rearrange_an_existing_file K copy) s" by (rule whole_copies.g433_run_ok [OF w assms(5)])
qed (rule copies.g430_short [OF assms(1,2)] copies.g432_short [OF assms(1,4)]
    copies.g431_short [OF assms(1,3)] copies.g433_short [OF assms(1,5)], assumption)+

theorem copy_range_ports_pass_witness:
  "passes (copy_file_range_into_new_files expk (mem_copy_range 5000)) (fx0 ()) \<and>
   passes (one_byte_copies_land_exactly expk (mem_copy_range 5000)) (fx0 ()) \<and>
   passes (thousand_byte_copies_rearrange_an_existing_file expk (mem_copy_range 5000)) (fx0 ()) \<and>
   passes (copies_rearrange_an_existing_file expk (mem_copy_range 5000)) (fx0 ()) \<and>
   0 < kfails (outcome_state (copy_file_range_into_new_files expk (mem_copy_range 4096) (fx0 ()))) \<and>
   0 < kfails (outcome_state (copies_rearrange_an_existing_file expk (mem_copy_range 4) (fx0 ())))"
proof -
  note all = copy_range_ports_pass [OF copying.copies_axioms, where s = "fx0 ()"]
  have r: "ready mv mem_ok r (fx0 ())" if "r \<in> {G430_ROOT, G431_ROOT, G432_ROOT, G433_ROOT}" for r
    using that by (auto simp: G430_ROOT_def G431_ROOT_def G432_ROOT_def G433_ROOT_def fx0_ready)
  have "kfails (fx0 ()) = 0" by (simp add: fx0_def)
  then show ?thesis using all [of 5000] all [of 4096] all [of 4] r by simp
qed

text \<open>
  C33: two ports on symbolic links pass on every kernel that reads and follows links as
  documented: an open through \<open>MAXSYMLINKS\<close> links of the chain reaches the file and one
  through more, or through a link to itself, fails with ELOOP; a target of 1019 characters
  comes back unchanged and is the size of the link.
\<close>

theorem symlink_ports_pass:
  assumes "symlinks K V ok" and "ready V ok G005_ROOT s" "ready V ok G360_ROOT s"
  shows "passes (deep_symlink_chains_hit_eloop_at_maxsymlinks K) s \<and> passes (long_symlink_targets_round_trip K) s"
  using assms by (intro conjI symlinks.g005_run_ok symlinks.g360_run_ok) assumption+

theorem symlink_ports_pass_witness:
  "passes (deep_symlink_chains_hit_eloop_at_maxsymlinks symk) (fx0 ()) \<and> passes (long_symlink_targets_round_trip symk) (fx0 ())"
  by (rule symlink_ports_pass [OF links.symlinks_axioms]) (simp_all add: G005_ROOT_def G360_ROOT_def fx0_ready)

text \<open>
  C34: what \<open>vfs_fallocate\<close> allocates reads as zeros, keeps what was written before or is
  written after it, survives a truncation inside it, and counts for the size, on every
  kernel that meets the contract with direct access, whatever the buffer of the direct read
  held before.
\<close>

theorem allocated_ranges_pass:
  assumes "direct_io K V ok inval" and "ready V ok G214_ROOT s" and "length junk = G214_MAX"
  shows "passes (allocated_space_reads_as_zeroes K) s \<and> passes (a_write_into_allocated_space_leaves_the_rest_alone K) s \<and>
    passes (a_truncate_after_allocate_and_write K junk) s \<and> passes (allocating_over_a_written_range K) s \<and>
    passes (a_scatter_of_writes_around_an_allocate K) s"
  using assms
  by (intro conjI direct_io.g214_zeroes_ok direct_io.g214_write_ok direct_io.g214_truncate_ok direct_io.g214_over_ok
      direct_io.g214_scatter_ok) assumption+

theorem allocated_ranges_pass_witness:
  "passes (allocated_space_reads_as_zeroes expk) (fx0 ()) \<and> passes (a_write_into_allocated_space_leaves_the_rest_alone expk) (fx0 ()) \<and>
   passes (a_truncate_after_allocate_and_write expk (replicate G214_MAX 0)) (fx0 ()) \<and>
   passes (allocating_over_a_written_range expk) (fx0 ()) \<and> passes (a_scatter_of_writes_around_an_allocate expk) (fx0 ())"
  by (rule allocated_ranges_pass [OF direct.direct_io_axioms]) (simp_all add: G214_ROOT_def fx0_ready)

text \<open>
  C19: the result codes of the attribute calls, on every kernel that meets the contract and
  exports the mount: a query of the list gives its exact size, a buffer that is too small
  ERANGE, a path that is not there ENOENT; a creation refuses a name that is there and a
  replacement one that is not, and neither changes anything; a tiny value can be replaced by
  a large one.
\<close>

theorem xattr_errors_pass:
  assumes "exported K V ok" and "ready V ok G377_ROOT s" "ready V ok G486_ROOT s"
  shows "passes (listxattr_sizes_are_all_or_erange K) s \<and> passes (the_create_and_replace_flags_are_enforced K) s \<and>
    passes (replacing_a_tiny_attr_with_a_large_one_works K) s"
  using assms exported.axioms(1) [OF assms(1)]
  by (intro conjI posix_kernel.g377_run_ok exported.g486_flags_ok exported.g486_replace_ok) assumption+

theorem xattr_errors_pass_witness:
  "passes (listxattr_sizes_are_all_or_erange expk) (fx0 ()) \<and> passes (the_create_and_replace_flags_are_enforced expk) (fx0 ()) \<and>
   passes (replacing_a_tiny_attr_with_a_large_one_works expk) (fx0 ())"
  by (rule xattr_errors_pass [OF exp.exported_axioms]) (simp_all add: G377_ROOT_def G486_ROOT_def fx0_ready)

text \<open>
  C20: the ports on \<open>SEEK_DATA\<close> and \<open>SEEK_HOLE\<close> pass on every kernel whose file system tracks
  data by pages: around an island, at negative offsets, on one byte, over preallocated space
  with dirty runs, behind a punched hole whose unit the search of \<open>get_io_sizes\<close> finds within its
  fuel, from inside a large hole; the walk over the extents of a sparse file ends and copies
  it exactly; and from inside a hole of 32 gigabytes, unless the server refuses the size, in
  which case the case skips itself.
\<close>

theorem seek_ports_pass:
  assumes "seeking K V ok inval seek P"
    and "ready V ok G285_ROOT s" "ready V ok G286_ROOT s" "ready V ok G436_ROOT s" "ready V ok G448_ROOT s"
      "ready V ok G490_ROOT s" "ready V ok G539_ROOT s" "ready V ok G706_ROOT s"
  shows "passes (seek_hole_data_boundaries_are_exact K seek) s \<and> passes (seek_walk_copies_sparse_files_faithfully K seek) s \<and>
    passes (seek_over_unwritten_extents_with_dirty_data K seek) s \<and> passes (negative_seek_offsets_are_rejected K seek) s \<and>
    passes (seek_data_from_inside_a_large_hole K seek) s \<and> passes_or_skips (seek_data_from_inside_a_huge_hole K seek) s \<and>
    passes (seek_hole_finds_a_punched_hole K seek) s \<and> passes (seek_data_on_a_one_byte_file K seek) s"
  using assms
  by (intro conjI seeking.g285_run_ok seeking.g286_run_ok seeking.g436_run_ok seeking.g448_run_ok
      seeking.g490_large_ok seeking.g490_huge_ok seeking.g539_run_ok seeking.g706_run_ok) assumption+

theorem seek_ports_pass_witness:
  "passes (seek_hole_data_boundaries_are_exact expk mem_seek) (fx0 ()) \<and>
   passes (seek_walk_copies_sparse_files_faithfully expk mem_seek) (fx0 ()) \<and>
   passes (seek_over_unwritten_extents_with_dirty_data expk mem_seek) (fx0 ()) \<and>
   passes (negative_seek_offsets_are_rejected expk mem_seek) (fx0 ()) \<and>
   passes (seek_data_from_inside_a_large_hole expk mem_seek) (fx0 ()) \<and>
   passes_or_skips (seek_data_from_inside_a_huge_hole expk mem_seek) (fx0 ()) \<and>
   passes (seek_hole_finds_a_punched_hole expk mem_seek) (fx0 ()) \<and> passes (seek_data_on_a_one_byte_file expk mem_seek) (fx0 ())"
  by (rule seek_ports_pass [OF seeks.seeking_axioms])
    (simp_all add: G285_ROOT_def G286_ROOT_def G436_ROOT_def G448_ROOT_def G490_ROOT_def G539_ROOT_def G706_ROOT_def fx0_ready)

text \<open>
  C31: three ports that look at the server's copy pass on every exported kernel that meets the
  contract: the size is exact after each append, on the client and in the export; a file
  truncated to nothing and up again is zeros in both; and in each of twenty rounds every one
  of 131072 counters decodes, at its own offset, to its own index, in the last round on the
  server too.
\<close>

theorem exported_sizes_pass:
  assumes "exported K V ok" and "ready V ok G169_ROOT s" "ready V ok G393_ROOT s" "ready V ok G124_ROOT s"
  shows "passes (appended_sizes_survive_a_cold_read K) s \<and> passes (truncate_to_zero_then_up_reads_as_a_hole K) s \<and>
    passes (the_positional_pattern_survives_every_round K) s"
  using assms by (intro conjI exported.g169_run_ok exported.g393_run_ok exported.g124_run_ok) assumption+

theorem exported_sizes_pass_witness:
  "passes (appended_sizes_survive_a_cold_read expk) (fx0 ()) \<and> passes (truncate_to_zero_then_up_reads_as_a_hole expk) (fx0 ()) \<and>
   passes (the_positional_pattern_survives_every_round expk) (fx0 ())"
  by (rule exported_sizes_pass [OF exp.exported_axioms]) (simp_all add: G169_ROOT_def G393_ROOT_def G124_ROOT_def fx0_ready)

text \<open>
  C32: two ports of random and of repeated block writes pass on every kernel that meets the
  contract: fstest's four files stay equal to their shadows over two hundred rounds, whatever
  the random numbers, and every block of looptest's four parameter sets reads back as written.
\<close>

theorem block_ports_pass:
  assumes "posix_kernel K V ok" and "ready V ok G074_ROOT s" "ready V ok G129_ROOT t"
  shows "passes (patterned_rounds_verify_against_shadows K) s \<and> passes (looptest_parameter_sets_read_back_what_they_wrote K) t"
  using assms by (intro conjI posix_kernel.g074_run_ok posix_kernel.g129_run_ok) assumption+

theorem block_ports_pass_witness:
  "passes (patterned_rounds_verify_against_shadows memk) (fx0 \<lparr>g074_shadow = \<lambda>_. []\<rparr>) \<and>
   passes (looptest_parameter_sets_read_back_what_they_wrote memk) (fx0 ())"
  by (rule block_ports_pass [OF mem.posix_kernel_axioms]) (simp_all add: G074_ROOT_def G129_ROOT_def fx0_ready)

text \<open>
  C28: renames keep the type of what they move, on every kernel that renames as POSIX says: six
  renames of files and links over files, links and free names, in a directory of eight more
  files, leave each target with the type of its source, under the directory's old name and
  under the name it is renamed to; and a directory that is not empty is never replaced,
  whatever moves onto it.
\<close>

theorem rename_ports_pass:
  assumes "tree_kernel K V ok" and "ready V ok G109_ROOT s" "ready V ok G245_ROOT t"
  shows "passes (renamed_directories_keep_their_entry_types K) s \<and> passes (nonempty_rename_targets_are_refused K) t"
  by (intro conjI tree_kernel.g109_moved_run_ok [OF assms(1,2)] tree_kernel.g245_run_ok [OF assms(1,3)])

theorem rename_ports_pass_witness:
  "passes (renamed_directories_keep_their_entry_types memk) (fx0 \<lparr>g109_cur_files = 0\<rparr>) \<and>
   passes (nonempty_rename_targets_are_refused memk) (fx0 ())"
  by (rule rename_ports_pass [OF trees.tree_kernel_axioms]) (simp_all add: G109_ROOT_def G245_ROOT_def fx0_ready)

text \<open>
  C29: the ports that read a directory to its end pass on every kernel whose readdir gives each
  entry once, in batches of any size: each of the six types of entry comes back as it is, fourteen
  names that look alike are fourteen files with values and inodes of their own and are listed
  once each, and after a rewind the names created since the open are there, each once.
\<close>

theorem readdir_ports_pass:
  assumes "readdir K V ok iterate seek todo"
    and "ready V ok G401_ROOT s" "ready V ok G453_ROOT s" "ready V ok G471_ROOT s"
  shows "passes (readdir_reports_every_entry_type K iterate) s \<and>
    passes (names_that_look_alike_stay_different_files K iterate) s \<and>
    passes (rewinddir_shows_names_created_after_opendir K iterate seek) s"
  using assms by (intro conjI readdir.g401_run_ok readdir.g453_run_ok readdir.g471_run_ok) assumption+

theorem readdir_ports_pass_witness:
  "passes (readdir_reports_every_entry_type memk (mem_iterate (Some 2))) (fx0 ()) \<and>
   passes (names_that_look_alike_stay_different_files memk (mem_iterate (Some 2))) (fx0 ()) \<and>
   passes (rewinddir_shows_names_created_after_opendir memk (mem_iterate (Some 2)) mem_rewind) (fx0 ())"
  by (rule readdir_ports_pass [OF dirs.readdir_axioms]) (simp_all add: G401_ROOT_def G453_ROOT_def G471_ROOT_def fx0_ready)



text \<open>
  C30: the search of generic/109 for a name in a directory looks at one batch only: on any
  kernel it says that the name is there exactly when the first batch of the directory just
  opened holds it, and so misses the entries of every later batch.
\<close>

theorem type_search_sees_one_batch:
  assumes "filp_open K dir {O_RDONLY, O_DIRECTORY} 0 (kw s) = (Inr d, w)" and "iterate d w = ((r, batch), w')"
  shows "\<exists>it t. g109_readdir_type K iterate dir name s = Ok (r, it) t \<and> i109_found it = (name \<in> fst ` set batch)"
  by (rule g109_one_batch [where iterate = iterate and w = w and w' = w', OF assms])

theorem type_search_sees_one_batch_witness:
  "\<exists>it t. g109_readdir_type memk (mem_iterate (Some 0)) XFS_MNT ''..'' (fx0 ()) = Ok (0, it) t \<and> \<not> i109_found it"
proof -
  have "\<exists>it t. g109_readdir_type memk (mem_iterate (Some 0)) XFS_MNT ''..'' (fx0 ()) = Ok (0, it) t \<and>
     i109_found it = (''..'' \<in> fst ` set [(''.'', DT_DIR)])"
    by (rule type_search_sees_one_batch [where w = "snd (mem_open XFS_MNT {O_RDONLY, O_DIRECTORY} 0 mem0)" and d = 1 and
        w' = "snd (mem_iterate (Some 0) 1 (snd (mem_open XFS_MNT {O_RDONLY, O_DIRECTORY} 0 mem0)))"])
      (simp_all add: memk_def mem_open_def mem0_def mem_view_def mem_iterate_def mem_listing_def new_inode_def)
  then show ?thesis by simp
qed

end
